(* ===== verification/Prelude.thy ===== *)
theory Prelude
  imports Main "HOL-Library.Word"
begin

unbundle bit_operations_syntax

text \<open>
  Shared vocabulary of the MonoOS development: the machine integer types of
  \<open>include/types.h\<close>, little-endian byte images of them (the on-disk and in-file structures of the
  kernel are packed little-endian structs), copying into and out of fixed buffers, and the
  generic lemmas on words and lists the component theories share.
\<close>

section \<open>Machine integers\<close>

type_synonym u8 = "8 word"
type_synonym u16 = "16 word"
type_synonym u32 = "32 word"

named_theorems layout_simps "sizes and offsets of packed structures"
named_theorems inv_intros "an operation preserves an invariant"

lemma unat_u32_less [simp]: "unat (w :: u32) < 4294967296"
  using unsigned_less [of w, where ?'a = nat] by simp

lemma unat_u8_less [simp]: "unat (w :: u8) < 256"
  using unsigned_less [of w, where ?'a = nat] by simp

lemma unat_of_nat_u32: "n < 4294967296 \<Longrightarrow> unat (of_nat n :: u32) = n"
  by (simp add: unat_of_nat take_bit_eq_mod)

lemma unat_Suc_u32: "unat (w :: u32) + 1 < 4294967296 \<Longrightarrow> unat (w + 1) = Suc (unat w)"
  by (simp add: unat_word_ariths)

lemma unat_add_u32: "unat (a :: u32) + unat b < 4294967296 \<Longrightarrow> unat (a + b) = unat a + unat b"
  by (simp add: unat_word_ariths)

lemma unat_sub_u32: "unat (b :: u32) \<le> unat a \<Longrightarrow> unat (a - b) = unat a - unat b"
  by (simp add: unat_sub word_le_nat_alt)

lemma unat_mult_u32: "unat (a :: u32) * unat b < 4294967296 \<Longrightarrow> unat (a * b) = unat a * unat b"
  by (simp add: unat_word_ariths)

lemma unat_le_u32: "(a :: u32) \<le> b \<longleftrightarrow> unat a \<le> unat b"
  by (rule word_le_nat_alt)

lemma unat_less_u32: "(a :: u32) < b \<longleftrightarrow> unat a < unat b"
  by (rule word_less_nat_alt)

lemma add_of_nat_u32_inj:
  "i < 4294967296 \<Longrightarrow> j < 4294967296 \<Longrightarrow> (p :: u32) + of_nat i = p + of_nat j \<longleftrightarrow> i = j"
  using unat_of_nat_u32 by (metis add_left_cancel)

text \<open>A counter that stays below its bound: the measure of most counted loops.\<close>

lemma u32_step_less: "(i :: u32) < n \<Longrightarrow> unat n - unat (i + 1) < unat n - unat i"
proof -
  assume "i < n"
  then have "unat i < unat n" by (simp add: unat_less_u32)
  moreover from this have "unat (i + 1) = Suc (unat i)"
    using unat_u32_less [of n] by (intro unat_Suc_u32) linarith
  ultimately show ?thesis by simp
qed

lemmas u32_arith = unat_add_u32 unat_sub_u32 unat_mult_u32 unat_le_u32 unat_less_u32

text \<open>Signed readings.\<close>

lemma sint_cases: "sint (w :: u32) = uint w - (if bit (uint w) 31 then 4294967296 else 0)"
proof -
  have "take_bit (Suc 31) (uint w) = uint w"
    by (intro bintr_uint) simp
  then show ?thesis by (simp add: sint_uint signed_take_bit_eq_take_bit_minus)
qed

lemma sint_small: "unat (w :: u32) < 2147483648 \<Longrightarrow> sint w = uint w"
proof -
  assume "unat w < 2147483648"
  then have "int (unat w) < 2147483648" by linarith
  then have "0 \<le> uint w \<and> uint w < 2147483648" by simp
  then have "uint w div 2 ^ 31 = 0" by simp
  then have "\<not> bit (uint w) 31" by (simp add: bit_iff_odd)
  then show ?thesis using sint_cases [of w] by simp
qed

text \<open>A single bit of a mask: \<open>1 << k\<close>.\<close>

lemma bit_exp_u32: "bit ((2 :: u32) ^ k) n \<longleftrightarrow> n = k \<and> n < 32"
  by (auto simp: bit_exp_iff)

lemma all_bits_u32: "(w :: u32) = 0xFFFFFFFF \<longleftrightarrow> (\<forall>k < 32. bit w k)"
proof -
  have m1: "(0xFFFFFFFF :: u32) = - 1" by simp
  show ?thesis
    unfolding m1 by (auto simp: bit_eq_iff bit_minus_1_iff)
qed

text \<open>Clearing low bits rounds down: \<open>x & ~(2^k - 1)\<close>.\<close>

lemma and_not_mask_eq: "(w :: u32) AND NOT (mask k) = w - take_bit k w"
proof -
  have "push_bit k (drop_bit k w) = w AND NOT (mask k)"
    by (intro bit_word_eqI) (auto simp: bit_push_bit_iff bit_drop_bit_eq bit_and_iff bit_not_iff bit_mask_iff)
  then show ?thesis using bits_ident [of k w] by (simp add: eq_diff_eq)
qed

lemma unat_and_not_mask: "unat ((w :: u32) AND NOT (mask k)) = unat w - unat w mod 2 ^ k"
proof -
  have t: "unat (take_bit k w) = unat w mod 2 ^ k"
    by (subst unsigned_take_bit_eq) (simp add: take_bit_eq_mod)
  then have "unat (take_bit k w) \<le> unat w" by simp
  then show ?thesis unfolding and_not_mask_eq by (simp add: unat_sub_u32 t)
qed

section \<open>Buffers\<close>

text \<open>
  \<open>bytes_at off n xs\<close> are the \<open>n\<close> bytes at offset \<open>off\<close>; \<open>blit off src dst\<close> is \<open>dst\<close> after
  \<open>memcpy(&dst[off], src, length src)\<close>, for a copy that stays inside \<open>dst\<close>.
\<close>

definition bytes_at :: "nat \<Rightarrow> nat \<Rightarrow> 'a list \<Rightarrow> 'a list" where
  "bytes_at off n xs = take n (drop off xs)"

definition blit :: "nat \<Rightarrow> 'a list \<Rightarrow> 'a list \<Rightarrow> 'a list" where
  "blit off src dst = take off dst @ src @ drop (off + length src) dst"

lemma length_bytes_at [simp]: "off + n \<le> length xs \<Longrightarrow> length (bytes_at off n xs) = n"
  by (simp add: bytes_at_def)

lemma length_blit [simp]: "off + length src \<le> length dst \<Longrightarrow> length (blit off src dst) = length dst"
  by (simp add: blit_def)

lemma nth_blit:
  "off + length src \<le> length dst \<Longrightarrow> i < length dst \<Longrightarrow>
   blit off src dst ! i = (if off \<le> i \<and> i < off + length src then src ! (i - off) else dst ! i)"
  by (auto simp: blit_def nth_append min_def)

lemma nth_bytes_at [simp]: "off + n \<le> length xs \<Longrightarrow> i < n \<Longrightarrow> bytes_at off n xs ! i = xs ! (off + i)"
  by (simp add: bytes_at_def)

lemma bytes_at_blit_same:
  "off + length src \<le> length dst \<Longrightarrow> n = length src \<Longrightarrow> bytes_at off n (blit off src dst) = src"
  by (simp add: bytes_at_def blit_def)

lemma bytes_at_blit_disjoint:
  assumes "off + length src \<le> length dst" "o' + n \<le> length dst"
    and "o' + n \<le> off \<or> off + length src \<le> o'"
  shows "bytes_at o' n (blit off src dst) = bytes_at o' n dst"
proof (rule nth_equalityI)
  show "length (bytes_at o' n (blit off src dst)) = length (bytes_at o' n dst)"
    using assms by simp
  fix i assume "i < length (bytes_at o' n (blit off src dst))"
  then have "i < n" using assms by simp
  then show "bytes_at o' n (blit off src dst) ! i = bytes_at o' n dst ! i"
    using assms by (auto simp: nth_blit)
qed

section \<open>Little-endian images\<close>

definition le32 :: "u32 \<Rightarrow> u8 list" where
  "le32 w = [ucast w, ucast (drop_bit 8 w), ucast (drop_bit 16 w), ucast (drop_bit 24 w)]"

fun of_le32 :: "u8 list \<Rightarrow> u32" where
  "of_le32 (a # b # c # d # _) =
     ucast a OR push_bit 8 (ucast b) OR push_bit 16 (ucast c) OR push_bit 24 (ucast d)"
| "of_le32 _ = 0"

fun of_le16 :: "u8 list \<Rightarrow> u16" where
  "of_le16 (a # b # _) = ucast a OR push_bit 8 (ucast b)"
| "of_le16 _ = 0"

lemma length_le32 [simp]: "length (le32 w) = 4"
  by (simp add: le32_def)

lemma of_le32_le32 [simp]: "of_le32 (le32 w @ bs) = w"
proof -
  have "bit (of_le32 (le32 w @ bs)) n = bit w n" if "n < 32" for n
  proof -
    consider "n < 8" | "8 \<le> n \<and> n < 16" | "16 \<le> n \<and> n < 24" | "24 \<le> n \<and> n < 32"
      using \<open>n < 32\<close> by linarith
    then show ?thesis
      by cases (auto simp: le32_def bit_or_iff bit_push_bit_iff bit_ucast_iff bit_drop_bit_eq)
  qed
  then show ?thesis by (intro bit_word_eqI) simp
qed

lemma of_le32_le32_nil [simp]: "of_le32 (le32 w) = w"
  using of_le32_le32 [of w "[]"] by simp

lemma le32_of_le32: "length bs = 4 \<Longrightarrow> le32 (of_le32 bs) = bs"
proof -
  assume "length bs = 4"
  then obtain a b c d where bs: "bs = [a, b, c, d]"
    by (auto simp: numeral_eq_Suc length_Suc_conv)
  have e: "ucast (of_le32 bs) = a" "ucast (drop_bit 8 (of_le32 bs)) = b"
    "ucast (drop_bit 16 (of_le32 bs)) = c" "ucast (drop_bit 24 (of_le32 bs)) = d"
    unfolding bs
    by (intro bit_word_eqI; auto simp: bit_or_iff bit_push_bit_iff bit_ucast_iff bit_drop_bit_eq
          dest: bit_imp_le_length)+
  show ?thesis by (simp add: le32_def e) (simp add: bs)
qed

end
