(* ===== verification/Interfaces.thy ===== *)
theory Interfaces
  imports Prelude
begin

text \<open>
  The contracts between components, as locales: what a client may rely on, without the
  provider's representation. Each is interpreted on the model of the code that provides it.
\<close>

section \<open>Frame allocators\<close>

text \<open>
  \<open>alloc\<close> returns the address of a frame, or \<open>0\<close> when there is none. \<open>used s f\<close>: frame number
  \<open>f\<close> is taken.
\<close>

text \<open>A client that keeps allocating, as the segment loader and the paging set-up do.\<close>

primrec alloc_many :: "('s \<Rightarrow> u32 \<times> 's) \<Rightarrow> nat \<Rightarrow> 's \<Rightarrow> u32 list \<times> 's" where
  "alloc_many alloc 0 s = ([], s)"
| "alloc_many alloc (Suc n) s =
     (let s' = snd (alloc s)
      in (fst (alloc s) # fst (alloc_many alloc n s'), snd (alloc_many alloc n s')))"

locale frame_allocator =
  fixes alloc :: "'s \<Rightarrow> u32 \<times> 's"
    and used :: "'s \<Rightarrow> nat \<Rightarrow> bool"
    and inv :: "'s \<Rightarrow> bool"
  assumes alloc_inv: "inv s \<Longrightarrow> inv (snd (alloc s))"
    and alloc_fail: "inv s \<Longrightarrow> fst (alloc s) = 0 \<Longrightarrow> snd (alloc s) = s"
    and alloc_aligned: "inv s \<Longrightarrow> unat (fst (alloc s)) mod 4096 = 0"
    and alloc_fresh: "inv s \<Longrightarrow> fst (alloc s) \<noteq> 0 \<Longrightarrow> \<not> used s (unat (fst (alloc s)) div 4096)"
    and alloc_marks: "inv s \<Longrightarrow> fst (alloc s) \<noteq> 0 \<Longrightarrow>
      used (snd (alloc s)) = (used s)(unat (fst (alloc s)) div 4096 := True)"
begin

lemma alloc_many_inv: "inv s \<Longrightarrow> inv (snd (alloc_many alloc n s))"
  by (induction n arbitrary: s) (auto simp: Let_def dest: alloc_inv)

lemma used_mono: "inv s \<Longrightarrow> used s f \<Longrightarrow> used (snd (alloc s)) f"
  by (cases "fst (alloc s) = 0") (simp_all add: alloc_fail alloc_marks)

lemma alloc_many_fresh:
  "inv s \<Longrightarrow> a \<in> set (fst (alloc_many alloc n s)) \<Longrightarrow> a \<noteq> 0 \<Longrightarrow> \<not> used s (unat a div 4096)"
proof (induction n arbitrary: s)
  case (Suc n)
  let ?a = "fst (alloc s)" and ?s = "snd (alloc s)"
  from Suc.prems have "a = ?a \<or> a \<in> set (fst (alloc_many alloc n ?s))"
    by (auto simp: Let_def)
  then show ?case
    using Suc.IH [of ?s] Suc.prems alloc_fresh used_mono alloc_inv by blast
qed simp

lemma alloc_many_distinct:
  "inv s \<Longrightarrow> distinct (filter (\<lambda>a. a \<noteq> 0) (fst (alloc_many alloc n s)))"
proof (induction n arbitrary: s)
  case (Suc n)
  let ?a = "fst (alloc s)" and ?s = "snd (alloc s)"
  have inv': "inv ?s" using Suc.prems by (rule alloc_inv)
  have "?a \<notin> set (fst (alloc_many alloc n ?s))" if "?a \<noteq> 0"
    using alloc_many_fresh [OF inv', of ?a n] alloc_marks [OF Suc.prems] that by fastforce
  then show ?case using Suc.IH [OF inv'] by (auto simp: Let_def)
qed simp

end

section \<open>Memory allocators\<close>

text \<open>
  \<open>live s\<close> are the regions handed out and not released: address and size. Both operations may
  walk a linked structure, so that they return at all is part of the contract.
\<close>

locale region_allocator =
  fixes malloc :: "u32 \<Rightarrow> 's \<Rightarrow> (u32 \<times> 's) option"
    and release :: "u32 \<Rightarrow> 's \<Rightarrow> 's option"
    and live :: "'s \<Rightarrow> (u32 \<times> nat) set"
    and inv :: "'s \<Rightarrow> bool"
  assumes malloc_total: "inv s \<Longrightarrow> \<exists>a s'. malloc n s = Some (a, s') \<and> inv s'"
    and malloc_null: "inv s \<Longrightarrow> malloc n s = Some (0, s') \<Longrightarrow> live s' = live s"
    and malloc_live: "inv s \<Longrightarrow> malloc n s = Some (a, s') \<Longrightarrow> a \<noteq> 0 \<Longrightarrow>
      \<exists>k. live s' = insert (a, k) (live s) \<and> (a, k) \<notin> live s \<and> (unat n \<le> 4294967292 \<longrightarrow> unat n \<le> k)"
    and live_apart: "inv s \<Longrightarrow> (a, k) \<in> live s \<Longrightarrow> (b, l) \<in> live s \<Longrightarrow> (a, k) \<noteq> (b, l) \<Longrightarrow>
      unat a + k < unat b \<or> unat b + l < unat a"
    and release_total: "inv s \<Longrightarrow> (a, k) \<in> live s \<Longrightarrow> \<exists>s'. release a s = Some s' \<and> inv s'"
    and release_live: "inv s \<Longrightarrow> (a, k) \<in> live s \<Longrightarrow> release a s = Some s' \<Longrightarrow>
      live s' = live s - {(a, k)}"
begin

lemma malloc_inv: "inv s \<Longrightarrow> malloc n s = Some (a, s') \<Longrightarrow> inv s'"
  using malloc_total [of s n] by auto

text \<open>A new region overlaps no region that was live, and those stay live.\<close>

lemma malloc_fresh:
  assumes "inv s" "malloc n s = Some (a, s')" "a \<noteq> 0"
  shows "\<exists>k. (a, k) \<in> live s' \<and> live s \<subseteq> live s' \<and> (unat n \<le> 4294967292 \<longrightarrow> unat n \<le> k) \<and>
    (\<forall>(b, l) \<in> live s. unat a + k < unat b \<or> unat b + l < unat a)"
proof -
  obtain k where k: "live s' = insert (a, k) (live s)" "(a, k) \<notin> live s"
    "unat n \<le> 4294967292 \<longrightarrow> unat n \<le> k"
    using malloc_live [OF assms] by blast
  have "unat a + k < unat b \<or> unat b + l < unat a" if "(b, l) \<in> live s" for b l
    using live_apart [OF malloc_inv [OF assms(1,2)], of a k b l] k that by blast
  then show ?thesis using k by blast
qed

text \<open>Releasing what was just allocated gives back the live regions of before.\<close>

lemma malloc_release:
  assumes "inv s" "malloc n s = Some (a, s')" "a \<noteq> 0"
  shows "\<exists>s''. release a s' = Some s'' \<and> inv s'' \<and> live s'' = live s"
proof -
  obtain k where k: "live s' = insert (a, k) (live s)" "(a, k) \<notin> live s"
    using malloc_live [OF assms] by blast
  have i: "inv s'" "(a, k) \<in> live s'" using malloc_inv [OF assms(1,2)] k by auto
  obtain s'' where "release a s' = Some s''" "inv s''" using release_total [OF i] by blast
  then show ?thesis using release_live [OF i] k by auto
qed

end

section \<open>Byte files\<close>

text \<open>
  A file as an array of bytes with holes: \<open>wr off n buf\<close> stores the first \<open>n\<close> bytes of \<open>buf\<close> at
  \<open>off\<close>, or as many of them as there is room for, \<open>rd off n\<close> reads; \<open>byte s x\<close> is byte \<open>x\<close> of the file,
  \<open>None\<close> in a hole, below \<open>limit\<close>. Filling a hole may turn bytes around it to 0.
\<close>

definition overwritten :: "nat \<Rightarrow> nat \<Rightarrow> u8 list \<Rightarrow> nat \<Rightarrow> (nat \<Rightarrow> u8 option) \<Rightarrow> (nat \<Rightarrow> u8 option) \<Rightarrow> bool" where
  "overwritten off n buf limit f g \<longleftrightarrow>
     (\<forall>x < limit. if off \<le> x \<and> x < off + n then g x = Some (buf ! (x - off))
                  else g x = f x \<or> f x = None \<and> g x = Some 0)"

text \<open>A client that writes piece after piece; \<open>None\<close> when one is not written in full.\<close>

primrec write_pieces :: "(u32 \<Rightarrow> u32 \<Rightarrow> u8 list \<Rightarrow> 's \<Rightarrow> (u32 option \<times> 's) option) \<Rightarrow> u32 \<Rightarrow> u8 list list \<Rightarrow> 's \<Rightarrow>
    (u32 \<times> 's) option" where
  "write_pieces wr off [] s = Some (off, s)"
| "write_pieces wr off (c # cs) s =
     (case wr off (of_nat (length c)) c s of
        Some (Some m, s) \<Rightarrow> if m = of_nat (length c) then write_pieces wr (off + m) cs s else None
      | _ \<Rightarrow> None)"

locale byte_file =
  fixes rd :: "u32 \<Rightarrow> u32 \<Rightarrow> 's \<Rightarrow> u8 list option option"
    and wr :: "u32 \<Rightarrow> u32 \<Rightarrow> u8 list \<Rightarrow> 's \<Rightarrow> (u32 option \<times> 's) option"
    and byte :: "'s \<Rightarrow> nat \<Rightarrow> u8 option"
    and inv :: "'s \<Rightarrow> bool"
    and len :: "'s \<Rightarrow> nat"
    and limit :: nat
  assumes limit_u32: "limit < 4294967296"
    and wr_spec: "inv s \<Longrightarrow> unat off + unat n \<le> limit \<Longrightarrow> unat n \<le> length buf \<Longrightarrow>
      \<exists>m s'. wr off n buf s = Some (Some m, s') \<and> unat m \<le> unat n \<and> inv s' \<and> len s \<le> len s' \<and>
        unat off + unat m \<le> len s' \<and> overwritten (unat off) (unat m) buf limit (byte s) (byte s')"
    and rd_spec: "inv s \<Longrightarrow> unat off + unat n \<le> limit \<Longrightarrow> unat off + unat n \<le> len s \<Longrightarrow>
      length bs = unat n \<Longrightarrow> (\<And>k. k < unat n \<Longrightarrow> byte s (unat off + k) = Some (bs ! k)) \<Longrightarrow>
      rd off n s = Some (Some bs)"
begin

text \<open>What is written reads back.\<close>

lemma write_read:
  assumes "inv s" "unat off + unat n \<le> limit" "unat n \<le> length buf"
  shows "\<exists>m s'. wr off n buf s = Some (Some m, s') \<and> unat m \<le> unat n \<and> inv s' \<and> unat off + unat m \<le> len s' \<and>
    rd off m s' = Some (Some (take (unat m) buf))"
proof -
  obtain m s' where w: "wr off n buf s = Some (Some m, s')" "unat m \<le> unat n" "inv s'" "unat off + unat m \<le> len s'"
    "overwritten (unat off) (unat m) buf limit (byte s) (byte s')"
    using wr_spec [OF assms] by blast
  have "rd off m s' = Some (Some (take (unat m) buf))"
  proof (rule rd_spec [OF w(3) _ w(4)])
    fix k assume k: "k < unat m"
    then have "unat off + k < limit" using w(2) assms(2) by linarith
    then show "byte s' (unat off + k) = Some (take (unat m) buf ! k)"
      using w(5) k by (auto simp: overwritten_def dest: spec [of _ "unat off + k"])
  qed (use w(2) assms in simp_all)
  then show ?thesis using w by blast
qed

text \<open>Pieces written one after the other read back as one.\<close>

lemma write_pieces_bytes:
  "inv s \<Longrightarrow> write_pieces wr off cs s = Some (off', s') \<Longrightarrow> unat off + length (concat cs) \<le> limit \<Longrightarrow>
   inv s' \<and> unat off' = unat off + length (concat cs) \<and> len s \<le> len s' \<and> (cs \<noteq> [] \<longrightarrow> unat off' \<le> len s') \<and>
   overwritten (unat off) (length (concat cs)) (concat cs) limit (byte s) (byte s')"
proof (induction cs arbitrary: off s)
  case Nil
  then show ?case by (auto simp: overwritten_def)
next
  case (Cons c cs)
  have n: "unat (of_nat (length c) :: u32) = length c"
    using Cons.prems(3) limit_u32 by (intro unat_of_nat_u32) simp
  obtain m t where w: "wr off (of_nat (length c)) c s = Some (Some m, t)" "inv t" "len s \<le> len t"
    "unat off + unat m \<le> len t" "overwritten (unat off) (unat m) c limit (byte s) (byte t)"
    using wr_spec [OF Cons.prems(1), of off "of_nat (length c)" c] Cons.prems(3) n by auto
  have m: "unat m = length c" and rest: "write_pieces wr (off + m) cs t = Some (off', s')"
    using Cons.prems(2) w(1) n by (auto split: if_splits)
  have off: "unat (off + m) = unat off + length c"
    using Cons.prems(3) limit_u32 m by (subst unat_add_u32) simp_all
  have IH: "inv s'" "unat off' = unat off + length c + length (concat cs)" "len t \<le> len s'" "cs \<noteq> [] \<longrightarrow> unat off' \<le> len s'"
    "overwritten (unat off + length c) (length (concat cs)) (concat cs) limit (byte t) (byte s')"
    using Cons.IH [OF w(2) rest] Cons.prems(3) off by auto
  have "overwritten (unat off) (length (concat (c # cs))) (concat (c # cs)) limit (byte s) (byte s')"
    unfolding overwritten_def
  proof (intro allI impI)
    fix x assume x: "x < limit"
    have 1: "if unat off \<le> x \<and> x < unat off + length c then byte t x = Some (c ! (x - unat off))
        else byte t x = byte s x \<or> byte s x = None \<and> byte t x = Some 0"
      using w(5) x m by (simp add: overwritten_def)
    have 2: "if unat off + length c \<le> x \<and> x < unat off + length c + length (concat cs)
        then byte s' x = Some (concat cs ! (x - (unat off + length c)))
        else byte s' x = byte t x \<or> byte t x = None \<and> byte s' x = Some 0"
      using IH(5) x by (simp add: overwritten_def)
    show "if unat off \<le> x \<and> x < unat off + length (concat (c # cs)) then byte s' x = Some (concat (c # cs) ! (x - unat off))
        else byte s' x = byte s x \<or> byte s x = None \<and> byte s' x = Some 0"
      using 1 2 by (cases "x < unat off + length c") (auto simp: nth_append split: if_splits)
  qed
  moreover have "unat off' \<le> len s'" using IH w(4) m by (cases cs) auto
  ultimately show ?case using IH w(3) by auto
qed

lemma write_pieces_read:
  assumes "inv s" "write_pieces wr off cs s = Some (off', s')" "unat off + length (concat cs) \<le> limit" "cs \<noteq> []"
  shows "rd off (of_nat (length (concat cs))) s' = Some (Some (concat cs))"
proof -
  have b: "inv s'" "unat off' = unat off + length (concat cs)" "unat off' \<le> len s'"
    "overwritten (unat off) (length (concat cs)) (concat cs) limit (byte s) (byte s')"
    using write_pieces_bytes [OF assms(1-3)] assms(4) by auto
  have n: "unat (of_nat (length (concat cs)) :: u32) = length (concat cs)"
    using assms(3) limit_u32 by (intro unat_of_nat_u32) simp
  show ?thesis
  proof (rule rd_spec [OF b(1)], unfold n)
    fix k assume k: "k < length (concat cs)"
    then have "unat off + k < limit" using assms(3) by linarith
    then show "byte s' (unat off + k) = Some (concat cs ! k)"
      using b(4) k by (auto simp: overwritten_def dest: spec [of _ "unat off + k"])
  qed (use assms(3) b(2,3) in simp_all)
qed

end

section \<open>Bounded queues\<close>

text \<open>
  A queue of at most \<open>cap\<close> elements that drops what does not fit and answers \<open>none\<close> when it is empty:
  the contract of an input buffer filled by an interrupt handler. A client's run of it is a sequence of
  requests; \<open>fifo_run\<close> is the run of the abstract queue.
\<close>

datatype 'x request = Put 'x | Get

definition enqueue :: "nat \<Rightarrow> 'x \<Rightarrow> 'x list \<Rightarrow> 'x list" where
  "enqueue cap x q = (if length q < cap then q @ [x] else q)"

fun dequeue :: "'x \<Rightarrow> 'x list \<Rightarrow> 'x \<times> 'x list" where
  "dequeue none [] = (none, [])"
| "dequeue none (x # q) = (x, q)"

fun queue_run :: "('x \<Rightarrow> 's \<Rightarrow> 's) \<Rightarrow> ('s \<Rightarrow> 'x \<times> 's) \<Rightarrow> 'x request list \<Rightarrow> 's \<Rightarrow> 'x list \<times> 's" where
  "queue_run push pop [] s = ([], s)"
| "queue_run push pop (Put x # rs) s = queue_run push pop rs (push x s)"
| "queue_run push pop (Get # rs) s =
     (let (x, s) = pop s; (ys, s) = queue_run push pop rs s in (x # ys, s))"

locale bounded_queue =
  fixes push :: "'x \<Rightarrow> 's \<Rightarrow> 's"
    and pop :: "'s \<Rightarrow> 'x \<times> 's"
    and contents :: "'s \<Rightarrow> 'x list"
    and inv :: "'s \<Rightarrow> bool"
    and cap :: nat
    and none :: 'x
  assumes push_inv: "inv s \<Longrightarrow> inv (push x s)"
    and push_contents: "inv s \<Longrightarrow> contents (push x s) = enqueue cap x (contents s)"
    and pop_inv: "inv s \<Longrightarrow> inv (snd (pop s))"
    and pop_contents: "inv s \<Longrightarrow> (fst (pop s), contents (snd (pop s))) = dequeue none (contents s)"
    and capacity: "inv s \<Longrightarrow> length (contents s) \<le> cap"
begin

text \<open>Every run gives the answers of the abstract queue.\<close>

lemma run_refines:
  "inv s \<Longrightarrow> queue_run push pop rs s = (ys, s') \<Longrightarrow>
   inv s' \<and> queue_run (enqueue cap) (dequeue none) rs (contents s) = (ys, contents s')"
proof (induction rs arbitrary: s ys)
  case (Cons r rs)
  show ?case
  proof (cases r)
    case (Put x)
    then show ?thesis
      using Cons.IH [of "push x s" ys] Cons.prems push_inv [of s x] push_contents [of s x] by simp
  next
    case Get
    obtain x t where p: "pop s = (x, t)" by (cases "pop s")
    obtain zs where z: "queue_run push pop rs t = (zs, s')" "ys = x # zs"
      using Cons.prems(2) p Get by (auto split: prod.splits)
    have t: "inv t" "dequeue none (contents s) = (x, contents t)"
      using pop_inv [OF Cons.prems(1)] pop_contents [OF Cons.prems(1)] p by simp_all
    show ?thesis using Cons.IH [OF t(1) z(1)] t(2) z(2) Get by simp
  qed
qed auto

end

end
