(* ===== verification/Pmm.thy ===== *)
theory Pmm
  imports Interfaces
begin

text \<open>
  The physical memory manager, \<open>kernel/pmm.c\<close>: a bitmap with one bit per 4 KiB frame, set
  when the frame is in use. The static variables \<open>pmm_bitmap\<close>, \<open>pmm_max_blocks\<close> and
  \<open>pmm_used_blocks\<close> are the fields of the record; the bitmap is the memory \<open>pmm_bitmap\<close> points
  at, word-indexed and total because C does not bound the accesses. Output on the serial line is
  not modelled.
\<close>

section \<open>State and operations\<close>

abbreviation PAGE_SIZE :: u32 where "PAGE_SIZE \<equiv> 4096"

record pmm =
  pmm_bitmap :: "nat \<Rightarrow> u32"
  pmm_max_blocks :: u32
  pmm_used_blocks :: u32

definition bitmap_set :: "u32 \<Rightarrow> pmm \<Rightarrow> pmm" where
  "bitmap_set b s =
     (let i = unat (b div 32)
      in s\<lparr>pmm_bitmap := (pmm_bitmap s)(i := pmm_bitmap s i OR push_bit (unat (b mod 32)) 1)\<rparr>)"

definition bitmap_clear :: "u32 \<Rightarrow> pmm \<Rightarrow> pmm" where
  "bitmap_clear b s =
     (let i = unat (b div 32)
      in s\<lparr>pmm_bitmap := (pmm_bitmap s)(i := pmm_bitmap s i AND NOT (push_bit (unat (b mod 32)) 1))\<rparr>)"

definition bitmap_test :: "u32 \<Rightarrow> pmm \<Rightarrow> bool" where
  "bitmap_test b s \<longleftrightarrow> pmm_bitmap s (unat (b div 32)) AND push_bit (unat (b mod 32)) 1 \<noteq> 0"

text \<open>The inner loop over the bits of one word and the outer loop over the words.\<close>

function scan_bits :: "u32 \<Rightarrow> nat \<Rightarrow> nat option" where
  "scan_bits w j =
     (if j < 32
      then if w AND push_bit j 1 = 0 then Some j else scan_bits w (Suc j)
      else None)"
  by pat_completeness auto
termination by (relation "measure (\<lambda>(w, j). 32 - j)") auto

function scan_words :: "pmm \<Rightarrow> nat \<Rightarrow> int" where
  "scan_words s i =
     (if i < unat (pmm_max_blocks s div 32)
      then if pmm_bitmap s i \<noteq> 0xFFFFFFFF
           then (case scan_bits (pmm_bitmap s i) 0 of
                   Some j \<Rightarrow> int (i * 32 + j)
                 | None \<Rightarrow> scan_words s (Suc i))
           else scan_words s (Suc i)
      else - 1)"
  by pat_completeness auto
termination by (relation "measure (\<lambda>(s, i). unat (pmm_max_blocks s div 32) - i)") auto

declare scan_bits.simps [simp del] scan_words.simps [simp del]

definition bitmap_first_free :: "pmm \<Rightarrow> int" where
  "bitmap_first_free s = scan_words s 0"

text \<open>
  \<open>memset(pmm_bitmap, 0xFF, n)\<close> on the word-indexed memory: the bytes \<open>0 .. n - 1\<close> become
  \<open>0xFF\<close>; in the word the range ends in, the low bytes only (little endian).
\<close>

definition memset_ff :: "nat \<Rightarrow> (nat \<Rightarrow> u32) \<Rightarrow> nat \<Rightarrow> u32" where
  "memset_ff n m i =
     (if 4 * i + 4 \<le> n then 0xFFFFFFFF
      else if n \<le> 4 * i then m i
      else m i OR (push_bit (8 * (n - 4 * i)) 1 - 1))"

definition pmm_init :: "u32 \<Rightarrow> (nat \<Rightarrow> u32) \<Rightarrow> pmm" where
  "pmm_init mem_size bitmap_mem =
     (let blocks = mem_size div PAGE_SIZE
      in \<lparr>pmm_bitmap = memset_ff (unat (blocks div 8)) bitmap_mem,
          pmm_max_blocks = blocks, pmm_used_blocks = blocks\<rparr>)"

fun init_blocks :: "nat \<Rightarrow> u32 \<Rightarrow> pmm \<Rightarrow> pmm" where
  "init_blocks 0 align s = s"
| "init_blocks (Suc blocks) align s =
     (let s = bitmap_clear align s
      in init_blocks blocks (align + 1) (s\<lparr>pmm_used_blocks := pmm_used_blocks s - 1\<rparr>))"

definition pmm_init_region :: "u32 \<Rightarrow> u32 \<Rightarrow> pmm \<Rightarrow> pmm" where
  "pmm_init_region base sz s =
     bitmap_set 0 (init_blocks (unat (sz div PAGE_SIZE)) (base div PAGE_SIZE) s)"

fun deinit_blocks :: "nat \<Rightarrow> u32 \<Rightarrow> pmm \<Rightarrow> pmm" where
  "deinit_blocks 0 align s = s"
| "deinit_blocks (Suc blocks) align s =
     (let s = bitmap_set align s
      in deinit_blocks blocks (align + 1) (s\<lparr>pmm_used_blocks := pmm_used_blocks s + 1\<rparr>))"

definition pmm_deinit_region :: "u32 \<Rightarrow> u32 \<Rightarrow> pmm \<Rightarrow> pmm" where
  "pmm_deinit_region base sz s =
     deinit_blocks (unat (sz div PAGE_SIZE)) (base div PAGE_SIZE) s"

definition pmm_get_free_block_count :: "pmm \<Rightarrow> u32" where
  "pmm_get_free_block_count s = pmm_max_blocks s - pmm_used_blocks s"

definition pmm_get_block_count :: "pmm \<Rightarrow> u32" where
  "pmm_get_block_count s = pmm_max_blocks s"

definition pmm_get_used_block_count :: "pmm \<Rightarrow> u32" where
  "pmm_get_used_block_count s = pmm_used_blocks s"

text \<open>
  \<open>frame * PAGE_SIZE\<close> is an \<open>int\<close> product in the source; on the target it wraps like the
  32-bit product taken here.
\<close>

definition pmm_alloc_frame :: "pmm \<Rightarrow> u32 \<times> pmm" where
  "pmm_alloc_frame s =
     (if pmm_get_free_block_count s = 0 then (0, s)
      else let frame = bitmap_first_free s
           in if frame = - 1 then (0, s)
              else let s = bitmap_set (of_int frame) s
                   in (of_int frame * PAGE_SIZE,
                       s\<lparr>pmm_used_blocks := pmm_used_blocks s + 1\<rparr>))"

definition pmm_free_frame :: "u32 \<Rightarrow> pmm \<Rightarrow> pmm" where
  "pmm_free_frame frame_addr s =
     (let s = bitmap_clear (frame_addr div PAGE_SIZE) s
      in s\<lparr>pmm_used_blocks := pmm_used_blocks s - 1\<rparr>)"

section \<open>The bitmap as a set of used frames\<close>

definition frame_used :: "pmm \<Rightarrow> nat \<Rightarrow> bool" where
  "frame_used s f \<longleftrightarrow> bit (pmm_bitmap s (f div 32)) (f mod 32)"

lemma frame_index_u32: "unat ((b :: u32) div 32) = unat b div 32" "unat (b mod 32) = unat b mod 32"
  by (simp_all add: unat_div unat_mod)

lemma div_mod_32_eq: "f div 32 = g div 32 \<Longrightarrow> f mod 32 = g mod 32 \<Longrightarrow> f = (g :: nat)"
  by (metis div_mult_mod_eq)

lemma frame_used_bitmap_set [simp]:
  "frame_used (bitmap_set b s) f \<longleftrightarrow> f = unat b \<or> frame_used s f"
  by (auto simp: frame_used_def bitmap_set_def Let_def frame_index_u32 bit_or_iff bit_exp_u32
      dest: div_mod_32_eq)

lemma frame_used_bitmap_clear [simp]:
  "frame_used (bitmap_clear b s) f \<longleftrightarrow> f \<noteq> unat b \<and> frame_used s f"
proof -
  have "bit (w AND NOT (2 ^ k)) n \<longleftrightarrow> bit w n \<and> n \<noteq> k" for w :: u32 and k n
    using bit_imp_le_length [of w n] by (auto simp: bit_and_iff bit_not_iff bit_exp_u32)
  then show ?thesis
    by (auto simp: frame_used_def bitmap_clear_def Let_def frame_index_u32 dest: div_mod_32_eq)
qed

lemma bitmap_test_iff: "bitmap_test b s \<longleftrightarrow> frame_used s (unat b)"
  by (simp add: bitmap_test_def frame_used_def frame_index_u32 and_exp_eq_0_iff_not_bit)

lemma bitmap_counts [simp]:
  "pmm_max_blocks (bitmap_set b s) = pmm_max_blocks s"
  "pmm_max_blocks (bitmap_clear b s) = pmm_max_blocks s"
  "pmm_used_blocks (bitmap_set b s) = pmm_used_blocks s"
  "pmm_used_blocks (bitmap_clear b s) = pmm_used_blocks s"
  by (simp_all add: bitmap_set_def bitmap_clear_def Let_def)

lemma frame_used_upd [simp]: "frame_used (s\<lparr>pmm_used_blocks := n\<rparr>) = frame_used s"
  by (simp add: frame_used_def fun_eq_iff)

section \<open>First-fit search\<close>

lemma scan_bits_unfold:
  "scan_bits w j =
     (if j < 32 then if \<not> bit w j then Some j else scan_bits w (Suc j) else None)"
  by (subst scan_bits.simps) (simp only: push_bit_of_1 and_exp_eq_0_iff_not_bit)

lemma scan_bits_Some:
  "scan_bits w j = Some k \<Longrightarrow>
   j \<le> k \<and> k < 32 \<and> \<not> bit w k \<and> (\<forall>i. j \<le> i \<and> i < k \<longrightarrow> bit w i)"
proof (induction w j rule: scan_bits.induct)
  case (1 w j)
  show ?case
  proof (cases "j < 32 \<and> bit w j")
    case True
    then have "scan_bits w (Suc j) = Some k"
      using "1.prems" by (simp add: scan_bits_unfold [of w j])
    with "1.IH" True have "Suc j \<le> k \<and> k < 32 \<and> \<not> bit w k \<and> (\<forall>i. Suc j \<le> i \<and> i < k \<longrightarrow> bit w i)"
      by (simp only: push_bit_of_1 and_exp_eq_0_iff_not_bit) simp
    then show ?thesis using True by (metis le_eq_less_or_eq less_eq_Suc_le Suc_leD)
  next
    case False
    then show ?thesis using "1.prems" by (auto simp: scan_bits_unfold [of w j] split: if_splits)
  qed
qed

lemma scan_bits_None: "scan_bits w j = None \<Longrightarrow> \<forall>i. j \<le> i \<and> i < 32 \<longrightarrow> bit w i"
proof (induction w j rule: scan_bits.induct)
  case (1 w j)
  show ?case
  proof (cases "j < 32")
    case True
    then have "bit w j" "scan_bits w (Suc j) = None"
      using "1.prems" by (auto simp: scan_bits_unfold [of w j] split: if_splits)
    with "1.IH" True have "\<forall>i. Suc j \<le> i \<and> i < 32 \<longrightarrow> bit w i"
      by (simp only: push_bit_of_1 and_exp_eq_0_iff_not_bit) simp
    then show ?thesis using \<open>bit w j\<close> by (metis le_eq_less_or_eq less_eq_Suc_le)
  qed auto
qed

text \<open>Only whole words of the bitmap are searched: the last \<open>pmm_max_blocks mod 32\<close> frames never are.\<close>

definition scanned_frames :: "pmm \<Rightarrow> nat" where
  "scanned_frames s = 32 * (unat (pmm_max_blocks s) div 32)"

lemma scanned_frames_le: "scanned_frames s \<le> unat (pmm_max_blocks s)"
  by (simp add: scanned_frames_def)

lemma frame_used_word: "frame_used s g \<longleftrightarrow> bit (pmm_bitmap s i) (g - 32 * i)"
  if "32 * i \<le> g" "g < 32 * i + 32"
proof -
  have d: "g div 32 = i" using that by (intro div_nat_eqI) auto
  then have "g mod 32 = g - 32 * i" by (metis minus_mult_div_eq_mod)
  then show ?thesis by (simp add: frame_used_def d)
qed

lemma full_word_used:
  assumes "\<forall>k < 32. bit (pmm_bitmap s i) k" "32 * i \<le> g" "g < 32 * i + 32"
  shows "frame_used s g"
  using assms by (auto simp: frame_used_word [OF assms(2,3)])

lemma scan_words_spec:
  "(\<forall>g. 32 * i \<le> g \<and> g < scanned_frames s \<longrightarrow> frame_used s g) \<and> scan_words s i = - 1 \<or>
   (\<exists>f. scan_words s i = int f \<and> 32 * i \<le> f \<and> f < scanned_frames s \<and> \<not> frame_used s f \<and>
        (\<forall>g. 32 * i \<le> g \<and> g < f \<longrightarrow> frame_used s g))"
proof (induction s i rule: scan_words.induct)
  case (1 s i)
  let ?n = "unat (pmm_max_blocks s div 32)"
  have n: "scanned_frames s = 32 * ?n" by (simp add: scanned_frames_def unat_div)
  show ?case
  proof (cases "i < ?n")
    case False
    then show ?thesis using n by (subst (1) scan_words.simps) auto
  next
    case True
    show ?thesis
    proof (cases "scan_bits (pmm_bitmap s i) 0")
      case (Some k)
      have k: "k < 32" "\<not> bit (pmm_bitmap s i) k" "\<And>l. l < k \<Longrightarrow> bit (pmm_bitmap s i) l"
        using scan_bits_Some [OF Some] by auto
      then have "pmm_bitmap s i \<noteq> 0xFFFFFFFF" using all_bits_u32 by blast
      then have eq: "scan_words s i = int (i * 32 + k)"
        using True Some by (subst scan_words.simps) simp
      have "32 * i \<le> i * 32 + k" "i * 32 + k < 32 * i + 32" using k by auto
      then have "\<not> frame_used s (i * 32 + k)" using k frame_used_word by fastforce
      moreover have "frame_used s g" if "32 * i \<le> g" "g < i * 32 + k" for g
      proof -
        have "g < 32 * i + 32" "g - 32 * i < k" using that k(1) by auto
        then show ?thesis using k(3) frame_used_word [OF that(1)] by simp
      qed
      moreover have "i * 32 + k < scanned_frames s" using True k n by linarith
      ultimately show ?thesis using eq by (intro disjI2 exI [of _ "i * 32 + k"]) auto
    next
      case None
      have all: "\<forall>k < 32. bit (pmm_bitmap s i) k" using scan_bits_None [OF None] by simp
      then have "pmm_bitmap s i = 0xFFFFFFFF" using all_bits_u32 by blast
      then have eq: "scan_words s i = scan_words s (Suc i)"
        using True by (subst scan_words.simps) simp
      have used: "frame_used s g" if "32 * i \<le> g" "g < 32 * Suc i" for g
        using full_word_used [OF all that(1)] that(2) by simp
      from "1.IH" (2) [OF True] \<open>pmm_bitmap s i = 0xFFFFFFFF\<close>
      have "(\<forall>g. 32 * Suc i \<le> g \<and> g < scanned_frames s \<longrightarrow> frame_used s g) \<and> scan_words s (Suc i) = - 1 \<or>
        (\<exists>f. scan_words s (Suc i) = int f \<and> 32 * Suc i \<le> f \<and> f < scanned_frames s \<and> \<not> frame_used s f \<and>
        (\<forall>g. 32 * Suc i \<le> g \<and> g < f \<longrightarrow> frame_used s g))"
        by simp
      then show ?thesis
      proof
        assume "(\<forall>g. 32 * Suc i \<le> g \<and> g < scanned_frames s \<longrightarrow> frame_used s g) \<and> scan_words s (Suc i) = - 1"
        then show ?thesis unfolding eq using used by (metis not_le)
      next
        assume "\<exists>f. scan_words s (Suc i) = int f \<and> 32 * Suc i \<le> f \<and> f < scanned_frames s \<and>
          \<not> frame_used s f \<and> (\<forall>g. 32 * Suc i \<le> g \<and> g < f \<longrightarrow> frame_used s g)"
        then obtain f where f: "scan_words s (Suc i) = int f" "32 * Suc i \<le> f" "f < scanned_frames s"
          "\<not> frame_used s f" "\<forall>g. 32 * Suc i \<le> g \<and> g < f \<longrightarrow> frame_used s g" by blast
        have "\<forall>g. 32 * i \<le> g \<and> g < f \<longrightarrow> frame_used s g" using f(5) used by (metis not_le)
        then show ?thesis unfolding eq using f(1-4) by auto
      qed
    qed
  qed
qed

text \<open>The search as its specification: the lowest free frame, \<open>- 1\<close> when there is none.\<close>

lemma bitmap_first_free_cases:
  obtains (none) "bitmap_first_free s = - 1" "\<And>g. g < scanned_frames s \<Longrightarrow> frame_used s g"
  | (some) f where "bitmap_first_free s = int f" "f < scanned_frames s" "\<not> frame_used s f"
      "\<And>g. g < f \<Longrightarrow> frame_used s g"
  using scan_words_spec [of 0 s] by (auto simp: bitmap_first_free_def)

section \<open>Accounting\<close>

text \<open>
  \<open>pmm_ok\<close>: the counter is the number of used frames among the \<open>pmm_max_blocks\<close> there are,
  frame 0 is taken (its address is the failure value), and there are at most \<open>2^20\<close> frames, which
  is all a 32-bit memory size can give.
\<close>

definition free_frames :: "pmm \<Rightarrow> nat set" where
  "free_frames s = {f. f < unat (pmm_max_blocks s) \<and> \<not> frame_used s f}"

definition pmm_ok :: "pmm \<Rightarrow> bool" where
  "pmm_ok s \<longleftrightarrow> frame_used s 0 \<and> unat (pmm_max_blocks s) \<le> 1048576 \<and>
     unat (pmm_used_blocks s) + card (free_frames s) = unat (pmm_max_blocks s)"

lemma finite_free_frames [simp]: "finite (free_frames s)"
  by (simp add: free_frames_def)

lemma pmm_ok_free_count:
  "pmm_ok s \<Longrightarrow> unat (pmm_get_free_block_count s) = card (free_frames s)"
  by (auto simp: pmm_ok_def pmm_get_free_block_count_def unat_sub_u32)

lemma free_frames_cong:
  "frame_used s' = frame_used s \<Longrightarrow> pmm_max_blocks s' = pmm_max_blocks s \<Longrightarrow>
   free_frames s' = free_frames s"
  by (simp add: free_frames_def)

lemma unat_frame_addr: "f < 1048576 \<Longrightarrow> unat (of_nat f * 4096 :: u32) = f * 4096"
  by (simp add: unat_word_ariths unat_of_nat_u32)

lemma frame_addr_neq_0: "0 < f \<Longrightarrow> f < 1048576 \<Longrightarrow> (of_nat f * 4096 :: u32) \<noteq> 0"
  using unat_frame_addr [of f] by (metis mult_is_0 not_less_zero unat_0 zero_neq_numeral)

lemma pmm_alloc_frame_cases:
  assumes "pmm_ok s"
  obtains (none) "pmm_alloc_frame s = (0, s)" "\<And>g. g < scanned_frames s \<Longrightarrow> frame_used s g"
  | (some) f where "f < scanned_frames s" "0 < f" "f < 1048576" "\<not> frame_used s f"
      "\<And>g. g < f \<Longrightarrow> frame_used s g"
      "pmm_alloc_frame s = (of_nat (f * 4096),
         (bitmap_set (of_nat f) s)\<lparr>pmm_used_blocks := pmm_used_blocks s + 1\<rparr>)"
proof (cases rule: bitmap_first_free_cases [of s])
  case none
  then show ?thesis using that(1) by (simp add: pmm_alloc_frame_def)
next
  case (some f)
  have f0: "0 < f" using assms some(3) by (metis gr0I pmm_ok_def)
  have fmax: "f < unat (pmm_max_blocks s)"
    using some(2) scanned_frames_le less_le_trans by blast
  then have "f \<in> free_frames s" using some(3) by (simp add: free_frames_def)
  then have "card (free_frames s) \<noteq> 0" by auto
  then have "pmm_get_free_block_count s \<noteq> 0" using pmm_ok_free_count [OF assms] by auto
  then have eq: "pmm_alloc_frame s = (of_nat (f * 4096),
      (bitmap_set (of_nat f) s)\<lparr>pmm_used_blocks := pmm_used_blocks s + 1\<rparr>)"
    using some(1) by (simp add: pmm_alloc_frame_def Let_def mult.commute)
  have "f < 1048576" using fmax assms by (simp add: pmm_ok_def)
  then show ?thesis using that(2) some f0 eq by blast
qed

lemma free_frames_remove:
  assumes "frame_used s' = (frame_used s)(f := True)" "pmm_max_blocks s' = pmm_max_blocks s"
  shows "free_frames s' = free_frames s - {f}"
  using assms by (auto simp: free_frames_def)

lemma free_frames_insert:
  assumes "frame_used s' = (frame_used s)(f := False)" "pmm_max_blocks s' = pmm_max_blocks s"
    and "f < unat (pmm_max_blocks s)"
  shows "free_frames s' = insert f (free_frames s)"
  using assms by (auto simp: free_frames_def)

lemma pmm_alloc_frame_ok [inv_intros]:
  assumes ok: "pmm_ok s"
  shows "pmm_ok (snd (pmm_alloc_frame s))"
  using ok
proof (cases rule: pmm_alloc_frame_cases)
  case none
  then show ?thesis using ok by simp
next
  case (some f)
  let ?s = "(bitmap_set (of_nat f) s)\<lparr>pmm_used_blocks := pmm_used_blocks s + 1\<rparr>"
  have u: "frame_used ?s = (frame_used s)(f := True)"
    using some(3) by (auto simp: fun_eq_iff unat_of_nat_u32)
  have fr: "free_frames ?s = free_frames s - {f}" by (rule free_frames_remove [OF u]) simp
  have "f \<in> free_frames s" using some scanned_frames_le [of s] by (simp add: free_frames_def)
  then have c: "Suc (card (free_frames ?s)) = card (free_frames s)"
    unfolding fr by (metis card_Suc_Diff1 finite_free_frames)
  have "unat (pmm_used_blocks s) + 1 < 4294967296" using ok c by (auto simp: pmm_ok_def)
  then show ?thesis using ok c u some(6) by (auto simp: pmm_ok_def unat_Suc_u32)
qed

lemma pmm_free_frame_used:
  "frame_used (pmm_free_frame a s) = (frame_used s)(unat a div 4096 := False)"
  by (auto simp: pmm_free_frame_def Let_def unat_div fun_eq_iff)

lemma pmm_free_frame_max [simp]: "pmm_max_blocks (pmm_free_frame a s) = pmm_max_blocks s"
  by (simp add: pmm_free_frame_def Let_def)

lemma pmm_free_frame_ok [inv_intros]:
  assumes ok: "pmm_ok s" and f: "frame_used s (unat a div 4096)" "unat a div 4096 \<noteq> 0"
    "unat a div 4096 < unat (pmm_max_blocks s)"
  shows "pmm_ok (pmm_free_frame a s)"
proof -
  let ?f = "unat a div 4096"
  have fr: "free_frames (pmm_free_frame a s) = insert ?f (free_frames s)"
    by (rule free_frames_insert [OF pmm_free_frame_used _ f(3)]) simp
  have "?f \<notin> free_frames s" using f by (simp add: free_frames_def)
  then have c: "card (free_frames (pmm_free_frame a s)) = Suc (card (free_frames s))"
    unfolding fr by simp
  have sub: "insert ?f (free_frames s) \<subseteq> {..<unat (pmm_max_blocks s)} - {0}"
    using f ok by (auto simp: free_frames_def pmm_ok_def intro: gr0I)
  have "card (insert ?f (free_frames s)) \<le> card ({..<unat (pmm_max_blocks s)} - {0})"
    by (rule card_mono [OF _ sub]) simp
  then have "card (insert ?f (free_frames s)) < unat (pmm_max_blocks s)"
    using f by (auto simp: card_Diff_singleton_if split: if_splits)
  then have "1 \<le> unat (pmm_used_blocks s)" using ok c fr by (auto simp: pmm_ok_def)
  then have "unat (pmm_used_blocks s - 1) = unat (pmm_used_blocks s) - 1"
    by (simp add: unat_sub_u32)
  then show ?thesis using ok f c \<open>1 \<le> unat (pmm_used_blocks s)\<close> pmm_free_frame_used [of a s]
    by (auto simp: pmm_ok_def pmm_free_frame_def Let_def)
qed

interpretation pmm: frame_allocator pmm_alloc_frame frame_used pmm_ok
proof (unfold_locales, goal_cases)
  case (1 s)
  then show ?case by (rule pmm_alloc_frame_ok)
next
  case (2 s)
  then show ?case
    by (cases rule: pmm_alloc_frame_cases) (auto simp: frame_addr_neq_0)
next
  case (3 s)
  then show ?case
    by (cases rule: pmm_alloc_frame_cases) (auto simp: unat_frame_addr)
next
  case (4 s)
  then show ?case
    by (cases rule: pmm_alloc_frame_cases) (auto simp: unat_frame_addr)
next
  case (5 s)
  then show ?case
    by (cases rule: pmm_alloc_frame_cases) (auto simp: unat_frame_addr unat_of_nat_u32 fun_eq_iff)
qed

section \<open>Regions\<close>

lemma init_blocks_props:
  assumes "unat align + n < 4294967296"
  shows "frame_used (init_blocks n align s) f \<longleftrightarrow>
      frame_used s f \<and> \<not> (unat align \<le> f \<and> f < unat align + n)"
    and "pmm_max_blocks (init_blocks n align s) = pmm_max_blocks s"
    and "pmm_used_blocks (init_blocks n align s) = pmm_used_blocks s - of_nat n"
  using assms
proof (induction n arbitrary: align s)
  case (Suc n)
  { case 1
    then have "unat (align + 1) = Suc (unat align)" by (simp add: unat_Suc_u32)
    then show ?case using 1 Suc.IH(1) [of "align + 1"] by (auto simp: Let_def)
  next
    case 2
    then have "unat (align + 1) = Suc (unat align)" by (simp add: unat_Suc_u32)
    then show ?case using 2 Suc.IH(2) [of "align + 1"] by (simp add: Let_def)
  next
    case 3
    then have "unat (align + 1) = Suc (unat align)" by (simp add: unat_Suc_u32)
    then show ?case using 3 Suc.IH(3) [of "align + 1"] by (simp add: Let_def algebra_simps) }
qed simp_all

lemma frame_used_pmm_init:
  assumes "f < 8 * (unat (mem_size div 4096) div 8)"
  shows "frame_used (pmm_init mem_size m) f"
proof -
  let ?n = "unat (mem_size div 4096) div 8" and ?i = "f div 32" and ?k = "f mod 32"
  have f: "f = 32 * ?i + ?k" "?k < 32" by simp_all
  consider "4 * ?i + 4 \<le> ?n" | "\<not> 4 * ?i + 4 \<le> ?n" "\<not> ?n \<le> 4 * ?i" "?k < 8 * (?n - 4 * ?i)"
    using assms f by linarith
  then have "bit (memset_ff ?n m ?i) ?k"
  proof cases
    case 1
    have "bit (0xFFFFFFFF :: u32) ?k" using f(2) all_bits_u32 by blast
    then show ?thesis using 1 by (simp add: memset_ff_def)
  next
    case 2
    have "bit (2 ^ (8 * (?n - 4 * ?i)) - 1 :: u32) ?k"
      using 2(3) f(2) by (simp add: mask_eq_exp_minus_1 [symmetric] bit_mask_iff)
    then show ?thesis using 2 by (simp add: memset_ff_def bit_or_iff)
  qed
  then show ?thesis by (simp add: frame_used_def pmm_init_def Let_def unat_div)
qed

lemma pmm_init_counts [simp]:
  "pmm_max_blocks (pmm_init mem_size m) = mem_size div 4096"
  "pmm_used_blocks (pmm_init mem_size m) = mem_size div 4096"
  by (simp_all add: pmm_init_def Let_def)

lemma unat_frames_u32: "unat ((w :: u32) div 4096) = unat w div 4096" "unat w div 4096 < 1048576"
  by (simp_all add: unat_div less_mult_imp_div_less)

lemma pmm_init_region_props:
  fixes base sz :: u32
  defines "b \<equiv> unat base div 4096" and "n \<equiv> unat sz div 4096"
  shows "frame_used (pmm_init_region base sz s) f \<longleftrightarrow> f = 0 \<or> frame_used s f \<and> \<not> (b \<le> f \<and> f < b + n)"
    and "pmm_max_blocks (pmm_init_region base sz s) = pmm_max_blocks s"
    and "pmm_used_blocks (pmm_init_region base sz s) = pmm_used_blocks s - of_nat n"
proof -
  have "unat (base div 4096) + n < 4294967296"
    using unat_frames_u32 [of base] unat_frames_u32 [of sz] by (simp add: n_def)
  note p = init_blocks_props [OF this]
  show "frame_used (pmm_init_region base sz s) f \<longleftrightarrow>
      f = 0 \<or> frame_used s f \<and> \<not> (b \<le> f \<and> f < b + n)"
    using p(1) [of s f] by (auto simp: pmm_init_region_def b_def n_def unat_frames_u32)
  show "pmm_max_blocks (pmm_init_region base sz s) = pmm_max_blocks s"
    using p(2) [of s] by (simp add: pmm_init_region_def n_def unat_frames_u32)
  show "pmm_used_blocks (pmm_init_region base sz s) = pmm_used_blocks s - of_nat n"
    using p(3) [of s] by (simp add: pmm_init_region_def n_def unat_frames_u32)
qed

text \<open>The state after start-up: everything used but one region.\<close>

lemma pmm_boot_ok:
  assumes m: "8 dvd unat mem_size div 4096"
    and b: "1 \<le> unat base div 4096"
    and n: "unat base div 4096 + unat sz div 4096 \<le> unat mem_size div 4096"
  shows "pmm_ok (pmm_init_region base sz (pmm_init mem_size m))"
    and "free_frames (pmm_init_region base sz (pmm_init mem_size m)) =
      {unat base div 4096 ..< unat base div 4096 + unat sz div 4096}"
proof -
  let ?b = "unat base div 4096" and ?n = "unat sz div 4096" and ?m = "unat mem_size div 4096"
  let ?s = "pmm_init_region base sz (pmm_init mem_size m)"
  have used: "frame_used (pmm_init mem_size m) f" if "f < ?m" for f
    using that m by (intro frame_used_pmm_init) (simp add: unat_frames_u32)
  show fr: "free_frames ?s = {?b ..< ?b + ?n}"
    using used b n by (auto simp: free_frames_def pmm_init_region_props unat_frames_u32)
  have "unat (pmm_used_blocks ?s) = ?m - ?n"
    using n unat_frames_u32 [of sz] unat_frames_u32 [of mem_size]
    by (simp add: pmm_init_region_props unat_sub_u32 unat_of_nat_u32)
  then show "pmm_ok ?s"
    using n fr unat_frames_u32 [of mem_size]
    by (auto simp: pmm_ok_def pmm_init_region_props)
qed

section \<open>Properties\<close>

text \<open>
  A run of the allocator: allocations, and releases of frames that are in use (other than
  frame 0), in any order.
\<close>

inductive pmm_run :: "pmm \<Rightarrow> pmm \<Rightarrow> bool" where
  start: "pmm_run s s"
| alloc: "pmm_run s t \<Longrightarrow> pmm_run s (snd (pmm_alloc_frame t))"
| free: "pmm_run s t \<Longrightarrow> frame_used t (unat a div 4096) \<Longrightarrow> unat a div 4096 \<noteq> 0 \<Longrightarrow>
    unat a div 4096 < unat (pmm_max_blocks t) \<Longrightarrow> pmm_run s (pmm_free_frame a t)"

lemma pmm_run_ok: "pmm_run s t \<Longrightarrow> pmm_ok s \<Longrightarrow> pmm_ok t"
  by (induction rule: pmm_run.induct) (auto intro: inv_intros)

lemma pmm_alloc_frame_max [simp]: "pmm_max_blocks (snd (pmm_alloc_frame s)) = pmm_max_blocks s"
  by (simp add: pmm_alloc_frame_def Let_def)

lemma pmm_run_max: "pmm_run s t \<Longrightarrow> pmm_max_blocks t = pmm_max_blocks s"
  by (induction rule: pmm_run.induct) simp_all

text \<open>
  C24: allocating a frame is first fit. From any state whose accounting is right,
  \<open>pmm_alloc_frame\<close> either finds no free frame among the scanned ones and returns 0 with the state
  unchanged, or returns the page-aligned address of the lowest free frame, marks exactly that frame,
  and takes one from the free count.
\<close>

theorem pmm_alloc_lowest_free:
  assumes "pmm_ok s" and "pmm_alloc_frame s = (a, s')"
  shows "a = 0 \<and> s' = s \<and> (\<forall>f < scanned_frames s. frame_used s f) \<or>
    (\<exists>f < scanned_frames s. unat a = f * 4096 \<and> a \<noteq> 0 \<and> \<not> frame_used s f \<and>
       (\<forall>g < f. frame_used s g) \<and> frame_used s' = (frame_used s)(f := True) \<and>
       unat (pmm_get_free_block_count s') + 1 = unat (pmm_get_free_block_count s))"
  using assms(1)
proof (cases rule: pmm_alloc_frame_cases)
  case none
  then show ?thesis using assms by simp
next
  case (some f)
  have u: "frame_used s' = (frame_used s)(f := True)"
    using some(3,6) assms(2) by (auto simp: fun_eq_iff unat_of_nat_u32)
  have fr: "free_frames s' = free_frames s - {f}"
    using some(6) assms(2) by (intro free_frames_remove [OF u]) auto
  have ok': "pmm_ok s'" using pmm_alloc_frame_ok [OF assms(1)] assms(2) by simp
  have "f \<in> free_frames s" using some scanned_frames_le [of s] by (simp add: free_frames_def)
  then have "unat (pmm_get_free_block_count s') + 1 = unat (pmm_get_free_block_count s)"
    unfolding pmm_ok_free_count [OF ok'] pmm_ok_free_count [OF assms(1)] fr
    by (metis Suc_eq_plus1 card_Suc_Diff1 finite_free_frames)
  then show ?thesis
    using some u assms(2) by (intro disjI2 exI [of _ f]) (auto simp: unat_frame_addr frame_addr_neq_0)
qed

definition pmm_example :: pmm where
  "pmm_example = pmm_init_region 0x3000 0x1D000 (pmm_init 0x20000 (\<lambda>_. 0))"

lemma pmm_example_max [simp]: "pmm_max_blocks pmm_example = 32"
  by (simp add: pmm_example_def pmm_init_region_props)

lemma pmm_example_ok: "pmm_ok pmm_example" "free_frames pmm_example = {3 ..< 32}"
  using pmm_boot_ok [of "0x20000" "0x3000" "0x1D000" "\<lambda>_. 0"] by (simp_all add: pmm_example_def)

lemma pmm_example_used: "f < 32 \<Longrightarrow> frame_used pmm_example f \<longleftrightarrow> f < 3"
proof -
  assume "f < 32"
  have "f \<in> free_frames pmm_example \<longleftrightarrow> 3 \<le> f \<and> f < 32"
    unfolding pmm_example_ok(2) by (rule atLeastLessThan_iff)
  then show ?thesis using \<open>f < 32\<close> by (simp add: free_frames_def) linarith
qed

lemma pmm_example_scanned: "scanned_frames pmm_example = 32"
  by (simp add: scanned_frames_def)

theorem pmm_alloc_lowest_free_witness:
  "fst (pmm_alloc_frame pmm_example) = 0x3000 \<and>
   frame_used (snd (pmm_alloc_frame pmm_example)) 3 \<and> \<not> frame_used pmm_example 3"
proof -
  let ?a = "fst (pmm_alloc_frame pmm_example)" and ?s = "snd (pmm_alloc_frame pmm_example)"
  have three: "\<not> frame_used pmm_example 3" by (simp add: pmm_example_used)
  obtain f where f: "f < 32" "unat ?a = f * 4096" "\<not> frame_used pmm_example f"
      "\<forall>g < f. frame_used pmm_example g" "frame_used ?s = (frame_used pmm_example)(f := True)"
    using pmm_alloc_lowest_free [OF pmm_example_ok(1) surjective_pairing] three
    unfolding pmm_example_scanned by fastforce
  then have "f = 3" using three pmm_example_used by (metis linorder_neqE_nat)
  then show ?thesis using f three by (simp add: word_unat_eq_iff)
qed

text \<open>
  The accounting is an invariant. However allocations and releases of frames in use are
  interleaved, the counter stays equal to the number of used frames (so the free count is the number
  of clear bits), and frame 0 stays taken.
\<close>

theorem pmm_run_accounting:
  assumes "pmm_ok s" and "pmm_run s t"
  shows "pmm_ok t \<and> pmm_max_blocks t = pmm_max_blocks s \<and>
    unat (pmm_get_free_block_count t) = card (free_frames t)"
  using pmm_run_ok [OF assms(2,1)] pmm_run_max [OF assms(2)] pmm_ok_free_count by blast

theorem pmm_run_accounting_witness:
  "let t = pmm_free_frame 0x1000 (snd (pmm_alloc_frame pmm_example))
   in pmm_ok t \<and> unat (pmm_get_free_block_count t) = card (free_frames t)"
proof -
  let ?s = "snd (pmm_alloc_frame pmm_example)"
  have "frame_used ?s 1"
    using pmm.used_mono [OF pmm_example_ok(1), of 1] by (simp add: pmm_example_used)
  then have "pmm_run pmm_example (pmm_free_frame 0x1000 ?s)"
    by (intro pmm_run.intros) simp_all
  from pmm_run_accounting [OF pmm_example_ok(1) this] show ?thesis by (simp add: Let_def)
qed

text \<open>
  No frame is handed out twice. Any number of consecutive allocations gives pairwise distinct
  frames (failures aside), none of which was in use before.
\<close>

theorem pmm_frames_distinct:
  assumes "pmm_ok s"
  shows "distinct (filter (\<lambda>a. a \<noteq> 0) (fst (alloc_many pmm_alloc_frame n s))) \<and>
    (\<forall>a \<in> set (fst (alloc_many pmm_alloc_frame n s)). a \<noteq> 0 \<longrightarrow> \<not> frame_used s (unat a div 4096))"
  using pmm.alloc_many_distinct [OF assms] pmm.alloc_many_fresh [OF assms] by blast

theorem pmm_frames_distinct_witness:
  "distinct (filter (\<lambda>a. a \<noteq> 0) (fst (alloc_many pmm_alloc_frame 3 pmm_example)))"
  using pmm_frames_distinct [OF pmm_example_ok(1)] by blast

text \<open>
  Start-up accounting. After \<open>pmm_init\<close> on a memory of a multiple of eight frames and
  \<open>pmm_init_region\<close> of a region above frame 0 inside it, the accounting is right and exactly the
  frames of that region are free.
\<close>

theorem pmm_boot_accounting:
  assumes "8 dvd unat mem_size div 4096" and "1 \<le> unat base div 4096"
    and "unat base div 4096 + unat sz div 4096 \<le> unat mem_size div 4096"
  shows "pmm_ok (pmm_init_region base sz (pmm_init mem_size m)) \<and>
    free_frames (pmm_init_region base sz (pmm_init mem_size m)) =
      {unat base div 4096 ..< unat base div 4096 + unat sz div 4096}"
  using pmm_boot_ok [OF assms] by blast

theorem pmm_boot_accounting_witness:
  "free_frames (pmm_init_region 0x100000 0x100000 (pmm_init 0x200000 (\<lambda>_. 7))) = {256 ..< 512}"
  using pmm_boot_accounting [of "0x200000" "0x100000" "0x100000" "\<lambda>_. 7"] by simp

text \<open>
  A region that starts in frame 0 breaks the accounting. \<open>pmm_init_region\<close> takes one from the
  used count for every frame of the region and then sets bit 0 again without counting it, so the
  free count is one more than the number of free frames for good.
\<close>

theorem pmm_init_region_frame0_drift:
  assumes "8 dvd unat mem_size div 4096" and "unat base div 4096 = 0"
    and "0 < unat sz div 4096" and "unat sz div 4096 \<le> unat mem_size div 4096"
  shows "unat (pmm_get_free_block_count (pmm_init_region base sz (pmm_init mem_size m))) =
    card (free_frames (pmm_init_region base sz (pmm_init mem_size m))) + 1"
proof -
  let ?s = "pmm_init_region base sz (pmm_init mem_size m)"
  let ?n = "unat sz div 4096" and ?m = "unat mem_size div 4096"
  have used: "frame_used (pmm_init mem_size m) f" if "f < ?m" for f
    using that assms(1) by (intro frame_used_pmm_init) (simp add: unat_frames_u32)
  have "free_frames ?s = {1 ..< ?n}"
    using used assms by (auto simp: free_frames_def pmm_init_region_props unat_frames_u32)
  moreover have "unat (pmm_get_free_block_count ?s) = ?n"
    using assms unat_frames_u32 [of sz]
    by (simp add: pmm_get_free_block_count_def pmm_init_region_props unat_of_nat_u32)
  ultimately show ?thesis using assms(3) by simp
qed

theorem pmm_init_region_frame0_drift_witness:
  "unat (pmm_get_free_block_count (pmm_init_region 0 0x4000 (pmm_init 0x20000 (\<lambda>_. 0)))) =
   card (free_frames (pmm_init_region 0 0x4000 (pmm_init 0x20000 (\<lambda>_. 0)))) + 1"
  using pmm_init_region_frame0_drift [of "0x20000" 0 "0x4000" "\<lambda>_. 0"] by simp

end
