(* ===== verification/Heap.thy ===== *)
theory Heap
  imports Interfaces
begin

text \<open>
  The kernel heap, \<open>kernel/heap.c\<close>: a singly linked list of blocks, each a 12-byte header
  (\<open>heap_block_t\<close>) followed by its payload. Headers live in memory: the model keeps the store
  \<open>heap_mem\<close> from addresses to headers, with the \<open>next\<close> pointers of the code, and the operations
  walk and relink it. The loops follow pointers, so they are \<open>partial_function\<close>s; that they
  return on a well-formed heap is proved. The second part relates the store to a list of blocks
  that tiles the heap area, on which the operations are first-fit allocation and coalescing.
\<close>

section \<open>State and operations\<close>

record heap_block =
  blk_size :: u32
  blk_free :: bool
  blk_next :: u32

record heap =
  heap_mem :: "u32 \<Rightarrow> heap_block"
  heap_start :: u32
  heap_end_addr :: u32

abbreviation HEAP_START :: u32 where "HEAP_START \<equiv> 0x200000"
abbreviation HEAP_INITIAL_SIZE :: u32 where "HEAP_INITIAL_SIZE \<equiv> 0x800000"

text \<open>\<open>sizeof(heap_block_t)\<close>: two 32-bit words and a pointer.\<close>

abbreviation HDR :: u32 where "HDR \<equiv> 12"

definition upd_block :: "u32 \<Rightarrow> (heap_block \<Rightarrow> heap_block) \<Rightarrow> heap \<Rightarrow> heap" where
  "upd_block p f h = h\<lparr>heap_mem := (heap_mem h)(p := f (heap_mem h p))\<rparr>"

definition heap_init :: "(u32 \<Rightarrow> heap_block) \<Rightarrow> heap" where
  "heap_init mem =
     upd_block HEAP_START
       (\<lambda>_. \<lparr>blk_size = HEAP_INITIAL_SIZE - HDR, blk_free = True, blk_next = 0\<rparr>)
       \<lparr>heap_mem = mem, heap_start = HEAP_START, heap_end_addr = HEAP_START + HEAP_INITIAL_SIZE\<rparr>"

definition split_block :: "u32 \<Rightarrow> u32 \<Rightarrow> heap \<Rightarrow> heap" where
  "split_block block sz h =
     (if sz + HDR + 16 \<le> blk_size (heap_mem h block)
      then let new_block = block + HDR + sz;
               h = upd_block new_block
                     (\<lambda>_. \<lparr>blk_size = blk_size (heap_mem h block) - sz - HDR, blk_free = True,
                          blk_next = blk_next (heap_mem h block)\<rparr>) h
           in upd_block block (\<lambda>b. b\<lparr>blk_size := sz, blk_next := new_block\<rparr>) h
      else h)"

partial_function (option) kmalloc_walk :: "u32 \<Rightarrow> u32 \<Rightarrow> heap \<Rightarrow> (u32 \<times> heap) option" where
  "kmalloc_walk current sz h =
     (if current = 0 then Some (0, h)
      else if blk_free (heap_mem h current) \<and> sz \<le> blk_size (heap_mem h current)
      then Some (current + HDR,
                 upd_block current (\<lambda>b. b\<lparr>blk_free := False\<rparr>) (split_block current sz h))
      else kmalloc_walk (blk_next (heap_mem h current)) sz h)"

text \<open>The pointer \<open>NULL\<close> is 0. \<open>~3\<close> clears the low two bits.\<close>

definition align4 :: "u32 \<Rightarrow> u32" where
  "align4 sz = (sz + 3) AND NOT 3"

definition kmalloc :: "u32 \<Rightarrow> heap \<Rightarrow> (u32 \<times> heap) option" where
  "kmalloc sz h = (if sz = 0 then Some (0, h) else kmalloc_walk (heap_start h) (align4 sz) h)"

definition kmalloc_aligned :: "u32 \<Rightarrow> heap \<Rightarrow> (u32 \<times> heap) option" where
  "kmalloc_aligned sz h = kmalloc ((sz + 4096 - 1) AND NOT (4096 - 1)) h"

text \<open>\<open>*phys\<close> is the second component, set when the allocation succeeded.\<close>

definition kmalloc_physical :: "u32 \<Rightarrow> heap \<Rightarrow> (u32 \<times> u32 option \<times> heap) option" where
  "kmalloc_physical sz h =
     map_option (\<lambda>(addr, h). (addr, if addr \<noteq> 0 then Some addr else None, h)) (kmalloc sz h)"

partial_function (option) coalesce :: "u32 \<Rightarrow> heap \<Rightarrow> heap option" where
  "coalesce current h =
     (let nxt = blk_next (heap_mem h current)
      in if current \<noteq> 0 \<and> nxt \<noteq> 0
         then if blk_free (heap_mem h current) \<and> blk_free (heap_mem h nxt)
              then coalesce current
                     (upd_block current
                        (\<lambda>b. b\<lparr>blk_size := blk_size b + (HDR + blk_size (heap_mem h nxt)),
                              blk_next := blk_next (heap_mem h nxt)\<rparr>) h)
              else coalesce nxt h
         else Some h)"

definition kfree :: "u32 \<Rightarrow> heap \<Rightarrow> heap option" where
  "kfree ptr h =
     (if ptr = 0 then Some h
      else coalesce (heap_start h) (upd_block (ptr - HDR) (\<lambda>b. b\<lparr>blk_free := True\<rparr>) h))"

lemma upd_block_simps [simp]:
  "heap_mem (upd_block p f h) = (heap_mem h)(p := f (heap_mem h p))"
  "heap_start (upd_block p f h) = heap_start h"
  "heap_end_addr (upd_block p f h) = heap_end_addr h"
  by (simp_all add: upd_block_def)

lemma split_block_start [simp]: "heap_start (split_block p n h) = heap_start h"
  by (simp add: split_block_def Let_def)

section \<open>The heap as a list of blocks\<close>

text \<open>
  A block of the list: address of the header, payload size, free flag. \<open>chain\<close> says that the
  pointers from \<open>p\<close> run through exactly these blocks; \<open>tiles\<close> that they lie one after the other
  from \<open>a\<close> to \<open>e\<close>, with word-aligned sizes.
\<close>

type_synonym block = "u32 \<times> u32 \<times> bool"

fun chain :: "(u32 \<Rightarrow> heap_block) \<Rightarrow> u32 \<Rightarrow> block list \<Rightarrow> bool" where
  "chain m p [] \<longleftrightarrow> p = 0"
| "chain m p ((a, sz, f) # bs) \<longleftrightarrow>
     p = a \<and> p \<noteq> 0 \<and> blk_size (m p) = sz \<and> blk_free (m p) = f \<and> chain m (blk_next (m p)) bs"

fun tiles :: "nat \<Rightarrow> block list \<Rightarrow> nat \<Rightarrow> bool" where
  "tiles a [] e \<longleftrightarrow> a = e"
| "tiles a ((p, sz, f) # bs) e \<longleftrightarrow>
     unat p = a \<and> 4 dvd unat sz \<and> tiles (a + 12 + unat sz) bs e"

definition heap_lo :: nat where "heap_lo = unat HEAP_START"
definition heap_hi :: nat where "heap_hi = unat HEAP_START + unat HEAP_INITIAL_SIZE"

definition heap_repr :: "heap \<Rightarrow> block list \<Rightarrow> bool" where
  "heap_repr h bs \<longleftrightarrow>
     heap_start h = HEAP_START \<and> chain (heap_mem h) HEAP_START bs \<and> tiles heap_lo bs heap_hi"

lemma heap_bounds: "heap_lo = 2097152" "heap_hi = 10485760"
  by (simp_all add: heap_lo_def heap_hi_def)

lemma chain_functional: "chain m p bs \<Longrightarrow> chain m p bs' \<Longrightarrow> bs = bs'"
proof (induction m p bs arbitrary: bs' rule: chain.induct)
  case (1 m p)
  then show ?case by (cases bs') auto
next
  case (2 m p a sz f bs)
  from "2.prems" obtain bs'' where "bs' = (a, sz, f) # bs''" "chain m (blk_next (m p)) bs''"
    by (cases bs') auto
  with "2.IH" [of bs''] "2.prems"(1) show ?case by auto
qed

lemma heap_repr_functional: "heap_repr h bs \<Longrightarrow> heap_repr h bs' \<Longrightarrow> bs = bs'"
  unfolding heap_repr_def using chain_functional by blast

lemma tiles_le: "tiles a bs e \<Longrightarrow> a \<le> e"
  by (induction a bs e rule: tiles.induct) auto

lemma tiles_bounds:
  "tiles a bs e \<Longrightarrow> (p, sz, f) \<in> set bs \<Longrightarrow> a \<le> unat p \<and> unat p + 12 + unat sz \<le> e"
proof (induction a bs e rule: tiles.induct)
  case (2 a p' sz' f' bs e)
  then show ?case using tiles_le by fastforce
qed simp

lemma chain_upd_other: "q \<notin> fst ` set bs \<Longrightarrow> chain (m(q := b)) p bs \<longleftrightarrow> chain m p bs"
  by (induction m p bs rule: chain.induct) auto

lemma tiles_not_in:
  assumes "tiles a bs e" "unat q < a \<or> e \<le> unat q"
  shows "q \<notin> fst ` set bs"
proof
  assume "q \<in> fst ` set bs"
  then obtain sz f where "(q, sz, f) \<in> set bs" by auto
  from tiles_bounds [OF assms(1) this] assms(2) show False by linarith
qed

section \<open>First-fit allocation on the list\<close>

text \<open>\<open>28\<close> is \<open>sizeof(heap_block_t) + 16\<close>: a block is split when the rest can hold that much.\<close>

fun alloc_list :: "u32 \<Rightarrow> block list \<Rightarrow> u32 \<times> block list" where
  "alloc_list n [] = (0, [])"
| "alloc_list n ((p, sz, f) # bs) =
     (if f \<and> n \<le> sz
      then (p + 12,
            if unat n + 28 \<le> unat sz
            then (p, n, False) # (p + 12 + n, sz - n - 12, True) # bs
            else (p, sz, False) # bs)
      else (fst (alloc_list n bs), (p, sz, f) # snd (alloc_list n bs)))"

fun coalesce_list :: "block list \<Rightarrow> block list" where
  "coalesce_list ((p, s, f) # (q, t, g) # bs) =
     (if f \<and> g then coalesce_list ((p, s + (12 + t), True) # bs)
      else (p, s, f) # coalesce_list ((q, t, g) # bs))"
| "coalesce_list bs = bs"

fun free_list :: "u32 \<Rightarrow> block list \<Rightarrow> block list" where
  "free_list q [] = []"
| "free_list q ((p, sz, f) # bs) = (p, sz, p = q \<or> f) # free_list q bs"

lemma split_guard:
  assumes "sz \<le> blk_size (heap_mem h p)" "unat (blk_size (heap_mem h p)) < 4294967200"
  shows "sz + HDR + 16 \<le> blk_size (heap_mem h p) \<longleftrightarrow> unat sz + 28 \<le> unat (blk_size (heap_mem h p))"
proof -
  have "unat (sz + HDR + 16) = unat sz + 28"
    using assms by (simp add: unat_word_ariths unat_le_u32)
  then show ?thesis by (simp add: unat_le_u32)
qed

text \<open>The pointer walk computes the list allocation and keeps the representation.\<close>

lemma kmalloc_walk_refines:
  assumes "chain (heap_mem h) p bs" "tiles a bs e" "e \<le> heap_hi" "0 < a" "4 dvd unat n"
  shows "\<exists>h'. kmalloc_walk p n h = Some (fst (alloc_list n bs), h') \<and>
    heap_start h' = heap_start h \<and>
    chain (heap_mem h') p (snd (alloc_list n bs)) \<and> tiles a (snd (alloc_list n bs)) e \<and>
    (\<forall>q. unat q < a \<or> e \<le> unat q \<longrightarrow> heap_mem h' q = heap_mem h q)"
  using assms
proof (induction n bs arbitrary: p a rule: alloc_list.induct)
  case (1 n)
  then show ?case by (subst kmalloc_walk.simps) auto
next
  case (2 n p' sz f bs)
  let ?m = "heap_mem h"
  have p: "p = p'" "p \<noteq> 0" "blk_size (?m p) = sz" "blk_free (?m p) = f"
    and ch: "chain ?m (blk_next (?m p)) bs"
    using "2.prems"(1) by auto
  from "2.prems"(2) have a: "unat p = a" "4 dvd unat sz" and ti: "tiles (a + 12 + unat sz) bs e"
    unfolding p(1) by simp_all
  have e: "a + 12 + unat sz \<le> e" using ti by (rule tiles_le)
  have hi: "e \<le> 10485760" using "2.prems"(3) by (simp add: heap_bounds)
  show ?case
  proof (cases "f \<and> n \<le> sz")
    case False
    have "\<exists>h'. kmalloc_walk (blk_next (?m p)) n h = Some (fst (alloc_list n bs), h') \<and>
      heap_start h' = heap_start h \<and>
      chain (heap_mem h') (blk_next (?m p)) (snd (alloc_list n bs)) \<and>
      tiles (a + 12 + unat sz) (snd (alloc_list n bs)) e \<and>
      (\<forall>q. unat q < a + 12 + unat sz \<or> e \<le> unat q \<longrightarrow> heap_mem h' q = ?m q)"
      using "2.IH"(1) [OF _ ch ti "2.prems"(3) _ "2.prems"(5)] False by auto
    then obtain h' where h': "kmalloc_walk (blk_next (?m p)) n h = Some (fst (alloc_list n bs), h')"
      "heap_start h' = heap_start h" "chain (heap_mem h') (blk_next (?m p)) (snd (alloc_list n bs))"
      "tiles (a + 12 + unat sz) (snd (alloc_list n bs)) e"
      "\<forall>q. unat q < a + 12 + unat sz \<or> e \<le> unat q \<longrightarrow> heap_mem h' q = ?m q" by blast
    have "kmalloc_walk p n h = kmalloc_walk (blk_next (?m p)) n h"
      using False p by (subst kmalloc_walk.simps) auto
    moreover have "heap_mem h' p = ?m p" using h'(5) a by simp
    ultimately show ?thesis using False p a h' by auto
  next
    case True
    have nle: "unat n \<le> unat sz" using True by (simp add: unat_le_u32)
    have g: "n + HDR + 16 \<le> blk_size (?m p) \<longleftrightarrow> unat n + 28 \<le> unat sz"
      using split_guard [of n h p] True p(3) e hi by simp
    let ?h = "upd_block p (\<lambda>b. b\<lparr>blk_free := False\<rparr>) (split_block p n h)"
    have walk: "kmalloc_walk p n h = Some (p + HDR, ?h)"
      using True p by (subst kmalloc_walk.simps) auto
    show ?thesis
    proof (cases "unat n + 28 \<le> unat sz")
      case False
      then have "split_block p n h = h" using g by (simp add: split_block_def)
      moreover have "p \<notin> fst ` set bs" using ti a by (intro tiles_not_in) auto
      ultimately show ?thesis
        using True False p a ch ti e walk by (auto simp: chain_upd_other)
    next
      case split: True
      let ?q = "p + HDR + n"
      have q: "unat ?q = a + 12 + unat n" using a split e hi by (simp add: unat_word_ariths)
      have r: "unat (sz - n - HDR) = unat sz - unat n - 12"
        using split nle by (simp add: unat_sub_u32)
      have "unat ?q \<noteq> unat p" "unat ?q \<noteq> 0" unfolding q a by simp_all
      then have qp: "?q \<noteq> p" "?q \<noteq> 0" by (metis unat_0)+
      have nin: "?q \<notin> fst ` set bs" "p \<notin> fst ` set bs"
        by (rule tiles_not_in [OF ti], use q a split in linarith)+
      have "4 dvd unat sz - unat n - 12" using a(2) "2.prems"(5) by (auto intro!: dvd_diff_nat)
      moreover have "a + 12 + unat n + 12 + (unat sz - unat n - 12) = a + 12 + unat sz"
        using split by linarith
      ultimately have tl: "tiles (a + 12 + unat n) ((?q, sz - n - HDR, True) # bs) e"
        using ti q r by (simp add: ac_simps)
      have "heap_mem ?h = ?m(?q := \<lparr>blk_size = sz - n - HDR, blk_free = True, blk_next = blk_next (?m p)\<rparr>,
          p := \<lparr>blk_size = n, blk_free = False, blk_next = ?q\<rparr>)"
        using split g p qp by (auto simp: split_block_def Let_def fun_eq_iff)
      then show ?thesis
        using True split p a ch nin qp tl walk q "2.prems"(5) e
        by (auto simp: chain_upd_other)
    qed
  qed
qed

section \<open>Coalescing on the list\<close>

lemma coalesce_refines:
  assumes "chain (heap_mem h) p bs" "tiles a bs e" "e \<le> heap_hi" "0 < a"
  shows "\<exists>h'. coalesce p h = Some h' \<and> heap_start h' = heap_start h \<and>
    chain (heap_mem h') p (coalesce_list bs) \<and> tiles a (coalesce_list bs) e \<and>
    (\<forall>q. unat q < a \<or> e \<le> unat q \<longrightarrow> heap_mem h' q = heap_mem h q)"
  using assms
proof (induction bs arbitrary: p a h rule: coalesce_list.induct)
  case "2_1"
  then show ?case by (subst coalesce.simps) (auto simp: Let_def)
next
  case "2_2"
  then show ?case by (subst coalesce.simps) (auto simp: Let_def split_paired_all elim!: chain.elims)
next
  case (1 p' sz f q t g bs)
  let ?m = "heap_mem h"
  have p: "p = p'" "p \<noteq> 0" "blk_size (?m p) = sz" "blk_free (?m p) = f" "blk_next (?m p) = q"
    and q: "q \<noteq> 0" "blk_size (?m q) = t" "blk_free (?m q) = g"
    and ch: "chain ?m (blk_next (?m q)) bs"
    using "1.prems"(1) by auto
  from "1.prems"(2) have a: "unat p = a" "4 dvd unat sz" "unat q = a + 12 + unat sz" "4 dvd unat t"
    and ti: "tiles (a + 12 + unat sz + 12 + unat t) bs e"
    unfolding p(1) by simp_all
  have e: "a + 12 + unat sz + 12 + unat t \<le> e" using ti by (rule tiles_le)
  have hi: "e \<le> 10485760" using "1.prems"(3) by (simp add: heap_bounds)
  show ?case
  proof (cases "f \<and> g")
    case True
    let ?h = "upd_block p (\<lambda>b. b\<lparr>blk_size := blk_size b + (HDR + t), blk_next := blk_next (?m q)\<rparr>) h"
    have sz: "unat (sz + (12 + t)) = unat sz + 12 + unat t"
      using e hi by (simp add: unat_word_ariths)
    have nin: "p \<notin> fst ` set bs" using ti a by (intro tiles_not_in) auto
    have "chain (heap_mem ?h) p ((p', sz + (12 + t), True) # bs)"
      using p q ch True nin by (auto simp: chain_upd_other add.commute)
    moreover have "tiles a ((p', sz + (12 + t), True) # bs) e"
      using a ti p(1) sz by (auto simp: add.assoc intro: dvd_add)
    ultimately obtain h' where h': "coalesce p ?h = Some h'" "heap_start h' = heap_start ?h"
      "chain (heap_mem h') p (coalesce_list ((p', sz + (12 + t), True) # bs))"
      "tiles a (coalesce_list ((p', sz + (12 + t), True) # bs)) e"
      "\<forall>q. unat q < a \<or> e \<le> unat q \<longrightarrow> heap_mem h' q = heap_mem ?h q"
      using "1.IH"(1) [OF True _ _ "1.prems"(3,4), of ?h p] by blast
    have "coalesce p h = coalesce p ?h"
      using True p q by (subst coalesce.simps) (simp add: Let_def)
    then show ?thesis using h' True a e by auto
  next
    case False
    have "chain ?m q ((q, t, g) # bs)" using q ch by simp
    moreover have "tiles (a + 12 + unat sz) ((q, t, g) # bs) e" using a ti by simp
    ultimately obtain h' where h': "coalesce q h = Some h'" "heap_start h' = heap_start h"
      "chain (heap_mem h') q (coalesce_list ((q, t, g) # bs))"
      "tiles (a + 12 + unat sz) (coalesce_list ((q, t, g) # bs)) e"
      "\<forall>r. unat r < a + 12 + unat sz \<or> e \<le> unat r \<longrightarrow> heap_mem h' r = ?m r"
      using "1.IH"(2) [OF False _ _ "1.prems"(3), of h q "a + 12 + unat sz"] by auto
    have "coalesce p h = coalesce q h"
      using False p q by (subst coalesce.simps) (auto simp: Let_def)
    moreover have "heap_mem h' p = ?m p" using h'(5) a by simp
    ultimately show ?thesis using h' False p a by auto
  qed
qed

lemma chain_free_list:
  "chain m p bs \<Longrightarrow> chain (m(q := (m q)\<lparr>blk_free := True\<rparr>)) p (free_list q bs)"
  by (induction m p bs rule: chain.induct) auto

lemma tiles_free_list: "tiles a bs e \<Longrightarrow> tiles a (free_list q bs) e"
  by (induction a bs e rule: tiles.induct) auto

text \<open>What the two operations do to a represented heap.\<close>

lemma unat_align4: "unat (align4 sz) = unat (sz + 3) - unat (sz + 3) mod 4"
proof -
  have "(3 :: u32) = mask 2" by (simp add: mask_eq_exp_minus_1)
  then have "align4 sz = (sz + 3) AND NOT (mask 2)" by (simp add: align4_def)
  then show ?thesis by (simp add: unat_and_not_mask)
qed

lemma align4_dvd: "4 dvd unat (align4 sz)"
  unfolding unat_align4 by (rule dvd_minus_mod)

lemma align4_ge: "unat sz \<le> 4294967292 \<Longrightarrow> unat sz \<le> unat (align4 sz)"
  unfolding unat_align4 by (simp add: unat_word_ariths)

lemma kmalloc_refines:
  assumes "heap_repr h bs" "sz \<noteq> 0"
  shows "\<exists>h'. kmalloc sz h = Some (fst (alloc_list (align4 sz) bs), h') \<and>
    heap_repr h' (snd (alloc_list (align4 sz) bs))"
  using kmalloc_walk_refines [of h HEAP_START bs heap_lo heap_hi "align4 sz"] assms align4_dvd
  by (auto simp: heap_repr_def kmalloc_def heap_lo_def)

lemma kfree_refines:
  assumes "heap_repr h bs" "ptr \<noteq> 0"
  shows "\<exists>h'. kfree ptr h = Some h' \<and> heap_repr h' (coalesce_list (free_list (ptr - HDR) bs))"
proof -
  let ?h = "upd_block (ptr - HDR) (\<lambda>b. b\<lparr>blk_free := True\<rparr>) h"
  have "chain (heap_mem ?h) HEAP_START (free_list (ptr - HDR) bs)"
    using assms chain_free_list by (auto simp: heap_repr_def)
  moreover have "tiles heap_lo (free_list (ptr - HDR) bs) heap_hi"
    using assms tiles_free_list by (auto simp: heap_repr_def)
  ultimately show ?thesis
    using coalesce_refines [of ?h HEAP_START "free_list (ptr - HDR) bs" heap_lo heap_hi] assms
    by (auto simp: heap_repr_def kfree_def heap_bounds)
qed

section \<open>Live regions\<close>

definition live_list :: "block list \<Rightarrow> (u32 \<times> nat) set" where
  "live_list bs = {(p + HDR, unat sz) | p sz. (p, sz, False) \<in> set bs}"

lemma live_list_simps [simp]:
  "live_list [] = {}"
  "live_list ((p, sz, f) # bs) = (if f then {} else {(p + HDR, unat sz)}) \<union> live_list bs"
  by (auto simp: live_list_def)

lemma live_list_coalesce [simp]: "live_list (coalesce_list bs) = live_list bs"
  by (induction bs rule: coalesce_list.induct) auto

lemma live_list_free: "live_list (free_list q bs) = live_list bs - {(a, k). a = q + HDR}"
proof (induction q bs rule: free_list.induct)
  case (2 q p sz f bs)
  then show ?case by (cases "p = q") (simp_all add: Un_Diff insert_Diff_if)
qed simp

lemma tiles_disjoint:
  "tiles a bs e \<Longrightarrow> (p, sz, f) \<in> set bs \<Longrightarrow> (q, t, g) \<in> set bs \<Longrightarrow> (p, sz, f) \<noteq> (q, t, g) \<Longrightarrow>
   unat p + 12 + unat sz \<le> unat q \<or> unat q + 12 + unat t \<le> unat p"
proof (induction a bs e rule: tiles.induct)
  case (2 a p' sz' f' bs e)
  have t: "tiles (a + 12 + unat sz') bs e" "unat p' = a" using "2.prems"(1) by simp_all
  show ?case
  proof (cases "(p, sz, f) \<in> set bs \<and> (q, t, g) \<in> set bs")
    case True
    then show ?thesis using "2.IH" [OF t(1)] "2.prems"(4) by blast
  next
    case False
    then have "(p, sz, f) = (p', sz', f') \<and> (q, t, g) \<in> set bs \<or>
        (q, t, g) = (p', sz', f') \<and> (p, sz, f) \<in> set bs"
      using "2.prems"(2-4) by auto
    then show ?thesis using tiles_bounds [OF t(1)] t(2) by fastforce
  qed
qed simp

lemma tiles_addr_unique:
  "tiles a bs e \<Longrightarrow> (p, sz, f) \<in> set bs \<Longrightarrow> (p, t, g) \<in> set bs \<Longrightarrow> sz = t \<and> f = g"
  using tiles_disjoint [of a bs e p sz f p t g] by auto

lemma alloc_list_cases:
  assumes "tiles a bs e" "e \<le> heap_hi"
  shows "fst (alloc_list n bs) = 0 \<and> snd (alloc_list n bs) = bs \<and>
      (\<forall>(p, sz, f) \<in> set bs. f \<longrightarrow> sz < n) \<or>
    (\<exists>p sz k. fst (alloc_list n bs) = p + HDR \<and> p + HDR \<noteq> 0 \<and> (p, sz, True) \<in> set bs \<and>
      unat n \<le> k \<and> live_list (snd (alloc_list n bs)) = insert (p + HDR, k) (live_list bs))"
  using assms
proof (induction n bs arbitrary: a rule: alloc_list.induct)
  case (2 n p sz f bs)
  have t: "tiles (a + 12 + unat sz) bs e" "unat p = a" using "2.prems"(1) by simp_all
  show ?case
  proof (cases "f \<and> n \<le> sz")
    case True
    have "unat p + 12 \<le> 10485760" using t tiles_le [OF t(1)] "2.prems"(2) by (simp add: heap_bounds)
    then have "unat (p + HDR) = unat p + 12" by (simp add: unat_word_ariths)
    then have "p + HDR \<noteq> 0" by (metis add_is_0 unat_0 zero_neq_numeral)
    then show ?thesis
      using True by (intro disjI2 exI [of _ p] exI [of _ sz]) (auto simp: unat_le_u32)
  next
    case False
    then show ?thesis
      using "2.IH"(1) [OF False t(1) "2.prems"(2)] by (auto simp: not_le insert_commute)
  qed
qed simp

definition heap_inv :: "heap \<Rightarrow> bool" where
  "heap_inv h \<longleftrightarrow> (\<exists>bs. heap_repr h bs)"

definition live :: "heap \<Rightarrow> (u32 \<times> nat) set" where
  "live h = {r. \<exists>bs. heap_repr h bs \<and> r \<in> live_list bs}"

lemma live_eq: "heap_repr h bs \<Longrightarrow> live h = live_list bs"
  using heap_repr_functional by (auto simp: live_def)

lemma heap_repr_init: "heap_repr (heap_init mem) [(HEAP_START, HEAP_INITIAL_SIZE - HDR, True)]"
  by (simp add: heap_repr_def heap_init_def heap_bounds)

lemma unat_hdr:
  "tiles heap_lo bs heap_hi \<Longrightarrow> (p, sz, f) \<in> set bs \<Longrightarrow> unat (p + HDR) = unat p + 12"
  using tiles_bounds [of heap_lo bs heap_hi p sz f] by (simp add: heap_bounds unat_word_ariths)

lemma kmalloc_cases:
  assumes "heap_repr h bs" "kmalloc sz h = Some (a, h')"
  shows "a = 0 \<and> live h' = live h \<and> heap_repr h' bs \<or>
    (\<exists>k. a \<noteq> 0 \<and> heap_inv h' \<and> live h' = insert (a, k) (live h) \<and> (a, k) \<notin> live h \<and>
      unat (align4 sz) \<le> k)"
proof (cases "sz = 0")
  case True
  then show ?thesis using assms by (auto simp: kmalloc_def)
next
  case False
  let ?n = "align4 sz"
  have t: "tiles heap_lo bs heap_hi" using assms(1) by (simp add: heap_repr_def)
  have r: "a = fst (alloc_list ?n bs)" "heap_repr h' (snd (alloc_list ?n bs))"
    using kmalloc_refines [OF assms(1) False] assms(2) by auto
  consider "a = 0" "snd (alloc_list ?n bs) = bs"
    | p s k where "a = p + HDR" "a \<noteq> 0" "(p, s, True) \<in> set bs" "unat ?n \<le> k"
        "live_list (snd (alloc_list ?n bs)) = insert (a, k) (live_list bs)"
    using alloc_list_cases [OF t order_refl, of ?n] r(1) by auto
  then show ?thesis
  proof cases
    case 1
    then show ?thesis using r live_eq [OF r(2)] live_eq [OF assms(1)] by simp
  next
    case (2 p s k)
    have "(a, k) \<notin> live_list bs"
      using 2(1,3) tiles_addr_unique [OF t] by (fastforce simp: live_list_def)
    then show ?thesis
      using 2 r live_eq [OF r(2)] live_eq [OF assms(1)] by (auto simp: heap_inv_def)
  qed
qed

lemma live_block:
  assumes "heap_repr h bs" "(a, k) \<in> live h"
  obtains p sz where "(p, sz, False) \<in> set bs" "a = p + HDR" "k = unat sz" "unat a = unat p + 12"
    "a \<noteq> 0"
proof -
  have t: "tiles heap_lo bs heap_hi" using assms(1) by (simp add: heap_repr_def)
  obtain p sz where p: "(p, sz, False) \<in> set bs" "a = p + HDR" "k = unat sz"
    using assms live_eq by (auto simp: live_list_def)
  have u: "unat a = unat p + 12" using unat_hdr [OF t p(1)] p(2) by simp
  then have "a \<noteq> 0" by (metis add_is_0 unat_0 zero_neq_numeral)
  then show ?thesis using that p u by blast
qed

lemma live_list_base:
  assumes t: "tiles heap_lo bs heap_hi" and i: "(a, k) \<in> live_list bs" "(a, l) \<in> live_list bs"
  shows "k = l"
  using i tiles_addr_unique [OF t] by (fastforce simp: live_list_def)

lemma kfree_live:
  assumes r: "heap_repr h bs" and l: "(a, k) \<in> live h"
  obtains h' where "kfree a h = Some h'" "heap_repr h' (coalesce_list (free_list (a - HDR) bs))"
    "live h' = live h - {(a, k)}"
proof -
  have t: "tiles heap_lo bs heap_hi" using r by (simp add: heap_repr_def)
  have "a \<noteq> 0" using live_block [OF r l] by metis
  then obtain h' where h': "kfree a h = Some h'"
    "heap_repr h' (coalesce_list (free_list (a - HDR) bs))"
    using kfree_refines [OF r] by blast
  have l': "(a, k) \<in> live_list bs" using l live_eq [OF r] by simp
  have base: "j = k" if "(a, j) \<in> live_list bs" for j by (rule live_list_base [OF t that l'])
  have "live h' = live_list bs - {(b, j). b = a}"
    using live_eq [OF h'(2)] by (simp add: live_list_free)
  also have "\<dots> = live h - {(a, k)}"
    unfolding live_eq [OF r] using base l' by blast
  finally have "live h' = live h - {(a, k)}" .
  with h' show ?thesis by (rule that)
qed

interpretation kheap: region_allocator kmalloc kfree live heap_inv
proof (unfold_locales, goal_cases)
  case (1 s n)
  then obtain bs where bs: "heap_repr s bs" by (auto simp: heap_inv_def)
  show ?case
  proof (cases "n = 0")
    case True
    then show ?thesis using 1 by (simp add: kmalloc_def)
  next
    case False
    then show ?thesis using kmalloc_refines [OF bs] unfolding heap_inv_def by blast
  qed
next
  case (2 s n s')
  then obtain bs where bs: "heap_repr s bs" by (auto simp: heap_inv_def)
  from kmalloc_cases [OF this 2(2)] show ?case by blast
next
  case (3 s n a s')
  then obtain bs where bs: "heap_repr s bs" by (auto simp: heap_inv_def)
  from kmalloc_cases [OF this 3(2)] 3(3) obtain k where
    "live s' = insert (a, k) (live s)" "(a, k) \<notin> live s" "unat (align4 n) \<le> k" by blast
  then show ?case using align4_ge le_trans by blast
next
  case (4 s a k b l)
  then obtain bs where bs: "heap_repr s bs" by (auto simp: heap_inv_def)
  have t: "tiles heap_lo bs heap_hi" using bs by (simp add: heap_repr_def)
  obtain p sz where p: "(p, sz, False) \<in> set bs" "a = p + HDR" "k = unat sz" "unat a = unat p + 12"
    using live_block [OF bs 4(2)] by metis
  obtain q sz' where q: "(q, sz', False) \<in> set bs" "b = q + HDR" "l = unat sz'" "unat b = unat q + 12"
    using live_block [OF bs 4(3)] by metis
  have "(p, sz, False) \<noteq> (q, sz', False)" using p q 4(4) by auto
  from tiles_disjoint [OF t p(1) q(1) this] show ?case using p q by linarith
next
  case (5 s a k)
  then obtain bs where bs: "heap_repr s bs" by (auto simp: heap_inv_def)
  obtain s' where "kfree a s = Some s'" "heap_repr s' (coalesce_list (free_list (a - HDR) bs))"
    by (rule kfree_live [OF bs 5(2)])
  then show ?case by (auto simp: heap_inv_def)
next
  case (6 s a k s')
  then obtain bs where bs: "heap_repr s bs" by (auto simp: heap_inv_def)
  obtain t where "kfree a s = Some t" "live t = live s - {(a, k)}"
    by (rule kfree_live [OF bs 6(2)])
  then show ?case using 6(3) by simp
qed

section \<open>No two adjacent free blocks\<close>

fun coalesced :: "block list \<Rightarrow> bool" where
  "coalesced ((p, s, f) # (q, t, g) # bs) \<longleftrightarrow> \<not> (f \<and> g) \<and> coalesced ((q, t, g) # bs)"
| "coalesced bs \<longleftrightarrow> True"

lemma coalesced_coalesce_list: "coalesced (coalesce_list bs)"
proof -
  have hd: "coalesce_list ((p, s, f) # bs) \<noteq> [] \<and> snd (snd (hd (coalesce_list ((p, s, f) # bs)))) = f"
    for p s f bs
    by (induction "(p, s, f) # bs" arbitrary: p s f bs rule: coalesce_list.induct) auto
  show ?thesis
  proof (induction bs rule: coalesce_list.induct)
    case (1 p s f q t g bs)
    show ?case
    proof (cases "f \<and> g")
      case True
      then show ?thesis using "1.IH"(1) by simp
    next
      case False
      then show ?thesis using "1.IH"(2) hd [of q t g bs]
        by (cases "coalesce_list ((q, t, g) # bs)") auto
    qed
  qed simp_all
qed

lemma coalesce_list_id: "coalesced bs \<Longrightarrow> coalesce_list bs = bs"
  by (induction bs rule: coalesce_list.induct) auto

lemma free_list_other: "q \<notin> fst ` set bs \<Longrightarrow> free_list q bs = bs"
  by (induction q bs rule: free_list.induct) auto

lemma coalesced_tl: "coalesced (b # bs) \<Longrightarrow> coalesced bs"
  by (cases "b # bs" rule: coalesced.cases) auto

lemma coalesce_list_Cons:
  "coalesce_list X = bs \<Longrightarrow> (f \<Longrightarrow> X \<noteq> [] \<Longrightarrow> \<not> snd (snd (hd X))) \<Longrightarrow>
   coalesce_list ((p, sz, f) # X) = (p, sz, f) # bs"
  by (cases X) (auto split: if_splits)

text \<open>The head of the list is kept when it is in use, whatever is allocated and released behind it.\<close>

lemma alloc_free_hd:
  assumes "bs \<noteq> []" "\<not> snd (snd (hd bs))" "fst (hd bs) \<noteq> q"
  shows "free_list q (snd (alloc_list n bs)) \<noteq> [] \<and>
    \<not> snd (snd (hd (free_list q (snd (alloc_list n bs)))))"
  using assms by (cases bs) auto

lemma alloc_free_list:
  assumes "tiles a bs e" "e \<le> heap_hi" "coalesced bs" "fst (alloc_list n bs) \<noteq> 0"
  shows "coalesce_list (free_list (fst (alloc_list n bs) - HDR) (snd (alloc_list n bs))) = bs"
  using assms
proof (induction n bs arbitrary: a rule: alloc_list.induct)
  case (2 n p sz f bs)
  have t: "tiles (a + 12 + unat sz) bs e" "unat p = a" using "2.prems"(1) by simp_all
  have nin: "p \<notin> fst ` set bs" by (rule tiles_not_in [OF t(1)], use t(2) in linarith)
  show ?case
  proof (cases "f \<and> n \<le> sz")
    case True
    let ?q = "p + 12 + n"
    have e: "a + 12 + unat sz \<le> 10485760" using tiles_le [OF t(1)] "2.prems"(2) by (simp add: heap_bounds)
    show ?thesis
    proof (cases "unat n + 28 \<le> unat sz")
      case False
      then show ?thesis
        using True "2.prems"(3) nin by (simp add: free_list_other coalesce_list_id)
    next
      case split: True
      have "unat ?q = a + 12 + unat n" using t split e by (simp add: unat_word_ariths)
      then have q: "?q \<noteq> p" using t(2) by (metis add_is_0 add_left_cancel add.assoc add_0_right zero_neq_numeral)
      have sz: "n + (12 + (sz - n - 12)) = sz" by simp
      have "coalesce_list ((p, sz, True) # bs) = (p, sz, True) # bs"
        using "2.prems"(3) True by (intro coalesce_list_id) simp
      then show ?thesis using True split q nin sz by (simp add: free_list_other)
    qed
  next
    case False
    let ?a = "fst (alloc_list n bs)"
    have a0: "?a \<noteq> 0" using "2.prems"(4) False by auto
    have IH: "coalesce_list (free_list (?a - HDR) (snd (alloc_list n bs))) = bs"
      using "2.IH"(1) [OF False t(1) "2.prems"(2) coalesced_tl [OF "2.prems"(3)] a0] .
    obtain p' sz' where p': "?a = p' + HDR" "(p', sz', True) \<in> set bs"
      using alloc_list_cases [OF t(1) "2.prems"(2), of n] a0 by auto
    have "p' \<in> fst ` set bs" using p'(2) by force
    then have pne: "p \<noteq> p'" using nin by blast
    have hd: "\<not> snd (snd (hd (free_list (?a - HDR) (snd (alloc_list n bs)))))" if ff: "f" and nn: "bs \<noteq> []"
    proof -
      have nf: "\<not> snd (snd (hd bs))" using "2.prems"(3) ff nn by (cases bs) auto
      moreover have "fst (hd bs) \<noteq> p'"
      proof
        assume eq: "fst (hd bs) = p'"
        obtain s g where h: "hd bs = (p', s, g)" "(p', s, g) \<in> set bs"
          using nn eq by (metis list.set_sel(1) prod.collapse)
        then have "g" using tiles_addr_unique [OF t(1) h(2) p'(2)] by simp
        then show False using nf h(1) by simp
      qed
      ultimately show ?thesis using alloc_free_hd [OF nn] p'(1) by simp
    qed
    have ne: "bs \<noteq> []" using p'(2) by auto
    have "coalesce_list ((p, sz, f) # free_list (?a - HDR) (snd (alloc_list n bs))) = (p, sz, f) # bs"
      by (rule coalesce_list_Cons [OF IH]) (use hd ne in blast)
    then show ?thesis using False pne p'(1) by auto
  qed
qed simp

lemma live_bounds:
  assumes "heap_inv h" "(a, k) \<in> live h"
  shows "heap_lo + 12 \<le> unat a \<and> unat a + k \<le> heap_hi"
proof -
  obtain bs where bs: "heap_repr h bs" using assms(1) by (auto simp: heap_inv_def)
  then have t: "tiles heap_lo bs heap_hi" by (simp add: heap_repr_def)
  obtain p sz where "(p, sz, False) \<in> set bs" "k = unat sz" "unat a = unat p + 12"
    using live_block [OF bs assms(2)] by metis
  then show ?thesis using tiles_bounds [OF t] by fastforce
qed

lemma heap_init_inv [simp]: "heap_inv (heap_init m)"
  using heap_repr_init heap_inv_def by blast

lemma heap_init_live [simp]: "live (heap_init m) = {}"
  using live_eq [OF heap_repr_init] by simp

text \<open>The first allocation of a fresh heap.\<close>

lemma kmalloc_init:
  assumes "sz \<noteq> 0" "unat (align4 sz) \<le> 8000000"
  shows "\<exists>h'. kmalloc sz (heap_init m) = Some (0x20000C, h') \<and>
    heap_repr h' [(HEAP_START, align4 sz, False),
                  (HEAP_START + 12 + align4 sz, HEAP_INITIAL_SIZE - HDR - align4 sz - 12, True)]"
proof -
  have "align4 sz \<le> 8388596" using assms(2) by (simp add: unat_le_u32)
  then show ?thesis using kmalloc_refines [OF heap_repr_init assms(1), of m] assms(2) by simp
qed

section \<open>Properties\<close>

text \<open>Memory of zeros, for the concrete examples.\<close>

definition blank_mem :: "u32 \<Rightarrow> heap_block" where
  "blank_mem a = \<lparr>blk_size = 0, blk_free = False, blk_next = 0\<rparr>"

text \<open>
  C25: \<open>kmalloc\<close> always returns on a well-formed heap, and keeps it well formed. It returns
  \<open>NULL\<close> only for size 0 or when no free block is large enough; then the live regions are unchanged.
\<close>

theorem kmalloc_returns:
  assumes "heap_repr h bs"
  shows "\<exists>a h'. kmalloc sz h = Some (a, h') \<and> heap_inv h' \<and>
    (a = 0 \<longrightarrow> live h' = live h \<and> (sz = 0 \<or> (\<forall>(p, s, f) \<in> set bs. f \<longrightarrow> s < align4 sz)))"
proof (cases "sz = 0")
  case True
  then show ?thesis using assms by (auto simp: kmalloc_def heap_inv_def)
next
  case False
  have t: "tiles heap_lo bs heap_hi" using assms by (simp add: heap_repr_def)
  obtain h' where h': "kmalloc sz h = Some (fst (alloc_list (align4 sz) bs), h')"
    "heap_repr h' (snd (alloc_list (align4 sz) bs))"
    using kmalloc_refines [OF assms False] by blast
  have "live h' = live h \<and> (\<forall>(p, s, f) \<in> set bs. f \<longrightarrow> s < align4 sz)"
    if "fst (alloc_list (align4 sz) bs) = 0"
    using alloc_list_cases [OF t order_refl, of "align4 sz"] that live_eq [OF h'(2)] live_eq [OF assms]
    by auto
  then show ?thesis using h' unfolding heap_inv_def by blast
qed

theorem kmalloc_returns_witness:
  "\<exists>a h'. kmalloc 100 (heap_init blank_mem) = Some (a, h') \<and> heap_inv h'"
  using kmalloc_returns [OF heap_repr_init, of 100 blank_mem] by blast



text \<open>
  \<open>kfree\<close> of a live region returns, takes exactly that region out of the live set, and leaves
  a well-formed heap in which no two neighbouring blocks are free.
\<close>

theorem kfree_releases:
  assumes "heap_inv h" and "(a, k) \<in> live h"
  shows "\<exists>h' bs'. kfree a h = Some h' \<and> live h' = live h - {(a, k)} \<and> heap_repr h' bs' \<and> coalesced bs'"
proof -
  obtain bs where bs: "heap_repr h bs" using assms(1) by (auto simp: heap_inv_def)
  show ?thesis by (rule kfree_live [OF bs assms(2)]) (blast intro: coalesced_coalesce_list)
qed

theorem kfree_releases_witness:
  "\<exists>h h'. kmalloc 100 (heap_init blank_mem) = Some (0x20000C, h) \<and> kfree 0x20000C h = Some h' \<and> live h' = {}"
proof -
  have "unat (align4 100) \<le> 8000000" by (simp add: unat_align4)
  then obtain h where h: "kmalloc 100 (heap_init blank_mem) = Some (0x20000C, h)"
    "heap_repr h [(HEAP_START, align4 100, False),
      (HEAP_START + 12 + align4 100, HEAP_INITIAL_SIZE - HDR - align4 100 - 12, True)]"
    using kmalloc_init [of 100 blank_mem] by auto
  have l: "live h = {(0x20000C, unat (align4 100))}" using live_eq [OF h(2)] by simp
  have "heap_inv h" using h(2) heap_inv_def by blast
  from kfree_releases [OF this, of "0x20000C" "unat (align4 100)"] l h(1) show ?thesis by auto
qed

text \<open>
  C36: allocation and release are inverse. On a heap with no two neighbouring free blocks, releasing
  what \<open>kmalloc\<close> returned restores the very same blocks: nothing leaks and nothing stays split.
\<close>

theorem kmalloc_kfree_roundtrip:
  assumes "heap_repr h bs" and "coalesced bs" and "kmalloc sz h = Some (a, h')" and "a \<noteq> 0"
  shows "\<exists>h''. kfree a h' = Some h'' \<and> heap_repr h'' bs"
proof -
  have sz: "sz \<noteq> 0" using assms(3,4) by (auto simp: kmalloc_def)
  have t: "tiles heap_lo bs heap_hi" using assms(1) by (simp add: heap_repr_def)
  have h': "a = fst (alloc_list (align4 sz) bs)" "heap_repr h' (snd (alloc_list (align4 sz) bs))"
    using kmalloc_refines [OF assms(1) sz] assms(3) by auto
  have "coalesce_list (free_list (a - HDR) (snd (alloc_list (align4 sz) bs))) = bs"
    using alloc_free_list [OF t order_refl assms(2)] h'(1) assms(4) by simp
  then show ?thesis using kfree_refines [OF h'(2) assms(4)] by auto
qed

theorem kmalloc_kfree_roundtrip_witness:
  "\<exists>h' h''. kmalloc 100 (heap_init blank_mem) = Some (0x20000C, h') \<and> kfree 0x20000C h' = Some h'' \<and>
     heap_repr h'' [(HEAP_START, HEAP_INITIAL_SIZE - HDR, True)]"
proof -
  have "unat (align4 100) \<le> 8000000" by (simp add: unat_align4)
  then obtain h' where h': "kmalloc 100 (heap_init blank_mem) = Some (0x20000C, h')"
    using kmalloc_init [of 100 blank_mem] by auto
  show ?thesis using kmalloc_kfree_roundtrip [OF heap_repr_init _ h'] h' by auto
qed

text \<open>
  Rounding the size up to a word wraps. For the three largest sizes the rounded size is 0, and
  \<open>kmalloc\<close> answers a request for 4 GiB with a pointer to an empty block instead of \<open>NULL\<close>.
\<close>

theorem kmalloc_size_wraps:
  assumes "4294967293 \<le> unat sz"
  shows "\<exists>h'. kmalloc sz (heap_init m) = Some (0x20000C, h') \<and> live h' = {(0x20000C, 0)}"
proof -
  have m: "(unat sz + 3) mod 4294967296 = unat sz + 3 - 4294967296"
    using assms by (simp add: le_mod_geq less_imp_diff_less)
  have "unat (sz + 3) = (unat sz + 3) mod 4294967296" by (simp add: unat_word_ariths)
  then have "unat (sz + 3) < 4" unfolding m using unat_u32_less [of sz] by linarith
  then have "unat (align4 sz) = 0" by (simp add: unat_align4)
  then have a: "align4 sz = 0" by (simp add: unat_eq_0)
  have "sz \<noteq> 0" using assms by auto
  then obtain h' where "kmalloc sz (heap_init m) = Some (0x20000C, h')"
    "heap_repr h' [(HEAP_START, 0, False), (HEAP_START + 12, HEAP_INITIAL_SIZE - HDR - 12, True)]"
    using kmalloc_init [of sz m] a by auto
  then show ?thesis using live_eq by fastforce
qed

theorem kmalloc_size_wraps_witness:
  "\<exists>h'. kmalloc 0xFFFFFFFF (heap_init blank_mem) = Some (0x20000C, h') \<and> live h' = {(0x20000C, 0)}"
  by (rule kmalloc_size_wraps) simp

text \<open>
  \<open>kmalloc_aligned\<close> rounds the size, not the address. On a fresh heap no request of one to
  1900 pages returns a page-aligned address.
\<close>

theorem kmalloc_aligned_not_aligned:
  assumes "sz \<noteq> 0" and "unat sz \<le> 7782400"
  shows "\<exists>a h'. kmalloc_aligned sz (heap_init m) = Some (a, h') \<and> a \<noteq> 0 \<and> unat a mod 4096 \<noteq> 0"
proof -
  let ?n = "(sz + 4096 - 1) AND NOT (4096 - 1)"
  have m12: "(4096 - 1 :: u32) = mask 12" by (simp add: mask_eq_exp_minus_1)
  have s0: "0 < unat sz" using assms(1) by (simp add: unat_gt_0)
  have u: "unat (sz + 4096 - 1) = unat sz + 4095"
    using assms(2) by (simp add: unat_word_ariths)
  have "unat (sz + mask 12) = unat sz + 4095" using u m12 by (metis add_diff_eq)
  then have n: "unat ?n = unat sz + 4095 - (unat sz + 4095) mod 4096"
    unfolding add_diff_eq [symmetric] m12 unat_and_not_mask by (simp only:) simp
  have "0 < unat ?n" "unat ?n \<le> 7786496" unfolding n using s0 assms(2) by linarith+
  moreover have "unat (align4 ?n) \<le> unat ?n + 3"
    unfolding unat_align4 using \<open>unat ?n \<le> 7786496\<close> by (simp add: unat_word_ariths)
  ultimately have "?n \<noteq> 0" "unat (align4 ?n) \<le> 8000000" by auto
  then show ?thesis
    using kmalloc_init [of ?n m] unfolding kmalloc_aligned_def by auto
qed

theorem kmalloc_aligned_not_aligned_witness:
  "\<exists>a h'. kmalloc_aligned 4096 (heap_init blank_mem) = Some (a, h') \<and> a \<noteq> 0 \<and> unat a mod 4096 \<noteq> 0"
  by (rule kmalloc_aligned_not_aligned) simp_all

end
