(* ===== verification/CString.thy ===== *)
theory CString
  imports Prelude
begin

text \<open>
  The freestanding memory and string routines, \<open>lib/string.c\<close> (the user library
  \<open>libc/string.c\<close> repeats most of them word for word). Memory is a total map from 32-bit
  addresses to bytes, pointers are addresses, and the functions read and write memory exactly in the
  order the code does, so overlapping arguments mean what they mean in the code. A counted loop
  recurses on its counter; a loop that runs up to a terminating NUL is a
  \<open>partial_function (option)\<close>, whose value is \<open>None\<close> when there is none.
\<close>

section \<open>Routines\<close>

type_synonym mem = "u32 \<Rightarrow> u8"

primrec memset_loop :: "nat \<Rightarrow> u32 \<Rightarrow> u8 \<Rightarrow> mem \<Rightarrow> mem" where
  "memset_loop 0 d v m = m"
| "memset_loop (Suc count) d v m = memset_loop count (d + 1) v (m(d := v))"

definition memset :: "u32 \<Rightarrow> u32 \<Rightarrow> u32 \<Rightarrow> mem \<Rightarrow> mem" where
  "memset dest val count m = memset_loop (unat count) dest (ucast val) m"

primrec memcpy_loop :: "nat \<Rightarrow> u32 \<Rightarrow> u32 \<Rightarrow> mem \<Rightarrow> mem" where
  "memcpy_loop 0 d s m = m"
| "memcpy_loop (Suc count) d s m = memcpy_loop count (d + 1) (s + 1) (m(d := m s))"

definition memcpy :: "u32 \<Rightarrow> u32 \<Rightarrow> u32 \<Rightarrow> mem \<Rightarrow> mem" where
  "memcpy dest src count m = memcpy_loop (unat count) dest src m"

text \<open>\<open>while (count--) *--d = *--s\<close>\<close>

primrec memmove_back :: "nat \<Rightarrow> u32 \<Rightarrow> u32 \<Rightarrow> mem \<Rightarrow> mem" where
  "memmove_back 0 d s m = m"
| "memmove_back (Suc count) d s m = memmove_back count (d - 1) (s - 1) (m(d - 1 := m (s - 1)))"

definition memmove :: "u32 \<Rightarrow> u32 \<Rightarrow> u32 \<Rightarrow> mem \<Rightarrow> mem" where
  "memmove dest src count m =
     (if dest < src then memcpy_loop (unat count) dest src m
      else memmove_back (unat count) (dest + count) (src + count) m)"

partial_function (option) strlen_loop :: "mem \<Rightarrow> u32 \<Rightarrow> u32 \<Rightarrow> u32 option" where
  "strlen_loop m str len = (if m (str + len) \<noteq> 0 then strlen_loop m str (len + 1) else Some len)"

definition strlen :: "mem \<Rightarrow> u32 \<Rightarrow> u32 option" where
  "strlen m str = strlen_loop m str 0"

definition byte_diff :: "mem \<Rightarrow> u32 \<Rightarrow> u32 \<Rightarrow> int" where
  "byte_diff m s1 s2 = uint (m s1) - uint (m s2)"

partial_function (option) strcmp :: "mem \<Rightarrow> u32 \<Rightarrow> u32 \<Rightarrow> int option" where
  "strcmp m s1 s2 =
     (if m s1 \<noteq> 0 \<and> m s1 = m s2 then strcmp m (s1 + 1) (s2 + 1) else Some (byte_diff m s1 s2))"

primrec strncmp_loop :: "nat \<Rightarrow> mem \<Rightarrow> u32 \<Rightarrow> u32 \<Rightarrow> int" where
  "strncmp_loop 0 m s1 s2 = 0"
| "strncmp_loop (Suc n) m s1 s2 =
     (if m s1 \<noteq> 0 \<and> m s1 = m s2 then strncmp_loop n m (s1 + 1) (s2 + 1) else byte_diff m s1 s2)"

definition strncmp :: "mem \<Rightarrow> u32 \<Rightarrow> u32 \<Rightarrow> u32 \<Rightarrow> int" where
  "strncmp m s1 s2 n = strncmp_loop (unat n) m s1 s2"

text \<open>\<open>while ((*d++ = *src++))\<close>\<close>

partial_function (option) strcpy_loop :: "u32 \<Rightarrow> u32 \<Rightarrow> mem \<Rightarrow> mem option" where
  "strcpy_loop d src m =
     (let c = m src; m = m(d := c)
      in if c \<noteq> 0 then strcpy_loop (d + 1) (src + 1) m else Some m)"

definition strcpy :: "u32 \<Rightarrow> u32 \<Rightarrow> mem \<Rightarrow> mem option" where
  "strcpy dest src m = strcpy_loop dest src m"

text \<open>
  \<open>while (n && (*d++ = *src++)) n--; while (n--) *d++ = 0\<close>: the first loop hands the count it
  stopped with, and the position, to the second.
\<close>

primrec strncpy_loop :: "nat \<Rightarrow> u32 \<Rightarrow> u32 \<Rightarrow> mem \<Rightarrow> mem" where
  "strncpy_loop 0 d src m = m"
| "strncpy_loop (Suc n) d src m =
     (let c = m src; m = m(d := c)
      in if c \<noteq> 0 then strncpy_loop n (d + 1) (src + 1) m
         else memset_loop (Suc n) (d + 1) 0 m)"

definition strncpy :: "u32 \<Rightarrow> u32 \<Rightarrow> u32 \<Rightarrow> mem \<Rightarrow> mem" where
  "strncpy dest src n m = strncpy_loop (unat n) dest src m"

definition strcat :: "u32 \<Rightarrow> u32 \<Rightarrow> mem \<Rightarrow> mem option" where
  "strcat dest src m =
     (case strlen m dest of None \<Rightarrow> None | Some k \<Rightarrow> strcpy_loop (dest + k) src m)"

definition strlcpy :: "u32 \<Rightarrow> u32 \<Rightarrow> u32 \<Rightarrow> mem \<Rightarrow> (u32 \<times> mem) option" where
  "strlcpy dest src sz m =
     (case strlen m src of
        None \<Rightarrow> None
      | Some len \<Rightarrow>
          if sz \<noteq> 0
          then let n = (if sz \<le> len then sz - 1 else len);
                   m = memcpy dest src n m
               in Some (len, m(dest + n := 0))
          else Some (len, m))"

text \<open>\<open>while (dlen < size && dest[dlen]) dlen++\<close>\<close>

primrec strnlen_loop :: "nat \<Rightarrow> mem \<Rightarrow> u32 \<Rightarrow> u32 \<Rightarrow> u32" where
  "strnlen_loop 0 m dest dlen = dlen"
| "strnlen_loop (Suc k) m dest dlen =
     (if m (dest + dlen) \<noteq> 0 then strnlen_loop k m dest (dlen + 1) else dlen)"

definition strlcat :: "u32 \<Rightarrow> u32 \<Rightarrow> u32 \<Rightarrow> mem \<Rightarrow> (u32 \<times> mem) option" where
  "strlcat dest src sz m =
     (let dlen = strnlen_loop (unat sz) m dest 0
      in if dlen = sz
         then (case strlen m src of None \<Rightarrow> None | Some len \<Rightarrow> Some (sz + len, m))
         else (case strlcpy (dest + dlen) src (sz - dlen) m of
                 None \<Rightarrow> None | Some (len, m) \<Rightarrow> Some (dlen + len, m)))"

partial_function (option) strchr :: "mem \<Rightarrow> u32 \<Rightarrow> u32 \<Rightarrow> u32 option" where
  "strchr m str c =
     (if m str \<noteq> 0
      then if m str = ucast c then Some str else strchr m (str + 1) c
      else Some (if c = 0 then str else 0))"

partial_function (option) strstr_loop :: "mem \<Rightarrow> u32 \<Rightarrow> u32 \<Rightarrow> u32 \<Rightarrow> u32 option" where
  "strstr_loop m haystack needle nlen =
     (if m haystack \<noteq> 0
      then if strncmp m haystack needle nlen = 0 then Some haystack
           else strstr_loop m (haystack + 1) needle nlen
      else Some 0)"

definition strstr :: "mem \<Rightarrow> u32 \<Rightarrow> u32 \<Rightarrow> u32 option" where
  "strstr m haystack needle =
     (if m needle = 0 then Some haystack
      else case strlen m needle of None \<Rightarrow> None | Some nlen \<Rightarrow> strstr_loop m haystack needle nlen)"

text \<open>\<open>memcmp\<close> and \<open>strrchr\<close> are in the user library only, \<open>libc/string.c\<close>.\<close>

primrec memcmp_loop :: "nat \<Rightarrow> mem \<Rightarrow> u32 \<Rightarrow> u32 \<Rightarrow> int" where
  "memcmp_loop 0 m p1 p2 = 0"
| "memcmp_loop (Suc n) m p1 p2 =
     (if m p1 \<noteq> m p2 then byte_diff m p1 p2 else memcmp_loop n m (p1 + 1) (p2 + 1))"

definition memcmp :: "mem \<Rightarrow> u32 \<Rightarrow> u32 \<Rightarrow> u32 \<Rightarrow> int" where
  "memcmp m s1 s2 n = memcmp_loop (unat n) m s1 s2"

partial_function (option) strrchr_loop :: "mem \<Rightarrow> u32 \<Rightarrow> u32 \<Rightarrow> u32 \<Rightarrow> u32 option" where
  "strrchr_loop m str c found =
     (if m str \<noteq> 0 then strrchr_loop m (str + 1) c (if m str = ucast c then str else found)
      else Some (if c = 0 then str else found))"

definition strrchr :: "mem \<Rightarrow> u32 \<Rightarrow> u32 \<Rightarrow> u32 option" where
  "strrchr m str c = strrchr_loop m str c 0"

text \<open>
  Number formatting. \<open>ud % base\<close> and \<open>ud /= base\<close> are unsigned; a zero base traps, which is
  \<open>None\<close> here. The digits are stored least significant first and then reversed in place.
\<close>

definition digit_char :: "u32 \<Rightarrow> u8" where
  "digit_char remainder = ucast (if remainder < 10 then remainder + 48 else remainder + 97 - 10)"

partial_function (option) put_digits :: "u32 \<Rightarrow> u32 \<Rightarrow> u32 \<Rightarrow> mem \<Rightarrow> (u32 \<times> mem) option" where
  "put_digits ud base p m =
     (if base = 0 then None
      else let m = m(p := digit_char (ud mod base))
           in if ud div base \<noteq> 0 then put_digits (ud div base) base (p + 1) m else Some (p + 1, m))"

function reverse_loop :: "u32 \<Rightarrow> u32 \<Rightarrow> mem \<Rightarrow> mem" where
  "reverse_loop p1 p2 m =
     (if p1 < p2 then reverse_loop (p1 + 1) (p2 - 1) (m(p1 := m p2, p2 := m p1)) else m)"
  by pat_completeness auto
termination
proof (relation "measure (\<lambda>(p1, p2, m). unat p2 - unat p1)", simp, clarsimp)
  fix p1 p2 :: u32
  assume lt: "p1 < p2"
  then have "unat p1 < unat p2" by (simp add: unat_less_u32)
  moreover from this have "unat (p1 + 1) = Suc (unat p1)"
    using unat_u32_less [of p2] by (intro unat_Suc_u32) linarith
  moreover have "unat (p2 - 1) = unat p2 - 1"
    using \<open>unat p1 < unat p2\<close> by (simp add: unat_sub_u32)
  ultimately show "unat (p2 - 1) - unat (p1 + 1) < unat p2 - unat p1" by linarith
qed

declare reverse_loop.simps [simp del]

definition utoa :: "u32 \<Rightarrow> u32 \<Rightarrow> u32 \<Rightarrow> mem \<Rightarrow> mem option" where
  "utoa val buf base m =
     (case put_digits val base buf m of
        None \<Rightarrow> None
      | Some (p, m) \<Rightarrow> Some (reverse_loop buf (p - 1) (m(p := 0))))"

text \<open>\<open>value\<close> is an \<open>int\<close>: \<open>-(value + 1)\<close> does not overflow, and \<open>+ 1\<close> is unsigned.\<close>

definition itoa :: "u32 \<Rightarrow> u32 \<Rightarrow> u32 \<Rightarrow> mem \<Rightarrow> mem option" where
  "itoa val buf base m =
     (let negative = base = 10 \<and> sint val < 0;
          ud = (if negative then - (val + 1) + 1 else val)
      in case put_digits ud base buf m of
           None \<Rightarrow> None
         | Some (p, m) \<Rightarrow>
             let (p, m) = (if negative then (p + 1, m(p := 45)) else (p, m))
             in Some (reverse_loop buf (p - 1) (m(p := 0))))"

section \<open>Memory contents\<close>

definition bytes_in :: "mem \<Rightarrow> u32 \<Rightarrow> u8 list \<Rightarrow> bool" where
  "bytes_in m p bs \<longleftrightarrow> (\<forall>i < length bs. m (p + of_nat i) = bs ! i)"

text \<open>The NUL-terminated string at \<open>p\<close> is \<open>s\<close>, and it does not run past the end of memory.\<close>

definition cstr :: "mem \<Rightarrow> u32 \<Rightarrow> u8 list \<Rightarrow> bool" where
  "cstr m p s \<longleftrightarrow> 0 \<notin> set s \<and> bytes_in m p (s @ [0]) \<and> unat p + length s < 4294967296"

text \<open>\<open>span p n\<close>: the \<open>n\<close> addresses from \<open>p\<close> on, not wrapping around.\<close>

definition span :: "u32 \<Rightarrow> nat \<Rightarrow> u32 set" where
  "span p n = {a. unat p \<le> unat a \<and> unat a < unat p + n}"

text \<open>The \<open>n\<close> bytes from \<open>p\<close> on.\<close>

definition fetch :: "mem \<Rightarrow> u32 \<Rightarrow> nat \<Rightarrow> u8 list" where
  "fetch m p n = map (\<lambda>i. m (p + of_nat i)) [0..<n]"

text \<open>Memory after the bytes \<open>bs\<close> are stored from \<open>p\<close> on.\<close>

definition stored :: "u32 \<Rightarrow> u8 list \<Rightarrow> mem \<Rightarrow> mem" where
  "stored p bs m = (\<lambda>a. if a \<in> span p (length bs) then bs ! (unat a - unat p) else m a)"


lemma length_fetch [simp]: "length (fetch m p n) = n"
  by (simp add: fetch_def)

lemma nth_fetch [simp]: "i < n \<Longrightarrow> fetch m p n ! i = m (p + of_nat i)"
  by (simp add: fetch_def)

lemma span_iff: "unat p + n \<le> 4294967296 \<Longrightarrow> a \<in> span p n \<longleftrightarrow> unat (a - p) < n"
proof (cases "unat p \<le> unat a")
  case True
  then show ?thesis by (auto simp: span_def unat_sub_u32)
next
  case False
  moreover assume "unat p + n \<le> 4294967296"
  moreover have "unat (a - p) = 4294967296 + unat a - unat p"
    using False by (simp add: unat_sub_if_size word_size)
  ultimately show ?thesis by (simp add: span_def)
qed

lemma stored_eq:
  "unat p + length bs \<le> 4294967296 \<Longrightarrow>
   stored p bs m a = (if unat (a - p) < length bs then bs ! unat (a - p) else m a)"
  using span_iff [of p "length bs" a] by (auto simp: stored_def span_def unat_sub_u32)

lemma span_0 [simp]: "span p 0 = {}"
  by (auto simp: span_def)

lemma stored_Nil [simp]: "stored p [] m = m"
  by (simp add: stored_def)

lemma stored_outside: "a \<notin> span p (length bs) \<Longrightarrow> stored p bs m a = m a"
  by (simp add: stored_def)

lemma stored_at:
  "unat p + length bs \<le> 4294967296 \<Longrightarrow> i < length bs \<Longrightarrow> stored p bs m (p + of_nat i) = bs ! i"
  by (simp add: stored_eq unat_of_nat_u32)

lemma bytes_in_stored: "unat p + length bs \<le> 4294967296 \<Longrightarrow> bytes_in (stored p bs m) p bs"
  by (simp add: bytes_in_def stored_at)

lemma stored_Cons:
  assumes "unat p + Suc (length bs) \<le> 4294967296"
  shows "stored p (b # bs) m = stored (p + 1) bs (m(p := b))"
proof (cases "bs = []")
  case True
  have "a \<in> span p 1 \<longleftrightarrow> a = p" for a by (auto simp: span_def word_unat_eq_iff)
  then show ?thesis using True by (auto simp: stored_def fun_eq_iff)
next
  case False
  then have "unat p + 1 < 4294967296" using assms by (cases bs) auto
  then have p1: "unat (p + 1) = Suc (unat p)" by (simp add: unat_Suc_u32)
  have sp: "a \<in> span p (Suc (length bs)) \<longleftrightarrow> a = p \<or> a \<in> span (p + 1) (length bs)" for a
    by (auto simp: span_def p1 word_unat_eq_iff)
  have "p \<notin> span (p + 1) (length bs)" by (simp add: span_def p1)
  moreover have "(b # bs) ! (unat a - unat p) = bs ! (unat a - unat (p + 1))"
    if "a \<in> span (p + 1) (length bs)" for a
    using that by (simp add: span_def p1 nth_Cons')
  ultimately show ?thesis by (simp add: stored_def fun_eq_iff sp)
qed

lemma stored_snoc:
  assumes "unat p + Suc (length bs) \<le> 4294967296"
  shows "stored p (bs @ [b]) m = (stored p bs m)(p + of_nat (length bs) := b)"
proof
  fix a
  have "unat (of_nat (length bs) :: u32) = length bs" using assms by (simp add: unat_of_nat_u32)
  then have "unat (a - p) = length bs \<longleftrightarrow> a - p = of_nat (length bs)"
    by (metis word_unat_eq_iff)
  also have "\<dots> \<longleftrightarrow> a = p + of_nat (length bs)" by (auto simp: algebra_simps)
  finally have "unat (a - p) = length bs \<longleftrightarrow> a = p + of_nat (length bs)" .
  then show "stored p (bs @ [b]) m a = ((stored p bs m)(p + of_nat (length bs) := b)) a"
    using assms by (auto simp: stored_eq nth_append)
qed

lemma stored_override:
  "length bs = length bs' \<Longrightarrow> stored p bs (stored p (bs' @ cs) m) = stored p (bs @ cs) m"
  by (auto simp: stored_def span_def nth_append fun_eq_iff)

section \<open>Copying\<close>

lemma memset_loop_stored:
  "unat d + n \<le> 4294967296 \<Longrightarrow> memset_loop n d v m = stored d (replicate n v) m"
proof (induction n arbitrary: d m)
  case (Suc n)
  show ?case
  proof (cases "n = 0")
    case False
    then have "unat (d + 1) + n \<le> 4294967296" using Suc.prems by (simp add: unat_Suc_u32)
    then show ?thesis using Suc by (simp add: stored_Cons fun_upd_def)
  qed (use Suc.prems in \<open>simp add: stored_Cons\<close>)
qed simp

lemma memcpy_loop_eq:
  assumes "unat d + n \<le> 4294967296" "unat s + n \<le> 4294967296"
    and "unat d \<le> unat s \<or> unat s + n \<le> unat d"
  shows "memcpy_loop n d s m a = (if a \<in> span d n then m (s + (a - d)) else m a)"
  using assms
proof (induction n arbitrary: d s m)
  case (Suc n)
  show ?case
  proof (cases "n = 0")
    case True
    then show ?thesis using Suc.prems by (auto simp: span_iff less_Suc_eq_0_disj unat_eq_0)
  next
    case False
    then have d1: "unat (d + 1) = unat d + 1" and s1: "unat (s + 1) = unat s + 1"
      using Suc.prems by (simp_all add: unat_Suc_u32)
    have ih: "memcpy_loop n (d + 1) (s + 1) (m(d := m s)) a =
      (if a \<in> span (d + 1) n then (m(d := m s)) (s + 1 + (a - (d + 1))) else (m(d := m s)) a)"
      by (rule Suc.IH) (use Suc.prems d1 s1 in auto)
    have ne: "s + (a - d) \<noteq> d" if "a \<in> span (d + 1) n"
    proof
      assume e: "s + (a - d) = d"
      have u: "unat (a - d) = unat a - unat d" "unat d < unat a" "unat a < unat d + Suc n"
        using that d1 by (auto simp: span_def unat_sub_u32)
      then have "unat (s + (a - d)) = unat s + (unat a - unat d)"
        using Suc.prems by (subst unat_add_u32) auto
      then show False using e u Suc.prems by auto
    qed
    have sp: "a \<in> span d (Suc n) \<longleftrightarrow> a = d \<or> a \<in> span (d + 1) n"
      using d1 by (auto simp: span_def word_unat_eq_iff)
    show ?thesis
      using ne d1 by (simp add: ih sp)
  qed
qed simp

lemma memmove_back_eq:
  assumes "unat d + n \<le> 4294967296" "unat s + n \<le> 4294967296" "unat s \<le> unat d"
  shows "memmove_back n (d + of_nat n) (s + of_nat n) m a = (if a \<in> span d n then m (s + (a - d)) else m a)"
  using assms
proof (induction n arbitrary: m)
  case (Suc n)
  have ih: "memmove_back n (d + of_nat n) (s + of_nat n) (m(d + of_nat n := m (s + of_nat n))) a =
      (if a \<in> span d n then (m(d + of_nat n := m (s + of_nat n))) (s + (a - d))
       else (m(d + of_nat n := m (s + of_nat n))) a)"
    by (rule Suc.IH) (use Suc.prems in auto)
  have dn: "unat (d + of_nat n) = unat d + n"
    using Suc.prems by (simp add: unat_add_u32 unat_of_nat_u32)
  have ne: "s + (a - d) \<noteq> d + of_nat n" if "a \<in> span d n"
  proof
    assume e: "s + (a - d) = d + of_nat n"
    have "unat (a - d) = unat a - unat d" "unat d \<le> unat a" "unat a < unat d + n"
      using that by (auto simp: span_def unat_sub_u32)
    moreover from this have "unat (s + (a - d)) = unat s + (unat a - unat d)"
      using Suc.prems by (subst unat_add_u32) auto
    ultimately show False using e dn Suc.prems by auto
  qed
  have sp: "a \<in> span d (Suc n) \<longleftrightarrow> a = d + of_nat n \<or> a \<in> span d n"
    using dn by (auto simp: span_def word_unat_eq_iff)
  show ?case
    using ne dn by (simp add: sp ih)
qed simp

lemma stored_fetch:
  "unat d + n \<le> 4294967296 \<Longrightarrow>
   stored d (fetch m s n) m' a = (if a \<in> span d n then m (s + (a - d)) else m' a)"
  by (auto simp: stored_eq span_iff)

lemma memcpy_stored:
  assumes "unat d + unat n \<le> 4294967296" "unat s + unat n \<le> 4294967296"
    and "unat d \<le> unat s \<or> unat s + unat n \<le> unat d"
  shows "memcpy d s n m = stored d (fetch m s (unat n)) m"
  using assms by (auto simp: memcpy_def fun_eq_iff memcpy_loop_eq stored_fetch)

lemma memmove_stored:
  assumes "unat d + unat n \<le> 4294967296" "unat s + unat n \<le> 4294967296"
  shows "memmove d s n m = stored d (fetch m s (unat n)) m"
  using assms memmove_back_eq [of d "unat n" s]
  by (auto simp: memmove_def fun_eq_iff memcpy_loop_eq stored_fetch unat_less_u32)

section \<open>Strings\<close>

lemma cstr_Nil [simp]: "cstr m p [] \<longleftrightarrow> m p = 0"
  by (auto simp: cstr_def bytes_in_def)

lemma bytes_in_Cons: "bytes_in m p (b # bs) \<longleftrightarrow> m p = b \<and> bytes_in m (p + 1) bs"
  by (auto simp: bytes_in_def less_Suc_eq_0_disj all_simps algebra_simps)

lemma cstr_Cons:
  "cstr m p (c # s) \<longleftrightarrow> c \<noteq> 0 \<and> m p = c \<and> cstr m (p + 1) s \<and> unat p + Suc (length s) < 4294967296"
  by (auto simp: cstr_def bytes_in_Cons unat_Suc_u32)

lemma cstr_len: "cstr m p s \<Longrightarrow> unat p + length s < 4294967296"
  by (simp add: cstr_def)

lemma cstr_nth: "cstr m p s \<Longrightarrow> i < length s \<Longrightarrow> m (p + of_nat i) = s ! i \<and> s ! i \<noteq> 0"
  by (auto simp: cstr_def bytes_in_def nth_append dest: spec [of _ i])
    (metis nth_mem)

lemma cstr_end: "cstr m p s \<Longrightarrow> m (p + of_nat (length s)) = 0"
  by (auto simp: cstr_def bytes_in_def nth_append)

lemma cstr_drop: "cstr m p s \<Longrightarrow> i \<le> length s \<Longrightarrow> cstr m (p + of_nat i) (drop i s)"
proof (induction i arbitrary: p s)
  case (Suc i)
  then obtain c t where s: "s = c # t" by (cases s) auto
  then have "cstr m (p + 1 + of_nat i) (drop i t)" using Suc by (simp add: cstr_Cons)
  then show ?case by (simp add: s add.assoc)
qed simp

lemma cstr_unique: "cstr m p s \<Longrightarrow> cstr m p t \<Longrightarrow> s = t"
proof (induction s arbitrary: p t)
  case Nil
  then show ?case by (cases t) (auto simp: cstr_Cons)
next
  case (Cons c s)
  then show ?case by (cases t) (auto simp: cstr_Cons)
qed

lemma cstr_fetch: "cstr m p s \<Longrightarrow> n \<le> length s \<Longrightarrow> fetch m p n = take n s"
  by (rule nth_equalityI) (auto simp: cstr_nth)

lemma cstr_stored:
  "0 \<notin> set s \<Longrightarrow> unat p + length s < 4294967296 \<Longrightarrow> cstr (stored p (s @ [0]) m) p s"
  using bytes_in_stored [of p "s @ [0]" m] by (simp add: cstr_def)

lemma bytes_in_cong:
  assumes "\<And>a. a \<in> span p (length bs) \<Longrightarrow> m a = m' a" and "unat p + length bs \<le> 4294967296"
  shows "bytes_in m p bs \<longleftrightarrow> bytes_in m' p bs"
proof -
  have "m (p + of_nat i) = m' (p + of_nat i)" if "i < length bs" for i
    using that assms by (simp add: span_iff unat_of_nat_u32)
  then show ?thesis by (simp add: bytes_in_def)
qed

lemma cstr_cong:
  assumes "\<And>a. a \<in> span p (Suc (length s)) \<Longrightarrow> m a = m' a"
  shows "cstr m p s \<longleftrightarrow> cstr m' p s"
proof (cases "unat p + length s < 4294967296")
  case True
  then have "bytes_in m p (s @ [0]) \<longleftrightarrow> bytes_in m' p (s @ [0])"
    by (intro bytes_in_cong) (use assms in simp, simp)
  then show ?thesis by (simp add: cstr_def)
qed (simp add: cstr_def)

lemma strlen_loop_eq:
  "cstr m p s \<Longrightarrow> k \<le> length s \<Longrightarrow> strlen_loop m p (of_nat k) = Some (of_nat (length s))"
proof (induction "length s - k" arbitrary: k)
  case 0
  then show ?case using cstr_end [of m p s] by (subst strlen_loop.simps) simp
next
  case (Suc d)
  then have "strlen_loop m p (of_nat (Suc k)) = Some (of_nat (length s))" by (intro Suc) auto
  moreover have "m (p + of_nat k) \<noteq> 0" using Suc cstr_nth [of m p s k] by auto
  ultimately show ?case by (subst strlen_loop.simps) (simp add: add.commute)
qed

lemma strlen_cstr: "cstr m p s \<Longrightarrow> strlen m p = Some (of_nat (length s))"
  using strlen_loop_eq [of m p s 0] by (simp add: strlen_def)

lemma unat_length_cstr: "cstr m p s \<Longrightarrow> unat (of_nat (length s) :: u32) = length s"
  by (simp add: cstr_def unat_of_nat_u32)

text \<open>The order of two strings as the code's return value: the difference of the first unequal bytes.\<close>

fun lex_diff :: "u8 list \<Rightarrow> u8 list \<Rightarrow> int" where
  "lex_diff [] [] = 0"
| "lex_diff [] (t # ts) = - uint t"
| "lex_diff (s # ss) [] = uint s"
| "lex_diff (s # ss) (t # ts) = (if s = t then lex_diff ss ts else uint s - uint t)"

lemma strcmp_lex_diff: "cstr m p s \<Longrightarrow> cstr m q t \<Longrightarrow> strcmp m p q = Some (lex_diff s t)"
proof (induction s t arbitrary: p q rule: lex_diff.induct)
qed (subst strcmp.simps, force simp: cstr_Cons byte_diff_def)+

lemma strncmp_lex_diff:
  "cstr m p s \<Longrightarrow> cstr m q t \<Longrightarrow> strncmp_loop n m p q = lex_diff (take n s) (take n t)"
proof (induction n arbitrary: p q s t)
  case (Suc n)
  then show ?case
    by (cases s; cases t) (auto simp: cstr_Cons byte_diff_def)
qed simp

lemma lex_diff_eq_0: "0 \<notin> set s \<Longrightarrow> 0 \<notin> set t \<Longrightarrow> lex_diff s t = 0 \<longleftrightarrow> s = t"
  by (induction s t rule: lex_diff.induct) (auto simp: word_uint_eq_iff)

lemma lex_diff_less:
  "0 \<notin> set s \<Longrightarrow> 0 \<notin> set t \<Longrightarrow> lex_diff s t < 0 \<longleftrightarrow> (s, t) \<in> lexord {(a, b). a < b}"
proof (induction s t rule: lex_diff.induct)
  case (2 t ts)
  have "t \<noteq> 0" using 2 by auto
  then have "0 < uint t" by (simp add: uint_0_iff order_less_le)
  then show ?case by simp
next
  case (4 s ss t ts)
  then show ?case by (auto simp: word_less_def word_uint_eq_iff)
qed auto

lemma cstr_nonzero: "cstr m p s \<Longrightarrow> 0 \<notin> set s"
  by (simp add: cstr_def)

section \<open>Bounded copies\<close>

lemma strlcpy_stored:
  assumes src: "cstr m src s" and sz: "sz \<noteq> 0" and fits: "unat dest + unat sz \<le> 4294967296"
    and disj: "span dest (unat sz) \<inter> span src (Suc (length s)) = {}"
  shows "strlcpy dest src sz m =
    Some (of_nat (length s), stored dest (take (unat sz - 1) s @ [0]) m)"
proof -
  let ?len = "of_nat (length s) :: u32"
  let ?n = "if sz \<le> ?len then sz - 1 else ?len"
  have len: "unat ?len = length s" using src by (rule unat_length_cstr)
  have sz1: "1 \<le> unat sz" using sz by (metis unat_0 word_unat_eq_iff less_one not_le)
  have n: "unat ?n = min (length s) (unat sz - 1)"
    using sz1 len by (auto simp: unat_le_u32 unat_sub_u32)
  have ls: "unat src + length s < 4294967296" using src by (rule cstr_len)
  have dj: "unat dest \<le> unat src \<or> unat src + unat ?n \<le> unat dest"
  proof (rule ccontr)
    assume "\<not> ?thesis"
    then have "dest \<in> span dest (unat sz) \<inter> span src (Suc (length s))"
      using sz1 n by (auto simp: span_def)
    then show False using disj by blast
  qed
  have cp: "memcpy dest src ?n m = stored dest (take (unat sz - 1) s) m"
    using src dj ls fits sz1
    by (subst memcpy_stored) (auto simp: n cstr_fetch min_def)
  have "stored dest (take (unat sz - 1) s @ [0]) m = (stored dest (take (unat sz - 1) s) m)(dest + ?n := 0)"
  proof
    fix a
    have "unat (a - dest) = unat ?n \<longleftrightarrow> a = dest + ?n"
      by (metis add_diff_cancel_left' diff_add_cancel add.commute word_unat_eq_iff)
    then show "stored dest (take (unat sz - 1) s @ [0]) m a =
        ((stored dest (take (unat sz - 1) s) m)(dest + ?n := 0)) a"
      using fits sz1 n by (auto simp: stored_eq nth_append min_def split: if_splits)
  qed
  then show ?thesis
    using sz by (simp add: strlcpy_def strlen_cstr [OF src] cp Let_def)
qed

lemma strnlen_loop_eq:
  "cstr m p s \<Longrightarrow> i + k < 4294967296 \<Longrightarrow> i \<le> length s \<Longrightarrow>
   strnlen_loop k m p (of_nat i) = of_nat (min (i + k) (length s))"
proof (induction k arbitrary: i)
  case (Suc k)
  show ?case
  proof (cases "i = length s")
    case True
    then show ?thesis using Suc.prems by (simp add: cstr_end)
  next
    case False
    then have "strnlen_loop k m p (of_nat (Suc i)) = of_nat (min (Suc i + k) (length s))"
      using Suc.prems by (intro Suc.IH) auto
    moreover have "m (p + of_nat i) \<noteq> 0"
      using Suc.prems False cstr_nth [of m p s i] by auto
    ultimately show ?thesis by (simp add: add.commute)
  qed
qed (simp add: min_def)

lemma strlcat_stored:
  assumes dst: "cstr m dest d" and src: "cstr m src s"
    and dl: "length d < unat sz" and fits: "unat dest + unat sz \<le> 4294967296"
    and disj: "span dest (unat sz) \<inter> span src (Suc (length s)) = {}"
  shows "strlcat dest src sz m =
    Some (of_nat (length d + length s),
          stored (dest + of_nat (length d)) (take (unat sz - length d - 1) s @ [0]) m)"
proof -
  let ?k = "of_nat (length d) :: u32"
  have k: "unat ?k = length d" using dst by (rule unat_length_cstr)
  have dlen: "strnlen_loop (unat sz) m dest 0 = ?k"
    using strnlen_loop_eq [OF dst, of 0 "unat sz"] dl by (simp add: min_def)
  have sz: "unat (sz - ?k) = unat sz - length d" using dl k by (simp add: unat_sub_u32)
  have dk: "unat (dest + ?k) = unat dest + length d" using dl fits k by (simp add: unat_add_u32)
  have "strlcpy (dest + ?k) src (sz - ?k) m =
      Some (of_nat (length s), stored (dest + ?k) (take (unat (sz - ?k) - 1) s @ [0]) m)"
  proof (rule strlcpy_stored [OF src])
    show "sz - ?k \<noteq> 0" using sz dl by (metis unat_0 zero_less_diff less_numeral_extra(3))
    show "unat (dest + ?k) + unat (sz - ?k) \<le> 4294967296" using sz dk fits dl by simp
    have "span (dest + ?k) (unat (sz - ?k)) \<subseteq> span dest (unat sz)"
      using sz dk dl by (auto simp: span_def)
    then show "span (dest + ?k) (unat (sz - ?k)) \<inter> span src (Suc (length s)) = {}"
      using disj by blast
  qed
  moreover have "?k \<noteq> sz" using dl k by auto
  ultimately show ?thesis by (simp add: strlcat_def dlen sz Let_def)
qed

text \<open>Appending to a string, in memory.\<close>

lemma cstr_append_stored:
  assumes dst: "cstr m dest d" and "0 \<notin> set t" and fits: "unat dest + length d + length t < 4294967296"
  shows "cstr (stored (dest + of_nat (length d)) (t @ [0]) m) dest (d @ t)"
proof -
  have dk: "unat (dest + of_nat (length d)) = unat dest + length d"
    using fits by (simp add: unat_add_u32 unat_of_nat_u32)
  have "stored (dest + of_nat (length d)) (t @ [0]) m (dest + of_nat i) = (d @ t @ [0]) ! i"
    if i: "i < length (d @ t @ [0])" for i
  proof (cases "i < length d")
    case True
    then have "dest + of_nat i \<notin> span (dest + of_nat (length d)) (length (t @ [0]))"
      using fits dk by (simp add: span_def unat_add_u32 unat_of_nat_u32)
    then show ?thesis using True cstr_nth [OF dst] by (simp add: stored_outside nth_append)
  next
    case False
    then obtain j where j: "i = length d + j" by (metis le_add_diff_inverse not_less)
    then have "stored (dest + of_nat (length d)) (t @ [0]) m (dest + of_nat (length d) + of_nat j) = (t @ [0]) ! j"
      using i dk fits by (intro stored_at) auto
    then show ?thesis by (simp add: j add.assoc nth_append)
  qed
  then show ?thesis
    using assms cstr_nonzero [OF dst] by (auto simp: cstr_def bytes_in_def)
qed

text \<open>\<open>strncpy\<close> on a source shorter than the bound.\<close>

lemma strncpy_loop_short:
  "cstr m src s \<Longrightarrow> length s < n \<Longrightarrow> unat dest + n + 1 \<le> 4294967296 \<Longrightarrow>
   span dest (n + 1) \<inter> span src (Suc (length s)) = {} \<Longrightarrow>
   strncpy_loop n dest src m = stored dest (s @ replicate (n + 1 - length s) 0) m"
proof (induction n arbitrary: dest src s m)
  case (Suc n)
  have d1: "unat (dest + 1) = Suc (unat dest)" using Suc.prems by (simp add: unat_Suc_u32)
  show ?case
  proof (cases s)
    case Nil
    then have "strncpy_loop (Suc n) dest src m = memset_loop (Suc n) (dest + 1) 0 (m(dest := 0))"
      using Suc.prems by simp
    also have "\<dots> = stored (dest + 1) (replicate (Suc n) 0) (m(dest := 0))"
      using Suc.prems d1 by (intro memset_loop_stored) simp
    also have "\<dots> = stored dest (0 # replicate (Suc n) 0) m"
      using Suc.prems by (subst stored_Cons) auto
    finally show ?thesis using Nil by simp
  next
    case (Cons c t)
    have s1: "unat (src + 1) = Suc (unat src)" and t: "cstr m (src + 1) t" and c: "m src = c" "c \<noteq> 0"
      using Suc.prems Cons by (auto simp: cstr_Cons unat_Suc_u32)
    have sub: "span (src + 1) (Suc (length t)) \<subseteq> span src (Suc (length s))"
      "span (dest + 1) (n + 1) \<subseteq> span dest (Suc n + 1)" "dest \<in> span dest (Suc n + 1)"
      using Cons s1 d1 by (auto simp: span_def)
    then have "dest \<notin> span (src + 1) (Suc (length t))" using Suc.prems by blast
    then have "cstr (m(dest := c)) (src + 1) t"
      using t by (subst cstr_cong [where m' = m]) auto
    then have "strncpy_loop n (dest + 1) (src + 1) (m(dest := c)) =
        stored (dest + 1) (t @ replicate (n + 1 - length t) 0) (m(dest := c))"
      using Suc.prems Cons d1 sub by (intro Suc.IH) (auto simp: fun_upd_def)
    then show ?thesis using Suc.prems Cons c by (simp add: stored_Cons)
  qed
qed simp

section \<open>Numerals\<close>

text \<open>
  Reading a numeral back: the value of a digit character, of a digit string, and of a decimal
  string with an optional sign. \<open>digits_rev b n\<close> are the digits of \<open>n\<close>, least significant first.
\<close>

definition digit_val :: "u8 \<Rightarrow> nat" where
  "digit_val c = (if 97 \<le> c then unat c - 87 else unat c - 48)"

definition num_of :: "nat \<Rightarrow> u8 list \<Rightarrow> nat" where
  "num_of b s = foldl (\<lambda>acc c. b * acc + digit_val c) 0 s"

definition decimal_of :: "u8 list \<Rightarrow> int" where
  "decimal_of s = (if s \<noteq> [] \<and> hd s = 45 then - int (num_of 10 (tl s)) else int (num_of 10 s))"

function digits_rev :: "nat \<Rightarrow> nat \<Rightarrow> u8 list" where
  "digits_rev b n =
     (if b < 2 then [] else
      digit_char (of_nat (n mod b)) # (if n div b \<noteq> 0 then digits_rev b (n div b) else []))"
  by pat_completeness auto
termination
proof (relation "measure snd", simp)
  fix b n :: nat
  assume "\<not> b < 2" "n div b \<noteq> 0"
  moreover from this have "0 < n" by (cases n) auto
  ultimately show "((b, n div b), b, n) \<in> measure snd" by simp
qed

declare digits_rev.simps [simp del]

lemma unat_digit_char:
  "d < 36 \<Longrightarrow> unat (digit_char (of_nat d)) = (if d < 10 then d + 48 else d + 87)"
proof -
  assume "d < 36"
  moreover from this have "unat (of_nat d + 48 :: u32) = d + 48" "unat (87 + of_nat d :: u32) = d + 87"
    by (simp_all add: unat_add_u32 unat_of_nat_u32)
  ultimately show ?thesis
    by (simp add: digit_char_def unat_less_u32 unat_of_nat_u32 unsigned_ucast_eq take_bit_eq_mod)
qed

lemma digit_val_char: "d < 36 \<Longrightarrow> digit_val (digit_char (of_nat d)) = d"
  using unat_digit_char [of d] by (auto simp: digit_val_def word_le_nat_alt split: if_splits)

lemma digit_char_ne:
  "d < 36 \<Longrightarrow> digit_char (of_nat d) \<noteq> 0" "d < 36 \<Longrightarrow> digit_char (of_nat d) \<noteq> 45"
  using unat_digit_char [of d] by (auto split: if_splits)

lemma mod_base_less: "2 \<le> b \<Longrightarrow> b \<le> 36 \<Longrightarrow> (n :: nat) mod b < 36"
  by (rule less_le_trans [of _ b]) simp_all

lemma digits_rev_num_of:
  "2 \<le> b \<Longrightarrow> b \<le> 36 \<Longrightarrow> num_of b (rev (digits_rev b n)) = n"
proof (induction b n rule: digits_rev.induct)
  case (1 b n)
  then have "digit_val (digit_char (of_nat (n mod b))) = n mod b"
    by (intro digit_val_char mod_base_less) auto
  then show ?case
    using 1 by (subst digits_rev.simps) (auto simp: num_of_def div_eq_0_iff)
qed

lemma digits_rev_chars: "b \<le> 36 \<Longrightarrow> 0 \<notin> set (digits_rev b n) \<and> 45 \<notin> set (digits_rev b n)"
proof (induction b n rule: digits_rev.induct)
  case (1 b n)
  have "n mod b < 36" if "\<not> b < 2"
    using 1 that mod_base_less by auto
  then show ?case
    using 1 digit_char_ne [of "n mod b"] by (subst (1 2) digits_rev.simps) auto
qed

lemma digits_rev_ne: "2 \<le> b \<Longrightarrow> digits_rev b n \<noteq> []"
  by (subst digits_rev.simps) simp

lemma digits_rev_length: "2 \<le> b \<Longrightarrow> n < b ^ Suc k \<Longrightarrow> length (digits_rev b n) \<le> Suc k"
proof (induction k arbitrary: n)
  case 0
  then show ?case by (subst digits_rev.simps) simp
next
  case (Suc k)
  then have "n div b < b ^ Suc k" by (simp add: less_mult_imp_div_less mult.commute)
  then show ?case using Suc by (subst digits_rev.simps) auto
qed

text \<open>No leading zero.\<close>

lemma digits_rev_last:
  "2 \<le> b \<Longrightarrow> b \<le> 36 \<Longrightarrow> n \<noteq> 0 \<Longrightarrow> last (digits_rev b n) \<noteq> 48"
proof (induction b n rule: digits_rev.induct)
  case (1 b n)
  show ?case
  proof (cases "n div b = 0")
    case True
    then have "n < b" using 1 by (simp add: div_eq_0_iff)
    moreover from this have "digit_char (of_nat n) \<noteq> 48"
      using 1 unat_digit_char [of n] by (auto split: if_splits)
    ultimately show ?thesis using 1 by (subst digits_rev.simps) auto
  next
    case False
    then show ?thesis using 1 digits_rev_ne [of b "n div b"] by (subst digits_rev.simps) auto
  qed
qed

lemma put_digits_stored:
  assumes "2 \<le> unat base" "unat p + length (digits_rev (unat base) (unat ud)) < 4294967296"
  shows "put_digits ud base p m =
    (let ds = digits_rev (unat base) (unat ud) in Some (p + of_nat (length ds), stored p ds m))"
  using assms
proof (induction "unat ud" arbitrary: ud p m rule: less_induct)
  case less
  let ?b = "unat base"
  have b0: "base \<noteq> 0" using less.prems by auto
  have md: "digit_char (ud mod base) = digit_char (of_nat (unat ud mod ?b))"
    by (simp add: unat_mod_distrib [symmetric])
  show ?case
  proof (cases "ud div base = 0")
    case True
    then have "unat ud div ?b = 0" by (simp add: unat_div_distrib [symmetric])
    then have ds: "digits_rev ?b (unat ud) = [digit_char (ud mod base)]"
      using less.prems md by (subst digits_rev.simps) simp
    have "stored p [digit_char (ud mod base)] m = m(p := digit_char (ud mod base))"
      using less.prems ds by (subst stored_Cons) auto
    then show ?thesis using b0 True by (subst put_digits.simps) (simp add: ds Let_def)
  next
    case False
    then have nz: "unat ud div ?b \<noteq> 0" by (simp add: unat_div_distrib [symmetric] unat_eq_0)
    then have ds: "digits_rev ?b (unat ud) = digit_char (ud mod base) # digits_rev ?b (unat (ud div base))"
      using less.prems md by (subst digits_rev.simps) (simp add: unat_div_distrib)
    have "unat (ud div base) < unat ud"
      using nz less.prems by (simp add: unat_div_distrib) (metis div_less_dividend gr0I div_0 less_le_trans one_less_numeral_iff semiring_norm(76))
    moreover have "unat (p + 1) = Suc (unat p)" using less.prems ds by (simp add: unat_Suc_u32)
    ultimately have "put_digits (ud div base) base (p + 1) (m(p := digit_char (ud mod base))) =
        (let ds = digits_rev ?b (unat (ud div base))
         in Some (p + 1 + of_nat (length ds), stored (p + 1) ds (m(p := digit_char (ud mod base)))))"
      using less.prems ds by (intro less.hyps) auto
    then show ?thesis
      using b0 False less.prems ds
      by (subst put_digits.simps) (simp add: Let_def stored_Cons algebra_simps)
  qed
qed

lemma reverse_loop_stored:
  "unat p + n \<le> 4294967296 \<Longrightarrow> n \<noteq> 0 \<or> p \<noteq> 0 \<Longrightarrow>
   reverse_loop p (p + of_nat n - 1) m = stored p (rev (fetch m p n)) m"
proof (induction n arbitrary: p m rule: less_induct)
  case (less n)
  consider "n = 0" | "n = 1" | k where "n = Suc (Suc k)"
    by (metis One_nat_def not0_implies_Suc)
  then show ?case
  proof cases
    case 1
    then have "\<not> p < p - 1"
      using less.prems by (simp add: unat_less_u32 unat_sub_u32 Suc_leI unat_gt_0)
    then show ?thesis using 1 by (subst reverse_loop.simps) (simp add: fetch_def)
  next
    case 2
    then have "stored p [m p] m = m" using less.prems by (subst stored_Cons) auto
    then show ?thesis using 2 by (subst reverse_loop.simps) (simp add: fetch_def)
  next
    case (3 k)
    let ?q = "p + of_nat n - 1"
    have qe: "?q = p + of_nat (Suc k)" by (simp add: 3)
    have q: "unat ?q = unat p + Suc k"
      using less.prems 3 unfolding qe
      by (subst unat_add_u32) (auto simp: unat_of_nat_u32 simp del: of_nat_Suc)
    have p1: "unat (p + 1) = Suc (unat p)" using less.prems 3 by (simp add: unat_Suc_u32)
    let ?m = "m(p := m ?q, ?q := m p)"
    have "reverse_loop (p + 1) (p + 1 + of_nat k - 1) ?m = stored (p + 1) (rev (fetch ?m (p + 1) k)) ?m"
      using less.prems 3 p1 by (intro less.IH) (auto simp: unat_eq_0)
    moreover have "p + 1 + of_nat k - 1 = ?q - 1" by (simp add: 3)
    moreover have "p < ?q" by (simp add: unat_less_u32 q)
    ultimately have "reverse_loop p ?q m = stored (p + 1) (rev (fetch ?m (p + 1) k)) ?m"
      by (subst reverse_loop.simps) (simp only: if_True)
    also have "\<dots> = stored p (rev (fetch m p n)) m"
    proof
      fix a
      have fm: "fetch ?m (p + 1) k ! i = m (p + of_nat (Suc i))" if "i < k" for i
      proof -
        have e: "p + 1 + of_nat i = p + of_nat (Suc i)" by simp
        have "unat (p + of_nat (Suc i)) = unat p + Suc i"
          using that less.prems 3
          by (subst unat_add_u32) (auto simp: unat_of_nat_u32 simp del: of_nat_Suc)
        then have "p + of_nat (Suc i) \<noteq> p" "p + of_nat (Suc i) \<noteq> ?q"
          using that q by (metis add.right_neutral nat_add_left_cancel_less not_less zero_less_Suc le_refl,
              metis nat_add_left_cancel_less not_less_eq less_irrefl)
        then show ?thesis using that e by (simp only: nth_fetch fun_upd_apply if_False)
      qed
      consider "a = p" | "a = ?q" | i where "a = p + of_nat (Suc i)" "i < k" | "a \<notin> span p n"
      proof (cases "a \<in> span p n")
        case True
        let ?i = "unat a - unat p"
        have i: "a = p + of_nat ?i" "?i < n"
          using True by (auto simp: span_def word_unat_eq_iff unat_add_u32 unat_of_nat_u32)
        then consider "?i = 0" | "?i = Suc k" | j where "?i = Suc j" "j < k"
          using \<open>n = Suc (Suc k)\<close> by (cases ?i) (auto simp: less_Suc_eq)
        then show ?thesis
        proof cases
          case 1
          then have "a = p" using i(1) by simp
          then show ?thesis by (rule that)
        next
          case 2
          then have "a = ?q" using i(1) qe by simp
          then show ?thesis by (rule that)
        next
          case (3 j)
          then have "a = p + of_nat (Suc j)" using i(1) by simp
          then show ?thesis using 3(2) by (rule that)
        qed
      qed (rule that)
      then show "stored (p + 1) (rev (fetch ?m (p + 1) k)) ?m a = stored p (rev (fetch m p n)) m a"
      proof cases
        case 1
        have "stored p (rev (fetch m p n)) m p = m ?q"
          unfolding qe by (simp add: stored_def span_def rev_nth 3)
        moreover have "p \<notin> span (p + 1) k" using p1 by (simp add: span_def)
        moreover have "?q \<noteq> p" using q by auto
        ultimately show ?thesis using 1 by (simp add: stored_outside)
      next
        case 2
        then show ?thesis using less.prems 3 p1 q
          by (auto simp: stored_def span_def rev_nth)
      next
        case (3 i)
        have "unat a = unat p + Suc i"
          using 3 less.prems \<open>n = Suc (Suc k)\<close> by (subst 3, subst unat_add_u32) (auto simp: unat_of_nat_u32 simp del: of_nat_Suc)
        then have sp: "a \<in> span (p + 1) k" "a \<in> span p n" "unat a - unat (p + 1) = i" "unat a - unat p = Suc i"
          using 3 p1 \<open>n = Suc (Suc k)\<close> by (auto simp: span_def)
        have "rev (fetch ?m (p + 1) k) ! i = m (p + of_nat (Suc (k - Suc i)))"
          using 3(2) by (simp only: rev_nth length_fetch) (rule fm, simp)
        moreover have "rev (fetch m p n) ! Suc i = m (p + of_nat (k - i))"
          using 3(2) \<open>n = Suc (Suc k)\<close> by (simp add: rev_nth del: of_nat_diff)
        moreover have "Suc (k - Suc i) = k - i" using 3(2) by simp
        ultimately show ?thesis using sp by (simp only: stored_def length_rev length_fetch if_True)
      next
        case 4
        then show ?thesis using 3 p1 q by (auto simp: stored_def span_def)
      qed
    qed
    finally show ?thesis .
  qed
qed

lemma utoa_stored:
  assumes "2 \<le> unat base" "unat buf + length (digits_rev (unat base) (unat val)) < 4294967296"
  shows "utoa val buf base m = Some (stored buf (rev (digits_rev (unat base) (unat val)) @ [0]) m)"
proof -
  let ?ds = "digits_rev (unat base) (unat val)"
  let ?p = "buf + of_nat (length ?ds)"
  let ?m = "(stored buf ?ds m)(?p := 0)"
  have m: "?m = stored buf (?ds @ [0]) m" by (rule stored_snoc [symmetric]) (use assms in simp)
  have "fetch ?m buf (length ?ds) = ?ds"
    using assms unfolding m by (intro nth_equalityI) (auto simp: stored_at nth_append)
  then have "reverse_loop buf (?p - 1) ?m = stored buf (rev ?ds) ?m"
    using assms digits_rev_ne [of "unat base"]
    by (subst reverse_loop_stored) auto
  also have "\<dots> = stored buf (rev ?ds @ [0]) m" unfolding m by (rule stored_override) simp
  finally show ?thesis
    using put_digits_stored [OF assms] by (simp add: utoa_def Let_def)
qed

lemma itoa_stored:
  assumes b: "2 \<le> unat base"
    and fits: "unat buf + length (digits_rev (unat base) (unat val)) < 4294967296"
    and pos: "base \<noteq> 10 \<or> 0 \<le> sint val"
  shows "itoa val buf base m = Some (stored buf (rev (digits_rev (unat base) (unat val)) @ [0]) m)"
proof -
  have "\<not> (base = 10 \<and> sint val < 0)" using pos by auto
  then have "itoa val buf base m = utoa val buf base m"
    by (auto simp: itoa_def utoa_def Let_def split: option.splits prod.splits)
  then show ?thesis using utoa_stored [OF b fits] by simp
qed

lemma itoa_negative:
  assumes fits: "unat buf + length (digits_rev 10 (unat (- val))) + 1 < 4294967296"
    and neg: "sint val < 0"
  shows "itoa val buf 10 m = Some (stored buf (45 # rev (digits_rev 10 (unat (- val))) @ [0]) m)"
proof -
  let ?ds = "digits_rev 10 (unat (- val))"
  let ?p = "buf + of_nat (length ?ds)"
  let ?m = "(stored buf ?ds m)(?p := 45, ?p + 1 := 0)"
  have m: "?m = stored buf (?ds @ [45] @ [0]) m"
    using stored_snoc [of buf "?ds @ [45]" 0 m] stored_snoc [of buf ?ds 45 m] fits
    by (simp add: algebra_simps)
  have "fetch ?m buf (Suc (length ?ds)) = ?ds @ [45]"
    using fits unfolding m by (intro nth_equalityI) (auto simp: stored_at nth_append less_Suc_eq simp del: of_nat_Suc)
  moreover have "?p + 1 - 1 = buf + of_nat (Suc (length ?ds)) - 1" by simp
  ultimately have "reverse_loop buf (?p + 1 - 1) ?m = stored buf (45 # rev ?ds) ?m"
    using fits by (simp only: ) (subst reverse_loop_stored, auto)
  also have "\<dots> = stored buf (45 # rev ?ds @ [0]) m"
    using stored_override [of "45 # rev ?ds" "?ds @ [45]" buf "[0]" m] unfolding m by simp
  finally show ?thesis
    using put_digits_stored [of 10 buf "- val" m] fits neg by (simp add: itoa_def Let_def)
qed

lemma decimal_digits: "decimal_of (rev (digits_rev 10 n)) = int n"
proof -
  have "45 \<notin> set (digits_rev 10 n)" using digits_rev_chars [of 10] by simp
  moreover have "digits_rev 10 n \<noteq> []" by (rule digits_rev_ne) simp
  ultimately have "hd (rev (digits_rev 10 n)) \<noteq> 45" by (metis hd_in_set rev_is_Nil_conv set_rev)
  then show ?thesis using digits_rev_num_of [of 10 n] by (simp add: decimal_of_def)
qed

lemma decimal_minus_digits: "decimal_of (45 # rev (digits_rev 10 n)) = - int n"
  using digits_rev_num_of [of 10 n] by (simp add: decimal_of_def)

lemma unat_minus_negative: "sint (w :: u32) < 0 \<Longrightarrow> int (unat (- w)) = - sint w"
proof -
  assume neg: "sint w < 0"
  have "w \<noteq> 0" using neg by auto
  moreover have "uint w mod 4294967296 = uint w" using uint_lt2p [of w] by (intro mod_pos_pos_trivial) auto
  ultimately have "uint (- w) = 4294967296 - uint w"
    by (simp add: uint_word_ariths zmod_zminus1_eq_if uint_0_iff)
  moreover have "sint w = uint w - 4294967296" using neg sint_cases [of w] by (auto split: if_splits)
  ultimately show ?thesis by simp
qed

lemma sint_eq_uint_nonneg: "0 \<le> sint (w :: u32) \<Longrightarrow> sint w = int (unat w)"
  using uint_lt2p [of w] sint_cases [of w] by (simp split: if_splits)

lemma digits_rev_10_length: "n < 4294967296 \<Longrightarrow> length (digits_rev 10 n) \<le> 10"
  using digits_rev_length [of 10 n 9] by simp

section \<open>Properties\<close>

text \<open>A string alone in an otherwise zero memory.\<close>

abbreviation string_at :: "u32 \<Rightarrow> u8 list \<Rightarrow> mem" where
  "string_at p s \<equiv> stored p (s @ [0]) (\<lambda>_. 0)"

text \<open>
  C35: \<open>memmove\<close> copies correctly however source and destination overlap: afterwards the destination
  holds the bytes the source held before the call, and no byte outside the destination changed.
\<close>
theorem memmove_overlap:
  assumes "unat dest + unat count \<le> 4294967296" "unat src + unat count \<le> 4294967296"
  shows "fetch (memmove dest src count m) dest (unat count) = fetch m src (unat count) \<and>
    (\<forall>a. a \<notin> span dest (unat count) \<longrightarrow> memmove dest src count m a = m a)"
  using assms
  by (auto simp: memmove_stored stored_outside stored_at intro!: nth_equalityI)

theorem memmove_overlap_witness:
  "fetch (memmove 101 100 3 (string_at 100 [65, 66, 67])) 101 3 = [65, 66, 67]"
proof -
  have "fetch (memmove 101 100 3 (string_at 100 [65, 66, 67])) 101 3 =
      fetch (string_at 100 [65, 66, 67]) 100 3"
    using memmove_overlap [of 101 3 100 "string_at 100 [65, 66, 67]"] by simp
  also have "\<dots> = [65, 66, 67]" by (simp add: fetch_def stored_def span_def upt_rec)
  finally show ?thesis .
qed

text \<open>
  \<open>strlcpy\<close> into a buffer of \<open>size > 0\<close> bytes always leaves a NUL-terminated string there: the
  longest prefix of the source that fits. It writes nothing outside the buffer, and its result, the
  length of the source, is at least \<open>size\<close> exactly when the string was cut.
\<close>
theorem strlcpy_truncates:
  assumes src: "cstr m src s" and sz: "sz \<noteq> 0" and fits: "unat dest + unat sz \<le> 4294967296"
    and disj: "span dest (unat sz) \<inter> span src (Suc (length s)) = {}"
  shows "\<exists>len m'. strlcpy dest src sz m = Some (len, m') \<and> unat len = length s \<and>
    cstr m' dest (take (unat sz - 1) s) \<and> (\<forall>a. a \<notin> span dest (unat sz) \<longrightarrow> m' a = m a) \<and>
    (sz \<le> len \<longleftrightarrow> take (unat sz - 1) s \<noteq> s)"
proof -
  let ?t = "take (unat sz - 1) s"
  have sz1: "1 \<le> unat sz" using sz by (metis unat_0 word_unat_eq_iff less_one not_le)
  have "length ?t \<le> unat sz - 1" by simp
  then have "unat dest + length ?t < 4294967296" using fits sz1 by linarith
  then have "cstr (stored dest (?t @ [0]) m) dest ?t"
    using cstr_nonzero [OF src] by (intro cstr_stored) (auto dest: in_set_takeD)
  moreover have "span dest (length (?t @ [0])) \<subseteq> span dest (unat sz)"
    using sz1 by (auto simp: span_def)
  then have "a \<notin> span dest (unat sz) \<Longrightarrow> stored dest (?t @ [0]) m a = m a" for a
    by (intro stored_outside) blast
  moreover have "sz \<le> of_nat (length s) \<longleftrightarrow> ?t \<noteq> s"
    using sz1 by (auto simp: unat_le_u32 unat_length_cstr [OF src])
  ultimately show ?thesis
    using strlcpy_stored [OF assms] unat_length_cstr [OF src] by auto
qed

theorem strlcpy_truncates_witness:
  "\<exists>m'. strlcpy 200 100 3 (string_at 100 [65, 66, 67]) = Some (3, m') \<and> cstr m' 200 [65, 66]"
proof -
  have "cstr (string_at 100 [65, 66, 67]) 100 [65, 66, 67]"
    by (rule cstr_stored) simp_all
  moreover have "span 200 3 \<inter> span 100 (Suc (length [65, 66, 67 :: u8])) = {}" by (auto simp: span_def)
  ultimately obtain len m' where r: "strlcpy 200 100 3 (string_at 100 [65, 66, 67]) = Some (len, m')"
    and len: "unat len = length [65, 66, 67 :: u8]" and m': "cstr m' 200 (take 2 [65, 66, 67])"
    using strlcpy_truncates [of "string_at 100 [65, 66, 67]" 100 "[65, 66, 67]" 3 200]
    by auto
  from len have "len = 3" by (simp add: word_unat_eq_iff)
  then show ?thesis using r m' by simp
qed

text \<open>
  \<open>strcmp\<close> of two strings returns a value whose sign is their lexicographic order as unsigned
  bytes, 0 exactly for equal strings, and \<open>strncmp\<close> compares their first \<open>n\<close> bytes the same way.
\<close>
theorem strcmp_lexicographic:
  assumes s: "cstr m p s" and t: "cstr m q t"
  shows "\<exists>d. strcmp m p q = Some d \<and> (d = 0 \<longleftrightarrow> s = t) \<and> (d < 0 \<longleftrightarrow> (s, t) \<in> lexord {(a, b). a < b}) \<and>
    (strncmp m p q n = 0 \<longleftrightarrow> take (unat n) s = take (unat n) t)"
proof -
  have "0 \<notin> set (take (unat n) s)" "0 \<notin> set (take (unat n) t)"
    using cstr_nonzero [OF s] cstr_nonzero [OF t] by (auto dest: in_set_takeD)
  then show ?thesis
    using strcmp_lex_diff [OF s t] cstr_nonzero [OF s] cstr_nonzero [OF t]
    by (simp add: strncmp_def strncmp_lex_diff [OF s t] lex_diff_eq_0 lex_diff_less)
qed

theorem strcmp_lexicographic_witness:
  "\<exists>d. strcmp (stored 200 [65, 67, 0] (string_at 100 [65, 66])) 100 200 = Some d \<and> d < 0"
proof -
  let ?m = "stored 200 [65, 67, 0] (string_at 100 [65, 66])"
  have "cstr ?m 100 [65, 66]" "cstr ?m 200 [65, 67]"
    by (simp_all add: cstr_Cons stored_def span_def)
  then show ?thesis
    using strcmp_lexicographic [of ?m 100 "[65, 66]" 200 "[65, 67]" 0] by auto
qed

text \<open>
  Copying a string shorter than the bound, \<open>strncpy(dest, src, n)\<close> writes one byte too many: the
  terminating NUL does not count against \<open>n\<close>, so the padding fills \<open>dest[0..n]\<close> inclusive, and
  \<open>dest[n]\<close>, which is outside the caller's buffer, becomes 0.
\<close>
theorem strncpy_overruns:
  assumes src: "cstr m src s" and short: "length s < unat n" and fits: "unat dest + unat n + 1 \<le> 4294967296"
    and disj: "span dest (unat n + 1) \<inter> span src (Suc (length s)) = {}"
  shows "fetch (strncpy dest src n m) dest (unat n) = s @ replicate (unat n - length s) 0 \<and>
    strncpy dest src n m (dest + n) = 0"
proof -
  have eq: "strncpy dest src n m = stored dest (s @ replicate (unat n + 1 - length s) 0) m"
    using strncpy_loop_short [OF assms] by (simp add: strncpy_def)
  have "fetch (strncpy dest src n m) dest (unat n) = s @ replicate (unat n - length s) 0"
    using short fits unfolding eq
    by (intro nth_equalityI) (auto simp: stored_at nth_append)
  moreover have "strncpy dest src n m (dest + of_nat (unat n)) = 0"
    using short fits unfolding eq by (subst stored_at) (auto simp: nth_append)
  ultimately show ?thesis by simp
qed

theorem strncpy_overruns_witness:
  "strncpy 200 100 4 (stored 204 [99] (string_at 100 [65])) 204 = 0"
proof -
  have "cstr (stored 204 [99] (string_at 100 [65])) 100 [65]"
    by (simp add: cstr_Cons stored_def span_def)
  moreover have "span 200 5 \<inter> span 100 (Suc 1) = {}" by (auto simp: span_def)
  ultimately show ?thesis
    using strncpy_overruns [of "stored 204 [99] (string_at 100 [65])" 100 "[65]" 4 200] by simp
qed

section \<open>Texts in fixed buffers\<close>

text \<open>What \<open>strlcpy\<close>, \<open>strlcat\<close> leave in a buffer of \<open>n\<close> bytes, and the decimal numeral of \<open>utoa\<close>.\<close>

definition strlcpy_text :: "nat \<Rightarrow> u8 list \<Rightarrow> u8 list" where
  "strlcpy_text n src = take (n - 1) src"

definition strlcat_text :: "nat \<Rightarrow> u8 list \<Rightarrow> u8 list \<Rightarrow> u8 list" where
  "strlcat_text n dst src = dst @ take (n - length dst - 1) src"

definition utoa_text :: "u32 \<Rightarrow> u8 list" where
  "utoa_text v = rev (digits_rev 10 (unat v))"

definition utoa_hex :: "u32 \<Rightarrow> u8 list" where
  "utoa_hex v = rev (digits_rev 16 (unat v))"

definition chars :: "string \<Rightarrow> u8 list" where
  "chars str = map of_char str"

text \<open>These are the strings \<open>utoa\<close> leaves in memory, in any buffer that is not at its very end.\<close>

lemma utoa_writes:
  assumes "unat buf + 34 < 4294967296"
  shows "\<exists>m'. utoa v buf 10 m = Some m' \<and> cstr m' buf (utoa_text v)"
    "\<exists>m'. utoa v buf 16 m = Some m' \<and> cstr m' buf (utoa_hex v)"
proof -
  have dec: "length (digits_rev 10 (unat v)) \<le> 10" by (rule digits_rev_10_length) simp
  have hex: "length (digits_rev 16 (unat v)) \<le> 8" using digits_rev_length [of 16 "unat v" 7] by simp
  show "\<exists>m'. utoa v buf 10 m = Some m' \<and> cstr m' buf (utoa_text v)"
    using utoa_stored [of 10 buf v m] digits_rev_chars [of 10 "unat v"] dec assms by (auto simp: utoa_text_def intro!: cstr_stored)
  show "\<exists>m'. utoa v buf 16 m = Some m' \<and> cstr m' buf (utoa_hex v)"
    using utoa_stored [of 16 buf v m] digits_rev_chars [of 16 "unat v"] hex assms by (auto simp: utoa_hex_def intro!: cstr_stored)
qed

text \<open>
  C34: For every base from 2 to 36, \<open>itoa\<close> writes a NUL-terminated numeral that reads back as the
  value, the most negative integer included: in base 10 as the signed value, with at most 11
  characters, in every other base as the unsigned one. It writes nothing beyond the terminator.
\<close>
theorem itoa_roundtrip:
  assumes b: "2 \<le> unat base" "unat base \<le> 36" and fits: "unat buf + 34 < 4294967296"
  shows "\<exists>s m'. itoa val buf base m = Some m' \<and> cstr m' buf s \<and>
    (base = 10 \<longrightarrow> decimal_of s = sint val \<and> length s \<le> 11) \<and>
    (base \<noteq> 10 \<longrightarrow> num_of (unat base) s = unat val) \<and>
    (\<forall>a. a \<notin> span buf (Suc (length s)) \<longrightarrow> m' a = m a)"
proof (cases "base = 10 \<and> sint val < 0")
  case True
  let ?s = "45 # rev (digits_rev 10 (unat (- val)))"
  have len: "length (digits_rev 10 (unat (- val))) \<le> 10" by (rule digits_rev_10_length) simp
  have it: "itoa val buf base m = Some (stored buf (?s @ [0]) m)"
    using True itoa_negative [of buf val m] len fits by simp
  moreover have "cstr (stored buf (?s @ [0]) m) buf ?s"
    using digits_rev_chars [of 10] len fits by (intro cstr_stored) auto
  moreover have "decimal_of ?s = sint val"
    using True unat_minus_negative [of val] by (simp add: decimal_minus_digits)
  ultimately show ?thesis
    using True len by (intro exI [of _ ?s] exI [of _ "stored buf (?s @ [0]) m"]) (auto simp: stored_outside)
next
  case False
  let ?d = "digits_rev (unat base) (unat val)"
  let ?s = "rev ?d"
  have "unat val < unat base ^ Suc 31"
    using power_mono [of 2 "unat base" 32] b by (intro less_le_trans [OF unat_u32_less]) simp
  then have len: "length ?d \<le> 32" using digits_rev_length [of "unat base" "unat val" 31] b by simp
  then have it: "itoa val buf base m = Some (stored buf (?s @ [0]) m)"
    using False b fits by (intro itoa_stored) auto
  moreover have "cstr (stored buf (?s @ [0]) m) buf ?s"
    using digits_rev_chars [OF b(2)] len fits by (intro cstr_stored) auto
  moreover have "base = 10 \<longrightarrow> decimal_of ?s = sint val \<and> length ?s \<le> 11"
    using False digits_rev_10_length [of "unat val"] sint_eq_uint_nonneg [of val]
    by (auto simp: decimal_digits)
  moreover have "num_of (unat base) ?s = unat val" using digits_rev_num_of b by blast
  ultimately show ?thesis
    by (intro exI [of _ ?s] exI [of _ "stored buf (?s @ [0]) m"]) (auto simp: stored_outside)
qed

theorem itoa_roundtrip_witness:
  "\<exists>s m'. itoa 0x80000000 100 10 (\<lambda>_. 0) = Some m' \<and> cstr m' 100 s \<and> decimal_of s = - 2147483648"
  using itoa_roundtrip [of 10 100 "0x80000000" "\<lambda>_. 0"] by auto

end
