(* ===== verification/Vmm.thy ===== *)
theory Vmm
  imports Pmm
begin

text \<open>
  Paging, \<open>kernel/vmm.c\<close>: the page directory and its page tables live in physical memory, which is
  a store of 32-bit words by address (the kernel reaches them through the identity mapping), and the
  frames for them come from the physical memory manager. \<open>current_directory\<close>, \<open>cr3\<close> and \<open>cr0\<close> are
  fields of the state. What the page fault handler prints is in \<open>Kernel_Main\<close>; the invalidation of a TLB
  entry is not modelled.
\<close>

section \<open>State and operations\<close>

abbreviation PAGE_PRESENT :: u32 where "PAGE_PRESENT \<equiv> 1"
abbreviation PAGE_WRITABLE :: u32 where "PAGE_WRITABLE \<equiv> 2"
abbreviation PAGE_MASK :: u32 where "PAGE_MASK \<equiv> 0xFFFFF000"

record vmm =
  vmm_pmm :: pmm
  phys_mem :: "u32 \<Rightarrow> u32"
  current_directory :: u32
  cr3 :: u32
  cr0 :: u32

definition entry :: "u32 \<Rightarrow> u32 \<Rightarrow> u32" where
  "entry table i = table + 4 * i"

definition pd_index :: "u32 \<Rightarrow> u32" where "pd_index virt = drop_bit 22 virt"
definition pt_index :: "u32 \<Rightarrow> u32" where "pt_index virt = drop_bit 12 virt AND 0x3FF"

text \<open>\<open>memset(pt, 0, 4 * n)\<close>, a word at a time.\<close>

primrec zero_words :: "nat \<Rightarrow> u32 \<Rightarrow> (u32 \<Rightarrow> u32) \<Rightarrow> u32 \<Rightarrow> u32" where
  "zero_words 0 p m = m"
| "zero_words (Suc n) p m = zero_words n (p + 4) (m(p := 0))"

definition get_or_create_table :: "u32 \<Rightarrow> u32 \<Rightarrow> vmm \<Rightarrow> vmm" where
  "get_or_create_table pdi flags v =
     (let dir = current_directory v
      in if phys_mem v (entry dir pdi) AND PAGE_PRESENT = 0
         then let (pt_phys, s) = pmm_alloc_frame (vmm_pmm v);
                  m = (phys_mem v)(entry dir pdi := pt_phys OR PAGE_PRESENT OR PAGE_WRITABLE OR flags)
              in v\<lparr>vmm_pmm := s, phys_mem := zero_words 1024 pt_phys m\<rparr>
         else v)"

definition vmm_map_page :: "u32 \<Rightarrow> u32 \<Rightarrow> u32 \<Rightarrow> vmm \<Rightarrow> vmm" where
  "vmm_map_page phys virt flags v =
     (let v = get_or_create_table (pd_index virt) flags v;
          table = phys_mem v (entry (current_directory v) (pd_index virt)) AND PAGE_MASK
      in v\<lparr>phys_mem := (phys_mem v)(entry table (pt_index virt) := (phys AND PAGE_MASK) OR PAGE_PRESENT OR flags)\<rparr>)"

definition vmm_unmap_page :: "u32 \<Rightarrow> vmm \<Rightarrow> vmm" where
  "vmm_unmap_page virt v =
     (let pde = phys_mem v (entry (current_directory v) (pd_index virt))
      in if pde AND PAGE_PRESENT = 0 then v
         else v\<lparr>phys_mem := (phys_mem v)(entry (pde AND PAGE_MASK) (pt_index virt) := 0)\<rparr>)"

definition vmm_get_physical :: "u32 \<Rightarrow> vmm \<Rightarrow> u32" where
  "vmm_get_physical virt v =
     (let pde = phys_mem v (entry (current_directory v) (pd_index virt))
      in if pde AND PAGE_PRESENT = 0 then 0
         else phys_mem v (entry (pde AND PAGE_MASK) (pt_index virt)) AND PAGE_MASK)"

definition vmm_switch_directory :: "u32 \<Rightarrow> vmm \<Rightarrow> vmm" where
  "vmm_switch_directory dir v = v\<lparr>current_directory := dir, cr3 := dir\<rparr>"

text \<open>\<open>for (i = 0; i < n * PAGE_SIZE; i += PAGE_SIZE) vmm_map_page(a + i, a + i, PAGE_WRITABLE)\<close>\<close>

primrec map_identity :: "nat \<Rightarrow> u32 \<Rightarrow> vmm \<Rightarrow> vmm" where
  "map_identity 0 a v = v"
| "map_identity (Suc n) a v = map_identity n (a + PAGE_SIZE) (vmm_map_page a a PAGE_WRITABLE v)"

definition vmm_init :: "vmm \<Rightarrow> vmm" where
  "vmm_init v =
     (let (pd_phys, s) = pmm_alloc_frame (vmm_pmm v);
          v = v\<lparr>vmm_pmm := s, current_directory := pd_phys, phys_mem := zero_words 1024 pd_phys (phys_mem v)\<rparr>;
          v = map_identity 4096 0 v;
          v = map_identity 1024 0xfd000000 v;
          v = vmm_switch_directory (current_directory v) v
      in v\<lparr>cr0 := cr0 v OR 0x80000000\<rparr>)"

section \<open>Addresses and entries\<close>

abbreviation aligned :: "u32 \<Rightarrow> bool" where "aligned p \<equiv> unat p mod 4096 = 0"

lemma page_mask: "PAGE_MASK = NOT (mask 12)"
  by (simp add: mask_eq_exp_minus_1)

lemma unat_page_mask: "unat (w AND PAGE_MASK) = unat w - unat w mod 4096"
  using unat_and_not_mask [of w 12] by (simp only: page_mask) simp

lemma aligned_mask [simp]: "aligned (w AND PAGE_MASK)"
  unfolding unat_page_mask by (simp add: minus_mod_eq_mult_div)

lemma mask_aligned: "aligned p \<Longrightarrow> p AND PAGE_MASK = p"
  by (simp add: word_unat_eq_iff unat_page_mask)

lemma unat_pd_index: "unat (pd_index a) = unat a div 4194304"
  by (simp add: pd_index_def drop_bit_eq_div unat_div)

lemma unat_pt_index: "unat (pt_index a) = unat a div 4096 mod 1024"
proof -
  have "pt_index a = take_bit 10 (drop_bit 12 a)"
    by (simp add: pt_index_def take_bit_eq_mask mask_eq_exp_minus_1)
  then show ?thesis by (simp add: take_bit_eq_mod drop_bit_eq_div unat_div unat_mod)
qed

lemma index_bounds [simp]: "unat (pd_index a) < 1024" "unat (pt_index a) < 1024"
  by (simp_all add: unat_pd_index unat_pt_index less_mult_imp_div_less)

lemma same_page:
  "pd_index a = pd_index b \<and> pt_index a = pt_index b \<longleftrightarrow> unat a div 4096 = unat b div 4096"
proof -
  have "unat x div 4194304 = unat x div 4096 div 1024" for x :: u32
    by (simp add: div_mult2_eq [symmetric])
  then show ?thesis
    unfolding word_unat_eq_iff unat_pd_index unat_pt_index by (metis div_mult_mod_eq)
qed

lemma aligned_frames: "aligned p \<Longrightarrow> unat p = 4096 * (unat p div 4096)"
  by (metis add.right_neutral mult_div_mod_eq)

lemma aligned_bound: "aligned p \<Longrightarrow> unat p \<le> 4294963200"
proof -
  assume "aligned p"
  then obtain k where k: "unat p = 4096 * k" using aligned_frames by metis
  then have "k < 1048576" using unat_u32_less [of p] by linarith
  then show ?thesis using k by simp
qed

lemma unat_entry: "aligned p \<Longrightarrow> unat i < 1024 \<Longrightarrow> unat (entry p i) = unat p + 4 * unat i"
proof -
  assume p: "aligned p" and i: "unat i < 1024"
  have m: "unat (4 * i) = 4 * unat i" using i by (subst unat_mult_u32) simp_all
  have "unat p + unat (4 * i) < 4294967296" using aligned_bound [OF p] i m by linarith
  then show ?thesis unfolding entry_def using m by (subst unat_add_u32) simp_all
qed

lemma entry_eq_iff:
  assumes "aligned p" "aligned q" "unat i < 1024" "unat j < 1024"
  shows "entry p i = entry q j \<longleftrightarrow> p = q \<and> i = j"
proof
  assume "entry p i = entry q j"
  then have e: "unat p + 4 * unat i = unat q + 4 * unat j" using assms unat_entry by metis
  obtain k l where kl: "unat p = 4096 * k" "unat q = 4096 * l" using assms aligned_frames by metis
  then have "k = l" using e assms by linarith
  then show "p = q \<and> i = j" using e kl by (simp add: word_unat_eq_iff)
qed simp

lemma zero_words_other: "(\<And>k. k < n \<Longrightarrow> a \<noteq> p + 4 * of_nat k) \<Longrightarrow> zero_words n p m a = m a"
proof (induction n arbitrary: p m)
  case (Suc n)
  have "a \<noteq> p" using Suc.prems [of 0] by simp
  moreover have "a \<noteq> p + 4 + 4 * of_nat k" if "k < n" for k
    using Suc.prems [of "Suc k"] that by (simp add: algebra_simps)
  ultimately show ?case using Suc.IH by simp
qed simp

lemma zero_words_keeps: "m a = 0 \<Longrightarrow> zero_words n p m a = 0"
  by (induction n arbitrary: p m) auto

lemma zero_words_in: "k < n \<Longrightarrow> zero_words n p m (p + 4 * of_nat k) = 0"
proof (induction n arbitrary: p m k)
  case (Suc n)
  show ?case
  proof (cases k)
    case 0
    then show ?thesis using zero_words_keeps by simp
  next
    case (Suc j)
    then show ?thesis using Suc.IH [of j "p + 4"] Suc.prems by (simp add: algebra_simps)
  qed
qed simp

lemma zero_page_entry:
  assumes "aligned p" "aligned q" "unat i < 1024"
  shows "zero_words 1024 p m (entry q i) = (if q = p then 0 else m (entry q i))"
proof (cases "q = p")
  case True
  then show ?thesis using zero_words_in [of "unat i" 1024 p m] assms by (simp add: entry_def)
next
  case False
  have "entry q i \<noteq> p + 4 * of_nat k" if "k < 1024" for k
    using entry_eq_iff [of q p i "of_nat k"] False assms that by (simp add: entry_def unat_of_nat_u32)
  then show ?thesis using False zero_words_other by simp
qed


section \<open>Invariant\<close>

text \<open>
  The tables the directory refers to: \<open>pd_table v i\<close> is the table of directory slot \<open>i\<close>. \<open>vmm_ok\<close>: the
  directory and its tables are distinct page-aligned frames that the frame allocator counts as used,
  so that the allocator never hands one of them out again.
\<close>

definition pde :: "vmm \<Rightarrow> u32 \<Rightarrow> u32" where
  "pde v i = phys_mem v (entry (current_directory v) i)"

definition pd_present :: "vmm \<Rightarrow> u32 \<Rightarrow> bool" where
  "pd_present v i \<longleftrightarrow> pde v i AND PAGE_PRESENT \<noteq> 0"

definition pd_table :: "vmm \<Rightarrow> u32 \<Rightarrow> u32" where
  "pd_table v i = pde v i AND PAGE_MASK"

definition used_page :: "vmm \<Rightarrow> u32 \<Rightarrow> bool" where
  "used_page v p \<longleftrightarrow> aligned p \<and> frame_used (vmm_pmm v) (unat p div 4096)"

definition vmm_ok :: "vmm \<Rightarrow> bool" where
  "vmm_ok v \<longleftrightarrow> pmm_ok (vmm_pmm v) \<and> used_page v (current_directory v) \<and>
     (\<forall>i. unat i < 1024 \<and> pd_present v i \<longrightarrow>
        used_page v (pd_table v i) \<and> pd_table v i \<noteq> current_directory v \<and>
        (\<forall>j. unat j < 1024 \<and> pd_present v j \<and> pd_table v j = pd_table v i \<longrightarrow> j = i))"

definition page_entry :: "vmm \<Rightarrow> u32 \<Rightarrow> u32 \<Rightarrow> u32" where
  "page_entry v i j = phys_mem v (entry (pd_table v i) j)"

lemma vmm_get_physical_eq:
  "vmm_get_physical a v =
     (if pd_present v (pd_index a) then page_entry v (pd_index a) (pt_index a) AND PAGE_MASK else 0)"
  by (simp add: vmm_get_physical_def pd_present_def pd_table_def pde_def page_entry_def Let_def)

text \<open>The entry of the page table for an address, and its page frame.\<close>

definition vmm_entry :: "u32 \<Rightarrow> vmm \<Rightarrow> u32" where
  "vmm_entry a v = (if pd_present v (pd_index a) then page_entry v (pd_index a) (pt_index a) else 0)"

lemma vmm_get_physical_entry: "vmm_get_physical a v = vmm_entry a v AND PAGE_MASK"
  by (simp add: vmm_get_physical_eq vmm_entry_def)

lemma pde_flags:
  "((pt OR PAGE_PRESENT OR PAGE_WRITABLE OR flags) AND PAGE_PRESENT) \<noteq> 0"
  "aligned pt \<Longrightarrow> flags AND PAGE_MASK = 0 \<Longrightarrow> (pt OR PAGE_PRESENT OR PAGE_WRITABLE OR flags) AND PAGE_MASK = pt"
proof -
  have "bit ((pt OR PAGE_PRESENT OR PAGE_WRITABLE OR flags) AND PAGE_PRESENT) 0"
    by (simp add: bit_and_iff bit_or_iff)
  then show "((pt OR PAGE_PRESENT OR PAGE_WRITABLE OR flags) AND PAGE_PRESENT) \<noteq> 0" by auto
  assume "aligned pt" "flags AND PAGE_MASK = 0"
  moreover have "PAGE_PRESENT AND PAGE_MASK = 0" "PAGE_WRITABLE AND PAGE_MASK = 0" by simp_all
  ultimately show "(pt OR PAGE_PRESENT OR PAGE_WRITABLE OR flags) AND PAGE_MASK = pt"
    by (simp add: bit.conj_disj_distrib2 mask_aligned)
qed

lemma pte_flags:
  "flags AND PAGE_MASK = 0 \<Longrightarrow> ((phys AND PAGE_MASK) OR PAGE_PRESENT OR flags) AND PAGE_MASK = phys AND PAGE_MASK"
  by (simp add: bit.conj_disj_distrib2 and.assoc)

text \<open>What getting or creating a table changes.\<close>

lemma get_or_create_present:
  "pd_present v i \<Longrightarrow> get_or_create_table i flags v = v"
  by (simp add: get_or_create_table_def pd_present_def pde_def)

lemma get_or_create_absent:
  assumes ok: "vmm_ok v" and abs: "\<not> pd_present v i" and i: "unat i < 1024"
    and mem: "fst (pmm_alloc_frame (vmm_pmm v)) \<noteq> 0" and fl: "flags AND PAGE_MASK = 0"
  defines "v' \<equiv> get_or_create_table i flags v" and "p \<equiv> fst (pmm_alloc_frame (vmm_pmm v))"
  shows "vmm_pmm v' = snd (pmm_alloc_frame (vmm_pmm v))" "current_directory v' = current_directory v"
    "pd_present v' i" "pd_table v' i = p"
    "unat j < 1024 \<Longrightarrow> j \<noteq> i \<Longrightarrow> pde v' j = pde v j"
    "unat k < 1024 \<Longrightarrow> page_entry v' i k = 0"
    "unat j < 1024 \<Longrightarrow> j \<noteq> i \<Longrightarrow> pd_present v j \<Longrightarrow> unat k < 1024 \<Longrightarrow> page_entry v' j k = page_entry v j k"
    "vmm_ok v'"
proof -
  let ?dir = "current_directory v"
  have pok: "pmm_ok (vmm_pmm v)" and dir: "used_page v ?dir" using ok by (auto simp: vmm_ok_def)
  have p: "aligned p" "\<not> frame_used (vmm_pmm v) (unat p div 4096)"
    "frame_used (snd (pmm_alloc_frame (vmm_pmm v))) = (frame_used (vmm_pmm v))(unat p div 4096 := True)"
    using pmm.alloc_aligned [OF pok] pmm.alloc_fresh [OF pok mem] pmm.alloc_marks [OF pok mem]
    by (simp_all add: p_def)
  have pd: "p \<noteq> ?dir" using p(2) dir by (auto simp: used_page_def)
  have mem': "phys_mem v' = zero_words 1024 p ((phys_mem v)(entry ?dir i := p OR PAGE_PRESENT OR PAGE_WRITABLE OR flags))"
    and d': "current_directory v' = ?dir" and s': "vmm_pmm v' = snd (pmm_alloc_frame (vmm_pmm v))"
    using abs by (simp_all add: v'_def p_def get_or_create_table_def pd_present_def pde_def Let_def split_beta)
  show "vmm_pmm v' = snd (pmm_alloc_frame (vmm_pmm v))" "current_directory v' = ?dir"
    using s' d' by simp_all
  have ent: "pde v' j = (if j = i then p OR PAGE_PRESENT OR PAGE_WRITABLE OR flags else pde v j)"
    if "unat j < 1024" for j
    using that dir i p pd
    by (simp add: pde_def mem' d' zero_page_entry entry_eq_iff used_page_def)
  show "pd_present v' i" "pd_table v' i = p"
    using ent [OF i] pde_flags p fl by (simp_all add: pd_present_def pd_table_def)
  then show "unat k < 1024 \<Longrightarrow> page_entry v' i k = 0"
    by (simp add: page_entry_def mem' zero_page_entry p)
  show "unat j < 1024 \<Longrightarrow> j \<noteq> i \<Longrightarrow> pde v' j = pde v j" using ent by simp
  then have other: "pd_present v' j = pd_present v j" "pd_table v' j = pd_table v j"
    if "unat j < 1024" "j \<noteq> i" for j
    using that ent by (simp_all add: pd_present_def pd_table_def)
  have tab: "used_page v (pd_table v j)" "pd_table v j \<noteq> ?dir" "pd_table v j \<noteq> p"
    if "unat j < 1024" "pd_present v j" for j
    using ok that p(2) by (auto simp: vmm_ok_def used_page_def)
  show "page_entry v' j k = page_entry v j k"
    if "unat j < 1024" "j \<noteq> i" "pd_present v j" "unat k < 1024"
    using tab [of j] that other p dir i
    by (simp add: page_entry_def mem' zero_page_entry used_page_def entry_eq_iff)
  have used': "used_page v' q \<longleftrightarrow> q = p \<or> used_page v q" if "aligned q" for q
    using that p aligned_frames [of q] aligned_frames [of p]
    by (auto simp: used_page_def s' word_unat_eq_iff)
  show "vmm_ok v'"
    unfolding vmm_ok_def
  proof (intro conjI allI impI)
    show "pmm_ok (vmm_pmm v')" using pok by (simp add: s' pmm_alloc_frame_ok)
    show "used_page v' (current_directory v')" using dir d' used' by (auto simp: used_page_def)
    fix j assume j: "unat j < 1024 \<and> pd_present v' j"
    show "used_page v' (pd_table v' j)" "pd_table v' j \<noteq> current_directory v'"
      using j tab [of j] other [of j] \<open>pd_table v' i = p\<close> p pd d' used'
      by (cases "j = i"; auto simp: used_page_def)+
    fix l assume l: "unat l < 1024 \<and> pd_present v' l \<and> pd_table v' l = pd_table v' j"
    show "l = j"
    proof (cases "l = i \<or> j = i")
      case True
      then show ?thesis using j l tab [of j] tab [of l] other [of j] other [of l] \<open>pd_table v' i = p\<close> by metis
    next
      case False
      then show ?thesis using ok j l other [of j] other [of l] unfolding vmm_ok_def by metis
    qed
  qed
qed

lemma vmm_ok_cong:
  assumes "vmm_pmm v' = vmm_pmm v" "current_directory v' = current_directory v"
    and "\<And>j. unat j < 1024 \<Longrightarrow> pde v' j = pde v j"
  shows "vmm_ok v' \<longleftrightarrow> vmm_ok v"
proof -
  have "used_page v' = used_page v" using assms by (simp add: used_page_def fun_eq_iff)
  moreover have "pd_present v' j = pd_present v j" "pd_table v' j = pd_table v j" if "unat j < 1024" for j
    using assms(3) [OF that] by (simp_all add: pd_present_def pd_table_def)
  ultimately show ?thesis using assms(1,2) by (simp add: vmm_ok_def cong: conj_cong)
qed

text \<open>Writing an entry of a table of the directory.\<close>

lemma table_write:
  fixes x :: u32
  assumes ok: "vmm_ok v" and i: "unat i < 1024" "pd_present v i" and k: "unat k < 1024"
  defines "v' \<equiv> v\<lparr>phys_mem := (phys_mem v)(entry (pd_table v i) k := x)\<rparr>"
  shows "vmm_ok v'" "unat j < 1024 \<Longrightarrow> pde v' j = pde v j"
    "unat j < 1024 \<Longrightarrow> pd_present v j \<Longrightarrow> unat l < 1024 \<Longrightarrow>
      page_entry v' j l = (if j = i \<and> l = k then x else page_entry v j l)"
proof -
  have tab: "used_page v (pd_table v j)" "pd_table v j \<noteq> current_directory v"
    "pd_table v j = pd_table v i \<Longrightarrow> j = i" if "unat j < 1024" "pd_present v j" for j
    using ok that i unfolding vmm_ok_def by blast+
  have dir: "used_page v (current_directory v)" using ok by (simp add: vmm_ok_def)
  have pde: "pde v' j = pde v j" if "unat j < 1024" for j
    using that tab [OF i] dir i k by (simp add: pde_def v'_def entry_eq_iff used_page_def)
  then show "unat j < 1024 \<Longrightarrow> pde v' j = pde v j" by simp
  have eq: "pd_present v' j = pd_present v j" "pd_table v' j = pd_table v j" if "unat j < 1024" for j
    using pde that by (simp_all add: pd_present_def pd_table_def)
  have same: "vmm_pmm v' = vmm_pmm v" "current_directory v' = current_directory v" by (simp_all add: v'_def)
  with pde show "vmm_ok v'" using ok vmm_ok_cong by blast
  show "page_entry v' j l = (if j = i \<and> l = k then x else page_entry v j l)"
    if "unat j < 1024" "pd_present v j" "unat l < 1024"
    using that tab [OF that(1,2)] tab [OF i] eq i k
    by (auto simp: page_entry_def v'_def entry_eq_iff used_page_def)
qed

definition can_map :: "vmm \<Rightarrow> u32 \<Rightarrow> bool" where
  "can_map v virt \<longleftrightarrow> pd_present v (pd_index virt) \<or> fst (pmm_alloc_frame (vmm_pmm v)) \<noteq> 0"

lemma vmm_map_page_props:
  fixes phys :: u32
  assumes ok: "vmm_ok v" and can: "can_map v virt" and fl: "flags AND PAGE_MASK = 0"
  defines "v' \<equiv> vmm_map_page phys virt flags v"
  shows "vmm_ok v'" "current_directory v' = current_directory v"
    "vmm_pmm v' = (if pd_present v (pd_index virt) then vmm_pmm v else snd (pmm_alloc_frame (vmm_pmm v)))"
    "unat j < 1024 \<Longrightarrow> pd_present v' j \<longleftrightarrow> j = pd_index virt \<or> pd_present v j"
    "vmm_get_physical w v' =
      (if unat w div 4096 = unat virt div 4096 then phys AND PAGE_MASK else vmm_get_physical w v)"
    "vmm_entry w v' =
      (if unat w div 4096 = unat virt div 4096 then (phys AND PAGE_MASK) OR PAGE_PRESENT OR flags else vmm_entry w v)"
proof -
  let ?i = "pd_index virt" and ?k = "pt_index virt"
  let ?x = "(phys AND PAGE_MASK) OR PAGE_PRESENT OR flags"
  define u where "u = get_or_create_table ?i flags v"
  have u: "vmm_ok u" "current_directory u = current_directory v" "pd_present u ?i"
    and up: "vmm_pmm u = (if pd_present v ?i then vmm_pmm v else snd (pmm_alloc_frame (vmm_pmm v)))"
    and upres: "\<And>j. unat j < 1024 \<Longrightarrow> pd_present u j \<longleftrightarrow> j = ?i \<or> pd_present v j"
    and uphys: "\<And>a. unat a div 4096 \<noteq> unat virt div 4096 \<Longrightarrow> vmm_entry a u = vmm_entry a v"
  proof -
    have "vmm_ok u \<and> current_directory u = current_directory v \<and> pd_present u ?i \<and>
      vmm_pmm u = (if pd_present v ?i then vmm_pmm v else snd (pmm_alloc_frame (vmm_pmm v))) \<and>
      (\<forall>j. unat j < 1024 \<longrightarrow> pd_present u j = (j = ?i \<or> pd_present v j)) \<and>
      (\<forall>a. unat a div 4096 \<noteq> unat virt div 4096 \<longrightarrow> vmm_entry a u = vmm_entry a v)"
    proof (cases "pd_present v ?i")
      case True
      then show ?thesis using ok by (auto simp: u_def get_or_create_present)
    next
      case False
      have mem: "fst (pmm_alloc_frame (vmm_pmm v)) \<noteq> 0" using can False by (simp add: can_map_def)
      note g = get_or_create_absent [OF ok False index_bounds(1) mem fl, folded u_def]
      have pres: "pd_present u j = (j = ?i \<or> pd_present v j)" if "unat j < 1024" for j
        using g(3) g(5) [OF that] by (cases "j = ?i") (simp_all add: pd_present_def)
      moreover have "vmm_entry a u = vmm_entry a v" for a
      proof (cases "pd_index a = ?i")
        case True
        then show ?thesis using False g(6) [OF index_bounds(2)] g(3) by (simp add: vmm_entry_def)
      next
        case ne: False
        then show ?thesis using pres [of "pd_index a"] g(7) [OF index_bounds(1) ne _ index_bounds(2)]
          by (simp add: vmm_entry_def)
      qed
      ultimately show ?thesis using False g(1-4,8) by simp
    qed
    then show "vmm_ok u" "current_directory u = current_directory v" "pd_present u ?i"
      "vmm_pmm u = (if pd_present v ?i then vmm_pmm v else snd (pmm_alloc_frame (vmm_pmm v)))"
      "\<And>j. unat j < 1024 \<Longrightarrow> pd_present u j \<longleftrightarrow> j = ?i \<or> pd_present v j"
      "\<And>a. unat a div 4096 \<noteq> unat virt div 4096 \<Longrightarrow> vmm_entry a u = vmm_entry a v"
      by blast+
  qed
  have v': "v' = u\<lparr>phys_mem := (phys_mem u)(entry (pd_table u ?i) ?k := ?x)\<rparr>"
    by (simp add: v'_def vmm_map_page_def u_def pd_table_def pde_def Let_def)
  note t = table_write [OF u(1) index_bounds(1) u(3) index_bounds(2) [of virt], where x = ?x, folded v']
  show "vmm_ok v'" by (rule t(1))
  show "current_directory v' = current_directory v" using u(2) by (simp add: v')
  show "vmm_pmm v' = (if pd_present v ?i then vmm_pmm v else snd (pmm_alloc_frame (vmm_pmm v)))"
    using up by (simp add: v')
  have pres: "pd_present v' j = pd_present u j" if "unat j < 1024" for j
    using t(2) [OF that] by (simp add: pd_present_def)
  show "unat j < 1024 \<Longrightarrow> pd_present v' j \<longleftrightarrow> j = ?i \<or> pd_present v j" using pres upres by simp
  show ent: "vmm_entry w v' = (if unat w div 4096 = unat virt div 4096 then ?x else vmm_entry w v)" for w
  proof (cases "pd_present u (pd_index w)")
    case True
    then have "page_entry v' (pd_index w) (pt_index w) =
        (if unat w div 4096 = unat virt div 4096 then ?x else page_entry u (pd_index w) (pt_index w))"
      using t(3) [OF index_bounds(1) True index_bounds(2)] same_page [of w virt] by simp
    then show ?thesis
      using True pres [OF index_bounds(1)] uphys [of w] by (auto simp: vmm_entry_def)
  next
    case False
    then have "unat w div 4096 \<noteq> unat virt div 4096" using u(3) same_page [of w virt] by metis
    then show ?thesis using False pres [OF index_bounds(1), of w] uphys [of w] by (simp add: vmm_entry_def)
  qed
  show "vmm_get_physical w v' =
      (if unat w div 4096 = unat virt div 4096 then phys AND PAGE_MASK else vmm_get_physical w v)"
    using ent pte_flags [OF fl] by (simp add: vmm_get_physical_entry)
qed

lemma vmm_unmap_page_props:
  assumes ok: "vmm_ok v"
  shows "vmm_ok (vmm_unmap_page virt v)"
    "vmm_get_physical w (vmm_unmap_page virt v) =
      (if unat w div 4096 = unat virt div 4096 then 0 else vmm_get_physical w v)"
proof -
  let ?i = "pd_index virt" and ?k = "pt_index virt" and ?v' = "vmm_unmap_page virt v"
  have "vmm_ok ?v' \<and> vmm_get_physical w ?v' =
      (if unat w div 4096 = unat virt div 4096 then 0 else vmm_get_physical w v)"
  proof (cases "pd_present v ?i")
    case False
    then have "?v' = v" by (simp add: vmm_unmap_page_def pd_present_def pde_def Let_def)
    moreover have "vmm_get_physical w v = 0" if "unat w div 4096 = unat virt div 4096"
    proof -
      have "pd_index w = ?i" using that same_page [of w virt] by blast
      then show ?thesis using False by (simp add: vmm_get_physical_eq)
    qed
    ultimately show ?thesis using ok by simp
  next
    case True
    then have v': "?v' = v\<lparr>phys_mem := (phys_mem v)(entry (pd_table v ?i) ?k := 0)\<rparr>"
      by (simp add: vmm_unmap_page_def pd_present_def pd_table_def pde_def Let_def)
    note t = table_write [OF ok index_bounds(1) True index_bounds(2) [of virt], where x = 0, folded v']
    have pres: "pd_present ?v' (pd_index w) = pd_present v (pd_index w)"
      using t(2) [OF index_bounds(1)] by (simp add: pd_present_def)
    show ?thesis
    proof (cases "pd_present v (pd_index w)")
      case pw: True
      then show ?thesis
        using pres t(1) t(3) [OF index_bounds(1) pw index_bounds(2)] same_page [of w virt]
        by (auto simp: vmm_get_physical_eq)
    next
      case False
      then have "unat w div 4096 \<noteq> unat virt div 4096" using True same_page [of w virt] by metis
      then show ?thesis using pres False t(1) by (simp add: vmm_get_physical_eq)
    qed
  qed
  then show "vmm_ok ?v'" "vmm_get_physical w ?v' =
      (if unat w div 4096 = unat virt div 4096 then 0 else vmm_get_physical w v)" by simp_all
qed

section \<open>The initial mapping\<close>

text \<open>The frames the allocator can still hand out.\<close>

definition avail :: "pmm \<Rightarrow> nat set" where
  "avail s = {f. f < scanned_frames s \<and> \<not> frame_used s f}"

lemma avail_alloc:
  assumes ok: "pmm_ok s" and a: "avail s \<noteq> {}"
  shows "fst (pmm_alloc_frame s) \<noteq> 0" "Suc (card (avail (snd (pmm_alloc_frame s)))) = card (avail s)"
proof -
  have fin: "finite (avail s)" by (simp add: avail_def)
  have "fst (pmm_alloc_frame s) \<noteq> 0 \<and> Suc (card (avail (snd (pmm_alloc_frame s)))) = card (avail s)"
    using ok
  proof (cases rule: pmm_alloc_frame_cases)
    case none
    then show ?thesis using a by (auto simp: avail_def)
  next
    case (some f)
    have "avail (snd (pmm_alloc_frame s)) = avail s - {f}"
      using some by (auto simp: avail_def scanned_frames_def unat_of_nat_u32)
    moreover have "f \<in> avail s" using some by (simp add: avail_def)
    moreover have "0 < card (avail s)" using a fin by (simp add: card_gt_0_iff)
    ultimately show ?thesis using some(2,3,6) by (simp add: frame_addr_neq_0 mult.commute)
  qed
  then show "fst (pmm_alloc_frame s) \<noteq> 0" "Suc (card (avail (snd (pmm_alloc_frame s)))) = card (avail s)"
    by simp_all
qed

text \<open>The directory slots that mapping \<open>n\<close> pages from \<open>a\<close> on has to fill.\<close>

definition touched :: "nat \<Rightarrow> u32 \<Rightarrow> u32 set" where
  "touched n a = (\<lambda>k. pd_index (a + 4096 * of_nat k)) ` {..<n}"

definition missing :: "vmm \<Rightarrow> nat \<Rightarrow> u32 \<Rightarrow> u32 set" where
  "missing v n a = {i \<in> touched n a. \<not> pd_present v i}"

lemma touched_Suc: "touched (Suc n) a = insert (pd_index a) (touched n (a + 4096))"
  by (auto simp: touched_def lessThan_Suc_eq_insert_0 image_image algebra_simps)

lemma finite_missing [simp]: "finite (missing v n a)"
  by (simp add: missing_def touched_def)

lemma touched_bound: "i \<in> touched n a \<Longrightarrow> unat i < 1024"
  by (auto simp: touched_def)

lemma missing_bound:
  assumes "unat a + 4096 * n \<le> 4194304 * l" "4194304 * k \<le> unat a" "l \<le> 1024"
  shows "card (missing v n a) \<le> l - k"
proof -
  have "unat ` touched n a \<subseteq> {k ..< l}"
  proof
    fix i assume "i \<in> unat ` touched n a"
    then obtain j where j: "j < n" "i = unat (pd_index (a + 4096 * of_nat j))" by (auto simp: touched_def)
    have "unat a + 4096 * j < 4294967296" using j(1) assms by linarith
    moreover from this have "unat (4096 * of_nat j :: u32) = 4096 * j"
      by (subst unat_mult_u32) (simp_all add: unat_of_nat_u32)
    ultimately have "unat (a + 4096 * of_nat j) = unat a + 4096 * j" by (simp add: unat_add_u32)
    moreover have "unat a + 4096 * j < 4194304 * l" using j(1) assms by linarith
    ultimately show "i \<in> {k ..< l}"
      using assms j(2) by (auto simp: unat_pd_index less_mult_imp_div_less less_eq_div_iff_mult_less_eq mult.commute)
  qed
  then have "card (unat ` touched n a) \<le> l - k" using card_mono [of "{k ..< l}"] by fastforce
  moreover have "card (unat ` touched n a) = card (touched n a)"
    by (intro card_image inj_onI) (simp add: word_unat_eq_iff)
  moreover have "card (missing v n a) \<le> card (touched n a)"
    by (intro card_mono) (auto simp: missing_def touched_def)
  ultimately show ?thesis by linarith
qed

lemma map_identity_props:
  assumes "vmm_ok v" "aligned a" "unat a + 4096 * n \<le> 4294967296"
    and "card (missing v n a) \<le> card (avail (vmm_pmm v))"
  shows "vmm_ok (map_identity n a v) \<and> current_directory (map_identity n a v) = current_directory v \<and>
    card (avail (vmm_pmm v)) \<le> card (avail (vmm_pmm (map_identity n a v))) + card (missing v n a) \<and>
    (\<forall>w. vmm_get_physical w (map_identity n a v) =
      (if unat a \<le> unat w \<and> unat w < unat a + 4096 * n then w AND PAGE_MASK else vmm_get_physical w v))"
  using assms
proof (induction n arbitrary: a v)
  case (Suc n)
  let ?v = "vmm_map_page a a PAGE_WRITABLE v" and ?i = "pd_index a"
  have pok: "pmm_ok (vmm_pmm v)" using Suc.prems(1) by (simp add: vmm_ok_def)
  have i: "?i \<in> missing v (Suc n) a" if "\<not> pd_present v ?i"
    using that by (simp add: missing_def touched_Suc)
  have av: "avail (vmm_pmm v) \<noteq> {}" if "\<not> pd_present v ?i"
  proof -
    have "card (missing v (Suc n) a) \<noteq> 0" using i [OF that] by (simp add: card_eq_0_iff) blast
    then show ?thesis using Suc.prems(4) by (metis card.empty le_zero_eq)
  qed
  have can: "can_map v a" using av avail_alloc(1) [OF pok] by (auto simp: can_map_def)
  note m = vmm_map_page_props [OF Suc.prems(1) can, where flags = PAGE_WRITABLE and phys = a, simplified]
  have sub: "missing ?v n (a + 4096) \<subseteq> missing v (Suc n) a - {?i}"
    using m(4) touched_bound by (auto simp: missing_def touched_Suc)
  have le: "card (missing ?v n (a + 4096)) + card (avail (vmm_pmm v)) \<le>
      card (missing v (Suc n) a) + card (avail (vmm_pmm ?v))"
  proof (cases "pd_present v ?i")
    case True
    have "card (missing ?v n (a + 4096)) \<le> card (missing v (Suc n) a)"
      using sub by (intro card_mono) auto
    then show ?thesis using m(3) True by simp
  next
    case False
    have "card (missing ?v n (a + 4096)) \<le> card (missing v (Suc n) a - {?i})"
      using sub by (intro card_mono) auto
    then have "Suc (card (missing ?v n (a + 4096))) \<le> card (missing v (Suc n) a)"
      using i [OF False] by (metis card_Suc_Diff1 finite_missing Suc_le_mono)
    then show ?thesis using m(3) False avail_alloc(2) [OF pok av [OF False]] by simp
  qed
  have same: "unat w div 4096 = unat a div 4096 \<longleftrightarrow> unat a \<le> unat w \<and> unat w < unat a + 4096" for w
  proof -
    obtain k where k: "unat a = 4096 * k" using Suc.prems(2) aligned_frames by blast
    show ?thesis unfolding k by (auto simp: div_nat_eqI intro: div_nat_eqI)
  qed
  have pg: "w AND PAGE_MASK = a AND PAGE_MASK" if "unat w div 4096 = unat a div 4096" for w
    using that by (simp add: word_unat_eq_iff unat_page_mask minus_mod_eq_mult_div)
  have phys: "vmm_get_physical w ?v =
      (if unat a \<le> unat w \<and> unat w < unat a + 4096 then w AND PAGE_MASK else vmm_get_physical w v)" for w
    using m(5) [of w] same [of w] pg [of w] by simp
  show ?case
  proof (cases "n = 0")
    case True
    have "card (avail (vmm_pmm v)) \<le> card (avail (vmm_pmm ?v)) + card (missing v (Suc n) a)"
      using le by linarith
    then show ?thesis unfolding True using m(1,2) by (simp add: phys)
  next
    case False
    then have a': "unat (a + 4096) = unat a + 4096"
      using Suc.prems(3) by (subst unat_add_u32) simp_all
    have ih: "vmm_ok (map_identity n (a + 4096) ?v) \<and>
      current_directory (map_identity n (a + 4096) ?v) = current_directory ?v \<and>
      card (avail (vmm_pmm ?v)) \<le> card (avail (vmm_pmm (map_identity n (a + 4096) ?v))) + card (missing ?v n (a + 4096)) \<and>
      (\<forall>w. vmm_get_physical w (map_identity n (a + 4096) ?v) =
        (if unat (a + 4096) \<le> unat w \<and> unat w < unat (a + 4096) + 4096 * n
         then w AND PAGE_MASK else vmm_get_physical w ?v))"
      by (rule Suc.IH) (use m(1) Suc.prems a' le in auto)
    have c: "card (avail (vmm_pmm v)) \<le>
        card (avail (vmm_pmm (map_identity n (a + 4096) ?v))) + card (missing v (Suc n) a)"
      using le ih by linarith
    have "vmm_get_physical w (map_identity n (a + 4096) ?v) =
        (if unat a \<le> unat w \<and> unat w < unat a + 4096 * Suc n then w AND PAGE_MASK else vmm_get_physical w v)" for w
      using ih phys [of w] a' by auto
    then show ?thesis using c ih m(2) by simp
  qed
qed auto

lemma vmm_init_props:
  assumes ok: "pmm_ok (vmm_pmm v)" and av: "6 \<le> card (avail (vmm_pmm v))"
  shows "vmm_ok (vmm_init v) \<and> cr3 (vmm_init v) = current_directory (vmm_init v) \<and> bit (cr0 (vmm_init v)) 31 \<and>
    vmm_get_physical w (vmm_init v) =
      (if unat w < 0x1000000 \<or> 0xfd000000 \<le> unat w \<and> unat w < 0xfd400000 then w AND PAGE_MASK else 0)"
proof -
  let ?p = "fst (pmm_alloc_frame (vmm_pmm v))" and ?s = "snd (pmm_alloc_frame (vmm_pmm v))"
  define v0 where "v0 = v\<lparr>vmm_pmm := ?s, current_directory := ?p, phys_mem := zero_words 1024 ?p (phys_mem v)\<rparr>"
  define v1 where "v1 = map_identity 4096 0 v0"
  define v2 where "v2 = map_identity 1024 0xfd000000 v1"
  have ne: "avail (vmm_pmm v) \<noteq> {}" using av by auto
  have p: "aligned ?p" "frame_used ?s (unat ?p div 4096)" "5 \<le> card (avail ?s)"
    using pmm.alloc_aligned [OF ok] pmm.alloc_marks [OF ok] avail_alloc [OF ok ne] av by auto
  have abs: "\<not> pd_present v0 i" if "unat i < 1024" for i
    using that p by (simp add: v0_def pd_present_def pde_def zero_page_entry)
  then have ok0: "vmm_ok v0"
    using ok p pmm_alloc_frame_ok by (auto simp: vmm_ok_def used_page_def v0_def)
  have phys0: "vmm_get_physical a v0 = 0" for a using abs by (simp add: vmm_get_physical_eq)
  have "card (missing v0 4096 0) \<le> 4" using missing_bound [of 0 4096 4 0 v0] by simp
  then have 1: "vmm_ok v1 \<and> current_directory v1 = current_directory v0 \<and> 1 \<le> card (avail (vmm_pmm v1)) \<and>
    (\<forall>a. vmm_get_physical a v1 = (if unat a < 0x1000000 then a AND PAGE_MASK else 0))"
    using map_identity_props [OF ok0, of 0 4096] p(3) phys0 unfolding v1_def by (auto simp: v0_def)
  have "card (missing v1 1024 0xfd000000) \<le> 1" using missing_bound [of "0xfd000000" 1024 1013 1012 v1] by simp
  then have 2: "vmm_ok v2 \<and> current_directory v2 = current_directory v1 \<and>
    (\<forall>a. vmm_get_physical a v2 =
      (if 0xfd000000 \<le> unat a \<and> unat a < 0xfd400000 then a AND PAGE_MASK else vmm_get_physical a v1))"
    using map_identity_props [of v1 "0xfd000000" 1024] 1 unfolding v2_def by auto
  have e: "vmm_init v = v2\<lparr>cr3 := current_directory v2, cr0 := cr0 v2 OR 0x80000000\<rparr>"
    by (simp add: vmm_init_def vmm_switch_directory_def Let_def split_beta v0_def v1_def v2_def)
  have pde: "pde (vmm_init v) = pde v2" by (simp add: e pde_def fun_eq_iff)
  then have "vmm_ok (vmm_init v)" using 2 vmm_ok_cong [of "vmm_init v" v2] by (simp add: e)
  moreover have "vmm_get_physical w (vmm_init v) = vmm_get_physical w v2"
    by (simp add: e vmm_get_physical_def Let_def)
  moreover have "bit (0x80000000 :: u32) 31" using bit_exp_u32 [of 31 31] by simp
  then have "bit (cr0 (vmm_init v)) 31" by (simp add: e bit_or_iff)
  moreover have "cr3 (vmm_init v) = current_directory (vmm_init v)" by (simp add: e)
  moreover have "vmm_get_physical w v2 =
      (if unat w < 0x1000000 \<or> 0xfd000000 \<le> unat w \<and> unat w < 0xfd400000 then w AND PAGE_MASK else 0)"
    using 1 2 by auto
  ultimately show ?thesis by simp
qed

section \<open>Properties\<close>


text \<open>
  Unmapping a page clears the translation of exactly that page, whether it was mapped or not, and
  keeps the invariant; with the mapping property, mapping and unmapping cancel out for every other
  address.
\<close>
theorem vmm_unmap_exact:
  assumes "vmm_ok v"
  shows "vmm_ok (vmm_unmap_page virt v) \<and>
    vmm_get_physical w (vmm_unmap_page virt v) =
      (if unat w div 4096 = unat virt div 4096 then 0 else vmm_get_physical w v)"
  using vmm_unmap_page_props [OF assms] by blast

text \<open>
  \<open>vmm_map_page\<close> does not check that it got a frame for a new page table. Once the frame allocator
  is exhausted, mappings in directory slots without a table share a table at physical address 0: the
  second mapping replaces the first one, so the first page silently translates to the frame of the
  second, and the physical page 0 is overwritten.
\<close>
theorem vmm_map_oom_aliases:
  assumes mem: "fst (pmm_alloc_frame (vmm_pmm v)) = 0" "pmm_ok (vmm_pmm v)"
    and dir: "aligned (current_directory v)" "current_directory v \<noteq> 0"
    and absent: "\<not> pd_present v (pd_index a)" "\<not> pd_present v (pd_index b)"
    and ab: "pd_index a \<noteq> pd_index b" "pt_index a = pt_index b" and fl: "flags AND PAGE_MASK = 0"
  shows "let v' = vmm_map_page q b flags (vmm_map_page p a flags v)
    in vmm_get_physical a v' = q AND PAGE_MASK \<and> phys_mem v' (entry 0 (pt_index a)) \<noteq> 0"
proof -
  define v' where "v' = vmm_map_page q b flags (vmm_map_page p a flags v)"
  let ?dir = "current_directory v" and ?x = "PAGE_PRESENT OR PAGE_WRITABLE OR flags"
  have al: "pmm_alloc_frame (vmm_pmm v) = (0, vmm_pmm v)"
    using pmm.alloc_fail [OF mem(2,1)] mem(1) by (simp add: prod_eq_iff)
  have x: "?x AND PAGE_PRESENT \<noteq> 0" "?x AND PAGE_MASK = 0"
    using pde_flags(1) [of 0 flags] pde_flags(2) [of 0 flags] fl by simp_all
  have map: "pde (vmm_map_page r c flags u) i = (if i = pd_index c then ?x else pde u i)"
    "page_entry (vmm_map_page r c flags u) (pd_index c) (pt_index c) = (r AND PAGE_MASK) OR PAGE_PRESENT OR flags"
    "phys_mem (vmm_map_page r c flags u) (entry 0 (pt_index c)) = (r AND PAGE_MASK) OR PAGE_PRESENT OR flags"
    "current_directory (vmm_map_page r c flags u) = ?dir" "vmm_pmm (vmm_map_page r c flags u) = vmm_pmm v"
    "pd_table (vmm_map_page r c flags u) (pd_index c) = 0"
    if u: "current_directory u = ?dir" "vmm_pmm u = vmm_pmm v" "\<not> pd_present u (pd_index c)" and i: "unat i < 1024"
    for r c u i
  proof -
    have e: "vmm_map_page r c flags u = u\<lparr>phys_mem :=
        (zero_words 1024 0 ((phys_mem u)(entry ?dir (pd_index c) := ?x)))
          (entry 0 (pt_index c) := (r AND PAGE_MASK) OR PAGE_PRESENT OR flags)\<rparr>"
      using u al x dir by (simp add: vmm_map_page_def get_or_create_table_def pd_present_def pde_def Let_def
          zero_page_entry)
    show "pde (vmm_map_page r c flags u) i = (if i = pd_index c then ?x else pde u i)"
      using u i dir by (simp add: e pde_def entry_eq_iff zero_page_entry)
    show "pd_table (vmm_map_page r c flags u) (pd_index c) = 0"
      using u dir x by (simp add: pd_table_def e pde_def entry_eq_iff zero_page_entry)
    then show "page_entry (vmm_map_page r c flags u) (pd_index c) (pt_index c) = (r AND PAGE_MASK) OR PAGE_PRESENT OR flags"
      by (simp add: page_entry_def e)
    show "phys_mem (vmm_map_page r c flags u) (entry 0 (pt_index c)) = (r AND PAGE_MASK) OR PAGE_PRESENT OR flags"
      by (simp add: e)
    show "current_directory (vmm_map_page r c flags u) = ?dir" "vmm_pmm (vmm_map_page r c flags u) = vmm_pmm v"
      using u by (simp_all add: e)
  qed
  let ?u = "vmm_map_page p a flags v"
  note m1 = map [OF refl refl absent(1), of _ p]
  have u: "current_directory ?u = ?dir" "vmm_pmm ?u = vmm_pmm v" "\<not> pd_present ?u (pd_index b)"
    using m1(1,4,5) [OF index_bounds(1)] absent(2) ab(1) by (simp_all add: pd_present_def)
  note m2 = map [OF u, of _ q, folded v'_def]
  have "pde v' (pd_index a) = ?x"
    using m2(1) [OF index_bounds(1), of a] m1(1) [OF index_bounds(1), of a] ab(1) by simp
  then have "pd_present v' (pd_index a)" "pd_table v' (pd_index a) = 0"
    using x by (simp_all add: pd_present_def pd_table_def)
  moreover have e: "phys_mem v' (entry 0 (pt_index a)) = (q AND PAGE_MASK) OR PAGE_PRESENT OR flags"
    using m2(3) [OF index_bounds(1)] ab(2) by simp
  moreover have "(q AND PAGE_MASK) OR PAGE_PRESENT OR flags \<noteq> 0"
  proof -
    have "bit ((q AND PAGE_MASK) OR PAGE_PRESENT OR flags) 0" by (simp add: bit_or_iff)
    then show ?thesis by auto
  qed
  ultimately have "vmm_get_physical a v' = q AND PAGE_MASK \<and> phys_mem v' (entry 0 (pt_index a)) \<noteq> 0"
    using pte_flags [OF fl] by (simp add: vmm_get_physical_eq page_entry_def)
  then show ?thesis unfolding v'_def Let_def .
qed

text \<open>No frame left: every frame of a 32-frame memory is taken.\<close>

definition vmm_exhausted :: vmm where
  "vmm_exhausted = \<lparr>vmm_pmm = pmm_init_region 0 0 (pmm_init 0x20000 (\<lambda>_. 0)), phys_mem = (\<lambda>_. 0),
     current_directory = 0x1000, cr3 = 0x1000, cr0 = 1\<rparr>"

theorem vmm_map_oom_aliases_witness:
  "vmm_get_physical 0x400000 (vmm_map_page 0x9000 0x800000 2 (vmm_map_page 0x8000 0x400000 2 vmm_exhausted)) = 0x9000"
proof -
  let ?s = "vmm_pmm vmm_exhausted"
  have fr: "free_frames ?s = {}" and ok: "pmm_ok ?s"
  proof -
    have used: "frame_used ?s f" if "f < 32" for f
      using that frame_used_pmm_init [of f "0x20000" "\<lambda>_. 0"]
      by (simp add: vmm_exhausted_def pmm_init_region_props)
    have max: "pmm_max_blocks ?s = 32" "pmm_used_blocks ?s = 32"
      by (simp_all add: vmm_exhausted_def pmm_init_region_props)
    show fr: "free_frames ?s = {}" using used max by (auto simp: free_frames_def)
    show "pmm_ok ?s" using used [of 0] fr max by (simp add: pmm_ok_def)
  qed
  have "fst (pmm_alloc_frame ?s) = 0"
    using ok by (cases rule: pmm_alloc_frame_cases)
      (use fr scanned_frames_le [of ?s] in \<open>auto simp: free_frames_def\<close>)
  then show ?thesis
    using vmm_map_oom_aliases [of vmm_exhausted "0x400000" "0x800000" 2 "0x9000" "0x8000"] ok
    by (simp add: vmm_exhausted_def pd_present_def pde_def pd_index_def pt_index_def drop_bit_eq_div Let_def)
qed

text \<open>
  \<open>vmm_init\<close>, given six allocatable frames (the directory, four tables for the first 16 MiB and
  one for the framebuffer), turns paging on with a directory that maps the first 16 MiB and the 4 MiB
  from \<open>0xfd000000\<close> to themselves, and nothing else.
\<close>
theorem vmm_init_identity:
  assumes "pmm_ok (vmm_pmm v)" "6 \<le> card (avail (vmm_pmm v))"
  shows "vmm_ok (vmm_init v) \<and> cr3 (vmm_init v) = current_directory (vmm_init v) \<and> bit (cr0 (vmm_init v)) 31 \<and>
    (\<forall>w. vmm_get_physical w (vmm_init v) =
      (if unat w < 0x1000000 \<or> 0xfd000000 \<le> unat w \<and> unat w < 0xfd400000 then w AND PAGE_MASK else 0))"
  using vmm_init_props [OF assms] by blast

text \<open>A machine just before \<open>vmm_init\<close>: the frames 3 to 31 are free.\<close>

definition vmm_example :: vmm where
  "vmm_example = \<lparr>vmm_pmm = pmm_example, phys_mem = (\<lambda>_. 0xDEADBEEF), current_directory = 0, cr3 = 0, cr0 = 1\<rparr>"

lemma vmm_example_ready: "pmm_ok (vmm_pmm vmm_example)" "6 \<le> card (avail (vmm_pmm vmm_example))"
proof -
  show "pmm_ok (vmm_pmm vmm_example)" by (simp add: vmm_example_def pmm_example_ok)
  have "{3 ..< 9} \<subseteq> avail pmm_example"
    by (auto simp: avail_def pmm_example_scanned pmm_example_used)
  moreover have "finite (avail pmm_example)" by (simp add: avail_def)
  ultimately show "6 \<le> card (avail (vmm_pmm vmm_example))"
    using card_mono [of "avail pmm_example" "{3 ..< 9}"] by (simp add: vmm_example_def)
qed

lemma vmm_booted: "vmm_ok (vmm_init vmm_example)" "pd_present (vmm_init vmm_example) (pd_index 0x5678)"
proof -
  have *: "vmm_ok (vmm_init vmm_example) \<and> vmm_get_physical 0x5678 (vmm_init vmm_example) = 0x5678 AND PAGE_MASK"
    using vmm_init_props [OF vmm_example_ready, of "0x5678"] by simp
  then show "vmm_ok (vmm_init vmm_example)" by blast
  have "vmm_get_physical 0x5678 (vmm_init vmm_example) \<noteq> 0" using * by simp
  then show "pd_present (vmm_init vmm_example) (pd_index 0x5678)"
    by (simp add: vmm_get_physical_eq split: if_splits)
qed


theorem vmm_unmap_exact_witness:
  "vmm_get_physical 0x5ABC (vmm_unmap_page 0x5000 (vmm_init vmm_example)) = 0 \<and>
   vmm_get_physical 0x6ABC (vmm_unmap_page 0x5000 (vmm_init vmm_example)) = 0x6000"
  using vmm_unmap_exact [OF vmm_booted(1), of "0x5000" "0x5ABC"] vmm_unmap_exact [OF vmm_booted(1), of "0x5000" "0x6ABC"]
    vmm_init_props [OF vmm_example_ready, of "0x6ABC"] by simp

theorem vmm_init_identity_witness:
  "vmm_get_physical 0xABCDEF (vmm_init vmm_example) = 0xABC000 \<and> vmm_get_physical 0x1000000 (vmm_init vmm_example) = 0"
proof -
  have "vmm_get_physical w (vmm_init vmm_example) =
      (if unat w < 0x1000000 \<or> 0xfd000000 \<le> unat w \<and> unat w < 0xfd400000 then w AND PAGE_MASK else 0)" for w
    using vmm_init_identity [OF vmm_example_ready] by blast
  from this [of "0xABCDEF"] this [of "0x1000000"] show ?thesis by simp
qed

end
