(* ===== verification/Boot.thy ===== *)
theory Boot
  imports Vmm Heap CString
begin

text \<open>
  The memory part of the start-up sequence of \<open>kernel/kernel.c\<close>: reading the size of the memory from
  the boot information, giving the memory above the kernel to the frame allocator, turning paging on
  and setting up the heap, in the order \<open>kernel_main\<close> does it. The addresses the linker fixes
  (\<open>_kernel_end\<close>) and the contents of memory at that point are arguments.
\<close>

section \<open>Boot information\<close>

definition read_word :: "mem \<Rightarrow> u32 \<Rightarrow> u32" where
  "read_word m a = of_le32 [m a, m (a + 1), m (a + 2), m (a + 3)]"

abbreviation MB2_TAG_END :: u32 where "MB2_TAG_END \<equiv> 0"
abbreviation MB2_TAG_BASIC_MEM :: u32 where "MB2_TAG_BASIC_MEM \<equiv> 4"

text \<open>The tag loop; \<open>upper\<close> is \<open>mb2_mem_upper\<close>. A list of tags without an end tag may never end.\<close>

partial_function (option) parse_tags :: "mem \<Rightarrow> u32 \<Rightarrow> u32 \<Rightarrow> u32 option" where
  "parse_tags m tag_ptr upper =
     (if read_word m tag_ptr = MB2_TAG_END then Some upper
      else let upper = (if read_word m tag_ptr = MB2_TAG_BASIC_MEM then read_word m (tag_ptr + 12) else upper);
               tag_size = (read_word m (tag_ptr + 4) + 7) AND NOT 7
           in parse_tags m (tag_ptr + tag_size) upper)"

definition parse_multiboot2 :: "mem \<Rightarrow> u32 \<Rightarrow> u32 option" where
  "parse_multiboot2 m mb_info_addr = parse_tags m (mb_info_addr + 8) 0"

section \<open>Memory set-up\<close>

definition init_memory :: "u32 \<Rightarrow> (nat \<Rightarrow> u32) \<Rightarrow> u32 \<Rightarrow> pmm" where
  "init_memory kernel_end bitmap_mem mem_upper =
     (let mem_size = (mem_upper + 1024) * 1024;
          s = pmm_init mem_size bitmap_mem;
          bitmap_size = pmm_get_block_count s div 8;
          kernel_end_aligned = kernel_end + bitmap_size;
          kernel_end_aligned =
            (if kernel_end_aligned AND 0xFFF \<noteq> 0
             then (kernel_end_aligned AND 0xFFFFF000) + PAGE_SIZE else kernel_end_aligned)
      in if mem_size > kernel_end_aligned
         then pmm_init_region kernel_end_aligned (mem_size - kernel_end_aligned) s
         else s)"

text \<open>\<open>init_memory(mb2_mem_upper); vmm_init(); heap_init()\<close>, in the order of \<open>kernel_main\<close>.\<close>

definition boot_memory ::
  "u32 \<Rightarrow> (nat \<Rightarrow> u32) \<Rightarrow> u32 \<Rightarrow> (u32 \<Rightarrow> u32) \<Rightarrow> (u32 \<Rightarrow> heap_block) \<Rightarrow> vmm \<times> heap" where
  "boot_memory kernel_end bitmap_mem mem_upper words blocks =
     (vmm_init \<lparr>vmm_pmm = init_memory kernel_end bitmap_mem mem_upper, phys_mem = words,
        current_directory = 0, cr3 = 0, cr0 = 1\<rparr>,
      heap_init blocks)"

section \<open>Tag lists\<close>

text \<open>
  A well-formed list of tags in memory: each tag has its type, its size, which counts the header,
  and its size rounded up to a multiple of eight is where the next one starts.
\<close>

fun tags_at :: "mem \<Rightarrow> u32 \<Rightarrow> (u32 \<times> u32 \<times> u32) list \<Rightarrow> bool" where
  "tags_at m p [] \<longleftrightarrow> read_word m p = MB2_TAG_END"
| "tags_at m p ((ty, sz, w) # ts) \<longleftrightarrow>
     read_word m p = ty \<and> ty \<noteq> MB2_TAG_END \<and> read_word m (p + 4) = sz \<and> read_word m (p + 12) = w \<and>
     tags_at m (p + ((sz + 7) AND NOT 7)) ts"

definition mem_upper_of :: "u32 \<Rightarrow> (u32 \<times> u32 \<times> u32) list \<Rightarrow> u32" where
  "mem_upper_of z ts = foldl (\<lambda>u (ty, sz, w). if ty = MB2_TAG_BASIC_MEM then w else u) z ts"

lemma parse_tags_eq: "tags_at m p ts \<Longrightarrow> parse_tags m p z = Some (mem_upper_of z ts)"
proof (induction m p ts arbitrary: z rule: tags_at.induct)
  case (1 m p)
  then show ?case by (subst parse_tags.simps) (simp add: mem_upper_of_def)
next
  case (2 m p ty sz w ts)
  then show ?case by (subst parse_tags.simps) (simp add: mem_upper_of_def Let_def)
qed

section \<open>First fit reaches every frame\<close>

lemma avail_below_alloc:
  assumes ok: "pmm_ok s" and f: "f \<in> avail s"
  obtains (hit) "fst (pmm_alloc_frame s) = of_nat (f * 4096)"
  | (below) "f \<in> avail (snd (pmm_alloc_frame s))"
      "card {g \<in> avail (snd (pmm_alloc_frame s)). g < f} < card {g \<in> avail s. g < f}"
  using ok
proof (cases rule: pmm_alloc_frame_cases)
  case none
  then show ?thesis using f by (auto simp: avail_def)
next
  case (some g)
  have av: "avail (snd (pmm_alloc_frame s)) = avail s - {g}"
    using some by (auto simp: avail_def scanned_frames_def unat_of_nat_u32)
  consider "g = f" | "g < f" using some(5) f by (auto simp: avail_def) (metis linorder_neqE_nat)
  then show ?thesis
  proof cases
    case 1
    then show ?thesis using some(6) hit by simp
  next
    case 2
    have "{x \<in> avail s - {g}. x < f} \<subset> {x \<in> avail s. x < f}"
      using 2 some by (auto simp: avail_def)
    moreover have "finite {x \<in> avail s. x < f}" by simp
    ultimately have "card {x \<in> avail s - {g}. x < f} < card {x \<in> avail s. x < f}"
      by (rule psubset_card_mono [rotated])
    then show ?thesis using below 2 f by (simp add: av)
  qed
qed

lemma alloc_many_reaches:
  "pmm_ok s \<Longrightarrow> f \<in> avail s \<Longrightarrow> card {g \<in> avail s. g < f} < n \<Longrightarrow>
   of_nat (f * 4096) \<in> set (fst (alloc_many pmm_alloc_frame n s))"
proof (induction n arbitrary: s)
  case (Suc n)
  show ?case
    using Suc.prems(1,2)
  proof (cases rule: avail_below_alloc)
    case hit
    then show ?thesis by (simp add: Let_def)
  next
    case below
    then have "of_nat (f * 4096) \<in> set (fst (alloc_many pmm_alloc_frame n (snd (pmm_alloc_frame s))))"
      using Suc.prems pmm_alloc_frame_ok by (intro Suc.IH) auto
    then show ?thesis by (simp add: Let_def)
  qed
qed simp

section \<open>What the frame allocator is given\<close>

lemma round_up_page:
  fixes w :: u32
  assumes "unat w \<le> 4096 * k" "4096 * k < 4294967296"
  defines "r \<equiv> if w AND 0xFFF \<noteq> 0 then (w AND 0xFFFFF000) + PAGE_SIZE else w"
  shows "unat w \<le> unat r" "unat r \<le> 4096 * k" "unat r mod 4096 = 0"
proof -
  have low: "w AND 0xFFF = 0 \<longleftrightarrow> unat w mod 4096 = 0"
  proof -
    have "w AND 0xFFF = take_bit 12 w" by (simp add: take_bit_eq_mask mask_eq_exp_minus_1)
    moreover have "unat (take_bit 12 w) = unat w mod 4096"
      by (subst unsigned_take_bit_eq) (simp add: take_bit_eq_mod)
    ultimately show ?thesis by (metis unat_eq_0)
  qed
  have "unat w \<le> unat r \<and> unat r \<le> 4096 * k \<and> unat r mod 4096 = 0"
  proof (cases "unat w mod 4096 = 0")
    case True
    then show ?thesis using low assms(1) by (simp add: r_def)
  next
    case False
    let ?q = "unat w div 4096"
    have q: "unat w = 4096 * ?q + unat w mod 4096" by simp
    then have "4096 * ?q < 4096 * k" using False assms(1) by linarith
    then have qk: "?q + 1 \<le> k" by linarith
    then have "4096 * ?q + 4096 \<le> 4096 * k" by linarith
    moreover have "unat (w AND 0xFFFFF000) = 4096 * ?q" by (simp add: unat_page_mask minus_mod_eq_mult_div)
    ultimately have "unat r = 4096 * ?q + 4096"
      using low False assms(2) by (simp add: r_def unat_add_u32)
    then show ?thesis using q qk by (simp add: less_imp_le)
  qed
  then show "unat w \<le> unat r" "unat r \<le> 4096 * k" "unat r mod 4096 = 0" by blast+
qed

lemma init_memory_props:
  assumes hi: "unat mem_upper + 1024 < 4194304" and mult: "32 dvd unat mem_upper"
    and lo: "4096 \<le> unat kernel_end" "unat kernel_end + (unat mem_upper + 1024) div 32 \<le> 4096 * k"
    and k: "4096 * k < (unat mem_upper + 1024) * 1024"
  shows "pmm_ok (init_memory kernel_end bm mem_upper)"
    "\<exists>b. b \<le> k \<and> free_frames (init_memory kernel_end bm mem_upper) = {b ..< (unat mem_upper + 1024) div 4}"
    "unat (pmm_max_blocks (init_memory kernel_end bm mem_upper)) = (unat mem_upper + 1024) div 4"
proof -
  let ?kib = "unat mem_upper + 1024" and ?s = "init_memory kernel_end bm mem_upper"
  define S where "S = (mem_upper + 1024) * 1024"
  define e where "e = kernel_end + pmm_get_block_count (pmm_init S bm) div 8"
  define r where "r = (if e AND 0xFFF \<noteq> 0 then (e AND 0xFFFFF000) + PAGE_SIZE else e)"
  have s0: "?s = (if r < S then pmm_init_region r (S - r) (pmm_init S bm) else pmm_init S bm)"
    unfolding init_memory_def S_def [symmetric] Let_def e_def [symmetric] r_def [symmetric] by (rule refl)
  have add: "unat (mem_upper + 1024) = ?kib" using hi by (subst unat_add_u32) simp_all
  have size: "unat S = ?kib * 1024" using hi add unfolding S_def by (subst unat_mult_u32) simp_all
  have blocks: "unat S div 4096 = ?kib div 4"
    unfolding size using div_mult_mult2 [of 1024 ?kib 4] by simp
  have d8: "?kib div 4 div 8 = ?kib div 32" by (simp add: div_mult2_eq [symmetric])
  have e: "unat e = unat kernel_end + ?kib div 32"
    using lo k hi blocks d8
    unfolding e_def by (subst unat_add_u32) (simp_all add: pmm_get_block_count_def unat_div)
  have r: "unat e \<le> unat r" "unat r \<le> 4096 * k" "unat r mod 4096 = 0"
    using round_up_page [of e k] e lo(2) k hi by (simp_all add: r_def)
  have r1: "1 \<le> unat r div 4096" using r(1) e lo(1) by (simp add: less_eq_div_iff_mult_less_eq)
  have dvd: "8 dvd unat S div 4096" unfolding blocks
  proof -
    have "32 dvd ?kib" using mult by (simp add: dvd_add)
    then obtain j where "?kib = 32 * j" by (rule dvdE)
    then show "8 dvd ?kib div 4" by simp
  qed
  have max: "unat (pmm_max_blocks (pmm_init S bm)) = ?kib div 4"
    using blocks by (simp add: unat_div)
  have kr: "unat r div 4096 \<le> k" using r(2) by (metis div_le_mono nonzero_mult_div_cancel_left zero_neq_numeral)
  have "32 dvd ?kib" using mult by (simp add: dvd_add)
  then obtain j where j: "?kib = 32 * j" by (rule dvdE)
  have lt: "r < S" using r(2) k size by (simp add: unat_less_u32 del: unat_eq_0)
  then have s: "?s = pmm_init_region r (S - r) (pmm_init S bm)"
    by (simp add: s0)
  obtain q where q: "unat r = 4096 * q" using r(3) aligned_frames by blast
  have sz: "unat (S - r) = 4096 * (8 * j - q)"
    using lt q by (simp add: unat_sub_u32 unat_less_u32 size j diff_mult_distrib2)
  have n: "unat (S - r) div 4096 = ?kib div 4 - unat r div 4096"
    by (simp add: sz q j)
  have le: "unat r div 4096 + unat (S - r) div 4096 \<le> unat S div 4096"
    using lt by (simp add: n blocks) (simp add: q j unat_less_u32 size)
  have "pmm_ok ?s" unfolding s by (rule pmm_boot_ok [OF dvd r1 le])
  moreover have "free_frames ?s = {unat r div 4096 ..< ?kib div 4}"
    unfolding s using pmm_boot_ok(2) [OF dvd r1 le] n le blocks by simp
  moreover have "unat (pmm_max_blocks ?s) = ?kib div 4" unfolding s using max by (simp add: pmm_init_region_props)
  ultimately have "pmm_ok ?s \<and> (\<exists>b. b \<le> k \<and> free_frames ?s = {b ..< ?kib div 4}) \<and>
      unat (pmm_max_blocks ?s) = ?kib div 4" using kr by blast
  then show "pmm_ok ?s" "\<exists>b. b \<le> k \<and> free_frames ?s = {b ..< ?kib div 4}"
    "unat (pmm_max_blocks ?s) = ?kib div 4" by blast+
qed

section \<open>Properties\<close>

text \<open>
  C37: the frame allocator and the kernel heap are given the same memory. On any machine with 10 MiB or
  more whose kernel ends below the heap, \<open>init_memory\<close> leaves the accounting right but counts every
  frame of the heap area (from 2 MiB to 10 MiB) as free, so that a sequence of \<open>pmm_alloc_frame\<close>
  calls hands out each page of the heap: nothing reserves it with \<open>pmm_deinit_region\<close>.
\<close>
theorem boot_heap_handed_out:
  assumes "unat mem_upper + 1024 < 4194304" "32 dvd unat mem_upper" "10240 \<le> unat mem_upper + 1024"
    and "4096 \<le> unat kernel_end" "unat kernel_end + (unat mem_upper + 1024) div 32 \<le> heap_lo"
  shows "pmm_ok (init_memory kernel_end bm mem_upper) \<and>
    (\<forall>f. heap_lo \<le> 4096 * f \<and> 4096 * f < heap_hi \<longrightarrow>
      (\<exists>n. of_nat (4096 * f) \<in> set (fst (alloc_many pmm_alloc_frame n (init_memory kernel_end bm mem_upper)))))"
proof -
  let ?s = "init_memory kernel_end bm mem_upper"
  note p = init_memory_props [of mem_upper kernel_end 512 bm]
  have ok: "pmm_ok ?s" and fr: "\<exists>b. b \<le> 512 \<and> free_frames ?s = {b ..< (unat mem_upper + 1024) div 4}"
    and max: "unat (pmm_max_blocks ?s) = (unat mem_upper + 1024) div 4"
    using p assms by (simp_all add: heap_bounds)
  have "of_nat (4096 * f) \<in> set (fst (alloc_many pmm_alloc_frame (Suc (card {g \<in> avail ?s. g < f})) ?s))"
    if f: "heap_lo \<le> 4096 * f" "4096 * f < heap_hi" for f
  proof -
    have "512 \<le> f" "f < 2560" using f by (simp_all add: heap_bounds)
    moreover have "80 \<le> (unat mem_upper + 1024) div 4 div 32" using assms(3) by simp
    then have "2560 \<le> scanned_frames ?s" by (simp add: scanned_frames_def max)
    moreover obtain b where "b \<le> 512" "free_frames ?s = {b ..< (unat mem_upper + 1024) div 4}" using fr by blast
    moreover have "2560 \<le> (unat mem_upper + 1024) div 4" using assms(3) by simp
    ultimately have "f \<in> free_frames ?s" "f < scanned_frames ?s" by auto
    then have "f \<in> avail ?s" by (simp add: avail_def free_frames_def)
    from alloc_many_reaches [OF ok this lessI] show ?thesis by (simp only: mult.commute)
  qed
  then show ?thesis using ok by blast
qed

theorem boot_heap_handed_out_witness:
  "\<exists>n. 0x201000 \<in> set (fst (alloc_many pmm_alloc_frame n (init_memory 0x150000 (\<lambda>_. 0) 130048)))"
proof -
  have "\<forall>f. heap_lo \<le> 4096 * f \<and> 4096 * f < heap_hi \<longrightarrow>
      (\<exists>n. of_nat (4096 * f) \<in> set (fst (alloc_many pmm_alloc_frame n (init_memory 0x150000 (\<lambda>_. 0) 130048))))"
    using boot_heap_handed_out [of 130048 "0x150000" "\<lambda>_. 0"] by (simp add: heap_bounds)
  from spec [OF this, of 513] show ?thesis by (simp add: heap_bounds)
qed

end
