(* ===== verification/Process.thy ===== *)
theory Process
  imports Heap
begin

text \<open>
  Processes and the round-robin scheduler, \<open>kernel/process.c\<close> with \<open>boot/context_switch.asm\<close>. The
  state is the table of 64 control blocks and the three static variables, the kernel heap the stacks
  are allocated from, and the machine: the callee-saved registers, the stack pointer, the program
  counter and the words of memory the stacks are in. A process is identified by its slot in the
  table. \<open>process_yield\<close> ends where \<open>context_switch\<close> returns, which is in the next process.
  Output on the serial line is not modelled.
\<close>

section \<open>State\<close>

datatype process_state = FREE | READY | RUNNING | BLOCKED | ZOMBIE

record process =
  pid :: u32
  state :: process_state
  esp :: u32
  ebp :: u32
  eip :: u32
  page_dir :: u32
  kernel_stack :: u32
  user_stack :: u32
  brk :: u32
  exit_code :: u32
  parent_pid :: u32
  pname :: "u8 list"

record machine =
  m_mem :: "u32 \<Rightarrow> u32"
  m_esp :: u32
  m_ebp :: u32
  m_ebx :: u32
  m_esi :: u32
  m_edi :: u32
  m_eip :: u32

record sched =
  process_table :: "process list"
  current_pid :: u32
  next_pid :: u32
  scheduler_enabled :: bool
  kheap :: heap
  machine :: machine

text \<open>Addresses the linker fixes: \<open>process_table\<close>, and the return address of the call in \<open>process_yield\<close>.\<close>

record linkage =
  table_addr :: u32
  yield_ret :: u32

abbreviation MAX_PROCESSES :: nat where "MAX_PROCESSES \<equiv> 64"
abbreviation KERNEL_STACK_SIZE :: u32 where "KERNEL_STACK_SIZE \<equiv> 8192"

definition blank_process :: process where
  "blank_process = \<lparr>pid = 0, state = FREE, esp = 0, ebp = 0, eip = 0, page_dir = 0, kernel_stack = 0,
     user_stack = 0, brk = 0, exit_code = 0, parent_pid = 0, pname = replicate 64 0\<rparr>"

definition upd_proc :: "nat \<Rightarrow> (process \<Rightarrow> process) \<Rightarrow> sched \<Rightarrow> sched" where
  "upd_proc i f s = s\<lparr>process_table := (process_table s)[i := f (process_table s ! i)]\<rparr>"

section \<open>Looking up processes\<close>

fun find_slot :: "(process \<Rightarrow> bool) \<Rightarrow> process list \<Rightarrow> nat option" where
  "find_slot P [] = None"
| "find_slot P (p # ps) = (if P p then Some 0 else map_option Suc (find_slot P ps))"

definition find_free_slot :: "sched \<Rightarrow> nat option" where
  "find_free_slot s = find_slot (\<lambda>p. state p = FREE) (process_table s)"

definition find_process :: "u32 \<Rightarrow> sched \<Rightarrow> nat option" where
  "find_process q s = find_slot (\<lambda>p. pid p = q \<and> state p \<noteq> FREE) (process_table s)"

function scan_ready :: "process list \<Rightarrow> u32 \<Rightarrow> nat \<Rightarrow> nat option" where
  "scan_ready ps start i =
     (if i < MAX_PROCESSES
      then let idx = unat ((start + 1 + of_nat i) mod 64)
           in if state (ps ! idx) = READY then Some idx else scan_ready ps start (Suc i)
      else None)"
  by pat_completeness auto
termination by (relation "measure (\<lambda>(ps, start, i). MAX_PROCESSES - i)") auto

declare scan_ready.simps [simp del]

definition find_next_ready :: "sched \<Rightarrow> nat option" where
  "find_next_ready s =
     (case scan_ready (process_table s) (current_pid s) 0 of
        Some idx \<Rightarrow> Some idx
      | None \<Rightarrow>
          (case find_process (current_pid s) s of
             Some cur \<Rightarrow> if state (process_table s ! cur) = RUNNING then Some cur else None
           | None \<Rightarrow> None))"

section \<open>Context switch\<close>

definition push :: "u32 \<Rightarrow> machine \<Rightarrow> machine" where
  "push w m = m\<lparr>m_esp := m_esp m - 4, m_mem := (m_mem m)(m_esp m - 4 := w)\<rparr>"

definition pop :: "machine \<Rightarrow> u32 \<times> machine" where
  "pop m = (m_mem m (m_esp m), m\<lparr>m_esp := m_esp m + 4\<rparr>)"

text \<open>
  The routine, from its first instruction (the return address on top of the stack) to its \<open>ret\<close>; the
  first result is the stack pointer it stores in \<open>*old_esp\<close>.
\<close>

definition context_switch :: "u32 \<Rightarrow> machine \<Rightarrow> u32 \<times> machine" where
  "context_switch new_esp m =
     (let m = push (m_ebp m) m;
          m = push (m_ebx m) m;
          m = push (m_esi m) m;
          m = push (m_edi m) m;
          old_esp = m_esp m;
          m = m\<lparr>m_esp := new_esp\<rparr>;
          (edi, m) = pop m;
          (esi, m) = pop m;
          (ebx, m) = pop m;
          (ebp, m) = pop m;
          (ret, m) = pop m
      in (old_esp, m\<lparr>m_edi := edi, m_esi := esi, m_ebx := ebx, m_ebp := ebp, m_eip := ret\<rparr>))"

text \<open>The call \<open>context_switch(&current->esp, next->esp)\<close>; \<open>esp\<close> is at offset 8 of the 108-byte block.\<close>

definition call_context_switch :: "linkage \<Rightarrow> nat \<Rightarrow> u32 \<Rightarrow> sched \<Rightarrow> sched" where
  "call_context_switch l current new_esp s =
     (let m = push new_esp (machine s);
          m = push (table_addr l + 108 * of_nat current + 8) m;
          m = push (yield_ret l) m;
          (old_esp, m) = context_switch new_esp m
      in upd_proc current (\<lambda>p. p\<lparr>esp := old_esp\<rparr>) (s\<lparr>machine := m\<rparr>))"

section \<open>Operations\<close>

definition process_init :: "sched \<Rightarrow> sched" where
  "process_init s =
     s\<lparr>process_table := (replicate MAX_PROCESSES blank_process)
         [0 := blank_process\<lparr>pid := 0, state := RUNNING, parent_pid := 0,
                 pname := [107, 101, 114, 110, 101, 108, 0] @ replicate 57 0\<rparr>],
       current_pid := 0, next_pid := 1, scheduler_enabled := False\<rparr>"

definition process_yield :: "linkage \<Rightarrow> sched \<Rightarrow> sched" where
  "process_yield l s =
     (if \<not> scheduler_enabled s then s
      else let current = find_process (current_pid s) s
           in case find_next_ready s of
                None \<Rightarrow> s
              | Some next \<Rightarrow>
                  if Some next = current then s
                  else let s = (case current of
                                  Some c \<Rightarrow> if state (process_table s ! c) = RUNNING
                                            then upd_proc c (\<lambda>p. p\<lparr>state := READY\<rparr>) s else s
                                | None \<Rightarrow> s);
                           s = upd_proc next (\<lambda>p. p\<lparr>state := RUNNING\<rparr>) s;
                           s = s\<lparr>current_pid := pid (process_table s ! next)\<rparr>
                       in case current of
                            Some c \<Rightarrow> call_context_switch l c (esp (process_table s ! next)) s
                          | None \<Rightarrow> s)"

definition process_schedule :: "linkage \<Rightarrow> sched \<Rightarrow> sched" where
  "process_schedule l s = (if \<not> scheduler_enabled s then s else process_yield l s)"

text \<open>The first stack frame of a process: \<open>*(--sp) = w\<close> for the entry point and four zero registers.\<close>

primrec store_frame :: "u32 list \<Rightarrow> u32 \<Rightarrow> (u32 \<Rightarrow> u32) \<Rightarrow> u32 \<times> (u32 \<Rightarrow> u32)" where
  "store_frame [] sp m = (sp, m)"
| "store_frame (w # ws) sp m = store_frame ws (sp - 4) (m(sp - 4 := w))"

text \<open>
  \<open>process_create(name, entry, is_user)\<close>; \<open>is_user\<close> has no effect in the code. \<open>- 1\<close> is the error
  value. \<open>strncpy(proc->name, name, 63)\<close> into the cleared block leaves the bytes given here.
\<close>

definition process_create :: "u8 list \<Rightarrow> u32 \<Rightarrow> sched \<Rightarrow> (int \<times> sched) option" where
  "process_create name entry s =
     (case find_free_slot s of
        None \<Rightarrow> Some (- 1, s)
      | Some i \<Rightarrow>
          (let s = upd_proc i (\<lambda>_. blank_process\<lparr>pid := next_pid s, state := READY, parent_pid := current_pid s,
                     pname := take 63 name @ replicate (64 - length (take 63 name)) 0\<rparr>)
                   (s\<lparr>next_pid := next_pid s + 1\<rparr>)
           in case kmalloc KERNEL_STACK_SIZE (kheap s) of
                None \<Rightarrow> None
              | Some (stack, h) \<Rightarrow>
                  let s = upd_proc i (\<lambda>p. p\<lparr>kernel_stack := stack\<rparr>) (s\<lparr>kheap := h\<rparr>)
                  in if stack = 0
                     then Some (- 1, upd_proc i (\<lambda>p. p\<lparr>state := FREE\<rparr>) s)
                     else let (sp, mem) = store_frame [entry, 0, 0, 0, 0] (stack + KERNEL_STACK_SIZE)
                                            (m_mem (machine s));
                              s = s\<lparr>machine := (machine s)\<lparr>m_mem := mem\<rparr>\<rparr>;
                              s = upd_proc i (\<lambda>p. p\<lparr>esp := sp, ebp := 0, eip := entry\<rparr>) s
                          in Some (sint (pid (process_table s ! i)), s\<lparr>scheduler_enabled := True\<rparr>)))"

definition process_unblock :: "u32 \<Rightarrow> sched \<Rightarrow> sched" where
  "process_unblock q s =
     (case find_process q s of
        None \<Rightarrow> s
      | Some i \<Rightarrow> if state (process_table s ! i) = BLOCKED
                  then upd_proc i (\<lambda>p. p\<lparr>state := READY\<rparr>) s else s)"

definition process_block :: "u32 \<Rightarrow> sched \<Rightarrow> sched" where
  "process_block q s =
     (case find_process q s of None \<Rightarrow> s | Some i \<Rightarrow> upd_proc i (\<lambda>p. p\<lparr>state := BLOCKED\<rparr>) s)"

definition process_exit :: "linkage \<Rightarrow> u32 \<Rightarrow> sched \<Rightarrow> sched option" where
  "process_exit l code s =
     (case find_process (current_pid s) s of
        None \<Rightarrow> Some s
      | Some c \<Rightarrow>
          if pid (process_table s ! c) = 0 then Some s
          else
            let s = upd_proc c (\<lambda>p. p\<lparr>state := ZOMBIE, exit_code := code\<rparr>) s;
                stack = kernel_stack (process_table s ! c);
                freed = (if stack \<noteq> 0
                         then (case kfree stack (kheap s) of
                                 None \<Rightarrow> None
                               | Some h \<Rightarrow> Some (upd_proc c (\<lambda>p. p\<lparr>kernel_stack := 0\<rparr>) (s\<lparr>kheap := h\<rparr>)))
                         else Some s)
            in case freed of
                 None \<Rightarrow> None
               | Some s \<Rightarrow>
                   let s = (case find_process (parent_pid (process_table s ! c)) s of
                              None \<Rightarrow> s
                            | Some i \<Rightarrow> if state (process_table s ! i) = BLOCKED
                                        then upd_proc i (\<lambda>p. p\<lparr>state := READY\<rparr>) s else s)
                   in Some (process_yield l s))"

definition process_get_pid :: "sched \<Rightarrow> u32" where
  "process_get_pid s = current_pid s"

definition process_get_current :: "sched \<Rightarrow> nat option" where
  "process_get_current s = find_process (current_pid s) s"

text \<open>
  \<open>process_wait\<close>: the child is looked up once; then one iteration of the loop, which gives control
  away and is resumed when the process runs again, or the exit code.
\<close>

datatype wait_result = Wait_Again | Wait_Done u32

definition process_wait_child :: "u32 \<Rightarrow> sched \<Rightarrow> nat option" where
  "process_wait_child q s = find_process q s"

definition process_wait_step :: "linkage \<Rightarrow> nat \<Rightarrow> sched \<Rightarrow> wait_result \<times> sched" where
  "process_wait_step l child s =
     (if state (process_table s ! child) \<noteq> ZOMBIE
      then let s = (case find_process (current_pid s) s of
                      None \<Rightarrow> s
                    | Some c \<Rightarrow> upd_proc c (\<lambda>p. p\<lparr>state := BLOCKED\<rparr>) s)
           in (Wait_Again, process_yield l s)
      else (Wait_Done (exit_code (process_table s ! child)), upd_proc child (\<lambda>p. p\<lparr>state := FREE\<rparr>) s))"

section \<open>Searching the table\<close>

lemma find_slot_Some:
  "find_slot P ps = Some i \<Longrightarrow> i < length ps \<and> P (ps ! i) \<and> (\<forall>j < i. \<not> P (ps ! j))"
proof (induction ps arbitrary: i)
  case (Cons p ps)
  then show ?case by (auto split: if_splits simp: less_Suc_eq_0_disj)
qed simp

lemma find_slot_None: "find_slot P ps = None \<longleftrightarrow> (\<forall>p \<in> set ps. \<not> P p)"
  by (induction ps) auto

text \<open>The slot the scheduler looks at in its \<open>k\<close>-th step: \<open>(start + 1 + k) % MAX_PROCESSES\<close>.\<close>

definition slot_after :: "u32 \<Rightarrow> nat \<Rightarrow> nat" where
  "slot_after start k = (unat start + 1 + k) mod 64"

lemma slot_after_less [simp]: "slot_after start k < 64"
  by (simp add: slot_after_def)

lemma slot_after_word: "unat ((start + 1 + of_nat k) mod 64 :: u32) = slot_after start k"
proof -
  have "unat (start + 1 + of_nat k) = (unat start + 1 + k) mod 4294967296"
    by (simp add: unat_word_ariths unat_of_nat take_bit_eq_mod mod_simps)
  then show ?thesis by (simp add: unat_mod slot_after_def mod_mod_cancel)
qed

lemma scan_ready_unfold:
  "scan_ready ps start i =
     (if i < 64 then if state (ps ! slot_after start i) = READY then Some (slot_after start i)
                     else scan_ready ps start (Suc i)
      else None)"
  by (subst scan_ready.simps) (simp only: slot_after_word Let_def)

lemma scan_ready_Some:
  "scan_ready ps start i = Some n \<Longrightarrow>
   \<exists>k. i \<le> k \<and> k < 64 \<and> n = slot_after start k \<and> state (ps ! n) = READY \<and>
     (\<forall>j. i \<le> j \<and> j < k \<longrightarrow> state (ps ! slot_after start j) \<noteq> READY)"
proof (induction "64 - i" arbitrary: i)
  case 0
  then show ?case by (subst (asm) (1) scan_ready_unfold) simp
next
  case (Suc d)
  then have i: "i < 64" by simp
  show ?case
  proof (cases "state (ps ! slot_after start i) = READY")
    case True
    then show ?thesis using Suc.prems i by (subst (asm) scan_ready_unfold) auto
  next
    case False
    then have "scan_ready ps start (Suc i) = Some n"
      using Suc.prems i by (subst (asm) scan_ready_unfold) simp
    then obtain k where k: "Suc i \<le> k" "k < 64" "n = slot_after start k" "state (ps ! n) = READY"
      "\<forall>j. Suc i \<le> j \<and> j < k \<longrightarrow> state (ps ! slot_after start j) \<noteq> READY"
      using Suc.hyps by (metis Suc_diff_Suc diff_Suc_1 i)
    have "state (ps ! slot_after start j) \<noteq> READY" if "i \<le> j \<and> j < k" for j
      using k(5) False that by (cases "j = i") auto
    then show ?thesis using k by (intro exI [of _ k]) auto
  qed
qed

lemma scan_ready_None:
  "scan_ready ps start i = None \<Longrightarrow> i \<le> j \<Longrightarrow> j < 64 \<Longrightarrow> state (ps ! slot_after start j) \<noteq> READY"
proof (induction "j - i" arbitrary: i)
  case 0
  then show ?case by (subst (asm) scan_ready_unfold) (auto split: if_splits)
next
  case (Suc d)
  have "scan_ready ps start (Suc i) = None"
    using Suc.prems Suc.hyps(2) by (subst (asm) scan_ready_unfold) (auto split: if_splits)
  then show ?case using Suc by (intro Suc.hyps(1) [of "Suc i"]) auto
qed

lemma find_next_ready_cases:
  assumes "length (process_table s) = 64"
  obtains (ready) n k where "find_next_ready s = Some n" "k < 64" "n = slot_after (current_pid s) k"
      "state (process_table s ! n) = READY"
      "\<And>j. j < k \<Longrightarrow> state (process_table s ! slot_after (current_pid s) j) \<noteq> READY"
  | (same) "find_next_ready s = None \<or> find_next_ready s = find_process (current_pid s) s"
      "\<And>i. i < 64 \<Longrightarrow> state (process_table s ! i) \<noteq> READY"
proof (cases "scan_ready (process_table s) (current_pid s) 0")
  case (Some n)
  then show ?thesis using scan_ready_Some [OF Some] ready by (force simp: find_next_ready_def)
next
  case None
  have "state (process_table s ! i) \<noteq> READY" if "i < 64" for i
  proof -
    define u where "u = unat (current_pid s) + 1"
    let ?j = "(i + 64 - u mod 64) mod 64"
    have "slot_after (current_pid s) ?j = (u mod 64 + (i + 64 - u mod 64)) mod 64"
      unfolding slot_after_def u_def [symmetric] by (simp only: mod_add_left_eq mod_add_right_eq)
    also have "u mod 64 + (i + 64 - u mod 64) = i + 64"
      using mod_less_divisor [of 64 u] by linarith
    finally have "slot_after (current_pid s) ?j = i" using that by simp
    then show ?thesis using scan_ready_None [OF None, of ?j] by simp
  qed
  then show ?thesis using same None by (auto simp: find_next_ready_def split: option.splits)
qed

section \<open>Invariant\<close>

text \<open>
  \<open>sched_ok\<close>: a process is running only if it is the current one; process numbers are distinct and
  below the next one; slot 0 is the kernel process; and every process that can still run and has not lost its
  stack owns a live block of the kernel heap of at least \<open>KERNEL_STACK_SIZE\<close> bytes, no two the same block.
\<close>

definition alive :: "process \<Rightarrow> bool" where
  "alive p \<longleftrightarrow> state p \<noteq> FREE \<and> state p \<noteq> ZOMBIE"

definition stacked :: "process \<Rightarrow> bool" where
  "stacked p \<longleftrightarrow> alive p \<and> kernel_stack p \<noteq> 0"

definition owns_stack :: "heap \<Rightarrow> process \<Rightarrow> bool" where
  "owns_stack h p \<longleftrightarrow> kernel_stack p \<noteq> 0 \<and> (\<exists>k \<ge> 8192. (kernel_stack p, k) \<in> live h)"

definition proc_ok :: "u32 \<Rightarrow> u32 \<Rightarrow> heap \<Rightarrow> nat \<Rightarrow> process \<Rightarrow> bool" where
  "proc_ok cur nxt h i p \<longleftrightarrow>
     (state p = RUNNING \<longrightarrow> pid p = cur) \<and> (state p \<noteq> FREE \<longrightarrow> pid p < nxt) \<and>
     (state p = ZOMBIE \<longrightarrow> kernel_stack p = 0) \<and> (0 < i \<and> stacked p \<longrightarrow> owns_stack h p) \<and>
     (i = 0 \<longrightarrow> pid p = 0 \<and> alive p)"

definition apart :: "nat \<Rightarrow> nat \<Rightarrow> process \<Rightarrow> process \<Rightarrow> bool" where
  "apart i j p q \<longleftrightarrow>
     (state p \<noteq> FREE \<and> state q \<noteq> FREE \<longrightarrow> pid p \<noteq> pid q) \<and>
     (0 < i \<and> 0 < j \<and> stacked p \<and> stacked q \<longrightarrow> kernel_stack p \<noteq> kernel_stack q)"

definition table_ok :: "process list \<Rightarrow> u32 \<Rightarrow> u32 \<Rightarrow> heap \<Rightarrow> bool" where
  "table_ok ps cur nxt h \<longleftrightarrow>
     length ps = 64 \<and> heap_inv h \<and> (\<forall>i < 64. proc_ok cur nxt h i (ps ! i)) \<and>
     (\<forall>i < 64. \<forall>j < 64. i \<noteq> j \<longrightarrow> apart i j (ps ! i) (ps ! j))"

abbreviation sched_ok :: "sched \<Rightarrow> bool" where
  "sched_ok s \<equiv> table_ok (process_table s) (current_pid s) (next_pid s) (kheap s)"

lemma upd_proc_simps [simp]:
  "process_table (upd_proc i f s) = (process_table s)[i := f (process_table s ! i)]"
  "current_pid (upd_proc i f s) = current_pid s" "next_pid (upd_proc i f s) = next_pid s"
  "scheduler_enabled (upd_proc i f s) = scheduler_enabled s" "kheap (upd_proc i f s) = kheap s"
  "machine (upd_proc i f s) = machine s"
  by (simp_all add: upd_proc_def)

lemma find_process_Some:
  "find_process q s = Some i \<Longrightarrow> sched_ok s \<Longrightarrow>
   i < 64 \<and> pid (process_table s ! i) = q \<and> state (process_table s ! i) \<noteq> FREE"
  using find_slot_Some [of _ "process_table s" i] by (auto simp: find_process_def table_ok_def)

lemma table_ok_proc: "table_ok ps cur nxt h \<Longrightarrow> i < 64 \<Longrightarrow> proc_ok cur nxt h i (ps ! i)"
  by (simp add: table_ok_def)

lemma table_ok_apart: "table_ok ps cur nxt h \<Longrightarrow> i < 64 \<Longrightarrow> j < 64 \<Longrightarrow> i \<noteq> j \<Longrightarrow> apart i j (ps ! i) (ps ! j)"
  by (simp add: table_ok_def)

lemma table_ok_length: "table_ok ps cur nxt h \<Longrightarrow> length ps = 64"
  by (simp add: table_ok_def)

lemma apart_sym: "apart i j p q \<longleftrightarrow> apart j i q p"
  by (auto simp: apart_def)

lemma find_process_pid:
  assumes "sched_ok s" "i < 64" "state (process_table s ! i) \<noteq> FREE"
  shows "find_process (pid (process_table s ! i)) s = Some i"
proof (cases "find_process (pid (process_table s ! i)) s")
  case None
  have "process_table s ! i \<in> set (process_table s)" using assms by (simp add: table_ok_def)
  then show ?thesis using None assms by (auto simp: find_process_def find_slot_None)
next
  case (Some j)
  note j = find_process_Some [OF Some assms(1)]
  have "i = j"
  proof (rule ccontr)
    assume "i \<noteq> j"
    then have "apart i j (process_table s ! i) (process_table s ! j)"
      using table_ok_apart [OF assms(1,2)] j by blast
    then show False using j assms(3) by (simp add: apart_def)
  qed
  then show ?thesis using Some by simp
qed

lemma running_found:
  "sched_ok s \<Longrightarrow> i < 64 \<Longrightarrow> state (process_table s ! i) = RUNNING \<Longrightarrow> find_process (current_pid s) s = Some i"
proof -
  assume ok: "sched_ok s" and i: "i < 64" "state (process_table s ! i) = RUNNING"
  then have "pid (process_table s ! i) = current_pid s"
    using table_ok_proc [OF ok i(1)] by (simp add: proc_ok_def)
  then show ?thesis using find_process_pid [OF ok i(1)] i(2) by simp
qed

text \<open>Changing one block, and possibly the current process, the next number and the heap.\<close>

lemma table_ok_upd:
  assumes ok: "table_ok ps cur nxt h" and i: "i < 64" and h: "heap_inv h'"
    and p: "proc_ok cur' nxt' h' i p"
    and others: "\<And>j. j < 64 \<Longrightarrow> j \<noteq> i \<Longrightarrow> proc_ok cur' nxt' h' j (ps ! j) \<and> apart i j p (ps ! j)"
  shows "table_ok (ps[i := p]) cur' nxt' h'"
proof -
  have "proc_ok cur' nxt' h' j (ps[i := p] ! j)" if "j < 64" for j
    using that p others ok by (cases "j = i") (auto simp: table_ok_def)
  moreover have "apart j k (ps[i := p] ! j) (ps[i := p] ! k)" if "j < 64" "k < 64" "j \<noteq> k" for j k
  proof (cases "j = i")
    case True
    then show ?thesis using that others [of k] ok by (simp add: table_ok_def)
  next
    case False
    then show ?thesis
      using that others [of j] ok apart_sym [of j k "ps ! j" p] by (cases "k = i") (simp_all add: table_ok_def)
  qed
  ultimately show ?thesis using ok h by (simp add: table_ok_def)
qed

text \<open>Changing only the state and the saved registers of one block.\<close>

lemma table_ok_state:
  assumes ok: "table_ok ps cur nxt h" and i: "i < 64" and a: "state (ps ! i) \<noteq> FREE" "alive p"
    and p: "pid p = pid (ps ! i)" "kernel_stack p = kernel_stack (ps ! i)"
    and r: "state p = RUNNING \<Longrightarrow> pid p = cur"
  shows "table_ok (ps[i := p]) cur nxt h"
proof (rule table_ok_upd [OF ok i])
  have st: "stacked (ps ! i)" if "stacked p"
    using that table_ok_proc [OF ok i] a p by (auto simp: proc_ok_def stacked_def alive_def)
  show "heap_inv h" using ok by (simp add: table_ok_def)
  show "proc_ok cur nxt h i p"
    using table_ok_proc [OF ok i] a p r st by (auto simp: proc_ok_def owns_stack_def alive_def)
  show "proc_ok cur nxt h j (ps ! j) \<and> apart i j p (ps ! j)" if "j < 64" "j \<noteq> i" for j
    using table_ok_proc [OF ok that(1)] table_ok_apart [OF ok i that(1)] that a p st
    by (auto simp: apart_def alive_def)
qed

lemma table_ok_same:
  assumes ok: "table_ok ps cur nxt h" and i: "i < 64"
    and p: "pid p = pid (ps ! i)" "kernel_stack p = kernel_stack (ps ! i)" "state p = state (ps ! i)"
  shows "table_ok (ps[i := p]) cur nxt h"
proof (rule table_ok_upd [OF ok i])
  show "heap_inv h" using ok by (simp add: table_ok_def)
  show "proc_ok cur nxt h i p"
    using table_ok_proc [OF ok i] p by (simp add: proc_ok_def owns_stack_def alive_def stacked_def)
  show "proc_ok cur nxt h j (ps ! j) \<and> apart i j p (ps ! j)" if "j < 64" "j \<noteq> i" for j
    using table_ok_proc [OF ok that(1)] table_ok_apart [OF ok i that(1)] that p
    by (simp add: apart_def alive_def stacked_def)
qed

section \<open>Every operation keeps the invariant\<close>

lemma call_context_switch_simps [simp]:
  "current_pid (call_context_switch l c n s) = current_pid s" "next_pid (call_context_switch l c n s) = next_pid s"
  "kheap (call_context_switch l c n s) = kheap s"
  "scheduler_enabled (call_context_switch l c n s) = scheduler_enabled s"
  "process_table (call_context_switch l c n s) =
     (process_table s)[c := (process_table s ! c)\<lparr>esp := fst (context_switch n
        (push (yield_ret l) (push (table_addr l + 108 * of_nat c + 8) (push n (machine s)))))\<rparr>]"
  by (simp_all add: call_context_switch_def Let_def split_beta)

lemma call_context_switch_ok [inv_intros]:
  assumes ok: "sched_ok s" and c: "c < 64"
  shows "sched_ok (call_context_switch l c n s)"
  unfolding call_context_switch_simps by (rule table_ok_same [OF ok c]) simp_all

text \<open>The switch itself: making \<open>n\<close> the running process when no other one is running.\<close>

lemma table_ok_run:
  assumes ok: "table_ok ps cur nxt h" and n: "n < 64" "alive (ps ! n)"
    and none: "\<And>i. i < 64 \<Longrightarrow> i \<noteq> n \<Longrightarrow> state (ps ! i) \<noteq> RUNNING"
  shows "table_ok (ps[n := (ps ! n)\<lparr>state := RUNNING\<rparr>]) (pid (ps ! n)) nxt h"
proof (rule table_ok_upd [OF ok n(1)])
  show "heap_inv h" using ok by (simp add: table_ok_def)
  show "proc_ok (pid (ps ! n)) nxt h n ((ps ! n)\<lparr>state := RUNNING\<rparr>)"
    using table_ok_proc [OF ok n(1)] n(2) by (auto simp: proc_ok_def owns_stack_def alive_def stacked_def)
  show "proc_ok (pid (ps ! n)) nxt h j (ps ! j) \<and> apart n j ((ps ! n)\<lparr>state := RUNNING\<rparr>) (ps ! j)"
    if "j < 64" "j \<noteq> n" for j
    using table_ok_proc [OF ok that(1)] table_ok_apart [OF ok n(1) that(1)] none [OF that] that n(2)
    by (auto simp: proc_ok_def apart_def alive_def stacked_def)
qed

text \<open>
  What \<open>process_yield\<close> does: nothing, when there is no other process to run; otherwise the current
  process, if it was running, becomes ready, the next ready slot becomes the running one, and the
  machine switches stacks.
\<close>

definition demoted :: "sched \<Rightarrow> process list" where
  "demoted s =
     (case find_process (current_pid s) s of
        Some c \<Rightarrow> if state (process_table s ! c) = RUNNING
                  then (process_table s)[c := (process_table s ! c)\<lparr>state := READY\<rparr>] else process_table s
      | None \<Rightarrow> process_table s)"

definition promoted :: "nat \<Rightarrow> sched \<Rightarrow> sched" where
  "promoted n s =
     s\<lparr>process_table := (demoted s)[n := (process_table s ! n)\<lparr>state := RUNNING\<rparr>],
       current_pid := pid (process_table s ! n)\<rparr>"

lemma process_yield_cases:
  assumes ok: "sched_ok s"
  obtains (stay) "process_yield l s = s"
      "\<And>i. scheduler_enabled s \<Longrightarrow> i < 64 \<Longrightarrow> state (process_table s ! i) = READY \<Longrightarrow>
         \<exists>c. find_process (current_pid s) s = Some c \<and> state (process_table s ! c) = READY"
  | (switch) n k where "scheduler_enabled s" "n < 64" "k < 64" "n = slot_after (current_pid s) k"
      "state (process_table s ! n) = READY" "find_process (current_pid s) s \<noteq> Some n"
      "\<And>j. j < k \<Longrightarrow> state (process_table s ! slot_after (current_pid s) j) \<noteq> READY"
      "process_yield l s =
        (case find_process (current_pid s) s of
           Some c \<Rightarrow> call_context_switch l c (esp (process_table s ! n)) (promoted n s) | None \<Rightarrow> promoted n s)"
proof (cases "scheduler_enabled s")
  case False
  then show ?thesis using stay by (simp add: process_yield_def)
next
  case en: True
  have len: "length (process_table s) = 64" using ok by (rule table_ok_length)
  then show ?thesis
  proof (cases rule: find_next_ready_cases)
    case (same)
    then have "process_yield l s = s" using en by (auto simp: process_yield_def Let_def split: option.split)
    then show ?thesis using stay same(2) by blast
  next
    case (ready n k)
    have n: "n < 64" using ready(3) by simp
    show ?thesis
    proof (cases "find_process (current_pid s) s = Some n")
      case True
      then have "process_yield l s = s" using en ready(1) by (simp add: process_yield_def Let_def)
      then show ?thesis using stay True ready(4) by blast
    next
      case False
      have "process_yield l s =
        (case find_process (current_pid s) s of
           Some c \<Rightarrow> call_context_switch l c (esp (process_table s ! n)) (promoted n s) | None \<Rightarrow> promoted n s)"
      proof (cases "find_process (current_pid s) s")
        case None
        then show ?thesis
          using en ready(1) len n by (simp add: process_yield_def Let_def promoted_def demoted_def upd_proc_def)
      next
        case (Some c)
        then have "c \<noteq> n" using False by auto
        then show ?thesis
          using en ready(1) len n Some by (simp add: process_yield_def Let_def promoted_def demoted_def upd_proc_def)
      qed
      then show ?thesis using switch [of n k] en n ready False by blast
    qed
  qed
qed

lemma demoted_ok:
  assumes ok: "sched_ok s"
  shows "table_ok (demoted s) (current_pid s) (next_pid s) (kheap s)"
    "i < 64 \<Longrightarrow> state (demoted s ! i) \<noteq> RUNNING"
    "demoted s ! i = process_table s ! i \<or> state (process_table s ! i) = RUNNING"
proof -
  have len: "length (process_table s) = 64" using ok by (rule table_ok_length)
  have run: "find_process (current_pid s) s = Some j" if "j < 64" "state (process_table s ! j) = RUNNING" for j
    using running_found [OF ok that] .
  have "table_ok (demoted s) (current_pid s) (next_pid s) (kheap s) \<and>
    (i < 64 \<longrightarrow> state (demoted s ! i) \<noteq> RUNNING) \<and>
    (demoted s ! i = process_table s ! i \<or> state (process_table s ! i) = RUNNING)"
  proof (cases "find_process (current_pid s) s")
    case None
    then show ?thesis using ok run by (auto simp: demoted_def)
  next
    case (Some c)
    have c: "c < 64" using find_process_Some [OF Some ok] by simp
    show ?thesis
    proof (cases "state (process_table s ! c) = RUNNING")
      case True
      then have d: "demoted s = (process_table s)[c := (process_table s ! c)\<lparr>state := READY\<rparr>]"
        using Some by (simp add: demoted_def)
      have "table_ok (demoted s) (current_pid s) (next_pid s) (kheap s)"
        unfolding d using True by (intro table_ok_state [OF ok c]) (simp_all add: alive_def)
      moreover have "state (demoted s ! i) \<noteq> RUNNING" if "i < 64"
        using run [OF that] Some c len by (cases "i = c") (auto simp: d)
      moreover have "demoted s ! i = process_table s ! i \<or> state (process_table s ! i) = RUNNING"
        using True by (cases "i = c") (simp_all add: d)
      ultimately show ?thesis by blast
    next
      case False
      then have "demoted s = process_table s" using Some by (simp add: demoted_def)
      then show ?thesis using ok run [of i] Some False by auto
    qed
  qed
  then show "table_ok (demoted s) (current_pid s) (next_pid s) (kheap s)"
    "i < 64 \<Longrightarrow> state (demoted s ! i) \<noteq> RUNNING"
    "demoted s ! i = process_table s ! i \<or> state (process_table s ! i) = RUNNING" by blast+
qed

lemma promoted_ok:
  assumes ok: "sched_ok s" and n: "n < 64" "state (process_table s ! n) = READY"
  shows "sched_ok (promoted n s)"
proof -
  have "demoted s ! n = process_table s ! n" using demoted_ok(3) [OF ok, of n] n(2) by auto
  then have "table_ok ((demoted s)[n := (process_table s ! n)\<lparr>state := RUNNING\<rparr>])
      (pid (process_table s ! n)) (next_pid s) (kheap s)"
    using table_ok_run [OF demoted_ok(1) [OF ok] n(1)] demoted_ok(2) [OF ok] n(2) by (simp add: alive_def stacked_def)
  then show ?thesis by (simp add: promoted_def)
qed

lemma process_yield_ok [inv_intros]:
  assumes ok: "sched_ok s"
  shows "sched_ok (process_yield l s)"
  using ok
proof (cases rule: process_yield_cases [where l = l])
  case stay
  then show ?thesis using ok by simp
next
  case (switch n k)
  note pr = promoted_ok [OF ok switch(2,5)]
  show ?thesis
  proof (cases "find_process (current_pid s) s")
    case None
    then show ?thesis using switch pr by simp
  next
    case (Some c)
    then have "c < 64" using find_process_Some [OF Some ok] by simp
    then show ?thesis using switch(8) Some call_context_switch_ok [OF pr] by simp
  qed
qed

lemma process_unblock_ok [inv_intros]:
  assumes ok: "sched_ok s"
  shows "sched_ok (process_unblock q s)"
proof (cases "find_process q s")
  case (Some i)
  then have "i < 64" using find_process_Some [OF Some ok] by simp
  then have "state (process_table s ! i) = BLOCKED \<Longrightarrow>
      table_ok ((process_table s)[i := (process_table s ! i)\<lparr>state := READY\<rparr>]) (current_pid s) (next_pid s) (kheap s)"
    by (intro table_ok_state [OF ok]) (simp_all add: alive_def)
  then show ?thesis using Some ok by (simp add: process_unblock_def)
qed (simp add: process_unblock_def ok)

lemma block_slot_ok:
  assumes ok: "sched_ok s" and i: "i < 64" "state (process_table s ! i) \<noteq> FREE"
  shows "sched_ok (upd_proc i (\<lambda>p. p\<lparr>state := BLOCKED\<rparr>) s)"
  unfolding upd_proc_simps using i by (intro table_ok_state [OF ok]) (simp_all add: alive_def)

lemma live_mono_owns: "owns_stack h p \<Longrightarrow> live h \<subseteq> live h' \<Longrightarrow> owns_stack h' p"
  by (auto simp: owns_stack_def)

lemma live_address_unique: "heap_inv h \<Longrightarrow> (a, k) \<in> live h \<Longrightarrow> (a, l) \<in> live h \<Longrightarrow> k = l"
  using kheap.live_apart [of h a k a l] by auto

text \<open>The two outcomes of creating a process in slot \<open>i\<close>.\<close>

definition new_process :: "u8 list \<Rightarrow> sched \<Rightarrow> process" where
  "new_process name s = blank_process\<lparr>pid := next_pid s, state := READY, parent_pid := current_pid s,
     pname := take 63 name @ replicate (64 - length (take 63 name)) 0\<rparr>"

lemma new_process_simps [simp]:
  "pid (new_process name s) = next_pid s" "state (new_process name s) = READY"
  by (simp_all add: new_process_def)

lemma process_create_eq:
  assumes "find_free_slot s = Some i" "i < length (process_table s)" "kmalloc KERNEL_STACK_SIZE (kheap s) = Some (stack, h)"
  shows "stack = 0 \<Longrightarrow> process_create name entry s =
      Some (- 1, s\<lparr>process_table := (process_table s)[i := (new_process name s)\<lparr>kernel_stack := 0, state := FREE\<rparr>],
        next_pid := next_pid s + 1, kheap := h\<rparr>)"
    and "stack \<noteq> 0 \<Longrightarrow> process_create name entry s =
      (let (sp, mem) = store_frame [entry, 0, 0, 0, 0] (stack + KERNEL_STACK_SIZE) (m_mem (machine s))
       in Some (sint (next_pid s),
        s\<lparr>process_table := (process_table s)[i := (new_process name s)\<lparr>kernel_stack := stack, esp := sp, ebp := 0, eip := entry\<rparr>],
          next_pid := next_pid s + 1, scheduler_enabled := True, kheap := h, machine := (machine s)\<lparr>m_mem := mem\<rparr>\<rparr>))"
  using assms
  by (simp_all add: process_create_def upd_proc_def new_process_def Let_def split_beta del: store_frame.simps)

lemma process_create_made:
  assumes "find_free_slot s = Some i" "i < length (process_table s)"
    and "kmalloc KERNEL_STACK_SIZE (kheap s) = Some (stack, h)" "stack \<noteq> 0"
  shows "\<exists>p m. state p = READY \<and> pid p = next_pid s \<and> process_create name entry s = Some (sint (next_pid s),
    s\<lparr>process_table := (process_table s)[i := p], next_pid := next_pid s + 1, scheduler_enabled := True,
      kheap := h, machine := m\<rparr>)"
  unfolding process_create_eq(2) [OF assms] split_beta Let_def
  by (intro exI conjI refl) simp_all

lemma process_create_ok:
  assumes ok: "sched_ok s" and nxt: "unat (next_pid s) + 1 < 4294967296"
  shows "\<exists>r s'. process_create name entry s = Some (r, s') \<and> sched_ok s'"
proof (cases "find_free_slot s")
  case None
  then show ?thesis using ok by (simp add: process_create_def)
next
  case (Some i)
  let ?ps = "process_table s"
  have len: "length ?ps = 64" using ok by (rule table_ok_length)
  have i: "i < 64" "state (?ps ! i) = FREE"
    using find_slot_Some [of _ ?ps i] Some len by (auto simp: find_free_slot_def)
  have i0: "0 < i" using i table_ok_proc [OF ok, of 0] by (cases i) (auto simp: proc_ok_def alive_def stacked_def)
  have hi: "heap_inv (kheap s)" using ok by (simp add: table_ok_def)
  obtain stack h where km: "kmalloc KERNEL_STACK_SIZE (kheap s) = Some (stack, h)" and h: "heap_inv h"
    using kheap.malloc_total [OF hi] by blast
  have nx: "next_pid s < next_pid s + 1" using nxt by (simp add: unat_less_u32 unat_Suc_u32)
  show ?thesis
  proof (cases "stack = 0")
    case True
    have lv: "live h = live (kheap s)" using kheap.malloc_null [OF hi] km True by blast
    define p where "p = (new_process name s)\<lparr>kernel_stack := 0, state := FREE\<rparr>"
    have p: "state p = FREE" by (simp add: p_def)
    have "table_ok (?ps[i := p]) (current_pid s) (next_pid s + 1) h"
    proof (rule table_ok_upd [OF ok i(1) h])
      show "proc_ok (current_pid s) (next_pid s + 1) h i p" using p i0 by (simp add: proc_ok_def alive_def stacked_def)
      show "proc_ok (current_pid s) (next_pid s + 1) h j (?ps ! j) \<and> apart i j p (?ps ! j)" if "j < 64" "j \<noteq> i" for j
        using table_ok_proc [OF ok that(1)] lv nx p
        by (auto simp: proc_ok_def owns_stack_def apart_def alive_def stacked_def)
    qed
    moreover have "process_create name entry s =
        Some (- 1, s\<lparr>process_table := ?ps[i := p], next_pid := next_pid s + 1, kheap := h\<rparr>)"
      using process_create_eq(1) [OF Some _ km True] i(1) len by (simp add: p_def)
    ultimately show ?thesis by auto
  next
    case False
    obtain k where k: "live h = insert (stack, k) (live (kheap s))" "(stack, k) \<notin> live (kheap s)" "8192 \<le> k"
      using kheap.malloc_live [OF hi km False] by auto
    define sp mem where "sp = fst (store_frame [entry, 0, 0, 0, 0] (stack + 8192) (m_mem (machine s)))"
      and "mem = snd (store_frame [entry, 0, 0, 0, 0] (stack + 8192) (m_mem (machine s)))"
    define p where "p = (new_process name s)\<lparr>kernel_stack := stack, esp := sp, ebp := 0, eip := entry\<rparr>"
    have p: "state p = READY" "pid p = next_pid s" "kernel_stack p = stack" by (simp_all add: p_def)
    have "table_ok (?ps[i := p]) (current_pid s) (next_pid s + 1) h"
    proof (rule table_ok_upd [OF ok i(1) h])
      show "proc_ok (current_pid s) (next_pid s + 1) h i p"
        using p i0 nx k False by (auto simp: proc_ok_def owns_stack_def)
      show "proc_ok (current_pid s) (next_pid s + 1) h j (?ps ! j) \<and> apart i j p (?ps ! j)" if j: "j < 64" "j \<noteq> i" for j
      proof
        note pj = table_ok_proc [OF ok j(1)]
        show "proc_ok (current_pid s) (next_pid s + 1) h j (?ps ! j)"
          using pj nx k(1) by (auto simp: proc_ok_def owns_stack_def)
        have "kernel_stack (?ps ! j) \<noteq> stack" if al: "0 < j" "stacked (?ps ! j)"
        proof
          assume e: "kernel_stack (?ps ! j) = stack"
          obtain l where "(stack, l) \<in> live (kheap s)"
            using pj al e by (auto simp: proc_ok_def owns_stack_def)
          then show False using live_address_unique [OF h, of stack k l] k(1,2) by auto
        qed
        moreover have "state (?ps ! j) \<noteq> FREE \<Longrightarrow> pid (?ps ! j) \<noteq> next_pid s" using pj by (auto simp: proc_ok_def)
        ultimately show "apart i j p (?ps ! j)" using p by (auto simp: apart_def)
      qed
    qed
    moreover have "process_create name entry s =
        Some (sint (next_pid s), s\<lparr>process_table := ?ps[i := p], next_pid := next_pid s + 1, kheap := h,
          scheduler_enabled := True, machine := (machine s)\<lparr>m_mem := mem\<rparr>\<rparr>)"
      using process_create_eq(2) [OF Some _ km False] i(1) len
      by (simp add: p_def split_beta sp_def mem_def del: store_frame.simps)
    ultimately show ?thesis by auto
  qed
qed

text \<open>The process that exits gives its stack back; its parent is woken and the next process runs.\<close>

lemma process_exit_parts:
  assumes ok: "sched_ok s" and Some: "find_process (current_pid s) s = Some c" and False: "pid (process_table s ! c) \<noteq> 0"
  shows "\<exists>u. sched_ok u \<and> process_exit l code s = Some (process_yield l (process_unblock (parent_pid (process_table u ! c)) u)) \<and>
    process_table u = (process_table s)[c := (process_table s ! c)\<lparr>state := ZOMBIE, exit_code := code, kernel_stack := 0\<rparr>]"
proof -
    let ?ps = "process_table s"
    have len: "length ?ps = 64" using ok by (rule table_ok_length)
    have c: "c < 64" "state (?ps ! c) \<noteq> FREE" using find_process_Some [OF Some ok] by auto
    have c0: "0 < c" using False table_ok_proc [OF ok, of 0] by (cases c) (auto simp: proc_ok_def)
    have hi: "heap_inv (kheap s)" using ok by (simp add: table_ok_def)
    define p where "p = (?ps ! c)\<lparr>state := ZOMBIE, exit_code := code, kernel_stack := 0\<rparr>"
    have "\<exists>t. (let s = upd_proc c (\<lambda>p. p\<lparr>state := ZOMBIE, exit_code := code\<rparr>) s;
                stack = kernel_stack (process_table s ! c)
            in if stack \<noteq> 0
               then (case kfree stack (kheap s) of
                       None \<Rightarrow> None
                     | Some h \<Rightarrow> Some (upd_proc c (\<lambda>p. p\<lparr>kernel_stack := 0\<rparr>) (s\<lparr>kheap := h\<rparr>)))
               else Some s) = Some t \<and> sched_ok t \<and> process_table t = ?ps[c := p]"
    proof (cases "kernel_stack (?ps ! c) = 0")
      case True
      then have "(?ps ! c)\<lparr>state := ZOMBIE, exit_code := code\<rparr> = p"
        by (intro process.equality) (simp_all add: p_def)
      then have t: "upd_proc c (\<lambda>p. p\<lparr>state := ZOMBIE, exit_code := code\<rparr>) s = s\<lparr>process_table := ?ps[c := p]\<rparr>"
        by (simp add: upd_proc_def)
      have "table_ok (?ps[c := p]) (current_pid s) (next_pid s) (kheap s)"
      proof (rule table_ok_upd [OF ok c(1) hi])
        show "proc_ok (current_pid s) (next_pid s) (kheap s) c p"
          using table_ok_proc [OF ok c(1)] c c0 by (auto simp: p_def proc_ok_def alive_def stacked_def)
        show "proc_ok (current_pid s) (next_pid s) (kheap s) j (?ps ! j) \<and> apart c j p (?ps ! j)"
          if "j < 64" "j \<noteq> c" for j
          using table_ok_proc [OF ok that(1)] table_ok_apart [OF ok c(1) that(1)] that c(2)
          by (auto simp: p_def apart_def alive_def stacked_def)
      qed
      then show ?thesis using True len c(1) by (simp add: t p_def)
    next
      case ns: False
      have al: "alive (?ps ! c)" using table_ok_proc [OF ok c(1)] ns c(2) by (auto simp: proc_ok_def alive_def stacked_def)
      obtain k where k: "(kernel_stack (?ps ! c), k) \<in> live (kheap s)"
        using table_ok_proc [OF ok c(1)] al c0 ns by (auto simp: proc_ok_def owns_stack_def stacked_def)
      obtain h where kf: "kfree (kernel_stack (?ps ! c)) (kheap s) = Some h" and h: "heap_inv h"
        using kheap.release_total [OF hi k] by blast
      have lv: "live h = live (kheap s) - {(kernel_stack (?ps ! c), k)}"
        by (rule kheap.release_live [OF hi k kf])
      have "table_ok (?ps[c := p]) (current_pid s) (next_pid s) h"
      proof (rule table_ok_upd [OF ok c(1) h])
        show "proc_ok (current_pid s) (next_pid s) h c p"
          using table_ok_proc [OF ok c(1)] c c0 by (auto simp: p_def proc_ok_def alive_def stacked_def)
        show "proc_ok (current_pid s) (next_pid s) h j (?ps ! j) \<and> apart c j p (?ps ! j)"
          if j: "j < 64" "j \<noteq> c" for j
        proof
          have ne: "kernel_stack (?ps ! j) \<noteq> kernel_stack (?ps ! c)" if "0 < j" "stacked (?ps ! j)"
            using table_ok_apart [OF ok c(1) j(1)] j(2) that c0 al ns by (auto simp: apart_def stacked_def)
          have "owns_stack h (?ps ! j)" if "0 < j" "stacked (?ps ! j)"
            using table_ok_proc [OF ok j(1)] ne that lv by (auto simp: proc_ok_def owns_stack_def)
          then show "proc_ok (current_pid s) (next_pid s) h j (?ps ! j)" using table_ok_proc [OF ok j(1)] by (simp add: proc_ok_def)
          show "apart c j p (?ps ! j)" using table_ok_apart [OF ok c(1) j(1)] j(2) c(2) by (auto simp: p_def apart_def alive_def stacked_def)
        qed
      qed
      then show ?thesis using ns kf len c(1) by (simp add: upd_proc_def p_def)
    qed
    then obtain t where t: "(let s = upd_proc c (\<lambda>p. p\<lparr>state := ZOMBIE, exit_code := code\<rparr>) s;
                stack = kernel_stack (process_table s ! c)
            in if stack \<noteq> 0
               then (case kfree stack (kheap s) of
                       None \<Rightarrow> None
                     | Some h \<Rightarrow> Some (upd_proc c (\<lambda>p. p\<lparr>kernel_stack := 0\<rparr>) (s\<lparr>kheap := h\<rparr>)))
               else Some s) = Some t" "sched_ok t" "process_table t = ?ps[c := p]" by blast
    then have "process_exit l code s =
        Some (process_yield l (process_unblock (parent_pid (process_table t ! c)) t))"
      using Some False by (simp add: process_exit_def process_unblock_def Let_def)
    then show ?thesis using t(2,3) unfolding p_def by blast
qed

lemma process_exit_ok:
  assumes ok: "sched_ok s"
  shows "\<exists>s'. process_exit l code s = Some s' \<and> sched_ok s'"
proof (cases "find_process (current_pid s) s")
  case None
  then show ?thesis using ok by (simp add: process_exit_def)
next
  case (Some c)
  show ?thesis
  proof (cases "pid (process_table s ! c) = 0")
    case True
    then show ?thesis using ok Some by (simp add: process_exit_def)
  next
    case False
    then show ?thesis using process_exit_parts [OF ok Some False, of l code] process_yield_ok [OF process_unblock_ok] by blast
  qed
qed

lemma process_block_ok [inv_intros]:
  assumes ok: "sched_ok s"
  shows "sched_ok (process_block q s)"
proof (cases "find_process q s")
  case (Some i)
  then show ?thesis using block_slot_ok [OF ok, of i] find_process_Some [OF Some ok] by (simp add: process_block_def)
qed (simp add: process_block_def ok)

lemma process_wait_step_ok:
  assumes ok: "sched_ok s" and ch: "child < 64"
  shows "sched_ok (snd (process_wait_step l child s))"
proof (cases "state (process_table s ! child) = ZOMBIE")
  case False
  then have "snd (process_wait_step l child s) = process_yield l (process_block (current_pid s) s)"
    by (simp add: process_wait_step_def process_block_def)
  then show ?thesis using ok by (auto intro: inv_intros)
next
  case True
  let ?ps = "process_table s" and ?p = "(process_table s ! child)\<lparr>state := FREE\<rparr>"
  have c0: "0 < child" using True table_ok_proc [OF ok, of 0] by (cases child) (auto simp: proc_ok_def alive_def stacked_def)
  have "table_ok (?ps[child := ?p]) (current_pid s) (next_pid s) (kheap s)"
  proof (rule table_ok_upd [OF ok ch])
    show "heap_inv (kheap s)" using ok by (simp add: table_ok_def)
    show "proc_ok (current_pid s) (next_pid s) (kheap s) child ?p" using c0 by (simp add: proc_ok_def alive_def stacked_def)
    show "proc_ok (current_pid s) (next_pid s) (kheap s) j (?ps ! j) \<and> apart child j ?p (?ps ! j)"
      if "j < 64" "j \<noteq> child" for j
      using table_ok_proc [OF ok that(1)] by (simp add: apart_def alive_def stacked_def)
  qed
  then show ?thesis using True by (simp add: process_wait_step_def)
qed

lemma process_init_ok:
  assumes "heap_inv (kheap s)"
  shows "sched_ok (process_init s)"
  using assms by (auto simp: process_init_def table_ok_def proc_ok_def apart_def alive_def stacked_def blank_process_def
      nth_list_update)

section \<open>Runs\<close>

text \<open>
  What the kernel can do with processes, in any order: the calls of the interface with any arguments, and the steps of
  the loop of \<open>process_wait\<close>, on a block of the table that was found before.
\<close>

datatype sched_op = Create "u8 list" u32 | Exit u32 | Yield | Tick | Block u32 | Unblock u32 | Wait nat

fun sched_do :: "linkage \<Rightarrow> sched_op \<Rightarrow> sched \<Rightarrow> sched option" where
  "sched_do l (Create name entry) s = map_option snd (process_create name entry s)"
| "sched_do l (Exit code) s = process_exit l code s"
| "sched_do l Yield s = Some (process_yield l s)"
| "sched_do l Tick s = Some (process_schedule l s)"
| "sched_do l (Block q) s = Some (process_block q s)"
| "sched_do l (Unblock q) s = Some (process_unblock q s)"
| "sched_do l (Wait child) s = Some (if child < MAX_PROCESSES then snd (process_wait_step l child s) else s)"

primrec sched_ops :: "linkage \<Rightarrow> sched_op list \<Rightarrow> sched \<Rightarrow> sched option" where
  "sched_ops l [] s = Some s"
| "sched_ops l (x # xs) s = (case sched_do l x s of None \<Rightarrow> None | Some t \<Rightarrow> sched_ops l xs t)"

fun creates :: "sched_op list \<Rightarrow> nat" where
  "creates [] = 0"
| "creates (Create name entry # xs) = Suc (creates xs)"
| "creates (_ # xs) = creates xs"

text \<open>
  \<open>process_block\<close> of a process that has exited, and a wait by one, make it \<open>BLOCKED\<close>, and it may run again without a stack.
  Whether an operation does that, and whether one of a run does.
\<close>

definition is_zombie :: "u32 \<Rightarrow> sched \<Rightarrow> bool" where
  "is_zombie q s \<longleftrightarrow> (case find_process q s of None \<Rightarrow> False | Some i \<Rightarrow> state (process_table s ! i) = ZOMBIE)"

fun revives :: "sched_op \<Rightarrow> sched \<Rightarrow> bool" where
  "revives (Block q) s = is_zombie q s"
| "revives (Wait child) s = (state (process_table s ! child) \<noteq> ZOMBIE \<and> is_zombie (current_pid s) s)"
| "revives _ s = False"

primrec spares :: "linkage \<Rightarrow> sched_op list \<Rightarrow> sched \<Rightarrow> bool" where
  "spares l [] s = True"
| "spares l (x # xs) s = (\<not> revives x s \<and> (case sched_do l x s of None \<Rightarrow> True | Some t \<Rightarrow> spares l xs t))"

lemma process_yield_next [simp]: "next_pid (process_yield l s) = next_pid s"
  by (simp add: process_yield_def Let_def split: option.splits)

lemma process_unblock_next [simp]: "next_pid (process_unblock q s) = next_pid s" "next_pid (process_block q s) = next_pid s"
  by (simp_all add: process_unblock_def process_block_def split: option.splits)

lemma process_exit_next: "process_exit l code s = Some s' \<Longrightarrow> next_pid s' = next_pid s"
  by (auto simp: process_exit_def Let_def split: option.splits if_splits)

lemma process_create_next: "process_create name entry s = Some (r, s') \<Longrightarrow> next_pid s' = next_pid s \<or> next_pid s' = next_pid s + 1"
  by (auto simp: process_create_def Let_def split: option.splits if_splits prod.splits)

lemma sched_do_ok:
  assumes ok: "sched_ok s" and n: "unat (next_pid s) + creates (x # xs) < 4294967296"
  shows "\<exists>t. sched_do l x s = Some t \<and> sched_ok t \<and> unat (next_pid t) + creates xs < 4294967296"
proof (cases x)
  case (Create name entry)
  then have "unat (next_pid s) + 1 < 4294967296" using n by simp
  then obtain r t where t: "process_create name entry s = Some (r, t)" "sched_ok t" using process_create_ok [OF ok] by blast
  have "unat (next_pid t) \<le> unat (next_pid s) + 1"
    using process_create_next [OF t(1)] n Create by (auto simp: unat_Suc_u32)
  then show ?thesis using t n Create by simp
next
  case (Exit code)
  obtain t where "process_exit l code s = Some t" "sched_ok t" using process_exit_ok [OF ok] by blast
  then show ?thesis using Exit n process_exit_next by auto
next
  case (Wait child)
  have "next_pid (snd (process_wait_step l child s)) = next_pid s" by (auto simp: process_wait_step_def Let_def split: option.splits)
  then show ?thesis using Wait ok n process_wait_step_ok [OF ok, of child l] by simp
qed (use ok n process_yield_ok [OF ok, of l] process_block_ok [OF ok] process_unblock_ok [OF ok] in \<open>auto simp: process_schedule_def\<close>)

lemma sched_ops_ok:
  "sched_ok s \<Longrightarrow> unat (next_pid s) + creates xs < 4294967296 \<Longrightarrow> \<exists>t. sched_ops l xs s = Some t \<and> sched_ok t"
proof (induction xs arbitrary: s)
  case (Cons x xs)
  obtain t where t: "sched_do l x s = Some t" "sched_ok t" "unat (next_pid t) + creates xs < 4294967296"
    using sched_do_ok [OF Cons.prems] by blast
  then show ?case using Cons.IH by simp
qed simp

text \<open>As long as no process that has exited is made runnable again, every process that can run has its stack.\<close>

definition all_stacked :: "sched \<Rightarrow> bool" where
  "all_stacked s \<longleftrightarrow> (\<forall>i < 64. 0 < i \<and> alive (process_table s ! i) \<longrightarrow> kernel_stack (process_table s ! i) \<noteq> 0)"

lemma all_stacked_mono:
  assumes "all_stacked s" and "\<And>i. i < 64 \<Longrightarrow> 0 < i \<Longrightarrow> alive (process_table t ! i) \<Longrightarrow>
      alive (process_table s ! i) \<and> kernel_stack (process_table t ! i) = kernel_stack (process_table s ! i) \<or>
      kernel_stack (process_table t ! i) \<noteq> 0"
  shows "all_stacked t"
  using assms unfolding all_stacked_def by metis

lemma all_stacked_upd:
  assumes "all_stacked s" "process_table t = (process_table s)[i := p]" "length (process_table s) = 64"
    and "alive p \<Longrightarrow> alive (process_table s ! i) \<and> kernel_stack p = kernel_stack (process_table s ! i) \<or> kernel_stack p \<noteq> 0"
  shows "all_stacked t"
proof (rule all_stacked_mono [OF assms(1)])
  fix j assume "j < 64" "alive (process_table t ! j)"
  then show "alive (process_table s ! j) \<and> kernel_stack (process_table t ! j) = kernel_stack (process_table s ! j) \<or> kernel_stack (process_table t ! j) \<noteq> 0"
    using assms(2-4) by (cases "j = i") auto
qed

lemma process_yield_stacked:
  assumes ok: "sched_ok s" and st: "all_stacked s"
  shows "all_stacked (process_yield l s)"
  using ok
proof (cases rule: process_yield_cases [where l = l])
  case stay
  then show ?thesis using st by simp
next
  case (switch n k)
  have len: "length (process_table s) = 64" using ok by (rule table_ok_length)
  have d: "alive (demoted s ! i) \<longleftrightarrow> alive (process_table s ! i)" "kernel_stack (demoted s ! i) = kernel_stack (process_table s ! i)"
    "length (demoted s) = 64" if "i < 64" for i
    using len that find_process_Some [OF _ ok] by (auto simp: demoted_def alive_def nth_list_update split: option.splits)
  have p: "alive (process_table (promoted n s) ! i) \<longleftrightarrow> alive (process_table s ! i)"
    "kernel_stack (process_table (promoted n s) ! i) = kernel_stack (process_table s ! i)"
    "length (process_table (promoted n s)) = 64" if "i < 64" for i
    using d [OF that] that switch(5) by (cases "i = n"; simp add: promoted_def alive_def)+
  have c: "alive (process_table (call_context_switch l c e (promoted n s)) ! i) \<longleftrightarrow> alive (process_table s ! i)"
    "kernel_stack (process_table (call_context_switch l c e (promoted n s)) ! i) = kernel_stack (process_table s ! i)"
    if "i < 64" for i c e
    using p [OF that] that by (cases "i = c"; simp add: alive_def)+
  show ?thesis
    by (rule all_stacked_mono [OF st]) (use switch(8) p c in \<open>auto split: option.splits\<close>)
qed

lemma process_block_stacked:
  assumes ok: "sched_ok s" and st: "all_stacked s" and z: "\<not> is_zombie q s"
  shows "all_stacked (process_block q s)"
proof (cases "find_process q s")
  case (Some i)
  have i: "i < 64" "state (process_table s ! i) \<noteq> FREE" using find_process_Some [OF Some ok] by auto
  have len: "length (process_table s) = 64" using ok by (rule table_ok_length)
  show ?thesis
    by (rule all_stacked_upd [OF st _ len, of _ i]) (use Some i z in \<open>auto simp: process_block_def is_zombie_def alive_def\<close>)
qed (simp add: process_block_def st)

lemma process_unblock_stacked:
  assumes ok: "sched_ok s" and st: "all_stacked s"
  shows "all_stacked (process_unblock q s)"
proof (cases "find_process q s")
  case (Some i)
  have len: "length (process_table s) = 64" using ok by (rule table_ok_length)
  show ?thesis
  proof (cases "state (process_table s ! i) = BLOCKED")
    case True
    then show ?thesis
      by (intro all_stacked_upd [OF st _ len, of _ i]) (use Some in \<open>auto simp: process_unblock_def alive_def\<close>)
  qed (use Some st in \<open>simp add: process_unblock_def\<close>)
qed (simp add: process_unblock_def st)

lemma process_create_stacked:
  assumes ok: "sched_ok s" and st: "all_stacked s" and c: "process_create name entry s = Some (r, t)"
  shows "all_stacked t"
proof (cases "find_free_slot s")
  case None
  then show ?thesis using st c by (simp add: process_create_def)
next
  case (Some i)
  have len: "length (process_table s) = 64" using ok by (rule table_ok_length)
  have i: "i < length (process_table s)" using find_slot_Some [of _ "process_table s" i] Some by (auto simp: find_free_slot_def)
  have "kmalloc KERNEL_STACK_SIZE (kheap s) \<noteq> None" using c Some by (auto simp: process_create_def Let_def split: option.splits)
  then obtain stack h where km: "kmalloc KERNEL_STACK_SIZE (kheap s) = Some (stack, h)" by auto
  note e = process_create_eq [OF Some i km]
  show ?thesis
  proof (cases "stack = 0")
    case True
    then show ?thesis using e(1) [OF True, of name entry] c len
      by (intro all_stacked_upd [OF st _ len, of _ i]) (auto simp: alive_def)
  next
    case False
    then show ?thesis using e(2) [OF False, of name entry] c len
      by (intro all_stacked_upd [OF st _ len, of _ i]) (auto simp: alive_def Let_def split_beta simp del: store_frame.simps)
  qed
qed

section \<open>Stack frames\<close>

lemma context_switch_eq:
  "context_switch n m =
    (let a = m_esp m;
         mem = (m_mem m)(a - 4 := m_ebp m, a - 8 := m_ebx m, a - 12 := m_esi m, a - 16 := m_edi m)
     in (a - 16, m\<lparr>m_mem := mem, m_esp := n + 20, m_edi := mem n, m_esi := mem (n + 4),
           m_ebx := mem (n + 8), m_ebp := mem (n + 12), m_eip := mem (n + 16)\<rparr>))"
  by (simp add: context_switch_def push_def pop_def Let_def diff_diff_eq add.assoc del: fun_upd_apply)

text \<open>Five words from \<open>p\<close> on: what a suspended process has on top of its stack.\<close>

definition frame_at :: "(u32 \<Rightarrow> u32) \<Rightarrow> u32 \<Rightarrow> u32 list" where
  "frame_at m p = [m p, m (p + 4), m (p + 8), m (p + 12), m (p + 16)]"

lemma store_frame_at:
  "store_frame [w0, w1, w2, w3, w4] p m = (p - 20, m(p - 4 := w0, p - 8 := w1, p - 12 := w2, p - 16 := w3, p - 20 := w4))"
  by simp

lemma store_frame_result:
  "frame_at (snd (store_frame [w0, w1, w2, w3, w4] p m)) (fst (store_frame [w0, w1, w2, w3, w4] p m)) =
   [w4, w3, w2, w1, w0]"
  by (simp add: frame_at_def)

text \<open>Switching to a stack whose top frame the switch itself does not overwrite.\<close>

definition frame_clear :: "machine \<Rightarrow> u32 \<Rightarrow> bool" where
  "frame_clear m n \<longleftrightarrow> (\<forall>i \<in> {4, 8, 12, 16}. \<forall>k \<in> {0, 4, 8, 12, 16}. m_esp m - i \<noteq> n + k)"

lemma context_switch_to:
  assumes "frame_at (m_mem m) n = [di, si, bx, bp, ret]" "frame_clear m n"
  shows "m_edi (snd (context_switch n m)) = di" "m_esi (snd (context_switch n m)) = si"
    "m_ebx (snd (context_switch n m)) = bx" "m_ebp (snd (context_switch n m)) = bp"
    "m_eip (snd (context_switch n m)) = ret" "m_esp (snd (context_switch n m)) = n + 20"
proof -
  define mem where "mem = (m_mem m)(m_esp m - 4 := m_ebp m, m_esp m - 8 := m_ebx m, m_esp m - 12 := m_esi m,
    m_esp m - 16 := m_edi m)"
  have keep: "mem x = m_mem m x" if "x \<notin> {m_esp m - 4, m_esp m - 8, m_esp m - 12, m_esp m - 16}" for x
    using that by (simp add: mem_def)
  have out: "n + k \<notin> {m_esp m - 4, m_esp m - 8, m_esp m - 12, m_esp m - 16}" if "k \<in> {0, 4, 8, 12, 16}" for k
    using assms(2) that unfolding frame_clear_def by (metis empty_iff insertCI insertE)
  have "mem n = di" "mem (n + 4) = si" "mem (n + 8) = bx" "mem (n + 12) = bp" "mem (n + 16) = ret"
    using assms(1) keep [OF out, of 0] keep [OF out, of 4] keep [OF out, of 8] keep [OF out, of 12] keep [OF out, of 16]
    by (simp_all add: frame_at_def)
  then show "m_edi (snd (context_switch n m)) = di" "m_esi (snd (context_switch n m)) = si"
    "m_ebx (snd (context_switch n m)) = bx" "m_ebp (snd (context_switch n m)) = bp"
    "m_eip (snd (context_switch n m)) = ret" "m_esp (snd (context_switch n m)) = n + 20"
    unfolding context_switch_eq Let_def mem_def [symmetric] by simp_all
qed

text \<open>What the routine saves is the frame it will restore.\<close>

lemma context_switch_saves:
  "frame_at (m_mem (snd (context_switch n m))) (fst (context_switch n m)) =
   [m_edi m, m_esi m, m_ebx m, m_ebp m, m_mem m (m_esp m)]"
  by (simp add: context_switch_eq frame_at_def Let_def)

lemma context_switch_roundtrip:
  assumes "frame_at (m_mem m2) (fst (context_switch n m)) =
      frame_at (m_mem (snd (context_switch n m))) (fst (context_switch n m))"
    and "frame_clear m2 (fst (context_switch n m))"
  defines "m3 \<equiv> snd (context_switch (fst (context_switch n m)) m2)"
  shows "m_edi m3 = m_edi m" "m_esi m3 = m_esi m" "m_ebx m3 = m_ebx m" "m_ebp m3 = m_ebp m"
    "m_eip m3 = m_mem m (m_esp m)" "m_esp m3 = m_esp m + 4"
  using context_switch_to [OF assms(1) [unfolded context_switch_saves] assms(2)]
  by (simp_all add: m3_def context_switch_eq Let_def)

section \<open>Fairness\<close>

text \<open>While no slot has been used twice, process numbers are slots.\<close>

definition pids_are_slots :: "sched \<Rightarrow> bool" where
  "pids_are_slots s \<longleftrightarrow> (\<forall>i < 64. state (process_table s ! i) \<noteq> FREE \<longrightarrow> pid (process_table s ! i) = of_nat i)"

text \<open>The state a yield leaves, when it switches away from a running process.\<close>

lemma yield_switch:
  assumes ok: "sched_ok s" and en: "scheduler_enabled s"
    and c: "c < 64" "state (process_table s ! c) = RUNNING" and j: "j < 64" "state (process_table s ! j) = READY"
  obtains n k where "n < 64" "k < 64" "n = slot_after (current_pid s) k" "state (process_table s ! n) = READY"
    "\<And>i. i < k \<Longrightarrow> state (process_table s ! slot_after (current_pid s) i) \<noteq> READY"
    "current_pid (process_yield l s) = pid (process_table s ! n)" "scheduler_enabled (process_yield l s)"
    "\<And>i. pid (process_table (process_yield l s) ! i) = pid (process_table s ! i)"
    "\<And>i. i < 64 \<Longrightarrow> state (process_table (process_yield l s) ! i) =
       (if i = n then RUNNING else if i = c then READY else state (process_table s ! i))"
proof -
  have fc: "find_process (current_pid s) s = Some c" by (rule running_found [OF ok c])
  have len: "length (process_table s) = 64" using ok by (rule table_ok_length)
  show ?thesis
    using ok
  proof (cases rule: process_yield_cases [where l = l])
    case stay
    then show ?thesis using en j fc c(2) by auto
  next
    case (switch n k)
    have d: "demoted s = (process_table s)[c := (process_table s ! c)\<lparr>state := READY\<rparr>]"
      using fc c(2) by (simp add: demoted_def)
    have nc: "n \<noteq> c" using switch(5) c(2) by auto
    have y: "process_yield l s = call_context_switch l c (esp (process_table s ! n)) (promoted n s)"
      using switch(8) fc by simp
    have pid: "pid (process_table (process_yield l s) ! i) = pid (process_table s ! i)" for i
      using len c(1) switch(2) nc
      by (cases "i < 64") (auto simp: y promoted_def d nth_list_update list_update_beyond)
    have st: "state (process_table (process_yield l s) ! i) =
        (if i = n then RUNNING else if i = c then READY else state (process_table s ! i))" if "i < 64" for i
      using len c(1) switch(2) nc that by (auto simp: y promoted_def d nth_list_update)
    show ?thesis
      by (rule that [OF switch(2-5,7) _ _ pid st]) (simp_all add: y promoted_def switch(1))
  qed
qed

lemma fair_within:
  assumes "sched_ok s" "scheduler_enabled s" "pids_are_slots s" "c < 64" "state (process_table s ! c) = RUNNING"
    and "j < 64" "state (process_table s ! j) = READY" "slot_after (current_pid s) d = j"
  shows "\<exists>n \<le> Suc d. state (process_table ((process_yield l ^^ n) s) ! j) = RUNNING"
  using assms
proof (induction d arbitrary: s c rule: less_induct)
  case (less d)
  let ?t = "process_yield l s"
  obtain n k where y: "n < 64" "k < 64" "n = slot_after (current_pid s) k" "state (process_table s ! n) = READY"
    "\<And>i. i < k \<Longrightarrow> state (process_table s ! slot_after (current_pid s) i) \<noteq> READY"
    "current_pid ?t = pid (process_table s ! n)" "scheduler_enabled ?t"
    "\<And>i. pid (process_table ?t ! i) = pid (process_table s ! i)"
    "\<And>i. i < 64 \<Longrightarrow> state (process_table ?t ! i) =
       (if i = n then RUNNING else if i = c then READY else state (process_table s ! i))"
    by (rule yield_switch [OF less.prems(1,2,4-7), of l]) (rule that)
  show ?case
  proof (cases "n = j")
    case True
    then have "state (process_table ((process_yield l ^^ 1) s) ! j) = RUNNING" using y(1,9) by simp
    then show ?thesis by (intro exI [of _ 1]) simp
  next
    case False
    have "k \<le> d" using y(5) [of d] less.prems(7,8) by (meson not_less)
    moreover have "k \<noteq> d" using False y(3) less.prems(8) by auto
    ultimately have kd: "k < d" by simp
    have "current_pid ?t = of_nat n" using less.prems(3) y(1,4,6) by (simp add: pids_are_slots_def)
    then have un: "unat (current_pid ?t) = n" using y(1) by (simp add: unat_of_nat_u32)
    have "slot_after (current_pid ?t) (d - k - 1) = ((unat (current_pid s) + 1 + k) mod 64 + (d - k)) mod 64"
    proof -
      have "n + 1 + (d - k - 1) = n + (d - k)" using kd by simp
      then show ?thesis unfolding slot_after_def un by (simp only: y(3) slot_after_def)
    qed
    also have "\<dots> = (unat (current_pid s) + 1 + k + (d - k)) mod 64" by (rule mod_add_left_eq)
    also have "\<dots> = j" using kd less.prems(8) by (simp add: slot_after_def)
    finally have sl: "slot_after (current_pid ?t) (d - k - 1) = j" .
    have pids: "pids_are_slots ?t"
      unfolding pids_are_slots_def
    proof (intro allI impI)
      fix i assume i: "i < 64" "state (process_table ?t ! i) \<noteq> FREE"
      then have "state (process_table s ! i) \<noteq> FREE" using y(9) [OF i(1)] y(4) less.prems(5) by (auto split: if_splits)
      then show "pid (process_table ?t ! i) = of_nat i" using less.prems(3) i(1) y(8) by (simp add: pids_are_slots_def)
    qed
    have st: "state (process_table ?t ! n) = RUNNING" "state (process_table ?t ! j) = READY"
      using y(9) [OF y(1)] y(9) [OF less.prems(6)] False less.prems(7) by simp_all
    obtain m where "m \<le> Suc (d - k - 1)" "state (process_table ((process_yield l ^^ m) ?t) ! j) = RUNNING"
      using less.IH [OF _ process_yield_ok [OF less.prems(1)] y(7) pids y(1) st(1) less.prems(6) st(2) sl] kd by auto
    then show ?thesis using kd by (intro exI [of _ "Suc m"]) (simp add: funpow_swap1)
  qed
qed

lemma starves_step:
  fixes l :: linkage
  assumes ok: "sched_ok s" and en: "scheduler_enabled s"
    and run: "current_pid s = 0 \<and> state (process_table s ! 0) = RUNNING \<and> state (process_table s ! 1) = READY \<or>
      current_pid s = 63 \<and> state (process_table s ! 1) = RUNNING \<and> state (process_table s ! 0) = READY"
    and pid: "pid (process_table s ! 0) = 0" "pid (process_table s ! 1) = 63"
    and j: "2 \<le> j" "j < 64" "state (process_table s ! j) = READY"
  defines "t \<equiv> process_yield l s"
  shows "scheduler_enabled t"
    "current_pid t = 0 \<and> state (process_table t ! 0) = RUNNING \<and> state (process_table t ! 1) = READY \<or>
      current_pid t = 63 \<and> state (process_table t ! 1) = RUNNING \<and> state (process_table t ! 0) = READY"
    "pid (process_table t ! 0) = 0" "pid (process_table t ! 1) = 63" "state (process_table t ! j) = READY"
proof -
  define c where "c = (if current_pid s = 0 then 0 else 1 :: nat)"
  have c: "c < 64" "state (process_table s ! c) = RUNNING" using run by (auto simp: c_def)
  obtain n k where y0: "n < 64" "k < 64" "n = slot_after (current_pid s) k" "state (process_table s ! n) = READY"
    "\<And>i. i < k \<Longrightarrow> state (process_table s ! slot_after (current_pid s) i) \<noteq> READY"
    "current_pid (process_yield l s) = pid (process_table s ! n)" "scheduler_enabled (process_yield l s)"
    "\<And>i. pid (process_table (process_yield l s) ! i) = pid (process_table s ! i)"
    "\<And>i. i < 64 \<Longrightarrow> state (process_table (process_yield l s) ! i) =
       (if i = n then RUNNING else if i = c then READY else state (process_table s ! i))"
    by (rule yield_switch [OF ok en c j(2,3), of l]) (rule that)
  note y = y0 [folded t_def]
  have other: "state (process_table s ! (1 - c)) = READY" "slot_after (current_pid s) 0 = 1 - c"
    using run by (auto simp: c_def slot_after_def)
  then have "k = 0" using y(5) [of 0] by (cases k) auto
  then have n: "n = 1 - c" using y(3) other by simp
  show "scheduler_enabled t" by (rule y(7))
  show "pid (process_table t ! 0) = 0" "pid (process_table t ! 1) = 63" using y(8) pid by simp_all
  show "state (process_table t ! j) = READY" using y(9) [OF j(2)] j n c_def by auto
  show "current_pid t = 0 \<and> state (process_table t ! 0) = RUNNING \<and> state (process_table t ! 1) = READY \<or>
      current_pid t = 63 \<and> state (process_table t ! 1) = RUNNING \<and> state (process_table t ! 0) = READY"
    using y(6) y(9) [of 0] y(9) [of 1] n pid by (cases "c = 0") (auto simp: c_def split: if_splits)
qed

definition example_link :: linkage where
  "example_link = \<lparr>table_addr = 0x110000, yield_ret = 0x105000\<rparr>"

text \<open>A booted machine with the next process number \<open>n\<close>, and two processes created on it.\<close>

definition boot_sched :: "u32 \<Rightarrow> sched" where
  "boot_sched n = (process_init \<lparr>process_table = [], current_pid = 0, next_pid = 0, scheduler_enabled = False,
     kheap = heap_init (\<lambda>_. \<lparr>blk_size = 0, blk_free = False, blk_next = 0\<rparr>),
     machine = \<lparr>m_mem = (\<lambda>_. 0), m_esp = 0x1000, m_ebp = 1, m_ebx = 2, m_esi = 3, m_edi = 4, m_eip = 5\<rparr>\<rparr>)
     \<lparr>next_pid := n\<rparr>"

lemma boot_sched_ok: "1 \<le> n \<Longrightarrow> sched_ok (boot_sched n)"
proof -
  assume "1 \<le> n"
  then have "0 < n" by (simp add: unat_less_u32 unat_le_u32)
  then show ?thesis
    by (auto simp: boot_sched_def process_init_def table_ok_def proc_ok_def apart_def alive_def stacked_def blank_process_def
        nth_list_update)
qed

lemma boot_sched_table:
  "\<exists>k. process_table (boot_sched n) = k # blank_process # blank_process # replicate 61 blank_process \<and>
    pid k = 0 \<and> state k = RUNNING"
proof -
  have "replicate 64 blank_process = blank_process # blank_process # blank_process # replicate 61 blank_process"
    by (simp add: numeral_eq_Suc)
  then show ?thesis by (simp add: boot_sched_def process_init_def)
qed

lemma blank_free [simp]: "state blank_process = FREE"
  by (simp add: blank_process_def)

lemma two_created:
  assumes n: "1 \<le> n" "unat n + 2 < 4294967296"
  obtains s1 s2 where "process_create a e (boot_sched n) = Some (sint n, s1)"
    "process_create b f s1 = Some (sint (n + 1), s2)" "sched_ok s1" "sched_ok s2" "scheduler_enabled s2"
    "current_pid s2 = 0" "state (process_table s2 ! 0) = RUNNING"
    "state (process_table s2 ! 1) = READY" "pid (process_table s2 ! 1) = n"
    "state (process_table s2 ! 2) = READY" "pid (process_table s2 ! 2) = n + 1"
    "\<And>i. 3 \<le> i \<Longrightarrow> i < 64 \<Longrightarrow> state (process_table s2 ! i) = FREE"
    "find_free_slot (boot_sched n) = Some 1" "state (process_table s1 ! 1) = READY"
proof -
  let ?s0 = "boot_sched n"
  obtain k where k: "process_table ?s0 = k # blank_process # blank_process # replicate 61 blank_process"
    "pid k = 0" "state k = RUNNING" using boot_sched_table by blast
  have a4: "align4 8192 = 8192" by (simp add: align4_def)
  obtain h1 where km1: "kmalloc 8192 (kheap ?s0) = Some (0x20000C, h1)"
    and h1: "heap_repr h1 [(HEAP_START, 8192, False), (0x20200C, 8380392, True)]"
    using kmalloc_init [of 8192] by (auto simp: boot_sched_def process_init_def a4)
  obtain h2 where km2: "kmalloc 8192 h1 = Some (0x202018, h2)"
    using kmalloc_refines [OF h1, of 8192] by (auto simp: a4)
  have nx0: "next_pid ?s0 = n" "current_pid ?s0 = 0" by (simp_all add: boot_sched_def process_init_def)
  have free0: "find_free_slot ?s0 = Some 1" using k by (simp add: find_free_slot_def)
  obtain p1 m1 where p1: "state p1 = READY" "pid p1 = n" and c1: "process_create a e ?s0 =
      Some (sint n, ?s0\<lparr>process_table := k # p1 # blank_process # replicate 61 blank_process, next_pid := n + 1,
        scheduler_enabled := True, kheap := h1, machine := m1\<rparr>)"
    using process_create_made [OF free0 _ km1, of a e] k nx0 by auto
  define s1 where "s1 = ?s0\<lparr>process_table := k # p1 # blank_process # replicate 61 blank_process, next_pid := n + 1,
        scheduler_enabled := True, kheap := h1, machine := m1\<rparr>"
  have free1: "find_free_slot s1 = Some 2" using k p1 by (simp add: find_free_slot_def s1_def)
  have upd2: "(k # p1 # blank_process # r)[2 := p] = k # p1 # p # r" for r p by (simp add: numeral_2_eq_2)
  have nx1: "next_pid s1 = n + 1" "kheap s1 = h1" and t1: "process_table s1 = k # p1 # blank_process # replicate 61 blank_process"
    by (simp_all add: s1_def)
  obtain p2 m2 where p2: "state p2 = READY" "pid p2 = n + 1" and c2: "process_create b f s1 =
      Some (sint (n + 1), s1\<lparr>process_table := k # p1 # p2 # replicate 61 blank_process, next_pid := n + 2,
        scheduler_enabled := True, kheap := h2, machine := m2\<rparr>)"
    using process_create_made [OF free1 _ km2 [folded nx1(2)], of b f] nx1 t1 upd2 by (auto simp: add.assoc)
  define s2 where "s2 = s1\<lparr>process_table := k # p1 # p2 # replicate 61 blank_process, next_pid := n + 2,
        scheduler_enabled := True, kheap := h2, machine := m2\<rparr>"
  have ok1: "sched_ok s1"
    using process_create_ok [OF boot_sched_ok [OF n(1)], of a e] n c1 nx0 by (auto simp: s1_def)
  have ok2: "sched_ok s2"
    using process_create_ok [OF ok1, of b f] n c2 nx1 by (auto simp: s2_def unat_Suc_u32)
  have rest: "state (process_table s2 ! i) = FREE" if "3 \<le> i" "i < 64" for i
    using that by (simp add: s2_def nth_Cons' less_Suc_eq_le numeral_eq_Suc)
  show ?thesis
    by (rule that [of s1 s2])
      (use c1 c2 ok1 ok2 k p1 p2 rest free0 in \<open>simp_all add: s1_def s2_def nx0\<close>)
qed

section \<open>Runs keep processes apart\<close>

lemma process_init_stacked: "all_stacked (process_init s)"
  by (simp add: all_stacked_def process_init_def alive_def nth_list_update)

lemma process_exit_stacked:
  assumes ok: "sched_ok s" and st: "all_stacked s" and e: "process_exit l code s = Some t"
  shows "all_stacked t"
proof (cases "find_process (current_pid s) s")
  case None
  then show ?thesis using st e by (simp add: process_exit_def)
next
  case (Some c)
  have len: "length (process_table s) = 64" using ok by (rule table_ok_length)
  have c: "c < 64" using find_process_Some [OF Some ok] by simp
  show ?thesis
  proof (cases "pid (process_table s ! c) = 0")
    case True
    then show ?thesis using st e Some by (simp add: process_exit_def)
  next
    case False
    obtain u where u: "sched_ok u" "process_exit l code s = Some (process_yield l (process_unblock (parent_pid (process_table u ! c)) u))"
      "process_table u = (process_table s)[c := (process_table s ! c)\<lparr>state := ZOMBIE, exit_code := code, kernel_stack := 0\<rparr>]"
      using process_exit_parts [OF ok Some False] by blast
    have "all_stacked u" by (rule all_stacked_upd [OF st u(3) len]) (simp add: alive_def)
    then have "all_stacked (process_yield l (process_unblock (parent_pid (process_table u ! c)) u))"
      using u(1) by (intro process_yield_stacked process_unblock_stacked process_unblock_ok)
    then show ?thesis using u(2) e by simp
  qed
qed

lemma process_wait_stacked:
  assumes ok: "sched_ok s" and st: "all_stacked s" and ch: "child < 64" and z: "\<not> revives (Wait child) s"
  shows "all_stacked (snd (process_wait_step l child s))"
proof (cases "state (process_table s ! child) = ZOMBIE")
  case False
  then have "snd (process_wait_step l child s) = process_yield l (process_block (current_pid s) s)"
    by (simp add: process_wait_step_def process_block_def)
  moreover have "\<not> is_zombie (current_pid s) s" using z False by simp
  ultimately show ?thesis using process_yield_stacked [OF process_block_ok [OF ok] process_block_stacked [OF ok st]] by simp
next
  case True
  have len: "length (process_table s) = 64" using ok by (rule table_ok_length)
  show ?thesis
    by (rule all_stacked_upd [OF st _ len, of _ child]) (use True in \<open>auto simp: process_wait_step_def alive_def\<close>)
qed

lemma sched_do_stacked:
  assumes ok: "sched_ok s" and st: "all_stacked s" and z: "\<not> revives x s" and d: "sched_do l x s = Some t"
  shows "all_stacked t"
proof (cases x)
  case (Create name entry)
  then show ?thesis using d process_create_stacked [OF ok st] by auto
next
  case (Exit code)
  then show ?thesis using d process_exit_stacked [OF ok st] by simp
next
  case (Block q)
  then show ?thesis using d z process_block_stacked [OF ok st] by auto
next
  case (Unblock q)
  then show ?thesis using d process_unblock_stacked [OF ok st] by auto
next
  case (Wait child)
  then have "\<not> revives (Wait child) s" using z by simp
  then show ?thesis using d Wait st process_wait_stacked [OF ok st, of child l] by (auto split: if_splits simp del: revives.simps)
qed (use d st process_yield_stacked [OF ok st] in \<open>auto simp: process_schedule_def\<close>)

lemma sched_ops_stacked:
  assumes "sched_ok s" "all_stacked s" "spares l xs s" "sched_ops l xs s = Some t" "unat (next_pid s) + creates xs < 4294967296"
  shows "all_stacked t"
  using assms
proof (induction xs arbitrary: s)
  case (Cons x xs)
  obtain u where u: "sched_do l x s = Some u" "sched_ok u" "unat (next_pid u) + creates xs < 4294967296"
    using sched_do_ok [OF Cons.prems(1,5)] by blast
  have "\<not> revives x s" "spares l xs u" "sched_ops l xs u = Some t" using Cons.prems(3,4) u(1) by simp_all
  then show ?case using Cons.IH [OF u(2) sched_do_stacked [OF Cons.prems(1,2) _ u(1)]] u(3) by simp
qed simp

lemma sched_ok_running: "sched_ok s \<Longrightarrow> i < 64 \<Longrightarrow> state (process_table s ! i) = RUNNING \<Longrightarrow> pid (process_table s ! i) = current_pid s"
  using table_ok_proc by (fastforce simp: proc_ok_def)

lemma sched_ok_pids:
  assumes "sched_ok s" "i < 64" "j < 64" "i \<noteq> j" "state (process_table s ! i) \<noteq> FREE" "state (process_table s ! j) \<noteq> FREE"
  shows "pid (process_table s ! i) \<noteq> pid (process_table s ! j)"
  using table_ok_apart [OF assms(1-4)] assms(5,6) by (simp add: apart_def)

lemma sched_ok_stacks:
  assumes ok: "sched_ok s" and ij: "i < 64" "j < 64" "0 < i" "0 < j" "i \<noteq> j" "stacked (process_table s ! i)" "stacked (process_table s ! j)"
  shows "unat (kernel_stack (process_table s ! i)) + 8192 \<le> unat (kernel_stack (process_table s ! j)) \<or>
    unat (kernel_stack (process_table s ! j)) + 8192 \<le> unat (kernel_stack (process_table s ! i))"
proof -
  have "owns_stack (kheap s) (process_table s ! i)" "owns_stack (kheap s) (process_table s ! j)"
    using table_ok_proc [OF ok ij(1)] table_ok_proc [OF ok ij(2)] ij by (simp_all add: proc_ok_def)
  then obtain a b where "8192 \<le> a" "(kernel_stack (process_table s ! i), a) \<in> live (kheap s)"
    "8192 \<le> b" "(kernel_stack (process_table s ! j), b) \<in> live (kheap s)" by (auto simp: owns_stack_def)
  moreover have "kernel_stack (process_table s ! i) \<noteq> kernel_stack (process_table s ! j)"
    using table_ok_apart [OF ok ij(1,2,5)] ij by (simp add: apart_def)
  moreover have "heap_inv (kheap s)" using ok by (simp add: table_ok_def)
  ultimately show ?thesis using kheap.live_apart [of "kheap s"] by fastforce
qed

section \<open>Properties\<close>

text \<open>
  C5: over every sequence of operations on processes (create, exit, yield, the clock's switch, block, unblock, the steps of
  a wait, with any arguments) with fewer than \<open>2 ^ 32 - 1\<close> creations: every operation returns, at most one process is
  running and it is the current one, no two processes have the same number, and the kernel stacks of any two
  processes that can still run, unless one of them has lost its stack, are disjoint ranges of live heap memory. A process
  that can run has lost its stack only if the sequence blocked a process that had exited, or let one wait.
\<close>
theorem sched_invariant:
  assumes "heap_inv (kheap s0)" "creates ops < 4294967295"
  shows "\<exists>s. sched_ops l ops (process_init s0) = Some s \<and> heap_inv (kheap s) \<and>
    (\<forall>i < 64. state (process_table s ! i) = RUNNING \<longrightarrow> pid (process_table s ! i) = current_pid s) \<and>
    (\<forall>i < 64. \<forall>j < 64. i \<noteq> j \<and> state (process_table s ! i) \<noteq> FREE \<and> state (process_table s ! j) \<noteq> FREE \<longrightarrow>
       pid (process_table s ! i) \<noteq> pid (process_table s ! j)) \<and>
    (\<forall>i < 64. 0 < i \<and> stacked (process_table s ! i) \<longrightarrow> owns_stack (kheap s) (process_table s ! i)) \<and>
    (\<forall>i < 64. \<forall>j < 64. 0 < i \<and> 0 < j \<and> i \<noteq> j \<and> stacked (process_table s ! i) \<and> stacked (process_table s ! j) \<longrightarrow>
       unat (kernel_stack (process_table s ! i)) + 8192 \<le> unat (kernel_stack (process_table s ! j)) \<or>
       unat (kernel_stack (process_table s ! j)) + 8192 \<le> unat (kernel_stack (process_table s ! i))) \<and>
    (spares l ops (process_init s0) \<longrightarrow> (\<forall>i < 64. 0 < i \<and> alive (process_table s ! i) \<longrightarrow> stacked (process_table s ! i)))"
proof -
  have ok0: "sched_ok (process_init s0)" "next_pid (process_init s0) = 1" "all_stacked (process_init s0)"
    using process_init_ok [OF assms(1)] process_init_stacked by (simp_all add: process_init_def)
  then obtain s where s: "sched_ops l ops (process_init s0) = Some s" and ok: "sched_ok s"
    using sched_ops_ok [of "process_init s0" ops l] assms(2) by auto
  have "all_stacked s" if "spares l ops (process_init s0)" using sched_ops_stacked [OF ok0(1,3) that s] ok0(2) assms(2) by simp
  then show ?thesis using s sched_ok_stacks [OF ok] ok sched_ok_running [OF ok] sched_ok_pids [OF ok]
    by (intro exI [of _ s]) (auto simp: all_stacked_def stacked_def table_ok_def proc_ok_def)
qed

text \<open>Two processes are made, the first is killed, blocked as a zombie, woken and runs again without a stack.\<close>

theorem sched_invariant_witness:
  "\<exists>s. sched_ops example_link [Create [97] 0x1000, Create [98] 0x2000, Yield, Exit 0, Block 1, Unblock 1, Tick, Wait 2] (boot_sched 1) = Some s \<and>
    (\<forall>i < 64. state (process_table s ! i) = RUNNING \<longrightarrow> pid (process_table s ! i) = current_pid s)"
proof -
  define s0 where "s0 = \<lparr>process_table = [], current_pid = 0, next_pid = 0, scheduler_enabled = False,
     kheap = heap_init (\<lambda>_. \<lparr>blk_size = 0, blk_free = False, blk_next = 0\<rparr>),
     machine = \<lparr>m_mem = (\<lambda>_. 0), m_esp = 0x1000, m_ebp = 1, m_ebx = 2, m_esi = 3, m_edi = 4, m_eip = 5\<rparr>\<rparr>"
  have b: "boot_sched 1 = process_init s0" by (simp add: boot_sched_def process_init_def s0_def)
  have h: "heap_inv (kheap s0)" by (simp add: s0_def)
  have c: "creates [Create [97] 0x1000, Create [98] 0x2000, Yield, Exit 0, Block 1, Unblock 1, Tick, Wait 2] < 4294967295" by simp
  show ?thesis using sched_invariant [OF h c, of example_link] unfolding b by blast
qed

text \<open>
  C22: a new process starts at its entry point. When \<open>process_create\<close> finds a slot and a stack, then
  switching to the new process, from any other stack, continues at \<open>entry\<close> with the saved registers
  zero and the stack pointer at the top of a stack of \<open>KERNEL_STACK_SIZE\<close> bytes the process owns.
\<close>
theorem process_create_starts:
  assumes ok: "sched_ok s" and slot: "find_free_slot s = Some i"
    and made: "process_create name entry s = Some (r, s')" "state (process_table s' ! i) = READY"
    and m: "frame_at (m_mem m) (esp (process_table s' ! i)) = frame_at (m_mem (machine s')) (esp (process_table s' ! i))"
      "frame_clear m (esp (process_table s' ! i))"
  shows "let p = process_table s' ! i; m' = snd (context_switch (esp p) m)
    in m_eip m' = entry \<and> m_ebp m' = 0 \<and> m_ebx m' = 0 \<and> m_esi m' = 0 \<and> m_edi m' = 0 \<and>
       m_esp m' = kernel_stack p + KERNEL_STACK_SIZE \<and> owns_stack (kheap s') p \<and>
       pid p = next_pid s \<and> parent_pid p = current_pid s \<and> scheduler_enabled s'"
proof -
  have len: "length (process_table s) = 64" using ok by (rule table_ok_length)
  have i: "i < length (process_table s)"
    using find_slot_Some [of _ "process_table s" i] slot by (simp add: find_free_slot_def)
  have hi: "heap_inv (kheap s)" using ok by (simp add: table_ok_def)
  obtain stack h where km: "kmalloc KERNEL_STACK_SIZE (kheap s) = Some (stack, h)"
    using kheap.malloc_total [OF hi] by blast
  have ne: "stack \<noteq> 0" using made process_create_eq(1) [OF slot i km, of name entry] i by auto
  obtain sp mem where sf: "store_frame [entry, 0, 0, 0, 0] (stack + KERNEL_STACK_SIZE) (m_mem (machine s)) = (sp, mem)"
    by fastforce
  have fr: "frame_at mem sp = [0, 0, 0, 0, entry]" "sp + 20 = stack + KERNEL_STACK_SIZE"
    using store_frame_result [of entry 0 0 0 0 "stack + KERNEL_STACK_SIZE" "m_mem (machine s)"] sf
    by (auto simp del: store_frame.simps) (use sf in \<open>simp add: algebra_simps\<close>)
  have s': "process_table s' ! i = (new_process name s)\<lparr>kernel_stack := stack, esp := sp, ebp := 0, eip := entry\<rparr>"
    "m_mem (machine s') = mem" "kheap s' = h" "scheduler_enabled s'"
    using made(1) process_create_eq(2) [OF slot i km ne, of name entry] i sf
    by (auto simp del: store_frame.simps)
  obtain k where "(stack, k) \<in> live h" "8192 \<le> k"
    using kheap.malloc_live [OF hi km ne] by auto
  then have "owns_stack (kheap s') (process_table s' ! i)" using ne s' by (auto simp: owns_stack_def)
  then show ?thesis
    using context_switch_to [of m sp 0 0 0 0 entry] m fr s' by (simp add: Let_def new_process_def blank_process_def)
qed

theorem process_create_starts_witness:
  "\<exists>s' m. process_create [97] 0x1234 (boot_sched 1) = Some (1, s') \<and>
    m_eip (snd (context_switch (esp (process_table s' ! 1)) m)) = 0x1234 \<and>
    m_ebx m = 7 \<and> m_ebx (snd (context_switch (esp (process_table s' ! 1)) m)) = 0"
proof -
  obtain s' where c: "process_create [97] 0x1234 (boot_sched 1) = Some (sint (1 :: u32), s')"
    "find_free_slot (boot_sched 1) = Some 1" "state (process_table s' ! 1) = READY"
    by (rule two_created [of 1 "[97]" "0x1234" "[98]" "0x2000"]) simp_all
  let ?n = "esp (process_table s' ! 1)"
  define m where "m = (machine s')\<lparr>m_esp := ?n - 4, m_ebx := 7\<rparr>"
  have "frame_clear m ?n" by (simp add: frame_clear_def m_def)
  moreover have "frame_at (m_mem m) ?n = frame_at (m_mem (machine s')) ?n" by (simp add: m_def)
  ultimately show ?thesis
    using process_create_starts [OF boot_sched_ok c(2,1,3), of m] c(1) by (auto simp: Let_def m_def)
qed

text \<open>
  C21: the round robin is fair as long as process numbers are table slots, which holds until a slot is
  reused: a ready process \<open>d + 1\<close> slots after the current one runs within \<open>d + 1\<close> yields, so after at
  most 64.
\<close>
theorem sched_fair:
  assumes "sched_ok s" "scheduler_enabled s" "pids_are_slots s"
    and "c < 64" "state (process_table s ! c) = RUNNING" "j < 64" "state (process_table s ! j) = READY"
    and "slot_after (current_pid s) d = j"
  shows "\<exists>n \<le> Suc d. state (process_table ((process_yield l ^^ n) s) ! j) = RUNNING"
  using fair_within [OF assms] .

theorem sched_fair_witness:
  "\<exists>s s1 s2. process_create [97] 0x1000 s = Some (1, s1) \<and> process_create [98] 0x2000 s1 = Some (2, s2) \<and>
    (\<exists>n \<le> Suc 1. state (process_table ((process_yield example_link ^^ n) s2) ! 2) = RUNNING)"
proof -
  obtain s1 s2 where c: "process_create [97] 0x1000 (boot_sched 1) = Some (sint (1 :: u32), s1)"
    "process_create [98] 0x2000 s1 = Some (sint (1 + 1 :: u32), s2)" "sched_ok s2" "scheduler_enabled s2"
    "current_pid s2 = 0" "state (process_table s2 ! 0) = RUNNING" "pid (process_table s2 ! 1) = 1"
    "state (process_table s2 ! 2) = READY" "pid (process_table s2 ! 2) = 1 + 1"
    "\<And>i. 3 \<le> i \<Longrightarrow> i < 64 \<Longrightarrow> state (process_table s2 ! i) = FREE"
    by (rule two_created [of 1 "[97]" "0x1000" "[98]" "0x2000"]) simp_all
  have "pids_are_slots s2"
    unfolding pids_are_slots_def
  proof (intro allI impI)
    fix i assume i: "i < 64" "state (process_table s2 ! i) \<noteq> FREE"
    then consider "i = 0" | "i = 1" | "i = 2" using c(10) [of i] by linarith
    then show "pid (process_table s2 ! i) = of_nat i"
      using c(7,9) table_ok_proc [OF c(3), of 0] by cases (simp_all add: proc_ok_def)
  qed
  then have "\<exists>n \<le> Suc 1. state (process_table ((process_yield example_link ^^ n) s2) ! 2) = RUNNING"
    using c by (intro sched_fair [of _ 0]) (simp_all add: slot_after_def)
  then show ?thesis using c(1,2) by (rule_tac x = "boot_sched 1" in exI, rule_tac x = s1 in exI, rule_tac x = s2 in exI) simp
qed

text \<open>
  The round robin starves processes once process numbers and slots differ, because the search
  starts after the slot numbered \<open>current_pid % 64\<close>. With process 63 in slot 1, the kernel process and
  process 63 hand the processor to each other for ever and no other ready process ever runs.
\<close>
theorem sched_starves:
  assumes "sched_ok s" "scheduler_enabled s" "current_pid s = 0" "state (process_table s ! 0) = RUNNING"
    and "pid (process_table s ! 1) = 63" "state (process_table s ! 1) = READY"
    and "2 \<le> j" "j < 64" "state (process_table s ! j) = READY"
  shows "state (process_table ((process_yield l ^^ n) s) ! j) = READY"
proof -
  have pid0: "pid (process_table s ! 0) = 0" using table_ok_proc [OF assms(1), of 0] by (simp add: proc_ok_def)
  define inv where "inv t \<longleftrightarrow> sched_ok t \<and> scheduler_enabled t \<and>
    (current_pid t = 0 \<and> state (process_table t ! 0) = RUNNING \<and> state (process_table t ! 1) = READY \<or>
     current_pid t = 63 \<and> state (process_table t ! 1) = RUNNING \<and> state (process_table t ! 0) = READY) \<and>
    pid (process_table t ! 0) = 0 \<and> pid (process_table t ! 1) = 63 \<and> state (process_table t ! j) = READY" for t
  have "inv ((process_yield l ^^ n) s)"
  proof (induction n)
    case 0
    then show ?case using assms pid0 by (simp add: inv_def)
  next
    case (Suc n)
    let ?t = "(process_yield l ^^ n) s"
    from Suc have t: "sched_ok ?t" "scheduler_enabled ?t"
      "current_pid ?t = 0 \<and> state (process_table ?t ! 0) = RUNNING \<and> state (process_table ?t ! 1) = READY \<or>
       current_pid ?t = 63 \<and> state (process_table ?t ! 1) = RUNNING \<and> state (process_table ?t ! 0) = READY"
      "pid (process_table ?t ! 0) = 0" "pid (process_table ?t ! 1) = 63" "state (process_table ?t ! j) = READY"
      by (simp_all add: inv_def)
    show ?case
      using starves_step [OF t(1-5) assms(7,8) t(6), of l] process_yield_ok [OF t(1), of l]
      by (simp add: inv_def)
  qed
  then show ?thesis by (simp add: inv_def)
qed

theorem sched_starves_witness:
  "\<exists>s s1 s2. process_create [97] 0x1000 s = Some (63, s1) \<and> process_create [98] 0x2000 s1 = Some (64, s2) \<and>
    state (process_table ((process_yield example_link ^^ 1000000) s2) ! 2) = READY"
proof -
  obtain s1 s2 where c: "process_create [97] 0x1000 (boot_sched 63) = Some (sint (63 :: u32), s1)"
    "process_create [98] 0x2000 s1 = Some (sint (63 + 1 :: u32), s2)" "sched_ok s2" "scheduler_enabled s2"
    "current_pid s2 = 0" "state (process_table s2 ! 0) = RUNNING"
    "state (process_table s2 ! 1) = READY" "pid (process_table s2 ! 1) = 63"
    "state (process_table s2 ! 2) = READY"
    by (rule two_created [of 63 "[97]" "0x1000" "[98]" "0x2000"]) simp_all
  have "state (process_table ((process_yield example_link ^^ 1000000) s2) ! 2) = READY"
    using c by (intro sched_starves) simp_all
  then show ?thesis using c(1,2) by (rule_tac x = "boot_sched 63" in exI, rule_tac x = s1 in exI, rule_tac x = s2 in exI) simp
qed

end
