(* ===== verification/Ata.thy ===== *)
theory Ata
  imports CString
begin

text \<open>
  The disk driver, \<open>drivers/ata.c\<close>. The device is what its specification says of it: an array of
  512-byte sectors, addressed by the 28-bit number the driver leaves in its registers, some of which
  it may fail to read. Its answers to \<open>IDENTIFY\<close> are an argument of \<open>ata_init\<close>. The register accesses, with the
  loops that wait for the device, are in \<open>Ports\<close>, where they are shown to do what is said here.
\<close>

section \<open>Identification\<close>

record ata_drive =
  present :: bool
  is_master :: bool
  size_sectors :: u32
  size_mb :: u32
  model :: "u8 list"

text \<open>\<open>ata_fix_string\<close>: swap the bytes of each word, then replace trailing spaces by NUL bytes.\<close>

fun swap_pairs :: "u8 list \<Rightarrow> u8 list" where
  "swap_pairs (a # b # xs) = b # a # swap_pairs xs"
| "swap_pairs xs = xs"

fun trim_loop :: "nat \<Rightarrow> u8 list \<Rightarrow> u8 list" where
  "trim_loop 0 xs = xs"
| "trim_loop (Suc i) xs = (if xs ! i = 32 then trim_loop i (xs[i := 0]) else xs)"

definition ata_fix_string :: "u8 list \<Rightarrow> u8 list" where
  "ata_fix_string str = trim_loop (length str) (swap_pairs str)"

text \<open>
  What the device answers to \<open>IDENTIFY\<close>: the status after the command, the LBA registers, the
  statuses until it is ready, and 256 words.
\<close>

record ata_answer =
  first_status :: u8
  lba_mid :: u8
  lba_hi :: u8
  statuses :: "u8 list"
  ident :: "u16 list"

abbreviation (input) ATA_STATUS_ERR :: u8 where "ATA_STATUS_ERR \<equiv> 0x01"
abbreviation (input) ATA_STATUS_DRQ :: u8 where "ATA_STATUS_DRQ \<equiv> 0x08"
abbreviation (input) ATA_IDENT_MODEL :: nat where "ATA_IDENT_MODEL \<equiv> 27"
abbreviation (input) ATA_IDENT_MAX_LBA :: nat where "ATA_IDENT_MAX_LBA \<equiv> 60"

text \<open>The wait for \<open>DRQ\<close> or \<open>ERR\<close>: whether the data is ready.\<close>

fun ident_ready :: "u8 list \<Rightarrow> bool option" where
  "ident_ready [] = None"
| "ident_ready (status # rest) =
     (if status AND ATA_STATUS_ERR \<noteq> 0 then Some False
      else if status AND ATA_STATUS_DRQ \<noteq> 0 then Some True else ident_ready rest)"

definition le16 :: "u16 \<Rightarrow> u8 list" where
  "le16 w = [ucast w, ucast (drop_bit 8 w)]"

definition no_drive :: ata_drive where
  "no_drive = \<lparr>present = False, is_master = False, size_sectors = 0, size_mb = 0, model = replicate 41 0\<rparr>"

definition ata_init :: "ata_answer \<Rightarrow> ata_drive option" where
  "ata_init a =
     (if first_status a = 0 then Some no_drive
      else if lba_mid a \<noteq> 0 \<or> lba_hi a \<noteq> 0 then Some no_drive
      else case ident_ready (statuses a) of
             None \<Rightarrow> None
           | Some False \<Rightarrow> Some no_drive
           | Some True \<Rightarrow>
               let sectors = ucast (ident a ! ATA_IDENT_MAX_LBA)
                             OR push_bit 16 (ucast (ident a ! (ATA_IDENT_MAX_LBA + 1)));
                   name = concat (map le16 (bytes_at ATA_IDENT_MODEL 20 (ident a)))
               in Some \<lparr>present = True, is_master = True, size_sectors = sectors,
                        size_mb = sectors div 2048, model = ata_fix_string name @ [0]\<rparr>)"

section \<open>Sectors\<close>

record disk =
  drive :: ata_drive
  sectors :: "nat \<Rightarrow> u8 list"
  bad :: "nat \<Rightarrow> bool"

text \<open>
  The registers of a command, as the driver writes them, and the sector the device takes them for.
\<close>

record lba_regs =
  drive_head :: u8
  reg_lo :: u8
  reg_mid :: u8
  reg_hi :: u8

definition lba_registers :: "u32 \<Rightarrow> lba_regs" where
  "lba_registers lba =
     \<lparr>drive_head = 0xE0 OR ucast (drop_bit 24 lba AND 0x0F), reg_lo = ucast (lba AND 0xFF),
      reg_mid = ucast (drop_bit 8 lba AND 0xFF), reg_hi = ucast (drop_bit 16 lba AND 0xFF)\<rparr>"

definition device_sector :: "lba_regs \<Rightarrow> nat" where
  "device_sector r =
     unat (of_le32 [reg_lo r, reg_mid r, reg_hi r, drive_head r AND 0x0F])"

text \<open>
  Reading gives the bytes of \<open>count\<close> sectors, or fails at the first bad one (\<open>None\<close> is the result
  \<open>- 1\<close>, which leaves the buffer partly filled). Writing stores whole sectors; the driver does not
  look at the status afterwards.
\<close>

definition ata_read_sectors :: "u32 \<Rightarrow> u8 \<Rightarrow> disk \<Rightarrow> u8 list option" where
  "ata_read_sectors lba count d =
     (if \<not> present (drive d) \<or> count = 0 then None
      else let first = device_sector (lba_registers lba)
           in if \<exists>s \<in> set [0..<unat count]. bad d (first + s) then None
              else Some (concat (map (\<lambda>s. sectors d (first + s)) [0..<unat count])))"

primrec store_sectors :: "nat \<Rightarrow> nat \<Rightarrow> u8 list \<Rightarrow> (nat \<Rightarrow> u8 list) \<Rightarrow> nat \<Rightarrow> u8 list" where
  "store_sectors 0 first buf m = m"
| "store_sectors (Suc n) first buf m = store_sectors n (Suc first) (drop 512 buf) (m(first := take 512 buf))"

definition ata_write_sectors :: "u32 \<Rightarrow> u8 \<Rightarrow> u8 list \<Rightarrow> disk \<Rightarrow> disk option" where
  "ata_write_sectors lba count buf d =
     (if \<not> present (drive d) \<or> count = 0 then None
      else Some (d\<lparr>sectors := store_sectors (unat count) (device_sector (lba_registers lba)) buf (sectors d)\<rparr>))"

section \<open>Addressing\<close>

lemma nibble_mask: "(0x0F :: u8) = mask 4" "(0x0F :: u32) = mask 4"
  by (simp_all add: mask_eq_exp_minus_1)

lemma byte_mask: "(0xFF :: u32) = mask 8"
  by (simp add: mask_eq_exp_minus_1)

lemma device_address:
  "of_le32 [reg_lo (lba_registers lba), reg_mid (lba_registers lba), reg_hi (lba_registers lba),
     drive_head (lba_registers lba) AND 0x0F] = take_bit 28 lba"
proof -
  have "(0xE0 :: u8) AND 0x0F = 0" by simp
  then have "drive_head (lba_registers lba) AND 0x0F = ucast (drop_bit 24 lba AND 0x0F) AND 0x0F"
    by (simp add: lba_registers_def bit.conj_disj_distrib2)
  also have "\<dots> = ucast (take_bit 4 (drop_bit 24 lba))"
    unfolding nibble_mask
    by (rule bit_word_eqI) (auto simp: bit_and_iff bit_ucast_iff bit_take_bit_iff bit_mask_iff)
  finally have head: "drive_head (lba_registers lba) AND 0x0F = ucast (take_bit 4 (drop_bit 24 lba))" .
  have bytes: "(ucast (w AND 0xFF) :: u8) = ucast w" for w :: u32
    unfolding byte_mask by (rule bit_word_eqI) (auto simp: bit_and_iff bit_ucast_iff bit_mask_iff)
  show ?thesis
    unfolding head
  proof (rule bit_word_eqI)
    fix n assume "n < LENGTH(32)"
    then consider "n < 8" | "8 \<le> n \<and> n < 16" | "16 \<le> n \<and> n < 24" | "24 \<le> n \<and> n < 28" | "28 \<le> n \<and> n < 32"
      by fastforce
    then show "bit (of_le32 [reg_lo (lba_registers lba), reg_mid (lba_registers lba), reg_hi (lba_registers lba),
        ucast (take_bit 4 (drop_bit 24 lba))]) n = bit (take_bit 28 lba) n"
      unfolding lba_registers_def lba_regs.simps bytes
      by cases (auto simp: bit_or_iff bit_push_bit_iff bit_ucast_iff bit_drop_bit_eq bit_take_bit_iff)
  qed
qed

lemma device_sector_lba: "device_sector (lba_registers lba) = unat lba mod 268435456"
proof -
  have "unat (take_bit 28 lba) = unat lba mod 268435456"
    by (subst unsigned_take_bit_eq) (simp add: take_bit_eq_mod)
  then show ?thesis unfolding device_sector_def device_address .
qed

lemma store_sectors_eq:
  "store_sectors n first buf m k =
     (if first \<le> k \<and> k < first + n then take 512 (drop (512 * (k - first)) buf) else m k)"
proof (induction n arbitrary: first buf m)
  case (Suc n)
  have "Suc first \<le> k \<Longrightarrow> 512 * (k - first) = 512 * (k - Suc first) + 512" by simp
  then show ?case unfolding store_sectors.simps Suc by auto
qed auto

end
