(* ===== verification/Dorifs_Layout.thy ===== *)
theory Dorifs_Layout
  imports Prelude
begin

text \<open>
  What the filesystem keeps on disk and in memory: the packed little-endian structures of
  \<open>include/dorifs.h\<close> (superblock, inode, directory entry) with their byte images, and the node,
  directory entry and status records of \<open>include/vfs.h\<close>. Reading back an image gives the structure.
\<close>

section \<open>Constants\<close>

abbreviation (input) DORIFS_MAGIC :: u32 where "DORIFS_MAGIC \<equiv> 0x444F5249"
abbreviation (input) DORIFS_VERSION :: u32 where "DORIFS_VERSION \<equiv> 1"
abbreviation (input) DORIFS_BLOCK_SIZE :: u32 where "DORIFS_BLOCK_SIZE \<equiv> 4096"
abbreviation (input) DORIFS_SECTORS_PER_BLOCK :: u32 where "DORIFS_SECTORS_PER_BLOCK \<equiv> 8"
abbreviation (input) DORIFS_MAX_INODES :: u32 where "DORIFS_MAX_INODES \<equiv> 1024"
abbreviation (input) DORIFS_DIRECT_BLOCKS :: u32 where "DORIFS_DIRECT_BLOCKS \<equiv> 12"
abbreviation (input) DORIFS_INDIRECT_PTRS :: u32 where "DORIFS_INDIRECT_PTRS \<equiv> 1024"
abbreviation (input) DORIFS_ROOT_INODE :: u32 where "DORIFS_ROOT_INODE \<equiv> 1"

abbreviation (input) DORIFS_TYPE_FREE :: u32 where "DORIFS_TYPE_FREE \<equiv> 0"
abbreviation (input) DORIFS_TYPE_FILE :: u32 where "DORIFS_TYPE_FILE \<equiv> 1"
abbreviation (input) DORIFS_TYPE_DIR :: u32 where "DORIFS_TYPE_DIR \<equiv> 2"
abbreviation (input) DORIFS_TYPE_SYMLINK :: u32 where "DORIFS_TYPE_SYMLINK \<equiv> 3"

abbreviation (input) VFS_FILE :: u32 where "VFS_FILE \<equiv> 1"
abbreviation (input) VFS_DIRECTORY :: u32 where "VFS_DIRECTORY \<equiv> 2"
abbreviation (input) VFS_SYMLINK :: u32 where "VFS_SYMLINK \<equiv> 4"
abbreviation (input) VFS_MOUNTPOINT :: u32 where "VFS_MOUNTPOINT \<equiv> 8"

text \<open>\<open>sizeof\<close> of the packed structures.\<close>

abbreviation (input) INODE_SIZE :: nat where "INODE_SIZE \<equiv> 344"
abbreviation (input) DIRENT_SIZE :: nat where "DIRENT_SIZE \<equiv> 262"

section \<open>Structures\<close>

record superblock =
  magic :: u32
  version :: u32
  total_blocks :: u32
  total_inodes :: u32
  free_blocks :: u32
  free_inodes :: u32
  inode_table_start :: u32
  inode_table_blocks :: u32
  data_bitmap_start :: u32
  data_bitmap_blocks :: u32
  data_start :: u32
  block_size :: u32
  sb_padding :: "u8 list"

record inode =
  i_type :: u32
  i_size :: u32
  i_block_count :: u32
  i_create_time :: u32
  i_modify_time :: u32
  i_direct :: "u32 list"
  i_indirect :: u32
  i_link_count :: u32
  i_symlink :: "u8 list"
  i_padding :: "u8 list"

record dirent =
  d_inode :: u32
  d_type :: u8
  d_name_len :: u8
  d_name :: "u8 list"

datatype ops_table = Dorifs_Ops

record vfs_node =
  n_name :: "u8 list"
  n_inode :: u32
  n_type :: u32
  n_size :: u32
  n_flags :: u32
  n_ops :: "ops_table option"
  n_private :: u32
  n_mount :: u32
  n_parent :: u32

record vfs_stat =
  st_inode :: u32
  st_type :: u32
  st_size :: u32
  st_block_count :: u32
  st_create_time :: u32
  st_modify_time :: u32

record vfs_dirent =
  e_name :: "u8 list"
  e_inode :: u32
  e_type :: u8

definition zero_inode :: inode where
  "zero_inode = \<lparr>i_type = 0, i_size = 0, i_block_count = 0, i_create_time = 0, i_modify_time = 0,
     i_direct = replicate 12 0, i_indirect = 0, i_link_count = 0, i_symlink = replicate 256 0,
     i_padding = replicate 12 0\<rparr>"

definition zero_superblock :: superblock where
  "zero_superblock = \<lparr>magic = 0, version = 0, total_blocks = 0, total_inodes = 0, free_blocks = 0,
     free_inodes = 0, inode_table_start = 0, inode_table_blocks = 0, data_bitmap_start = 0,
     data_bitmap_blocks = 0, data_start = 0, block_size = 0, sb_padding = replicate 4048 0\<rparr>"

definition zero_node :: vfs_node where
  "zero_node = \<lparr>n_name = replicate 256 0, n_inode = 0, n_type = 0, n_size = 0, n_flags = 0, n_ops = None,
     n_private = 0, n_mount = 0, n_parent = 0\<rparr>"

section \<open>Byte images\<close>

definition words_to_bytes :: "u32 list \<Rightarrow> u8 list" where
  "words_to_bytes ws = concat (map le32 ws)"

definition bytes_to_words :: "nat \<Rightarrow> u8 list \<Rightarrow> u32 list" where
  "bytes_to_words n bs = map (\<lambda>k. of_le32 (bytes_at (4 * k) 4 bs)) [0..<n]"

definition encode_inode :: "inode \<Rightarrow> u8 list" where
  "encode_inode i =
     words_to_bytes ([i_type i, i_size i, i_block_count i, i_create_time i, i_modify_time i] @ i_direct i @
                     [i_indirect i, i_link_count i]) @ i_symlink i @ i_padding i"

definition decode_inode :: "u8 list \<Rightarrow> inode" where
  "decode_inode bs =
     (let w = bytes_to_words 19 bs
      in \<lparr>i_type = w ! 0, i_size = w ! 1, i_block_count = w ! 2, i_create_time = w ! 3, i_modify_time = w ! 4,
          i_direct = bytes_at 5 12 w, i_indirect = w ! 17, i_link_count = w ! 18,
          i_symlink = bytes_at 76 256 bs, i_padding = bytes_at 332 12 bs\<rparr>)"

definition encode_superblock :: "superblock \<Rightarrow> u8 list" where
  "encode_superblock b =
     words_to_bytes [magic b, version b, total_blocks b, total_inodes b, free_blocks b, free_inodes b,
       inode_table_start b, inode_table_blocks b, data_bitmap_start b, data_bitmap_blocks b, data_start b,
       block_size b] @ sb_padding b"

definition decode_superblock :: "u8 list \<Rightarrow> superblock" where
  "decode_superblock bs =
     (let w = bytes_to_words 12 bs
      in \<lparr>magic = w ! 0, version = w ! 1, total_blocks = w ! 2, total_inodes = w ! 3, free_blocks = w ! 4,
          free_inodes = w ! 5, inode_table_start = w ! 6, inode_table_blocks = w ! 7, data_bitmap_start = w ! 8,
          data_bitmap_blocks = w ! 9, data_start = w ! 10, block_size = w ! 11, sb_padding = bytes_at 48 4048 bs\<rparr>)"

definition encode_dirent :: "dirent \<Rightarrow> u8 list" where
  "encode_dirent d = le32 (d_inode d) @ [d_type d, d_name_len d] @ d_name d"

section \<open>Images read back\<close>

lemma length_words_to_bytes [simp]: "length (words_to_bytes ws) = 4 * length ws"
  by (induction ws) (simp_all add: words_to_bytes_def)

lemma length_bytes_to_words [simp]: "length (bytes_to_words n bs) = n"
  by (simp add: bytes_to_words_def)

lemma words_roundtrip: "n = length ws \<Longrightarrow> bytes_to_words n (words_to_bytes ws @ bs) = ws"
proof (induction ws arbitrary: n)
  case (Cons w ws)
  have "bytes_at (4 * Suc k) 4 (le32 w @ xs) = bytes_at (4 * k) 4 xs" for k and xs :: "u8 list"
    by (simp add: bytes_at_def)
  moreover have "[0..<n] = 0 # map Suc [0..<length ws]"
    using Cons.prems by (simp add: upt_conv_Cons map_Suc_upt del: upt_Suc)
  ultimately have "bytes_to_words n (words_to_bytes (w # ws) @ bs) =
      of_le32 (bytes_at 0 4 (le32 w @ words_to_bytes ws @ bs)) # bytes_to_words (length ws) (words_to_bytes ws @ bs)"
    by (simp add: bytes_to_words_def words_to_bytes_def comp_def)
  then show ?case using Cons.IH by (simp add: bytes_at_def)
qed (simp add: bytes_to_words_def)

definition inode_wf :: "inode \<Rightarrow> bool" where
  "inode_wf i \<longleftrightarrow> length (i_direct i) = 12 \<and> length (i_symlink i) = 256 \<and> length (i_padding i) = 12"

lemma length_encode_inode [simp]: "inode_wf i \<Longrightarrow> length (encode_inode i) = 344"
  by (simp add: encode_inode_def inode_wf_def)

lemma decode_encode_inode: "inode_wf i \<Longrightarrow> decode_inode (encode_inode i) = i"
proof -
  assume wf: "inode_wf i"
  let ?ws = "[i_type i, i_size i, i_block_count i, i_create_time i, i_modify_time i] @ i_direct i @
                     [i_indirect i, i_link_count i]"
  have w: "bytes_to_words 19 (encode_inode i) = ?ws"
    using wf unfolding encode_inode_def by (intro words_roundtrip) (simp add: inode_wf_def)
  have len: "length (words_to_bytes ?ws) = 76" using wf by (simp add: inode_wf_def)
  have s: "bytes_at 76 256 (encode_inode i) = i_symlink i" "bytes_at 332 12 (encode_inode i) = i_padding i"
    unfolding encode_inode_def bytes_at_def using wf len by (simp_all add: inode_wf_def)
  have "bytes_at 5 12 ?ws = i_direct i" "?ws ! 17 = i_indirect i" "?ws ! 18 = i_link_count i"
    using wf by (simp_all add: bytes_at_def inode_wf_def nth_append)
  then show ?thesis unfolding decode_inode_def w s Let_def by simp
qed

lemma inode_wf_decode [simp]: "length bs = 344 \<Longrightarrow> inode_wf (decode_inode bs)"
  by (simp add: inode_wf_def decode_inode_def Let_def)

lemma inode_wf_zero [simp]: "inode_wf zero_inode"
  by (simp add: inode_wf_def zero_inode_def)

lemma decode_encode_superblock:
  assumes "length (sb_padding b) = 4048"
  shows "decode_superblock (encode_superblock b) = b"
proof -
  let ?ws = "[magic b, version b, total_blocks b, total_inodes b, free_blocks b, free_inodes b,
       inode_table_start b, inode_table_blocks b, data_bitmap_start b, data_bitmap_blocks b, data_start b,
       block_size b]"
  have w: "bytes_to_words 12 (encode_superblock b) = ?ws"
    unfolding encode_superblock_def by (intro words_roundtrip) simp
  have "bytes_at 48 4048 (encode_superblock b) = sb_padding b"
    using assms by (simp add: encode_superblock_def bytes_at_def)
  then show ?thesis unfolding decode_superblock_def w Let_def by simp
qed

lemma length_encode_dirent: "length (d_name d) = 256 \<Longrightarrow> length (encode_dirent d) = 262"
  by (simp add: encode_dirent_def)

end
