(* ===== verification/Dorifs.thy ===== *)
theory Dorifs
  imports Dorifs_Layout Ata Heap "HOL-Library.Monad_Syntax"
begin

text \<open>
  The filesystem, \<open>kernel/dorifs.c\<close>. The state is the disk, the static variable \<open>fs_state\<close> (superblock,
  partition start and cached bitmap), the kernel heap and the nodes in it, by address. The outer
  \<open>option\<close> of an operation is \<open>None\<close> where the code leaves the C it is written in: it reads or writes
  outside a buffer, uses a buffer it failed to fill, or the heap walk does not return. The return
  values \<open>-1\<close>, \<open>0\<close> and \<open>NULL\<close> of the code are values. A name is the list of its bytes without the
  terminating NUL. Output is not modelled.
\<close>

section \<open>State and blocks\<close>

record fsys =
  fs_disk :: disk
  fs_lba :: u32
  sb :: superblock
  data_bitmap :: "u8 list"
  bitmap_addr :: u32
  fs_heap :: heap
  nodes :: "u32 \<Rightarrow> vfs_node"

definition dorifs_read_block :: "u32 \<Rightarrow> 'a fsys_scheme \<Rightarrow> u8 list option" where
  "dorifs_read_block block s =
     ata_read_sectors (fs_lba s + block * DORIFS_SECTORS_PER_BLOCK) 8 (fs_disk s)"

definition dorifs_write_block :: "u32 \<Rightarrow> u8 list \<Rightarrow> 'a fsys_scheme \<Rightarrow> bool \<times> 'a fsys_scheme" where
  "dorifs_write_block block buf s =
     (case ata_write_sectors (fs_lba s + block * DORIFS_SECTORS_PER_BLOCK) 8 buf (fs_disk s) of
        None \<Rightarrow> (False, s)
      | Some d \<Rightarrow> (True, s\<lparr>fs_disk := d\<rparr>))"

abbreviation zero_block :: "u8 list" where "zero_block \<equiv> replicate 4096 0"

section \<open>Inodes\<close>

definition inodes_per_block :: u32 where
  "inodes_per_block = DORIFS_BLOCK_SIZE div of_nat INODE_SIZE"

definition inode_block :: "u32 \<Rightarrow> 'a fsys_scheme \<Rightarrow> u32" where
  "inode_block ino s = inode_table_start (sb s) + ino div inodes_per_block"

definition inode_offset :: "u32 \<Rightarrow> nat" where
  "inode_offset ino = unat (ino mod inodes_per_block * of_nat INODE_SIZE)"

text \<open>\<open>None\<close> is the result \<open>-1\<close>; writing gives whether the result is 0.\<close>

definition dorifs_read_inode :: "u32 \<Rightarrow> 'a fsys_scheme \<Rightarrow> inode option" where
  "dorifs_read_inode ino s =
     (if total_inodes (sb s) \<le> ino then None
      else do { buf \<leftarrow> dorifs_read_block (inode_block ino s) s;
                Some (decode_inode (bytes_at (inode_offset ino) INODE_SIZE buf)) })"

definition dorifs_write_inode :: "u32 \<Rightarrow> inode \<Rightarrow> 'a fsys_scheme \<Rightarrow> bool \<times> 'a fsys_scheme" where
  "dorifs_write_inode ino i s =
     (if total_inodes (sb s) \<le> ino then (False, s)
      else case dorifs_read_block (inode_block ino s) s of
             None \<Rightarrow> (False, s)
           | Some buf \<Rightarrow> dorifs_write_block (inode_block ino s) (blit (inode_offset ino) (encode_inode i) buf) s)"

text \<open>The search from inode \<open>i\<close> on; 0 when there is none.\<close>

function alloc_inode_from :: "u32 \<Rightarrow> 'a fsys_scheme \<Rightarrow> u32 \<times> 'a fsys_scheme" where
  "alloc_inode_from i s =
     (if i < total_inodes (sb s)
      then case dorifs_read_block (inode_block i s) s of
             None \<Rightarrow> alloc_inode_from (i + 1) s
           | Some buf \<Rightarrow>
               if i_type (decode_inode (bytes_at (inode_offset i) INODE_SIZE buf)) = DORIFS_TYPE_FREE
               then let buf = blit (inode_offset i) (encode_inode (zero_inode\<lparr>i_link_count := 1\<rparr>)) buf;
                        s = snd (dorifs_write_block (inode_block i s) buf s)
                    in (i, s\<lparr>sb := (sb s)\<lparr>free_inodes := free_inodes (sb s) - 1\<rparr>\<rparr>)
               else alloc_inode_from (i + 1) s
      else (0, s))"
  by pat_completeness auto
termination
  by (relation "measure (\<lambda>(i, s). unat (total_inodes (sb s)) - unat i)") (auto intro: u32_step_less)

declare alloc_inode_from.simps [simp del]

definition dorifs_alloc_inode :: "'a fsys_scheme \<Rightarrow> u32 \<times> 'a fsys_scheme" where
  "dorifs_alloc_inode s = alloc_inode_from 1 s"

definition dorifs_free_inode :: "u32 \<Rightarrow> 'a fsys_scheme \<Rightarrow> 'a fsys_scheme" where
  "dorifs_free_inode ino s =
     (let s = snd (dorifs_write_inode ino (zero_inode\<lparr>i_type := DORIFS_TYPE_FREE\<rparr>) s)
      in s\<lparr>sb := (sb s)\<lparr>free_inodes := free_inodes (sb s) + 1\<rparr>\<rparr>)"

section \<open>Data blocks\<close>

text \<open>Writing the bitmap block of byte \<open>byte_idx\<close> back, from the cached bitmap.\<close>

definition write_back_bitmap :: "nat \<Rightarrow> 'a fsys_scheme \<Rightarrow> 'a fsys_scheme option" where
  "write_back_bitmap byte_idx s =
     (let bm_block = data_bitmap_start (sb s) + of_nat (byte_idx div 4096)
      in do { buf \<leftarrow> dorifs_read_block bm_block s;
              Some (snd (dorifs_write_block bm_block (buf[byte_idx mod 4096 := data_bitmap s ! byte_idx]) s)) })"

text \<open>The first clear bit among the blocks \<open>i .. n - 1\<close>; outside of the bitmap there is no telling.\<close>

function find_clear :: "u8 list \<Rightarrow> nat \<Rightarrow> nat \<Rightarrow> nat option option" where
  "find_clear bm n i =
     (if i < n
      then if length bm \<le> i div 8 then None
           else if bm ! (i div 8) AND push_bit (i mod 8) 1 = 0 then Some (Some i) else find_clear bm n (Suc i)
      else Some None)"
  by pat_completeness auto
termination by (relation "measure (\<lambda>(bm, n, i). n - i)") auto

declare find_clear.simps [simp del]

definition total_data_blocks :: "'a fsys_scheme \<Rightarrow> nat" where
  "total_data_blocks s = unat (total_blocks (sb s) - data_start (sb s))"

definition dorifs_alloc_block :: "'a fsys_scheme \<Rightarrow> (u32 \<times> 'a fsys_scheme) option" where
  "dorifs_alloc_block s =
     do { r \<leftarrow> find_clear (data_bitmap s) (total_data_blocks s) 0;
          case r of
            None \<Rightarrow> Some (0, s)
          | Some i \<Rightarrow>
              let bm = (data_bitmap s)[i div 8 := data_bitmap s ! (i div 8) OR push_bit (i mod 8) 1];
                  s = s\<lparr>data_bitmap := bm, sb := (sb s)\<lparr>free_blocks := free_blocks (sb s) - 1\<rparr>\<rparr>
              in do { s \<leftarrow> write_back_bitmap (i div 8) s; Some (data_start (sb s) + of_nat i, s) } }"

definition dorifs_free_block :: "u32 \<Rightarrow> 'a fsys_scheme \<Rightarrow> 'a fsys_scheme option" where
  "dorifs_free_block block s =
     (if block < data_start (sb s) then Some s
      else let i = unat (block - data_start (sb s))
           in if length (data_bitmap s) \<le> i div 8 then None
              else let bm = (data_bitmap s)[i div 8 := data_bitmap s ! (i div 8) AND NOT (push_bit (i mod 8) 1)];
                       s = s\<lparr>data_bitmap := bm, sb := (sb s)\<lparr>free_blocks := free_blocks (sb s) + 1\<rparr>\<rparr>
                   in write_back_bitmap (i div 8) s)"

definition dorifs_get_block :: "inode \<Rightarrow> u32 \<Rightarrow> 'a fsys_scheme \<Rightarrow> u32 option" where
  "dorifs_get_block i file_block s =
     (if file_block < DORIFS_DIRECT_BLOCKS then Some (i_direct i ! unat file_block)
      else let indirect_idx = file_block - DORIFS_DIRECT_BLOCKS
           in if DORIFS_INDIRECT_PTRS \<le> indirect_idx \<or> i_indirect i = 0 then Some 0
              else do { table \<leftarrow> dorifs_read_block (i_indirect i) s;
                        Some (bytes_to_words 1024 table ! unat indirect_idx) })"

text \<open>The first result is whether the code returns 0.\<close>

definition dorifs_set_block ::
  "inode \<Rightarrow> u32 \<Rightarrow> u32 \<Rightarrow> 'a fsys_scheme \<Rightarrow> (bool \<times> inode \<times> 'a fsys_scheme) option" where
  "dorifs_set_block i file_block disk_block s =
     (if file_block < DORIFS_DIRECT_BLOCKS
      then Some (True, i\<lparr>i_direct := (i_direct i)[unat file_block := disk_block]\<rparr>, s)
      else let indirect_idx = file_block - DORIFS_DIRECT_BLOCKS
           in if DORIFS_INDIRECT_PTRS \<le> indirect_idx then Some (False, i, s)
              else do {
                (i, s) \<leftarrow> (if i_indirect i = 0
                           then do { (b, s) \<leftarrow> dorifs_alloc_block s;
                                     Some (i\<lparr>i_indirect := b\<rparr>,
                                           if b = 0 then s else snd (dorifs_write_block b zero_block s)) }
                           else Some (i, s));
                if i_indirect i = 0 then Some (False, i, s)
                else do {
                  table \<leftarrow> dorifs_read_block (i_indirect i) s;
                  let ws = (bytes_to_words 1024 table)[unat indirect_idx := disk_block];
                  Some (True, i, snd (dorifs_write_block (i_indirect i) (words_to_bytes ws) s)) } })"

section \<open>Reading and writing files\<close>

text \<open>
  One round of a loop moves \<open>min (4096 - block_offset) (size - done)\<close> bytes, so it ends.
\<close>

definition to_copy :: "u32 \<Rightarrow> u32 \<Rightarrow> u32 \<Rightarrow> u32" where
  "to_copy offset size' done =
     (let n = DORIFS_BLOCK_SIZE - (offset + done) mod DORIFS_BLOCK_SIZE
      in if size' - done < n then size' - done else n)"

lemma to_copy_progress:
  assumes "done < size'"
  shows "unat done + unat (to_copy offset size' done) \<le> unat size'"
    and "0 < unat (to_copy offset size' done)"
    and "unat size' - unat (done + to_copy offset size' done) < unat size' - unat done"
proof -
  let ?n = "DORIFS_BLOCK_SIZE - (offset + done) mod DORIFS_BLOCK_SIZE"
  have lt: "unat done < unat size'" using assms by (simp add: unat_less_u32)
  have "unat ((offset + done) mod 4096) < 4096" by (simp add: unat_mod)
  then have n: "0 < unat ?n" by (subst unat_sub_u32) simp_all
  have d: "unat (size' - done) = unat size' - unat done" using lt by (simp add: unat_sub_u32)
  show 1: "unat done + unat (to_copy offset size' done) \<le> unat size'"
    using d lt by (auto simp: to_copy_def Let_def unat_less_u32)
  show 2: "0 < unat (to_copy offset size' done)"
    using d lt n by (simp add: to_copy_def Let_def)
  have "unat (done + to_copy offset size' done) = unat done + unat (to_copy offset size' done)"
    using 1 unat_u32_less [of size'] by (intro unat_add_u32) linarith
  then show "unat size' - unat (done + to_copy offset size' done) < unat size' - unat done"
    using lt 2 by simp
qed

function read_loop :: "inode \<Rightarrow> u32 \<Rightarrow> u32 \<Rightarrow> u32 \<Rightarrow> u8 list \<Rightarrow> 'a fsys_scheme \<Rightarrow> u8 list option" where
  "read_loop i offset size' bytes_read acc s =
     (if bytes_read < size'
      then do { disk_block \<leftarrow> dorifs_get_block i ((offset + bytes_read) div DORIFS_BLOCK_SIZE) s;
                if disk_block = 0 then Some acc
                else case dorifs_read_block disk_block s of
                       None \<Rightarrow> Some acc
                     | Some block_buf \<Rightarrow>
                         let n = to_copy offset size' bytes_read;
                             chunk = bytes_at (unat ((offset + bytes_read) mod DORIFS_BLOCK_SIZE)) (unat n) block_buf
                         in read_loop i offset size' (bytes_read + n) (acc @ chunk) s }
      else Some acc)"
  by pat_completeness auto
termination
  by (relation "measure (\<lambda>(i, offset, size', bytes_read, acc, s). unat size' - unat bytes_read)")
    (auto intro: to_copy_progress(3))

declare read_loop.simps [simp del]

text \<open>The result is the bytes put into the buffer, \<open>None\<close> for \<open>-1\<close>.\<close>

definition dorifs_vfs_read :: "u32 \<Rightarrow> u32 \<Rightarrow> u32 \<Rightarrow> 'a fsys_scheme \<Rightarrow> u8 list option option" where
  "dorifs_vfs_read node offset size' s =
     (case dorifs_read_inode (n_inode (nodes s node)) s of
        None \<Rightarrow> Some None
      | Some i \<Rightarrow>
          if i_size i \<le> offset then Some (Some [])
          else let size' = (if i_size i < offset + size' then i_size i - offset else size')
               in map_option Some (read_loop i offset size' 0 [] s))"

function write_loop ::
  "inode \<Rightarrow> u32 \<Rightarrow> u32 \<Rightarrow> u8 list \<Rightarrow> u32 \<Rightarrow> 'a fsys_scheme \<Rightarrow> (u32 \<times> inode \<times> 'a fsys_scheme) option" where
  "write_loop i offset size' buffer bytes_written s =
     (if bytes_written < size'
      then do {
        let file_block = (offset + bytes_written) div DORIFS_BLOCK_SIZE;
        disk_block \<leftarrow> dorifs_get_block i file_block s;
        (disk_block, block_buf, i, s) \<leftarrow>
          (if disk_block = 0
           then do { (b, s) \<leftarrow> dorifs_alloc_block s;
                     if b = 0 then Some (0, zero_block, i, s)
                     else do { (ok, i, s) \<leftarrow> dorifs_set_block i file_block b s;
                               Some (b, zero_block, i\<lparr>i_block_count := i_block_count i + 1\<rparr>, s) } }
           else do { buf \<leftarrow> dorifs_read_block disk_block s; Some (disk_block, buf, i, s) });
        if disk_block = 0 then Some (bytes_written, i, s)
        else let n = to_copy offset size' bytes_written;
                 block_buf = blit (unat ((offset + bytes_written) mod DORIFS_BLOCK_SIZE))
                               (bytes_at (unat bytes_written) (unat n) buffer) block_buf;
                 s = snd (dorifs_write_block disk_block block_buf s)
             in write_loop i offset size' buffer (bytes_written + n) s }
      else Some (bytes_written, i, s))"
  by pat_completeness auto
termination
  by (relation "measure (\<lambda>(i, offset, size', buffer, bytes_written, s). unat size' - unat bytes_written)")
    (auto intro: to_copy_progress(3))

declare write_loop.simps [simp del]

definition upd_node :: "u32 \<Rightarrow> (vfs_node \<Rightarrow> vfs_node) \<Rightarrow> 'a fsys_scheme \<Rightarrow> 'a fsys_scheme" where
  "upd_node p f s = s\<lparr>nodes := (nodes s)(p := f (nodes s p))\<rparr>"

text \<open>The result is the number of bytes written, \<open>None\<close> for \<open>-1\<close>.\<close>

definition dorifs_vfs_write ::
  "u32 \<Rightarrow> u32 \<Rightarrow> u32 \<Rightarrow> u8 list \<Rightarrow> 'a fsys_scheme \<Rightarrow> (u32 option \<times> 'a fsys_scheme) option" where
  "dorifs_vfs_write node offset size' buffer s =
     (case dorifs_read_inode (n_inode (nodes s node)) s of
        None \<Rightarrow> Some (None, s)
      | Some i \<Rightarrow> do {
          (bytes_written, i, s) \<leftarrow> write_loop i offset size' buffer 0 s;
          let i = (if i_size i < offset + bytes_written then i\<lparr>i_size := offset + bytes_written\<rparr> else i);
          let s = upd_node node (\<lambda>n. n\<lparr>n_size := i_size i\<rparr>) s;
          Some (Some bytes_written, snd (dorifs_write_inode (n_inode (nodes s node)) i s)) })"

definition truncate_from :: "inode \<Rightarrow> u32 list \<Rightarrow> 'a fsys_scheme \<Rightarrow> (inode \<times> 'a fsys_scheme) option" where
  "truncate_from i bs s =
     fold (\<lambda>b r. do { (i, s) \<leftarrow> r;
                      disk_block \<leftarrow> dorifs_get_block i b s;
                      if disk_block = 0 then Some (i, s)
                      else do { s \<leftarrow> dorifs_free_block disk_block s;
                                (ok, i, s) \<leftarrow> dorifs_set_block i b 0 s;
                                Some (i\<lparr>i_block_count := i_block_count i - 1\<rparr>, s) } })
       bs (Some (i, s))"

definition blocks_of_size :: "u32 \<Rightarrow> u32" where
  "blocks_of_size n = (n + DORIFS_BLOCK_SIZE - 1) div DORIFS_BLOCK_SIZE"

definition dorifs_vfs_truncate :: "u32 \<Rightarrow> u32 \<Rightarrow> 'a fsys_scheme \<Rightarrow> (int \<times> 'a fsys_scheme) option" where
  "dorifs_vfs_truncate node size' s =
     (case dorifs_read_inode (n_inode (nodes s node)) s of
        None \<Rightarrow> Some (- 1, s)
      | Some i \<Rightarrow> do {
          (i, s) \<leftarrow> (if size' < i_size i
                     then truncate_from i (map of_nat [unat (blocks_of_size size')..<unat (blocks_of_size (i_size i))]) s
                     else Some (i, s));
          let s = upd_node node (\<lambda>n. n\<lparr>n_size := size'\<rparr>) s;
          Some (0, snd (dorifs_write_inode (n_inode (nodes s node)) (i\<lparr>i_size := size'\<rparr>) s)) })"

definition dorifs_vfs_stat :: "u32 \<Rightarrow> 'a fsys_scheme \<Rightarrow> vfs_stat option" where
  "dorifs_vfs_stat node s =
     do { i \<leftarrow> dorifs_read_inode (n_inode (nodes s node)) s;
          Some \<lparr>st_inode = n_inode (nodes s node),
                st_type = (if i_type i = DORIFS_TYPE_FILE then VFS_FILE
                           else if i_type i = DORIFS_TYPE_DIR then VFS_DIRECTORY
                           else if i_type i = DORIFS_TYPE_SYMLINK then VFS_SYMLINK else 0),
                st_size = i_size i, st_block_count = i_block_count i,
                st_create_time = i_create_time i, st_modify_time = i_modify_time i\<rparr> }"

definition dorifs_vfs_open :: "u32 \<Rightarrow> u32 \<Rightarrow> 'a fsys_scheme \<Rightarrow> int" where
  "dorifs_vfs_open node flags s = 0"

definition dorifs_vfs_close :: "u32 \<Rightarrow> 'a fsys_scheme \<Rightarrow> int" where
  "dorifs_vfs_close node s = 0"

section \<open>Directories\<close>

text \<open>
  The fields of the entry at \<open>off\<close> in a block buffer; an entry may reach past the end of the buffer,
  and \<open>None\<close> is a field that does.
\<close>

definition field :: "nat \<Rightarrow> nat \<Rightarrow> u8 list \<Rightarrow> u8 list option" where
  "field off n buf = (if off + n \<le> length buf then Some (bytes_at off n buf) else None)"

definition de_inode :: "nat \<Rightarrow> u8 list \<Rightarrow> u32 option" where
  "de_inode off buf = map_option of_le32 (field off 4 buf)"

definition de_type :: "nat \<Rightarrow> u8 list \<Rightarrow> u8 option" where
  "de_type off buf = map_option hd (field (off + 4) 1 buf)"

definition de_name_len :: "nat \<Rightarrow> u8 list \<Rightarrow> u8 option" where
  "de_name_len off buf = map_option hd (field (off + 5) 1 buf)"

text \<open>\<open>strncmp\<close> of the bytes from a place in a buffer with a string: the buffer may end first.\<close>

fun strncmp_buf :: "u8 list \<Rightarrow> u8 list \<Rightarrow> nat \<Rightarrow> int option" where
  "strncmp_buf xs ys 0 = Some 0"
| "strncmp_buf (x # xs) (y # ys) (Suc n) =
     (if x \<noteq> 0 \<and> x = y then strncmp_buf xs ys n else Some (uint x - uint y))"
| "strncmp_buf xs ys (Suc n) = None"

text \<open>\<open>strncmp(de->name, name, de->name_len) == 0 && name[de->name_len] == 0\<close>\<close>

definition name_matches :: "nat \<Rightarrow> u8 list \<Rightarrow> u8 list \<Rightarrow> bool option" where
  "name_matches off buf name =
     do { len \<leftarrow> de_name_len off buf;
          d \<leftarrow> strncmp_buf (drop (off + 6) buf) (name @ [0]) (unat len);
          if d \<noteq> 0 then Some False
          else if length name < unat len then None else Some ((name @ [0]) ! unat len = 0) }"

text \<open>
  The common loop over the entries of a directory: \<open>visit\<close> looks at the entry at an offset of a block
  and says whether to stop. \<open>Some None\<close>: the loop ran out of entries or could not read a block.
\<close>

definition dir_fuel :: "inode \<Rightarrow> nat" where
  "dir_fuel i = unat (i_size i) div DIRENT_SIZE + 2"

primrec scan_dir ::
  "nat \<Rightarrow> inode \<Rightarrow> u32 \<Rightarrow> (u32 \<Rightarrow> nat \<Rightarrow> u8 list \<Rightarrow> 'b \<Rightarrow> ('r + 'b) option) \<Rightarrow> 'b \<Rightarrow> 'a fsys_scheme \<Rightarrow> 'r option option" where
  "scan_dir 0 i offset visit acc s = None"
| "scan_dir (Suc fuel) i offset visit acc s =
     (if offset < i_size i
      then do { disk_block \<leftarrow> dorifs_get_block i (offset div DORIFS_BLOCK_SIZE) s;
                if disk_block = 0 then Some None
                else case dorifs_read_block disk_block s of
                       None \<Rightarrow> Some None
                     | Some buf \<Rightarrow>
                         do { r \<leftarrow> visit disk_block (unat (offset mod DORIFS_BLOCK_SIZE)) buf acc;
                              case r of
                                Inl x \<Rightarrow> Some (Some x)
                              | Inr acc \<Rightarrow> scan_dir fuel i (offset + of_nat DIRENT_SIZE) visit acc s } }
      else Some None)"

definition visit_index :: "u32 \<Rightarrow> u32 \<Rightarrow> nat \<Rightarrow> u8 list \<Rightarrow> u32 \<Rightarrow> (vfs_dirent + u32) option" where
  "visit_index index disk_block off buf entry_idx =
     do { ino \<leftarrow> de_inode off buf;
          if ino = 0 then Some (Inr entry_idx)
          else if entry_idx \<noteq> index then Some (Inr (entry_idx + 1))
          else do { ty \<leftarrow> de_type off buf;
                    len \<leftarrow> de_name_len off buf;
                    name \<leftarrow> field (off + 6) (unat len) buf;
                    Some (Inl \<lparr>e_name = name, e_inode = ino, e_type = ty\<rparr>) } }"

definition visit_name :: "u8 list \<Rightarrow> u32 \<Rightarrow> nat \<Rightarrow> u8 list \<Rightarrow> unit \<Rightarrow> ((u32 \<times> u32 \<times> nat \<times> u8 list) + unit) option" where
  "visit_name name disk_block off buf u =
     do { ino \<leftarrow> de_inode off buf;
          if ino = 0 then Some (Inr ())
          else do { m \<leftarrow> name_matches off buf name;
                    Some (if m then Inl (ino, disk_block, off, buf) else Inr ()) } }"

text \<open>The directory entry, \<open>None\<close> for \<open>-1\<close>.\<close>

definition dorifs_vfs_readdir :: "u32 \<Rightarrow> u32 \<Rightarrow> 'a fsys_scheme \<Rightarrow> vfs_dirent option option" where
  "dorifs_vfs_readdir node index s =
     (case dorifs_read_inode (n_inode (nodes s node)) s of
        None \<Rightarrow> Some None
      | Some i \<Rightarrow>
          if i_type i \<noteq> DORIFS_TYPE_DIR then Some None
          else scan_dir (dir_fuel i) i 0 (visit_index index) 0 s)"

section \<open>Nodes\<close>

text \<open>\<open>dorifs_make_vfs_node\<close>: the address of a new node, 0 for \<open>NULL\<close>; \<open>sizeof(vfs_node_t)\<close> is 288.\<close>

definition dorifs_make_vfs_node :: "u32 \<Rightarrow> 'a fsys_scheme \<Rightarrow> (u32 \<times> 'a fsys_scheme) option" where
  "dorifs_make_vfs_node ino s =
     (case dorifs_read_inode ino s of
        None \<Rightarrow> Some (0, s)
      | Some i \<Rightarrow> do {
          (p, h) \<leftarrow> kmalloc 288 (fs_heap s);
          let s = s\<lparr>fs_heap := h\<rparr>;
          if p = 0 then Some (0, s)
          else Some (p, upd_node p (\<lambda>_. zero_node\<lparr>n_inode := ino, n_size := i_size i, n_ops := Some Dorifs_Ops,
                 n_type := (if i_type i = DORIFS_TYPE_FILE then VFS_FILE
                            else if i_type i = DORIFS_TYPE_DIR then VFS_DIRECTORY
                            else if i_type i = DORIFS_TYPE_SYMLINK then VFS_SYMLINK else 0)\<rparr>) s) })"

definition dorifs_vfs_finddir :: "u32 \<Rightarrow> u8 list \<Rightarrow> 'a fsys_scheme \<Rightarrow> (u32 \<times> 'a fsys_scheme) option" where
  "dorifs_vfs_finddir node name s =
     (case dorifs_read_inode (n_inode (nodes s node)) s of
        None \<Rightarrow> Some (0, s)
      | Some i \<Rightarrow>
          if i_type i \<noteq> DORIFS_TYPE_DIR then Some (0, s)
          else do { r \<leftarrow> scan_dir (dir_fuel i) i 0 (visit_name name) () s;
                    case r of None \<Rightarrow> Some (0, s)
                            | Some (ino, _) \<Rightarrow> dorifs_make_vfs_node ino s })"

section \<open>Changing directories\<close>

definition make_dirent :: "u32 \<Rightarrow> u8 \<Rightarrow> u8 list \<Rightarrow> dirent" where
  "make_dirent ino ty name =
     \<lparr>d_inode = ino, d_type = ty, d_name_len = of_nat (length name),
      d_name = take 255 name @ replicate (256 - length (take 255 name)) 0\<rparr>"

text \<open>
  Appending an entry for the new inode \<open>ino\<close> to the directory \<open>parent\<close>: the second half of
  \<open>dorifs_vfs_create\<close> and of \<open>dorifs_vfs_symlink\<close>. The copy into the block buffer is \<open>memcpy\<close> of a
  whole entry, wherever in the block the directory ends.
\<close>

definition append_entry :: "u32 \<Rightarrow> u32 \<Rightarrow> u8 \<Rightarrow> u8 list \<Rightarrow> 'a fsys_scheme \<Rightarrow> (int \<times> 'a fsys_scheme) option" where
  "append_entry parent ino ty name s =
     (case dorifs_read_inode (n_inode (nodes s parent)) s of
        None \<Rightarrow> Some (- 1, dorifs_free_inode ino s)
      | Some pi \<Rightarrow> do {
          let file_block = i_size pi div DORIFS_BLOCK_SIZE;
          let block_offset = unat (i_size pi mod DORIFS_BLOCK_SIZE);
          disk_block \<leftarrow> dorifs_get_block pi file_block s;
          (disk_block, buf, pi, s) \<leftarrow>
            (if disk_block = 0
             then do { (b, s) \<leftarrow> dorifs_alloc_block s;
                       if b = 0 then Some (0, zero_block, pi, dorifs_free_inode ino s)
                       else do { (ok, pi, s) \<leftarrow> dorifs_set_block pi file_block b s;
                                 Some (b, zero_block, pi\<lparr>i_block_count := i_block_count pi + 1\<rparr>, s) } }
             else do { buf \<leftarrow> dorifs_read_block disk_block s; Some (disk_block, buf, pi, s) });
          if disk_block = 0 then Some (- 1, s)
          else if length buf < block_offset + DIRENT_SIZE then None
          else let buf = blit block_offset (encode_dirent (make_dirent ino ty name)) buf;
                   s = snd (dorifs_write_block disk_block buf s);
                   pi = pi\<lparr>i_size := i_size pi + of_nat DIRENT_SIZE\<rparr>;
                   s = snd (dorifs_write_inode (n_inode (nodes s parent)) pi s)
               in Some (0, upd_node parent (\<lambda>n. n\<lparr>n_size := i_size pi\<rparr>) s) })"

definition dorifs_vfs_create :: "u32 \<Rightarrow> u8 list \<Rightarrow> u32 \<Rightarrow> 'a fsys_scheme \<Rightarrow> (int \<times> 'a fsys_scheme) option" where
  "dorifs_vfs_create parent name ty s =
     (let (ino, s) = dorifs_alloc_inode s
      in if ino = 0 then Some (- 1, s)
         else let t = (if ty AND VFS_DIRECTORY \<noteq> 0 then DORIFS_TYPE_DIR
                       else if ty AND VFS_SYMLINK \<noteq> 0 then DORIFS_TYPE_SYMLINK else DORIFS_TYPE_FILE);
                  s = snd (dorifs_write_inode ino (zero_inode\<lparr>i_type := t, i_link_count := 1\<rparr>) s)
              in append_entry parent ino (ucast t) name s)"

definition dorifs_vfs_symlink :: "u32 \<Rightarrow> u8 list \<Rightarrow> u8 list \<Rightarrow> 'a fsys_scheme \<Rightarrow> (int \<times> 'a fsys_scheme) option" where
  "dorifs_vfs_symlink parent name target s =
     (let (ino, s) = dorifs_alloc_inode s
      in if ino = 0 then Some (- 1, s)
         else let i = zero_inode\<lparr>i_type := DORIFS_TYPE_SYMLINK, i_link_count := 1, i_size := of_nat (length target),
                        i_symlink := take 255 target @ replicate (256 - length (take 255 target)) 0\<rparr>;
                  s = snd (dorifs_write_inode ino i s)
              in append_entry parent ino (ucast DORIFS_TYPE_SYMLINK) name s)"

text \<open>\<open>strlen\<close> of the target bytes: \<open>None\<close> when no NUL is among the 256 bytes and the 12 after them.\<close>

definition target_of :: "inode \<Rightarrow> u8 list option" where
  "target_of i = (let bs = i_symlink i @ i_padding i
                  in if 0 \<in> set bs then Some (takeWhile (\<lambda>c. c \<noteq> 0) bs) else None)"

text \<open>The bytes put into the buffer, \<open>None\<close> for \<open>-1\<close>.\<close>

definition dorifs_vfs_readlink :: "u32 \<Rightarrow> u32 \<Rightarrow> 'a fsys_scheme \<Rightarrow> u8 list option option" where
  "dorifs_vfs_readlink node bufsiz s =
     (case dorifs_read_inode (n_inode (nodes s node)) s of
        None \<Rightarrow> Some None
      | Some i \<Rightarrow>
          if i_type i \<noteq> DORIFS_TYPE_SYMLINK then Some None
          else map_option (\<lambda>t. Some (take (unat bufsiz) t)) (target_of i))"

definition free_blocks_of :: "u32 list \<Rightarrow> 'a fsys_scheme \<Rightarrow> 'a fsys_scheme option" where
  "free_blocks_of bs s =
     fold (\<lambda>b r. do { s \<leftarrow> r; if b = 0 then Some s else dorifs_free_block b s }) bs (Some s)"

definition dorifs_vfs_unlink :: "u32 \<Rightarrow> u8 list \<Rightarrow> 'a fsys_scheme \<Rightarrow> (int \<times> 'a fsys_scheme) option" where
  "dorifs_vfs_unlink parent name s =
     (case dorifs_read_inode (n_inode (nodes s parent)) s of
        None \<Rightarrow> Some (- 1, s)
      | Some pi \<Rightarrow> do {
          r \<leftarrow> scan_dir (dir_fuel pi) pi 0 (visit_name name) () s;
          case r of
            None \<Rightarrow> Some (- 1, s)
          | Some (ino, disk_block, off, buf) \<Rightarrow> do {
              target \<leftarrow> dorifs_read_inode ino s;
              s \<leftarrow> free_blocks_of (i_direct target) s;
              s \<leftarrow> (if i_indirect target = 0 then Some s
                   else do { table \<leftarrow> dorifs_read_block (i_indirect target) s;
                             s \<leftarrow> free_blocks_of (bytes_to_words 1024 table) s;
                             dorifs_free_block (i_indirect target) s });
              let s = dorifs_free_inode ino s;
              Some (0, snd (dorifs_write_block disk_block (blit off (le32 0) buf) s)) } })"

section \<open>Formatting and mounting\<close>

text \<open>The layout \<open>dorifs_format\<close> computes: \<open>DORIFS_MAX_INODES * sizeof(dorifs_inode_t)\<close> bytes of inode table.\<close>

definition format_superblock :: "u32 \<Rightarrow> superblock" where
  "format_superblock total_sectors =
     (let blocks = total_sectors div DORIFS_SECTORS_PER_BLOCK;
          table_blocks = (DORIFS_MAX_INODES * of_nat INODE_SIZE + DORIFS_BLOCK_SIZE - 1) div DORIFS_BLOCK_SIZE;
          data_blocks = blocks - 1 - table_blocks;
          bitmap_blocks = (data_blocks div 8 + DORIFS_BLOCK_SIZE - 1) div DORIFS_BLOCK_SIZE;
          data_blocks = data_blocks - bitmap_blocks
      in zero_superblock\<lparr>magic := DORIFS_MAGIC, version := DORIFS_VERSION, total_blocks := blocks,
           total_inodes := DORIFS_MAX_INODES, free_blocks := data_blocks,
           free_inodes := DORIFS_MAX_INODES - 1, inode_table_start := 1, inode_table_blocks := table_blocks,
           data_bitmap_start := 1 + table_blocks, data_bitmap_blocks := bitmap_blocks,
           data_start := 1 + table_blocks + bitmap_blocks, block_size := DORIFS_BLOCK_SIZE\<rparr>)"

definition write_sectors :: "u32 \<Rightarrow> u8 list \<Rightarrow> disk \<Rightarrow> disk" where
  "write_sectors lba buf d = (case ata_write_sectors lba 8 buf d of None \<Rightarrow> d | Some d \<Rightarrow> d)"

text \<open>Zeroing the blocks \<open>first, first + 1, ...\<close> of the partition.\<close>

definition zero_blocks :: "u32 \<Rightarrow> u32 \<Rightarrow> nat \<Rightarrow> disk \<Rightarrow> disk" where
  "zero_blocks lba first n d =
     fold (\<lambda>k. write_sectors (lba + (first + of_nat k) * DORIFS_SECTORS_PER_BLOCK) zero_block) [0..<n] d"

text \<open>Without a drive every access fails and the code reports success; a bad sector leaves garbage.\<close>

definition dorifs_format :: "u32 \<Rightarrow> u32 \<Rightarrow> disk \<Rightarrow> (int \<times> disk) option" where
  "dorifs_format lba total_sectors d =
     (let b = format_superblock total_sectors;
          d = write_sectors lba (encode_superblock b) d;
          d = zero_blocks lba 1 (unat (inode_table_blocks b)) d;
          d = zero_blocks lba (data_bitmap_start b) (unat (data_bitmap_blocks b)) d;
          root = zero_inode\<lparr>i_type := DORIFS_TYPE_DIR, i_link_count := 1\<rparr>;
          table = lba + 1 * DORIFS_SECTORS_PER_BLOCK
      in do {
        buf \<leftarrow> (if present (drive d) then ata_read_sectors table 8 d else Some zero_block);
        let d = write_sectors table (blit INODE_SIZE (encode_inode root) buf) d;
        let d = write_sectors lba (encode_superblock (b\<lparr>free_inodes := free_inodes b - 1\<rparr>)) d;
        Some (0, d) })"

text \<open>Loading the bitmap, a block at a time into the buffer of \<open>data_bitmap_blocks\<close> blocks.\<close>

definition load_bitmap :: "'a fsys_scheme \<Rightarrow> u8 list option" where
  "load_bitmap s =
     fold (\<lambda>k r. do { bm \<leftarrow> r;
                      buf \<leftarrow> dorifs_read_block (data_bitmap_start (sb s) + of_nat k) s;
                      Some (bm @ buf) })
       [0..<unat (data_bitmap_blocks (sb s))] (Some [])"

text \<open>The address of the root node, 0 for \<open>NULL\<close>.\<close>

definition dorifs_mount :: "u32 \<Rightarrow> 'a fsys_scheme \<Rightarrow> (u32 \<times> 'a fsys_scheme) option" where
  "dorifs_mount lba s =
     (let s = s\<lparr>fs_lba := lba\<rparr>
      in case ata_read_sectors lba 8 (fs_disk s) of
           None \<Rightarrow> Some (0, s)
         | Some buf \<Rightarrow>
             let s = s\<lparr>sb := decode_superblock buf\<rparr>
             in if magic (sb s) \<noteq> DORIFS_MAGIC then Some (0, s)
                else do {
                  (p, h) \<leftarrow> kmalloc (data_bitmap_blocks (sb s) * DORIFS_BLOCK_SIZE) (fs_heap s);
                  let s = s\<lparr>fs_heap := h, bitmap_addr := p\<rparr>;
                  if p = 0 then Some (0, s)
                  else do {
                    bm \<leftarrow> load_bitmap s;
                    let s = s\<lparr>data_bitmap := bm\<rparr>;
                    (root, s) \<leftarrow> dorifs_make_vfs_node DORIFS_ROOT_INODE s;
                    if root = 0
                    then do { h \<leftarrow> kfree (bitmap_addr s) (fs_heap s); Some (0, s\<lparr>fs_heap := h\<rparr>) }
                    else Some (root, upd_node root (\<lambda>n. n\<lparr>n_name := 47 # 0 # drop 2 (n_name n)\<rparr>) s) } })"

definition dorifs_unmount :: "'a fsys_scheme \<Rightarrow> 'a fsys_scheme option" where
  "dorifs_unmount s =
     (let s = snd (dorifs_write_block 0 (encode_superblock (sb s)) s)
      in if bitmap_addr s = 0 then Some s
         else do { h \<leftarrow> kfree (bitmap_addr s) (fs_heap s);
                   Some (s\<lparr>fs_heap := h, data_bitmap := [], bitmap_addr := 0\<rparr>) })"

end
