(* ===== verification/Dorifs_Blocks.thy ===== *)
theory Dorifs_Blocks
  imports Dorifs
begin

text \<open>
  What DoriFS relies on below the file level: logical blocks as an array, the inode table as an array
  of inodes, and the bitmap as the set of used data blocks, each with its frame (what an update leaves
  alone).
\<close>

section \<open>Blocks as an array\<close>

definition disk_ok :: "disk \<Rightarrow> bool" where
  "disk_ok d \<longleftrightarrow> present (drive d) \<and> (\<forall>k. \<not> bad d k) \<and> (\<forall>k. length (sectors d k) = 512)"

definition block_ok :: "'a fsys_scheme \<Rightarrow> u32 \<Rightarrow> bool" where
  "block_ok s b \<longleftrightarrow> unat (fs_lba s) + 8 * unat b + 8 \<le> 268435456"

definition blk :: "'a fsys_scheme \<Rightarrow> u32 \<Rightarrow> u8 list" where
  "blk s b = concat (map (\<lambda>k. sectors (fs_disk s) (unat (fs_lba s) + 8 * unat b + k)) [0..<8])"

lemma block_sector:
  "block_ok s b \<Longrightarrow> device_sector (lba_registers (fs_lba s + b * 8)) = unat (fs_lba s) + 8 * unat b"
proof -
  assume ok: "block_ok s b"
  then have m: "unat (b * 8) = 8 * unat b" by (subst unat_mult_u32) (simp_all add: block_ok_def)
  then have "unat (fs_lba s + b * 8) = unat (fs_lba s) + 8 * unat b"
    using ok by (subst unat_add_u32) (simp_all add: block_ok_def)
  then show ?thesis using ok by (simp add: device_sector_lba block_ok_def)
qed

lemma upt_8: "[0..<8] = [0, 1, 2, 3, 4, 5, 6, 7 :: nat]"
  by (simp add: upt_rec)

lemma length_blk: "disk_ok (fs_disk s) \<Longrightarrow> length (blk s b) = 4096"
  by (simp add: blk_def upt_8 disk_ok_def)

lemma read_block: "disk_ok (fs_disk s) \<Longrightarrow> block_ok s b \<Longrightarrow> dorifs_read_block b s = Some (blk s b)"
  by (simp add: dorifs_read_block_def ata_read_sectors_def block_sector blk_def disk_ok_def)

definition put_block :: "u32 \<Rightarrow> u8 list \<Rightarrow> 'a fsys_scheme \<Rightarrow> 'a fsys_scheme" where
  "put_block b buf s = snd (dorifs_write_block b buf s)"

lemma put_block_eq:
  "disk_ok (fs_disk s) \<Longrightarrow> block_ok s b \<Longrightarrow>
   put_block b buf s = s\<lparr>fs_disk := (fs_disk s)\<lparr>sectors :=
      store_sectors 8 (unat (fs_lba s) + 8 * unat b) buf (sectors (fs_disk s))\<rparr>\<rparr> \<and>
   fst (dorifs_write_block b buf s)"
  by (simp add: put_block_def dorifs_write_block_def ata_write_sectors_def block_sector disk_ok_def)

lemma put_block_frame [simp]:
  "fs_lba (put_block b buf s) = fs_lba s" "sb (put_block b buf s) = sb s"
  "data_bitmap (put_block b buf s) = data_bitmap s" "bitmap_addr (put_block b buf s) = bitmap_addr s"
  "fs_heap (put_block b buf s) = fs_heap s" "nodes (put_block b buf s) = nodes s"
  by (simp_all add: put_block_def dorifs_write_block_def split: option.splits)

lemma block_ok_put [simp]: "block_ok (put_block b buf s) = block_ok s"
  by (simp add: block_ok_def fun_eq_iff)

lemma put_block_ok:
  assumes "disk_ok (fs_disk s)" "block_ok s b" "length buf = 4096"
  shows "disk_ok (fs_disk (put_block b buf s))"
    "block_ok s c \<Longrightarrow> blk (put_block b buf s) c = (if c = b then buf else blk s c)"
proof -
  let ?a = "unat (fs_lba s) + 8 * unat b"
  have sec: "sectors (fs_disk (put_block b buf s)) k =
      (if ?a \<le> k \<and> k < ?a + 8 then take 512 (drop (512 * (k - ?a)) buf) else sectors (fs_disk s) k)" for k
    using put_block_eq [OF assms(1,2), of buf] by (simp add: store_sectors_eq)
  have "length (take 512 (drop (512 * (k - ?a)) buf)) = 512" if "?a \<le> k \<and> k < ?a + 8" for k
  proof -
    have "k - ?a \<le> 7" using that by linarith
    then show ?thesis using assms(3) by simp
  qed
  then show "disk_ok (fs_disk (put_block b buf s))"
    using assms(1) put_block_eq [OF assms(1,2), of buf] by (auto simp: disk_ok_def sec store_sectors_eq)
  assume c: "block_ok s c"
  show "blk (put_block b buf s) c = (if c = b then buf else blk s c)"
  proof (cases "c = b")
    case True
    have "blk (put_block b buf s) b = concat (map (\<lambda>k. take 512 (drop (512 * k) buf)) [0..<8])"
      unfolding blk_def by (intro arg_cong [where f = concat] map_cong refl) (simp add: sec)
    also have "\<dots> = buf"
    proof -
      have "concat (map (\<lambda>k. take 512 (drop (512 * k) buf)) [0..<n]) = take (512 * n) buf" for n
      proof (induction n)
        case (Suc n)
        have "512 * Suc n = 512 * n + 512" by simp
        then show ?case using Suc by (simp only: take_add) simp
      qed simp
      from this [of 8] show ?thesis using assms(3) by simp
    qed
    finally show ?thesis using True by simp
  next
    case False
    then have "unat c \<noteq> unat b" by (simp add: word_unat_eq_iff)
    then have "\<not> (?a \<le> unat (fs_lba s) + 8 * unat c + k \<and> unat (fs_lba s) + 8 * unat c + k < ?a + 8)" if "k < 8" for k
      using that by linarith
    then have "sectors (fs_disk (put_block b buf s)) (unat (fs_lba s) + 8 * unat c + k) =
        sectors (fs_disk s) (unat (fs_lba s) + 8 * unat c + k)" if "k < 8" for k
      using that sec by presburger
    then have "blk (put_block b buf s) c = blk s c"
      unfolding blk_def put_block_frame by (intro arg_cong [where f = concat] map_cong refl) simp
    then show ?thesis using False by simp
  qed
qed

lemma blk_cong [simp]:
  "blk (s\<lparr>sb := x\<rparr>) = blk s" "blk (s\<lparr>data_bitmap := bm\<rparr>) = blk s" "blk (s\<lparr>nodes := nd\<rparr>) = blk s"
  "blk (s\<lparr>fs_heap := h\<rparr>) = blk s" "block_ok (s\<lparr>sb := x\<rparr>) = block_ok s"
  "block_ok (s\<lparr>data_bitmap := bm\<rparr>) = block_ok s" "block_ok (s\<lparr>nodes := nd\<rparr>) = block_ok s"
  by (simp_all add: blk_def block_ok_def fun_eq_iff)

section \<open>Inodes as an array\<close>

text \<open>Inode \<open>ino\<close> is in the part of the table before the bitmap.\<close>

definition ino_ok :: "'a fsys_scheme \<Rightarrow> u32 \<Rightarrow> bool" where
  "ino_ok s ino \<longleftrightarrow> ino < total_inodes (sb s) \<and>
     unat (inode_table_start (sb s)) + unat ino div 11 < unat (data_bitmap_start (sb s)) \<and>
     unat (fs_lba s) + 8 * unat (data_bitmap_start (sb s)) \<le> 268435456"

definition ino_at :: "'a fsys_scheme \<Rightarrow> u32 \<Rightarrow> inode" where
  "ino_at s ino = decode_inode (bytes_at (inode_offset ino) INODE_SIZE (blk s (inode_block ino s)))"

lemma inodes_per_block [simp]: "inodes_per_block = 11"
  by (simp add: inodes_per_block_def)

lemma unat_inode_block: "ino_ok s ino \<Longrightarrow>
  unat (inode_block ino s) = unat (inode_table_start (sb s)) + unat ino div 11 \<and> block_ok s (inode_block ino s)"
proof -
  assume ok: "ino_ok s ino"
  then have "unat (inode_block ino s) = unat (inode_table_start (sb s)) + unat ino div 11"
    unfolding inode_block_def by (subst unat_add_u32) (auto simp: ino_ok_def unat_div)
  then show ?thesis using ok by (simp add: ino_ok_def block_ok_def)
qed

lemma unat_inode_offset: "inode_offset ino = unat ino mod 11 * 344" "inode_offset ino + 344 \<le> 4096"
proof -
  have "unat (ino mod 11) \<le> 10" by (simp add: unat_mod less_Suc_eq_le [symmetric])
  then show 1: "inode_offset ino = unat ino mod 11 * 344"
    unfolding inode_offset_def inodes_per_block by (subst unat_mult_u32) (simp_all add: unat_mod)
  have "unat ino mod 11 \<le> 10" by (simp add: less_Suc_eq_le [symmetric])
  then show "inode_offset ino + 344 \<le> 4096" unfolding 1 by linarith
qed

lemma read_inode: "disk_ok (fs_disk s) \<Longrightarrow> ino_ok s ino \<Longrightarrow> dorifs_read_inode ino s = Some (ino_at s ino)"
  using unat_inode_block [of s ino] read_block [of s "inode_block ino s"]
  by (auto simp: dorifs_read_inode_def ino_at_def ino_ok_def)

definition put_inode :: "u32 \<Rightarrow> inode \<Rightarrow> 'a fsys_scheme \<Rightarrow> 'a fsys_scheme" where
  "put_inode ino i s = snd (dorifs_write_inode ino i s)"

lemma put_inode_eq:
  "disk_ok (fs_disk s) \<Longrightarrow> ino_ok s ino \<Longrightarrow>
   put_inode ino i s = put_block (inode_block ino s) (blit (inode_offset ino) (encode_inode i) (blk s (inode_block ino s))) s"
  using unat_inode_block [of s ino] read_block [of s "inode_block ino s"]
  by (auto simp: put_inode_def dorifs_write_inode_def put_block_def ino_ok_def)

lemma put_inode_frame [simp]:
  "fs_lba (put_inode b i s) = fs_lba s" "sb (put_inode b i s) = sb s"
  "data_bitmap (put_inode b i s) = data_bitmap s" "bitmap_addr (put_inode b i s) = bitmap_addr s"
  "fs_heap (put_inode b i s) = fs_heap s" "nodes (put_inode b i s) = nodes s"
  by (simp_all add: put_inode_def dorifs_write_inode_def put_block_def [symmetric] split: option.splits)

lemma same_place:
  assumes "unat a div 11 = unat b div 11" "unat a mod 11 = unat b mod 11"
  shows "a = (b :: u32)"
  using assms by (metis div_mult_mod_eq word_unat_eq_iff)

lemma put_inode_props:
  assumes disk: "disk_ok (fs_disk s)" and ino: "ino_ok s ino" and wf: "inode_wf i"
  shows "disk_ok (fs_disk (put_inode ino i s))"
    "ino_ok s j \<Longrightarrow> ino_at (put_inode ino i s) j = (if j = ino then i else ino_at s j)"
    "block_ok s b \<Longrightarrow> data_bitmap_start (sb s) \<le> b \<Longrightarrow> blk (put_inode ino i s) b = blk s b"
proof -
  let ?b = "inode_block ino s" and ?s = "put_inode ino i s"
  let ?buf = "blit (inode_offset ino) (encode_inode i) (blk s ?b)"
  have b: "block_ok s ?b" and ub: "unat ?b = unat (inode_table_start (sb s)) + unat ino div 11"
    using unat_inode_block [OF ino] by auto
  have fits: "inode_offset ino + length (encode_inode i) \<le> length (blk s ?b)"
    using wf disk unat_inode_offset(2) [of ino] by (simp add: length_blk)
  have buf: "length ?buf = 4096" using fits disk by (simp add: length_blk)
  note p = put_block_ok [OF disk b buf, folded put_inode_eq [OF disk ino]]
  show "disk_ok (fs_disk ?s)" using p(1) put_inode_eq [OF disk ino] by simp
  have ib: "inode_block j ?s = inode_block j s" for j by (simp add: inode_block_def)
  show "ino_at ?s j = (if j = ino then i else ino_at s j)" if j: "ino_ok s j"
  proof -
    have bj: "block_ok s (inode_block j s)" and uj: "unat (inode_block j s) = unat (inode_table_start (sb s)) + unat j div 11"
      using unat_inode_block [OF j] by auto
    have blkj: "blk ?s (inode_block j s) = (if inode_block j s = ?b then ?buf else blk s (inode_block j s))"
      using p(2) [OF bj] put_inode_eq [OF disk ino] by simp
    show ?thesis
    proof (cases "j = ino")
      case True
      have "bytes_at (inode_offset ino) 344 ?buf = encode_inode i"
        using fits wf by (intro bytes_at_blit_same) auto
      then show ?thesis using True blkj wf by (simp add: ino_at_def ib decode_encode_inode)
    next
      case ne: False
      show ?thesis
      proof (cases "inode_block j s = ?b")
        case True
        then have "unat j div 11 = unat ino div 11" using ub uj by simp
        then have "unat j mod 11 \<noteq> unat ino mod 11" using ne same_place by blast
        then have "inode_offset j + 344 \<le> inode_offset ino \<or> inode_offset ino + 344 \<le> inode_offset j"
          unfolding unat_inode_offset(1) by linarith
        then have "bytes_at (inode_offset j) 344 ?buf = bytes_at (inode_offset j) 344 (blk s ?b)"
          using fits wf unat_inode_offset(2) [of j] disk by (intro bytes_at_blit_disjoint) (auto simp: length_blk)
        then show ?thesis using ne blkj True by (simp add: ino_at_def ib)
      next
        case False
        then show ?thesis using ne blkj by (simp add: ino_at_def ib)
      qed
    qed
  qed
  show "blk ?s b = blk s b" if "block_ok s b" "data_bitmap_start (sb s) \<le> b"
  proof -
    have "b \<noteq> ?b" using that(2) ub ino by (auto simp: ino_ok_def unat_le_u32)
    then show ?thesis using p(2) [OF that(1)] put_inode_eq [OF disk ino] by simp
  qed
qed

lemma inode_wf_at [simp]: "disk_ok (fs_disk s) \<Longrightarrow> inode_wf (ino_at s ino)"
  unfolding ino_at_def using unat_inode_offset(2) [of ino]
  by (intro inode_wf_decode) (simp add: length_blk)

section \<open>The bitmap as the set of used blocks\<close>

text \<open>
  Block \<open>data_start + i\<close> is taken; the layout of a mounted filesystem; the bitmap on disk is the cached
  one.
\<close>

definition taken :: "'a fsys_scheme \<Rightarrow> nat \<Rightarrow> bool" where
  "taken s i = bit (data_bitmap s ! (i div 8)) (i mod 8)"

definition layout_ok :: "'a fsys_scheme \<Rightarrow> bool" where
  "layout_ok s \<longleftrightarrow>
     0 < unat (data_bitmap_start (sb s)) \<and>
     unat (data_bitmap_start (sb s)) + unat (data_bitmap_blocks (sb s)) \<le> unat (data_start (sb s)) \<and>
     unat (data_start (sb s)) \<le> unat (total_blocks (sb s)) \<and>
     unat (fs_lba s) + 8 * unat (total_blocks (sb s)) \<le> 268435456 \<and>
     length (data_bitmap s) = 4096 * unat (data_bitmap_blocks (sb s)) \<and>
     unat (total_blocks (sb s)) \<le> unat (data_start (sb s)) + 8 * length (data_bitmap s)"

definition synced :: "'a fsys_scheme \<Rightarrow> bool" where
  "synced s \<longleftrightarrow> (\<forall>k < unat (data_bitmap_blocks (sb s)).
     blk s (data_bitmap_start (sb s) + of_nat k) = bytes_at (4096 * k) 4096 (data_bitmap s))"

definition fs_ok :: "'a fsys_scheme \<Rightarrow> bool" where
  "fs_ok s \<longleftrightarrow> disk_ok (fs_disk s) \<and> layout_ok s \<and> synced s"

lemma total_data_blocks: "layout_ok s \<Longrightarrow> total_data_blocks s = unat (total_blocks (sb s)) - unat (data_start (sb s))"
  by (simp add: total_data_blocks_def layout_ok_def unat_sub_u32)

lemma total_data_blocks_le: "layout_ok s \<Longrightarrow> total_data_blocks s \<le> 8 * length (data_bitmap s)"
  using total_data_blocks [of s] by (auto simp: layout_ok_def)

lemma find_clear_spec:
  "n \<le> 8 * length bm \<Longrightarrow>
   find_clear bm n i = Some None \<and> (\<forall>j. i \<le> j \<longrightarrow> j < n \<longrightarrow> bit (bm ! (j div 8)) (j mod 8)) \<or>
   (\<exists>j. find_clear bm n i = Some (Some j) \<and> i \<le> j \<and> j < n \<and> \<not> bit (bm ! (j div 8)) (j mod 8) \<and>
        (\<forall>k. i \<le> k \<longrightarrow> k < j \<longrightarrow> bit (bm ! (k div 8)) (k mod 8)))"
proof (induction bm n i rule: find_clear.induct)
  case (1 bm n i)
  show ?case
  proof (cases "i < n")
    case False
    then show ?thesis by (subst find_clear.simps) auto
  next
    case True
    then have len: "\<not> length bm \<le> i div 8" using "1.prems" by linarith
    note b = bit_iff_and_push_bit_not_eq_0 [of "bm ! (i div 8)" "i mod 8"]
    show ?thesis
    proof (cases "bit (bm ! (i div 8)) (i mod 8)")
      case False
      then have "find_clear bm n i = Some (Some i)" using True len b by (subst find_clear.simps) simp
      then show ?thesis using True False by auto
    next
      case bit: True
      have eq: "find_clear bm n i = find_clear bm n (Suc i)" using True len b bit by (subst find_clear.simps) simp
      have range: "i \<le> k \<longleftrightarrow> k = i \<or> Suc i \<le> k" for k by auto
      have IH: "find_clear bm n (Suc i) = Some None \<and> (\<forall>j. Suc i \<le> j \<longrightarrow> j < n \<longrightarrow> bit (bm ! (j div 8)) (j mod 8)) \<or>
       (\<exists>j. find_clear bm n (Suc i) = Some (Some j) \<and> Suc i \<le> j \<and> j < n \<and> \<not> bit (bm ! (j div 8)) (j mod 8) \<and>
        (\<forall>k. Suc i \<le> k \<longrightarrow> k < j \<longrightarrow> bit (bm ! (k div 8)) (k mod 8)))"
        using 1 True len b bit by auto
      then show ?thesis unfolding eq range using bit by blast
    qed
  qed
qed

lemma bytes_at_update:
  assumes "4096 * k + 4096 \<le> length xs"
  shows "bytes_at (4096 * k) 4096 (xs[i := v]) =
    (if i div 4096 = k then (bytes_at (4096 * k) 4096 xs)[i mod 4096 := v] else bytes_at (4096 * k) 4096 xs)"
proof (rule nth_equalityI)
  show "length (bytes_at (4096 * k) 4096 (xs[i := v])) =
    length (if i div 4096 = k then (bytes_at (4096 * k) 4096 xs)[i mod 4096 := v] else bytes_at (4096 * k) 4096 xs)"
    using assms by simp
  fix j assume "j < length (bytes_at (4096 * k) 4096 (xs[i := v]))"
  then have j: "j < 4096" using assms by simp
  have "(i = 4096 * k + j) = (i div 4096 = k \<and> i mod 4096 = j)" using j by auto
  then show "bytes_at (4096 * k) 4096 (xs[i := v]) ! j =
    (if i div 4096 = k then (bytes_at (4096 * k) 4096 xs)[i mod 4096 := v] else bytes_at (4096 * k) 4096 xs) ! j"
    using assms j by (auto simp: nth_list_update)
qed

text \<open>What every change of the bitmap leaves alone: everything outside of the bitmap blocks.\<close>

definition same_but_bitmap :: "'a fsys_scheme \<Rightarrow> 'a fsys_scheme \<Rightarrow> bool" where
  "same_but_bitmap s s' \<longleftrightarrow>
     fs_lba s' = fs_lba s \<and> nodes s' = nodes s \<and> fs_heap s' = fs_heap s \<and> bitmap_addr s' = bitmap_addr s \<and>
     (\<exists>f. sb s' = (sb s)\<lparr>free_blocks := f\<rparr>) \<and>
     (\<forall>b. block_ok s b \<longrightarrow> unat b < unat (data_bitmap_start (sb s)) \<or> unat (data_start (sb s)) \<le> unat b \<longrightarrow>
          blk s' b = blk s b)"

lemma write_back:
  fixes s :: "'a fsys_scheme" and v :: u8 and i :: nat and f :: u32
  defines "t \<equiv> s\<lparr>data_bitmap := (data_bitmap s)[i := v], sb := (sb s)\<lparr>free_blocks := f\<rparr>\<rparr>"
  assumes ok: "fs_ok s" and i: "i < length (data_bitmap s)"
  shows "\<exists>s'. write_back_bitmap i t = Some s' \<and> fs_ok s' \<and> data_bitmap s' = (data_bitmap s)[i := v] \<and>
    sb s' = (sb s)\<lparr>free_blocks := f\<rparr> \<and> same_but_bitmap s s'"
proof -
  let ?k = "i div 4096" and ?start = "data_bitmap_start (sb s)" and ?n = "unat (data_bitmap_blocks (sb s))"
  let ?b = "?start + of_nat ?k"
  have disk: "disk_ok (fs_disk s)" and lay: "layout_ok s" and sync: "synced s" using ok by (simp_all add: fs_ok_def)
  have len: "length (data_bitmap s) = 4096 * ?n" using lay by (simp add: layout_ok_def)
  have k: "?k < ?n" using i len by (simp add: less_mult_imp_div_less mult.commute)
  have bm: "unat (?start + of_nat j) = unat ?start + j \<and> block_ok s (?start + of_nat j)" if "j < ?n" for j
  proof -
    have j: "j < 4294967296" using that unat_u32_less [of "data_bitmap_blocks (sb s)"] by linarith
    have "unat ?start + j < 4294967296"
      using lay that unat_u32_less [of "data_start (sb s)"] unfolding layout_ok_def by linarith
    then have "unat (?start + of_nat j) = unat ?start + j"
      using j by (subst unat_add_u32) (simp_all add: unat_of_nat_u32)
    then show ?thesis using lay that by (simp add: block_ok_def layout_ok_def)
  qed
  have t: "fs_lba t = fs_lba s" "fs_disk t = fs_disk s" "blk t = blk s" "block_ok t = block_ok s"
    "data_bitmap_start (sb t) = ?start" "data_bitmap t = (data_bitmap s)[i := v]"
    by (simp_all add: t_def)
  have b: "block_ok t ?b" using bm [OF k] t by simp
  let ?buf = "(blk s ?b)[i mod 4096 := v]"
  have new: "?buf = bytes_at (4096 * ?k) 4096 ((data_bitmap s)[i := v])"
    using sync k len by (subst bytes_at_update) (simp_all add: synced_def)
  have wb: "write_back_bitmap i t = Some (put_block ?b ?buf t)"
    using read_block [of t ?b] disk b t i by (simp add: write_back_bitmap_def put_block_def Let_def)
  let ?s = "put_block ?b ?buf t"
  have buf: "length ?buf = 4096" using disk by (simp add: length_blk)
  have p: "disk_ok (fs_disk ?s)" "block_ok s c \<Longrightarrow> blk ?s c = (if c = ?b then ?buf else blk s c)" for c
    using put_block_ok [of t ?b ?buf, OF _ b buf] disk t by simp_all
  have "synced ?s"
    unfolding synced_def
  proof (intro allI impI)
    fix j assume "j < unat (data_bitmap_blocks (sb ?s))"
    then have j: "j < ?n" by (simp add: t_def)
    have c: "block_ok s (?start + of_nat j)" using bm [OF j] by simp
    have "(?start + of_nat j = ?b) = (j = ?k)" using bm [OF j] bm [OF k] by (auto simp: word_unat_eq_iff)
    then show "blk ?s (data_bitmap_start (sb ?s) + of_nat j) = bytes_at (4096 * j) 4096 (data_bitmap ?s)"
      using p(2) [OF c] new sync j len by (simp add: t bytes_at_update synced_def)
  qed
  moreover have "layout_ok ?s" using lay by (simp add: layout_ok_def t_def)
  ultimately have "fs_ok ?s" using p(1) by (simp add: fs_ok_def)
  moreover have "same_but_bitmap s ?s"
  proof -
    have "c \<noteq> ?b" if "unat c < unat ?start \<or> unat (data_start (sb s)) \<le> unat c" for c
      using that bm [OF k] k lay by (auto simp: layout_ok_def)
    then show ?thesis using p(2) by (auto simp: same_but_bitmap_def t_def)
  qed
  ultimately show ?thesis using wb by (auto simp: t_def)
qed

lemma bit_set_u8: "m < 8 \<Longrightarrow> n < 8 \<Longrightarrow> bit ((x :: u8) OR 2 ^ m) n \<longleftrightarrow> n = m \<or> bit x n"
  by (auto simp: bit_or_iff bit_exp_iff)

lemma bit_clear_u8: "m < 8 \<Longrightarrow> n < 8 \<Longrightarrow> bit ((x :: u8) AND NOT (2 ^ m)) n \<longleftrightarrow> n \<noteq> m \<and> bit x n"
  by (auto simp: bit_and_iff bit_not_iff bit_exp_iff)

lemma taken_update:
  assumes "i div 8 < length (data_bitmap s)" "data_bitmap s' = (data_bitmap s)[i div 8 := v]"
    and "\<And>n. n < 8 \<Longrightarrow> bit v n = (if n = i mod 8 then c else bit (data_bitmap s ! (i div 8)) n)"
  shows "taken s' = (taken s)(i := c)"
proof
  fix j
  have "j div 8 = i div 8 \<Longrightarrow> (j mod 8 = i mod 8) = (j = i)" by (metis div_mult_mod_eq)
  then show "taken s' j = ((taken s)(i := c)) j"
    using assms(1) assms(3) [of "j mod 8"] by (auto simp: taken_def assms(2) nth_list_update)
qed

lemma data_block_number:
  assumes "layout_ok s" "i < total_data_blocks s"
  shows "unat (data_start (sb s) + of_nat i) = unat (data_start (sb s)) + i"
    "data_start (sb s) + of_nat i \<noteq> 0" "block_ok s (data_start (sb s) + of_nat i)"
proof -
  have "unat (data_start (sb s)) + i < 4294967296"
    using assms(2) total_data_blocks [OF assms(1)] unat_u32_less [of "total_blocks (sb s)"] by linarith
  then show 1: "unat (data_start (sb s) + of_nat i) = unat (data_start (sb s)) + i"
    by (subst unat_add_u32) (simp_all add: unat_of_nat_u32)
  then show "data_start (sb s) + of_nat i \<noteq> 0"
    using assms by (auto simp: layout_ok_def simp flip: word_unat_eq_iff)
  show "block_ok s (data_start (sb s) + of_nat i)"
    using assms(2) 1 assms(1) total_data_blocks [OF assms(1)] unfolding block_ok_def layout_ok_def by linarith
qed

lemma alloc_block_spec:
  assumes ok: "fs_ok s"
  shows "(dorifs_alloc_block s = Some (0, s) \<and> (\<forall>j < total_data_blocks s. taken s j)) \<or>
    (\<exists>i s'. dorifs_alloc_block s = Some (data_start (sb s) + of_nat i, s') \<and> i < total_data_blocks s \<and>
       \<not> taken s i \<and> (\<forall>j < i. taken s j) \<and> taken s' = (taken s)(i := True) \<and> fs_ok s' \<and>
       same_but_bitmap s s' \<and> free_blocks (sb s') = free_blocks (sb s) - 1)"
proof -
  have lay: "layout_ok s" using ok by (simp add: fs_ok_def)
  then have n: "total_data_blocks s \<le> 8 * length (data_bitmap s)" by (rule total_data_blocks_le)
  from find_clear_spec [OF this, of 0] show ?thesis
  proof (elim disjE exE conjE)
    assume "find_clear (data_bitmap s) (total_data_blocks s) 0 = Some None"
      and "\<forall>j \<ge> 0. j < total_data_blocks s \<longrightarrow> bit (data_bitmap s ! (j div 8)) (j mod 8)"
    then show ?thesis by (simp add: dorifs_alloc_block_def taken_def)
  next
    fix i assume found: "find_clear (data_bitmap s) (total_data_blocks s) 0 = Some (Some i)"
      and i: "i < total_data_blocks s" and clear: "\<not> bit (data_bitmap s ! (i div 8)) (i mod 8)"
      and lower: "\<forall>k \<ge> 0. k < i \<longrightarrow> bit (data_bitmap s ! (k div 8)) (k mod 8)"
    let ?v = "data_bitmap s ! (i div 8) OR push_bit (i mod 8) 1"
    have byte: "i div 8 < length (data_bitmap s)" using i n by linarith
    obtain s' where s': "write_back_bitmap (i div 8)
        (s\<lparr>data_bitmap := (data_bitmap s)[i div 8 := ?v], sb := (sb s)\<lparr>free_blocks := free_blocks (sb s) - 1\<rparr>\<rparr>) = Some s'"
      "fs_ok s'" "data_bitmap s' = (data_bitmap s)[i div 8 := ?v]"
      "sb s' = (sb s)\<lparr>free_blocks := free_blocks (sb s) - 1\<rparr>" "same_but_bitmap s s'"
      using write_back [OF ok byte, where v = ?v and f = "free_blocks (sb s) - 1"] by blast
    have "taken s' = (taken s)(i := True)"
      using byte s'(3) by (rule taken_update) (simp add: bit_set_u8)
    then have "dorifs_alloc_block s = Some (data_start (sb s) + of_nat i, s') \<and> taken s' = (taken s)(i := True)"
      using found s' by (simp add: dorifs_alloc_block_def Let_def)
    then show ?thesis using i clear lower s' by (auto simp: taken_def)
  qed
qed

lemma free_block_spec:
  assumes ok: "fs_ok s" and i: "i < total_data_blocks s"
  shows "\<exists>s'. dorifs_free_block (data_start (sb s) + of_nat i) s = Some s' \<and> taken s' = (taken s)(i := False) \<and>
    fs_ok s' \<and> same_but_bitmap s s' \<and> free_blocks (sb s') = free_blocks (sb s) + 1"
proof -
  have lay: "layout_ok s" using ok by (simp add: fs_ok_def)
  let ?v = "data_bitmap s ! (i div 8) AND NOT (push_bit (i mod 8) 1)"
  have "total_data_blocks s \<le> 8 * length (data_bitmap s)" using lay by (rule total_data_blocks_le)
  then have byte: "i div 8 < length (data_bitmap s)" using i by linarith
  have num: "\<not> data_start (sb s) + of_nat i < data_start (sb s)"
    using data_block_number [OF lay i] by (simp add: unat_less_u32)
  have "i < 4294967296" using data_block_number(1) [OF lay i] unat_u32_less [of "data_start (sb s) + of_nat i"] by linarith
  then have idx: "unat (of_nat i :: u32) = i" by (simp add: unat_of_nat_u32)
  obtain s' where s': "write_back_bitmap (i div 8)
      (s\<lparr>data_bitmap := (data_bitmap s)[i div 8 := ?v], sb := (sb s)\<lparr>free_blocks := free_blocks (sb s) + 1\<rparr>\<rparr>) = Some s'"
    "fs_ok s'" "data_bitmap s' = (data_bitmap s)[i div 8 := ?v]"
    "sb s' = (sb s)\<lparr>free_blocks := free_blocks (sb s) + 1\<rparr>" "same_but_bitmap s s'"
    using write_back [OF ok byte, where v = ?v and f = "free_blocks (sb s) + 1"] by blast
  have "taken s' = (taken s)(i := False)"
    using byte s'(3) by (rule taken_update) (simp add: bit_clear_u8)
  moreover have "dorifs_free_block (data_start (sb s) + of_nat i) s = Some s'"
    using num idx byte s'(1) by (simp add: dorifs_free_block_def Let_def)
  ultimately show ?thesis using s' by auto
qed

end
