(* ===== verification/Dorifs_Files.thy ===== *)
theory Dorifs_Files
  imports Dorifs_Blocks Interfaces
begin

text \<open>
  Files of DoriFS up to the size the direct pointers cover: what \<open>dorifs_vfs_write\<close> leaves of the bytes
  of the file written, of other files, of the inode table and of the bitmap, and what
  \<open>dorifs_vfs_read\<close> then returns.
\<close>

section \<open>The bytes of a file\<close>

definition data_block :: "'a fsys_scheme \<Rightarrow> u32 \<Rightarrow> bool" where
  "data_block s b \<longleftrightarrow> unat (data_start (sb s)) \<le> unat b \<and> unat b < unat (total_blocks (sb s))"

definition in_use :: "'a fsys_scheme \<Rightarrow> u32 \<Rightarrow> bool" where
  "in_use s b = taken s (unat b - unat (data_start (sb s)))"

definition file_ok :: "inode \<Rightarrow> 'a fsys_scheme \<Rightarrow> bool" where
  "file_ok i s \<longleftrightarrow> inode_wf i \<and>
     (\<forall>b \<in> set (i_direct i). b \<noteq> 0 \<longrightarrow> data_block s b \<and> in_use s b) \<and>
     (\<forall>j < 12. \<forall>k < 12. i_direct i ! j \<noteq> 0 \<longrightarrow> i_direct i ! j = i_direct i ! k \<longrightarrow> j = k)"

text \<open>Byte \<open>x\<close> of the file, \<open>None\<close> in a hole.\<close>

definition fbyte :: "inode \<Rightarrow> 'a fsys_scheme \<Rightarrow> nat \<Rightarrow> u8 option" where
  "fbyte i s x = (let b = i_direct i ! (x div 4096) in if b = 0 then None else Some (blk s b ! (x mod 4096)))"

text \<open>
  What writing to the file of inode \<open>i\<close> may change: data blocks that were free or belong to the file,
  and bits of the bitmap from clear to set.
\<close>

definition extends :: "inode \<Rightarrow> 'a fsys_scheme \<Rightarrow> inode \<Rightarrow> 'a fsys_scheme \<Rightarrow> bool" where
  "extends i s i' s' \<longleftrightarrow>
     fs_lba s' = fs_lba s \<and> nodes s' = nodes s \<and> fs_heap s' = fs_heap s \<and> bitmap_addr s' = bitmap_addr s \<and>
     (\<exists>f. sb s' = (sb s)\<lparr>free_blocks := f\<rparr>) \<and>
     (\<exists>ds n. i' = i\<lparr>i_direct := ds, i_block_count := n\<rparr>) \<and>
     (\<forall>b. data_block s b \<longrightarrow> in_use s b \<longrightarrow> in_use s' b) \<and>
     (\<forall>b. data_block s b \<longrightarrow> b \<noteq> 0 \<longrightarrow> b \<in> set (i_direct i') \<longrightarrow> b \<in> set (i_direct i) \<or> \<not> in_use s b) \<and>
     (\<forall>b. data_block s b \<longrightarrow> in_use s b \<longrightarrow> b \<notin> set (i_direct i) \<longrightarrow> blk s' b = blk s b) \<and>
     (\<forall>b. block_ok s b \<longrightarrow> unat b < unat (data_bitmap_start (sb s)) \<longrightarrow> blk s' b = blk s b)"

lemma extends_refl: "extends i s i s"
proof -
  have "\<exists>f. sb s = (sb s)\<lparr>free_blocks := f\<rparr>" by (rule exI [of _ "free_blocks (sb s)"]) simp
  moreover have "\<exists>ds n. i = i\<lparr>i_direct := ds, i_block_count := n\<rparr>"
    by (rule exI [of _ "i_direct i"], rule exI [of _ "i_block_count i"]) simp
  ultimately show ?thesis by (simp add: extends_def)
qed

lemma data_block_cong: "sb s' = (sb s)\<lparr>free_blocks := f\<rparr> \<Longrightarrow> data_block s' = data_block s"
  by (simp add: data_block_def fun_eq_iff)

lemma block_ok_cong: "fs_lba s' = fs_lba s \<Longrightarrow> block_ok s' = block_ok s"
  by (simp add: block_ok_def fun_eq_iff)

lemma extends_trans:
  assumes a: "extends i s i1 s1" and b: "extends i1 s1 i2 s2" and nz: "\<not> data_block s 0"
  shows "extends i s i2 s2"
proof -
  obtain f g where f: "sb s1 = (sb s)\<lparr>free_blocks := f\<rparr>" and g: "sb s2 = (sb s1)\<lparr>free_blocks := g\<rparr>"
    using a b by (auto simp: extends_def)
  have db: "data_block s1 = data_block s" using f by (rule data_block_cong)
  have bo: "block_ok s1 = block_ok s" using a by (intro block_ok_cong) (simp add: extends_def)
  have keep: "blk s2 c = blk s c" if "data_block s c" "in_use s c" "c \<notin> set (i_direct i)" for c
  proof -
    have "c \<notin> set (i_direct i1)" using a that nz by (auto simp: extends_def)
    then show ?thesis using a b that db by (simp add: extends_def)
  qed
  have sup: "sb s2 = (sb s)\<lparr>free_blocks := g\<rparr>" using f g by simp
  have ino: "\<exists>ds n. i2 = i\<lparr>i_direct := ds, i_block_count := n\<rparr>"
  proof -
    obtain ds n ds' n' where "i1 = i\<lparr>i_direct := ds, i_block_count := n\<rparr>"
      "i2 = i1\<lparr>i_direct := ds', i_block_count := n'\<rparr>" using a b unfolding extends_def by blast
    then have "i2 = i\<lparr>i_direct := ds', i_block_count := n'\<rparr>" by simp
    then show ?thesis by blast
  qed
  have same: "fs_lba s2 = fs_lba s" "nodes s2 = nodes s" "fs_heap s2 = fs_heap s" "bitmap_addr s2 = bitmap_addr s"
    using a b by (simp_all add: extends_def)
  have grow: "in_use s2 c" if "data_block s c" "in_use s c" for c using a b that db by (simp add: extends_def)
  have new: "c \<in> set (i_direct i) \<or> \<not> in_use s c" if c: "data_block s c" "c \<noteq> 0" "c \<in> set (i_direct i2)" for c
  proof -
    have "c \<in> set (i_direct i1) \<or> \<not> in_use s1 c" using b c db by (simp add: extends_def)
    then show ?thesis using a c by (auto simp: extends_def)
  qed
  have low: "blk s2 c = blk s c" if "block_ok s c" "unat c < unat (data_bitmap_start (sb s))" for c
    using a b that bo f by (simp add: extends_def)
  show ?thesis unfolding extends_def using same sup ino grow new keep low by blast
qed

section \<open>Blocks of a file\<close>

lemma data_block_ok: "fs_ok s \<Longrightarrow> data_block s b \<Longrightarrow> block_ok s b"
  by (simp add: fs_ok_def layout_ok_def data_block_def block_ok_def)

lemma data_block_nonzero: "fs_ok s \<Longrightarrow> \<not> data_block s 0"
  by (simp add: fs_ok_def layout_ok_def data_block_def)

lemma put_data:
  assumes "fs_ok s" "data_block s b" "length buf = 4096"
  shows "fs_ok (put_block b buf s)" "taken (put_block b buf s) = taken s"
    "block_ok s c \<Longrightarrow> blk (put_block b buf s) c = (if c = b then buf else blk s c)"
proof -
  have ok: "disk_ok (fs_disk s)" "block_ok s b" using assms data_block_ok by (auto simp: fs_ok_def)
  note p = put_block_ok [OF ok assms(3)]
  show "taken (put_block b buf s) = taken s" by (simp add: taken_def fun_eq_iff)
  show "block_ok s c \<Longrightarrow> blk (put_block b buf s) c = (if c = b then buf else blk s c)" by (rule p(2))
  have lay: "layout_ok s" using assms(1) by (simp add: fs_ok_def)
  have "synced (put_block b buf s)"
    unfolding synced_def
  proof (intro allI impI)
    fix k assume "k < unat (data_bitmap_blocks (sb (put_block b buf s)))"
    then have k: "k < unat (data_bitmap_blocks (sb s))" by simp
    have lim: "unat (data_bitmap_start (sb s)) + k < 4294967296"
      using k lay unat_u32_less [of "data_start (sb s)"] unfolding layout_ok_def by linarith
    then have u: "unat (data_bitmap_start (sb s) + of_nat k) = unat (data_bitmap_start (sb s)) + k"
      by (subst unat_add_u32) (simp_all add: unat_of_nat_u32)
    have "block_ok s (data_bitmap_start (sb s) + of_nat k)"
      using k lay u unfolding layout_ok_def block_ok_def by linarith
    moreover have "data_bitmap_start (sb s) + of_nat k \<noteq> b"
      using k lay u assms(2) by (auto simp: layout_ok_def data_block_def)
    ultimately show "blk (put_block b buf s) (data_bitmap_start (sb (put_block b buf s)) + of_nat k) =
        bytes_at (4096 * k) 4096 (data_bitmap (put_block b buf s))"
      using p(2) assms(1) k by (simp add: fs_ok_def synced_def)
  qed
  then show "fs_ok (put_block b buf s)"
    using p(1) assms(1) by (simp add: fs_ok_def layout_ok_def)
qed

lemma in_use_cong: "taken s' = taken s \<Longrightarrow> sb s' = (sb s)\<lparr>free_blocks := f\<rparr> \<Longrightarrow> in_use s' = in_use s"
  by (simp add: in_use_def fun_eq_iff)

text \<open>Storing a block of the file.\<close>

lemma put_file:
  assumes ok: "fs_ok s" and fok: "file_ok i s" and fb: "fb < 12" and b: "b = i_direct i ! fb" "b \<noteq> 0"
    and buf: "length buf = 4096"
  shows "fs_ok (put_block b buf s)" "file_ok i (put_block b buf s)" "extends i s i (put_block b buf s)"
    "x < 49152 \<Longrightarrow> fbyte i (put_block b buf s) x =
       (if x div 4096 = fb then Some (buf ! (x mod 4096)) else fbyte i s x)"
proof -
  let ?s = "put_block b buf s"
  have len: "length (i_direct i) = 12" using fok by (simp add: file_ok_def inode_wf_def)
  then have mem: "b \<in> set (i_direct i)" using fb b by simp
  then have data: "data_block s b" using fok b by (auto simp: file_ok_def)
  note p = put_data [OF ok data buf]
  show "fs_ok ?s" by (rule p(1))
  have same: "data_block ?s = data_block s" "in_use ?s = in_use s"
    by (simp_all add: data_block_def in_use_def p(2) fun_eq_iff)
  show "file_ok i ?s" using fok by (simp add: file_ok_def same)
  have sup: "\<exists>f. sb ?s = (sb s)\<lparr>free_blocks := f\<rparr>"
    by (rule exI [of _ "free_blocks (sb s)"]) simp
  have other: "blk ?s c = blk s c" if "data_block s c" "c \<noteq> b" for c
    using p(3) [OF data_block_ok [OF ok that(1)]] that by simp
  have low: "blk ?s c = blk s c" if "block_ok s c" "unat c < unat (data_bitmap_start (sb s))" for c
    using p(3) [OF that(1)] that data ok by (auto simp: data_block_def fs_ok_def layout_ok_def)
  have "\<exists>ds n. i = i\<lparr>i_direct := ds, i_block_count := n\<rparr>" using extends_refl [of i s] by (simp add: extends_def)
  then show "extends i s i ?s"
    using sup other low mem by (auto simp: extends_def same)
  show "fbyte i ?s x = (if x div 4096 = fb then Some (buf ! (x mod 4096)) else fbyte i s x)" if x: "x < 49152"
  proof (cases "x div 4096 = fb")
    case True
    then show ?thesis using b p(3) [OF data_block_ok [OF ok data]] by (simp add: fbyte_def Let_def)
  next
    case False
    let ?c = "i_direct i ! (x div 4096)"
    have k: "x div 4096 < 12" using x by (simp add: less_mult_imp_div_less)
    have "?c = 0 \<or> data_block s ?c \<and> ?c \<noteq> b"
      using fok k fb False b len by (auto simp: file_ok_def)
    then show ?thesis using False other by (auto simp: fbyte_def Let_def)
  qed
qed

text \<open>A new block for a hole of the file.\<close>

lemma data_block_index: "data_block s b \<Longrightarrow> fs_ok s \<Longrightarrow>
  unat b - unat (data_start (sb s)) < total_data_blocks s"
  by (simp add: data_block_def fs_ok_def total_data_blocks) linarith

lemma alloc_file:
  assumes ok: "fs_ok s" and fok: "file_ok i s" and fb: "fb < 12" and hole: "i_direct i ! fb = 0"
    and alloc: "dorifs_alloc_block s = Some (b, s')" and b: "b \<noteq> 0"
    and i': "i' = i\<lparr>i_direct := (i_direct i)[fb := b], i_block_count := n\<rparr>"
  shows "fs_ok s'" "file_ok i' s'" "extends i s i' s'"
    "x < 49152 \<Longrightarrow> x div 4096 \<noteq> fb \<Longrightarrow> fbyte i' s' x = fbyte i s x"
proof -
  have lay: "layout_ok s" using ok by (simp add: fs_ok_def)
  obtain k where k: "b = data_start (sb s) + of_nat k" "k < total_data_blocks s" "\<not> taken s k"
      "taken s' = (taken s)(k := True)" and ok': "fs_ok s'" and same: "same_but_bitmap s s'"
    using alloc_block_spec [OF ok] alloc b by auto
  note num = data_block_number [OF lay k(2)]
  show "fs_ok s'" by (rule ok')
  obtain f where f: "sb s' = (sb s)\<lparr>free_blocks := f\<rparr>" using same by (auto simp: same_but_bitmap_def)
  have db: "data_block s' = data_block s" using f by (rule data_block_cong)
  have ub: "unat b = unat (data_start (sb s)) + k" using num k by simp
  have data: "data_block s b" using ub k(2) lay by (simp add: data_block_def total_data_blocks)
  have use: "in_use s' c = (c = b \<or> in_use s c)" if "data_block s c" for c
    using that ub by (auto simp: in_use_def f k(4) data_block_def word_unat_eq_iff)
  have free: "\<not> in_use s b" using k(3) ub by (simp add: in_use_def)
  have len: "length (i_direct i) = 12" using fok by (simp add: file_ok_def inode_wf_def)
  have notin: "b \<notin> set (i_direct i)" using fok free b by (auto simp: file_ok_def)
  have set': "set (i_direct i') \<subseteq> insert b (set (i_direct i))" using i' by (simp add: set_update_subset_insert)
  show "file_ok i' s'"
    unfolding file_ok_def
  proof (intro conjI)
    show "inode_wf i'" using fok by (simp add: i' file_ok_def inode_wf_def)
    show "\<forall>c \<in> set (i_direct i'). c \<noteq> 0 \<longrightarrow> data_block s' c \<and> in_use s' c"
      using set' fok data use by (auto simp: file_ok_def db)
    show "\<forall>j < 12. \<forall>k < 12. i_direct i' ! j \<noteq> 0 \<longrightarrow> i_direct i' ! j = i_direct i' ! k \<longrightarrow> j = k"
    proof (intro allI impI)
      fix j l :: nat assume j: "j < 12" and l: "l < 12" and jl: "i_direct i' ! j \<noteq> 0" "i_direct i' ! j = i_direct i' ! l"
      have nb: "i_direct i ! m \<noteq> b" if "m < 12" for m using that notin len by (metis nth_mem)
      have upd: "i_direct i' ! m = (if m = fb then b else i_direct i ! m)" if "m < 12" for m
        using that len by (simp add: i' nth_list_update)
      show "j = l"
      proof (cases "j = fb \<or> l = fb")
        case True
        then show ?thesis using jl j l nb upd by metis
      next
        case False
        then show ?thesis using jl j l fok upd by (simp add: file_ok_def)
      qed
    qed
  qed
  have blk: "blk s' c = blk s c" if "data_block s c" for c
    using same that data_block_ok [OF ok that] by (auto simp: same_but_bitmap_def data_block_def)
  have "\<exists>ds m. i' = i\<lparr>i_direct := ds, i_block_count := m\<rparr>" using i' by blast
  then show "extends i s i' s'"
    using same blk use set' free by (auto simp: extends_def same_but_bitmap_def)
  show "fbyte i' s' x = fbyte i s x" if x: "x < 49152" "x div 4096 \<noteq> fb"
  proof -
    have "x div 4096 < 12" using x by (simp add: less_mult_imp_div_less)
    then have "i_direct i ! (x div 4096) = 0 \<or> data_block s (i_direct i ! (x div 4096))"
      using fok len by (auto simp: file_ok_def)
    then show ?thesis using x(2) blk by (auto simp: fbyte_def Let_def i')
  qed
qed

section \<open>Writing\<close>

lemma get_direct: "fb < 12 \<Longrightarrow> dorifs_get_block i fb s = Some (i_direct i ! unat fb)"
  by (simp add: dorifs_get_block_def)

lemma set_direct: "fb < 12 \<Longrightarrow> dorifs_set_block i fb b s = Some (True, i\<lparr>i_direct := (i_direct i)[unat fb := b]\<rparr>, s)"
  by (simp add: dorifs_set_block_def)

text \<open>Positions in a file the direct pointers cover: nothing wraps.\<close>

lemma file_pos:
  fixes offset size' d :: u32
  assumes bound: "unat offset + unat size' \<le> 49152" and d: "d < size'"
  defines "p \<equiv> unat offset + unat d"
  shows "unat ((offset + d) div 4096) = p div 4096" "p div 4096 < 12" "(offset + d) div 4096 < 12"
    "unat ((offset + d) mod 4096) = p mod 4096"
    "unat (to_copy offset size' d) = min (4096 - p mod 4096) (unat size' - unat d)"
    "unat (d + to_copy offset size' d) = unat d + unat (to_copy offset size' d)"
    "p mod 4096 + unat (to_copy offset size' d) \<le> 4096"
proof -
  have lt: "unat d < unat size'" using d by (simp add: unat_less_u32)
  have sum: "unat (offset + d) = p" unfolding p_def using lt bound by (intro unat_add_u32) linarith
  show 1: "unat ((offset + d) div 4096) = p div 4096" by (simp add: unat_div sum)
  show 2: "p div 4096 < 12" using lt bound by (simp add: p_def less_mult_imp_div_less)
  show "(offset + d) div 4096 < 12" using 1 2 by (simp add: unat_less_u32)
  show 3: "unat ((offset + d) mod 4096) = p mod 4096" by (simp add: unat_mod sum)
  have n: "unat (4096 - (offset + d) mod 4096) = 4096 - p mod 4096" using 3 by (subst unat_sub_u32) simp_all
  have m: "unat (size' - d) = unat size' - unat d" using lt by (subst unat_sub_u32) simp_all
  show 4: "unat (to_copy offset size' d) = min (4096 - p mod 4096) (unat size' - unat d)"
    using n m by (auto simp: to_copy_def Let_def unat_less_u32)
  show "p mod 4096 + unat (to_copy offset size' d) \<le> 4096" unfolding 4 by simp
  show "unat (d + to_copy offset size' d) = unat d + unat (to_copy offset size' d)"
    using to_copy_progress(1) [OF d, of offset] bound by (intro unat_add_u32) linarith
qed

lemma chunk_byte:
  fixes p n x d off :: nat
  assumes "x div 4096 = p div 4096" "p mod 4096 + n \<le> 4096" "d + n \<le> length buffer" "length buf = 4096" "off + d = p"
  shows "blit (p mod 4096) (bytes_at d n buffer) buf ! (x mod 4096) =
    (if p \<le> x \<and> x < p + n then buffer ! (x - off) else buf ! (x mod 4096))"
proof -
  have x: "x = 4096 * (p div 4096) + x mod 4096" using assms(1) by (metis mult_div_mod_eq)
  have p: "p = 4096 * (p div 4096) + p mod 4096" by simp
  have same: "(p mod 4096 \<le> x mod 4096 \<and> x mod 4096 < p mod 4096 + n) = (p \<le> x \<and> x < p + n)"
    using x p by linarith
  have "x mod 4096 < 4096" by simp
  then have nth: "blit (p mod 4096) (bytes_at d n buffer) buf ! (x mod 4096) =
      (if p \<le> x \<and> x < p + n then bytes_at d n buffer ! (x mod 4096 - p mod 4096) else buf ! (x mod 4096))"
    using assms(2-4) same by (simp add: nth_blit)
  have "bytes_at d n buffer ! (x mod 4096 - p mod 4096) = buffer ! (x - off)" if "p \<le> x \<and> x < p + n"
  proof -
    have "d + (x mod 4096 - p mod 4096) = x - off" "x mod 4096 - p mod 4096 < n"
      using that same x p assms(5) by linarith+
    then show ?thesis using assms(3) by simp
  qed
  then show ?thesis using nth by simp
qed

lemma write_step:
  fixes offset size' d :: u32
  assumes ok: "fs_ok s" and fok: "file_ok i s" and bound: "unat offset + unat size' \<le> 49152"
    and d: "d < size'" and buffer: "unat size' \<le> length buffer"
  defines "p \<equiv> unat offset + unat d" and "n \<equiv> unat (to_copy offset size' d)"
  shows "(write_loop i offset size' buffer d s = Some (d, i, s) \<and> (\<forall>j < total_data_blocks s. taken s j)) \<or>
    (\<exists>i1 s1. write_loop i offset size' buffer d s = write_loop i1 offset size' buffer (d + to_copy offset size' d) s1 \<and>
       fs_ok s1 \<and> file_ok i1 s1 \<and> extends i s i1 s1 \<and>
       (\<forall>x < 49152. fbyte i1 s1 x =
          (if p \<le> x \<and> x < p + n then Some (buffer ! (x - unat offset))
           else if fbyte i s x = None \<and> x div 4096 = p div 4096 then Some 0 else fbyte i s x)))"
proof -
  note pos = file_pos [OF bound d, folded p_def n_def]
  let ?fb = "(offset + d) div 4096" and ?k = "p div 4096"
  let ?chunk = "bytes_at (unat d) n buffer" and ?t = "to_copy offset size' d"
  have fits: "unat d + n \<le> length buffer" using to_copy_progress(1) [OF d, of offset] buffer by (simp add: n_def)
  have chunk: "length ?chunk = n" using fits by simp
  have get: "dorifs_get_block i ?fb s = Some (i_direct i ! ?k)" using get_direct [OF pos(3)] pos(1) by simp
  have len: "length (i_direct i) = 12" using fok by (simp add: file_ok_def inode_wf_def)
  have buf: "length (blit (p mod 4096) ?chunk buf) = 4096" if "length buf = 4096" for buf
    using that chunk pos(7) by simp
  have disk: "disk_ok (fs_disk s)" using ok by (simp add: fs_ok_def)
  have byte: "blit (p mod 4096) ?chunk buf ! (x mod 4096) =
      (if p \<le> x \<and> x < p + n then buffer ! (x - unat offset) else buf ! (x mod 4096))"
    if "x div 4096 = ?k" "length buf = 4096" for x buf
    using that pos(7) fits by (intro chunk_byte) (simp_all add: p_def)
  have inside: "x div 4096 = ?k" if "p \<le> x" "x < p + n" for x
  proof -
    have "p = 4096 * ?k + p mod 4096" by simp
    then have "4096 * ?k \<le> x" "x < 4096 * ?k + 4096" using that pos(7) by linarith+
    then show ?thesis by (simp add: div_nat_eqI mult.commute)
  qed
  show ?thesis
  proof (cases "i_direct i ! ?k = 0")
    case False
    let ?b = "i_direct i ! ?k"
    have data: "data_block s ?b" using fok False pos(2) len by (auto simp: file_ok_def)
    have rd: "dorifs_read_block ?b s = Some (blk s ?b)" using read_block [OF disk data_block_ok [OF ok data]] .
    let ?buf = "blit (p mod 4096) ?chunk (blk s ?b)"
    have b4: "length (blk s ?b) = 4096" using disk by (rule length_blk)
    have "write_loop i offset size' buffer d s = write_loop i offset size' buffer (d + ?t) (put_block ?b ?buf s)"
      using d False rd get pos(4) by (subst write_loop.simps) (simp add: put_block_def n_def Let_def)
    moreover have "fbyte i (put_block ?b ?buf s) x =
          (if p \<le> x \<and> x < p + n then Some (buffer ! (x - unat offset))
           else if fbyte i s x = None \<and> x div 4096 = p div 4096 then Some 0 else fbyte i s x)" if "x < 49152" for x
      using put_file(4) [OF ok fok pos(2) refl False buf [OF b4] that] byte [OF _ b4, of x] inside [of x] False
      by (auto simp: fbyte_def Let_def)
    ultimately show ?thesis using put_file(1-3) [OF ok fok pos(2) refl False buf [OF b4]] by blast
  next
    case hole: True
    consider "dorifs_alloc_block s = Some (0, s)" "\<forall>j < total_data_blocks s. taken s j"
      | b s1 where "dorifs_alloc_block s = Some (b, s1)" "b \<noteq> 0"
      using alloc_block_spec [OF ok] data_block_number(2) ok by (auto simp: fs_ok_def)
    then show ?thesis
    proof cases
      case 1
      then show ?thesis using d hole get by (subst write_loop.simps) simp
    next
      case (2 b s1)
      let ?i = "i\<lparr>i_direct := (i_direct i)[?k := b], i_block_count := i_block_count i + 1\<rparr>"
      let ?buf = "blit (p mod 4096) ?chunk zero_block"
      note a = alloc_file [where n = "i_block_count i + 1", OF ok fok pos(2) hole 2 refl]
      have b: "b = i_direct ?i ! ?k" using pos(2) len by simp
      have z: "length zero_block = 4096" by simp
      note q = put_file [OF a(1,2) pos(2) b 2(2) buf [OF z]]
      have "write_loop i offset size' buffer d s = write_loop ?i offset size' buffer (d + ?t) (put_block b ?buf s1)"
        using d hole get 2 set_direct [OF pos(3), of i b s1] pos(1,4)
        by (subst write_loop.simps) (simp add: put_block_def n_def Let_def)
      moreover have "extends i s ?i (put_block b ?buf s1)"
        using a(3) q(3) data_block_nonzero [OF ok] by (rule extends_trans)
      moreover have "fbyte ?i (put_block b ?buf s1) x =
          (if p \<le> x \<and> x < p + n then Some (buffer ! (x - unat offset))
           else if fbyte i s x = None \<and> x div 4096 = p div 4096 then Some 0 else fbyte i s x)" if x: "x < 49152" for x
      proof (cases "x div 4096 = ?k")
        case True
        then have "fbyte i s x = None" using hole by (simp add: fbyte_def)
        then show ?thesis using True q(4) [OF x] byte [OF True z] by simp
      next
        case False
        then show ?thesis using q(4) [OF x] a(4) [OF x] inside [of x] by auto
      qed
      ultimately show ?thesis using q(1,2) by blast
    qed
  qed
qed

text \<open>
  The bytes from \<open>a\<close> to \<open>b\<close> are those of the buffer, which is written from position \<open>o\<close> on; every
  other byte is as before, or a byte of a hole that has become 0.
\<close>

definition written :: "nat \<Rightarrow> u8 list \<Rightarrow> nat \<Rightarrow> nat \<Rightarrow> (nat \<Rightarrow> u8 option) \<Rightarrow> (nat \<Rightarrow> u8 option) \<Rightarrow> bool" where
  "written off buffer a b f g \<longleftrightarrow>
     (\<forall>x < 49152. if a \<le> x \<and> x < b then g x = Some (buffer ! (x - off))
                  else g x = f x \<or> f x = None \<and> g x = Some 0)"

lemma written_refl: "written off buffer a a f f"
  by (auto simp: written_def)

lemma written_trans:
  assumes "written off buffer a b f g" "written off buffer b c g h" "a \<le> b" "b \<le> c"
  shows "written off buffer a c f h"
  unfolding written_def
proof (intro allI impI)
  fix x :: nat assume x: "x < 49152"
  have 1: "if a \<le> x \<and> x < b then g x = Some (buffer ! (x - off)) else g x = f x \<or> f x = None \<and> g x = Some 0"
    and 2: "if b \<le> x \<and> x < c then h x = Some (buffer ! (x - off)) else h x = g x \<or> g x = None \<and> h x = Some 0"
    using assms(1,2) x by (simp_all add: written_def)
  show "if a \<le> x \<and> x < c then h x = Some (buffer ! (x - off)) else h x = f x \<or> f x = None \<and> h x = Some 0"
    using 1 2 assms(3,4) by (cases "x < b"; cases "x < a"; cases "x < c") auto
qed

lemma write_loop_spec:
  fixes offset size' d :: u32
  assumes "fs_ok s" "file_ok i s" "unat offset + unat size' \<le> 49152" "d \<le> size'" "unat size' \<le> length buffer"
  shows "\<exists>m i' s'. write_loop i offset size' buffer d s = Some (m, i', s') \<and> d \<le> m \<and> m \<le> size' \<and>
    (m = size' \<or> (\<forall>j < total_data_blocks s'. taken s' j)) \<and>
    fs_ok s' \<and> file_ok i' s' \<and> extends i s i' s' \<and>
    written (unat offset) buffer (unat offset + unat d) (unat offset + unat m) (fbyte i s) (fbyte i' s')"
  using assms
proof (induction "unat size' - unat d" arbitrary: d i s rule: less_induct)
  case (less d i s)
  show ?case
  proof (cases "d < size'")
    case False
    then have "d = size'" using less.prems(4) by simp
    moreover have "write_loop i offset size' buffer size' s = Some (size', i, s)"
      by (subst write_loop.simps) simp
    ultimately show ?thesis
      using less.prems(1,2) extends_refl [of i s] written_refl by auto
  next
    case d: True
    let ?t = "to_copy offset size' d"
    note pos = file_pos [OF less.prems(3) d]
    from write_step [OF less.prems(1-3) d less.prems(5)] show ?thesis
    proof (elim disjE exE conjE)
      assume "write_loop i offset size' buffer d s = Some (d, i, s)" "\<forall>j < total_data_blocks s. taken s j"
      then show ?thesis using less.prems(1,2,4) extends_refl [of i s] written_refl by auto
    next
      fix i1 s1
      assume eq: "write_loop i offset size' buffer d s = write_loop i1 offset size' buffer (d + ?t) s1"
        and ok: "fs_ok s1" "file_ok i1 s1" and ext: "extends i s i1 s1"
        and bytes: "\<forall>x < 49152. fbyte i1 s1 x =
          (if unat offset + unat d \<le> x \<and> x < unat offset + unat d + unat ?t then Some (buffer ! (x - unat offset))
           else if fbyte i s x = None \<and> x div 4096 = (unat offset + unat d) div 4096 then Some 0 else fbyte i s x)"
      have w: "written (unat offset) buffer (unat offset + unat d) (unat offset + unat (d + ?t)) (fbyte i s) (fbyte i1 s1)"
        using bytes pos(6) by (auto simp: written_def)
      have le: "d + ?t \<le> size'"
        using to_copy_progress(1) [OF d, of offset] pos(6) by (simp add: unat_le_u32)
      have "unat size' - unat (d + ?t) < unat size' - unat d" using to_copy_progress(3) [OF d] .
      from less.hyps [OF this ok less.prems(3) le less.prems(5)]
      obtain m i' s' where m: "write_loop i1 offset size' buffer (d + ?t) s1 = Some (m, i', s')"
        "d + ?t \<le> m" "m \<le> size'" "m = size' \<or> (\<forall>j < total_data_blocks s'. taken s' j)"
        "fs_ok s'" "file_ok i' s'" "extends i1 s1 i' s'"
        "written (unat offset) buffer (unat offset + unat (d + ?t)) (unat offset + unat m) (fbyte i1 s1) (fbyte i' s')"
        by blast
      have dm: "unat d \<le> unat (d + ?t)" "unat (d + ?t) \<le> unat m" using pos(6) m(2) by (simp_all add: unat_le_u32)
      have "written (unat offset) buffer (unat offset + unat d) (unat offset + unat m) (fbyte i s) (fbyte i' s')"
        using w m(8) by (rule written_trans) (use dm in auto)
      moreover have "extends i s i' s'" using ext m(7) data_block_nonzero [OF less.prems(1)] by (rule extends_trans)
      moreover have "d \<le> m" using dm by (simp add: unat_le_u32)
      ultimately show ?thesis using eq m(1,3-6) by auto
    qed
  qed
qed

section \<open>Reading\<close>

lemma read_loop_spec:
  fixes offset size' d :: u32
  assumes "fs_ok s" "file_ok i s" "unat offset + unat size' \<le> 49152" "d \<le> size'"
    and "\<And>x. unat offset \<le> x \<Longrightarrow> x < unat offset + unat size' \<Longrightarrow> fbyte i s x \<noteq> None"
  shows "read_loop i offset size' d acc s =
    Some (acc @ map (\<lambda>x. the (fbyte i s x)) [unat offset + unat d..<unat offset + unat size'])"
  using assms(4)
proof (induction "unat size' - unat d" arbitrary: d acc rule: less_induct)
  case (less d acc)
  show ?case
  proof (cases "d < size'")
    case False
    then have "d = size'" using less.prems by simp
    then show ?thesis by (subst read_loop.simps) simp
  next
    case d: True
    let ?t = "to_copy offset size' d" and ?p = "unat offset + unat d"
    let ?b = "i_direct i ! (?p div 4096)"
    note pos = file_pos [OF assms(3) d]
    have len: "length (i_direct i) = 12" using assms(2) by (simp add: file_ok_def inode_wf_def)
    have "?p < unat offset + unat size'" using d by (simp add: unat_less_u32)
    then have nz: "?b \<noteq> 0" using assms(5) [of ?p] by (auto simp: fbyte_def Let_def)
    then have data: "data_block s ?b" using assms(2) pos(2) len by (auto simp: file_ok_def)
    have disk: "disk_ok (fs_disk s)" using assms(1) by (simp add: fs_ok_def)
    have rd: "dorifs_read_block ?b s = Some (blk s ?b)"
      by (rule read_block [OF disk data_block_ok [OF assms(1) data]])
    have get: "dorifs_get_block i ((offset + d) div 4096) s = Some ?b" using get_direct [OF pos(3)] pos(1) by simp
    let ?c = "bytes_at (?p mod 4096) (unat ?t) (blk s ?b)"
    have c: "?c = map (\<lambda>x. the (fbyte i s x)) [?p..<?p + unat ?t]"
    proof (rule nth_equalityI)
      show "length ?c = length (map (\<lambda>x. the (fbyte i s x)) [?p..<?p + unat ?t])"
        using pos(7) disk by (simp add: length_blk)
      fix k assume "k < length ?c"
      then have k: "k < unat ?t" using pos(7) disk by (simp add: length_blk)
      have "?p = 4096 * (?p div 4096) + ?p mod 4096" by simp
      then have "?p + k = 4096 * (?p div 4096) + (?p mod 4096 + k)" by linarith
      moreover have "?p mod 4096 + k < 4096" using k pos(7) by linarith
      ultimately have "(?p + k) div 4096 = ?p div 4096" "(?p + k) mod 4096 = ?p mod 4096 + k"
        by (metis div_mult_self4 div_less add_0_right zero_neq_numeral, metis mod_mult_self4 mod_less)
      then show "?c ! k = map (\<lambda>x. the (fbyte i s x)) [?p..<?p + unat ?t] ! k"
        using k pos(7) disk nz by (simp add: fbyte_def length_blk)
    qed
    have le: "d + ?t \<le> size'" using to_copy_progress(1) [OF d, of offset] pos(6) by (simp add: unat_le_u32)
    have "read_loop i offset size' d acc s = read_loop i offset size' (d + ?t) (acc @ ?c) s"
      using d get nz rd pos(4) by (subst read_loop.simps) (simp add: Let_def)
    also have "\<dots> = Some ((acc @ ?c) @ map (\<lambda>x. the (fbyte i s x)) [unat offset + unat (d + ?t)..<unat offset + unat size'])"
      using less.hyps [OF to_copy_progress(3) [OF d] le] .
    also have "\<dots> = Some (acc @ map (\<lambda>x. the (fbyte i s x)) [?p..<unat offset + unat size'])"
    proof -
      have "[?p..<unat offset + unat size'] = [?p..<?p + unat ?t] @ [?p + unat ?t..<unat offset + unat size']"
        using to_copy_progress(1) [OF d, of offset]
          upt_add_eq_append [of ?p "?p + unat ?t" "unat offset + unat size' - (?p + unat ?t)"] by simp
      moreover have "unat offset + unat (d + ?t) = ?p + unat ?t" using pos(6) by simp
      ultimately show ?thesis using c by (simp only: map_append append_assoc)
    qed
    finally show ?thesis .
  qed
qed

section \<open>Writing and reading through a node\<close>

lemma upd_node_same [simp]:
  "fs_disk (upd_node p f s) = fs_disk s" "fs_lba (upd_node p f s) = fs_lba s" "sb (upd_node p f s) = sb s"
  "data_bitmap (upd_node p f s) = data_bitmap s" "fs_heap (upd_node p f s) = fs_heap s"
  "blk (upd_node p f s) = blk s" "block_ok (upd_node p f s) = block_ok s" "taken (upd_node p f s) = taken s"
  by (simp_all add: upd_node_def taken_def fun_eq_iff)

lemma fs_ok_upd_node [simp]: "fs_ok (upd_node p f s) = fs_ok s"
  by (simp add: fs_ok_def layout_ok_def synced_def)

lemma ino_ok_cong: "fs_lba s' = fs_lba s \<Longrightarrow> sb s' = (sb s)\<lparr>free_blocks := f\<rparr> \<Longrightarrow> ino_ok s' = ino_ok s"
  by (simp add: ino_ok_def fun_eq_iff)

lemma put_inode_fs_ok:
  assumes ok: "fs_ok s" and ino: "ino_ok s ino" and wf: "inode_wf i"
  shows "fs_ok (put_inode ino i s)" "taken (put_inode ino i s) = taken s"
    "data_block s b \<Longrightarrow> blk (put_inode ino i s) b = blk s b"
proof -
  have disk: "disk_ok (fs_disk s)" and lay: "layout_ok s" using ok by (simp_all add: fs_ok_def)
  note p = put_inode_props [OF disk ino wf]
  have "synced (put_inode ino i s)"
    unfolding synced_def
  proof (intro allI impI)
    fix k assume "k < unat (data_bitmap_blocks (sb (put_inode ino i s)))"
    then have k: "k < unat (data_bitmap_blocks (sb s))" by simp
    let ?c = "data_bitmap_start (sb s) + of_nat k"
    have "unat (data_bitmap_start (sb s)) + k < 4294967296"
      using k lay unat_u32_less [of "data_start (sb s)"] unfolding layout_ok_def by linarith
    then have u: "unat ?c = unat (data_bitmap_start (sb s)) + k"
      by (subst unat_add_u32) (simp_all add: unat_of_nat_u32)
    then have "block_ok s ?c" using k lay unfolding layout_ok_def block_ok_def by linarith
    moreover have "data_bitmap_start (sb s) \<le> ?c" using u by (simp add: unat_le_u32)
    ultimately show "blk (put_inode ino i s) (data_bitmap_start (sb (put_inode ino i s)) + of_nat k) =
        bytes_at (4096 * k) 4096 (data_bitmap (put_inode ino i s))"
      using p(3) ok k by (simp add: fs_ok_def synced_def)
  qed
  then show "fs_ok (put_inode ino i s)" using p(1) lay by (simp add: fs_ok_def layout_ok_def)
  show "taken (put_inode ino i s) = taken s" by (simp add: taken_def fun_eq_iff)
  assume data: "data_block s b"
  have "data_bitmap_start (sb s) \<le> b" using data lay by (simp add: data_block_def layout_ok_def unat_le_u32)
  then show "blk (put_inode ino i s) b = blk s b" using p(3) data_block_ok [OF ok data] by simp
qed

lemma fbyte_cong:
  assumes "file_ok i s" "x < 49152" "i_direct i' = i_direct i"
    and "\<And>b. data_block s b \<Longrightarrow> b \<in> set (i_direct i) \<Longrightarrow> blk s' b = blk s b"
  shows "fbyte i' s' x = fbyte i s x"
proof -
  have "x div 4096 < 12" using assms(2) by (simp add: less_mult_imp_div_less)
  then show ?thesis using assms by (auto simp: fbyte_def Let_def file_ok_def inode_wf_def)
qed

definition grown :: "inode \<Rightarrow> u32 \<Rightarrow> inode" where
  "grown i n = (if i_size i < n then i\<lparr>i_size := n\<rparr> else i)"

lemma grown_fields [simp]: "i_direct (grown i n) = i_direct i" "inode_wf (grown i n) = inode_wf i"
  "n \<le> i_size (grown i n)"
  by (auto simp: grown_def inode_wf_def)

lemma ino_at_extends:
  assumes "extends i s i' s'" "ino_ok s j" "fs_ok s"
  shows "ino_at s' j = ino_at s j"
proof -
  have "inode_block j s' = inode_block j s" using assms(1) by (auto simp: inode_block_def extends_def)
  moreover have "blk s' (inode_block j s) = blk s (inode_block j s)"
    using assms(1,2) unat_inode_block [OF assms(2)] by (auto simp: extends_def ino_ok_def)
  ultimately show ?thesis by (simp add: ino_at_def)
qed

text \<open>The whole call: the state it ends in, from the state the loop ends in.\<close>

text \<open>Nodes that differ in the size only.\<close>

definition like_node :: "vfs_node \<Rightarrow> vfs_node \<Rightarrow> bool" where
  "like_node a b \<longleftrightarrow> a\<lparr>n_size := 0\<rparr> = b\<lparr>n_size := 0\<rparr>"

lemma like_nodeD: "like_node a b \<Longrightarrow> n_inode a = n_inode b \<and> n_ops a = n_ops b \<and> n_type a = n_type b \<and> n_mount a = n_mount b"
  by (cases a; cases b) (simp add: like_node_def)

lemma like_node_trans: "like_node a b \<Longrightarrow> like_node b c \<Longrightarrow> like_node a c"
  by (simp add: like_node_def)

lemma vfs_write_core:
  fixes s :: "'a fsys_scheme" and offset size' p :: u32
  defines "ino \<equiv> n_inode (nodes s p)"
  assumes ok: "fs_ok s" and ino: "ino_ok s ino" and fok: "file_ok (ino_at s ino) s"
    and bound: "unat offset + unat size' \<le> 49152" and len: "unat size' \<le> length buffer"
  obtains m i' s1 s' where
    "dorifs_vfs_write p offset size' buffer s = Some (Some m, s')" "m \<le> size'"
    "m = size' \<or> (\<forall>j < total_data_blocks s'. taken s' j)" "fs_ok s'" "n_inode (nodes s' p) = ino"
    "fs_ok s1" "file_ok i' s1" "extends (ino_at s ino) s i' s1"
    "written (unat offset) buffer (unat offset) (unat offset + unat m) (fbyte (ino_at s ino) s) (fbyte i' s1)"
    "sb s' = sb s1" "fs_lba s' = fs_lba s" "taken s' = taken s1" "ino_at s' ino = grown i' (offset + m)"
    "\<And>j. ino_ok s j \<Longrightarrow> j \<noteq> ino \<Longrightarrow> ino_at s' j = ino_at s j"
    "\<And>b. data_block s b \<Longrightarrow> blk s' b = blk s1 b"
    "\<And>q. n_inode (nodes s' q) = n_inode (nodes s q) \<and> n_ops (nodes s' q) = n_ops (nodes s q)"
    "\<And>q. like_node (nodes s' q) (nodes s q)"
proof -
  have disk: "disk_ok (fs_disk s)" using ok by (simp add: fs_ok_def)
  let ?i = "ino_at s ino"
  obtain m i' s1 where w: "write_loop ?i offset size' buffer 0 s = Some (m, i', s1)" "m \<le> size'"
      "m = size' \<or> (\<forall>j < total_data_blocks s1. taken s1 j)" "fs_ok s1" "file_ok i' s1" "extends ?i s i' s1"
      "written (unat offset) buffer (unat offset) (unat offset + unat m) (fbyte ?i s) (fbyte i' s1)"
    using write_loop_spec [OF ok fok bound _ len, of 0] by auto
  let ?i'' = "grown i' (offset + m)"
  let ?s2 = "upd_node p (\<lambda>n. n\<lparr>n_size := i_size ?i''\<rparr>) s1"
  let ?s = "put_inode ino ?i'' ?s2"
  have nodes1: "nodes s1 = nodes s" using w(6) by (simp add: extends_def)
  have nd: "n_inode (nodes ?s2 q) = n_inode (nodes s q) \<and> n_ops (nodes ?s2 q) = n_ops (nodes s q)"
    "like_node (nodes ?s2 q) (nodes s q)" for q
    using nodes1 by (simp_all add: upd_node_def like_node_def)
  have call: "dorifs_vfs_write p offset size' buffer s = Some (Some m, ?s)"
    using w(1) read_inode [OF disk ino] nd(1) [of p]
    by (simp add: dorifs_vfs_write_def ino_def put_inode_def grown_def Let_def)
  obtain f where f: "sb s1 = (sb s)\<lparr>free_blocks := f\<rparr>" using w(6) by (auto simp: extends_def)
  have lba: "fs_lba s1 = fs_lba s" using w(6) by (simp add: extends_def)
  have iok: "ino_ok ?s2 = ino_ok s" using f lba by (intro ino_ok_cong [where f = f]) simp_all
  have ok2: "fs_ok ?s2" using w(4) by simp
  have wf: "inode_wf ?i''" using w(5) by (simp add: file_ok_def)
  note p = put_inode_fs_ok [OF ok2 ino [folded iok] wf]
  have disk2: "disk_ok (fs_disk ?s2)" using w(4) by (simp add: fs_ok_def)
  note q = put_inode_props [OF disk2 ino [folded iok] wf]
  have at: "ino_at ?s j = (if j = ino then ?i'' else ino_at s j)" if "ino_ok s j" for j
  proof -
    have "ino_at ?s2 j = ino_at s1 j" by (simp add: ino_at_def inode_block_def)
    then show ?thesis using q(2) that iok ino_at_extends [OF w(6) that ok] by simp
  qed
  have tdb: "total_data_blocks ?s = total_data_blocks s1" by (simp add: total_data_blocks_def)
  have db: "data_block ?s2 = data_block s" using f by (simp add: data_block_def fun_eq_iff)
  have blks: "blk ?s b = blk s1 b" if "data_block s b" for b using p(3) that db by simp
  show thesis
    by (rule that [OF call w(2) _ p(1) _ w(4-7)])
      (use w(3) p(2) tdb nd at ino blks lba in \<open>simp_all add: ino_def\<close>)
qed

lemma file_ok_end:
  assumes "file_ok i s1" "data_block s' = data_block s1" "taken s' = taken s1" "sb s' = sb s1"
  shows "file_ok (grown i n) s'"
  using assms by (simp add: file_ok_def in_use_def)

lemma vfs_read_spec:
  fixes offset n :: u32
  assumes ok: "fs_ok s" and ino: "ino_ok s (n_inode (nodes s p))" and fok: "file_ok (ino_at s (n_inode (nodes s p))) s"
    and bound: "unat offset + unat n \<le> 49152" and size': "offset + n \<le> i_size (ino_at s (n_inode (nodes s p)))"
    and bytes: "\<And>k. k < unat n \<Longrightarrow> fbyte (ino_at s (n_inode (nodes s p))) s (unat offset + k) = Some (bs ! k)"
    and len: "length bs = unat n"
  shows "dorifs_vfs_read p offset n s = Some (Some bs)"
proof -
  let ?i = "ino_at s (n_inode (nodes s p))"
  have disk: "disk_ok (fs_disk s)" using ok by (simp add: fs_ok_def)
  note rd = read_inode [OF disk ino]
  show ?thesis
  proof (cases "i_size ?i \<le> offset")
    case True
    have "unat (offset + n) = unat offset + unat n" using bound by (intro unat_add_u32) linarith
    then have "unat n = 0" using True size' by (simp add: unat_le_u32)
    then have "n = 0" by (simp add: word_unat_eq_iff)
    then show ?thesis using True rd len by (simp add: dorifs_vfs_read_def)
  next
    case False
    have hole: "fbyte ?i s x \<noteq> None" if "unat offset \<le> x" "x < unat offset + unat n" for x
      using bytes [of "x - unat offset"] that by simp
    have "read_loop ?i offset n 0 [] s = Some (map (\<lambda>x. the (fbyte ?i s x)) [unat offset..<unat offset + unat n])"
      using read_loop_spec [OF ok fok bound _ hole, of 0 "[]"] by simp
    moreover have "map (\<lambda>x. the (fbyte ?i s x)) [unat offset..<unat offset + unat n] = bs"
      using bytes len by (intro nth_equalityI) simp_all
    moreover have "\<not> i_size ?i < offset + n" using size' by (simp add: not_less)
    ultimately show ?thesis using False rd by (simp add: dorifs_vfs_read_def)
  qed
qed

text \<open>A file of DoriFS, through the node at \<open>p\<close>, keeps the contract of a byte file.\<close>

definition file_inv :: "u32 \<Rightarrow> 'a fsys_scheme \<Rightarrow> bool" where
  "file_inv p s \<longleftrightarrow> fs_ok s \<and> ino_ok s (n_inode (nodes s p)) \<and> file_ok (ino_at s (n_inode (nodes s p))) s"

definition file_byte :: "u32 \<Rightarrow> 'a fsys_scheme \<Rightarrow> nat \<Rightarrow> u8 option" where
  "file_byte p s = fbyte (ino_at s (n_inode (nodes s p))) s"

definition file_len :: "u32 \<Rightarrow> 'a fsys_scheme \<Rightarrow> nat" where
  "file_len p s = unat (i_size (ino_at s (n_inode (nodes s p))))"

lemma written_overwritten: "written off buffer off (off + m) f g = overwritten off m buffer 49152 f g"
  by (simp add: written_def overwritten_def)

lemma dorifs_write_spec:
  fixes s :: "'a fsys_scheme" and offset size' p :: u32
  assumes "file_inv p s" "unat offset + unat size' \<le> 49152" "unat size' \<le> length buffer"
  shows "\<exists>m s'. dorifs_vfs_write p offset size' buffer s = Some (Some m, s') \<and> unat m \<le> unat size' \<and>
    (m = size' \<or> (\<forall>j < total_data_blocks s'. taken s' j)) \<and> file_inv p s' \<and> file_len p s \<le> file_len p s' \<and>
    unat offset + unat m \<le> file_len p s' \<and>
    overwritten (unat offset) (unat m) buffer 49152 (file_byte p s) (file_byte p s') \<and>
    n_ops (nodes s' p) = n_ops (nodes s p)"
proof -
  let ?ino = "n_inode (nodes s p)"
  have a: "fs_ok s" "ino_ok s ?ino" "file_ok (ino_at s ?ino) s" using assms(1) by (simp_all add: file_inv_def)
  from vfs_write_core [OF a assms(2,3)] obtain m i' s1 s' where
    w: "dorifs_vfs_write p offset size' buffer s = Some (Some m, s')" "m \<le> size'"
      "m = size' \<or> (\<forall>j < total_data_blocks s'. taken s' j)" "fs_ok s'" "n_inode (nodes s' p) = ?ino"
      "fs_ok s1" "file_ok i' s1" "extends (ino_at s ?ino) s i' s1"
      "written (unat offset) buffer (unat offset) (unat offset + unat m) (fbyte (ino_at s ?ino) s) (fbyte i' s1)"
      "sb s' = sb s1" "fs_lba s' = fs_lba s" "taken s' = taken s1" "ino_at s' ?ino = grown i' (offset + m)"
      "\<And>b. data_block s b \<Longrightarrow> blk s' b = blk s1 b" "n_ops (nodes s' p) = n_ops (nodes s p)" by metis
  obtain f where f: "sb s1 = (sb s)\<lparr>free_blocks := f\<rparr>" using w(8) by (auto simp: extends_def)
  have db: "data_block s1 = data_block s" using f by (rule data_block_cong)
  have iok: "ino_ok s' ?ino" using a(2) ino_ok_cong [OF w(11)] f w(10) by simp
  have db': "data_block s' = data_block s1" using w(10) by (simp add: data_block_def fun_eq_iff)
  have fok: "file_ok (grown i' (offset + m)) s'" using file_ok_end [OF w(7) db' w(12,10)] .
  have le: "unat m \<le> unat size'" using w(2) by (simp add: unat_le_u32)
  have same: "fbyte (grown i' (offset + m)) s' x = fbyte i' s1 x" if "x < 49152" for x
    using w(7) that by (rule fbyte_cong) (simp_all add: w(14) db)
  have "overwritten (unat offset) (unat m) buffer 49152 (file_byte p s) (file_byte p s')"
    using w(9) same unfolding written_overwritten overwritten_def file_byte_def w(5) w(13) by simp
  moreover have "unat offset + unat m = unat (offset + m)"
    using le assms(2) by (subst unat_add_u32) simp_all
  then have "unat offset + unat m \<le> file_len p s'"
    unfolding file_len_def w(5) w(13) using grown_fields(3) [of "offset + m" i'] by (simp add: unat_le_u32)
  moreover have "i_size (ino_at s ?ino) = i_size i'" using w(8) by (auto simp: extends_def)
  then have "file_len p s \<le> file_len p s'"
    unfolding file_len_def w(5) w(13) by (auto simp: grown_def unat_less_u32)
  ultimately show ?thesis using w(1,3-5,13,15) iok fok le by (auto simp: file_inv_def)
qed

interpretation dorifs_file: byte_file "dorifs_vfs_read p" "dorifs_vfs_write p" "file_byte p" "file_inv p" "file_len p" 49152
  for p
proof (unfold_locales, goal_cases)
  case (2 s off n buf)
  then show ?case using dorifs_write_spec [of p s off n buf] by blast
next
  case (3 s off n bs)
  have "unat (off + n) = unat off + unat n" using 3(2) by (intro unat_add_u32) linarith
  then show ?case
    using 3 by (intro vfs_read_spec) (simp_all add: file_inv_def file_len_def file_byte_def unat_le_u32)
qed simp

text \<open>
  C1: what is written can be read back. Writing \<open>size\<close> bytes at an offset of a file, within the 48 KiB
  its direct pointers cover, always returns: it writes the first \<open>m\<close> bytes, with \<open>m = size\<close> unless no
  data block is free, keeps the filesystem and the file well formed and the bitmap on disk equal to
  the cached one, makes the file at least \<open>offset + m\<close> bytes long, and reading at the offset then gives
  exactly those bytes.
\<close>

theorem dorifs_write_read:
  fixes s :: "'a fsys_scheme" and offset size' p :: u32
  assumes "file_inv p s" "unat offset + unat size' \<le> 49152" "unat size' \<le> length buffer"
  shows "\<exists>m s'. dorifs_vfs_write p offset size' buffer s = Some (Some m, s') \<and>
    m \<le> size' \<and> (m = size' \<or> (\<forall>j < total_data_blocks s'. taken s' j)) \<and> file_inv p s' \<and>
    unat offset + unat m \<le> file_len p s' \<and>
    dorifs_vfs_read p offset m s' = Some (Some (take (unat m) buffer))"
  using dorifs_file.write_read [OF assms] dorifs_write_spec [OF assms] by (auto simp: unat_le_u32)

lemma read_loop_cong:
  fixes offset size' d :: u32
  assumes "fs_ok s" "fs_ok s'" "file_ok i s" "data_block s' = data_block s" "unat offset + unat size' \<le> 49152"
    and "\<And>b. b \<in> set (i_direct i) \<Longrightarrow> b \<noteq> 0 \<Longrightarrow> blk s' b = blk s b"
  shows "read_loop i offset size' d acc s' = read_loop i offset size' d acc s"
proof (induction "unat size' - unat d" arbitrary: d acc rule: less_induct)
  case (less d acc)
  show ?case
  proof (cases "d < size'")
    case False
    then show ?thesis by (subst (1 2) read_loop.simps) simp
  next
    case d: True
    note pos = file_pos [OF assms(5) d]
    let ?b = "i_direct i ! ((unat offset + unat d) div 4096)"
    have len: "length (i_direct i) = 12" using assms(3) by (simp add: file_ok_def inode_wf_def)
    have get: "dorifs_get_block i ((offset + d) div 4096) t = Some ?b" for t :: "'a fsys_scheme"
      using get_direct [OF pos(3)] pos(1) by simp
    have get': "dorifs_get_block i ((offset + d) div 4096) t = Some ?b" for t :: "'b fsys_scheme"
      using get_direct [OF pos(3)] pos(1) by simp
    have rd: "dorifs_read_block ?b s' = dorifs_read_block ?b s" if "?b \<noteq> 0"
    proof -
      have mem: "?b \<in> set (i_direct i)" using pos(2) len by simp
      then have data: "data_block s ?b" "data_block s' ?b" using assms(3,4) that by (auto simp: file_ok_def)
      have "disk_ok (fs_disk s)" "disk_ok (fs_disk s')" using assms(1,2) by (simp_all add: fs_ok_def)
      then show ?thesis
        using read_block data_block_ok [OF assms(1) data(1)] data_block_ok [OF assms(2) data(2)] assms(6) [OF mem that]
        by (simp add: read_block)
    qed
    note IH = less.hyps [OF to_copy_progress(3) [OF d]]
    show ?thesis using d get get' rd IH
      by (subst (1 2) read_loop.simps) (simp add: Let_def split: option.split)
  qed
qed


section \<open>A small filesystem\<close>

text \<open>Five blocks on a disk of zeros: superblock, inode table, bitmap and two data blocks.\<close>

definition demo_disk :: disk where
  "demo_disk = \<lparr>drive = no_drive\<lparr>present := True\<rparr>, sectors = (\<lambda>k. replicate 512 0), bad = (\<lambda>k. False)\<rparr>"

definition demo_sb :: superblock where
  "demo_sb = zero_superblock\<lparr>total_blocks := 5, total_inodes := 4, free_blocks := 2, inode_table_start := 1,
     inode_table_blocks := 1, data_bitmap_start := 2, data_bitmap_blocks := 1, data_start := 3\<rparr>"

definition demo_fs :: fsys where
  "demo_fs = \<lparr>fs_disk = demo_disk, fs_lba = 0, sb = demo_sb, data_bitmap = replicate 4096 0, bitmap_addr = 0,
     fs_heap = heap_init blank_mem,
     nodes = (\<lambda>p. zero_node\<lparr>n_inode := p\<rparr>)\<rparr>"

lemma demo_blk: "blk demo_fs b = replicate 4096 0"
  by (simp add: blk_def demo_fs_def demo_disk_def upt_8 flip: replicate_add)

lemma zero_words: "4 * n \<le> k \<Longrightarrow> bytes_to_words n (replicate k 0) = replicate n 0"
  by (auto simp: bytes_to_words_def bytes_at_def min_def numeral_eq_Suc intro!: nth_equalityI)

lemma decode_zeros: "decode_inode (replicate 344 0) = zero_inode"
  by (simp add: decode_inode_def zero_words Let_def zero_inode_def bytes_at_def)

lemma demo_ino_at: "ino_at demo_fs ino = zero_inode"
  using unat_inode_offset(2) [of ino] decode_zeros by (simp add: ino_at_def demo_blk bytes_at_def)

lemma zero_direct: "i_direct zero_inode = replicate 12 0"
  by (simp add: zero_inode_def)

lemma demo_ok: "fs_ok demo_fs" "ino < 4 \<Longrightarrow> ino_ok demo_fs ino"
  "file_ok zero_inode demo_fs" "n_inode (nodes demo_fs p) = p"
  "total_data_blocks demo_fs = 2"
proof -
  show "fs_ok demo_fs"
    unfolding fs_ok_def synced_def demo_blk
    by (simp add: demo_fs_def layout_ok_def disk_ok_def demo_disk_def demo_sb_def bytes_at_def zero_superblock_def)
  have "unat ino div 11 < 1" if "ino < 4" using that by (simp add: unat_less_u32)
  then show "ino < 4 \<Longrightarrow> ino_ok demo_fs ino"
    by (simp add: ino_ok_def demo_fs_def demo_sb_def zero_superblock_def)
  show "file_ok zero_inode demo_fs" by (simp add: file_ok_def) (simp add: zero_inode_def)
  show "n_inode (nodes demo_fs p) = p" by (simp add: demo_fs_def)
  show "total_data_blocks demo_fs = 2"
    by (simp add: total_data_blocks_def demo_fs_def demo_sb_def zero_superblock_def)
qed

theorem dorifs_write_read_witness:
  "\<exists>m s'. dorifs_vfs_write 2 100 3 [1, 2, 3] demo_fs = Some (Some m, s') \<and> m \<le> 3 \<and>
    dorifs_vfs_read 2 100 m s' = Some (Some (take (unat m) [1, 2, 3]))"
  using dorifs_write_read [of 2 demo_fs 100 3 "[1, 2, 3]"] by (auto simp: demo_ok demo_ino_at file_inv_def)


end
