(* ===== verification/Dorifs_Limits.thy ===== *)
theory Dorifs_Limits
  imports Dorifs_Files
begin

text \<open>
  The data block allocator of DoriFS as a whole, and two places where the on-disk layout runs into its
  limits: the inode table of a formatted partition is too short for the inodes it counts, and a directory
  entry does not fit at the end of a block.
\<close>

section \<open>Data blocks\<close>

text \<open>
  C28: allocation of data blocks. \<open>dorifs_alloc_block\<close> returns 0 and changes nothing if every data block is
  taken; otherwise it returns the lowest free block, marks exactly that one, in memory and on disk, and
  counts it. Freeing that block then gives back the free blocks and the count of before.
\<close>

theorem dorifs_alloc_free:
  assumes "fs_ok s"
  shows "\<exists>b s'. dorifs_alloc_block s = Some (b, s') \<and> fs_ok s' \<and>
    (b = 0 \<longrightarrow> s' = s \<and> (\<forall>j < total_data_blocks s. taken s j)) \<and>
    (b \<noteq> 0 \<longrightarrow> (\<exists>i < total_data_blocks s. b = data_start (sb s) + of_nat i \<and> \<not> taken s i \<and> (\<forall>j < i. taken s j) \<and>
       taken s' = (taken s)(i := True) \<and> free_blocks (sb s') = free_blocks (sb s) - 1) \<and>
     (\<exists>s''. dorifs_free_block b s' = Some s'' \<and> fs_ok s'' \<and> taken s'' = taken s \<and>
       free_blocks (sb s'') = free_blocks (sb s)))"
  using alloc_block_spec [OF assms]
proof (elim disjE exE conjE)
  fix i s'
  assume a: "dorifs_alloc_block s = Some (data_start (sb s) + of_nat i, s')" "i < total_data_blocks s"
    "\<not> taken s i" "\<forall>j < i. taken s j" "taken s' = (taken s)(i := True)" "fs_ok s'"
    "same_but_bitmap s s'" "free_blocks (sb s') = free_blocks (sb s) - 1"
  have start: "data_start (sb s') = data_start (sb s)" "total_data_blocks s' = total_data_blocks s"
    using a(7) by (auto simp: same_but_bitmap_def total_data_blocks_def)
  have nz: "data_start (sb s) + of_nat i \<noteq> 0"
    using data_block_number(2) [OF _ a(2)] assms by (simp add: fs_ok_def)
  obtain s'' where f: "dorifs_free_block (data_start (sb s) + of_nat i) s' = Some s''"
    "taken s'' = (taken s')(i := False)" "fs_ok s''" "free_blocks (sb s'') = free_blocks (sb s') + 1"
    using free_block_spec [OF a(6), of i] start a(2) by auto
  have "taken s'' = taken s" using f(2) a(3,5) by (auto simp: fun_eq_iff)
  then show ?thesis using a(1-6,8) f nz by auto
qed (use assms in auto)

theorem dorifs_alloc_free_witness:
  "\<exists>b s' s''. dorifs_alloc_block demo_fs = Some (b, s') \<and> b \<noteq> 0 \<and>
    dorifs_free_block b s' = Some s'' \<and> taken s'' = taken demo_fs"
proof -
  have "\<not> taken demo_fs 0" by (simp add: taken_def demo_fs_def)
  moreover have "0 < total_data_blocks demo_fs" by (simp add: demo_ok)
  ultimately show ?thesis using dorifs_alloc_free [OF demo_ok(1)] by blast
qed

section \<open>The inode table\<close>

lemma formatted_table:
  "total_inodes (format_superblock n) = 1024" "inode_table_start (format_superblock n) = 1"
  "data_bitmap_start (format_superblock n) = 87"
  by (simp_all add: format_superblock_def Let_def)

text \<open>
  The inode table of a formatted partition overlaps the block bitmap. \<open>dorifs_format\<close> reserves room for
  1024 inodes packed without gaps, 86 blocks, but an inode never crosses a block, so that a block holds 11
  and the table ends at inode 945. On a partition of any size the inodes from 946 on lie in or after the
  first bitmap block, and writing inode 946 replaces the first 344 bytes of the bitmap by its image.
\<close>

theorem dorifs_inode_table_short:
  assumes "sb s = format_superblock n" "disk_ok (fs_disk s)" "unat (fs_lba s) \<le> 268434000" "inode_wf i"
  shows "946 < total_inodes (sb s) \<and>
    (\<forall>ino < total_inodes (sb s). data_bitmap_start (sb s) \<le> inode_block ino s \<longleftrightarrow> 946 \<le> ino) \<and>
    (\<exists>s'. dorifs_write_inode 946 i s = (True, s') \<and>
       bytes_at 0 344 (blk s' (data_bitmap_start (sb s))) = encode_inode i)"
proof -
  note t = formatted_table [of n, folded assms(1)]
  have block: "unat (inode_block ino s) = 1 + unat ino div 11" for ino
  proof -
    have "unat ino div 11 < 4294967295" using unat_u32_less [of ino] by linarith
    then show ?thesis
      unfolding inode_block_def t inodes_per_block by (subst unat_add_u32) (simp_all add: unat_div)
  qed
  have "87 \<le> inode_block ino s \<longleftrightarrow> 946 \<le> ino" for ino
    unfolding unat_le_u32 block by simp linarith
  moreover
  have ib: "inode_block 946 s = 87" by (simp add: inode_block_def t)
  have ok: "block_ok s 87" using assms(3) by (simp add: block_ok_def)
  have off: "inode_offset 946 = 0" by (simp add: unat_inode_offset(1))
  have len: "length (blk s 87) = 4096" using assms(2) by (rule length_blk)
  let ?buf = "blit 0 (encode_inode i) (blk s 87)"
  have "dorifs_write_inode 946 i s = (True, put_block 87 ?buf s)"
    using read_block [OF assms(2) ok] put_block_eq [OF assms(2) ok, of ?buf]
    by (simp add: dorifs_write_inode_def t ib off put_block_def prod_eq_iff)
  moreover have "blk (put_block 87 ?buf s) 87 = ?buf"
    using put_block_ok(2) [OF assms(2) ok _ ok, of ?buf] len assms(4) by simp
  moreover have "bytes_at 0 344 ?buf = encode_inode i" using len assms(4) by (intro bytes_at_blit_same) auto
  ultimately show ?thesis unfolding t by auto
qed

theorem dorifs_inode_table_short_witness:
  "\<exists>s'. dorifs_write_inode 946 zero_inode (demo_fs\<lparr>sb := format_superblock 16384\<rparr>) = (True, s')"
  using dorifs_inode_table_short [of "demo_fs\<lparr>sb := format_superblock 16384\<rparr>" 16384 zero_inode] demo_ok(1)
  by (auto simp: fs_ok_def demo_fs_def)

section \<open>Directories\<close>

text \<open>
  The sixteenth entry of a directory is written past the end of a buffer. A block holds 15 entries of
  262 bytes and the first 166 bytes of another; the code stores a whole entry there. For a directory of 15
  entries (3930 bytes) in one block, adding an entry, for a file of any type and name, is a copy of 262
  bytes to offset 3930 of the 4096-byte buffer: no result is defined.
\<close>

theorem dorifs_entry_overruns:
  assumes "fs_ok s" "ino_ok s (n_inode (nodes s parent))"
    and "i_size (ino_at s (n_inode (nodes s parent))) = 3930"
    and "file_ok (ino_at s (n_inode (nodes s parent))) s"
    and "i_direct (ino_at s (n_inode (nodes s parent))) ! 0 \<noteq> 0"
  shows "append_entry parent ino ty name s = None"
proof -
  let ?i = "ino_at s (n_inode (nodes s parent))"
  let ?b = "i_direct ?i ! 0"
  have disk: "disk_ok (fs_disk s)" using assms(1) by (simp add: fs_ok_def)
  have "length (i_direct ?i) = 12" using assms(4) by (simp add: file_ok_def inode_wf_def)
  then have "data_block s ?b" using assms(4,5) by (auto simp: file_ok_def)
  then have "dorifs_read_block ?b s = Some (blk s ?b)" using read_block [OF disk] data_block_ok [OF assms(1)] by blast
  moreover have "dorifs_get_block ?i 0 s = Some ?b" using get_direct [of 0 ?i s] by simp
  ultimately show ?thesis
    using read_inode [OF disk assms(2)] assms(3,5) length_blk [OF disk, of ?b]
    by (simp add: append_entry_def Let_def)
qed

text \<open>A root directory of 15 entries, as 15 calls of \<open>dorifs_vfs_create\<close> leave it.\<close>

definition full_dir :: inode where
  "full_dir = zero_inode\<lparr>i_type := DORIFS_TYPE_DIR, i_size := 3930, i_block_count := 1,
     i_direct := 3 # replicate 11 0, i_link_count := 1\<rparr>"

definition full_fs :: fsys where
  "full_fs = put_inode 1 full_dir (snd (the (dorifs_alloc_block demo_fs)))"

theorem dorifs_entry_overruns_witness: "append_entry 1 2 1 [97] full_fs = None"
proof -
  obtain s1 where a: "dorifs_alloc_block demo_fs = Some (data_start (sb demo_fs) + of_nat 0, s1)"
    "taken s1 = (taken demo_fs)(0 := True)" "fs_ok s1" "same_but_bitmap demo_fs s1"
  proof -
    have "\<not> taken demo_fs 0" by (simp add: taken_def demo_fs_def)
    then show ?thesis using alloc_block_spec [OF demo_ok(1)] that demo_ok(5) by fastforce
  qed
  have wf: "inode_wf full_dir" by (simp add: full_dir_def zero_inode_def inode_wf_def)
  have ino: "ino_ok s1 1"
    using demo_ok(2) [of 1] a(4) ino_ok_cong [of s1 demo_fs] by (auto simp: same_but_bitmap_def)
  have full: "full_fs = put_inode 1 full_dir s1" using a(1) by (simp add: full_fs_def)
  note p = put_inode_fs_ok [OF a(3) ino wf]
  have at: "ino_at full_fs 1 = full_dir"
    using put_inode_props(2) [OF _ ino wf ino] a(3) by (simp add: full fs_ok_def)
  have nd: "n_inode (nodes full_fs 1) = 1"
    using a(4) demo_ok(4) [of 1] by (simp add: full same_but_bitmap_def)
  have start: "data_start (sb full_fs) = 3" "total_blocks (sb full_fs) = 5"
    using a(4) by (auto simp: full same_but_bitmap_def demo_fs_def demo_sb_def zero_superblock_def)
  have "file_ok full_dir full_fs"
    unfolding file_ok_def
  proof (intro conjI)
    show "\<forall>b \<in> set (i_direct full_dir). b \<noteq> 0 \<longrightarrow> data_block full_fs b \<and> in_use full_fs b"
      using a(2) p(2) start by (auto simp: full_dir_def data_block_def in_use_def full)
    show "\<forall>j < 12. \<forall>k < 12. i_direct full_dir ! j \<noteq> 0 \<longrightarrow> i_direct full_dir ! j = i_direct full_dir ! k \<longrightarrow> j = k"
      by (auto simp: full_dir_def nth_Cons split: nat.splits)
  qed (rule wf)
  moreover have "ino_ok full_fs 1" using ino ino_ok_cong [of full_fs s1 "free_blocks (sb s1)"] by (simp add: full)
  ultimately show ?thesis
    using dorifs_entry_overruns [of full_fs 1 2 1 "[97]"] p(1) at nd by (simp add: full full_dir_def)
qed

end
