(* ===== verification/Dorifs_Frame.thy ===== *)
theory Dorifs_Frame
  imports Dorifs
begin

text \<open>
  The operations of DoriFS leave alone what a layer above adds to the state (\<open>fsys.more\<close>), one lemma per
  operation, in the order of the code.
\<close>

named_theorems frame "an operation keeps the rest of the state"

lemma write_block_more [frame, simp]: "fsys.more (snd (dorifs_write_block b buf s)) = fsys.more s"
  by (simp add: dorifs_write_block_def split: option.split)

lemma write_inode_more [frame, simp]: "fsys.more (snd (dorifs_write_inode ino i s)) = fsys.more s"
  by (simp add: dorifs_write_inode_def split: option.split)

lemma alloc_inode_from_more: "fsys.more (snd (alloc_inode_from i s)) = fsys.more s"
proof (induction i s rule: alloc_inode_from.induct)
  case (1 i s)
  then show ?case by (subst alloc_inode_from.simps) (auto simp: Let_def split: option.split)
qed

lemma alloc_inode_more [frame]: "dorifs_alloc_inode s = (ino, s') \<Longrightarrow> fsys.more s' = fsys.more s"
  using alloc_inode_from_more [of 1 s] by (simp add: dorifs_alloc_inode_def)

lemma free_inode_more [frame, simp]: "fsys.more (dorifs_free_inode ino s) = fsys.more s"
  by (simp add: dorifs_free_inode_def Let_def)

lemma write_back_more [frame]: "write_back_bitmap k s = Some s' \<Longrightarrow> fsys.more s' = fsys.more s"
  by (auto simp: write_back_bitmap_def Let_def bind_eq_Some_conv)

lemma alloc_block_more [frame]: "dorifs_alloc_block s = Some (b, s') \<Longrightarrow> fsys.more s' = fsys.more s"
  by (auto simp: dorifs_alloc_block_def Let_def bind_eq_Some_conv split: option.splits dest!: write_back_more)

lemma free_block_more [frame]: "dorifs_free_block b s = Some s' \<Longrightarrow> fsys.more s' = fsys.more s"
  by (auto simp: dorifs_free_block_def Let_def split: if_splits dest!: write_back_more)

lemma set_block_more [frame]: "dorifs_set_block i fb b s = Some (ok, i', s') \<Longrightarrow> fsys.more s' = fsys.more s"
  by (auto simp: dorifs_set_block_def Let_def bind_eq_Some_conv split: if_splits dest!: alloc_block_more)

lemma upd_node_more [frame, simp]: "fsys.more (upd_node p f s) = fsys.more s"
  by (simp add: upd_node_def)

lemma write_loop_more:
  "write_loop i offset size' buffer d s = Some (m, i', s') \<Longrightarrow> fsys.more s' = fsys.more s"
proof (induction i offset size' buffer d s rule: write_loop.induct)
  case (1 i offset size' buffer d s)
  show ?case
  proof (cases "d < size'")
    case False
    then show ?thesis using 1(2) by (subst (asm) write_loop.simps) simp
  next
    case True
    let ?fb = "(offset + d) div 4096"
    from 1(2) True obtain b where b: "dorifs_get_block i ?fb s = Some b"
      by (subst (asm) write_loop.simps) (auto simp: bind_eq_Some_conv Let_def)
    define r where "r = (if b = 0
           then do { (b, s) \<leftarrow> dorifs_alloc_block s;
                     if b = 0 then Some (0, zero_block, i, s)
                     else do { (ok, i, s) \<leftarrow> dorifs_set_block i ?fb b s;
                               Some (b, zero_block, i\<lparr>i_block_count := i_block_count i + 1\<rparr>, s) } }
           else do { buf \<leftarrow> dorifs_read_block b s; Some (b, buf, i, s) })"
    from 1(2) True b obtain b' buf i1 s1 where r: "r = Some (b', buf, i1, s1)"
      and rest: "(if b' = 0 then Some (d, i1, s1)
        else let n = to_copy offset size' d;
                 block_buf = blit (unat ((offset + d) mod 4096)) (bytes_at (unat d) (unat n) buffer) buf;
                 s = snd (dorifs_write_block b' block_buf s1)
             in write_loop i1 offset size' buffer (d + n) s) = Some (m, i', s')"
      unfolding r_def by (subst (asm) write_loop.simps) (auto simp: bind_eq_Some_conv Let_def)
    have s1: "fsys.more s1 = fsys.more s"
      using r by (auto simp: r_def bind_eq_Some_conv split: if_splits dest!: alloc_block_more set_block_more)
    show ?thesis
    proof (cases "b' = 0")
      case True
      then show ?thesis using rest s1 by simp
    next
      case False
      note IH = "1.IH" [OF True refl b r [unfolded r_def] refl refl refl False refl refl refl]
      show ?thesis using IH rest False s1 by (simp add: Let_def)
    qed
  qed
qed

lemma vfs_write_more [frame]: "dorifs_vfs_write p off n buf s = Some (r, s') \<Longrightarrow> fsys.more s' = fsys.more s"
  by (auto simp: dorifs_vfs_write_def Let_def bind_eq_Some_conv split: option.splits dest!: write_loop_more)

lemma fold_bind_more:
  assumes "\<And>x a a' s s'. f x (Some (a, s)) = Some (a', s') \<Longrightarrow> g s' = g s" "\<And>x. f x None = None"
  shows "fold f xs (Some (a, s)) = Some (a', s') \<Longrightarrow> g s' = g s"
proof (induction xs arbitrary: a s)
  case (Cons x xs)
  have none: "fold f xs None = None" by (induction xs) (simp_all add: assms(2))
  obtain b t where bt: "f x (Some (a, s)) = Some (b, t)" using Cons.prems none by (cases "f x (Some (a, s))") auto
  then have "g s' = g t" using Cons by simp
  then show ?case using assms(1) bt by metis
qed simp

lemma truncate_from_more [frame]: "truncate_from i bs s = Some (i', s') \<Longrightarrow> fsys.more s' = fsys.more s"
  unfolding truncate_from_def
  by (erule fold_bind_more [rotated 2])
    (auto simp: bind_eq_Some_conv split: if_splits dest!: free_block_more set_block_more)

lemma truncate_more [frame]: "dorifs_vfs_truncate p n s = Some (r, s') \<Longrightarrow> fsys.more s' = fsys.more s"
  by (auto simp: dorifs_vfs_truncate_def Let_def bind_eq_Some_conv split: option.splits if_splits dest!: truncate_from_more)

lemma make_node_more [frame]: "dorifs_make_vfs_node ino s = Some (p, s') \<Longrightarrow> fsys.more s' = fsys.more s"
  by (auto simp: dorifs_make_vfs_node_def Let_def bind_eq_Some_conv split: option.splits if_splits)

lemma finddir_more [frame]: "dorifs_vfs_finddir p name s = Some (q, s') \<Longrightarrow> fsys.more s' = fsys.more s"
  by (auto simp: dorifs_vfs_finddir_def bind_eq_Some_conv split: option.splits if_splits dest!: make_node_more)

lemma append_entry_more: "append_entry p ino ty name s = Some (r, s') \<Longrightarrow> fsys.more s' = fsys.more s"
proof (cases "dorifs_read_inode (n_inode (nodes s p)) s")
  case (Some i)
  assume a: "append_entry p ino ty name s = Some (r, s')"
  let ?fb = "i_size i div 4096"
  from a Some obtain b where b: "dorifs_get_block i ?fb s = Some b"
    by (auto simp: append_entry_def bind_eq_Some_conv Let_def)
  define x where "x = (if b = 0
             then do { (b, s) \<leftarrow> dorifs_alloc_block s;
                       if b = 0 then Some (0, zero_block, i, dorifs_free_inode ino s)
                       else do { (ok, i, s) \<leftarrow> dorifs_set_block i ?fb b s;
                                 Some (b, zero_block, i\<lparr>i_block_count := i_block_count i + 1\<rparr>, s) } }
             else do { buf \<leftarrow> dorifs_read_block b s; Some (b, buf, i, s) })"
  from a Some b obtain y where y: "x = Some y"
    unfolding x_def by (auto simp: append_entry_def bind_eq_Some_conv Let_def)
  obtain b' buf i1 s1 where y': "y = (b', buf, i1, s1)" by (cases y)
  have s1: "fsys.more s1 = fsys.more s"
    using y y' by (auto simp: x_def bind_eq_Some_conv split: if_splits dest!: alloc_block_more set_block_more)
  have "append_entry p ino ty name s = (case y of (disk_block, buf, pi, s) \<Rightarrow>
      if disk_block = 0 then Some (- 1, s)
      else if length buf < unat (i_size i mod 4096) + 262 then None
      else let buf = blit (unat (i_size i mod 4096)) (encode_dirent (make_dirent ino ty name)) buf;
               s = snd (dorifs_write_block disk_block buf s);
               pi = pi\<lparr>i_size := i_size pi + of_nat 262\<rparr>;
               s = snd (dorifs_write_inode (n_inode (nodes s p)) pi s)
           in Some (0, upd_node p (\<lambda>n. n\<lparr>n_size := i_size pi\<rparr>) s))"
    using Some b y unfolding x_def by (simp add: append_entry_def Let_def)
  then show ?thesis using a y' s1 by (auto simp: Let_def split: if_splits)
qed (auto simp: append_entry_def)

lemma create_more [frame]: "dorifs_vfs_create p name ty s = Some (r, s') \<Longrightarrow> fsys.more s' = fsys.more s"
  by (auto simp: dorifs_vfs_create_def Let_def split: prod.splits if_splits dest!: append_entry_more alloc_inode_more)

lemma symlink_more [frame]: "dorifs_vfs_symlink p name t s = Some (r, s') \<Longrightarrow> fsys.more s' = fsys.more s"
  by (auto simp: dorifs_vfs_symlink_def Let_def split: prod.splits if_splits dest!: append_entry_more alloc_inode_more)

lemma free_blocks_more:
  fixes s :: "'a fsys_scheme"
  shows "free_blocks_of bs s = Some s' \<Longrightarrow> fsys.more s' = fsys.more s"
proof (induction bs arbitrary: s)
  case (Cons b bs)
  have none: "fold (\<lambda>b r. do { s \<leftarrow> r; if b = 0 then Some s else dorifs_free_block b s }) xs None = (None :: 'a fsys_scheme option)" for xs
    by (induction xs) simp_all
  obtain t where t: "(if b = 0 then Some s else dorifs_free_block b s) = Some t"
  proof (cases "if b = 0 then Some s else dorifs_free_block b s")
    case None
    then show ?thesis using Cons.prems none by (simp add: free_blocks_of_def)
  qed (rule that)
  then have "free_blocks_of bs t = Some s'" using Cons.prems by (simp add: free_blocks_of_def)
  then show ?case using Cons.IH t by (auto split: if_splits dest!: free_block_more)
qed (simp add: free_blocks_of_def)

lemma unlink_more [frame]: "dorifs_vfs_unlink p name s = Some (r, s') \<Longrightarrow> fsys.more s' = fsys.more s"
  by (auto simp: dorifs_vfs_unlink_def Let_def bind_eq_Some_conv split: option.splits if_splits
      dest!: free_blocks_more free_block_more)

end
