(* ===== verification/Vfs.thy ===== *)
theory Vfs
  imports Dorifs
begin

text \<open>
  The virtual filesystem layer, \<open>kernel/vfs.c\<close>: the state of the filesystem extended by the root, the
  table of file descriptors and the table of mounts. Paths and names are lists of bytes without NUL; a
  node is its address, 0 is \<open>NULL\<close>. As in the filesystem, the outer \<open>None\<close> of an operation means that the
  code does not return, or not with a result C defines; \<open>- 1\<close> and \<open>NULL\<close> are values.
\<close>

section \<open>State\<close>

record file_descriptor =
  f_node :: u32
  f_offset :: u32
  f_flags :: u32
  f_in_use :: bool

record mount_entry =
  m_path :: "u8 list"
  m_root :: u32
  m_in_use :: bool

record vfs = fsys +
  vfs_root :: u32
  fd_table :: "file_descriptor list"
  mount_table :: "mount_entry list"

abbreviation (input) VFS_MAX_OPEN_FILES :: nat where "VFS_MAX_OPEN_FILES \<equiv> 64"
abbreviation (input) VFS_MAX_MOUNTS :: nat where "VFS_MAX_MOUNTS \<equiv> 8"
abbreviation (input) VFS_O_CREAT :: u32 where "VFS_O_CREAT \<equiv> 0x40"
abbreviation (input) VFS_O_TRUNC :: u32 where "VFS_O_TRUNC \<equiv> 0x200"
abbreviation (input) VFS_O_APPEND :: u32 where "VFS_O_APPEND \<equiv> 0x400"
abbreviation (input) SLASH :: u8 where "SLASH \<equiv> 47"

definition free_fd :: file_descriptor where
  "free_fd = \<lparr>f_node = 0, f_offset = 0, f_flags = 0, f_in_use = False\<rparr>"

definition vfs_init :: "'a vfs_scheme \<Rightarrow> 'a vfs_scheme" where
  "vfs_init s = s\<lparr>fd_table := replicate VFS_MAX_OPEN_FILES free_fd,
     mount_table := replicate VFS_MAX_MOUNTS \<lparr>m_path = [], m_root = 0, m_in_use = False\<rparr>, vfs_root := 0\<rparr>"

definition vfs_get_root :: "'a vfs_scheme \<Rightarrow> u32" where
  "vfs_get_root s = vfs_root s"

text \<open>The table of operations a node points to; DoriFS has all of them.\<close>

fun op_open :: "ops_table \<Rightarrow> u32 \<Rightarrow> u32 \<Rightarrow> 'a fsys_scheme \<Rightarrow> int" where
  "op_open Dorifs_Ops = dorifs_vfs_open"
fun op_close :: "ops_table \<Rightarrow> u32 \<Rightarrow> 'a fsys_scheme \<Rightarrow> int" where
  "op_close Dorifs_Ops = dorifs_vfs_close"
fun op_read :: "ops_table \<Rightarrow> u32 \<Rightarrow> u32 \<Rightarrow> u32 \<Rightarrow> 'a fsys_scheme \<Rightarrow> u8 list option option" where
  "op_read Dorifs_Ops = dorifs_vfs_read"
fun op_write :: "ops_table \<Rightarrow> u32 \<Rightarrow> u32 \<Rightarrow> u32 \<Rightarrow> u8 list \<Rightarrow> 'a fsys_scheme \<Rightarrow>
    (u32 option \<times> 'a fsys_scheme) option" where
  "op_write Dorifs_Ops = dorifs_vfs_write"
fun op_readdir :: "ops_table \<Rightarrow> u32 \<Rightarrow> u32 \<Rightarrow> 'a fsys_scheme \<Rightarrow> vfs_dirent option option" where
  "op_readdir Dorifs_Ops = dorifs_vfs_readdir"
fun op_finddir :: "ops_table \<Rightarrow> u32 \<Rightarrow> u8 list \<Rightarrow> 'a fsys_scheme \<Rightarrow> (u32 \<times> 'a fsys_scheme) option" where
  "op_finddir Dorifs_Ops = dorifs_vfs_finddir"
fun op_create :: "ops_table \<Rightarrow> u32 \<Rightarrow> u8 list \<Rightarrow> u32 \<Rightarrow> 'a fsys_scheme \<Rightarrow> (int \<times> 'a fsys_scheme) option" where
  "op_create Dorifs_Ops = dorifs_vfs_create"
fun op_unlink :: "ops_table \<Rightarrow> u32 \<Rightarrow> u8 list \<Rightarrow> 'a fsys_scheme \<Rightarrow> (int \<times> 'a fsys_scheme) option" where
  "op_unlink Dorifs_Ops = dorifs_vfs_unlink"
fun op_stat :: "ops_table \<Rightarrow> u32 \<Rightarrow> 'a fsys_scheme \<Rightarrow> vfs_stat option" where
  "op_stat Dorifs_Ops = dorifs_vfs_stat"
fun op_truncate :: "ops_table \<Rightarrow> u32 \<Rightarrow> u32 \<Rightarrow> 'a fsys_scheme \<Rightarrow> (int \<times> 'a fsys_scheme) option" where
  "op_truncate Dorifs_Ops = dorifs_vfs_truncate"
fun op_symlink :: "ops_table \<Rightarrow> u32 \<Rightarrow> u8 list \<Rightarrow> u8 list \<Rightarrow> 'a fsys_scheme \<Rightarrow>
    (int \<times> 'a fsys_scheme) option" where
  "op_symlink Dorifs_Ops = dorifs_vfs_symlink"
fun op_readlink :: "ops_table \<Rightarrow> u32 \<Rightarrow> u32 \<Rightarrow> 'a fsys_scheme \<Rightarrow> u8 list option option" where
  "op_readlink Dorifs_Ops = dorifs_vfs_readlink"

section \<open>Paths\<close>

text \<open>The next component, of at most \<open>maxlen - 1\<close> bytes, and the rest of the path after it.\<close>

definition path_next_component :: "u8 list \<Rightarrow> nat \<Rightarrow> u8 list \<times> u8 list" where
  "path_next_component path maxlen =
     (let path = dropWhile (\<lambda>c. c = SLASH) path;
          component = take (maxlen - 1) (takeWhile (\<lambda>c. c \<noteq> SLASH) path)
      in (component, drop (length component) path))"

definition vfs_check_mount :: "u32 \<Rightarrow> 'a vfs_scheme \<Rightarrow> u32" where
  "vfs_check_mount node s =
     (if node \<noteq> 0 \<and> n_type (nodes s node) AND VFS_MOUNTPOINT \<noteq> 0 \<and> n_mount (nodes s node) \<noteq> 0
      then n_mount (nodes s node) else node)"

definition strip_slash :: "u8 list \<Rightarrow> u8 list" where
  "strip_slash path = (case path of [] \<Rightarrow> [] | c # cs \<Rightarrow> if c = SLASH then cs else path)"

text \<open>
  The loop of \<open>vfs_resolve_path\<close> from the node \<open>current\<close>. A symbolic link is resolved by the whole
  function, from the root; links that lead to each other recurse for ever.
\<close>

partial_function (option) resolve_from :: "u32 \<Rightarrow> u8 list \<Rightarrow> 'a vfs_scheme \<Rightarrow> (u32 \<times> 'a vfs_scheme) option" where
  "resolve_from current path s =
     (if path = [] then Some (current, s)
      else let (component, path) = path_next_component path 256
      in if component = [] then Some (current, s)
      else if n_type (nodes s current) AND VFS_DIRECTORY = 0 then Some (0, s)
      else case n_ops (nodes s current) of None \<Rightarrow> Some (0, s)
      | Some ops \<Rightarrow> do {
          (child, s) \<leftarrow> op_finddir ops current component s;
          if child = 0 then Some (0, s)
          else let child = vfs_check_mount child s
          in if n_type (nodes s child) AND VFS_SYMLINK = 0 then resolve_from child path s
          else case n_ops (nodes s child) of None \<Rightarrow> Some (0, s)
          | Some ops \<Rightarrow> do {
              target \<leftarrow> op_readlink ops child 256 s;
              case target of None \<Rightarrow> Some (0, s)
              | Some target \<Rightarrow>
                  if target = [] then Some (0, s)
                  else if 256 \<le> length target then None
                  else do {
                    (child, s) \<leftarrow> (if vfs_root s = 0 then Some (0, s)
                                   else resolve_from (vfs_check_mount (vfs_root s) s) (strip_slash target) s);
                    if child = 0 then Some (0, s) else resolve_from child path s } } })"

definition vfs_resolve_path :: "u8 list \<Rightarrow> 'a vfs_scheme \<Rightarrow> (u32 \<times> 'a vfs_scheme) option" where
  "vfs_resolve_path path s =
     (if vfs_root s = 0 then Some (0, s)
      else resolve_from (vfs_check_mount (vfs_root s) s) (strip_slash path) s)"

text \<open>
  Splitting a path at its last slash, into the path of the parent and the name: the common first part of
  \<open>vfs_create\<close>, \<open>vfs_unlink\<close> and \<open>vfs_symlink\<close>. The path is cut to 255 bytes first.
\<close>

fun find_last_slash :: "u8 list \<Rightarrow> int \<Rightarrow> int \<Rightarrow> int" where
  "find_last_slash [] i last_slash = last_slash"
| "find_last_slash (c # cs) i last_slash = find_last_slash cs (i + 1) (if c = SLASH then i else last_slash)"

definition split_parent :: "u8 list \<Rightarrow> u8 list \<times> u8 list" where
  "split_parent path =
     (let parent_path = take 255 path;
          last_slash = find_last_slash parent_path 0 (- 1)
      in if last_slash < 0 then ([SLASH], parent_path)
         else if last_slash = 0 then ([SLASH], drop 1 parent_path)
         else (take (nat last_slash) parent_path, drop (nat last_slash + 1) parent_path))"

section \<open>Operations on paths\<close>

definition vfs_create :: "u8 list \<Rightarrow> u32 \<Rightarrow> 'a vfs_scheme \<Rightarrow> (int \<times> 'a vfs_scheme) option" where
  "vfs_create path ty s =
     (let (parent_path, name) = split_parent path
      in do { (parent, s) \<leftarrow> vfs_resolve_path parent_path s;
              if parent = 0 \<or> n_type (nodes s parent) AND VFS_DIRECTORY = 0 then Some (- 1, s)
              else case n_ops (nodes s parent) of None \<Rightarrow> Some (- 1, s)
                   | Some ops \<Rightarrow> op_create ops parent name ty s })"

definition vfs_mkdir :: "u8 list \<Rightarrow> 'a vfs_scheme \<Rightarrow> (int \<times> 'a vfs_scheme) option" where
  "vfs_mkdir path s = vfs_create path VFS_DIRECTORY s"

definition vfs_unlink :: "u8 list \<Rightarrow> 'a vfs_scheme \<Rightarrow> (int \<times> 'a vfs_scheme) option" where
  "vfs_unlink path s =
     (let (parent_path, name) = split_parent path
      in do { (parent, s) \<leftarrow> vfs_resolve_path parent_path s;
              if parent = 0 \<or> n_type (nodes s parent) AND VFS_DIRECTORY = 0 then Some (- 1, s)
              else case n_ops (nodes s parent) of None \<Rightarrow> Some (- 1, s)
                   | Some ops \<Rightarrow> op_unlink ops parent name s })"

definition vfs_symlink :: "u8 list \<Rightarrow> u8 list \<Rightarrow> 'a vfs_scheme \<Rightarrow> (int \<times> 'a vfs_scheme) option" where
  "vfs_symlink target linkpath s =
     (let (parent_path, name) = split_parent linkpath
      in do { (parent, s) \<leftarrow> vfs_resolve_path parent_path s;
              if parent = 0 \<or> n_type (nodes s parent) AND VFS_DIRECTORY = 0 then Some (- 1, s)
              else case n_ops (nodes s parent) of None \<Rightarrow> Some (- 1, s)
                   | Some ops \<Rightarrow> op_symlink ops parent name target s })"

definition vfs_stat :: "u8 list \<Rightarrow> 'a vfs_scheme \<Rightarrow> (vfs_stat option \<times> 'a vfs_scheme) option" where
  "vfs_stat path s =
     do { (node, s) \<leftarrow> vfs_resolve_path path s;
          if node = 0 then Some (None, s)
          else case n_ops (nodes s node) of None \<Rightarrow> Some (None, s)
               | Some ops \<Rightarrow> Some (op_stat ops node s, s) }"

definition vfs_readdir :: "u8 list \<Rightarrow> u32 \<Rightarrow> 'a vfs_scheme \<Rightarrow> (vfs_dirent option \<times> 'a vfs_scheme) option" where
  "vfs_readdir path index s =
     do { (node, s) \<leftarrow> vfs_resolve_path path s;
          if node = 0 \<or> n_type (nodes s node) AND VFS_DIRECTORY = 0 then Some (None, s)
          else case n_ops (nodes s node) of None \<Rightarrow> Some (None, s)
               | Some ops \<Rightarrow> do { d \<leftarrow> op_readdir ops node index s; Some (d, s) } }"

definition vfs_readlink :: "u8 list \<Rightarrow> u32 \<Rightarrow> 'a vfs_scheme \<Rightarrow> (u8 list option \<times> 'a vfs_scheme) option" where
  "vfs_readlink path bufsiz s =
     do { (node, s) \<leftarrow> vfs_resolve_path path s;
          if node = 0 then Some (None, s)
          else if n_type (nodes s node) AND VFS_SYMLINK = 0 then Some (None, s)
          else case n_ops (nodes s node) of None \<Rightarrow> Some (None, s)
               | Some ops \<Rightarrow> do { t \<leftarrow> op_readlink ops node bufsiz s; Some (t, s) } }"

section \<open>File descriptors\<close>

text \<open>The lowest free descriptor, \<open>- 1\<close> if all are in use.\<close>

fun fd_alloc_from :: "file_descriptor list \<Rightarrow> int \<Rightarrow> int" where
  "fd_alloc_from [] i = - 1"
| "fd_alloc_from (d # ds) i = (if \<not> f_in_use d then i else fd_alloc_from ds (i + 1))"

definition fd_alloc :: "'a vfs_scheme \<Rightarrow> int" where
  "fd_alloc s = fd_alloc_from (fd_table s) 0"

definition fd_open :: "int \<Rightarrow> 'a vfs_scheme \<Rightarrow> bool" where
  "fd_open fd s \<longleftrightarrow> \<not> (fd < 0 \<or> int VFS_MAX_OPEN_FILES \<le> fd \<or> \<not> f_in_use (fd_table s ! nat fd))"

definition upd_fd :: "int \<Rightarrow> (file_descriptor \<Rightarrow> file_descriptor) \<Rightarrow> 'a vfs_scheme \<Rightarrow> 'a vfs_scheme" where
  "upd_fd fd f s = s\<lparr>fd_table := (fd_table s)[nat fd := f (fd_table s ! nat fd)]\<rparr>"

definition vfs_open :: "u8 list \<Rightarrow> u32 \<Rightarrow> 'a vfs_scheme \<Rightarrow> (int \<times> 'a vfs_scheme) option" where
  "vfs_open path flags s =
     do { (node, s) \<leftarrow> vfs_resolve_path path s;
          (node, s) \<leftarrow> (if node = 0 \<and> flags AND VFS_O_CREAT \<noteq> 0
                         then do { (r, s) \<leftarrow> vfs_create path VFS_FILE s;
                                   if r \<noteq> 0 then Some (0, s) else vfs_resolve_path path s }
                         else Some (node, s));
          if node = 0 then Some (- 1, s)
          else let fd = fd_alloc s
          in if fd < 0 then Some (- 1, s)
          else if (case n_ops (nodes s node) of None \<Rightarrow> False | Some ops \<Rightarrow> op_open ops node flags s \<noteq> 0)
          then Some (- 1, s)
          else do {
            s \<leftarrow> (case n_ops (nodes s node) of
                     None \<Rightarrow> Some s
                   | Some ops \<Rightarrow> if flags AND VFS_O_TRUNC \<noteq> 0 then map_option snd (op_truncate ops node 0 s) else Some s);
            Some (fd, upd_fd fd (\<lambda>_. \<lparr>f_node = node,
                   f_offset = (if flags AND VFS_O_APPEND \<noteq> 0 then n_size (nodes s node) else 0),
                   f_flags = flags, f_in_use = True\<rparr>) s) } }"

definition vfs_close :: "int \<Rightarrow> 'a vfs_scheme \<Rightarrow> int \<times> 'a vfs_scheme" where
  "vfs_close fd s = (if \<not> fd_open fd s then (- 1, s) else (0, upd_fd fd (\<lambda>_. free_fd) s))"

text \<open>The bytes put into the buffer, \<open>None\<close> for \<open>- 1\<close>.\<close>

definition vfs_read :: "int \<Rightarrow> u32 \<Rightarrow> 'a vfs_scheme \<Rightarrow> (u8 list option \<times> 'a vfs_scheme) option" where
  "vfs_read fd size' s =
     (if \<not> fd_open fd s then Some (None, s)
      else let d = fd_table s ! nat fd
      in if f_node d = 0 then Some (None, s)
      else case n_ops (nodes s (f_node d)) of None \<Rightarrow> Some (None, s)
      | Some ops \<Rightarrow> do {
          r \<leftarrow> op_read ops (f_node d) (f_offset d) size' s;
          case r of None \<Rightarrow> Some (None, s)
          | Some bytes \<Rightarrow> Some (Some bytes, upd_fd fd (\<lambda>d. d\<lparr>f_offset := f_offset d + of_nat (length bytes)\<rparr>) s) })"

definition vfs_write :: "int \<Rightarrow> u8 list \<Rightarrow> u32 \<Rightarrow> 'a vfs_scheme \<Rightarrow> (int \<times> 'a vfs_scheme) option" where
  "vfs_write fd buffer size' s =
     (if \<not> fd_open fd s then Some (- 1, s)
      else let d = fd_table s ! nat fd; node = f_node d
      in if node = 0 then Some (- 1, s)
      else case n_ops (nodes s node) of None \<Rightarrow> Some (- 1, s)
      | Some ops \<Rightarrow>
          let s = (if f_flags d AND VFS_O_APPEND \<noteq> 0
                   then upd_fd fd (\<lambda>d. d\<lparr>f_offset := n_size (nodes s node)\<rparr>) s else s)
          in do {
            (r, s) \<leftarrow> op_write ops node (f_offset (fd_table s ! nat fd)) size' buffer s;
            let bytes = (case r of None \<Rightarrow> - 1 | Some n \<Rightarrow> sint n);
            if bytes \<le> 0 then Some (bytes, s)
            else let s = upd_fd fd (\<lambda>d. d\<lparr>f_offset := f_offset d + of_int bytes\<rparr>) s;
                     offset = f_offset (fd_table s ! nat fd)
            in Some (bytes, if n_size (nodes s node) < offset then upd_node node (\<lambda>n. n\<lparr>n_size := offset\<rparr>) s else s) })"

definition vfs_seek :: "int \<Rightarrow> u32 \<Rightarrow> int \<Rightarrow> 'a vfs_scheme \<Rightarrow> int \<times> 'a vfs_scheme" where
  "vfs_seek fd offset whence s =
     (if \<not> fd_open fd s then (- 1, s)
      else let d = fd_table s ! nat fd
      in if whence = 0 then (0, upd_fd fd (\<lambda>d. d\<lparr>f_offset := offset\<rparr>) s)
      else if whence = 1 then (0, upd_fd fd (\<lambda>d. d\<lparr>f_offset := f_offset d + offset\<rparr>) s)
      else if whence = 2 then (0, upd_fd fd (\<lambda>d. d\<lparr>f_offset := n_size (nodes s (f_node d)) + offset\<rparr>) s)
      else (- 1, s))"

definition vfs_stat_fd :: "int \<Rightarrow> 'a vfs_scheme \<Rightarrow> vfs_stat option" where
  "vfs_stat_fd fd s =
     (if \<not> fd_open fd s then None
      else let node = f_node (fd_table s ! nat fd)
      in if node = 0 then None
      else case n_ops (nodes s node) of None \<Rightarrow> None | Some ops \<Rightarrow> op_stat ops node s)"

section \<open>Mounts\<close>

fun free_mount :: "mount_entry list \<Rightarrow> nat \<Rightarrow> nat option" where
  "free_mount [] i = None"
| "free_mount (e # es) i = (if \<not> m_in_use e then Some i else free_mount es (i + 1))"

definition vfs_mount :: "u8 list \<Rightarrow> u32 \<Rightarrow> 'a vfs_scheme \<Rightarrow> (int \<times> 'a vfs_scheme) option" where
  "vfs_mount path fs_root s =
     (if fs_root = 0 then Some (- 1, s)
      else if path = [SLASH] then Some (0, s\<lparr>vfs_root := fs_root\<rparr>)
      else case free_mount (mount_table s) 0 of None \<Rightarrow> Some (- 1, s)
      | Some slot \<Rightarrow> do {
          (mount_point, s) \<leftarrow> vfs_resolve_path path s;
          if mount_point = 0 \<or> n_type (nodes s mount_point) AND VFS_DIRECTORY = 0 then Some (- 1, s)
          else let s = upd_node mount_point (\<lambda>n. n\<lparr>n_type := n_type n OR VFS_MOUNTPOINT, n_mount := fs_root\<rparr>) s;
                   s = upd_node fs_root (\<lambda>n. n\<lparr>n_parent := n_parent (nodes s mount_point)\<rparr>) s
          in Some (0, s\<lparr>mount_table := (mount_table s)[slot := \<lparr>m_path = take 255 path, m_root = fs_root, m_in_use = True\<rparr>]\<rparr>) })"

fun find_mount :: "mount_entry list \<Rightarrow> u8 list \<Rightarrow> nat \<Rightarrow> nat option" where
  "find_mount [] path i = None"
| "find_mount (e # es) path i = (if m_in_use e \<and> m_path e = path then Some i else find_mount es path (i + 1))"

definition vfs_umount :: "u8 list \<Rightarrow> 'a vfs_scheme \<Rightarrow> (int \<times> 'a vfs_scheme) option" where
  "vfs_umount path s =
     (case find_mount (mount_table s) path 0 of None \<Rightarrow> Some (- 1, s)
      | Some i \<Rightarrow> do {
          (mount_point, s) \<leftarrow> vfs_resolve_path path s;
          let s = (if mount_point = 0 then s
                   else upd_node mount_point (\<lambda>n. n\<lparr>n_type := n_type n AND NOT VFS_MOUNTPOINT, n_mount := 0\<rparr>) s);
          Some (0, s\<lparr>mount_table := (mount_table s)[i := (mount_table s ! i)\<lparr>m_in_use := False\<rparr>]\<rparr>) })"

end
