(* ===== verification/Vfs_Paths.thy ===== *)
theory Vfs_Paths
  imports Vfs Dorifs_Frame Dorifs_Files
begin

text \<open>
  Path resolution against a reference: the list of components of a path, and a walk along it one
  directory at a time.
\<close>

section \<open>Components\<close>

lemma next_component_rest:
  "fst (path_next_component p n) \<noteq> [] \<Longrightarrow> length (snd (path_next_component p n)) < length p"
proof -
  obtain q where q: "dropWhile (\<lambda>c. c = SLASH) p = q" by simp
  let ?c = "take (n - 1) (takeWhile (\<lambda>c. c \<noteq> SLASH) q)"
  assume "fst (path_next_component p n) \<noteq> []"
  then have "?c \<noteq> []" unfolding path_next_component_def Let_def q fst_conv .
  then have "0 < length ?c" unfolding length_greater_0_conv .
  moreover have "length ?c \<le> length q" using length_takeWhile_le [of "\<lambda>c. c \<noteq> SLASH" q] by simp
  moreover have "length q \<le> length p" using length_dropWhile_le [of "\<lambda>c. c = SLASH" p] q by simp
  ultimately have "length (drop (length ?c) q) < length p" unfolding length_drop by linarith
  then show ?thesis unfolding path_next_component_def Let_def q snd_conv .
qed

function components :: "u8 list \<Rightarrow> u8 list list" where
  "components path =
     (let (c, rest) = path_next_component path 256 in if c = [] then [] else c # components rest)"
  by pat_completeness auto
termination
  by (relation "measure length") (auto dest: next_component_rest simp: prod_eq_iff)

declare components.simps [simp del]

lemma components_Nil [simp]: "components [] = []"
  by (subst components.simps) (simp add: path_next_component_def)

lemma components_Slash [simp]: "components (SLASH # p) = components p"
  by (subst (1 2) components.simps) (simp add: path_next_component_def)

lemma components_strip [simp]: "components (strip_slash p) = components p"
  by (cases p) (auto simp: strip_slash_def)

lemma next_component_append:
  assumes "path_next_component a n = (c, rest)" "c \<noteq> []"
  shows "path_next_component (a @ SLASH # b) n = (c, rest @ SLASH # b)"
proof -
  obtain q where q: "dropWhile (\<lambda>c. c = SLASH) a = q" by simp
  have c: "c = take (n - 1) (takeWhile (\<lambda>c. c \<noteq> SLASH) q)" "rest = drop (length c) q"
    using assms(1) unfolding path_next_component_def Let_def q by (auto simp only: prod.inject)
  then have "q \<noteq> []" using assms(2) by auto
  then have d: "dropWhile (\<lambda>c. c = SLASH) (a @ SLASH # b) = q @ SLASH # b"
    unfolding q [symmetric] by (induction a) auto
  have t: "takeWhile (\<lambda>c. c \<noteq> SLASH) (q @ SLASH # b) = takeWhile (\<lambda>c. c \<noteq> SLASH) q"
    by (induction q) simp_all
  have "length c \<le> length q" unfolding c(1) using length_takeWhile_le [of "\<lambda>c. c \<noteq> SLASH" q] by simp
  then show ?thesis unfolding path_next_component_def d Let_def t using c by simp
qed

lemma next_component_Nil: "fst (path_next_component a 256) = [] \<Longrightarrow> dropWhile (\<lambda>c. c = SLASH) a = []"
  by (cases "dropWhile (\<lambda>c. c = SLASH) a") (auto simp: path_next_component_def Let_def dropWhile_eq_Cons_conv)

lemma components_slashes: "dropWhile (\<lambda>c. c = SLASH) a = [] \<Longrightarrow> components (a @ b) = components b"
  by (induction a) (auto split: if_splits)

lemma components_append: "components (a @ SLASH # b) = components a @ components b"
proof (induction a rule: components.induct)
  case (1 a)
  obtain c rest where p: "path_next_component a 256 = (c, rest)" by force
  show ?case
  proof (cases "c = []")
    case True
    then have d: "dropWhile (\<lambda>c. c = SLASH) a = []" using next_component_Nil [of a] p by simp
    then have "components a = []" using components_slashes [of a "[]"] by simp
    then show ?thesis using components_slashes [OF d, of "SLASH # b"] by simp
  next
    case False
    have "components (a @ SLASH # b) = c # components (rest @ SLASH # b)"
      using next_component_append [OF p False] False by (subst components.simps) simp
    moreover have "components a = c # components rest" using p False by (subst components.simps) simp
    ultimately show ?thesis using "1.IH" p False by simp
  qed
qed

lemma components_name: "name \<noteq> [] \<Longrightarrow> SLASH \<notin> set name \<Longrightarrow> length name \<le> 255 \<Longrightarrow> components name = [name]"
proof -
  assume n: "name \<noteq> []" "SLASH \<notin> set name" "length name \<le> 255"
  then have d: "dropWhile (\<lambda>c. c = SLASH) name = name" by (cases name) auto
  have t: "takeWhile (\<lambda>c. c \<noteq> SLASH) name = name" using n(2) by (auto simp: takeWhile_eq_all_conv)
  have "path_next_component name 256 = (name, [])"
    unfolding path_next_component_def d Let_def t using n(3) by simp
  then show ?thesis using n by (subst components.simps) simp
qed

section \<open>Walking\<close>

text \<open>What \<open>vfs_resolve_path\<close> does with the node a lookup gave, with one name, and with a list of names.\<close>

definition follow :: "u32 \<Rightarrow> 'a vfs_scheme \<Rightarrow> (u32 \<times> 'a vfs_scheme) option" where
  "follow node s =
     (if n_type (nodes s node) AND VFS_SYMLINK = 0 then Some (node, s)
      else case n_ops (nodes s node) of None \<Rightarrow> Some (0, s)
      | Some ops \<Rightarrow> do {
          target \<leftarrow> op_readlink ops node 256 s;
          case target of None \<Rightarrow> Some (0, s)
          | Some target \<Rightarrow>
              if target = [] then Some (0, s)
              else if 256 \<le> length target then None else vfs_resolve_path target s })"

definition enter :: "u32 \<Rightarrow> u8 list \<Rightarrow> 'a vfs_scheme \<Rightarrow> (u32 \<times> 'a vfs_scheme) option" where
  "enter dir name s =
     (if n_type (nodes s dir) AND VFS_DIRECTORY = 0 then Some (0, s)
      else case n_ops (nodes s dir) of None \<Rightarrow> Some (0, s)
      | Some ops \<Rightarrow> do {
          (child, s) \<leftarrow> op_finddir ops dir name s;
          if child = 0 then Some (0, s) else follow (vfs_check_mount child s) s })"

primrec walk :: "u32 \<Rightarrow> u8 list list \<Rightarrow> 'a vfs_scheme \<Rightarrow> (u32 \<times> 'a vfs_scheme) option" where
  "walk dir [] s = Some (dir, s)"
| "walk dir (name # names) s =
     do { (child, s) \<leftarrow> enter dir name s; if child = 0 then Some (0, s) else walk child names s }"

lemma check_mount_nonzero: "node \<noteq> 0 \<Longrightarrow> vfs_check_mount node s \<noteq> 0"
  by (simp add: vfs_check_mount_def)

lemma resolve_from_walk: "resolve_from current path s = walk current (components path) s"
proof (induction path arbitrary: current s rule: components.induct)
  case (1 path)
  obtain c rest where p: "path_next_component path 256 = (c, rest)" by force
  show ?case
  proof (cases "c = []")
    case True
    then have "components path = []" using p by (subst components.simps) simp
    then show ?thesis using p True by (subst resolve_from.simps) simp
  next
    case False
    then have "path \<noteq> []" using p by (auto simp: path_next_component_def)
    have comps: "components path = c # components rest" using p False by (subst components.simps) simp
    have IH: "resolve_from d rest t = walk d (components rest) t" for d and t :: "'a vfs_scheme"
      using "1.IH" [OF p [symmetric] refl False] .
    have step: "resolve_from current path s =
        do { (child, s) \<leftarrow> enter current c s; if child = 0 then Some (0, s) else resolve_from child rest s }"
    proof (cases "n_type (nodes s current) AND VFS_DIRECTORY = 0 \<or> n_ops (nodes s current) = None")
      case True
      then show ?thesis
        using \<open>path \<noteq> []\<close> p False by (subst resolve_from.simps) (auto simp: enter_def)
    next
      case dir: False
      then obtain ops where ops: "n_ops (nodes s current) = Some ops" by auto
      show ?thesis
      proof (cases "op_finddir ops current c s")
        case None
        then show ?thesis using \<open>path \<noteq> []\<close> p False dir ops by (subst resolve_from.simps) (simp add: enter_def)
      next
        case (Some r)
        obtain child t where r: "r = (child, t)" by (cases r)
        let ?n = "vfs_check_mount child t"
        have "resolve_from current path s =
          (if child = 0 then Some (0, t)
           else if n_type (nodes t ?n) AND VFS_SYMLINK = 0 then resolve_from ?n rest t
           else case n_ops (nodes t ?n) of None \<Rightarrow> Some (0, t)
           | Some ops \<Rightarrow> do {
               target \<leftarrow> op_readlink ops ?n 256 t;
               case target of None \<Rightarrow> Some (0, t)
               | Some target \<Rightarrow>
                   if target = [] then Some (0, t)
                   else if 256 \<le> length target then None
                   else do { (child, s) \<leftarrow> vfs_resolve_path target t;
                             if child = 0 then Some (0, s) else resolve_from child rest s } })"
          using \<open>path \<noteq> []\<close> p False dir ops Some r
          by (subst resolve_from.simps) (simp add: vfs_resolve_path_def Let_def cong: option.case_cong if_cong)
        also have "\<dots> = do { (child, s) \<leftarrow> enter current c s; if child = 0 then Some (0, s) else resolve_from child rest s }"
          using dir ops Some r check_mount_nonzero [of child t]
          by (auto simp: enter_def follow_def bind_assoc split: option.split Option.bind_split)
        finally show ?thesis .
      qed
    qed
    show ?thesis unfolding comps walk.simps step by (simp add: IH cong: if_cong)
  qed
qed

lemma resolve_walk:
  "vfs_root s \<noteq> 0 \<Longrightarrow> vfs_resolve_path path s = walk (vfs_check_mount (vfs_root s) s) (components path) s"
  by (simp add: vfs_resolve_path_def resolve_from_walk)

lemma walk_append:
  "dir \<noteq> 0 \<Longrightarrow> walk dir (xs @ ys) s = do { (p, s) \<leftarrow> walk dir xs s; if p = 0 then Some (0, s) else walk p ys s }"
proof (induction xs arbitrary: dir s)
  case (Cons x xs)
  show ?case
  proof (cases "enter dir x s")
    case (Some r)
    obtain child t where "r = (child, t)" by (cases r)
    then show ?thesis using Some Cons.IH [of child t] by (cases "child = 0") simp_all
  qed simp
qed simp

text \<open>
  C10: path resolution is compositional. Whatever the state of the tree, resolving a path \<open>a/b\<close> is
  resolving \<open>a\<close> and then, from the node that gives, entering the components of \<open>b\<close> one after the other:
  missing nodes, files in the place of directories, mount points and symbolic links included. Slashes at
  the start, at the end or repeated make no difference, and a last part that is a plain name of at most
  255 bytes is a single lookup.
\<close>

theorem vfs_resolve_compositional:
  fixes s :: "'a vfs_scheme"
  assumes "vfs_root s \<noteq> 0"
  shows "vfs_resolve_path (a @ SLASH # b) s =
      do { (node, s) \<leftarrow> vfs_resolve_path a s; if node = 0 then Some (0, s) else walk node (components b) s } \<and>
    vfs_resolve_path (SLASH # a) s = vfs_resolve_path a s \<and> vfs_resolve_path (a @ [SLASH]) s = vfs_resolve_path a s \<and>
    vfs_resolve_path (a @ [SLASH, SLASH] @ b) s = vfs_resolve_path (a @ SLASH # b) s \<and>
    (b \<noteq> [] \<and> SLASH \<notin> set b \<and> length b \<le> 255 \<longrightarrow>
       vfs_resolve_path (a @ SLASH # b) s =
       do { (node, s) \<leftarrow> vfs_resolve_path a s; if node = 0 then Some (0, s) else enter node b s })"
proof -
  note root = check_mount_nonzero [OF assms]
  have main: "vfs_resolve_path (a @ SLASH # b) s =
      do { (node, s) \<leftarrow> vfs_resolve_path a s; if node = 0 then Some (0, s) else walk node (components b) s }"
    by (simp add: resolve_walk [OF assms] components_append walk_append [OF root])
  have last: "walk node [b] t = enter node b t" for node and t :: "'a vfs_scheme"
  proof (cases "enter node b t")
    case (Some r)
    then show ?thesis by (cases r) simp
  qed simp
  have "vfs_resolve_path (a @ SLASH # b) s =
      do { (node, s) \<leftarrow> vfs_resolve_path a s; if node = 0 then Some (0, s) else enter node b s }"
    if "b \<noteq> [] \<and> SLASH \<notin> set b \<and> length b \<le> 255"
  proof -
    have "components b = [b]" using that by (intro components_name) auto
    then show ?thesis unfolding main by (simp only: last)
  qed
  then show ?thesis
    using main components_append [of a "[]"] components_append [of a "SLASH # b"]
    by (simp add: resolve_walk [OF assms] components_append)
qed

section \<open>A small tree\<close>

text \<open>The small filesystem with its (empty) inode 1 at the root.\<close>

definition demo_vfs :: vfs where
  "demo_vfs = fsys.extend demo_fs (vfs.fields 1 (replicate 64 free_fd)
     (replicate 8 \<lparr>m_path = [], m_root = 0, m_in_use = False\<rparr>))"

theorem vfs_resolve_compositional_witness:
  "vfs_resolve_path [97, 47, 47, 98] demo_vfs = vfs_resolve_path ([97] @ 47 # [98]) demo_vfs"
  using vfs_resolve_compositional [of demo_vfs "[97]" "[98]"]
  by (simp add: demo_vfs_def vfs.defs fsys.defs)

section \<open>Fresh nodes\<close>

lemma more_fields:
  fixes s :: "'a vfs_scheme"
  assumes "fsys.more s' = fsys.more s"
  shows "vfs_root s' = vfs_root s" "fd_table s' = fd_table s" "mount_table s' = mount_table s"
  using assms by (cases s; cases s'; simp)+

text \<open>
  What a lookup changes: the heap, and the node it puts there. A node that is already there keeps the
  absence of a mount, because a new one has none.
\<close>

definition looked_up :: "'a fsys_scheme \<Rightarrow> u32 \<Rightarrow> 'a fsys_scheme \<Rightarrow> bool" where
  "looked_up s q s' \<longleftrightarrow> heap_inv (fs_heap s') \<and> live (fs_heap s) \<subseteq> live (fs_heap s') \<and>
     fsys.more s' = fsys.more s \<and>
     (\<forall>x. n_mount (nodes s x) = 0 \<longrightarrow> n_mount (nodes s' x) = 0) \<and>
     (q \<noteq> 0 \<longrightarrow> n_mount (nodes s' q) = 0 \<and> q \<notin> fst ` live (fs_heap s))"

lemma looked_up_nothing: "heap_inv (fs_heap s) \<Longrightarrow> looked_up s 0 s"
  by (simp add: looked_up_def)

lemma make_node_looked_up:
  assumes "heap_inv (fs_heap s)" "dorifs_make_vfs_node ino s = Some (q, s')"
  shows "looked_up s q s'"
proof (cases "dorifs_read_inode ino s")
  case None
  then show ?thesis using assms by (simp add: dorifs_make_vfs_node_def looked_up_nothing)
next
  case (Some i)
  then obtain p h where k: "kmalloc 288 (fs_heap s) = Some (p, h)"
    using assms(2) by (auto simp: dorifs_make_vfs_node_def bind_eq_Some_conv)
  note inv = kheap.malloc_inv [OF assms(1) k]
  show ?thesis
  proof (cases "p = 0")
    case True
    then show ?thesis
      using assms Some k inv kheap.malloc_null [of "fs_heap s" 288 h]
      by (auto simp: dorifs_make_vfs_node_def looked_up_def Let_def)
  next
    case False
    obtain l where l: "live (fs_heap s) \<subseteq> live h" "\<forall>(b, m) \<in> live (fs_heap s). unat p + l < unat b \<or> unat b + m < unat p"
      using kheap.malloc_fresh [OF assms(1) k False] by blast
    then have "p \<notin> fst ` live (fs_heap s)" by force
    then show ?thesis
      using assms(2) Some k inv False l(1)
      by (auto simp: dorifs_make_vfs_node_def looked_up_def Let_def upd_node_def zero_node_def)
  qed
qed

lemma finddir_looked_up:
  assumes "heap_inv (fs_heap s)" "op_finddir ops p name s = Some (q, s')"
  shows "looked_up s q s'"
  using assms(2) looked_up_nothing [OF assms(1)] make_node_looked_up [OF assms(1)]
  by (cases ops) (auto simp: dorifs_vfs_finddir_def bind_eq_Some_conv split: option.splits if_splits)

text \<open>The same of a whole resolution that starts at a node without a mount.\<close>

definition resolved :: "u32 \<Rightarrow> 'a vfs_scheme \<Rightarrow> u32 \<Rightarrow> 'a vfs_scheme \<Rightarrow> bool" where
  "resolved current s q s' \<longleftrightarrow> heap_inv (fs_heap s') \<and> live (fs_heap s) \<subseteq> live (fs_heap s') \<and>
     fsys.more s' = fsys.more s \<and>
     (\<forall>x. n_mount (nodes s x) = 0 \<longrightarrow> n_mount (nodes s' x) = 0) \<and>
     (q \<noteq> 0 \<longrightarrow> n_mount (nodes s' q) = 0 \<and> (q = current \<or> q = vfs_root s \<or> q \<notin> fst ` live (fs_heap s)))"

lemma resolved_step:
  assumes "looked_up s child t" "resolved child t q s'" "child \<noteq> 0"
  shows "resolved current s q s'"
proof -
  have root: "vfs_root t = vfs_root s" using assms(1) more_fields(1) [of t s] by (simp add: looked_up_def)
  have sub: "fst ` live (fs_heap s) \<subseteq> fst ` live (fs_heap t)" using assms(1) by (auto simp: looked_up_def)
  show ?thesis using assms sub unfolding resolved_def looked_up_def root by (auto simp: subset_iff)
qed

lemma resolved_link:
  assumes "looked_up s child t" "resolved (vfs_root t) t c2 u" "resolved c2 u q s'" "c2 \<noteq> 0"
  shows "resolved current s q s'"
proof -
  have root: "vfs_root t = vfs_root s" "vfs_root u = vfs_root s"
    using assms(1,2) more_fields(1) [of t s] more_fields(1) [of u s] by (simp_all add: looked_up_def resolved_def)
  have sub: "fst ` live (fs_heap s) \<subseteq> fst ` live (fs_heap t)" "fst ` live (fs_heap t) \<subseteq> fst ` live (fs_heap u)"
    using assms(1,2) by (auto simp: looked_up_def resolved_def)
  show ?thesis using assms sub unfolding resolved_def looked_up_def root by (auto simp: subset_iff)
qed

lemma resolved_fail: "looked_up s child t \<Longrightarrow> resolved current s 0 t"
  by (simp add: looked_up_def resolved_def)

text \<open>Nodes a resolution may start from.\<close>

definition start_ok :: "u32 \<Rightarrow> 'a vfs_scheme \<Rightarrow> bool" where
  "start_ok current s \<longleftrightarrow> heap_inv (fs_heap s) \<and> vfs_root s \<noteq> 0 \<and> n_mount (nodes s (vfs_root s)) = 0 \<and>
     n_mount (nodes s current) = 0"

lemma start_ok_looked_up: "looked_up s child t \<Longrightarrow> start_ok current s \<Longrightarrow> child \<noteq> 0 \<Longrightarrow> start_ok child t"
  using more_fields(1) [of t s] by (auto simp: looked_up_def start_ok_def)

lemma start_ok_resolved: "resolved current s q t \<Longrightarrow> start_ok current s \<Longrightarrow> q \<noteq> 0 \<Longrightarrow> start_ok q t"
  using more_fields(1) [of t s] by (auto simp: resolved_def start_ok_def)

lemma start_ok_root: "start_ok current s \<Longrightarrow> start_ok (vfs_root s) s"
  by (simp add: start_ok_def)

text \<open>The part of a round after the lookup, and that it resolves if the recursive calls do.\<close>

definition after_lookup :: "(u32 \<Rightarrow> u8 list \<Rightarrow> 'a vfs_scheme \<Rightarrow> (u32 \<times> 'a vfs_scheme) option) \<Rightarrow>
    u8 list \<Rightarrow> u32 \<Rightarrow> 'a vfs_scheme \<Rightarrow> (u32 \<times> 'a vfs_scheme) option" where
  "after_lookup resolve rest child t =
     (if n_type (nodes t child) AND VFS_SYMLINK = 0 then resolve child rest t
      else case n_ops (nodes t child) of None \<Rightarrow> Some (0, t)
      | Some ops \<Rightarrow> do {
          target \<leftarrow> op_readlink ops child 256 t;
          case target of None \<Rightarrow> Some (0, t)
          | Some target \<Rightarrow>
              if target = [] then Some (0, t)
              else if 256 \<le> length target then None
              else do {
                (child, s) \<leftarrow> (if vfs_root t = 0 then Some (0, t)
                               else resolve (vfs_check_mount (vfs_root t) t) (strip_slash target) t);
                if child = 0 then Some (0, s) else resolve child rest s } })"

lemma after_lookup_link:
  assumes "after_lookup resolve rest child t = Some r" "n_type (nodes t child) AND VFS_SYMLINK \<noteq> 0" "r \<noteq> (0, t)"
  obtains target c2 u where "resolve (vfs_check_mount (vfs_root t) t) (strip_slash target) t = Some (c2, u)"
    "(if c2 = 0 then Some (0, u) else resolve c2 rest u) = Some r"
proof (cases "n_ops (nodes t child)")
  case None
  then show ?thesis using assms by (simp add: after_lookup_def)
next
  case ops: (Some ops)
  show ?thesis
  proof (cases "op_readlink ops child 256 t")
    case None
    then show ?thesis using assms ops by (simp add: after_lookup_def)
  next
    case (Some x)
    show ?thesis
    proof (cases x)
      case None
      then show ?thesis using assms ops Some by (simp add: after_lookup_def)
    next
      case tg: (Some target)
      let ?go = "if vfs_root t = 0 then Some (0, t) else resolve (vfs_check_mount (vfs_root t) t) (strip_slash target) t"
      have "?go \<bind> (\<lambda>(child, s). if child = 0 then Some (0, s) else resolve child rest s) = Some r"
        using assms ops Some tg by (simp add: after_lookup_def split: if_splits)
      then obtain c2 u where "?go = Some (c2, u)" "(if c2 = 0 then Some (0, u) else resolve c2 rest u) = Some r"
        by (cases ?go) auto
      then show ?thesis using assms(3) that by (auto split: if_splits)
    qed
  qed
qed

lemma resolved_tail:
  fixes s t :: "'a vfs_scheme"
  assumes IH: "\<And>c p (s :: 'a vfs_scheme) r. resolve c p s = Some r \<Longrightarrow> start_ok c s \<longrightarrow> resolved c s (fst r) (snd r)"
    and up: "looked_up s child t" and ok0: "start_ok current s"
    and null: "child = 0 \<Longrightarrow> r = (0, t)"
    and body: "child \<noteq> 0 \<Longrightarrow> after_lookup resolve rest child t = Some r"
  shows "resolved current s (fst r) (snd r)"
proof (cases "child = 0 \<or> r = (0, t)")
  case True
  then show ?thesis using null resolved_fail [OF up] by auto
next
  case False
  then have child: "child \<noteq> 0" by simp
  note ok = start_ok_looked_up [OF up ok0 child]
  show ?thesis
  proof (cases "n_type (nodes t child) AND VFS_SYMLINK = 0")
    case True
    then have "resolve child rest t = Some r" using body [OF child] by (simp add: after_lookup_def)
    then show ?thesis using resolved_step [OF up _ child] IH ok by blast
  next
    case link: False
    have root: "vfs_check_mount (vfs_root t) t = vfs_root t" "vfs_root t \<noteq> 0"
      using ok by (auto simp: start_ok_def vfs_check_mount_def)
    obtain target c2 u where go: "resolve (vfs_root t) (strip_slash target) t = Some (c2, u)"
      "(if c2 = 0 then Some (0, u) else resolve c2 rest u) = Some r"
      using after_lookup_link [OF body [OF child] link] root False by metis
    have res: "resolved (vfs_root t) t c2 u" using IH [OF go(1)] start_ok_root [OF ok] by simp
    show ?thesis
    proof (cases "c2 = 0")
      case True
      have "resolved child t 0 u" using res True by (simp add: resolved_def)
      then show ?thesis using go(2) True resolved_step [OF up _ child] by auto
    next
      case c2: False
      then have "resolved c2 u (fst r) (snd r)"
        using IH [of c2 rest u r] go(2) start_ok_resolved [OF res start_ok_root [OF ok] c2] by simp
      then show ?thesis using resolved_link [OF up res _ c2] by blast
    qed
  qed
qed

lemma resolve_from_fresh:
  fixes s :: "'a vfs_scheme"
  assumes "resolve_from current path s = Some r" "start_ok current s"
  shows "resolved current s (fst r) (snd r)"
proof -
  have "start_ok current s \<longrightarrow> resolved current s (fst r) (snd r)"
  proof (rule resolve_from.raw_induct
      [where P = "\<lambda>current path s r. start_ok current s \<longrightarrow> resolved current s (fst r) (snd r)", OF _ assms(1)], rule impI, goal_cases)
    case (1 resolve current path s r)
    note IH = 1(1) and body = 1(2) and ok0 = 1(3)
    obtain c rest where p: "path_next_component path 256 = (c, rest)" by force
    show ?case
    proof (cases "path = [] \<or> c = [] \<or> n_type (nodes s current) AND VFS_DIRECTORY = 0 \<or> n_ops (nodes s current) = None")
      case True
      have "resolved current s current s" "resolved current s 0 s"
        using ok0 by (simp_all add: start_ok_def resolved_def)
      then show ?thesis using body p True by (auto split: if_splits)
    next
      case False
      then obtain ops child t where ops: "n_ops (nodes s current) = Some ops"
        and look: "op_finddir ops current c s = Some (child, t)"
        using body p by (auto simp: bind_eq_Some_conv)
      have up: "looked_up s child t" using finddir_looked_up [OF _ look] ok0 by (simp add: start_ok_def)
      then have n: "vfs_check_mount child t = child" by (auto simp: looked_up_def vfs_check_mount_def)
      have round: "path \<noteq> []" "c \<noteq> []" "n_type (nodes s current) AND VFS_DIRECTORY \<noteq> 0" using False by simp_all
      show ?thesis
      proof (rule resolved_tail [where resolve = resolve and rest = rest, OF IH up ok0])
        show "r = (0, t)" if "child = 0"
          using body round p ops look that by simp
        show "after_lookup resolve rest child t = Some r" if "child \<noteq> 0"
          using body round p ops look n that
          by (simp add: Let_def after_lookup_def split del: if_split cong: if_cong option.case_cong)
      qed
    qed
  qed
  then show ?thesis using assms(2) by blast
qed

lemma mount_state:
  fixes s :: "'a vfs_scheme"
  assumes "vfs_mount path m s = Some (0, s1)" "path \<noteq> [SLASH]" "start_ok (vfs_root s) s"
  shows "m \<noteq> 0 \<and> vfs_root s1 = vfs_root s \<and> heap_inv (fs_heap s1) \<and> live (fs_heap s) \<subseteq> live (fs_heap s1)"
proof -
  from assms(1,2) obtain mp t where r: "vfs_resolve_path path s = Some (mp, t)" and m: "m \<noteq> 0"
    and s1: "vfs_root s1 = vfs_root t" "fs_heap s1 = fs_heap t"
    by (auto simp: vfs_mount_def bind_eq_Some_conv Let_def upd_node_def split: if_splits option.splits)
  have "resolved (vfs_root s) s mp t"
    using r resolve_from_fresh [of "vfs_root s" "strip_slash path" s "(mp, t)"] assms(3)
    by (auto simp: vfs_resolve_path_def start_ok_def vfs_check_mount_def)
  then show ?thesis using m s1 more_fields(1) [of t s] by (auto simp: resolved_def)
qed

text \<open>
  Mounting a filesystem anywhere but at the root has no effect. As long as the mount point is not the
  root node itself, no path resolves to the root \<open>m\<close> of the mounted filesystem afterwards, not even
  the one it was mounted at: every node but the root is allocated anew by each lookup, and the mark that
  \<open>vfs_mount\<close> leaves is on a node no later lookup returns.
\<close>

theorem vfs_mount_unseen:
  fixes s :: "'a vfs_scheme"
  assumes "heap_inv (fs_heap s)" "vfs_root s \<noteq> 0" "n_mount (nodes s (vfs_root s)) = 0"
    and "m \<in> fst ` live (fs_heap s)" "m \<noteq> vfs_root s"
    and "vfs_mount path m s = Some (0, s1)" "path \<noteq> [SLASH]" "n_mount (nodes s1 (vfs_root s)) = 0"
    and "vfs_resolve_path path' s1 = Some (q, s2)"
  shows "q \<noteq> m"
proof -
  have "start_ok (vfs_root s) s" using assms(1-3) by (simp add: start_ok_def)
  note st = mount_state [OF assms(6,7) this]
  have ok: "start_ok (vfs_root s1) s1" using st assms(2,8) by (simp add: start_ok_def)
  then have "resolved (vfs_root s1) s1 q s2"
    using assms(9) resolve_from_fresh [of "vfs_root s1" "strip_slash path'" s1 "(q, s2)"]
    by (auto simp: vfs_resolve_path_def start_ok_def vfs_check_mount_def)
  then have "q = 0 \<or> q = vfs_root s \<or> q \<notin> fst ` live (fs_heap s)" using st by (auto simp: resolved_def)
  then show ?thesis using st assms(4,5) by auto
qed

text \<open>
  A tree with one directory, \<open>/a\<close>: inodes 1 and 2, and the entry in block 3. Two regions of the heap are
  in use, the first for the root node.
\<close>

definition root_dir :: inode where
  "root_dir = zero_inode\<lparr>i_type := DORIFS_TYPE_DIR, i_size := 262, i_direct := 3 # replicate 11 0\<rparr>"

definition sub_dir :: inode where
  "sub_dir = zero_inode\<lparr>i_type := DORIFS_TYPE_DIR\<rparr>"

definition entry_block :: "u8 list" where
  "entry_block = blit 0 (encode_dirent (make_dirent 2 2 [97])) zero_block"

definition tree_fs :: fsys where
  "tree_fs = put_inode 2 sub_dir (put_inode 1 root_dir (put_block 3 entry_block demo_fs))"

definition tree_heap :: heap where
  "tree_heap = snd (the (kmalloc 288 (snd (the (kmalloc 288 (heap_init blank_mem))))))"

definition tree_vfs :: vfs where
  "tree_vfs = fsys.extend (tree_fs\<lparr>fs_heap := tree_heap,
       nodes := (\<lambda>p. zero_node\<lparr>n_inode := 1, n_type := VFS_DIRECTORY, n_ops := Some Dorifs_Ops\<rparr>)\<rparr>)
     (vfs.fields 0x20000C (replicate 64 free_fd) (replicate 8 \<lparr>m_path = [], m_root = 0, m_in_use = False\<rparr>))"

lemma align_288: "align4 288 = 288"
  by (simp add: align4_def)

lemma tree_heap_repr: "heap_repr tree_heap
   [(HEAP_START, 288, False), (HEAP_START + 300, 288, False), (HEAP_START + 600, 0x7FFD9C, True)]"
proof -
  obtain h1 where h1: "kmalloc 288 (heap_init blank_mem) = Some (0x20000C, h1)"
    "heap_repr h1 [(HEAP_START, 288, False), (HEAP_START + 300, 0x7FFEC8, True)]"
    using kmalloc_init [of 288 blank_mem] by (auto simp: align_288)
  show ?thesis
    using kmalloc_refines [OF h1(2), of 288] h1(1) by (auto simp: tree_heap_def align_288)
qed

lemma demo_sb_fields: "total_inodes demo_sb = 4" "inode_table_start demo_sb = 1" "data_bitmap_start demo_sb = 2"
  "data_start demo_sb = 3" "total_blocks demo_sb = 5" "data_bitmap_blocks demo_sb = 1"
  by (simp_all add: demo_sb_def zero_superblock_def)

lemma tree_fs_fields: "fs_lba tree_fs = 0" "sb tree_fs = demo_sb"
  by (simp_all add: tree_fs_def demo_fs_def)

lemma tree_fs_content:
  "disk_ok (fs_disk tree_fs)" "ino_at tree_fs 1 = root_dir" "ino_at tree_fs 2 = sub_dir" "blk tree_fs 3 = entry_block"
proof -
  let ?s1 = "put_block 3 entry_block demo_fs"
  let ?s2 = "put_inode 1 root_dir ?s1"
  have data: "data_block demo_fs 3" by (simp add: data_block_def demo_fs_def demo_sb_fields)
  have len: "length entry_block = 4096"
    by (simp add: entry_block_def length_encode_dirent make_dirent_def)
  note p = put_data [OF demo_ok(1) data len]
  have wf: "inode_wf root_dir" "inode_wf sub_dir" by (simp_all add: inode_wf_def root_dir_def sub_dir_def zero_inode_def)
  have ino: "ino_ok s 1" "ino_ok s 2" if "fs_lba s = 0" "sb s = demo_sb" for s :: fsys
    using that by (simp_all add: ino_ok_def demo_sb_fields)
  have f1: "fs_lba ?s1 = 0" "sb ?s1 = demo_sb" and f2: "fs_lba ?s2 = 0" "sb ?s2 = demo_sb"
    by (simp_all add: demo_fs_def)
  have ok2: "fs_ok ?s2" using put_inode_fs_ok(1) [OF p(1) ino(1) [OF f1] wf(1)] .
  have ok: "fs_ok tree_fs" unfolding tree_fs_def using put_inode_fs_ok(1) [OF ok2 ino(2) [OF f2] wf(2)] .
  then show "disk_ok (fs_disk tree_fs)" by (simp add: fs_ok_def)
  have d1: "disk_ok (fs_disk ?s1)" and d2: "disk_ok (fs_disk ?s2)" using p(1) ok2 by (simp_all add: fs_ok_def)
  show "ino_at tree_fs 1 = root_dir"
    unfolding tree_fs_def put_inode_props(2) [OF d2 ino(2) [OF f2] wf(2) ino(1) [OF f2]]
    using put_inode_props(2) [OF d1 ino(1) [OF f1] wf(1) ino(1) [OF f1]] by simp
  show "ino_at tree_fs 2 = sub_dir"
    unfolding tree_fs_def put_inode_props(2) [OF d2 ino(2) [OF f2] wf(2) ino(2) [OF f2]] by simp
  have b: "block_ok demo_fs 3" using data_block_ok [OF demo_ok(1) data] .
  have data': "data_block ?s1 3" "data_block ?s2 3" using data f1 f2 by (simp_all add: data_block_def demo_fs_def)
  show "blk tree_fs 3 = entry_block"
    unfolding tree_fs_def
    using put_inode_fs_ok(3) [OF ok2 ino(2) [OF f2] wf(2) data'(2)] put_inode_fs_ok(3) [OF p(1) ino(1) [OF f1] wf(1) data'(1)]
      p(3) [OF b] by simp
qed

lemma tree_disk:
  fixes s :: "'a fsys_scheme"
  assumes "fs_disk s = fs_disk tree_fs" "fs_lba s = 0" "sb s = demo_sb"
  shows "dorifs_read_inode 1 s = Some root_dir" "dorifs_read_inode 2 s = Some sub_dir"
    "dorifs_read_block 3 s = Some entry_block"
proof -
  have b: "blk s = blk tree_fs" by (simp add: blk_def assms tree_fs_fields fun_eq_iff)
  have at: "ino_at s = ino_at tree_fs"
    by (simp add: ino_at_def b inode_block_def assms tree_fs_fields fun_eq_iff)
  have ino: "ino_ok s 1" "ino_ok s 2" by (simp_all add: ino_ok_def assms demo_sb_fields)
  have d: "disk_ok (fs_disk s)" using tree_fs_content(1) assms(1) by simp
  show "dorifs_read_inode 1 s = Some root_dir" "dorifs_read_inode 2 s = Some sub_dir"
    using read_inode [OF d ino(1)] read_inode [OF d ino(2)] by (simp_all add: at tree_fs_content)
  have "block_ok s 3" by (simp add: block_ok_def assms)
  then show "dorifs_read_block 3 s = Some entry_block" using read_block [OF d, of 3] by (simp add: b tree_fs_content)
qed

lemma entry_block_fields: "de_inode 0 entry_block = Some 2" "name_matches 0 entry_block [97] = Some True"
proof -
  have h: "encode_dirent (make_dirent 2 2 [97]) = le32 2 @ [2, 1, 97, 0] @ replicate 254 0"
    by (simp add: encode_dirent_def make_dirent_def numeral_eq_Suc)
  have e: "entry_block = le32 2 @ [2, 1, 97, 0] @ replicate 254 0 @ replicate 3834 0"
    unfolding entry_block_def h by (simp add: blit_def)
  show "de_inode 0 entry_block = Some 2" by (simp add: e de_inode_def field_def bytes_at_def)
  show "name_matches 0 entry_block [97] = Some True"
    by (simp add: e name_matches_def de_name_len_def field_def bytes_at_def)
qed

definition sub_node :: vfs_node where
  "sub_node = zero_node\<lparr>n_inode := 2, n_ops := Some Dorifs_Ops, n_type := VFS_DIRECTORY\<rparr>"

definition tree_root :: "vfs_node \<Rightarrow> bool" where
  "tree_root n \<longleftrightarrow> n_inode n = 1 \<and> n_type n = VFS_DIRECTORY \<and> n_ops n = Some Dorifs_Ops \<and> n_mount n = 0"

lemma tree_resolve:
  fixes s :: "'a vfs_scheme"
  assumes disk: "fs_disk s = fs_disk tree_fs" "fs_lba s = 0" "sb s = demo_sb"
    and root: "vfs_root s \<noteq> 0" "tree_root (nodes s (vfs_root s))"
    and heap: "kmalloc 288 (fs_heap s) = Some (a, h)" "a \<noteq> 0"
  shows "vfs_resolve_path [97] s = Some (a, upd_node a (\<lambda>_. sub_node) (s\<lparr>fs_heap := h\<rparr>))"
proof -
  let ?r = "vfs_root s" and ?t = "upd_node a (\<lambda>_. sub_node) (s\<lparr>fs_heap := h\<rparr>)"
  note d = tree_disk [OF disk]
  have fields: "i_size root_dir = 262" "i_type root_dir = 2" "i_direct root_dir ! 0 = 3" "i_type sub_dir = 2" "i_size sub_dir = 0"
    by (simp_all add: root_dir_def sub_dir_def zero_inode_def)
  have get: "dorifs_get_block root_dir 0 s = Some 3" by (simp add: dorifs_get_block_def fields)
  have fuel: "dir_fuel root_dir = Suc (Suc (Suc 0))" by (simp add: dir_fuel_def fields)
  have scan: "scan_dir (dir_fuel root_dir) root_dir 0 (visit_name [97]) () s = Some (Some (2, 3, 0, entry_block))"
    unfolding fuel scan_dir.simps by (simp add: fields get d visit_name_def entry_block_fields)
  have make: "dorifs_make_vfs_node 2 s = Some (a, ?t)"
    using heap d by (simp add: dorifs_make_vfs_node_def fields sub_node_def Let_def zero_node_def)
  have find: "dorifs_vfs_finddir ?r [97] s = Some (a, ?t)"
    using root(2) by (simp add: dorifs_vfs_finddir_def tree_root_def d fields scan make)
  have cm: "vfs_check_mount ?r s = ?r" "vfs_check_mount a ?t = a"
    using root(2) by (simp_all add: vfs_check_mount_def tree_root_def upd_node_def sub_node_def zero_node_def)
  have "enter ?r [97] s = Some (a, ?t)"
    using root(2) find cm heap(2) by (simp add: enter_def follow_def tree_root_def upd_node_def sub_node_def)
  then show ?thesis using heap(2) components_name [of "[97]"] by (simp add: resolve_walk [OF root(1)] cm)
qed

theorem vfs_mount_unseen_witness:
  "\<exists>s1 q s2. vfs_mount [97] 0x200138 tree_vfs = Some (0, s1) \<and> vfs_resolve_path [97] s1 = Some (q, s2) \<and> q \<noteq> 0x200138"
proof -
  let ?m = "0x200138 :: u32" and ?r = "0x20000C :: u32" and ?a = "0x200264 :: u32"
  note f = tree_vfs_def vfs.defs fsys.defs
  have vals: "fs_disk tree_vfs = fs_disk tree_fs" "fs_lba tree_vfs = 0" "sb tree_vfs = demo_sb" "vfs_root tree_vfs = ?r"
    "fs_heap tree_vfs = tree_heap" "tree_root (nodes tree_vfs p)" "free_mount (mount_table tree_vfs) 0 = Some 0" for p
    by (simp_all add: f tree_fs_fields tree_root_def zero_node_def numeral_eq_Suc)
  obtain h1 where h1: "kmalloc 288 tree_heap = Some (?a, h1)"
    "heap_repr h1 [(HEAP_START, 288, False), (HEAP_START + 300, 288, False), (HEAP_START + 600, 288, False),
       (HEAP_START + 900, 0x7FFC70, True)]"
    using kmalloc_refines [OF tree_heap_repr, of 288] by (auto simp: align_288)
  obtain h2 where h2: "kmalloc 288 h1 = Some (0x200390, h2)"
    using kmalloc_refines [OF h1(2), of 288] by (auto simp: align_288)
  let ?t = "upd_node ?a (\<lambda>_. sub_node) (tree_vfs\<lparr>fs_heap := h1\<rparr>)"
  have t: "vfs_resolve_path [97] tree_vfs = Some (?a, ?t)"
    using h1(1) vals by (intro tree_resolve) simp_all
  obtain s1 where s1: "vfs_mount [97] ?m tree_vfs = Some (0, s1)" "fs_disk s1 = fs_disk tree_fs" "fs_lba s1 = 0"
    "sb s1 = demo_sb" "vfs_root s1 = ?r" "fs_heap s1 = h1" "tree_root (nodes s1 ?r)"
    using t vals by (simp add: vfs_mount_def Let_def upd_node_def sub_node_def)
  have res: "\<exists>s2. vfs_resolve_path [97] s1 = Some (0x200390, s2)"
    using tree_resolve [of s1 "0x200390" h2] s1 h2 by simp
  have inv: "heap_inv tree_heap" using tree_heap_repr heap_inv_def by blast
  have m: "?m \<in> fst ` live tree_heap" by (simp add: live_eq [OF tree_heap_repr] image_iff)
  have "0x200390 \<noteq> ?m"
    using res inv m s1 vals
    by (elim exE) (rule vfs_mount_unseen [of tree_vfs ?m "[97]" s1 "[97]"]; simp add: tree_root_def)
  then show ?thesis using s1(1) res by blast
qed

end
