(* ===== verification/Dorifs_Truncate.thy ===== *)
theory Dorifs_Truncate
  imports Dorifs_Files
begin

text \<open>
  What \<open>dorifs_vfs_truncate\<close> does to a file that the direct pointers cover: the loop that frees the blocks
  past the new end, one lemma for a block and one for the loop, and the whole call.
\<close>

section \<open>Freeing blocks of a file\<close>

lemma same_but_bitmap_trans: "same_but_bitmap s t \<Longrightarrow> same_but_bitmap t u \<Longrightarrow> same_but_bitmap s u"
  unfolding same_but_bitmap_def by (auto simp: block_ok_def)

lemma same_but_bitmap_refl: "same_but_bitmap s s"
  by (auto simp: same_but_bitmap_def intro: exI [of _ "free_blocks (sb s)"])

definition block_index :: "'a fsys_scheme \<Rightarrow> u32 \<Rightarrow> nat" where
  "block_index s b = unat b - unat (data_start (sb s))"

lemma free_file:
  assumes ok: "fs_ok s" and fok: "file_ok i s" and fb: "fb < 12" and b: "b = i_direct i ! fb" "b \<noteq> 0"
    and i': "i' = i\<lparr>i_direct := (i_direct i)[fb := 0], i_block_count := n\<rparr>"
  shows "\<exists>s'. dorifs_free_block b s = Some s' \<and> fs_ok s' \<and> file_ok i' s' \<and> same_but_bitmap s s' \<and>
    taken s' = (taken s)(block_index s b := False)"
proof -
  have lay: "layout_ok s" using ok by (simp add: fs_ok_def)
  have len: "length (i_direct i) = 12" using fok by (simp add: file_ok_def inode_wf_def)
  have data: "data_block s b" using fok fb b len by (auto simp: file_ok_def)
  define k where "k = block_index s b"
  have k: "k < total_data_blocks s" using data_block_index [OF data ok] by (simp add: k_def block_index_def)
  have kb: "b = data_start (sb s) + of_nat k"
    using data_block_number(1) [OF lay k] data by (simp add: word_unat_eq_iff k_def block_index_def data_block_def)
  obtain s' where s': "dorifs_free_block b s = Some s'" "taken s' = (taken s)(k := False)" "fs_ok s'" "same_but_bitmap s s'"
    using free_block_spec [OF ok k] kb by auto
  obtain f where f: "sb s' = (sb s)\<lparr>free_blocks := f\<rparr>" using s'(4) by (auto simp: same_but_bitmap_def)
  have db: "data_block s' = data_block s" using f by (rule data_block_cong)
  have use: "in_use s' c" if "data_block s c" "in_use s c" "c \<noteq> b" for c
    using that data by (auto simp: in_use_def f s'(2) k_def block_index_def data_block_def word_unat_eq_iff)
  have upd: "i_direct i' ! m = (if m = fb then 0 else i_direct i ! m)" if "m < 12" for m
    using that len by (simp add: i' nth_list_update)
  have len': "length (i_direct i') = 12" using len by (simp add: i')
  have "file_ok i' s'"
    unfolding file_ok_def
  proof (intro conjI)
    show "inode_wf i'" using fok by (simp add: i' file_ok_def inode_wf_def)
    show "\<forall>c \<in> set (i_direct i'). c \<noteq> 0 \<longrightarrow> data_block s' c \<and> in_use s' c"
    proof (intro ballI impI)
      fix c assume "c \<in> set (i_direct i')" "c \<noteq> 0"
      then obtain m where m: "m < 12" "c = i_direct i' ! m" using len' by (auto simp: in_set_conv_nth)
      then have c: "m \<noteq> fb" "c = i_direct i ! m" using upd [of m] \<open>c \<noteq> 0\<close> by auto
      then have "data_block s c" "in_use s c" using fok m(1) len \<open>c \<noteq> 0\<close> by (auto simp: file_ok_def)
      moreover have "c \<noteq> b"
      proof
        assume "c = b"
        then have "i_direct i ! m = i_direct i ! fb" "i_direct i ! m \<noteq> 0" using c(2) b by simp_all
        then have "m = fb" using fok m(1) fb by (simp add: file_ok_def)
        then show False using c(1) by simp
      qed
      ultimately show "data_block s' c \<and> in_use s' c" using use db by simp
    qed
    show "\<forall>j < 12. \<forall>k < 12. i_direct i' ! j \<noteq> 0 \<longrightarrow> i_direct i' ! j = i_direct i' ! k \<longrightarrow> j = k"
    proof (intro allI impI)
      fix j l :: nat assume "j < 12" "l < 12" "i_direct i' ! j \<noteq> 0" "i_direct i' ! j = i_direct i' ! l"
      moreover from this have "j \<noteq> fb" "l \<noteq> fb" using upd by auto
      ultimately show "j = l" using fok upd by (simp add: file_ok_def)
    qed
  qed
  then show ?thesis using s' by (auto simp: k_def)
qed

lemma truncate_from_Cons:
  "truncate_from i (b # bs) s =
    (case (do { disk_block \<leftarrow> dorifs_get_block i b s;
                if disk_block = 0 then Some (i, s)
                else do { s \<leftarrow> dorifs_free_block disk_block s;
                          (ok, i, s) \<leftarrow> dorifs_set_block i b 0 s;
                          Some (i\<lparr>i_block_count := i_block_count i - 1\<rparr>, s) } }) of
       None \<Rightarrow> truncate_from i (b # bs) s | Some (i, s) \<Rightarrow> truncate_from i bs s)"
  by (simp add: truncate_from_def split: option.split)

text \<open>The blocks of the file at the positions \<open>ks\<close>, as numbers of data blocks.\<close>

definition blocks_at :: "nat set \<Rightarrow> inode \<Rightarrow> 'a fsys_scheme \<Rightarrow> nat set" where
  "blocks_at ks i s = {block_index s (i_direct i ! k) | k. k \<in> ks \<and> i_direct i ! k \<noteq> 0}"

lemma truncate_loop:
  assumes "fs_ok s" "file_ok i s" "set ks \<subseteq> {..<12}"
  shows "\<exists>i' s'. truncate_from i (map of_nat ks) s = Some (i', s') \<and> fs_ok s' \<and> file_ok i' s' \<and> same_but_bitmap s s' \<and>
    (\<exists>ds n. i' = i\<lparr>i_direct := ds, i_block_count := n\<rparr>) \<and>
    (\<forall>j < 12. i_direct i' ! j = (if j \<in> set ks then 0 else i_direct i ! j)) \<and>
    (\<forall>j. taken s' j \<longleftrightarrow> taken s j \<and> j \<notin> blocks_at (set ks) i s)"
  using assms
proof (induction ks arbitrary: i s)
  case Nil
  have "\<exists>ds n. i = i\<lparr>i_direct := ds, i_block_count := n\<rparr>"
    by (rule exI [of _ "i_direct i"], rule exI [of _ "i_block_count i"]) simp
  then show ?case using Nil same_but_bitmap_refl [of s] by (simp add: truncate_from_def blocks_at_def)
next
  case (Cons k ks)
  let ?b = "i_direct i ! k"
  have k: "k < 12" using Cons.prems(3) by simp
  have len: "length (i_direct i) = 12" using Cons.prems(2) by (simp add: file_ok_def inode_wf_def)
  have w: "(of_nat k :: u32) < 12" "unat (of_nat k :: u32) = k" using k by (simp_all add: unat_of_nat_u32 unat_less_u32)
  note get = get_direct [OF w(1), of i s, unfolded w(2)]
  show ?case
  proof (cases "?b = 0")
    case True
    have "truncate_from i (map of_nat (k # ks)) s = truncate_from i (map of_nat ks) s"
      using get True by (subst list.map, subst truncate_from_Cons) simp
    moreover have "blocks_at (set (k # ks)) i s = blocks_at (set ks) i s" using True by (auto simp: blocks_at_def)
    ultimately show ?thesis using Cons.IH [OF Cons.prems(1,2)] Cons.prems(3) True by fastforce
  next
    case False
    define i1 where "i1 = i\<lparr>i_direct := (i_direct i)[k := 0], i_block_count := i_block_count i - 1\<rparr>"
    obtain s1 where s1: "dorifs_free_block ?b s = Some s1" "fs_ok s1" "file_ok i1 s1" "same_but_bitmap s s1"
      "taken s1 = (taken s)(block_index s ?b := False)"
      using free_file [OF Cons.prems(1,2) k refl False i1_def] by blast
    have step: "truncate_from i (map of_nat (k # ks)) s = truncate_from i1 (map of_nat ks) s1"
      using get False s1(1) set_direct [OF w(1), of i 0 s1] w(2) by (subst list.map, subst truncate_from_Cons) (simp add: i1_def)
    obtain i' s' where r: "truncate_from i1 (map of_nat ks) s1 = Some (i', s')" "fs_ok s'" "file_ok i' s'" "same_but_bitmap s1 s'"
      "\<exists>ds n. i' = i1\<lparr>i_direct := ds, i_block_count := n\<rparr>"
      "\<forall>j < 12. i_direct i' ! j = (if j \<in> set ks then 0 else i_direct i1 ! j)"
      "\<forall>j. taken s' j \<longleftrightarrow> taken s1 j \<and> j \<notin> blocks_at (set ks) i1 s1"
      using Cons.IH [OF s1(2,3)] Cons.prems(3) by auto
    have start: "data_start (sb s1) = data_start (sb s)" using s1(4) by (auto simp: same_but_bitmap_def)
    have d1: "i_direct i1 ! j = (if j = k then 0 else i_direct i ! j)" if "j < 12" for j
      using that len by (simp add: i1_def nth_list_update)
    have "insert (block_index s ?b) (blocks_at (set ks) i1 s1) = blocks_at (set (k # ks)) i s"
    proof -
      have "(x = block_index s1 (i_direct i1 ! m) \<and> m \<in> set ks \<and> i_direct i1 ! m \<noteq> 0) \<longleftrightarrow>
          (x = block_index s (i_direct i ! m) \<and> m \<in> set ks - {k} \<and> i_direct i ! m \<noteq> 0)" for x m
        using Cons.prems(3) d1 [of m] start by (cases "m \<in> set ks"; cases "m = k") (auto simp: block_index_def)
      then have "blocks_at (set ks) i1 s1 = blocks_at (set ks - {k}) i s" by (simp add: blocks_at_def)
      then show ?thesis using False by (auto simp: blocks_at_def)
    qed
    then have "\<forall>j. taken s' j \<longleftrightarrow> taken s j \<and> j \<notin> blocks_at (set (k # ks)) i s" using r(7) s1(5) by auto
    moreover have "\<forall>j < 12. i_direct i' ! j = (if j \<in> set (k # ks) then 0 else i_direct i ! j)" using r(6) d1 by simp
    moreover have "\<exists>ds n. i' = i\<lparr>i_direct := ds, i_block_count := n\<rparr>" using r(5) by (auto simp: i1_def)
    ultimately show ?thesis using step r(1-3) same_but_bitmap_trans [OF s1(4) r(4)] by auto
  qed
qed

section \<open>The call\<close>

definition blocks_for :: "nat \<Rightarrow> nat" where
  "blocks_for n = (n + 4095) div 4096"

lemma unat_blocks_of_size: "unat n \<le> 49152 \<Longrightarrow> unat (blocks_of_size n) = blocks_for (unat n)"
proof -
  assume a: "unat n \<le> 49152"
  have "unat (n + 4096) = unat n + 4096" using a by (subst unat_add_u32) simp_all
  then have "unat (n + 4096 - 1) = unat n + 4095" by (subst unat_sub_u32) simp_all
  then show ?thesis by (simp add: blocks_of_size_def blocks_for_def unat_div)
qed

lemma truncate_core:
  fixes s :: "'a fsys_scheme" and n p :: u32
  assumes "file_inv p s" "file_len p s \<le> 49152" "unat n \<le> file_len p s"
  shows "\<exists>s'. dorifs_vfs_truncate p n s = Some (0, s') \<and> file_inv p s' \<and> file_len p s' = unat n \<and>
    (\<forall>x < unat n. file_byte p s' x = file_byte p s x) \<and>
    (\<forall>j. taken s' j \<longleftrightarrow> taken s j \<and>
       j \<notin> blocks_at {blocks_for (unat n)..<blocks_for (file_len p s)} (ino_at s (n_inode (nodes s p))) s) \<and>
    (\<forall>j. ino_ok s j \<and> j \<noteq> n_inode (nodes s p) \<longrightarrow> ino_at s' j = ino_at s j) \<and>
    (\<forall>b. data_block s b \<longrightarrow> blk s' b = blk s b) \<and>
    (\<forall>q. like_node (nodes s' q) (nodes s q)) \<and>
    total_data_blocks s' = total_data_blocks s"
proof -
  let ?ino = "n_inode (nodes s p)"
  let ?i = "ino_at s ?ino"
  let ?ks = "[blocks_for (unat n)..<blocks_for (file_len p s)]"
  have inv: "fs_ok s" "ino_ok s ?ino" "file_ok ?i s" using assms(1) by (simp_all add: file_inv_def)
  have disk: "disk_ok (fs_disk s)" using inv(1) by (simp add: fs_ok_def)
  have size: "file_len p s = unat (i_size ?i)" by (simp add: file_len_def)
  have blocks: "unat (blocks_of_size n) = blocks_for (unat n)" "unat (blocks_of_size (i_size ?i)) = blocks_for (file_len p s)"
    using unat_blocks_of_size [of n] unat_blocks_of_size [of "i_size ?i"] assms(2,3) size by simp_all
  have "set ?ks \<subseteq> {..<12}"
  proof -
    have "blocks_for (file_len p s) \<le> 12" using div_le_mono [of "file_len p s + 4095" 53247 4096] assms(2) by (simp add: blocks_for_def)
    then show ?thesis by auto
  qed
  then obtain i' s1 where t: "truncate_from ?i (map of_nat ?ks) s = Some (i', s1)" "fs_ok s1" "file_ok i' s1" "same_but_bitmap s s1"
    "\<exists>ds n. i' = ?i\<lparr>i_direct := ds, i_block_count := n\<rparr>"
    "\<forall>j < 12. i_direct i' ! j = (if j \<in> set ?ks then 0 else i_direct ?i ! j)"
    "\<forall>j. taken s1 j \<longleftrightarrow> taken s j \<and> j \<notin> blocks_at (set ?ks) ?i s"
    using truncate_loop [OF inv(1,3)] by blast
  let ?i' = "i'\<lparr>i_size := n\<rparr>"
  let ?s2 = "upd_node p (\<lambda>m. m\<lparr>n_size := n\<rparr>) s1"
  let ?s = "put_inode ?ino ?i' ?s2"
  obtain f where f: "sb s1 = (sb s)\<lparr>free_blocks := f\<rparr>" using t(4) by (auto simp: same_but_bitmap_def)
  have lba: "fs_lba s1 = fs_lba s" and nodes1: "nodes s1 = nodes s" using t(4) by (simp_all add: same_but_bitmap_def)
  have nd: "n_inode (nodes ?s2 q) = n_inode (nodes s q)" "like_node (nodes ?s2 q) (nodes s q)" for q
    using nodes1 by (simp_all add: upd_node_def like_node_def)
  have r: "(if n < i_size ?i then truncate_from ?i (map of_nat [unat (blocks_of_size n)..<unat (blocks_of_size (i_size ?i))]) s
      else Some (?i, s)) = Some (i', s1)"
  proof (cases "n < i_size ?i")
    case False
    then have "file_len p s = unat n" using assms(3) size by (simp add: unat_less_u32)
    then have "truncate_from ?i [] s = Some (i', s1)" using t(1) by simp
    then show ?thesis using False unfolding truncate_from_def by auto
  qed (use t(1) blocks in simp)
  have call: "dorifs_vfs_truncate p n s = Some (0, ?s)"
    using read_inode [OF disk inv(2)] r nd(1) [of p] by (simp add: dorifs_vfs_truncate_def put_inode_def Let_def)
  have iok: "ino_ok ?s2 = ino_ok s" using f lba by (intro ino_ok_cong [where f = f]) simp_all
  have ok2: "fs_ok ?s2" using t(2) by simp
  have wf: "inode_wf ?i'" using t(3) by (simp add: file_ok_def inode_wf_def)
  have disk2: "disk_ok (fs_disk ?s2)" using t(2) by (simp add: fs_ok_def)
  note pi = put_inode_fs_ok [OF ok2 inv(2) [folded iok] wf]
  note pq = put_inode_props [OF disk2 inv(2) [folded iok] wf]
  have db: "data_block ?s2 = data_block s" using f by (simp add: data_block_def fun_eq_iff)
  have blk1: "blk s1 b = blk s b" if "data_block s b" for b
    using t(4) that data_block_ok [OF inv(1) that] by (auto simp: same_but_bitmap_def data_block_def)
  have blk: "blk ?s b = blk s b" if "data_block s b" for b using pi(3) [of b] that db blk1 by simp
  have at1: "ino_at s1 j = ino_at s j" if "ino_ok s j" for j
  proof -
    have "inode_block j s1 = inode_block j s" using f by (simp add: inode_block_def)
    moreover have "blk s1 (inode_block j s) = blk s (inode_block j s)"
      using t(4) that unat_inode_block [OF that] by (auto simp: same_but_bitmap_def ino_ok_def)
    ultimately show ?thesis by (simp add: ino_at_def)
  qed
  have at: "ino_at ?s j = (if j = ?ino then ?i' else ino_at s j)" if "ino_ok s j" for j
  proof -
    have "ino_at ?s2 j = ino_at s1 j" by (simp add: ino_at_def inode_block_def)
    then show ?thesis using pq(2) that iok at1 by simp
  qed
  have nds: "n_inode (nodes ?s q) = n_inode (nodes s q)" "like_node (nodes ?s q) (nodes s q)" for q using nd by simp_all
  have db': "data_block ?s = data_block s1" by (simp add: data_block_def fun_eq_iff)
  have fok: "file_ok ?i' ?s" using t(3) db' pi(2) by (simp add: file_ok_def in_use_def inode_wf_def)
  have iok': "ino_ok ?s = ino_ok s" using ino_ok_cong [of ?s s f] f lba by simp
  have "file_inv p ?s" using pi(1) fok iok' inv(2) at [OF inv(2)] nds by (simp add: file_inv_def)
  moreover have "file_len p ?s = unat n" using at [OF inv(2)] nds by (simp add: file_len_def)
  moreover have "file_byte p ?s x = file_byte p s x" if x: "x < unat n" for x
  proof -
    have "x div 4096 < blocks_for (unat n)" "x div 4096 < 12"
      using x assms(2,3) by (simp_all add: blocks_for_def)
    then have same: "i_direct i' ! (x div 4096) = i_direct ?i ! (x div 4096)" using t(6) by simp
    have len: "length (i_direct ?i) = 12" using inv(3) by (simp add: file_ok_def inode_wf_def)
    then have "i_direct ?i ! (x div 4096) \<noteq> 0 \<Longrightarrow> data_block s (i_direct ?i ! (x div 4096))"
      using inv(3) \<open>x div 4096 < 12\<close> by (simp add: file_ok_def)
    then show ?thesis unfolding file_byte_def nds(1) at [OF inv(2)] fbyte_def using blk by (simp add: Let_def same)
  qed
  moreover have "taken ?s j \<longleftrightarrow> taken s j \<and> j \<notin> blocks_at (set ?ks) ?i s" for j using pi(2) t(7) by (simp add: taken_def)
  moreover have "total_data_blocks ?s = total_data_blocks s" using f by (simp add: total_data_blocks_def)
  ultimately show ?thesis using call at blk nds by auto
qed


text \<open>How long a file is after a write.\<close>

lemma dorifs_write_len:
  assumes "file_inv p s" "unat offset + unat size' \<le> 49152" "unat size' \<le> length buffer"
    and w: "dorifs_vfs_write p offset size' buffer s = Some (Some m, s')"
  shows "file_len p s' = max (file_len p s) (unat offset + unat m)"
proof -
  have a: "fs_ok s" "ino_ok s (n_inode (nodes s p))" "file_ok (ino_at s (n_inode (nodes s p))) s"
    using assms(1) by (simp_all add: file_inv_def)
  obtain m' i' s1 t where t: "dorifs_vfs_write p offset size' buffer s = Some (Some m', t)" "m' \<le> size'"
    "n_inode (nodes t p) = n_inode (nodes s p)" "extends (ino_at s (n_inode (nodes s p))) s i' s1"
    "ino_at t (n_inode (nodes s p)) = grown i' (offset + m')"
    by (rule vfs_write_core [OF a assms(2,3)]) blast
  have eq: "m' = m" "t = s'" using t(1) w by simp_all
  have "unat (offset + m) = unat offset + unat m"
    using t(2) assms(2) unfolding eq by (intro unat_add_u32) (simp add: unat_le_u32)
  moreover have "i_size i' = i_size (ino_at s (n_inode (nodes s p)))" using t(4) by (auto simp: extends_def)
  ultimately show ?thesis using t(3,5) unfolding eq file_len_def by (auto simp: grown_def unat_less_u32 max_def)
qed

text \<open>A write within one block is in full when there is a free block.\<close>

lemma dorifs_write_full:
  fixes s :: "'a fsys_scheme" and offset size' p :: u32
  assumes inv: "file_inv p s" and bound: "unat offset + unat size' \<le> 49152" and len: "unat size' \<le> length buffer"
    and block: "unat offset mod 4096 + unat size' \<le> 4096" and pos: "0 < size'"
    and free: "j < total_data_blocks s" "\<not> taken s j"
  shows "\<exists>s'. dorifs_vfs_write p offset size' buffer s = Some (Some size', s')"
proof -
  let ?i = "ino_at s (n_inode (nodes s p))"
  have a: "fs_ok s" "ino_ok s (n_inode (nodes s p))" "file_ok ?i s" using inv by (simp_all add: file_inv_def)
  have "unat (to_copy offset size' 0) = unat size'" using file_pos(5) [OF bound pos] block by simp
  then have t: "0 + to_copy offset size' 0 = size'" by (simp add: word_unat_eq_iff)
  obtain i1 s1 where "write_loop ?i offset size' buffer 0 s = write_loop i1 offset size' buffer (0 + to_copy offset size' 0) s1"
    using write_step [OF a(1,3) bound pos len] free by blast
  moreover have "write_loop i1 offset size' buffer size' s1 = Some (size', i1, s1)" by (subst write_loop.simps) simp
  ultimately have "write_loop ?i offset size' buffer 0 s = Some (size', i1, s1)" unfolding t by simp
  moreover have "dorifs_read_inode (n_inode (nodes s p)) s = Some ?i"
    using read_inode a by (auto simp: fs_ok_def)
  ultimately show ?thesis by (simp add: dorifs_vfs_write_def Let_def)
qed


end
