(* ===== verification/Vfs_Files.thy ===== *)
theory Vfs_Files
  imports Vfs_Paths Dorifs_Truncate
begin

text \<open>
  The descriptor table: that it stays well formed under every operation, how descriptors are handed out,
  and what a descriptor's position makes of reads and writes of the file behind it.
\<close>

section \<open>What the operations leave alone\<close>

lemma resolve_from_more:
  fixes s :: "'a vfs_scheme"
  assumes "resolve_from current path s = Some r"
  shows "fsys.more (snd r) = fsys.more s"
proof (rule resolve_from.raw_induct
    [where P = "\<lambda>current path s r. fsys.more (snd r) = fsys.more s", OF _ assms], goal_cases)
  case (1 resolve current path s r)
  note IH = 1(1) and body = 1(2)
  have find: "fsys.more t = fsys.more s" if "op_finddir ops p n s = Some (q, t)" for ops p n q and s t :: "'a vfs_scheme"
    using that finddir_more by (cases ops) auto
  have next_more: "fsys.more (snd r) = fsys.more u"
    if "resolve c p u = Some (a, t)" "(if a = 0 then Some (0, t) else resolve a p' t) = Some r" for c p p' u a t r
    using IH [OF that(1)] that(2) IH [of a p' t r] by (auto split: if_splits)
  show ?case
    using body by (auto simp: bind_eq_Some_conv Let_def split: prod.splits if_splits option.splits
        dest!: find IH next_more)
qed

lemma resolve_more [frame]: "vfs_resolve_path path s = Some (q, s') \<Longrightarrow> fsys.more s' = fsys.more s"
  using resolve_from_more by (fastforce simp: vfs_resolve_path_def split: if_splits)

lemma op_more [frame]:
  "op_write ops p off n buf s = Some (w, s1) \<Longrightarrow> fsys.more s1 = fsys.more s"
  "op_create ops p name ty s = Some (c, s2) \<Longrightarrow> fsys.more s2 = fsys.more s"
  "op_unlink ops p name s = Some (u, s3) \<Longrightarrow> fsys.more s3 = fsys.more s"
  "op_symlink ops p name t s = Some (l, s4) \<Longrightarrow> fsys.more s4 = fsys.more s"
  "op_truncate ops p n s = Some (z, s5) \<Longrightarrow> fsys.more s5 = fsys.more s"
  by (cases ops; simp; erule vfs_write_more) (cases ops; simp; erule create_more unlink_more symlink_more truncate_more)+

lemma vfs_create_more [frame]: "vfs_create path ty s = Some (r, s') \<Longrightarrow> fsys.more s' = fsys.more s"
  by (auto simp: vfs_create_def bind_eq_Some_conv split: prod.splits if_splits option.splits dest!: resolve_more op_more)

lemma vfs_unlink_more [frame]: "vfs_unlink path s = Some (r, s') \<Longrightarrow> fsys.more s' = fsys.more s"
  by (auto simp: vfs_unlink_def bind_eq_Some_conv split: prod.splits if_splits option.splits dest!: resolve_more op_more)

lemma vfs_symlink_more [frame]: "vfs_symlink t path s = Some (r, s') \<Longrightarrow> fsys.more s' = fsys.more s"
  by (auto simp: vfs_symlink_def bind_eq_Some_conv split: prod.splits if_splits option.splits dest!: resolve_more op_more)

lemma vfs_stat_more [frame]: "vfs_stat path s = Some (r, s') \<Longrightarrow> fsys.more s' = fsys.more s"
  by (auto simp: vfs_stat_def bind_eq_Some_conv split: prod.splits if_splits option.splits dest!: resolve_more)

lemma vfs_readdir_more [frame]: "vfs_readdir path k s = Some (r, s') \<Longrightarrow> fsys.more s' = fsys.more s"
  by (auto simp: vfs_readdir_def bind_eq_Some_conv split: prod.splits if_splits option.splits dest!: resolve_more)

lemma vfs_readlink_more [frame]: "vfs_readlink path k s = Some (r, s') \<Longrightarrow> fsys.more s' = fsys.more s"
  by (auto simp: vfs_readlink_def bind_eq_Some_conv split: prod.splits if_splits option.splits dest!: resolve_more)

lemma vfs_mount_fds:
  fixes s :: "'a vfs_scheme"
  assumes "vfs_mount path m s = Some (r, s')"
  shows "fd_table s' = fd_table s"
proof (cases "m = 0 \<or> path = [SLASH] \<or> free_mount (mount_table s) 0 = None")
  case True
  then show ?thesis using assms by (auto simp: vfs_mount_def split: if_splits)
next
  case False
  then obtain slot where slot: "free_mount (mount_table s) 0 = Some slot" by auto
  obtain q t where q: "vfs_resolve_path path s = Some (q, t)"
    using assms False slot by (auto simp: vfs_mount_def bind_eq_Some_conv)
  have "fd_table t = fd_table s" using resolve_more [OF q] by (rule more_fields)
  then show ?thesis
    using assms False slot q
    by (cases "q = 0 \<or> n_type (nodes t q) AND VFS_DIRECTORY = 0") (auto simp: vfs_mount_def Let_def upd_node_def)
qed

lemma vfs_umount_fds:
  assumes "vfs_umount path s = Some (r, s')"
  shows "fd_table s' = fd_table s"
proof -
  have "fd_table t = fd_table s" if "vfs_resolve_path path s = Some (q, t)" for q t
    using resolve_more [OF that] by (rule more_fields)
  then show ?thesis
    using assms by (auto simp: vfs_umount_def bind_eq_Some_conv Let_def upd_node_def split: if_splits option.splits)
qed

section \<open>Descriptors\<close>

definition fd_ok :: "'a vfs_scheme \<Rightarrow> bool" where
  "fd_ok s \<longleftrightarrow> length (fd_table s) = 64 \<and>
     (\<forall>d \<in> set (fd_table s). if f_in_use d then f_node d \<noteq> 0 else d = free_fd)"

lemma fd_alloc_from_cases:
  "fd_alloc_from ds i = - 1 \<and> (\<forall>d \<in> set ds. f_in_use d) \<or>
   (\<exists>n < length ds. fd_alloc_from ds i = i + int n \<and> \<not> f_in_use (ds ! n) \<and> (\<forall>j < n. f_in_use (ds ! j)))"
proof (induction ds arbitrary: i)
  case (Cons d ds)
  show ?case
  proof (cases "f_in_use d")
    case False
    then show ?thesis by (intro disjI2 exI [of _ 0]) simp
  next
    case True
    from Cons [of "i + 1"] show ?thesis
    proof (elim disjE exE conjE)
      fix n assume "n < length ds" "fd_alloc_from ds (i + 1) = i + 1 + int n" "\<not> f_in_use (ds ! n)" "\<forall>j < n. f_in_use (ds ! j)"
      then show ?thesis using True by (intro disjI2 exI [of _ "Suc n"]) (auto simp: less_Suc_eq_0_disj)
    qed (use True in simp)
  qed
qed simp

lemma upd_fd_table: "fd_table (upd_fd fd f s) = (fd_table s)[nat fd := f (fd_table s ! nat fd)]"
  by (simp add: upd_fd_def)

lemma fd_ok_upd:
  assumes "fd_ok s" "nat fd < 64" "if f_in_use (f (fd_table s ! nat fd)) then f_node (f (fd_table s ! nat fd)) \<noteq> 0
     else f (fd_table s ! nat fd) = free_fd"
  shows "fd_ok (upd_fd fd f s)"
  using assms by (auto simp: fd_ok_def upd_fd_table dest!: set_update_subset_insert [THEN subsetD])

lemma fd_ok_node: "fd_ok s \<Longrightarrow> fd_open fd s \<Longrightarrow> nat fd < 64 \<and> f_in_use (fd_table s ! nat fd) \<and> f_node (fd_table s ! nat fd) \<noteq> 0"
  by (auto simp: fd_ok_def fd_open_def)

text \<open>Opening: no descriptor, or one filled in over a filesystem with the same tables.\<close>

lemma vfs_open_shape:
  fixes s :: "'a vfs_scheme"
  assumes "vfs_open path flags s = Some (fd, s')"
  obtains t where "fsys.more t = fsys.more s" "fd = - 1" "s' = t"
  | t d where "fsys.more t = fsys.more s" "fd = fd_alloc s" "0 \<le> fd_alloc s" "s' = upd_fd fd (\<lambda>_. d) t"
      "f_in_use d" "f_node d \<noteq> 0"
proof -
  from assms obtain node s1 node2 s2 where r: "vfs_resolve_path path s = Some (node, s1)"
    "(if node = 0 \<and> flags AND VFS_O_CREAT \<noteq> 0
      then do { (r, s) \<leftarrow> vfs_create path VFS_FILE s1; if r \<noteq> 0 then Some (0, s) else vfs_resolve_path path s }
      else Some (node, s1)) = Some (node2, s2)"
    and rest: "(if node2 = 0 then Some (- 1, s2)
          else let fd = fd_alloc s2
          in if fd < 0 then Some (- 1, s2)
          else if (case n_ops (nodes s2 node2) of None \<Rightarrow> False | Some ops \<Rightarrow> op_open ops node2 flags s2 \<noteq> 0)
          then Some (- 1, s2)
          else do {
            s \<leftarrow> (case n_ops (nodes s2 node2) of
                     None \<Rightarrow> Some s2
                   | Some ops \<Rightarrow> if flags AND VFS_O_TRUNC \<noteq> 0 then map_option snd (op_truncate ops node2 0 s2) else Some s2);
            Some (fd, upd_fd fd (\<lambda>_. \<lparr>f_node = node2,
                   f_offset = (if flags AND VFS_O_APPEND \<noteq> 0 then n_size (nodes s node2) else 0),
                   f_flags = flags, f_in_use = True\<rparr>) s) }) = Some (fd, s')"
    by (auto simp: vfs_open_def bind_eq_Some_conv)
  have m2: "fsys.more s2 = fsys.more s"
    using r by (auto simp: bind_eq_Some_conv split: if_splits dest!: resolve_more vfs_create_more)
  then have "fd_table s2 = fd_table s" by (rule more_fields)
  then have a: "fd_alloc s2 = fd_alloc s" by (simp add: fd_alloc_def)
  have trunc: "fsys.more t = fsys.more s2" if "op_truncate ops node2 0 s2 = Some (z, t)" for ops z t
    using that by (rule op_more)
  show ?thesis
  proof (cases "fd = - 1")
    case True
    then have "s' = s2" using rest by (auto simp: Let_def bind_eq_Some_conv split: if_splits option.splits)
    then show ?thesis using True m2 that(1) by blast
  next
    case False
    then obtain d t where "fd = fd_alloc s2" "0 \<le> fd_alloc s2" "s' = upd_fd fd (\<lambda>_. d) t" "f_in_use d" "f_node d \<noteq> 0"
      "fsys.more t = fsys.more s2"
      using rest trunc by (auto simp: Let_def bind_eq_Some_conv split: if_splits option.splits)
    then show ?thesis using that(2) [of t d] m2 a by simp
  qed
qed

lemma vfs_open_cases:
  fixes s :: "'a vfs_scheme"
  assumes "vfs_open path flags s = Some (fd, s')" "length (fd_table s) = 64"
  shows "fd = - 1 \<and> fd_table s' = fd_table s \<or>
    (\<exists>n < 64. fd = int n \<and> \<not> f_in_use (fd_table s ! n) \<and> (\<forall>j < n. f_in_use (fd_table s ! j)) \<and>
       (\<exists>d. fd_table s' = (fd_table s)[n := d] \<and> f_in_use d \<and> f_node d \<noteq> 0))"
  using assms(1)
proof (cases rule: vfs_open_shape)
  case (1 t)
  then show ?thesis using more_fields [OF 1(1)] by simp
next
  case (2 t d)
  have "fd_table t = fd_table s" using 2(1) by (rule more_fields)
  then show ?thesis
    using fd_alloc_from_cases [of "fd_table s" 0] 2 assms(2) by (auto simp: fd_alloc_def upd_fd_table)
qed

text \<open>Any call of the interface, and runs of calls after \<open>vfs_init\<close>.\<close>

inductive vfs_step :: "'a vfs_scheme \<Rightarrow> 'a vfs_scheme \<Rightarrow> bool" where
  opened: "vfs_open path flags s = Some (fd, s') \<Longrightarrow> vfs_step s s'"
| closed: "vfs_step s (snd (vfs_close fd s))"
| read: "vfs_read fd n s = Some (r, s') \<Longrightarrow> vfs_step s s'"
| written: "vfs_write fd buf n s = Some (w, s') \<Longrightarrow> vfs_step s s'"
| sought: "vfs_step s (snd (vfs_seek fd off whence s))"
| stat: "vfs_stat path s = Some (st, s') \<Longrightarrow> vfs_step s s'"
| created: "vfs_create path ty s = Some (c, s') \<Longrightarrow> vfs_step s s'"
| unlinked: "vfs_unlink path s = Some (c, s') \<Longrightarrow> vfs_step s s'"
| listed: "vfs_readdir path k s = Some (e, s') \<Longrightarrow> vfs_step s s'"
| linked: "vfs_symlink t path s = Some (c, s') \<Longrightarrow> vfs_step s s'"
| link_read: "vfs_readlink path n s = Some (r, s') \<Longrightarrow> vfs_step s s'"
| mounted: "vfs_mount path m s = Some (c, s') \<Longrightarrow> vfs_step s s'"
| unmounted: "vfs_umount path s = Some (c, s') \<Longrightarrow> vfs_step s s'"

inductive vfs_run :: "'a vfs_scheme \<Rightarrow> 'a vfs_scheme \<Rightarrow> bool" where
  start: "vfs_run (vfs_init s) (vfs_init s)"
| step: "vfs_run s t \<Longrightarrow> vfs_step t u \<Longrightarrow> vfs_run s u"

lemma fd_ok_table: "fd_table s' = fd_table s \<Longrightarrow> fd_ok s \<Longrightarrow> fd_ok s'"
  by (simp add: fd_ok_def)

lemma fd_ok_more: "fsys.more s' = fsys.more s \<Longrightarrow> fd_ok s \<Longrightarrow> fd_ok s'"
  using more_fields(2) [of s' s] by (rule fd_ok_table)

lemma fd_ok_move:
  "fd_ok s \<Longrightarrow> fd_open fd s \<Longrightarrow> (\<And>d. f_in_use (f d) = f_in_use d \<and> f_node (f d) = f_node d) \<Longrightarrow> fd_ok (upd_fd fd f s)"
  using fd_ok_node [of s fd] by (intro fd_ok_upd) simp_all

lemma vfs_open_ok: "vfs_open path flags s = Some (fd, s') \<Longrightarrow> fd_ok s \<Longrightarrow> fd_ok s'"
  using vfs_open_cases [of path flags s fd s']
  by (auto simp: fd_ok_def dest!: set_update_subset_insert [THEN subsetD])

lemma vfs_close_ok: "fd_ok s \<Longrightarrow> fd_ok (snd (vfs_close fd s))"
  using fd_ok_node [of s fd] by (auto simp: vfs_close_def free_fd_def intro!: fd_ok_upd)

lemma vfs_seek_ok: "fd_ok s \<Longrightarrow> fd_ok (snd (vfs_seek fd off whence s))"
  by (auto simp: vfs_seek_def Let_def intro!: fd_ok_move)

lemma vfs_read_ok: "vfs_read fd n s = Some (r, s') \<Longrightarrow> fd_ok s \<Longrightarrow> fd_ok s'"
  by (auto simp: vfs_read_def Let_def bind_eq_Some_conv split: if_splits option.splits intro!: fd_ok_move)

lemma fd_open_table: "fd_table s' = fd_table s \<Longrightarrow> fd_open fd s' = fd_open fd s"
  by (simp add: fd_open_def)

lemma fd_open_upd: "fd_ok s \<Longrightarrow> fd_open fd s \<Longrightarrow> (\<And>d. f_in_use (f d) = f_in_use d) \<Longrightarrow> fd_open fd (upd_fd fd f s)"
  using fd_ok_node [of s fd] by (auto simp: fd_open_def upd_fd_table fd_ok_def)

lemma upd_node_table [simp]:
  "fd_table (upd_node p f s) = fd_table s" "vfs_root (upd_node p f s) = vfs_root s" for s :: "'a vfs_scheme"
  by (simp_all add: upd_node_def)

text \<open>The cases of a write that gets as far as the filesystem.\<close>

lemma vfs_write_cases:
  fixes s :: "'a vfs_scheme"
  assumes "vfs_write fd buf n s = Some (r, s')"
  obtains "r = - 1" "s' = s"
  | d ops s0 w t where "fd_open fd s" "d = fd_table s ! nat fd" "f_node d \<noteq> 0" "n_ops (nodes s (f_node d)) = Some ops"
    "s0 = (if f_flags d AND VFS_O_APPEND \<noteq> 0 then upd_fd fd (\<lambda>d'. d'\<lparr>f_offset := n_size (nodes s (f_node d))\<rparr>) s else s)"
    "op_write ops (f_node d) (f_offset (fd_table s0 ! nat fd)) n buf s0 = Some (w, t)"
    "r = (case w of None \<Rightarrow> - 1 | Some n \<Rightarrow> sint n)"
    "r \<le> 0 \<and> s' = t \<or> 0 < r \<and> (let u = upd_fd fd (\<lambda>d. d\<lparr>f_offset := f_offset d + of_int r\<rparr>) t;
         off = f_offset (fd_table u ! nat fd) in
       s' = (if n_size (nodes u (f_node d)) < off then upd_node (f_node d) (\<lambda>n. n\<lparr>n_size := off\<rparr>) u else u))"
proof (cases "fd_open fd s \<and> f_node (fd_table s ! nat fd) \<noteq> 0 \<and> n_ops (nodes s (f_node (fd_table s ! nat fd))) \<noteq> None")
  case False
  then show ?thesis using assms that(1) by (auto simp: vfs_write_def Let_def split: if_splits)
next
  case True
  let ?d = "fd_table s ! nat fd"
  let ?s0 = "if f_flags ?d AND VFS_O_APPEND \<noteq> 0 then upd_fd fd (\<lambda>d'. d'\<lparr>f_offset := n_size (nodes s (f_node ?d))\<rparr>) s else s"
  obtain ops where ops: "n_ops (nodes s (f_node ?d)) = Some ops" using True by auto
  obtain w t where w: "op_write ops (f_node ?d) (f_offset (fd_table ?s0 ! nat fd)) n buf ?s0 = Some (w, t)"
    using assms True ops by (auto simp: vfs_write_def Let_def bind_eq_Some_conv)
  show ?thesis
    using assms True ops w
    by (intro that(2) [OF _ refl _ ops refl w]) (auto simp: vfs_write_def Let_def split: if_splits)
qed

lemma vfs_write_ok:
  fixes s :: "'a vfs_scheme"
  assumes "vfs_write fd buf n s = Some (r, s')" "fd_ok s"
  shows "fd_ok s'"
  using assms(1)
proof (cases rule: vfs_write_cases)
  case 1
  then show ?thesis using assms(2) by simp
next
  case (2 d ops s0 w t)
  have s0: "fd_ok s0" "fd_open fd s0" using 2 assms(2) by (auto intro!: fd_ok_move fd_open_upd)
  have t: "fd_table t = fd_table s0" using op_more(1) [OF 2(6)] by (rule more_fields)
  have "fd_ok t" "fd_open fd t" using s0 t fd_ok_table fd_open_table by metis+
  then have "fd_ok (upd_fd fd (\<lambda>d. d\<lparr>f_offset := f_offset d + of_int r\<rparr>) t)" by (intro fd_ok_move) simp_all
  then show ?thesis using 2(8) \<open>fd_ok t\<close> fd_ok_table [OF upd_node_table(1)] by (auto simp: Let_def)
qed

lemma vfs_step_ok: "vfs_step s s' \<Longrightarrow> fd_ok s \<Longrightarrow> fd_ok s'"
  by (induction rule: vfs_step.induct)
    (simp_all add: vfs_open_ok vfs_close_ok vfs_read_ok vfs_write_ok vfs_seek_ok fd_ok_more [OF vfs_stat_more]
      fd_ok_more [OF vfs_create_more] fd_ok_more [OF vfs_unlink_more] fd_ok_more [OF vfs_readdir_more]
      fd_ok_more [OF vfs_symlink_more] fd_ok_more [OF vfs_readlink_more] fd_ok_table [OF vfs_mount_fds]
      fd_ok_table [OF vfs_umount_fds])

lemma vfs_init_ok: "fd_ok (vfs_init s)"
  by (simp add: vfs_init_def fd_ok_def free_fd_def)

lemma vfs_run_ok: "vfs_run s t \<Longrightarrow> fd_ok t"
  by (induction rule: vfs_run.induct) (auto simp: vfs_init_ok vfs_step_ok)

text \<open>
  C12: descriptors. After \<open>vfs_init\<close> and any sequence of calls, \<open>vfs_open\<close> either returns \<open>- 1\<close> and leaves
  the table of 64 descriptors as it was, or returns the lowest descriptor not in use and fills in that
  one only, with a node that is not \<open>NULL\<close>; closing it then succeeds and restores the table. A descriptor
  in use always has a node.
\<close>

theorem vfs_descriptors:
  fixes s :: "'a vfs_scheme"
  assumes "vfs_run s0 s" "vfs_open path flags s = Some (fd, s')"
  shows "(\<forall>k < 64. f_in_use (fd_table s ! k) \<longrightarrow> f_node (fd_table s ! k) \<noteq> 0) \<and>
    (fd = - 1 \<and> fd_table s' = fd_table s \<or>
     (\<exists>n < 64. fd = int n \<and> \<not> f_in_use (fd_table s ! n) \<and> (\<forall>j < n. f_in_use (fd_table s ! j)) \<and>
        f_in_use (fd_table s' ! n) \<and> f_node (fd_table s' ! n) \<noteq> 0 \<and>
        (\<forall>j. j \<noteq> n \<longrightarrow> fd_table s' ! j = fd_table s ! j) \<and>
        fst (vfs_close fd s') = 0 \<and> fd_table (snd (vfs_close fd s')) = fd_table s))"
proof -
  have ok: "fd_ok s" using assms(1) by (rule vfs_run_ok)
  then have len: "length (fd_table s) = 64" by (simp add: fd_ok_def)
  have nodes: "\<forall>k < 64. f_in_use (fd_table s ! k) \<longrightarrow> f_node (fd_table s ! k) \<noteq> 0"
    using ok len by (metis fd_ok_def nth_mem)
  from vfs_open_cases [OF assms(2) len] show ?thesis
  proof (elim disjE exE conjE)
    fix n d assume n: "n < 64" "fd = int n" "\<not> f_in_use (fd_table s ! n)" "\<forall>j < n. f_in_use (fd_table s ! j)"
      "fd_table s' = (fd_table s)[n := d]" "f_in_use d" "f_node d \<noteq> 0"
    then have "fd_table s ! n = free_fd" using ok len by (metis fd_ok_def nth_mem)
    then have "fd_table (snd (vfs_close fd s')) = fd_table s" "fst (vfs_close fd s') = 0"
      using n len by (auto simp: vfs_close_def fd_open_def upd_fd_table list_update_same_conv)
    then show ?thesis using n len nodes by (intro conjI disjI2 exI [of _ n]) auto
  qed (use nodes in simp)
qed

theorem vfs_descriptors_witness:
  "\<exists>s s'. vfs_run (vfs_init tree_vfs) s \<and> vfs_open [] 0 s = Some (0, s') \<and> fd_table (snd (vfs_close 0 s')) = fd_table s"
proof -
  let ?s = "(vfs_init tree_vfs)\<lparr>vfs_root := 0x20000C\<rparr>"
  have run': "vfs_run (vfs_init tree_vfs) ?s"
    by (rule vfs_run.step [OF vfs_run.start vfs_step.mounted [of "[47]" "0x20000C" _ 0]]) (simp add: vfs_mount_def)
  have root: "tree_root (nodes ?s 0x20000C)"
    by (simp add: vfs_init_def tree_vfs_def vfs.defs fsys.defs tree_root_def zero_node_def)
  then have "vfs_resolve_path [] ?s = Some (0x20000C, ?s)"
    by (simp add: resolve_walk vfs_check_mount_def tree_root_def)
  moreover have "fd_alloc ?s = 0" by (simp add: fd_alloc_def vfs_init_def free_fd_def numeral_eq_Suc)
  ultimately obtain s' where opened: "vfs_open [] 0 ?s = Some (0, s')"
    using root by (simp add: vfs_open_def tree_root_def dorifs_vfs_open_def Let_def)
  show ?thesis using vfs_descriptors [OF run' opened] run' opened by auto
qed

section \<open>What is kept beside the tables\<close>

text \<open>The filesystem leaves alone what is kept beside its tables.\<close>

lemma vmore_of_more: "fsys.more t = fsys.more s \<Longrightarrow> vfs.more t = vfs.more s" for s t :: "'a vfs_scheme"
  by (cases s; cases t) simp

lemma vmore_upd [simp]:
  "vfs.more (upd_fd fd f s) = vfs.more s" "vfs.more (upd_node p g s) = vfs.more s" for s :: "'a vfs_scheme"
  by (simp_all add: upd_fd_def upd_node_def)

lemma vfs_write_vmore:
  fixes s :: "'a vfs_scheme"
  assumes "vfs_write fd buf n s = Some (r, s')"
  shows "vfs.more s' = vfs.more s"
  using assms
proof (cases rule: vfs_write_cases)
  case (2 d ops s0 w t)
  have "vfs.more t = vfs.more s0" using op_more(1) [OF 2(6)] by (rule vmore_of_more)
  then show ?thesis using 2(5,8) by (auto simp: Let_def)
qed simp

lemma vfs_open_vmore:
  fixes s :: "'a vfs_scheme"
  assumes "vfs_open path flags s = Some (fd, s')"
  shows "vfs.more s' = vfs.more s"
  using assms by (cases rule: vfs_open_shape) (auto dest: vmore_of_more)

section \<open>Reading and writing at a position\<close>

text \<open>A descriptor on a file of DoriFS, not opened for appending.\<close>

definition fd_inv :: "int \<Rightarrow> u32 \<Rightarrow> 'a vfs_scheme \<Rightarrow> bool" where
  "fd_inv fd p s \<longleftrightarrow> fd_open fd s \<and> length (fd_table s) = 64 \<and> f_node (fd_table s ! nat fd) = p \<and> p \<noteq> 0 \<and>
     f_flags (fd_table s ! nat fd) AND VFS_O_APPEND = 0 \<and> n_ops (nodes s p) = Some Dorifs_Ops \<and> file_inv p s"

definition fd_pos :: "int \<Rightarrow> 'a vfs_scheme \<Rightarrow> u32" where
  "fd_pos fd s = f_offset (fd_table s ! nat fd)"

text \<open>Seeking and then writing or reading.\<close>

definition seek_write :: "int \<Rightarrow> u32 \<Rightarrow> u32 \<Rightarrow> u8 list \<Rightarrow> 'a vfs_scheme \<Rightarrow> (u32 option \<times> 'a vfs_scheme) option" where
  "seek_write fd off n buf s =
     do { (r, s) \<leftarrow> vfs_write fd buf n (snd (vfs_seek fd off 0 s));
          Some (if r < 0 then None else Some (of_int r), s) }"

definition seek_read :: "int \<Rightarrow> u32 \<Rightarrow> u32 \<Rightarrow> 'a vfs_scheme \<Rightarrow> u8 list option option" where
  "seek_read fd off n s = map_option fst (vfs_read fd n (snd (vfs_seek fd off 0 s)))"

text \<open>A file does not change with what the layer above keeps.\<close>

lemma file_same:
  fixes s t :: "'a fsys_scheme"
  assumes "fs_disk t = fs_disk s" "fs_lba t = fs_lba s" "sb t = sb s" "data_bitmap t = data_bitmap s"
    "n_inode (nodes t p) = n_inode (nodes s p)"
  shows "file_inv p t = file_inv p s" "file_byte p t = file_byte p s" "file_len p t = file_len p s"
proof -
  have b: "blk t = blk s" "block_ok t = block_ok s" by (simp_all add: blk_def block_ok_def assms fun_eq_iff)
  have t: "taken t = taken s" by (simp add: taken_def assms fun_eq_iff)
  have i: "ino_at t = ino_at s" by (simp add: ino_at_def b inode_block_def assms fun_eq_iff)
  have f: "fbyte i t = fbyte i s" "file_ok i t = file_ok i s" for i
    unfolding fbyte_def b by (simp_all add: file_ok_def data_block_def in_use_def t assms fun_eq_iff)
  show "file_inv p t = file_inv p s" "file_byte p t = file_byte p s" "file_len p t = file_len p s"
    by (simp_all add: file_inv_def file_byte_def file_len_def fs_ok_def layout_ok_def synced_def ino_ok_def b i f assms)
qed

lemma upd_fd_same [simp]:
  "fs_disk (upd_fd fd f s) = fs_disk s" "fs_lba (upd_fd fd f s) = fs_lba s" "sb (upd_fd fd f s) = sb s"
  "data_bitmap (upd_fd fd f s) = data_bitmap s" "nodes (upd_fd fd f s) = nodes s"
  by (simp_all add: upd_fd_def)

lemma file_upd_fd [simp]: "file_inv p (upd_fd fd f s) = file_inv p s" "file_byte p (upd_fd fd f s) = file_byte p s"
  "file_len p (upd_fd fd f s) = file_len p s"
  by (rule file_same; simp)+

lemma file_upd_size [simp]:
  "file_inv p (upd_node q (\<lambda>n. n\<lparr>n_size := k\<rparr>) s) = file_inv p s"
  "file_byte p (upd_node q (\<lambda>n. n\<lparr>n_size := k\<rparr>) s) = file_byte p s"
  "file_len p (upd_node q (\<lambda>n. n\<lparr>n_size := k\<rparr>) s) = file_len p s"
  by (rule file_same; simp add: upd_node_def)+

lemma upd_size_ops [simp]: "n_ops (nodes (upd_node q (\<lambda>n. n\<lparr>n_size := k\<rparr>) s) p) = n_ops (nodes s p)"
  by (simp add: upd_node_def)

lemma fd_inv_seek: "fd_inv fd p s \<Longrightarrow> fd_inv fd p (snd (vfs_seek fd off 0 s)) \<and> fd_pos fd (snd (vfs_seek fd off 0 s)) = off \<and>
   file_byte p (snd (vfs_seek fd off 0 s)) = file_byte p s \<and> file_len p (snd (vfs_seek fd off 0 s)) = file_len p s"
  by (auto simp: fd_inv_def vfs_seek_def Let_def fd_open_def upd_fd_table fd_pos_def)

lemma seek_id: "fd_inv fd p s \<Longrightarrow> fd_pos fd s = off \<Longrightarrow> snd (vfs_seek fd off 0 s) = s"
  by (auto simp: vfs_seek_def fd_inv_def upd_fd_def fd_pos_def Let_def)

lemma uint_zeroD: "uint (w :: u32) = 0 \<Longrightarrow> w = 0"
  by (simp add: word_uint_eq_iff)

text \<open>One write at the position of the descriptor.\<close>

lemma fd_write_spec:
  fixes s :: "'a vfs_scheme"
  assumes inv: "fd_inv fd p s" and "unat (fd_pos fd s) + unat n \<le> 49152" "unat n \<le> length buf"
  shows "\<exists>m s'. vfs_write fd buf n s = Some (uint m, s') \<and> unat m \<le> unat n \<and> fd_inv fd p s' \<and>
    fd_pos fd s' = fd_pos fd s + m \<and> file_len p s \<le> file_len p s' \<and> unat (fd_pos fd s) + unat m \<le> file_len p s' \<and>
    overwritten (unat (fd_pos fd s)) (unat m) buf 49152 (file_byte p s) (file_byte p s')"
proof -
  let ?off = "fd_pos fd s"
  have d: "fd_open fd s" "length (fd_table s) = 64" "f_node (fd_table s ! nat fd) = p" "p \<noteq> 0"
    "f_flags (fd_table s ! nat fd) AND VFS_O_APPEND = 0" "n_ops (nodes s p) = Some Dorifs_Ops" "file_inv p s"
    using inv by (simp_all add: fd_inv_def)
  have fd: "nat fd < 64" using d(1) by (auto simp: fd_open_def)
  obtain m t where w: "dorifs_vfs_write p ?off n buf s = Some (Some m, t)" "unat m \<le> unat n" "file_inv p t"
    "file_len p s \<le> file_len p t" "unat ?off + unat m \<le> file_len p t"
    "overwritten (unat ?off) (unat m) buf 49152 (file_byte p s) (file_byte p t)" "n_ops (nodes t p) = n_ops (nodes s p)"
    using dorifs_write_spec [OF d(7) assms(2,3)] by blast
  have tab: "fd_table t = fd_table s" using vfs_write_more [OF w(1)] by (rule more_fields)
  have sint: "sint m = uint m"
    using w(2) assms(2) by (intro sint_small) simp
  let ?u = "upd_fd fd (\<lambda>d. d\<lparr>f_offset := f_offset d + of_int (sint m)\<rparr>) t"
  let ?o = "f_offset (fd_table ?u ! nat fd)"
  let ?s = "if sint m \<le> 0 then t
    else if n_size (nodes ?u p) < ?o then upd_node p (\<lambda>n. n\<lparr>n_size := ?o\<rparr>) ?u else ?u"
  have "vfs_write fd buf n s = Some (sint m, ?s)"
    using d w(1) by (simp add: vfs_write_def fd_pos_def Let_def)
  moreover have "fd_inv fd p ?s"
    using d w(3,7) tab fd by (auto simp: fd_inv_def upd_fd_table fd_open_def)
  moreover have "fd_pos fd ?s = ?off + m"
    using d tab fd sint by (auto simp: fd_pos_def upd_fd_table dest!: uint_zeroD)
  moreover have "file_byte p ?s = file_byte p t" "file_len p ?s = file_len p t" by simp_all
  ultimately show ?thesis using w(2,4-6) sint by auto
qed

text \<open>The contract of a byte file holds through a descriptor too.\<close>

lemma fd_read_spec:
  fixes s :: "'a vfs_scheme"
  assumes inv: "fd_inv fd p s" and "unat (fd_pos fd s) + unat n \<le> 49152" "unat (fd_pos fd s) + unat n \<le> file_len p s"
    and "length bs = unat n" "\<And>k. k < unat n \<Longrightarrow> file_byte p s (unat (fd_pos fd s) + k) = Some (bs ! k)"
  shows "vfs_read fd n s = Some (Some bs, upd_fd fd (\<lambda>d. d\<lparr>f_offset := f_offset d + n\<rparr>) s)"
proof -
  have "dorifs_vfs_read p (fd_pos fd s) n s = Some (Some bs)"
    using assms dorifs_file.rd_spec [of p s "fd_pos fd s" n bs] by (simp add: fd_inv_def)
  moreover have "of_nat (length bs) = n" using assms(4) by simp
  ultimately show ?thesis using inv by (simp add: vfs_read_def fd_inv_def fd_pos_def Let_def)
qed

interpretation vfs_fd: byte_file "seek_read fd" "seek_write fd" "file_byte p" "fd_inv fd p" "file_len p" 49152
  for fd p
proof (unfold_locales, goal_cases)
  case (2 s off n buf)
  note s = fd_inv_seek [OF 2(1), of off]
  obtain m :: u32 and t where w: "vfs_write fd buf n (snd (vfs_seek fd off 0 s)) = Some (uint m, t)"
    "unat m \<le> unat n" "fd_inv fd p t" "file_len p s \<le> file_len p t" "unat off + unat m \<le> file_len p t"
    "overwritten (unat off) (unat m) buf 49152 (file_byte p s) (file_byte p t)"
    using fd_write_spec [of fd p "snd (vfs_seek fd off 0 s)" n buf] s 2(2,3) by auto
  have "seek_write fd off n buf s = Some (Some m, t)" using w(1) by (simp add: seek_write_def)
  then show ?case using w(2-6) by blast
next
  case (3 s off n bs)
  note s = fd_inv_seek [OF 3(1), of off]
  have "vfs_read fd n (snd (vfs_seek fd off 0 s)) =
      Some (Some bs, upd_fd fd (\<lambda>d. d\<lparr>f_offset := f_offset d + n\<rparr>) (snd (vfs_seek fd off 0 s)))"
    using s 3 by (intro fd_read_spec [of fd p]) simp_all
  then show ?case by (simp add: seek_read_def)
qed simp

text \<open>A caller that writes piece after piece; \<open>None\<close> unless each is written in full.\<close>

primrec fd_write_all :: "int \<Rightarrow> u8 list list \<Rightarrow> 'a vfs_scheme \<Rightarrow> 'a vfs_scheme option" where
  "fd_write_all fd [] s = Some s"
| "fd_write_all fd (c # cs) s =
     do { (r, s) \<leftarrow> vfs_write fd c (of_nat (length c)) s;
          if r = int (length c) then fd_write_all fd cs s else None }"

lemma fd_write_all_pieces:
  "fd_inv fd p s \<Longrightarrow> unat (fd_pos fd s) + length (concat cs) \<le> 49152 \<Longrightarrow> fd_write_all fd cs s = Some s' \<Longrightarrow>
   write_pieces (seek_write fd) (fd_pos fd s) cs s = Some (fd_pos fd s', s') \<and> fd_inv fd p s'"
proof (induction cs arbitrary: s)
  case (Cons c cs)
  have n: "unat (of_nat (length c) :: u32) = length c" using Cons.prems(2) by (intro unat_of_nat_u32) simp
  obtain m t where w: "vfs_write fd c (of_nat (length c)) s = Some (uint m, t)" "fd_inv fd p t"
    "fd_pos fd t = fd_pos fd s + m"
    using fd_write_spec [OF Cons.prems(1), of "of_nat (length c)" c] Cons.prems(2) n by auto
  have m: "unat m = length c" and rest: "fd_write_all fd cs t = Some s'"
    using Cons.prems(3) w(1) nat_int [of "length c"] by (auto simp: unat_eq_nat_uint [of m] simp del: nat_uint_eq split: if_splits)
  have pos: "unat (fd_pos fd t) = unat (fd_pos fd s) + length c"
    unfolding w(3) using Cons.prems(2) m by (subst unat_add_u32) simp_all
  have m': "m = of_nat (length c)" using m by (metis of_nat_unat ucast_id)
  have "seek_write fd (fd_pos fd s) (of_nat (length c)) c s = Some (Some m, t)"
    using w(1) seek_id [OF Cons.prems(1) refl] by (simp add: seek_write_def)
  then show ?case using Cons.IH [OF w(2) _ rest] Cons.prems(2) pos w(3) m' by simp
qed simp


definition file_vfs_with :: "'a \<Rightarrow> 'a vfs_scheme" where
  "file_vfs_with x = vfs.extend (fsys.extend (demo_fs\<lparr>nodes := (\<lambda>p. zero_node\<lparr>n_inode := 2, n_ops := Some Dorifs_Ops\<rparr>)\<rparr>)
     (vfs.fields 1 (replicate 64 \<lparr>f_node = 0x20000C, f_offset = 0, f_flags = 0, f_in_use = True\<rparr>) [])) x"

abbreviation "file_vfs \<equiv> file_vfs_with ()"

lemma file_vfs_inv: "fd_inv 3 0x20000C (file_vfs_with x)" "fd_pos 3 (file_vfs_with x) = 0"
proof -
  note f = file_vfs_with_def vfs.defs fsys.defs
  have "file_inv 0x20000C (file_vfs_with x) = file_inv 2 demo_fs"
  proof -
    have b: "blk (file_vfs_with x) = blk demo_fs" "block_ok (file_vfs_with x) = block_ok demo_fs" "taken (file_vfs_with x) = taken demo_fs"
      by (simp_all add: f blk_def block_ok_def taken_def fun_eq_iff)
    have "ino_at (file_vfs_with x) = ino_at demo_fs" by (simp add: ino_at_def b inode_block_def fun_eq_iff) (simp add: f)
    then show ?thesis
      by (simp add: file_inv_def fs_ok_def layout_ok_def synced_def ino_ok_def file_ok_def data_block_def in_use_def b)
        (simp add: f demo_ok(4) zero_node_def)
  qed
  then have "file_inv 0x20000C (file_vfs_with x)" using demo_ok(1,2,3) demo_ino_at by (simp add: file_inv_def demo_ok(4))
  then show "fd_inv 3 0x20000C (file_vfs_with x)" by (simp add: fd_inv_def f fd_open_def zero_node_def)
  show "fd_pos 3 (file_vfs_with x) = 0" by (simp add: fd_pos_def f)
qed


end
