(* ===== verification/Vfs_Reading.thy ===== *)
theory Vfs_Reading
  imports Vfs_Files
begin

text \<open>
  Reading a file to its end: what a read returns at any position, for the programs and commands that
  read until nothing comes any more.
\<close>

section \<open>Reading a file to its end\<close>

text \<open>The file behind the node at \<open>p\<close> holds exactly the bytes \<open>bs\<close>, within its direct blocks.\<close>

definition file_holds :: "u32 \<Rightarrow> u8 list \<Rightarrow> 'a fsys_scheme \<Rightarrow> bool" where
  "file_holds p bs s \<longleftrightarrow> file_inv p s \<and> n_ops (nodes s p) = Some Dorifs_Ops \<and> length bs = file_len p s \<and>
     length bs \<le> 49152 \<and> (\<forall>k < length bs. file_byte p s k = Some (bs ! k))"

lemma dorifs_read_file:
  fixes off n :: u32
  assumes "file_holds p bs s" "unat off \<le> length bs" "unat n \<le> 1048576"
  shows "dorifs_vfs_read p off n s = Some (Some (take (unat n) (drop (unat off) bs)))"
proof -
  have h: "file_inv p s" "length bs = file_len p s" "length bs \<le> 49152" "\<And>k. k < length bs \<Longrightarrow> file_byte p s k = Some (bs ! k)"
    using assms(1) by (auto simp: file_holds_def)
  let ?i = "ino_at s (n_inode (nodes s p))"
  have rd: "dorifs_read_inode (n_inode (nodes s p)) s = Some ?i"
    using h(1) read_inode by (auto simp: file_inv_def fs_ok_def)
  have size: "unat (i_size ?i) = length bs" using h(2) by (simp add: file_len_def)
  have exact: "dorifs_vfs_read p off m s = Some (Some (take (unat m) (drop (unat off) bs)))" if "unat off + unat m \<le> length bs" for m
    using dorifs_file.rd_spec [of p s off m "take (unat m) (drop (unat off) bs)"] h that by simp
  have sum: "unat (off + n) = unat off + unat n" using assms(2,3) h(3) by (intro unat_add_u32) simp
  show ?thesis
  proof (cases "unat off + unat n \<le> length bs")
    case False
    then have lt: "i_size ?i < off + n" using sum size by (simp add: unat_less_u32)
    show ?thesis
    proof (cases "i_size ?i \<le> off")
      case True
      then show ?thesis using rd size assms(2) by (simp add: dorifs_vfs_read_def unat_le_u32)
    next
      case less: False
      let ?m = "i_size ?i - off"
      have m: "unat ?m = length bs - unat off" using assms(2) size by (subst unat_sub_u32) simp_all
      have "dorifs_vfs_read p off n s = dorifs_vfs_read p off ?m s" using rd lt less by (simp add: dorifs_vfs_read_def)
      also have "\<dots> = Some (Some (drop (unat off) bs))" using exact [of ?m] m assms(2) by simp
      finally show ?thesis using False by simp
    qed
  qed (rule exact)
qed

text \<open>A descriptor at position \<open>pos\<close> of that file.\<close>

definition reads :: "int \<Rightarrow> nat \<Rightarrow> u32 \<Rightarrow> u8 list \<Rightarrow> 'a vfs_scheme \<Rightarrow> bool" where
  "reads fd pos p bs s \<longleftrightarrow> fd_open fd s \<and> length (fd_table s) = 64 \<and> f_node (fd_table s ! nat fd) = p \<and> p \<noteq> 0 \<and>
     unat (f_offset (fd_table s ! nat fd)) = pos \<and> pos \<le> length bs \<and> file_holds p bs s"

lemma file_holds_same:
  fixes s t :: "'a fsys_scheme"
  assumes "fs_disk t = fs_disk s" "fs_lba t = fs_lba s" "sb t = sb s" "data_bitmap t = data_bitmap s"
    "n_inode (nodes t p) = n_inode (nodes s p)" "n_ops (nodes t p) = n_ops (nodes s p)"
  shows "file_holds p bs t = file_holds p bs s"
  using file_same [OF assms(1-5)] assms(6) by (simp add: file_holds_def)

lemma fd_read_file:
  fixes n :: u32
  assumes "reads fd pos p bs s" "unat n \<le> 1048576"
  shows "vfs_read fd n s = Some (Some (take (unat n) (drop pos bs)),
      upd_fd fd (\<lambda>d. d\<lparr>f_offset := f_offset d + of_nat (length (take (unat n) (drop pos bs)))\<rparr>) s)"
    "reads fd (pos + length (take (unat n) (drop pos bs))) p bs
      (upd_fd fd (\<lambda>d. d\<lparr>f_offset := f_offset d + of_nat (length (take (unat n) (drop pos bs)))\<rparr>) s)"
proof -
  have r: "fd_open fd s" "length (fd_table s) = 64" "f_node (fd_table s ! nat fd) = p" "p \<noteq> 0"
    "unat (f_offset (fd_table s ! nat fd)) = pos" "pos \<le> length bs" "file_holds p bs s" using assms(1) by (simp_all add: reads_def)
  have ops: "n_ops (nodes s p) = Some Dorifs_Ops" using r(7) by (simp add: file_holds_def)
  show "vfs_read fd n s = Some (Some (take (unat n) (drop pos bs)),
      upd_fd fd (\<lambda>d. d\<lparr>f_offset := f_offset d + of_nat (length (take (unat n) (drop pos bs)))\<rparr>) s)"
    using dorifs_read_file [OF r(7), of "f_offset (fd_table s ! nat fd)" n] r ops assms(2) by (simp add: vfs_read_def Let_def)
  let ?k = "length (take (unat n) (drop pos bs))"
  have len: "length bs \<le> 49152" using r(7) by (simp add: file_holds_def)
  then have k: "unat (of_nat ?k :: u32) = ?k" by (intro unat_of_nat_u32) simp
  have "unat (f_offset (fd_table s ! nat fd) + of_nat ?k) = pos + ?k"
    using r(5,6) k len by (subst unat_add_u32) auto
  moreover have fd: "nat fd < 64" using r(1) by (auto simp: fd_open_def)
  moreover have "file_holds p bs (upd_fd fd f s)" for f using r(7) by (subst file_holds_same [of _ s]) simp_all
  ultimately show "reads fd (pos + ?k) p bs (upd_fd fd (\<lambda>d. d\<lparr>f_offset := f_offset d + of_nat ?k\<rparr>) s)"
    using r by (auto simp: reads_def upd_fd_table fd_open_def)
qed

section \<open>What a write leaves for reading\<close>

lemma dorifs_write_nodes:
  assumes "file_inv p s" "unat offset + unat size' \<le> 49152" "unat size' \<le> length buffer"
    and w: "dorifs_vfs_write p offset size' buffer s = Some (Some m, s')"
  shows "like_node (nodes s' q) (nodes s q)"
proof -
  have a: "fs_ok s" "ino_ok s (n_inode (nodes s p))" "file_ok (ino_at s (n_inode (nodes s p))) s"
    using assms(1) by (simp_all add: file_inv_def)
  show ?thesis
    by (rule vfs_write_core [OF a assms(2,3)]) (use w in auto)
qed

lemma fd_write_len:
  fixes s :: "'a vfs_scheme" and m :: u32
  assumes inv: "fd_inv fd p s" and "unat (fd_pos fd s) + unat n \<le> 49152" "unat n \<le> length buf"
    and "vfs_write fd buf n s = Some (uint m, s')"
  shows "file_len p s' = max (file_len p s) (unat (fd_pos fd s) + unat m)"
    "like_node (nodes s' q) (nodes s q)"
proof -
  have d: "fd_open fd s" "f_node (fd_table s ! nat fd) = p" "p \<noteq> 0" "f_flags (fd_table s ! nat fd) AND VFS_O_APPEND = 0"
    "n_ops (nodes s p) = Some Dorifs_Ops" "file_inv p s" using inv by (simp_all add: fd_inv_def)
  obtain k t where w: "dorifs_vfs_write p (fd_pos fd s) n buf s = Some (Some k, t)" "unat k \<le> unat n"
    using dorifs_write_spec [OF d(6) assms(2,3)] by blast
  have k: "sint k = uint k" using w(2) assms(2) by (intro sint_small) simp
  have "fst (the (vfs_write fd buf n s)) = sint k" "file_len p (snd (the (vfs_write fd buf n s))) = file_len p t"
    "like_node (nodes (snd (the (vfs_write fd buf n s))) q) (nodes t q)"
    using d w(1) by (simp_all add: vfs_write_def fd_pos_def Let_def) (simp add: upd_node_def like_node_def)
  then have "uint m = uint k" and t: "file_len p s' = file_len p t" "like_node (nodes s' q) (nodes t q)"
    using assms(4) k by simp_all
  then have "m = k" by (intro word_uint_eqI)
  then show "file_len p s' = max (file_len p s) (unat (fd_pos fd s) + unat m)"
    using dorifs_write_len [OF d(6) assms(2,3) w(1)] t(1) by simp
  show "like_node (nodes s' q) (nodes s q)"
    using like_node_trans [OF t(2)] dorifs_write_nodes [OF d(6) assms(2,3) w(1)] .
qed

text \<open>A write of a whole text into an empty file.\<close>

lemma fill_file:
  fixes s :: "'a vfs_scheme"
  assumes inv: "fd_inv fd p s" "fd_pos fd s = 0" "file_len p s = 0" and len: "length data \<le> 4096" "data \<noteq> []"
  shows "\<exists>m s'. vfs_write fd data (of_nat (length data)) s = Some (int m, s') \<and> m \<le> length data \<and>
    ((\<exists>j < total_data_blocks s. \<not> taken s j) \<longrightarrow> m = length data) \<and> fd_inv fd p s' \<and>
    file_holds p (take m data) s' \<and> (\<forall>q. like_node (nodes s' q) (nodes s q))"
proof -
  let ?n = "of_nat (length data) :: u32"
  have n: "unat ?n = length data" using len(1) by (intro unat_of_nat_u32) simp
  have "unat (fd_pos fd s) + unat ?n \<le> 49152" "unat ?n \<le> length data" using inv(2) len(1) n by simp_all
  then obtain m :: u32 and s' where w: "vfs_write fd data ?n s = Some (uint m, s')" "unat m \<le> unat ?n" "fd_inv fd p s'"
    "overwritten (unat (fd_pos fd s)) (unat m) data 49152 (file_byte p s) (file_byte p s')"
    using fd_write_spec [OF inv(1)] by blast
  have l: "file_len p s' = unat m" "\<And>q. like_node (nodes s' q) (nodes s q)"
    using fd_write_len [OF inv(1) _ _ w(1)] inv(2,3) len(1) n by simp_all
  have "file_holds p (take (unat m) data) s'"
    using w(2-4) l(1) n len(1) inv(2) by (auto simp: file_holds_def fd_inv_def overwritten_def)
  moreover have "unat m = length data" if free: "j < total_data_blocks s" "\<not> taken s j" for j
  proof -
    have f: "file_inv p s" "f_flags (fd_table s ! nat fd) AND VFS_O_APPEND = 0" using inv(1) by (simp_all add: fd_inv_def)
    have "0 < ?n" using n len(2) by (simp add: unat_less_u32)
    then obtain t where "dorifs_vfs_write p 0 ?n data s = Some (Some ?n, t)"
      using dorifs_write_full [OF f(1), of 0 ?n data j] free n len(1) by auto
    then have "fst (the (vfs_write fd data ?n s)) = sint ?n"
      using inv(1,2) by (simp add: vfs_write_def fd_inv_def fd_pos_def Let_def)
    moreover have "sint ?n = uint ?n" using n len(1) by (intro sint_small) simp
    ultimately have "m = ?n" using w(1) by (simp add: word_uint_eq_iff)
    then show ?thesis using n by simp
  qed
  ultimately show ?thesis using w(1-3) l(2) n by (intro exI [of _ "unat m"] exI [of _ s']) auto
qed

lemma fd_inv_reads: "fd_inv fd p s \<Longrightarrow> file_holds p bs s \<Longrightarrow> reads fd 0 p bs (snd (vfs_seek fd 0 0 s))"
  using fd_inv_seek [of fd p s 0] file_holds_same [of "snd (vfs_seek fd 0 0 s)" s p bs]
  by (auto simp: reads_def fd_inv_def fd_pos_def vfs_seek_def Let_def)

lemma file_vfs_len: "file_len 0x20000C (file_vfs_with x) = 0"
proof -
  have "blk (file_vfs_with x) = blk demo_fs" by (simp add: file_vfs_with_def blk_def fsys.defs vfs.defs fun_eq_iff)
  then have "ino_at (file_vfs_with x) 2 = ino_at demo_fs 2"
    by (simp add: ino_at_def inode_block_def) (simp add: file_vfs_with_def fsys.defs vfs.defs)
  moreover have "n_inode (nodes (file_vfs_with x) 0x20000C) = 2" by (simp add: file_vfs_with_def fsys.defs vfs.defs)
  ultimately show ?thesis by (simp add: file_len_def demo_ino_at zero_inode_def)
qed

end
