(* ===== verification/Keyboard.thy ===== *)
theory Keyboard
  imports Interfaces
begin

text \<open>
  The PS/2 keyboard driver, \<open>drivers/keyboard.c\<close>: the interrupt handler translates scan codes of set 1
  and fills two ring buffers, one of characters and one of raw scan codes, which the shell and the desktop
  empty. Characters are their codes; \<open>char\<close> is signed in the code, but no character of the tables is above
  127. A blocking read that would wait is \<open>None\<close>: it waits for the interrupt handler, which is another step.
\<close>

section \<open>State\<close>

record keyboard =
  kb_buffer :: "u8 list"
  kb_buffer_head :: u32
  kb_buffer_tail :: u32
  sc_buffer :: "u8 list"
  sc_head :: u32
  sc_tail :: u32
  key_held :: "bool list"
  shift_pressed :: bool
  caps_lock :: bool
  ctrl_pressed :: bool

abbreviation (input) KB_BUFFER_SIZE :: nat where "KB_BUFFER_SIZE \<equiv> 256"

text \<open>The state before the first instruction: static storage is zero.\<close>

definition keyboard_static :: keyboard where
  "keyboard_static = \<lparr>kb_buffer = replicate KB_BUFFER_SIZE 0, kb_buffer_head = 0, kb_buffer_tail = 0,
     sc_buffer = replicate KB_BUFFER_SIZE 0, sc_head = 0, sc_tail = 0, key_held = replicate 128 False,
     shift_pressed = False, caps_lock = False, ctrl_pressed = False\<rparr>"

definition scancode_ascii :: "u8 list" where
  "scancode_ascii =
     [0, 27, 49, 50, 51, 52, 53, 54, 55, 56, 57, 48, 45, 61, 8,
      9, 113, 119, 101, 114, 116, 121, 117, 105, 111, 112, 91, 93, 10,
      0, 97, 115, 100, 102, 103, 104, 106, 107, 108, 59, 39, 96,
      0, 92, 122, 120, 99, 118, 98, 110, 109, 44, 46, 47, 0,
      42, 0, 32, 0, 0, 0, 0, 0, 0, 0, 0, 0, 0, 0, 0, 0,
      55, 56, 57, 45, 52, 53, 54, 43, 49, 50, 51, 48, 46]"

definition scancode_ascii_shift :: "u8 list" where
  "scancode_ascii_shift =
     [0, 27, 33, 64, 35, 36, 37, 94, 38, 42, 40, 41, 95, 43, 8,
      9, 81, 87, 69, 82, 84, 89, 85, 73, 79, 80, 123, 125, 10,
      0, 65, 83, 68, 70, 71, 72, 74, 75, 76, 58, 34, 126,
      0, 124, 90, 88, 67, 86, 66, 78, 77, 60, 62, 63, 0,
      42, 0, 32, 0, 0, 0, 0, 0, 0, 0, 0, 0, 0, 0, 0, 0,
      55, 56, 57, 45, 52, 53, 54, 43, 49, 50, 51, 48, 46]"

section \<open>Operations\<close>

definition sc_buffer_push :: "u8 \<Rightarrow> keyboard \<Rightarrow> keyboard" where
  "sc_buffer_push sc s =
     (let next = (sc_head s + 1) mod 256
      in if next \<noteq> sc_tail s
         then s\<lparr>sc_buffer := (sc_buffer s)[unat (sc_head s) := sc], sc_head := next\<rparr> else s)"

definition kb_buffer_push :: "u8 \<Rightarrow> keyboard \<Rightarrow> keyboard" where
  "kb_buffer_push c s =
     (let next = (kb_buffer_head s + 1) mod 256
      in if next \<noteq> kb_buffer_tail s
         then s\<lparr>kb_buffer := (kb_buffer s)[unat (kb_buffer_head s) := c], kb_buffer_head := next\<rparr> else s)"

text \<open>The character of a key, 0 for none: the table lookups and the case conversions.\<close>

definition key_char :: "bool \<Rightarrow> bool \<Rightarrow> u8 \<Rightarrow> u8" where
  "key_char shift caps scancode =
     (let use_shift = (shift \<noteq> caps);
          c = (if use_shift then scancode_ascii_shift ! unat scancode else scancode_ascii ! unat scancode)
      in if caps \<and> \<not> shift then (if 97 \<le> c \<and> c \<le> 122 then c - 32 else c)
         else if caps \<and> shift then (if 65 \<le> c \<and> c \<le> 90 then c + 32 else c)
         else c)"

text \<open>The interrupt handler, for the scan code read from the port.\<close>

definition keyboard_callback :: "u8 \<Rightarrow> keyboard \<Rightarrow> keyboard" where
  "keyboard_callback scancode s =
     (let s = sc_buffer_push scancode s
      in if scancode AND 0x80 \<noteq> 0
         then let released = scancode AND 0x7F;
                  s = (if released < 128 then s\<lparr>key_held := (key_held s)[unat released := False]\<rparr> else s);
                  s = (if released = 0x2A \<or> released = 0x36 then s\<lparr>shift_pressed := False\<rparr> else s)
              in if released = 0x1D then s\<lparr>ctrl_pressed := False\<rparr> else s
         else if scancode < 128 \<and> key_held s ! unat scancode then s
         else let s = (if scancode < 128 then s\<lparr>key_held := (key_held s)[unat scancode := True]\<rparr> else s)
         in if scancode = 0x2A \<or> scancode = 0x36 then s\<lparr>shift_pressed := True\<rparr>
         else if scancode = 0x1D then s\<lparr>ctrl_pressed := True\<rparr>
         else if scancode = 0x3A then s\<lparr>caps_lock := \<not> caps_lock s\<rparr>
         else if length scancode_ascii \<le> unat scancode then s
         else let c = key_char (shift_pressed s) (caps_lock s) scancode
         in if c \<noteq> 0
            then if ctrl_pressed s \<and> (c = 99 \<or> c = 67) then kb_buffer_push 3 s else kb_buffer_push c s
            else s)"

definition keyboard_init :: "keyboard \<Rightarrow> keyboard" where
  "keyboard_init s = s\<lparr>kb_buffer_head := 0, kb_buffer_tail := 0, sc_head := 0, sc_tail := 0\<rparr>"

definition keyboard_getchar :: "keyboard \<Rightarrow> (u8 \<times> keyboard) option" where
  "keyboard_getchar s =
     (if kb_buffer_tail s = kb_buffer_head s then None
      else Some (kb_buffer s ! unat (kb_buffer_tail s), s\<lparr>kb_buffer_tail := (kb_buffer_tail s + 1) mod 256\<rparr>))"

definition keyboard_get_char :: "keyboard \<Rightarrow> u8 \<times> keyboard" where
  "keyboard_get_char s =
     (if kb_buffer_tail s = kb_buffer_head s then (0, s)
      else (kb_buffer s ! unat (kb_buffer_tail s), s\<lparr>kb_buffer_tail := (kb_buffer_tail s + 1) mod 256\<rparr>))"

definition keyboard_has_input :: "keyboard \<Rightarrow> bool" where
  "keyboard_has_input s \<longleftrightarrow> kb_buffer_tail s \<noteq> kb_buffer_head s"

definition keyboard_get_scancode :: "keyboard \<Rightarrow> u8 \<times> keyboard" where
  "keyboard_get_scancode s =
     (if sc_tail s = sc_head s then (0, s)
      else (sc_buffer s ! unat (sc_tail s), s\<lparr>sc_tail := (sc_tail s + 1) mod 256\<rparr>))"

section \<open>Ring buffers\<close>

text \<open>The elements between tail and head, oldest first.\<close>

definition ring :: "'a list \<Rightarrow> nat \<Rightarrow> nat \<Rightarrow> 'a list" where
  "ring buf h t = map (\<lambda>i. buf ! ((t + i) mod 256)) [0..<(h + 256 - t) mod 256]"

lemma mod_256: "x < 512 \<Longrightarrow> x mod 256 = (if x < 256 then x else x - 256)" for x :: nat
  by (simp add: mod_if)

lemma ring_dist:
  "h < 256 \<Longrightarrow> t < 256 \<Longrightarrow> (h + 256 - t) mod 256 = (if t \<le> h then h - t else h + 256 - t)" for h t :: nat
  by (subst mod_256) auto

lemma ring_succ: "h < 256 \<Longrightarrow> (h + 1) mod 256 = (if h = 255 then 0 else h + 1)" for h :: nat
  by (subst mod_256) auto

lemma ring_same [simp]: "ring buf h h = []"
  by (simp add: ring_def)

lemma ring_length: "length (ring buf h t) = (h + 256 - t) mod 256"
  by (simp add: ring_def)

lemma ring_full:
  assumes "h < 256" "t < 256"
  shows "(h + 1) mod 256 \<noteq> t \<longleftrightarrow> length (ring buf h t) < 255"
  using assms unfolding ring_length ring_dist [OF assms] ring_succ [OF assms(1)] by (simp split: if_splits) arith

lemma ring_push:
  assumes "length buf = 256" "h < 256" "t < 256" "(h + 1) mod 256 \<noteq> t"
  shows "ring (buf[h := x]) ((h + 1) mod 256) t = ring buf h t @ [x]"
proof -
  let ?n = "(h + 256 - t) mod 256"
  have h': "(h + 1) mod 256 < 256" by simp
  have n: "((h + 1) mod 256 + 256 - t) mod 256 = Suc ?n"
    unfolding ring_dist [OF h' assms(3)] ring_dist [OF assms(2,3)]
    using assms(2-4) unfolding ring_succ [OF assms(2)] by (auto split: if_splits)
  have last: "(t + ?n) mod 256 = h"
    unfolding ring_dist [OF assms(2,3)] using assms(2,3) by (simp add: mod_256)
  have "buf[h := x] ! ((t + i) mod 256) = buf ! ((t + i) mod 256)" if "i < ?n" for i
  proof -
    have "(t + i) mod 256 \<noteq> h"
      using that assms(2,3) unfolding ring_dist [OF assms(2,3)]
      by (subst mod_256) (auto split: if_splits)
    then show ?thesis by simp
  qed
  then have "map (\<lambda>i. buf[h := x] ! ((t + i) mod 256)) [0..<?n] = ring buf h t"
    by (auto simp: ring_def)
  then show ?thesis using assms(1,2) last unfolding ring_def n by simp
qed

lemma ring_pop:
  assumes "h < 256" "t < 256" "h \<noteq> t"
  shows "ring buf h t = buf ! t # ring buf h ((t + 1) mod 256)"
proof -
  have t': "(t + 1) mod 256 < 256" by simp
  have n: "(h + 256 - t) mod 256 = Suc ((h + 256 - (t + 1) mod 256) mod 256)"
    unfolding ring_dist [OF assms(1,2)] ring_dist [OF assms(1) t']
    using assms unfolding ring_succ [OF assms(2)] by (auto split: if_splits)
  have i: "(t + Suc i) mod 256 = ((t + 1) mod 256 + i) mod 256" for i by (simp add: mod_simps)
  show ?thesis
    unfolding ring_def n upt_conv_Cons [OF zero_less_Suc] list.map map_Suc_upt [symmetric] map_map comp_def i
    using assms(2) by simp
qed

lemma unat_next: "unat (h :: u32) < 256 \<Longrightarrow> unat ((h + 1) mod 256) = (unat h + 1) mod 256"
  using unat_Suc_u32 [of h] by (simp add: unat_mod)

section \<open>The buffers are bounded queues\<close>

definition kb_inv :: "keyboard \<Rightarrow> bool" where
  "kb_inv s \<longleftrightarrow> length (kb_buffer s) = 256 \<and> unat (kb_buffer_head s) < 256 \<and> unat (kb_buffer_tail s) < 256 \<and>
     length (sc_buffer s) = 256 \<and> unat (sc_head s) < 256 \<and> unat (sc_tail s) < 256 \<and> length (key_held s) = 128"

definition kb_contents :: "keyboard \<Rightarrow> u8 list" where
  "kb_contents s = ring (kb_buffer s) (unat (kb_buffer_head s)) (unat (kb_buffer_tail s))"

definition sc_contents :: "keyboard \<Rightarrow> u8 list" where
  "sc_contents s = ring (sc_buffer s) (unat (sc_head s)) (unat (sc_tail s))"

lemma unat_next_less [simp]: "unat ((h + 1) mod 256 :: u32) < 256"
  by (simp add: unat_mod)

lemma next_eq: "unat h < 256 \<Longrightarrow> (h + 1) mod 256 = t \<longleftrightarrow> (unat h + 1) mod 256 = unat (t :: u32)"
  by (metis unat_next word_unat_eq_iff)

lemma kb_invD:
  assumes "kb_inv s"
  shows "length (kb_buffer s) = 256" "unat (kb_buffer_head s) < 256" "unat (kb_buffer_tail s) < 256"
    "length (sc_buffer s) = 256" "unat (sc_head s) < 256" "unat (sc_tail s) < 256" "length (key_held s) = 128"
  using assms by (simp_all add: kb_inv_def)

lemma ring_enqueue:
  assumes "length buf = 256" "unat (h :: u32) < 256" "unat (t :: u32) < 256"
  shows "(h + 1) mod 256 \<noteq> t \<Longrightarrow>
      ring (buf[unat h := x]) (unat ((h + 1) mod 256)) (unat t) = enqueue 255 x (ring buf (unat h) (unat t))"
    and "(h + 1) mod 256 = t \<Longrightarrow> enqueue 255 x (ring buf (unat h) (unat t)) = ring buf (unat h) (unat t)"
  using ring_push [OF assms] ring_full [OF assms(2,3)] next_eq [OF assms(2)] unat_next [OF assms(2)]
  by (auto simp: enqueue_def)

lemma ring_dequeue:
  assumes "unat (h :: u32) < 256" "unat (t :: u32) < 256"
  shows "t = h \<Longrightarrow> dequeue 0 (ring buf (unat h) (unat t)) = (0, ring buf (unat h) (unat t))"
    and "t \<noteq> h \<Longrightarrow> dequeue 0 (ring buf (unat h) (unat t)) = (buf ! unat t, ring buf (unat h) (unat ((t + 1) mod 256)))"
proof -
  show "t = h \<Longrightarrow> dequeue 0 (ring buf (unat h) (unat t)) = (0, ring buf (unat h) (unat t))" by simp
  assume "t \<noteq> h"
  then have "unat h \<noteq> unat t" by (simp add: word_unat_eq_iff)
  then show "dequeue 0 (ring buf (unat h) (unat t)) = (buf ! unat t, ring buf (unat h) (unat ((t + 1) mod 256)))"
    using ring_pop [OF assms, of buf] unat_next [OF assms(2)] by simp
qed

lemma kb_push_spec:
  assumes "kb_inv s"
  shows "kb_inv (kb_buffer_push x s)" "kb_contents (kb_buffer_push x s) = enqueue 255 x (kb_contents s)"
  using kb_invD [OF assms] ring_enqueue [of "kb_buffer s" "kb_buffer_head s" "kb_buffer_tail s" x]
  by (auto simp: kb_buffer_push_def kb_contents_def kb_inv_def Let_def)

lemma sc_push_spec:
  assumes "kb_inv s"
  shows "kb_inv (sc_buffer_push x s)" "sc_contents (sc_buffer_push x s) = enqueue 255 x (sc_contents s)"
  using kb_invD [OF assms] ring_enqueue [of "sc_buffer s" "sc_head s" "sc_tail s" x]
  by (auto simp: sc_buffer_push_def sc_contents_def kb_inv_def Let_def)

lemma kb_pop_spec:
  assumes "kb_inv s"
  shows "kb_inv (snd (keyboard_get_char s))"
    "(fst (keyboard_get_char s), kb_contents (snd (keyboard_get_char s))) = dequeue 0 (kb_contents s)"
  using kb_invD [OF assms] ring_dequeue [of "kb_buffer_head s" "kb_buffer_tail s" "kb_buffer s"]
  by (auto simp: keyboard_get_char_def kb_contents_def kb_inv_def)

lemma sc_pop_spec:
  assumes "kb_inv s"
  shows "kb_inv (snd (keyboard_get_scancode s))"
    "(fst (keyboard_get_scancode s), sc_contents (snd (keyboard_get_scancode s))) = dequeue 0 (sc_contents s)"
  using kb_invD [OF assms] ring_dequeue [of "sc_head s" "sc_tail s" "sc_buffer s"]
  by (auto simp: keyboard_get_scancode_def sc_contents_def kb_inv_def)

lemma ring_capacity: "length (ring buf h t) \<le> 255"
  using mod_less_divisor [of 256 "h + 256 - t"] unfolding ring_length by linarith

interpretation kb_queue: bounded_queue kb_buffer_push keyboard_get_char kb_contents kb_inv 255 0
  by unfold_locales (use kb_push_spec kb_pop_spec ring_capacity in \<open>auto simp: kb_contents_def\<close>)

interpretation sc_queue: bounded_queue sc_buffer_push keyboard_get_scancode sc_contents kb_inv 255 0
  by unfold_locales (use sc_push_spec sc_pop_spec ring_capacity in \<open>auto simp: sc_contents_def\<close>)

section \<open>The abstract keyboard\<close>

text \<open>
  What the driver promises: two queues of 255 elements, the set of keys held down and three modifiers. A
  key gives a character when it goes down, and none while it is held; the character is the shifted one if
  exactly one of shift and caps lock is on.
\<close>

record typist =
  typed :: "u8 list"
  codes :: "u8 list"
  down :: "u8 set"
  shift_on :: bool
  caps_on :: bool
  ctrl_on :: bool

definition keycap :: "bool \<Rightarrow> u8 \<Rightarrow> u8" where
  "keycap shifted k = (if 84 \<le> k then 0 else (if shifted then scancode_ascii_shift else scancode_ascii) ! unat k)"

definition press :: "u8 \<Rightarrow> typist \<Rightarrow> typist" where
  "press k a =
     (let a = a\<lparr>down := insert k (down a)\<rparr>
      in if k \<in> {0x2A, 0x36} then a\<lparr>shift_on := True\<rparr>
      else if k = 0x1D then a\<lparr>ctrl_on := True\<rparr>
      else if k = 0x3A then a\<lparr>caps_on := \<not> caps_on a\<rparr>
      else let c = keycap (shift_on a \<noteq> caps_on a) k
      in if c = 0 then a else a\<lparr>typed := enqueue 255 (if ctrl_on a \<and> c \<in> {99, 67} then 3 else c) (typed a)\<rparr>)"

definition release :: "u8 \<Rightarrow> typist \<Rightarrow> typist" where
  "release k a = a\<lparr>down := down a - {k}, shift_on := (shift_on a \<and> k \<notin> {0x2A, 0x36}), ctrl_on := (ctrl_on a \<and> k \<noteq> 0x1D)\<rparr>"

definition scan :: "u8 \<Rightarrow> typist \<Rightarrow> typist" where
  "scan sc a =
     (let a = a\<lparr>codes := enqueue 255 sc (codes a)\<rparr>; k = sc AND 0x7F
      in if bit sc 7 then release k a else if k \<in> down a then a else press k a)"

datatype kb_event = Scan u8 | Read_char | Read_code

fun kb_run :: "kb_event list \<Rightarrow> keyboard \<Rightarrow> u8 list \<times> keyboard" where
  "kb_run [] s = ([], s)"
| "kb_run (Scan sc # es) s = kb_run es (keyboard_callback sc s)"
| "kb_run (Read_char # es) s = (let (c, s) = keyboard_get_char s; (ys, s) = kb_run es s in (c # ys, s))"
| "kb_run (Read_code # es) s = (let (c, s) = keyboard_get_scancode s; (ys, s) = kb_run es s in (c # ys, s))"

fun typist_run :: "kb_event list \<Rightarrow> typist \<Rightarrow> u8 list \<times> typist" where
  "typist_run [] a = ([], a)"
| "typist_run (Scan sc # es) a = typist_run es (scan sc a)"
| "typist_run (Read_char # es) a =
     (let (c, q) = dequeue 0 (typed a); (ys, a) = typist_run es (a\<lparr>typed := q\<rparr>) in (c # ys, a))"
| "typist_run (Read_code # es) a =
     (let (c, q) = dequeue 0 (codes a); (ys, a) = typist_run es (a\<lparr>codes := q\<rparr>) in (c # ys, a))"

definition abs_keyboard :: "keyboard \<Rightarrow> typist" where
  "abs_keyboard s = \<lparr>typed = kb_contents s, codes = sc_contents s, down = {k. k < 128 \<and> key_held s ! unat k},
     shift_on = shift_pressed s, caps_on = caps_lock s, ctrl_on = ctrl_pressed s\<rparr>"

lemma key_char_keycap:
  assumes "unat k < 84"
  shows "key_char shift caps k = keycap (shift \<noteq> caps) k"
proof -
  have u: "\<forall>c \<in> set scancode_ascii_shift. \<not> (97 \<le> c \<and> c \<le> 122)"
    and l: "\<forall>c \<in> set scancode_ascii. \<not> (65 \<le> c \<and> c \<le> 90)"
    by (simp_all add: scancode_ascii_shift_def scancode_ascii_def)
  have len: "length scancode_ascii_shift = 84" "length scancode_ascii = 84"
    by (simp_all add: scancode_ascii_shift_def scancode_ascii_def)
  have "\<not> 84 \<le> k" using assms by (simp add: word_le_nat_alt)
  moreover have "\<not> (97 \<le> scancode_ascii_shift ! unat k \<and> scancode_ascii_shift ! unat k \<le> 122)"
    "\<not> (65 \<le> scancode_ascii ! unat k \<and> scancode_ascii ! unat k \<le> 90)"
    using u l nth_mem [of "unat k" scancode_ascii_shift] nth_mem [of "unat k" scancode_ascii] assms len by auto
  ultimately show ?thesis by (auto simp: key_char_def keycap_def Let_def)
qed

lemma abs_kb_push: "kb_inv s \<Longrightarrow> abs_keyboard (kb_buffer_push c s) = (abs_keyboard s)\<lparr>typed := enqueue 255 c (typed (abs_keyboard s))\<rparr>"
  using kb_queue.push_contents [of s c]
  by (auto simp: abs_keyboard_def kb_buffer_push_def sc_contents_def Let_def split: if_splits)

lemma abs_sc_push: "kb_inv s \<Longrightarrow> abs_keyboard (sc_buffer_push c s) = (abs_keyboard s)\<lparr>codes := enqueue 255 c (codes (abs_keyboard s))\<rparr>"
  using sc_queue.push_contents [of s c]
  by (auto simp: abs_keyboard_def sc_buffer_push_def kb_contents_def Let_def split: if_splits)

lemma scan_bits:
  fixes sc :: u8
  shows "sc AND 0x80 \<noteq> 0 \<longleftrightarrow> bit sc 7" "sc AND 0x7F < 128" "\<not> bit sc 7 \<Longrightarrow> sc AND 0x7F = sc"
proof -
  show "sc AND 0x80 \<noteq> 0 \<longleftrightarrow> bit sc 7" using and_exp_eq_0_iff_not_bit [of sc 7] by simp
  have m: "(0x7F :: u8) = mask 7" by (simp add: mask_eq_exp_minus_1)
  show "sc AND 0x7F < 128"
    unfolding m take_bit_eq_mask [symmetric]
    by (simp add: word_less_nat_alt unat_mod take_bit_eq_mod)
  show "sc AND 0x7F = sc" if "\<not> bit sc 7"
  proof (rule bit_word_eqI)
    fix n assume "n < LENGTH(8)"
    then have "n < 7 \<or> n = 7" by auto
    then show "bit (sc AND 0x7F) n = bit sc n"
      using that unfolding m by (auto simp: bit_and_iff bit_mask_iff)
  qed
qed

lemma held_update:
  fixes k :: u8
  assumes "length (key_held s) = 128" "k < 128"
  shows "{j :: u8. j < 128 \<and> (key_held s)[unat k := b] ! unat j} =
    (if b then insert k {j :: u8. j < 128 \<and> key_held s ! unat j} else {j. j < 128 \<and> key_held s ! unat j} - {k})"
  using assms by (auto simp: nth_list_update word_less_nat_alt word_unat_eq_iff)

lemma table_size: "length scancode_ascii = 84"
  by (simp add: scancode_ascii_def)

lemma callback_refines:
  assumes "kb_inv s"
  shows "kb_inv (keyboard_callback sc s) \<and> abs_keyboard (keyboard_callback sc s) = scan sc (abs_keyboard s)"
proof -
  define t where "t = sc_buffer_push sc s"
  have t: "kb_inv t" "abs_keyboard t = (abs_keyboard s)\<lparr>codes := enqueue 255 sc (codes (abs_keyboard s))\<rparr>"
    using abs_sc_push [OF assms] sc_queue.push_inv [OF assms] by (simp_all add: t_def)
  show ?thesis
  proof (cases "bit sc 7")
    case True
    define k where "k = sc AND 0x7F"
    have k: "k < 128" using scan_bits(2) by (simp add: k_def)
    define u where "u = t\<lparr>key_held := (key_held t)[unat k := False]\<rparr>"
    have u: "kb_inv u" "abs_keyboard u = (abs_keyboard t)\<lparr>down := down (abs_keyboard t) - {k}\<rparr>"
      using t(1) held_update [OF kb_invD(7) [OF t(1)] k, of False]
      by (auto simp: u_def abs_keyboard_def kb_inv_def kb_contents_def sc_contents_def)
    have "keyboard_callback sc s =
      u\<lparr>shift_pressed := shift_pressed u \<and> k \<notin> {0x2A, 0x36}, ctrl_pressed := ctrl_pressed u \<and> k \<noteq> 0x1D\<rparr>"
      unfolding keyboard_callback_def t_def [symmetric] k_def [symmetric] Let_def using True k
      by (auto simp: scan_bits(1) u_def)
    moreover have "scan sc (abs_keyboard s) = (abs_keyboard u)\<lparr>shift_on := shift_on (abs_keyboard t) \<and> k \<notin> {0x2A, 0x36},
        ctrl_on := ctrl_on (abs_keyboard t) \<and> k \<noteq> 0x1D\<rparr>"
      using True t(2) u(2) by (simp add: scan_def release_def k_def Let_def)
    ultimately show ?thesis using u(1)
      by (simp add: u_def abs_keyboard_def kb_inv_def kb_contents_def sc_contents_def)
  next
    case False
    then have k: "sc AND 0x7F = sc" "sc < 128" using scan_bits(2,3) [of sc] by auto
    have d: "sc \<in> down (abs_keyboard t) \<longleftrightarrow> key_held t ! unat sc" using k by (simp add: abs_keyboard_def)
    define u where "u = t\<lparr>key_held := (key_held t)[unat sc := True]\<rparr>"
    have u: "kb_inv u" "abs_keyboard u = (abs_keyboard t)\<lparr>down := insert sc (down (abs_keyboard t))\<rparr>"
      using t(1) held_update [OF kb_invD(7) [OF t(1)] k(2), of True]
      by (auto simp: u_def abs_keyboard_def kb_inv_def kb_contents_def sc_contents_def)
    have c: "keycap (shift_pressed u \<noteq> caps_lock u) sc =
        (if 84 \<le> unat sc then 0 else key_char (shift_pressed u) (caps_lock u) sc)"
      using key_char_keycap [of sc] by (auto simp: keycap_def word_le_nat_alt)
    have p: "kb_inv (kb_buffer_push x u)" for x using kb_queue.push_inv [OF u(1)] .
    have fields: "shift_on (abs_keyboard u) = shift_pressed u" "caps_on (abs_keyboard u) = caps_lock u"
      "ctrl_on (abs_keyboard u) = ctrl_pressed u" by (simp_all add: abs_keyboard_def)
    have upd: "kb_inv (u\<lparr>shift_pressed := b\<rparr>)" "kb_inv (u\<lparr>ctrl_pressed := b\<rparr>)" "kb_inv (u\<lparr>caps_lock := b\<rparr>)"
      "abs_keyboard (u\<lparr>shift_pressed := b\<rparr>) = (abs_keyboard u)\<lparr>shift_on := b\<rparr>"
      "abs_keyboard (u\<lparr>ctrl_pressed := b\<rparr>) = (abs_keyboard u)\<lparr>ctrl_on := b\<rparr>"
      "abs_keyboard (u\<lparr>caps_lock := b\<rparr>) = (abs_keyboard u)\<lparr>caps_on := b\<rparr>" for b
      using u(1) by (simp_all add: kb_inv_def abs_keyboard_def kb_contents_def sc_contents_def)
    have "keyboard_callback sc s =
      (if key_held t ! unat sc then t
       else if sc \<in> {0x2A, 0x36} then u\<lparr>shift_pressed := True\<rparr>
       else if sc = 0x1D then u\<lparr>ctrl_pressed := True\<rparr>
       else if sc = 0x3A then u\<lparr>caps_lock := \<not> caps_lock u\<rparr>
       else let c = keycap (shift_pressed u \<noteq> caps_lock u) sc
       in if c = 0 then u else kb_buffer_push (if ctrl_pressed u \<and> c \<in> {99, 67} then 3 else c) u)"
      unfolding keyboard_callback_def t_def [symmetric] Let_def c using False k
      by (auto simp: scan_bits(1) u_def table_size)
    moreover have "scan sc (abs_keyboard s) = (if key_held t ! unat sc then abs_keyboard t else press sc (abs_keyboard t))"
      using False k(1) d t(2) by (simp add: scan_def Let_def)
    ultimately show ?thesis
      unfolding press_def u(2) [symmetric] using t(1) u(1)
      by (simp add: fields upd p abs_kb_push [OF u(1)] Let_def)
  qed
qed

lemma read_char_refines:
  assumes "kb_inv s"
  shows "kb_inv (snd (keyboard_get_char s))"
    "abs_keyboard (snd (keyboard_get_char s)) = (abs_keyboard s)\<lparr>typed := snd (dequeue 0 (kb_contents s))\<rparr>"
    "fst (keyboard_get_char s) = fst (dequeue 0 (kb_contents s))"
  using kb_queue.pop_inv [OF assms] kb_queue.pop_contents [OF assms, symmetric]
  by (simp_all add: abs_keyboard_def) (simp_all add: keyboard_get_char_def sc_contents_def)

lemma read_code_refines:
  assumes "kb_inv s"
  shows "kb_inv (snd (keyboard_get_scancode s))"
    "abs_keyboard (snd (keyboard_get_scancode s)) = (abs_keyboard s)\<lparr>codes := snd (dequeue 0 (sc_contents s))\<rparr>"
    "fst (keyboard_get_scancode s) = fst (dequeue 0 (sc_contents s))"
  using sc_queue.pop_inv [OF assms] sc_queue.pop_contents [OF assms, symmetric]
  by (simp_all add: abs_keyboard_def) (simp_all add: keyboard_get_scancode_def kb_contents_def)

lemma kb_run_refines:
  "kb_inv s \<Longrightarrow> fst (kb_run es s) = fst (typist_run es (abs_keyboard s)) \<and>
     abs_keyboard (snd (kb_run es s)) = snd (typist_run es (abs_keyboard s)) \<and> kb_inv (snd (kb_run es s))"
proof (induction es arbitrary: s)
  case (Cons e es)
  have abs: "typed (abs_keyboard s) = kb_contents s" "codes (abs_keyboard s) = sc_contents s"
    by (simp_all add: abs_keyboard_def)
  show ?case
  proof (cases e)
    case (Scan sc)
    then show ?thesis using Cons.IH callback_refines [OF Cons.prems] by simp
  next
    case Read_char
    then show ?thesis
      using Cons.IH [OF read_char_refines(1) [OF Cons.prems]] read_char_refines(2,3) [OF Cons.prems] abs
      by (simp add: case_prod_beta Let_def)
  next
    case Read_code
    then show ?thesis
      using Cons.IH [OF read_code_refines(1) [OF Cons.prems]] read_code_refines(2,3) [OF Cons.prems] abs
      by (simp add: case_prod_beta Let_def)
  qed
qed simp

section \<open>Properties\<close>

definition idle_typist :: typist where
  "idle_typist = \<lparr>typed = [], codes = [], down = {}, shift_on = False, caps_on = False, ctrl_on = False\<rparr>"

text \<open>
  C18: From power-on and \<open>keyboard_init\<close>, whatever the sequence of interrupts and of reads of characters and
  scan codes, the driver answers every read as the abstract keyboard does: two queues that lose what
  comes when 255 elements wait, one character per key press however long the key is held, and the
  shifted character exactly if one of shift and caps lock is on (for digits and punctuation too).
\<close>

theorem keyboard_refines:
  "fst (kb_run es (keyboard_init keyboard_static)) = fst (typist_run es idle_typist)"
proof -
  have "kb_inv (keyboard_init keyboard_static)"
    by (simp add: kb_inv_def keyboard_init_def keyboard_static_def)
  moreover have "abs_keyboard (keyboard_init keyboard_static) = idle_typist"
    by (auto simp: abs_keyboard_def keyboard_init_def keyboard_static_def idle_typist_def kb_contents_def
        sc_contents_def word_less_nat_alt)
  ultimately show ?thesis using kb_run_refines [of "keyboard_init keyboard_static" es] by simp
qed

end
