(* ===== verification/Vga.thy ===== *)
theory Vga
  imports CString
begin

text \<open>
  The text console, \<open>drivers/vga.c\<close>: the 80 x 25 cells of video memory, the cursor and the attribute.
  \<open>None\<close> is a store outside the cells. Moving the hardware cursor (port output) is left out; its position
  is that of the cursor here.
\<close>

section \<open>State and operations\<close>

record vga =
  VGA_MEMORY :: "u16 list"
  vga_row :: int
  vga_col :: int
  vga_color_attr :: u8

abbreviation (input) VGA_WIDTH :: int where "VGA_WIDTH \<equiv> 80"
abbreviation (input) VGA_HEIGHT :: int where "VGA_HEIGHT \<equiv> 25"

definition vga_entry :: "u8 \<Rightarrow> u8 \<Rightarrow> u16" where
  "vga_entry c color = ucast c OR push_bit 8 (ucast color)"

definition vga_make_color :: "u8 \<Rightarrow> u8 \<Rightarrow> u8" where
  "vga_make_color fg bg = fg OR push_bit 4 bg"

text \<open>The two loops of \<open>vga_scroll\<close> over the cells, and the loop of \<open>vga_clear\<close>.\<close>

definition vga_scroll :: "vga \<Rightarrow> vga" where
  "vga_scroll v =
     (if VGA_HEIGHT \<le> vga_row v
      then v\<lparr>VGA_MEMORY := map (\<lambda>i. VGA_MEMORY v ! (i + 80)) [0..<1920] @
                replicate 80 (vga_entry 32 (vga_color_attr v)) @ drop 2000 (VGA_MEMORY v),
             vga_row := VGA_HEIGHT - 1\<rparr>
      else v)"

definition vga_clear :: "vga \<Rightarrow> vga" where
  "vga_clear v = v\<lparr>VGA_MEMORY := replicate 2000 (vga_entry 32 (vga_color_attr v)), vga_row := 0, vga_col := 0\<rparr>"

definition vga_init :: "vga \<Rightarrow> vga" where
  "vga_init v = vga_clear (v\<lparr>vga_color_attr := vga_make_color 7 0\<rparr>)"

definition vga_set_color :: "u8 \<Rightarrow> u8 \<Rightarrow> vga \<Rightarrow> vga" where
  "vga_set_color fg bg v = v\<lparr>vga_color_attr := vga_make_color fg bg\<rparr>"

definition vga_store :: "u16 \<Rightarrow> vga \<Rightarrow> vga option" where
  "vga_store e v =
     (let i = vga_row v * VGA_WIDTH + vga_col v
      in if 0 \<le> i \<and> i < int (length (VGA_MEMORY v))
         then Some (v\<lparr>VGA_MEMORY := (VGA_MEMORY v)[nat i := e]\<rparr>) else None)"

definition vga_putchar :: "u8 \<Rightarrow> vga \<Rightarrow> vga option" where
  "vga_putchar c v =
     map_option (\<lambda>v. vga_scroll
         (if VGA_WIDTH \<le> vga_col v then v\<lparr>vga_col := 0, vga_row := vga_row v + 1\<rparr> else v))
       (if c = 10 then Some (v\<lparr>vga_col := 0, vga_row := vga_row v + 1\<rparr>)
        else if c = 13 then Some (v\<lparr>vga_col := 0\<rparr>)
        else if c = 9 then Some (v\<lparr>vga_col := (vga_col v + 8) AND NOT 7\<rparr>)
        else if c = 8
        then if 0 < vga_col v
             then vga_store (vga_entry 32 (vga_color_attr v)) (v\<lparr>vga_col := vga_col v - 1\<rparr>)
             else Some v
        else map_option (\<lambda>v. v\<lparr>vga_col := vga_col v + 1\<rparr>) (vga_store (vga_entry c (vga_color_attr v)) v))"

fun vga_puts :: "u8 list \<Rightarrow> vga \<Rightarrow> vga option" where
  "vga_puts [] v = Some v"
| "vga_puts (c # str) v = (case vga_putchar c v of None \<Rightarrow> None | Some v \<Rightarrow> vga_puts str v)"

definition vga_put_hex :: "u32 \<Rightarrow> vga \<Rightarrow> vga option" where
  "vga_put_hex value v = vga_puts (utoa_hex value) v"

definition vga_put_dec :: "u32 \<Rightarrow> vga \<Rightarrow> vga option" where
  "vga_put_dec value v = vga_puts (utoa_text value) v"

definition vga_set_cursor :: "int \<Rightarrow> int \<Rightarrow> vga \<Rightarrow> vga" where
  "vga_set_cursor x y v = v\<lparr>vga_col := x, vga_row := y\<rparr>"

section \<open>The cursor stays on the screen\<close>

definition vga_ok :: "vga \<Rightarrow> bool" where
  "vga_ok v \<longleftrightarrow> length (VGA_MEMORY v) = 2000 \<and> 0 \<le> vga_row v \<and> vga_row v < 25 \<and> 0 \<le> vga_col v \<and> vga_col v < 80"

lemma vga_ok_clear [inv_intros]: "vga_ok (vga_clear v)" "vga_ok (vga_init v)"
  by (simp_all add: vga_ok_def vga_clear_def vga_init_def)

lemma vga_store_ok:
  assumes "length (VGA_MEMORY v) = 2000" "0 \<le> vga_row v" "vga_row v < 25" "0 \<le> vga_col v" "vga_col v < 80"
  shows "vga_store e v = Some (v\<lparr>VGA_MEMORY := (VGA_MEMORY v)[nat (vga_row v) * 80 + nat (vga_col v) := e]\<rparr>)"
proof -
  have "nat (vga_row v * 80 + vga_col v) = nat (vga_row v) * 80 + nat (vga_col v)"
    using assms by (simp add: nat_add_distrib nat_mult_distrib)
  then show ?thesis using assms by (simp add: vga_store_def Let_def)
qed

text \<open>What is left after a character is placed: wrapping at the right edge, then scrolling.\<close>

lemma vga_wrap_ok:
  assumes "length (VGA_MEMORY v) = 2000" "0 \<le> vga_row v" "vga_row v \<le> 25" "0 \<le> vga_col v"
    "vga_row v = 25 \<Longrightarrow> vga_col v < 80"
  shows "vga_ok (vga_scroll (if 80 \<le> vga_col v then v\<lparr>vga_col := 0, vga_row := vga_row v + 1\<rparr> else v))"
  using assms by (auto simp: vga_scroll_def vga_ok_def)

lemma vga_putchar_total:
  assumes "vga_ok v"
  shows "\<exists>v'. vga_putchar c v = Some v' \<and> vga_ok v'"
proof -
  have v: "length (VGA_MEMORY v) = 2000" "0 \<le> vga_row v" "vga_row v < 25" "0 \<le> vga_col v" "vga_col v < 80"
    using assms by (simp_all add: vga_ok_def)
  have left: "vga_store e (v\<lparr>vga_col := vga_col v - 1\<rparr>) = Some (v\<lparr>vga_col := vga_col v - 1,
      VGA_MEMORY := (VGA_MEMORY v)[nat (vga_row v) * 80 + nat (vga_col v - 1) := e]\<rparr>)" if "0 < vga_col v" for e
    using that v by (subst vga_store_ok) auto
  have tab: "0 \<le> (vga_col v + 8) AND NOT 7" using v by simp
  have "\<exists>w. (if c = 10 then Some (v\<lparr>vga_col := 0, vga_row := vga_row v + 1\<rparr>)
        else if c = 13 then Some (v\<lparr>vga_col := 0\<rparr>)
        else if c = 9 then Some (v\<lparr>vga_col := (vga_col v + 8) AND NOT 7\<rparr>)
        else if c = 8
        then if 0 < vga_col v
             then vga_store (vga_entry 32 (vga_color_attr v)) (v\<lparr>vga_col := vga_col v - 1\<rparr>)
             else Some v
        else map_option (\<lambda>v. v\<lparr>vga_col := vga_col v + 1\<rparr>) (vga_store (vga_entry c (vga_color_attr v)) v)) = Some w \<and>
      length (VGA_MEMORY w) = 2000 \<and> 0 \<le> vga_row w \<and> vga_row w \<le> 25 \<and> 0 \<le> vga_col w \<and> (vga_row w = 25 \<longrightarrow> vga_col w < 80)"
    using v left tab by (auto simp: vga_store_ok)
  then obtain w where w: "vga_putchar c v =
      Some (vga_scroll (if 80 \<le> vga_col w then w\<lparr>vga_col := 0, vga_row := vga_row w + 1\<rparr> else w))"
    "length (VGA_MEMORY w) = 2000" "0 \<le> vga_row w" "vga_row w \<le> 25" "0 \<le> vga_col w" "vga_row w = 25 \<Longrightarrow> vga_col w < 80"
    unfolding vga_putchar_def by auto
  show ?thesis using w(1) vga_wrap_ok [OF w(2-6)] by blast
qed

lemma vga_puts_total: "vga_ok v \<Longrightarrow> \<exists>v'. vga_puts cs v = Some v' \<and> vga_ok v'"
proof (induction cs arbitrary: v)
  case (Cons c cs)
  then obtain w where "vga_putchar c v = Some w" "vga_ok w" using vga_putchar_total by blast
  then show ?case using Cons.IH by simp
qed simp

lemma vga_puts_append: "vga_puts (xs @ ys) v = (case vga_puts xs v of None \<Rightarrow> None | Some w \<Rightarrow> vga_puts ys w)"
  by (induction xs arbitrary: v) (auto split: option.splits)

section \<open>Printing a line\<close>

definition printable :: "u8 \<Rightarrow> bool" where
  "printable c \<longleftrightarrow> c \<notin> {8, 9, 10, 13}"

definition screen_line :: "vga \<Rightarrow> nat \<Rightarrow> u16 list" where
  "screen_line v r = bytes_at (r * 80) 80 (VGA_MEMORY v)"

lemma vga_puts_run:
  assumes "vga_ok v" "nat (vga_col v) + length cs < 80" "\<forall>c \<in> set cs. printable c"
  shows "vga_puts cs v = Some (v\<lparr>VGA_MEMORY := blit (nat (vga_row v) * 80 + nat (vga_col v))
      (map (\<lambda>c. vga_entry c (vga_color_attr v)) cs) (VGA_MEMORY v), vga_col := vga_col v + int (length cs)\<rparr>)"
  using assms
proof (induction cs arbitrary: v)
  case Nil
  then show ?case by (simp add: blit_def)
next
  case (Cons c cs)
  let ?i = "nat (vga_row v) * 80 + nat (vga_col v)" and ?e = "vga_entry c (vga_color_attr v)"
  let ?w = "v\<lparr>VGA_MEMORY := (VGA_MEMORY v)[?i := ?e], vga_col := vga_col v + 1\<rparr>"
  have v: "length (VGA_MEMORY v) = 2000" "0 \<le> vga_row v" "vga_row v < 25" "0 \<le> vga_col v" "vga_col v < 79"
    using Cons.prems(1,2) by (auto simp: vga_ok_def)
  have one: "vga_putchar c v = Some ?w"
    using Cons.prems(3) v by (simp add: vga_putchar_def printable_def vga_store_ok vga_scroll_def)
  have ok: "vga_ok ?w" using v by (simp add: vga_ok_def)
  have i: "?i < length (VGA_MEMORY v)" using v by simp
  have upd: "(VGA_MEMORY v)[?i := ?e] = blit ?i [?e] (VGA_MEMORY v)"
    using i by (simp add: blit_def upd_conv_take_nth_drop)
  have "blit (Suc ?i) xs (blit ?i [?e] (VGA_MEMORY v)) = blit ?i (?e # xs) (VGA_MEMORY v)" for xs
    using i by (simp add: blit_def add.commute [of "length xs"])
  moreover have "nat (vga_row v) * 80 + nat (vga_col v + 1) = Suc ?i" using v by (simp add: nat_add_distrib)
  ultimately show ?case
    using Cons.IH [OF ok] Cons.prems(2,3) v one upd by (simp add: nat_add_distrib)
qed

definition screen_lines :: "vga \<Rightarrow> u16 list list" where
  "screen_lines v = map (screen_line v) [0..<25]"

lemma screen_lines_nth [simp]: "r < 25 \<Longrightarrow> screen_lines v ! r = screen_line v r" "length (screen_lines v) = 25"
  by (simp_all add: screen_lines_def)

lemma screen_line_blit:
  assumes "length (VGA_MEMORY v) = 2000" "n < 25" "length es \<le> 80"
  shows "r < 25 \<Longrightarrow> screen_line (v\<lparr>VGA_MEMORY := blit (n * 80) es (VGA_MEMORY v), vga_col := c\<rparr>) r =
    (if r = n then es @ drop (length es) (screen_line v n) else screen_line v r)"
proof (rule nth_equalityI)
  assume r: "r < 25"
  have len: "length (screen_line v k) = 80" if "k < 25" for k
    using that assms(1) by (simp add: screen_line_def)
  show "length (screen_line (v\<lparr>VGA_MEMORY := blit (n * 80) es (VGA_MEMORY v), vga_col := c\<rparr>) r) =
    length (if r = n then es @ drop (length es) (screen_line v n) else screen_line v r)"
    using r assms len by (simp add: screen_line_def)
  fix i assume "i < length (screen_line (v\<lparr>VGA_MEMORY := blit (n * 80) es (VGA_MEMORY v), vga_col := c\<rparr>) r)"
  then have i: "i < 80" using r assms by (simp add: screen_line_def)
  have "n * 80 \<le> r * 80 + i \<and> r * 80 + i < n * 80 + length es \<longleftrightarrow> r = n \<and> i < length es"
    using i assms(3) by (cases r n rule: linorder_cases) auto
  then show "screen_line (v\<lparr>VGA_MEMORY := blit (n * 80) es (VGA_MEMORY v), vga_col := c\<rparr>) r ! i =
    (if r = n then es @ drop (length es) (screen_line v n) else screen_line v r) ! i"
    using r i assms len [of r] by (auto simp: screen_line_def nth_blit nth_append)
qed

lemma vga_scroll_lines:
  assumes "length (VGA_MEMORY v) = 2000" "r < 25" "25 \<le> vga_row v"
  shows "screen_line (vga_scroll v) r =
    (if r = 24 then replicate 80 (vga_entry 32 (vga_color_attr v)) else screen_line v (r + 1))"
  using assms by (intro nth_equalityI) (auto simp: screen_line_def vga_scroll_def nth_append algebra_simps)

section \<open>Properties\<close>

text \<open>
  C33: Text is always printed inside the screen: from a state the driver can be in, any string, with any
  control characters, is printed without a store outside the cells. A line of fewer than 80 printable
  characters printed from the left edge and ended by a newline replaces the first cells of the row of the
  cursor and no other cell; on the last row the screen then moves up by one row and the new row is blank.
\<close>

theorem vga_prints_line:
  assumes "vga_ok v" "vga_col v = 0" "length cs < 80" "\<forall>c \<in> set cs. printable c"
  shows "(\<forall>text. \<exists>w. vga_puts text v = Some w \<and> vga_ok w) \<and>
    (let row = nat (vga_row v); attr = vga_color_attr v;
         printed = (screen_lines v)[row := map (\<lambda>c. vga_entry c attr) cs @ drop (length cs) (screen_lines v ! row)]
     in \<exists>w. vga_puts (cs @ [10]) v = Some w \<and> vga_col w = 0 \<and>
       (if row < 24 then vga_row w = vga_row v + 1 \<and> screen_lines w = printed
        else vga_row w = 24 \<and> screen_lines w = tl printed @ [replicate 80 (vga_entry 32 attr)]))"
proof -
  define row where "row = nat (vga_row v)"
  define attr where "attr = vga_color_attr v"
  define printed where
    "printed = (screen_lines v)[row := map (\<lambda>c. vga_entry c attr) cs @ drop (length cs) (screen_lines v ! row)]"
  have v: "length (VGA_MEMORY v) = 2000" "0 \<le> vga_row v" "vga_row v < 25" and row: "row < 25"
    using assms(1) by (auto simp: vga_ok_def row_def)
  define t where "t = v\<lparr>VGA_MEMORY := blit (row * 80) (map (\<lambda>c. vga_entry c attr) cs) (VGA_MEMORY v),
    vga_col := int (length cs)\<rparr>"
  have puts: "vga_puts cs v = Some t"
    using vga_puts_run [OF assms(1), of cs] assms(2-4) by (simp add: t_def row_def attr_def)
  have t: "length (VGA_MEMORY t) = 2000" using v row assms(3) by (simp add: t_def)
  have lines: "screen_line t r = printed ! r" if "r < 25" for r
    using screen_line_blit [OF v(1) row, of "map (\<lambda>c. vga_entry c attr) cs" r "int (length cs)"] that row assms(3)
    by (simp add: t_def printed_def nth_list_update)
  let ?n = "t\<lparr>vga_col := 0, vga_row := vga_row t + 1\<rparr>"
  have nl: "vga_puts (cs @ [10]) v = Some (vga_scroll ?n)"
    by (simp add: vga_puts_append puts vga_putchar_def)
  have same: "screen_line ?n r = screen_line t r" for r by (simp add: screen_line_def)
  have len: "length printed = 25" by (simp add: printed_def)
  have "\<exists>w. vga_puts (cs @ [10]) v = Some w \<and> vga_col w = 0 \<and>
       (if row < 24 then vga_row w = vga_row v + 1 \<and> screen_lines w = printed
        else vga_row w = 24 \<and> screen_lines w = tl printed @ [replicate 80 (vga_entry 32 attr)])"
  proof (cases "row < 24")
    case True
    then have "vga_row v < 24" using v(2) by (simp add: row_def)
    then have "vga_scroll ?n = ?n" by (simp add: vga_scroll_def t_def)
    moreover have "screen_lines ?n = printed"
      using len lines same by (intro nth_equalityI) auto
    ultimately show ?thesis using nl True by (simp add: t_def)
  next
    case False
    then have last: "vga_row v = 24" using row v(2) by (simp add: row_def)
    have "screen_lines (vga_scroll ?n) = tl printed @ [replicate 80 (vga_entry 32 attr)]"
      using len lines same t last
      by (intro nth_equalityI) (auto simp: vga_scroll_lines t_def attr_def nth_append nth_tl)
    then show ?thesis using nl False last by (simp add: t_def vga_scroll_def)
  qed
  then show ?thesis
    using vga_puts_total [OF assms(1)] unfolding row_def attr_def printed_def by (simp only: Let_def simp_thms)
qed

text \<open>After \<open>vga_init\<close>, the line "Hi".\<close>

definition vga_static :: vga where
  "vga_static = \<lparr>VGA_MEMORY = replicate 2000 0, vga_row = 0, vga_col = 0, vga_color_attr = 0\<rparr>"

theorem vga_prints_line_witness:
  "\<exists>w. vga_puts [72, 105, 10] (vga_init vga_static) = Some w \<and> vga_row w = 1 \<and>
     screen_line w 0 = [0x748, 0x769] @ replicate 78 0x720"
proof -
  let ?v = "vga_init vga_static"
  have v: "vga_row ?v = 0" "vga_col ?v = 0" "vga_color_attr ?v = 7"
    by (simp_all add: vga_init_def vga_clear_def vga_make_color_def)
  have blank: "screen_line ?v 0 = replicate 80 0x720"
    by (simp add: screen_line_def vga_init_def vga_clear_def bytes_at_def vga_make_color_def vga_entry_def)
  have "vga_ok ?v" by (rule vga_ok_clear)
  then show ?thesis
    using vga_prints_line [of ?v "[72, 105]"] v blank
    by (auto simp: printable_def vga_entry_def Let_def dest: arg_cong [where f = "\<lambda>l. l ! 0"])
qed

end
