(* ===== verification/Stdio.thy ===== *)
theory Stdio
  imports CString "HOL-Library.Monad_Syntax"
begin

text \<open>
  Formatted output of the C library of user programs, \<open>libc/stdio.c\<close>. A format string is its bytes up to
  the NUL, a buffer the bytes of its array, an argument a machine word or a pointer to a string (\<open>None\<close>
  is \<open>NULL\<close>). The result is \<open>None\<close> where C defines none: a store past the end of the array, an argument of
  the wrong kind or missing, a field width above \<open>INT_MAX\<close>, a format that ends inside a directive (the
  code then steps over the NUL and reads on).
\<close>

datatype arg = Word u32 | Str "u8 list option"

fun va_word :: "arg list \<Rightarrow> (u32 \<times> arg list) option" where
  "va_word (Word w # args) = Some (w, args)"
| "va_word _ = None"

fun va_str :: "arg list \<Rightarrow> (u8 list option \<times> arg list) option" where
  "va_str (Str s # args) = Some (s, args)"
| "va_str _ = None"

abbreviation (input) null_text :: "u8 list" where "null_text \<equiv> [40, 110, 117, 108, 108, 41]"

section \<open>Writing into the buffer\<close>

text \<open>\<open>_buf_putchar\<close> always returns 1; the value here is the buffer.\<close>

definition buf_putchar :: "u32 \<Rightarrow> u32 \<Rightarrow> u8 \<Rightarrow> u8 list \<Rightarrow> u8 list option" where
  "buf_putchar pos size' c buf =
     (if pos < size' - 1 then if unat pos < length buf then Some (buf[unat pos := c]) else None
      else Some buf)"

fun buf_puts_from :: "nat \<Rightarrow> u32 \<Rightarrow> u32 \<Rightarrow> u8 list \<Rightarrow> u8 list \<Rightarrow> (nat \<times> u8 list) option" where
  "buf_puts_from written pos size' [] buf = Some (written, buf)"
| "buf_puts_from written pos size' (c # str) buf =
     (case buf_putchar (pos + of_nat written) size' c buf of
        None \<Rightarrow> None | Some buf \<Rightarrow> buf_puts_from (written + 1) pos size' str buf)"

definition buf_puts :: "u32 \<Rightarrow> u32 \<Rightarrow> u8 list \<Rightarrow> u8 list \<Rightarrow> (nat \<times> u8 list) option" where
  "buf_puts pos size' str buf = buf_puts_from 0 pos size' str buf"

text \<open>The digits in \<open>tmp\<close>, least significant first; the bases used are 10 and 16.\<close>

function uint_tmp :: "u32 \<Rightarrow> u32 \<Rightarrow> u8 list" where
  "uint_tmp val base =
     (if 0 < val \<and> 1 < base then digit_char (val mod base) # uint_tmp (val div base) base else [])"
  by pat_completeness auto
termination
proof (relation "measure (unat \<circ> fst)", simp)
  fix val base :: u32
  assume "0 < val \<and> 1 < base"
  then have "0 < unat val" "1 < unat base" by (simp_all add: word_less_nat_alt)
  then show "((val div base, base), val, base) \<in> measure (unat \<circ> fst)" by (simp add: unat_div)
qed

declare uint_tmp.simps [simp del]

function buf_pad :: "int \<Rightarrow> int \<Rightarrow> nat \<Rightarrow> u32 \<Rightarrow> u32 \<Rightarrow> u8 \<Rightarrow> u8 list \<Rightarrow> (nat \<times> u8 list) option" where
  "buf_pad i width written pos size' pad buf =
     (if i + int written < width
      then case buf_putchar (pos + of_nat written) size' pad buf of
             None \<Rightarrow> None | Some buf \<Rightarrow> buf_pad i width (written + 1) pos size' pad buf
      else Some (written, buf))"
  by pat_completeness auto
termination by (relation "measure (\<lambda>(i, width, written, _). nat (width - i - int written))") auto

declare buf_pad.simps [simp del]

text \<open>The loop that takes the digits out of \<open>tmp\<close> from the last one on is the loop over a string.\<close>

definition buf_put_uint :: "u32 \<Rightarrow> u32 \<Rightarrow> u32 \<Rightarrow> u32 \<Rightarrow> int \<Rightarrow> u8 \<Rightarrow> u8 list \<Rightarrow> (nat \<times> u8 list) option" where
  "buf_put_uint pos size' val base width pad buf =
     (let tmp = (if val = 0 then [48] else uint_tmp val base)
      in do { (written, buf) \<leftarrow> buf_pad (int (length tmp)) width 0 pos size' pad buf;
              buf_puts_from written pos size' (rev tmp) buf })"

text \<open>\<open>val = -val\<close> of the least integer is the value itself on the machine.\<close>

definition buf_put_int :: "u32 \<Rightarrow> u32 \<Rightarrow> u32 \<Rightarrow> int \<Rightarrow> u8 \<Rightarrow> u8 list \<Rightarrow> (nat \<times> u8 list) option" where
  "buf_put_int pos size' val width pad buf =
     (if sint val < 0
      then do { buf \<leftarrow> buf_putchar pos size' 45 buf;
                (n, buf) \<leftarrow> buf_put_uint (pos + 1) size' (- val) 10 (if 0 < width then width - 1 else width) pad buf;
                Some (1 + n, buf) }
      else buf_put_uint pos size' val 10 width pad buf)"

section \<open>Directives\<close>

fun fmt_width :: "u8 list \<Rightarrow> int \<Rightarrow> (int \<times> u8 list) option" where
  "fmt_width [] width = Some (width, [])"
| "fmt_width (c # fmt) width =
     (if 48 \<le> c \<and> c \<le> 57
      then let width = width * 10 + (uint c - 48)
           in if width \<le> 2147483647 then fmt_width fmt width else None
      else Some (width, c # fmt))"

definition fmt_pad :: "u8 list \<Rightarrow> u8 \<times> u8 list" where
  "fmt_pad fmt = (case fmt of [] \<Rightarrow> (32, []) | c # cs \<Rightarrow> if c = 48 then (48, cs) else (32, fmt))"

text \<open>Padding, width and conversion after the percent sign, and the rest of the format.\<close>

definition directive :: "u8 list \<Rightarrow> (u8 \<times> int \<times> u8 \<times> u8 list) option" where
  "directive fmt =
     (let (pad, fmt) = fmt_pad fmt
      in do { (width, fmt) \<leftarrow> fmt_width fmt 0;
              (case fmt of [] \<Rightarrow> None | c # fmt \<Rightarrow> Some (pad, width, c, fmt)) })"

lemma fmt_width_length: "fmt_width fmt w = Some (w', fmt') \<Longrightarrow> length fmt' \<le> length fmt"
  by (induction fmt w rule: fmt_width.induct) (auto simp: Let_def split: if_splits)

lemma fmt_pad_length: "fmt_pad fmt = (p, fmt') \<Longrightarrow> length fmt' \<le> length fmt"
  by (auto simp: fmt_pad_def split: list.splits if_splits)

lemma directive_length [dest]:
  assumes "directive fmt = Some (pad, width, c, fmt')"
  shows "length fmt' < length fmt"
proof -
  obtain p f1 where p: "fmt_pad fmt = (p, f1)" by (cases "fmt_pad fmt")
  obtain w f2 where w: "fmt_width f1 0 = Some (w, f2)"
    using assms p by (cases "fmt_width f1 0") (auto simp: directive_def)
  have "f2 = c # fmt'" using assms p w by (cases f2) (auto simp: directive_def)
  then show ?thesis using fmt_pad_length [OF p] fmt_width_length [OF w] by simp
qed

section \<open>\<open>snprintf\<close>\<close>

text \<open>One conversion: the new position, the arguments left and the buffer.\<close>

definition snprintf_conv :: "u8 \<Rightarrow> u8 \<Rightarrow> int \<Rightarrow> u32 \<Rightarrow> arg list \<Rightarrow> u32 \<Rightarrow> u8 list \<Rightarrow>
    (u32 \<times> arg list \<times> u8 list) option" where
  "snprintf_conv c pad width size' args pos buf =
     (if c = 100 \<or> c = 105 then do {
        (val, args) \<leftarrow> va_word args;
        (n, buf) \<leftarrow> buf_put_int pos size' val width pad buf;
        Some (pos + of_nat n, args, buf) }
      else if c = 117 then do {
        (val, args) \<leftarrow> va_word args;
        (n, buf) \<leftarrow> buf_put_uint pos size' val 10 width pad buf;
        Some (pos + of_nat n, args, buf) }
      else if c = 120 then do {
        (val, args) \<leftarrow> va_word args;
        (n, buf) \<leftarrow> buf_put_uint pos size' val 16 width pad buf;
        Some (pos + of_nat n, args, buf) }
      else if c = 112 then do {
        (val, args) \<leftarrow> va_word args;
        (n, buf) \<leftarrow> buf_puts pos size' [48, 120] buf;
        let pos = pos + of_nat n;
        (n, buf) \<leftarrow> buf_put_uint pos size' val 16 8 48 buf;
        Some (pos + of_nat n, args, buf) }
      else if c = 115 then do {
        (str, args) \<leftarrow> va_str args;
        let str = (case str of None \<Rightarrow> null_text | Some s \<Rightarrow> s);
        (n, buf) \<leftarrow> buf_puts pos size' str buf;
        let pos = pos + of_nat n;
        (n, buf) \<leftarrow> buf_pad (int (length str)) width 0 pos size' 32 buf;
        Some (pos + of_nat n, args, buf) }
      else if c = 99 then do {
        (val, args) \<leftarrow> va_word args;
        buf \<leftarrow> buf_putchar pos size' (ucast val) buf;
        Some (pos + 1, args, buf) }
      else if c = 37 then do {
        buf \<leftarrow> buf_putchar pos size' 37 buf;
        Some (pos + 1, args, buf) }
      else do {
        buf \<leftarrow> buf_putchar pos size' 37 buf;
        buf \<leftarrow> buf_putchar (pos + 1) size' c buf;
        Some (pos + 2, args, buf) })"

function snprintf_loop :: "u8 list \<Rightarrow> u32 \<Rightarrow> arg list \<Rightarrow> u32 \<Rightarrow> u8 list \<Rightarrow> (u32 \<times> u8 list) option" where
  "snprintf_loop [] size' args pos buf = Some (pos, buf)"
| "snprintf_loop (c # fmt) size' args pos buf =
     (if c \<noteq> 37
      then case buf_putchar pos size' c buf of
             None \<Rightarrow> None | Some buf \<Rightarrow> snprintf_loop fmt size' args (pos + 1) buf
      else case directive fmt of
             None \<Rightarrow> None
           | Some (pad, width, c, fmt) \<Rightarrow>
               (case snprintf_conv c pad width size' args pos buf of
                  None \<Rightarrow> None | Some (pos, args, buf) \<Rightarrow> snprintf_loop fmt size' args pos buf))"
  by pat_completeness auto
termination by (relation "measure (length \<circ> fst)") auto

definition snprintf :: "u8 list \<Rightarrow> u32 \<Rightarrow> u8 list \<Rightarrow> arg list \<Rightarrow> (u32 \<times> u8 list) option" where
  "snprintf buf size' fmt args =
     do { (pos, buf) \<leftarrow> snprintf_loop fmt size' args 0 buf;
          if 0 < size'
          then let i = unat (if pos < size' then pos else size' - 1)
               in if i < length buf then Some (pos, buf[i := 0]) else None
          else Some (pos, buf) }"

section \<open>\<open>printf\<close> and \<open>fprintf\<close>\<close>

text \<open>
  Both format into an array of 512 bytes on the stack, \<open>buf\<close>, whose first contents are arbitrary; the result
  is what they pass to \<open>write\<close>. They store at \<open>pos\<close> without \<open>_buf_putchar\<close> in places.
\<close>

definition put_at :: "u32 \<Rightarrow> u8 \<Rightarrow> u8 list \<Rightarrow> u8 list option" where
  "put_at pos c buf = (if unat pos < length buf then Some (buf[unat pos := c]) else None)"

definition printf_conv :: "u8 \<Rightarrow> u8 \<Rightarrow> int \<Rightarrow> arg list \<Rightarrow> u32 \<Rightarrow> u8 list \<Rightarrow> (u32 \<times> arg list \<times> u8 list) option" where
  "printf_conv c pad width args pos buf =
     (if c = 100 \<or> c = 105 then do {
        (val, args) \<leftarrow> va_word args;
        (n, buf) \<leftarrow> buf_put_int pos 512 val width pad buf;
        Some (pos + of_nat n, args, buf) }
      else if c = 117 then do {
        (val, args) \<leftarrow> va_word args;
        (n, buf) \<leftarrow> buf_put_uint pos 512 val 10 width pad buf;
        Some (pos + of_nat n, args, buf) }
      else if c = 120 then do {
        (val, args) \<leftarrow> va_word args;
        (n, buf) \<leftarrow> buf_put_uint pos 512 val 16 width pad buf;
        Some (pos + of_nat n, args, buf) }
      else if c = 112 then do {
        (val, args) \<leftarrow> va_word args;
        (n, buf) \<leftarrow> buf_puts pos 512 [48, 120] buf;
        let pos = pos + of_nat n;
        (n, buf) \<leftarrow> buf_put_uint pos 512 val 16 8 48 buf;
        Some (pos + of_nat n, args, buf) }
      else if c = 115 then do {
        (str, args) \<leftarrow> va_str args;
        (n, buf) \<leftarrow> buf_puts pos 512 (case str of None \<Rightarrow> null_text | Some s \<Rightarrow> s) buf;
        Some (pos + of_nat n, args, buf) }
      else if c = 99 then do {
        (val, args) \<leftarrow> va_word args;
        buf \<leftarrow> put_at pos (ucast val) buf;
        Some (pos + 1, args, buf) }
      else if c = 37 then do {
        buf \<leftarrow> put_at pos 37 buf;
        Some (pos + 1, args, buf) }
      else do {
        buf \<leftarrow> put_at pos 37 buf;
        let pos = pos + 1;
        if pos < 511 then do { buf \<leftarrow> put_at pos c buf; Some (pos + 1, args, buf) } else Some (pos, args, buf) })"

text \<open>\<open>fprintf\<close> repeats the conversions but for \<open>%p\<close>, which it takes for an unknown one.\<close>

definition fprintf_conv :: "u8 \<Rightarrow> u8 \<Rightarrow> int \<Rightarrow> arg list \<Rightarrow> u32 \<Rightarrow> u8 list \<Rightarrow> (u32 \<times> arg list \<times> u8 list) option" where
  "fprintf_conv c pad width args pos buf =
     (if c = 100 \<or> c = 105 then do {
        (val, args) \<leftarrow> va_word args;
        (n, buf) \<leftarrow> buf_put_int pos 512 val width pad buf;
        Some (pos + of_nat n, args, buf) }
      else if c = 117 then do {
        (val, args) \<leftarrow> va_word args;
        (n, buf) \<leftarrow> buf_put_uint pos 512 val 10 width pad buf;
        Some (pos + of_nat n, args, buf) }
      else if c = 120 then do {
        (val, args) \<leftarrow> va_word args;
        (n, buf) \<leftarrow> buf_put_uint pos 512 val 16 width pad buf;
        Some (pos + of_nat n, args, buf) }
      else if c = 115 then do {
        (str, args) \<leftarrow> va_str args;
        (n, buf) \<leftarrow> buf_puts pos 512 (case str of None \<Rightarrow> null_text | Some s \<Rightarrow> s) buf;
        Some (pos + of_nat n, args, buf) }
      else if c = 99 then do {
        (val, args) \<leftarrow> va_word args;
        buf \<leftarrow> put_at pos (ucast val) buf;
        Some (pos + 1, args, buf) }
      else if c = 37 then do {
        buf \<leftarrow> put_at pos 37 buf;
        Some (pos + 1, args, buf) }
      else do {
        buf \<leftarrow> put_at pos 37 buf;
        let pos = pos + 1;
        if pos < 511 then do { buf \<leftarrow> put_at pos c buf; Some (pos + 1, args, buf) } else Some (pos, args, buf) })"

text \<open>The loop, the same in both, over the conversions.\<close>

function print_loop :: "(u8 \<Rightarrow> u8 \<Rightarrow> int \<Rightarrow> arg list \<Rightarrow> u32 \<Rightarrow> u8 list \<Rightarrow> (u32 \<times> arg list \<times> u8 list) option) \<Rightarrow>
    u8 list \<Rightarrow> arg list \<Rightarrow> u32 \<Rightarrow> u8 list \<Rightarrow> (u32 \<times> u8 list) option" where
  "print_loop conv [] args pos buf = Some (pos, buf)"
| "print_loop conv (c # fmt) args pos buf =
     (if \<not> pos < 511 then Some (pos, buf)
      else if c \<noteq> 37
      then case put_at pos c buf of None \<Rightarrow> None | Some buf \<Rightarrow> print_loop conv fmt args (pos + 1) buf
      else case directive fmt of
             None \<Rightarrow> None
           | Some (pad, width, c, fmt) \<Rightarrow>
               (case conv c pad width args pos buf of
                  None \<Rightarrow> None | Some (pos, args, buf) \<Rightarrow> print_loop conv fmt args pos buf))"
  by pat_completeness auto
termination by (relation "measure (length \<circ> fst \<circ> snd)") auto

definition printf :: "u8 list \<Rightarrow> u8 list \<Rightarrow> arg list \<Rightarrow> u8 list option" where
  "printf buf fmt args =
     do { (pos, buf) \<leftarrow> print_loop printf_conv fmt args 0 buf;
          buf \<leftarrow> put_at pos 0 buf;
          Some (take (unat pos) buf) }"

definition fprintf :: "u8 list \<Rightarrow> u8 list \<Rightarrow> arg list \<Rightarrow> u8 list option" where
  "fprintf buf fmt args =
     do { (pos, buf) \<leftarrow> print_loop fprintf_conv fmt args 0 buf;
          buf \<leftarrow> put_at pos 0 buf;
          Some (take (unat pos) buf) }"

section \<open>The text a format stands for\<close>

text \<open>The reference: no buffer, no positions, numerals by division of natural numbers.\<close>

definition numeral_text :: "nat \<Rightarrow> u32 \<Rightarrow> u8 list" where
  "numeral_text base val = rev (digits_rev base (unat val))"

definition pad_left :: "int \<Rightarrow> u8 \<Rightarrow> u8 list \<Rightarrow> u8 list" where
  "pad_left width pad text = replicate (nat (width - int (length text))) pad @ text"

definition pad_right :: "int \<Rightarrow> u8 list \<Rightarrow> u8 list" where
  "pad_right width text = text @ replicate (nat (width - int (length text))) 32"

definition int_text :: "int \<Rightarrow> u8 \<Rightarrow> u32 \<Rightarrow> u8 list" where
  "int_text width pad val =
     (if sint val < 0 then 45 # pad_left (width - 1) pad (numeral_text 10 (- val))
      else pad_left width pad (numeral_text 10 val))"

definition convert :: "u8 \<Rightarrow> u8 \<Rightarrow> int \<Rightarrow> arg list \<Rightarrow> (u8 list \<times> arg list) option" where
  "convert c pad width args =
     (if c = 100 \<or> c = 105 then map_option (apfst (int_text width pad)) (va_word args)
      else if c = 117 then map_option (apfst (pad_left width pad \<circ> numeral_text 10)) (va_word args)
      else if c = 120 then map_option (apfst (pad_left width pad \<circ> numeral_text 16)) (va_word args)
      else if c = 112 then map_option (apfst (\<lambda>v. [48, 120] @ pad_left 8 48 (numeral_text 16 v))) (va_word args)
      else if c = 115 then map_option (apfst (\<lambda>s. pad_right width (case s of None \<Rightarrow> null_text | Some s \<Rightarrow> s))) (va_str args)
      else if c = 99 then map_option (apfst (\<lambda>v. [ucast v])) (va_word args)
      else Some (if c = 37 then [37] else [37, c], args))"

function format_text :: "u8 list \<Rightarrow> arg list \<Rightarrow> u8 list option" where
  "format_text [] args = Some []"
| "format_text (c # fmt) args =
     (if c \<noteq> 37 then map_option (Cons c) (format_text fmt args)
      else case directive fmt of
             None \<Rightarrow> None
           | Some (pad, width, c, fmt) \<Rightarrow>
               (case convert c pad width args of
                  None \<Rightarrow> None | Some (text, args) \<Rightarrow> map_option ((@) text) (format_text fmt args)))"
  by pat_completeness auto
termination by (relation "measure (length \<circ> fst)") auto

text \<open>What \<open>printf\<close> and \<open>fprintf\<close> print: no width for strings, and \<open>%p\<close> only in \<open>printf\<close>.\<close>

definition print_convert :: "bool \<Rightarrow> u8 \<Rightarrow> u8 \<Rightarrow> int \<Rightarrow> arg list \<Rightarrow> (u8 list \<times> arg list) option" where
  "print_convert ptr c pad width args =
     (if c = 112 \<and> \<not> ptr then Some ([37, 112], args) else convert c pad (if c = 115 then 0 else width) args)"

function print_text :: "bool \<Rightarrow> u8 list \<Rightarrow> arg list \<Rightarrow> u8 list option" where
  "print_text ptr [] args = Some []"
| "print_text ptr (c # fmt) args =
     (if c \<noteq> 37 then map_option (Cons c) (print_text ptr fmt args)
      else case directive fmt of
             None \<Rightarrow> None
           | Some (pad, width, c, fmt) \<Rightarrow>
               (case print_convert ptr c pad width args of
                  None \<Rightarrow> None | Some (ts, args) \<Rightarrow> map_option ((@) ts) (print_text ptr fmt args)))"
  by pat_completeness auto
termination by (relation "measure (length \<circ> fst \<circ> snd)") auto

section \<open>The writer keeps the first \<open>size - 1\<close> bytes of the text\<close>

definition cut :: "nat \<Rightarrow> u8 list \<Rightarrow> u8 list \<Rightarrow> u8 list" where
  "cut n out buf = take n out @ drop (min n (length out)) buf"

lemma length_cut [simp]: "n \<le> length buf \<Longrightarrow> length (cut n out buf) = length buf"
  by (simp add: cut_def)

lemma cut_nil [simp]: "cut n [] buf = buf"
  by (simp add: cut_def)

lemma cut_snoc_in: "length out < n \<Longrightarrow> n \<le> length buf \<Longrightarrow> (cut n out buf)[length out := c] = cut n (out @ [c]) buf"
  by (simp add: cut_def list_update_append Cons_nth_drop_Suc [symmetric])

lemma cut_snoc_out: "n \<le> length out \<Longrightarrow> cut n (out @ [c]) buf = cut n out buf"
  by (simp add: cut_def)

definition fits :: "u32 \<Rightarrow> u8 list \<Rightarrow> bool" where
  "fits size' buf \<longleftrightarrow> 0 < size' \<and> unat size' \<le> length buf"

abbreviation "kept size' \<equiv> cut (unat (size' :: u32) - 1)"

lemma putchar_kept:
  assumes "fits size' buf" "pos = of_nat (length out)" "length out < 4294967296"
  shows "buf_putchar pos size' c (kept size' out buf) = Some (kept size' (out @ [c]) buf)"
proof -
  have size: "0 < size'" "unat size' \<le> length buf" using assms(1) by (simp_all add: fits_def)
  then have u: "unat (size' - 1) = unat size' - 1" by (simp add: unat_sub_u32 word_less_nat_alt)
  have p: "unat pos = length out" using assms by (simp add: unat_of_nat_u32)
  have "pos < size' - 1 \<longleftrightarrow> length out < unat size' - 1"
    using p u by (simp add: unat_less_u32)
  moreover have "unat size' - 1 \<le> length buf" using size(2) by simp
  ultimately show ?thesis
    using p cut_snoc_in [of out "unat size' - 1" buf c] cut_snoc_out [of "unat size' - 1" out c buf]
    by (auto simp: buf_putchar_def)
qed

lemma puts_from_kept:
  assumes "fits size' buf"
  shows "pos + of_nat n = of_nat (length out) \<Longrightarrow> length out + length str < 4294967296 \<Longrightarrow>
   buf_puts_from n pos size' str (kept size' out buf) = Some (n + length str, kept size' (out @ str) buf)"
proof (induction str arbitrary: n out)
  case (Cons c str)
  have "pos + of_nat (n + 1) = of_nat (length (out @ [c]))"
    using Cons.prems(1) by (simp add: algebra_simps)
  then show ?case
    using Cons.IH [of "n + 1" "out @ [c]"] Cons.prems putchar_kept [OF assms, of "pos + of_nat n" out c] by simp
qed simp

lemma pad_kept:
  assumes "fits size' buf"
  shows "pos + of_nat n = of_nat (length out) \<Longrightarrow> length out + nat (width - i - int n) < 4294967296 \<Longrightarrow>
   buf_pad i width n pos size' p (kept size' out buf) =
     Some (n + nat (width - i - int n), kept size' (out @ replicate (nat (width - i - int n)) p) buf)"
proof (induction "nat (width - i - int n)" arbitrary: n out)
  case 0
  then show ?case by (subst buf_pad.simps) simp
next
  case (Suc k)
  have k: "nat (width - i - int (n + 1)) = k" "nat (width - i - int n) = Suc k" "i + int n < width"
    using Suc.hyps(2) by simp_all
  have "pos + of_nat (n + 1) = of_nat (length (out @ [p]))"
    using Suc.prems(1) by (simp add: algebra_simps)
  then show ?case
    using Suc.hyps(1) [of "n + 1" "out @ [p]"] Suc.prems k putchar_kept [OF assms, of "pos + of_nat n" out p]
    by (subst buf_pad.simps) simp
qed

text \<open>Each routine appends its text; the position stays the length of what was written.\<close>

lemma uint_tmp_digits: "0 < val \<Longrightarrow> 1 < base \<Longrightarrow> uint_tmp val base = digits_rev (unat base) (unat val)"
proof (induction val base rule: uint_tmp.induct)
  case (1 val base)
  have b: "\<not> unat base < 2" using 1(3) by (simp add: word_less_nat_alt)
  have "(of_nat (unat val mod unat base) :: u32) = val mod base" 
    by (simp add: unat_mod [symmetric])
  moreover have "uint_tmp (val div base) base = (if unat val div unat base \<noteq> 0 then digits_rev (unat base) (unat val div unat base) else [])"
  proof (cases "val div base = 0")
    case True
    moreover from True have "unat val div unat base = 0" by (simp add: unat_div [symmetric])
    ultimately show ?thesis by (subst uint_tmp.simps) simp
  next
    case False
    then have "0 < val div base" by (simp add: word_neq_0_conv)
    then show ?thesis using 1 False by (simp add: unat_div word_unat_eq_iff)
  qed
  ultimately show ?case
    using 1(2,3) b by (subst uint_tmp.simps, subst digits_rev.simps) simp
qed

lemma tmp_text:
  assumes "1 < base" "unat base \<le> 36"
  shows "rev (if val = 0 then [48] else uint_tmp val base) = numeral_text (unat base) val"
proof (cases "val = 0")
  case True
  have "\<not> unat base < 2" using assms(1) by (simp add: word_less_nat_alt)
  then show ?thesis using True by (simp add: numeral_text_def digits_rev.simps digit_char_def)
next
  case False
  then have "0 < val" by (simp add: word_neq_0_conv)
  then show ?thesis using False assms by (simp add: numeral_text_def uint_tmp_digits)
qed

lemma put_uint_kept:
  assumes "fits size' buf" "pos = of_nat (length out)" "1 < base" "unat base \<le> 36"
    and "length (out @ pad_left width p (numeral_text (unat base) val)) < 4294967296"
  shows "buf_put_uint pos size' val base width p (kept size' out buf) =
    Some (length (pad_left width p (numeral_text (unat base) val)),
          kept size' (out @ pad_left width p (numeral_text (unat base) val)) buf)"
proof -
  define tmp where "tmp = (if val = 0 then [48] else uint_tmp val base)"
  define k where "k = nat (width - int (length tmp))"
  have t: "numeral_text (unat base) val = rev tmp" using tmp_text [OF assms(3,4), of val] by (simp add: tmp_def)
  have l: "pad_left width p (numeral_text (unat base) val) = replicate k p @ rev tmp"
    by (simp add: pad_left_def t k_def)
  have n: "length out + k + length tmp < 4294967296" using assms(5) by (simp add: l)
  have "buf_pad (int (length tmp)) width 0 pos size' p (kept size' out buf) =
    Some (k, kept size' (out @ replicate k p) buf)"
    using pad_kept [OF assms(1), of pos 0 out width "int (length tmp)" p] assms(2) n by (simp add: k_def)
  moreover have "buf_puts_from k pos size' (rev tmp) (kept size' (out @ replicate k p) buf) =
    Some (k + length tmp, kept size' (out @ replicate k p @ rev tmp) buf)"
    using puts_from_kept [OF assms(1), of pos k "out @ replicate k p" "rev tmp"] assms(2) n by simp
  ultimately show ?thesis by (simp add: buf_put_uint_def tmp_def [symmetric] l)
qed

lemma unat_bases: "unat (10 :: u32) = 10" "unat (16 :: u32) = 16" "(1 :: u32) < 10" "(1 :: u32) < 16"
  by simp_all

lemmas put_dec_kept = put_uint_kept [where base = 10, OF _ _ unat_bases(3), unfolded unat_bases]
lemmas put_hex_kept = put_uint_kept [where base = 16, OF _ _ unat_bases(4), unfolded unat_bases]

lemma put_int_kept:
  assumes "fits size' buf" "pos = of_nat (length out)" "length (out @ int_text width p val) < 4294967296"
  shows "buf_put_int pos size' val width p (kept size' out buf) =
    Some (length (int_text width p val), kept size' (out @ int_text width p val) buf)"
proof (cases "sint val < 0")
  case True
  have w: "pad_left (if 0 < width then width - 1 else width) p t = pad_left (width - 1) p t" for t
    by (simp add: pad_left_def)
  show ?thesis
    using put_uint_kept [OF assms(1), of "pos + 1" "out @ [45]" 10 "if 0 < width then width - 1 else width" p "- val"]
      putchar_kept [OF assms(1,2), of 45] assms(2,3) True
    by (simp add: buf_put_int_def int_text_def w)
next
  case False
  then show ?thesis
    using put_uint_kept [OF assms(1,2), of 10 width p val] assms(3) by (simp add: buf_put_int_def int_text_def)
qed

lemma str_kept:
  assumes "fits size' buf" "pos = of_nat (length out)" "length (out @ pad_right width s) < 4294967296"
  shows "buf_puts pos size' s (kept size' out buf) = Some (length s, kept size' (out @ s) buf)"
    and "buf_pad (int (length s)) width 0 (pos + of_nat (length s)) size' 32 (kept size' (out @ s) buf) =
      Some (nat (width - int (length s)), kept size' (out @ pad_right width s) buf)"
  using puts_from_kept [OF assms(1), of pos 0 out s] pad_kept [OF assms(1), of "pos + of_nat (length s)" 0 "out @ s" width "int (length s)" 32]
    assms(2,3) by (simp_all add: buf_puts_def pad_right_def)

text \<open>The conversion characters, one by one.\<close>

lemma conv_simps:
  "snprintf_conv 105 pad width size' args pos buf = snprintf_conv 100 pad width size' args pos buf"
  "snprintf_conv 100 pad width size' args pos buf =
     do { (val, args) \<leftarrow> va_word args; (n, buf) \<leftarrow> buf_put_int pos size' val width pad buf; Some (pos + of_nat n, args, buf) }"
  "snprintf_conv 117 pad width size' args pos buf =
     do { (val, args) \<leftarrow> va_word args; (n, buf) \<leftarrow> buf_put_uint pos size' val 10 width pad buf; Some (pos + of_nat n, args, buf) }"
  "snprintf_conv 120 pad width size' args pos buf =
     do { (val, args) \<leftarrow> va_word args; (n, buf) \<leftarrow> buf_put_uint pos size' val 16 width pad buf; Some (pos + of_nat n, args, buf) }"
  "snprintf_conv 112 pad width size' args pos buf =
     do { (val, args) \<leftarrow> va_word args; (n, buf) \<leftarrow> buf_puts pos size' [48, 120] buf; let pos = pos + of_nat n; (n, buf) \<leftarrow> buf_put_uint pos size' val 16 8 48 buf; Some (pos + of_nat n, args, buf) }"
  "snprintf_conv 115 pad width size' args pos buf =
     do { (str, args) \<leftarrow> va_str args; let str = (case str of None \<Rightarrow> null_text | Some s \<Rightarrow> s); (n, buf) \<leftarrow> buf_puts pos size' str buf; let pos = pos + of_nat n; (n, buf) \<leftarrow> buf_pad (int (length str)) width 0 pos size' 32 buf; Some (pos + of_nat n, args, buf) }"
  "snprintf_conv 99 pad width size' args pos buf =
     do { (val, args) \<leftarrow> va_word args; buf \<leftarrow> buf_putchar pos size' (ucast val) buf; Some (pos + 1, args, buf) }"
  "snprintf_conv 37 pad width size' args pos buf =
     do { buf \<leftarrow> buf_putchar pos size' 37 buf; Some (pos + 1, args, buf) }"
  by (simp_all add: snprintf_conv_def)

lemma convert_simps:
  "convert 105 pad width args = convert 100 pad width args"
  "convert 100 pad width args = map_option (apfst (int_text width pad)) (va_word args)"
  "convert 117 pad width args = map_option (apfst (pad_left width pad \<circ> numeral_text 10)) (va_word args)"
  "convert 120 pad width args = map_option (apfst (pad_left width pad \<circ> numeral_text 16)) (va_word args)"
  "convert 112 pad width args = map_option (apfst (\<lambda>v. [48, 120] @ pad_left 8 48 (numeral_text 16 v))) (va_word args)"
  "convert 115 pad width args =
     map_option (apfst (\<lambda>s. pad_right width (case s of None \<Rightarrow> null_text | Some s \<Rightarrow> s))) (va_str args)"
  "convert 99 pad width args = map_option (apfst (\<lambda>v. [ucast v])) (va_word args)"
  "convert 37 pad width args = Some ([37], args)"
  by (simp_all add: convert_def)

lemma conv_kept:
  fixes c :: u8
  assumes "fits size' buf" "convert c p width args = Some (text, args')" "length (out @ text) < 4294967296"
  shows "snprintf_conv c p width size' args (of_nat (length out)) (kept size' out buf) =
    Some (of_nat (length (out @ text)), args', kept size' (out @ text) buf)"
proof -
  note k = put_int_kept [OF assms(1) refl] putchar_kept [OF assms(1) refl]
    put_dec_kept [OF assms(1) refl] put_hex_kept [OF assms(1) refl]
  consider (int) "c = 100 \<or> c = 105" | (uns) "c = 117" | (hex) "c = 120" | (ptr) "c = 112" | (str) "c = 115"
    | (chr) "c = 99" | (pct) "c = 37" | (other) "c \<notin> {100, 105, 117, 120, 112, 115, 99, 37}" by blast
  then show ?thesis
  proof cases
    case ptr
    then obtain v where v: "va_word args = Some (v, args')" "text = [48, 120] @ pad_left 8 48 (numeral_text 16 v)"
      using assms(2) by (auto simp: convert_simps apfst_def)
    let ?t = "pad_left 8 48 (numeral_text 16 v)"
    have "buf_puts (of_nat (length out)) size' [48, 120] (kept size' out buf) = Some (2, kept size' (out @ [48, 120]) buf)"
      using puts_from_kept [OF assms(1), of "of_nat (length out)" 0 out "[48, 120]"] assms(3) v(2)
      by (simp add: buf_puts_def)
    moreover have "buf_put_uint (of_nat (length out) + 2) size' v 16 8 48 (kept size' (out @ [48, 120]) buf) =
      Some (length ?t, kept size' (out @ [48, 120] @ ?t) buf)"
      using put_uint_kept [OF assms(1), of "of_nat (length out) + 2" "out @ [48, 120]" 16 8 48 v] assms(3) v(2) by simp
    ultimately show ?thesis using ptr v by (simp add: conv_simps add_ac)
  next
    case str
    then obtain r where r: "va_str args = Some (r, args')"
      "text = pad_right width (case r of None \<Rightarrow> null_text | Some s \<Rightarrow> s)"
      using assms(2) by (auto simp: convert_simps apfst_def)
    define s where "s = (case r of None \<Rightarrow> null_text | Some s \<Rightarrow> s)"
    have len: "length text = length s + nat (width - int (length s))"
      using r(2) by (simp add: s_def [symmetric] pad_right_def)
    show ?thesis
      using str r str_kept [OF assms(1) refl, of out width s] assms(3) len
      by (simp add: conv_simps s_def [symmetric] add_ac)
  next
    case other
    have "buf_putchar (of_nat (length out) + 1) size' c (kept size' (out @ [37]) buf) = Some (kept size' (out @ [37, c]) buf)"
      if "length out + 1 < 4294967296"
      using putchar_kept [OF assms(1), of "of_nat (length out) + 1" "out @ [37]" c] that by simp
    then show ?thesis using other assms(2,3) k(2) [of out 37]
      by (auto simp: convert_def snprintf_conv_def add_ac)
  qed (use assms(2,3) k in \<open>auto simp: convert_simps conv_simps add_ac\<close>)
qed

lemma loop_kept:
  "fits size' buf \<Longrightarrow> format_text fmt args = Some ts \<Longrightarrow> length (out @ ts) < 4294967296 \<Longrightarrow>
   snprintf_loop fmt size' args (of_nat (length out)) (kept size' out buf) =
     Some (of_nat (length (out @ ts)), kept size' (out @ ts) buf)"
proof (induction fmt args arbitrary: out ts rule: format_text.induct)
  case (1 args)
  then show ?case by simp
next
  case (2 c fmt args)
  show ?case
  proof (cases "c = 37")
    case False
    then obtain t where t: "format_text fmt args = Some t" "ts = c # t" using 2(4) by auto
    show ?thesis
      using 2(1) [OF False 2(3) t(1), of "out @ [c]"] False t(2) 2(5) putchar_kept [OF 2(3) refl, of out c]
      by (simp add: add_ac)
  next
    case True
    then obtain p w d fmt' where d: "directive fmt = Some (p, w, d, fmt')"
      using 2(4) by (auto split: option.splits)
    then obtain t args' where c: "convert d p w args = Some (t, args')"
      using 2(4) True by (auto split: option.splits)
    then obtain u where u: "format_text fmt' args' = Some u" "ts = t @ u" using 2(4) True d by auto
    have "snprintf_loop fmt' size' args' (of_nat (length (out @ t))) (kept size' (out @ t) buf) =
      Some (of_nat (length ((out @ t) @ u)), kept size' ((out @ t) @ u) buf)"
      using 2(2) [OF _ d refl refl refl c refl 2(3) u(1), of "out @ t"] True u(2) 2(5) by simp
    then show ?thesis using conv_kept [OF 2(3) c, of out] True d u(2) 2(5) by simp
  qed
qed

section \<open>\<open>printf\<close> inside its array\<close>

lemma fits_512: "length buf = 512 \<Longrightarrow> fits 512 buf"
  by (simp add: fits_def)

lemma put_at_kept:
  assumes "length buf = 512" "length out < 511"
  shows "put_at (of_nat (length out)) c (kept 512 out buf) = Some (kept 512 (out @ [c]) buf)"
proof -
  have u: "unat (of_nat (length out) :: u32) = length out" using assms(2) by (intro unat_of_nat_u32) simp
  then have "(of_nat (length out) :: u32) < 512 - 1" using assms(2) by (simp add: unat_less_u32)
  then show ?thesis
    using putchar_kept [OF fits_512 [OF assms(1)] refl, of out c] assms u by (simp add: buf_putchar_def put_at_def)
qed

lemma fprintf_conv_printf: "c \<noteq> 112 \<Longrightarrow> fprintf_conv c = printf_conv c"
  by (intro ext) (simp add: fprintf_conv_def printf_conv_def)

lemma printf_conv_snprintf:
  "c \<in> {100, 105, 117, 120, 112} \<Longrightarrow> printf_conv c p w args pos buf = snprintf_conv c p w 512 args pos buf" for c :: u8
  by (auto simp: printf_conv_def snprintf_conv_def)

lemma printf_conv_simps:
  "printf_conv 115 p w args pos buf = do {
     (str, args) \<leftarrow> va_str args;
     (n, buf) \<leftarrow> buf_puts pos 512 (case str of None \<Rightarrow> null_text | Some s \<Rightarrow> s) buf;
     Some (pos + of_nat n, args, buf) }"
  "printf_conv 99 p w args pos buf = do {
     (val, args) \<leftarrow> va_word args; buf \<leftarrow> put_at pos (ucast val) buf; Some (pos + 1, args, buf) }"
  "printf_conv 37 p w args pos buf = do { buf \<leftarrow> put_at pos 37 buf; Some (pos + 1, args, buf) }"
  by (simp_all add: printf_conv_def)

text \<open>An unknown conversion prints the percent sign and the character.\<close>

lemma print_default:
  assumes "length buf = 512" "length (out @ [37, c]) < 512"
  shows "put_at (of_nat (length out)) 37 (kept 512 out buf) = Some (kept 512 (out @ [37]) buf)"
    "put_at (of_nat (length out) + 1) c (kept 512 (out @ [37]) buf) = Some (kept 512 (out @ [37, c]) buf)"
    "(of_nat (length out) + 1 :: u32) < 511"
proof -
  show "put_at (of_nat (length out)) 37 (kept 512 out buf) = Some (kept 512 (out @ [37]) buf)"
    using put_at_kept [OF assms(1)] assms(2) by simp
  have "put_at (of_nat (length (out @ [37]))) c (kept 512 (out @ [37]) buf) = Some (kept 512 ((out @ [37]) @ [c]) buf)"
    using assms by (intro put_at_kept) simp_all
  then show "put_at (of_nat (length out) + 1) c (kept 512 (out @ [37]) buf) = Some (kept 512 (out @ [37, c]) buf)"
    by (simp add: add_ac)
  have "unat (of_nat (length out + 1) :: u32) = length out + 1" using assms(2) by (intro unat_of_nat_u32) simp
  then have "unat (of_nat (length out) + 1 :: u32) = length out + 1" by (simp add: add.commute)
  then show "(of_nat (length out) + 1 :: u32) < 511" using assms(2) by (simp add: unat_less_u32)
qed

lemma printf_conv_kept:
  fixes c :: u8
  assumes "length buf = 512" "print_convert True c p w args = Some (ts, args')" "length (out @ ts) < 512"
    and "length out < 511"
  shows "printf_conv c p w args (of_nat (length out)) (kept 512 out buf) =
    Some (of_nat (length (out @ ts)), args', kept 512 (out @ ts) buf)"
proof -
  note f = fits_512 [OF assms(1)]
  have conv: "convert c p (if c = 115 then 0 else w) args = Some (ts, args')"
    using assms(2) by (simp add: print_convert_def)
  consider (num) "c \<in> {100, 105, 117, 120, 112}" | (str) "c = 115" | (chr) "c = 99" | (pct) "c = 37"
    | (other) "c \<notin> {100, 105, 117, 120, 112, 115, 99, 37}" by blast
  then show ?thesis
  proof cases
    case num
    then have "convert c p w args = Some (ts, args')" using conv by auto
    then show ?thesis
      using conv_kept [OF f, of c p w args ts args' out] assms(3) printf_conv_snprintf [OF num] by simp
  next
    case str
    then obtain r where r: "va_str args = Some (r, args')" "ts = (case r of None \<Rightarrow> null_text | Some s \<Rightarrow> s)"
      using conv by (auto simp: convert_simps apfst_def pad_right_def)
    have "buf_puts (of_nat (length out)) 512 ts (kept 512 out buf) = Some (length ts, kept 512 (out @ ts) buf)"
      using puts_from_kept [OF f, of "of_nat (length out)" 0 out ts] assms(3) by (simp add: buf_puts_def)
    then show ?thesis using str r by (simp add: printf_conv_simps add_ac)
  next
    case chr
    then obtain v where "va_word args = Some (v, args')" "ts = [ucast v]"
      using conv by (auto simp: convert_simps apfst_def)
    then show ?thesis using chr put_at_kept [OF assms(1,4)] by (simp add: printf_conv_simps add.commute)
  next
    case pct
    then have "ts = [37]" "args' = args" using conv by (auto simp: convert_simps)
    then show ?thesis using pct put_at_kept [OF assms(1,4)] by (simp add: printf_conv_simps add.commute)
  next
    case other
    then have "ts = [37, c]" "args' = args" using conv by (auto simp: convert_def)
    then show ?thesis using other print_default [OF assms(1), of out c] assms(3)
      by (simp add: printf_conv_def add_ac)
  qed
qed

lemma print_conv_kept:
  assumes "length buf = 512" "print_convert ptr c p w args = Some (ts, args')" "length (out @ ts) < 512"
    and "length out < 511"
  shows "(if ptr then printf_conv else fprintf_conv) c p w args (of_nat (length out)) (kept 512 out buf) =
    Some (of_nat (length (out @ ts)), args', kept 512 (out @ ts) buf)"
proof (cases "c = 112 \<and> \<not> ptr")
  case True
  then have "ts = [37, 112]" "args' = args" using assms(2) by (auto simp: print_convert_def)
  moreover have "fprintf_conv 112 p w args pos buf = do {
      buf \<leftarrow> put_at pos 37 buf;
      let pos = pos + 1;
      if pos < 511 then do { buf \<leftarrow> put_at pos 112 buf; Some (pos + 1, args, buf) } else Some (pos, args, buf) }" for pos buf
    by (simp add: fprintf_conv_def)
  ultimately show ?thesis using True print_default [OF assms(1), of out 112] assms(3)
    by (simp add: add.commute [of "of_nat (length out)"])
next
  case False
  then have "print_convert True c p w args = Some (ts, args')"
    using assms(2) by (auto simp: print_convert_def split: if_splits)
  then show ?thesis using printf_conv_kept [OF assms(1) _ assms(3,4)] False fprintf_conv_printf by auto
qed

lemma print_loop_kept:
  "length buf = 512 \<Longrightarrow> print_text ptr fmt args = Some ts \<Longrightarrow> length (out @ ts) < 512 \<Longrightarrow>
   print_loop (if ptr then printf_conv else fprintf_conv) fmt args (of_nat (length out)) (kept 512 out buf) =
     Some (of_nat (length (out @ ts)), kept 512 (out @ ts) buf)"
proof (induction ptr fmt args arbitrary: out ts rule: print_text.induct)
  case (1 ptr args)
  then show ?case by simp
next
  case (2 ptr c fmt args)
  have u: "unat (of_nat (length out) :: u32) = length out" using 2(5) by (intro unat_of_nat_u32) simp
  show ?case
  proof (cases "length out < 511")
    case False
    then have "length ts = 0" using 2(5) unfolding length_append by linarith
    then have "ts = []" by simp
    then show ?thesis using False u by (simp add: unat_less_u32)
  next
    case room: True
    then have lt: "(of_nat (length out) :: u32) < 511" using u by (simp add: unat_less_u32)
    show ?thesis
    proof (cases "c = 37")
      case False
      then obtain t where t: "print_text ptr fmt args = Some t" "ts = c # t" using 2(4) by auto
      have "print_loop (if ptr then printf_conv else fprintf_conv) fmt args (of_nat (length (out @ [c]))) (kept 512 (out @ [c]) buf) =
          Some (of_nat (length ((out @ [c]) @ t)), kept 512 ((out @ [c]) @ t) buf)"
        using 2(1) [OF False 2(3) t(1), of "out @ [c]"] t(2) 2(5) by simp
      then show ?thesis
        using False t(2) lt put_at_kept [OF 2(3) room, of c] by (simp add: add_ac)
    next
      case True
      then obtain p w d fmt' where d: "directive fmt = Some (p, w, d, fmt')"
        using 2(4) by (auto split: option.splits)
      then obtain t args' where c: "print_convert ptr d p w args = Some (t, args')"
        using 2(4) True by (auto split: option.splits)
      then obtain u where u: "print_text ptr fmt' args' = Some u" "ts = t @ u" using 2(4) True d by auto
      have "print_loop (if ptr then printf_conv else fprintf_conv) fmt' args' (of_nat (length (out @ t))) (kept 512 (out @ t) buf) =
          Some (of_nat (length ((out @ t) @ u)), kept 512 ((out @ t) @ u) buf)"
        using 2(2) [OF _ d refl refl refl c refl 2(3) u(1), of "out @ t"] True u(2) 2(5) by simp
      then show ?thesis using print_conv_kept [OF 2(3) c _ room] True d u(2) 2(5) lt by simp
    qed
  qed
qed

lemma print_result:
  assumes "length buf = 512" "print_text ptr fmt args = Some ts" "length ts < 512"
  shows "(if ptr then printf buf fmt args else fprintf buf fmt args) = Some ts"
proof -
  have u: "unat (of_nat (length ts) :: u32) = length ts" using assms(3) by (intro unat_of_nat_u32) simp
  have k: "kept 512 ts buf = ts @ drop (length ts) buf" 
  proof -
    have "min 511 (length ts) = length ts" using assms(3) by simp
    then show ?thesis using assms(3) by (simp add: cut_def)
  qed
  have "put_at (of_nat (length ts)) 0 (kept 512 ts buf) = Some ((kept 512 ts buf)[length ts := 0])"
    using assms u by (simp add: put_at_def k)
  then show ?thesis
    using print_loop_kept [OF assms(1,2), of "[]"] assms(3) u
    by (cases ptr) (simp_all add: printf_def fprintf_def k [simplified] list_update_append)
qed

lemma snprintf_result:
  assumes "format_text fmt args = Some text" "length text < 4294967296"
    and "0 < size'" "unat size' \<le> length buf"
  shows "snprintf buf size' fmt args =
    (let out = take (unat size' - 1) text
     in Some (of_nat (length text), out @ [0] @ drop (length out + 1) buf))"
proof -
  have f: "fits size' buf" using assms(3,4) by (simp add: fits_def)
  have s: "0 < unat size'" "unat (size' - 1) = unat size' - 1"
    using assms(3) by (simp_all add: word_less_nat_alt unat_sub_u32)
  define n where "n = min (unat size' - 1) (length text)"
  have i: "unat (if (of_nat (length text) :: u32) < size' then of_nat (length text) else size' - 1) = n"
    using s assms(2) by (auto simp: n_def unat_less_u32 unat_of_nat_u32)
  have n: "n < length buf" using s(1) assms(4) by (simp add: n_def)
  have "(kept size' text buf)[n := 0] = take (unat size' - 1) text @ [0] @ drop (n + 1) buf"
  proof -
    have "length (take (unat size' - 1) text) = n" by (simp add: n_def)
    then show ?thesis
      using n by (auto simp: cut_def n_def list_update_append Cons_nth_drop_Suc [symmetric])
  qed
  then show ?thesis
    using loop_kept [OF f assms(1), of "[]"] assms(2,3) i n
    by (simp add: snprintf_def n_def [symmetric] Let_def cut_def) (simp add: n_def min.commute)
qed

section \<open>Properties\<close>

text \<open>
  C20: For every format, all arguments that fit it and every buffer of the size given, \<open>snprintf\<close> puts
  into the buffer the text the format stands for, cut to \<open>size - 1\<close> bytes and ended by a NUL, changes no
  byte behind that and returns the length of the uncut text.
\<close>

theorem snprintf_formats:
  assumes "format_text fmt args = Some text" "length text < 4294967296"
    and "0 < size'" "unat size' \<le> length buf"
  shows "snprintf buf size' fmt args =
    (let out = take (unat size' - 1) text
     in Some (of_nat (length text), out @ [0] @ drop (length out + 1) buf))"
  by (rule snprintf_result [OF assms])

text \<open>The format \<open>"%05d|%x|%3s"\<close>.\<close>

lemma example_text:
  "format_text [37, 48, 53, 100, 124, 37, 120, 124, 37, 51, 115] [Word (- 42), Word 255, Str (Some [104, 105])] =
     Some [45, 48, 48, 52, 50, 124, 102, 102, 124, 104, 105, 32]"
proof -
  have d: "numeral_text 10 42 = [52, 50]" "numeral_text 16 255 = [102, 102]"
    by (simp_all add: numeral_text_def digits_rev.simps digit_char_def)
  have i: "int_text 5 48 (- 42) = [45, 48, 48, 52, 50]"
    using d by (simp add: int_text_def pad_left_def eval_nat_numeral)
  show ?thesis
    by (simp add: directive_def fmt_pad_def convert_simps apfst_def i pad_left_def pad_right_def d)
qed

theorem snprintf_formats_witness:
  "snprintf [7, 7, 7, 7, 7, 7, 7, 7] 7 [37, 48, 53, 100, 124, 37, 120, 124, 37, 51, 115] [Word (- 42), Word 255, Str (Some [104, 105])] =
     Some (12, [45, 48, 48, 52, 50, 124, 0, 7])"
  using snprintf_formats [OF example_text, of 7 "[7, 7, 7, 7, 7, 7, 7, 7]"] by simp

text \<open>
  A text of at most 511 bytes is printed in full by \<open>printf\<close> and \<open>fprintf\<close>, whatever the array on the
  stack held. One string argument that does not fit the array makes both store outside it: the position
  is advanced by the length of the string, not by what was stored, and the final NUL goes there.
\<close>

theorem printf_array:
  assumes "length buf = 512"
  shows "(print_text True fmt args = Some ts \<and> length ts < 512 \<longrightarrow> printf buf fmt args = Some ts) \<and>
    (print_text False fmt args = Some ts \<and> length ts < 512 \<longrightarrow> fprintf buf fmt args = Some ts) \<and>
    (512 \<le> length s \<and> length s < 4294967296 \<longrightarrow>
      printf buf [37, 115] [Str (Some s)] = None \<and> fprintf buf [37, 115] [Str (Some s)] = None)"
proof -
  have "printf buf [37, 115] [Str (Some s)] = None \<and> fprintf buf [37, 115] [Str (Some s)] = None"
    if s: "512 \<le> length s" "length s < 4294967296"
  proof -
    have u: "unat (of_nat (length s) :: u32) = length s" using s(2) by (rule unat_of_nat_u32)
    have d: "directive [115] = Some (32, 0, 115, [])" by (simp add: directive_def fmt_pad_def)
    have p: "buf_puts 0 512 s buf = Some (length s, kept 512 s buf)"
      using puts_from_kept [OF fits_512 [OF assms], of 0 0 "[]" s] s(2) by (simp add: buf_puts_def)
    have "length (kept 512 s buf) = 512" using assms by simp
    then have "put_at (of_nat (length s)) 0 (kept 512 s buf) = None" using s(1) u by (simp add: put_at_def)
    then show ?thesis using p by (simp add: printf_def fprintf_def d printf_conv_simps fprintf_conv_printf)
  qed
  then show ?thesis
    using print_result [OF assms, of True fmt args ts] print_result [OF assms, of False fmt args ts] by simp
qed

theorem printf_array_witness:
  "\<exists>buf. length buf = 512 \<and> printf buf [120, 37, 37, 37, 99] [Word 121] = Some [120, 37, 121] \<and>
     printf buf [37, 115] [Str (Some (replicate 600 65))] = None"
proof -
  obtain buf :: "u8 list" where buf: "length buf = 512" by (meson length_replicate)
  have t: "print_text True [120, 37, 37, 37, 99] [Word 121] = Some [120, 37, 121]"
    by (simp add: directive_def fmt_pad_def print_convert_def convert_simps apfst_def)
  obtain s :: "u8 list" where s: "s = replicate 600 65" "length s = 600" by simp
  show ?thesis
    using printf_array [OF buf, of "[120, 37, 37, 37, 99]" "[Word 121]" "[120, 37, 121]" s] t buf s(2)
    unfolding s(1) [symmetric] by auto
qed

end
