(* ===== verification/Syscall.thy ===== *)
theory Syscall
  imports Vfs_Files Process CString Vga
begin

text \<open>
  System calls, \<open>kernel/syscall.c\<close>: the dispatcher of interrupt 0x80 and the calls behind it, over the
  filesystem, the processes, the console and the memory of the caller. The kernel heap is one for the
  filesystem and the processes. A call gets the saved registers; its result goes to \<open>eax\<close>. Serial output is
  left out. \<open>None\<close> stands for a call that does not return, or whose copy would leave the address space.
\<close>

section \<open>State\<close>

record registers =
  r_ds :: u32
  r_edi :: u32
  r_esi :: u32
  r_ebp :: u32
  r_useless_esp :: u32
  r_ebx :: u32
  r_edx :: u32
  r_ecx :: u32
  r_eax :: u32
  r_int_no :: u32
  r_err_code :: u32
  r_eip :: u32
  r_cs :: u32
  r_eflags :: u32
  r_esp :: u32
  r_ss :: u32

record kernel = vfs +
  procs :: sched
  console :: vga
  umem :: mem

definition put_heap :: "kernel \<Rightarrow> sched" where
  "put_heap k = (procs k)\<lparr>kheap := fs_heap k\<rparr>"

text \<open>A C string in the caller's memory, and storing a result there.\<close>

definition c_string :: "u32 \<Rightarrow> mem \<Rightarrow> u8 list option" where
  "c_string p m = map_option (\<lambda>n. fetch m p (unat n)) (strlen m p)"

definition copy_out :: "u32 \<Rightarrow> u8 list \<Rightarrow> kernel \<Rightarrow> kernel option" where
  "copy_out p bs k = (if unat p + length bs \<le> 4294967296 then Some (k\<lparr>umem := stored p bs (umem k)\<rparr>) else None)"

definition encode_stat :: "vfs_stat \<Rightarrow> u8 list" where
  "encode_stat st = le32 (st_inode st) @ le32 (st_type st) @ le32 (st_size st) @ le32 (st_block_count st) @
     le32 (st_create_time st) @ le32 (st_modify_time st)"

section \<open>The calls\<close>

definition sys_exit :: "linkage \<Rightarrow> registers \<Rightarrow> kernel \<Rightarrow> (u32 \<times> kernel) option" where
  "sys_exit l regs k =
     (case process_exit l (r_ebx regs) (put_heap k) of None \<Rightarrow> None
      | Some s \<Rightarrow> Some (0, k\<lparr>procs := s, fs_heap := kheap s\<rparr>))"

definition sys_read :: "registers \<Rightarrow> kernel \<Rightarrow> (u32 \<times> kernel) option" where
  "sys_read regs k =
     do { (r, k) \<leftarrow> vfs_read (sint (r_ebx regs)) (r_edx regs) k;
          case r of None \<Rightarrow> Some (- 1, k)
          | Some bytes \<Rightarrow> do { k \<leftarrow> copy_out (r_ecx regs) bytes k; Some (of_nat (length bytes), k) } }"

definition sys_write :: "registers \<Rightarrow> kernel \<Rightarrow> (u32 \<times> kernel) option" where
  "sys_write regs k =
     (let fd = sint (r_ebx regs); buffer = fetch (umem k) (r_ecx regs) (unat (r_edx regs)); size' = r_edx regs
      in if fd = 1 \<or> fd = 2
         then do { v \<leftarrow> vga_puts buffer (console k); Some (size', k\<lparr>console := v\<rparr>) }
         else do { (r, k) \<leftarrow> vfs_write fd buffer size' k; Some (of_int r, k) })"

definition sys_open :: "registers \<Rightarrow> kernel \<Rightarrow> (u32 \<times> kernel) option" where
  "sys_open regs k =
     do { path \<leftarrow> c_string (r_ebx regs) (umem k);
          (r, k) \<leftarrow> vfs_open path (r_ecx regs) k;
          Some (of_int r, k) }"

definition sys_close :: "registers \<Rightarrow> kernel \<Rightarrow> (u32 \<times> kernel) option" where
  "sys_close regs k = (let (r, k) = vfs_close (sint (r_ebx regs)) k in Some (of_int r, k))"

definition sys_stat :: "registers \<Rightarrow> kernel \<Rightarrow> (u32 \<times> kernel) option" where
  "sys_stat regs k =
     do { path \<leftarrow> c_string (r_ebx regs) (umem k);
          (st, k) \<leftarrow> vfs_stat path k;
          case st of None \<Rightarrow> Some (- 1, k)
          | Some st \<Rightarrow> do { k \<leftarrow> copy_out (r_ecx regs) (encode_stat st) k; Some (0, k) } }"

definition sys_seek :: "registers \<Rightarrow> kernel \<Rightarrow> (u32 \<times> kernel) option" where
  "sys_seek regs k =
     (let (r, k) = vfs_seek (sint (r_ebx regs)) (r_ecx regs) (sint (r_edx regs)) k in Some (of_int r, k))"

text \<open>The name with its NUL at offset 0, the inode at offset 256, the type at offset 260; the rest stays.\<close>

definition sys_readdir :: "registers \<Rightarrow> kernel \<Rightarrow> (u32 \<times> kernel) option" where
  "sys_readdir regs k =
     do { path \<leftarrow> c_string (r_ebx regs) (umem k);
          (d, k) \<leftarrow> vfs_readdir path (r_ecx regs) k;
          case d of None \<Rightarrow> Some (- 1, k)
          | Some d \<Rightarrow> do {
              k \<leftarrow> copy_out (r_edx regs + 256) (le32 (e_inode d) @ [e_type d]) k;
              k \<leftarrow> copy_out (r_edx regs) (e_name d @ [0]) k;
              Some (0, k) } }"

definition sys_exec :: "registers \<Rightarrow> kernel \<Rightarrow> (u32 \<times> kernel) option" where
  "sys_exec regs k = Some (- 1, k)"

definition sys_fork :: "registers \<Rightarrow> kernel \<Rightarrow> (u32 \<times> kernel) option" where
  "sys_fork regs k = Some (- 1, k)"

definition sys_waitpid :: "registers \<Rightarrow> kernel \<Rightarrow> (u32 \<times> kernel) option" where
  "sys_waitpid regs k = Some (- 1, k)"

definition sys_brk :: "registers \<Rightarrow> kernel \<Rightarrow> (u32 \<times> kernel) option" where
  "sys_brk regs k = Some (- 1, k)"

definition sys_getpid :: "registers \<Rightarrow> kernel \<Rightarrow> (u32 \<times> kernel) option" where
  "sys_getpid regs k = Some (process_get_pid (procs k), k)"

definition sys_mkdir :: "registers \<Rightarrow> kernel \<Rightarrow> (u32 \<times> kernel) option" where
  "sys_mkdir regs k =
     do { path \<leftarrow> c_string (r_ebx regs) (umem k); (r, k) \<leftarrow> vfs_mkdir path k; Some (of_int r, k) }"

definition sys_unlink :: "registers \<Rightarrow> kernel \<Rightarrow> (u32 \<times> kernel) option" where
  "sys_unlink regs k =
     do { path \<leftarrow> c_string (r_ebx regs) (umem k); (r, k) \<leftarrow> vfs_unlink path k; Some (of_int r, k) }"

definition sys_symlink :: "registers \<Rightarrow> kernel \<Rightarrow> (u32 \<times> kernel) option" where
  "sys_symlink regs k =
     do { target \<leftarrow> c_string (r_ebx regs) (umem k);
          linkpath \<leftarrow> c_string (r_ecx regs) (umem k);
          (r, k) \<leftarrow> vfs_symlink target linkpath k;
          Some (of_int r, k) }"

definition sys_readlink :: "registers \<Rightarrow> kernel \<Rightarrow> (u32 \<times> kernel) option" where
  "sys_readlink regs k =
     do { path \<leftarrow> c_string (r_ebx regs) (umem k);
          (t, k) \<leftarrow> vfs_readlink path (r_edx regs) k;
          case t of None \<Rightarrow> Some (- 1, k)
          | Some t \<Rightarrow> do { k \<leftarrow> copy_out (r_ecx regs) t k; Some (of_nat (length t), k) } }"

definition sys_getcwd :: "registers \<Rightarrow> kernel \<Rightarrow> (u32 \<times> kernel) option" where
  "sys_getcwd regs k = Some (- 1, k)"

definition sys_chdir :: "registers \<Rightarrow> kernel \<Rightarrow> (u32 \<times> kernel) option" where
  "sys_chdir regs k = Some (- 1, k)"

section \<open>The dispatcher\<close>

definition syscall_table :: "linkage \<Rightarrow> (registers \<Rightarrow> kernel \<Rightarrow> (u32 \<times> kernel) option) list" where
  "syscall_table l = [sys_exit l, sys_read, sys_write, sys_open, sys_close, sys_stat, sys_seek, sys_readdir,
     sys_exec, sys_fork, sys_waitpid, sys_brk, sys_getpid, sys_mkdir, sys_unlink, sys_symlink, sys_readlink,
     sys_getcwd, sys_chdir]"

definition syscall_handler :: "linkage \<Rightarrow> registers \<Rightarrow> kernel \<Rightarrow> (registers \<times> kernel) option" where
  "syscall_handler l regs k =
     (if 19 \<le> r_eax regs then Some (regs\<lparr>r_eax := - 1\<rparr>, k)
      else map_option (\<lambda>(result, k). (regs\<lparr>r_eax := result\<rparr>, k)) ((syscall_table l ! unat (r_eax regs)) regs k))"

text \<open>The stubs of the C library, \<open>libc/include/syscall.h\<close>: the number in \<open>eax\<close>, the arguments in \<open>ebx\<close>,
  \<open>ecx\<close> and \<open>edx\<close>, the other registers as they are, the result in \<open>eax\<close>.\<close>

definition syscall3 :: "linkage \<Rightarrow> u32 \<Rightarrow> u32 \<Rightarrow> u32 \<Rightarrow> u32 \<Rightarrow> registers \<Rightarrow> kernel \<Rightarrow> (u32 \<times> kernel) option" where
  "syscall3 l num arg1 arg2 arg3 regs k =
     map_option (\<lambda>(regs, k). (r_eax regs, k))
       (syscall_handler l (regs\<lparr>r_eax := num, r_ebx := arg1, r_ecx := arg2, r_edx := arg3\<rparr>) k)"

definition syscall2 :: "linkage \<Rightarrow> u32 \<Rightarrow> u32 \<Rightarrow> u32 \<Rightarrow> registers \<Rightarrow> kernel \<Rightarrow> (u32 \<times> kernel) option" where
  "syscall2 l num arg1 arg2 regs k =
     map_option (\<lambda>(regs, k). (r_eax regs, k))
       (syscall_handler l (regs\<lparr>r_eax := num, r_ebx := arg1, r_ecx := arg2\<rparr>) k)"

definition syscall1 :: "linkage \<Rightarrow> u32 \<Rightarrow> u32 \<Rightarrow> registers \<Rightarrow> kernel \<Rightarrow> (u32 \<times> kernel) option" where
  "syscall1 l num arg1 regs k =
     map_option (\<lambda>(regs, k). (r_eax regs, k)) (syscall_handler l (regs\<lparr>r_eax := num, r_ebx := arg1\<rparr>) k)"

text \<open>Registers of a caller, for examples.\<close>

definition regs0 :: registers where
  "regs0 = \<lparr>r_ds = 0x23, r_edi = 0, r_esi = 0, r_ebp = 0, r_useless_esp = 0, r_ebx = 0, r_edx = 0, r_ecx = 0, r_eax = 0,
     r_int_no = 0x80, r_err_code = 0, r_eip = 0, r_cs = 0x1B, r_eflags = 0, r_esp = 0, r_ss = 0x23\<rparr>"

section \<open>Dispatch\<close>

lemma dispatch:
  "syscall3 l 1 a b c regs k = sys_read (regs\<lparr>r_eax := 1, r_ebx := a, r_ecx := b, r_edx := c\<rparr>) k"
  "syscall3 l 2 a b c regs k = sys_write (regs\<lparr>r_eax := 2, r_ebx := a, r_ecx := b, r_edx := c\<rparr>) k"
  "syscall3 l 6 a b c regs k = sys_seek (regs\<lparr>r_eax := 6, r_ebx := a, r_ecx := b, r_edx := c\<rparr>) k"
  "syscall2 l 3 a b regs k = sys_open (regs\<lparr>r_eax := 3, r_ebx := a, r_ecx := b\<rparr>) k"
  "syscall1 l 11 a regs k = Some (- 1, k)"
  by (simp_all add: syscall3_def syscall2_def syscall1_def syscall_handler_def syscall_table_def option.map_comp
      comp_def case_prod_unfold sys_brk_def option.map_ident word_le_nat_alt)

section \<open>Files through system calls\<close>

text \<open>A file does not depend on what the kernel keeps beside it.\<close>

lemma fd_inv_kernel [simp]:
  "fd_inv fd p (k\<lparr>umem := m\<rparr>) = fd_inv fd p k" "fd_inv fd p (k\<lparr>console := v\<rparr>) = fd_inv fd p k"
  "file_byte p (k\<lparr>umem := m\<rparr>) = file_byte p k" "file_len p (k\<lparr>umem := m\<rparr>) = file_len p k"
  "fd_pos fd (k\<lparr>umem := m\<rparr>) = fd_pos fd k"
  for k :: kernel
proof -
  note f = file_same [of "k\<lparr>umem := m\<rparr>" k p] file_same [of "k\<lparr>console := v\<rparr>" k p]
  show "fd_inv fd p (k\<lparr>umem := m\<rparr>) = fd_inv fd p k" "fd_inv fd p (k\<lparr>console := v\<rparr>) = fd_inv fd p k"
    "file_byte p (k\<lparr>umem := m\<rparr>) = file_byte p k" "file_len p (k\<lparr>umem := m\<rparr>) = file_len p k"
    "fd_pos fd (k\<lparr>umem := m\<rparr>) = fd_pos fd k"
    using f by (simp_all add: fd_inv_def fd_pos_def fd_open_def)
qed

lemma kernel_of_vmore: "vfs.more t = vfs.more k \<Longrightarrow> umem t = umem k \<and> console t = console k \<and> procs t = procs k"
  for k t :: kernel
  by (cases k; cases t) simp

lemma screen_write:
  assumes "vga_ok (console k)" "sint fd = 1 \<or> sint fd = 2"
  shows "\<exists>v. syscall3 l 2 fd buf n regs k = Some (n, k\<lparr>console := v\<rparr>) \<and> vga_ok v \<and>
    vga_puts (fetch (umem k) buf (unat n)) (console k) = Some v"
proof -
  obtain v where "vga_puts (fetch (umem k) buf (unat n)) (console k) = Some v" "vga_ok v"
    using vga_puts_total [OF assms(1)] by blast
  then show ?thesis using assms(2) by (auto simp: dispatch sys_write_def Let_def)
qed

section \<open>Properties\<close>


text \<open>
  Descriptors 1 and 2 always mean the screen for writing, but \<open>vfs_open\<close> gives them to files: when
  descriptor 0 is taken and 1 is not, opening a file returns 1, and whatever is then written to it is
  printed and counted as written in full, while the filesystem, the descriptors and the memory stay
  exactly as they were.
\<close>

theorem syscall_file_shadowed:
  fixes k :: kernel
  assumes "fd_ok k" "f_in_use (fd_table k ! 0)" "\<not> f_in_use (fd_table k ! 1)" "vga_ok (console k)"
    and "syscall2 l 3 path flags regs k = Some (fd, k1)" "fd \<noteq> - 1"
  shows "fd = 1 \<and> (\<forall>buf n. \<exists>v. syscall3 l 2 fd buf n regs k1 = Some (n, k1\<lparr>console := v\<rparr>) \<and>
    vga_puts (fetch (umem k1) buf (unat n)) (console k1) = Some v)"
proof -
  obtain name r where o: "vfs_open name flags k = Some (r, k1)" "fd = of_int r"
    using assms(5) by (auto simp: dispatch sys_open_def bind_eq_Some_conv)
  have "r \<noteq> - 1" using assms(6) o(2) by auto
  then obtain j where j: "r = int j" "\<not> f_in_use (fd_table k ! j)" "\<forall>i < j. f_in_use (fd_table k ! i)"
    using vfs_open_cases [OF o(1)] assms(1) by (auto simp: fd_ok_def)
  then have "j = 1" using assms(2,3) by (metis less_one linorder_neqE_nat)
  then have "fd = 1" using o(2) j(1) by simp
  moreover have ok: "vga_ok (console k1)" using vfs_open_vmore [OF o(1)] kernel_of_vmore assms(4) by metis
  moreover have "\<exists>v. syscall3 l 2 1 buf n regs k1 = Some (n, k1\<lparr>console := v\<rparr>) \<and>
      vga_puts (fetch (umem k1) buf (unat n)) (console k1) = Some v" for buf n
    using screen_write [OF ok, of 1 l buf n regs] by auto
  ultimately show ?thesis by simp
qed

text \<open>A kernel with one file, and three bytes of it in memory.\<close>

definition file_kernel :: kernel where
  "file_kernel = file_vfs_with (kernel.fields (boot_sched 1) (vga_init vga_static) (stored 0x1000 [7, 8, 9] (\<lambda>_. 0)))"


text \<open>A kernel with one file open, and the empty path at address 0.\<close>

definition one_open :: kernel where
  "one_open = vfs.extend (tree_vfs\<lparr>fd_table := \<lparr>f_node = 0x20000C, f_offset = 0, f_flags = 0, f_in_use = True\<rparr> # replicate 63 free_fd\<rparr>)
     (kernel.fields (boot_sched 1) (vga_init vga_static) (\<lambda>_. 0))"

theorem syscall_file_shadowed_witness:
  "\<exists>k1 v. syscall2 example_link 3 0 0 regs0 one_open = Some (1, k1) \<and>
     syscall3 example_link 2 1 0 5 regs0 k1 = Some (5, k1\<lparr>console := v\<rparr>)"
proof -
  have root: "tree_root (nodes one_open 0x20000C)" "vfs_root one_open = 0x20000C"
    by (simp_all add: one_open_def tree_vfs_def vfs.defs fsys.defs tree_root_def zero_node_def)
  have tab: "fd_table one_open = \<lparr>f_node = 0x20000C, f_offset = 0, f_flags = 0, f_in_use = True\<rparr> # replicate 63 free_fd"
    by (simp add: one_open_def vfs.defs)
  have ok: "fd_ok one_open" by (auto simp: fd_ok_def tab free_fd_def)
  have con: "vga_ok (console one_open)" "umem one_open = (\<lambda>_. 0)"
    by (simp_all add: one_open_def vfs.defs kernel.defs vga_ok_clear)
  have "vfs_resolve_path [] one_open = Some (0x20000C, one_open)"
    using root by (simp add: resolve_walk vfs_check_mount_def tree_root_def)
  moreover have "fd_alloc one_open = 1" by (simp add: fd_alloc_def tab free_fd_def numeral_eq_Suc)
  ultimately obtain k1 where o: "vfs_open [] 0 one_open = Some (1, k1)"
    using root by (simp add: vfs_open_def tree_root_def dorifs_vfs_open_def Let_def)
  have "cstr (\<lambda>_. 0) 0 []" by (simp add: cstr_def bytes_in_def)
  then have "c_string 0 (umem one_open) = Some []" using strlen_cstr [of "\<lambda>_. 0" 0 "[]"] con(2) by (simp add: c_string_def fetch_def)
  then have "syscall2 example_link 3 0 0 regs0 one_open = Some (1, k1)"
    using o by (simp add: dispatch sys_open_def)
  moreover from this obtain v where "syscall3 example_link 2 1 0 5 regs0 k1 = Some (5, k1\<lparr>console := v\<rparr>)"
    using syscall_file_shadowed [OF ok _ _ con(1)] tab by (force simp: free_fd_def)
  ultimately show ?thesis by blast
qed

end
