(* ===== verification/Framebuffer.thy ===== *)
theory Framebuffer
  imports Interfaces "HOL-Library.Monad_Syntax"
begin

text \<open>
  The framebuffer driver, \<open>drivers/framebuffer.c\<close>: drawing into the linear framebuffer, or into a second
  buffer on the heap that is copied to the screen. A buffer is the list of its 32-bit pixels; \<open>None\<close> is an
  access outside it, or a loop that does not end. Coordinates are C \<open>int\<close>s, integers here: sums that
  leave the range of \<open>int\<close> are undefined in C. Indices are computed in 32 bits, as in the code.
\<close>

section \<open>State\<close>

record framebuffer =
  fb_address :: u32
  fb_width :: u32
  fb_height :: u32
  fb_pitch :: u32
  fb_bpp :: u8
  fb_available :: bool
  fb_screen :: "u32 list"
  backbuffer :: "u32 list option"

abbreviation (input) FONT_WIDTH :: int where "FONT_WIDTH \<equiv> 8"
abbreviation (input) FONT_HEIGHT :: int where "FONT_HEIGHT \<equiv> 16"
abbreviation (input) COLOR_WHITE :: u32 where "COLOR_WHITE \<equiv> 0xFFFFFFFF"

definition fb_is_available :: "framebuffer \<Rightarrow> bool" where
  "fb_is_available s = fb_available s"

text \<open>\<open>backbuffer ? backbuffer : fb_info.address\<close>\<close>

definition fb_target :: "framebuffer \<Rightarrow> u32 list" where
  "fb_target s = (case backbuffer s of Some b \<Rightarrow> b | None \<Rightarrow> fb_screen s)"

definition set_target :: "u32 list \<Rightarrow> framebuffer \<Rightarrow> framebuffer" where
  "set_target b s = (case backbuffer s of Some _ \<Rightarrow> s\<lparr>backbuffer := Some b\<rparr> | None \<Rightarrow> s\<lparr>fb_screen := b\<rparr>)"

definition fb_store :: "nat \<Rightarrow> u32 \<Rightarrow> framebuffer \<Rightarrow> framebuffer option" where
  "fb_store i color s =
     (if i < length (fb_target s) then Some (set_target ((fb_target s)[i := color]) s) else None)"

definition pitch4 :: "framebuffer \<Rightarrow> u32" where
  "pitch4 s = fb_pitch s div 4"

text \<open>\<open>for (int i = a; i < b; i++)\<close>\<close>

function for_range :: "int \<Rightarrow> int \<Rightarrow> (int \<Rightarrow> 's \<Rightarrow> 's option) \<Rightarrow> 's \<Rightarrow> 's option" where
  "for_range i b body s =
     (if i < b then case body i s of None \<Rightarrow> None | Some s \<Rightarrow> for_range (i + 1) b body s else Some s)"
  by pat_completeness auto
termination by (relation "measure (\<lambda>(i, b, body, s). nat (b - i))") auto

declare for_range.simps [simp del]

section \<open>Pixels and rectangles\<close>

definition putpixel :: "int \<Rightarrow> int \<Rightarrow> u32 \<Rightarrow> framebuffer \<Rightarrow> framebuffer option" where
  "putpixel x y color s =
     (if x < 0 \<or> y < 0 \<or> fb_width s \<le> of_int x \<or> fb_height s \<le> of_int y then Some s
      else fb_store (unat (of_int y * (fb_pitch s div 4) + of_int x)) color s)"

text \<open>Pixels one after the other.\<close>

primrec plot :: "(int \<times> int) list \<Rightarrow> u32 \<Rightarrow> framebuffer \<Rightarrow> framebuffer option" where
  "plot [] color s = Some s"
| "plot (p # ps) color s =
     (case putpixel (fst p) (snd p) color s of None \<Rightarrow> None | Some s \<Rightarrow> plot ps color s)"

definition fb_putpixel :: "int \<Rightarrow> int \<Rightarrow> u32 \<Rightarrow> framebuffer \<Rightarrow> framebuffer option" where
  "fb_putpixel x y color s = putpixel x y color s"

definition clip_low :: "int \<Rightarrow> int" where
  "clip_low x = (if x < 0 then 0 else x)"

definition clip_high :: "int \<Rightarrow> u32 \<Rightarrow> int" where
  "clip_high x limit = (if sint limit < x then sint limit else x)"

definition fb_fill_rect :: "int \<Rightarrow> int \<Rightarrow> int \<Rightarrow> int \<Rightarrow> u32 \<Rightarrow> framebuffer \<Rightarrow> framebuffer option" where
  "fb_fill_rect x y w h color s =
     (let x0 = clip_low x; y0 = clip_low y; x1 = clip_high (x + w) (fb_width s); y1 = clip_high (y + h) (fb_height s)
      in for_range y0 y1 (\<lambda>py s.
           let row = unat (of_int py * pitch4 s + of_int x0)
           in for_range x0 x1 (\<lambda>px s. fb_store (row + nat (px - x0)) color s) s) s)"

definition fb_draw_rect :: "int \<Rightarrow> int \<Rightarrow> int \<Rightarrow> int \<Rightarrow> u32 \<Rightarrow> int \<Rightarrow> framebuffer \<Rightarrow> framebuffer option" where
  "fb_draw_rect x y w h color thickness s =
     do { s \<leftarrow> fb_fill_rect x y w thickness color s;
          s \<leftarrow> fb_fill_rect x (y + h - thickness) w thickness color s;
          s \<leftarrow> fb_fill_rect x y thickness h color s;
          fb_fill_rect (x + w - thickness) y thickness h color s }"

text \<open>A quarter of a disc: the offsets \<open>dx\<close> in \<open>[a, b)\<close>, \<open>dy\<close> in \<open>[c, d)\<close> within the radius, around a centre.\<close>

definition disc_part :: "int \<Rightarrow> int \<Rightarrow> int \<Rightarrow> int \<Rightarrow> int \<Rightarrow> int \<Rightarrow> int \<Rightarrow> u32 \<Rightarrow> framebuffer \<Rightarrow> framebuffer option" where
  "disc_part cx cy r2 a b c d color s =
     for_range c d (\<lambda>dy. for_range a b (\<lambda>dx s.
       if dx * dx + dy * dy \<le> r2 then putpixel (cx + dx) (cy + dy) color s else Some s)) s"

definition fb_fill_rounded_rect :: "int \<Rightarrow> int \<Rightarrow> int \<Rightarrow> int \<Rightarrow> int \<Rightarrow> u32 \<Rightarrow> framebuffer \<Rightarrow> framebuffer option" where
  "fb_fill_rounded_rect x y w h radius color s =
     do { s \<leftarrow> fb_fill_rect (x + radius) y (w - 2 * radius) h color s;
          s \<leftarrow> fb_fill_rect x (y + radius) radius (h - 2 * radius) color s;
          s \<leftarrow> fb_fill_rect (x + w - radius) (y + radius) radius (h - 2 * radius) color s;
          let r2 = radius * radius;
          s \<leftarrow> disc_part (x + radius) (y + radius) r2 (- radius) 0 (- radius) 0 color s;
          s \<leftarrow> disc_part (x + w - radius - 1) (y + radius) r2 0 (radius + 1) (- radius) 0 color s;
          s \<leftarrow> disc_part (x + radius) (y + h - radius - 1) r2 (- radius) 0 0 (radius + 1) color s;
          disc_part (x + w - radius - 1) (y + h - radius - 1) r2 0 (radius + 1) 0 (radius + 1) color s }"

function corner_arcs :: "int \<Rightarrow> int \<Rightarrow> int \<Rightarrow> int \<Rightarrow> int \<Rightarrow> u32 \<Rightarrow> int \<Rightarrow> int \<Rightarrow> int \<Rightarrow> int \<Rightarrow> int \<Rightarrow>
    framebuffer \<Rightarrow> framebuffer option" where
  "corner_arcs x y w h radius color f ddF_x ddF_y px py s =
     (if px < py
      then let (py, ddF_y, f) = (if 0 \<le> f then (py - 1, ddF_y + 2, f + (ddF_y + 2)) else (py, ddF_y, f));
               px = px + 1; ddF_x = ddF_x + 2; f = f + ddF_x + 1
           in case plot [
                  (x + radius - px, y + radius - py),
                  (x + radius - py, y + radius - px),
                  (x + w - 1 - radius + px, y + radius - py),
                  (x + w - 1 - radius + py, y + radius - px),
                  (x + radius - px, y + h - 1 - radius + py),
                  (x + radius - py, y + h - 1 - radius + px),
                  (x + w - 1 - radius + px, y + h - 1 - radius + py),
                  (x + w - 1 - radius + py, y + h - 1 - radius + px)] color s of
                None \<Rightarrow> None
              | Some s \<Rightarrow> corner_arcs x y w h radius color f ddF_x ddF_y px py s
      else Some s)"
  by pat_completeness auto
termination
  by (relation "measure (\<lambda>(x, y, w, h, radius, color, f, ddF_x, ddF_y, px, py, s). nat (py - px))") (auto split: if_splits)

declare corner_arcs.simps [simp del]

definition fb_draw_rounded_rect :: "int \<Rightarrow> int \<Rightarrow> int \<Rightarrow> int \<Rightarrow> int \<Rightarrow> u32 \<Rightarrow> framebuffer \<Rightarrow> framebuffer option" where
  "fb_draw_rounded_rect x y w h radius color s =
     do { s \<leftarrow> fb_fill_rect (x + radius) y (w - 2 * radius) 1 color s;
          s \<leftarrow> fb_fill_rect (x + radius) (y + h - 1) (w - 2 * radius) 1 color s;
          s \<leftarrow> fb_fill_rect x (y + radius) 1 (h - 2 * radius) color s;
          s \<leftarrow> fb_fill_rect (x + w - 1) (y + radius) 1 (h - 2 * radius) color s;
          corner_arcs x y w h radius color (1 - radius) 0 (- 2 * radius) 0 radius s }"

section \<open>Lines and circles\<close>

partial_function (option) line_loop :: "int \<Rightarrow> int \<Rightarrow> int \<Rightarrow> int \<Rightarrow> int \<Rightarrow> int \<Rightarrow> u32 \<Rightarrow> int \<Rightarrow> int \<Rightarrow> int \<Rightarrow>
    framebuffer \<Rightarrow> framebuffer option" where
  "line_loop x1 y1 dx dy sx sy color x0 y0 err s =
     do { s \<leftarrow> putpixel x0 y0 color s;
          if x0 = x1 \<and> y0 = y1 then Some s
          else let e2 = err;
                   (err, x0) = (if - dx < e2 then (err - dy, x0 + sx) else (err, x0));
                   (err, y0) = (if e2 < dy then (err + dx, y0 + sy) else (err, y0))
               in line_loop x1 y1 dx dy sx sy color x0 y0 err s }"

definition fb_draw_line :: "int \<Rightarrow> int \<Rightarrow> int \<Rightarrow> int \<Rightarrow> u32 \<Rightarrow> framebuffer \<Rightarrow> framebuffer option" where
  "fb_draw_line x0 y0 x1 y1 color s =
     (let dx = x1 - x0; dy = y1 - y0;
          sx = (if 0 < dx then 1 else - 1); sy = (if 0 < dy then 1 else - 1);
          dx = (if dx < 0 then - dx else dx); dy = (if dy < 0 then - dy else dy);
          err = (if dy < dx then dx div 2 else - (dy div 2))
      in line_loop x1 y1 dx dy sx sy color x0 y0 err s)"

definition fb_fill_circle :: "int \<Rightarrow> int \<Rightarrow> int \<Rightarrow> u32 \<Rightarrow> framebuffer \<Rightarrow> framebuffer option" where
  "fb_fill_circle cx cy r color s = disc_part cx cy (r * r) (- r) (r + 1) (- r) (r + 1) color s"

function circle_loop :: "int \<Rightarrow> int \<Rightarrow> u32 \<Rightarrow> int \<Rightarrow> int \<Rightarrow> int \<Rightarrow> framebuffer \<Rightarrow> framebuffer option" where
  "circle_loop cx cy color x y d s =
     (if x \<le> y
      then case plot [
               (cx + x, cy + y), (cx - x, cy + y), (cx + x, cy - y), (cx - x, cy - y),
               (cx + y, cy + x), (cx - y, cy + x), (cx + y, cy - x), (cx - y, cy - x)] color s of
             None \<Rightarrow> None
           | Some s \<Rightarrow>
               if d < 0 then circle_loop cx cy color (x + 1) y (d + (4 * x + 6)) s
               else circle_loop cx cy color (x + 1) (y - 1) (d + (4 * (x - y) + 10)) s
      else Some s)"
  by pat_completeness auto
termination by (relation "measure (\<lambda>(cx, cy, color, x, y, d, s). nat (y + 1 - x))") auto

declare circle_loop.simps [simp del]

definition fb_draw_circle :: "int \<Rightarrow> int \<Rightarrow> int \<Rightarrow> u32 \<Rightarrow> framebuffer \<Rightarrow> framebuffer option" where
  "fb_draw_circle cx cy r color s = circle_loop cx cy color 0 r (3 - 2 * r) s"

definition fb_clear :: "u32 \<Rightarrow> framebuffer \<Rightarrow> framebuffer option" where
  "fb_clear color s =
     (let total = fb_width s * fb_height s
      in for_range 0 (uint total) (\<lambda>i s. fb_store (nat i) color s) s)"

section \<open>Blending\<close>

definition fb_blend :: "u32 \<Rightarrow> u32 \<Rightarrow> u32" where
  "fb_blend bg fg =
     (let alpha = drop_bit 24 fg AND 0xFF
      in if alpha = 0xFF then fg
         else if alpha = 0 then bg
         else let inv = 255 - alpha;
                  r = ((drop_bit 16 fg AND 0xFF) * alpha + (drop_bit 16 bg AND 0xFF) * inv) div 255 AND 0xFF;
                  g = ((drop_bit 8 fg AND 0xFF) * alpha + (drop_bit 8 bg AND 0xFF) * inv) div 255 AND 0xFF;
                  b = ((fg AND 0xFF) * alpha + (bg AND 0xFF) * inv) div 255 AND 0xFF
              in 0xFF000000 OR push_bit 16 r OR push_bit 8 g OR b)"

definition fb_fill_rect_alpha :: "int \<Rightarrow> int \<Rightarrow> int \<Rightarrow> int \<Rightarrow> u32 \<Rightarrow> framebuffer \<Rightarrow> framebuffer option" where
  "fb_fill_rect_alpha x y w h color s =
     (let x0 = clip_low x; y0 = clip_low y; x1 = clip_high (x + w) (fb_width s); y1 = clip_high (y + h) (fb_height s)
      in for_range y0 y1 (\<lambda>py. for_range x0 x1 (\<lambda>px s.
           let idx = unat (of_int py * pitch4 s + of_int px)
           in if idx < length (fb_target s) then fb_store idx (fb_blend (fb_target s ! idx) color) s else None)) s)"

section \<open>Text\<close>

definition font_8x16 :: "u8 list list" where
  "font_8x16 =
     [[0, 0, 0, 0, 0, 0, 0, 0, 0, 0, 0, 0, 0, 0, 0, 0],
      [0, 0, 0x18, 0x3c, 0x3c, 0x3c, 0x18, 0x18, 0x18, 0, 0x18, 0x18, 0, 0, 0, 0],
      [0, 0x66, 0x66, 0x66, 0x24, 0, 0, 0, 0, 0, 0, 0, 0, 0, 0, 0],
      [0, 0, 0, 0x6c, 0x6c, 0xfe, 0x6c, 0x6c, 0x6c, 0xfe, 0x6c, 0x6c, 0, 0, 0, 0],
      [0, 0x18, 0x18, 0x7c, 0xc6, 0xc2, 0xc0, 0x7c, 0x6, 0x86, 0xc6, 0x7c, 0x18, 0x18, 0, 0],
      [0, 0, 0, 0, 0xc2, 0xc6, 0xc, 0x18, 0x30, 0x60, 0xc6, 0x86, 0, 0, 0, 0],
      [0, 0, 0x38, 0x6c, 0x6c, 0x38, 0x76, 0xdc, 0xcc, 0xcc, 0xcc, 0x76, 0, 0, 0, 0],
      [0, 0x30, 0x30, 0x30, 0x60, 0, 0, 0, 0, 0, 0, 0, 0, 0, 0, 0],
      [0, 0, 0xc, 0x18, 0x30, 0x30, 0x30, 0x30, 0x30, 0x30, 0x18, 0xc, 0, 0, 0, 0],
      [0, 0, 0x30, 0x18, 0xc, 0xc, 0xc, 0xc, 0xc, 0xc, 0x18, 0x30, 0, 0, 0, 0],
      [0, 0, 0, 0, 0, 0x66, 0x3c, 0xff, 0x3c, 0x66, 0, 0, 0, 0, 0, 0],
      [0, 0, 0, 0, 0, 0x18, 0x18, 0x7e, 0x18, 0x18, 0, 0, 0, 0, 0, 0],
      [0, 0, 0, 0, 0, 0, 0, 0, 0, 0x18, 0x18, 0x18, 0x30, 0, 0, 0],
      [0, 0, 0, 0, 0, 0, 0, 0xfe, 0, 0, 0, 0, 0, 0, 0, 0],
      [0, 0, 0, 0, 0, 0, 0, 0, 0, 0, 0x18, 0x18, 0, 0, 0, 0],
      [0, 0, 0, 0, 0x2, 0x6, 0xc, 0x18, 0x30, 0x60, 0xc0, 0x80, 0, 0, 0, 0],
      [0, 0, 0x7c, 0xc6, 0xc6, 0xce, 0xde, 0xf6, 0xe6, 0xc6, 0xc6, 0x7c, 0, 0, 0, 0],
      [0, 0, 0x18, 0x38, 0x78, 0x18, 0x18, 0x18, 0x18, 0x18, 0x18, 0x7e, 0, 0, 0, 0],
      [0, 0, 0x7c, 0xc6, 0x6, 0xc, 0x18, 0x30, 0x60, 0xc0, 0xc6, 0xfe, 0, 0, 0, 0],
      [0, 0, 0x7c, 0xc6, 0x6, 0x6, 0x3c, 0x6, 0x6, 0x6, 0xc6, 0x7c, 0, 0, 0, 0],
      [0, 0, 0xc, 0x1c, 0x3c, 0x6c, 0xcc, 0xfe, 0xc, 0xc, 0xc, 0x1e, 0, 0, 0, 0],
      [0, 0, 0xfe, 0xc0, 0xc0, 0xc0, 0xfc, 0x6, 0x6, 0x6, 0xc6, 0x7c, 0, 0, 0, 0],
      [0, 0, 0x38, 0x60, 0xc0, 0xc0, 0xfc, 0xc6, 0xc6, 0xc6, 0xc6, 0x7c, 0, 0, 0, 0],
      [0, 0, 0xfe, 0xc6, 0x6, 0x6, 0xc, 0x18, 0x30, 0x30, 0x30, 0x30, 0, 0, 0, 0],
      [0, 0, 0x7c, 0xc6, 0xc6, 0xc6, 0x7c, 0xc6, 0xc6, 0xc6, 0xc6, 0x7c, 0, 0, 0, 0],
      [0, 0, 0x7c, 0xc6, 0xc6, 0xc6, 0x7e, 0x6, 0x6, 0x6, 0xc, 0x78, 0, 0, 0, 0],
      [0, 0, 0, 0, 0x18, 0x18, 0, 0, 0, 0x18, 0x18, 0, 0, 0, 0, 0],
      [0, 0, 0, 0, 0x18, 0x18, 0, 0, 0, 0x18, 0x18, 0x30, 0, 0, 0, 0],
      [0, 0, 0, 0x6, 0xc, 0x18, 0x30, 0x60, 0x30, 0x18, 0xc, 0x6, 0, 0, 0, 0],
      [0, 0, 0, 0, 0, 0x7e, 0, 0, 0x7e, 0, 0, 0, 0, 0, 0, 0],
      [0, 0, 0, 0x60, 0x30, 0x18, 0xc, 0x6, 0xc, 0x18, 0x30, 0x60, 0, 0, 0, 0],
      [0, 0, 0x7c, 0xc6, 0xc6, 0xc, 0x18, 0x18, 0x18, 0, 0x18, 0x18, 0, 0, 0, 0],
      [0, 0, 0x7c, 0xc6, 0xc6, 0xde, 0xde, 0xde, 0xdc, 0xc0, 0xc0, 0x7c, 0, 0, 0, 0],
      [0, 0, 0x10, 0x38, 0x6c, 0xc6, 0xc6, 0xfe, 0xc6, 0xc6, 0xc6, 0xc6, 0, 0, 0, 0],
      [0, 0, 0xfc, 0x66, 0x66, 0x66, 0x7c, 0x66, 0x66, 0x66, 0x66, 0xfc, 0, 0, 0, 0],
      [0, 0, 0x3c, 0x66, 0xc2, 0xc0, 0xc0, 0xc0, 0xc0, 0xc2, 0x66, 0x3c, 0, 0, 0, 0],
      [0, 0, 0xf8, 0x6c, 0x66, 0x66, 0x66, 0x66, 0x66, 0x66, 0x6c, 0xf8, 0, 0, 0, 0],
      [0, 0, 0xfe, 0x66, 0x62, 0x68, 0x78, 0x68, 0x60, 0x62, 0x66, 0xfe, 0, 0, 0, 0],
      [0, 0, 0xfe, 0x66, 0x62, 0x68, 0x78, 0x68, 0x60, 0x60, 0x60, 0xf0, 0, 0, 0, 0],
      [0, 0, 0x3c, 0x66, 0xc2, 0xc0, 0xc0, 0xde, 0xc6, 0xc6, 0x66, 0x3a, 0, 0, 0, 0],
      [0, 0, 0xc6, 0xc6, 0xc6, 0xc6, 0xfe, 0xc6, 0xc6, 0xc6, 0xc6, 0xc6, 0, 0, 0, 0],
      [0, 0, 0x3c, 0x18, 0x18, 0x18, 0x18, 0x18, 0x18, 0x18, 0x18, 0x3c, 0, 0, 0, 0],
      [0, 0, 0x1e, 0xc, 0xc, 0xc, 0xc, 0xc, 0xcc, 0xcc, 0xcc, 0x78, 0, 0, 0, 0],
      [0, 0, 0xe6, 0x66, 0x6c, 0x6c, 0x78, 0x78, 0x6c, 0x66, 0x66, 0xe6, 0, 0, 0, 0],
      [0, 0, 0xf0, 0x60, 0x60, 0x60, 0x60, 0x60, 0x60, 0x62, 0x66, 0xfe, 0, 0, 0, 0],
      [0, 0, 0xc6, 0xee, 0xfe, 0xd6, 0xc6, 0xc6, 0xc6, 0xc6, 0xc6, 0xc6, 0, 0, 0, 0],
      [0, 0, 0xc6, 0xe6, 0xf6, 0xfe, 0xde, 0xce, 0xc6, 0xc6, 0xc6, 0xc6, 0, 0, 0, 0],
      [0, 0, 0x7c, 0xc6, 0xc6, 0xc6, 0xc6, 0xc6, 0xc6, 0xc6, 0xc6, 0x7c, 0, 0, 0, 0],
      [0, 0, 0xfc, 0x66, 0x66, 0x66, 0x7c, 0x60, 0x60, 0x60, 0x60, 0xf0, 0, 0, 0, 0],
      [0, 0, 0x7c, 0xc6, 0xc6, 0xc6, 0xc6, 0xc6, 0xc6, 0xd6, 0xde, 0x7c, 0xc, 0xe, 0, 0],
      [0, 0, 0xfc, 0x66, 0x66, 0x66, 0x7c, 0x6c, 0x66, 0x66, 0x66, 0xe6, 0, 0, 0, 0],
      [0, 0, 0x7c, 0xc6, 0xc6, 0x60, 0x38, 0xc, 0x6, 0xc6, 0xc6, 0x7c, 0, 0, 0, 0],
      [0, 0, 0x7e, 0x7e, 0x5a, 0x18, 0x18, 0x18, 0x18, 0x18, 0x18, 0x3c, 0, 0, 0, 0],
      [0, 0, 0xc6, 0xc6, 0xc6, 0xc6, 0xc6, 0xc6, 0xc6, 0xc6, 0xc6, 0x7c, 0, 0, 0, 0],
      [0, 0, 0xc6, 0xc6, 0xc6, 0xc6, 0xc6, 0xc6, 0xc6, 0x6c, 0x38, 0x10, 0, 0, 0, 0],
      [0, 0, 0xc6, 0xc6, 0xc6, 0xc6, 0xc6, 0xd6, 0xd6, 0xfe, 0x6c, 0x6c, 0, 0, 0, 0],
      [0, 0, 0xc6, 0xc6, 0x6c, 0x7c, 0x38, 0x38, 0x7c, 0x6c, 0xc6, 0xc6, 0, 0, 0, 0],
      [0, 0, 0x66, 0x66, 0x66, 0x66, 0x3c, 0x18, 0x18, 0x18, 0x18, 0x3c, 0, 0, 0, 0],
      [0, 0, 0xfe, 0xc6, 0x86, 0xc, 0x18, 0x30, 0x60, 0xc2, 0xc6, 0xfe, 0, 0, 0, 0],
      [0, 0, 0x3c, 0x30, 0x30, 0x30, 0x30, 0x30, 0x30, 0x30, 0x30, 0x3c, 0, 0, 0, 0],
      [0, 0, 0, 0x80, 0xc0, 0x60, 0x30, 0x18, 0xc, 0x6, 0x2, 0, 0, 0, 0, 0],
      [0, 0, 0x3c, 0xc, 0xc, 0xc, 0xc, 0xc, 0xc, 0xc, 0xc, 0x3c, 0, 0, 0, 0],
      [0x10, 0x38, 0x6c, 0xc6, 0, 0, 0, 0, 0, 0, 0, 0, 0, 0, 0, 0],
      [0, 0, 0, 0, 0, 0, 0, 0, 0, 0, 0, 0, 0, 0xff, 0, 0],
      [0, 0x30, 0x18, 0xc, 0, 0, 0, 0, 0, 0, 0, 0, 0, 0, 0, 0],
      [0, 0, 0, 0, 0, 0x78, 0xc, 0x7c, 0xcc, 0xcc, 0xcc, 0x76, 0, 0, 0, 0],
      [0, 0, 0xe0, 0x60, 0x60, 0x78, 0x6c, 0x66, 0x66, 0x66, 0x66, 0xdc, 0, 0, 0, 0],
      [0, 0, 0, 0, 0, 0x7c, 0xc6, 0xc0, 0xc0, 0xc0, 0xc6, 0x7c, 0, 0, 0, 0],
      [0, 0, 0x1c, 0xc, 0xc, 0x3c, 0x6c, 0xcc, 0xcc, 0xcc, 0xcc, 0x76, 0, 0, 0, 0],
      [0, 0, 0, 0, 0, 0x7c, 0xc6, 0xfe, 0xc0, 0xc0, 0xc6, 0x7c, 0, 0, 0, 0],
      [0, 0, 0x38, 0x6c, 0x64, 0x60, 0xf0, 0x60, 0x60, 0x60, 0x60, 0xf0, 0, 0, 0, 0],
      [0, 0, 0, 0, 0, 0x76, 0xcc, 0xcc, 0xcc, 0xcc, 0xcc, 0x7c, 0xc, 0xcc, 0x78, 0],
      [0, 0, 0xe0, 0x60, 0x60, 0x6c, 0x76, 0x66, 0x66, 0x66, 0x66, 0xe6, 0, 0, 0, 0],
      [0, 0, 0x18, 0x18, 0, 0x38, 0x18, 0x18, 0x18, 0x18, 0x18, 0x3c, 0, 0, 0, 0],
      [0, 0, 0x6, 0x6, 0, 0xe, 0x6, 0x6, 0x6, 0x6, 0x6, 0x6, 0x66, 0x66, 0x3c, 0],
      [0, 0, 0xe0, 0x60, 0x60, 0x66, 0x6c, 0x78, 0x78, 0x6c, 0x66, 0xe6, 0, 0, 0, 0],
      [0, 0, 0x38, 0x18, 0x18, 0x18, 0x18, 0x18, 0x18, 0x18, 0x18, 0x3c, 0, 0, 0, 0],
      [0, 0, 0, 0, 0, 0xec, 0xfe, 0xd6, 0xd6, 0xd6, 0xd6, 0xd6, 0, 0, 0, 0],
      [0, 0, 0, 0, 0, 0xdc, 0x66, 0x66, 0x66, 0x66, 0x66, 0x66, 0, 0, 0, 0],
      [0, 0, 0, 0, 0, 0x7c, 0xc6, 0xc6, 0xc6, 0xc6, 0xc6, 0x7c, 0, 0, 0, 0],
      [0, 0, 0, 0, 0, 0xdc, 0x66, 0x66, 0x66, 0x66, 0x66, 0x7c, 0x60, 0x60, 0xf0, 0],
      [0, 0, 0, 0, 0, 0x76, 0xcc, 0xcc, 0xcc, 0xcc, 0xcc, 0x7c, 0xc, 0xc, 0x1e, 0],
      [0, 0, 0, 0, 0, 0xdc, 0x76, 0x66, 0x60, 0x60, 0x60, 0xf0, 0, 0, 0, 0],
      [0, 0, 0, 0, 0, 0x7c, 0xc6, 0x60, 0x38, 0xc, 0xc6, 0x7c, 0, 0, 0, 0],
      [0, 0, 0x10, 0x30, 0x30, 0xfc, 0x30, 0x30, 0x30, 0x30, 0x36, 0x1c, 0, 0, 0, 0],
      [0, 0, 0, 0, 0, 0xcc, 0xcc, 0xcc, 0xcc, 0xcc, 0xcc, 0x76, 0, 0, 0, 0],
      [0, 0, 0, 0, 0, 0x66, 0x66, 0x66, 0x66, 0x66, 0x3c, 0x18, 0, 0, 0, 0],
      [0, 0, 0, 0, 0, 0xc6, 0xc6, 0xc6, 0xd6, 0xd6, 0xfe, 0x6c, 0, 0, 0, 0],
      [0, 0, 0, 0, 0, 0xc6, 0x6c, 0x38, 0x38, 0x38, 0x6c, 0xc6, 0, 0, 0, 0],
      [0, 0, 0, 0, 0, 0xc6, 0xc6, 0xc6, 0xc6, 0xc6, 0xc6, 0x7e, 0x6, 0xc, 0xf8, 0],
      [0, 0, 0, 0, 0, 0xfe, 0xcc, 0x18, 0x30, 0x60, 0xc6, 0xfe, 0, 0, 0, 0],
      [0, 0, 0xe, 0x18, 0x18, 0x18, 0x70, 0x18, 0x18, 0x18, 0x18, 0xe, 0, 0, 0, 0],
      [0, 0, 0x18, 0x18, 0x18, 0x18, 0, 0x18, 0x18, 0x18, 0x18, 0x18, 0, 0, 0, 0],
      [0, 0, 0x70, 0x18, 0x18, 0x18, 0xe, 0x18, 0x18, 0x18, 0x18, 0x70, 0, 0, 0, 0],
      [0, 0, 0x76, 0xdc, 0, 0, 0, 0, 0, 0, 0, 0, 0, 0, 0, 0]]"

definition glyph :: "u8 \<Rightarrow> u8 list" where
  "glyph c = (let c = (if c < 32 \<or> 126 < c then 63 else c) in font_8x16 ! (unat c - 32))"

text \<open>\<open>bits & (0x80 >> col)\<close>\<close>

definition glyph_bit :: "u8 \<Rightarrow> int \<Rightarrow> bool" where
  "glyph_bit bits col = (bits AND drop_bit (nat col) 0x80 \<noteq> 0)"

definition on_screen :: "int \<Rightarrow> int \<Rightarrow> framebuffer \<Rightarrow> bool" where
  "on_screen px py s \<longleftrightarrow> 0 \<le> px \<and> 0 \<le> py \<and> of_int px < fb_width s \<and> of_int py < fb_height s"

definition fb_putchar :: "int \<Rightarrow> int \<Rightarrow> u8 \<Rightarrow> u32 \<Rightarrow> u32 \<Rightarrow> framebuffer \<Rightarrow> framebuffer option" where
  "fb_putchar x y c fg bg s =
     for_range 0 FONT_HEIGHT (\<lambda>row. for_range 0 FONT_WIDTH (\<lambda>col s.
       let bits = glyph c ! nat row; px = x + col; py = y + row
       in if on_screen px py s
          then fb_store (unat (of_int py * pitch4 s + of_int px)) (if glyph_bit bits col then fg else bg) s
          else Some s)) s"

fun fb_puts :: "int \<Rightarrow> int \<Rightarrow> u8 list \<Rightarrow> u32 \<Rightarrow> u32 \<Rightarrow> framebuffer \<Rightarrow> framebuffer option" where
  "fb_puts x y [] fg bg s = Some s"
| "fb_puts x y (c # str) fg bg s =
     (if c = 10 then fb_puts 0 (y + FONT_HEIGHT) str fg bg s
      else do { s \<leftarrow> fb_putchar x y c fg bg s; fb_puts (x + FONT_WIDTH) y str fg bg s })"

fun fb_puts_transparent :: "int \<Rightarrow> int \<Rightarrow> u8 list \<Rightarrow> u32 \<Rightarrow> framebuffer \<Rightarrow> framebuffer option" where
  "fb_puts_transparent x y [] fg s = Some s"
| "fb_puts_transparent x y (c # str) fg s =
     (if c = 10 then fb_puts_transparent 0 (y + FONT_HEIGHT) str fg s
      else do { s \<leftarrow> for_range 0 FONT_HEIGHT (\<lambda>row. for_range 0 FONT_WIDTH (\<lambda>col s.
                  let bits = glyph c ! nat row; px = x + col; py = y + row
                  in if glyph_bit bits col \<and> on_screen px py s
                     then fb_store (unat (of_int py * pitch4 s + of_int px)) fg s else Some s)) s;
                fb_puts_transparent (x + FONT_WIDTH) y str fg s })"

fun fb_text_width :: "u8 list \<Rightarrow> int" where
  "fb_text_width [] = 0"
| "fb_text_width (c # str) = (if c \<noteq> 10 then FONT_WIDTH else 0) + fb_text_width str"

section \<open>Copying\<close>

text \<open>\<open>memcpy\<close> of \<open>n\<close> words from \<open>src\<close> to \<open>dst\<close>, at the offsets.\<close>

definition copy_words :: "nat \<Rightarrow> u32 list \<Rightarrow> nat \<Rightarrow> u32 list \<Rightarrow> nat \<Rightarrow> u32 list option" where
  "copy_words d dst i src n =
     (if d + n \<le> length dst \<and> i + n \<le> length src then Some (blit d (bytes_at i n src) dst) else None)"

definition fb_swap :: "framebuffer \<Rightarrow> framebuffer option" where
  "fb_swap s =
     (case backbuffer s of
        None \<Rightarrow> Some s
      | Some b \<Rightarrow>
          if fb_address s = 0 then Some s
          else do { d \<leftarrow> copy_words 0 (fb_screen s) 0 b (unat (fb_width s * fb_height s * 4) div 4);
                    Some (s\<lparr>fb_screen := d\<rparr>) })"

function copy_rows :: "int \<Rightarrow> int \<Rightarrow> int \<Rightarrow> int \<Rightarrow> u32 list \<Rightarrow> framebuffer \<Rightarrow> framebuffer option" where
  "copy_rows py x w y1 b s =
     (if py < y1 \<and> of_int py < fb_height s
      then let i = unat (of_int py * pitch4 s + of_int x)
           in case copy_words i (fb_screen s) i b (unat (of_int (w * 4) :: u32) div 4) of
                None \<Rightarrow> None
              | Some d \<Rightarrow> copy_rows (py + 1) x w y1 b (s\<lparr>fb_screen := d\<rparr>)
      else Some s)"
  by pat_completeness auto
termination by (relation "measure (\<lambda>(py, x, w, y1, b, s). nat (y1 - py))") auto

declare copy_rows.simps [simp del]

definition fb_copy_region :: "int \<Rightarrow> int \<Rightarrow> int \<Rightarrow> int \<Rightarrow> framebuffer \<Rightarrow> framebuffer option" where
  "fb_copy_region x y w h s =
     (case backbuffer s of
        None \<Rightarrow> Some s
      | Some b \<Rightarrow> if fb_address s = 0 then Some s else copy_rows y x w (y + h) b s)"

definition cursor_data :: "u8 list" where
  "cursor_data = [0x80, 0xC0, 0xE0, 0xF0, 0xF8, 0xFC, 0xFE, 0xFF, 0xFC, 0xFC, 0xCC, 0x86, 0x06, 0x03, 0x03, 0x01, 0x01, 0, 0]"

definition fb_draw_cursor :: "int \<Rightarrow> int \<Rightarrow> framebuffer \<Rightarrow> framebuffer option" where
  "fb_draw_cursor x y s =
     for_range 0 19 (\<lambda>row. for_range 0 8 (\<lambda>col s.
       if glyph_bit (cursor_data ! nat row) col then putpixel (x + col) (y + row) COLOR_WHITE s else Some s)) s"

text \<open>The move is of whole words: the pitch is a multiple of 4.\<close>

definition fb_scroll_up :: "int \<Rightarrow> u32 \<Rightarrow> framebuffer \<Rightarrow> framebuffer option" where
  "fb_scroll_up pixels fill_color s =
     (if fb_pitch s mod 4 \<noteq> 0 then None
      else do {
        let b = fb_target s;
        d \<leftarrow> copy_words 0 b (unat (of_int pixels * pitch4 s)) b (unat ((fb_height s - of_int pixels) * fb_pitch s) div 4);
        for_range (uint (fb_height s - of_int pixels)) (uint (fb_height s)) (\<lambda>y.
          for_range 0 (uint (fb_width s)) (\<lambda>x s.
            fb_store (unat (of_int y * pitch4 s + of_int x)) fill_color s)) (set_target d s) })"

end
