(* ===== verification/Framebuffer_Canvas.thy ===== *)
theory Framebuffer_Canvas
  imports Framebuffer
begin

text \<open>
  What the drawing routines of \<open>drivers/framebuffer.c\<close> do to the buffer: \<open>fb_safe\<close>, a routine returns and
  stays inside the buffer, and \<open>paints\<close>, it applies a picture to the visible pixels, with one rule for
  each way the routines are composed (sequence, loop, store) and one for each shape.
\<close>

section \<open>Drawing stays inside the buffer\<close>

text \<open>
  A canvas of \<open>W\<close> by \<open>H\<close> pixels with rows of \<open>P\<close> words: the geometry, and buffers that hold all rows.
\<close>

definition canvas :: "nat \<Rightarrow> nat \<Rightarrow> nat \<Rightarrow> framebuffer \<Rightarrow> bool" where
  "canvas W H P s \<longleftrightarrow> unat (fb_width s) = W \<and> unat (fb_height s) = H \<and> unat (pitch4 s) = P \<and> fb_pitch s mod 4 = 0 \<and>
     W < 2147483648 \<and> H < 2147483648 \<and> W \<le> P \<and> P * H < 1073741824 \<and> P * H \<le> length (fb_target s) \<and>
     P * H \<le> length (fb_screen s)"

definition fb_safe :: "nat \<Rightarrow> nat \<Rightarrow> nat \<Rightarrow> (framebuffer \<Rightarrow> framebuffer option) \<Rightarrow> bool" where
  "fb_safe W H P g \<longleftrightarrow> (\<forall>s. canvas W H P s \<longrightarrow> (\<exists>s'. g s = Some s' \<and> canvas W H P s'))"

named_theorems safe_intros "drawing that stays inside the buffer"

lemma fb_safeI: "(\<And>s. canvas W H P s \<Longrightarrow> \<exists>s'. g s = Some s' \<and> canvas W H P s') \<Longrightarrow> fb_safe W H P g"
  by (simp add: fb_safe_def)

lemma fb_safeD: "fb_safe W H P g \<Longrightarrow> canvas W H P s \<Longrightarrow> \<exists>s'. g s = Some s' \<and> canvas W H P s'"
  by (simp add: fb_safe_def)

lemma safe_Some [safe_intros]: "fb_safe W H P Some"
  by (simp add: fb_safe_def)

lemma safe_bind [safe_intros]:
  "fb_safe W H P f \<Longrightarrow> fb_safe W H P g \<Longrightarrow> fb_safe W H P (\<lambda>s. do { s \<leftarrow> f s; g s })"
  unfolding fb_safe_def by (metis bind.bind_lunit)

lemma safe_if [safe_intros]:
  "fb_safe W H P f \<Longrightarrow> fb_safe W H P g \<Longrightarrow> fb_safe W H P (\<lambda>s. if b then f s else g s)"
  by (simp add: fb_safe_def)

lemma safe_range [safe_intros]:
  "(\<And>i. a \<le> i \<Longrightarrow> i < b \<Longrightarrow> fb_safe W H P (body i)) \<Longrightarrow> fb_safe W H P (for_range a b body)"
proof (rule fb_safeI, goal_cases)
  case (1 s)
  note body = 1(1)
  from 1(2) have "a \<le> i \<Longrightarrow> \<exists>s'. for_range i b body s = Some s' \<and> canvas W H P s'" for i
  proof (induction "nat (b - i)" arbitrary: i s)
    case 0
    then show ?case by (subst for_range.simps) simp
  next
    case (Suc n)
    then have i: "i < b" "n = nat (b - (i + 1))" by simp_all
    obtain t where t: "body i s = Some t" "canvas W H P t"
      using fb_safeD [OF body [OF Suc.prems(1) i(1)] Suc.prems(2)] by blast
    show ?case using Suc.hyps(1) [OF i(2) _ t(2)] Suc.prems(1) i(1) t(1) by (subst for_range.simps) simp
  qed
  then show ?case by simp
qed

text \<open>Storing a pixel.\<close>

lemma target_set [simp]: "fb_target (set_target b s) = b"
  by (simp add: fb_target_def set_target_def split: option.splits)

lemma set_target_fields [simp]:
  "fb_width (set_target b s) = fb_width s" "fb_height (set_target b s) = fb_height s"
  "fb_pitch (set_target b s) = fb_pitch s" "pitch4 (set_target b s) = pitch4 s"
  by (simp_all add: set_target_def pitch4_def split: option.splits)

lemma screen_set_target: "length b = length (fb_target s) \<Longrightarrow> length (fb_screen (set_target b s)) = length (fb_screen s)"
  by (simp add: set_target_def fb_target_def split: option.splits)

lemma canvas_set_target:
  "canvas W H P s \<Longrightarrow> length b = length (fb_target s) \<Longrightarrow> canvas W H P (set_target b s)"
  by (simp add: canvas_def screen_set_target)

lemma fb_store_safe: "canvas W H P s \<Longrightarrow> i < P * H \<Longrightarrow> \<exists>s'. fb_store i c s = Some s' \<and> canvas W H P s'"
  by (auto simp: fb_store_def canvas_def screen_set_target)

lemma row_less: "x < W \<Longrightarrow> y < H \<Longrightarrow> W \<le> P \<Longrightarrow> y * P + x < P * H" for x y :: nat
proof -
  assume "x < W" "y < H" "W \<le> P"
  then have "y * P + x < Suc y * P" by simp
  also have "\<dots> \<le> H * P" using \<open>y < H\<close> by (intro mult_le_mono1) simp
  finally show ?thesis by (simp add: mult.commute)
qed

lemma pixel_index:
  assumes "canvas W H P s" "unat xw < W" "unat yw < H"
  shows "unat (yw * pitch4 s + xw) = unat yw * P + unat xw" "unat yw * P + unat xw < P * H"
proof -
  show l: "unat yw * P + unat xw < P * H" using assms by (intro row_less [of _ W]) (simp_all add: canvas_def)
  have p: "unat (pitch4 s) = P" "P * H < 1073741824" using assms(1) by (simp_all add: canvas_def)
  have "unat (yw * pitch4 s) = unat yw * P"
    using l p by (subst unat_mult_u32) simp_all
  then show "unat (yw * pitch4 s + xw) = unat yw * P + unat xw"
    using l p by (subst unat_add_u32) simp_all
qed

lemma store_safe:
  assumes "canvas W H P s" "(xw :: u32) < fb_width s" "yw < fb_height s"
  shows "\<exists>s'. fb_store (unat (yw * pitch4 s + xw)) c s = Some s' \<and> canvas W H P s'"
proof -
  have "unat xw < W" "unat yw < H" using assms by (auto simp: canvas_def word_less_nat_alt)
  then show ?thesis using pixel_index [OF assms(1)] fb_store_safe [OF assms(1)] by simp
qed

lemma safe_putpixel [safe_intros]: "fb_safe W H P (putpixel x y c)"
proof (rule fb_safeI)
  fix s assume s: "canvas W H P s"
  then show "\<exists>s'. putpixel x y c s = Some s' \<and> canvas W H P s'"
    using store_safe [OF s, of "of_int x" "of_int y" c] by (auto simp: putpixel_def pitch4_def not_le)
qed

lemma canvas_sint: "canvas W H P s \<Longrightarrow> sint (fb_width s) = int W \<and> sint (fb_height s) = int H"
  using sint_small [of "fb_width s"] sint_small [of "fb_height s"] by (auto simp: canvas_def)

lemma of_int_screen: "0 \<le> z \<Longrightarrow> z < int n \<Longrightarrow> n < 2147483648 \<Longrightarrow> unat (of_int z :: u32) = nat z \<and> nat z < n"
proof -
  assume z: "0 \<le> z" "z < int n" "n < 2147483648"
  then have "of_int z = (of_nat (nat z) :: u32)" by simp
  moreover have "unat (of_nat (nat z) :: u32) = nat z" using z by (intro unat_of_nat_u32) simp
  ultimately show ?thesis using z by simp
qed

lemma of_int_less_iff:
  assumes "0 \<le> z" "z < 4294967296" "unat (w :: u32) = n"
  shows "of_int z < w \<longleftrightarrow> z < int n"
proof -
  have "of_int z = (of_nat (nat z) :: u32)" using assms(1) by simp
  then have "unat (of_int z :: u32) = nat z" using assms(1,2) unat_of_nat_u32 [of "nat z"] by simp
  then show ?thesis unfolding unat_less_u32 assms(3) using assms(1) by linarith
qed

lemma clipped:
  assumes "canvas W H P s"
  shows "clip_high (x + w) (fb_width s) = min (x + w) (int W)" "clip_high (y + h) (fb_height s) = min (y + h) (int H)"
    "0 \<le> clip_low x"
  using canvas_sint [OF assms] by (auto simp: clip_high_def clip_low_def)

text \<open>A row of pixels from column \<open>x0\<close> on.\<close>

lemma row_index:
  assumes "canvas W H P s" "0 \<le> py" "py < int H" "0 \<le> x0" "x0 \<le> px" "px < int W"
  shows "unat (of_int py * pitch4 s + of_int x0) + nat (px - x0) = nat py * P + nat px"
proof -
  have W: "W < 2147483648" "H < 2147483648" using assms(1) by (simp_all add: canvas_def)
  have "unat (of_int x0 :: u32) = nat x0 \<and> nat x0 < W" "unat (of_int py :: u32) = nat py \<and> nat py < H"
    using assms W by (intro of_int_screen; linarith)+
  then have "unat (of_int py * pitch4 s + of_int x0) = nat py * P + nat x0"
    using pixel_index(1) [OF assms(1), of "of_int x0" "of_int py"] by simp
  then show ?thesis using assms by simp
qed

lemma on_canvas:
  "canvas W H P s \<Longrightarrow> 0 \<le> py \<Longrightarrow> py < int H \<Longrightarrow> 0 \<le> px \<Longrightarrow> px < int W \<Longrightarrow> nat py * P + nat px < P * H"
  by (intro row_less [of _ W]) (auto simp: canvas_def)

section \<open>Pictures\<close>

text \<open>
  A picture gives for each pixel its new colour from its old one. \<open>painted\<close> applies it to the visible
  pixels of a buffer; \<open>paints\<close>: a drawing routine does exactly that and stays inside the buffer.
\<close>

type_synonym picture = "int \<Rightarrow> int \<Rightarrow> u32 \<Rightarrow> u32"

definition painted :: "nat \<Rightarrow> nat \<Rightarrow> nat \<Rightarrow> picture \<Rightarrow> u32 list \<Rightarrow> u32 list" where
  "painted W H P F b =
     map (\<lambda>i. if i mod P < W \<and> i div P < H then F (int (i mod P)) (int (i div P)) (b ! i) else b ! i) [0..<length b]"

definition paints :: "nat \<Rightarrow> nat \<Rightarrow> nat \<Rightarrow> (framebuffer \<Rightarrow> framebuffer option) \<Rightarrow> picture \<Rightarrow> bool" where
  "paints W H P g F \<longleftrightarrow> (\<forall>s. canvas W H P s \<longrightarrow>
     (\<exists>s'. g s = Some s' \<and> canvas W H P s' \<and> fb_target s' = painted W H P F (fb_target s)))"

lemma length_painted [simp]: "length (painted W H P F b) = length b"
  by (simp add: painted_def)

lemma nth_painted: "i < length b \<Longrightarrow> painted W H P F b ! i =
    (if i mod P < W \<and> i div P < H then F (int (i mod P)) (int (i div P)) (b ! i) else b ! i)"
  by (simp add: painted_def)

lemma painted_triv: "(\<And>x y v. F x y v = v) \<Longrightarrow> painted W H P F b = b"
  by (rule nth_equalityI) (simp_all add: nth_painted)

lemma painted_id: "painted W H P (\<lambda>x y v. v) b = b"
  by (rule painted_triv) (rule refl)

lemma painted_painted: "painted W H P G (painted W H P F b) = painted W H P (\<lambda>x y v. G x y (F x y v)) b"
  by (rule nth_equalityI) (simp_all add: nth_painted)

lemma painted_cong:
  "(\<And>x y v. 0 \<le> x \<Longrightarrow> x < int W \<Longrightarrow> 0 \<le> y \<Longrightarrow> y < int H \<Longrightarrow> F x y v = G x y v) \<Longrightarrow> painted W H P F b = painted W H P G b"
  by (rule nth_equalityI) (simp_all add: nth_painted)

lemma paintsI:
  "(\<And>s. canvas W H P s \<Longrightarrow> \<exists>s'. g s = Some s' \<and> canvas W H P s' \<and> fb_target s' = painted W H P F (fb_target s)) \<Longrightarrow>
   paints W H P g F"
  by (simp add: paints_def)

lemma paintsD:
  "paints W H P g F \<Longrightarrow> canvas W H P s \<Longrightarrow> \<exists>s'. g s = Some s' \<and> canvas W H P s' \<and> fb_target s' = painted W H P F (fb_target s)"
  by (simp add: paints_def)

lemma paints_safe: "paints W H P g F \<Longrightarrow> fb_safe W H P g"
  by (auto simp: paints_def fb_safe_def)

lemma paints_cong:
  assumes "paints W H P g F" "\<And>x y v. 0 \<le> x \<Longrightarrow> x < int W \<Longrightarrow> 0 \<le> y \<Longrightarrow> y < int H \<Longrightarrow> F x y v = G x y v"
  shows "paints W H P g G"
  using assms(1) painted_cong [OF assms(2), where ?P = P] by (simp add: paints_def)

lemma paints_Some: "paints W H P Some (\<lambda>x y v. v)"
  by (simp add: paints_def painted_id)

lemma paints_bind:
  assumes "paints W H P f F" "paints W H P g G"
  shows "paints W H P (\<lambda>s. do { s \<leftarrow> f s; g s }) (\<lambda>x y v. G x y (F x y v))"
proof (rule paintsI)
  fix s assume "canvas W H P s"
  then obtain t where t: "f s = Some t" "canvas W H P t" "fb_target t = painted W H P F (fb_target s)"
    using paintsD [OF assms(1)] by blast
  then show "\<exists>s'. f s \<bind> g = Some s' \<and> canvas W H P s' \<and> fb_target s' = painted W H P (\<lambda>x y v. G x y (F x y v)) (fb_target s)"
    using paintsD [OF assms(2) t(2)] by (simp add: painted_painted)
qed

text \<open>A loop whose pass \<open>i\<close> touches only the pixels with the key \<open>i\<close>: a column, or a row.\<close>

lemma paints_range:
  assumes "\<And>i. a \<le> i \<Longrightarrow> i < b \<Longrightarrow> paints W H P (body i) (\<lambda>x y v. if k x y = i then F x y v else v)"
  shows "paints W H P (for_range a b body) (\<lambda>x y v. if a \<le> k x y \<and> k x y < b then F x y v else v)"
proof (rule paintsI)
  fix s assume "canvas W H P s"
  moreover have "a \<le> i \<Longrightarrow> canvas W H P s \<Longrightarrow> \<exists>s'. for_range i b body s = Some s' \<and> canvas W H P s' \<and>
      fb_target s' = painted W H P (\<lambda>x y v. if i \<le> k x y \<and> k x y < b then F x y v else v) (fb_target s)" for i
  proof (induction "nat (b - i)" arbitrary: i s)
    case 0
    then show ?case by (subst for_range.simps) (auto intro!: painted_triv [symmetric])
  next
    case (Suc n)
    then have i: "i < b" "n = nat (b - (i + 1))" by simp_all
    obtain t where t: "body i s = Some t" "canvas W H P t"
        "fb_target t = painted W H P (\<lambda>x y v. if k x y = i then F x y v else v) (fb_target s)"
      using paintsD [OF assms [OF Suc.prems(1) i(1)] Suc.prems(2)] by blast
    obtain u where u: "for_range (i + 1) b body t = Some u" "canvas W H P u"
        "fb_target u = painted W H P (\<lambda>x y v. if i + 1 \<le> k x y \<and> k x y < b then F x y v else v) (fb_target t)"
      using Suc.hyps(1) [OF i(2) _ t(2)] Suc.prems(1) by auto
    have "fb_target u = painted W H P (\<lambda>x y v. if i \<le> k x y \<and> k x y < b then F x y v else v) (fb_target s)"
      unfolding u(3) t(3) painted_painted using i(1) by (intro painted_cong) auto
    then show ?case using i(1) t(1) u by (subst for_range.simps) simp
  qed
  ultimately show "\<exists>s'. for_range a b body s = Some s' \<and> canvas W H P s' \<and>
      fb_target s' = painted W H P (\<lambda>x y v. if a \<le> k x y \<and> k x y < b then F x y v else v) (fb_target s)" by blast
qed

text \<open>One store, at the index of a visible pixel.\<close>

lemma index_pixel: "x < W \<Longrightarrow> W \<le> P \<Longrightarrow> i = y * P + x \<longleftrightarrow> i mod P = x \<and> i div P = y" for x y :: nat
  by (metis add.commute div_mult_mod_eq div_mult_self3 less_le_trans mod_mult_self3 mod_less not_less_zero add_0 div_less)

lemma paints_store:
  assumes "canvas W H P s" "0 \<le> px" "px < int W" "0 \<le> py" "py < int H" "i = nat py * P + nat px"
    "c = F px py (fb_target s ! i)"
  shows "\<exists>s'. fb_store i c s = Some s' \<and> canvas W H P s' \<and>
    fb_target s' = painted W H P (\<lambda>x y v. if x = px \<and> y = py then F x y v else v) (fb_target s)"
proof -
  have WP: "W \<le> P" "P * H \<le> length (fb_target s)" using assms(1) by (simp_all add: canvas_def)
  have i: "i < P * H" "i < length (fb_target s)"
    using on_canvas [OF assms(1,4,5,2,3)] WP(2) assms(6) by simp_all
  have "(fb_target s)[i := c] = painted W H P (\<lambda>x y v. if x = px \<and> y = py then F x y v else v) (fb_target s)"
  proof (rule nth_equalityI)
    fix j assume j: "j < length ((fb_target s)[i := c])"
    have "j = i \<longleftrightarrow> j mod P = nat px \<and> j div P = nat py"
      using index_pixel [of "nat px" W P j "nat py"] assms(2,3,6) WP(1) by simp
    then show "(fb_target s)[i := c] ! j = painted W H P (\<lambda>x y v. if x = px \<and> y = py then F x y v else v) (fb_target s) ! j"
      using j assms(2-5,7) by (auto simp: nth_painted nth_list_update)
  qed simp
  then show ?thesis using fb_store_safe [OF assms(1) i(1), of c] i(2) by (auto simp: fb_store_def)
qed


section \<open>The shapes\<close>

lemma paints_putpixel:
  assumes "px < 4294967296" "py < 4294967296"
  shows "paints W H P (putpixel px py c) (\<lambda>x y v. if x = px \<and> y = py then c else v)"
proof (rule paintsI)
  fix s assume s: "canvas W H P s"
  have WH: "W < 2147483648" "H < 2147483648" "unat (fb_width s) = W" "unat (fb_height s) = H"
    using s by (simp_all add: canvas_def)
  show "\<exists>s'. putpixel px py c s = Some s' \<and> canvas W H P s' \<and>
      fb_target s' = painted W H P (\<lambda>x y v. if x = px \<and> y = py then c else v) (fb_target s)"
  proof (cases "0 \<le> px \<and> px < int W \<and> 0 \<le> py \<and> py < int H")
    case True
    then have u: "unat (of_int px :: u32) = nat px" "unat (of_int py :: u32) = nat py" "nat px < W" "nat py < H"
      using of_int_screen [of px W] of_int_screen [of py H] WH by auto
    have i: "unat (of_int py * pitch4 s + of_int px) = nat py * P + nat px"
      using pixel_index(1) [OF s, of "of_int px" "of_int py"] u by simp
    have "\<not> (px < 0 \<or> py < 0 \<or> fb_width s \<le> of_int px \<or> fb_height s \<le> of_int py)"
      using True u WH(3,4) by (simp add: unat_le_u32)
    then have "putpixel px py c s = fb_store (nat py * P + nat px) c s"
      using i by (simp add: putpixel_def pitch4_def)
    then show ?thesis using paints_store [OF s, of px py _ c "\<lambda>x y v. c"] True by simp
  next
    case False
    have "px < 0 \<or> py < 0 \<or> fb_width s \<le> of_int px \<or> fb_height s \<le> of_int py"
      using False of_int_less_iff [OF _ assms(1) WH(3)] of_int_less_iff [OF _ assms(2) WH(4)] by (metis not_le)
    then have "putpixel px py c s = Some s" by (simp add: putpixel_def)
    moreover have "fb_target s = painted W H P (\<lambda>x y v. if x = px \<and> y = py then c else v) (fb_target s)"
      using False by (subst painted_id [symmetric, of _ W H P], intro painted_cong) auto
    ultimately show ?thesis using s by simp
  qed
qed

text \<open>A row of stores between two columns of the screen.\<close>

lemma paints_cells:
  assumes "0 \<le> a" "b \<le> int W" "0 \<le> py" "py < int H"
    and body: "\<And>px u. canvas W H P u \<Longrightarrow> a \<le> px \<Longrightarrow> px < b \<Longrightarrow>
      \<exists>c. body px u = fb_store (nat py * P + nat px) c u \<and> c = F px py (fb_target u ! (nat py * P + nat px))"
  shows "paints W H P (for_range a b body) (\<lambda>x y v. if y = py \<and> a \<le> x \<and> x < b then F x y v else v)"
proof -
  have "paints W H P (body px) (\<lambda>x y v. if x = px then if y = py then F x y v else v else v)" if "a \<le> px" "px < b" for px
  proof (rule paintsI)
    fix u assume u: "canvas W H P u"
    have "0 \<le> px" "px < int W" using that assms(1,2) by simp_all
    from paints_store [OF u this assms(3,4) refl refl, of F] body [OF u that]
    obtain s' where s': "body px u = Some s'" "canvas W H P s'"
        "fb_target s' = painted W H P (\<lambda>x y v. if x = px \<and> y = py then F x y v else v) (fb_target u)" by auto
    then show "\<exists>s'. body px u = Some s' \<and> canvas W H P s' \<and>
        fb_target s' = painted W H P (\<lambda>x y v. if x = px then if y = py then F x y v else v else v) (fb_target u)"
      by (auto intro!: painted_cong)
  qed
  from paints_range [where k = "\<lambda>x y. x", OF this] show ?thesis by (rule paints_cong) auto
qed

lemma painted_clipped:
  "painted W H P (\<lambda>px py v. if clip_low y \<le> py \<and> py < min (y + h) (int H) then
       if clip_low x \<le> px \<and> px < min (x + w) (int W) then f v else v else v) b =
   painted W H P (\<lambda>px py v. if x \<le> px \<and> px < x + w \<and> y \<le> py \<and> py < y + h then f v else v) b"
  by (intro painted_cong) (auto simp: clip_low_def)

lemma paints_fill_rect:
  "paints W H P (fb_fill_rect x y w h c) (\<lambda>px py v. if x \<le> px \<and> px < x + w \<and> y \<le> py \<and> py < y + h then c else v)"
proof (rule paintsI)
  fix s assume s: "canvas W H P s"
  let ?x0 = "clip_low x" and ?x1 = "min (x + w) (int W)" and ?y0 = "clip_low y" and ?y1 = "min (y + h) (int H)"
  let ?row = "\<lambda>py s. for_range ?x0 ?x1 (\<lambda>px t. fb_store (unat (of_int py * pitch4 s + of_int ?x0) + nat (px - ?x0)) c t) s"
  have low: "0 \<le> ?x0" "0 \<le> ?y0" by (rule clipped(3) [OF s])+
  have "paints W H P (?row py) (\<lambda>px y v. if y = py then if ?x0 \<le> px \<and> px < ?x1 then c else v else v)"
    if "?y0 \<le> py" "py < ?y1" for py
  proof (rule paintsI)
    fix t assume t: "canvas W H P t"
    have py: "0 \<le> py" "py < int H" using that low(2) by simp_all
    have "paints W H P (for_range ?x0 ?x1 (\<lambda>px. fb_store (unat (of_int py * pitch4 t + of_int ?x0) + nat (px - ?x0)) c))
        (\<lambda>x y v. if y = py \<and> ?x0 \<le> x \<and> x < ?x1 then c else v)"
    proof (rule paints_cells [OF low(1) _ py])
      fix px u assume "?x0 \<le> px" "px < ?x1"
      then have "unat (of_int py * pitch4 t + of_int ?x0) + nat (px - ?x0) = nat py * P + nat px"
        using row_index [OF t py low(1)] by simp
      then show "\<exists>c'. fb_store (unat (of_int py * pitch4 t + of_int ?x0) + nat (px - ?x0)) c u =
          fb_store (nat py * P + nat px) c' u \<and> c' = c" by simp
    qed simp
    then have "paints W H P (for_range ?x0 ?x1 (\<lambda>px. fb_store (unat (of_int py * pitch4 t + of_int ?x0) + nat (px - ?x0)) c))
        (\<lambda>px y v. if y = py then if ?x0 \<le> px \<and> px < ?x1 then c else v else v)" by (rule paints_cong) simp
    from paintsD [OF this t] show "\<exists>s'. ?row py t = Some s' \<and> canvas W H P s' \<and>
        fb_target s' = painted W H P (\<lambda>px y v. if y = py then if ?x0 \<le> px \<and> px < ?x1 then c else v else v) (fb_target t)" .
  qed
  from paintsD [OF paints_range [where k = "\<lambda>x y. y", OF this] s]
  obtain s' where s': "for_range ?y0 ?y1 ?row s = Some s'" "canvas W H P s'"
    "fb_target s' = painted W H P (\<lambda>px y v. if ?y0 \<le> y \<and> y < ?y1 then if ?x0 \<le> px \<and> px < ?x1 then c else v else v) (fb_target s)"
    by blast
  have "fb_fill_rect x y w h c s = Some s'"
    using s'(1) unfolding fb_fill_rect_def Let_def clipped(1,2) [OF s] .
  moreover have "fb_target s' = painted W H P
      (\<lambda>px py v. if x \<le> px \<and> px < x + w \<and> y \<le> py \<and> py < y + h then c else v) (fb_target s)"
    unfolding s'(3) by (rule painted_clipped)
  ultimately show "\<exists>s'. fb_fill_rect x y w h c s = Some s' \<and> canvas W H P s' \<and> fb_target s' = painted W H P
      (\<lambda>px py v. if x \<le> px \<and> px < x + w \<and> y \<le> py \<and> py < y + h then c else v) (fb_target s)"
    using s'(2) by blast
qed

lemma paints_fill_rect_alpha:
  "paints W H P (fb_fill_rect_alpha x y w h c)
     (\<lambda>px py v. if x \<le> px \<and> px < x + w \<and> y \<le> py \<and> py < y + h then fb_blend v c else v)"
proof (rule paintsI)
  fix s assume s: "canvas W H P s"
  let ?x0 = "clip_low x" and ?x1 = "min (x + w) (int W)" and ?y0 = "clip_low y" and ?y1 = "min (y + h) (int H)"
  let ?row = "\<lambda>py. for_range ?x0 ?x1 (\<lambda>px s. let idx = unat (of_int py * pitch4 s + of_int px)
           in if idx < length (fb_target s) then fb_store idx (fb_blend (fb_target s ! idx) c) s else None)"
  have low: "0 \<le> ?x0" "0 \<le> ?y0" by (rule clipped(3) [OF s])+
  have "paints W H P (?row py) (\<lambda>px y v. if y = py then if ?x0 \<le> px \<and> px < ?x1 then fb_blend v c else v else v)"
    if "?y0 \<le> py" "py < ?y1" for py
  proof (rule paints_cong)
    have py: "0 \<le> py" "py < int H" using that low(2) by simp_all
    show "paints W H P (?row py) (\<lambda>x y v. if y = py \<and> ?x0 \<le> x \<and> x < ?x1 then fb_blend v c else v)"
    proof (rule paints_cells [OF low(1) _ py])
      fix px u assume u: "canvas W H P u" and px: "?x0 \<le> px" "px < ?x1"
      then have "0 \<le> px" "px < int W" using low(1) by simp_all
      then have "unat (of_int py * pitch4 u + of_int px) = nat py * P + nat px" "nat py * P + nat px < length (fb_target u)"
        using row_index [OF u py, of px px] on_canvas [OF u py, of px] u by (simp_all add: canvas_def)
      then show "\<exists>c'. (let idx = unat (of_int py * pitch4 u + of_int px)
           in if idx < length (fb_target u) then fb_store idx (fb_blend (fb_target u ! idx) c) u else None) =
          fb_store (nat py * P + nat px) c' u \<and> c' = fb_blend (fb_target u ! (nat py * P + nat px)) c" by (simp add: Let_def)
    qed simp
  qed simp
  from paintsD [OF paints_range [where k = "\<lambda>x y. y", OF this] s]
  obtain s' where s': "for_range ?y0 ?y1 ?row s = Some s'" "canvas W H P s'"
    "fb_target s' = painted W H P (\<lambda>px y v. if ?y0 \<le> y \<and> y < ?y1 then if ?x0 \<le> px \<and> px < ?x1 then fb_blend v c else v else v) (fb_target s)"
    by blast
  have "fb_fill_rect_alpha x y w h c s = Some s'"
    using s'(1) unfolding fb_fill_rect_alpha_def Let_def clipped(1,2) [OF s] .
  moreover have "fb_target s' = painted W H P
      (\<lambda>px py v. if x \<le> px \<and> px < x + w \<and> y \<le> py \<and> py < y + h then fb_blend v c else v) (fb_target s)"
    unfolding s'(3) by (rule painted_clipped)
  ultimately show "\<exists>s'. fb_fill_rect_alpha x y w h c s = Some s' \<and> canvas W H P s' \<and> fb_target s' = painted W H P
      (\<lambda>px py v. if x \<le> px \<and> px < x + w \<and> y \<le> py \<and> py < y + h then fb_blend v c else v) (fb_target s)"
    using s'(2) by blast
qed

lemma safe_fill_rect [safe_intros]: "fb_safe W H P (fb_fill_rect x y w h c)"
  by (rule paints_safe [OF paints_fill_rect])

lemma safe_fill_rect_alpha [safe_intros]: "fb_safe W H P (fb_fill_rect_alpha x y w h c)"
  by (rule paints_safe [OF paints_fill_rect_alpha])

text \<open>Two nested loops over the offsets from a point: discs, glyphs and the cursor.\<close>

lemma paints_grid:
  assumes "\<And>r q. a \<le> q \<Longrightarrow> q < b \<Longrightarrow> e \<le> r \<Longrightarrow> r < d \<Longrightarrow>
    paints W H P (body r q) (\<lambda>x y v. if x - cx = q \<and> y - cy = r then F r q v else v)"
  shows "paints W H P (for_range e d (\<lambda>r. for_range a b (body r))) (\<lambda>x y v.
    if a \<le> x - cx \<and> x - cx < b \<and> e \<le> y - cy \<and> y - cy < d then F (y - cy) (x - cx) v else v)"
proof -
  have row: "paints W H P (for_range a b (body r))
      (\<lambda>x y v. if y - cy = r then if a \<le> x - cx \<and> x - cx < b then F r (x - cx) v else v else v)"
    if "e \<le> r" "r < d" for r
  proof -
    have "paints W H P (body r q) (\<lambda>x y v. if x - cx = q then if y - cy = r then F r (x - cx) v else v else v)"
      if "a \<le> q" "q < b" for q
      by (rule paints_cong [OF assms [OF that \<open>e \<le> r\<close> \<open>r < d\<close>]]) simp
    from paints_range [where k = "\<lambda>x y. x - cx", OF this] show ?thesis by (rule paints_cong) auto
  qed
  have "paints W H P (for_range e d (\<lambda>r. for_range a b (body r))) (\<lambda>x y v. if e \<le> y - cy \<and> y - cy < d then
      if a \<le> x - cx \<and> x - cx < b then F (y - cy) (x - cx) v else v else v)"
  proof (intro paints_range [where k = "\<lambda>x y. y - cy"], goal_cases)
    case (1 r)
    show ?case by (rule paints_cong [OF row [OF 1]]) simp
  qed
  then show ?thesis by (rule paints_cong) simp
qed

lemma paints_dot:
  assumes "cx + q < 4294967296" "cy + r < 4294967296"
  shows "paints W H P (\<lambda>s. if B then putpixel (cx + q) (cy + r) c s else Some s)
    (\<lambda>x y v. if x - cx = q \<and> y - cy = r then if B then c else v else v)"
proof (cases B)
  case True
  have "paints W H P (putpixel (cx + q) (cy + r) c) (\<lambda>x y v. if x - cx = q \<and> y - cy = r then c else v)"
    by (rule paints_cong [OF paints_putpixel [OF assms]]) auto
  then have "paints W H P (putpixel (cx + q) (cy + r) c)
      (\<lambda>x y v. if x - cx = q \<and> y - cy = r then if B then c else v else v)"
    by (rule paints_cong) (simp add: True)
  then show ?thesis using True by simp
next
  case False
  show ?thesis using False by (simp add: paints_cong [OF paints_Some])
qed

lemma paints_disc_part:
  assumes "cx + b \<le> 4294967296" "cy + d \<le> 4294967296"
  shows "paints W H P (disc_part cx cy r2 a b e d c) (\<lambda>x y v. if a \<le> x - cx \<and> x - cx < b \<and> e \<le> y - cy \<and> y - cy < d
    then if (x - cx) * (x - cx) + (y - cy) * (y - cy) \<le> r2 then c else v else v)"
  unfolding disc_part_def using assms
  by (intro paints_grid [where F = "\<lambda>r q v. if q * q + r * r \<le> r2 then c else v"] paints_dot) simp_all

end
