(* ===== verification/Framebuffer_Draw.thy ===== *)
theory Framebuffer_Draw
  imports Framebuffer_Canvas
begin

text \<open>
  Sequences of calls of the framebuffer driver: every call returns and stays inside the buffer (the loop
  of the line included), the filled shapes and the text draw their pictures, and what goes wrong when
  the rows are longer than the screen is wide.
\<close>

section \<open>Outlines\<close>

lemma safe_draw_rect [safe_intros]: "fb_safe W H P (fb_draw_rect x y w h c n)"
  unfolding fb_draw_rect_def by (intro safe_intros)

lemma safe_disc_part [safe_intros]: "fb_safe W H P (disc_part cx cy r2 a b c d col)"
  unfolding disc_part_def by (intro safe_intros)

lemma safe_fill_rounded [safe_intros]: "fb_safe W H P (fb_fill_rounded_rect x y w h r c)"
  unfolding fb_fill_rounded_rect_def Let_def by (intro safe_intros)

lemma safe_plot [safe_intros]: "fb_safe W H P (plot ps c)"
proof (induction ps)
  case Nil
  then show ?case by (simp add: fb_safe_def)
next
  case (Cons p ps)
  show ?case
    using fb_safeD [OF safe_putpixel, of W H P _ "fst p" "snd p" c] fb_safeD [OF Cons]
    by (intro fb_safeI) fastforce
qed

lemma safe_arcs [safe_intros]: "fb_safe W H P (corner_arcs x y w h r c f ddx ddy px py)"
proof (rule fb_safeI)
  fix s assume "canvas W H P s"
  then show "\<exists>s'. corner_arcs x y w h r c f ddx ddy px py s = Some s' \<and> canvas W H P s'"
  proof (induction "nat (py - px)" arbitrary: f ddx ddy px py s rule: less_induct)
    case less
    show ?case
    proof (cases "px < py")
      case True
      obtain py' ddy' f' where v: "(if 0 \<le> f then (py - 1, ddy + 2, f + (ddy + 2)) else (py, ddy, f)) = (py', ddy', f')"
        "nat (py' - (px + 1)) < nat (py - px)"
        using True by (cases "0 \<le> f") auto
      have "\<exists>ps f2 ddx2. corner_arcs x y w h r c f ddx ddy px py s =
          (case plot ps c s of None \<Rightarrow> None | Some s \<Rightarrow> corner_arcs x y w h r c f2 ddx2 ddy' (px + 1) py' s)"
        by (subst corner_arcs.simps) (simp only: True if_True v(1) Let_def prod.case; intro exI; rule refl)
      then obtain ps f2 ddx2 where step: "corner_arcs x y w h r c f ddx ddy px py s =
          (case plot ps c s of None \<Rightarrow> None | Some s \<Rightarrow> corner_arcs x y w h r c f2 ddx2 ddy' (px + 1) py' s)" by blast
      obtain t where "plot ps c s = Some t" "canvas W H P t" using fb_safeD [OF safe_plot less.prems] by blast
      then show ?thesis unfolding step using less.hyps [OF v(2)] by simp
    next
      case False
      then show ?thesis using less.prems by (subst corner_arcs.simps) simp
    qed
  qed
qed

lemma safe_draw_rounded [safe_intros]: "fb_safe W H P (fb_draw_rounded_rect x y w h r c)"
  unfolding fb_draw_rounded_rect_def by (intro safe_intros)

lemma safe_fill_circle [safe_intros]: "fb_safe W H P (fb_fill_circle cx cy r c)"
  unfolding fb_fill_circle_def by (intro safe_intros)

lemma safe_circle [safe_intros]: "fb_safe W H P (fb_draw_circle cx cy r c)"
proof -
  have "\<exists>s'. circle_loop cx cy c x y d s = Some s' \<and> canvas W H P s'" if "canvas W H P s" for x y d s
    using that
  proof (induction "nat (y + 1 - x)" arbitrary: x y d s rule: less_induct)
    case less
    show ?case
    proof (cases "x \<le> y")
      case True
      then have m: "nat (y + 1 - (x + 1)) < nat (y + 1 - x)" "nat (y - 1 + 1 - (x + 1)) < nat (y + 1 - x)" by simp_all
      have "\<exists>ps. circle_loop cx cy c x y d s = (case plot ps c s of None \<Rightarrow> None | Some s \<Rightarrow>
          if d < 0 then circle_loop cx cy c (x + 1) y (d + (4 * x + 6)) s
          else circle_loop cx cy c (x + 1) (y - 1) (d + (4 * (x - y) + 10)) s)"
        by (subst circle_loop.simps) (simp only: True if_True; intro exI; rule refl)
      then obtain ps where step: "circle_loop cx cy c x y d s = (case plot ps c s of None \<Rightarrow> None | Some s \<Rightarrow>
          if d < 0 then circle_loop cx cy c (x + 1) y (d + (4 * x + 6)) s
          else circle_loop cx cy c (x + 1) (y - 1) (d + (4 * (x - y) + 10)) s)" by blast
      obtain t where "plot ps c s = Some t" "canvas W H P t" using fb_safeD [OF safe_plot less.prems] by blast
      then show ?thesis unfolding step using less.hyps [OF m(1)] less.hyps [OF m(2)] by simp
    next
      case False
      then show ?thesis using less.prems by (subst circle_loop.simps) simp
    qed
  qed
  then show ?thesis by (auto simp: fb_draw_circle_def intro: fb_safeI)
qed

text \<open>
  The line: in the longer direction every step advances, and the error term stays between 0 and the
  longer side, so that the shorter direction is done exactly when the longer one is.
\<close>

lemma line_wide:
  assumes "canvas W H P s" "dy < dx" "0 \<le> dy" "0 \<le> err" "err < dx" "x1 = x0 + sx * int n" "y1 = y0 + sy * j" "0 \<le> j"
    and "err = int n * dy - j * dx + dx div 2" "sx \<in> {1, - 1}" "sy \<in> {1, - 1}"
  shows "\<exists>s'. line_loop x1 y1 dx dy sx sy c x0 y0 err s = Some s' \<and> canvas W H P s'"
  using assms
proof (induction n arbitrary: j x0 y0 err s)
  case 0
  obtain t where t: "putpixel x0 y0 c s = Some t" "canvas W H P t" using fb_safeD [OF safe_putpixel 0(1)] by blast
  have "j = 0"
  proof (rule ccontr)
    assume "j \<noteq> 0"
    then have "1 * dx \<le> j * dx" using 0 by (intro mult_right_mono) simp_all
    moreover have "dx div 2 < dx" using 0 by simp
    ultimately show False using 0(4,9) by simp
  qed
  then have "x0 = x1 \<and> y0 = y1" using 0 by simp
  then show ?case using t by (subst line_loop.simps) simp
next
  case (Suc n)
  obtain t where t: "putpixel x0 y0 c s = Some t" "canvas W H P t" using fb_safeD [OF safe_putpixel Suc.prems(1)] by blast
  have ne: "x0 \<noteq> x1" using Suc.prems(6,10) by auto
  have x: "x1 = x0 + sx + sx * int n" using Suc.prems(6) by (simp add: algebra_simps)
  have wide: "- dx < err" using Suc.prems by simp
  show ?case
  proof (cases "err < dy")
    case True
    have j: "0 < j"
    proof (rule ccontr)
      assume "\<not> 0 < j"
      then have "j = 0" using Suc.prems(8) by simp
      then have "err = int n * dy + dy + dx div 2" using Suc.prems(9) by (simp add: algebra_simps)
      moreover have "0 \<le> int n * dy" "0 \<le> dx div 2" using Suc.prems by simp_all
      ultimately show False using True by linarith
    qed
    have "err - dy + dx = int n * dy - (j - 1) * dx + dx div 2" using Suc.prems(9) by (simp add: algebra_simps)
    then have "\<exists>s'. line_loop x1 y1 dx dy sx sy c (x0 + sx) (y0 + sy) (err - dy + dx) t = Some s' \<and> canvas W H P s'"
      using Suc.prems True j x t(2)
      by (intro Suc.IH [where j = "j - 1"]) (simp_all add: algebra_simps)
    then show ?thesis using t(1) ne wide True by (subst line_loop.simps) simp
  next
    case False
    have "err - dy = int n * dy - j * dx + dx div 2" using Suc.prems(9) by (simp add: algebra_simps)
    then have "\<exists>s'. line_loop x1 y1 dx dy sx sy c (x0 + sx) y0 (err - dy) t = Some s' \<and> canvas W H P s'"
      using Suc.prems False x t(2) by (intro Suc.IH [where j = j]) simp_all
    then show ?thesis using t(1) ne wide False by (subst line_loop.simps) simp
  qed
qed

lemma line_tall:
  assumes "canvas W H P s" "dx \<le> dy" "0 \<le> dx" "- dy < err" "err \<le> 0" "x1 = x0 + sx * i" "y1 = y0 + sy * int n" "0 \<le> i"
    and "err = i * dy - int n * dx - dy div 2" "sx \<in> {1, - 1}" "sy \<in> {1, - 1}" "0 < dy"
  shows "\<exists>s'. line_loop x1 y1 dx dy sx sy c x0 y0 err s = Some s' \<and> canvas W H P s'"
  using assms
proof (induction n arbitrary: i x0 y0 err s)
  case 0
  obtain t where t: "putpixel x0 y0 c s = Some t" "canvas W H P t" using fb_safeD [OF safe_putpixel 0(1)] by blast
  have "i = 0"
  proof (rule ccontr)
    assume "i \<noteq> 0"
    then have "1 * dy \<le> i * dy" using 0 by (intro mult_right_mono) simp_all
    moreover have "dy div 2 < dy" using 0 by simp
    ultimately show False using 0(5,9) by simp
  qed
  then have "x0 = x1 \<and> y0 = y1" using 0 by simp
  then show ?case using t by (subst line_loop.simps) simp
next
  case (Suc n)
  obtain t where t: "putpixel x0 y0 c s = Some t" "canvas W H P t" using fb_safeD [OF safe_putpixel Suc.prems(1)] by blast
  have ne: "y0 \<noteq> y1" using Suc.prems(7,11) by auto
  have y: "y1 = y0 + sy + sy * int n" using Suc.prems(7) by (simp add: algebra_simps)
  have tall: "err < dy" using Suc.prems by simp
  show ?case
  proof (cases "- dx < err")
    case True
    have i: "0 < i"
    proof (rule ccontr)
      assume "\<not> 0 < i"
      then have "i = 0" using Suc.prems(8) by simp
      then have "err = - (int n * dx) - dx - dy div 2" using Suc.prems(9) by (simp add: algebra_simps)
      moreover have "0 \<le> int n * dx" "0 \<le> dy div 2" using Suc.prems by simp_all
      ultimately show False using True by linarith
    qed
    have "err - dy + dx = (i - 1) * dy - int n * dx - dy div 2" using Suc.prems(9) by (simp add: algebra_simps)
    then have "\<exists>s'. line_loop x1 y1 dx dy sx sy c (x0 + sx) (y0 + sy) (err - dy + dx) t = Some s' \<and> canvas W H P s'"
      using Suc.prems True i y t(2)
      by (intro Suc.IH [where i = "i - 1"]) (simp_all add: algebra_simps)
    then show ?thesis using t(1) ne tall True by (subst line_loop.simps) simp
  next
    case False
    have "err + dx = i * dy - int n * dx - dy div 2" using Suc.prems(9) by (simp add: algebra_simps)
    then have "\<exists>s'. line_loop x1 y1 dx dy sx sy c x0 (y0 + sy) (err + dx) t = Some s' \<and> canvas W H P s'"
      using Suc.prems False y t(2) by (intro Suc.IH [where i = i]) simp_all
    then show ?thesis using t(1) ne tall False by (subst line_loop.simps) simp
  qed
qed

lemma safe_draw_line [safe_intros]: "fb_safe W H P (fb_draw_line x0 y0 x1 y1 c)"
proof (rule fb_safeI)
  fix s assume s: "canvas W H P s"
  define dx dy sx sy where d: "dx = \<bar>x1 - x0\<bar>" "dy = \<bar>y1 - y0\<bar>"
    "sx = (if 0 < x1 - x0 then 1 else - 1 :: int)" "sy = (if 0 < y1 - y0 then 1 else - 1 :: int)"
  have sgn: "sx \<in> {1, - 1}" "sy \<in> {1, - 1}" "0 \<le> dx" "0 \<le> dy" "x1 = x0 + sx * dx" "y1 = y0 + sy * dy"
    by (simp_all add: d)
  have line: "fb_draw_line x0 y0 x1 y1 c s = line_loop x1 y1 dx dy sx sy c x0 y0 (if dy < dx then dx div 2 else - (dy div 2)) s"
    by (simp add: fb_draw_line_def Let_def d abs_if)
  consider "dy < dx" | "dx \<le> dy" "0 < dy" | "dx = 0" "dy = 0" using sgn by linarith
  then show "\<exists>s'. fb_draw_line x0 y0 x1 y1 c s = Some s' \<and> canvas W H P s'"
  proof cases
    case 1
    have "\<exists>s'. line_loop x1 y1 dx dy sx sy c x0 y0 (dx div 2) s = Some s' \<and> canvas W H P s'"
      using sgn 1 by (intro line_wide [OF s, where n = "nat dx" and j = dy]) simp_all
    then show ?thesis using 1 by (simp add: line)
  next
    case 2
    have "\<exists>s'. line_loop x1 y1 dx dy sx sy c x0 y0 (- (dy div 2)) s = Some s' \<and> canvas W H P s'"
      using sgn 2 by (intro line_tall [OF s, where n = "nat dy" and i = dx]) simp_all
    then show ?thesis using 2 by (simp add: line)
  next
    case 3
    then have "x0 = x1" "y0 = y1" using sgn by simp_all
    then show ?thesis using fb_safeD [OF safe_putpixel s, of x0 y0 c] unfolding line
      by (subst line_loop.simps) auto
  qed
qed

section \<open>Text\<close>

lemma on_screen_iff:
  assumes s: "canvas W H P s" and "px < 4294967296" "py < 4294967296"
  shows "on_screen px py s \<longleftrightarrow> 0 \<le> px \<and> px < int W \<and> 0 \<le> py \<and> py < int H"
proof -
  have "unat (fb_width s) = W" "unat (fb_height s) = H" using s by (simp_all add: canvas_def)
  then show ?thesis
    using of_int_less_iff [OF _ assms(2)] of_int_less_iff [OF _ assms(3)] by (auto simp: on_screen_def)
qed

text \<open>A pixel of a character cell: stored when it is to be drawn and on the screen.\<close>

lemma paints_cell:
  assumes "x + q < 4294967296" "y + r < 4294967296"
    and "\<And>s. body s = (if D \<and> on_screen (x + q) (y + r) s
        then fb_store (unat (of_int (y + r) * pitch4 s + of_int (x + q))) c s else Some s)"
  shows "paints W H P body (\<lambda>X Y v. if X - x = q \<and> Y - y = r then if D then c else v else v)"
proof (rule paintsI)
  fix s assume s: "canvas W H P s"
  let ?F = "\<lambda>X Y v. if X - x = q \<and> Y - y = r then if D then c else v else v"
  show "\<exists>s'. body s = Some s' \<and> canvas W H P s' \<and> fb_target s' = painted W H P ?F (fb_target s)"
  proof (cases "D \<and> on_screen (x + q) (y + r) s")
    case True
    then have on: "0 \<le> x + q" "x + q < int W" "0 \<le> y + r" "y + r < int H"
      using on_screen_iff [OF s assms(1,2)] by simp_all
    have i: "unat (of_int (y + r) * pitch4 s + of_int (x + q)) = nat (y + r) * P + nat (x + q)"
      using row_index [OF s on(3,4,1) order_refl on(2)] by simp
    from paints_store [OF s on i, of c "\<lambda>X Y v. c"]
    obtain s' where s': "body s = Some s'" "canvas W H P s'"
        "fb_target s' = painted W H P (\<lambda>X Y v. if X = x + q \<and> Y = y + r then c else v) (fb_target s)"
      using True by (auto simp: assms(3))
    have "fb_target s' = painted W H P ?F (fb_target s)"
      unfolding s'(3) using True by (intro painted_cong) auto
    then show ?thesis using s'(1,2) by blast
  next
    case False
    then have "body s = Some s" unfolding assms(3) by (rule if_not_P)
    moreover have "painted W H P ?F (fb_target s) = painted W H P (\<lambda>X Y v. v) (fb_target s)"
      using False on_screen_iff [OF s assms(1,2)] by (intro painted_cong) auto
    ultimately show ?thesis using s by (simp add: painted_id)
  qed
qed

definition char_picture :: "int \<Rightarrow> int \<Rightarrow> u8 \<Rightarrow> u32 \<Rightarrow> u32 option \<Rightarrow> picture" where
  "char_picture x y c fg bg X Y v =
     (if x \<le> X \<and> X < x + 8 \<and> y \<le> Y \<and> Y < y + 16
      then if glyph_bit (glyph c ! nat (Y - y)) (X - x) then fg else case bg of Some b \<Rightarrow> b | None \<Rightarrow> v
      else v)"

lemma paints_putchar:
  assumes "x + 8 \<le> 4294967296" "y + 16 \<le> 4294967296"
  shows "paints W H P (fb_putchar x y c fg bg) (char_picture x y c fg (Some bg))"
proof -
  have "paints W H P (fb_putchar x y c fg bg) (\<lambda>X Y v. if 0 \<le> X - x \<and> X - x < 8 \<and> 0 \<le> Y - y \<and> Y - y < 16
      then if True then if glyph_bit (glyph c ! nat (Y - y)) (X - x) then fg else bg else v else v)"
    unfolding fb_putchar_def Let_def
    using assms by (intro paints_grid [where F = "\<lambda>r q v. if True then if glyph_bit (glyph c ! nat r) q then fg else bg else v"]
        paints_cell) simp_all
  then show ?thesis by (rule paints_cong) (auto simp: char_picture_def)
qed

fun char_over :: "int \<Rightarrow> int \<Rightarrow> u8 \<Rightarrow> u32 \<Rightarrow> framebuffer \<Rightarrow> framebuffer option" where
  "char_over x y c fg s = for_range 0 16 (\<lambda>row. for_range 0 8 (\<lambda>col s.
     let bits = glyph c ! nat row; px = x + col; py = y + row
     in if glyph_bit bits col \<and> on_screen px py s
        then fb_store (unat (of_int py * pitch4 s + of_int px)) fg s else Some s)) s"

lemma paints_char_over:
  assumes "x + 8 \<le> 4294967296" "y + 16 \<le> 4294967296"
  shows "paints W H P (char_over x y c fg) (char_picture x y c fg None)"
proof -
  have "paints W H P (char_over x y c fg) (\<lambda>X Y v. if 0 \<le> X - x \<and> X - x < 8 \<and> 0 \<le> Y - y \<and> Y - y < 16
      then if glyph_bit (glyph c ! nat (Y - y)) (X - x) then fg else v else v)"
    unfolding char_over.simps [abs_def] Let_def
    using assms by (intro paints_grid [where F = "\<lambda>r q v. if glyph_bit (glyph c ! nat r) q then fg else v"]
        paints_cell) simp_all
  then show ?thesis by (rule paints_cong) (auto simp: char_picture_def)
qed

text \<open>Where the characters of a text stand, and its picture.\<close>

fun layout :: "int \<Rightarrow> int \<Rightarrow> u8 list \<Rightarrow> (int \<times> int \<times> u8) list" where
  "layout x y [] = []"
| "layout x y (c # str) = (if c = 10 then layout 0 (y + 16) str else (x, y, c) # layout (x + 8) y str)"

definition text_picture :: "(int \<times> int \<times> u8) list \<Rightarrow> u32 \<Rightarrow> u32 option \<Rightarrow> picture" where
  "text_picture cells fg bg X Y v = fold (\<lambda>(x, y, c). char_picture x y c fg bg X Y) cells v"

definition text_fits :: "(int \<times> int \<times> u8) list \<Rightarrow> bool" where
  "text_fits cells \<longleftrightarrow> list_all (\<lambda>(x, y, c). x + 8 \<le> 4294967296 \<and> y + 16 \<le> 4294967296) cells"

lemma paints_puts: "text_fits (layout x y str) \<Longrightarrow> paints W H P (fb_puts x y str fg bg) (text_picture (layout x y str) fg (Some bg))"
proof (induction str arbitrary: x y)
  case Nil
  then show ?case by (simp add: text_picture_def [abs_def] paints_def painted_id)
next
  case (Cons c str)
  show ?case
  proof (cases "c = 10")
    case True
    then show ?thesis using Cons by (simp add: paints_def)
  next
    case False
    then have "paints W H P (\<lambda>s. do { s \<leftarrow> fb_putchar x y c fg bg s; fb_puts (x + 8) y str fg bg s })
      (\<lambda>X Y v. text_picture (layout (x + 8) y str) fg (Some bg) X Y (char_picture x y c fg (Some bg) X Y v))"
      using Cons by (intro paints_bind paints_putchar Cons.IH) (simp_all add: text_fits_def)
    then show ?thesis using False by (simp add: text_picture_def [abs_def])
  qed
qed

lemma paints_puts_transparent:
  "text_fits (layout x y str) \<Longrightarrow> paints W H P (fb_puts_transparent x y str fg) (text_picture (layout x y str) fg None)"
proof (induction str arbitrary: x y)
  case Nil
  then show ?case by (simp add: text_picture_def [abs_def] paints_def painted_id)
next
  case (Cons c str)
  show ?case
  proof (cases "c = 10")
    case True
    then show ?thesis using Cons by (simp add: paints_def)
  next
    case False
    then have "paints W H P (\<lambda>s. do { s \<leftarrow> char_over x y c fg s; fb_puts_transparent (x + 8) y str fg s })
      (\<lambda>X Y v. text_picture (layout (x + 8) y str) fg None X Y (char_picture x y c fg None X Y v))"
      using Cons by (intro paints_bind paints_char_over Cons.IH) (simp_all add: text_fits_def)
    then show ?thesis using False by (simp add: text_picture_def [abs_def])
  qed
qed


lemma safe_cell:
  assumes "\<And>s. body s = (if D \<and> on_screen px py s then fb_store (unat (of_int py * pitch4 s + of_int px)) c s else Some s)"
  shows "fb_safe W H P body"
proof (rule fb_safeI)
  fix s assume s: "canvas W H P s"
  show "\<exists>s'. body s = Some s' \<and> canvas W H P s'"
  proof (cases "D \<and> on_screen px py s")
    case True
    then have "body s = fb_store (unat (of_int py * pitch4 s + of_int px)) c s" unfolding assms by (rule if_P)
    then show ?thesis using store_safe [OF s, of "of_int px" "of_int py" c] True by (simp add: on_screen_def)
  next
    case False
    then have "body s = Some s" unfolding assms by (rule if_not_P)
    then show ?thesis using s by simp
  qed
qed

lemma safe_putchar [safe_intros]: "fb_safe W H P (fb_putchar x y c fg bg)"
  unfolding fb_putchar_def Let_def
  by (intro safe_range) (rule safe_cell [where D = True], simp)

lemma safe_char_over [safe_intros]: "fb_safe W H P (char_over x y c fg)"
  unfolding char_over.simps [abs_def] Let_def by (intro safe_range) (rule safe_cell, rule refl)

lemma safe_puts [safe_intros]: "fb_safe W H P (fb_puts x y str fg bg)"
proof (induction str arbitrary: x y)
  case (Cons c str)
  show ?case using Cons [of 0 "y + 16"] safe_bind [OF safe_putchar [of W H P x y c fg bg] Cons [of "x + 8" y]]
    by (cases "c = 10") (simp_all add: fb_safe_def)
qed (simp add: fb_safe_def)

lemma safe_puts_transparent [safe_intros]: "fb_safe W H P (fb_puts_transparent x y str fg)"
proof (induction str arbitrary: x y)
  case (Cons c str)
  show ?case using Cons [of 0 "y + 16"] safe_bind [OF safe_char_over [of W H P x y c fg] Cons [of "x + 8" y]]
    by (cases "c = 10") (simp_all add: fb_safe_def)
qed (simp add: fb_safe_def)

lemma safe_cursor [safe_intros]: "fb_safe W H P (fb_draw_cursor x y)"
  unfolding fb_draw_cursor_def by (intro safe_intros)

section \<open>Whole buffers\<close>

lemma unat_area:
  assumes "canvas W H P s"
  shows "unat (fb_width s * fb_height s) = W * H" "unat (fb_width s * fb_height s * 4) = W * H * 4"
    "W * H \<le> length (fb_target s)" "W * H \<le> length (fb_screen s)" "W * H \<le> P * H"
proof -
  have s: "unat (fb_width s) = W" "unat (fb_height s) = H" "P * H < 1073741824" "W \<le> P"
    "P * H \<le> length (fb_target s)" "P * H \<le> length (fb_screen s)"
    using assms by (simp_all add: canvas_def)
  show le: "W * H \<le> P * H" using s(4) by (rule mult_le_mono1)
  show "W * H \<le> length (fb_target s)" "W * H \<le> length (fb_screen s)" using le s(5,6) by linarith+
  have lt: "W * H < 1073741824" using le s(3) by linarith
  show m: "unat (fb_width s * fb_height s) = W * H" 
    using unat_mult_u32 [of "fb_width s" "fb_height s"] lt s(1,2) by simp
  show "unat (fb_width s * fb_height s * 4) = W * H * 4"
    using unat_mult_u32 [of "fb_width s * fb_height s" 4] lt m by (simp add: mult.commute)
qed

text \<open>A loop of stores one after the other.\<close>

lemma fill_from:
  assumes "a \<le> n" "n \<le> length (fb_target s)"
  shows "for_range (int a) (int n) (\<lambda>i. fb_store (nat i) c) s =
    Some (set_target (take a (fb_target s) @ replicate (n - a) c @ drop n (fb_target s)) s)"
  using assms
proof (induction "n - a" arbitrary: a s)
  case 0
  then show ?case by (subst for_range.simps) (simp add: set_target_def fb_target_def split: option.splits)
next
  case (Suc k)
  let ?t = "set_target ((fb_target s)[a := c]) s"
  have st: "set_target x (set_target y s) = set_target x s" for x y
    by (simp add: set_target_def split: option.splits)
  have one: "fb_store (nat (int a)) c s = Some ?t" using Suc by (simp add: fb_store_def)
  have split: "replicate (n - a) c = c # replicate (n - Suc a) c"
    using Suc by (metis Suc_diff_Suc Suc_diff_le diff_is_0_eq' linorder_not_le nat.simps(3) replicate_Suc)
  have "for_range (int (Suc a)) (int n) (\<lambda>i. fb_store (nat i) c) ?t =
      Some (set_target (take (Suc a) (fb_target ?t) @ replicate (n - Suc a) c @ drop n (fb_target ?t)) ?t)"
    using Suc by (intro Suc.hyps(1)) auto
  moreover have "take (Suc a) ((fb_target s)[a := c]) = take a (fb_target s) @ [c]"
    using Suc by (simp add: take_Suc_conv_app_nth)
  moreover have "drop n ((fb_target s)[a := c]) = drop n (fb_target s)" using Suc by simp
  ultimately show ?case using one Suc unfolding split
    by (subst for_range.simps) (simp add: st add.commute)
qed

lemma clear_eq:
  assumes s: "canvas W H P s"
  shows "fb_clear c s = Some (set_target (replicate (W * H) c @ drop (W * H) (fb_target s)) s)"
proof -
  have le: "W * H \<le> length (fb_target s)" by (rule unat_area(3) [OF s])
  have "uint (fb_width s * fb_height s) = int (W * H)" using unat_area(1) [OF s] by (metis uint_nat)
  then show ?thesis using fill_from [of 0 "W * H" s c] le by (simp add: fb_clear_def Let_def)
qed

lemma safe_clear [safe_intros]: "fb_safe W H P (fb_clear c)"
proof (rule fb_safeI)
  fix s assume s: "canvas W H P s"
  then have "W * H \<le> length (fb_target s)" by (rule unat_area(3))
  then show "\<exists>s'. fb_clear c s = Some s' \<and> canvas W H P s'"
    using s by (simp add: clear_eq [OF s] canvas_set_target)
qed

lemma swap_eq:
  assumes s: "canvas W H P s" and b: "backbuffer s = Some b" and a: "fb_address s \<noteq> 0"
  shows "fb_swap s = Some (s\<lparr>fb_screen := take (W * H) b @ drop (W * H) (fb_screen s)\<rparr>)"
proof -
  have "W * H \<le> length b" "W * H \<le> length (fb_screen s)"
    using unat_area(3,4) [OF s] b by (simp_all add: fb_target_def)
  then show ?thesis using b a unat_area(2) [OF s]
    by (simp add: fb_swap_def copy_words_def blit_def bytes_at_def)
qed

lemma safe_swap [safe_intros]: "fb_safe W H P fb_swap"
proof (rule fb_safeI)
  fix s assume s: "canvas W H P s"
  show "\<exists>s'. fb_swap s = Some s' \<and> canvas W H P s'"
  proof (cases "backbuffer s = None \<or> fb_address s = 0")
    case True
    then show ?thesis using s by (auto simp: fb_swap_def split: option.splits)
  next
    case False
    then obtain b where b: "backbuffer s = Some b" "fb_address s \<noteq> 0" by auto
    have "W * H \<le> length b" "W * H \<le> length (fb_screen s)"
      using unat_area(3,4) [OF s] b by (simp_all add: fb_target_def)
    then show ?thesis using s b by (simp add: swap_eq [OF s b] canvas_def fb_target_def pitch4_def)
  qed
qed


text \<open>Scrolling by \<open>p\<close> rows.\<close>

lemma scroll_sizes:
  assumes s: "canvas W H P s" and p: "p \<le> H"
  shows "unat (of_nat p * pitch4 s) = p * P" "unat ((fb_height s - of_nat p) * fb_pitch s) div 4 = (H - p) * P"
    "uint (fb_height s - of_nat p) = int (H - p)" "p * P + (H - p) * P = P * H"
proof -
  have c: "unat (fb_height s) = H" "unat (pitch4 s) = P" "P * H < 1073741824" "H < 2147483648" "fb_pitch s mod 4 = 0"
    using s by (simp_all add: canvas_def)
  have p32: "unat (of_nat p :: u32) = p" using p c(4) by (intro unat_of_nat_u32) simp
  show sum: "p * P + (H - p) * P = P * H" using p by (metis add_mult_distrib le_add_diff_inverse mult.commute)
  then have le: "p * P < 1073741824" "(H - p) * P < 1073741824" using c(3) by linarith+
  show "unat (of_nat p * pitch4 s) = p * P" using le(1) by (subst unat_mult_u32) (simp_all add: p32 c(2))
  have h: "unat (fb_height s - of_nat p) = H - p" using p by (subst unat_sub_u32) (simp_all add: p32 c(1))
  then show "uint (fb_height s - of_nat p) = int (H - p)" by (metis uint_nat)
  have "unat (fb_pitch s) mod 4 = 0" using c(5) unat_mod [of "fb_pitch s" 4] by simp
  moreover have "unat (fb_pitch s) div 4 = P" using c(2) unat_div [of "fb_pitch s" 4] by (simp add: pitch4_def)
  ultimately have "unat (fb_pitch s) = P * 4" by (metis add.right_neutral div_mult_mod_eq)
  then have "unat ((fb_height s - of_nat p) * fb_pitch s) = (H - p) * P * 4"
    using le(2) unat_mult_u32 [of "fb_height s - of_nat p" "fb_pitch s"] by (simp add: h mult.assoc mult.left_commute mult.commute [of P])
  then show "unat ((fb_height s - of_nat p) * fb_pitch s) div 4 = (H - p) * P" by simp
qed

lemma scroll_shape:
  assumes s: "canvas W H P s" and p: "p \<le> H"
  obtains s' where "fb_scroll_up (int p) c s = Some s'" "canvas W H P s'"
    "fb_target s' = painted W H P (\<lambda>x y v. if int (H - p) \<le> y then c else v)
       (blit 0 (bytes_at (p * P) ((H - p) * P) (fb_target s)) (fb_target s))"
proof -
  note sz = scroll_sizes [OF s p]
  have c: "fb_pitch s mod 4 = 0" "P * H \<le> length (fb_target s)" "unat (fb_width s) = W" "unat (fb_height s) = H"
    using s by (simp_all add: canvas_def)
  let ?d = "blit 0 (bytes_at (p * P) ((H - p) * P) (fb_target s)) (fb_target s)"
  have fits: "p * P + (H - p) * P \<le> length (fb_target s)" using sz(4) c(2) by simp
  then have copy: "copy_words 0 (fb_target s) (p * P) (fb_target s) ((H - p) * P) = Some ?d" by (simp add: copy_words_def)
  have t: "canvas W H P (set_target ?d s)" using fits by (intro canvas_set_target [OF s]) simp
  have row: "paints W H P (for_range 0 (int W) (\<lambda>x s. fb_store (unat (of_int y * pitch4 s + of_int x)) c s))
      (\<lambda>X Y v. if Y = y then if 0 \<le> X \<and> X < int W then c else v else v)" if "int (H - p) \<le> y" "y < int H" for y
  proof (rule paints_cong)
    have y: "0 \<le> y" using that by linarith
    show "paints W H P (for_range 0 (int W) (\<lambda>x s. fb_store (unat (of_int y * pitch4 s + of_int x)) c s))
        (\<lambda>X Y v. if Y = y \<and> 0 \<le> X \<and> X < int W then c else v)"
    proof (rule paints_cells [OF order_refl order_refl y that(2)])
      fix px u assume u: "canvas W H P u" "0 \<le> px" "px < int W"
      then show "\<exists>c'. fb_store (unat (of_int y * pitch4 u + of_int px)) c u = fb_store (nat y * P + nat px) c' u \<and> c' = c"
        using row_index [OF u(1) y that(2) u(2) order_refl u(3)] by simp
    qed
  qed simp
  obtain s' where s': "for_range (int (H - p)) (int H) (\<lambda>y. for_range 0 (int W)
      (\<lambda>x s. fb_store (unat (of_int y * pitch4 s + of_int x)) c s)) (set_target ?d s) = Some s'" "canvas W H P s'"
    "fb_target s' = painted W H P (\<lambda>X Y v. if int (H - p) \<le> Y \<and> Y < int H then if 0 \<le> X \<and> X < int W then c else v else v) ?d"
    using paintsD [OF paints_range [where k = "\<lambda>x y. y", OF row] t] by auto
  have "uint (fb_width s) = int W" "uint (fb_height s) = int H" using c(3,4) by (metis uint_nat)+
  then have "fb_scroll_up (int p) c s = Some s'"
    using s'(1) c(1) copy by (simp add: fb_scroll_up_def Let_def sz(1-3))
  moreover have "fb_target s' = painted W H P (\<lambda>x y v. if int (H - p) \<le> y then c else v) ?d"
    unfolding s'(3) using p by (intro painted_cong) (simp add: of_nat_diff)
  ultimately show thesis using s'(2) that by blast
qed


section \<open>Sequences of calls\<close>

datatype fb_command =
    Fb_putpixel int int u32
  | Fb_fill_rect int int int int u32
  | Fb_draw_rect int int int int u32 int
  | Fb_fill_rounded_rect int int int int int u32
  | Fb_draw_rounded_rect int int int int int u32
  | Fb_draw_line int int int int u32
  | Fb_fill_circle int int int u32
  | Fb_draw_circle int int int u32
  | Fb_clear u32
  | Fb_fill_rect_alpha int int int int u32
  | Fb_putchar int int u8 u32 u32
  | Fb_puts int int "u8 list" u32 u32
  | Fb_puts_transparent int int "u8 list" u32
  | Fb_draw_cursor int int
  | Fb_scroll_up int u32
  | Fb_swap

primrec fb_call :: "fb_command \<Rightarrow> framebuffer \<Rightarrow> framebuffer option" where
  "fb_call (Fb_putpixel x y c) = fb_putpixel x y c"
| "fb_call (Fb_fill_rect x y w h c) = fb_fill_rect x y w h c"
| "fb_call (Fb_draw_rect x y w h c n) = fb_draw_rect x y w h c n"
| "fb_call (Fb_fill_rounded_rect x y w h r c) = fb_fill_rounded_rect x y w h r c"
| "fb_call (Fb_draw_rounded_rect x y w h r c) = fb_draw_rounded_rect x y w h r c"
| "fb_call (Fb_draw_line x0 y0 x1 y1 c) = fb_draw_line x0 y0 x1 y1 c"
| "fb_call (Fb_fill_circle x y r c) = fb_fill_circle x y r c"
| "fb_call (Fb_draw_circle x y r c) = fb_draw_circle x y r c"
| "fb_call (Fb_clear c) = fb_clear c"
| "fb_call (Fb_fill_rect_alpha x y w h c) = fb_fill_rect_alpha x y w h c"
| "fb_call (Fb_putchar x y c fg bg) = fb_putchar x y c fg bg"
| "fb_call (Fb_puts x y str fg bg) = fb_puts x y str fg bg"
| "fb_call (Fb_puts_transparent x y str fg) = fb_puts_transparent x y str fg"
| "fb_call (Fb_draw_cursor x y) = fb_draw_cursor x y"
| "fb_call (Fb_scroll_up p c) = fb_scroll_up p c"
| "fb_call Fb_swap = fb_swap"

primrec fb_calls :: "fb_command list \<Rightarrow> framebuffer \<Rightarrow> framebuffer option" where
  "fb_calls [] s = Some s"
| "fb_calls (c # cs) s = do { s \<leftarrow> fb_call c s; fb_calls cs s }"

text \<open>The one precondition: \<open>fb_scroll_up\<close> by at most the height.\<close>

primrec call_ok :: "nat \<Rightarrow> fb_command \<Rightarrow> bool" where
  "call_ok H (Fb_putpixel x y c) = True"
| "call_ok H (Fb_fill_rect x y w h c) = True"
| "call_ok H (Fb_draw_rect x y w h c n) = True"
| "call_ok H (Fb_fill_rounded_rect x y w h r c) = True"
| "call_ok H (Fb_draw_rounded_rect x y w h r c) = True"
| "call_ok H (Fb_draw_line x0 y0 x1 y1 c) = True"
| "call_ok H (Fb_fill_circle x y r c) = True"
| "call_ok H (Fb_draw_circle x y r c) = True"
| "call_ok H (Fb_clear c) = True"
| "call_ok H (Fb_fill_rect_alpha x y w h c) = True"
| "call_ok H (Fb_putchar x y c fg bg) = True"
| "call_ok H (Fb_puts x y str fg bg) = True"
| "call_ok H (Fb_puts_transparent x y str fg) = True"
| "call_ok H (Fb_draw_cursor x y) = True"
| "call_ok H (Fb_scroll_up p c) \<longleftrightarrow> 0 \<le> p \<and> p \<le> int H"
| "call_ok H Fb_swap = True"

lemma safe_fb_putpixel [safe_intros]: "fb_safe W H P (fb_putpixel x y c)"
  using safe_putpixel by (simp add: fb_putpixel_def [abs_def])

lemma safe_call: "call_ok H c \<Longrightarrow> fb_safe W H P (fb_call c)"
proof (cases c)
  case (Fb_scroll_up p col)
  assume "call_ok H c"
  then obtain n where n: "p = int n" "n \<le> H" using Fb_scroll_up nonneg_int_cases by auto
  show ?thesis
  proof (rule fb_safeI)
    fix s assume "canvas W H P s"
    from scroll_shape [OF this n(2), of col] show "\<exists>s'. fb_call c s = Some s' \<and> canvas W H P s'"
      using Fb_scroll_up n(1) by (metis fb_call.simps(15))
  qed
qed (simp_all add: safe_intros)

lemma safe_calls: "list_all (call_ok H) cs \<Longrightarrow> fb_safe W H P (fb_calls cs)"
proof (induction cs)
  case (Cons c cs)
  then have "fb_safe W H P (\<lambda>s. do { s \<leftarrow> fb_call c s; fb_calls cs s })" by (intro safe_bind safe_call) simp_all
  then show ?case by (simp add: fb_safe_def)
qed (simp add: fb_safe_def)

text \<open>The shapes that have a picture.\<close>

fun call_picture :: "fb_command \<Rightarrow> picture option" where
  "call_picture (Fb_putpixel px py c) = Some (\<lambda>x y v. if x = px \<and> y = py then c else v)"
| "call_picture (Fb_fill_rect rx ry w h c) =
     Some (\<lambda>x y v. if rx \<le> x \<and> x < rx + w \<and> ry \<le> y \<and> y < ry + h then c else v)"
| "call_picture (Fb_fill_rect_alpha rx ry w h c) =
     Some (\<lambda>x y v. if rx \<le> x \<and> x < rx + w \<and> ry \<le> y \<and> y < ry + h then fb_blend v c else v)"
| "call_picture (Fb_fill_circle cx cy r c) =
     Some (\<lambda>x y v. if (x - cx) * (x - cx) + (y - cy) * (y - cy) \<le> r * r \<and> 0 \<le> r then c else v)"
| "call_picture (Fb_putchar px py ch fg bg) = Some (char_picture px py ch fg (Some bg))"
| "call_picture (Fb_puts px py str fg bg) = Some (text_picture (layout px py str) fg (Some bg))"
| "call_picture (Fb_puts_transparent px py str fg) = Some (text_picture (layout px py str) fg None)"
| "call_picture _ = None"

text \<open>Coordinates whose sums stay in the range of an \<open>int\<close>.\<close>

fun call_fits :: "fb_command \<Rightarrow> bool" where
  "call_fits (Fb_putpixel x y c) \<longleftrightarrow> x < 2147483648 \<and> y < 2147483648"
| "call_fits (Fb_fill_circle x y r c) \<longleftrightarrow> x + r < 2147483648 \<and> y + r < 2147483648"
| "call_fits (Fb_putchar x y c fg bg) \<longleftrightarrow> x + 8 < 2147483648 \<and> y + 16 < 2147483648"
| "call_fits (Fb_puts x y str fg bg) \<longleftrightarrow> text_fits (layout x y str)"
| "call_fits (Fb_puts_transparent x y str fg) \<longleftrightarrow> text_fits (layout x y str)"
| "call_fits _ \<longleftrightarrow> True"

lemma square_le_iff: "a * a \<le> r * r \<Longrightarrow> 0 \<le> r \<Longrightarrow> - r \<le> a \<and> a \<le> r" for a r :: int
  using abs_le_square_iff [of a r] by (simp add: power2_eq_square abs_le_iff)

lemma disc_box:
  "- r \<le> a \<and> a < r + 1 \<and> - r \<le> b \<and> b < r + 1 \<and> a * a + b * b \<le> r * r \<longleftrightarrow> a * a + b * b \<le> r * r \<and> 0 \<le> r" for a b r :: int
proof
  assume "- r \<le> a \<and> a < r + 1 \<and> - r \<le> b \<and> b < r + 1 \<and> a * a + b * b \<le> r * r"
  then show "a * a + b * b \<le> r * r \<and> 0 \<le> r" by linarith
next
  assume a: "a * a + b * b \<le> r * r \<and> 0 \<le> r"
  have "0 \<le> a * a" "0 \<le> b * b" by simp_all
  then have "a * a \<le> r * r" "b * b \<le> r * r" using a by linarith+
  then have "- r \<le> a \<and> a \<le> r" "- r \<le> b \<and> b \<le> r" using a square_le_iff by blast+
  then show "- r \<le> a \<and> a < r + 1 \<and> - r \<le> b \<and> b < r + 1 \<and> a * a + b * b \<le> r * r" using a by linarith
qed

lemma paints_fill_circle:
  assumes "cx + r < 2147483648" "cy + r < 2147483648"
  shows "paints W H P (fb_fill_circle cx cy r c)
    (\<lambda>x y v. if (x - cx) * (x - cx) + (y - cy) * (y - cy) \<le> r * r \<and> 0 \<le> r then c else v)"
  unfolding fb_fill_circle_def
proof (rule paints_cong [OF paints_disc_part], goal_cases)
  case (3 x y v)
  show ?case unfolding disc_box [symmetric] by (simp only: conj_assoc split: if_split) blast
qed (use assms in simp_all)

lemma paints_call: "call_picture c = Some F \<Longrightarrow> call_fits c \<Longrightarrow> paints W H P (fb_call c) F"
  using paints_fill_rect paints_fill_rect_alpha paints_puts paints_puts_transparent paints_fill_circle paints_putchar
  by (cases c) (auto simp: fb_putpixel_def [abs_def] paints_putpixel)

definition pictures :: "fb_command list \<Rightarrow> picture" where
  "pictures cs x y = fold (\<lambda>c. the (call_picture c) x y) cs"

lemma paints_calls:
  "list_all (\<lambda>c. call_picture c \<noteq> None \<and> call_fits c) cs \<Longrightarrow> paints W H P (fb_calls cs) (pictures cs)"
proof (induction cs)
  case Nil
  then show ?case by (simp add: paints_Some pictures_def [abs_def] id_def)
next
  case (Cons c cs)
  then obtain F where F: "call_picture c = Some F" "call_fits c" by auto
  have "paints W H P (\<lambda>s. do { s \<leftarrow> fb_call c s; fb_calls cs s }) (\<lambda>x y v. pictures cs x y (F x y v))"
    using Cons F by (intro paints_bind paints_call) simp_all
  then show ?case using F by (simp add: o_def pictures_def [abs_def])
qed

end
