(* ===== verification/Framebuffer_Init.thy ===== *)
theory Framebuffer_Init
  imports Framebuffer_Draw Boot
begin

text \<open>
  Setting up the framebuffer from the boot information, \<open>fb_init_from_multiboot\<close>, over the page tables
  and the kernel heap, and the properties of the driver.
\<close>

section \<open>The boot information\<close>

abbreviation MB2_TAG_FRAMEBUFFER :: u32 where "MB2_TAG_FRAMEBUFFER \<equiv> 8"

text \<open>The \<open>n\<close> words of memory from \<open>a\<close> on: what a buffer holds before anything is drawn.\<close>

definition words_at :: "mem \<Rightarrow> u32 \<Rightarrow> nat \<Rightarrow> u32 list" where
  "words_at m a n = map (\<lambda>i. read_word m (a + 4 * of_nat i)) [0..<n]"

text \<open>The loop that maps the framebuffer; it does not end when \<open>addr\<close> wraps around before \<open>stop\<close>.\<close>

partial_function (option) map_framebuffer :: "u32 \<Rightarrow> u32 \<Rightarrow> vmm \<Rightarrow> vmm option" where
  "map_framebuffer addr stop v =
     (if addr < stop
      then map_framebuffer (addr + 4096) stop (vmm_map_page addr addr (PAGE_PRESENT OR PAGE_WRITABLE) v)
      else Some v)"

definition no_framebuffer :: framebuffer where
  "no_framebuffer = \<lparr>fb_address = 0, fb_width = 0, fb_height = 0, fb_pitch = 0, fb_bpp = 0, fb_available = False,
     fb_screen = [], backbuffer = None\<rparr>"

definition tag_framebuffer :: "mem \<Rightarrow> u32 \<Rightarrow> framebuffer" where
  "tag_framebuffer m tag =
     (let address = read_word m (tag + 8); pitch = read_word m (tag + 16);
          width = read_word m (tag + 20); height = read_word m (tag + 24)
      in \<lparr>fb_address = address, fb_width = width, fb_height = height, fb_pitch = pitch, fb_bpp = m (tag + 28),
           fb_available = True, fb_screen = words_at m address (unat (pitch * height) div 4), backbuffer = None\<rparr>)"

definition setup_framebuffer :: "mem \<Rightarrow> framebuffer \<Rightarrow> vmm \<Rightarrow> heap \<Rightarrow> (framebuffer \<times> vmm \<times> heap) option" where
  "setup_framebuffer m s v h =
     do { let fb_size = fb_pitch s * fb_height s;
          let fb_start = fb_address s;
          v \<leftarrow> map_framebuffer fb_start (fb_start + fb_size) v;
          let size = fb_width s * fb_height s * 4;
          (p, h) \<leftarrow> kmalloc size h;
          Some (if p = 0 then s else s\<lparr>backbuffer := Some (words_at m p (unat size div 4))\<rparr>, v, h) }"

partial_function (option) fb_tags :: "mem \<Rightarrow> u32 \<Rightarrow> vmm \<Rightarrow> heap \<Rightarrow> (framebuffer \<times> vmm \<times> heap) option" where
  "fb_tags m tag v h =
     (if read_word m tag = MB2_TAG_END then Some (no_framebuffer, v, h)
      else if read_word m tag = MB2_TAG_FRAMEBUFFER then setup_framebuffer m (tag_framebuffer m tag) v h
      else fb_tags m (tag + ((read_word m (tag + 4) + 7) AND NOT 7)) v h)"

definition fb_init_from_multiboot :: "mem \<Rightarrow> u32 \<Rightarrow> vmm \<Rightarrow> heap \<Rightarrow> (framebuffer \<times> vmm \<times> heap) option" where
  "fb_init_from_multiboot m mb_info_addr v h =
     (if mb_info_addr = 0 then Some (no_framebuffer, v, h) else fb_tags m (mb_info_addr + 8) v h)"

section \<open>The buffers set up\<close>

lemma length_words_at [simp]: "length (words_at m a n) = n"
  by (simp add: words_at_def)

text \<open>What the set-up promises: a second buffer of width times height pixels, a screen of pitch times height bytes.\<close>

definition fb_buffers :: "framebuffer \<Rightarrow> bool" where
  "fb_buffers s \<longleftrightarrow> (\<forall>b. backbuffer s = Some b \<longrightarrow> length b = unat (fb_width s * fb_height s * 4) div 4) \<and>
     length (fb_screen s) = unat (fb_pitch s * fb_height s) div 4"

lemma setup_buffers: "fb_buffers s \<Longrightarrow> setup_framebuffer m s v h = Some (s', v', h') \<Longrightarrow> fb_buffers s'"
  by (auto simp: setup_framebuffer_def fb_buffers_def Let_def split: if_splits bind_splits)

lemma fb_tags_buffers:
  assumes "fb_tags m tag v h = Some r"
  shows "fb_buffers (fst r)"
proof (rule fb_tags.raw_induct [where P = "\<lambda>m tag v h r. fb_buffers (fst r)", OF _ assms], goal_cases)
  case (1 tags m tag v h r)
  have "fb_buffers (tag_framebuffer m tag)" by (simp add: tag_framebuffer_def fb_buffers_def Let_def)
  then have set_up: "setup_framebuffer m (tag_framebuffer m tag) v h = Some r \<Longrightarrow> fb_buffers (fst r)"
    using setup_buffers by (cases r) simp
  have none: "fb_buffers no_framebuffer" by (simp add: fb_buffers_def no_framebuffer_def)
  show ?case using 1(2) 1(1) set_up none by (auto split: if_splits)
qed

lemma init_buffers: "fb_init_from_multiboot m a v h = Some (s, v', h') \<Longrightarrow> fb_buffers s"
  using fb_tags_buffers [of m "a + 8" v h "(s, v', h')"]
  by (auto simp: fb_init_from_multiboot_def fb_buffers_def no_framebuffer_def split: if_splits)

text \<open>Clearing and swapping go by the width: with longer rows the bottom right of the screen stays as it was.\<close>

lemma last_pixel: "W < P \<Longrightarrow> 2 \<le> H \<Longrightarrow> 0 < W \<Longrightarrow> W * H \<le> (H - 1) * P + (W - 1)" for W H P :: nat
proof -
  assume a: "W < P" "2 \<le> H" "0 < W"
  then have "(H - 1) * Suc W \<le> (H - 1) * P" by (intro mult_le_mono2) simp
  moreover have "W * H + (H - 2) = (H - 1) * Suc W + (W - 1)"
    using a by (cases H; cases "H - 1") (auto simp: algebra_simps)
  ultimately show ?thesis by linarith
qed

lemma clear_swap_stale:
  assumes s: "canvas W H P s" and b: "backbuffer s = Some b" "fb_address s \<noteq> 0" and pad: "W < P" "2 \<le> H" "0 < W"
  shows "\<exists>s'. fb_calls [Fb_clear c, Fb_swap] s = Some s' \<and>
    fb_screen s' ! ((H - 1) * P + (W - 1)) = fb_screen s ! ((H - 1) * P + (W - 1))"
proof -
  let ?d = "replicate (W * H) c @ drop (W * H) (fb_target s)"
  have len: "length ?d = length (fb_target s)" using unat_area(3) [OF s] by simp
  have t: "canvas W H P (set_target ?d s)" "backbuffer (set_target ?d s) = Some ?d" "fb_address (set_target ?d s) \<noteq> 0"
    "fb_screen (set_target ?d s) = fb_screen s"
    using canvas_set_target [OF s len] b by (simp_all add: set_target_def)
  have "W * H \<le> (H - 1) * P + (W - 1)" using pad by (rule last_pixel)
  moreover have "(H - 1) * P + (W - 1) < P * H" using pad by (intro row_less [of _ W]) auto
  then have "(H - 1) * P + (W - 1) < length (fb_screen s)" using s by (simp add: canvas_def)
  ultimately show ?thesis
    using swap_eq [OF t(1-3)] unat_area(4) [OF s] by (simp add: clear_eq [OF s] t(4) nth_append)
qed

section \<open>Properties\<close>

definition small_screen :: framebuffer where
  "small_screen = \<lparr>fb_address = 0xE0000000, fb_width = 3, fb_height = 2, fb_pitch = 16, fb_bpp = 32, fb_available = True,
     fb_screen = replicate 8 0, backbuffer = Some [1, 2, 3, 0, 4, 5, 6, 0]\<rparr>"

lemma small_canvas: "canvas 3 2 4 small_screen"
  by (simp add: canvas_def small_screen_def pitch4_def fb_target_def)





text \<open>
  \<open>fb_scroll_up\<close> by \<open>p\<close> rows, at most all, moves every visible pixel up by \<open>p\<close> rows and fills the \<open>p\<close>
  rows at the bottom.
\<close>

theorem fb_scroll_moves:
  assumes "canvas W H P s" and "p \<le> H" and "x < W" and "y < H"
  shows "\<exists>s'. fb_scroll_up (int p) c s = Some s' \<and> canvas W H P s' \<and>
    fb_target s' ! (y * P + x) = (if y < H - p then fb_target s ! ((y + p) * P + x) else c)"
proof -
  obtain s' where s': "fb_scroll_up (int p) c s = Some s'" "canvas W H P s'"
    "fb_target s' = painted W H P (\<lambda>x y v. if int (H - p) \<le> y then c else v)
       (blit 0 (bytes_at (p * P) ((H - p) * P) (fb_target s)) (fb_target s))"
    using scroll_shape [OF assms(1,2)] by blast
  have c: "W \<le> P" "P * H \<le> length (fb_target s)" using assms(1) by (simp_all add: canvas_def)
  have i: "y * P + x < P * H" using assms c(1) by (intro row_less)
  have m: "(y * P + x) mod P = x" "(y * P + x) div P = y" using index_pixel [of x W P "y * P + x" y] assms(3) c(1) by blast+
  have fits: "p * P + (H - p) * P \<le> length (fb_target s)" using scroll_sizes(4) [OF assms(1,2)] c(2) by simp
  have moved: "blit 0 (bytes_at (p * P) ((H - p) * P) (fb_target s)) (fb_target s) ! (y * P + x) =
      fb_target s ! ((y + p) * P + x)" if "y < H - p"
  proof -
    have "y * P + x < P * (H - p)" using that assms(3) c(1) by (intro row_less)
    then have "y * P + x < (H - p) * P" by (simp add: mult.commute)
    then show ?thesis using fits i c(2) by (simp add: nth_blit add_mult_distrib add_ac)
  qed
  have l: "y * P + x < length (blit 0 (bytes_at (p * P) ((H - p) * P) (fb_target s)) (fb_target s))" using i c(2) fits by simp
  have "fb_target s' ! (y * P + x) = (if H - p \<le> y then c else fb_target s ! ((y + p) * P + x))"
    unfolding s'(3) nth_painted [OF l] m of_nat_le_iff using assms(3,4) moved by simp
  then show ?thesis using s'(1,2) by (auto simp: not_less)
qed

theorem fb_scroll_moves_witness:
  "\<exists>s'. fb_scroll_up 1 9 small_screen = Some s' \<and> fb_target s' ! 0 = 4"
proof -
  have "fb_target small_screen ! 4 = 4" by (simp add: small_screen_def fb_target_def)
  then show ?thesis using fb_scroll_moves [OF small_canvas, of 1 0 0 9] by auto
qed

text \<open>
  The buffers that \<open>fb_init_from_multiboot\<close> sets up hold the rows of the screen only if a row has no
  padding. Otherwise drawing the bottom right pixel stores behind the second buffer, in the kernel heap.
\<close>

theorem fb_init_canvas:
  assumes "fb_init_from_multiboot m a v h = Some (s, v', h')" and "backbuffer s \<noteq> None"
    and "0 < fb_width s" and "2 \<le> unat (fb_height s)" and "fb_pitch s mod 4 = 0" and "fb_width s \<le> pitch4 s"
    and "unat (pitch4 s) * unat (fb_height s) < 1073741824"
  shows "if fb_width s = pitch4 s then canvas (unat (fb_width s)) (unat (fb_height s)) (unat (fb_width s)) s
    else fb_putpixel (uint (fb_width s) - 1) (uint (fb_height s) - 1) color s = None"
proof -
  let ?W = "unat (fb_width s)" and ?H = "unat (fb_height s)" and ?P = "unat (pitch4 s)"
  have b: "fb_buffers s" using init_buffers [OF assms(1)] .
  have p: "unat (fb_pitch s) = ?P * 4"
  proof -
    have "unat (fb_pitch s) mod 4 = 0" using assms(5) unat_mod [of "fb_pitch s" 4] by simp
    moreover have "unat (fb_pitch s) div 4 = ?P" using unat_div [of "fb_pitch s" 4] by (simp add: pitch4_def)
    ultimately show ?thesis by (metis add.right_neutral div_mult_mod_eq)
  qed
  have WP: "?W \<le> ?P" "0 < ?W" using assms(3,6) by (simp_all add: unat_le_u32 unat_less_u32)
  then have area: "?W * ?H \<le> ?P * ?H" by (intro mult_le_mono1)
  have size: "unat (fb_width s * fb_height s * 4) = ?W * ?H * 4" "unat (fb_pitch s * fb_height s) = ?P * ?H * 4"
  proof -
    have lt: "?W * ?H < 1073741824" using area assms(7) by linarith
    then have w: "unat (fb_width s * fb_height s) = ?W * ?H" by (intro unat_mult_u32) linarith
    have "?W * ?H * unat (4 :: u32) < 4294967296" using lt by (simp add: mult.commute)
    then show "unat (fb_width s * fb_height s * 4) = ?W * ?H * 4"
      using unat_mult_u32 [of "fb_width s * fb_height s" 4] unfolding w by simp
    have "unat (fb_pitch s) * ?H < 4294967296" unfolding p using assms(7) by (simp add: mult.commute)
    then show "unat (fb_pitch s * fb_height s) = ?P * ?H * 4"
      using unat_mult_u32 [of "fb_pitch s" "fb_height s"] by (simp add: p)
  qed
  obtain d where d: "backbuffer s = Some d" "length d = ?W * ?H" "length (fb_screen s) = ?P * ?H"
    using b assms(2) size by (auto simp: fb_buffers_def)
  have small: "?W < 2147483648" "?H < 2147483648"
  proof -
    have "1 * ?H \<le> ?P * ?H" "?P * 1 \<le> ?P * ?H" using WP assms(4) by (intro mult_le_mono; linarith)+
    then show "?W < 2147483648" "?H < 2147483648" using WP assms(7) by linarith+
  qed
  show ?thesis
  proof (cases "fb_width s = pitch4 s")
    case True
    then show ?thesis using d assms(5,7) small by (simp add: canvas_def fb_target_def)
  next
    case False
    then have pad: "?W < ?P" using WP by (metis le_neq_implies_less word_unat_eq_iff)
    have z: "uint (fb_width s) - 1 = int (?W - 1)" "uint (fb_height s) - 1 = int (?H - 1)"
      unfolding uint_nat using WP(2) assms(4) by linarith+
    have e: "of_int (uint (fb_width s) - 1) = fb_width s - 1" "of_int (uint (fb_height s) - 1) = fb_height s - 1" by simp_all
    have u: "unat (fb_width s - 1) = ?W - 1" "unat (fb_height s - 1) = ?H - 1"
      using unat_sub_u32 [of 1 "fb_width s"] unat_sub_u32 [of 1 "fb_height s"] WP(2) assms(4) by simp_all
    have i: "unat ((fb_height s - 1) * pitch4 s + (fb_width s - 1)) = (?H - 1) * ?P + (?W - 1)"
    proof -
      have lt: "(?H - 1) * ?P + (?W - 1) < ?P * ?H" using WP assms(4) by (intro row_less) auto
      then have "(?H - 1) * ?P < 4294967296" using assms(7) by linarith
      then have "unat ((fb_height s - 1) * pitch4 s) = (?H - 1) * ?P" using unat_mult_u32 [of "fb_height s - 1" "pitch4 s"] unfolding u by blast
      moreover have "(?H - 1) * ?P + (?W - 1) < 4294967296" using lt assms(7) by linarith
      ultimately show ?thesis
        using unat_add_u32 [of "(fb_height s - 1) * pitch4 s" "fb_width s - 1"] unfolding u by metis
    qed
    have on: "\<not> (uint (fb_width s) - 1 < 0 \<or> uint (fb_height s) - 1 < 0 \<or> fb_width s \<le> fb_width s - 1 \<or>
        fb_height s \<le> fb_height s - 1)"
      using WP(2) assms(4) unfolding unat_le_u32 u z by linarith
    have "?W * ?H \<le> (?H - 1) * ?P + (?W - 1)" using pad assms(4) WP(2) by (intro last_pixel)
    then have "fb_putpixel (uint (fb_width s) - 1) (uint (fb_height s) - 1) color s = None"
      using on i d(1,2) unfolding fb_putpixel_def putpixel_def e fb_store_def pitch4_def [symmetric] fb_target_def by simp
    then show ?thesis using False by simp
  qed
qed

text \<open>Boot information with one tag: a screen of 2 by 2 pixels at \<open>0xE0000000\<close>, in rows of 12 bytes.\<close>

definition boot_tags :: mem where
  "boot_tags a = (let i = unat (a - 0x1008) in if i < 32
     then [8, 0, 0, 0, 32, 0, 0, 0, 0, 0, 0, 0xE0, 0, 0, 0, 0, 12, 0, 0, 0, 2, 0, 0, 0, 2, 0, 0, 0, 32, 1, 0, 0] ! i else 0)"

lemma boot_tags_init:
  "\<exists>s v h. fb_init_from_multiboot boot_tags 0x1000 (vmm_init vmm_example) (heap_init blank_mem) = Some (s, v, h) \<and>
     backbuffer s \<noteq> None \<and> fb_width s = 2 \<and> fb_height s = 2 \<and> fb_pitch s = 12"
proof -
  obtain h' where k: "kmalloc 16 (heap_init blank_mem) = Some (0x20000C, h')"
    using kmalloc_init [of 16 blank_mem] by (auto simp: align4_def)
  have map: "map_framebuffer 0xE0000000 0xE0000018 v = Some (vmm_map_page 0xE0000000 0xE0000000 3 v)" for v
    by (subst map_framebuffer.simps, subst map_framebuffer.simps) simp
  have w: "read_word boot_tags 0x1008 = 8" "tag_framebuffer boot_tags 0x1008 =
     \<lparr>fb_address = 0xE0000000, fb_width = 2, fb_height = 2, fb_pitch = 12, fb_bpp = 32,
      fb_available = True, fb_screen = words_at boot_tags 0xE0000000 6, backbuffer = None\<rparr>"
    by (simp_all add: read_word_def boot_tags_def tag_framebuffer_def Let_def)
  show ?thesis
    by (simp add: fb_init_from_multiboot_def fb_tags.simps [of boot_tags "0x1008"] w setup_framebuffer_def Let_def map k)
qed

theorem fb_init_canvas_witness:
  "\<exists>s v h. fb_init_from_multiboot boot_tags 0x1000 (vmm_init vmm_example) (heap_init blank_mem) = Some (s, v, h) \<and>
     fb_putpixel 1 1 7 s = None"
proof -
  obtain s v h where s: "fb_init_from_multiboot boot_tags 0x1000 (vmm_init vmm_example) (heap_init blank_mem) = Some (s, v, h)"
    "backbuffer s \<noteq> None" "fb_width s = 2" "fb_height s = 2" "fb_pitch s = 12"
    using boot_tags_init by blast
  then show ?thesis using fb_init_canvas [OF s(1,2), of 7] by (simp add: pitch4_def)
qed

end
