(* ===== verification/Mouse.thy ===== *)
theory Mouse
  imports Prelude
begin

text \<open>
  The PS/2 mouse driver, \<open>drivers/mouse.c\<close>: three bytes of the device make a packet, a packet moves the
  pointer, which stays on the screen. The byte read from the port is an argument; the commands for the
  controller are the list of port writes; the waits for the controller are left out. The handler
  returns whether it calls the callback. \<open>None\<close> is an access outside the packet buffer.
\<close>

section \<open>State and operations\<close>

record mouse =
  mouse_x :: int
  mouse_y :: int
  left_button :: bool
  right_button :: bool
  middle_button :: bool
  mouse_dx :: int
  mouse_dy :: int
  mouse_cb :: bool
  mouse_screen_w :: int
  mouse_screen_h :: int
  packet :: "u8 list"
  packet_idx :: nat

definition mouse_static :: mouse where
  "mouse_static = \<lparr>mouse_x = 0, mouse_y = 0, left_button = False, right_button = False, middle_button = False,
     mouse_dx = 0, mouse_dy = 0, mouse_cb = False, mouse_screen_w = 1024, mouse_screen_h = 768,
     packet = [0, 0, 0], packet_idx = 0\<rparr>"

text \<open>\<open>mouse_write\<close> as port and byte.\<close>

definition mouse_write :: "u8 \<Rightarrow> (u16 \<times> u8) list" where
  "mouse_write data = [(0x64, 0xD4), (0x60, data)]"

text \<open>\<open>status\<close> is the configuration byte the controller answers.\<close>

definition mouse_init :: "u8 \<Rightarrow> mouse \<Rightarrow> (u16 \<times> u8) list \<times> mouse" where
  "mouse_init status s =
     (let s = s\<lparr>mouse_x := 0, mouse_y := 0, left_button := False, right_button := False, middle_button := False,
                mouse_dx := 0, mouse_dy := 0\<rparr>;
          s = s\<lparr>mouse_x := mouse_screen_w s div 2, mouse_y := mouse_screen_h s div 2\<rparr>;
          status = (status OR 0x02) AND NOT 0x20
      in ([(0x64, 0xA8), (0x64, 0x20), (0x64, 0x60), (0x60, status)] @ mouse_write 0xF6 @ mouse_write 0xF4, s))"

definition mouse_set_bounds :: "int \<Rightarrow> int \<Rightarrow> mouse \<Rightarrow> mouse" where
  "mouse_set_bounds width height s = s\<lparr>mouse_screen_w := width, mouse_screen_h := height\<rparr>"

definition mouse_set_callback :: "bool \<Rightarrow> mouse \<Rightarrow> mouse" where
  "mouse_set_callback cb s = s\<lparr>mouse_cb := cb\<rparr>"

text \<open>\<open>int d = packet[i]; if (packet[0] & sign) d |= 0xFFFFFF00;\<close>\<close>

definition sign_extend :: "u8 \<Rightarrow> bool \<Rightarrow> int" where
  "sign_extend b neg = sint (if neg then ucast b OR 0xFFFFFF00 else ucast b :: u32)"

definition clamp_pointer :: "mouse \<Rightarrow> mouse" where
  "clamp_pointer s =
     (let s = (if mouse_x s < 0 then s\<lparr>mouse_x := 0\<rparr> else s);
          s = (if mouse_y s < 0 then s\<lparr>mouse_y := 0\<rparr> else s);
          s = (if mouse_screen_w s \<le> mouse_x s then s\<lparr>mouse_x := mouse_screen_w s - 1\<rparr> else s)
      in if mouse_screen_h s \<le> mouse_y s then s\<lparr>mouse_y := mouse_screen_h s - 1\<rparr> else s)"

text \<open>A complete packet. The filter of small movements changes a variable that is not read again.\<close>

definition mouse_packet :: "mouse \<Rightarrow> bool \<times> mouse" where
  "mouse_packet s =
     (let p0 = packet s ! 0
      in if p0 AND 0x08 = 0 then (False, s)
         else let s = s\<lparr>left_button := (p0 AND 0x01 \<noteq> 0), right_button := (p0 AND 0x02 \<noteq> 0), middle_button := (p0 AND 0x04 \<noteq> 0)\<rparr>;
                  dx = sign_extend (packet s ! 1) (p0 AND 0x10 \<noteq> 0);
                  dy = sign_extend (packet s ! 2) (p0 AND 0x20 \<noteq> 0)
              in if p0 AND 0x40 \<noteq> 0 then (False, s)
                 else if p0 AND 0x80 \<noteq> 0 then (False, s)
                 else let s = s\<lparr>mouse_dx := dx, mouse_dy := dy, mouse_x := mouse_x s + dx, mouse_y := mouse_y s - dy\<rparr>;
                          s = clamp_pointer s
                      in (mouse_cb s, s))"

definition mouse_irq_handler :: "u8 \<Rightarrow> mouse \<Rightarrow> (bool \<times> mouse) option" where
  "mouse_irq_handler data s =
     (if packet_idx s < length (packet s)
      then let s = s\<lparr>packet := (packet s)[packet_idx s := data], packet_idx := packet_idx s + 1\<rparr>
           in if packet_idx s < 3 then Some (False, s)
              else Some (mouse_packet (s\<lparr>packet_idx := 0\<rparr>))
      else None)"

fun mouse_bytes :: "u8 list \<Rightarrow> mouse \<Rightarrow> mouse option" where
  "mouse_bytes [] s = Some s"
| "mouse_bytes (b # bs) s =
     (case mouse_irq_handler b s of None \<Rightarrow> None | Some (_, s) \<Rightarrow> mouse_bytes bs s)"

lemma packet_shape: "packet (snd (mouse_packet s)) = packet s" "packet_idx (snd (mouse_packet s)) = packet_idx s"
proof -
  have "packet (clamp_pointer m) = packet m" "packet_idx (clamp_pointer m) = packet_idx m" for m
    by (simp_all add: clamp_pointer_def Let_def)
  then show "packet (snd (mouse_packet s)) = packet s" "packet_idx (snd (mouse_packet s)) = packet_idx s"
    by (simp_all add: mouse_packet_def Let_def)
qed

lemma mouse_irq_shape:
  assumes "length (packet s) = 3" "packet_idx s < 3"
  shows "\<exists>n s'. mouse_irq_handler b s = Some (n, s') \<and> length (packet s') = 3 \<and> packet_idx s' < 3"
proof (cases "packet_idx s + 1 < 3")
  case True
  then show ?thesis using assms by (intro exI [of _ False]) (simp add: mouse_irq_handler_def Let_def)
next
  case False
  let ?s = "s\<lparr>packet := (packet s)[packet_idx s := b], packet_idx := 0\<rparr>"
  have "mouse_irq_handler b s = Some (mouse_packet ?s)" using assms False by (simp add: mouse_irq_handler_def Let_def)
  moreover obtain n m where m: "mouse_packet ?s = (n, m)" by (cases "mouse_packet ?s")
  moreover have "length (packet m) = 3" "packet_idx m = 0" using packet_shape [of ?s] assms by (simp_all add: m)
  ultimately show ?thesis by simp
qed

section \<open>The stream of packets\<close>

text \<open>The pointer as a point of the screen, moved by one packet of the PS/2 protocol after the other.\<close>

fun packets :: "u8 list \<Rightarrow> (u8 \<times> u8 \<times> u8) list" where
  "packets (a # b # c # bs) = (a, b, c) # packets bs"
| "packets _ = []"

definition clamp :: "int \<Rightarrow> int \<Rightarrow> int" where
  "clamp n z = min (n - 1) (max 0 z)"

text \<open>Bits 4 to 7 of the header: the signs of the movements, and the two overflow flags.\<close>

definition motion :: "u8 \<Rightarrow> bool \<Rightarrow> int" where
  "motion b neg = int (unat b) - (if neg then 256 else 0)"

fun move :: "int \<Rightarrow> int \<Rightarrow> int \<times> int \<Rightarrow> u8 \<times> u8 \<times> u8 \<Rightarrow> int \<times> int" where
  "move W H (x, y) (h, b, c) =
     (if bit h 3 \<and> \<not> bit h 6 \<and> \<not> bit h 7
      then (clamp W (x + motion b (bit h 4)), clamp H (y - motion c (bit h 5))) else (x, y))"

lemma sint_high: "2147483648 \<le> unat (w :: u32) \<Longrightarrow> sint w = int (unat w) - 4294967296"
proof -
  assume "2147483648 \<le> unat w"
  then have "2147483648 \<le> int (unat w)" "int (unat w) < 4294967296"
    using of_nat_less_iff [of "unat w" 4294967296, where ?'a = int] unat_u32_less [of w] by linarith+
  then have "int (unat w) div 2147483648 = 1" by (intro int_div_pos_eq [of _ _ 1 "int (unat w) - 2147483648"]) simp_all
  then have "bit (int (unat w)) 31" by (simp add: bit_iff_odd)
  then show ?thesis using sint_cases [of w] unfolding uint_nat by simp
qed

lemma sign_extend_motion: "sign_extend b neg = motion b neg"
proof -
  have u: "unat (ucast b :: u32) = unat b" 
  proof -
    have "unat b < 4294967296" using unat_u8_less [of b] by linarith
    then show ?thesis by (simp add: unsigned_ucast_eq take_bit_eq_mod)
  qed
  show ?thesis
  proof (cases neg)
    case True
    have "(0xFFFFFF00 :: u32) = NOT (mask 8)" by (simp add: mask_eq_exp_minus_1)
    moreover have "take_bit 8 (ucast b :: u32) = ucast b"
      by (rule word_unat_eq_iff [THEN iffD2], subst unsigned_take_bit_eq) (use unat_u8_less [of b] in \<open>simp_all add: take_bit_eq_mod u\<close>)
    ultimately have "(ucast b :: u32) AND 0xFFFFFF00 = 0" using and_not_mask_eq [of "ucast b" 8] by simp
    then have "(ucast b :: u32) OR 0xFFFFFF00 = ucast b + 0xFFFFFF00"
      using word_plus_and_or [of "ucast b :: u32" "0xFFFFFF00"] by simp
    moreover have "unat (ucast b + 0xFFFFFF00 :: u32) = unat b + 0xFFFFFF00"
      using unat_u8_less [of b] unat_add_u32 [of "ucast b" "0xFFFFFF00"] by (simp add: u)
    ultimately show ?thesis
      using True sint_high [of "ucast b OR 0xFFFFFF00"] by (simp add: sign_extend_def motion_def)
  next
    case False
    have "sint (ucast b :: u32) = int (unat (ucast b :: u32))"
      using sint_small [of "ucast b"] unat_u8_less [of b] unfolding u uint_nat by linarith
    then show ?thesis using False unfolding u by (simp add: sign_extend_def motion_def)
  qed
qed

lemma flag_bit: "(w :: u8) AND 0x08 = 0 \<longleftrightarrow> \<not> bit w 3" "w AND 0x10 = 0 \<longleftrightarrow> \<not> bit w 4" "w AND 0x20 = 0 \<longleftrightarrow> \<not> bit w 5"
  "w AND 0x40 = 0 \<longleftrightarrow> \<not> bit w 6" "w AND 0x80 = 0 \<longleftrightarrow> \<not> bit w 7"
  using and_exp_eq_0_iff_not_bit [of w 3] and_exp_eq_0_iff_not_bit [of w 4] and_exp_eq_0_iff_not_bit [of w 5]
    and_exp_eq_0_iff_not_bit [of w 6] and_exp_eq_0_iff_not_bit [of w 7] by simp_all


text \<open>A driver between two packets, with a screen of positive size.\<close>

definition mouse_ok :: "int \<Rightarrow> int \<Rightarrow> mouse \<Rightarrow> bool" where
  "mouse_ok W H s \<longleftrightarrow> mouse_screen_w s = W \<and> mouse_screen_h s = H \<and> 0 < W \<and> 0 < H \<and> length (packet s) = 3"

definition pointer :: "mouse \<Rightarrow> int \<times> int" where
  "pointer s = (mouse_x s, mouse_y s)"

lemma clamp_pointer_props:
  assumes "mouse_ok W H s"
  shows "pointer (clamp_pointer s) = (clamp W (mouse_x s), clamp H (mouse_y s))" "mouse_ok W H (clamp_pointer s)"
    "packet_idx (clamp_pointer s) = packet_idx s"
  using assms by (auto simp: clamp_pointer_def pointer_def clamp_def mouse_ok_def Let_def)

lemma mouse_packet_props:
  assumes "mouse_ok W H s" "packet s = [h, b, c]"
  shows "pointer (snd (mouse_packet s)) = move W H (pointer s) (h, b, c)" "mouse_ok W H (snd (mouse_packet s))"
    "packet_idx (snd (mouse_packet s)) = packet_idx s"
proof -
  have ok: "mouse_ok W H (s\<lparr>left_button := l, right_button := r, middle_button := m, mouse_dx := dx, mouse_dy := dy,
      mouse_x := x, mouse_y := y\<rparr>)" for l r m dx dy x y
    using assms(1) by (simp add: mouse_ok_def)
  show "pointer (snd (mouse_packet s)) = move W H (pointer s) (h, b, c)" "mouse_ok W H (snd (mouse_packet s))"
    "packet_idx (snd (mouse_packet s)) = packet_idx s"
    using clamp_pointer_props [OF ok] assms
    by (simp_all add: mouse_packet_def Let_def flag_bit sign_extend_motion)
      (simp_all add: pointer_def mouse_ok_def)
qed

lemma mouse_three_bytes:
  assumes "length (packet s) = 3" "packet_idx s = 0"
  shows "mouse_bytes (h # b # c # bs) s = mouse_bytes bs (snd (mouse_packet (s\<lparr>packet := [h, b, c], packet_idx := 0\<rparr>)))"
proof -
  obtain p q r where p: "packet s = [p, q, r]" using assms(1) by (auto simp: numeral_eq_Suc length_Suc_conv)
  show ?thesis using assms(2)
    by (simp add: mouse_irq_handler_def p Let_def split: prod.splits)
qed

lemma mouse_bytes_packets:
  assumes "mouse_ok W H s" "packet_idx s = 0"
  shows "\<exists>s'. mouse_bytes bs s = Some s' \<and> mouse_ok W H s' \<and> packet_idx s' = length bs mod 3 \<and>
    pointer s' = foldl (move W H) (pointer s) (packets bs)"
  using assms
proof (induction bs arbitrary: s rule: packets.induct)
  case (1 h b c bs)
  let ?t = "s\<lparr>packet := [h, b, c], packet_idx := 0\<rparr>"
  have t: "mouse_ok W H ?t" using 1(2) by (simp add: mouse_ok_def)
  note m = mouse_packet_props [OF t, of h b c, simplified]
  have "length (packet s) = 3" using 1(2) by (simp add: mouse_ok_def)
  from 1(1) [OF m(2)] m(1,3) mouse_three_bytes [OF this 1(3), of h b c bs]
  show ?case by (auto simp: pointer_def mod_Suc)
qed (simp_all add: mouse_irq_handler_def mouse_ok_def pointer_def Let_def)

lemma move_on_screen:
  "0 < W \<Longrightarrow> 0 < H \<Longrightarrow> fst p \<in> {0..<W} \<Longrightarrow> snd p \<in> {0..<H} \<Longrightarrow>
   fst (foldl (move W H) p ps) \<in> {0..<W} \<and> snd (foldl (move W H) p ps) \<in> {0..<H}"
proof (induction ps arbitrary: p)
  case (Cons q ps)
  obtain x y h b c where "p = (x, y)" "q = (h, b, c)" by (cases p, cases q) auto
  then show ?case using Cons by (auto simp: clamp_def)
qed simp

section \<open>Properties\<close>

text \<open>
  C19: after \<open>mouse_init\<close>, on a screen of at least one pixel, the handler stays inside the packet buffer
  on any stream of bytes. Every three bytes move the pointer by the signed movements of the packet,
  left or right and up or down, unless the header is malformed or reports an overflow, and the pointer
  never leaves the screen.
\<close>

theorem mouse_follows_packets:
  assumes "0 < W" and "0 < H"
  shows "\<exists>s. mouse_bytes bs (snd (mouse_init status (mouse_set_bounds W H mouse_static))) = Some s \<and>
    packet_idx s = length bs mod 3 \<and>
    (mouse_x s, mouse_y s) = foldl (move W H) (W div 2, H div 2) (packets bs) \<and>
    0 \<le> mouse_x s \<and> mouse_x s < W \<and> 0 \<le> mouse_y s \<and> mouse_y s < H"
proof -
  let ?s = "snd (mouse_init status (mouse_set_bounds W H mouse_static))"
  have s: "mouse_ok W H ?s" "packet_idx ?s = 0" "pointer ?s = (W div 2, H div 2)"
    using assms by (simp_all add: mouse_ok_def mouse_init_def mouse_set_bounds_def mouse_static_def pointer_def Let_def)
  obtain t where t: "mouse_bytes bs ?s = Some t" "packet_idx t = length bs mod 3"
    "pointer t = foldl (move W H) (W div 2, H div 2) (packets bs)"
    using mouse_bytes_packets [OF s(1,2), of bs] s(3) by auto
  have "W div 2 \<in> {0..<W}" "H div 2 \<in> {0..<H}" using assms by auto
  then have "fst (pointer t) \<in> {0..<W} \<and> snd (pointer t) \<in> {0..<H}"
    unfolding t(3) using assms by (intro move_on_screen) simp_all
  then show ?thesis using t by (auto simp: pointer_def)
qed

theorem mouse_follows_packets_witness:
  "\<exists>s. mouse_bytes [0x18, 0xF6, 5, 8] (snd (mouse_init 0 (mouse_set_bounds 640 480 mouse_static))) = Some s \<and>
     (mouse_x s, mouse_y s) = (310, 235)"
  using mouse_follows_packets [of 640 480 "[0x18, 0xF6, 5, 8]" 0] by (auto simp del: mouse_bytes.simps simp: motion_def clamp_def)

end
