(* ===== verification/Oki.thy ===== *)
theory Oki
  imports Framebuffer Mouse Keyboard Vfs Pmm CString
begin

text \<open>
  The desktop, \<open>kernel/oki.c\<close>: windows, their surfaces, workspaces, the mouse and the terminal, over the
  kernel heap (the one of the filesystem state), the framebuffer, the mouse, the keyboard and the file
  tree. Windows are heap objects, found by address; the array of a surface is a list. \<open>None\<close> is an
  access outside an array, or a loop that does not end. Texts in fixed buffers are the lists of their
  bytes; serial output is left out.
\<close>

section \<open>State\<close>

abbreviation (input) OKI_WIN_VISIBLE :: u32 where "OKI_WIN_VISIBLE \<equiv> 1"
abbreviation (input) OKI_WIN_DECORATED :: u32 where "OKI_WIN_DECORATED \<equiv> 4"
abbreviation (input) OKI_WIN_RESIZABLE :: u32 where "OKI_WIN_RESIZABLE \<equiv> 8"
abbreviation (input) OKI_WIN_MOVABLE :: u32 where "OKI_WIN_MOVABLE \<equiv> 16"
abbreviation (input) OKI_MAX_WINDOWS :: nat where "OKI_MAX_WINDOWS \<equiv> 32"
abbreviation (input) OKI_PANEL_HEIGHT :: int where "OKI_PANEL_HEIGHT \<equiv> 32"
abbreviation (input) OKI_TITLEBAR_HEIGHT :: int where "OKI_TITLEBAR_HEIGHT \<equiv> 28"
abbreviation (input) OKI_BORDER_WIDTH :: int where "OKI_BORDER_WIDTH \<equiv> 2"
abbreviation (input) OKI_GAP :: int where "OKI_GAP \<equiv> 6"
abbreviation (input) OKI_CORNER_RADIUS :: int where "OKI_CORNER_RADIUS \<equiv> 8"
abbreviation (input) OKI_MAX_WORKSPACES :: int where "OKI_MAX_WORKSPACES \<equiv> 4"
abbreviation (input) SIZEOF_WINDOW :: u32 where "SIZEOF_WINDOW \<equiv> 128"

abbreviation (input) COLOR_BG :: u32 where "COLOR_BG \<equiv> 0xFF1E1E2E"
abbreviation (input) COLOR_SURFACE0 :: u32 where "COLOR_SURFACE0 \<equiv> 0xFF313244"
abbreviation (input) COLOR_SURFACE1 :: u32 where "COLOR_SURFACE1 \<equiv> 0xFF45475A"
abbreviation (input) COLOR_OVERLAY0 :: u32 where "COLOR_OVERLAY0 \<equiv> 0xFF6C7086"
abbreviation (input) COLOR_OVERLAY1 :: u32 where "COLOR_OVERLAY1 \<equiv> 0xFF7F849C"
abbreviation (input) COLOR_TEXT :: u32 where "COLOR_TEXT \<equiv> 0xFFCDD6F4"
abbreviation (input) COLOR_SUBTEXT :: u32 where "COLOR_SUBTEXT \<equiv> 0xFFA6ADC8"
abbreviation (input) COLOR_LAVENDER :: u32 where "COLOR_LAVENDER \<equiv> 0xFFB4BEFE"
abbreviation (input) COLOR_GREEN :: u32 where "COLOR_GREEN \<equiv> 0xFFA6E3A1"
abbreviation (input) COLOR_YELLOW :: u32 where "COLOR_YELLOW \<equiv> 0xFFF9E2AF"
abbreviation (input) COLOR_RED :: u32 where "COLOR_RED \<equiv> 0xFFF38BA8"
abbreviation (input) COLOR_MAUVE :: u32 where "COLOR_MAUVE \<equiv> 0xFFCBA6F7"
abbreviation (input) COLOR_CRUST :: u32 where "COLOR_CRUST \<equiv> 0xFF11111B"
abbreviation (input) COLOR_MANTLE :: u32 where "COLOR_MANTLE \<equiv> 0xFF181825"
abbreviation (input) COLOR_TITLEBAR :: u32 where "COLOR_TITLEBAR \<equiv> 0xFF1E1E2E"
abbreviation (input) COLOR_PANEL :: u32 where "COLOR_PANEL \<equiv> 0xE0181825"
abbreviation (input) COLOR_PILL_BG :: u32 where "COLOR_PILL_BG \<equiv> 0xFF30343F"
abbreviation (input) COLOR_PILL_BG_ACCENT :: u32 where "COLOR_PILL_BG_ACCENT \<equiv> 0xFF3C4250"
abbreviation (input) COLOR_PILL_TEXT :: u32 where "COLOR_PILL_TEXT \<equiv> 0xFFEBEEF7"

record oki_window =
  w_id :: int
  w_title :: "u8 list"
  w_x :: int
  w_y :: int
  w_w :: int
  w_h :: int
  w_flags :: u32
  w_workspace :: int
  w_surface :: u32
  w_surface_w :: int
  w_surface_h :: int
  w_border_color :: u32
  w_titlebar_color :: u32
  w_title_text_color :: u32
  w_dirty :: bool
  w_dragging :: bool
  w_drag_offset_x :: int
  w_drag_offset_y :: int

text \<open>
  The input line is the array with its length; the other lines are the texts the arrays hold.
\<close>

record oki_term =
  t_lines :: "u8 list list"
  t_colors :: "u32 list"
  t_line_count :: nat
  t_input :: "u8 list"
  t_input_len :: nat
  t_win :: u32

record oki_desktop =
  d_windows :: "u32 list"
  d_window_count :: nat
  d_focused :: int
  d_workspace :: int
  d_screen_w :: int
  d_screen_h :: int
  d_panel_visible :: bool
  d_wallpaper_top :: u32
  d_wallpaper_bottom :: u32
  d_running :: bool
  d_needs_redraw :: bool

record oki = vfs +
  desktop :: oki_desktop
  window_at :: "u32 \<Rightarrow> oki_window"
  surface_at :: "u32 \<Rightarrow> u32 list"
  g_term :: oki_term
  fb :: framebuffer
  pointing :: mouse
  typing :: keyboard
  frames :: pmm
  tick_count :: u32

definition upd_desktop :: "(oki_desktop \<Rightarrow> oki_desktop) \<Rightarrow> oki \<Rightarrow> oki" where
  "upd_desktop f s = s\<lparr>desktop := f (desktop s)\<rparr>"

definition upd_window :: "u32 \<Rightarrow> (oki_window \<Rightarrow> oki_window) \<Rightarrow> oki \<Rightarrow> oki" where
  "upd_window p f s = s\<lparr>window_at := (window_at s)(p := f (window_at s p))\<rparr>"

text \<open>The window of a slot of the array; \<open>0\<close> is \<open>NULL\<close>.\<close>

definition slot :: "oki \<Rightarrow> int \<Rightarrow> u32 option" where
  "slot s i = (if 0 \<le> i \<and> i < int (length (d_windows (desktop s))) then Some (d_windows (desktop s) ! nat i) else None)"

definition needs_redraw :: "oki \<Rightarrow> oki" where
  "needs_redraw s = upd_desktop (\<lambda>d. d\<lparr>d_needs_redraw := True\<rparr>) s"

definition surface_store :: "u32 \<Rightarrow> int \<Rightarrow> u32 \<Rightarrow> oki \<Rightarrow> oki option" where
  "surface_store p i c s =
     (if 0 \<le> i \<and> i < int (length (surface_at s p))
      then Some (s\<lparr>surface_at := (surface_at s)(p := (surface_at s p)[nat i := c])\<rparr>) else None)"

section \<open>Drawing into the surface of a window\<close>

definition oki_window_clear :: "u32 \<Rightarrow> u32 \<Rightarrow> oki \<Rightarrow> oki option" where
  "oki_window_clear win color s =
     (if win = 0 \<or> w_surface (window_at s win) = 0 then Some s
      else do { s \<leftarrow> for_range 0 (w_surface_w (window_at s win) * w_surface_h (window_at s win))
                  (\<lambda>i s. surface_store (w_surface (window_at s win)) i color s) s;
                Some (upd_window win (\<lambda>w. w\<lparr>w_dirty := True\<rparr>) s) })"

definition oki_window_putchar :: "u32 \<Rightarrow> int \<Rightarrow> int \<Rightarrow> u8 \<Rightarrow> u32 \<Rightarrow> oki \<Rightarrow> oki option" where
  "oki_window_putchar win x y c fg s =
     (if win = 0 \<or> w_surface (window_at s win) = 0 then Some s
      else do { s \<leftarrow> for_range 0 16 (\<lambda>row. for_range 0 8 (\<lambda>col s.
                  let bits = glyph c ! nat row; px = x + col; py = y + row; w = window_at s win
                  in if glyph_bit bits col \<and> 0 \<le> px \<and> 0 \<le> py \<and> px < w_surface_w w \<and> py < w_surface_h w
                     then surface_store (w_surface w) (py * w_surface_w w + px) fg s else Some s)) s;
                Some (upd_window win (\<lambda>w. w\<lparr>w_dirty := True\<rparr>) s) })"

fun oki_puts_from :: "u32 \<Rightarrow> int \<Rightarrow> int \<Rightarrow> int \<Rightarrow> u8 list \<Rightarrow> u32 \<Rightarrow> oki \<Rightarrow> oki option" where
  "oki_puts_from win ox x y [] fg s = Some s"
| "oki_puts_from win ox x y (c # str) fg s =
     (if c = 10 then oki_puts_from win ox ox (y + 16) str fg s
      else do { s \<leftarrow> oki_window_putchar win x y c fg s; oki_puts_from win ox (x + 8) y str fg s })"

definition oki_window_puts :: "u32 \<Rightarrow> int \<Rightarrow> int \<Rightarrow> u8 list \<Rightarrow> u32 \<Rightarrow> oki \<Rightarrow> oki option" where
  "oki_window_puts win x y str fg s = oki_puts_from win x x y str fg s"

definition oki_window_fill_rect :: "u32 \<Rightarrow> int \<Rightarrow> int \<Rightarrow> int \<Rightarrow> int \<Rightarrow> u32 \<Rightarrow> oki \<Rightarrow> oki option" where
  "oki_window_fill_rect win x y w h color s =
     (if win = 0 \<or> w_surface (window_at s win) = 0 then Some s
      else do { s \<leftarrow> for_range y (y + h) (\<lambda>py s.
                  if py < 0 \<or> w_surface_h (window_at s win) \<le> py then Some s
                  else for_range x (x + w) (\<lambda>px s.
                    if px < 0 \<or> w_surface_w (window_at s win) \<le> px then Some s
                    else surface_store (w_surface (window_at s win)) (py * w_surface_w (window_at s win) + px) color s) s) s;
                Some (upd_window win (\<lambda>w. w\<lparr>w_dirty := True\<rparr>) s) })"

section \<open>Windows\<close>

text \<open>
  A surface of \<open>w * h\<close> pixels, filled with the background; the block holds \<open>w * h * 4\<close> bytes modulo
  \<open>2^32\<close>, whatever was in it before.
\<close>

definition new_surface :: "u32 \<Rightarrow> int \<Rightarrow> int \<Rightarrow> oki \<Rightarrow> oki option" where
  "new_surface win w h s =
     do { let size = of_int (w * h * 4);
          (p, hp) \<leftarrow> kmalloc size (fs_heap s);
          let s = upd_window win (\<lambda>v. v\<lparr>w_surface := p\<rparr>) (s\<lparr>fs_heap := hp\<rparr>);
          if p = 0 then Some s
          else for_range 0 (w * h) (\<lambda>i s. surface_store p i COLOR_BG s)
                 (s\<lparr>surface_at := (surface_at s)(p := replicate (unat size div 4) 0)\<rparr>) }"

definition oki_create_window :: "u8 list \<Rightarrow> int \<Rightarrow> int \<Rightarrow> int \<Rightarrow> int \<Rightarrow> u32 \<Rightarrow> oki \<Rightarrow> (u32 \<times> oki) option" where
  "oki_create_window title x y w h flags s =
     (if OKI_MAX_WINDOWS \<le> d_window_count (desktop s) then Some (0, s)
      else do {
        (win, hp) \<leftarrow> kmalloc SIZEOF_WINDOW (fs_heap s);
        let s = s\<lparr>fs_heap := hp\<rparr>;
        if win = 0 then Some (0, s)
        else do {
          let s = upd_window win (\<lambda>_. \<lparr>w_id = int (d_window_count (desktop s)), w_title = take 63 title,
                 w_x = x, w_y = y, w_w = w, w_h = h, w_flags = flags OR OKI_WIN_VISIBLE,
                 w_workspace = d_workspace (desktop s), w_surface = 0, w_surface_w = w, w_surface_h = h,
                 w_border_color = COLOR_MAUVE, w_titlebar_color = COLOR_TITLEBAR, w_title_text_color = COLOR_TEXT,
                 w_dirty = True, w_dragging = False, w_drag_offset_x = 0, w_drag_offset_y = 0\<rparr>) s;
          s \<leftarrow> new_surface win w h s;
          let n = d_window_count (desktop s);
          Some (win, upd_desktop (\<lambda>d. d\<lparr>d_windows := (d_windows d)[n := win], d_focused := int n,
                 d_window_count := n + 1, d_needs_redraw := True\<rparr>) s) } })"

text \<open>\<open>for (j = i; j < n; j++) a[j] = a[j + 1];\<close>, \<open>n - i\<close> times\<close>

fun shift_down :: "nat \<Rightarrow> nat \<Rightarrow> 'a list \<Rightarrow> 'a list" where
  "shift_down 0 j ws = ws"
| "shift_down (Suc n) j ws = shift_down n (j + 1) (ws[j := ws ! (j + 1)])"

text \<open>The index of a window among the first \<open>n\<close> slots from \<open>i\<close> on.\<close>

fun find_window :: "nat \<Rightarrow> nat \<Rightarrow> u32 \<Rightarrow> u32 list \<Rightarrow> nat option" where
  "find_window 0 i win ws = None"
| "find_window (Suc n) i win ws = (if ws ! i = win then Some i else find_window n (i + 1) win ws)"

definition remove_slot :: "nat \<Rightarrow> oki_desktop \<Rightarrow> oki_desktop" where
  "remove_slot i d =
     (let ws = shift_down (d_window_count d - 1 - i) i (d_windows d);
          n = d_window_count d - 1;
          d = d\<lparr>d_windows := ws[n := 0], d_window_count := n\<rparr>
      in if int n \<le> d_focused d then d\<lparr>d_focused := int n - 1\<rparr> else d)"

definition oki_destroy_window :: "u32 \<Rightarrow> oki \<Rightarrow> oki option" where
  "oki_destroy_window win s =
     (if win = 0 then Some s
      else case find_window (d_window_count (desktop s)) 0 win (d_windows (desktop s)) of
             None \<Rightarrow> Some s
           | Some i \<Rightarrow>
               do { hp \<leftarrow> (if w_surface (window_at s win) \<noteq> 0 then kfree (w_surface (window_at s win)) (fs_heap s)
                           else Some (fs_heap s));
                    let s = upd_desktop (remove_slot i) (s\<lparr>fs_heap := hp\<rparr>);
                    hp \<leftarrow> kfree win (fs_heap s);
                    Some (needs_redraw (s\<lparr>fs_heap := hp\<rparr>)) })"

definition oki_focus_window :: "u32 \<Rightarrow> oki \<Rightarrow> oki" where
  "oki_focus_window win s =
     (case find_window (d_window_count (desktop s)) 0 win (d_windows (desktop s)) of
        None \<Rightarrow> s
      | Some i \<Rightarrow> needs_redraw (upd_desktop (\<lambda>d. d\<lparr>d_focused := int i\<rparr>) s))"

definition oki_move_window :: "u32 \<Rightarrow> int \<Rightarrow> int \<Rightarrow> oki \<Rightarrow> oki" where
  "oki_move_window win x y s =
     (if win = 0 then s else needs_redraw (upd_window win (\<lambda>w. w\<lparr>w_x := x, w_y := y\<rparr>) s))"

definition oki_resize_window :: "u32 \<Rightarrow> int \<Rightarrow> int \<Rightarrow> oki \<Rightarrow> oki option" where
  "oki_resize_window win w h s =
     (if win = 0 then Some s
      else do { hp \<leftarrow> (if w_surface (window_at s win) \<noteq> 0 then kfree (w_surface (window_at s win)) (fs_heap s)
                       else Some (fs_heap s));
                let s = upd_window win (\<lambda>v. v\<lparr>w_w := w, w_h := h, w_surface_w := w, w_surface_h := h\<rparr>) (s\<lparr>fs_heap := hp\<rparr>);
                s \<leftarrow> new_surface win w h s;
                Some (needs_redraw s) })"

section \<open>Workspaces, mouse and function keys\<close>

text \<open>\<open>visible_on s ws win\<close>: a window that is shown on workspace \<open>ws\<close>.\<close>

definition visible_on :: "oki \<Rightarrow> int \<Rightarrow> u32 \<Rightarrow> bool" where
  "visible_on s ws win \<longleftrightarrow> win \<noteq> 0 \<and> w_workspace (window_at s win) = ws \<and> w_flags (window_at s win) AND OKI_WIN_VISIBLE \<noteq> 0"

text \<open>\<open>for (i = n - 1; i >= 0; i--)\<close>, up to the first slot with the property.\<close>

fun last_slot :: "nat \<Rightarrow> (u32 \<Rightarrow> bool) \<Rightarrow> u32 list \<Rightarrow> nat option" where
  "last_slot 0 p ws = None"
| "last_slot (Suc i) p ws = (if p (ws ! i) then Some i else last_slot i p ws)"

definition oki_switch_workspace :: "int \<Rightarrow> oki \<Rightarrow> oki" where
  "oki_switch_workspace ws s =
     (if ws < 0 \<or> OKI_MAX_WORKSPACES \<le> ws then s
      else let d = desktop s;
               focus = (case last_slot (d_window_count d) (visible_on s ws) (d_windows d) of None \<Rightarrow> - 1 | Some i \<Rightarrow> int i)
           in needs_redraw (upd_desktop (\<lambda>d. d\<lparr>d_workspace := ws, d_focused := focus\<rparr>) s))"

definition on_titlebar :: "oki_window \<Rightarrow> int \<Rightarrow> int \<Rightarrow> bool" where
  "on_titlebar w x y \<longleftrightarrow> w_flags w AND OKI_WIN_DECORATED \<noteq> 0 \<and>
     w_x w \<le> x \<and> x < w_x w + w_w w \<and> w_y w \<le> y \<and> y < w_y w + OKI_TITLEBAR_HEIGHT"

definition on_close_button :: "oki_window \<Rightarrow> int \<Rightarrow> int \<Rightarrow> bool" where
  "on_close_button w x y \<longleftrightarrow> w_x w + w_w w - 24 \<le> x \<and> x < w_x w + w_w w - 24 + 16 \<and> w_y w + 6 \<le> y \<and> y < w_y w + 22"

definition on_client :: "oki_window \<Rightarrow> int \<Rightarrow> int \<Rightarrow> bool" where
  "on_client w x y \<longleftrightarrow>
     (let top = (if w_flags w AND OKI_WIN_DECORATED \<noteq> 0 then OKI_TITLEBAR_HEIGHT else 0)
      in w_x w \<le> x \<and> x < w_x w + w_w w \<and> w_y w + top \<le> y \<and> y < w_y w + top + w_h w)"

text \<open>The loops over the slots: end of a drag, the window being dragged, the window clicked on.\<close>

fun release_drags :: "nat \<Rightarrow> oki \<Rightarrow> oki" where
  "release_drags 0 s = s"
| "release_drags (Suc i) s =
     (let s = release_drags i s; win = d_windows (desktop s) ! i
      in if win \<noteq> 0 then upd_window win (\<lambda>w. w\<lparr>w_dragging := False\<rparr>) s else s)"

fun dragged :: "nat \<Rightarrow> nat \<Rightarrow> oki \<Rightarrow> u32 option" where
  "dragged 0 i s = None"
| "dragged (Suc n) i s =
     (let win = d_windows (desktop s) ! i
      in if win \<noteq> 0 \<and> w_dragging (window_at s win) then Some win else dragged n (i + 1) s)"

fun click :: "nat \<Rightarrow> int \<Rightarrow> int \<Rightarrow> oki \<Rightarrow> oki option" where
  "click 0 x y s = Some s"
| "click (Suc i) x y s =
     (let win = d_windows (desktop s) ! i; w = window_at s win
      in if \<not> visible_on s (d_workspace (desktop s)) win then click i x y s
         else if on_titlebar w x y
         then if on_close_button w x y then oki_destroy_window win s
              else Some (oki_focus_window win
                     (upd_window win (\<lambda>w. w\<lparr>w_dragging := True, w_drag_offset_x := x - w_x w, w_drag_offset_y := y - w_y w\<rparr>) s))
         else if on_client w x y then Some (oki_focus_window win s)
         else click i x y s)"

definition oki_handle_mouse :: "mouse \<Rightarrow> oki \<Rightarrow> oki option" where
  "oki_handle_mouse m s =
     (let s = needs_redraw s; n = d_window_count (desktop s)
      in if \<not> left_button m then Some (release_drags n s)
         else case dragged n 0 s of
                Some win \<Rightarrow> Some (upd_window win (\<lambda>w. w\<lparr>w_x := mouse_x m - w_drag_offset_x w, w_y := mouse_y m - w_drag_offset_y w\<rparr>) s)
              | None \<Rightarrow> click n (mouse_x m) (mouse_y m) s)"

definition oki_handle_key :: "u8 \<Rightarrow> oki \<Rightarrow> oki" where
  "oki_handle_key scancode s =
     (if 0x3B \<le> scancode \<and> scancode \<le> 0x3E then oki_switch_workspace (uint (scancode - 0x3B)) s else s)"

text \<open>The interrupt of the mouse calls back into the desktop.\<close>

definition oki_mouse_byte :: "u8 \<Rightarrow> oki \<Rightarrow> oki option" where
  "oki_mouse_byte b s =
     do { (notify, m) \<leftarrow> mouse_irq_handler b (pointing s);
          let s = s\<lparr>pointing := m\<rparr>;
          if notify then oki_handle_mouse m s else Some s }"

end
