(* ===== verification/Oki_Desktop.thy ===== *)
theory Oki_Desktop
  imports Oki "HOL-Library.Signed_Division"
begin

text \<open>
  The terminal of the desktop, its compositor, its set-up and its event loop (\<open>kernel/oki.c\<close>). What the
  compositor draws is a function of the desktop and a transformer of the framebuffer.
\<close>

section \<open>The terminal\<close>

abbreviation (input) TERM_COLS :: nat where "TERM_COLS \<equiv> 58"
abbreviation (input) TERM_ROWS :: nat where "TERM_ROWS \<equiv> 18"
abbreviation (input) TERM_PAD_X :: int where "TERM_PAD_X \<equiv> 8"
abbreviation (input) TERM_PAD_Y :: int where "TERM_PAD_Y \<equiv> 8"
abbreviation (input) TERM_LINE_H :: int where "TERM_LINE_H \<equiv> 16"
abbreviation (input) TERM_CHAR_W :: int where "TERM_CHAR_W \<equiv> 8"
abbreviation (input) TERM_INPUT_MAX :: nat where "TERM_INPUT_MAX \<equiv> 50"

definition term_scroll_up :: "oki_term \<Rightarrow> oki_term" where
  "term_scroll_up t =
     t\<lparr>t_lines := (shift_down (TERM_ROWS - 1) 0 (t_lines t))[TERM_ROWS - 1 := []],
       t_colors := shift_down (TERM_ROWS - 1) 0 (t_colors t), t_line_count := TERM_ROWS - 1\<rparr>"

text \<open>\<open>strncpy(lines[n], str, 58); lines[n][58] = 0;\<close>\<close>

definition term_println :: "u8 list \<Rightarrow> u32 \<Rightarrow> oki_term \<Rightarrow> oki_term option" where
  "term_println str color t =
     (let t = (if TERM_ROWS \<le> t_line_count t then term_scroll_up t else t); n = t_line_count t
      in if n < length (t_lines t) \<and> n < length (t_colors t)
         then Some (t\<lparr>t_lines := (t_lines t)[n := take TERM_COLS str], t_colors := (t_colors t)[n := color], t_line_count := n + 1\<rparr>)
         else None)"

definition term_clear :: "oki_term \<Rightarrow> oki_term" where
  "term_clear t = t\<lparr>t_lines := map (\<lambda>_. []) (t_lines t), t_colors := map (\<lambda>_. COLOR_TEXT) (t_colors t), t_line_count := 0\<rparr>"

definition term_fmt :: "nat \<Rightarrow> u8 list \<Rightarrow> u32 \<Rightarrow> u8 list \<Rightarrow> u8 list" where
  "term_fmt n prefix val suffix =
     strlcat_text n (strlcat_text n (strlcpy_text n prefix) (utoa_text val)) suffix"

definition println :: "u8 list \<Rightarrow> u32 \<Rightarrow> oki \<Rightarrow> oki option" where
  "println str color s = map_option (\<lambda>t. s\<lparr>g_term := t\<rparr>) (term_println str color (g_term s))"

text \<open>The loop over the lines; it stops at the first line below the surface.\<close>

fun render_lines :: "nat \<Rightarrow> nat \<Rightarrow> u32 \<Rightarrow> oki \<Rightarrow> oki option" where
  "render_lines 0 i win s = Some s"
| "render_lines (Suc n) i win s =
     (let y = TERM_PAD_Y + int i * TERM_LINE_H; line = t_lines (g_term s) ! i
      in if w_surface_h (window_at s win) < y + TERM_LINE_H then Some s
         else do { s \<leftarrow> (if line \<noteq> [] then oki_window_puts win TERM_PAD_X y line (t_colors (g_term s) ! i) s else Some s);
                   render_lines n (i + 1) win s })"

text \<open>The text of the input line.\<close>

definition input_text :: "oki_term \<Rightarrow> u8 list" where
  "input_text t = takeWhile (\<lambda>c. c \<noteq> 0) (t_input t)"

text \<open>The prompt line at the bottom, with the cursor.\<close>

definition render_prompt :: "u32 \<Rightarrow> oki \<Rightarrow> oki option" where
  "render_prompt win s =
     (let prompt_y = TERM_PAD_Y + int TERM_ROWS * TERM_LINE_H; prompt_w = 8 * TERM_CHAR_W
      in if prompt_y + TERM_LINE_H \<le> w_surface_h (window_at s win)
         then do {
           s \<leftarrow> oki_window_puts win TERM_PAD_X prompt_y (chars ''$ dori> '') COLOR_GREEN s;
           s \<leftarrow> (if 0 < t_input_len (g_term s)
                 then oki_window_puts win (TERM_PAD_X + prompt_w) prompt_y (input_text (g_term s)) COLOR_TEXT s
                 else Some s);
           let cx = TERM_PAD_X + prompt_w + int (t_input_len (g_term s)) * TERM_CHAR_W;
           oki_window_fill_rect win cx (prompt_y + 14) (TERM_CHAR_W - 1) 2 COLOR_MAUVE s }
         else Some s)"

definition term_render :: "oki \<Rightarrow> oki option" where
  "term_render s =
     (let win = t_win (g_term s)
      in if win = 0 \<or> w_surface (window_at s win) = 0 then Some s
         else do { s \<leftarrow> oki_window_clear win COLOR_BG s;
                   s \<leftarrow> render_lines (t_line_count (g_term s)) 0 win s;
                   s \<leftarrow> render_prompt win s;
                   Some (needs_redraw s) })"

partial_function (option) term_ls :: "u32 \<Rightarrow> oki \<Rightarrow> (u32 \<times> oki) option" where
  "term_ls idx s =
     do { (entry, s) \<leftarrow> vfs_readdir [SLASH] idx s;
          case entry of
            None \<Rightarrow> Some (idx, s)
          | Some e \<Rightarrow>
              do { let line = strlcpy_text 59 (chars (if e_type e = 2 then ''  [DIR] '' else ''        ''));
                   s \<leftarrow> println (strlcat_text 59 line (e_name e)) (if e_type e = 2 then COLOR_LAVENDER else COLOR_TEXT) s;
                   term_ls (idx + 1) s } }"

fun printlns :: "(string \<times> u32) list \<Rightarrow> oki \<Rightarrow> oki option" where
  "printlns [] s = Some s"
| "printlns ((str, color) # ls) s = do { s \<leftarrow> println (chars str) color s; printlns ls s }"

definition term_help :: "oki \<Rightarrow> oki option" where
  "term_help = printlns [(''Commands:'', COLOR_MAUVE), (''  help    - show this help'', COLOR_TEXT),
     (''  ver     - kernel version'', COLOR_TEXT), (''  meminfo - memory usage'', COLOR_TEXT),
     (''  uptime  - system uptime'', COLOR_TEXT), (''  ls      - list root dir'', COLOR_TEXT),
     (''  dori    - system info'', COLOR_TEXT), (''  clear   - clear terminal'', COLOR_TEXT)]"

definition term_ver :: "oki \<Rightarrow> oki option" where
  "term_ver = printlns [(''MonoOS v0.2.0 - Dori Kernel'', COLOR_YELLOW), (''Arch: i686 (x86 protected mode)'', COLOR_SUBTEXT),
     (''Built with , suffering and caffeine.'', COLOR_SUBTEXT)]"

definition term_meminfo :: "oki \<Rightarrow> oki option" where
  "term_meminfo s =
     do { s \<leftarrow> println (chars ''Memory Information:'') COLOR_MAUVE s;
          s \<leftarrow> println (term_fmt 59 (chars ''  Total:  '') (pmm_get_block_count (frames s) * 4) (chars '' KiB'')) COLOR_TEXT s;
          s \<leftarrow> println (term_fmt 59 (chars ''  Used:   '') (pmm_get_used_block_count (frames s) * 4) (chars '' KiB'')) COLOR_YELLOW s;
          println (term_fmt 59 (chars ''  Free:   '') (pmm_get_free_block_count (frames s) * 4) (chars '' KiB'')) COLOR_GREEN s }"

definition term_uptime :: "oki \<Rightarrow> oki option" where
  "term_uptime s =
     (let secs = tick_count s div 1000; mins = secs div 60; hrs = mins div 60;
          buf = term_fmt 59 (chars ''  Uptime: '') hrs (chars ''h '');
          buf = strlcat_text 59 (strlcat_text 59 buf (utoa_text (mins mod 60))) (chars ''m '');
          buf = strlcat_text 59 (strlcat_text 59 buf (utoa_text (secs mod 60))) (chars ''s'')
      in println buf COLOR_TEXT s)"

definition term_list :: "oki \<Rightarrow> oki option" where
  "term_list s =
     do { s \<leftarrow> println (chars ''  /'') COLOR_MAUVE s;
          (idx, s) \<leftarrow> term_ls 0 s;
          if idx = 0 then println (chars ''  (empty)'') COLOR_SUBTEXT s else Some s }"

definition term_dori :: "oki \<Rightarrow> oki option" where
  "term_dori s =
     do { s \<leftarrow> printlns [(''MonoOS 0.2.0 (Dori)'', COLOR_MAUVE), (''  Kernel:  Dori v0.2 (i686)'', COLOR_TEXT),
            (''  Desktop: Oki v0.1'', COLOR_TEXT), (''  Shell:   dsh 1.0'', COLOR_TEXT),
            (''  Video:   VESA FB 1024x768x32'', COLOR_TEXT)] s;
          let buf = term_fmt 59 (chars ''  Memory: '') (pmm_get_used_block_count (frames s) * 4) (chars '' / '');
          let buf = strlcat_text 59 buf (utoa_text (pmm_get_block_count (frames s) * 4));
          println (strlcat_text 59 buf (chars '' KiB'')) COLOR_SUBTEXT s }"

definition term_unknown :: "u8 list \<Rightarrow> oki \<Rightarrow> oki option" where
  "term_unknown cmd s =
     do { s \<leftarrow> println (strlcat_text 59 (strlcpy_text 59 (chars ''Unknown command: '')) cmd) COLOR_RED s;
          println (chars ''Type 'help' for commands.'') COLOR_SUBTEXT s }"

definition term_execute :: "u8 list \<Rightarrow> oki \<Rightarrow> oki option" where
  "term_execute cmd s =
     do { let echo = strlcat_text 59 (strlcpy_text 59 (chars ''$ dori> '')) cmd;
          s \<leftarrow> println echo COLOR_GREEN s;
          s \<leftarrow> (if cmd = [] then Some s
                else if cmd = chars ''help'' then term_help s
                else if cmd = chars ''clear'' then Some (s\<lparr>g_term := term_clear (g_term s)\<rparr>)
                else if cmd = chars ''ver'' then term_ver s
                else if cmd = chars ''meminfo'' then term_meminfo s
                else if cmd = chars ''uptime'' then term_uptime s
                else if cmd = chars ''ls'' then term_list s
                else if cmd = chars ''dori'' then term_dori s
                else term_unknown cmd s);
          term_render s }"

text \<open>\<open>input[i] = c\<close>\<close>

definition put_input :: "nat \<Rightarrow> u8 \<Rightarrow> oki_term \<Rightarrow> oki_term option" where
  "put_input i c t = (if i < length (t_input t) then Some (t\<lparr>t_input := (t_input t)[i := c]\<rparr>) else None)"

definition set_term :: "oki_term \<Rightarrow> oki \<Rightarrow> oki" where
  "set_term t s = s\<lparr>g_term := t\<rparr>"

definition oki_handle_char :: "u8 \<Rightarrow> oki \<Rightarrow> oki option" where
  "oki_handle_char c s =
     (if d_focused (desktop s) < 0 then Some s
      else do {
        win \<leftarrow> slot s (d_focused (desktop s));
        if win \<noteq> t_win (g_term s) then Some s
        else if t_win (g_term s) = 0 then Some s
        else if c = 10
        then do { t \<leftarrow> put_input (t_input_len (g_term s)) 0 (g_term s);
                  let s = set_term t s;
                  s \<leftarrow> term_execute (input_text t) s;
                  t \<leftarrow> put_input 0 0 ((g_term s)\<lparr>t_input_len := 0\<rparr>);
                  term_render (set_term t s) }
        else if c = 8
        then (if 0 < t_input_len (g_term s)
              then do { t \<leftarrow> put_input (t_input_len (g_term s) - 1) 0 ((g_term s)\<lparr>t_input_len := t_input_len (g_term s) - 1\<rparr>);
                        term_render (set_term t s) }
              else Some s)
        else if c = 3
        then do { t \<leftarrow> put_input 0 0 ((g_term s)\<lparr>t_input_len := 0\<rparr>);
                  s \<leftarrow> println (chars ''^C'') COLOR_RED (set_term t s);
                  term_render s }
        else if 32 \<le> c \<and> c < 127 \<and> t_input_len (g_term s) < TERM_INPUT_MAX
        then do { let n = t_input_len (g_term s);
                  t \<leftarrow> put_input n c (g_term s);
                  t \<leftarrow> put_input (n + 1) 0 (t\<lparr>t_input_len := n + 1\<rparr>);
                  term_render (set_term t s) }
        else Some s })"

section \<open>The compositor\<close>

text \<open>C division, towards zero; the sum is cut to a byte.\<close>

definition lerp_color :: "u32 \<Rightarrow> u32 \<Rightarrow> int \<Rightarrow> int \<Rightarrow> u32" where
  "lerp_color a b t n =
     (let mix = (\<lambda>p q. of_int (uint p + ((uint q - uint p) * t sdiv n)) AND 0xFF);
          ar = drop_bit 16 a AND 0xFF; ag = drop_bit 8 a AND 0xFF; ab = a AND 0xFF;
          br = drop_bit 16 b AND 0xFF; bg = drop_bit 8 b AND 0xFF; bb = b AND 0xFF
      in 0xFF000000 OR push_bit 16 (mix ar br) OR push_bit 8 (mix ag bg) OR mix ab bb)"

definition draw_wallpaper :: "oki_desktop \<Rightarrow> framebuffer \<Rightarrow> framebuffer option" where
  "draw_wallpaper d =
     for_range 0 (d_screen_h d) (\<lambda>y.
       fb_fill_rect 0 y (d_screen_w d) 1 (lerp_color (d_wallpaper_top d) (d_wallpaper_bottom d) y (d_screen_h d)))"

text \<open>The left edge of a pill whose right edge is \<open>cursor_x\<close>, less the gap: the new \<open>cursor_x\<close>.\<close>

definition pill_cursor :: "int \<Rightarrow> u8 list \<Rightarrow> int" where
  "pill_cursor cursor_x str = cursor_x - (fb_text_width str + 20) - OKI_GAP"

definition draw_pill_module :: "int \<Rightarrow> int \<Rightarrow> u8 list \<Rightarrow> u32 \<Rightarrow> u32 \<Rightarrow> framebuffer \<Rightarrow> framebuffer option" where
  "draw_pill_module cursor_x py str bg fg b =
     (let pad_x = 10; pill_h = OKI_PANEL_HEIGHT - 8; pill_y = py + 4;
          pill_w = fb_text_width str + pad_x * 2; pill_x = cursor_x - pill_w
      in do { b \<leftarrow> fb_fill_rounded_rect pill_x pill_y pill_w pill_h (pill_h div 2) bg b;
              fb_puts_transparent (pill_x + pad_x) (pill_y + (pill_h - FONT_HEIGHT) div 2) str fg b })"

definition has_windows :: "oki \<Rightarrow> int \<Rightarrow> bool" where
  "has_windows s i = list_ex (visible_on s i) (take (d_window_count (desktop s)) (d_windows (desktop s)))"

definition draw_workspace :: "oki \<Rightarrow> int \<Rightarrow> framebuffer \<Rightarrow> framebuffer option" where
  "draw_workspace s i b =
     (let wx = 8 + i * 28; wy = 6; num = [49 + of_int i]
      in if i = d_workspace (desktop s)
         then do { b \<leftarrow> fb_fill_rounded_rect wx wy 20 20 4 COLOR_MAUVE b; fb_puts_transparent (wx + 6) (wy + 2) num COLOR_CRUST b }
         else do { b \<leftarrow> (if has_windows s i then fb_fill_rounded_rect wx wy 20 20 4 COLOR_SURFACE1 b
                         else fb_draw_rounded_rect wx wy 20 20 4 COLOR_SURFACE1 b);
                   fb_puts_transparent (wx + 6) (wy + 2) num COLOR_OVERLAY1 b })"

definition clock_text :: "u32 \<Rightarrow> u8 list" where
  "clock_text ticks =
     (let total_secs = ticks div 1000; hours = total_secs div 3600 mod 24; minutes = total_secs mod 3600 div 60
      in [48 + ucast (hours div 10), 48 + ucast (hours mod 10), 58, 48 + ucast (minutes div 10), 48 + ucast (minutes mod 10)])"

definition uptime_text :: "u32 \<Rightarrow> u8 list" where
  "uptime_text ticks =
     (let total_secs = ticks div 1000; up_hours = total_secs div 3600; up_minutes = total_secs mod 3600 div 60;
          buf = strlcpy_text 24 (chars ''UP '');
          buf = strlcat_text 24 (strlcat_text 24 buf (utoa_text up_hours)) (chars ''h'');
          buf = (if up_minutes < 10 then strlcat_text 24 buf (chars ''0'') else buf)
      in strlcat_text 24 (strlcat_text 24 buf (utoa_text up_minutes)) (chars ''m''))"

definition ram_text :: "pmm \<Rightarrow> u8 list" where
  "ram_text p =
     (let used_mib = pmm_get_used_block_count p * 4 div 1024; total_mib = pmm_get_block_count p * 4 div 1024;
          buf = strlcat_text 24 (strlcpy_text 24 (chars ''RAM '')) (utoa_text used_mib);
          buf = strlcat_text 24 (strlcat_text 24 buf (chars ''/'')) (utoa_text total_mib)
      in strlcat_text 24 buf (chars ''MB''))"

definition draw_title :: "oki \<Rightarrow> framebuffer \<Rightarrow> framebuffer option" where
  "draw_title s b =
     (let d = desktop s; pw = d_screen_w d
      in if 0 \<le> d_focused d \<and> d_focused d < int (d_window_count d)
         then do { win \<leftarrow> slot s (d_focused d);
                   if win \<noteq> 0
                   then fb_puts_transparent ((pw - fb_text_width (w_title (window_at s win))) sdiv 2) 8 (w_title (window_at s win)) COLOR_TEXT b
                   else Some b }
         else Some b)"

definition draw_panel :: "oki \<Rightarrow> framebuffer \<Rightarrow> framebuffer option" where
  "draw_panel s b =
     (if \<not> d_panel_visible (desktop s) then Some b
      else do {
        let pw = d_screen_w (desktop s);
        b \<leftarrow> fb_fill_rect_alpha 0 0 pw OKI_PANEL_HEIGHT COLOR_PANEL b;
        b \<leftarrow> for_range 0 OKI_MAX_WORKSPACES (draw_workspace s) b;
        b \<leftarrow> draw_title s b;
        let cursor = pw - OKI_GAP;
        let clock = clock_text (tick_count s);
        let up = uptime_text (tick_count s);
        let ram = ram_text (frames s);
        b \<leftarrow> draw_pill_module cursor 0 clock COLOR_PILL_BG_ACCENT COLOR_PILL_TEXT b;
        let cursor = pill_cursor cursor clock;
        b \<leftarrow> draw_pill_module cursor 0 up COLOR_PILL_BG COLOR_PILL_TEXT b;
        let cursor = pill_cursor cursor up;
        draw_pill_module cursor 0 ram COLOR_PILL_BG COLOR_PILL_TEXT b })"

text \<open>The pixels of the surface at the place of the window, clipped to the screen.\<close>

definition blit_surface :: "oki_window \<Rightarrow> u32 list \<Rightarrow> int \<Rightarrow> int \<Rightarrow> framebuffer \<Rightarrow> framebuffer option" where
  "blit_surface w pixels total_x client_y =
     for_range 0 (min (w_surface_h w) (w_h w)) (\<lambda>sy.
       let dy = client_y + sy in
       for_range 0 (min (w_surface_w w) (w_w w)) (\<lambda>sx b.
         let dx = total_x + sx; i = sy * w_surface_w w + sx
         in if dy < 0 \<or> fb_height b \<le> of_int dy then Some b
            else if dx < 0 \<or> fb_width b \<le> of_int dx then Some b
            else if 0 \<le> i \<and> i < int (length pixels)
            then fb_store (unat (of_int dy * pitch4 b + of_int dx)) (pixels ! nat i) b else None))"

definition draw_decoration :: "oki_window \<Rightarrow> bool \<Rightarrow> framebuffer \<Rightarrow> framebuffer option" where
  "draw_decoration w focused b =
     (let x = w_x w; y = w_y w; tw = w_w w; btn_x = x + tw - 24; btn_y = y + 6
      in do { b \<leftarrow> fb_fill_rect x y tw OKI_TITLEBAR_HEIGHT COLOR_MANTLE b;
              b \<leftarrow> fb_puts_transparent (x + 12) (y + 6) (w_title w) (if focused then COLOR_TEXT else COLOR_OVERLAY0) b;
              b \<leftarrow> fb_fill_rounded_rect btn_x btn_y 16 16 4 COLOR_RED b;
              b \<leftarrow> fb_puts_transparent (btn_x + 4) btn_y (chars ''x'') COLOR_CRUST b;
              b \<leftarrow> fb_fill_rounded_rect (btn_x - 22) btn_y 16 16 4 COLOR_YELLOW b;
              b \<leftarrow> fb_fill_rounded_rect (btn_x - 22 - 22) btn_y 16 16 4 COLOR_GREEN b;
              fb_fill_rect (x + 1) (y + OKI_TITLEBAR_HEIGHT - 1) (tw - 2) 1 COLOR_SURFACE0 b })"

definition draw_window :: "oki \<Rightarrow> u32 \<Rightarrow> framebuffer \<Rightarrow> framebuffer option" where
  "draw_window s win b =
     (let w = window_at s win; d = desktop s
      in if win = 0 \<or> w_flags w AND OKI_WIN_VISIBLE = 0 then Some b
         else if w_workspace w \<noteq> d_workspace d then Some b
         else do {
           focus \<leftarrow> (if 0 \<le> d_focused d then slot s (d_focused d) else Some 0);
           let focused = (0 \<le> d_focused d \<and> focus = win);
           let border = (if focused then COLOR_MAUVE else COLOR_SURFACE1);
           let decorated = (w_flags w AND OKI_WIN_DECORATED \<noteq> 0);
           let x = w_x w;
           let y = w_y w;
           let tw = w_w w;
           let th = (if decorated then w_h w + OKI_TITLEBAR_HEIGHT else w_h w);
           b \<leftarrow> fb_fill_rect_alpha (x + 4) (y + 4) tw th 0x40000000 b;
           b \<leftarrow> fb_fill_rounded_rect (x - OKI_BORDER_WIDTH) (y - OKI_BORDER_WIDTH) (tw + 2 * OKI_BORDER_WIDTH)
                  (th + 2 * OKI_BORDER_WIDTH) (OKI_CORNER_RADIUS + 2) border b;
           b \<leftarrow> fb_fill_rounded_rect x y tw th OKI_CORNER_RADIUS COLOR_BG b;
           b \<leftarrow> (if decorated then draw_decoration w focused b else Some b);
           if w_surface w = 0 then Some b
           else blit_surface w (surface_at s (w_surface w)) x (y + (if decorated then OKI_TITLEBAR_HEIGHT else 0)) b })"

definition draw_windows :: "oki \<Rightarrow> framebuffer \<Rightarrow> framebuffer option" where
  "draw_windows s b =
     do { b \<leftarrow> for_range 0 (int (d_window_count (desktop s))) (\<lambda>i b.
            if i \<noteq> d_focused (desktop s) then do { win \<leftarrow> slot s i; draw_window s win b } else Some b) b;
          if 0 \<le> d_focused (desktop s) then do { win \<leftarrow> slot s (d_focused (desktop s)); draw_window s win b } else Some b }"

definition oki_compose :: "oki \<Rightarrow> oki option" where
  "oki_compose s =
     do { b \<leftarrow> draw_wallpaper (desktop s) (fb s);
          b \<leftarrow> draw_windows s b;
          b \<leftarrow> draw_panel s b;
          b \<leftarrow> fb_draw_cursor (mouse_x (pointing s)) (mouse_y (pointing s)) b;
          b \<leftarrow> fb_swap b;
          Some (s\<lparr>fb := b\<rparr>) }"


section \<open>Set-up\<close>

definition no_desktop :: oki_desktop where
  "no_desktop = \<lparr>d_windows = replicate 32 0, d_window_count = 0, d_focused = 0, d_workspace = 0, d_screen_w = 0, d_screen_h = 0,
     d_panel_visible = False, d_wallpaper_top = 0, d_wallpaper_bottom = 0, d_running = False, d_needs_redraw = False\<rparr>"

definition no_term :: oki_term where
  "no_term = \<lparr>t_lines = replicate 18 [], t_colors = replicate 18 0, t_line_count = 0, t_input = replicate 51 0,
     t_input_len = 0, t_win = 0\<rparr>"

definition start_terminal :: "oki \<Rightarrow> oki option" where
  "start_terminal s =
     do { (win, s) \<leftarrow> oki_create_window (chars ''Terminal ~ MonoOS'') OKI_GAP (OKI_PANEL_HEIGHT + OKI_GAP) 500 350
            (OKI_WIN_DECORATED OR OKI_WIN_MOVABLE OR OKI_WIN_RESIZABLE) s;
          if win = 0 then Some s
          else do {
            s \<leftarrow> printlns [(''Welcome to MonoOS!'', COLOR_MAUVE), (''Oki Desktop Environment v0.1'', COLOR_SUBTEXT),
                  (''Type 'help' for commands.'', COLOR_OVERLAY0), ([], COLOR_TEXT)]
                  (set_term (no_term\<lparr>t_win := win\<rparr>) s);
            term_render s } }"

fun window_texts :: "u32 \<Rightarrow> (int \<times> u8 list \<times> u32) list \<Rightarrow> oki \<Rightarrow> oki option" where
  "window_texts win [] s = Some s"
| "window_texts win ((y, str, color) # ls) s = do { s \<leftarrow> oki_window_puts win 8 y str color s; window_texts win ls s }"

definition start_sysinfo :: "oki \<Rightarrow> oki option" where
  "start_sysinfo s =
     do { (win, s) \<leftarrow> oki_create_window (chars ''System Info'') (520 + OKI_GAP) (OKI_PANEL_HEIGHT + OKI_GAP) 380 250
            (OKI_WIN_DECORATED OR OKI_WIN_MOVABLE) s;
          if win = 0 then Some s
          else do {
            s \<leftarrow> oki_window_clear win COLOR_BG s;
            let buf = strlcat_text 64 (chars ''Screen:  '') (utoa_text (fb_width (fb s)));
            let buf = strlcat_text 64 (strlcat_text 64 buf (chars ''x'')) (utoa_text (fb_height (fb s)));
            let buf = strlcat_text 64 (strlcat_text 64 buf (chars ''x'')) (utoa_text (ucast (fb_bpp (fb s))));
            window_texts win [(8, chars ''MonoOS 0.2.0 (Dori)'', COLOR_MAUVE), (32, chars ''Kernel:  Dori v0.2'', COLOR_TEXT),
              (48, chars ''Desktop: Oki v0.1'', COLOR_TEXT), (64, chars ''Shell:   dsh 1.0'', COLOR_TEXT),
              (88, chars ''Arch:    i686 (x86)'', COLOR_SUBTEXT), (104, chars ''Video:   VESA FB'', COLOR_SUBTEXT),
              (120, buf, COLOR_SUBTEXT), (152, chars ''Workspaces:'', COLOR_LAVENDER), (168, chars ''  F1-F4 to switch'', COLOR_OVERLAY0),
              (188, chars ''Drag titlebar to move windows'', COLOR_OVERLAY0), (204, chars ''Click [x] to close'', COLOR_OVERLAY0)] s } }"

definition oki_init :: "oki \<Rightarrow> oki option" where
  "oki_init s =
     (let w = sint (fb_width (fb s)); h = sint (fb_height (fb s));
          s = s\<lparr>desktop := no_desktop\<lparr>d_screen_w := w, d_screen_h := h, d_focused := - 1, d_workspace := 0,
                 d_panel_visible := True, d_running := True, d_needs_redraw := True,
                 d_wallpaper_top := 0xFF1A1B26, d_wallpaper_bottom := 0xFF24283B\<rparr>,
                 pointing := mouse_set_bounds w h (pointing s)\<rparr>
      in do { s \<leftarrow> start_terminal s; start_sysinfo s })"

section \<open>The event loop\<close>

text \<open>One pass of the loop of \<open>oki_run\<close>; the first component is \<open>last_frame_tick\<close>.\<close>

definition oki_pass :: "u32 \<Rightarrow> oki \<Rightarrow> (u32 \<times> oki) option" where
  "oki_pass last_tick s =
     do { let (sc, kb) = keyboard_get_scancode (typing s);
          let s = s\<lparr>typing := kb\<rparr>;
          let s = (if sc \<noteq> 0 then oki_handle_key sc s else s);
          let (ch, kb) = keyboard_get_char (typing s);
          let s = s\<lparr>typing := kb\<rparr>;
          s \<leftarrow> (if ch \<noteq> 0 then oki_handle_char ch s else Some s);
          let now = tick_count s;
          if d_needs_redraw (desktop s) \<and> 33 \<le> now - last_tick
          then do { s \<leftarrow> oki_compose s;
                    Some (now, upd_desktop (\<lambda>d. d\<lparr>d_needs_redraw := False\<rparr>) s) }
          else Some (last_tick, s) }"

text \<open>What happens between passes: a byte of the mouse, a scan code, a tick.\<close>

datatype oki_input = Mouse_byte u8 | Key u8 | Tick | Pass

fun oki_event :: "oki_input \<Rightarrow> u32 \<times> oki \<Rightarrow> (u32 \<times> oki) option" where
  "oki_event (Mouse_byte b) (l, s) = map_option (Pair l) (oki_mouse_byte b s)"
| "oki_event (Key sc) (l, s) = Some (l, s\<lparr>typing := keyboard_callback sc (typing s)\<rparr>)"
| "oki_event Tick (l, s) = Some (l, s\<lparr>tick_count := tick_count s + 1\<rparr>)"
| "oki_event Pass (l, s) = oki_pass l s"

fun oki_events :: "oki_input list \<Rightarrow> u32 \<times> oki \<Rightarrow> (u32 \<times> oki) option" where
  "oki_events [] r = Some r"
| "oki_events (e # es) r = do { r \<leftarrow> oki_event e r; oki_events es r }"

end
