(* ===== verification/Oki_Safe.thy ===== *)
theory Oki_Safe
  imports Oki_Desktop Framebuffer_Draw
begin

text \<open>
  The desktop never gets stuck: every pass of its loop, every interrupt of the mouse and of the keyboard
  returns, stays inside all arrays, frees only blocks it owns, and keeps the desktop well formed.
\<close>

section \<open>Drawing into surfaces\<close>

text \<open>
  \<open>redrawn s s'\<close>: only pixels of surfaces and the dirty marks of windows differ. \<open>draws win W H g\<close>: \<open>g\<close>
  does no more than that when \<open>win\<close> has a surface of \<open>W\<close> by \<open>H\<close> pixels.
\<close>

definition redrawn :: "oki \<Rightarrow> oki \<Rightarrow> bool" where
  "redrawn s s' \<longleftrightarrow> (\<exists>f g. s' = s\<lparr>surface_at := f, window_at := g\<rparr> \<and> (\<forall>p. length (f p) = length (surface_at s p)) \<and>
     (\<forall>q. g q = (window_at s q)\<lparr>w_dirty := w_dirty (g q)\<rparr>))"

definition surface_ok :: "oki \<Rightarrow> u32 \<Rightarrow> bool" where
  "surface_ok s win \<longleftrightarrow> (let w = window_at s win in 0 \<le> w_surface_w w \<and> 0 \<le> w_surface_h w \<and>
     (w_surface w \<noteq> 0 \<longrightarrow> w_surface_w w * w_surface_h w \<le> int (length (surface_at s (w_surface w)))))"

definition dims :: "oki \<Rightarrow> u32 \<Rightarrow> int \<Rightarrow> int \<Rightarrow> bool" where
  "dims s win W H \<longleftrightarrow> w_surface_w (window_at s win) = W \<and> w_surface_h (window_at s win) = H \<and> 0 \<le> W \<and> 0 \<le> H \<and>
     w_surface (window_at s win) \<noteq> 0 \<and> W * H \<le> int (length (surface_at s (w_surface (window_at s win))))"

definition draws :: "u32 \<Rightarrow> int \<Rightarrow> int \<Rightarrow> (oki \<Rightarrow> oki option) \<Rightarrow> bool" where
  "draws win W H g \<longleftrightarrow> (\<forall>s. dims s win W H \<longrightarrow> (\<exists>s'. g s = Some s' \<and> redrawn s s'))"

lemma redrawn_refl [simp]: "redrawn s s"
  unfolding redrawn_def by (intro exI [of _ "surface_at s"] exI [of _ "window_at s"]) simp

lemma redrawn_trans: "redrawn s t \<Longrightarrow> redrawn t u \<Longrightarrow> redrawn s u"
proof -
  assume "redrawn s t" "redrawn t u"
  then obtain f g f' g' where t: "t = s\<lparr>surface_at := f, window_at := g\<rparr>" "\<forall>p. length (f p) = length (surface_at s p)"
      "\<forall>q. g q = (window_at s q)\<lparr>w_dirty := w_dirty (g q)\<rparr>"
    and u: "u = t\<lparr>surface_at := f', window_at := g'\<rparr>" "\<forall>p. length (f' p) = length (surface_at t p)"
      "\<forall>q. g' q = (window_at t q)\<lparr>w_dirty := w_dirty (g' q)\<rparr>"
    unfolding redrawn_def by blast
  have "g' q = (window_at s q)\<lparr>w_dirty := w_dirty (g' q)\<rparr>" for q
  proof -
    have "g' q = (g q)\<lparr>w_dirty := w_dirty (g' q)\<rparr>" using u(3) t(1) by simp
    also have "\<dots> = (window_at s q)\<lparr>w_dirty := w_dirty (g' q)\<rparr>"
      using t(3) by (metis oki_window.surjective oki_window.update_convs(15))
    finally show ?thesis .
  qed
  then show ?thesis unfolding redrawn_def using t u by (intro exI [of _ f'] exI [of _ g']) simp
qed

lemma redrawn_window:
  assumes "redrawn s t"
  shows "w_surface (window_at t q) = w_surface (window_at s q)" "w_surface_w (window_at t q) = w_surface_w (window_at s q)"
    "w_surface_h (window_at t q) = w_surface_h (window_at s q)" "length (surface_at t p) = length (surface_at s p)"
proof -
  obtain f g where t: "t = s\<lparr>surface_at := f, window_at := g\<rparr>" "\<forall>p. length (f p) = length (surface_at s p)"
      "\<forall>q. g q = (window_at s q)\<lparr>w_dirty := w_dirty (g q)\<rparr>"
    using assms unfolding redrawn_def by blast
  have "\<exists>b. window_at t q = (window_at s q)\<lparr>w_dirty := b\<rparr>" using t(1,3) by auto
  then show "w_surface (window_at t q) = w_surface (window_at s q)" "w_surface_w (window_at t q) = w_surface_w (window_at s q)"
    "w_surface_h (window_at t q) = w_surface_h (window_at s q)" by auto
  show "length (surface_at t p) = length (surface_at s p)" using t(1,2) by simp
qed

lemma redrawn_surface_ok: "redrawn s t \<Longrightarrow> surface_ok t win \<longleftrightarrow> surface_ok s win"
  by (simp add: surface_ok_def redrawn_window Let_def)

lemma redrawn_dims: "redrawn s t \<Longrightarrow> dims t win W H \<longleftrightarrow> dims s win W H"
  by (simp add: dims_def redrawn_window)

lemma redrawn_surfaces:
  assumes "\<And>p. length (f p) = length (surface_at s p)"
  shows "redrawn s (s\<lparr>surface_at := f\<rparr>)"
  unfolding redrawn_def using assms by (intro exI [of _ f] exI [of _ "window_at s"]) simp

lemma redrawn_dirty: "redrawn s (upd_window win (\<lambda>w. w\<lparr>w_dirty := b\<rparr>) s)"
  unfolding redrawn_def upd_window_def
  by (intro exI [of _ "surface_at s"] exI [of _ "(window_at s)(win := (window_at s win)\<lparr>w_dirty := b\<rparr>)"]) simp

lemma drawsI: "(\<And>s. dims s win W H \<Longrightarrow> \<exists>s'. g s = Some s' \<and> redrawn s s') \<Longrightarrow> draws win W H g"
  by (simp add: draws_def)

lemma drawsD: "draws win W H g \<Longrightarrow> dims s win W H \<Longrightarrow> \<exists>s'. g s = Some s' \<and> redrawn s s'"
  by (simp add: draws_def)

named_theorems draw_intros "drawing into a surface"

lemma draws_Some [draw_intros]: "draws win W H Some"
  by (simp add: draws_def)

lemma draws_bind [draw_intros]: "draws win W H f \<Longrightarrow> draws win W H g \<Longrightarrow> draws win W H (\<lambda>s. do { s \<leftarrow> f s; g s })"
proof (rule drawsI)
  fix s assume a: "draws win W H f" "draws win W H g" "dims s win W H"
  obtain t where t: "f s = Some t" "redrawn s t" using drawsD [OF a(1,3)] by blast
  have "dims t win W H" using a(3) t(2) by (simp add: redrawn_dims)
  then obtain u where "g t = Some u" "redrawn t u" using drawsD [OF a(2)] by blast
  then show "\<exists>s'. do { s \<leftarrow> f s; g s } = Some s' \<and> redrawn s s'" using t redrawn_trans by auto
qed

lemma draws_if [draw_intros]: "draws win W H f \<Longrightarrow> draws win W H g \<Longrightarrow> draws win W H (\<lambda>s. if P s then f s else g s)"
  by (simp add: draws_def)

lemma draws_range [draw_intros]:
  "(\<And>i. a \<le> i \<Longrightarrow> i < b \<Longrightarrow> draws win W H (body i)) \<Longrightarrow> draws win W H (for_range a b body)"
proof (rule drawsI, goal_cases)
  case (1 s)
  note body = 1(1)
  from 1(2) have "a \<le> i \<Longrightarrow> \<exists>s'. for_range i b body s = Some s' \<and> redrawn s s'" for i
  proof (induction "nat (b - i)" arbitrary: i s)
    case 0
    then show ?case by (subst for_range.simps) simp
  next
    case (Suc n)
    then have i: "i < b" "n = nat (b - (i + 1))" by simp_all
    obtain t where t: "body i s = Some t" "redrawn s t"
      using drawsD [OF body [OF Suc.prems(1) i(1)] Suc.prems(2)] by blast
    have "dims t win W H" using Suc.prems(2) t(2) by (simp add: redrawn_dims)
    then obtain u where "for_range (i + 1) b body t = Some u" "redrawn t u"
      using Suc.hyps(1) [OF i(2)] Suc.prems(1) by auto
    then show ?case using i(1) t redrawn_trans by (subst for_range.simps) auto
  qed
  then show ?case by simp
qed

lemma draws_dirty [draw_intros]: "draws win W H (\<lambda>s. Some (upd_window win (\<lambda>w. w\<lparr>w_dirty := True\<rparr>) s))"
  by (rule drawsI) (simp add: redrawn_dirty)

lemma draws_guard: "draws win W H g \<Longrightarrow> draws win W H (\<lambda>s. if win = 0 \<or> w_surface (window_at s win) = 0 then Some s else g s)"
  by (simp add: draws_def)

text \<open>A pixel of the surface.\<close>

lemma cell_index: "0 \<le> x \<Longrightarrow> x < w \<Longrightarrow> 0 \<le> y \<Longrightarrow> y < h \<Longrightarrow> 0 \<le> y * w + x \<and> y * w + x < w * h" for x y w h :: int
proof -
  assume a: "0 \<le> x" "x < w" "0 \<le> y" "y < h"
  have "(y + 1) * w \<le> h * w" using a by (intro mult_right_mono) simp_all
  then have "y * w + x < w * h" using a by (simp add: algebra_simps)
  moreover have "0 \<le> y * w" using a by simp
  ultimately show ?thesis using a by linarith
qed

lemma store_redrawn:
  "0 \<le> i \<Longrightarrow> i < int (length (surface_at s p)) \<Longrightarrow> \<exists>s'. surface_store p i c s = Some s' \<and> redrawn s s'"
  unfolding surface_store_def by (auto intro!: redrawn_surfaces)

lemma draws_store:
  "0 \<le> i \<Longrightarrow> i < W * H \<Longrightarrow> draws win W H (\<lambda>s. surface_store (w_surface (window_at s win)) i c s)"
  by (rule drawsI) (rule store_redrawn, simp_all add: dims_def)

lemma draws_cell:
  assumes "0 \<le> x" "x < W" "0 \<le> y" "y < H"
  shows "draws win W H (\<lambda>s. surface_store (w_surface (window_at s win)) (y * w_surface_w (window_at s win) + x) c s)"
  using draws_store [of "y * W + x" W H win c] cell_index [OF assms] by (simp add: draws_def dims_def)

lemma draws_clear [draw_intros]: "draws win W H (oki_window_clear win c)"
proof -
  have "draws win W H (for_range 0 (W * H) (\<lambda>i s. surface_store (w_surface (window_at s win)) i c s))"
    by (intro draws_range draws_store)
  then have "draws win W H (\<lambda>s. for_range 0 (w_surface_w (window_at s win) * w_surface_h (window_at s win))
      (\<lambda>i s. surface_store (w_surface (window_at s win)) i c s) s)"
    by (simp add: draws_def dims_def)
  then show ?thesis unfolding oki_window_clear_def [abs_def] by (intro draws_guard draws_bind draws_dirty)
qed

lemma draws_putchar [draw_intros]: "draws win W H (oki_window_putchar win x y c fg)"
proof -
  have "draws win W H (\<lambda>s. if B \<and> 0 \<le> px \<and> 0 \<le> py \<and> px < w_surface_w (window_at s win) \<and> py < w_surface_h (window_at s win)
      then surface_store (w_surface (window_at s win)) (py * w_surface_w (window_at s win) + px) fg s else Some s)" for B px py
    using draws_cell [of px W py H win fg] by (cases "0 \<le> px \<and> px < W \<and> 0 \<le> py \<and> py < H") (auto simp: draws_def dims_def)
  then show ?thesis unfolding oki_window_putchar_def [abs_def] Let_def
    by (intro draws_guard draws_bind draws_dirty draws_range)
qed

lemma draws_puts_from: "draws win W H (oki_puts_from win ox x y str fg)"
proof (induction str arbitrary: x y)
  case (Cons c str)
  show ?case using Cons [of ox "y + 16"] draws_bind [OF draws_putchar [of win W H x y c fg] Cons [of "x + 8" y]]
    by (cases "c = 10") (simp_all add: draws_def)
qed (simp add: draws_def)

lemma draws_puts [draw_intros]: "draws win W H (oki_window_puts win x y str fg)"
  unfolding oki_window_puts_def [abs_def] by (rule draws_puts_from)

lemma draws_fill_rect [draw_intros]: "draws win W H (oki_window_fill_rect win x y w h c)"
proof -
  have col: "draws win W H (\<lambda>s. if px < 0 \<or> w_surface_w (window_at s win) \<le> px then Some s
      else surface_store (w_surface (window_at s win)) (py * w_surface_w (window_at s win) + px) c s)"
    if "0 \<le> py" "py < H" for px py
    using draws_cell [of px W py H win c] that by (cases "0 \<le> px \<and> px < W") (auto simp: draws_def dims_def)
  have "draws win W H (\<lambda>s. if py < 0 \<or> w_surface_h (window_at s win) \<le> py then Some s
      else for_range x (x + w) (\<lambda>px s. if px < 0 \<or> w_surface_w (window_at s win) \<le> px then Some s
        else surface_store (w_surface (window_at s win)) (py * w_surface_w (window_at s win) + px) c s) s)" for py
  proof (cases "0 \<le> py \<and> py < H")
    case True
    then have "draws win W H (for_range x (x + w) (\<lambda>px s. if px < 0 \<or> w_surface_w (window_at s win) \<le> px then Some s
        else surface_store (w_surface (window_at s win)) (py * w_surface_w (window_at s win) + px) c s))"
      by (intro draws_range col) simp_all
    then show ?thesis by (intro draws_if draws_Some)
  qed (auto simp: draws_def dims_def)
  then show ?thesis unfolding oki_window_fill_rect_def [abs_def]
    by (intro draws_guard draws_bind draws_dirty draws_range)
qed


section \<open>Listing the root directory\<close>

definition root_entry :: "u32 \<Rightarrow> 'a vfs_scheme \<Rightarrow> vfs_dirent option option" where
  "root_entry idx s =
     (let node = (if vfs_root s = 0 then 0 else vfs_check_mount (vfs_root s) s)
      in if node = 0 \<or> n_type (nodes s node) AND VFS_DIRECTORY = 0 then Some None
         else case n_ops (nodes s node) of None \<Rightarrow> Some None | Some ops \<Rightarrow> op_readdir ops node idx s)"

lemma readdir_root: "vfs_readdir [SLASH] idx s = map_option (\<lambda>d. (d, s)) (root_entry idx s)"
  by (auto simp: vfs_readdir_def vfs_resolve_path_def strip_slash_def root_entry_def Let_def resolve_from.simps
      split: option.split bind_splits)

text \<open>The parts of the state that a listing reads.\<close>

definition same_files :: "'a vfs_scheme \<Rightarrow> 'a vfs_scheme \<Rightarrow> bool" where
  "same_files s t \<longleftrightarrow> fs_disk s = fs_disk t \<and> fs_lba s = fs_lba t \<and> sb s = sb t \<and> nodes s = nodes t \<and> vfs_root s = vfs_root t"

lemma same_files_block: "same_files s t \<Longrightarrow> dorifs_read_block b s = dorifs_read_block b t"
  by (simp add: same_files_def dorifs_read_block_def)

lemma same_files_inode: "same_files s t \<Longrightarrow> dorifs_read_inode ino s = dorifs_read_inode ino t"
  using same_files_block [of s t] by (simp add: dorifs_read_inode_def inode_block_def same_files_def)

lemma same_files_get: "same_files s t \<Longrightarrow> dorifs_get_block i b s = dorifs_get_block i b t"
  using same_files_block [of s t] by (simp add: dorifs_get_block_def Let_def)

lemma same_files_scan:
  assumes "same_files s t"
  shows "scan_dir n i off visit acc s = scan_dir n i off visit acc t"
  by (induction n arbitrary: off acc)
    (simp_all only: scan_dir.simps same_files_block [OF assms] same_files_get [OF assms] cong: if_cong option.case_cong)

lemma same_files_readdir:
  assumes "same_files s t"
  shows "op_readdir ops p idx s = op_readdir ops p idx t"
proof -
  have n: "nodes s = nodes t" using assms by (simp add: same_files_def)
  show ?thesis
    by (cases ops) (simp only: op_readdir.simps dorifs_vfs_readdir_def n same_files_inode [OF assms] same_files_scan [OF assms]
        cong: if_cong option.case_cong)
qed

lemma same_files_root:
  assumes "same_files s t"
  shows "root_entry idx s = root_entry idx t"
proof -
  have n: "nodes s = nodes t" "vfs_root s = vfs_root t" using assms by (simp_all add: same_files_def)
  show ?thesis
    by (simp only: root_entry_def vfs_check_mount_def n same_files_readdir [OF assms] cong: if_cong option.case_cong)
qed

definition listing_ends :: "'a vfs_scheme \<Rightarrow> bool" where
  "listing_ends s \<longleftrightarrow> (\<exists>n. (\<forall>i < n. \<exists>e. root_entry (of_nat i) s = Some (Some e)) \<and> root_entry (of_nat n) s = Some None)"

lemma same_files_listing: "same_files s t \<Longrightarrow> listing_ends s \<longleftrightarrow> listing_ends t"
  using same_files_root [of s t] by (simp add: listing_ends_def)

section \<open>Well-formed desktops\<close>

definition windows_of :: "oki_desktop \<Rightarrow> u32 list" where
  "windows_of d = take (d_window_count d) (d_windows d)"

definition desk_ok :: "oki_desktop \<Rightarrow> bool" where
  "desk_ok d \<longleftrightarrow> length (d_windows d) = 32 \<and> d_window_count d \<le> 32 \<and> - 1 \<le> d_focused d \<and>
     d_focused d < int (d_window_count d) \<and> 0 \<le> d_workspace d \<and> d_workspace d < 4"

definition term_ok :: "oki_term \<Rightarrow> bool" where
  "term_ok t \<longleftrightarrow> length (t_lines t) = 18 \<and> length (t_colors t) = 18 \<and> t_line_count t \<le> 18 \<and>
     length (t_input t) = 51 \<and> t_input_len t \<le> 50"

text \<open>The heap blocks of the windows of the desktop, and of their surfaces.\<close>

definition blocks :: "u32 list \<Rightarrow> (u32 \<Rightarrow> oki_window) \<Rightarrow> u32 list" where
  "blocks ws win = ws @ filter (\<lambda>p. p \<noteq> 0) (map (\<lambda>w. w_surface (win w)) ws)"

definition owned :: "oki \<Rightarrow> bool" where
  "owned s \<longleftrightarrow> (let ws = windows_of (desktop s) in heap_inv (fs_heap s) \<and> distinct (blocks ws (window_at s)) \<and>
     (\<forall>p \<in> set (blocks ws (window_at s)). p \<noteq> 0 \<and> (\<exists>k. (p, k) \<in> live (fs_heap s))) \<and> (\<forall>w \<in> set ws. surface_ok s w))"

definition oki_ok :: "nat \<Rightarrow> nat \<Rightarrow> nat \<Rightarrow> oki \<Rightarrow> bool" where
  "oki_ok W H P s \<longleftrightarrow> desk_ok (desktop s) \<and> owned s \<and> term_ok (g_term s) \<and> canvas W H P (fb s) \<and>
     length (packet (pointing s)) = 3 \<and> packet_idx (pointing s) < 3 \<and> kb_inv (typing s) \<and> listing_ends s"

definition term_live :: "oki \<Rightarrow> bool" where
  "term_live s \<longleftrightarrow> t_win (g_term s) \<in> set (windows_of (desktop s))"

lemma oki_ok_redrawn:
  assumes "oki_ok W H P s" "redrawn s t"
  shows "oki_ok W H P t" "term_live t \<longleftrightarrow> term_live s" "desktop t = desktop s" "g_term t = g_term s"
proof -
  obtain f g where t: "t = s\<lparr>surface_at := f, window_at := g\<rparr>" using assms(2) unfolding redrawn_def by blast
  have b: "blocks ws (window_at t) = blocks ws (window_at s)" for ws
    by (simp add: blocks_def redrawn_window [OF assms(2)])
  have "same_files t s" by (simp add: t same_files_def)
  then show "oki_ok W H P t"
    using assms(1) redrawn_surface_ok [OF assms(2)] same_files_listing [of t s]
    by (simp add: oki_ok_def owned_def Let_def b) (simp add: t)
  show "term_live t \<longleftrightarrow> term_live s" "desktop t = desktop s" "g_term t = g_term s" by (simp_all add: t term_live_def)
qed

lemma oki_ok_term: "oki_ok W H P s \<Longrightarrow> term_ok t \<Longrightarrow> oki_ok W H P (s\<lparr>g_term := t\<rparr>)"
proof -
  assume a: "oki_ok W H P s" "term_ok t"
  have "same_files (s\<lparr>g_term := t\<rparr>) s" by (simp add: same_files_def)
  moreover have "surface_ok (s\<lparr>g_term := t\<rparr>) w \<longleftrightarrow> surface_ok s w" for w by (simp add: surface_ok_def)
  ultimately show ?thesis using a by (simp add: oki_ok_def owned_def Let_def same_files_listing)
qed

text \<open>A change of the desktop that leaves the windows.\<close>

lemma oki_ok_desktop:
  assumes "oki_ok W H P s" "desk_ok (f (desktop s))" "windows_of (f (desktop s)) = windows_of (desktop s)"
  shows "oki_ok W H P (upd_desktop f s)" "term_live (upd_desktop f s) \<longleftrightarrow> term_live s"
proof -
  have "same_files (upd_desktop f s) s" by (simp add: same_files_def upd_desktop_def)
  moreover have "surface_ok (upd_desktop f s) w \<longleftrightarrow> surface_ok s w" for w by (simp add: surface_ok_def upd_desktop_def)
  ultimately show "oki_ok W H P (upd_desktop f s)"
    using assms by (simp add: oki_ok_def owned_def Let_def same_files_listing) (simp add: upd_desktop_def)
  show "term_live (upd_desktop f s) \<longleftrightarrow> term_live s" using assms(3) by (simp add: term_live_def upd_desktop_def)
qed

lemma oki_ok_redraw: "oki_ok W H P s \<Longrightarrow> oki_ok W H P (needs_redraw s) \<and> (term_live (needs_redraw s) \<longleftrightarrow> term_live s)"
  using oki_ok_desktop [of W H P s "\<lambda>d. d\<lparr>d_needs_redraw := True\<rparr>"]
  by (simp add: needs_redraw_def windows_of_def desk_ok_def oki_ok_def)

text \<open>A change of a window that leaves its surface.\<close>

lemma oki_ok_window:
  assumes "oki_ok W H P s" and f: "\<And>w. w_surface (f w) = w_surface w \<and> w_surface_w (f w) = w_surface_w w \<and> w_surface_h (f w) = w_surface_h w"
  shows "oki_ok W H P (upd_window p f s)" "term_live (upd_window p f s) \<longleftrightarrow> term_live s"
proof -
  have "same_files (upd_window p f s) s" by (simp add: same_files_def upd_window_def)
  moreover have "blocks ws (window_at (upd_window p f s)) = blocks ws (window_at s)" for ws
  proof -
    have "w_surface (window_at (upd_window p f s) w) = w_surface (window_at s w)" for w using f by (simp add: upd_window_def)
    then show ?thesis by (simp add: blocks_def)
  qed
  moreover have "surface_ok (upd_window p f s) w \<longleftrightarrow> surface_ok s w" for w
    using f by (simp add: surface_ok_def upd_window_def Let_def)
  ultimately show "oki_ok W H P (upd_window p f s)"
    using assms(1) by (simp add: oki_ok_def owned_def Let_def same_files_listing) (simp add: upd_window_def)
  show "term_live (upd_window p f s) \<longleftrightarrow> term_live s" by (simp add: term_live_def upd_window_def)
qed


section \<open>The terminal\<close>

lemma length_shift_down [simp]: "length (shift_down n j xs) = length xs"
  by (induction n j xs rule: shift_down.induct) simp_all

lemma println_ok:
  assumes "term_ok t"
  shows "\<exists>t'. term_println str c t = Some t' \<and> term_ok t' \<and> t_win t' = t_win t \<and> t_input t' = t_input t \<and> t_input_len t' = t_input_len t"
  using assms by (auto simp: term_println_def term_scroll_up_def term_ok_def Let_def)

text \<open>\<open>shell W H P g\<close>: with the window of the terminal on the desktop, \<open>g\<close> returns and keeps all that.\<close>

definition shell :: "nat \<Rightarrow> nat \<Rightarrow> nat \<Rightarrow> (oki \<Rightarrow> oki option) \<Rightarrow> bool" where
  "shell W H P g \<longleftrightarrow> (\<forall>s. oki_ok W H P s \<and> term_live s \<longrightarrow> (\<exists>s'. g s = Some s' \<and> oki_ok W H P s' \<and> term_live s'))"

named_theorems shell_intros "running in the terminal"

lemma shellI: "(\<And>s. oki_ok W H P s \<Longrightarrow> term_live s \<Longrightarrow> \<exists>s'. g s = Some s' \<and> oki_ok W H P s' \<and> term_live s') \<Longrightarrow> shell W H P g"
  by (simp add: shell_def)

lemma shellD: "shell W H P g \<Longrightarrow> oki_ok W H P s \<Longrightarrow> term_live s \<Longrightarrow> \<exists>s'. g s = Some s' \<and> oki_ok W H P s' \<and> term_live s'"
  by (simp add: shell_def)

lemma shell_Some [shell_intros]: "shell W H P Some"
  by (simp add: shell_def)

lemma shell_bind [shell_intros]: "shell W H P f \<Longrightarrow> shell W H P g \<Longrightarrow> shell W H P (\<lambda>s. do { s \<leftarrow> f s; g s })"
  unfolding shell_def by (metis bind.bind_lunit)

lemma shell_if [shell_intros]: "shell W H P f \<Longrightarrow> shell W H P g \<Longrightarrow> shell W H P (\<lambda>s. if Q s then f s else g s)"
  by (simp add: shell_def)

text \<open>Texts that depend on the state.\<close>

lemma shell_arg: "(\<And>x. shell W H P (g x)) \<Longrightarrow> shell W H P (\<lambda>s. g (h s) s)"
  by (simp add: shell_def)

lemma shell_println [shell_intros]: "shell W H P (println str c)"
proof (rule shellI)
  fix s assume s: "oki_ok W H P s" "term_live s"
  then obtain t where t: "term_println str c (g_term s) = Some t" "term_ok t" "t_win t = t_win (g_term s)"
    using println_ok [of "g_term s" str c] by (auto simp: oki_ok_def)
  then show "\<exists>s'. println str c s = Some s' \<and> oki_ok W H P s' \<and> term_live s'"
    using s oki_ok_term by (auto simp: println_def term_live_def)
qed

lemma shell_printlns [shell_intros]: "shell W H P (printlns ls)"
proof (induction ls)
  case Nil
  then show ?case by (simp add: shell_def)
next
  case (Cons l ls)
  obtain str c where l: "l = (str, c)" by (cases l)
  have "shell W H P (\<lambda>s. do { s \<leftarrow> println (chars str) c s; printlns ls s })" using Cons by (intro shell_intros)
  then show ?case by (simp add: l shell_def)
qed

text \<open>Drawing into the window of the terminal.\<close>

lemma term_dims:
  assumes "oki_ok W H P s" "term_live s" "w_surface (window_at s (t_win (g_term s))) \<noteq> 0"
  shows "\<exists>SW SH. dims s (t_win (g_term s)) SW SH"
proof -
  have "surface_ok s (t_win (g_term s))" using assms(1,2) by (simp add: oki_ok_def owned_def term_live_def Let_def)
  then show ?thesis using assms(3) by (auto simp: surface_ok_def dims_def Let_def)
qed

lemma draws_lines:
  "draws win SW SH (\<lambda>s. render_lines n i win s)"
proof (induction n arbitrary: i)
  case 0
  then show ?case by (simp add: draws_def)
next
  case (Suc n)
  have "draws win SW SH (\<lambda>s. if line \<noteq> [] then oki_window_puts win TERM_PAD_X y line c s else Some s)" for line y c
    by (intro draw_intros)
  then have one: "draws win SW SH (\<lambda>s. if t_lines (g_term s) ! i \<noteq> [] then
      oki_window_puts win TERM_PAD_X y (t_lines (g_term s) ! i) (t_colors (g_term s) ! i) s else Some s)" for y
    by (simp add: draws_def)
  show ?case unfolding render_lines.simps Let_def by (intro draws_if draws_Some draws_bind one Suc)
qed

lemma draws_prompt: "draws win SW SH (render_prompt win)"
proof -
  have "draws win SW SH (\<lambda>s. oki_window_puts win x y (input_text (g_term s)) c s)" for x y c
    using draws_puts by (simp add: draws_def)
  moreover have "draws win SW SH (\<lambda>s. oki_window_fill_rect win (x + int (t_input_len (g_term s)) * z) y w h c s)" for x y z w h c
    using draws_fill_rect by (simp add: draws_def)
  ultimately show ?thesis unfolding render_prompt_def [abs_def] Let_def
    by (intro draws_bind draws_if draws_Some draws_puts)
qed

lemma render_ok:
  assumes s: "oki_ok W H P s" "term_live s"
  shows "\<exists>t. term_render s = Some t \<and> oki_ok W H P t \<and> term_live t \<and> g_term t = g_term s \<and>
    d_windows (desktop t) = d_windows (desktop s) \<and> d_focused (desktop t) = d_focused (desktop s)"
proof -
  let ?win = "t_win (g_term s)"
  show ?thesis
  proof (cases "?win = 0 \<or> w_surface (window_at s ?win) = 0")
    case True
    then show ?thesis using s by (auto simp: term_render_def Let_def)
  next
    case False
    then obtain SW SH where d: "dims s ?win SW SH" using term_dims [OF s] by blast
    have "draws ?win SW SH (\<lambda>s. render_lines (t_line_count (g_term s)) 0 ?win s)"
      using draws_lines by (simp add: draws_def)
    then have "draws ?win SW SH (\<lambda>s. do { s \<leftarrow> oki_window_clear ?win COLOR_BG s;
        s \<leftarrow> render_lines (t_line_count (g_term s)) 0 ?win s; render_prompt ?win s })"
      by (intro draws_bind draws_clear draws_prompt)
    from drawsD [OF this d] obtain t u v where t: "oki_window_clear ?win COLOR_BG s = Some u"
        "render_lines (t_line_count (g_term u)) 0 ?win u = Some v" "render_prompt ?win v = Some t" "redrawn s t"
      by (auto simp: bind_eq_Some_conv)
    have "term_render s = Some (needs_redraw t)" using t(1-3) False by (simp add: term_render_def Let_def)
    moreover have "oki_ok W H P t" "term_live t" "desktop t = desktop s" "g_term t = g_term s"
      using oki_ok_redrawn [OF s(1) t(4)] s(2) by simp_all
    moreover have "g_term (needs_redraw t) = g_term t" "d_windows (desktop (needs_redraw t)) = d_windows (desktop t)"
      "d_focused (desktop (needs_redraw t)) = d_focused (desktop t)" by (simp_all add: needs_redraw_def upd_desktop_def)
    ultimately show ?thesis using oki_ok_redraw by auto
  qed
qed

lemma shell_render [shell_intros]: "shell W H P term_render"
  using render_ok by (intro shellI) blast

text \<open>The commands. The listing ends because the directory does.\<close>

lemma shell_help [shell_intros]: "shell W H P term_help" "shell W H P term_ver"
  unfolding term_help_def term_ver_def by (intro shell_printlns)+

lemma shell_meminfo [shell_intros]: "shell W H P term_meminfo"
  unfolding term_meminfo_def [abs_def]
  by (intro shell_bind shell_println shell_arg [where g = "\<lambda>f. println (term_fmt _ _ (pmm_get_block_count f * 4) _) _"]
      shell_arg [where g = "\<lambda>f. println (term_fmt _ _ (pmm_get_used_block_count f * 4) _) _"]
      shell_arg [where g = "\<lambda>f. println (term_fmt _ _ (pmm_get_free_block_count f * 4) _) _"])

lemma shell_uptime [shell_intros]: "shell W H P term_uptime"
  using shell_println by (simp add: shell_def term_uptime_def Let_def)

lemma shell_unknown [shell_intros]: "shell W H P (term_unknown cmd)"
  unfolding term_unknown_def [abs_def] by (intro shell_bind shell_println)

lemma shell_dori [shell_intros]: "shell W H P term_dori"
proof -
  have "shell W H P (\<lambda>s. println (g (frames s)) c s)" for g c using shell_println by (simp add: shell_def)
  from this [of "\<lambda>f. strlcat_text 59 (strlcat_text 59 (term_fmt 59 (chars ''  Memory: '') (pmm_get_used_block_count f * 4)
      (chars '' / '')) (utoa_text (pmm_get_block_count f * 4))) (chars '' KiB'')"]
  show ?thesis unfolding term_dori_def [abs_def] Let_def by (intro shell_bind shell_printlns)
qed


lemma shell_entry:
  assumes "oki_ok W H P s" "term_live s" "root_entry idx s = Some (Some e)"
  shows "\<exists>s'. term_ls idx s = term_ls (idx + 1) s' \<and> oki_ok W H P s' \<and> term_live s' \<and> same_files s' s"
proof -
  let ?line = "strlcat_text 59 (strlcpy_text 59 (chars (if e_type e = 2 then ''  [DIR] '' else ''        ''))) (e_name e)"
  let ?color = "if e_type e = 2 then COLOR_LAVENDER else COLOR_TEXT"
  obtain s' where s': "println ?line ?color s = Some s'" "oki_ok W H P s'" "term_live s'"
    using shellD [OF shell_println assms(1,2)] by blast
  have "same_files s' s" using s'(1) by (auto simp: println_def same_files_def)
  moreover have "term_ls idx s = term_ls (idx + 1) s'"
    using s'(1) assms(3) by (subst term_ls.simps) (simp add: readdir_root Let_def)
  ultimately show ?thesis using s' by blast
qed

lemma shell_listing:
  assumes "\<And>i. i < n \<Longrightarrow> \<exists>e. root_entry (of_nat i) s = Some (Some e)" "root_entry (of_nat n) s = Some None"
    and "oki_ok W H P s" "term_live s" "k \<le> n"
  shows "\<exists>idx s'. term_ls (of_nat k) s = Some (idx, s') \<and> oki_ok W H P s' \<and> term_live s'"
  using assms
proof (induction "n - k" arbitrary: k s)
  case 0
  then show ?case by (subst term_ls.simps) (simp add: readdir_root)
next
  case (Suc m)
  have "k < n" using Suc.hyps(2) by linarith
  then obtain e where "root_entry (of_nat k) s = Some (Some e)" using Suc.prems(1) by blast
  from shell_entry [OF Suc.prems(3,4) this] obtain t where t: "term_ls (of_nat k) s = term_ls (of_nat k + 1) t"
    "oki_ok W H P t" "term_live t" "same_files t s" by blast
  have e: "root_entry i t = root_entry i s" for i using same_files_root [OF t(4)] .
  have "\<exists>idx s'. term_ls (of_nat (Suc k)) t = Some (idx, s') \<and> oki_ok W H P s' \<and> term_live s'"
    using Suc.hyps(2) Suc.prems(1,2) t(2,3) by (intro Suc.hyps(1)) (simp_all add: e)
  then show ?case using t(1) by (simp add: add.commute)
qed

lemma shell_ls [shell_intros]: "shell W H P term_list"
proof (rule shellI)
  fix s assume s: "oki_ok W H P s" "term_live s"
  obtain t where t: "println (chars ''  /'') COLOR_MAUVE s = Some t" "oki_ok W H P t" "term_live t"
    using shellD [OF shell_println s] by blast
  obtain n where n: "\<And>i. i < n \<Longrightarrow> \<exists>e. root_entry (of_nat i) t = Some (Some e)" "root_entry (of_nat n) t = Some None"
    using t(2) by (auto simp: oki_ok_def listing_ends_def)
  obtain idx u where u: "term_ls 0 t = Some (idx, u)" "oki_ok W H P u" "term_live u"
    using shell_listing [OF n t(2,3), of 0] by auto
  then show "\<exists>s'. term_list s = Some s' \<and> oki_ok W H P s' \<and> term_live s'"
    using shellD [OF shell_println u(2,3)] t(1) by (auto simp: term_list_def)
qed

lemma shell_clear [shell_intros]: "shell W H P (\<lambda>s. Some (s\<lparr>g_term := term_clear (g_term s)\<rparr>))"
proof (rule shellI)
  fix s assume s: "oki_ok W H P s" "term_live s"
  have "term_ok (term_clear (g_term s))" using s(1) by (simp add: oki_ok_def term_ok_def term_clear_def)
  then show "\<exists>s'. Some (s\<lparr>g_term := term_clear (g_term s)\<rparr>) = Some s' \<and> oki_ok W H P s' \<and> term_live s'"
    using oki_ok_term [OF s(1)] s(2) by (simp add: term_live_def term_clear_def)
qed

lemma shell_execute [shell_intros]: "shell W H P (term_execute cmd)"
  unfolding term_execute_def [abs_def] Let_def by (intro shell_intros)

section \<open>Keys\<close>

text \<open>A change of the input line.\<close>

lemma oki_ok_input:
  assumes "oki_ok W H P s" "term_live s" "i \<le> 50" "n \<le> 50"
  shows "\<exists>t. put_input i c ((g_term s)\<lparr>t_input_len := n\<rparr>) = Some t \<and> oki_ok W H P (set_term t s) \<and> term_live (set_term t s) \<and>
    t_input_len t = n \<and> term_ok t \<and> t_win t = t_win (g_term s)"
proof -
  let ?t = "(g_term s)\<lparr>t_input_len := n, t_input := (t_input (g_term s))[i := c]\<rparr>"
  have "term_ok ?t" using assms(1,4) by (simp add: oki_ok_def term_ok_def)
  moreover have "put_input i c ((g_term s)\<lparr>t_input_len := n\<rparr>) = Some ?t"
    using assms(1,3) by (simp add: put_input_def oki_ok_def term_ok_def)
  moreover have "t_win ?t = t_win (g_term s)" "t_input_len ?t = n" by simp_all
  moreover have "term_live (set_term ?t s)" using assms(2) by (simp add: term_live_def set_term_def)
  ultimately show ?thesis using oki_ok_term [OF assms(1), of ?t] by (auto simp: set_term_def)
qed

definition input_line :: "nat \<Rightarrow> u8 \<Rightarrow> nat \<Rightarrow> oki \<Rightarrow> oki option" where
  "input_line i c n s = do { t \<leftarrow> put_input i c ((g_term s)\<lparr>t_input_len := n\<rparr>); Some (set_term t s) }"

lemma shell_input: "i \<le> 50 \<Longrightarrow> n \<le> 50 \<Longrightarrow> shell W H P (input_line i c n)"
proof (rule shellI)
  fix s assume i: "i \<le> 50" "n \<le> 50" and s: "oki_ok W H P s" "term_live s"
  from oki_ok_input [OF s i, of c] show "\<exists>s'. input_line i c n s = Some s' \<and> oki_ok W H P s' \<and> term_live s'"
    by (auto simp: input_line_def)
qed

lemma set_input_len [simp]: "t\<lparr>t_input_len := t_input_len t\<rparr> = t"
  by simp

text \<open>The four kinds of keys, in terms of \<open>input_line\<close>.\<close>

lemma shell_handle_char:
  assumes s: "oki_ok W H P s"
  shows "\<exists>s'. oki_handle_char c s = Some s' \<and> oki_ok W H P s'"
proof (cases "0 \<le> d_focused (desktop s)")
  case False
  then show ?thesis using s by (simp add: oki_handle_char_def)
next
  case True
  have d: "desk_ok (desktop s)" "term_ok (g_term s)" using s by (simp_all add: oki_ok_def)
  define win where "win = d_windows (desktop s) ! nat (d_focused (desktop s))"
  have f: "slot s (d_focused (desktop s)) = Some win" "win \<in> set (windows_of (desktop s))"
    using d(1) True by (auto simp: slot_def win_def desk_ok_def windows_of_def in_set_conv_nth intro!: exI [of _ "nat (d_focused (desktop s))"])
  let ?n = "t_input_len (g_term s)"
  show ?thesis
  proof (cases "win = t_win (g_term s) \<and> win \<noteq> 0")
    case False
    then show ?thesis using s True f(1) by (auto simp: oki_handle_char_def)
  next
    case w: True
    then have live: "term_live s" using f(2) by (simp add: term_live_def)
    have n: "?n \<le> 50" using d(2) by (simp add: term_ok_def)
    have w': "t_win (g_term s) = win" "win \<noteq> 0" using w by blast+
    consider "c = 10" | "c = 8" "c \<noteq> 10" | "c = 3" "c \<noteq> 8" "c \<noteq> 10"
      | "32 \<le> c \<and> c < 127 \<and> ?n < 50" "c \<noteq> 3" "c \<noteq> 8" "c \<noteq> 10"
      | "\<not> (32 \<le> c \<and> c < 127 \<and> ?n < 50)" "c \<noteq> 3" "c \<noteq> 8" "c \<noteq> 10" by blast
    then show ?thesis
    proof cases
      case 1
      obtain t where t: "put_input ?n 0 (g_term s) = Some t" "oki_ok W H P (set_term t s)" "term_live (set_term t s)"
        using oki_ok_input [OF s live n n, of 0] by auto
      have g: "shell W H P (\<lambda>s. do { s \<leftarrow> term_execute (input_text t) s; s \<leftarrow> input_line 0 0 0 s; term_render s })"
        by (intro shell_intros shell_input) simp_all
      have "oki_handle_char c s = do { s \<leftarrow> term_execute (input_text t) (set_term t s); s \<leftarrow> input_line 0 0 0 s; term_render s }"
        using 1 w' True f(1) t(1) by (simp add: oki_handle_char_def input_line_def Let_def)
      then show ?thesis using shellD [OF g t(2,3)] by auto
    next
      case 2
      show ?thesis
      proof (cases "0 < ?n")
        case True
        have g: "shell W H P (\<lambda>s. do { s \<leftarrow> input_line (?n - 1) 0 (?n - 1) s; term_render s })"
          using n by (intro shell_intros shell_input) simp_all
        have "oki_handle_char c s = do { s \<leftarrow> input_line (?n - 1) 0 (?n - 1) s; term_render s }"
          using 2 w' \<open>0 \<le> d_focused (desktop s)\<close> f(1) True by (simp add: oki_handle_char_def input_line_def)
        then show ?thesis using shellD [OF g s live] by auto
      qed (use 2 w' True f(1) s in \<open>auto simp: oki_handle_char_def\<close>)
    next
      case 3
      have g: "shell W H P (\<lambda>s. do { s \<leftarrow> input_line 0 0 0 s; s \<leftarrow> println (chars ''^C'') COLOR_RED s; term_render s })"
        by (intro shell_intros shell_input) simp_all
      have "oki_handle_char c s = do { s \<leftarrow> input_line 0 0 0 s; s \<leftarrow> println (chars ''^C'') COLOR_RED s; term_render s }"
        using 3 w' True f(1) by (simp add: oki_handle_char_def input_line_def)
      then show ?thesis using shellD [OF g s live] by auto
    next
      case 4
      obtain t where t: "put_input ?n c (g_term s) = Some t" "oki_ok W H P (set_term t s)" "term_live (set_term t s)"
        using oki_ok_input [OF s live n n, of c] by auto
      have g: "shell W H P (\<lambda>s. do { s \<leftarrow> input_line (?n + 1) 0 (?n + 1) s; term_render s })"
        using 4(1) by (intro shell_intros shell_input) simp_all
      have "oki_handle_char c s = do { s \<leftarrow> input_line (?n + 1) 0 (?n + 1) (set_term t s); term_render s }"
        using 4 w' True f(1) t(1) by (simp add: oki_handle_char_def input_line_def Let_def set_term_def)
      then show ?thesis using shellD [OF g t(2,3)] by auto
    next
      case 5
      then have "oki_handle_char c s = Some s" using w' True f(1) by (auto simp: oki_handle_char_def)
      then show ?thesis using s by simp
    qed
  qed
qed


section \<open>Windows\<close>

lemma find_window_Some: "find_window n i win ws = Some k \<Longrightarrow> i \<le> k \<and> k < i + n \<and> ws ! k = win"
  by (induction n i win ws rule: find_window.induct) (auto split: if_splits)

lemma find_window_None: "find_window n i win ws = None \<Longrightarrow> i \<le> k \<Longrightarrow> k < i + n \<Longrightarrow> ws ! k \<noteq> win"
proof (induction n i win ws rule: find_window.induct)
  case (2 n i win ws)
  then show ?case by (cases "k = i") (auto split: if_splits)
qed simp

lemma shift_down_eq: "j + n < length xs \<Longrightarrow> shift_down n j xs = take j xs @ take n (drop (Suc j) xs) @ drop (j + n) xs"
proof (induction n j xs rule: shift_down.induct)
  case (2 n j xs)
  let ?ys = "xs[j := xs ! (j + 1)]"
  have "shift_down n (j + 1) ?ys = take (j + 1) ?ys @ take n (drop (Suc (j + 1)) ?ys) @ drop (j + 1 + n) ?ys"
    using 2 by simp
  moreover have "take (j + 1) ?ys = take j xs @ [xs ! (j + 1)]" using 2(2) by (simp add: take_Suc_conv_app_nth)
  moreover have "take (Suc n) (drop (Suc j) xs) = xs ! (j + 1) # take n (drop (Suc (Suc j)) xs)"
    using 2(2) by (subst Cons_nth_drop_Suc [symmetric]) simp_all
  ultimately show ?case using 2(2) by simp
qed (simp add: id_take_nth_drop [symmetric])

lemma remove_slot_props:
  assumes d: "desk_ok d" and i: "i < d_window_count d"
  shows "windows_of (remove_slot i d) = take i (windows_of d) @ drop (Suc i) (windows_of d)" "desk_ok (remove_slot i d)"
proof -
  let ?n = "d_window_count d" and ?xs = "d_windows d"
  let ?ys = "shift_down (?n - 1 - i) i ?xs"
  have len: "length ?xs = 32" "?n \<le> 32" using d by (simp_all add: desk_ok_def)
  have eq: "?ys = take i ?xs @ take (?n - 1 - i) (drop (Suc i) ?xs) @ drop (?n - 1) ?xs"
    using i len shift_down_eq [of i "?n - 1 - i" ?xs] by simp
  have w: "windows_of (remove_slot i d) = take (?n - 1) (?ys[?n - 1 := 0])" by (simp add: remove_slot_def windows_of_def Let_def)
  also have "\<dots> = take (?n - 1) ?ys" by simp
  also have "\<dots> = take i ?xs @ take (?n - 1 - i) (drop (Suc i) ?xs)" unfolding eq using i len by simp
  also have "\<dots> = take i (windows_of d) @ drop (Suc i) (windows_of d)"
    using i by (simp add: windows_of_def drop_take min_def)
  finally show "windows_of (remove_slot i d) = take i (windows_of d) @ drop (Suc i) (windows_of d)" .
  show "desk_ok (remove_slot i d)" using d i by (auto simp: remove_slot_def desk_ok_def Let_def)
qed

lemma oki_ok_desk: "oki_ok W H P s \<Longrightarrow> desk_ok (desktop s)"
  by (simp add: oki_ok_def)

text \<open>Releasing the blocks of a window.\<close>

lemma blocks_remove:
  assumes "distinct (blocks (A @ win # B) f)"
  shows "distinct (blocks (A @ B) f)"
    "p \<in> set (blocks (A @ B) f) \<Longrightarrow> p \<in> set (blocks (A @ win # B) f) \<and> p \<noteq> win \<and> (w_surface (f win) \<noteq> 0 \<longrightarrow> p \<noteq> w_surface (f win))"
proof -
  have move: "distinct (A' @ B' @ C' @ D') \<and> (\<forall>p \<in> set (A' @ B' @ C' @ D'). p \<noteq> w \<and> (q \<longrightarrow> p \<noteq> x))"
    if "distinct (A' @ w # B' @ C' @ (if q then [x] else []) @ D')" for A' B' C' D' w x q
    using that by (cases q) auto
  have eq: "blocks (A @ win # B) f = A @ win # B @ filter (\<lambda>p. p \<noteq> 0) (map (\<lambda>w. w_surface (f w)) A) @
      (if w_surface (f win) \<noteq> 0 then [w_surface (f win)] else []) @ filter (\<lambda>p. p \<noteq> 0) (map (\<lambda>w. w_surface (f w)) B)"
    "blocks (A @ B) f = A @ B @ filter (\<lambda>p. p \<noteq> 0) (map (\<lambda>w. w_surface (f w)) A) @ filter (\<lambda>p. p \<noteq> 0) (map (\<lambda>w. w_surface (f w)) B)"
    by (simp_all add: blocks_def)
  note m = move [OF assms [unfolded eq(1)]]
  show "distinct (blocks (A @ B) f)" using m unfolding eq(2) by blast
  show "p \<in> set (blocks (A @ win # B) f) \<and> p \<noteq> win \<and> (w_surface (f win) \<noteq> 0 \<longrightarrow> p \<noteq> w_surface (f win))"
    if "p \<in> set (blocks (A @ B) f)"
  proof -
    have "p \<in> set (blocks (A @ win # B) f)" using that unfolding eq by auto
    then show ?thesis using m that unfolding eq(2) by blast
  qed
qed

lemma heap_free:
  assumes "heap_inv h" "(p, k) \<in> live h"
  shows "\<exists>h'. kfree p h = Some h' \<and> heap_inv h' \<and> (\<forall>q j. q \<noteq> p \<longrightarrow> (q, j) \<in> live h \<longrightarrow> (q, j) \<in> live h')"
proof -
  obtain bs where bs: "heap_repr h bs" using assms(1) by (auto simp: heap_inv_def)
  obtain h' where "kfree p h = Some h'" "heap_repr h' (coalesce_list (free_list (p - HDR) bs))" "live h' = live h - {(p, k)}"
    by (rule kfree_live [OF bs assms(2)])
  then show ?thesis by (auto simp: heap_inv_def)
qed

lemma destroy_ok:
  assumes s: "oki_ok W H P s" and win: "win \<in> set (windows_of (desktop s))"
  shows "\<exists>s' i. oki_destroy_window win s = Some s' \<and> oki_ok W H P s' \<and> i < d_window_count (desktop s) \<and>
    d_windows (desktop s) ! i = win \<and> desktop s' = (remove_slot i (desktop s))\<lparr>d_needs_redraw := True\<rparr> \<and>
    window_at s' = window_at s"
proof -
  let ?d = "desktop s"
  have d: "desk_ok ?d" using s by (rule oki_ok_desk)
  have own: "heap_inv (fs_heap s)" "distinct (blocks (windows_of ?d) (window_at s))"
    "\<And>p. p \<in> set (blocks (windows_of ?d) (window_at s)) \<Longrightarrow> p \<noteq> 0 \<and> (\<exists>k. (p, k) \<in> live (fs_heap s))"
    "\<And>w. w \<in> set (windows_of ?d) \<Longrightarrow> surface_ok s w"
    using s by (simp_all add: oki_ok_def owned_def Let_def)
  have w0: "win \<noteq> 0" "\<exists>k. (win, k) \<in> live (fs_heap s)" using own(3) [of win] win by (simp_all add: blocks_def)
  have "\<exists>k < d_window_count ?d. d_windows ?d ! k = win"
    using win d by (auto simp: windows_of_def desk_ok_def in_set_conv_nth)
  then obtain i where f: "find_window (d_window_count ?d) 0 win (d_windows ?d) = Some i"
    using find_window_None [of "d_window_count ?d" 0 win "d_windows ?d"] by fastforce
  then have i: "i < d_window_count ?d" "d_windows ?d ! i = win" using find_window_Some [OF f] by simp_all
  let ?A = "take i (windows_of ?d)" and ?B = "drop (Suc i) (windows_of ?d)"
  have "windows_of ?d ! i = win" "i < length (windows_of ?d)" using i d by (simp_all add: windows_of_def desk_ok_def)
  then have AB: "windows_of ?d = ?A @ win # ?B" using id_take_nth_drop by metis
  define surf where "surf = w_surface (window_at s win)"
  have surf: "surf = 0 \<or> surf \<noteq> win \<and> (\<exists>k. (surf, k) \<in> live (fs_heap s))"
  proof (cases "surf = 0")
    case False
    then have "surf \<in> set (filter (\<lambda>p. p \<noteq> 0) (map (\<lambda>w. w_surface (window_at s w)) (windows_of ?d)))"
      using win by (auto simp: surf_def)
    moreover from this have "surf \<noteq> win" using own(2) win unfolding blocks_def distinct_append by blast
    ultimately show ?thesis using own(3) [of surf] by (simp add: blocks_def)
  qed simp
  obtain h where h: "(if surf \<noteq> 0 then kfree surf (fs_heap s) else Some (fs_heap s)) = Some h" "heap_inv h"
      "\<And>q j. q \<noteq> surf \<or> surf = 0 \<Longrightarrow> (q, j) \<in> live (fs_heap s) \<Longrightarrow> (q, j) \<in> live h"
  proof (cases "surf = 0")
    case True
    then show ?thesis using that [of "fs_heap s"] own(1) by simp
  next
    case False
    then obtain k where "(surf, k) \<in> live (fs_heap s)" using surf by blast
    then show ?thesis using heap_free [OF own(1)] that False by simp metis
  qed
  have "\<exists>k. (win, k) \<in> live h" using h(3) [of win] w0(2) surf by blast
  then obtain h' where h': "kfree win h = Some h'" "heap_inv h'" "\<And>q j. q \<noteq> win \<Longrightarrow> (q, j) \<in> live h \<Longrightarrow> (q, j) \<in> live h'"
    using heap_free [OF h(2)] by blast
  define s' where "s' = needs_redraw ((upd_desktop (remove_slot i) (s\<lparr>fs_heap := h\<rparr>))\<lparr>fs_heap := h'\<rparr>)"
  have eq: "oki_destroy_window win s = Some s'"
    using w0(1) f h(1) [unfolded surf_def] h'(1)
    by (cases "w_surface (window_at s win) = 0") (simp_all add: oki_destroy_window_def s'_def Let_def upd_desktop_def)
  have parts: "desktop s' = (remove_slot i ?d)\<lparr>d_needs_redraw := True\<rparr>" "window_at s' = window_at s" "fs_heap s' = h'"
      "g_term s' = g_term s" "fb s' = fb s" "pointing s' = pointing s" "typing s' = typing s" "surface_at s' = surface_at s"
      "same_files s' s"
    by (simp_all add: s'_def needs_redraw_def upd_desktop_def same_files_def)
  have ws: "windows_of (desktop s') = ?A @ ?B" using remove_slot_props(1) [OF d i(1)] by (simp add: parts windows_of_def)
  have dis: "distinct (blocks (?A @ win # ?B) (window_at s))" using own(2) AB by metis
  have "owned s'"
  proof -
    have "p \<noteq> 0 \<and> (\<exists>k. (p, k) \<in> live h')" if "p \<in> set (blocks (?A @ ?B) (window_at s))" for p
    proof -
      have "p \<in> set (blocks (windows_of ?d) (window_at s))" "p \<noteq> win" "surf \<noteq> 0 \<longrightarrow> p \<noteq> surf"
        using blocks_remove(2) [OF dis that] AB by (auto simp: surf_def)
      then show ?thesis using own(3) [of p] h(3) h'(3) by blast
    qed
    moreover have "surface_ok s' w" if "w \<in> set (?A @ ?B)" for w
    proof -
      have "w \<in> set (windows_of ?d)" using that by (subst AB) auto
      then show ?thesis using own(4) [of w] by (simp add: surface_ok_def parts)
    qed
    ultimately show ?thesis using h'(2) blocks_remove(1) [OF dis] by (simp add: owned_def Let_def ws parts(2,3))
  qed
  moreover have "desk_ok (desktop s')" using remove_slot_props(2) [OF d i(1)] by (simp add: parts desk_ok_def)
  ultimately have "oki_ok W H P s'" using s same_files_listing [OF parts(9)] by (simp add: oki_ok_def parts(4-7))
  then show ?thesis using eq i parts(1,2) by blast
qed

lemma focus_ok:
  assumes s: "oki_ok W H P s"
  shows "oki_ok W H P (oki_focus_window win s)"
proof (cases "find_window (d_window_count (desktop s)) 0 win (d_windows (desktop s))")
  case (Some i)
  then have i: "i < d_window_count (desktop s)" using find_window_Some [OF Some] by simp
  have "oki_ok W H P (upd_desktop (\<lambda>d. d\<lparr>d_focused := int i\<rparr>) s)"
    using s i oki_ok_desk [OF s] by (intro oki_ok_desktop) (simp_all add: desk_ok_def windows_of_def)
  then show ?thesis using oki_ok_redraw Some by (simp add: oki_focus_window_def)
qed (simp add: oki_focus_window_def s)

lemma click_ok:
  "oki_ok W H P s \<Longrightarrow> n \<le> d_window_count (desktop s) \<Longrightarrow> \<exists>s'. click n x y s = Some s' \<and> oki_ok W H P s'"
proof (induction n)
  case (Suc i)
  let ?win = "d_windows (desktop s) ! i"
  have "?win \<in> set (windows_of (desktop s))"
    using Suc.prems oki_ok_desk [OF Suc.prems(1)]
    by (auto simp: windows_of_def in_set_conv_nth desk_ok_def intro!: exI [of _ i])
  then have "\<exists>s'. oki_destroy_window ?win s = Some s' \<and> oki_ok W H P s'" using destroy_ok [OF Suc.prems(1)] by blast
  moreover have "oki_ok W H P (oki_focus_window ?win
      (upd_window ?win (\<lambda>w. w\<lparr>w_dragging := True, w_drag_offset_x := x - w_x w, w_drag_offset_y := y - w_y w\<rparr>) s))"
    using Suc.prems(1) by (intro focus_ok oki_ok_window) simp_all
  ultimately show ?case using Suc focus_ok [OF Suc.prems(1), of ?win] by (simp add: Let_def)
qed simp

lemma release_ok: "oki_ok W H P s \<Longrightarrow> oki_ok W H P (release_drags n s)"
  by (induction n) (simp_all add: Let_def oki_ok_window)

lemma mouse_ok: "oki_ok W H P s \<Longrightarrow> \<exists>s'. oki_handle_mouse m s = Some s' \<and> oki_ok W H P s'"
proof -
  assume "oki_ok W H P s"
  then have s: "oki_ok W H P (needs_redraw s)" using oki_ok_redraw by blast
  have "oki_ok W H P (upd_window win (\<lambda>w. w\<lparr>w_x := mouse_x m - w_drag_offset_x w, w_y := mouse_y m - w_drag_offset_y w\<rparr>) (needs_redraw s))"
    for win using s by (rule oki_ok_window) simp
  then show ?thesis
    using release_ok [OF s] click_ok [OF s order_refl] by (simp add: oki_handle_mouse_def Let_def split: option.split)
qed

text \<open>Devices that are not part of the desktop.\<close>

lemma oki_ok_device:
  assumes "oki_ok W H P s"
  shows "length (packet m) = 3 \<Longrightarrow> packet_idx m < 3 \<Longrightarrow> oki_ok W H P (s\<lparr>pointing := m\<rparr>)"
    "kb_inv k \<Longrightarrow> oki_ok W H P (s\<lparr>typing := k\<rparr>)" "oki_ok W H P (s\<lparr>tick_count := n\<rparr>)" "canvas W H P b \<Longrightarrow> oki_ok W H P (s\<lparr>fb := b\<rparr>)"
proof -
  have o: "owned (s\<lparr>pointing := m\<rparr>) = owned s" "owned (s\<lparr>typing := k\<rparr>) = owned s" "owned (s\<lparr>tick_count := n\<rparr>) = owned s"
    "owned (s\<lparr>fb := b\<rparr>) = owned s" by (simp_all add: owned_def surface_ok_def)
  have l: "same_files (s\<lparr>pointing := m\<rparr>) s" "same_files (s\<lparr>typing := k\<rparr>) s" "same_files (s\<lparr>tick_count := n\<rparr>) s" "same_files (s\<lparr>fb := b\<rparr>) s"
    by (simp_all add: same_files_def)
  show "length (packet m) = 3 \<Longrightarrow> packet_idx m < 3 \<Longrightarrow> oki_ok W H P (s\<lparr>pointing := m\<rparr>)"
    "kb_inv k \<Longrightarrow> oki_ok W H P (s\<lparr>typing := k\<rparr>)" "oki_ok W H P (s\<lparr>tick_count := n\<rparr>)" "canvas W H P b \<Longrightarrow> oki_ok W H P (s\<lparr>fb := b\<rparr>)"
    using assms o l [THEN same_files_listing] by (simp_all add: oki_ok_def)
qed

lemma mouse_byte_ok:
  assumes s: "oki_ok W H P s"
  shows "\<exists>s'. oki_mouse_byte b s = Some s' \<and> oki_ok W H P s'"
proof -
  have "length (packet (pointing s)) = 3" "packet_idx (pointing s) < 3" using s by (simp_all add: oki_ok_def)
  then obtain n m where m: "mouse_irq_handler b (pointing s) = Some (n, m)" "length (packet m) = 3" "packet_idx m < 3"
    using mouse_irq_shape [of "pointing s" b] by blast
  then show ?thesis using mouse_ok [OF oki_ok_device(1) [OF s m(2,3)], of m] oki_ok_device(1) [OF s m(2,3)]
    by (simp add: oki_mouse_byte_def Let_def)
qed

lemma last_slot_bound: "last_slot n p ws = Some i \<Longrightarrow> i < n"
  by (induction n) (auto split: if_splits)

lemma switch_ok:
  assumes s: "oki_ok W H P s"
  shows "oki_ok W H P (oki_switch_workspace ws s)"
proof (cases "ws < 0 \<or> 4 \<le> ws")
  case False
  let ?d = "desktop s"
  define f where "f = (case last_slot (d_window_count ?d) (visible_on s ws) (d_windows ?d) of None \<Rightarrow> - 1 | Some i \<Rightarrow> int i)"
  have "- 1 \<le> f" "f < int (d_window_count ?d)" using last_slot_bound by (auto simp: f_def split: option.splits)
  then have "oki_ok W H P (upd_desktop (\<lambda>d. d\<lparr>d_workspace := ws, d_focused := f\<rparr>) s)"
    using s False oki_ok_desk [OF s] by (intro oki_ok_desktop) (simp_all add: desk_ok_def windows_of_def)
  then show ?thesis using False oki_ok_redraw by (simp add: oki_switch_workspace_def f_def Let_def)
qed (auto simp: oki_switch_workspace_def s)

end
