(* ===== verification/Oki_Run.thy ===== *)
theory Oki_Run
  imports Oki_Safe
begin

text \<open>
  The compositor, the event loop and the set-up of the desktop: all of it returns, and keeps the desktop
  well formed.
\<close>

section \<open>Composing a frame\<close>

lemma safe_given: "x = Some a \<Longrightarrow> fb_safe W H P (g a) \<Longrightarrow> fb_safe W H P (\<lambda>b. do { w \<leftarrow> x; g w b })"
  by simp

lemma safe_wallpaper [safe_intros]: "fb_safe W H P (draw_wallpaper d)"
  unfolding draw_wallpaper_def by (intro safe_intros)

lemma safe_pill [safe_intros]: "fb_safe W H P (draw_pill_module x y str bg fg)"
  unfolding draw_pill_module_def [abs_def] Let_def by (intro safe_intros)

lemma safe_workspace [safe_intros]: "fb_safe W H P (draw_workspace s i)"
  unfolding draw_workspace_def [abs_def] Let_def by (intro safe_intros)

lemma safe_decoration [safe_intros]: "fb_safe W H P (draw_decoration w focused)"
  unfolding draw_decoration_def [abs_def] Let_def by (intro safe_intros)

lemma slot_window:
  assumes "desk_ok (desktop s)" "0 \<le> i" "i < int (d_window_count (desktop s))"
  shows "\<exists>win. slot s i = Some win \<and> win \<in> set (windows_of (desktop s))"
proof -
  have "nat i < length (windows_of (desktop s))" using assms by (simp add: windows_of_def desk_ok_def nat_less_iff)
  moreover have "windows_of (desktop s) ! nat i = d_windows (desktop s) ! nat i"
    using assms by (simp add: windows_of_def nat_less_iff)
  ultimately show ?thesis using assms nth_mem by (fastforce simp: slot_def desk_ok_def)
qed

lemma safe_title [safe_intros]: "desk_ok (desktop s) \<Longrightarrow> fb_safe W H P (draw_title s)"
proof (cases "0 \<le> d_focused (desktop s) \<and> d_focused (desktop s) < int (d_window_count (desktop s))")
  case True
  moreover assume "desk_ok (desktop s)"
  ultimately obtain win where "slot s (d_focused (desktop s)) = Some win" using slot_window by blast
  with True show ?thesis by (cases "win = 0") (simp_all add: draw_title_def [abs_def] Let_def safe_intros)
next
  case False
  then have "draw_title s = Some" by (intro ext) (simp only: draw_title_def Let_def if_False)
  then show ?thesis by (simp add: safe_Some)
qed

lemma safe_panel [safe_intros]: "desk_ok (desktop s) \<Longrightarrow> fb_safe W H P (draw_panel s)"
  unfolding draw_panel_def [abs_def] Let_def by (intro safe_intros)

text \<open>The surface is read inside its bounds.\<close>

lemma safe_blit:
  assumes "0 \<le> w_surface_w w" "0 \<le> w_surface_h w" "w_surface_w w * w_surface_h w \<le> int (length pixels)"
  shows "fb_safe W H P (blit_surface w pixels x y)"
proof -
  have "fb_safe W H P (\<lambda>b. if y + sy < 0 \<or> fb_height b \<le> of_int (y + sy) then Some b
      else if x + sx < 0 \<or> fb_width b \<le> of_int (x + sx) then Some b
      else if 0 \<le> sy * w_surface_w w + sx \<and> sy * w_surface_w w + sx < int (length pixels)
      then fb_store (unat (of_int (y + sy) * pitch4 b + of_int (x + sx))) (pixels ! nat (sy * w_surface_w w + sx)) b else None)"
    if "0 \<le> sy" "sy < min (w_surface_h w) (w_h w)" "0 \<le> sx" "sx < min (w_surface_w w) (w_w w)" for sx sy
  proof (rule fb_safeI)
    fix b assume b: "canvas W H P b"
    have "0 \<le> sy * w_surface_w w + sx \<and> sy * w_surface_w w + sx < int (length pixels)"
      using cell_index [of sx "w_surface_w w" sy "w_surface_h w"] that assms(3) by simp
    then show "\<exists>b'. (if y + sy < 0 \<or> fb_height b \<le> of_int (y + sy) then Some b
      else if x + sx < 0 \<or> fb_width b \<le> of_int (x + sx) then Some b
      else if 0 \<le> sy * w_surface_w w + sx \<and> sy * w_surface_w w + sx < int (length pixels)
      then fb_store (unat (of_int (y + sy) * pitch4 b + of_int (x + sx))) (pixels ! nat (sy * w_surface_w w + sx)) b else None) = Some b' \<and> canvas W H P b'"
      using store_safe [OF b, of "of_int (x + sx)" "of_int (y + sy)"] b by (simp add: not_le del: of_int_add)
  qed
  then show ?thesis unfolding blit_surface_def Let_def by (intro safe_range)
qed

lemma safe_window:
  assumes "desk_ok (desktop s)" "surface_ok s win"
  shows "fb_safe W H P (draw_window s win)"
proof -
  obtain f where f: "(if 0 \<le> d_focused (desktop s) then slot s (d_focused (desktop s)) else Some 0) = Some f"
    using slot_window [OF assms(1), of "d_focused (desktop s)"] assms(1)
    by (cases "0 \<le> d_focused (desktop s)") (auto simp: desk_ok_def)
  have blit: "fb_safe W H P (\<lambda>b. if w_surface (window_at s win) = 0 then Some b
      else blit_surface (window_at s win) (surface_at s (w_surface (window_at s win))) x y b)" for x y
    using safe_blit [of "window_at s win" "surface_at s (w_surface (window_at s win))"] assms(2)
    by (cases "w_surface (window_at s win) = 0") (simp_all add: surface_ok_def Let_def safe_Some)
  show ?thesis unfolding draw_window_def [abs_def] Let_def
    by (intro safe_if safe_given [OF f] safe_bind safe_fill_rect_alpha safe_fill_rounded safe_decoration safe_Some blit)
qed

lemma safe_windows:
  assumes d: "desk_ok (desktop s)" and w: "\<And>win. win \<in> set (windows_of (desktop s)) \<Longrightarrow> surface_ok s win"
  shows "fb_safe W H P (draw_windows s)"
proof -
  have one: "fb_safe W H P (\<lambda>b. do { win \<leftarrow> slot s i; draw_window s win b })"
    if i: "0 \<le> i" "i < int (d_window_count (desktop s))" for i
  proof -
    obtain win where win: "slot s i = Some win" "win \<in> set (windows_of (desktop s))" using slot_window [OF d i] by blast
    show ?thesis by (rule safe_given [where g = "draw_window s", OF win(1) safe_window [OF d w [OF win(2)]]])
  qed
  have focus: "fb_safe W H P (\<lambda>b. if 0 \<le> d_focused (desktop s)
      then do { win \<leftarrow> slot s (d_focused (desktop s)); draw_window s win b } else Some b)"
    using one d by (cases "0 \<le> d_focused (desktop s)") (simp_all add: desk_ok_def safe_Some)
  show ?thesis unfolding draw_windows_def [abs_def] by (rule safe_bind [OF _ focus]) (intro safe_range safe_if safe_Some one)
qed

lemma compose_ok:
  assumes s: "oki_ok W H P s"
  shows "\<exists>b. oki_compose s = Some (s\<lparr>fb := b\<rparr>) \<and> oki_ok W H P (s\<lparr>fb := b\<rparr>)"
proof -
  have d: "desk_ok (desktop s)" and w: "\<And>win. win \<in> set (windows_of (desktop s)) \<Longrightarrow> surface_ok s win"
    and c: "canvas W H P (fb s)"
    using s by (simp_all add: oki_ok_def owned_def Let_def)
  have "fb_safe W H P (\<lambda>b. do { b \<leftarrow> draw_wallpaper (desktop s) b; b \<leftarrow> draw_windows s b; b \<leftarrow> draw_panel s b;
      b \<leftarrow> fb_draw_cursor (mouse_x (pointing s)) (mouse_y (pointing s)) b; fb_swap b })"
    by (intro safe_bind safe_wallpaper safe_windows [OF d w] safe_panel d safe_cursor safe_swap)
  from fb_safeD [OF this c] obtain b where b: "do { b \<leftarrow> draw_wallpaper (desktop s) (fb s); b \<leftarrow> draw_windows s b; b \<leftarrow> draw_panel s b;
      b \<leftarrow> fb_draw_cursor (mouse_x (pointing s)) (mouse_y (pointing s)) b; fb_swap b } = Some b" "canvas W H P b" by blast
  then have "oki_compose s = Some (s\<lparr>fb := b\<rparr>)" by (auto simp: oki_compose_def bind_eq_Some_conv)
  then show ?thesis using oki_ok_device(4) [OF s b(2)] by blast
qed

section \<open>The event loop\<close>

lemma char_ok: "oki_ok W H P s \<Longrightarrow> \<exists>s'. (if c \<noteq> 0 then oki_handle_char c s else Some s) = Some s' \<and> oki_ok W H P s'"
  using shell_handle_char by auto

lemma pass_ok:
  assumes s: "oki_ok W H P s"
  shows "\<exists>l' s'. oki_pass l s = Some (l', s') \<and> oki_ok W H P s'"
proof -
  obtain sc kb where sc: "keyboard_get_scancode (typing s) = (sc, kb)" by (cases "keyboard_get_scancode (typing s)")
  then have "kb_inv kb" using sc_queue.pop_inv [of "typing s"] s by (simp add: oki_ok_def)
  define t where "t = (if sc \<noteq> 0 then oki_handle_key sc (s\<lparr>typing := kb\<rparr>) else s\<lparr>typing := kb\<rparr>)"
  have t: "oki_ok W H P t"
    using oki_ok_device(2) [OF s \<open>kb_inv kb\<close>] switch_ok by (simp add: t_def oki_handle_key_def)
  obtain c kb' where c: "keyboard_get_char (typing t) = (c, kb')" by (cases "keyboard_get_char (typing t)")
  then have "kb_inv kb'" using kb_queue.pop_inv [of "typing t"] t by (simp add: oki_ok_def)
  then obtain u where u: "(if c \<noteq> 0 then oki_handle_char c (t\<lparr>typing := kb'\<rparr>) else Some (t\<lparr>typing := kb'\<rparr>)) = Some u" "oki_ok W H P u"
    using char_ok [OF oki_ok_device(2) [OF t]] by blast
  obtain b where b: "oki_compose u = Some (u\<lparr>fb := b\<rparr>)" "oki_ok W H P (u\<lparr>fb := b\<rparr>)" using compose_ok [OF u(2)] by blast
  have "oki_ok W H P (upd_desktop (\<lambda>d. d\<lparr>d_needs_redraw := False\<rparr>) (u\<lparr>fb := b\<rparr>))"
    using b(2) oki_ok_desk [OF b(2)] by (intro oki_ok_desktop) (simp_all add: windows_of_def desk_ok_def)
  moreover have "oki_pass l s = (let now = tick_count u in if d_needs_redraw (desktop u) \<and> 33 \<le> now - l
      then do { s \<leftarrow> oki_compose u; Some (now, upd_desktop (\<lambda>d. d\<lparr>d_needs_redraw := False\<rparr>) s) } else Some (l, u))"
    unfolding oki_pass_def Let_def sc case_prod_conv t_def [symmetric] c u(1) bind.simps by (rule refl)
  ultimately show ?thesis using b u(2) by (simp add: Let_def)
qed

lemma event_ok: "oki_ok W H P s \<Longrightarrow> \<exists>l' s'. oki_event e (l, s) = Some (l', s') \<and> oki_ok W H P s'"
proof (cases e)
  case (Mouse_byte b)
  assume "oki_ok W H P s"
  then show ?thesis using mouse_byte_ok [of W H P s b] by (auto simp: Mouse_byte)
next
  case (Key sc)
  assume s: "oki_ok W H P s"
  then have "kb_inv (keyboard_callback sc (typing s))" using callback_refines by (auto simp: oki_ok_def)
  then show ?thesis using oki_ok_device(2) [OF s] by (simp add: Key)
qed (use oki_ok_device(3) pass_ok in \<open>auto\<close>)

lemma events_ok: "oki_ok W H P s \<Longrightarrow> \<exists>l' s'. oki_events es (l, s) = Some (l', s') \<and> oki_ok W H P s'"
proof (induction es arbitrary: l s)
  case (Cons e es)
  obtain l' s' where "oki_event e (l, s) = Some (l', s')" "oki_ok W H P s'" using event_ok [OF Cons.prems] by blast
  then show ?case using Cons.IH by simp
qed simp


section \<open>New windows and new surfaces\<close>

lemma heap_alloc:
  assumes "heap_inv h"
  shows "\<exists>a h'. kmalloc sz h = Some (a, h') \<and> heap_inv h' \<and> (\<forall>q j. (q, j) \<in> live h \<longrightarrow> (q, j) \<in> live h') \<and>
    (a \<noteq> 0 \<longrightarrow> (\<exists>k. (a, k) \<in> live h') \<and> (\<forall>k. (a, k) \<notin> live h))"
proof -
  obtain a h' where k: "kmalloc sz h = Some (a, h')" "heap_inv h'" using kheap.malloc_total [OF assms] by blast
  have "live h \<subseteq> live h'"
    using kheap.malloc_null [OF assms, of sz h'] kheap.malloc_live [OF assms k(1)] k(1) by (cases "a = 0") auto
  moreover have "(\<exists>k. (a, k) \<in> live h') \<and> (\<forall>k. (a, k) \<notin> live h)" if "a \<noteq> 0"
    using kheap.malloc_fresh [OF assms k(1) that] by fastforce
  ultimately show ?thesis using k by blast
qed

lemma fill_ok: "0 \<le> i \<Longrightarrow> n \<le> int (length (surface_at s p)) \<Longrightarrow>
  \<exists>s'. for_range i n (\<lambda>i s. surface_store p i c s) s = Some s' \<and> redrawn s s'"
proof (induction "nat (n - i)" arbitrary: i s)
  case 0
  then show ?case by (subst for_range.simps) simp
next
  case (Suc m)
  then have i: "i < n" by simp
  then obtain t where t: "surface_store p i c s = Some t" "redrawn s t" using store_redrawn [of i s p c] Suc.prems by auto
  have "m = nat (n - (i + 1))" using Suc.hyps(2) i by linarith
  from Suc.hyps(1) [OF this, of t] obtain u where "for_range (i + 1) n (\<lambda>i s. surface_store p i c s) t = Some u" "redrawn t u"
    using Suc.prems t(2) by (auto simp: redrawn_window)
  then show ?case using t i redrawn_trans by (subst for_range.simps) auto
qed

lemma unat_of_int_u32: "0 \<le> z \<Longrightarrow> z < 4294967296 \<Longrightarrow> unat (of_int z :: u32) = nat z"
  by (simp add: unsigned_of_int take_bit_int_eq_self)

text \<open>A window of the desktop that has no surface gets one.\<close>

definition surface_size :: "int \<Rightarrow> int \<Rightarrow> bool" where
  "surface_size w h \<longleftrightarrow> 0 \<le> w \<and> 0 \<le> h \<and> w * h < 1073741824"

lemma blocks_surface:
  assumes "win \<in> set ws" "distinct ws" "w_surface (f win) = 0" "p \<noteq> 0"
  shows "distinct (blocks ws f) \<Longrightarrow> p \<notin> set (blocks ws f) \<Longrightarrow> distinct (blocks ws (f(win := (f win)\<lparr>w_surface := p\<rparr>)))"
    "set (blocks ws (f(win := (f win)\<lparr>w_surface := p\<rparr>))) = insert p (set (blocks ws f))"
proof -
  obtain A B where ws: "ws = A @ win # B" using split_list [OF assms(1)] by blast
  then have nin: "win \<notin> set A" "win \<notin> set B" using assms(2) by auto
  let ?g = "f(win := (f win)\<lparr>w_surface := p\<rparr>)"
  have same: "map (\<lambda>w. w_surface (?g w)) A = map (\<lambda>w. w_surface (f w)) A" "map (\<lambda>w. w_surface (?g w)) B = map (\<lambda>w. w_surface (f w)) B"
    using nin by (auto simp: fun_upd_def)
  have eq: "blocks ws f = ws @ filter (\<lambda>p. p \<noteq> 0) (map (\<lambda>w. w_surface (f w)) A) @ filter (\<lambda>p. p \<noteq> 0) (map (\<lambda>w. w_surface (f w)) B)"
    "blocks ws ?g = ws @ filter (\<lambda>p. p \<noteq> 0) (map (\<lambda>w. w_surface (f w)) A) @ p # filter (\<lambda>p. p \<noteq> 0) (map (\<lambda>w. w_surface (f w)) B)"
    using assms(3,4) by (simp_all add: blocks_def ws same [unfolded fun_upd_def])
  show "distinct (blocks ws f) \<Longrightarrow> p \<notin> set (blocks ws f) \<Longrightarrow> distinct (blocks ws ?g)"
    unfolding eq distinct_append distinct.simps set_append list.set by blast
  show "set (blocks ws ?g) = insert p (set (blocks ws f))" unfolding eq set_append list.set by blast
qed

text \<open>The blocks of a list of windows, on the desktop or not yet.\<close>

definition owned_by :: "u32 list \<Rightarrow> oki \<Rightarrow> bool" where
  "owned_by ws s \<longleftrightarrow> heap_inv (fs_heap s) \<and> distinct (blocks ws (window_at s)) \<and>
     (\<forall>p \<in> set (blocks ws (window_at s)). p \<noteq> 0 \<and> (\<exists>k. (p, k) \<in> live (fs_heap s))) \<and> (\<forall>w \<in> set ws. surface_ok s w)"

lemma owned_windows: "owned s \<longleftrightarrow> owned_by (windows_of (desktop s)) s"
  by (simp add: owned_def owned_by_def Let_def)

lemma redrawn_owned:
  assumes "redrawn s t" "owned_by ws s"
  shows "owned_by ws t"
proof -
  obtain f g where t: "t = s\<lparr>surface_at := f, window_at := g\<rparr>" using assms(1) unfolding redrawn_def by blast
  have "blocks ws (window_at t) = blocks ws (window_at s)" by (simp add: blocks_def redrawn_window [OF assms(1)])
  moreover have "fs_heap t = fs_heap s" by (simp add: t)
  ultimately show ?thesis using assms(2) by (simp add: owned_by_def redrawn_surface_ok [OF assms(1)])
qed

lemma new_surface_owned:
  assumes s: "owned_by ws s" and win: "win \<in> set ws" "w_surface (window_at s win) = 0"
    and sz: "w_surface_w (window_at s win) = w" "w_surface_h (window_at s win) = h" "surface_size w h"
  shows "\<exists>hp f g. new_surface win w h s = Some (s\<lparr>fs_heap := hp, window_at := f, surface_at := g\<rparr>) \<and>
    owned_by ws (s\<lparr>fs_heap := hp, window_at := f, surface_at := g\<rparr>)"
proof -
  have own: "heap_inv (fs_heap s)" "distinct (blocks ws (window_at s))"
    "\<And>p. p \<in> set (blocks ws (window_at s)) \<Longrightarrow> p \<noteq> 0 \<and> (\<exists>k. (p, k) \<in> live (fs_heap s))"
    "\<And>w. w \<in> set ws \<Longrightarrow> surface_ok s w"
    using s by (simp_all add: owned_by_def)
  have dw: "distinct ws" using own(2) by (simp add: blocks_def)
  obtain p hp where k: "kmalloc (of_int (w * h * 4)) (fs_heap s) = Some (p, hp)" "heap_inv hp"
      "\<And>q j. (q, j) \<in> live (fs_heap s) \<Longrightarrow> (q, j) \<in> live hp"
      "p \<noteq> 0 \<Longrightarrow> (\<exists>k. (p, k) \<in> live hp) \<and> (\<forall>k. (p, k) \<notin> live (fs_heap s))"
    using heap_alloc [OF own(1)] by metis
  define f where "f = (window_at s)(win := (window_at s win)\<lparr>w_surface := p\<rparr>)"
  define g where "g = (if p = 0 then surface_at s else (surface_at s)(p := replicate (unat (of_int (w * h * 4) :: u32) div 4) 0))"
  let ?t = "s\<lparr>fs_heap := hp, window_at := f, surface_at := g\<rparr>"
  have len: "int (length (g p)) = w * h" if "p \<noteq> 0"
  proof -
    have wh: "0 \<le> w * h" "w * h < 1073741824" using sz(3) by (simp_all add: surface_size_def)
    then have "0 \<le> w * h * 4" "w * h * 4 < 4294967296" by linarith+
    then have "unat (of_int (w * h * 4) :: u32) = nat (w * h * 4)" by (simp only: unat_of_int_u32)
    then show ?thesis using that wh by (simp add: g_def nat_mult_distrib mult.assoc)
  qed
  have fresh: "p \<notin> set (blocks ws (window_at s))" if "p \<noteq> 0" using k(4) [OF that] own(3) by blast
  have f0: "f = window_at s" if "p = 0"
    using that win(2) unfolding f_def by (metis fun_upd_triv oki_window.surjective oki_window.update_convs(9))
  have b: "distinct (blocks ws f)" "set (blocks ws f) \<subseteq> insert p (set (blocks ws (window_at s)))"
    using blocks_surface [of win ws "window_at s" p, OF win(1) dw win(2)] own(2) fresh f0 unfolding f_def by (cases "p = 0", auto)+
  have "surface_ok ?t v" if v: "v \<in> set ws" for v
  proof (cases "v = win \<and> p \<noteq> 0")
    case True
    then show ?thesis using sz len by (simp add: surface_ok_def Let_def f_def surface_size_def)
  next
    case False
    have "w_surface (window_at s v) \<noteq> p" if "w_surface (window_at s v) \<noteq> 0"
    proof
      assume p: "w_surface (window_at s v) = p"
      then have "p \<in> set (blocks ws (window_at s))" using v that by (auto simp: blocks_def)
      then show False using fresh p that by simp
    qed
    then show ?thesis using own(4) [OF v] False f0 by (cases "v = win") (auto simp: surface_ok_def Let_def f_def g_def)
  qed
  moreover have "q \<noteq> 0 \<and> (\<exists>k. (q, k) \<in> live hp)" if q: "q \<in> set (blocks ws f)" for q
  proof (cases "p = 0")
    case True
    then show ?thesis using q own(3) [of q] k(3) f0 by auto
  next
    case False
    then show ?thesis using q own(3) [of q] k(3,4) b(2) by blast
  qed
  ultimately have t: "owned_by ws ?t" using b(1) k(2) by (simp add: owned_by_def)
  show ?thesis
  proof (cases "p = 0")
    case True
    then have "new_surface win w h s = Some ?t" using k(1) by (simp add: new_surface_def f_def g_def upd_window_def Let_def)
    then show ?thesis using t by blast
  next
    case False
    obtain u where u: "for_range 0 (w * h) (\<lambda>i s. surface_store p i COLOR_BG s) ?t = Some u" "redrawn ?t u"
      using fill_ok [of 0 "w * h" ?t p COLOR_BG] len [OF False] by auto
    obtain g' f' where "u = ?t\<lparr>surface_at := g', window_at := f'\<rparr>" using u(2) unfolding redrawn_def by blast
    then have eq: "u = s\<lparr>fs_heap := hp, window_at := f', surface_at := g'\<rparr>" by simp
    have "new_surface win w h s = Some u"
      using k(1) False u(1) by (simp add: new_surface_def f_def g_def upd_window_def Let_def)
    moreover have "owned_by ws u" by (rule redrawn_owned [OF u(2) t])
    ultimately show ?thesis unfolding eq by blast
  qed
qed

text \<open>What a new set of blocks and windows takes to be well formed.\<close>

lemma oki_ok_owned:
  assumes "oki_ok W H P s" "desk_ok d" "owned (s\<lparr>fs_heap := hp, window_at := f, surface_at := g, desktop := d\<rparr>)"
  shows "oki_ok W H P (s\<lparr>fs_heap := hp, window_at := f, surface_at := g, desktop := d\<rparr>)"
proof -
  have "same_files (s\<lparr>fs_heap := hp, window_at := f, surface_at := g, desktop := d\<rparr>) s" by (simp add: same_files_def)
  from same_files_listing [OF this] show ?thesis using assms by (simp add: oki_ok_def)
qed

section \<open>The calls of the desktop's interface\<close>

datatype desktop_call = Create_window "u8 list" int int int int u32 | Destroy_window u32 | Focus_window u32
  | Move_window u32 int int | Resize_window u32 int int | Switch_workspace int | Compose

fun oki_call :: "desktop_call \<Rightarrow> oki \<Rightarrow> oki option" where
  "oki_call (Create_window title x y w h flags) s = map_option snd (oki_create_window title x y w h flags s)"
| "oki_call (Destroy_window win) s = oki_destroy_window win s"
| "oki_call (Focus_window win) s = Some (oki_focus_window win s)"
| "oki_call (Move_window win x y) s = Some (oki_move_window win x y s)"
| "oki_call (Resize_window win w h) s = oki_resize_window win w h s"
| "oki_call (Switch_workspace ws) s = Some (oki_switch_workspace ws s)"
| "oki_call Compose s = oki_compose s"

fun oki_call_ok :: "desktop_call \<Rightarrow> oki \<Rightarrow> bool" where
  "oki_call_ok (Create_window title x y w h flags) s = surface_size w h"
| "oki_call_ok (Destroy_window win) s = (win = 0 \<or> win \<in> set (windows_of (desktop s)))"
| "oki_call_ok (Resize_window win w h) s = (win = 0 \<or> win \<in> set (windows_of (desktop s)) \<and> surface_size w h)"
| "oki_call_ok _ s = True"

lemma windows_push:
  assumes "desk_ok d" "d_window_count d < 32"
  shows "windows_of (d\<lparr>d_windows := (d_windows d)[d_window_count d := win], d_focused := int (d_window_count d),
      d_window_count := d_window_count d + 1, d_needs_redraw := True\<rparr>) = windows_of d @ [win]"
    "desk_ok (d\<lparr>d_windows := (d_windows d)[d_window_count d := win], d_focused := int (d_window_count d),
      d_window_count := d_window_count d + 1, d_needs_redraw := True\<rparr>)"
  using assms by (simp_all add: windows_of_def desk_ok_def take_Suc_conv_app_nth)

lemma create_ok:
  assumes s: "oki_ok W H P s" and sz: "surface_size w h"
  shows "\<exists>win s'. oki_create_window title x y w h flags s = Some (win, s') \<and> oki_ok W H P s' \<and> g_term s' = g_term s \<and>
    (win \<noteq> 0 \<longrightarrow> win \<in> set (windows_of (desktop s')))"
proof (cases "32 \<le> d_window_count (desktop s)")
  case True
  then show ?thesis using s by (simp add: oki_create_window_def)
next
  case False
  let ?d = "desktop s"
  have d: "desk_ok ?d" "d_window_count ?d < 32" using s False by (simp_all add: oki_ok_def)
  have own: "heap_inv (fs_heap s)" "distinct (blocks (windows_of ?d) (window_at s))"
    "\<And>p. p \<in> set (blocks (windows_of ?d) (window_at s)) \<Longrightarrow> p \<noteq> 0 \<and> (\<exists>k. (p, k) \<in> live (fs_heap s))"
    "\<And>w. w \<in> set (windows_of ?d) \<Longrightarrow> surface_ok s w"
    using s by (simp_all add: oki_ok_def owned_def Let_def)
  obtain win hp where k: "kmalloc SIZEOF_WINDOW (fs_heap s) = Some (win, hp)" "heap_inv hp"
      "\<And>q j. (q, j) \<in> live (fs_heap s) \<Longrightarrow> (q, j) \<in> live hp"
      "win \<noteq> 0 \<Longrightarrow> (\<exists>k. (win, k) \<in> live hp) \<and> (\<forall>k. (win, k) \<notin> live (fs_heap s))"
    using heap_alloc [OF own(1)] by metis
  show ?thesis
  proof (cases "win = 0")
    case True
    have "p \<noteq> 0 \<and> (\<exists>k. (p, k) \<in> live hp)" if "p \<in> set (blocks (windows_of ?d) (window_at s))" for p
      using own(3) [OF that] k(3) by blast
    moreover have "surface_ok (s\<lparr>fs_heap := hp\<rparr>) q" if "q \<in> set (windows_of ?d)" for q
      using own(4) [OF that] by (simp add: surface_ok_def)
    ultimately have "owned (s\<lparr>fs_heap := hp, window_at := window_at s, surface_at := surface_at s, desktop := ?d\<rparr>)"
      using own(2) k(2) by (simp add: owned_def)
    then have "oki_ok W H P (s\<lparr>fs_heap := hp\<rparr>)" using oki_ok_owned [OF s d(1), where hp = hp and f = "window_at s" and g = "surface_at s"] by simp
    then show ?thesis using True k(1) False by (simp add: oki_create_window_def Let_def)
  next
    case w0: False
    define v where "v = \<lparr>w_id = int (d_window_count ?d), w_title = take 63 title,
                 w_x = x, w_y = y, w_w = w, w_h = h, w_flags = flags OR OKI_WIN_VISIBLE,
                 w_workspace = d_workspace ?d, w_surface = 0, w_surface_w = w, w_surface_h = h,
                 w_border_color = COLOR_MAUVE, w_titlebar_color = COLOR_TITLEBAR, w_title_text_color = COLOR_TEXT,
                 w_dirty = True, w_dragging = False, w_drag_offset_x = 0, w_drag_offset_y = 0\<rparr>"
    let ?t = "s\<lparr>fs_heap := hp, window_at := (window_at s)(win := v)\<rparr>" and ?ws = "windows_of ?d @ [win]"
    have fresh: "win \<notin> set (blocks (windows_of ?d) (window_at s))" using k(4) [OF w0] own(3) by blast
    then have nin: "win \<notin> set (windows_of ?d)" by (simp add: blocks_def)
    have same: "map (\<lambda>w. w_surface (((window_at s)(win := v)) w)) (windows_of ?d) = map (\<lambda>w. w_surface (window_at s w)) (windows_of ?d)"
      using nin by (auto simp: fun_upd_def)
    have b: "blocks ?ws ((window_at s)(win := v)) =
        windows_of ?d @ win # filter (\<lambda>p. p \<noteq> 0) (map (\<lambda>w. w_surface (window_at s w)) (windows_of ?d))"
      by (simp add: blocks_def same [unfolded fun_upd_def]) (simp add: v_def)
    have "distinct (blocks ?ws ((window_at s)(win := v)))"
      using own(2) fresh unfolding b unfolding blocks_def by auto
    moreover have bs: "set (blocks ?ws ((window_at s)(win := v))) = insert win (set (blocks (windows_of ?d) (window_at s)))"
      unfolding b unfolding blocks_def by auto
    moreover have "p \<noteq> 0 \<and> (\<exists>k. (p, k) \<in> live hp)" if "p \<in> set (blocks ?ws ((window_at s)(win := v)))" for p
      using that own(3) [of p] k(3,4) w0 unfolding bs by blast
    moreover have "surface_ok ?t q" if "q \<in> set ?ws" for q
      using that own(4) [of q] sz by (cases "q = win") (auto simp: surface_ok_def Let_def v_def surface_size_def)
    ultimately have "owned_by ?ws ?t" using k(2) by (simp add: owned_by_def)
    moreover have "window_at ?t win = v" by simp
    ultimately obtain hp' f g where n: "new_surface win w h ?t = Some (?t\<lparr>fs_heap := hp', window_at := f, surface_at := g\<rparr>)"
        "owned_by ?ws (?t\<lparr>fs_heap := hp', window_at := f, surface_at := g\<rparr>)"
      using new_surface_owned [of ?ws ?t win w h] sz by (auto simp: v_def)
    let ?d' = "?d\<lparr>d_windows := (d_windows ?d)[d_window_count ?d := win], d_focused := int (d_window_count ?d),
      d_window_count := d_window_count ?d + 1, d_needs_redraw := True\<rparr>"
    have "owned (s\<lparr>fs_heap := hp', window_at := f, surface_at := g, desktop := ?d'\<rparr>)"
      using n(2) windows_push(1) [OF d, of win] by (simp add: owned_windows) (simp add: owned_by_def surface_ok_def)
    then have ok: "oki_ok W H P (s\<lparr>fs_heap := hp', window_at := f, surface_at := g, desktop := ?d'\<rparr>)"
      by (rule oki_ok_owned [OF s windows_push(2) [OF d]])
    have "oki_create_window title x y w h flags s =
        Some (win, s\<lparr>fs_heap := hp', window_at := f, surface_at := g, desktop := ?d'\<rparr>)"
      using k(1) w0 n(1) False by (simp add: oki_create_window_def Let_def upd_window_def upd_desktop_def v_def)
    then show ?thesis using ok windows_push(1) [OF d, of win] by simp
  qed
qed

text \<open>A surface is freed and replaced.\<close>

lemma resize_ok:
  assumes s: "oki_ok W H P s" and win: "win \<in> set (windows_of (desktop s))" and sz: "surface_size w h"
  shows "\<exists>s'. oki_resize_window win w h s = Some s' \<and> oki_ok W H P s'"
proof -
  let ?d = "desktop s" and ?ws = "windows_of (desktop s)"
  let ?surf = "w_surface (window_at s win)"
  have own: "heap_inv (fs_heap s)" "distinct (blocks ?ws (window_at s))"
    "\<And>p. p \<in> set (blocks ?ws (window_at s)) \<Longrightarrow> p \<noteq> 0 \<and> (\<exists>k. (p, k) \<in> live (fs_heap s))"
    "\<And>w. w \<in> set ?ws \<Longrightarrow> surface_ok s w"
    using s by (simp_all add: oki_ok_def owned_def Let_def)
  have w0: "win \<noteq> 0" using own(3) [of win] win by (simp add: blocks_def)
  obtain h0 where h0: "(if ?surf \<noteq> 0 then kfree ?surf (fs_heap s) else Some (fs_heap s)) = Some h0" "heap_inv h0"
      "\<And>q j. q \<noteq> ?surf \<or> ?surf = 0 \<Longrightarrow> (q, j) \<in> live (fs_heap s) \<Longrightarrow> (q, j) \<in> live h0"
  proof (cases "?surf = 0")
    case True
    then show ?thesis using that [of "fs_heap s"] own(1) by simp
  next
    case False
    then have "?surf \<in> set (blocks ?ws (window_at s))" using win by (auto simp: blocks_def)
    then obtain k where "(?surf, k) \<in> live (fs_heap s)" using own(3) by blast
    then show ?thesis using heap_free [OF own(1)] that False by simp metis
  qed
  define f where "f = (window_at s)(win := (window_at s win)\<lparr>w_w := w, w_h := h, w_surface_w := w, w_surface_h := h\<rparr>)"
  define f0 where "f0 = (window_at s)(win := (window_at s win)\<lparr>w_w := w, w_h := h, w_surface_w := w, w_surface_h := h, w_surface := 0\<rparr>)"
  let ?t = "s\<lparr>fs_heap := h0, window_at := f\<rparr>" and ?clean = "s\<lparr>fs_heap := h0, window_at := f0\<rparr>"
  obtain A B where AB: "?ws = A @ win # B" using split_list [OF win] by blast
  have dis: "distinct (blocks (A @ win # B) (window_at s))" using own(2) unfolding AB .
  then have nin: "win \<notin> set A" "win \<notin> set B" by (simp_all add: blocks_def)
  have same: "map (\<lambda>w. w_surface (f0 w)) A = map (\<lambda>w. w_surface (window_at s w)) A"
    "map (\<lambda>w. w_surface (f0 w)) B = map (\<lambda>w. w_surface (window_at s w)) B"
    using nin by (auto simp: f0_def fun_upd_def)
  have bs: "blocks (A @ win # B) f0 = A @ win # B @ filter (\<lambda>p. p \<noteq> 0) (map (\<lambda>w. w_surface (window_at s w)) A) @
      filter (\<lambda>p. p \<noteq> 0) (map (\<lambda>w. w_surface (window_at s w)) B)"
    by (simp add: blocks_def same) (simp add: f0_def)
  have bo: "blocks (A @ win # B) (window_at s) = A @ win # B @ filter (\<lambda>p. p \<noteq> 0) (map (\<lambda>w. w_surface (window_at s w)) A) @
      (if ?surf \<noteq> 0 then [?surf] else []) @ filter (\<lambda>p. p \<noteq> 0) (map (\<lambda>w. w_surface (window_at s w)) B)"
    by (simp add: blocks_def)
  have drop: "distinct (A' @ w # B' @ C' @ D') \<and> (\<forall>p \<in> set (A' @ w # B' @ C' @ D'). q \<longrightarrow> p \<noteq> x)"
    if "distinct (A' @ w # B' @ C' @ (if q then [x] else []) @ D')" for A' B' C' D' w x q
    using that by (cases q) auto
  note m = drop [OF dis [unfolded bo]]
  have d0: "distinct (blocks ?ws f0)" using m unfolding AB bs by (rule conjunct1)
  have d1: "p \<in> set (blocks ?ws (window_at s)) \<and> (?surf \<noteq> 0 \<longrightarrow> p \<noteq> ?surf)" if p: "p \<in> set (blocks ?ws f0)" for p
  proof
    show "p \<in> set (blocks ?ws (window_at s))" using p unfolding AB bs bo set_append list.set by blast
    show "?surf \<noteq> 0 \<longrightarrow> p \<noteq> ?surf" using m p unfolding AB bs by blast
  qed
  have "p \<noteq> 0 \<and> (\<exists>k. (p, k) \<in> live h0)" if "p \<in> set (blocks ?ws f0)" for p
    using d1 [OF that] own(3) [of p] h0(3) by blast
  moreover have "surface_ok ?clean q" if "q \<in> set ?ws" for q
    using own(4) [OF that] sz by (cases "q = win") (auto simp: surface_ok_def Let_def f0_def surface_size_def)
  ultimately have "owned_by ?ws ?clean" using d0 h0(2) by (simp add: owned_by_def)
  then obtain hp f' g where n: "new_surface win w h ?clean = Some (?clean\<lparr>fs_heap := hp, window_at := f', surface_at := g\<rparr>)"
      "owned_by ?ws (?clean\<lparr>fs_heap := hp, window_at := f', surface_at := g\<rparr>)"
    using new_surface_owned [of ?ws ?clean win w h] win sz by (auto simp: f0_def)
  have fs: "(f0(win := (f0 win)\<lparr>w_surface := p\<rparr>)) = (f(win := (f win)\<lparr>w_surface := p\<rparr>))" for p
    by (simp add: f0_def f_def)
  have "new_surface win w h ?t = new_surface win w h ?clean"
    using fs by (simp add: new_surface_def upd_window_def Let_def)
  moreover have "oki_resize_window win w h s = do { s \<leftarrow> new_surface win w h ?t; Some (needs_redraw s) }"
    using w0 h0(1) unfolding f_def by (cases "?surf = 0") (simp_all add: oki_resize_window_def upd_window_def Let_def)
  ultimately have "oki_resize_window win w h s = Some (needs_redraw (s\<lparr>fs_heap := hp, window_at := f', surface_at := g, desktop := ?d\<rparr>))"
    using n(1) by simp
  moreover have "owned (s\<lparr>fs_heap := hp, window_at := f', surface_at := g, desktop := ?d\<rparr>)"
    using n(2) by (simp add: owned_windows)
  then have "oki_ok W H P (s\<lparr>fs_heap := hp, window_at := f', surface_at := g, desktop := ?d\<rparr>)"
    by (rule oki_ok_owned [OF s oki_ok_desk [OF s]])
  ultimately show ?thesis using oki_ok_redraw by blast
qed

lemma null_window: "oki_destroy_window 0 s = Some s" "oki_resize_window 0 w h s = Some s"
  by (simp_all add: oki_destroy_window_def oki_resize_window_def)

lemma move_ok: "oki_ok W H P s \<Longrightarrow> oki_ok W H P (oki_move_window win x y s)"
  using oki_ok_window(1) [of W H P s "\<lambda>w. w\<lparr>w_x := x, w_y := y\<rparr>" win] oki_ok_redraw by (simp add: oki_move_window_def)

lemma call_ok_lemma: "oki_ok W H P s \<Longrightarrow> oki_call_ok c s \<Longrightarrow> \<exists>s'. oki_call c s = Some s' \<and> oki_ok W H P s'"
proof (cases c)
  case (Create_window title x y w h flags)
  assume "oki_ok W H P s" "oki_call_ok c s"
  then show ?thesis using create_ok [of W H P s w h title x y flags] by (auto simp: Create_window)
next
  case (Destroy_window win)
  assume s: "oki_ok W H P s" "oki_call_ok c s"
  then show ?thesis using destroy_ok [OF s(1), of win] by (cases "win = 0") (auto simp: Destroy_window null_window)
next
  case (Resize_window win w h)
  assume s: "oki_ok W H P s" "oki_call_ok c s"
  then show ?thesis using resize_ok [OF s(1), of win w h] by (cases "win = 0") (auto simp: Resize_window null_window)
next
  case Compose
  assume "oki_ok W H P s"
  then show ?thesis using compose_ok [of W H P s] by (auto simp: Compose)
qed (simp_all add: focus_ok move_ok switch_ok)

end
