(* ===== verification/Oki_Claims.thy ===== *)
theory Oki_Claims
  imports Oki_Run Vfs_Paths Framebuffer_Init
begin

text \<open>
  What the desktop does: its set-up and every later event keep it well formed; what a click hits; what the
  close button removes; what the terminal shows.
\<close>

section \<open>Set-up\<close>

lemma no_surface:
  assumes "w_surface (window_at s win) = 0"
  shows "oki_window_clear win c s = Some s" "window_texts win ls s = Some s"
proof -
  have "oki_puts_from win ox x y str c' s = Some s" for ox x y str c'
    using assms by (induction str arbitrary: x y) (simp_all add: oki_window_putchar_def)
  then have "oki_window_puts win x y str c' s = Some s" for x y str c' by (simp add: oki_window_puts_def)
  then show "window_texts win ls s = Some s" by (induction ls) auto
qed (use assms in \<open>simp add: oki_window_clear_def\<close>)

lemma draws_texts [draw_intros]: "draws win SW SH (window_texts win ls)"
proof (induction ls)
  case Nil
  then show ?case by (simp add: draws_def)
next
  case (Cons l ls)
  obtain y str c where l: "l = (y, str, c)" by (cases l) auto
  have "draws win SW SH (\<lambda>s. do { s \<leftarrow> oki_window_puts win 8 y str c s; window_texts win ls s })"
    by (intro draws_bind draws_puts Cons)
  then show ?case by (simp add: l draws_def)
qed

lemma terminal_ok:
  assumes s: "oki_ok W H P s"
  shows "\<exists>s'. start_terminal s = Some s' \<and> oki_ok W H P s'"
proof -
  obtain win t where t: "oki_create_window (chars ''Terminal ~ MonoOS'') OKI_GAP (OKI_PANEL_HEIGHT + OKI_GAP) 500 350
      (OKI_WIN_DECORATED OR OKI_WIN_MOVABLE OR OKI_WIN_RESIZABLE) s = Some (win, t)" "oki_ok W H P t"
      "win \<noteq> 0 \<longrightarrow> win \<in> set (windows_of (desktop t))"
    using create_ok [OF s, of 500 350 "chars ''Terminal ~ MonoOS''" OKI_GAP "OKI_PANEL_HEIGHT + OKI_GAP"
        "OKI_WIN_DECORATED OR OKI_WIN_MOVABLE OR OKI_WIN_RESIZABLE"] unfolding surface_size_def by auto
  show ?thesis
  proof (cases "win = 0")
    case True
    then show ?thesis using t by (simp add: start_terminal_def)
  next
    case False
    let ?u = "set_term (no_term\<lparr>t_win := win\<rparr>) t"
    have "term_ok (no_term\<lparr>t_win := win\<rparr>)" by (simp add: term_ok_def no_term_def)
    then have u: "oki_ok W H P ?u" "term_live ?u"
      using oki_ok_term [OF t(2)] t(3) False by (simp_all add: set_term_def term_live_def)
    have "shell W H P (\<lambda>s. do { s \<leftarrow> printlns ls s; term_render s })" for ls
      by (intro shell_bind shell_printlns shell_render)
    from shellD [OF this u] show ?thesis using t(1) False by (auto simp: start_terminal_def simp del: printlns.simps)
  qed
qed

lemma sysinfo_ok:
  assumes s: "oki_ok W H P s"
  shows "\<exists>s'. start_sysinfo s = Some s' \<and> oki_ok W H P s'"
proof -
  obtain win t where t: "oki_create_window (chars ''System Info'') (520 + OKI_GAP) (OKI_PANEL_HEIGHT + OKI_GAP) 380 250
            (OKI_WIN_DECORATED OR OKI_WIN_MOVABLE) s = Some (win, t)" "oki_ok W H P t"
      "win \<noteq> 0 \<longrightarrow> win \<in> set (windows_of (desktop t))"
    using create_ok [OF s, of 380 250 "chars ''System Info''" "520 + OKI_GAP" "OKI_PANEL_HEIGHT + OKI_GAP"
        "OKI_WIN_DECORATED OR OKI_WIN_MOVABLE"] unfolding surface_size_def by auto
  have draw: "\<exists>s'. do { s \<leftarrow> oki_window_clear win COLOR_BG t; window_texts win (ls s) s } = Some s' \<and> oki_ok W H P s'"
    if "win \<noteq> 0" "\<And>u v. redrawn u v \<Longrightarrow> ls v = ls u" for ls
  proof (cases "w_surface (window_at t win) = 0")
    case True
    then show ?thesis using t(2) by (simp add: no_surface)
  next
    case False
    have "surface_ok t win" using t(2,3) that(1) by (simp add: oki_ok_def owned_def Let_def)
    then obtain SW SH where d: "dims t win SW SH" using False by (auto simp: surface_ok_def dims_def Let_def)
    obtain u where u: "oki_window_clear win COLOR_BG t = Some u" "redrawn t u" using drawsD [OF draws_clear d] by blast
    obtain v where "window_texts win (ls t) u = Some v" "redrawn u v"
      using drawsD [OF draws_texts, of u win SW SH] redrawn_dims [OF u(2)] d by blast
    then show ?thesis using u that(2) [OF u(2)] oki_ok_redrawn(1) [OF t(2) redrawn_trans [OF u(2)]] by auto
  qed
  have "fb v = fb u" if "redrawn u v" for u v using that unfolding redrawn_def by force
  then show ?thesis
    using t(1,2) unfolding start_sysinfo_def Let_def
    by (cases "win = 0") (auto intro!: draw simp del: window_texts.simps)
qed

definition oki_ready :: "nat \<Rightarrow> nat \<Rightarrow> nat \<Rightarrow> oki \<Rightarrow> bool" where
  "oki_ready W H P s \<longleftrightarrow> heap_inv (fs_heap s) \<and> canvas W H P (fb s) \<and> kb_inv (typing s) \<and> length (packet (pointing s)) = 3 \<and>
     packet_idx (pointing s) < 3 \<and> term_ok (g_term s) \<and> listing_ends s"

lemma init_ok:
  assumes s: "oki_ready W H P s"
  shows "\<exists>t. oki_init s = Some t \<and> oki_ok W H P t"
proof -
  let ?w = "sint (fb_width (fb s))" and ?h = "sint (fb_height (fb s))"
  define t where "t = s\<lparr>desktop := no_desktop\<lparr>d_screen_w := ?w, d_screen_h := ?h, d_focused := - 1, d_workspace := 0,
                 d_panel_visible := True, d_running := True, d_needs_redraw := True,
                 d_wallpaper_top := 0xFF1A1B26, d_wallpaper_bottom := 0xFF24283B\<rparr>,
                 pointing := mouse_set_bounds ?w ?h (pointing s)\<rparr>"
  have "same_files t s" by (simp add: t_def same_files_def)
  from same_files_listing [OF this] have "listing_ends t" using s by (simp add: oki_ready_def)
  moreover have "windows_of (desktop t) = []" by (simp add: t_def windows_of_def no_desktop_def)
  moreover have "packet (pointing t) = packet (pointing s)" "packet_idx (pointing t) = packet_idx (pointing s)"
    by (simp_all add: t_def mouse_set_bounds_def)
  moreover have "desk_ok (desktop t)" by (simp add: t_def no_desktop_def desk_ok_def)
  moreover have "fs_heap t = fs_heap s" "fb t = fb s" "typing t = typing s" "g_term t = g_term s" by (simp_all add: t_def)
  ultimately have "oki_ok W H P t" using s by (simp add: oki_ok_def oki_ready_def owned_def blocks_def)
  then obtain u where u: "start_terminal t = Some u" "oki_ok W H P u" using terminal_ok by blast
  then show ?thesis using sysinfo_ok [OF u(2)] by (simp add: oki_init_def t_def [symmetric] Let_def)
qed


definition demo_window :: oki_window where
  "demo_window = \<lparr>w_id = 0, w_title = [], w_x = 0, w_y = 0, w_w = 0, w_h = 0, w_flags = 0, w_workspace = 0, w_surface = 0,
     w_surface_w = 0, w_surface_h = 0, w_border_color = 0, w_titlebar_color = 0, w_title_text_color = 0, w_dirty = False,
     w_dragging = False, w_drag_offset_x = 0, w_drag_offset_y = 0\<rparr>"

definition demo_oki :: oki where
  "demo_oki = vfs.extend (fsys.extend demo_fs (vfs.fields 0 (replicate 64 free_fd) []))
     (oki.fields no_desktop (\<lambda>_. demo_window) (\<lambda>_. []) no_term small_screen mouse_static keyboard_static pmm_example 0)"

lemma demo_ready: "oki_ready 3 2 4 demo_oki"
proof -
  note f = demo_oki_def oki.defs vfs.defs fsys.defs
  have "vfs_root demo_oki = 0" by (simp add: f)
  then have "listing_ends demo_oki" by (auto simp: listing_ends_def root_entry_def intro!: exI [of _ 0])
  moreover have "heap_inv (fs_heap demo_oki)" using heap_init_inv [of blank_mem] by (simp add: f demo_fs_def)
  moreover have "kb_inv (typing demo_oki)" by (simp add: f kb_inv_def keyboard_static_def)
  moreover have "length (packet (pointing demo_oki)) = 3" "packet_idx (pointing demo_oki) < 3"
    by (simp_all add: f mouse_static_def)
  moreover have "term_ok (g_term demo_oki)" by (simp add: f term_ok_def no_term_def)
  moreover have "fb demo_oki = small_screen" by (simp add: f)
  ultimately show ?thesis using small_canvas by (simp add: oki_ready_def)
qed


text \<open>
  Every call of the desktop's interface keeps a well-formed desktop: creating a window (also when the heap
  or the table is full), destroying, focusing, moving, resizing (also when the new surface cannot be
  allocated), switching workspaces and composing a frame all return and leave it well formed, when the
  window is one of the desktop or \<open>NULL\<close> and a surface has at most \<open>2^30\<close> pixels.
\<close>

theorem oki_calls_keep:
  assumes "oki_ok W H P s" and "oki_call_ok c s"
  shows "\<exists>t. oki_call c s = Some t \<and> oki_ok W H P t"
  using assms by (rule call_ok_lemma)

theorem oki_calls_keep_witness:
  "\<exists>s t. oki_init demo_oki = Some s \<and> oki_call (Create_window [65] 0 0 20 10 0) s = Some t \<and> oki_ok 3 2 4 t"
proof -
  obtain s where s: "oki_init demo_oki = Some s" "oki_ok 3 2 4 s" using init_ok [OF demo_ready] by blast
  show ?thesis using oki_calls_keep [OF s(2), of "Create_window [65] 0 0 20 10 0"] s(1) by (auto simp: surface_size_def)
qed

section \<open>The mouse\<close>

text \<open>The window a point hits: the last one of the table that is shown there.\<close>

definition hit :: "oki \<Rightarrow> int \<Rightarrow> int \<Rightarrow> u32 \<Rightarrow> bool" where
  "hit s x y win \<longleftrightarrow> visible_on s (d_workspace (desktop s)) win \<and> (on_titlebar (window_at s win) x y \<or> on_client (window_at s win) x y)"

definition target :: "oki \<Rightarrow> int \<Rightarrow> int \<Rightarrow> nat option" where
  "target s x y = last_slot (d_window_count (desktop s)) (hit s x y) (d_windows (desktop s))"

lemma click_target:
  "click n x y s = (case last_slot n (hit s x y) (d_windows (desktop s)) of None \<Rightarrow> Some s
     | Some i \<Rightarrow> let win = d_windows (desktop s) ! i; w = window_at s win
        in if on_titlebar w x y
           then if on_close_button w x y then oki_destroy_window win s
                else Some (oki_focus_window win
                  (upd_window win (\<lambda>w. w\<lparr>w_dragging := True, w_drag_offset_x := x - w_x w, w_drag_offset_y := y - w_y w\<rparr>) s))
           else Some (oki_focus_window win s))"
  by (induction n) (simp_all add: hit_def Let_def)

lemma last_slot_hit: "last_slot n p ws = Some i \<Longrightarrow> i < n \<and> p (ws ! i)"
  by (induction n) (auto split: if_splits)

text \<open>No window is being dragged; one window is.\<close>

definition at_rest :: "oki \<Rightarrow> bool" where
  "at_rest s \<longleftrightarrow> (\<forall>win \<in> set (windows_of (desktop s)). \<not> w_dragging (window_at s win))"

lemma dragged_find:
  "i + n \<le> length (d_windows (desktop s)) \<Longrightarrow>
   dragged n i s = find (\<lambda>win. win \<noteq> 0 \<and> w_dragging (window_at s win)) (take n (drop i (d_windows (desktop s))))"
proof (induction n i s rule: dragged.induct)
  case (2 n i s)
  have "drop i (d_windows (desktop s)) = d_windows (desktop s) ! i # drop (i + 1) (d_windows (desktop s))"
    using 2(2) by (simp add: Cons_nth_drop_Suc)
  then show ?case using 2 by (simp add: Let_def)
qed simp

lemma find_only: "win \<in> set xs \<Longrightarrow> p win \<Longrightarrow> (\<And>q. q \<in> set xs \<Longrightarrow> p q \<Longrightarrow> q = win) \<Longrightarrow> find p xs = Some win"
proof (induction xs)
  case (Cons a xs)
  show ?case
  proof (cases "p a")
    case True
    have "a = win" using Cons.prems(3) [of a] True by simp
    then show ?thesis using True by simp
  next
    case False
    have "win \<in> set xs" using Cons.prems(1,2) False by auto
    moreover have "q = win" if "q \<in> set xs" "p q" for q using Cons.prems(3) [of q] that by simp
    ultimately have "find p xs = Some win" using Cons.prems(2) by (intro Cons.IH)
    then show ?thesis using False by simp
  qed
qed simp

text \<open>A window \<open>win\<close> of the desktop held by the mouse at an offset, every other window at rest.\<close>

definition held :: "oki \<Rightarrow> u32 \<Rightarrow> int \<Rightarrow> int \<Rightarrow> bool" where
  "held s win ox oy \<longleftrightarrow> win \<in> set (windows_of (desktop s)) \<and> win \<noteq> 0 \<and> w_drag_offset_x (window_at s win) = ox \<and>
     w_drag_offset_y (window_at s win) = oy \<and> w_dragging (window_at s win) \<and>
     (\<forall>q \<in> set (windows_of (desktop s)). w_dragging (window_at s q) \<longrightarrow> q = win)"

lemma move_held:
  assumes s: "oki_ok W H P s" and h: "held s win ox oy" and m: "left_button m"
  shows "oki_handle_mouse m s = Some (upd_window win (\<lambda>w. w\<lparr>w_x := mouse_x m - ox, w_y := mouse_y m - oy\<rparr>) (needs_redraw s))"
proof -
  have f: "find (\<lambda>q. q \<noteq> 0 \<and> w_dragging (window_at s q)) (windows_of (desktop s)) = Some win"
    using h by (intro find_only) (auto simp: held_def)
  have "dragged (d_window_count (desktop s)) 0 (needs_redraw s) = Some win"
    using f dragged_find [of 0 "d_window_count (desktop s)" "needs_redraw s"] oki_ok_desk [OF s]
    by (simp add: needs_redraw_def upd_desktop_def desk_ok_def windows_of_def)
  moreover have "d_window_count (desktop (needs_redraw s)) = d_window_count (desktop s)"
    by (simp add: needs_redraw_def upd_desktop_def)
  ultimately show ?thesis using m h
    by (simp add: oki_handle_mouse_def Let_def held_def) (simp add: upd_window_def needs_redraw_def upd_desktop_def)
qed

fun mouse_moves :: "mouse list \<Rightarrow> oki \<Rightarrow> oki option" where
  "mouse_moves [] s = Some s"
| "mouse_moves (m # ms) s = do { s \<leftarrow> oki_handle_mouse m s; mouse_moves ms s }"

definition place_at :: "int \<Rightarrow> int \<Rightarrow> oki_window \<Rightarrow> oki_window" where
  "place_at x y w = w\<lparr>w_x := x, w_y := y\<rparr>"

lemma moves_held:
  assumes "oki_ok W H P s" "held s win ox oy" "list_all left_button ms" "ms \<noteq> []"
  shows "\<exists>t. mouse_moves ms s = Some t \<and> oki_ok W H P t \<and> held t win ox oy \<and>
    windows_of (desktop t) = windows_of (desktop s) \<and> d_focused (desktop t) = d_focused (desktop s) \<and>
    window_at t = (window_at s)(win := place_at (mouse_x (last ms) - ox) (mouse_y (last ms) - oy) (window_at s win))"
  using assms
proof (induction ms arbitrary: s)
  case (Cons m ms)
  let ?u = "upd_window win (\<lambda>w. w\<lparr>w_x := mouse_x m - ox, w_y := mouse_y m - oy\<rparr>) (needs_redraw s)"
  have m: "oki_handle_mouse m s = Some ?u" using move_held [OF Cons.prems(1,2)] Cons.prems(3) by simp
  have ok: "oki_ok W H P ?u" using oki_ok_redraw [OF Cons.prems(1)] by (intro oki_ok_window) simp_all
  have u: "windows_of (desktop ?u) = windows_of (desktop s)" "d_focused (desktop ?u) = d_focused (desktop s)"
    "window_at ?u = (window_at s)(win := place_at (mouse_x m - ox) (mouse_y m - oy) (window_at s win))"
    by (simp_all add: upd_window_def needs_redraw_def upd_desktop_def windows_of_def place_at_def)
  have h: "held ?u win ox oy" 
  proof -
    have "q = win" if "q \<in> set (windows_of (desktop s))" "w_dragging (window_at ?u q)" for q
    proof (rule ccontr)
      assume "q \<noteq> win"
      then have "window_at ?u q = window_at s q" by (simp add: u)
      then show False using Cons.prems(2) that \<open>q \<noteq> win\<close> unfolding held_def by metis
    qed
    moreover have "win \<in> set (windows_of (desktop s)) \<and> win \<noteq> 0 \<and> w_drag_offset_x (window_at ?u win) = ox \<and>
        w_drag_offset_y (window_at ?u win) = oy \<and> w_dragging (window_at ?u win)"
      using Cons.prems(2) unfolding held_def u by (simp add: place_at_def)
    ultimately show ?thesis unfolding held_def u(1) by blast
  qed
  show ?case
  proof (cases "ms = []")
    case True
    then show ?thesis using m ok h u by (simp add: fun_upd_def)
  next
    case False
    obtain t where t: "mouse_moves ms ?u = Some t" "oki_ok W H P t" "held t win ox oy"
        "windows_of (desktop t) = windows_of (desktop ?u)" "d_focused (desktop t) = d_focused (desktop ?u)"
        "window_at t = (window_at ?u)(win := place_at (mouse_x (last ms) - ox) (mouse_y (last ms) - oy) (window_at ?u win))"
      using Cons.IH [OF ok h _ False] Cons.prems(3) unfolding list.pred_inject(2) by blast
    have "window_at t = (window_at s)(win := place_at (mouse_x (last ms) - ox) (mouse_y (last ms) - oy) (window_at s win))"
      unfolding t(6) u(3) by (simp add: place_at_def)
    then show ?thesis using t(1-5) u(1,2) m False by (simp add: fun_upd_def)
  qed
qed simp

lemma windows_nonzero:
  assumes "oki_ok W H P s" "q \<in> set (windows_of (desktop s))"
  shows "q \<noteq> 0"
proof -
  have "q \<in> set (blocks (windows_of (desktop s)) (window_at s))" using assms(2) by (simp add: blocks_def)
  then show ?thesis using assms(1) unfolding oki_ok_def owned_def Let_def by blast
qed

lemma release_drags_eq:
  "n \<le> d_window_count (desktop s) \<Longrightarrow> oki_ok W H P s \<Longrightarrow> desktop (release_drags n s) = desktop s \<and>
   window_at (release_drags n s) = (\<lambda>q. if q \<in> set (take n (windows_of (desktop s))) then (window_at s q)\<lparr>w_dragging := False\<rparr>
     else window_at s q)"
proof (induction n)
  case (Suc i)
  have d: "desk_ok (desktop s)" using Suc.prems(2) by (rule oki_ok_desk)
  let ?t = "release_drags i s" and ?win = "d_windows (desktop s) ! i"
  have t: "desktop ?t = desktop s" "window_at ?t = (\<lambda>q. if q \<in> set (take i (windows_of (desktop s)))
      then (window_at s q)\<lparr>w_dragging := False\<rparr> else window_at s q)"
    using Suc by simp_all
  have i: "i < length (windows_of (desktop s))" using Suc.prems(1) d by (simp add: windows_of_def desk_ok_def)
  have w: "windows_of (desktop s) ! i = ?win" using Suc.prems(1) by (simp add: windows_of_def)
  then have "?win \<in> set (windows_of (desktop s))" using i nth_mem by metis
  then have "?win \<noteq> 0" using windows_nonzero [OF Suc.prems(2)] by blast
  then have eq: "release_drags (Suc i) s = upd_window ?win (\<lambda>w. w\<lparr>w_dragging := False\<rparr>) ?t" by (simp add: t(1) Let_def)
  have "set (take (Suc i) (windows_of (desktop s))) = insert ?win (set (take i (windows_of (desktop s))))"
    using i w by (simp add: take_Suc_conv_app_nth)
  then show ?case unfolding eq by (intro conjI ext) (simp_all add: upd_window_def t)
qed simp

text \<open>The window the mouse goes down on, and the window after the whole gesture.\<close>

lemma target_window:
  assumes "oki_ok W H P s" "target s x y = Some i"
  shows "i < d_window_count (desktop s)" "hit s x y (d_windows (desktop s) ! i)"
    "d_windows (desktop s) ! i \<in> set (windows_of (desktop s))" "d_windows (desktop s) ! i \<noteq> 0"
    "find_window (d_window_count (desktop s)) 0 (d_windows (desktop s) ! i) (d_windows (desktop s)) = Some i"
proof -
  let ?n = "d_window_count (desktop s)" and ?ws = "d_windows (desktop s)"
  have d: "desk_ok (desktop s)" using assms(1) by (rule oki_ok_desk)
  show i: "i < ?n" and h: "hit s x y (?ws ! i)" using last_slot_hit assms(2) by (auto simp: target_def)
  have at: "windows_of (desktop s) ! j = ?ws ! j" "j < length (windows_of (desktop s))" if "j < ?n" for j
    using that d by (simp_all add: windows_of_def desk_ok_def)
  show "?ws ! i \<in> set (windows_of (desktop s))" using at [OF i] nth_mem by metis
  show "?ws ! i \<noteq> 0" using h by (simp add: hit_def visible_on_def)
  have dis: "distinct (windows_of (desktop s))" using assms(1) by (simp add: oki_ok_def owned_def blocks_def Let_def)
  obtain k where k: "find_window ?n 0 (?ws ! i) ?ws = Some k"
    using find_window_None [of ?n 0 "?ws ! i" ?ws i] i by fastforce
  then have "k < ?n" "?ws ! k = ?ws ! i" using find_window_Some [OF k] by simp_all
  then have "k = i" using at i dis nth_eq_iff_index_eq by metis
  then show "find_window ?n 0 (?ws ! i) ?ws = Some i" using k by simp
qed

lemma press_holds:
  assumes s: "oki_ok W H P s" and rest: "at_rest s" and m: "left_button m" "target s (mouse_x m) (mouse_y m) = Some i"
    and bar: "on_titlebar (window_at s (d_windows (desktop s) ! i)) (mouse_x m) (mouse_y m)"
      "\<not> on_close_button (window_at s (d_windows (desktop s) ! i)) (mouse_x m) (mouse_y m)"
  shows "\<exists>t w. oki_handle_mouse m s = Some t \<and> oki_ok W H P t \<and> d_focused (desktop t) = int i \<and>
    windows_of (desktop t) = windows_of (desktop s) \<and>
    window_at t = (window_at s)(d_windows (desktop s) ! i := w) \<and>
    w = (window_at s (d_windows (desktop s) ! i))\<lparr>w_dragging := True,
      w_drag_offset_x := mouse_x m - w_x (window_at s (d_windows (desktop s) ! i)),
      w_drag_offset_y := mouse_y m - w_y (window_at s (d_windows (desktop s) ! i))\<rparr> \<and>
    held t (d_windows (desktop s) ! i) (w_drag_offset_x w) (w_drag_offset_y w)"
proof -
  let ?win = "d_windows (desktop s) ! i" and ?n = "d_window_count (desktop s)"
  let ?s = "needs_redraw s" and ?x = "mouse_x m" and ?y = "mouse_y m"
  note tw = target_window [OF s m(2)]
  have parts: "d_windows (desktop ?s) = d_windows (desktop s)" "d_window_count (desktop ?s) = ?n"
    "window_at ?s = window_at s" "windows_of (desktop ?s) = windows_of (desktop s)" "d_workspace (desktop ?s) = d_workspace (desktop s)"
    by (simp_all add: needs_redraw_def upd_desktop_def windows_of_def)
  have "dragged ?n 0 ?s = None"
    using dragged_find [of 0 ?n ?s] rest oki_ok_desk [OF s]
    by (simp add: parts desk_ok_def at_rest_def windows_of_def find_None_iff)
  moreover have "hit ?s ?x ?y = hit s ?x ?y" by (intro ext) (simp add: hit_def visible_on_def parts)
  then have "last_slot ?n (hit ?s ?x ?y) (d_windows (desktop ?s)) = Some i" using m(2) by (simp add: target_def parts)
  ultimately have e: "oki_handle_mouse m s = Some (oki_focus_window ?win
      (upd_window ?win (\<lambda>w. w\<lparr>w_dragging := True, w_drag_offset_x := ?x - w_x w, w_drag_offset_y := ?y - w_y w\<rparr>) ?s))"
    using m(1) bar by (simp add: oki_handle_mouse_def Let_def click_target parts)
  let ?u = "upd_window ?win (\<lambda>w. w\<lparr>w_dragging := True, w_drag_offset_x := ?x - w_x w, w_drag_offset_y := ?y - w_y w\<rparr>) ?s"
  have u: "desktop ?u = desktop ?s" by (simp add: upd_window_def)
  have f: "oki_focus_window ?win ?u = needs_redraw (upd_desktop (\<lambda>d. d\<lparr>d_focused := int i\<rparr>) ?u)"
    using tw(5) by (simp add: oki_focus_window_def u parts)
  have ok: "oki_ok W H P (oki_focus_window ?win ?u)"
    using oki_ok_redraw [OF s] by (intro focus_ok oki_ok_window) simp_all
  define w where "w = (window_at s ?win)\<lparr>w_dragging := True, w_drag_offset_x := ?x - w_x (window_at s ?win),
      w_drag_offset_y := ?y - w_y (window_at s ?win)\<rparr>"
  define t where "t = oki_focus_window ?win ?u"
  have t: "d_focused (desktop t) = int i" "windows_of (desktop t) = windows_of (desktop s)" "window_at t = (window_at s)(?win := w)"
    unfolding t_def f by (simp_all add: needs_redraw_def upd_desktop_def upd_window_def windows_of_def w_def fun_upd_def)
  have "q = ?win" if "q \<in> set (windows_of (desktop s))" "w_dragging (window_at t q)" for q
  proof (rule ccontr)
    assume "q \<noteq> ?win"
    then show False using that rest by (simp add: t(3) at_rest_def)
  qed
  moreover have "window_at t ?win = w" "w_dragging w" by (simp_all add: t(3) w_def)
  ultimately have "held t ?win (w_drag_offset_x w) (w_drag_offset_y w)" using tw(3,4) unfolding held_def t(2) by blast
  moreover have "oki_handle_mouse m s = Some t" using e by (simp add: t_def)
  moreover have "oki_ok W H P t" using ok by (simp add: t_def)
  ultimately show ?thesis using t w_def by blast
qed

lemma mouse_moves_append: "mouse_moves (ms @ ns) s = do { s \<leftarrow> mouse_moves ms s; mouse_moves ns s }"
proof (induction ms arbitrary: s)
  case (Cons m ms)
  then show ?case by (cases "oki_handle_mouse m s") (simp_all add: Cons)
qed simp

lemma release_held:
  assumes s: "oki_ok W H P s" and h: "held s win ox oy" and m: "\<not> left_button m"
  shows "\<exists>t. oki_handle_mouse m s = Some t \<and> oki_ok W H P t \<and> at_rest t \<and> d_focused (desktop t) = d_focused (desktop s) \<and>
    windows_of (desktop t) = windows_of (desktop s) \<and> window_at t = (window_at s)(win := (window_at s win)\<lparr>w_dragging := False\<rparr>)"
proof -
  let ?n = "d_window_count (desktop s)"
  define t where "t = release_drags ?n (needs_redraw s)"
  have parts: "d_window_count (desktop (needs_redraw s)) = ?n" "window_at (needs_redraw s) = window_at s"
    "windows_of (desktop (needs_redraw s)) = windows_of (desktop s)" "d_focused (desktop (needs_redraw s)) = d_focused (desktop s)"
    by (simp_all add: needs_redraw_def upd_desktop_def windows_of_def)
  have r: "oki_ok W H P (needs_redraw s)" using oki_ok_redraw [OF s] by blast
  have all: "take ?n (windows_of (desktop s)) = windows_of (desktop s)" by (simp add: windows_of_def)
  have eq: "desktop t = desktop (needs_redraw s)"
    "window_at t = (\<lambda>q. if q \<in> set (windows_of (desktop s)) then (window_at s q)\<lparr>w_dragging := False\<rparr> else window_at s q)"
    using release_drags_eq [of ?n "needs_redraw s" W H P] r unfolding parts all t_def by simp_all
  have idle: "w\<lparr>w_dragging := False\<rparr> = w" if "\<not> w_dragging w" for w :: oki_window using that by (cases w) simp
  have win: "win \<in> set (windows_of (desktop s))" using h unfolding held_def by blast
  have w: "window_at t q = ((window_at s)(win := (window_at s win)\<lparr>w_dragging := False\<rparr>)) q" for q
  proof (cases "q = win")
    case True
    then show ?thesis using win by (simp add: eq(2))
  next
    case False
    then have "q \<in> set (windows_of (desktop s)) \<Longrightarrow> \<not> w_dragging (window_at s q)" using h unfolding held_def by blast
    then show ?thesis using False idle by (simp add: eq(2))
  qed
  then have "window_at t = (window_at s)(win := (window_at s win)\<lparr>w_dragging := False\<rparr>)" by (rule ext)
  moreover have "at_rest t" by (simp add: at_rest_def eq parts)
  moreover have "oki_ok W H P t" unfolding t_def by (rule release_ok [OF r])
  moreover have "oki_handle_mouse m s = Some t" using m by (simp add: oki_handle_mouse_def t_def parts Let_def)
  ultimately show ?thesis using eq(1) parts by metis
qed

text \<open>
  Dragging moves a window with the mouse. When no window is being dragged and the left button goes down
  on the title bar of a window, beside its close button and not under a later window of the table, then
  after any movement with the button held and its release that window has the focus and has moved by
  exactly the distance the pointer moved; nothing else of it has changed but the place it was held at, no
  other window has changed, the order of the windows is the same, and no window is being dragged.
\<close>

theorem drag_moves_window:
  assumes "oki_ok W H P s" and "at_rest s" and "list_all left_button (m # ms)" and "\<not> left_button up"
    and "target s (mouse_x m) (mouse_y m) = Some i"
    and "on_titlebar (window_at s (d_windows (desktop s) ! i)) (mouse_x m) (mouse_y m)"
    and "\<not> on_close_button (window_at s (d_windows (desktop s) ! i)) (mouse_x m) (mouse_y m)"
  shows "\<exists>t ox oy. mouse_moves (m # ms @ [up]) s = Some t \<and> oki_ok W H P t \<and> at_rest t \<and> d_focused (desktop t) = int i \<and>
    windows_of (desktop t) = windows_of (desktop s) \<and>
    window_at t = (window_at s)(d_windows (desktop s) ! i := (window_at s (d_windows (desktop s) ! i))\<lparr>
      w_x := w_x (window_at s (d_windows (desktop s) ! i)) + (mouse_x (last (m # ms)) - mouse_x m),
      w_y := w_y (window_at s (d_windows (desktop s) ! i)) + (mouse_y (last (m # ms)) - mouse_y m),
      w_dragging := False, w_drag_offset_x := ox, w_drag_offset_y := oy\<rparr>)"
proof -
  let ?win = "d_windows (desktop s) ! i"
  let ?w = "window_at s ?win"
  define ox oy where "ox = mouse_x m - w_x ?w" and "oy = mouse_y m - w_y ?w"
  define w where "w = ?w\<lparr>w_dragging := True, w_drag_offset_x := ox, w_drag_offset_y := oy\<rparr>"
  obtain u where u: "oki_handle_mouse m s = Some u" "oki_ok W H P u" "d_focused (desktop u) = int i"
      "windows_of (desktop u) = windows_of (desktop s)" "window_at u = (window_at s)(?win := w)" "held u ?win ox oy"
    using press_holds [OF assms(1,2) _ assms(5-7)] assms(3) by (auto simp: w_def ox_def oy_def)
  let ?last = "last (m # ms)"
  define w' where "w' = place_at (mouse_x ?last - ox) (mouse_y ?last - oy) w"
  have "\<exists>v. mouse_moves ms u = Some v \<and> oki_ok W H P v \<and> held v ?win ox oy \<and> windows_of (desktop v) = windows_of (desktop s) \<and>
      d_focused (desktop v) = int i \<and> window_at v = (window_at s)(?win := w')"
  proof (cases "ms = []")
    case True
    have "w' = w" by (simp add: w'_def w_def place_at_def ox_def oy_def True)
    then show ?thesis using u True by simp
  next
    case False
    have "list_all left_button ms" "last ms = ?last" using assms(3) False by simp_all
    from moves_held [OF u(2,6) this(1) False] show ?thesis unfolding \<open>last ms = ?last\<close> u(3-5) by (simp add: w'_def)
  qed
  then obtain v where v: "mouse_moves ms u = Some v" "oki_ok W H P v" "held v ?win ox oy" "windows_of (desktop v) = windows_of (desktop s)"
      "d_focused (desktop v) = int i" "window_at v = (window_at s)(?win := w')" by blast
  obtain t where t: "oki_handle_mouse up v = Some t" "oki_ok W H P t" "at_rest t" "d_focused (desktop t) = int i"
      "windows_of (desktop t) = windows_of (desktop s)" "window_at t = (window_at s)(?win := w'\<lparr>w_dragging := False\<rparr>)"
    using release_held [OF v(2,3) assms(4)] unfolding v(4-6) by auto
  have "mouse_moves (m # ms @ [up]) s = Some t" using u(1) v(1) t(1) by (simp add: mouse_moves_append)
  moreover have "w'\<lparr>w_dragging := False\<rparr> = ?w\<lparr>w_x := w_x ?w + (mouse_x ?last - mouse_x m), w_y := w_y ?w + (mouse_y ?last - mouse_y m),
      w_dragging := False, w_drag_offset_x := ox, w_drag_offset_y := oy\<rparr>"
    by (simp add: w'_def w_def place_at_def ox_def oy_def)
  ultimately show ?thesis using t(2-5) t(6) by metis
qed

text \<open>A desktop with one decorated window, at (10, 40), which got no surface.\<close>

definition demo_desk :: oki where
  "demo_desk = demo_oki\<lparr>desktop := no_desktop\<lparr>d_windows := 0x20000C # replicate 31 0, d_window_count := 1, d_focused := - 1\<rparr>,
     window_at := (\<lambda>_. demo_window\<lparr>w_x := 10, w_y := 40, w_w := 60, w_h := 20, w_flags := 5\<rparr>),
     fs_heap := snd (the (kmalloc 128 (heap_init blank_mem)))\<rparr>"

lemma demo_desk_windows: "windows_of (desktop demo_desk) = [0x20000C]" "d_windows (desktop demo_desk) ! 0 = 0x20000C"
  "d_window_count (desktop demo_desk) = 1" "d_workspace (desktop demo_desk) = 0"
  "window_at demo_desk p = demo_window\<lparr>w_x := 10, w_y := 40, w_w := 60, w_h := 20, w_flags := 5\<rparr>"
  by (simp_all add: demo_desk_def windows_of_def no_desktop_def)

lemma demo_desk_heap: "heap_inv (fs_heap demo_desk)" "live (fs_heap demo_desk) = {(0x20000C, unat (align4 128))}"
proof -
  have "unat (align4 128) \<le> 8000000" by (simp add: unat_align4)
  then obtain h where h: "kmalloc 128 (heap_init blank_mem) = Some (0x20000C, h)"
    "heap_repr h [(HEAP_START, align4 128, False),
      (HEAP_START + 12 + align4 128, HEAP_INITIAL_SIZE - HDR - align4 128 - 12, True)]"
    using kmalloc_init [of 128 blank_mem] by auto
  have l: "live h = {(0x20000C, unat (align4 128))}" using live_eq [OF h(2)] by simp
  have "fs_heap demo_desk = h" by (simp add: demo_desk_def h(1))
  then show "heap_inv (fs_heap demo_desk)" "live (fs_heap demo_desk) = {(0x20000C, unat (align4 128))}"
    using l h(2) by (auto simp: heap_inv_def)
qed

lemma demo_desk_ok: "oki_ok 3 2 4 demo_desk"
proof -
  have "blocks [0x20000C] (window_at demo_desk) = [0x20000C]" by (simp add: blocks_def demo_desk_windows demo_window_def)
  moreover have "surface_ok demo_desk 0x20000C" by (simp add: surface_ok_def demo_desk_windows demo_window_def)
  ultimately have "owned demo_desk" by (auto simp: owned_def demo_desk_windows demo_desk_heap)
  moreover have "desk_ok (desktop demo_desk)" by (simp add: demo_desk_def desk_ok_def no_desktop_def)
  moreover have "same_files demo_desk demo_oki" by (simp add: same_files_def demo_desk_def)
  from same_files_listing [OF this] have "listing_ends demo_desk" using demo_ready by (simp add: oki_ready_def)
  moreover have "fb demo_desk = fb demo_oki" "g_term demo_desk = g_term demo_oki" "typing demo_desk = typing demo_oki"
    "pointing demo_desk = pointing demo_oki" by (simp_all add: demo_desk_def)
  ultimately show ?thesis using demo_ready by (simp add: oki_ok_def oki_ready_def)
qed

theorem drag_moves_window_witness:
  "\<exists>t. mouse_moves [mouse_static\<lparr>mouse_x := 20, mouse_y := 45, left_button := True\<rparr>,
      mouse_static\<lparr>mouse_x := 25, mouse_y := 40, left_button := True\<rparr>,
      mouse_static\<lparr>mouse_x := 27, mouse_y := 39\<rparr>] demo_desk = Some t \<and>
     w_x (window_at t 0x20000C) = 15 \<and> w_y (window_at t 0x20000C) = 35"
proof -
  have "at_rest demo_desk" by (simp add: at_rest_def demo_desk_windows demo_window_def)
  moreover have "on_titlebar (window_at demo_desk 0x20000C) 20 45" "\<not> on_close_button (window_at demo_desk 0x20000C) 20 45"
    by (simp_all add: demo_desk_windows on_titlebar_def on_close_button_def demo_window_def)
  moreover from this have "target demo_desk 20 45 = Some 0"
    by (simp add: target_def demo_desk_windows hit_def visible_on_def demo_window_def)
  moreover have "list_all left_button (mouse_static\<lparr>mouse_x := 20, mouse_y := 45, left_button := True\<rparr> #
      [mouse_static\<lparr>mouse_x := 25, mouse_y := 40, left_button := True\<rparr>])" by simp
  moreover have "\<not> left_button (mouse_static\<lparr>mouse_x := 27, mouse_y := 39\<rparr>)" by (simp add: mouse_static_def)
  ultimately show ?thesis
    using drag_moves_window [OF demo_desk_ok, of "mouse_static\<lparr>mouse_x := 20, mouse_y := 45, left_button := True\<rparr>"
        "[mouse_static\<lparr>mouse_x := 25, mouse_y := 40, left_button := True\<rparr>]" "mouse_static\<lparr>mouse_x := 27, mouse_y := 39\<rparr>" 0]
    by (auto simp: demo_desk_windows demo_window_def)
qed

section \<open>The close button\<close>

lemma heap_release:
  assumes "heap_inv h" "(p, k) \<in> live h"
  shows "\<exists>h'. kfree p h = Some h' \<and> heap_inv h' \<and> (\<forall>q j. (q, j) \<in> live h' \<longleftrightarrow> q \<noteq> p \<and> (q, j) \<in> live h)"
proof -
  obtain h' where h': "kfree p h = Some h'" "heap_inv h'" using kheap.release_total [OF assms] by blast
  have "live h' = live h - {(p, k)}" by (rule kheap.release_live [OF assms h'(1)])
  moreover have "j = k" if "(p, j) \<in> live h" for j using kheap.live_apart [OF assms(1) that assms(2)] by auto
  ultimately show ?thesis using h' by blast
qed

text \<open>The blocks a window holds.\<close>

definition window_blocks :: "oki \<Rightarrow> u32 \<Rightarrow> u32 set" where
  "window_blocks s win = (if w_surface (window_at s win) = 0 then {win} else {win, w_surface (window_at s win)})"

lemma destroy_heap:
  assumes s: "oki_ok W H P s" and win: "win \<in> set (windows_of (desktop s))" and t: "oki_destroy_window win s = Some t"
    and f: "find_window (d_window_count (desktop s)) 0 win (d_windows (desktop s)) = Some i"
  shows "(q, j) \<in> live (fs_heap t) \<longleftrightarrow> q \<notin> window_blocks s win \<and> (q, j) \<in> live (fs_heap s)"
proof -
  let ?surf = "w_surface (window_at s win)" and ?ws = "windows_of (desktop s)"
  have own: "heap_inv (fs_heap s)" "distinct (blocks ?ws (window_at s))"
    "\<And>p. p \<in> set (blocks ?ws (window_at s)) \<Longrightarrow> p \<noteq> 0 \<and> (\<exists>k. (p, k) \<in> live (fs_heap s))"
    using s by (simp_all add: oki_ok_def owned_def Let_def)
  have w0: "win \<noteq> 0" using windows_nonzero [OF s win] .
  obtain kw where kw: "(win, kw) \<in> live (fs_heap s)" using own(3) [of win] win by (auto simp: blocks_def)
  obtain h where h: "(if ?surf \<noteq> 0 then kfree ?surf (fs_heap s) else Some (fs_heap s)) = Some h" "heap_inv h"
      "\<And>q j. (q, j) \<in> live h \<longleftrightarrow> (?surf = 0 \<or> q \<noteq> ?surf) \<and> (q, j) \<in> live (fs_heap s)"
  proof (cases "?surf = 0")
    case True
    then show ?thesis using that [of "fs_heap s"] own(1) by simp
  next
    case False
    then have "?surf \<in> set (blocks ?ws (window_at s))" using win by (auto simp: blocks_def)
    then obtain k where "(?surf, k) \<in> live (fs_heap s)" using own(3) by blast
    then show ?thesis using heap_release [OF own(1)] that False by simp metis
  qed
  have "?surf \<noteq> win"
  proof
    assume e: "?surf = win"
    then have "win \<in> set (filter (\<lambda>p. p \<noteq> 0) (map (\<lambda>w. w_surface (window_at s w)) ?ws))"
      using win w0 image_eqI [of win "\<lambda>w. w_surface (window_at s w)" win "set ?ws"] by simp
    then show False using own(2) win unfolding blocks_def distinct_append by blast
  qed
  then have "(win, kw) \<in> live h" using h(3) [of win kw] kw by simp
  then obtain h' where h': "kfree win h = Some h'" "\<And>q j. (q, j) \<in> live h' \<longleftrightarrow> q \<noteq> win \<and> (q, j) \<in> live h"
    using heap_release [OF h(2)] by blast
  have "fs_heap t = h'"
    using t w0 f h(1) h'(1)
    by (cases "?surf = 0") (auto simp: oki_destroy_window_def Let_def upd_desktop_def needs_redraw_def)
  then show ?thesis using h(3) h'(2) by (auto simp: window_blocks_def)
qed

text \<open>
  C31: a click on the close button of the window it hits removes that window and no other: the remaining
  windows keep their order and all their fields, the heap blocks of the window and of its surface are
  released and all others stay, and the desktop stays well formed. The focus keeps its slot, or moves to
  the last one when that slot is gone: when an earlier window is closed, it passes to the window after the
  one that had it.
\<close>

theorem close_button_removes:
  assumes "oki_ok W H P s" and "at_rest s" and "left_button m" and "target s (mouse_x m) (mouse_y m) = Some i"
    and "on_titlebar (window_at s (d_windows (desktop s) ! i)) (mouse_x m) (mouse_y m)"
    and "on_close_button (window_at s (d_windows (desktop s) ! i)) (mouse_x m) (mouse_y m)"
  shows "\<exists>t. oki_handle_mouse m s = Some t \<and> oki_ok W H P t \<and>
    windows_of (desktop t) = take i (windows_of (desktop s)) @ drop (i + 1) (windows_of (desktop s)) \<and>
    window_at t = window_at s \<and>
    (\<forall>q j. (q, j) \<in> live (fs_heap t) \<longleftrightarrow> q \<notin> window_blocks s (d_windows (desktop s) ! i) \<and> (q, j) \<in> live (fs_heap s)) \<and>
    d_focused (desktop t) = min (d_focused (desktop s)) (int (d_window_count (desktop s)) - 2)"
proof -
  let ?win = "d_windows (desktop s) ! i" and ?n = "d_window_count (desktop s)"
  let ?s = "needs_redraw s" and ?x = "mouse_x m" and ?y = "mouse_y m"
  note tw = target_window [OF assms(1,4)]
  have parts: "d_windows (desktop ?s) = d_windows (desktop s)" "d_window_count (desktop ?s) = ?n"
    "window_at ?s = window_at s" "windows_of (desktop ?s) = windows_of (desktop s)" "d_workspace (desktop ?s) = d_workspace (desktop s)"
    "fs_heap ?s = fs_heap s" "d_focused (desktop ?s) = d_focused (desktop s)"
    by (simp_all add: needs_redraw_def upd_desktop_def windows_of_def)
  have "dragged ?n 0 ?s = None"
    using dragged_find [of 0 ?n ?s] assms(2) oki_ok_desk [OF assms(1)]
    by (simp add: parts desk_ok_def at_rest_def windows_of_def find_None_iff)
  moreover have "hit ?s ?x ?y = hit s ?x ?y" by (intro ext) (simp add: hit_def visible_on_def parts)
  then have "last_slot ?n (hit ?s ?x ?y) (d_windows (desktop ?s)) = Some i" using assms(4) by (simp add: target_def parts)
  ultimately have e: "oki_handle_mouse m s = oki_destroy_window ?win ?s"
    using assms(3,5,6) by (simp add: oki_handle_mouse_def Let_def click_target parts)
  have ok: "oki_ok W H P ?s" using oki_ok_redraw [OF assms(1)] by blast
  obtain t k where t: "oki_destroy_window ?win ?s = Some t" "oki_ok W H P t" "k < ?n" "d_windows (desktop s) ! k = ?win"
      "desktop t = (remove_slot k (desktop ?s))\<lparr>d_needs_redraw := True\<rparr>" "window_at t = window_at s"
    using destroy_ok [OF ok, of ?win] tw(3) unfolding parts by blast
  have "k = i"
  proof -
    have at: "windows_of (desktop s) ! j = d_windows (desktop s) ! j" "j < length (windows_of (desktop s))" if "j < ?n" for j
      using that oki_ok_desk [OF assms(1)] by (simp_all add: windows_of_def desk_ok_def)
    moreover have "distinct (windows_of (desktop s))" using assms(1) by (simp add: oki_ok_def owned_def blocks_def Let_def)
    ultimately show ?thesis using t(3,4) tw(1) nth_eq_iff_index_eq by metis
  qed
  have "windows_of (desktop t) = take i (windows_of (desktop s)) @ drop (i + 1) (windows_of (desktop s))"
    using remove_slot_props(1) [OF oki_ok_desk [OF ok], of i] tw(1) t(5) by (simp add: \<open>k = i\<close> parts windows_of_def)
  moreover have "d_focused (desktop t) = min (d_focused (desktop s)) (int ?n - 2)"
    using t(5) tw(1) oki_ok_desk [OF assms(1)] by (auto simp: remove_slot_def parts Let_def desk_ok_def)
  moreover have "window_blocks ?s = window_blocks s" by (intro ext) (simp add: window_blocks_def parts)
  then have "(q, j) \<in> live (fs_heap t) \<longleftrightarrow> q \<notin> window_blocks s ?win \<and> (q, j) \<in> live (fs_heap s)" for q j
    using destroy_heap [OF ok _ t(1), of i] tw(3,5) by (simp add: parts)
  ultimately show ?thesis using e t(1,2,6) by simp
qed

theorem close_button_removes_witness:
  "\<exists>t. oki_handle_mouse (mouse_static\<lparr>mouse_x := 50, mouse_y := 50, left_button := True\<rparr>) demo_desk = Some t \<and>
     windows_of (desktop t) = [] \<and> live (fs_heap t) = {}"
proof -
  let ?m = "mouse_static\<lparr>mouse_x := 50, mouse_y := 50, left_button := True\<rparr>"
  have "at_rest demo_desk" by (simp add: at_rest_def demo_desk_windows demo_window_def)
  moreover have "on_titlebar (window_at demo_desk 0x20000C) 50 50" "on_close_button (window_at demo_desk 0x20000C) 50 50"
    by (simp_all add: demo_desk_windows on_titlebar_def on_close_button_def demo_window_def)
  moreover from this have "target demo_desk 50 50 = Some 0"
    by (simp add: target_def demo_desk_windows hit_def visible_on_def demo_window_def)
  ultimately obtain t where t: "oki_handle_mouse ?m demo_desk = Some t"
      "windows_of (desktop t) = take 0 [0x20000C] @ drop (0 + 1) [0x20000C]"
      "\<forall>q j. (q, j) \<in> live (fs_heap t) \<longleftrightarrow> q \<notin> window_blocks demo_desk 0x20000C \<and> (q, j) \<in> live (fs_heap demo_desk)"
    using close_button_removes [OF demo_desk_ok, of ?m 0] unfolding demo_desk_windows(1,2) by auto
  have "live (fs_heap t) = {}" using t(3) unfolding demo_desk_heap(2) by (auto simp: window_blocks_def demo_desk_windows demo_window_def)
  then show ?thesis using t(1,2) by simp
qed

end
