(* ===== verification/Oki_Terminal.thy ===== *)
theory Oki_Terminal
  imports Oki_Claims
begin

text \<open>
  The terminal as a scrolling page and a line editor: what the fixed arrays of \<open>kernel/oki.c\<close> show
  against a list of lines of any length, and the input array against a text.
\<close>

section \<open>The page\<close>

definition shown :: "oki_term \<Rightarrow> (u8 list \<times> u32) list" where
  "shown t = zip (take (t_line_count t) (t_lines t)) (take (t_line_count t) (t_colors t))"

definition last_rows :: "nat \<Rightarrow> 'a list \<Rightarrow> 'a list" where
  "last_rows n xs = drop (length xs - n) xs"

fun term_prints :: "(u8 list \<times> u32) list \<Rightarrow> oki_term \<Rightarrow> oki_term option" where
  "term_prints [] t = Some t"
| "term_prints ((str, color) # ls) t = do { t \<leftarrow> term_println str color t; term_prints ls t }"

lemma last_rows_append: "last_rows n (last_rows n xs @ ys) = last_rows n (xs @ ys)"
proof (cases "length xs \<le> n")
  case False
  have "drop (length (drop (length xs - n) xs @ ys) - n) (drop (length xs - n) xs @ ys) =
      drop (length ys) (drop (length xs - n) (xs @ ys))" using False by (simp add: drop_append [symmetric])
  also have "\<dots> = drop (length (xs @ ys) - n) (xs @ ys)" using False by (simp del: drop_append add: add.commute)
  finally show ?thesis unfolding last_rows_def .
qed (simp add: last_rows_def)

lemma println_shown:
  assumes "term_ok t"
  shows "\<exists>t'. term_println str c t = Some t' \<and> term_ok t' \<and> shown t' = last_rows 18 (shown t @ [(take 58 str, c)])"
proof (cases "t_line_count t < 18")
  case True
  then have eq: "term_println str c t = Some (t\<lparr>t_lines := (t_lines t)[t_line_count t := take 58 str],
      t_colors := (t_colors t)[t_line_count t := c], t_line_count := t_line_count t + 1\<rparr>)"
    using assms by (simp add: term_println_def term_ok_def Let_def)
  have "shown (t\<lparr>t_lines := (t_lines t)[t_line_count t := take 58 str], t_colors := (t_colors t)[t_line_count t := c],
      t_line_count := t_line_count t + 1\<rparr>) = shown t @ [(take 58 str, c)]"
    using True assms by (simp add: shown_def term_ok_def take_Suc_conv_app_nth)
  moreover have "length (shown t) = t_line_count t" using assms by (simp add: shown_def term_ok_def)
  ultimately show ?thesis using eq assms True by (simp add: term_ok_def last_rows_def)
next
  case False
  have len: "length (t_lines t) = 18" "length (t_colors t) = 18" "t_line_count t = 18" using assms False by (simp_all add: term_ok_def)
  define u where "u = term_scroll_up t"
  have u: "length (t_lines u) = 18" "length (t_colors u) = 18" "t_line_count u = 17"
    "take 17 (t_lines u) = drop 1 (t_lines t)" "take 17 (t_colors u) = drop 1 (t_colors t)"
    using len shift_down_eq [of 0 17 "t_lines t"] shift_down_eq [of 0 17 "t_colors t"] by (simp_all add: u_def term_scroll_up_def)
  have eq: "term_println str c t = Some (u\<lparr>t_lines := (t_lines u)[17 := take 58 str], t_colors := (t_colors u)[17 := c], t_line_count := 18\<rparr>)"
    using len u(1-3) by (simp add: term_println_def Let_def u_def [symmetric])
  have "take 18 ((t_lines u)[17 := take 58 str]) = drop 1 (t_lines t) @ [take 58 str]"
    "take 18 ((t_colors u)[17 := c]) = drop 1 (t_colors t) @ [c]"
    using u take_Suc_conv_app_nth [of 17 "(t_lines u)[17 := take 58 str]"] take_Suc_conv_app_nth [of 17 "(t_colors u)[17 := c]"] len
    by simp_all
  then have "shown (u\<lparr>t_lines := (t_lines u)[17 := take 58 str], t_colors := (t_colors u)[17 := c], t_line_count := 18\<rparr>) =
      drop 1 (shown t) @ [(take 58 str, c)]"
    using len by (simp add: shown_def drop_zip)
  moreover have "length (shown t) = 18" using len by (simp add: shown_def)
  moreover have "term_ok u" using assms u(1-3) by (simp add: term_ok_def u_def term_scroll_up_def)
  ultimately show ?thesis using eq by (simp add: term_ok_def last_rows_def)
qed

text \<open>
  C32: the terminal is a page over its history. Whatever is printed, and however much, \<open>term_println\<close> returns,
  and the window shows the last 18 lines of everything printed so far, in order, each cut to 58 characters
  and in its colour.
\<close>

theorem terminal_shows_last:
  assumes "term_ok t"
  shows "\<exists>t'. term_prints ls t = Some t' \<and> term_ok t' \<and>
    shown t' = last_rows 18 (shown t @ map (\<lambda>(str, c). (take 58 str, c)) ls)"
  using assms
proof (induction ls arbitrary: t)
  case Nil
  then show ?case by (simp add: shown_def term_ok_def last_rows_def)
next
  case (Cons l ls)
  obtain str c where l: "l = (str, c)" by (cases l)
  obtain u where u: "term_println str c t = Some u" "term_ok u" "shown u = last_rows 18 (shown t @ [(take 58 str, c)])"
    using println_shown [OF Cons.prems] by blast
  obtain t' where t': "term_prints ls u = Some t'" "term_ok t'"
      "shown t' = last_rows 18 (shown u @ map (\<lambda>(str, c). (take 58 str, c)) ls)"
    using Cons.IH [OF u(2)] by blast
  then show ?case using u(1) by (simp add: l u(3) last_rows_append)
qed

theorem terminal_shows_last_witness:
  "\<exists>t. term_prints (map (\<lambda>i. ([of_nat i], 7)) [0..<20]) no_term = Some t \<and> shown t = map (\<lambda>i. ([of_nat i], 7)) [2..<20]"
proof -
  have ok: "term_ok no_term" by (simp add: term_ok_def no_term_def)
  have e: "shown no_term = []" by (simp add: shown_def no_term_def)
  show ?thesis using terminal_shows_last [OF ok, of "map (\<lambda>i. ([of_nat i], 7)) [0..<20]"] unfolding e
    by (auto simp: last_rows_def drop_map comp_def numeral_2_eq_2 simp del: upt_rec_numeral)
qed

section \<open>The line editor\<close>

fun type_chars :: "u8 list \<Rightarrow> oki \<Rightarrow> oki option" where
  "type_chars [] s = Some s"
| "type_chars (c # cs) s = do { s \<leftarrow> oki_handle_char c s; type_chars cs s }"

text \<open>Backspace takes back the last character; a printable character is added while there is room for 50.\<close>

definition edit_line :: "u8 list \<Rightarrow> u8 \<Rightarrow> u8 list" where
  "edit_line acc c =
     (if c = 8 then butlast acc else if 32 \<le> c \<and> c < 127 \<and> length acc < 50 then acc @ [c] else acc)"

definition line_is :: "oki_term \<Rightarrow> u8 list \<Rightarrow> bool" where
  "line_is t acc \<longleftrightarrow> t_input_len t = length acc \<and> take (length acc) (t_input t) = acc \<and> t_input t ! length acc = 0 \<and> 0 \<notin> set acc"

definition term_focused :: "oki \<Rightarrow> bool" where
  "term_focused s \<longleftrightarrow> 0 \<le> d_focused (desktop s) \<and> d_windows (desktop s) ! nat (d_focused (desktop s)) = t_win (g_term s)"

lemma term_focused_live:
  assumes "oki_ok W H P s" "term_focused s"
  shows "term_live s" "slot s (d_focused (desktop s)) = Some (t_win (g_term s))" "t_win (g_term s) \<noteq> 0"
proof -
  have d: "desk_ok (desktop s)" using assms(1) by (rule oki_ok_desk)
  then obtain win where w: "slot s (d_focused (desktop s)) = Some win" "win \<in> set (windows_of (desktop s))"
    using slot_window [OF d, of "d_focused (desktop s)"] assms(2) by (auto simp: desk_ok_def term_focused_def)
  moreover have "win = t_win (g_term s)" using w(1) assms(2) by (auto simp: slot_def term_focused_def split: if_splits)
  ultimately show "term_live s" "slot s (d_focused (desktop s)) = Some (t_win (g_term s))" "t_win (g_term s) \<noteq> 0"
    using windows_nonzero [OF assms(1)] by (auto simp: term_live_def)
qed

text \<open>A new input line that keeps the window, then a redrawing of the terminal.\<close>

lemma set_line:
  assumes s: "oki_ok W H P s" "term_focused s" and t: "term_ok t" "t_win t = t_win (g_term s)"
  shows "\<exists>u. term_render (set_term t s) = Some u \<and> oki_ok W H P u \<and> term_focused u \<and> g_term u = t"
proof -
  have "oki_ok W H P (set_term t s)" using oki_ok_term [OF s(1) t(1)] by (simp add: set_term_def)
  moreover have "term_live (set_term t s)" using term_focused_live(1) [OF s] t(2) by (simp add: term_live_def set_term_def)
  ultimately obtain u where "term_render (set_term t s) = Some u" "oki_ok W H P u" "g_term u = t"
      "d_windows (desktop u) = d_windows (desktop s)" "d_focused (desktop u) = d_focused (desktop s)"
    using render_ok by (fastforce simp: set_term_def)
  then show ?thesis using s(2) t(2) by (simp add: term_focused_def)
qed

lemma type_char:
  assumes s: "oki_ok W H P s" "term_focused s" "line_is (g_term s) acc" "length acc \<le> 50" and c: "c \<noteq> 10" "c \<noteq> 3"
  shows "\<exists>u. oki_handle_char c s = Some u \<and> oki_ok W H P u \<and> term_focused u \<and> line_is (g_term u) (edit_line acc c) \<and>
    length (edit_line acc c) \<le> 50"
proof -
  let ?t = "g_term s"
  note live = term_focused_live [OF s(1,2)]
  have tk: "term_ok ?t" using s(1) by (simp add: oki_ok_def)
  have foc: "\<not> d_focused (desktop s) < 0" using s(2) by (simp add: term_focused_def)
  have len: "t_input_len ?t = length acc" "length (t_input ?t) = 51" using s(3) tk by (simp_all add: line_is_def term_ok_def)
  have noop: "edit_line acc c = acc \<and> oki_handle_char c s = Some s"
    if "c = 8 \<Longrightarrow> acc = []" "c \<noteq> 8 \<Longrightarrow> \<not> (32 \<le> c \<and> c < 127 \<and> length acc < 50)"
    using live(2,3) foc len(1) c that by (cases "c = 8") (auto simp: edit_line_def oki_handle_char_def)
  consider "c = 8" "acc \<noteq> []" | "c \<noteq> 8" "32 \<le> c \<and> c < 127 \<and> length acc < 50" | "edit_line acc c = acc" "oki_handle_char c s = Some s"
    using noop by blast
  then show ?thesis
  proof cases
    case 1
    let ?n = "length acc - 1"
    let ?u = "?t\<lparr>t_input_len := ?n, t_input := (t_input ?t)[?n := 0]\<rparr>"
    have n: "?n < length acc" using 1(2) by simp
    moreover have "?n < 51" using s(4) by linarith
    ultimately have "oki_handle_char c s = term_render (set_term ?u s)"
      using live(2,3) foc len s(4) 1 by (simp add: oki_handle_char_def put_input_def)
    moreover have "term_ok ?u" "t_win ?u = t_win ?t" using tk s(4) by (simp_all add: term_ok_def)
    moreover have "line_is ?u (butlast acc)"
    proof -
      have "take ?n (t_input ?t) = take ?n (take (length acc) (t_input ?t))" using n by simp
      also have "\<dots> = butlast acc" using s(3) by (simp add: line_is_def butlast_conv_take)
      finally have "take ?n (t_input ?t) = butlast acc" .
      then show ?thesis using s(3,4) len n in_set_butlastD [of 0 acc] by (auto simp: line_is_def)
    qed
    ultimately show ?thesis using set_line [OF s(1,2), of ?u] s(4) 1 by (auto simp: edit_line_def)
  next
    case 2
    let ?n = "length acc"
    let ?u = "?t\<lparr>t_input_len := ?n + 1, t_input := (t_input ?t)[?n := c, ?n + 1 := 0]\<rparr>"
    have "oki_handle_char c s = term_render (set_term ?u s)"
      using live(2,3) foc len 2 c by (simp add: oki_handle_char_def put_input_def Let_def)
    moreover have "term_ok ?u" "t_win ?u = t_win ?t" using tk 2 by (simp_all add: term_ok_def)
    moreover have "c \<noteq> 0" using 2 by auto
    then have "line_is ?u (acc @ [c])"
      using s(3) 2 len by (simp add: line_is_def take_Suc_conv_app_nth)
    ultimately show ?thesis using set_line [OF s(1,2), of ?u] 2 by (auto simp: edit_line_def)
  next
    case 3
    then show ?thesis using s by auto
  qed
qed

lemma line_text: "line_is t acc \<Longrightarrow> length (t_input t) = 51 \<Longrightarrow> length acc \<le> 50 \<Longrightarrow> input_text t = acc"
proof -
  assume a: "line_is t acc" "length (t_input t) = 51" "length acc \<le> 50"
  have "t_input t = acc @ 0 # drop (length acc + 1) (t_input t)"
    using a id_take_nth_drop [of "length acc" "t_input t"] by (simp add: line_is_def)
  moreover have "\<forall>c \<in> set acc. c \<noteq> 0" using a(1) by (auto simp: line_is_def)
  moreover have "takeWhile (\<lambda>c. c \<noteq> 0) (acc @ 0 # r) = acc" if "\<forall>c \<in> set acc. c \<noteq> 0" for r
    using that by simp
  ultimately show ?thesis unfolding input_text_def by metis
qed

text \<open>
  The input line is a line editor. While the terminal has the focus and its line is empty, any sequence
  of characters without Enter and Ctrl-C returns and leaves as the command, which Enter would execute,
  exactly what was typed: printable characters in order, each backspace taking back the last one, everything
  beyond 50 characters and every other character ignored; the terminal keeps the focus.
\<close>

theorem terminal_line:
  assumes "oki_ok W H P s" and "term_focused s" and "line_is (g_term s) []" and "10 \<notin> set cs" and "3 \<notin> set cs"
  shows "\<exists>t. type_chars cs s = Some t \<and> oki_ok W H P t \<and> term_focused t \<and> input_text (g_term t) = foldl edit_line [] cs \<and>
    length (foldl edit_line [] cs) \<le> 50"
proof -
  have "\<exists>t. type_chars cs s = Some t \<and> oki_ok W H P t \<and> term_focused t \<and> line_is (g_term t) (foldl edit_line acc cs) \<and>
      length (foldl edit_line acc cs) \<le> 50"
    if "oki_ok W H P s" "term_focused s" "line_is (g_term s) acc" "length acc \<le> 50" "10 \<notin> set cs" "3 \<notin> set cs" for acc s
    using that
  proof (induction cs arbitrary: acc s)
    case (Cons c cs)
    obtain u where u: "oki_handle_char c s = Some u" "oki_ok W H P u" "term_focused u" "line_is (g_term u) (edit_line acc c)"
        "length (edit_line acc c) \<le> 50"
      using type_char [OF Cons.prems(1-4), of c] Cons.prems(5,6) by auto
    then show ?case using Cons.IH [OF u(2-5)] Cons.prems(5,6) by simp
  qed simp
  from this [OF assms(1-3) _ assms(4,5)] obtain t where t: "type_chars cs s = Some t" "oki_ok W H P t" "term_focused t"
      "line_is (g_term t) (foldl edit_line [] cs)" "length (foldl edit_line [] cs) \<le> 50" by auto
  have "length (t_input (g_term t)) = 51" using t(2) by (simp add: oki_ok_def term_ok_def)
  then show ?thesis using t line_text by blast
qed

text \<open>The demonstration desktop with its window as the terminal.\<close>

definition demo_shell :: oki where
  "demo_shell = upd_desktop (\<lambda>d. d\<lparr>d_focused := 0\<rparr>) (demo_desk\<lparr>g_term := no_term\<lparr>t_win := 0x20000C\<rparr>\<rparr>)"

lemma demo_shell_ok: "oki_ok 3 2 4 demo_shell" "term_focused demo_shell" "line_is (g_term demo_shell) []"
proof -
  have "term_ok (no_term\<lparr>t_win := 0x20000C\<rparr>)" by (simp add: term_ok_def no_term_def)
  then have "oki_ok 3 2 4 (demo_desk\<lparr>g_term := no_term\<lparr>t_win := 0x20000C\<rparr>\<rparr>)" by (rule oki_ok_term [OF demo_desk_ok])
  moreover have "desktop (demo_desk\<lparr>g_term := no_term\<lparr>t_win := 0x20000C\<rparr>\<rparr>) = desktop demo_desk" by simp
  ultimately show "oki_ok 3 2 4 demo_shell"
    unfolding demo_shell_def using oki_ok_desk [OF demo_desk_ok]
    by (intro oki_ok_desktop) (simp_all add: desk_ok_def windows_of_def demo_desk_windows)
  show "term_focused demo_shell" "line_is (g_term demo_shell) []"
    by (simp_all add: demo_shell_def term_focused_def upd_desktop_def line_is_def no_term_def demo_desk_windows)
qed

theorem terminal_line_witness:
  "\<exists>t. type_chars [108, 112, 8, 115] demo_shell = Some t \<and> input_text (g_term t) = chars ''ls''"
  using terminal_line [OF demo_shell_ok, of "[108, 112, 8, 115]"] by (auto simp: edit_line_def chars_def)

end
