(* ===== verification/Interrupts.thy ===== *)
theory Interrupts
  imports Oki_Desktop
begin

text \<open>
  Descriptor tables, interrupt controllers, timer and interrupt dispatch: \<open>kernel/gdt.c\<close>, \<open>kernel/idt.c\<close>,
  \<open>kernel/pic.c\<close>, \<open>kernel/pit.c\<close>. The tables are lists of descriptors; the addresses the linker gives (the
  interrupt stubs, the task state segment) are arguments. Port writes are lists of port and byte, bytes read
  from ports are arguments; \<open>io_wait\<close>, serial output and the loading of the tables are left out. \<open>None\<close> is an
  access outside an array, a division by zero, or the end of the machine (a panic halts).
\<close>

section \<open>Segments\<close>

record gdt_entry =
  limit_low :: u16
  gdt_base_low :: u16
  base_middle :: u8
  access :: u8
  granularity :: u8
  gdt_base_high :: u8

definition gdt_set_gate :: "nat \<Rightarrow> u32 \<Rightarrow> u32 \<Rightarrow> u8 \<Rightarrow> u8 \<Rightarrow> gdt_entry list \<Rightarrow> gdt_entry list" where
  "gdt_set_gate num base limit acc gran gdt =
     gdt[num := \<lparr>limit_low = ucast (limit AND 0xFFFF), gdt_base_low = ucast (base AND 0xFFFF),
       base_middle = ucast (drop_bit 16 base AND 0xFF), access = acc,
       granularity = ucast (drop_bit 16 limit AND 0x0F) OR (gran AND 0xF0),
       gdt_base_high = ucast (drop_bit 24 base AND 0xFF)\<rparr>]"

text \<open>The fields of the task state segment that are not left zero.\<close>

record tss_entry =
  tss_esp0 :: u32
  tss_ss0 :: u32
  tss_cs :: u32
  tss_data :: u32
  iomap_base :: u16

abbreviation (input) SIZEOF_TSS :: u32 where "SIZEOF_TSS \<equiv> 104"

definition write_tss :: "nat \<Rightarrow> u16 \<Rightarrow> u32 \<Rightarrow> u32 \<Rightarrow> gdt_entry list \<Rightarrow> gdt_entry list \<times> tss_entry" where
  "write_tss num ss0 esp0 tss gdt =
     (let base = tss; limit = base + SIZEOF_TSS
      in (gdt_set_gate num base limit 0xE9 0x00 gdt,
          \<lparr>tss_esp0 = esp0, tss_ss0 = ucast ss0, tss_cs = 0x08 OR 0x3, tss_data = 0x10 OR 0x3, iomap_base = 104\<rparr>))"

definition zero_gdt :: gdt_entry where
  "zero_gdt = \<lparr>limit_low = 0, gdt_base_low = 0, base_middle = 0, access = 0, granularity = 0, gdt_base_high = 0\<rparr>"

definition gdt_init :: "u32 \<Rightarrow> gdt_entry list \<times> tss_entry" where
  "gdt_init tss =
     (let gdt = replicate 6 zero_gdt;
          gdt = gdt_set_gate 0 0 0 0 0 gdt;
          gdt = gdt_set_gate 1 0 0xFFFFFFFF 0x9A 0xCF gdt;
          gdt = gdt_set_gate 2 0 0xFFFFFFFF 0x92 0xCF gdt;
          gdt = gdt_set_gate 3 0 0xFFFFFFFF 0xFA 0xCF gdt;
          gdt = gdt_set_gate 4 0 0xFFFFFFFF 0xF2 0xCF gdt
      in write_tss 5 0x10 0 tss gdt)"

definition gdt_set_kernel_stack :: "u32 \<Rightarrow> tss_entry \<Rightarrow> tss_entry" where
  "gdt_set_kernel_stack stack t = t\<lparr>tss_esp0 := stack\<rparr>"

section \<open>Interrupt gates\<close>

record idt_entry =
  idt_base_low :: u16
  sel :: u16
  always0 :: u8
  idt_flags :: u8
  idt_base_high :: u16

definition idt_set_gate :: "u8 \<Rightarrow> u32 \<Rightarrow> u16 \<Rightarrow> u8 \<Rightarrow> idt_entry list \<Rightarrow> idt_entry list" where
  "idt_set_gate num base s flags idt =
     idt[unat num := \<lparr>idt_base_low = ucast (base AND 0xFFFF), sel = s, always0 = 0, idt_flags = flags,
       idt_base_high = ucast (drop_bit 16 base AND 0xFFFF)\<rparr>]"

definition zero_gate :: idt_entry where
  "zero_gate = \<lparr>idt_base_low = 0, sel = 0, always0 = 0, idt_flags = 0, idt_base_high = 0\<rparr>"

text \<open>The gates 0 to 47 one after the other, then the gate of system calls; \<open>stub n\<close> is the address of \<open>isrn\<close>, or \<open>irqn-32\<close>.\<close>

definition idt_init :: "(nat \<Rightarrow> u32) \<Rightarrow> idt_entry list" where
  "idt_init stub =
     (let idt = replicate 256 zero_gate;
          idt = foldl (\<lambda>idt n. idt_set_gate (of_nat n) (stub n) 0x08 0x8E idt) idt [0..<48]
      in idt_set_gate 128 (stub 128) 0x08 0xEE idt)"

section \<open>Interrupt controllers\<close>

abbreviation (input) PIC1_CMD :: u16 where "PIC1_CMD \<equiv> 0x20"
abbreviation (input) PIC1_DATA :: u16 where "PIC1_DATA \<equiv> 0x21"
abbreviation (input) PIC2_CMD :: u16 where "PIC2_CMD \<equiv> 0xA0"
abbreviation (input) PIC2_DATA :: u16 where "PIC2_DATA \<equiv> 0xA1"
abbreviation (input) PIC_EOI :: u8 where "PIC_EOI \<equiv> 0x20"

text \<open>The arguments are the bytes read from the data ports.\<close>

definition pic_init :: "u8 \<Rightarrow> u8 \<Rightarrow> (u16 \<times> u8) list" where
  "pic_init mask1 mask2 =
     [(PIC1_CMD, 0x11), (PIC2_CMD, 0x11), (PIC1_DATA, 0x20), (PIC2_DATA, 0x28), (PIC1_DATA, 0x04), (PIC2_DATA, 0x02),
      (PIC1_DATA, 0x01), (PIC2_DATA, 0x01), (PIC1_DATA, mask1), (PIC2_DATA, mask2)]"

definition pic_send_eoi :: "u8 \<Rightarrow> (u16 \<times> u8) list" where
  "pic_send_eoi irq = (if 8 \<le> irq then [(PIC2_CMD, PIC_EOI)] else []) @ [(PIC1_CMD, PIC_EOI)]"

definition pic_port :: "u8 \<Rightarrow> u16 \<times> u8" where
  "pic_port irq = (if irq < 8 then (PIC1_DATA, irq) else (PIC2_DATA, irq - 8))"

definition pic_set_mask :: "u8 \<Rightarrow> (u16 \<Rightarrow> u8) \<Rightarrow> (u16 \<times> u8) list" where
  "pic_set_mask irq inb = (let (port, n) = pic_port irq in [(port, inb port OR push_bit (unat n) 1)])"

definition pic_clear_mask :: "u8 \<Rightarrow> (u16 \<Rightarrow> u8) \<Rightarrow> (u16 \<times> u8) list" where
  "pic_clear_mask irq inb = (let (port, n) = pic_port irq in [(port, inb port AND NOT (push_bit (unat n) 1))])"

section \<open>Timer\<close>

record pit =
  pit_ticks :: u32
  pit_hz :: u32

definition pit_init :: "u32 \<Rightarrow> pit \<Rightarrow> ((u16 \<times> u8) list \<times> pit) option" where
  "pit_init frequency s =
     (if frequency = 0 then None
      else let s = s\<lparr>pit_hz := frequency, pit_ticks := 0\<rparr>; divisor = 1193180 div frequency
           in Some ([(0x43, 0x36), (0x40, ucast (divisor AND 0xFF)), (0x40, ucast (drop_bit 8 divisor AND 0xFF))], s))"

definition pit_callback :: "pit \<Rightarrow> pit" where
  "pit_callback s = s\<lparr>pit_ticks := pit_ticks s + 1\<rparr>"

text \<open>\<open>while (tick_count < target) hlt;\<close>: each \<open>hlt\<close> lasts until the next tick.\<close>

function sleep_until :: "u32 \<Rightarrow> pit \<Rightarrow> pit" where
  "sleep_until target s = (if pit_ticks s < target then sleep_until target (pit_callback s) else s)"
  by pat_completeness auto
termination
proof (relation "measure (\<lambda>(target, s). unat target - unat (pit_ticks s))", goal_cases)
  case (2 target s)
  then show ?case using u32_step_less [of "pit_ticks s" target] by (simp add: pit_callback_def unat_less_u32)
qed simp

declare sleep_until.simps [simp del]

definition pit_sleep :: "u32 \<Rightarrow> pit \<Rightarrow> pit" where
  "pit_sleep ms s = (let target = pit_ticks s + ms * pit_hz s div 1000 in sleep_until target s)"

section \<open>Dispatch\<close>

text \<open>The functions that are registered.\<close>

datatype isr_fun = Page_fault_handler | Syscall_handler | Pit_callback | Keyboard_callback | Mouse_irq12

type_synonym isr_table = "isr_fun option list"

definition isr_register_handler :: "u8 \<Rightarrow> isr_fun \<Rightarrow> isr_table \<Rightarrow> isr_table" where
  "isr_register_handler n h t = t[unat n := Some h]"

definition irq_register_handler :: "u8 \<Rightarrow> isr_fun \<Rightarrow> isr_table \<Rightarrow> isr_table option" where
  "irq_register_handler irq h t = (if unat irq + 32 < length t then Some (t[unat irq + 32 := Some h]) else None)"

text \<open>What \<open>kernel_main\<close> registers, in its order: timer, page faults, keyboard, mouse, system calls.\<close>

definition boot_handlers :: "isr_table option" where
  "boot_handlers =
     do { t \<leftarrow> irq_register_handler 0 Pit_callback (replicate 256 None);
          let t = isr_register_handler 14 Page_fault_handler t;
          t \<leftarrow> irq_register_handler 1 Keyboard_callback t;
          t \<leftarrow> irq_register_handler 12 Mouse_irq12 t;
          Some (isr_register_handler 128 Syscall_handler t) }"

text \<open>The effect of a handler of a device, with the byte at port \<open>0x60\<close>. The other two are not for interrupts of devices.\<close>

fun run_handler :: "isr_fun \<Rightarrow> u8 \<Rightarrow> oki \<Rightarrow> oki option" where
  "run_handler Pit_callback b s = Some (s\<lparr>tick_count := tick_count s + 1\<rparr>)"
| "run_handler Keyboard_callback b s = Some (s\<lparr>typing := keyboard_callback b (typing s)\<rparr>)"
| "run_handler Mouse_irq12 b s = oki_mouse_byte b s"
| "run_handler Page_fault_handler b s = None"
| "run_handler Syscall_handler b s = None"

definition irq_handler :: "isr_table \<Rightarrow> u32 \<Rightarrow> u8 \<Rightarrow> oki \<Rightarrow> ((u16 \<times> u8) list \<times> oki) option" where
  "irq_handler t int_no b s =
     (if unat int_no < length t
      then do { s \<leftarrow> (case t ! unat int_no of None \<Rightarrow> Some s | Some h \<Rightarrow> run_handler h b s);
                Some (pic_send_eoi (ucast (int_no - 32)), s) }
      else None)"

definition exception_messages :: "string list" where
  "exception_messages = [''Division By Zero'', ''Debug'', ''Non Maskable Interrupt'', ''Breakpoint'', ''Into Detected Overflow'',
     ''Out of Bounds'', ''Invalid Opcode'', ''No Coprocessor'', ''Double Fault'', ''Coprocessor Segment Overrun'', ''Bad TSS'',
     ''Segment Not Present'', ''Stack Fault'', ''General Protection Fault'', ''Page Fault'', ''Unknown Interrupt'',
     ''Coprocessor Fault'', ''Alignment Check'', ''Machine Check''] @ replicate 13 ''Reserved''"

text \<open>A handler is called, or the message is printed and the machine halts.\<close>

datatype isr_result = Handled isr_fun | Panic string

definition isr_handler :: "isr_table \<Rightarrow> u32 \<Rightarrow> isr_result option" where
  "isr_handler t int_no =
     (if unat int_no < length t
      then Some (case t ! unat int_no of
             Some h \<Rightarrow> Handled h
           | None \<Rightarrow> Panic (''Exception: '' @ (if int_no < 32 then exception_messages ! unat int_no else [])))
      else None)"

section \<open>What the hardware reads\<close>

text \<open>The fields of descriptors as the processor puts them together.\<close>

definition seg_base :: "gdt_entry \<Rightarrow> u32" where
  "seg_base e = ucast (gdt_base_low e) OR push_bit 16 (ucast (base_middle e)) OR push_bit 24 (ucast (gdt_base_high e))"

definition seg_limit :: "gdt_entry \<Rightarrow> nat" where
  "seg_limit e = unat (limit_low e) + 65536 * (unat (granularity e) mod 16)"

definition seg_bytes :: "gdt_entry \<Rightarrow> nat" where
  "seg_bytes e = (seg_limit e + 1) * (if bit (granularity e) 7 then 4096 else 1)"

definition dpl :: "u8 \<Rightarrow> nat" where
  "dpl flags = unat flags div 32 mod 4"

definition gate_offset :: "idt_entry \<Rightarrow> u32" where
  "gate_offset e = ucast (idt_base_low e) OR push_bit 16 (ucast (idt_base_high e))"

lemma gate_base: "(ucast (ucast (base AND 0xFFFF) :: u16) OR push_bit 16 (ucast (ucast (drop_bit 16 base AND 0xFFFF) :: u16)) :: u32) = base"
proof -
  have m: "(0xFFFF :: u32) = mask 16" by (simp add: mask_eq_exp_minus_1)
  show ?thesis
    unfolding m by (rule bit_word_eqI) (auto simp: bit_simps)
qed

lemma segment_base:
  "(ucast (ucast (base AND 0xFFFF) :: u16) OR push_bit 16 (ucast (ucast (drop_bit 16 base AND 0xFF) :: u8)) OR
    push_bit 24 (ucast (ucast (drop_bit 24 base AND 0xFF) :: u8)) :: u32) = base"
proof -
  have m: "(0xFFFF :: u32) = mask 16" "(0xFF :: u32) = mask 8" by (simp_all add: mask_eq_exp_minus_1)
  show ?thesis
  proof (rule bit_word_eqI)
    fix n assume "n < LENGTH(32)"
    then consider "n < 16" | "16 \<le> n" "n < 24" | "24 \<le> n" "n < 32" by fastforce
    then show "bit (ucast (ucast (base AND 0xFFFF) :: u16) OR push_bit 16 (ucast (ucast (drop_bit 16 base AND 0xFF) :: u8)) OR
        push_bit 24 (ucast (ucast (drop_bit 24 base AND 0xFF) :: u8)) :: u32) n = bit base n"
      unfolding m by cases (auto simp: bit_simps)
  qed
qed

section \<open>The tables\<close>

lemma gates_nth:
  assumes "length idt = 256" "n < 256"
  shows "k \<le> 256 \<Longrightarrow> length (foldl (\<lambda>idt n. idt_set_gate (of_nat n) (stub n) 0x08 0x8E idt) idt [0..<k]) = 256 \<and>
    foldl (\<lambda>idt n. idt_set_gate (of_nat n) (stub n) 0x08 0x8E idt) idt [0..<k] ! n =
      (if n < k then \<lparr>idt_base_low = ucast (stub n AND 0xFFFF), sel = 0x08, always0 = 0, idt_flags = 0x8E,
         idt_base_high = ucast (drop_bit 16 (stub n) AND 0xFFFF)\<rparr> else idt ! n)"
proof (induction k)
  case (Suc k)
  have "unat (of_nat k :: u8) = k" using Suc.prems by (simp add: unat_of_nat take_bit_eq_mod)
  then show ?case using Suc assms by (auto simp: idt_set_gate_def nth_list_update)
qed (use assms in simp)

text \<open>
  The interrupt table is complete and exact. After \<open>idt_init\<close> the processor finds, for each exception and
  interrupt of a device (0 to 47) and for system calls (128), a present 32-bit interrupt gate of the kernel
  code segment at the address of its stub, which a program can call only for system calls; every other
  gate is not present.
\<close>

theorem idt_complete:
  "length (idt_init stub) = 256 \<and>
   (\<forall>n < 256. let e = idt_init stub ! n in
      if n < 48 \<or> n = 128
      then gate_offset e = stub n \<and> sel e = 0x08 \<and> bit (idt_flags e) 7 \<and> unat (idt_flags e) mod 16 = 14 \<and>
        dpl (idt_flags e) = (if n = 128 then 3 else 0)
      else \<not> bit (idt_flags e) 7)"
proof -
  let ?idt = "foldl (\<lambda>idt n. idt_set_gate (of_nat n) (stub n) 0x08 0x8E idt) (replicate 256 zero_gate) [0..<48]"
  let ?gate = "\<lambda>n f. \<lparr>idt_base_low = ucast (stub n AND 0xFFFF), sel = 0x08, always0 = 0, idt_flags = f,
    idt_base_high = ucast (drop_bit 16 (stub n) AND 0xFFFF)\<rparr>"
  have len: "length ?idt = 256" using gates_nth [of "replicate 256 zero_gate" 0 48] by simp
  have eq: "idt_init stub ! n = (if n = 128 then ?gate 128 0xEE else if n < 48 then ?gate n 0x8E else zero_gate)" if "n < 256" for n
    using gates_nth [of "replicate 256 zero_gate" n 48 stub] that len
    by (auto simp: idt_init_def idt_set_gate_def nth_list_update Let_def)
  have "length (idt_init stub) = 256" using len by (simp add: idt_init_def idt_set_gate_def)
  moreover have "gate_offset (?gate n f) = stub n" for n f by (simp only: gate_offset_def idt_entry.select_convs gate_base)
  moreover have "bit (0x8E :: u8) 7" "bit (0xEE :: u8) 7" by simp_all
  ultimately show ?thesis by (auto simp: eq Let_def dpl_def zero_gate_def)
qed

theorem idt_complete_witness:
  "gate_offset (idt_init of_nat ! 33) = 33 \<and> dpl (idt_flags (idt_init of_nat ! 33)) = 0 \<and>
   dpl (idt_flags (idt_init of_nat ! 128)) = 3 \<and> \<not> bit (idt_flags (idt_init of_nat ! 48)) 7"
proof -
  let ?s = "of_nat :: nat \<Rightarrow> u32"
  have e: "let e = idt_init ?s ! n in
      if n < 48 \<or> n = 128
      then gate_offset e = ?s n \<and> sel e = 0x08 \<and> bit (idt_flags e) 7 \<and> unat (idt_flags e) mod 16 = 14 \<and>
        dpl (idt_flags e) = (if n = 128 then 3 else 0)
      else \<not> bit (idt_flags e) 7" if "n < 256" for n
    using idt_complete [of ?s] that by blast
  show ?thesis using e [of 33] e [of 128] e [of 48] by (simp add: Let_def)
qed

text \<open>
  The segments are flat. After \<open>gdt_init\<close> segments 1 to 4 start at 0 and span the whole 4 GiB, code and
  data of the kernel with privilege 0 and of programs with privilege 3. Segment 5 starts at the task state
  segment, but its limit is the end address of it instead of its size less one, cut to 20 bits: unless that
  happens to be 103, the segment is too long or too short.
\<close>

theorem gdt_segments:
  "(\<forall>n \<in> {1, 2, 3, 4}. let e = fst (gdt_init tss) ! n in seg_base e = 0 \<and> seg_bytes e = 4294967296 \<and>
      dpl (access e) = (if n \<le> 2 then 0 else 3) \<and> bit (access e) 3 = (n = 1 \<or> n = 3)) \<and>
   seg_base (fst (gdt_init tss) ! 5) = tss \<and> seg_bytes (fst (gdt_init tss) ! 5) = unat (tss + 104) mod 1048576 + 1"
proof -
  have flat: "fst (gdt_init tss) ! n = \<lparr>limit_low = 0xFFFF, gdt_base_low = 0, base_middle = 0,
      access = [0, 0x9A, 0x92, 0xFA, 0xF2] ! n, granularity = 0xCF, gdt_base_high = 0\<rparr>" if "n \<in> {1, 2, 3, 4}" for n
    using that by (auto simp: gdt_init_def write_tss_def gdt_set_gate_def Let_def nth_list_update)
  have tss: "fst (gdt_init tss) ! 5 = \<lparr>limit_low = ucast ((tss + 104) AND 0xFFFF), gdt_base_low = ucast (tss AND 0xFFFF),
      base_middle = ucast (drop_bit 16 tss AND 0xFF), access = 0xE9,
      granularity = ucast (drop_bit 16 (tss + 104) AND 0x0F), gdt_base_high = ucast (drop_bit 24 tss AND 0xFF)\<rparr>"
    by (simp add: gdt_init_def write_tss_def gdt_set_gate_def Let_def)
  have "let e = fst (gdt_init tss) ! n in seg_base e = 0 \<and> seg_bytes e = 4294967296 \<and>
      dpl (access e) = (if n \<le> 2 then 0 else 3) \<and> bit (access e) 3 = (n = 1 \<or> n = 3)" if "n \<in> {1, 2, 3, 4}" for n
    unfolding flat [OF that] using that by (auto simp: seg_base_def seg_bytes_def seg_limit_def dpl_def Let_def)
  moreover have "seg_base (fst (gdt_init tss) ! 5) = tss" by (simp only: tss seg_base_def gdt_entry.select_convs segment_base)
  moreover have "seg_bytes (fst (gdt_init tss) ! 5) = unat (tss + 104) mod 1048576 + 1"
  proof -
    define l where "l = tss + 104"
    have m: "(0xFFFF :: u32) = mask 16" "(0x0F :: u32) = mask 4" by (simp_all add: mask_eq_exp_minus_1)
    have mask: "unat (w AND mask k) = unat w mod 2 ^ k" for w :: u32 and k
      unfolding take_bit_eq_mask [symmetric] by (subst unsigned_take_bit_eq) (simp add: take_bit_eq_mod)
    have "unat (ucast (l AND 0xFFFF) :: u16) = unat l mod 65536"
      unfolding m by (simp add: unsigned_ucast_eq mask take_bit_eq_mod)
    moreover have d: "unat (drop_bit 16 l) = unat l div 65536" 
      by (subst unsigned_drop_bit_eq) (simp add: drop_bit_eq_div take_bit_nat_eq_self)
    have "unat (ucast (drop_bit 16 l AND 0x0F) :: u8) = unat l div 65536 mod 16"
      unfolding m by (simp add: unsigned_ucast_eq mask take_bit_eq_mod mod_mod_cancel d [simplified])
    moreover have "\<not> bit (ucast (drop_bit 16 l AND 0x0F) :: u8) 7" unfolding m by (simp add: bit_simps)
    moreover have "unat l mod 65536 + 65536 * (unat l div 65536 mod 16) = unat l mod 1048576"
      using mod_mult2_eq [of "unat l" 65536 16] by simp
    ultimately show ?thesis unfolding tss seg_bytes_def seg_limit_def gdt_entry.select_convs l_def [symmetric] by simp
  qed
  ultimately show ?thesis by blast
qed

theorem gdt_segments_witness:
  "seg_base (fst (gdt_init 0x120000) ! 3) = 0 \<and> seg_bytes (fst (gdt_init 0x120000) ! 3) = 4294967296 \<and>
   dpl (access (fst (gdt_init 0x120000) ! 3)) = 3 \<and> seg_base (fst (gdt_init 0x120000) ! 5) = 0x120000 \<and>
   seg_bytes (fst (gdt_init 0x120000) ! 5) = 131177"
  using gdt_segments [of "0x120000"] by (simp add: Let_def)

section \<open>Interrupts as events\<close>

lemma boot_table: "\<exists>t. boot_handlers = Some t \<and> length t = 256 \<and>
    (\<forall>n < 256. t ! n = (if n = 32 then Some Pit_callback else if n = 33 then Some Keyboard_callback else if n = 44 then Some Mouse_irq12
       else if n = 14 then Some Page_fault_handler else if n = 128 then Some Syscall_handler else None))"
  by (simp add: boot_handlers_def irq_register_handler_def isr_register_handler_def Let_def nth_list_update)

text \<open>What an interrupt of a device is for the desktop.\<close>

definition irq_event :: "nat \<Rightarrow> u8 \<Rightarrow> oki \<Rightarrow> oki option" where
  "irq_event i b s =
     map_option snd (if i = 0 then oki_event Tick (0, s) else if i = 1 then oki_event (Key b) (0, s)
       else if i = 12 then oki_event (Mouse_byte b) (0, s) else Some (0, s))"

text \<open>
  C23: interrupts of devices reach their drivers. With the handlers that the boot registers, interrupt \<open>i\<close> of
  the 16 lines, which the table sends to vector \<open>32 + i\<close>, does exactly what the event of the desktop says -
  a tick for line 0, a scan code for line 1, a byte of the mouse for line 12, nothing for the others - and
  is then acknowledged: at the second controller if it came from there, and always at the first.
\<close>

theorem irq_delivers:
  assumes "i < 16" and "boot_handlers = Some t"
  shows "irq_handler t (of_nat (32 + i)) b s =
    map_option (Pair ((if 8 \<le> i then [(0xA0, 0x20)] else []) @ [(0x20, 0x20)])) (irq_event i b s)"
proof -
  have t: "length t = 256" "\<forall>n < 256. t ! n = (if n = 32 then Some Pit_callback else if n = 33 then Some Keyboard_callback
      else if n = 44 then Some Mouse_irq12 else if n = 14 then Some Page_fault_handler else if n = 128 then Some Syscall_handler else None)"
  proof -
    obtain t' where t': "boot_handlers = Some t'" "length t' = 256" "\<forall>n < 256. t' ! n = (if n = 32 then Some Pit_callback
        else if n = 33 then Some Keyboard_callback else if n = 44 then Some Mouse_irq12 else if n = 14 then Some Page_fault_handler
        else if n = 128 then Some Syscall_handler else None)"
      using boot_table by blast
    have "t' = t" using t'(1) assms(2) by (metis option.inject)
    then show "length t = 256" "\<forall>n < 256. t ! n = (if n = 32 then Some Pit_callback else if n = 33 then Some Keyboard_callback
        else if n = 44 then Some Mouse_irq12 else if n = 14 then Some Page_fault_handler else if n = 128 then Some Syscall_handler else None)"
      using t'(2,3) by simp_all
  qed
  have u: "unat (of_nat (32 + i) :: u32) = 32 + i" using assms(1) by (intro unat_of_nat_u32) simp
  have e: "(ucast (of_nat (32 + i) - 32 :: u32) :: u8) = of_nat i"
  proof -
    have "(of_nat (32 + i) - 32 :: u32) = of_nat i" by simp
    moreover have "(ucast (of_nat i :: u32) :: u8) = of_nat i" using assms(1)
      by (subst word_unat_eq_iff) (simp add: unsigned_ucast_eq unat_of_nat take_bit_eq_mod)
    ultimately show ?thesis by (simp only:)
  qed
  have "(8 \<le> (of_nat i :: u8)) = (8 \<le> i)" using assms(1) by (simp add: word_le_nat_alt unat_of_nat take_bit_eq_mod)
  then have eoi: "pic_send_eoi (ucast (of_nat (32 + i) - 32 :: u32)) = (if 8 \<le> i then [(0xA0, 0x20)] else []) @ [(0x20, 0x20)]"
    unfolding e pic_send_eoi_def by simp
  have nth: "t ! (32 + i) = (if i = 0 then Some Pit_callback else if i = 1 then Some Keyboard_callback else if i = 12 then Some Mouse_irq12 else None)"
    using t(2) assms(1) by simp
  have "irq_handler t (of_nat (32 + i)) b s = (case (case t ! (32 + i) of None \<Rightarrow> Some s | Some h \<Rightarrow> run_handler h b s) of None \<Rightarrow> None
      | Some s \<Rightarrow> Some ((if 8 \<le> i then [(0xA0, 0x20)] else []) @ [(0x20, 0x20)], s))"
    unfolding irq_handler_def u eoi using t(1) assms(1) by (simp split: bind_splits option.split)
  then show ?thesis unfolding nth irq_event_def by (auto split: option.split)
qed

theorem irq_delivers_witness:
  "\<exists>t. boot_handlers = Some t \<and>
     (\<forall>b s. irq_handler t 44 b s = map_option (Pair [(0xA0, 0x20), (0x20, 0x20)]) (oki_mouse_byte b s))"
proof -
  obtain t where "boot_handlers = Some t" using boot_table by blast
  then show ?thesis using irq_delivers [of 12 t] by (auto simp: irq_event_def option.map_comp comp_def option.map_ident)
qed

section \<open>Sleeping\<close>

lemma sleep_until_reaches:
  "sleep_until target s = s\<lparr>pit_ticks := (if pit_ticks s < target then target else pit_ticks s)\<rparr>"
proof (induction target s rule: sleep_until.induct)
  case (1 target s)
  show ?case
  proof (cases "pit_ticks s < target")
    case True
    then have "unat (pit_ticks s) < unat target" by (simp add: unat_less_u32)
    then have "unat (pit_ticks s + 1) = Suc (unat (pit_ticks s))" using unat_u32_less [of target] by (intro unat_Suc_u32) linarith
    then have "pit_ticks (pit_callback s) < target \<or> pit_ticks (pit_callback s) = target"
      using \<open>unat (pit_ticks s) < unat target\<close> by (auto simp: pit_callback_def unat_less_u32 word_unat_eq_iff)
    then show ?thesis using 1 True by (subst sleep_until.simps) (auto simp: pit_callback_def)
  qed (subst sleep_until.simps, simp)
qed

text \<open>
  C40: sleeping ends, and lasts as long as asked while nothing overflows: \<open>pit_sleep\<close> always returns, and if
  \<open>ms * hz\<close> and the tick it waits for fit in 32 bits exactly \<open>ms * hz / 1000\<close> ticks have passed. When the
  target wraps below the counter it returns at once.
\<close>

theorem pit_sleep_exact:
  "(unat ms * unat (pit_hz s) < 4294967296 \<and> unat (pit_ticks s) + unat ms * unat (pit_hz s) div 1000 < 4294967296 \<longrightarrow>
      unat (pit_ticks (pit_sleep ms s)) = unat (pit_ticks s) + unat ms * unat (pit_hz s) div 1000) \<and>
   (unat (pit_ticks s) + unat (ms * pit_hz s) div 1000 \<ge> 4294967296 \<longrightarrow> pit_sleep ms s = s)"
proof -
  define d where "d = ms * pit_hz s div 1000"
  have d: "unat d = unat (ms * pit_hz s) div 1000" by (simp add: d_def unat_div)
  have eq: "pit_sleep ms s = s\<lparr>pit_ticks := (if pit_ticks s < pit_ticks s + d then pit_ticks s + d else pit_ticks s)\<rparr>"
    by (simp add: pit_sleep_def sleep_until_reaches d_def Let_def)
  have "unat (pit_ticks (pit_sleep ms s)) = unat (pit_ticks s) + unat ms * unat (pit_hz s) div 1000"
    if h: "unat ms * unat (pit_hz s) < 4294967296" "unat (pit_ticks s) + unat ms * unat (pit_hz s) div 1000 < 4294967296"
  proof -
    have n: "unat d = unat ms * unat (pit_hz s) div 1000" using h(1) by (simp only: d unat_mult_u32)
    then have a: "unat (pit_ticks s + d) = unat (pit_ticks s) + unat d" using h(2) by (intro unat_add_u32) simp
    show ?thesis
    proof (cases "d = 0")
      case True
      then show ?thesis using eq n by simp
    next
      case False
      then have "0 < unat d" by (simp add: unat_gt_0)
      then have "pit_ticks s < pit_ticks s + d" using a by (simp only: unat_less_u32)
      then show ?thesis using eq a n by simp
    qed
  qed
  moreover have "pit_sleep ms s = s" if "unat (pit_ticks s) + unat (ms * pit_hz s) div 1000 \<ge> 4294967296"
  proof -
    have "unat (pit_ticks s + d) = (unat (pit_ticks s) + unat d) mod 4294967296" by (simp add: unat_word_ariths)
    moreover have "unat (pit_ticks s) + unat d \<ge> 4294967296" "unat d < 4294967296" using that d unat_u32_less [of d] by linarith+
    ultimately have "unat (pit_ticks s + d) = unat (pit_ticks s) + unat d - 4294967296"
      using unat_u32_less [of "pit_ticks s"] by (simp add: le_mod_geq)
    then have "\<not> pit_ticks s < pit_ticks s + d" using \<open>unat d < 4294967296\<close> unfolding unat_less_u32 by linarith
    then show ?thesis using eq by simp
  qed
  ultimately show ?thesis by blast
qed

theorem pit_sleep_exact_witness:
  "unat (pit_ticks (pit_sleep 50 \<lparr>pit_ticks = 7, pit_hz = 1000\<rparr>)) = 57 \<and>
   pit_sleep 1000 \<lparr>pit_ticks = 0xFFFFFFFF, pit_hz = 1000\<rparr> = \<lparr>pit_ticks = 0xFFFFFFFF, pit_hz = 1000\<rparr>"
  using pit_sleep_exact [of 50 "\<lparr>pit_ticks = 7, pit_hz = 1000\<rparr>"] pit_sleep_exact [of 1000 "\<lparr>pit_ticks = 0xFFFFFFFF, pit_hz = 1000\<rparr>"]
  by simp

end
