(* ===== verification/Kshell.thy ===== *)
theory Kshell
  imports Vfs_Files Vga Keyboard Pmm
begin

text \<open>
  The shell of the kernel, \<open>kernel/kshell.c\<close>: the line editor, the dispatcher and the commands, over the
  text console, the keyboard, the frame allocator, the timer and the files. \<open>None\<close> is an access outside an
  array or a call that does not return. Serial output is left out; the status bytes that \<open>cmd_reboot\<close>
  reads from the keyboard controller are part of the state.
\<close>

section \<open>State and output\<close>

record shell = vfs +
  screen :: vga
  keys :: keyboard
  sh_frames :: pmm
  sh_ticks :: u32
  kbc_status :: "u8 list"
  cmd_buffer :: "u8 list"
  cmd_pos :: nat

abbreviation (input) CMD_BUFFER_SIZE :: nat where "CMD_BUFFER_SIZE \<equiv> 256"

abbreviation (input) VGA_BLACK :: u8 where "VGA_BLACK \<equiv> 0"
abbreviation (input) VGA_BLUE :: u8 where "VGA_BLUE \<equiv> 1"
abbreviation (input) VGA_GREEN :: u8 where "VGA_GREEN \<equiv> 2"
abbreviation (input) VGA_CYAN :: u8 where "VGA_CYAN \<equiv> 3"
abbreviation (input) VGA_RED :: u8 where "VGA_RED \<equiv> 4"
abbreviation (input) VGA_MAGENTA :: u8 where "VGA_MAGENTA \<equiv> 5"
abbreviation (input) VGA_BROWN :: u8 where "VGA_BROWN \<equiv> 6"
abbreviation (input) VGA_LIGHT_GREY :: u8 where "VGA_LIGHT_GREY \<equiv> 7"
abbreviation (input) VGA_DARK_GREY :: u8 where "VGA_DARK_GREY \<equiv> 8"
abbreviation (input) VGA_LIGHT_BLUE :: u8 where "VGA_LIGHT_BLUE \<equiv> 9"
abbreviation (input) VGA_LIGHT_GREEN :: u8 where "VGA_LIGHT_GREEN \<equiv> 10"
abbreviation (input) VGA_LIGHT_CYAN :: u8 where "VGA_LIGHT_CYAN \<equiv> 11"
abbreviation (input) VGA_LIGHT_RED :: u8 where "VGA_LIGHT_RED \<equiv> 12"
abbreviation (input) VGA_LIGHT_MAGENTA :: u8 where "VGA_LIGHT_MAGENTA \<equiv> 13"
abbreviation (input) VGA_YELLOW :: u8 where "VGA_YELLOW \<equiv> 14"
abbreviation (input) VGA_WHITE :: u8 where "VGA_WHITE \<equiv> 15"

text \<open>A run of calls of the console: \<open>vga_set_color\<close>, \<open>vga_puts\<close>, \<open>vga_put_dec\<close>.\<close>

datatype console_call = Color u8 u8 | Puts "u8 list" | Dec u32

abbreviation Say :: "string \<Rightarrow> console_call" where "Say str \<equiv> Puts (chars str)"

fun emit :: "console_call list \<Rightarrow> vga \<Rightarrow> vga option" where
  "emit [] v = Some v"
| "emit (Color fg bg # os) v = emit os (vga_set_color fg bg v)"
| "emit (Puts str # os) v = do { v \<leftarrow> vga_puts str v; emit os v }"
| "emit (Dec n # os) v = do { v \<leftarrow> vga_put_dec n v; emit os v }"

definition prints :: "console_call list \<Rightarrow> shell \<Rightarrow> shell option" where
  "prints os s = map_option (\<lambda>v. s\<lparr>screen := v\<rparr>) (emit os (screen s))"

abbreviation NL :: console_call where "NL \<equiv> Puts [10]"

definition print_prompt :: "shell \<Rightarrow> shell option" where
  "print_prompt = prints [Color VGA_LIGHT_GREEN VGA_BLACK, Say ''dori'', Color VGA_WHITE VGA_BLACK, Say ''> '',
     Color VGA_LIGHT_GREY VGA_BLACK]"

section \<open>Information\<close>

text \<open>A line of text, ended by a newline.\<close>

abbreviation Line :: "string \<Rightarrow> console_call" where "Line str \<equiv> Puts (chars str @ [10])"

definition cmd_help :: "shell \<Rightarrow> shell option" where
  "cmd_help = prints [Color VGA_LIGHT_CYAN VGA_BLACK, Line ''Dori Shell (dsh) - Available Commands:'',
     Color VGA_LIGHT_GREY VGA_BLACK,
     Line ''  help      - Show this help message'', Line ''  clear     - Clear the screen'',
     Line ''  dori      - Show system info (like fastfetch)'', Line ''  meminfo   - Display memory information'',
     Line ''  ver       - Show kernel version'', Line ''  echo      - Echo text to screen'',
     Line ''  uptime    - Show system uptime'', Line ''  reboot    - Restart the system'',
     Line ''  halt      - Shut down the system'',
     Color VGA_LIGHT_CYAN VGA_BLACK, Line ''Filesystem:'', Color VGA_LIGHT_GREY VGA_BLACK,
     Line ''  ls [path] - List directory contents'', Line ''  cat file  - Display file contents'',
     Line ''  touch f   - Create an empty file'', Line ''  write f d - Write data to a file'',
     Line ''  mkdir dir - Create a directory'', Line ''  rm file   - Remove a file'',
     Line ''  diskinfo  - Show disk information'', Line ''  fsinfo    - Show filesystem information'']"

definition cmd_meminfo :: "shell \<Rightarrow> shell option" where
  "cmd_meminfo s =
     prints [Color VGA_LIGHT_CYAN VGA_BLACK, Line ''Memory Information:'', Color VGA_LIGHT_GREY VGA_BLACK,
       Say ''  Total blocks:  '', Dec (pmm_get_block_count (sh_frames s)), Say '' ('',
       Dec (pmm_get_block_count (sh_frames s) * 4), Line '' KiB)'',
       Say ''  Used blocks:   '', Dec (pmm_get_used_block_count (sh_frames s)), Say '' ('',
       Dec (pmm_get_used_block_count (sh_frames s) * 4), Line '' KiB)'',
       Say ''  Free blocks:   '', Dec (pmm_get_free_block_count (sh_frames s)), Say '' ('',
       Dec (pmm_get_free_block_count (sh_frames s) * 4), Line '' KiB)''] s"

definition cmd_ver :: "shell \<Rightarrow> shell option" where
  "cmd_ver = prints [Color VGA_YELLOW VGA_BLACK, Say ''MonoOS v0.1 - '', Say ''Dori'', Line '' Kernel'',
     Color VGA_LIGHT_GREY VGA_BLACK, Line ''  Built with love and caffeine.'']"

text \<open>
  The logo, in the UTF-8 of the source: each box-drawing character is three bytes. The letters stand for
  the characters: full block, the corners, the double lines and the single line.
\<close>

definition box_char :: "char \<Rightarrow> u8 list" where
  "box_char c =
     (if c = CHR ''#'' then [0xE2, 0x96, 0x88] else if c = CHR ''7'' then [0xE2, 0x95, 0x97]
      else if c = CHR ''J'' then [0xE2, 0x95, 0x9D] else if c = CHR ''r'' then [0xE2, 0x95, 0x94]
      else if c = CHR ''L'' then [0xE2, 0x95, 0x9A] else if c = CHR ''H'' then [0xE2, 0x95, 0x91]
      else if c = CHR ''='' then [0xE2, 0x95, 0x90] else if c = CHR ''-'' then [0xE2, 0x94, 0x80] else [of_char c])"

abbreviation Art :: "string \<Rightarrow> console_call" where "Art str \<equiv> Puts (concat (map box_char str))"

definition dori_field :: "string \<Rightarrow> u8 \<Rightarrow> u8 list \<Rightarrow> u8 \<Rightarrow> console_call list" where
  "dori_field key key_color value val_color =
     [Color key_color VGA_BLACK, Say key, Color VGA_LIGHT_GREY VGA_BLACK, Say '': '', Color val_color VGA_BLACK,
      Puts value, NL, Color VGA_LIGHT_GREY VGA_BLACK]"

definition dori_rows :: "console_call list" where
  "dori_rows = [Color VGA_DARK_GREY VGA_BLACK, NL,
     Color VGA_LIGHT_CYAN VGA_BLACK, Art ''  ######7  ######7 ######7 ##7    '', Color VGA_CYAN VGA_BLACK, Say ''  '',
     Color VGA_YELLOW VGA_BLACK, Say ''monoos'', Color VGA_LIGHT_GREY VGA_BLACK, Say ''@'',
     Color VGA_LIGHT_GREEN VGA_BLACK, Line ''dori-kernel'',
     Color VGA_LIGHT_CYAN VGA_BLACK, Art ''  ##r==##7##r===##7##r==##7##H    '', Color VGA_DARK_GREY VGA_BLACK,
     Art ''  -----------------------------'', NL,
     Color VGA_LIGHT_CYAN VGA_BLACK, Art ''  ##H  ##H##H   ##H######rJ##H    ''] @
     dori_field ''  OS    '' VGA_LIGHT_CYAN (chars ''MonoOS v0.1 (Dori)'') VGA_WHITE @
     [Color VGA_LIGHT_CYAN VGA_BLACK, Art ''  ##H  ##H##H   ##H##r==##7##H    ''] @
     dori_field ''  Kernel'' VGA_LIGHT_CYAN (chars ''Dori 0.1 (i686)'') VGA_WHITE @
     [Color VGA_LIGHT_CYAN VGA_BLACK, Art ''  ######rJL######rJ##H  ##H##H    ''] @
     dori_field ''  Shell '' VGA_LIGHT_CYAN (chars ''dsh (Dori Shell)'') VGA_WHITE @
     [Color VGA_CYAN VGA_BLACK, Art ''  L=====J  L=====J L=J  L=JL=J   ''] @
     dori_field ''  Arch  '' VGA_LIGHT_CYAN (chars ''i686 (x86 protected mode)'') VGA_WHITE"

text \<open>The labelled lines without a logo beside them, and the strip of colours.\<close>

definition dori_label :: "string \<Rightarrow> console_call list" where
  "dori_label key = [Color VGA_LIGHT_CYAN VGA_BLACK, Say key, Color VGA_LIGHT_GREY VGA_BLACK, Say '': '', Color VGA_WHITE VGA_BLACK]"

definition dori_blank :: "console_call list" where
  "dori_blank = [Say ''                                   '']"

definition dori_palette :: "console_call list" where
  "dori_palette =
     [Puts [10, 32, 32]] @
     concat (map (\<lambda>c. [Color c c, Say ''   '']) [VGA_BLACK, VGA_RED, VGA_GREEN, VGA_BROWN, VGA_BLUE, VGA_MAGENTA, VGA_CYAN,
       VGA_LIGHT_GREY]) @
     [Puts [10, 32, 32]] @
     concat (map (\<lambda>c. [Color c c, Say ''   '']) [VGA_DARK_GREY, VGA_LIGHT_RED, VGA_LIGHT_GREEN, VGA_YELLOW, VGA_LIGHT_BLUE,
       VGA_LIGHT_MAGENTA, VGA_LIGHT_CYAN, VGA_WHITE]) @
     [Color VGA_LIGHT_GREY VGA_BLACK, Puts [10, 10]]"

text \<open>The model of the drive is printed up to its NUL.\<close>

definition until_nul :: "u8 list \<Rightarrow> u8 list" where
  "until_nul str = takeWhile (\<lambda>c. c \<noteq> 0) str"

definition cmd_dori :: "shell \<Rightarrow> shell option" where
  "cmd_dori s =
     (let used_kb = pmm_get_used_block_count (sh_frames s) * 4; total_kb = pmm_get_block_count (sh_frames s) * 4;
          d = drive (fs_disk s);
          seconds = sh_ticks s div 1000; minutes = seconds div 60; hours = minutes div 60
      in prints (dori_rows @
           dori_blank @ dori_label ''  Memory'' @ [Dec used_kb, Say '' KiB / '', Dec total_kb, Line '' KiB''] @
           dori_blank @
           (if present d
            then dori_label ''  Disk  '' @ [Dec (size_mb d), Say '' MB ('', Puts (until_nul (model d)), Line '')'']
            else dori_field ''  Disk  '' VGA_LIGHT_CYAN (chars ''No disk detected'') VGA_DARK_GREY) @
           dori_blank @ dori_label ''  Uptime'' @
             [Dec hours, Say ''h '', Dec (minutes mod 60), Say ''m '', Dec (seconds mod 60), Line ''s''] @
           dori_palette) s)"

definition cmd_echo :: "u8 list \<Rightarrow> shell \<Rightarrow> shell option" where
  "cmd_echo args = prints ((if args \<noteq> [] then [Puts args] else []) @ [NL])"

definition cmd_uptime :: "shell \<Rightarrow> shell option" where
  "cmd_uptime s =
     (let seconds = sh_ticks s div 1000; minutes = seconds div 60; hours = minutes div 60
      in prints [Say ''  Uptime: '', Dec hours, Say ''h '', Dec (minutes mod 60), Say ''m '', Dec (seconds mod 60),
           Say ''s ('', Dec (sh_ticks s), Line '' ticks)''] s)"

text \<open>\<open>while (good & 2) good = inb(0x64);\<close>: whether the controller becomes ready, and what is left to read.\<close>

fun kbc_ready :: "u8 list \<Rightarrow> u8 list option" where
  "kbc_ready [] = None"
| "kbc_ready (good # bs) = (if good AND 0x02 \<noteq> 0 then kbc_ready bs else Some bs)"

text \<open>Both end the session: the processor is reset, or halted for good.\<close>

definition cmd_reboot :: "shell \<Rightarrow> shell option" where
  "cmd_reboot s =
     do { s \<leftarrow> prints [Line ''Rebooting...''] s;
          bs \<leftarrow> kbc_ready (kbc_status s);
          Some (s\<lparr>kbc_status := bs\<rparr>) }"

definition cmd_halt :: "shell \<Rightarrow> shell option" where
  "cmd_halt = prints [Color VGA_YELLOW VGA_BLACK, Line ''System halted. You may turn off your computer.'']"

section \<open>Files\<close>

abbreviation (input) VFS_O_RDONLY :: u32 where "VFS_O_RDONLY \<equiv> 0"
abbreviation (input) VFS_O_WRONLY :: u32 where "VFS_O_WRONLY \<equiv> 1"
abbreviation (input) VFS_MAX_PATH :: nat where "VFS_MAX_PATH \<equiv> 256"

text \<open>A message in red about a path.\<close>

definition complain :: "string \<Rightarrow> u8 list \<Rightarrow> shell \<Rightarrow> shell option" where
  "complain str path = prints [Color VGA_LIGHT_RED VGA_BLACK, Say str, Puts path, NL, Color VGA_LIGHT_GREY VGA_BLACK]"

text \<open>The loop over the entries; the result is the number of them.\<close>

partial_function (option) ls_loop :: "u8 list \<Rightarrow> u32 \<Rightarrow> shell \<Rightarrow> (u32 \<times> shell) option" where
  "ls_loop path index s =
     do { (entry, s) \<leftarrow> vfs_readdir path index s;
          case entry of
            None \<Rightarrow> Some (index, s)
          | Some e \<Rightarrow>
              do { s \<leftarrow> prints ([Say ''  ''] @
                     (if e_type e = 2 then [Color VGA_LIGHT_BLUE VGA_BLACK, Say ''[DIR] '']
                      else if e_type e = 3 then [Color VGA_LIGHT_MAGENTA VGA_BLACK, Say ''[LNK] '']
                      else [Color VGA_LIGHT_GREY VGA_BLACK, Say ''      '']) @
                     [Puts (until_nul (e_name e)), Color VGA_LIGHT_GREY VGA_BLACK, NL]) s;
                   ls_loop path (index + 1) s } }"

definition cmd_ls :: "u8 list \<Rightarrow> shell \<Rightarrow> shell option" where
  "cmd_ls path s =
     (let path = (if path = [] then [SLASH] else path)
      in do { s \<leftarrow> prints [Color VGA_LIGHT_CYAN VGA_BLACK, Say ''  Contents of '', Puts path, Line '':'',
                     Color VGA_LIGHT_GREY VGA_BLACK] s;
              (index, s) \<leftarrow> ls_loop path 0 s;
              if index = 0 then prints [Line ''  (empty)''] s else Some s })"

text \<open>Pieces of 255 bytes; the array has room for the NUL after them.\<close>

partial_function (option) cat_loop :: "int \<Rightarrow> shell \<Rightarrow> shell option" where
  "cat_loop fd s =
     do { (r, s) \<leftarrow> vfs_read fd 255 s;
          case r of
            None \<Rightarrow> Some s
          | Some buf \<Rightarrow>
              if buf = [] then Some s
              else do { s \<leftarrow> prints [Puts (until_nul buf)] s; cat_loop fd s } }"

definition cmd_cat :: "u8 list \<Rightarrow> shell \<Rightarrow> shell option" where
  "cmd_cat path s =
     (if path = [] then prints [Line ''Usage: cat <file>''] s
      else do { (fd, s) \<leftarrow> vfs_open path VFS_O_RDONLY s;
                if fd < 0 then complain ''Cannot open: '' path s
                else do { s \<leftarrow> cat_loop fd s;
                          s \<leftarrow> prints [NL] s;
                          Some (snd (vfs_close fd s)) } })"

definition cmd_touch :: "u8 list \<Rightarrow> shell \<Rightarrow> shell option" where
  "cmd_touch path s =
     (if path = [] then prints [Line ''Usage: touch <file>''] s
      else do { (fd, s) \<leftarrow> vfs_open path (VFS_O_CREAT OR VFS_O_WRONLY) s;
                if fd < 0 then complain ''Cannot create: '' path s
                else prints [Say ''Created: '', Puts path, NL] (snd (vfs_close fd s)) })"

definition cmd_write_file :: "u8 list \<Rightarrow> shell \<Rightarrow> shell option" where
  "cmd_write_file args s =
     (if args = [] then prints [Line ''Usage: write <file> <data>''] s
      else let filepath = take (VFS_MAX_PATH - 1) (takeWhile (\<lambda>c. c \<noteq> 32) args);
               data = dropWhile (\<lambda>c. c = 32) (drop (length filepath) args)
      in if data = [] then prints [Line ''Usage: write <file> <data>''] s
      else do { (fd, s) \<leftarrow> vfs_open filepath (VFS_O_CREAT OR VFS_O_WRONLY OR VFS_O_TRUNC) s;
                if fd < 0 then complain ''Cannot open for writing: '' filepath s
                else do { (written, s) \<leftarrow> vfs_write fd data (of_nat (length data)) s;
                          prints [Say ''Wrote '', Dec (of_int written), Say '' bytes to '', Puts filepath, NL]
                            (snd (vfs_close fd s)) } })"

definition cmd_mkdir_path :: "u8 list \<Rightarrow> shell \<Rightarrow> shell option" where
  "cmd_mkdir_path path s =
     (if path = [] then prints [Line ''Usage: mkdir <directory>''] s
      else do { (r, s) \<leftarrow> vfs_mkdir path s;
                if r = 0 then prints [Say ''Created directory: '', Puts path, NL] s
                else complain ''Failed to create: '' path s })"

definition cmd_rm :: "u8 list \<Rightarrow> shell \<Rightarrow> shell option" where
  "cmd_rm path s =
     (if path = [] then prints [Line ''Usage: rm <file>''] s
      else do { (r, s) \<leftarrow> vfs_unlink path s;
                if r = 0 then prints [Say ''Removed: '', Puts path, NL] s
                else complain ''Failed to remove: '' path s })"

definition cmd_diskinfo :: "shell \<Rightarrow> shell option" where
  "cmd_diskinfo s =
     (let d = drive (fs_disk s)
      in if \<not> present d then prints [Line ''  No disk detected''] s
         else prints [Color VGA_LIGHT_CYAN VGA_BLACK, Line ''Disk Information:'', Color VGA_LIGHT_GREY VGA_BLACK,
                Say ''  Model:    '', Puts (until_nul (model d)), NL, Say ''  Sectors:  '', Dec (size_sectors d), NL,
                Say ''  Size:     '', Dec (size_mb d), Line '' MB''] s)"

text \<open>\<open>dorifs_print_info\<close> of \<open>kernel/dorifs.c\<close>; blocks have 4096 bytes.\<close>

definition dorifs_print_info :: "shell \<Rightarrow> shell option" where
  "dorifs_print_info s =
     prints [Color VGA_LIGHT_CYAN VGA_BLACK, Line ''DoriFS Information:'', Color VGA_LIGHT_GREY VGA_BLACK,
       Say ''  Version:      '', Dec (version (sb s)), NL, Say ''  Block size:   '', Dec (block_size (sb s)), Line '' bytes'',
       Say ''  Total blocks: '', Dec (total_blocks (sb s)), NL, Say ''  Free blocks:  '', Dec (free_blocks (sb s)), Say '' ('',
       Dec (free_blocks (sb s) * DORIFS_BLOCK_SIZE div 1024), Line '' KiB)'',
       Say ''  Total inodes: '', Dec (total_inodes (sb s)), NL, Say ''  Free inodes:  '', Dec (free_inodes (sb s)), NL] s"

definition cmd_fsinfo :: "shell \<Rightarrow> shell option" where
  "cmd_fsinfo s = dorifs_print_info s"

section \<open>The dispatcher and the line editor\<close>

text \<open>After a command the shell goes on, or the machine is halted or reset.\<close>

datatype outcome = Goes_on shell | Stopped shell

definition starts :: "string \<Rightarrow> u8 list \<Rightarrow> bool" where
  "starts prefix cmd \<longleftrightarrow> take (length prefix) cmd = chars prefix"

definition execute_command :: "u8 list \<Rightarrow> shell \<Rightarrow> outcome option" where
  "execute_command cmd s =
     (let cmd = dropWhile (\<lambda>c. c = 32) cmd
      in if cmd = [] then Some (Goes_on s)
      else if cmd = chars ''help'' then map_option Goes_on (cmd_help s)
      else if cmd = chars ''clear'' then Some (Goes_on (s\<lparr>screen := vga_clear (screen s)\<rparr>))
      else if cmd = chars ''meminfo'' then map_option Goes_on (cmd_meminfo s)
      else if cmd = chars ''ver'' then map_option Goes_on (cmd_ver s)
      else if starts ''echo '' cmd then map_option Goes_on (cmd_echo (drop 5 cmd) s)
      else if cmd = chars ''echo'' then map_option Goes_on (cmd_echo [] s)
      else if cmd = chars ''uptime'' then map_option Goes_on (cmd_uptime s)
      else if cmd = chars ''dori'' then map_option Goes_on (cmd_dori s)
      else if cmd = chars ''reboot'' then map_option Stopped (cmd_reboot s)
      else if cmd = chars ''halt'' then map_option Stopped (cmd_halt s)
      else if cmd = chars ''ls'' then map_option Goes_on (cmd_ls [SLASH] s)
      else if starts ''ls '' cmd then map_option Goes_on (cmd_ls (drop 3 cmd) s)
      else if starts ''cat '' cmd then map_option Goes_on (cmd_cat (drop 4 cmd) s)
      else if starts ''touch '' cmd then map_option Goes_on (cmd_touch (drop 6 cmd) s)
      else if starts ''write '' cmd then map_option Goes_on (cmd_write_file (drop 6 cmd) s)
      else if starts ''mkdir '' cmd then map_option Goes_on (cmd_mkdir_path (drop 6 cmd) s)
      else if starts ''rm '' cmd then map_option Goes_on (cmd_rm (drop 3 cmd) s)
      else if cmd = chars ''diskinfo'' then map_option Goes_on (cmd_diskinfo s)
      else if cmd = chars ''fsinfo'' then map_option Goes_on (cmd_fsinfo s)
      else map_option Goes_on (prints [Color VGA_LIGHT_RED VGA_BLACK, Say ''Unknown command: '', Puts cmd,
             Puts (10 # chars ''Type 'help' for available commands.'' @ [10]), Color VGA_LIGHT_GREY VGA_BLACK] s))"

definition sh_putchar :: "u8 \<Rightarrow> shell \<Rightarrow> shell option" where
  "sh_putchar c s = map_option (\<lambda>v. s\<lparr>screen := v\<rparr>) (vga_putchar c (screen s))"

text \<open>\<open>cmd_buffer[i] = c\<close>, and the reset of the line.\<close>

definition put_cmd :: "nat \<Rightarrow> u8 \<Rightarrow> shell \<Rightarrow> shell option" where
  "put_cmd i c s = (if i < length (cmd_buffer s) then Some (s\<lparr>cmd_buffer := (cmd_buffer s)[i := c]\<rparr>) else None)"

definition clear_line :: "shell \<Rightarrow> shell" where
  "clear_line s = s\<lparr>cmd_pos := 0, cmd_buffer := replicate CMD_BUFFER_SIZE 0\<rparr>"

text \<open>The body of the loop for the character read.\<close>

definition kshell_char :: "u8 \<Rightarrow> shell \<Rightarrow> outcome option" where
  "kshell_char c s =
     (if c = 10
      then do { s \<leftarrow> sh_putchar 10 s;
                s \<leftarrow> put_cmd (cmd_pos s) 0 s;
                r \<leftarrow> execute_command (until_nul (cmd_buffer s)) s;
                case r of Stopped s \<Rightarrow> Some (Stopped s)
                | Goes_on s \<Rightarrow> map_option Goes_on (print_prompt (clear_line s)) }
      else if c = 8
      then if 0 < cmd_pos s
           then do { s \<leftarrow> put_cmd (cmd_pos s - 1) 0 (s\<lparr>cmd_pos := cmd_pos s - 1\<rparr>);
                     map_option Goes_on (sh_putchar 8 s) }
           else Some (Goes_on s)
      else if c = 3
      then do { s \<leftarrow> prints [Line ''^C''] s;
                map_option Goes_on (print_prompt (clear_line s)) }
      else if cmd_pos s < CMD_BUFFER_SIZE - 1
      then do { let n = cmd_pos s;
                s \<leftarrow> put_cmd n c (s\<lparr>cmd_pos := n + 1\<rparr>);
                map_option Goes_on (sh_putchar c s) }
      else Some (Goes_on s))"

text \<open>One pass; \<open>keyboard_get_char\<close> does not wait, it answers 0 when no key is there.\<close>

definition kshell_pass :: "shell \<Rightarrow> outcome option" where
  "kshell_pass s = (let (c, k) = keyboard_get_char (keys s) in kshell_char c (s\<lparr>keys := k\<rparr>))"

definition kshell_start :: "shell \<Rightarrow> shell option" where
  "kshell_start s = do { s \<leftarrow> print_prompt s; Some (clear_line s) }"

text \<open>What happens to the shell: the interrupt of a key, a tick, or a pass of the loop.\<close>

datatype shell_event = Key_irq u8 | Timer_irq | Pass

fun kshell_event :: "shell_event \<Rightarrow> outcome \<Rightarrow> outcome option" where
  "kshell_event e (Stopped s) = Some (Stopped s)"
| "kshell_event (Key_irq b) (Goes_on s) = Some (Goes_on (s\<lparr>keys := keyboard_callback b (keys s)\<rparr>))"
| "kshell_event Timer_irq (Goes_on s) = Some (Goes_on (s\<lparr>sh_ticks := sh_ticks s + 1\<rparr>))"
| "kshell_event Pass (Goes_on s) = kshell_pass s"

fun kshell_events :: "shell_event list \<Rightarrow> outcome \<Rightarrow> outcome option" where
  "kshell_events [] r = Some r"
| "kshell_events (e # es) r = do { r \<leftarrow> kshell_event e r; kshell_events es r }"

end
