(* ===== verification/Kshell_Claims.thy ===== *)
theory Kshell_Claims
  imports Kshell
begin

text \<open>
  Properties of the shell: what the line editor makes of the keys, what the commands leave of the
  descriptor table and the screen, and that \<open>cat\<close> prints what \<open>write\<close> stored.
\<close>

section \<open>Printing\<close>

lemma emit_total: "vga_ok v \<Longrightarrow> \<exists>w. emit os v = Some w \<and> vga_ok w"
proof (induction os v rule: emit.induct)
  case (2 fg bg os v)
  then show ?case by (simp add: vga_set_color_def vga_ok_def)
next
  case (3 str os v)
  then show ?case using vga_puts_total [OF 3(2), of str] by auto
next
  case (4 n os v)
  then show ?case using vga_puts_total [OF 4(2), of "utoa_text n"] by (auto simp: vga_put_dec_def)
qed simp

lemma prints_total: "vga_ok (screen s) \<Longrightarrow> \<exists>v. prints os s = Some (s\<lparr>screen := v\<rparr>) \<and> emit os (screen s) = Some v \<and> vga_ok v"
  using emit_total [of "screen s" os] by (auto simp: prints_def)

lemma putchar_total: "vga_ok (screen s) \<Longrightarrow> \<exists>v. sh_putchar c s = Some (s\<lparr>screen := v\<rparr>) \<and> vga_ok v"
  using vga_putchar_total [of "screen s" c] by (auto simp: sh_putchar_def)

lemma prompt_total: "vga_ok (screen s) \<Longrightarrow> \<exists>v. print_prompt s = Some (s\<lparr>screen := v\<rparr>) \<and> vga_ok v"
  using prints_total [of s] by (fastforce simp: print_prompt_def)

section \<open>The line editor\<close>

text \<open>What a key does to the line: 255 characters fit, backspace drops the last, control C all.\<close>

definition edit_key :: "u8 \<Rightarrow> u8 list \<Rightarrow> u8 list" where
  "edit_key c t = (if c = 8 then butlast t else if c = 3 then [] else if length t < 255 then t @ [c] else t)"

definition edited :: "u8 list \<Rightarrow> u8 list" where
  "edited cs = fold edit_key cs []"

definition line_is :: "u8 list \<Rightarrow> shell \<Rightarrow> bool" where
  "line_is t s \<longleftrightarrow> length t \<le> 255 \<and> cmd_pos s = length t \<and> cmd_buffer s = t @ replicate (256 - length t) 0"

fun kshell_chars :: "u8 list \<Rightarrow> shell \<Rightarrow> outcome option" where
  "kshell_chars [] s = Some (Goes_on s)"
| "kshell_chars (c # cs) s =
     (case kshell_char c s of Some (Goes_on s) \<Rightarrow> kshell_chars cs s | r \<Rightarrow> r)"

lemma edit_step:
  assumes "vga_ok (screen s)" "line_is t s" "c \<noteq> 10"
  shows "\<exists>v. kshell_char c s = Some (Goes_on (s\<lparr>screen := v, cmd_pos := length (edit_key c t),
      cmd_buffer := edit_key c t @ replicate (256 - length (edit_key c t)) 0\<rparr>)) \<and> vga_ok v"
proof -
  have l: "length t \<le> 255" "cmd_pos s = length t" "cmd_buffer s = t @ replicate (256 - length t) 0"
    using assms(2) by (simp_all add: line_is_def)
  consider "c = 8" "t = []" | u x where "c = 8" "t = u @ [x]" | "c = 3" | "c \<noteq> 8" "c \<noteq> 3" "length t < 255" | "c \<noteq> 8" "c \<noteq> 3" "length t = 255"
    using l(1) by (metis append_butlast_last_id le_neq_implies_less)
  then show ?thesis
  proof cases
    case 1
    then show ?thesis using l assms(1) by (intro exI [of _ "screen s"]) (simp add: kshell_char_def edit_key_def)
  next
    case (2 u x)
    let ?s = "s\<lparr>cmd_pos := length u, cmd_buffer := u @ replicate (256 - length u) 0\<rparr>"
    have "replicate (256 - length u) (0 :: u8) = 0 # replicate (255 - length u) 0" using l(1) 2 by (simp add: Suc_diff_le flip: replicate_Suc)
    then have put: "put_cmd (length u) 0 (s\<lparr>cmd_pos := length u\<rparr>) = Some ?s"
      using l 2 by (simp add: put_cmd_def list_update_append)
    obtain v where "sh_putchar 8 ?s = Some (?s\<lparr>screen := v\<rparr>)" "vga_ok v" using putchar_total [of ?s 8] assms(1) by auto
    then show ?thesis using 2 l put by (intro exI [of _ v]) (simp add: kshell_char_def edit_key_def)
  next
    case 3
    obtain v where v: "prints [Line ''^C''] s = Some (s\<lparr>screen := v\<rparr>)" "vga_ok v" using prints_total [OF assms(1)] by blast
    let ?s = "clear_line (s\<lparr>screen := v\<rparr>)"
    obtain w where "print_prompt ?s = Some (?s\<lparr>screen := w\<rparr>)" "vga_ok w" using prompt_total [of ?s] v(2) by (auto simp: clear_line_def)
    then show ?thesis using 3 v by (intro exI [of _ w]) (simp add: kshell_char_def edit_key_def clear_line_def)
  next
    case 4
    let ?s = "s\<lparr>cmd_pos := length t + 1, cmd_buffer := (t @ [c]) @ replicate (255 - length t) 0\<rparr>"
    have "replicate (256 - length t) (0 :: u8) = 0 # replicate (255 - length t) 0" using 4(3) by (simp add: Suc_diff_le flip: replicate_Suc)
    then have put: "put_cmd (length t) c (s\<lparr>cmd_pos := length t + 1\<rparr>) = Some ?s"
      using l by (simp add: put_cmd_def list_update_append)
    obtain v where "sh_putchar c ?s = Some (?s\<lparr>screen := v\<rparr>)" "vga_ok v" using putchar_total [of ?s c] assms(1) by auto
    then show ?thesis using 4 l put assms(3) by (intro exI [of _ v]) (simp add: kshell_char_def edit_key_def Let_def)
  next
    case 5
    then show ?thesis using l assms by (intro exI [of _ "screen s"]) (simp add: kshell_char_def edit_key_def)
  qed
qed

lemma edit_key_length: "length t \<le> 255 \<Longrightarrow> length (edit_key c t) \<le> 255"
  by (auto simp: edit_key_def)

lemma edit_lines:
  assumes "vga_ok (screen s)" "line_is t s" "10 \<notin> set cs"
  shows "\<exists>v. kshell_chars cs s = Some (Goes_on (s\<lparr>screen := v, cmd_pos := length (fold edit_key cs t),
      cmd_buffer := fold edit_key cs t @ replicate (256 - length (fold edit_key cs t)) 0\<rparr>)) \<and> vga_ok v \<and> length (fold edit_key cs t) \<le> 255"
  using assms
proof (induction cs arbitrary: s t)
  case Nil
  then show ?case by (intro exI [of _ "screen s"]) (simp add: line_is_def)
next
  case (Cons c cs)
  let ?t = "edit_key c t"
  obtain v where v: "kshell_char c s = Some (Goes_on (s\<lparr>screen := v, cmd_pos := length ?t, cmd_buffer := ?t @ replicate (256 - length ?t) 0\<rparr>))" "vga_ok v"
    using edit_step [OF Cons.prems(1,2), of c] Cons.prems(3) by auto
  let ?s = "s\<lparr>screen := v, cmd_pos := length ?t, cmd_buffer := ?t @ replicate (256 - length ?t) 0\<rparr>"
  have "line_is ?t ?s" using Cons.prems(2) edit_key_length by (simp add: line_is_def)
  then show ?case using Cons.IH [of ?s ?t] Cons.prems(3) v by (auto simp del: replicate_Suc)
qed

definition enter :: "shell \<Rightarrow> outcome option" where
  "enter s =
     (case execute_command (until_nul (cmd_buffer s)) s of
        Some (Goes_on t) \<Rightarrow> map_option Goes_on (print_prompt (clear_line t)) | r \<Rightarrow> r)"

lemma enter_step:
  assumes "vga_ok (screen s)" "line_is t s"
  shows "\<exists>v. kshell_char 10 s = enter (s\<lparr>screen := v\<rparr>) \<and> vga_ok v"
proof -
  obtain v where v: "sh_putchar 10 s = Some (s\<lparr>screen := v\<rparr>)" "vga_ok v" using putchar_total [OF assms(1)] by blast
  have "put_cmd (length t) 0 (s\<lparr>screen := v\<rparr>) = Some (s\<lparr>screen := v\<rparr>)"
    using assms(2) by (cases "256 - length t") (auto simp: put_cmd_def line_is_def list_update_append)
  then show ?thesis using v assms(2)
    by (intro exI [of _ v]) (simp add: kshell_char_def enter_def line_is_def split: option.split outcome.split)
qed

lemma kshell_chars_append:
  "kshell_chars (a @ b) s = (case kshell_chars a s of Some (Goes_on t) \<Rightarrow> kshell_chars b t | r \<Rightarrow> r)"
  by (induction a arbitrary: s) (auto split: option.split outcome.split)

lemma kshell_chars_one: "kshell_chars [c] s = kshell_char c s"
  by (simp split: option.split outcome.split)

lemma until_nul_zero [simp]: "until_nul (a @ 0 # b) = until_nul a" "until_nul (a @ replicate n 0) = until_nul a"
proof -
  show a: "until_nul (a @ 0 # b) = until_nul a" for b by (induction a) (simp_all add: until_nul_def)
  show "until_nul (a @ replicate n 0) = until_nul a" using a by (cases n) simp_all
qed

lemma fold_edit_typed: "8 \<notin> set b \<Longrightarrow> 3 \<notin> set b \<Longrightarrow> \<exists>c. fold edit_key b t = t @ c"
proof (induction b arbitrary: t)
  case (Cons x b)
  then show ?case by (auto simp: edit_key_def) (metis append_assoc)
qed simp

text \<open>A character that no key gives cuts the command: what follows it in the line is not executed.\<close>

lemma edited_nul:
  assumes "8 \<notin> set b" "3 \<notin> set b"
  shows "until_nul (edited (a @ 0 # b)) = until_nul (edited a)"
proof -
  obtain c where c: "fold edit_key b (edit_key 0 (edited a)) = edit_key 0 (edited a) @ c" using fold_edit_typed [OF assms] by blast
  have len: "length (fold edit_key cs t) \<le> 255" if "length t \<le> 255" for cs t
    using that by (induction cs arbitrary: t) (simp_all add: edit_key_length)
  show ?thesis
  proof (cases "length (edited a) < 255")
    case True
    then show ?thesis using c by (simp add: edited_def edit_key_def)
  next
    case False
    then have "edit_key 0 (edited a) = edited a" by (simp add: edit_key_def)
    moreover have "length (edited (a @ 0 # b)) \<le> 255" 
      using len [OF len [of "[]"], of "0 # b" a] by (simp add: edited_def)
    ultimately have "edited (a @ 0 # b) = edited a" using c False by (cases c) (simp_all add: edited_def)
    then show ?thesis by simp
  qed
qed

text \<open>
  C15: the line editor. Characters other than newline, taken in from an empty line, always leave the line
  as the editing keys mean it: each character appended up to 255, backspace removing the last one, control
  C all. A newline then executes the line up to its first NUL, and the next line is empty. In
  particular, if a pass of the loop found no key (it then takes in NUL) and no editing key follows, only
  what was typed before that pass is executed.
\<close>

theorem kshell_line:
  assumes "vga_ok (screen s)" "line_is [] s" "10 \<notin> set cs"
  shows "length (edited cs) \<le> 255 \<and>
    (\<exists>v. vga_ok v \<and> kshell_chars cs s = Some (Goes_on (s\<lparr>screen := v, cmd_pos := length (edited cs),
        cmd_buffer := edited cs @ replicate (256 - length (edited cs)) 0\<rparr>))) \<and>
    (\<exists>w. vga_ok w \<and> kshell_chars (cs @ [10]) s =
       (case execute_command (until_nul (edited cs)) (s\<lparr>cmd_pos := length (edited cs),
               cmd_buffer := edited cs @ replicate (256 - length (edited cs)) 0, screen := w\<rparr>) of
          Some (Goes_on t) \<Rightarrow> map_option Goes_on (print_prompt (clear_line t)) | r \<Rightarrow> r)) \<and>
    (\<forall>a b. cs = a @ 0 # b \<and> 8 \<notin> set b \<and> 3 \<notin> set b \<longrightarrow> until_nul (edited cs) = until_nul (edited a))"
proof -
  let ?t = "edited cs"
  obtain v where v: "kshell_chars cs s = Some (Goes_on (s\<lparr>screen := v, cmd_pos := length ?t,
      cmd_buffer := ?t @ replicate (256 - length ?t) 0\<rparr>))" "vga_ok v" "length ?t \<le> 255"
    using edit_lines [OF assms] unfolding edited_def by blast
  let ?s = "s\<lparr>screen := v, cmd_pos := length ?t, cmd_buffer := ?t @ replicate (256 - length ?t) 0\<rparr>"
  have "line_is ?t ?s" using v(3) by (simp add: line_is_def)
  then obtain w where w: "kshell_char 10 ?s = enter (?s\<lparr>screen := w\<rparr>)" "vga_ok w" using enter_step [of ?s ?t] v(2) by auto
  have "kshell_chars (cs @ [10]) s = enter (?s\<lparr>screen := w\<rparr>)"
    by (simp only: kshell_chars_append kshell_chars_one v(1) w(1) option.case outcome.case)
  then have "kshell_chars (cs @ [10]) s =
       (case execute_command (until_nul ?t) (s\<lparr>cmd_pos := length ?t, cmd_buffer := ?t @ replicate (256 - length ?t) 0, screen := w\<rparr>) of
          Some (Goes_on t) \<Rightarrow> map_option Goes_on (print_prompt (clear_line t)) | r \<Rightarrow> r)"
    by (simp add: enter_def)
  moreover have "\<forall>a b. cs = a @ 0 # b \<and> 8 \<notin> set b \<and> 3 \<notin> set b \<longrightarrow> until_nul ?t = until_nul (edited a)"
    using edited_nul by blast
  ultimately show ?thesis using v w(2) by blast
qed

section \<open>Waiting for keys\<close>

lemma passes_edit:
  assumes "vga_ok (screen s)" "line_is t s" "kb_inv (keys s)" "cs = take n (kb_contents (keys s) @ replicate n 0)" "10 \<notin> set cs"
  shows "\<exists>v kb. kshell_events (replicate n Pass) (Goes_on s) = Some (Goes_on (s\<lparr>screen := v, keys := kb,
      cmd_pos := length (fold edit_key cs t), cmd_buffer := fold edit_key cs t @ replicate (256 - length (fold edit_key cs t)) 0\<rparr>)) \<and>
    vga_ok v \<and> kb_inv kb \<and> kb_contents kb = drop n (kb_contents (keys s)) \<and> length (fold edit_key cs t) \<le> 255"
  using assms
proof (induction n arbitrary: s t cs)
  case 0
  then show ?case by (intro exI [of _ "screen s"] exI [of _ "keys s"]) (simp add: line_is_def)
next
  case (Suc n)
  let ?q = "kb_contents (keys s)"
  obtain c kb where p: "keyboard_get_char (keys s) = (c, kb)" by (cases "keyboard_get_char (keys s)")
  have kb: "kb_inv kb" "(c, kb_contents kb) = dequeue 0 ?q"
    using kb_queue.pop_inv [OF Suc.prems(3)] kb_queue.pop_contents [OF Suc.prems(3)] p by simp_all
  have cs: "cs = c # take n (kb_contents kb @ replicate n 0)" "kb_contents kb = drop 1 ?q"
  proof -
    have "cs = c # take n (kb_contents kb @ replicate n 0) \<and> kb_contents kb = drop 1 ?q"
    proof (cases ?q)
      case Nil
      then have "c = 0" "kb_contents kb = []" using kb(2) by simp_all
      then show ?thesis using Suc.prems(4) Nil by simp
    next
      case (Cons x q)
      then have "c = x" "kb_contents kb = q" using kb(2) by simp_all
      moreover have "take n (q @ replicate (Suc n) (0 :: u8)) = take n (q @ replicate n 0)" by (simp flip: replicate_append_same)
      ultimately show ?thesis using Suc.prems(4) Cons by simp
    qed
    then show "cs = c # take n (kb_contents kb @ replicate n 0)" "kb_contents kb = drop 1 ?q" by blast+
  qed
  let ?u = "edit_key c t"
  obtain v where v: "kshell_char c (s\<lparr>keys := kb\<rparr>) = Some (Goes_on (s\<lparr>keys := kb, screen := v, cmd_pos := length ?u,
      cmd_buffer := ?u @ replicate (256 - length ?u) 0\<rparr>))" "vga_ok v"
    using edit_step [of "s\<lparr>keys := kb\<rparr>" t c] Suc.prems(1,2,5) cs by (auto simp: line_is_def)
  let ?s = "s\<lparr>keys := kb, screen := v, cmd_pos := length ?u, cmd_buffer := ?u @ replicate (256 - length ?u) 0\<rparr>"
  have "line_is ?u ?s" using Suc.prems(2) edit_key_length by (simp add: line_is_def)
  then obtain w kb' where "kshell_events (replicate n Pass) (Goes_on ?s) = Some (Goes_on (?s\<lparr>screen := w, keys := kb',
      cmd_pos := length (fold edit_key (tl cs) ?u), cmd_buffer := fold edit_key (tl cs) ?u @ replicate (256 - length (fold edit_key (tl cs) ?u)) 0\<rparr>))"
    "vga_ok w" "kb_inv kb'" "kb_contents kb' = drop n (kb_contents kb)" "length (fold edit_key (tl cs) ?u) \<le> 255"
    using Suc.IH [of ?s ?u "tl cs"] v(2) kb(1) cs Suc.prems(5) by auto
  moreover have "kshell_pass s = Some (Goes_on ?s)" using v(1) p by (simp add: kshell_pass_def)
  ultimately show ?case using cs by (intro exI [of _ w] exI [of _ kb']) simp
qed

lemma kshell_events_append: "kshell_events (a @ b) r = do { r \<leftarrow> kshell_events a r; kshell_events b r }"
proof (induction a arbitrary: r)
  case (Cons e es)
  then show ?case by (cases "kshell_event e r") simp_all
qed simp

lemma bind_no_events [simp]: "Option.bind x (kshell_events []) = x"
  by (cases x) simp_all

text \<open>
  C38: an idle shell goes deaf. If no key waits at the beginning of a line, then after any number of passes
  of the loop the keys typed next, if no backspace and no control C is among them, are not executed when Enter comes: the
  command is the empty one, and except for screen and keyboard the shell is where it began.
\<close>

theorem kshell_idle:
  assumes "vga_ok (screen s)" "line_is [] s" "kb_inv (keys s)" "kb_contents (keys s) = []" "0 < k"
    and "kb_inv kb" "kb_contents kb = ks @ [10]" "set ks \<inter> {3, 8, 10} = {}"
  shows "\<exists>u v kb'. kshell_events (replicate k Pass) (Goes_on s) = Some (Goes_on u) \<and>
    kshell_events (replicate (length ks + 1) Pass) (Goes_on (u\<lparr>keys := kb\<rparr>)) = Some (Goes_on (s\<lparr>screen := v, keys := kb'\<rparr>)) \<and>
    kb_contents kb' = []"
proof -
  define z where "z = fold edit_key (replicate k (0 :: u8)) []"
  have z: "until_nul (z @ c) = []" for c
  proof -
    obtain j where "k = Suc j" using assms(5) by (cases k) auto
    then obtain d where "z = edit_key 0 [] @ d" using fold_edit_typed [of "replicate j 0" "edit_key 0 []"] by (auto simp: z_def)
    then show ?thesis by (simp add: edit_key_def until_nul_def)
  qed
  obtain v1 kb1 where u: "kshell_events (replicate k Pass) (Goes_on s) = Some (Goes_on (s\<lparr>screen := v1, keys := kb1,
      cmd_pos := length z, cmd_buffer := z @ replicate (256 - length z) 0\<rparr>))" "vga_ok v1" "length z \<le> 255"
    using passes_edit [OF assms(1-3) refl, of k] assms(4) unfolding z_def by auto
  let ?u = "s\<lparr>screen := v1, keys := kb, cmd_pos := length z, cmd_buffer := z @ replicate (256 - length z) 0\<rparr>"
  have "line_is z ?u" using u(3) by (simp add: line_is_def)
  moreover have "10 \<notin> set ks" "8 \<notin> set ks" "3 \<notin> set ks" using assms(8) by auto
  ultimately obtain v2 kb2 where w: "kshell_events (replicate (length ks) Pass) (Goes_on ?u) = Some (Goes_on (?u\<lparr>screen := v2, keys := kb2,
      cmd_pos := length (fold edit_key ks z), cmd_buffer := fold edit_key ks z @ replicate (256 - length (fold edit_key ks z)) 0\<rparr>))"
      "vga_ok v2" "kb_inv kb2" "kb_contents kb2 = [10]" "length (fold edit_key ks z) \<le> 255"
    using passes_edit [of ?u z ks "length ks"] u(2) assms(6,7) by auto
  let ?w = "?u\<lparr>screen := v2, keys := kb2, cmd_pos := length (fold edit_key ks z),
    cmd_buffer := fold edit_key ks z @ replicate (256 - length (fold edit_key ks z)) 0\<rparr>"
  obtain kb3 where kb3: "keyboard_get_char kb2 = (10, kb3)" "kb_contents kb3 = []"
    using kb_queue.pop_contents [OF w(3)] w(4) by (cases "keyboard_get_char kb2") simp
  obtain c where c: "fold edit_key ks z = z @ c" using fold_edit_typed \<open>8 \<notin> set ks\<close> \<open>3 \<notin> set ks\<close> by blast
  have "line_is (fold edit_key ks z) (?w\<lparr>keys := kb3\<rparr>)" using w(5) by (simp add: line_is_def)
  then obtain x where x: "kshell_char 10 (?w\<lparr>keys := kb3\<rparr>) = enter (?w\<lparr>keys := kb3, screen := x\<rparr>)" "vga_ok x"
    using enter_step [of "?w\<lparr>keys := kb3\<rparr>" "fold edit_key ks z"] w(2) by auto
  have "execute_command [] t = Some (Goes_on t)" for t by (simp add: execute_command_def)
  then have "enter (?w\<lparr>keys := kb3, screen := x\<rparr>) = map_option Goes_on (print_prompt (clear_line (?w\<lparr>keys := kb3, screen := x\<rparr>)))"
    using z c by (simp add: enter_def)
  moreover obtain y where "print_prompt (clear_line (?w\<lparr>keys := kb3, screen := x\<rparr>)) =
      Some ((clear_line (?w\<lparr>keys := kb3, screen := x\<rparr>))\<lparr>screen := y\<rparr>)"
    using prompt_total [of "clear_line (?w\<lparr>keys := kb3, screen := x\<rparr>)"] x(2) by (auto simp: clear_line_def)
  moreover have "(clear_line (?w\<lparr>keys := kb3, screen := x\<rparr>))\<lparr>screen := y\<rparr> = s\<lparr>screen := y, keys := kb3\<rparr>"
    using assms(2) by (intro shell.equality) (simp_all add: clear_line_def line_is_def)
  ultimately have last: "kshell_pass ?w = Some (Goes_on (s\<lparr>screen := y, keys := kb3\<rparr>))"
    using kb3(1) x(1) by (simp add: kshell_pass_def)
  have app: "kshell_events (replicate (n + 1) Pass) r = do { r \<leftarrow> kshell_events (replicate n Pass) r; kshell_event Pass r }" for n r
    using kshell_events_append [of "replicate n Pass" "[Pass]" r] by (simp flip: replicate_append_same)
  have "kshell_events (replicate (length ks + 1) Pass) (Goes_on ?u) = Some (Goes_on (s\<lparr>screen := y, keys := kb3\<rparr>))"
    unfolding app w(1) using last by simp
  moreover define u' where "u' = s\<lparr>screen := v1, keys := kb1, cmd_pos := length z, cmd_buffer := z @ replicate (256 - length z) 0\<rparr>"
  moreover have "?u = u'\<lparr>keys := kb\<rparr>" unfolding u'_def by (rule shell.equality) simp_all
  ultimately have "kshell_events (replicate k Pass) (Goes_on s) = Some (Goes_on u')"
    "kshell_events (replicate (length ks + 1) Pass) (Goes_on (u'\<lparr>keys := kb\<rparr>)) = Some (Goes_on (s\<lparr>screen := y, keys := kb3\<rparr>))"
    using u(1) by simp_all
  then show ?thesis using kb3(2) by blast
qed

section \<open>What the commands leave behind\<close>

text \<open>A shell between two commands, and what no command changes.\<close>

definition shell_ok :: "shell \<Rightarrow> bool" where
  "shell_ok s \<longleftrightarrow> fd_ok s \<and> vga_ok (screen s)"

definition rest :: "shell \<Rightarrow> shell \<Rightarrow> bool" where
  "rest s t \<longleftrightarrow> shell_ok t \<and> vfs_root t = vfs_root s \<and> mount_table t = mount_table s \<and> keys t = keys s \<and>
     sh_frames t = sh_frames s \<and> sh_ticks t = sh_ticks s \<and> cmd_buffer t = cmd_buffer s \<and> cmd_pos t = cmd_pos s"

definition keeps :: "shell \<Rightarrow> shell \<Rightarrow> bool" where
  "keeps s t \<longleftrightarrow> rest s t \<and> fd_table t = fd_table s"

lemma keeps_trans: "keeps s t \<Longrightarrow> keeps t u \<Longrightarrow> keeps s u"
  by (simp add: keeps_def rest_def)

lemma keeps_refl: "shell_ok s \<Longrightarrow> keeps s s"
  by (simp add: keeps_def rest_def)

lemma keeps_ok: "keeps s t \<Longrightarrow> shell_ok t"
  by (simp add: keeps_def rest_def)

lemma shell_ok_upd [simp]: "vga_ok v \<Longrightarrow> shell_ok s \<Longrightarrow> shell_ok (s\<lparr>screen := v\<rparr>)"
  by (simp add: shell_ok_def fd_ok_def)

lemma keeps_prints: "prints os s = Some t \<Longrightarrow> shell_ok s \<Longrightarrow> keeps s t"
  using prints_total [of s os] by (auto simp: shell_ok_def keeps_def rest_def fd_ok_def)

lemma keeps_clear: "shell_ok s \<Longrightarrow> keeps s (s\<lparr>screen := vga_clear (screen s)\<rparr>)"
  by (auto simp: keeps_def rest_def shell_ok_def fd_ok_def intro: vga_ok_clear)

text \<open>Calls of the filesystem.\<close>

lemma rest_vmore: "vfs.more t = vfs.more s \<Longrightarrow> vfs_root t = vfs_root s \<Longrightarrow> mount_table t = mount_table s \<Longrightarrow> fd_ok t \<Longrightarrow>
    shell_ok s \<Longrightarrow> rest s t"
  by (cases s; cases t; simp add: rest_def shell_ok_def)

lemma keeps_more:
  fixes s :: shell
  assumes "fsys.more t = fsys.more s" "shell_ok s"
  shows "keeps s t"
  using assms more_fields [OF assms(1)] fd_ok_more [OF assms(1)] rest_vmore [OF vmore_of_more [OF assms(1)]]
  by (simp add: keeps_def shell_ok_def)

text \<open>While a descriptor is open: everything but its entry is as before.\<close>

definition opened :: "int \<Rightarrow> shell \<Rightarrow> shell \<Rightarrow> bool" where
  "opened fd s t \<longleftrightarrow> rest s t \<and> 0 \<le> fd \<and> fd < 64 \<and> \<not> f_in_use (fd_table s ! nat fd) \<and>
     (\<exists>d. f_in_use d \<and> f_node d \<noteq> 0 \<and> fd_table t = (fd_table s)[nat fd := d])"

lemma open_cases:
  assumes "vfs_open path flags s = Some (fd, t)" "shell_ok s"
  obtains "fd < 0" "keeps s t" | "\<not> fd < 0" "opened fd s t"
proof -
  have ok: "fd_ok s" "length (fd_table s) = 64" using assms(2) by (simp_all add: shell_ok_def fd_ok_def)
  have t: "fd_ok t" using vfs_open_ok [OF assms(1) ok(1)] .
  have v: "vfs.more t = vfs.more s \<and> vfs_root t = vfs_root s \<and> mount_table t = mount_table s"
    using assms(1)
  proof (cases rule: vfs_open_shape)
    case (1 u)
    then show ?thesis using more_fields [OF 1(1)] vmore_of_more [OF 1(1)] by simp
  next
    case (2 u d)
    then show ?thesis using more_fields [OF 2(1)] vmore_of_more [OF 2(1)] by (simp add: upd_fd_def)
  qed
  then have "rest s t" using rest_vmore t assms(2) by blast
  from vfs_open_cases [OF assms(1) ok(2)] show thesis
  proof (elim disjE exE conjE)
    fix n d assume n: "n < 64" "fd = int n" "\<not> f_in_use (fd_table s ! n)" "fd_table t = (fd_table s)[n := d]" "f_in_use d" "f_node d \<noteq> 0"
    then have "opened fd s t" using \<open>rest s t\<close> unfolding opened_def by (intro conjI exI [of _ d]) simp_all
    then show thesis using that(2) n(2) by simp
  qed (use that(1) \<open>rest s t\<close> in \<open>simp add: keeps_def\<close>)
qed

lemma opened_table:
  assumes "opened fd s t" "shell_ok s"
  shows "fd_open fd t" "nat fd < length (fd_table s)" "fd_ok t" "shell_ok t"
  using assms by (auto simp: opened_def fd_open_def shell_ok_def fd_ok_def rest_def)

lemma opened_prints: "opened fd s t \<Longrightarrow> prints os t = Some u \<Longrightarrow> opened fd s u"
  using keeps_prints [of os t u] by (auto simp: opened_def keeps_def rest_def)

lemma opened_move:
  assumes "opened fd s t" "shell_ok s" "\<And>d. f_in_use (f d) = f_in_use d \<and> f_node (f d) = f_node d"
  shows "opened fd s (upd_fd fd f t)"
proof -
  note tab = opened_table [OF assms(1,2)]
  obtain d where d: "f_in_use d" "f_node d \<noteq> 0" "fd_table t = (fd_table s)[nat fd := d]" using assms(1) by (auto simp: opened_def)
  have "fd_ok (upd_fd fd f t)" using fd_ok_move [OF tab(3,1)] assms(3) by blast
  then have "rest s (upd_fd fd f t)" using assms(1) by (simp add: opened_def rest_def shell_ok_def upd_fd_def)
  moreover have "fd_table (upd_fd fd f t) = (fd_table s)[nat fd := f d]" using d(3) tab(2) by (simp add: upd_fd_table)
  moreover have "f_in_use (f d)" "f_node (f d) \<noteq> 0" using d assms(3) by simp_all
  ultimately show ?thesis using assms(1) unfolding opened_def by blast
qed

lemma opened_read:
  assumes "opened fd s t" "shell_ok s" "vfs_read fd n t = Some (r, u)"
  shows "opened fd s u"
proof -
  have "opened fd s (upd_fd fd (\<lambda>d. d\<lparr>f_offset := f_offset d + k\<rparr>) t)" for k by (rule opened_move [OF assms(1,2)]) simp
  moreover have "u = t \<or> (\<exists>k. u = upd_fd fd (\<lambda>d. d\<lparr>f_offset := f_offset d + k\<rparr>) t)"
    using assms(3) by (auto simp: vfs_read_def Let_def bind_eq_Some_conv split: if_splits option.splits)
  ultimately show ?thesis using assms(1) by auto
qed

lemma opened_more:
  assumes "opened fd s t" "shell_ok s" "fsys.more u = fsys.more t"
  shows "opened fd s u"
proof -
  have "rest t u" "fd_table u = fd_table t"
    using keeps_more [OF assms(3)] opened_table [OF assms(1,2)] by (simp_all add: keeps_def)
  then show ?thesis using assms(1) by (auto simp: opened_def rest_def)
qed

lemma opened_write:
  assumes "opened fd s t" "shell_ok s" "vfs_write fd buf n t = Some (r, u)"
  shows "opened fd s u"
  using assms(3)
proof (cases rule: vfs_write_cases)
  case 1
  then show ?thesis using assms(1) by simp
next
  case (2 d ops s0 w x)
  have "opened fd s s0" using opened_move [OF assms(1,2)] assms(1) 2(5) by simp
  then have x: "opened fd s x" using op_more(1) [OF 2(6)] opened_more assms(2) by blast
  have up: "opened fd s (upd_node p g y)" if "opened fd s y" for p g and y :: shell
    using that by (rule opened_more [OF _ assms(2)]) simp
  show ?thesis using 2(8) x up opened_move [OF x assms(2)] by (auto simp: Let_def)
qed

lemma opened_close:
  assumes "opened fd s t" "shell_ok s"
  shows "keeps s (snd (vfs_close fd t))"
proof -
  note tab = opened_table [OF assms]
  obtain d where d: "fd_table t = (fd_table s)[nat fd := d]" using assms(1) by (auto simp: opened_def)
  have "fd_table s ! nat fd = free_fd"
    using assms tab(2) by (auto simp: opened_def shell_ok_def fd_ok_def dest: nth_mem)
  then have "fd_table (snd (vfs_close fd t)) = fd_table s"
    using d tab by (simp add: vfs_close_def upd_fd_table list_update_same_conv)
  moreover have "rest s (snd (vfs_close fd t))"
    using assms(1) vfs_close_ok [OF tab(3), of fd] tab(1) by (auto simp: opened_def rest_def shell_ok_def vfs_close_def upd_fd_def)
  ultimately show ?thesis by (simp add: keeps_def)
qed

section \<open>Commands\<close>

lemma ls_loop_keeps:
  assumes "ls_loop path index s = Some r"
  shows "shell_ok s \<longrightarrow> keeps s (snd r)"
proof (rule ls_loop.raw_induct
    [where P = "\<lambda>path index s r. shell_ok s \<longrightarrow> keeps s (snd r)", OF _ assms], intro impI, goal_cases)
  case (1 ls path index s r)
  note IH = 1(1) and body = 1(2) and ok = 1(3)
  obtain entry u where u: "vfs_readdir path index s = Some (entry, u)" using body by (auto simp: bind_eq_Some_conv)
  have ku: "keeps s u" using keeps_more [OF vfs_readdir_more [OF u] ok] .
  show ?case
  proof (cases entry)
    case None
    then show ?thesis using body u ku by auto
  next
    case (Some e)
    then obtain os v where v: "prints os u = Some v" "ls path (index + 1) v = Some r"
      using body u by (auto simp: bind_eq_Some_conv)
    have kv: "keeps u v" using keeps_prints [OF v(1) keeps_ok [OF ku]] .
    then have "keeps v (snd r)" using IH [OF v(2)] keeps_ok by blast
    then show ?thesis using ku kv keeps_trans by blast
  qed
qed

lemma cat_loop_opened:
  assumes "cat_loop fd t = Some u" "shell_ok s"
  shows "opened fd s t \<longrightarrow> opened fd s u"
proof (rule cat_loop.raw_induct
    [where P = "\<lambda>fd t u. opened fd s t \<longrightarrow> opened fd s u", OF _ assms(1)], intro impI, goal_cases)
  case (1 cat fd t u)
  note IH = 1(1) and body = 1(2) and o = 1(3)
  obtain r v where v: "vfs_read fd 255 t = Some (r, v)" using body by (auto simp: bind_eq_Some_conv)
  have ov: "opened fd s v" using opened_read [OF o assms(2) v] .
  show ?case
  proof (cases "r = None \<or> r = Some []")
    case True
    then show ?thesis using body v ov by auto
  next
    case False
    then obtain y where "r = Some y" "y \<noteq> []" by auto
    then obtain w where w: "prints [Puts (until_nul y)] v = Some w" "cat fd w = Some u"
      using body v by (auto simp: bind_eq_Some_conv)
    then show ?thesis using IH [OF w(2)] opened_prints [OF ov w(1)] by blast
  qed
qed

lemma complain_keeps: "complain str path s = Some t \<Longrightarrow> shell_ok s \<Longrightarrow> keeps s t"
  by (simp add: complain_def keeps_prints)

lemma ls_keeps:
  assumes "cmd_ls path s = Some t" "shell_ok s"
  shows "keeps s t"
proof -
  obtain os u n v where u: "prints os s = Some u" "ls_loop (if path = [] then [SLASH] else path) 0 u = Some (n, v)"
    "(if n = 0 then prints [Line ''  (empty)''] v else Some v) = Some t"
    using assms(1) by (auto simp: cmd_ls_def Let_def bind_eq_Some_conv)
  have k: "keeps s u" using keeps_prints [OF u(1) assms(2)] .
  then have "keeps u v" using ls_loop_keeps [OF u(2)] keeps_ok by auto
  moreover from this have "keeps v t" using u(3) keeps_prints [of _ v t] keeps_refl keeps_ok by (auto split: if_splits)
  ultimately show ?thesis using k keeps_trans by blast
qed

lemma cat_keeps:
  assumes "cmd_cat path s = Some t" "shell_ok s"
  shows "keeps s t"
proof (cases "path = []")
  case True
  then show ?thesis using assms keeps_prints by (simp add: cmd_cat_def)
next
  case False
  then obtain fd u where u: "vfs_open path 0 s = Some (fd, u)" using assms(1) by (auto simp: cmd_cat_def bind_eq_Some_conv)
  show ?thesis
  proof (rule open_cases [OF u assms(2)])
    assume "fd < 0" "keeps s u"
    then show ?thesis using assms(1) False u complain_keeps [of _ path u t] keeps_ok keeps_trans by (auto simp: cmd_cat_def)
  next
    assume o: "\<not> fd < 0" "opened fd s u"
    then obtain v w where v: "cat_loop fd u = Some v" "prints [NL] v = Some w" "t = snd (vfs_close fd w)"
      using assms(1) False u by (auto simp: cmd_cat_def bind_eq_Some_conv)
    show ?thesis unfolding v(3)
      using opened_close [OF opened_prints [OF cat_loop_opened [OF v(1) assms(2), rule_format, OF o(2)] v(2)] assms(2)] .
  qed
qed

lemma touch_keeps:
  assumes "cmd_touch path s = Some t" "shell_ok s"
  shows "keeps s t"
proof (cases "path = []")
  case True
  then show ?thesis using assms keeps_prints by (simp add: cmd_touch_def)
next
  case False
  then obtain fd u where u: "vfs_open path (0x40 OR 1) s = Some (fd, u)" using assms(1) by (auto simp: cmd_touch_def bind_eq_Some_conv)
  show ?thesis
  proof (rule open_cases [OF u assms(2)])
    assume "fd < 0" "keeps s u"
    then show ?thesis using assms(1) False u complain_keeps [of _ path u t] keeps_ok keeps_trans by (auto simp: cmd_touch_def)
  next
    assume o: "\<not> fd < 0" "opened fd s u"
    then have "keeps (snd (vfs_close fd u)) t"
      using assms(1) False u opened_close [OF o(2) assms(2)] keeps_ok keeps_prints by (auto simp: cmd_touch_def)
    then show ?thesis using opened_close [OF o(2) assms(2)] keeps_trans by blast
  qed
qed

lemma write_keeps:
  assumes "cmd_write_file args s = Some t" "shell_ok s"
  shows "keeps s t"
proof -
  let ?f = "take (256 - 1) (takeWhile (\<lambda>c. c \<noteq> 32) args)"
  let ?d = "dropWhile (\<lambda>c. c = 32) (drop (length ?f) args)"
  have eq: "cmd_write_file args s =
     (if args = [] \<or> ?d = [] then prints [Line ''Usage: write <file> <data>''] s
      else do { (fd, s) \<leftarrow> vfs_open ?f (0x40 OR 1 OR 0x200) s;
                if fd < 0 then complain ''Cannot open for writing: '' ?f s
                else do { (written, s) \<leftarrow> vfs_write fd ?d (of_nat (length ?d)) s;
                          prints [Say ''Wrote '', Dec (of_int written), Say '' bytes to '', Puts ?f, NL] (snd (vfs_close fd s)) } })"
    by (cases "args = []"; cases "?d = []"; simp only: cmd_write_file_def Let_def if_True if_False simp_thms)
  show ?thesis
  proof (cases "args = [] \<or> ?d = []")
    case True
    then show ?thesis using assms keeps_prints by (simp only: eq if_True)
  next
    case False
    then obtain fd u where u: "vfs_open ?f (0x40 OR 1 OR 0x200) s = Some (fd, u)"
      using assms(1) by (auto simp: eq bind_eq_Some_conv simp del: dropWhile_eq_Nil_conv)
    show ?thesis
    proof (rule open_cases [OF u assms(2)])
      assume "fd < 0" "keeps s u"
      then show ?thesis using assms(1) False u complain_keeps [of _ ?f u t] keeps_ok keeps_trans by (auto simp: eq simp del: dropWhile_eq_Nil_conv)
    next
      assume o: "\<not> fd < 0" "opened fd s u"
      then obtain m v where v: "vfs_write fd ?d (of_nat (length ?d)) u = Some (m, v)"
        "prints [Say ''Wrote '', Dec (of_int m), Say '' bytes to '', Puts ?f, NL] (snd (vfs_close fd v)) = Some t"
        using assms(1) False u by (auto simp: eq bind_eq_Some_conv simp del: dropWhile_eq_Nil_conv)
      have "keeps s (snd (vfs_close fd v))" using opened_close [OF opened_write [OF o(2) assms(2) v(1)] assms(2)] .
      then show ?thesis using keeps_prints [OF v(2)] keeps_ok keeps_trans by blast
    qed
  qed
qed

lemma mkdir_rm_keeps:
  assumes "shell_ok s"
  shows "cmd_mkdir_path path s = Some t \<Longrightarrow> keeps s t" "cmd_rm path s = Some t \<Longrightarrow> keeps s t"
proof -
  have end': "keeps s t" if "fsys.more u = fsys.more s" "prints os u = Some t \<or> complain str path u = Some t" for u os str
    using keeps_more [OF that(1) assms] that(2) keeps_prints complain_keeps keeps_ok keeps_trans by blast
  show "keeps s t" if c: "cmd_mkdir_path path s = Some t"
  proof (cases "path = []")
    case True
    then show ?thesis using c assms keeps_prints by (simp add: cmd_mkdir_path_def)
  next
    case False
    then obtain r u where x: "vfs_create path 2 s = Some (r, u)" using c by (auto simp: cmd_mkdir_path_def vfs_mkdir_def bind_eq_Some_conv)
    then have "(\<exists>os. prints os u = Some t) \<or> (\<exists>str. complain str path u = Some t)"
      using c False by (auto simp: cmd_mkdir_path_def vfs_mkdir_def split: if_splits)
    then show ?thesis using end' [OF vfs_create_more [OF x]] by blast
  qed
  show "keeps s t" if c: "cmd_rm path s = Some t"
  proof (cases "path = []")
    case True
    then show ?thesis using c assms keeps_prints by (simp add: cmd_rm_def)
  next
    case False
    then obtain r u where x: "vfs_unlink path s = Some (r, u)" using c by (auto simp: cmd_rm_def bind_eq_Some_conv)
    then have "(\<exists>os. prints os u = Some t) \<or> (\<exists>str. complain str path u = Some t)"
      using c False by (auto simp: cmd_rm_def split: if_splits)
    then show ?thesis using end' [OF vfs_unlink_more [OF x]] by blast
  qed
qed

lemma execute_keeps:
  assumes "execute_command cmd s = Some (Goes_on t)" "shell_ok s"
  shows "keeps s t"
proof -
  let ?c = "dropWhile (\<lambda>c. c = 32) cmd"
  note p = keeps_prints [OF _ assms(2)]
  have info: "cmd_help s = Some t \<Longrightarrow> keeps s t" "cmd_meminfo s = Some t \<Longrightarrow> keeps s t" "cmd_ver s = Some t \<Longrightarrow> keeps s t"
    "cmd_echo a s = Some t \<Longrightarrow> keeps s t" "cmd_uptime s = Some t \<Longrightarrow> keeps s t" "cmd_dori s = Some t \<Longrightarrow> keeps s t"
    "cmd_diskinfo s = Some t \<Longrightarrow> keeps s t" "cmd_fsinfo s = Some t \<Longrightarrow> keeps s t" for a
    by (simp_all only: cmd_help_def cmd_meminfo_def cmd_ver_def cmd_echo_def cmd_uptime_def cmd_dori_def cmd_diskinfo_def
        cmd_fsinfo_def dorifs_print_info_def Let_def p split: if_splits)
  note files = ls_keeps [OF _ assms(2)] cat_keeps [OF _ assms(2)] touch_keeps [OF _ assms(2)] write_keeps [OF _ assms(2)]
    mkdir_rm_keeps [OF assms(2)]
  show ?thesis
    using assms unfolding execute_command_def Let_def
    by (simp only: option.inject outcome.inject outcome.distinct map_option_eq_Some simp_thms split: if_splits)
      (auto dest: info files p intro: keeps_refl keeps_clear)
qed

text \<open>The commands that use files, or wait for the controller, may fail to return; no other does.\<close>

definition may_hang :: "u8 list \<Rightarrow> bool" where
  "may_hang cmd \<longleftrightarrow> (let cmd = dropWhile (\<lambda>c. c = 32) cmd in
     cmd = chars ''ls'' \<or> cmd = chars ''reboot'' \<or>
     (\<exists>p \<in> {''ls '', ''cat '', ''touch '', ''write '', ''mkdir '', ''rm ''}. starts p cmd))"

lemma execute_returns:
  assumes "\<not> may_hang cmd" "vga_ok (screen s)"
  shows "execute_command cmd s \<noteq> None"
proof -
  have p: "prints os s \<noteq> None" for os using prints_total [OF assms(2), of os] by auto
  show ?thesis
    using assms(1) p unfolding execute_command_def may_hang_def Let_def cmd_help_def cmd_meminfo_def cmd_ver_def cmd_echo_def
      cmd_uptime_def cmd_dori_def cmd_diskinfo_def cmd_fsinfo_def dorifs_print_info_def cmd_halt_def
    by (simp del: dropWhile_eq_Nil_conv)
qed

definition shell_inv :: "shell \<Rightarrow> bool" where
  "shell_inv s \<longleftrightarrow> shell_ok s \<and> kb_inv (keys s) \<and> (\<exists>t. line_is t s)"

lemma kshell_char_inv:
  assumes "kshell_char c s = Some (Goes_on u)" "shell_inv s"
  shows "shell_inv u \<and> fd_table u = fd_table s \<and> vfs_root u = vfs_root s \<and> mount_table u = mount_table s"
proof -
  obtain t where s: "shell_ok s" "vga_ok (screen s)" "kb_inv (keys s)" "line_is t s" "fd_ok s"
    using assms(2) by (auto simp: shell_inv_def shell_ok_def)
  show ?thesis
  proof (cases "c = 10")
    case False
    obtain v where "u = s\<lparr>screen := v, cmd_pos := length (edit_key c t), cmd_buffer := edit_key c t @ replicate (256 - length (edit_key c t)) 0\<rparr>" "vga_ok v"
      using edit_step [OF s(2,4) False] assms(1) by auto
    moreover have "length (edit_key c t) \<le> 255" using s(4) edit_key_length by (simp add: line_is_def)
    ultimately show ?thesis using s by (auto simp: shell_inv_def shell_ok_def fd_ok_def line_is_def intro!: exI [of _ "edit_key c t"])
  next
    case True
    obtain v where v: "kshell_char 10 s = enter (s\<lparr>screen := v\<rparr>)" "vga_ok v" using enter_step [OF s(2,4)] by blast
    obtain w where w: "execute_command (until_nul (cmd_buffer s)) (s\<lparr>screen := v\<rparr>) = Some (Goes_on w)" "print_prompt (clear_line w) = Some u"
      using assms(1) v(1) True by (auto simp: enter_def split: option.splits outcome.splits)
    have k: "keeps (s\<lparr>screen := v\<rparr>) w" using execute_keeps [OF w(1)] s(1) v(2) by simp
    then have "vga_ok (screen (clear_line w))" by (simp add: keeps_def rest_def shell_ok_def clear_line_def)
    then obtain x where x: "u = (clear_line w)\<lparr>screen := x\<rparr>" "vga_ok x" using prompt_total w(2) by fastforce
    have "line_is [] u" using x(1) by (simp add: line_is_def clear_line_def)
    then show ?thesis using x k s by (auto simp: keeps_def rest_def shell_inv_def shell_ok_def fd_ok_def clear_line_def)
  qed
qed

lemma kshell_event_inv:
  assumes "kshell_event e (Goes_on s) = Some (Goes_on u)" "shell_inv s"
  shows "shell_inv u \<and> fd_table u = fd_table s \<and> vfs_root u = vfs_root s \<and> mount_table u = mount_table s"
proof (cases e)
  case (Key_irq b)
  then show ?thesis using assms callback_refines [of "keys s" b] by (auto simp: shell_inv_def shell_ok_def fd_ok_def line_is_def)
next
  case Timer_irq
  then show ?thesis using assms by (auto simp: shell_inv_def shell_ok_def fd_ok_def line_is_def)
next
  case Pass
  obtain c kb where p: "keyboard_get_char (keys s) = (c, kb)" by (cases "keyboard_get_char (keys s)")
  have "kb_inv kb" using kb_queue.pop_inv [of "keys s"] assms(2) p by (simp add: shell_inv_def)
  then have "shell_inv (s\<lparr>keys := kb\<rparr>)" using assms(2) by (auto simp: shell_inv_def shell_ok_def fd_ok_def line_is_def)
  then show ?thesis using kshell_char_inv [of c "s\<lparr>keys := kb\<rparr>" u] assms(1) p Pass by (simp add: kshell_pass_def)
qed

lemma events_inv:
  "kshell_events es (Goes_on s) = Some (Goes_on u) \<Longrightarrow> shell_inv s \<Longrightarrow>
   shell_inv u \<and> fd_table u = fd_table s \<and> vfs_root u = vfs_root s \<and> mount_table u = mount_table s"
proof (induction es arbitrary: s)
  case (Cons e es)
  obtain r where r: "kshell_event e (Goes_on s) = Some r" "kshell_events es r = Some (Goes_on u)"
    using Cons.prems(1) by (auto simp: bind_eq_Some_conv)
  have stop: "kshell_events es (Stopped x) = Some (Stopped x)" for es x by (induction es) simp_all
  obtain t where "r = Goes_on t" using r(2) stop by (cases r) auto
  then show ?case using Cons.IH [of t] r kshell_event_inv [of e s t] Cons.prems(2) by auto
qed simp

text \<open>
  C14: the shell leaks nothing and fails only in the filesystem. Whatever keys come, in whatever order with
  the passes of the loop, while the shell goes on its line stays inside the buffer and ended by NUL, the
  screen is never written outside, and the table of descriptors, the root and the mounts are exactly those
  from before: every command that opens a file closes it. A pass that does not return executes a command on
  files, or \<open>reboot\<close>.
\<close>

theorem kshell_keeps:
  assumes "shell_inv s" "kshell_events es (Goes_on s) = Some (Goes_on u)"
  shows "shell_inv u \<and> cmd_buffer u ! cmd_pos u = 0 \<and> fd_table u = fd_table s \<and> vfs_root u = vfs_root s \<and>
    mount_table u = mount_table s \<and>
    (kshell_pass u = None \<longrightarrow> fst (keyboard_get_char (keys u)) = 10 \<and> may_hang (until_nul (cmd_buffer u)))"
proof -
  have u: "shell_inv u" "fd_table u = fd_table s" "vfs_root u = vfs_root s" "mount_table u = mount_table s"
    using events_inv [OF assms(2,1)] by simp_all
  obtain t where t: "vga_ok (screen u)" "line_is t u" using u(1) by (auto simp: shell_inv_def shell_ok_def)
  have "cmd_buffer u ! cmd_pos u = 0" using t(2) by (simp add: line_is_def nth_append)
  moreover have "fst (keyboard_get_char (keys u)) = 10 \<and> may_hang (until_nul (cmd_buffer u))" if none: "kshell_pass u = None"
  proof -
    obtain c kb where p: "keyboard_get_char (keys u) = (c, kb)" by (cases "keyboard_get_char (keys u)")
    let ?u = "u\<lparr>keys := kb\<rparr>"
    have l: "vga_ok (screen ?u)" "line_is t ?u" using t by (simp_all add: line_is_def)
    have n: "kshell_char c ?u = None" using none p by (simp add: kshell_pass_def)
    then have c: "c = 10" using edit_step [OF l, of c] by auto
    obtain v where v: "kshell_char 10 ?u = enter (?u\<lparr>screen := v\<rparr>)" "vga_ok v" using enter_step [OF l] by blast
    have "may_hang (until_nul (cmd_buffer u))"
    proof (rule ccontr)
      assume "\<not> may_hang (until_nul (cmd_buffer u))"
      then obtain r where r: "execute_command (until_nul (cmd_buffer u)) (?u\<lparr>screen := v\<rparr>) = Some r"
        using execute_returns [of _ "?u\<lparr>screen := v\<rparr>"] v(2) by fastforce
      have "print_prompt (clear_line x) \<noteq> None" if x: "r = Goes_on x" for x
      proof -
        have "shell_ok (?u\<lparr>screen := v\<rparr>)" using u(1) v(2) by (simp add: shell_inv_def shell_ok_def fd_ok_def)
        then have "shell_ok x" using keeps_ok [OF execute_keeps] r x by blast
        then show ?thesis using prompt_total [of "clear_line x"] by (auto simp: shell_ok_def clear_line_def)
      qed
      then show False using n c v(1) r by (auto simp: enter_def split: outcome.splits)
    qed
    then show ?thesis using c p by simp
  qed
  ultimately show ?thesis using u by blast
qed

section \<open>A concrete shell\<close>

text \<open>A shell with an empty line, no descriptor in use, and a root that is a file.\<close>

definition example_shell :: shell where
  "example_shell = (file_vfs_with (shell.fields (vga_init vga_static) keyboard_static
       \<lparr>pmm_bitmap = (\<lambda>_. 0), pmm_max_blocks = 32, pmm_used_blocks = 0\<rparr> 0 [] (replicate 256 0) 0))
     \<lparr>vfs_root := 0x20000C, fd_table := replicate 64 free_fd\<rparr>"

lemma example_shell_fields:
  "screen example_shell = vga_init vga_static" "keys example_shell = keyboard_static" "cmd_buffer example_shell = replicate 256 0"
  "cmd_pos example_shell = 0" "fd_table example_shell = replicate 64 free_fd" "vfs_root example_shell = 0x20000C" "mount_table example_shell = []"
  by (simp_all add: example_shell_def file_vfs_with_def vfs.defs fsys.defs shell.defs)

lemma example_shell_ok: "vga_ok (screen example_shell)" "line_is [] example_shell" "shell_ok example_shell"
  by (simp_all add: example_shell_fields vga_ok_clear line_is_def shell_ok_def fd_ok_def free_fd_def del: replicate.simps)

definition typed_hi :: keyboard where
  "typed_hi = keyboard_static\<lparr>kb_buffer := [104, 10] @ replicate 254 0, kb_buffer_head := 2\<rparr>"

lemma typed: "kb_inv typed_hi" "kb_contents typed_hi = [104, 10]" "kb_inv keyboard_static" "kb_contents keyboard_static = []"
  by (simp_all add: typed_hi_def keyboard_static_def kb_inv_def kb_contents_def ring_def upt_rec del: replicate.simps)

theorem kshell_line_witness:
  "\<exists>v w. kshell_chars [104, 105, 8] example_shell = Some (Goes_on (example_shell\<lparr>screen := v, cmd_pos := 1,
      cmd_buffer := 104 # replicate 255 0\<rparr>)) \<and>
    kshell_chars [104, 105, 8, 10] example_shell =
       (case execute_command [104] (example_shell\<lparr>cmd_pos := 1, cmd_buffer := 104 # replicate 255 0, screen := w\<rparr>) of
          Some (Goes_on t) \<Rightarrow> map_option Goes_on (print_prompt (clear_line t)) | r \<Rightarrow> r)"
proof -
  have e: "edited [104, 105, 8] = [104]" by (simp add: edited_def edit_key_def)
  have n: "until_nul [104] = [104]" by (simp add: until_nul_def)
  have "10 \<notin> set [104, 105, 8 :: u8]" by simp
  from kshell_line [OF example_shell_ok(1,2) this]
  obtain v w where "kshell_chars [104, 105, 8] example_shell = Some (Goes_on (example_shell\<lparr>screen := v, cmd_pos := 1,
      cmd_buffer := [104] @ replicate 255 0\<rparr>))"
    "kshell_chars ([104, 105, 8] @ [10]) example_shell =
       (case execute_command [104] (example_shell\<lparr>cmd_pos := 1, cmd_buffer := [104] @ replicate 255 0, screen := w\<rparr>) of
          Some (Goes_on t) \<Rightarrow> map_option Goes_on (print_prompt (clear_line t)) | r \<Rightarrow> r)"
    unfolding e n by (auto simp del: replicate.simps kshell_chars.simps append_Cons)
  then show ?thesis by (intro exI [of _ v] exI [of _ w]) (simp only: append_Cons append_Nil simp_thms)
qed

theorem kshell_idle_witness:
  "\<exists>u v kb. kshell_events (replicate 3 Pass) (Goes_on example_shell) = Some (Goes_on u) \<and>
    kshell_events (replicate 2 Pass) (Goes_on (u\<lparr>keys := typed_hi\<rparr>)) = Some (Goes_on (example_shell\<lparr>screen := v, keys := kb\<rparr>)) \<and>
    kb_contents kb = []"
proof -
  have t: "kb_contents typed_hi = [104] @ [10]" "set [104 :: u8] \<inter> {3, 8, 10} = {}" by (simp_all add: typed)
  have two: "length [104 :: u8] + 1 = 2" by simp
  show ?thesis
    using kshell_idle [OF example_shell_ok(1,2) _ _ _ typed(1) t, of 3] typed(3,4) unfolding example_shell_fields(2) two by simp
qed

theorem kshell_keeps_witness:
  "\<exists>u. kshell_events [Timer_irq, Pass] (Goes_on (example_shell\<lparr>keys := typed_hi\<rparr>)) = Some (Goes_on u) \<and>
    cmd_pos u = 1 \<and> cmd_buffer u ! 1 = 0 \<and> fd_table u = replicate 64 free_fd"
proof -
  let ?s = "example_shell\<lparr>keys := typed_hi\<rparr>"
  let ?t = "?s\<lparr>sh_ticks := sh_ticks ?s + 1\<rparr>"
  have t: "vga_ok (screen ?t)" "line_is [] ?t" "kb_inv (keys ?t)" "kb_contents (keys ?t) = [104, 10]"
    using example_shell_ok by (simp_all add: line_is_def typed)
  have inv: "shell_inv ?s" using example_shell_ok by (auto simp: shell_inv_def shell_ok_def fd_ok_def line_is_def typed intro!: exI [of _ "[]"])
  have cs: "[104] = take 1 (kb_contents (keys ?t) @ replicate 1 0)" "10 \<notin> set [104 :: u8]" by (simp_all only: t(4)) simp_all
  obtain v kb where "kshell_events (replicate 1 Pass) (Goes_on ?t) = Some (Goes_on (?t\<lparr>screen := v, keys := kb,
      cmd_pos := 1, cmd_buffer := [104] @ replicate 255 0\<rparr>))"
    using passes_edit [OF t(1-3) cs] by (auto simp: edit_key_def simp del: replicate.simps)
  then obtain u where u: "kshell_events [Timer_irq, Pass] (Goes_on ?s) = Some (Goes_on u)" "cmd_pos u = 1" by auto
  from kshell_keeps [OF inv u(1)] have "cmd_buffer u ! 1 = 0" "fd_table u = replicate 64 free_fd"
    using u(2) by (simp_all add: example_shell_fields)
  then show ?thesis using u by blast
qed

end
