(* ===== verification/Kshell_Files.thy ===== *)
theory Kshell_Files
  imports Kshell_Claims Vfs_Reading
begin

text \<open>
  Files in the shell: \<open>cat\<close> prints a file from beginning to end, and prints what \<open>write\<close> stored.
\<close>

section \<open>The loop of cat\<close>

fun chunks :: "u8 list \<Rightarrow> u8 list list" where
  "chunks [] = []"
| "chunks (b # bs) = take 255 (b # bs) # chunks (drop 255 (b # bs))"

definition cat_text :: "u8 list \<Rightarrow> u8 list" where
  "cat_text bs = concat (map until_nul (chunks bs))"

lemma cat_text_step: "bs \<noteq> [] \<Longrightarrow> cat_text bs = until_nul (take 255 bs) @ cat_text (drop 255 bs)"
  by (cases bs) (simp_all add: cat_text_def)

lemma until_nul_id: "0 \<notin> set bs \<Longrightarrow> until_nul bs = bs"
  unfolding until_nul_def by (rule takeWhile_eq_all_conv [THEN iffD2]) auto

lemma cat_text_plain: "0 \<notin> set bs \<Longrightarrow> cat_text bs = bs"
proof (induction bs rule: chunks.induct)
  case (2 b bs)
  have "0 \<notin> set (drop 255 (b # bs))" "0 \<notin> set (take 255 (b # bs))" using 2(2) by (meson in_set_dropD in_set_takeD)+
  then show ?case using 2 by (subst cat_text_step) (simp_all only: until_nul_id append_take_drop_id list.simps simp_thms)
qed (simp add: cat_text_def)

lemma reads_screen: "reads fd pos p bs (s\<lparr>screen := v\<rparr>) = reads fd pos p bs s" for s :: shell
  using file_holds_same [of "s\<lparr>screen := v\<rparr>" s p bs] by (simp add: reads_def fd_open_def)

lemma screen_upd_fd [simp]: "screen (upd_fd fd f s) = screen s"
  by (simp add: upd_fd_def)

lemma cat_loop_run:
  fixes s :: shell
  assumes "reads fd pos p bs s" "vga_ok (screen s)"
  shows "\<exists>t. cat_loop fd s = Some t \<and> vga_puts (cat_text (drop pos bs)) (screen s) = Some (screen t) \<and> vga_ok (screen t) \<and>
    reads fd (length bs) p bs t"
  using assms
proof (induction "length bs - pos" arbitrary: pos s rule: less_induct)
  case less
  let ?buf = "take 255 (drop pos bs)"
  let ?s = "upd_fd fd (\<lambda>d. d\<lparr>f_offset := f_offset d + of_nat (length ?buf)\<rparr>) s"
  have rd: "vfs_read fd 255 s = Some (Some ?buf, ?s)" "reads fd (pos + length ?buf) p bs ?s"
    using fd_read_file [OF less.prems(1), of 255] by simp_all
  have pos: "pos \<le> length bs" using less.prems(1) by (simp add: reads_def)
  have scr: "screen ?s = screen s" by (simp add: upd_fd_def)
  show ?case
  proof (cases "?buf = []")
    case True
    then have "pos = length bs" using pos by simp
    then show ?thesis using rd True less.prems(2) by (subst cat_loop.simps) (simp add: cat_text_def scr)
  next
    case False
    then have lt: "pos < length bs" using pos by auto
    obtain v where v: "prints [Puts (until_nul ?buf)] ?s = Some (?s\<lparr>screen := v\<rparr>)" "vga_puts (until_nul ?buf) (screen s) = Some v" "vga_ok v"
      using prints_total [of ?s "[Puts (until_nul ?buf)]"] less.prems(2) scr by (auto simp: bind_eq_Some_conv)
    have more: "length bs - (pos + length ?buf) < length bs - pos" using lt by simp
    obtain t where t: "cat_loop fd (?s\<lparr>screen := v\<rparr>) = Some t"
      "vga_puts (cat_text (drop (pos + length ?buf) bs)) v = Some (screen t)" "vga_ok (screen t)" "reads fd (length bs) p bs t"
      using less.hyps [OF more, of "?s\<lparr>screen := v\<rparr>"] rd(2) v(3) by (auto simp: reads_screen)
    have "drop (pos + length ?buf) bs = drop 255 (drop pos bs)" using pos by (auto simp: min_def add.commute)
    then have "cat_text (drop pos bs) = until_nul ?buf @ cat_text (drop (pos + length ?buf) bs)"
      using cat_text_step [of "drop pos bs"] lt by simp
    then have "vga_puts (cat_text (drop pos bs)) (screen s) = Some (screen t)" using v(2) t(2) by (simp add: vga_puts_append)
    moreover have "cat_loop fd s = Some t" using rd(1) False v(1) t(1) by (subst cat_loop.simps) simp
    ultimately show ?thesis using t by blast
  qed
qed

section \<open>Opening\<close>

lemma open_resolved:
  fixes s :: "'a vfs_scheme"
  assumes "vfs_resolve_path path s = Some (p, s1)" "p \<noteq> 0" "n_ops (nodes s1 p) = Some Dorifs_Ops" "\<not> fd_alloc s1 < 0"
  shows "vfs_open path flags s =
    do { s2 \<leftarrow> (if flags AND VFS_O_TRUNC \<noteq> 0 then map_option snd (dorifs_vfs_truncate p 0 s1) else Some s1);
         Some (fd_alloc s1, upd_fd (fd_alloc s1) (\<lambda>_. \<lparr>f_node = p,
           f_offset = (if flags AND VFS_O_APPEND \<noteq> 0 then n_size (nodes s2 p) else 0), f_flags = flags, f_in_use = True\<rparr>) s2) }"
  using assms by (simp add: vfs_open_def dorifs_vfs_open_def Let_def)

lemma fd_alloc_free:
  assumes "length (fd_table s) = 64" "j < 64" "\<not> f_in_use (fd_table s ! j)"
  shows "\<not> fd_alloc s < 0" "fd_alloc s < 64"
  using fd_alloc_from_cases [of "fd_table s" 0] assms by (auto simp: fd_alloc_def)

text \<open>A lookup changes the heap and the nodes only.\<close>

definition disk_part :: "'a fsys_scheme \<Rightarrow> disk \<times> u32 \<times> superblock \<times> u8 list" where
  "disk_part s = (fs_disk s, fs_lba s, sb s, data_bitmap s)"

lemma disk_part_upd [simp]: "disk_part (upd_node p f s) = disk_part s" "disk_part (s\<lparr>fs_heap := h\<rparr>) = disk_part s"
  by (simp_all add: disk_part_def upd_node_def)

lemma make_node_disk: "dorifs_make_vfs_node ino s = Some (q, t) \<Longrightarrow> disk_part t = disk_part s"
  by (auto simp: dorifs_make_vfs_node_def Let_def bind_eq_Some_conv split: option.splits if_splits)

lemma finddir_disk: "dorifs_vfs_finddir p name s = Some (q, t) \<Longrightarrow> disk_part t = disk_part s"
  by (auto simp: dorifs_vfs_finddir_def bind_eq_Some_conv split: option.splits if_splits dest!: make_node_disk)

lemma resolve_from_disk:
  fixes s :: "'a vfs_scheme"
  assumes "resolve_from current path s = Some r"
  shows "disk_part (snd r) = disk_part s"
proof (rule resolve_from.raw_induct
    [where P = "\<lambda>current path s r. disk_part (snd r) = disk_part s", OF _ assms], goal_cases)
  case (1 resolve current path s r)
  note IH = 1(1) and body = 1(2)
  have find: "disk_part t = disk_part s" if "op_finddir ops p n s = Some (q, t)" for ops p n q and s t :: "'a vfs_scheme"
    using that finddir_disk by (cases ops) auto
  have next_disk: "disk_part (snd r) = disk_part u"
    if "resolve c p u = Some (a, t)" "(if a = 0 then Some (0, t) else resolve a p' t) = Some r" for c p p' u a t r
    using IH [OF that(1)] that(2) IH [of a p' t r] by (auto split: if_splits)
  show ?case
    using body by (auto simp: bind_eq_Some_conv Let_def split: prod.splits if_splits option.splits
        dest!: find IH next_disk)
qed

lemma resolve_disk: "vfs_resolve_path path s = Some (q, t) \<Longrightarrow> disk_part t = disk_part s"
  using resolve_from_disk by (fastforce simp: vfs_resolve_path_def split: if_splits)

text \<open>A file by its inode: which node leads to it does not matter.\<close>

lemma file_by_inode:
  fixes s t :: "'a fsys_scheme"
  assumes "disk_part t = disk_part s" "n_inode (nodes t q) = n_inode (nodes s p)"
  shows "file_inv q t = file_inv p s" "file_byte q t = file_byte p s" "file_len q t = file_len p s"
proof -
  have d: "fs_disk t = fs_disk s" "fs_lba t = fs_lba s" "sb t = sb s" "data_bitmap t = data_bitmap s"
    using assms(1) by (simp_all add: disk_part_def)
  have b: "blk t = blk s" "block_ok t = block_ok s" by (simp_all add: blk_def block_ok_def d fun_eq_iff)
  have k: "taken t = taken s" by (simp add: taken_def d fun_eq_iff)
  have i: "ino_at t = ino_at s" by (simp add: ino_at_def b inode_block_def d fun_eq_iff)
  have f: "fbyte i t = fbyte i s" "file_ok i t = file_ok i s" for i
    unfolding fbyte_def b by (simp_all add: file_ok_def data_block_def in_use_def k d fun_eq_iff)
  show "file_inv q t = file_inv p s" "file_byte q t = file_byte p s" "file_len q t = file_len p s"
    by (simp_all add: file_inv_def file_byte_def file_len_def fs_ok_def layout_ok_def synced_def ino_ok_def b i f d assms(2))
qed

lemma file_holds_inode:
  "disk_part t = disk_part s \<Longrightarrow> n_inode (nodes t q) = n_inode (nodes s p) \<Longrightarrow> n_ops (nodes t q) = Some Dorifs_Ops \<Longrightarrow>
   file_holds p bs s \<Longrightarrow> file_holds q bs t" for s t :: "'a fsys_scheme"
  using file_by_inode [of t s q p] by (simp add: file_holds_def)

section \<open>cat\<close>

lemma cat_run:
  assumes "shell_ok s" "path \<noteq> []" "vfs_resolve_path path s = Some (p, s1)" "p \<noteq> 0" "file_holds p bs s1"
    and "j < 64" "\<not> f_in_use (fd_table s ! j)"
  shows "\<exists>t. cmd_cat path s = Some t \<and> vga_puts (cat_text bs @ [10]) (screen s) = Some (screen t) \<and> fd_table t = fd_table s"
proof -
  have tab: "fd_table s1 = fd_table s" using more_fields(2) [OF resolve_more [OF assms(3)]] .
  have ok: "length (fd_table s) = 64" "vga_ok (screen s)" using assms(1) by (simp_all add: shell_ok_def fd_ok_def)
  have scr: "screen s1 = screen s" using vmore_of_more [OF resolve_more [OF assms(3)]] by (cases s; cases s1; simp)
  let ?fd = "fd_alloc s1"
  have fd: "\<not> ?fd < 0" "?fd < 64" using fd_alloc_free [of s1 j] tab ok(1) assms(6,7) by simp_all
  have ops: "n_ops (nodes s1 p) = Some Dorifs_Ops" using assms(5) by (simp add: file_holds_def)
  let ?s = "upd_fd ?fd (\<lambda>_. \<lparr>f_node = p, f_offset = 0, f_flags = 0, f_in_use = True\<rparr>) s1"
  have op: "vfs_open path 0 s = Some (?fd, ?s)" using open_resolved [OF assms(3,4) ops fd(1), of 0] by simp
  have "file_holds p bs ?s" using assms(5) by (subst file_holds_same [of _ s1]) simp_all
  then have "reads ?fd 0 p bs ?s" using fd tab ok(1) assms(4) by (simp add: reads_def upd_fd_table fd_open_def)
  moreover have scr': "screen ?s = screen s" by (simp add: upd_fd_def scr)
  ultimately obtain t where t: "cat_loop ?fd ?s = Some t" "vga_puts (cat_text bs) (screen s) = Some (screen t)" "vga_ok (screen t)"
    using cat_loop_run [of ?fd 0 p bs ?s] ok(2) by auto
  obtain v where v: "prints [NL] t = Some (t\<lparr>screen := v\<rparr>)" "vga_puts [10] (screen t) = Some v"
    using prints_total [OF t(3), of "[NL]"] by (auto split: option.splits)
  let ?t = "snd (vfs_close ?fd (t\<lparr>screen := v\<rparr>))"
  have "cmd_cat path s = Some ?t" using assms(2) op fd(1) t(1) v(1) by (simp add: cmd_cat_def)
  moreover from this have "fd_table ?t = fd_table s" using cat_keeps [OF _ assms(1)] by (simp add: keeps_def)
  moreover have "screen ?t = v" by (simp add: vfs_close_def upd_fd_def)
  ultimately show ?thesis using t(2) v(2) by (simp add: vga_puts_append)
qed

text \<open>
  \<open>cat\<close> prints the whole file. If the path names a file that lies in its direct blocks, without holes, and
  a descriptor is free, the command returns, however many reads it takes; what was printed is the file,
  each piece of 255 bytes up to its first NUL, and a newline, so the very bytes of a file without NUL; and
  the table of descriptors is as before.
\<close>

theorem kshell_cat:
  assumes "shell_ok s" "path \<noteq> []" "vfs_resolve_path path s = Some (p, s1)" "p \<noteq> 0" "file_holds p bs s1"
    and "j < 64" "\<not> f_in_use (fd_table s ! j)"
  shows "\<exists>t. execute_command (chars ''cat '' @ path) s = Some (Goes_on t) \<and>
    vga_puts (cat_text bs @ [10]) (screen s) = Some (screen t) \<and> fd_table t = fd_table s \<and> (0 \<notin> set bs \<longrightarrow> cat_text bs = bs)"
proof -
  have "execute_command (chars ''cat '' @ path) s = map_option Goes_on (cmd_cat path s)"
    by (simp add: execute_command_def Let_def starts_def chars_def)
  then show ?thesis using cat_run [OF assms] cat_text_plain by auto
qed

section \<open>write, then cat\<close>

lemma screen_vmore: "vfs.more t = vfs.more s \<Longrightarrow> screen t = screen s" for s t :: shell
  by (cases s; cases t; simp)

lemma write_args:
  fixes path data :: "u8 list"
  assumes "32 \<notin> set path" "length path \<le> 255" "hd data \<noteq> 32"
  shows "take 255 (takeWhile (\<lambda>c. c \<noteq> 32) (path @ 32 # data)) = path"
    "dropWhile (\<lambda>c. c = 32) (drop (length path) (path @ 32 # data)) = data"
proof -
  have "takeWhile (\<lambda>c. c \<noteq> 32) (path @ 32 # data) = path"
    using assms(1) by (subst takeWhile_append2) auto
  then show "take 255 (takeWhile (\<lambda>c. c \<noteq> 32) (path @ 32 # data)) = path" using assms(2) by simp
  show "dropWhile (\<lambda>c. c = 32) (drop (length path) (path @ 32 # data)) = data" using assms(3) by (cases data) simp_all
qed


section \<open>A file at the root\<close>

lemma example_resolve:
  fixes s :: shell
  assumes "vfs_root s = 0x20000C" "n_type (nodes s 0x20000C) = 0"
  shows "vfs_resolve_path [SLASH] s = Some (0x20000C, s)"
proof -
  have "vfs_check_mount 0x20000C s = 0x20000C" using assms by (simp add: vfs_check_mount_def)
  moreover have "strip_slash [SLASH] = []" by (simp add: strip_slash_def)
  ultimately show ?thesis using assms by (simp add: vfs_resolve_path_def) (subst resolve_from.simps, simp)
qed

lemma example_file:
  "n_ops (nodes example_shell 0x20000C) = Some Dorifs_Ops" "file_inv 0x20000C example_shell" "file_len 0x20000C example_shell = 0"
  "n_type (nodes example_shell 0x20000C) = 0"
proof -
  let ?s = "file_vfs_with (shell.fields (vga_init vga_static) keyboard_static
       \<lparr>pmm_bitmap = (\<lambda>_. 0), pmm_max_blocks = 32, pmm_used_blocks = 0\<rparr> 0 [] (replicate 256 0) 0)"
  have same: "fs_disk example_shell = fs_disk ?s" "fs_lba example_shell = fs_lba ?s" "sb example_shell = sb ?s"
    "data_bitmap example_shell = data_bitmap ?s" "nodes example_shell = nodes ?s"
    by (simp_all add: example_shell_def)
  have inv: "n_ops (nodes ?s 0x20000C) = Some Dorifs_Ops" "file_inv 0x20000C ?s"
  proof -
    have "fd_inv 3 0x20000C ?s" by (rule file_vfs_inv(1))
    then show "n_ops (nodes ?s 0x20000C) = Some Dorifs_Ops" "file_inv 0x20000C ?s" by (simp_all add: fd_inv_def)
  qed
  show "n_type (nodes example_shell 0x20000C) = 0" by (simp add: same file_vfs_with_def fsys.defs vfs.defs zero_node_def)
  show "n_ops (nodes example_shell 0x20000C) = Some Dorifs_Ops" using inv(1) by (simp add: same)
  show "file_inv 0x20000C example_shell" using file_same(1) [OF same(1-4) arg_cong [OF same(5), of "\<lambda>f. n_inode (f 0x20000C)"]] inv(2) by simp
  have "file_len 0x20000C ?s = 0" by (rule file_vfs_len)
  then show "file_len 0x20000C example_shell = 0" using file_same(3) [OF same(1-4) arg_cong [OF same(5), of "\<lambda>f. n_inode (f 0x20000C)"]] by simp
qed

lemma example_free: "\<exists>i < total_data_blocks example_shell. \<not> taken example_shell i"
proof -
  have "total_data_blocks example_shell = 2" "\<not> taken example_shell 0"
    by (simp_all add: total_data_blocks_def taken_def example_shell_def file_vfs_with_def vfs.defs fsys.defs demo_fs_def demo_sb_fields)
  then show ?thesis by (intro exI [of _ 0]) simp
qed

theorem kshell_cat_witness:
  "\<exists>t. execute_command (chars ''cat /'') example_shell = Some (Goes_on t) \<and> vga_puts [10] (screen example_shell) = Some (screen t)"
proof -
  have "file_holds 0x20000C [] example_shell" using example_file by (simp add: file_holds_def)
  then show ?thesis
    using kshell_cat [OF example_shell_ok(3) _ example_resolve [OF example_shell_fields(6) example_file(4)], of "[]" 0] example_shell_fields
    by (auto simp: cat_text_def chars_def free_fd_def)
qed


end
