(* ===== verification/Vmm_Access.thy ===== *)
theory Vmm_Access
  imports Vmm
begin

text \<open>
  What the processor makes of the page tables: reading and writing bytes by virtual address, over the same
  physical memory the tables are in. A page is \<^emph>\<open>owned\<close> if it is mapped to a frame of its own that holds
  no table: storing there changes that byte and nothing else, and mapping further pages keeps it.
\<close>

section \<open>Bytes of physical memory\<close>

text \<open>The word that contains a byte, and the byte in it (little-endian).\<close>

abbreviation (input) word_of :: "u32 \<Rightarrow> u32" where "word_of a \<equiv> a AND 0xFFFFFFFC"

definition get_byte :: "u32 \<Rightarrow> (u32 \<Rightarrow> u32) \<Rightarrow> u8" where
  "get_byte a m = ucast (drop_bit (8 * (unat a mod 4)) (m (word_of a)))"

definition put_byte :: "u32 \<Rightarrow> u8 \<Rightarrow> (u32 \<Rightarrow> u32) \<Rightarrow> u32 \<Rightarrow> u32" where
  "put_byte a x m =
     (let k = 8 * (unat a mod 4)
      in m(word_of a := (m (word_of a) AND NOT (push_bit k 0xFF)) OR push_bit k (ucast x)))"

lemma unat_word_of: "unat (word_of a) = unat a - unat a mod 4"
proof -
  have "(0xFFFFFFFC :: u32) = NOT (mask 2)" by (simp add: mask_eq_exp_minus_1)
  then show ?thesis using unat_and_not_mask [of a 2] by simp
qed

lemma same_byte: "a = b \<longleftrightarrow> word_of a = word_of b \<and> unat a mod 4 = unat b mod 4"
proof -
  have "unat a = unat (word_of a) + unat a mod 4" "unat b = unat (word_of b) + unat b mod 4"
    unfolding unat_word_of by simp_all
  then show ?thesis by (metis word_unat_eq_iff)
qed

lemma bit_ff: "bit (0xFF :: u32) n \<longleftrightarrow> n < 8"
proof -
  have ff: "(0xFF :: u32) = mask 8" by (simp add: mask_eq_exp_minus_1)
  show ?thesis unfolding ff by (auto simp: bit_mask_iff)
qed

lemma get_put_byte: "get_byte b (put_byte a x m) = (if b = a then x else get_byte b m)"
proof (cases "word_of b = word_of a")
  case False
  then show ?thesis by (auto simp: get_byte_def put_byte_def Let_def)
next
  case True
  let ?i = "unat a mod 4" and ?j = "unat b mod 4"
  have le: "?i < 4" "?j < 4" by simp_all
  have "bit (get_byte b (put_byte a x m)) n = bit (if b = a then x else get_byte b m) n" if n: "n < 8" for n
  proof (cases "?i = ?j")
    case eq: True
    then have "b = a" using True same_byte by metis
    moreover have "8 * ?i + n < 32" using n le by linarith
    moreover have "bit (255 :: u32) n" using bit_ff n by blast
    ultimately show ?thesis using n
      by (simp add: get_byte_def put_byte_def Let_def bit_ucast_iff bit_drop_bit_eq bit_or_iff bit_and_iff bit_not_iff bit_push_bit_iff bit_ff)
  next
    case False
    then have "b \<noteq> a" by auto
    moreover have far: "\<not> (8 * ?i \<le> n + 8 * ?j \<and> n + 8 * ?j - 8 * ?i < 8)" using False n by arith
    moreover have "8 * ?i \<le> n + 8 * ?j \<Longrightarrow> \<not> bit (255 :: u32) (n + 8 * ?j - 8 * ?i)" using far bit_ff by blast
    moreover have "n + 8 * ?j < 32" using n le by linarith
    ultimately show ?thesis using n True
      by (auto simp: get_byte_def put_byte_def Let_def bit_ucast_iff bit_drop_bit_eq bit_or_iff bit_and_iff bit_not_iff bit_push_bit_iff
          bit_ff add.commute dest: bit_imp_le_length)
  qed
  then show ?thesis by (intro bit_word_eqI) simp
qed

lemma word_of_entry: "word_of a = entry (a AND PAGE_MASK) (drop_bit 2 (a AND 0xFFF))"
proof -
  have "(0xFFF :: u32) = mask 12" by (simp add: mask_eq_exp_minus_1)
  then have l: "unat (a AND 0xFFF) = unat a mod 4096"
    by (simp only: take_bit_eq_mask [symmetric]) (subst unsigned_take_bit_eq, simp add: take_bit_eq_mod)
  then have i: "unat (drop_bit 2 (a AND 0xFFF)) = unat a mod 4096 div 4" by (simp add: drop_bit_eq_div unat_div)
  then have "unat (entry (a AND PAGE_MASK) (drop_bit 2 (a AND 0xFFF))) = unat a - unat a mod 4096 + 4 * (unat a mod 4096 div 4)"
    using unat_entry [of "a AND PAGE_MASK" "drop_bit 2 (a AND 0xFFF)"] by (simp add: unat_page_mask)
  moreover have "unat a - unat a mod 4096 + 4 * (unat a mod 4096 div 4) = unat a - unat a mod 4"
  proof -
    have "unat a mod 4096 mod 4 = unat a mod 4" by (simp add: mod_mod_cancel)
    then have "4 * (unat a mod 4096 div 4) = unat a mod 4096 - unat a mod 4" by (metis minus_mod_eq_mult_div)
    moreover have "unat a mod 4 \<le> unat a mod 4096" using \<open>unat a mod 4096 mod 4 = unat a mod 4\<close> by (metis mod_less_eq_dividend)
    moreover have "unat a mod 4096 \<le> unat a" by simp
    ultimately show ?thesis by linarith
  qed
  ultimately show ?thesis using unat_word_of [of a] by (simp add: word_unat_eq_iff)
qed

lemma word_index: "unat (drop_bit 2 (a AND 0xFFF) :: u32) < 1024"
proof -
  have "(0xFFF :: u32) = mask 12" by (simp add: mask_eq_exp_minus_1)
  then have "unat (a AND 0xFFF) = unat a mod 4096"
    by (simp only: take_bit_eq_mask [symmetric]) (subst unsigned_take_bit_eq, simp add: take_bit_eq_mod)
  then show ?thesis by (simp add: drop_bit_eq_div unat_div less_mult_imp_div_less)
qed

section \<open>Access through the tables\<close>

text \<open>The translation of the processor, \<open>None\<close> for a page fault, and reading and writing a byte.\<close>

definition mmu :: "u32 \<Rightarrow> vmm \<Rightarrow> u32 option" where
  "mmu a v = (if vmm_entry a v AND PAGE_PRESENT = 0 then None else Some ((vmm_entry a v AND PAGE_MASK) + (a AND 0xFFF)))"

definition load_byte :: "u32 \<Rightarrow> vmm \<Rightarrow> u8 option" where
  "load_byte a v = map_option (\<lambda>p. get_byte p (phys_mem v)) (mmu a v)"

definition store_byte :: "u32 \<Rightarrow> u8 \<Rightarrow> vmm \<Rightarrow> vmm option" where
  "store_byte a x v = map_option (\<lambda>p. v\<lparr>phys_mem := put_byte p x (phys_mem v)\<rparr>) (mmu a v)"

lemma vmm_entry_page: "unat a div 4096 = unat b div 4096 \<Longrightarrow> vmm_entry a v = vmm_entry b v"
  using same_page [of a b] by (simp add: vmm_entry_def)

text \<open>A frame that is used, and not for paging.\<close>

definition data_frame :: "vmm \<Rightarrow> u32 \<Rightarrow> bool" where
  "data_frame v p \<longleftrightarrow> used_page v p \<and> p \<noteq> current_directory v \<and> (\<forall>i. unat i < 1024 \<and> pd_present v i \<longrightarrow> pd_table v i \<noteq> p)"

lemma data_frame_aligned: "data_frame v p \<Longrightarrow> aligned p"
  by (simp add: data_frame_def used_page_def)

text \<open>Storing in a data frame changes that byte only.\<close>

lemma store_data:
  fixes x :: u8
  assumes ok: "vmm_ok v" and d: "data_frame v (q AND PAGE_MASK)"
  defines "v' \<equiv> v\<lparr>phys_mem := put_byte q x (phys_mem v)\<rparr>"
  shows "vmm_ok v'" "vmm_entry a v' = vmm_entry a v" "data_frame v' = data_frame v"
    "get_byte b (phys_mem v') = (if b = q then x else get_byte b (phys_mem v))"
proof -
  let ?p = "q AND PAGE_MASK"
  have p: "aligned ?p" "?p \<noteq> current_directory v" "\<And>i. unat i < 1024 \<Longrightarrow> pd_present v i \<Longrightarrow> pd_table v i \<noteq> ?p"
    using d by (auto simp: data_frame_def)
  have dir: "aligned (current_directory v)" using ok by (simp add: vmm_ok_def used_page_def)
  have tab: "aligned (pd_table v i)" for i by (simp add: pd_table_def)
  have ent: "phys_mem v' (entry r i) = phys_mem v (entry r i)" if "aligned r" "r \<noteq> ?p" "unat i < 1024" for r i
    using entry_eq_iff [OF that(1) p(1) that(3) word_index, of q] that(2)
    by (simp add: v'_def put_byte_def Let_def word_of_entry del: word_of_entry [symmetric])
  have pde: "pde v' i = pde v i" if "unat i < 1024" for i using ent [OF dir] p(2) that by (simp add: pde_def v'_def)
  then have pd: "pd_present v' i = pd_present v i" "pd_table v' i = pd_table v i" if "unat i < 1024" for i
    using that by (simp_all add: pd_present_def pd_table_def)
  have same: "vmm_pmm v' = vmm_pmm v" "current_directory v' = current_directory v" by (simp_all add: v'_def)
  show "vmm_ok v'" using vmm_ok_cong [OF same pde] ok by simp
  show "vmm_entry a v' = vmm_entry a v"
    using pd ent [OF tab p(3) index_bounds(2)] by (simp add: vmm_entry_def page_entry_def)
  show "data_frame v' = data_frame v"
    using pd same by (auto simp: data_frame_def used_page_def fun_eq_iff)
  show "get_byte b (phys_mem v') = (if b = q then x else get_byte b (phys_mem v))"
    by (simp add: v'_def get_put_byte)
qed

text \<open>A frame just allocated is a data frame, and no other one.\<close>

lemma alloc_data:
  assumes ok: "vmm_ok v" and al: "pmm_alloc_frame (vmm_pmm v) = (p, s)" "p \<noteq> 0"
  defines "v' \<equiv> v\<lparr>vmm_pmm := s\<rparr>"
  shows "vmm_ok v'" "data_frame v' p" "data_frame v g \<Longrightarrow> data_frame v' g \<and> g \<noteq> p"
    "vmm_entry a v' = vmm_entry a v" "pd_present v' = pd_present v"
proof -
  have pok: "pmm_ok (vmm_pmm v)" using ok by (simp add: vmm_ok_def)
  have p: "aligned p" "\<not> frame_used (vmm_pmm v) (unat p div 4096)"
    "frame_used s = (frame_used (vmm_pmm v))(unat p div 4096 := True)"
    using pmm.alloc_aligned [OF pok] pmm.alloc_fresh [OF pok] pmm.alloc_marks [OF pok] al by simp_all
  have used: "used_page v' q" if "used_page v q" for q using that p(3) by (simp add: used_page_def v'_def)
  have ne: "q \<noteq> p" if "used_page v q" for q using that p(2) by (auto simp: used_page_def)
  have same: "pd_present v' = pd_present v" "pd_table v' = pd_table v" "current_directory v' = current_directory v"
    by (simp_all add: v'_def pd_present_def pd_table_def pde_def fun_eq_iff)
  have "pmm_ok s" using pmm_alloc_frame_ok [OF pok] al by simp
  then show "vmm_ok v'" using ok used unfolding vmm_ok_def same by (simp add: v'_def)
  have "used_page v (current_directory v)" "\<And>i. unat i < 1024 \<Longrightarrow> pd_present v i \<Longrightarrow> used_page v (pd_table v i)"
    using ok unfolding vmm_ok_def by blast+
  then have "current_directory v \<noteq> p" "\<And>i. unat i < 1024 \<Longrightarrow> pd_present v i \<Longrightarrow> pd_table v i \<noteq> p" using ne by blast+
  moreover have "used_page v' p" using p(1,3) by (simp add: used_page_def v'_def)
  ultimately show "data_frame v' p" unfolding data_frame_def same by auto
  show "data_frame v g \<Longrightarrow> data_frame v' g \<and> g \<noteq> p" using used ne unfolding data_frame_def same by auto
  show "vmm_entry a v' = vmm_entry a v" "pd_present v' = pd_present v"
    by (simp_all add: vmm_entry_def page_entry_def same) (simp add: v'_def)
qed

text \<open>Mapping a page leaves data frames and their contents alone.\<close>

lemma map_data:
  assumes ok: "vmm_ok v" and can: "can_map v virt" and fl: "flags AND PAGE_MASK = 0" and d: "data_frame v g"
  shows "data_frame (vmm_map_page phys virt flags v) g"
    "q AND PAGE_MASK = g \<Longrightarrow> get_byte q (phys_mem (vmm_map_page phys virt flags v)) = get_byte q (phys_mem v)"
proof -
  let ?i = "pd_index virt" and ?v' = "vmm_map_page phys virt flags v"
  define u where "u = get_or_create_table ?i flags v"
  have g: "aligned g" "g \<noteq> current_directory v" "used_page v g" using d by (simp_all add: data_frame_def used_page_def)
  have dir: "aligned (current_directory v)" using ok by (simp add: vmm_ok_def used_page_def)
  have u: "data_frame u g \<and> pd_present u ?i \<and> vmm_ok u \<and> current_directory u = current_directory v \<and>
      (\<forall>k. unat k < 1024 \<longrightarrow> phys_mem u (entry g k) = phys_mem v (entry g k))"
  proof (cases "pd_present v ?i")
    case True
    then show ?thesis using d ok by (simp add: u_def get_or_create_present)
  next
    case False
    let ?p = "fst (pmm_alloc_frame (vmm_pmm v))"
    have mem: "?p \<noteq> 0" using can False by (simp add: can_map_def)
    note c = get_or_create_absent [OF ok False index_bounds(1) mem fl, folded u_def]
    have pok: "pmm_ok (vmm_pmm v)" using ok by (simp add: vmm_ok_def)
    have p: "aligned ?p" "\<not> frame_used (vmm_pmm v) (unat ?p div 4096)"
      "frame_used (snd (pmm_alloc_frame (vmm_pmm v))) = (frame_used (vmm_pmm v))(unat ?p div 4096 := True)"
      using pmm.alloc_aligned [OF pok] pmm.alloc_fresh [OF pok mem] pmm.alloc_marks [OF pok mem] by simp_all
    have gp: "g \<noteq> ?p" using g(3) p(2) by (auto simp: used_page_def)
    have "used_page u g" using g(3) p(3) c(1) by (simp add: used_page_def)
    moreover have "pd_table u j \<noteq> g" if "unat j < 1024" "pd_present u j" for j
    proof (cases "j = ?i")
      case False
      then show ?thesis using c(5) [OF that(1) False] that d by (auto simp: data_frame_def pd_present_def pd_table_def)
    qed (use c(4) gp in simp)
    ultimately have "data_frame u g" using g(2) c(2) by (simp add: data_frame_def)
    moreover have "phys_mem u = zero_words 1024 ?p ((phys_mem v)(entry (current_directory v) ?i := ?p OR PAGE_PRESENT OR PAGE_WRITABLE OR flags))"
      using False by (simp add: u_def get_or_create_table_def pd_present_def pde_def Let_def split_beta)
    then have "phys_mem u (entry g k) = phys_mem v (entry g k)" if "unat k < 1024" for k
      using that zero_page_entry [OF p(1) g(1) that] gp g dir by (simp add: entry_eq_iff)
    ultimately show ?thesis using c(2,3,8) by simp
  qed
  let ?x = "(phys AND PAGE_MASK) OR PAGE_PRESENT OR flags"
  have v': "?v' = u\<lparr>phys_mem := (phys_mem u)(entry (pd_table u ?i) (pt_index virt) := ?x)\<rparr>"
    by (simp add: vmm_map_page_def u_def pd_table_def pde_def Let_def)
  have t: "aligned (pd_table u ?i)" "pd_table u ?i \<noteq> g" using u by (auto simp: pd_table_def data_frame_def)
  have keep: "phys_mem ?v' (entry g k) = phys_mem v (entry g k)" if "unat k < 1024" for k
    using u that t entry_eq_iff [OF g(1) t(1) that index_bounds(2)] by (simp add: v')
  have "vmm_ok u" "pd_present u ?i" using u by simp_all
  note tw = table_write [OF this(1) index_bounds(1) this(2) index_bounds(2) [of virt], where x = ?x, folded v']
  have "pd_present ?v' j = pd_present u j" "pd_table ?v' j = pd_table u j" if "unat j < 1024" for j
    using tw(2) [OF that] by (simp_all add: pd_present_def pd_table_def)
  then show "data_frame ?v' g" using u by (auto simp: data_frame_def v' used_page_def)
  show "q AND PAGE_MASK = g \<Longrightarrow> get_byte q (phys_mem ?v') = get_byte q (phys_mem v)"
    using keep [OF word_index [of q]] by (simp add: get_byte_def word_of_entry)
qed

end
