(* ===== verification/Elf.thy ===== *)
theory Elf
  imports Vmm_Access "HOL-Library.Monad_Syntax"
begin

text \<open>
  The loader of ELF programs, \<open>kernel/elf.c\<close>, over the frame allocator and the page tables: a file is the
  list of its bytes, the memory of the program is reached through the tables. \<open>None\<close> is a read outside the
  file or a page fault (both end the kernel), or a loop that does not end. Serial output is left out.
\<close>

section \<open>Headers\<close>

record elf32_ehdr =
  e_ident :: "u8 list"
  e_type :: u16
  e_machine :: u16
  e_version :: u32
  e_entry :: u32
  e_phoff :: u32
  e_shoff :: u32
  e_flags :: u32
  e_ehsize :: u16
  e_phentsize :: u16
  e_phnum :: u16
  e_shentsize :: u16
  e_shnum :: u16
  e_shstrndx :: u16

record elf32_phdr =
  p_type :: u32
  p_offset :: u32
  p_vaddr :: u32
  p_paddr :: u32
  p_filesz :: u32
  p_memsz :: u32
  p_flags :: u32
  p_align :: u32

abbreviation (input) ELF_MAGIC :: u32 where "ELF_MAGIC \<equiv> 0x464C457F"
abbreviation (input) PT_LOAD :: u32 where "PT_LOAD \<equiv> 1"
abbreviation (input) PF_R :: u32 where "PF_R \<equiv> 4"
abbreviation (input) PAGE_USER :: u32 where "PAGE_USER \<equiv> 4"

text \<open>The packed little-endian structures in the file; \<open>None\<close> if they stick out of it.\<close>

definition read_ehdr :: "u8 list \<Rightarrow> elf32_ehdr option" where
  "read_ehdr data =
     (if 52 \<le> length data
      then Some \<lparr>e_ident = take 16 data, e_type = of_le16 (drop 16 data), e_machine = of_le16 (drop 18 data),
             e_version = of_le32 (drop 20 data), e_entry = of_le32 (drop 24 data), e_phoff = of_le32 (drop 28 data),
             e_shoff = of_le32 (drop 32 data), e_flags = of_le32 (drop 36 data), e_ehsize = of_le16 (drop 40 data),
             e_phentsize = of_le16 (drop 42 data), e_phnum = of_le16 (drop 44 data), e_shentsize = of_le16 (drop 46 data),
             e_shnum = of_le16 (drop 48 data), e_shstrndx = of_le16 (drop 50 data)\<rparr>
      else None)"

definition read_phdr :: "u8 list \<Rightarrow> u32 \<Rightarrow> elf32_phdr option" where
  "read_phdr data off =
     (let ph = drop (unat off) data
      in if 32 \<le> length ph
         then Some \<lparr>p_type = of_le32 ph, p_offset = of_le32 (drop 4 ph), p_vaddr = of_le32 (drop 8 ph),
                p_paddr = of_le32 (drop 12 ph), p_filesz = of_le32 (drop 16 ph), p_memsz = of_le32 (drop 20 ph),
                p_flags = of_le32 (drop 24 ph), p_align = of_le32 (drop 28 ph)\<rparr>
         else None)"

section \<open>The loader\<close>

text \<open>Whether the result is 0.\<close>

definition elf_validate :: "u8 list \<Rightarrow> u32 \<Rightarrow> bool option" where
  "elf_validate data size' =
     (if size' < 52 then Some False
      else do {
        ehdr \<leftarrow> read_ehdr data;
        if of_le32 (e_ident ehdr) \<noteq> ELF_MAGIC then Some False
        else if e_ident ehdr ! 4 \<noteq> 1 then Some False
        else if e_ident ehdr ! 5 \<noteq> 1 then Some False
        else if e_type ehdr \<noteq> 2 then Some False
        else if e_machine ehdr \<noteq> 3 then Some False
        else if e_phnum ehdr = 0 \<or> e_phoff ehdr = 0 then Some False
        else let ph_end = e_phoff ehdr + ucast (e_phnum ehdr) * ucast (e_phentsize ehdr)
             in Some (\<not> size' < ph_end) })"

text \<open>The loop that allocates and maps the pages; \<open>False\<close> when no frame is left.\<close>

partial_function (option) map_segment :: "u32 \<Rightarrow> u32 \<Rightarrow> u32 \<Rightarrow> vmm \<Rightarrow> (bool \<times> vmm) option" where
  "map_segment vaddr vaddr_end flags v =
     (if vaddr < vaddr_end
      then let (paddr, s) = pmm_alloc_frame (vmm_pmm v);
               v = v\<lparr>vmm_pmm := s\<rparr>
           in if paddr = 0 then Some (False, v)
              else map_segment (vaddr + PAGE_SIZE) vaddr_end flags (vmm_map_page paddr vaddr flags v)
      else Some (True, v))"

text \<open>\<open>memcpy\<close> and \<open>memset\<close> to the memory of the program.\<close>

primrec store_bytes :: "u8 list \<Rightarrow> u32 \<Rightarrow> vmm \<Rightarrow> vmm option" where
  "store_bytes [] d v = Some v"
| "store_bytes (x # xs) d v = do { v \<leftarrow> store_byte d x v; store_bytes xs (d + 1) v }"

definition segment_flags :: "elf32_phdr \<Rightarrow> u32" where
  "segment_flags phdr =
     (let flags = PAGE_PRESENT OR PAGE_WRITABLE
      in if p_flags phdr AND PF_R \<noteq> 0 then flags OR PAGE_USER else flags)"

definition fill_segment :: "u8 list \<Rightarrow> elf32_phdr \<Rightarrow> vmm \<Rightarrow> vmm option" where
  "fill_segment data phdr v =
     do { v \<leftarrow> (if 0 < p_filesz phdr
                then if unat (p_offset phdr) + unat (p_filesz phdr) \<le> length data
                     then store_bytes (bytes_at (unat (p_offset phdr)) (unat (p_filesz phdr)) data) (p_vaddr phdr) v
                     else None
                else Some v);
          if p_filesz phdr < p_memsz phdr
          then store_bytes (replicate (unat (p_memsz phdr - p_filesz phdr)) 0) (p_vaddr phdr + p_filesz phdr) v
          else Some v }"

definition load_segment :: "u8 list \<Rightarrow> u32 \<Rightarrow> elf32_phdr \<Rightarrow> vmm \<Rightarrow> (bool \<times> vmm) option" where
  "load_segment data size' phdr v =
     (if p_type phdr \<noteq> PT_LOAD then Some (True, v)
      else if p_memsz phdr = 0 then Some (True, v)
      else if size' < p_offset phdr + p_filesz phdr then Some (False, v)
      else let vaddr_start = p_vaddr phdr AND 0xFFFFF000;
               vaddr_end = (p_vaddr phdr + p_memsz phdr + PAGE_SIZE - 1) AND 0xFFFFF000
           in do {
             (mapped, v) \<leftarrow> map_segment vaddr_start vaddr_end (segment_flags phdr) v;
             if \<not> mapped then Some (False, v)
             else map_option (Pair True) (fill_segment data phdr v) })"

text \<open>\<open>for (i = ...; i < e_phnum; i++)\<close>, with \<open>n\<close> headers left.\<close>

primrec load_segments :: "u8 list \<Rightarrow> u32 \<Rightarrow> elf32_ehdr \<Rightarrow> nat \<Rightarrow> nat \<Rightarrow> vmm \<Rightarrow> (bool \<times> vmm) option" where
  "load_segments data size' ehdr 0 i v = Some (True, v)"
| "load_segments data size' ehdr (Suc n) i v =
     do { phdr \<leftarrow> read_phdr data (e_phoff ehdr + of_nat i * ucast (e_phentsize ehdr));
          (loaded, v) \<leftarrow> load_segment data size' phdr v;
          if loaded then load_segments data size' ehdr n (Suc i) v else Some (False, v) }"

text \<open>The value is the entry point, \<open>None\<close> for the result \<open>-1\<close>.\<close>

definition elf_load :: "u8 list \<Rightarrow> u32 \<Rightarrow> vmm \<Rightarrow> (u32 option \<times> vmm) option" where
  "elf_load data size' v =
     do { valid \<leftarrow> elf_validate data size';
          if \<not> valid then Some (None, v)
          else do { ehdr \<leftarrow> read_ehdr data;
                    (loaded, v) \<leftarrow> load_segments data size' ehdr (unat (e_phnum ehdr)) 0 v;
                    Some (if loaded then Some (e_entry ehdr) else None, v) } }"

section \<open>Owned pages\<close>

text \<open>
  Page number \<open>n\<close> starts at \<open>page_addr n\<close>. \<open>owned v A\<close>: the pages \<open>A\<close> are mapped to different data frames.
\<close>

abbreviation page_addr :: "nat \<Rightarrow> u32" where "page_addr n \<equiv> of_nat (4096 * n)"
abbreviation page_no :: "u32 \<Rightarrow> nat" where "page_no a \<equiv> unat a div 4096"

definition frame_of :: "vmm \<Rightarrow> nat \<Rightarrow> u32" where
  "frame_of v n = vmm_entry (page_addr n) v AND PAGE_MASK"

definition owned :: "vmm \<Rightarrow> nat set \<Rightarrow> bool" where
  "owned v A \<longleftrightarrow> vmm_ok v \<and> A \<subseteq> {..<1048576} \<and> inj_on (frame_of v) A \<and>
     (\<forall>n \<in> A. vmm_entry (page_addr n) v AND PAGE_PRESENT \<noteq> 0 \<and> data_frame v (frame_of v n))"

lemma unat_page_addr: "n < 1048576 \<Longrightarrow> unat (page_addr n) = 4096 * n"
  by (intro unat_of_nat_u32) simp

lemma page_entry_of: "vmm_entry a v = vmm_entry (page_addr (page_no a)) v"
proof (rule vmm_entry_page)
  have "unat a div 4096 < 1048576" using unat_u32_less [of a] by (simp add: less_mult_imp_div_less)
  then show "unat a div 4096 = unat (page_addr (page_no a)) div 4096" by (simp only: unat_page_addr nonzero_mult_div_cancel_left)
qed

lemma offset_in_page: "unat (a AND 0xFFF :: u32) = unat a mod 4096"
proof -
  have m: "(0xFFF :: u32) = mask 12" by (simp add: mask_eq_exp_minus_1)
  show ?thesis unfolding m take_bit_eq_mask [symmetric] by (subst unsigned_take_bit_eq) (simp add: take_bit_eq_mod)
qed

lemma mmu_cong: "vmm_entry a v' = vmm_entry a v \<Longrightarrow> mmu a v' = mmu a v"
  by (simp add: mmu_def)

lemma owned_mmu:
  assumes "owned v A" "page_no a \<in> A"
  obtains q where "mmu a v = Some q" "q AND PAGE_MASK = frame_of v (page_no a)" "unat q mod 4096 = unat a mod 4096"
proof -
  let ?p = "frame_of v (page_no a)" and ?q = "frame_of v (page_no a) + (a AND 0xFFF)"
  have p: "data_frame v ?p" "vmm_entry (page_addr (page_no a)) v AND PAGE_PRESENT \<noteq> 0" using assms by (auto simp: owned_def)
  have al: "aligned ?p" using data_frame_aligned [OF p(1)] .
  have "unat ?q = unat ?p + unat a mod 4096"
    using aligned_bound [OF al] mod_less_divisor [of 4096 "unat a"] offset_in_page [of a] by (subst unat_add_u32) simp_all
  then have q: "unat ?q mod 4096 = unat a mod 4096" "unat (?q AND PAGE_MASK) = unat ?p"
    using al unfolding unat_page_mask by (simp_all add: mod_add_eq [symmetric])
  moreover have "mmu a v = Some ?q" using p(2) page_entry_of [of a v] by (simp add: mmu_def frame_of_def)
  ultimately show thesis using that by (simp add: word_unat_eq_iff)
qed

lemma page_split: "page_no a = page_no b \<Longrightarrow> unat a mod 4096 = unat b mod 4096 \<Longrightarrow> a = b"
  by (metis div_mult_mod_eq word_unat_eq_iff)

lemma owned_store:
  assumes "owned v A" "page_no a \<in> A"
  obtains v' where "store_byte a x v = Some v'" "owned v' A" "\<And>w. vmm_entry w v' = vmm_entry w v" "vmm_pmm v' = vmm_pmm v"
    "\<And>b. page_no b \<in> A \<Longrightarrow> load_byte b v' = (if b = a then Some x else load_byte b v)"
proof -
  obtain q where q: "mmu a v = Some q" "q AND PAGE_MASK = frame_of v (page_no a)" "unat q mod 4096 = unat a mod 4096"
    using owned_mmu [OF assms] .
  have ok: "vmm_ok v" and d: "data_frame v (q AND PAGE_MASK)" using assms q(2) by (auto simp: owned_def)
  let ?v' = "v\<lparr>phys_mem := put_byte q x (phys_mem v)\<rparr>"
  note st = store_data [OF ok d, where x = x]
  have fr: "frame_of ?v' = frame_of v" using st(2) by (simp add: frame_of_def fun_eq_iff)
  have own: "owned ?v' A" using assms(1) st(1-3) by (simp add: owned_def fr)
  have "load_byte b ?v' = (if b = a then Some x else load_byte b v)" if b: "page_no b \<in> A" for b
  proof -
    obtain r where r: "mmu b v = Some r" "r AND PAGE_MASK = frame_of v (page_no b)" "unat r mod 4096 = unat b mod 4096"
      using owned_mmu [OF assms(1) b] .
    have "mmu b ?v' = Some r" using r(1) mmu_cong [OF st(2)] by simp
    moreover have "r = q \<longleftrightarrow> b = a"
    proof
      assume "r = q"
      then have "frame_of v (page_no b) = frame_of v (page_no a)" "unat b mod 4096 = unat a mod 4096" using q r by simp_all
      then show "b = a" using assms b page_split by (auto simp: owned_def dest: inj_onD)
    qed (use q r in simp)
    ultimately show ?thesis using r(1) st(4) by (auto simp: load_byte_def)
  qed
  then show thesis using that [of ?v'] q(1) own st(2) by (simp add: store_byte_def)
qed

lemma store_bytes_run:
  assumes "owned v A" "unat a + length bs \<le> 4294967296" "\<And>k. k < length bs \<Longrightarrow> (unat a + k) div 4096 \<in> A"
  shows "\<exists>v'. store_bytes bs a v = Some v' \<and> owned v' A \<and> (\<forall>w. vmm_entry w v' = vmm_entry w v) \<and> vmm_pmm v' = vmm_pmm v \<and>
    (\<forall>b. page_no b \<in> A \<longrightarrow> load_byte b v' =
       (if unat a \<le> unat b \<and> unat b < unat a + length bs then Some (bs ! (unat b - unat a)) else load_byte b v))"
  using assms
proof (induction bs arbitrary: a v)
  case Nil
  then show ?case by (intro exI [of _ v]) auto
next
  case (Cons x bs)
  obtain u where u: "store_byte a x v = Some u" "owned u A" "\<And>w. vmm_entry w u = vmm_entry w v" "vmm_pmm u = vmm_pmm v"
    "\<And>b. page_no b \<in> A \<Longrightarrow> load_byte b u = (if b = a then Some x else load_byte b v)"
    using owned_store [OF Cons.prems(1), of a x] Cons.prems(3) [of 0] by auto
  show ?case
  proof (cases "bs = []")
    case True
    have one: "unat a \<le> unat b \<and> unat b < unat a + length [x] \<longleftrightarrow> b = a" for b by (auto simp: word_unat_eq_iff)
    show ?thesis unfolding True using u by (intro exI [of _ u]) (simp add: one del: length_Cons list.size)
  next
    case False
    then have nxt: "unat (a + 1) = unat a + 1" using Cons.prems(2) by (cases bs) (simp_all add: unat_Suc_u32)
    obtain v' where v': "store_bytes bs (a + 1) u = Some v'" "owned v' A" "\<And>w. vmm_entry w v' = vmm_entry w u" "vmm_pmm v' = vmm_pmm u"
      "\<And>b. page_no b \<in> A \<Longrightarrow> load_byte b v' =
        (if unat a + 1 \<le> unat b \<and> unat b < unat a + 1 + length bs then Some (bs ! (unat b - (unat a + 1))) else load_byte b u)"
      using Cons.IH [OF u(2), of "a + 1"] Cons.prems(2) Cons.prems(3) [of "Suc k" for k] by (auto simp: nxt)
    have "load_byte b v' = (if unat a \<le> unat b \<and> unat b < unat a + length (x # bs) then Some ((x # bs) ! (unat b - unat a)) else load_byte b v)"
      if "page_no b \<in> A" for b
      using v'(5) [OF that] u(5) [OF that] by (auto simp: nth_Cons' word_unat_eq_iff)
    then show ?thesis using u v' by (intro exI [of _ v']) simp
  qed
qed

section \<open>Mapping the pages of a segment\<close>

lemma page_of_addr: "n < 1048576 \<Longrightarrow> page_no (page_addr n) = n"
  by (simp only: unat_page_addr nonzero_mult_div_cancel_left)

lemma map_one:
  assumes own: "owned v A" and n: "n \<notin> A" "n < 1048576" and al: "pmm_alloc_frame (vmm_pmm v) = (p, s)" "p \<noteq> 0"
    and can: "can_map (v\<lparr>vmm_pmm := s\<rparr>) (page_addr n)" and fl: "flags AND PAGE_MASK = 0"
  defines "v' \<equiv> vmm_map_page p (page_addr n) flags (v\<lparr>vmm_pmm := s\<rparr>)"
  shows "owned v' (insert n A)" "page_no w \<noteq> n \<Longrightarrow> vmm_entry w v' = vmm_entry w v"
    "page_no b \<in> A \<Longrightarrow> load_byte b v' = load_byte b v"
    "vmm_entry (page_addr n) v' = p OR PAGE_PRESENT OR flags"
proof -
  let ?u = "v\<lparr>vmm_pmm := s\<rparr>"
  have ok: "vmm_ok v" using own by (simp add: owned_def)
  note a = alloc_data [OF ok al]
  note m = vmm_map_page_props [OF a(1) can fl, where phys = p, folded v'_def]
  have "aligned p" using data_frame_aligned [OF a(2)] .
  then have ent: "vmm_entry w v' = (if page_no w = n then p OR PAGE_PRESENT OR flags else vmm_entry w v)" for w
    using m(6) [of w] a(4) page_of_addr [OF n(2)] by (simp add: mask_aligned)
  then show "page_no w \<noteq> n \<Longrightarrow> vmm_entry w v' = vmm_entry w v" by simp
  show here: "vmm_entry (page_addr n) v' = p OR PAGE_PRESENT OR flags" using ent page_of_addr [OF n(2)] by simp
  have bound: "k < 1048576" if "k \<in> A" for k using own that by (auto simp: owned_def)
  have fr: "frame_of v' k = frame_of v k" if "k \<in> A" for k
    using ent page_of_addr [OF bound [OF that]] that n(1) by (auto simp: frame_of_def)
  have fn: "frame_of v' n = p"
    using here fl \<open>aligned p\<close> pte_flags [of flags p] by (simp add: frame_of_def mask_aligned)
  have data: "data_frame v' (frame_of v k)" "frame_of v k \<noteq> p" if "k \<in> A" for k
  proof -
    have "data_frame v (frame_of v k)" using own that by (simp add: owned_def)
    note d = a(3) [OF this]
    show "frame_of v k \<noteq> p" using d by blast
    show "data_frame v' (frame_of v k)" using map_data(1) [OF a(1) can fl conjunct1 [OF d], where phys = p] by (simp only: v'_def)
  qed
  have pres: "vmm_entry (page_addr k) v' AND PAGE_PRESENT \<noteq> 0" if "k \<in> insert n A" for k
  proof (cases "k = n")
    case True
    have "bit ((p OR PAGE_PRESENT OR flags) AND PAGE_PRESENT) 0" by (simp add: bit_and_iff bit_or_iff)
    then show ?thesis unfolding True here by auto
  next
    case False
    then show ?thesis using ent page_of_addr bound that own by (auto simp: owned_def)
  qed
  have "data_frame v' p" using map_data(1) [OF a(1) can fl a(2), where phys = p] by (simp only: v'_def)
  then have "data_frame v' (frame_of v' k)" if "k \<in> insert n A" for k using that fn fr data(1) by auto
  moreover have "inj_on (frame_of v') (insert n A)"
  proof -
    have "inj_on (frame_of v') A" using own fr by (simp add: owned_def inj_on_def)
    moreover have "frame_of v' n \<notin> frame_of v' ` A" using fn fr data(2) by force
    moreover have "A - {n} = A" using n(1) by simp
    ultimately show ?thesis unfolding inj_on_insert by metis
  qed
  ultimately show "owned v' (insert n A)" using m(1) pres own n(2) by (simp add: owned_def)
  show "load_byte b v' = load_byte b v" if b: "page_no b \<in> A"
  proof -
    obtain q where q: "mmu b v = Some q" "q AND PAGE_MASK = frame_of v (page_no b)" using owned_mmu [OF own b] .
    have "page_no b \<noteq> n" using b n(1) by auto
    then have "mmu b v' = Some q" using q(1) mmu_cong [of b v' v] ent [of b] by simp
    moreover have "data_frame v (frame_of v (page_no b))" using own b by (simp add: owned_def)
    then have "get_byte q (phys_mem v') = get_byte q (phys_mem v)"
      using map_data(2) [OF a(1) can fl _ q(2)] a(3) unfolding v'_def by auto
    ultimately show ?thesis using q(1) by (simp add: load_byte_def)
  qed
qed

lemma page_addr_Suc: "page_addr n + PAGE_SIZE = page_addr (Suc n)"
  by simp

lemma avail_after_map:
  assumes ok: "vmm_ok v" and al: "pmm_alloc_frame (vmm_pmm v) = (p, s)" "p \<noteq> 0"
    and room: "Suc (card (missing v 1 a)) \<le> card (avail (vmm_pmm v))" and fl: "flags AND PAGE_MASK = 0"
  shows "can_map (v\<lparr>vmm_pmm := s\<rparr>) a"
    "card (avail (vmm_pmm v)) = Suc (card (missing v 1 a) + card (avail (vmm_pmm (vmm_map_page p a flags (v\<lparr>vmm_pmm := s\<rparr>)))))"
    "unat j < 1024 \<Longrightarrow> pd_present (vmm_map_page p a flags (v\<lparr>vmm_pmm := s\<rparr>)) j \<longleftrightarrow> j = pd_index a \<or> pd_present v j"
proof -
  let ?u = "v\<lparr>vmm_pmm := s\<rparr>" and ?i = "pd_index a"
  have pok: "pmm_ok (vmm_pmm v)" using ok by (simp add: vmm_ok_def)
  note d = alloc_data [OF ok al]
  have sok: "pmm_ok s" using d(1) by (simp add: vmm_ok_def)
  have fin: "finite (avail s)" by (simp add: avail_def)
  have "avail (vmm_pmm v) \<noteq> {}" using room by auto
  then have c: "Suc (card (avail s)) = card (avail (vmm_pmm v))" using avail_alloc(2) [OF pok] al by simp
  have mis: "card (missing v 1 a) = (if pd_present v ?i then 0 else 1)"
  proof -
    have "missing v 1 a = (if pd_present v ?i then {} else {?i})" by (auto simp: missing_def touched_def)
    then show ?thesis by simp
  qed
  have ne: "avail s \<noteq> {}" if "\<not> pd_present v ?i" using room c mis that by auto
  then show can: "can_map ?u a" using avail_alloc(1) [OF sok] d(5) by (auto simp: can_map_def)
  note m = vmm_map_page_props [OF d(1) can fl, where phys = p]
  show "card (avail (vmm_pmm v)) = Suc (card (missing v 1 a) + card (avail (vmm_pmm (vmm_map_page p a flags ?u))))"
    using m(3) mis c avail_alloc(2) [OF sok] ne d(5) by auto
  show "unat j < 1024 \<Longrightarrow> pd_present (vmm_map_page p a flags ?u) j \<longleftrightarrow> j = ?i \<or> pd_present v j"
    using m(4) d(5) by simp
qed

lemma map_segment_run:
  assumes "owned v A" "n + k < 1048576" "{n..<n + k} \<inter> A = {}" "flags AND PAGE_MASK = 0"
    and "k + card (missing v k (page_addr n)) \<le> card (avail (vmm_pmm v))"
  shows "\<exists>v'. map_segment (page_addr n) (page_addr (n + k)) flags v = Some (True, v') \<and> owned v' (A \<union> {n..<n + k}) \<and>
    (\<forall>w. page_no w \<notin> {n..<n + k} \<longrightarrow> vmm_entry w v' = vmm_entry w v) \<and>
    (\<forall>b. page_no b \<in> A \<longrightarrow> load_byte b v' = load_byte b v) \<and>
    card (avail (vmm_pmm v)) \<le> card (avail (vmm_pmm v')) + k + card (missing v k (page_addr n))"
  using assms
proof (induction k arbitrary: n v A)
  case 0
  then show ?case by (intro exI [of _ v]) (simp add: map_segment.simps)
next
  case (Suc k)
  let ?a = "page_addr n"
  have ok: "vmm_ok v" and pok: "pmm_ok (vmm_pmm v)" using Suc.prems(1) by (auto simp: owned_def vmm_ok_def)
  obtain p s where al: "pmm_alloc_frame (vmm_pmm v) = (p, s)" by fastforce
  have "avail (vmm_pmm v) \<noteq> {}" using Suc.prems(5) by auto
  then have p: "p \<noteq> 0" using avail_alloc(1) [OF pok] al by simp
  have t: "touched (Suc k) ?a = insert (pd_index ?a) (touched k (page_addr (Suc n)))"
    using touched_Suc [of k ?a] by (simp only: page_addr_Suc)
  have m1: "missing v 1 ?a = {pd_index ?a} - {i. pd_present v i}" by (auto simp: missing_def touched_def)
  let ?v = "vmm_map_page p ?a flags (v\<lparr>vmm_pmm := s\<rparr>)"
  have sub1: "missing v 1 ?a \<subseteq> missing v (Suc k) ?a" unfolding m1 unfolding missing_def t by auto
  then have room: "Suc (card (missing v 1 ?a)) \<le> card (avail (vmm_pmm v))"
    using Suc.prems(5) card_mono [OF finite_missing sub1] by simp
  note av = avail_after_map [OF ok al p room Suc.prems(4)]
  have "missing ?v k (page_addr (Suc n)) \<subseteq> missing v (Suc k) ?a - missing v 1 ?a"
  proof
    fix i assume i: "i \<in> missing ?v k (page_addr (Suc n))"
    then have "unat i < 1024" "i \<in> touched k (page_addr (Suc n))" "\<not> pd_present ?v i" by (auto simp: missing_def dest: touched_bound)
    then show "i \<in> missing v (Suc k) ?a - missing v 1 ?a" using av(3) [of i] unfolding m1 unfolding missing_def t by auto
  qed
  then have "card (missing ?v k (page_addr (Suc n))) \<le> card (missing v (Suc k) ?a - missing v 1 ?a)"
    by (intro card_mono) simp_all
  then have cm: "card (missing ?v k (page_addr (Suc n))) + card (missing v 1 ?a) \<le> card (missing v (Suc k) ?a)"
    using card_Diff_subset [OF finite_missing sub1] card_mono [OF finite_missing sub1] by linarith
  have "n \<in> {n..<n + Suc k}" by simp
  then have nn: "n \<notin> A" "n < 1048576" using Suc.prems(2,3) by (blast, simp)
  note one = map_one [OF Suc.prems(1) nn al p av(1) Suc.prems(4)]
  have len: "k + card (missing ?v k (page_addr (Suc n))) \<le> card (avail (vmm_pmm ?v))" using cm av(2) Suc.prems(5) by linarith
  have "{Suc n..<Suc n + k} \<subseteq> {n..<n + Suc k}" "n \<notin> {Suc n..<Suc n + k}" by auto
  then have dis: "{Suc n..<Suc n + k} \<inter> insert n A = {}" using Suc.prems(3) by blast
  have un: "insert n A \<union> {Suc n..<Suc n + k} = A \<union> {n..<n + Suc k}" by auto
  obtain v' where v': "map_segment (page_addr (Suc n)) (page_addr (Suc n + k)) flags ?v = Some (True, v')" "owned v' (A \<union> {n..<n + Suc k})"
    "\<And>w. page_no w \<notin> {Suc n..<Suc n + k} \<Longrightarrow> vmm_entry w v' = vmm_entry w ?v"
    "\<And>b. page_no b \<in> insert n A \<Longrightarrow> load_byte b v' = load_byte b ?v"
    "card (avail (vmm_pmm ?v)) \<le> card (avail (vmm_pmm v')) + k + card (missing ?v k (page_addr (Suc n)))"
    using Suc.IH [OF one(1) _ dis Suc.prems(4) len] Suc.prems(2) unfolding un by auto
  have lt: "?a < page_addr (n + Suc k)" using Suc.prems(2) unat_page_addr [of n] unat_page_addr [of "n + Suc k"]
    by (simp only: unat_less_u32) simp
  have "map_segment ?a (page_addr (n + Suc k)) flags v = map_segment (page_addr (Suc n)) (page_addr (Suc n + k)) flags ?v"
    using lt al p page_addr_Suc [of n] by (subst map_segment.simps) (simp add: add.commute del: of_nat_mult)
  moreover have "vmm_entry w v' = vmm_entry w v" if "page_no w \<notin> {n..<n + Suc k}" for w
    using that v'(3) [of w] one(2) [of w] by auto
  moreover have "load_byte b v' = load_byte b v" if "page_no b \<in> A" for b using that v'(4) [of b] one(3) [of b] by auto
  moreover have "card (avail (vmm_pmm v)) \<le> card (avail (vmm_pmm v')) + Suc k + card (missing v (Suc k) ?a)"
    using v'(5) av(2) cm by linarith
  ultimately show ?case using v'(1,2) by (intro exI [of _ v']) simp
qed

section \<open>Loading a segment\<close>

definition loads :: "elf32_phdr \<Rightarrow> bool" where
  "loads ph \<longleftrightarrow> p_type ph = PT_LOAD \<and> p_memsz ph \<noteq> 0"

definition seg_pages :: "elf32_phdr \<Rightarrow> nat set" where
  "seg_pages ph = {page_no (p_vaddr ph)..<(unat (p_vaddr ph) + unat (p_memsz ph) + 4095) div 4096}"

definition fits :: "nat \<Rightarrow> elf32_phdr \<Rightarrow> bool" where
  "fits len ph \<longleftrightarrow> unat (p_offset ph) + unat (p_filesz ph) \<le> len \<and> p_filesz ph \<le> p_memsz ph \<and>
     unat (p_vaddr ph) + unat (p_memsz ph) + 4095 < 4294967296"

text \<open>Enough frames for the pages and for the page tables they may need.\<close>

definition frames_for :: "elf32_phdr \<Rightarrow> nat" where
  "frames_for ph = card (seg_pages ph) + card (seg_pages ph) div 1024 + 2"

definition seg_byte :: "u8 list \<Rightarrow> elf32_phdr \<Rightarrow> nat \<Rightarrow> u8" where
  "seg_byte data ph k = (if k < unat (p_filesz ph) then data ! (unat (p_offset ph) + k) else 0)"

lemma page_floor: "a AND 0xFFFFF000 = page_addr (page_no a)"
proof -
  have "unat a div 4096 < 1048576" using unat_u32_less [of a] by (simp add: less_mult_imp_div_less)
  then have "unat (page_addr (page_no a)) = unat a - unat a mod 4096"
    by (simp only: unat_page_addr minus_mod_eq_mult_div)
  then show ?thesis using unat_page_mask [of a] by (simp only: word_unat_eq_iff)
qed

lemma missing_pages:
  assumes "n + k < 1048576"
  shows "card (missing v k (page_addr n)) \<le> k div 1024 + 2"
proof -
  have a: "unat (page_addr n) = 4096 * n" using assms by (intro unat_page_addr) simp
  have "card (missing v k (page_addr n)) \<le> ((n + k + 1023) div 1024) - (n div 1024)"
  proof (rule missing_bound)
    have "n + k \<le> 1024 * ((n + k + 1023) div 1024)" by arith
    then show "unat (page_addr n) + 4096 * k \<le> 4194304 * ((n + k + 1023) div 1024)" unfolding a by linarith
    have "1024 * (n div 1024) \<le> n" by arith
    then show "4194304 * (n div 1024) \<le> unat (page_addr n)" unfolding a by linarith
    show "(n + k + 1023) div 1024 \<le> 1024" using assms by arith
  qed
  also have "\<dots> \<le> k div 1024 + 2" by arith
  finally show ?thesis .
qed

lemma load_segment_run:
  assumes own: "owned v A" and ph: "loads ph" and fit: "fits (length data) ph" and len: "length data < 4294967296"
    and dis: "seg_pages ph \<inter> A = {}" and room: "frames_for ph \<le> card (avail (vmm_pmm v))"
  shows "\<exists>v'. load_segment data (of_nat (length data)) ph v = Some (True, v') \<and> owned v' (A \<union> seg_pages ph) \<and>
    (\<forall>w. page_no w \<notin> seg_pages ph \<longrightarrow> vmm_entry w v' = vmm_entry w v) \<and>
    (\<forall>b. page_no b \<in> A \<longrightarrow> load_byte b v' = load_byte b v) \<and>
    (\<forall>k < unat (p_memsz ph). load_byte (p_vaddr ph + of_nat k) v' = Some (seg_byte data ph k)) \<and>
    card (avail (vmm_pmm v)) \<le> card (avail (vmm_pmm v')) + frames_for ph"
proof -
  let ?va = "p_vaddr ph" and ?mem = "unat (p_memsz ph)" and ?fil = "unat (p_filesz ph)" and ?off = "unat (p_offset ph)"
  define n where "n = page_no ?va"
  define k where "k = (unat ?va + ?mem + 4095) div 4096 - n"
  let ?flags = "segment_flags ph"
  have f: "?off + ?fil \<le> length data" "?fil \<le> ?mem" "unat ?va + ?mem + 4095 < 4294967296"
    using fit by (simp_all add: fits_def unat_le_u32)
  have fl: "?flags AND PAGE_MASK = 0" by (simp add: segment_flags_def Let_def)
  have "n \<le> (unat ?va + ?mem + 4095) div 4096" by (simp add: n_def div_le_mono)
  then have nk: "n + k = (unat ?va + ?mem + 4095) div 4096" by (simp add: k_def)
  have lt: "n + k < 1048576" using f(3) unfolding nk by (simp add: less_mult_imp_div_less)
  have pages: "seg_pages ph = {n..<n + k}" unfolding seg_pages_def nk unfolding n_def ..
  have cost: "k + card (missing v k (page_addr n)) \<le> frames_for ph"
    using missing_pages [OF lt, of v] by (simp add: frames_for_def pages)
  obtain v1 where v1: "map_segment (page_addr n) (page_addr (n + k)) ?flags v = Some (True, v1)" "owned v1 (A \<union> {n..<n + k})"
    "\<And>w. page_no w \<notin> {n..<n + k} \<Longrightarrow> vmm_entry w v1 = vmm_entry w v" "\<And>b. page_no b \<in> A \<Longrightarrow> load_byte b v1 = load_byte b v"
    "card (avail (vmm_pmm v)) \<le> card (avail (vmm_pmm v1)) + k + card (missing v k (page_addr n))"
    using map_segment_run [OF own lt _ fl] dis room cost pages by auto
  have inside: "(unat ?va + j) div 4096 \<in> A \<union> {n..<n + k}" if "j < ?mem" for j
    using that nk by (auto simp: n_def div_le_mono less_eq_div_iff_mult_less_eq div_less_iff_less_mult)
  let ?bs = "bytes_at ?off ?fil data"
  have lb: "length ?bs = ?fil" using f(1) by simp
  have lim: "unat ?va + length ?bs \<le> 4294967296" using f(2,3) unfolding lb by linarith
  have ins: "(unat ?va + j) div 4096 \<in> A \<union> {n..<n + k}" if "j < length ?bs" for j using inside that f(2) unfolding lb by simp
  obtain v2 where v2: "store_bytes ?bs ?va v1 = Some v2" "owned v2 (A \<union> {n..<n + k})" "\<And>w. vmm_entry w v2 = vmm_entry w v1"
    "vmm_pmm v2 = vmm_pmm v1" "\<And>b. page_no b \<in> A \<union> {n..<n + k} \<Longrightarrow> load_byte b v2 =
       (if unat ?va \<le> unat b \<and> unat b < unat ?va + ?fil then Some (?bs ! (unat b - unat ?va)) else load_byte b v1)"
    using store_bytes_run [OF v1(2) lim ins] unfolding lb by blast
  have mid: "unat (?va + p_filesz ph) = unat ?va + ?fil" using f(2,3) by (intro unat_add_u32) simp
  let ?zs = "replicate (?mem - ?fil) (0 :: u8)"
  have lim2: "unat (?va + p_filesz ph) + length ?zs \<le> 4294967296" using f(2,3) by (simp add: mid)
  have inside2: "(unat (?va + p_filesz ph) + j) div 4096 \<in> A \<union> {n..<n + k}" if "j < length ?zs" for j
    using inside [of "?fil + j"] that by (simp add: mid add.assoc)
  obtain v3 where v3: "store_bytes ?zs (?va + p_filesz ph) v2 = Some v3" "owned v3 (A \<union> {n..<n + k})" "\<And>w. vmm_entry w v3 = vmm_entry w v2"
    "vmm_pmm v3 = vmm_pmm v2" and zeros: "\<And>b. page_no b \<in> A \<union> {n..<n + k} \<Longrightarrow> load_byte b v3 =
       (if unat (?va + p_filesz ph) \<le> unat b \<and> unat b < unat (?va + p_filesz ph) + length ?zs
        then Some (?zs ! (unat b - unat (?va + p_filesz ph))) else load_byte b v2)"
    using store_bytes_run [OF v2(2) lim2 inside2] by blast
  have v3b: "load_byte b v3 = (if unat ?va + ?fil \<le> unat b \<and> unat b < unat ?va + ?mem then Some 0 else load_byte b v2)"
    if "page_no b \<in> A \<union> {n..<n + k}" for b
    using zeros [OF that] f(2) by (auto simp: mid)
  have copy: "(if 0 < p_filesz ph then if ?off + ?fil \<le> length data then store_bytes ?bs ?va v1 else None else Some v1) = Some v2"
  proof (cases "0 < p_filesz ph")
    case False
    then have "?bs = []" using lb by (simp add: unat_less_u32)
    then show ?thesis using False v2(1) by simp
  qed (use f(1) v2(1) in simp)
  have zero: "(if p_filesz ph < p_memsz ph then store_bytes (replicate (unat (p_memsz ph - p_filesz ph)) 0) (?va + p_filesz ph) v2 else Some v2) = Some v3"
  proof (cases "p_filesz ph < p_memsz ph")
    case False
    then have "?zs = []" using f(2) by (simp add: unat_less_u32)
    then show ?thesis using False v3(1) by simp
  next
    case True
    then show ?thesis using v3(1) f(2) by (simp add: unat_sub_u32)
  qed
  have start: "?va AND 0xFFFFF000 = page_addr n" by (simp only: page_floor n_def)
  have last: "unat (?va + p_memsz ph + PAGE_SIZE - 1) = unat ?va + ?mem + 4095"
  proof -
    have "?va + p_memsz ph + PAGE_SIZE - 1 = ?va + p_memsz ph + 4095" by simp
    moreover have "unat (?va + p_memsz ph + 4095) = unat ?va + ?mem + 4095"
      using f(3) unat_add_u32 [of ?va "p_memsz ph"] by (subst unat_add_u32) simp_all
    ultimately show ?thesis by (simp only:)
  qed
  have stop: "(?va + p_memsz ph + PAGE_SIZE - 1) AND 0xFFFFF000 = page_addr (n + k)"
    by (simp only: page_floor last nk)
  have bound: "\<not> of_nat (length data) < p_offset ph + p_filesz ph"
    using f(1) len unat_add_u32 [of "p_offset ph" "p_filesz ph"] by (simp add: unat_less_u32 unat_of_nat_u32)
  have run: "load_segment data (of_nat (length data)) ph v = Some (True, v3)"
  proof -
    have "fill_segment data ph v1 = Some v3" unfolding fill_segment_def copy Option.bind.simps by (rule zero)
    then show ?thesis using ph bound v1(1) unfolding load_segment_def start stop loads_def Let_def by (simp del: of_nat_mult of_nat_add)
  qed
  have image: "load_byte (?va + of_nat j) v3 = Some (seg_byte data ph j)" if j: "j < ?mem" for j
  proof -
    have b: "unat (?va + of_nat j) = unat ?va + j" using j f(3) by (subst unat_add_u32) (simp_all add: unat_of_nat_u32)
    show ?thesis
      using v3b [of "?va + of_nat j"] v2(5) [of "?va + of_nat j"] inside [OF j] j f(1) by (auto simp: b seg_byte_def)
  qed
  have keep: "load_byte b v3 = load_byte b v" if b: "page_no b \<in> A" for b
  proof -
    have "\<not> (unat ?va \<le> unat b \<and> unat b < unat ?va + ?mem)"
    proof
      assume "unat ?va \<le> unat b \<and> unat b < unat ?va + ?mem"
      then have "page_no b \<in> {n..<n + k}" using nk by (auto simp: n_def div_le_mono less_eq_div_iff_mult_less_eq div_less_iff_less_mult)
      then show False using b dis pages by auto
    qed
    then show ?thesis using v3b [of b] v2(5) [of b] v1(4) [OF b] b f(2) by auto
  qed
  have "vmm_entry w v3 = vmm_entry w v" if "page_no w \<notin> {n..<n + k}" for w using v3(3) v2(3) v1(3) that by simp
  moreover have "card (avail (vmm_pmm v)) \<le> card (avail (vmm_pmm v3)) + frames_for ph" using v1(5) cost v2(4) v3(4) by simp
  ultimately show ?thesis using run v3(2) image keep pages by (intro exI [of _ v3]) simp
qed

section \<open>Loading a program\<close>

definition program_headers :: "u8 list \<Rightarrow> elf32_ehdr \<Rightarrow> elf32_phdr list option" where
  "program_headers data ehdr =
     those (map (\<lambda>i. read_phdr data (e_phoff ehdr + of_nat i * ucast (e_phentsize ehdr))) [0..<unat (e_phnum ehdr)])"

text \<open>The segments of the program do not share pages.\<close>

definition apart :: "elf32_phdr list \<Rightarrow> bool" where
  "apart phs = sorted_wrt (\<lambda>a b. seg_pages a \<inter> seg_pages b = {}) (filter loads phs)"

lemma load_other: "\<not> loads ph \<Longrightarrow> load_segment data sz ph v = Some (True, v)"
  by (auto simp: loads_def load_segment_def)

lemma load_segments_run:
  assumes "those (map (\<lambda>i. read_phdr data (e_phoff ehdr + of_nat i * ucast (e_phentsize ehdr))) [i..<i + n]) = Some phs"
    and "owned v A" "length data < 4294967296" "\<forall>ph \<in> set phs. loads ph \<longrightarrow> fits (length data) ph \<and> seg_pages ph \<inter> A = {}"
    and "apart phs" "sum_list (map frames_for (filter loads phs)) \<le> card (avail (vmm_pmm v))"
  shows "\<exists>v' B. load_segments data (of_nat (length data)) ehdr n i v = Some (True, v') \<and> owned v' (A \<union> B) \<and>
    (\<forall>w. (\<forall>ph \<in> set phs. loads ph \<longrightarrow> page_no w \<notin> seg_pages ph) \<longrightarrow> vmm_entry w v' = vmm_entry w v) \<and>
    (\<forall>b. page_no b \<in> A \<longrightarrow> load_byte b v' = load_byte b v) \<and>
    (\<forall>ph \<in> set phs. loads ph \<longrightarrow> (\<forall>k < unat (p_memsz ph). load_byte (p_vaddr ph + of_nat k) v' = Some (seg_byte data ph k)))"
  using assms
proof (induction n arbitrary: i phs v A)
  case 0
  then show ?case by (intro exI [of _ v] exI [of _ "{}"]) simp
next
  case (Suc n)
  let ?rd = "\<lambda>i. read_phdr data (e_phoff ehdr + of_nat i * ucast (e_phentsize ehdr))" and ?sz = "of_nat (length data) :: u32"
  have "[i..<i + Suc n] = i # [Suc i..<Suc i + n]" by (simp add: upt_rec)
  then obtain ph rest where r: "?rd i = Some ph" "those (map ?rd [Suc i..<Suc i + n]) = Some rest" "phs = ph # rest"
    using Suc.prems(1) by (auto split: option.splits)
  show ?case
  proof (cases "loads ph")
    case False
    then have "apart rest" "sum_list (map frames_for (filter loads rest)) \<le> card (avail (vmm_pmm v))" using Suc.prems(5,6) r(3) by (simp_all add: apart_def)
    then obtain v' B where "load_segments data ?sz ehdr n (Suc i) v = Some (True, v')" "owned v' (A \<union> B)"
      "\<forall>w. (\<forall>ph \<in> set rest. loads ph \<longrightarrow> page_no w \<notin> seg_pages ph) \<longrightarrow> vmm_entry w v' = vmm_entry w v"
      "\<forall>b. page_no b \<in> A \<longrightarrow> load_byte b v' = load_byte b v"
      "\<forall>ph \<in> set rest. loads ph \<longrightarrow> (\<forall>k < unat (p_memsz ph). load_byte (p_vaddr ph + of_nat k) v' = Some (seg_byte data ph k))"
      using Suc.IH [OF r(2) Suc.prems(2,3)] Suc.prems(4) r(3) by auto
    then show ?thesis using False r load_other [OF False] by (intro exI [of _ v'] exI [of _ B]) simp
  next
    case True
    have fit: "fits (length data) ph" "seg_pages ph \<inter> A = {}" using Suc.prems(4) r(3) True by auto
    have sum: "frames_for ph + sum_list (map frames_for (filter loads rest)) \<le> card (avail (vmm_pmm v))" using Suc.prems(6) r(3) True by simp
    then obtain u where u: "load_segment data ?sz ph v = Some (True, u)" "owned u (A \<union> seg_pages ph)"
      "\<forall>w. page_no w \<notin> seg_pages ph \<longrightarrow> vmm_entry w u = vmm_entry w v" "\<forall>b. page_no b \<in> A \<longrightarrow> load_byte b u = load_byte b v"
      "\<forall>k < unat (p_memsz ph). load_byte (p_vaddr ph + of_nat k) u = Some (seg_byte data ph k)"
      "card (avail (vmm_pmm v)) \<le> card (avail (vmm_pmm u)) + frames_for ph"
      using load_segment_run [OF Suc.prems(2) True fit(1) Suc.prems(3) fit(2)] by auto
    have ap: "apart rest" "\<forall>q \<in> set rest. loads q \<longrightarrow> seg_pages ph \<inter> seg_pages q = {}" using Suc.prems(5) r(3) True by (auto simp: apart_def)
    have "\<forall>q \<in> set rest. loads q \<longrightarrow> fits (length data) q \<and> seg_pages q \<inter> (A \<union> seg_pages ph) = {}"
      using Suc.prems(4) r(3) ap(2) by auto
    moreover have "sum_list (map frames_for (filter loads rest)) \<le> card (avail (vmm_pmm u))" using sum u(6) by linarith
    ultimately obtain v' B where v': "load_segments data ?sz ehdr n (Suc i) u = Some (True, v')" "owned v' (A \<union> seg_pages ph \<union> B)"
      "\<forall>w. (\<forall>q \<in> set rest. loads q \<longrightarrow> page_no w \<notin> seg_pages q) \<longrightarrow> vmm_entry w v' = vmm_entry w u"
      "\<forall>b. page_no b \<in> A \<union> seg_pages ph \<longrightarrow> load_byte b v' = load_byte b u"
      "\<forall>q \<in> set rest. loads q \<longrightarrow> (\<forall>k < unat (p_memsz q). load_byte (p_vaddr q + of_nat k) v' = Some (seg_byte data q k))"
      using Suc.IH [OF r(2) u(2) Suc.prems(3) _ ap(1)] by blast
    have "load_byte (p_vaddr ph + of_nat k) v' = Some (seg_byte data ph k)" if k: "k < unat (p_memsz ph)" for k
    proof -
      have f: "unat (p_vaddr ph) + unat (p_memsz ph) + 4095 < 4294967296" using fit(1) by (simp add: fits_def)
      then have b: "unat (p_vaddr ph + of_nat k) = unat (p_vaddr ph) + k" using k by (subst unat_add_u32) (simp_all add: unat_of_nat_u32)
      have "page_no (p_vaddr ph + of_nat k) \<in> seg_pages ph"
        unfolding seg_pages_def b using k by (auto simp: div_le_mono less_eq_div_iff_mult_less_eq div_less_iff_less_mult)
      then show ?thesis using u(5) v'(4) k by simp
    qed
    then show ?thesis using True r u v' by (intro exI [of _ v'] exI [of _ "seg_pages ph \<union> B"]) (auto simp: Un_assoc)
  qed
qed


section \<open>A concrete program\<close>

text \<open>
  A file of 87 bytes with one program header: three bytes at offset 84 go to \<open>0x40000FFE\<close>, across a page
  boundary, and the segment has eight bytes in memory.
\<close>

definition hello_elf :: "u8 list" where
  "hello_elf = [0x7F, 0x45, 0x4C, 0x46, 1, 1, 1, 0, 0, 0, 0, 0, 0, 0, 0, 0] @ [2, 0, 3, 0] @ le32 1 @ le32 0x40000FFE @ le32 52 @
     le32 0 @ le32 0 @ [52, 0, 32, 0, 1, 0, 0, 0, 0, 0, 0, 0] @
     (le32 1 @ le32 84 @ le32 0x40000FFE @ le32 0 @ le32 3 @ le32 8 @ le32 5 @ le32 0x1000) @ [0xB8, 0x2A, 0xC3]"

definition hello_phdr :: elf32_phdr where
  "hello_phdr = \<lparr>p_type = 1, p_offset = 84, p_vaddr = 0x40000FFE, p_paddr = 0, p_filesz = 3, p_memsz = 8, p_flags = 5, p_align = 0x1000\<rparr>"

definition loader_example :: vmm where
  "loader_example = \<lparr>vmm_pmm = pmm_example, phys_mem = (\<lambda>_. 0), current_directory = 0x1000, cr3 = 0x1000, cr0 = 1\<rparr>"


end
