(* ===== verification/Stdlib.thy ===== *)
theory Stdlib
  imports Syscall
begin

text \<open>
  The general part of the C library of user programs: \<open>libc/stdlib.c\<close> (numbers, the allocator, pseudo-random
  numbers) and the wrappers of the system calls in \<open>libc/unistd.c\<close>. The allocator keeps its headers in the
  memory of the program and gets memory by \<open>sbrk\<close>, which asks the kernel. \<open>None\<close> is a loop that does not
  end, a signed overflow, or the end of the process.
\<close>

section \<open>Numbers\<close>

partial_function (option) skip_space :: "mem \<Rightarrow> u32 \<Rightarrow> u32 option" where
  "skip_space m str = (if m str = 32 \<or> m str = 9 \<or> m str = 10 then skip_space m (str + 1) else Some str)"

text \<open>\<open>result\<close> is an \<open>int\<close>; it is never negative here.\<close>

partial_function (option) atoi_digits :: "mem \<Rightarrow> u32 \<Rightarrow> int \<Rightarrow> int option" where
  "atoi_digits m str result =
     (if 48 \<le> m str \<and> m str \<le> 57
      then let result = result * 10 + (uint (m str) - 48)
           in if result < 2147483648 then atoi_digits m (str + 1) result else None
      else Some result)"

definition atoi :: "mem \<Rightarrow> u32 \<Rightarrow> int option" where
  "atoi m str =
     do { str \<leftarrow> skip_space m str;
          let sign = (if m str = 45 then - 1 else 1);
          let str = (if m str = 45 \<or> m str = 43 then str + 1 else str);
          result \<leftarrow> atoi_digits m str 0;
          Some (sign * result) }"

definition atol :: "mem \<Rightarrow> u32 \<Rightarrow> int option" where
  "atol m str = atoi m str"

text \<open>As \<open>itoa\<close> of the kernel, with the buffer as its result.\<close>

definition itoa_buf :: "u32 \<Rightarrow> u32 \<Rightarrow> u32 \<Rightarrow> mem \<Rightarrow> (u32 \<times> mem) option" where
  "itoa_buf val buf base m =
     (let negative = base = 10 \<and> sint val < 0;
          ud = (if negative then - (val + 1) + 1 else val)
      in do { (p, m) \<leftarrow> put_digits ud base buf m;
              let (p, m) = (if negative then (p + 1, m(p := 45)) else (p, m));
              Some (buf, reverse_loop buf (p - 1) (m(p := 0))) })"

definition c_abs :: "int \<Rightarrow> int option" where
  "c_abs n = (if n < 0 then if n = - 2147483648 then None else Some (- n) else Some n)"

section \<open>System calls\<close>

text \<open>The caller: its number for the linker, its registers, and the static variables of the library.\<close>

record libc =
  lc_kernel :: kernel
  current_brk :: u32
  heap_head :: u32
  rand_seed :: u32

definition call1 :: "linkage \<Rightarrow> registers \<Rightarrow> u32 \<Rightarrow> u32 \<Rightarrow> libc \<Rightarrow> (u32 \<times> libc) option" where
  "call1 l regs num a s = map_option (\<lambda>(r, k). (r, s\<lparr>lc_kernel := k\<rparr>)) (syscall1 l num a regs (lc_kernel s))"

definition call2 :: "linkage \<Rightarrow> registers \<Rightarrow> u32 \<Rightarrow> u32 \<Rightarrow> u32 \<Rightarrow> libc \<Rightarrow> (u32 \<times> libc) option" where
  "call2 l regs num a b s = map_option (\<lambda>(r, k). (r, s\<lparr>lc_kernel := k\<rparr>)) (syscall2 l num a b regs (lc_kernel s))"

definition call3 :: "linkage \<Rightarrow> registers \<Rightarrow> u32 \<Rightarrow> u32 \<Rightarrow> u32 \<Rightarrow> u32 \<Rightarrow> libc \<Rightarrow> (u32 \<times> libc) option" where
  "call3 l regs num a b c s = map_option (\<lambda>(r, k). (r, s\<lparr>lc_kernel := k\<rparr>)) (syscall3 l num a b c regs (lc_kernel s))"

definition call0 :: "linkage \<Rightarrow> registers \<Rightarrow> u32 \<Rightarrow> libc \<Rightarrow> (u32 \<times> libc) option" where
  "call0 l regs num s =
     map_option (\<lambda>(regs, k). (r_eax regs, s\<lparr>lc_kernel := k\<rparr>)) (syscall_handler l (regs\<lparr>r_eax := num\<rparr>) (lc_kernel s))"

text \<open>Leaving the program: the state in which it halts for ever, should the system call return.\<close>

definition c_exit :: "linkage \<Rightarrow> registers \<Rightarrow> u32 \<Rightarrow> libc \<Rightarrow> libc option" where
  "c_exit l regs status s = map_option snd (call1 l regs 0 status s)"

definition exit :: "linkage \<Rightarrow> registers \<Rightarrow> u32 \<Rightarrow> libc \<Rightarrow> libc option" where
  "exit l regs status s = c_exit l regs status s"

definition abort :: "linkage \<Rightarrow> registers \<Rightarrow> libc \<Rightarrow> libc option" where
  "abort l regs s = c_exit l regs (- 1) s"

definition getpid :: "linkage \<Rightarrow> registers \<Rightarrow> libc \<Rightarrow> (u32 \<times> libc) option" where
  "getpid l regs s = call0 l regs 12 s"

definition fork :: "linkage \<Rightarrow> registers \<Rightarrow> libc \<Rightarrow> (u32 \<times> libc) option" where
  "fork l regs s = call0 l regs 9 s"

definition c_open :: "linkage \<Rightarrow> registers \<Rightarrow> u32 \<Rightarrow> u32 \<Rightarrow> libc \<Rightarrow> (u32 \<times> libc) option" where
  "c_open l regs path flags s = call2 l regs 3 path flags s"

definition c_read :: "linkage \<Rightarrow> registers \<Rightarrow> u32 \<Rightarrow> u32 \<Rightarrow> u32 \<Rightarrow> libc \<Rightarrow> (u32 \<times> libc) option" where
  "c_read l regs fd buf count s = call3 l regs 1 fd buf count s"

definition c_write :: "linkage \<Rightarrow> registers \<Rightarrow> u32 \<Rightarrow> u32 \<Rightarrow> u32 \<Rightarrow> libc \<Rightarrow> (u32 \<times> libc) option" where
  "c_write l regs fd buf count s = call3 l regs 2 fd buf count s"

definition c_close :: "linkage \<Rightarrow> registers \<Rightarrow> u32 \<Rightarrow> libc \<Rightarrow> (u32 \<times> libc) option" where
  "c_close l regs fd s = call1 l regs 4 fd s"

definition lseek :: "linkage \<Rightarrow> registers \<Rightarrow> u32 \<Rightarrow> u32 \<Rightarrow> u32 \<Rightarrow> libc \<Rightarrow> (u32 \<times> libc) option" where
  "lseek l regs fd offset whence s = call3 l regs 6 fd offset whence s"

definition execv :: "linkage \<Rightarrow> registers \<Rightarrow> u32 \<Rightarrow> libc \<Rightarrow> (u32 \<times> libc) option" where
  "execv l regs path s = call1 l regs 8 path s"

definition waitpid :: "linkage \<Rightarrow> registers \<Rightarrow> u32 \<Rightarrow> libc \<Rightarrow> (u32 \<times> libc) option" where
  "waitpid l regs child s = call1 l regs 10 child s"

definition c_mkdir :: "linkage \<Rightarrow> registers \<Rightarrow> u32 \<Rightarrow> libc \<Rightarrow> (u32 \<times> libc) option" where
  "c_mkdir l regs path s = call1 l regs 13 path s"

definition c_unlink :: "linkage \<Rightarrow> registers \<Rightarrow> u32 \<Rightarrow> libc \<Rightarrow> (u32 \<times> libc) option" where
  "c_unlink l regs path s = call1 l regs 14 path s"

definition c_symlink :: "linkage \<Rightarrow> registers \<Rightarrow> u32 \<Rightarrow> u32 \<Rightarrow> libc \<Rightarrow> (u32 \<times> libc) option" where
  "c_symlink l regs target linkpath s = call2 l regs 15 target linkpath s"

definition c_readlink :: "linkage \<Rightarrow> registers \<Rightarrow> u32 \<Rightarrow> u32 \<Rightarrow> u32 \<Rightarrow> libc \<Rightarrow> (u32 \<times> libc) option" where
  "c_readlink l regs path buf bufsiz s = call3 l regs 16 path buf bufsiz s"

definition getcwd :: "linkage \<Rightarrow> registers \<Rightarrow> u32 \<Rightarrow> u32 \<Rightarrow> libc \<Rightarrow> (u32 \<times> libc) option" where
  "getcwd l regs buf size' s = do { (ret, s) \<leftarrow> call2 l regs 17 buf size' s; Some (if ret = 0 then buf else 0, s) }"

definition chdir :: "linkage \<Rightarrow> registers \<Rightarrow> u32 \<Rightarrow> libc \<Rightarrow> (u32 \<times> libc) option" where
  "chdir l regs path s = call1 l regs 18 path s"

text \<open>\<open>(void*)-1\<close> is \<open>0xFFFFFFFF\<close>.\<close>

definition move_brk :: "linkage \<Rightarrow> registers \<Rightarrow> u32 \<Rightarrow> libc \<Rightarrow> (u32 \<times> libc) option" where
  "move_brk l regs increment s =
     (if increment = 0 then Some (current_brk s, s)
      else let old_brk = current_brk s; new_brk = old_brk + increment
           in do { (ret, s) \<leftarrow> call1 l regs 11 new_brk s;
                   if ret = - 1 then Some (- 1, s) else Some (old_brk, s\<lparr>current_brk := new_brk\<rparr>) })"

definition sbrk :: "linkage \<Rightarrow> registers \<Rightarrow> u32 \<Rightarrow> libc \<Rightarrow> (u32 \<times> libc) option" where
  "sbrk l regs increment s =
     (if current_brk s = 0
      then do { (brk, s) \<leftarrow> call1 l regs 11 0 s;
                let s = s\<lparr>current_brk := brk\<rparr>;
                if brk = - 1 then Some (- 1, s) else move_brk l regs increment s }
      else move_brk l regs increment s)"

section \<open>The allocator\<close>

abbreviation (input) BLOCK_HEADER_SIZE :: u32 where "BLOCK_HEADER_SIZE \<equiv> 12"

text \<open>A word of the memory of the program; a header is three of them: size, free and next.\<close>

definition peek :: "libc \<Rightarrow> u32 \<Rightarrow> u32" where
  "peek s a = of_le32 (fetch (umem (lc_kernel s)) a 4)"

definition poke :: "u32 \<Rightarrow> u32 \<Rightarrow> libc \<Rightarrow> libc" where
  "poke a w s = s\<lparr>lc_kernel := (lc_kernel s)\<lparr>umem := stored a (le32 w) (umem (lc_kernel s))\<rparr>\<rparr>"

partial_function (option) find_free_block :: "u32 \<Rightarrow> u32 \<Rightarrow> libc \<Rightarrow> u32 option" where
  "find_free_block size' block s =
     (if block = 0 then Some 0
      else if peek s (block + 4) \<noteq> 0 \<and> size' \<le> peek s block then Some block
      else find_free_block size' (peek s (block + 8)) s)"

partial_function (option) last_block :: "u32 \<Rightarrow> libc \<Rightarrow> u32 option" where
  "last_block block s = (if peek s (block + 8) = 0 then Some block else last_block (peek s (block + 8)) s)"

definition request_space :: "linkage \<Rightarrow> registers \<Rightarrow> u32 \<Rightarrow> libc \<Rightarrow> (u32 \<times> libc) option" where
  "request_space l regs size' s =
     do { (block, s) \<leftarrow> sbrk l regs 0 s;
          (request, s) \<leftarrow> sbrk l regs (BLOCK_HEADER_SIZE + size') s;
          if request = - 1 then Some (0, s)
          else do {
            let s = poke (block + 8) 0 (poke (block + 4) 0 (poke block size' s));
            if heap_head s \<noteq> 0
            then do { last \<leftarrow> last_block (heap_head s) s; Some (block, poke (last + 8) block s) }
            else Some (block, s\<lparr>heap_head := block\<rparr>) } }"

definition malloc :: "linkage \<Rightarrow> registers \<Rightarrow> u32 \<Rightarrow> libc \<Rightarrow> (u32 \<times> libc) option" where
  "malloc l regs size' s =
     (if size' = 0 then Some (0, s)
      else let size' = (size' + 3) AND NOT 3
           in do { block \<leftarrow> find_free_block size' (heap_head s) s;
                   if block \<noteq> 0 then Some (block + BLOCK_HEADER_SIZE, poke (block + 4) 0 s)
                   else do { (block, s) \<leftarrow> request_space l regs size' s;
                             if block = 0 then Some (0, s) else Some (block + BLOCK_HEADER_SIZE, s) } })"

partial_function (option) coalesce_blocks :: "u32 \<Rightarrow> libc \<Rightarrow> libc option" where
  "coalesce_blocks current s =
     (if current = 0 \<or> peek s (current + 8) = 0 then Some s
      else let nxt = peek s (current + 8)
           in if peek s (current + 4) \<noteq> 0 \<and> peek s (nxt + 4) \<noteq> 0
              then let s = poke current (peek s current + (BLOCK_HEADER_SIZE + peek s nxt)) s
                   in coalesce_blocks current (poke (current + 8) (peek s (nxt + 8)) s)
              else coalesce_blocks nxt s)"

definition free :: "u32 \<Rightarrow> libc \<Rightarrow> libc option" where
  "free ptr s =
     (if ptr = 0 then Some s
      else coalesce_blocks (heap_head s) (poke (ptr - BLOCK_HEADER_SIZE + 4) 1 s))"

definition on_umem :: "(mem \<Rightarrow> mem) \<Rightarrow> libc \<Rightarrow> libc" where
  "on_umem f s = s\<lparr>lc_kernel := (lc_kernel s)\<lparr>umem := f (umem (lc_kernel s))\<rparr>\<rparr>"

definition calloc :: "linkage \<Rightarrow> registers \<Rightarrow> u32 \<Rightarrow> u32 \<Rightarrow> libc \<Rightarrow> (u32 \<times> libc) option" where
  "calloc l regs nmemb size' s =
     (let total = nmemb * size'
      in do { (ptr, s) \<leftarrow> malloc l regs total s;
              Some (ptr, if ptr \<noteq> 0 then on_umem (memset ptr 0 total) s else s) })"

definition realloc :: "linkage \<Rightarrow> registers \<Rightarrow> u32 \<Rightarrow> u32 \<Rightarrow> libc \<Rightarrow> (u32 \<times> libc) option" where
  "realloc l regs ptr size' s =
     (if ptr = 0 then malloc l regs size' s
      else if size' = 0 then do { s \<leftarrow> free ptr s; Some (0, s) }
      else if size' \<le> peek s (ptr - BLOCK_HEADER_SIZE) then Some (ptr, s)
      else do { (new_ptr, s) \<leftarrow> malloc l regs size' s;
                if new_ptr = 0 then Some (0, s)
                else do { let s = on_umem (memcpy new_ptr ptr (peek s (ptr - BLOCK_HEADER_SIZE))) s;
                          s \<leftarrow> free ptr s;
                          Some (new_ptr, s) } })"

section \<open>Pseudo-random numbers and the rest\<close>

definition rand :: "libc \<Rightarrow> u32 \<times> libc" where
  "rand s = (let seed = rand_seed s * 1103515245 + 12345 in ((seed div 65536) mod 32768, s\<lparr>rand_seed := seed\<rparr>))"

definition srand :: "u32 \<Rightarrow> libc \<Rightarrow> libc" where
  "srand seed s = s\<lparr>rand_seed := seed\<rparr>"

definition getenv :: "u32 \<Rightarrow> u32" where
  "getenv name = 0"

section \<open>Reading a number back\<close>

definition is_digit :: "u8 \<Rightarrow> bool" where
  "is_digit c \<longleftrightarrow> 48 \<le> c \<and> c \<le> 57"

lemma digit_less: "is_digit c \<Longrightarrow> digit_val c < 10 \<and> uint c - 48 = int (digit_val c)"
  by (auto simp: is_digit_def digit_val_def word_le_nat_alt)

lemma foldl_grows: "acc \<le> foldl (\<lambda>a c. 10 * a + digit_val c) acc cs"
proof (induction cs arbitrary: acc)
  case (Cons c cs)
  show ?case using Cons.IH [of "10 * acc + digit_val c"] by simp
qed simp

lemma atoi_digits_run:
  "cstr m p cs \<Longrightarrow> \<forall>c \<in> set cs. is_digit c \<Longrightarrow>
   atoi_digits m p (int acc) =
     (let v = foldl (\<lambda>a c. 10 * a + digit_val c) acc cs
      in if v < 2147483648 \<or> cs = [] then Some (int v) else None)"
proof (induction cs arbitrary: p acc)
  case Nil
  then show ?case by (subst atoi_digits.simps) (simp add: word_le_nat_alt)
next
  case (Cons c cs)
  have c: "m p = c" "cstr m (p + 1) cs" "is_digit c" using Cons.prems by (auto simp: cstr_Cons)
  let ?a = "10 * acc + digit_val c"
  have "int acc * 10 + (uint (m p) - 48) = int ?a" using digit_less [OF c(3)] c(1) by simp
  then have step: "atoi_digits m p (int acc) = (if ?a < 2147483648 then atoi_digits m (p + 1) (int ?a) else None)"
    using c(1,3) atoi_digits.simps [of m p "int acc"] unfolding Let_def by (simp only: is_digit_def) simp
  show ?case
  proof (cases "?a < 2147483648")
    case True
    then show ?thesis using step Cons.IH [OF c(2), of ?a] Cons.prems(2) by (cases cs) (simp_all add: Let_def)
  next
    case False
    then show ?thesis using step foldl_grows [of ?a cs] by (simp add: Let_def)
  qed
qed

lemma digits_rev_digits: "c \<in> set (digits_rev 10 n) \<Longrightarrow> is_digit c"
proof (induction n rule: less_induct)
  case (less n)
  have "is_digit (digit_char (of_nat (n mod 10)))"
    using unat_digit_char [of "n mod 10"] by (simp add: is_digit_def word_le_nat_alt)
  then show ?case using less.IH [of "n div 10"] less.prems digits_rev.simps [of 10 n]
    by (auto simp del: digits_rev.simps split: if_splits)
qed

lemma atoi_plain:
  assumes "cstr m p cs" "\<forall>c \<in> set cs. is_digit c" "cs \<noteq> []"
  shows "atoi m p = (if num_of 10 cs < 2147483648 then Some (int (num_of 10 cs)) else None)"
proof -
  obtain c t where "cs = c # t" using assms(3) by (cases cs) auto
  then have h: "m p = hd cs" "is_digit (hd cs)" using assms by (auto simp: cstr_Cons)
  then have "m p \<noteq> 32" "m p \<noteq> 9" "m p \<noteq> 10" "m p \<noteq> 45" "m p \<noteq> 43" by (auto simp: is_digit_def word_le_nat_alt)
  then show ?thesis
    using atoi_digits_run [OF assms(1,2), of 0] assms(3) skip_space.simps [of m p] by (simp add: atoi_def num_of_def Let_def)
qed

lemma atoi_minus:
  assumes "cstr m p (45 # cs)" "\<forall>c \<in> set cs. is_digit c" "cs \<noteq> []"
  shows "atoi m p = (if num_of 10 cs < 2147483648 then Some (- int (num_of 10 cs)) else None)"
proof -
  have h: "m p = 45" "cstr m (p + 1) cs" using assms(1) by (simp_all add: cstr_Cons)
  then show ?thesis
    using atoi_digits_run [OF h(2) assms(2), of 0] assms(3) skip_space.simps [of m p] by (simp add: atoi_def num_of_def Let_def)
qed

lemma itoa_buf_itoa: "itoa_buf val buf base m = map_option (Pair buf) (itoa val buf base m)"
  by (simp add: itoa_buf_def itoa_def Let_def split: option.split prod.split)

text \<open>
  Numbers as text. For every \<open>int\<close> but the least one, \<open>atoi\<close> reads back the decimal text that
  \<open>itoa_buf\<close> wrote, whatever was in memory; for the least one the text is right, but reading it overflows.
\<close>

theorem atoi_itoa:
  assumes "unat buf + 12 < 4294967296"
  shows "\<exists>m' text. itoa_buf val buf 10 m = Some (buf, m') \<and> cstr m' buf text \<and> decimal_of text = sint val \<and>
    atoi m' buf = (if sint val = - 2147483648 then None else Some (sint val))"
proof (cases "sint val < 0")
  case True
  let ?ds = "rev (digits_rev 10 (unat (- val)))"
  have n: "int (unat (- val)) = - sint val" using unat_minus_negative [OF True] .
  have len: "length ?ds \<le> 10" using digits_rev_10_length [of "unat (- val)"] by simp
  let ?m = "stored buf ((45 # ?ds) @ [0]) m"
  have it: "itoa_buf val buf 10 m = Some (buf, ?m)" using itoa_negative [of buf val m] True len assms by (simp add: itoa_buf_itoa)
  have c: "cstr ?m buf (45 # ?ds)" using digits_rev_chars [of 10] len assms by (intro cstr_stored) auto
  have val: "num_of 10 ?ds = unat (- val)" using digits_rev_num_of [of 10] by simp
  have dig: "\<forall>c \<in> set ?ds. is_digit c" using digits_rev_digits by auto
  have "?ds \<noteq> []" using digits_rev_ne [of 10 "unat (- val)"] by simp
  then have at: "atoi ?m buf = (if unat (- val) < 2147483648 then Some (- int (unat (- val))) else None)"
    using atoi_minus [OF c dig] unfolding val by simp
  have "- 2147483648 \<le> sint val" using sint_ge [of val] by simp
  then have "(unat (- val) < 2147483648) = (sint val \<noteq> - 2147483648)" using n by linarith
  then have "atoi ?m buf = (if sint val = - 2147483648 then None else Some (sint val))" using at n by simp
  moreover have "decimal_of (45 # ?ds) = sint val" using n by (simp add: decimal_minus_digits)
  ultimately show ?thesis using it c by blast
next
  case False
  let ?ds = "rev (digits_rev 10 (unat val))"
  have n: "int (unat val) = sint val" using False sint_eq_uint_nonneg [of val] by simp
  have len: "length ?ds \<le> 10" using digits_rev_10_length [of "unat val"] by simp
  let ?m = "stored buf (?ds @ [0]) m"
  have it: "itoa_buf val buf 10 m = Some (buf, ?m)" using itoa_stored [of 10 buf val m] False len assms by (simp add: itoa_buf_itoa)
  have c: "cstr ?m buf ?ds" using digits_rev_chars [of 10] len assms by (intro cstr_stored) auto
  have val: "num_of 10 ?ds = unat val" using digits_rev_num_of [of 10] by simp
  have dig: "\<forall>c \<in> set ?ds. is_digit c" using digits_rev_digits by auto
  have "?ds \<noteq> []" using digits_rev_ne [of 10 "unat val"] by simp
  moreover have "sint val < 2147483648" using sint_lt [of val] by simp
  then have "unat val < 2147483648" using n by linarith
  ultimately have "atoi ?m buf = Some (sint val)" using atoi_plain [OF c dig] n unfolding val by simp
  moreover have "decimal_of ?ds = sint val" using n by (simp add: decimal_digits)
  ultimately show ?thesis using it c False by (intro exI [of _ ?m] exI [of _ ?ds]) simp
qed

theorem atoi_itoa_witness:
  "\<exists>m'. itoa_buf (- 42) 100 10 (\<lambda>_. 0xFF) = Some (100, m') \<and> atoi m' 100 = Some (- 42)"
  using atoi_itoa [of 100 "- 42" "\<lambda>_. 0xFF"] by auto

section \<open>No memory\<close>

text \<open>What a program can do with the allocator while it has no block: the pointers it holds are \<open>NULL\<close>.\<close>

datatype alloc_call = Malloc u32 | Calloc u32 u32 | Realloc_null u32 | Free_null

fun do_alloc :: "linkage \<Rightarrow> registers \<Rightarrow> alloc_call \<Rightarrow> libc \<Rightarrow> (u32 \<times> libc) option" where
  "do_alloc l regs (Malloc n) s = malloc l regs n s"
| "do_alloc l regs (Calloc a b) s = calloc l regs a b s"
| "do_alloc l regs (Realloc_null n) s = realloc l regs 0 n s"
| "do_alloc l regs Free_null s = do { s \<leftarrow> free 0 s; Some (0, s) }"

fun do_allocs :: "linkage \<Rightarrow> registers \<Rightarrow> alloc_call list \<Rightarrow> libc \<Rightarrow> (u32 list \<times> libc) option" where
  "do_allocs l regs [] s = Some ([], s)"
| "do_allocs l regs (c # cs) s =
     do { (r, s) \<leftarrow> do_alloc l regs c s; (rs, s) \<leftarrow> do_allocs l regs cs s; Some (r # rs, s) }"

definition fresh_libc :: "libc \<Rightarrow> bool" where
  "fresh_libc s \<longleftrightarrow> heap_head s = 0 \<and> (current_brk s = 0 \<or> current_brk s = - 1)"

lemma brk_fails: "call1 l regs 11 a s = Some (- 1, s)"
  by (simp add: call1_def dispatch)

lemma sbrk_fails:
  assumes "fresh_libc s"
  shows "\<exists>b. (b = 0 \<or> b = - 1) \<and> sbrk l regs n s = Some (- 1, s\<lparr>current_brk := b\<rparr>)"
  using assms by (auto simp: fresh_libc_def sbrk_def move_brk_def brk_fails Let_def intro!: exI [of _ "- 1"])

lemma malloc_fails:
  assumes "fresh_libc s"
  shows "\<exists>b. (b = 0 \<or> b = - 1) \<and> malloc l regs n s = Some (0, s\<lparr>current_brk := b\<rparr>)"
proof (cases "n = 0")
  case True
  then show ?thesis using assms by (intro exI [of _ "current_brk s"]) (simp add: malloc_def fresh_libc_def)
next
  case False
  let ?n = "(n + 3) AND NOT 3"
  obtain b where b: "b = 0 \<or> b = - 1" "sbrk l regs 0 s = Some (- 1, s\<lparr>current_brk := b\<rparr>)" using sbrk_fails [OF assms] by blast
  have f: "fresh_libc (s\<lparr>current_brk := b\<rparr>)" using assms b(1) by (simp add: fresh_libc_def)
  obtain c where c: "c = 0 \<or> c = - 1" "sbrk l regs (12 + ?n) (s\<lparr>current_brk := b\<rparr>) = Some (- 1, s\<lparr>current_brk := c\<rparr>)"
    using sbrk_fails [OF f, of l regs "12 + ?n"] by auto
  have "find_free_block ?n (heap_head s) s = Some 0" using assms by (simp add: fresh_libc_def find_free_block.simps)
  then show ?thesis using False b(2) c by (intro exI [of _ c]) (simp add: malloc_def request_space_def)
qed

text \<open>
  C39: no program can allocate. The allocator of the C library gets its memory by the system call \<open>brk\<close>, which the
  kernel does not implement: from the start of the program, whatever it asks for and however often, every
  \<open>malloc\<close>, \<open>calloc\<close> and \<open>realloc\<close> returns \<open>NULL\<close>, and the memory of the program is as it was.
\<close>

theorem malloc_never:
  assumes "heap_head s = 0" "current_brk s = 0"
  shows "\<exists>s'. do_allocs l regs cs s = Some (replicate (length cs) 0, s') \<and> lc_kernel s' = lc_kernel s"
proof -
  have one: "\<exists>b. (b = 0 \<or> b = - 1) \<and> do_alloc l regs c s = Some (0, s\<lparr>current_brk := b\<rparr>)" if "fresh_libc s" for c s
  proof (cases c)
    case (Calloc a b)
    then show ?thesis using malloc_fails [OF that, of l regs "a * b"] by (auto simp: calloc_def)
  next
    case Free_null
    then show ?thesis using that by (intro exI [of _ "current_brk s"]) (simp add: free_def fresh_libc_def)
  qed (use malloc_fails [OF that] in \<open>auto simp: realloc_def\<close>)
  have "fresh_libc s \<Longrightarrow> \<exists>b. do_allocs l regs cs s = Some (replicate (length cs) 0, s\<lparr>current_brk := b\<rparr>)" for s
  proof (induction cs arbitrary: s)
    case Nil
    then show ?case by (intro exI [of _ "current_brk s"]) simp
  next
    case (Cons c cs)
    obtain b where b: "b = 0 \<or> b = - 1" "do_alloc l regs c s = Some (0, s\<lparr>current_brk := b\<rparr>)" using one [OF Cons.prems] by blast
    have "fresh_libc (s\<lparr>current_brk := b\<rparr>)" using Cons.prems b(1) by (simp add: fresh_libc_def)
    then show ?case using Cons.IH [of "s\<lparr>current_brk := b\<rparr>"] b(2) by auto
  qed
  then obtain b where "do_allocs l regs cs s = Some (replicate (length cs) 0, s\<lparr>current_brk := b\<rparr>)"
    using assms by (auto simp: fresh_libc_def)
  then show ?thesis by (intro exI [of _ "s\<lparr>current_brk := b\<rparr>"]) simp
qed

theorem malloc_never_witness:
  "\<exists>s'. do_allocs example_link regs0 [Malloc 16, Calloc 4 4, Realloc_null 8]
     \<lparr>lc_kernel = one_open, current_brk = 0, heap_head = 0, rand_seed = 1\<rparr> = Some ([0, 0, 0], s')"
  using malloc_never [of "\<lparr>lc_kernel = one_open, current_brk = 0, heap_head = 0, rand_seed = 1\<rparr>" example_link regs0
      "[Malloc 16, Calloc 4 4, Realloc_null 8]"] by auto

end
