(* ===== verification/Libc_Streams.thy ===== *)
theory Libc_Streams
  imports Stdlib Stdio Vfs_Reading
begin

text \<open>
  Streams and unformatted input and output of the C library, \<open>libc/stdio.c\<close>. A \<open>FILE\<close> is four words of the
  memory of the program: descriptor, flags, error and end of file, at its address. Where the code uses a
  local character or array, \<open>sp\<close> is its address on the stack; addresses of constants are arguments, too.
\<close>

section \<open>Characters and lines\<close>

definition poke_byte :: "u32 \<Rightarrow> u8 \<Rightarrow> libc \<Rightarrow> libc" where
  "poke_byte a c s = on_umem (\<lambda>m. m(a := c)) s"

definition peek_byte :: "libc \<Rightarrow> u32 \<Rightarrow> u8" where
  "peek_byte s a = umem (lc_kernel s) a"

definition c_putchar :: "linkage \<Rightarrow> registers \<Rightarrow> u32 \<Rightarrow> u32 \<Rightarrow> libc \<Rightarrow> (u32 \<times> libc) option" where
  "c_putchar l regs sp c s =
     do { (n, s) \<leftarrow> c_write l regs 1 sp 1 (poke_byte sp (ucast c) s);
          Some (c, s) }"

text \<open>\<open>newline\<close> is the address of the constant \<open>"\n"\<close>.\<close>

definition c_puts :: "linkage \<Rightarrow> registers \<Rightarrow> u32 \<Rightarrow> u32 \<Rightarrow> libc \<Rightarrow> (u32 \<times> libc) option" where
  "c_puts l regs newline str s =
     do { len \<leftarrow> strlen (umem (lc_kernel s)) str;
          (n, s) \<leftarrow> c_write l regs 1 str len s;
          (n, s) \<leftarrow> c_write l regs 1 newline 1 s;
          Some (0, s) }"

definition c_getchar :: "linkage \<Rightarrow> registers \<Rightarrow> u32 \<Rightarrow> libc \<Rightarrow> (u32 \<times> libc) option" where
  "c_getchar l regs sp s =
     do { (n, s) \<leftarrow> c_read l regs 0 sp 1 s;
          if sint n \<le> 0 then Some (- 1, s) else Some (ucast (peek_byte s sp), s) }"

section \<open>Streams\<close>

abbreviation (input) FILE_fd :: "u32 \<Rightarrow> u32" where "FILE_fd stream \<equiv> stream"
abbreviation (input) FILE_flags :: "u32 \<Rightarrow> u32" where "FILE_flags stream \<equiv> stream + 4"
abbreviation (input) FILE_error :: "u32 \<Rightarrow> u32" where "FILE_error stream \<equiv> stream + 8"
abbreviation (input) FILE_eof :: "u32 \<Rightarrow> u32" where "FILE_eof stream \<equiv> stream + 12"

text \<open>The addresses of \<open>_stdin\<close>, \<open>_stdout\<close> and \<open>_stderr\<close>.\<close>

record std_streams =
  stdin_addr :: u32
  stdout_addr :: u32
  stderr_addr :: u32

definition file_struct :: "u32 \<Rightarrow> u32 \<Rightarrow> u32 \<Rightarrow> libc \<Rightarrow> libc" where
  "file_struct f fd flags s =
     poke (FILE_eof f) 0 (poke (FILE_error f) 0 (poke (FILE_flags f) flags (poke (FILE_fd f) fd s)))"

text \<open>What the program starts with.\<close>

definition std_init :: "std_streams \<Rightarrow> libc \<Rightarrow> libc" where
  "std_init st s = file_struct (stderr_addr st) 2 1 (file_struct (stdout_addr st) 1 1 (file_struct (stdin_addr st) 0 0 s))"

definition mode_flags :: "u8 list \<Rightarrow> u32 option" where
  "mode_flags mode =
     (if mode = [114] then Some 0
      else if mode = [119] then Some (0x1 OR 0x40 OR 0x200)
      else if mode = [97] then Some (0x1 OR 0x40 OR 0x400)
      else if mode = [114, 43] then Some 0x2
      else if mode = [119, 43] then Some (0x2 OR 0x40 OR 0x200)
      else if mode = [97, 43] then Some (0x2 OR 0x40 OR 0x400)
      else None)"

definition fopen :: "linkage \<Rightarrow> registers \<Rightarrow> u32 \<Rightarrow> u32 \<Rightarrow> libc \<Rightarrow> (u32 \<times> libc) option" where
  "fopen l regs path mode s =
     do { text \<leftarrow> c_string mode (umem (lc_kernel s));
          case mode_flags text of None \<Rightarrow> Some (0, s)
          | Some flags \<Rightarrow> do {
              (fd, s) \<leftarrow> c_open l regs path flags s;
              if sint fd < 0 then Some (0, s)
              else do {
                (f, s) \<leftarrow> malloc l regs 16 s;
                if f = 0 then do { (r, s) \<leftarrow> c_close l regs fd s; Some (0, s) }
                else Some (f, file_struct f fd flags s) } } }"

definition fclose :: "linkage \<Rightarrow> registers \<Rightarrow> std_streams \<Rightarrow> u32 \<Rightarrow> libc \<Rightarrow> (u32 \<times> libc) option" where
  "fclose l regs st stream s =
     (if stream = 0 then Some (- 1, s)
      else do { (ret, s) \<leftarrow> c_close l regs (peek s (FILE_fd stream)) s;
                s \<leftarrow> (if stream \<noteq> stdin_addr st \<and> stream \<noteq> stdout_addr st \<and> stream \<noteq> stderr_addr st
                     then free stream s else Some s);
                Some (ret, s) })"

definition fread :: "linkage \<Rightarrow> registers \<Rightarrow> u32 \<Rightarrow> u32 \<Rightarrow> u32 \<Rightarrow> u32 \<Rightarrow> libc \<Rightarrow> (u32 \<times> libc) option" where
  "fread l regs ptr size' nmemb stream s =
     (if stream = 0 \<or> size' = 0 \<or> nmemb = 0 then Some (0, s)
      else do { (n, s) \<leftarrow> c_read l regs (peek s (FILE_fd stream)) ptr (size' * nmemb) s;
                if sint n < 0 then Some (0, poke (FILE_error stream) 1 s)
                else if n = 0 then Some (0, poke (FILE_eof stream) 1 s)
                else Some (n div size', s) })"

definition fwrite :: "linkage \<Rightarrow> registers \<Rightarrow> u32 \<Rightarrow> u32 \<Rightarrow> u32 \<Rightarrow> u32 \<Rightarrow> libc \<Rightarrow> (u32 \<times> libc) option" where
  "fwrite l regs ptr size' nmemb stream s =
     (if stream = 0 \<or> size' = 0 \<or> nmemb = 0 then Some (0, s)
      else do { (n, s) \<leftarrow> c_write l regs (peek s (FILE_fd stream)) ptr (size' * nmemb) s;
                if sint n < 0 then Some (0, poke (FILE_error stream) 1 s) else Some (n div size', s) })"

definition fgetc :: "linkage \<Rightarrow> registers \<Rightarrow> u32 \<Rightarrow> u32 \<Rightarrow> libc \<Rightarrow> (u32 \<times> libc) option" where
  "fgetc l regs sp stream s =
     do { (n, s) \<leftarrow> c_read l regs (peek s (FILE_fd stream)) sp 1 s;
          if sint n \<le> 0 then Some (- 1, poke (FILE_eof stream) 1 s) else Some (ucast (peek_byte s sp), s) }"

definition fputc :: "linkage \<Rightarrow> registers \<Rightarrow> u32 \<Rightarrow> u32 \<Rightarrow> u32 \<Rightarrow> libc \<Rightarrow> (u32 \<times> libc) option" where
  "fputc l regs sp c stream s =
     do { let s = poke_byte sp (ucast c) s;
          (n, s) \<leftarrow> c_write l regs (peek s (FILE_fd stream)) sp 1 s;
          if sint n \<le> 0 then Some (- 1, poke (FILE_error stream) 1 s) else Some (c, s) }"

text \<open>The loop of \<open>fgets\<close>; \<open>NULL\<close> is \<open>None\<close>.\<close>

partial_function (option) fgets_loop ::
  "linkage \<Rightarrow> registers \<Rightarrow> u32 \<Rightarrow> u32 \<Rightarrow> int \<Rightarrow> u32 \<Rightarrow> int \<Rightarrow> libc \<Rightarrow> (int option \<times> libc) option" where
  "fgets_loop l regs sp buf size' stream i s =
     (if i < size' - 1
      then do { (c, s) \<leftarrow> fgetc l regs sp stream s;
                if c = - 1 then Some (if i = 0 then None else Some i, s)
                else if c = 10 then Some (Some (i + 1), poke_byte (buf + of_int i) (ucast c) s)
                else fgets_loop l regs sp buf size' stream (i + 1) (poke_byte (buf + of_int i) (ucast c) s) }
      else Some (Some i, s))"

definition fgets :: "linkage \<Rightarrow> registers \<Rightarrow> u32 \<Rightarrow> u32 \<Rightarrow> int \<Rightarrow> u32 \<Rightarrow> libc \<Rightarrow> (u32 \<times> libc) option" where
  "fgets l regs sp buf size' stream s =
     (if buf = 0 \<or> size' \<le> 0 \<or> stream = 0 then Some (0, s)
      else do { (r, s) \<leftarrow> fgets_loop l regs sp buf size' stream 0 s;
                case r of None \<Rightarrow> Some (0, s) | Some i \<Rightarrow> Some (buf, poke_byte (buf + of_int i) 0 s) })"

definition fputs :: "linkage \<Rightarrow> registers \<Rightarrow> u32 \<Rightarrow> u32 \<Rightarrow> libc \<Rightarrow> (u32 \<times> libc) option" where
  "fputs l regs str stream s =
     do { len \<leftarrow> strlen (umem (lc_kernel s)) str;
          (n, s) \<leftarrow> c_write l regs (peek s (FILE_fd stream)) str len s;
          if sint n < 0 then Some (- 1, s) else Some (n, s) }"

text \<open>The last lines of \<open>printf\<close> and \<open>fprintf\<close>: the text, formatted in an array of 512 bytes, is written.\<close>

definition write_text :: "linkage \<Rightarrow> registers \<Rightarrow> u32 \<Rightarrow> u32 \<Rightarrow> u8 list \<Rightarrow> libc \<Rightarrow> (u32 \<times> libc) option" where
  "write_text l regs sp fd text s = c_write l regs fd sp (of_nat (length text)) (on_umem (stored sp (text @ [0])) s)"

definition c_printf :: "linkage \<Rightarrow> registers \<Rightarrow> u32 \<Rightarrow> u8 list \<Rightarrow> arg list \<Rightarrow> libc \<Rightarrow> (u32 \<times> libc) option" where
  "c_printf l regs sp fmt args s =
     do { text \<leftarrow> printf (fetch (umem (lc_kernel s)) sp 512) fmt args;
          write_text l regs sp 1 text s }"

definition c_fprintf :: "linkage \<Rightarrow> registers \<Rightarrow> u32 \<Rightarrow> u32 \<Rightarrow> u8 list \<Rightarrow> arg list \<Rightarrow> libc \<Rightarrow> (u32 \<times> libc) option" where
  "c_fprintf l regs sp stream fmt args s =
     do { text \<leftarrow> fprintf (fetch (umem (lc_kernel s)) sp 512) fmt args;
          write_text l regs sp (peek s (FILE_fd stream)) text s }"

section \<open>Reading through a stream\<close>

text \<open>The memory of the program outside some addresses.\<close>

definition same_mem :: "u32 set \<Rightarrow> libc \<Rightarrow> libc \<Rightarrow> bool" where
  "same_mem A s s' \<longleftrightarrow> (\<forall>a. a \<notin> A \<longrightarrow> umem (lc_kernel s') a = umem (lc_kernel s) a)"

lemma same_memD: "same_mem A s s' \<Longrightarrow> a \<notin> A \<Longrightarrow> umem (lc_kernel s') a = umem (lc_kernel s) a"
  by (simp add: same_mem_def)

lemma same_mem_trans: "same_mem A s t \<Longrightarrow> same_mem B t u \<Longrightarrow> same_mem (A \<union> B) s u"
  by (simp add: same_mem_def)

lemma same_mem_mono: "same_mem A s t \<Longrightarrow> A \<subseteq> B \<Longrightarrow> same_mem B s t"
  by (auto simp: same_mem_def)

lemma peek_same:
  assumes "same_mem A s s'" "unat a + 4 \<le> 4294967296" "span a 4 \<inter> A = {}"
  shows "peek s' a = peek s a"
proof -
  have "umem (lc_kernel s') (a + of_nat i) = umem (lc_kernel s) (a + of_nat i)" if "i < 4" for i
  proof -
    have "unat (a + of_nat i - a) = i" using that by (simp add: unat_of_nat_u32)
    then have "a + of_nat i \<in> span a 4" using that assms(2) by (subst span_iff) simp_all
    then show ?thesis using assms(1,3) by (intro same_memD) auto
  qed
  then have "fetch (umem (lc_kernel s')) a 4 = fetch (umem (lc_kernel s)) a 4" by (intro nth_equalityI) simp_all
  then show ?thesis by (simp add: peek_def)
qed

lemma reads_umem: "reads fd pos p bs (k\<lparr>umem := m\<rparr>) = reads fd pos p bs k" for k :: kernel
  using file_holds_same [of "k\<lparr>umem := m\<rparr>" k p bs] by (simp add: reads_def fd_open_def)

lemma reads_poke [simp]:
  "reads fd pos p bs (lc_kernel (poke a w s)) = reads fd pos p bs (lc_kernel s)"
  "reads fd pos p bs (lc_kernel (poke_byte a c s)) = reads fd pos p bs (lc_kernel s)"
  by (simp_all add: poke_def poke_byte_def on_umem_def reads_umem)

lemma same_mem_poke: "same_mem (span a 4) s (poke a w s)"
  by (simp add: same_mem_def poke_def stored_outside)

lemma same_mem_poke_byte: "same_mem {a} s (poke_byte a c s)"
  by (simp add: same_mem_def poke_byte_def on_umem_def)

lemma umem_upd_fd [simp]: "umem (upd_fd fd f k) = umem k" "console (upd_fd fd f k) = console k"
  by (simp_all add: upd_fd_def)

lemma read_stream:
  assumes "reads (sint fd) pos p bs (lc_kernel s)" "unat n \<le> 1048576" "unat buf + unat n \<le> 4294967296"
  defines "out \<equiv> take (unat n) (drop pos bs)"
  obtains s' where "c_read l regs fd buf n s = Some (of_nat (length out), s')"
    "umem (lc_kernel s') = stored buf out (umem (lc_kernel s))" "reads (sint fd) (pos + length out) p bs (lc_kernel s')"
    "console (lc_kernel s') = console (lc_kernel s)"
proof -
  let ?k = "lc_kernel s"
  let ?u = "upd_fd (sint fd) (\<lambda>d. d\<lparr>f_offset := f_offset d + of_nat (length out)\<rparr>) ?k"
  have r: "vfs_read (sint fd) n ?k = Some (Some out, ?u)" "reads (sint fd) (pos + length out) p bs ?u"
    using fd_read_file [OF assms(1,2)] unfolding out_def by simp_all
  have len: "unat buf + length out \<le> 4294967296" using assms(3) by (simp add: out_def)
  let ?s = "s\<lparr>lc_kernel := ?u\<lparr>umem := stored buf out (umem ?k)\<rparr>\<rparr>"
  have "c_read l regs fd buf n s = Some (of_nat (length out), ?s)"
    using r(1) len by (simp add: c_read_def call3_def dispatch sys_read_def copy_out_def)
  then show thesis by (rule that [where s' = ?s]) (simp_all add: r(2) reads_umem)
qed

text \<open>One character: either the next byte of the file, or the end.\<close>

lemma fgetc_step:
  assumes "reads (sint (peek s stream)) pos p bs (lc_kernel s)"
  obtains (byte) s' where "pos < length bs" "fgetc l regs sp stream s = Some (ucast (bs ! pos), s')"
      "same_mem {sp} s s'" "reads (sint (peek s stream)) (pos + 1) p bs (lc_kernel s')"
      "console (lc_kernel s') = console (lc_kernel s)"
  | (eof) s' where "pos = length bs" "fgetc l regs sp stream s = Some (- 1, s')"
      "same_mem (span (FILE_eof stream) 4) s s'" "reads (sint (peek s stream)) pos p bs (lc_kernel s')"
      "console (lc_kernel s') = console (lc_kernel s)"
proof -
  let ?fd = "peek s stream" and ?out = "take 1 (drop pos bs)"
  have "unat sp + 1 \<le> 4294967296" using unat_u32_less [of sp] by linarith
  then obtain s' where s': "c_read l regs ?fd sp 1 s = Some (of_nat (length ?out), s')"
    "umem (lc_kernel s') = stored sp ?out (umem (lc_kernel s))" "reads (sint ?fd) (pos + length ?out) p bs (lc_kernel s')"
    "console (lc_kernel s') = console (lc_kernel s)"
    using read_stream [OF assms, of 1 sp l regs] by auto
  have pos: "pos \<le> length bs" using assms by (simp add: reads_def)
  show thesis
  proof (cases "pos = length bs")
    case True
    then have out: "?out = []" by simp
    show thesis
      by (rule eof [of "poke (FILE_eof stream) 1 s'"])
        (use s' True in \<open>simp_all add: out fgetc_def same_mem_def poke_def stored_outside reads_umem\<close>)
  next
    case False
    then have lt: "pos < length bs" using pos by simp
    then have out: "?out = [bs ! pos]" by (simp add: take_Suc Cons_nth_drop_Suc [symmetric])
    have m: "umem (lc_kernel s') = (umem (lc_kernel s))(sp := bs ! pos)"
      using s'(2) unfolding out by (auto simp: fun_eq_iff stored_def span_def word_unat_eq_iff)
    show thesis
      by (rule byte [of s']) (use s'(1,3,4) lt in \<open>simp_all add: out fgetc_def same_mem_def m peek_byte_def\<close>)
  qed
qed

section \<open>Lines\<close>

text \<open>The line a text begins with: up to its newline, of at most \<open>n\<close> characters.\<close>

fun line_of :: "nat \<Rightarrow> u8 list \<Rightarrow> u8 list" where
  "line_of 0 cs = []"
| "line_of (Suc n) [] = []"
| "line_of (Suc n) (c # cs) = (if c = 10 then [c] else c # line_of n cs)"

lemma line_of_bounds: "length (line_of n cs) \<le> n" "line_of n cs = take (length (line_of n cs)) cs"
  by (induction n cs rule: line_of.induct) auto

text \<open>The array, the stream and the local character are apart in memory.\<close>

definition apart :: "u32 \<Rightarrow> u32 \<Rightarrow> u32 \<Rightarrow> nat \<Rightarrow> bool" where
  "apart stream sp buf m \<longleftrightarrow> unat buf + m \<le> 4294967296 \<and> unat stream + 16 \<le> 4294967296 \<and> sp \<notin> span buf m \<and>
     sp \<notin> span stream 16 \<and> span stream 16 \<inter> span buf m = {}"

lemma stream_parts:
  assumes "unat stream + 16 \<le> 4294967296"
  shows "span (FILE_eof stream) 4 \<subseteq> span stream 16" "span stream 4 \<subseteq> span stream 16"
    "span stream 4 \<inter> span (FILE_eof stream) 4 = {}"
proof -
  have "unat (stream + 12) = unat stream + 12" using assms by (subst unat_add_u32) simp_all
  then show "span (FILE_eof stream) 4 \<subseteq> span stream 16" "span stream 4 \<subseteq> span stream 16"
    "span stream 4 \<inter> span (FILE_eof stream) 4 = {}" by (auto simp: span_def)
qed

lemma fd_kept:
  assumes "apart stream sp buf m" "same_mem A s s'" "A \<subseteq> {sp} \<union> span (FILE_eof stream) 4 \<union> span buf m"
  shows "peek s' stream = peek s stream"
proof (rule peek_same [OF assms(2)])
  have st: "unat stream + 16 \<le> 4294967296" and d: "sp \<notin> span stream 16" "span stream 16 \<inter> span buf m = {}"
    using assms(1) by (simp_all add: apart_def)
  show "unat stream + 4 \<le> 4294967296" using st by simp
  show "span stream 4 \<inter> A = {}" using assms(3) d stream_parts [OF st] by blast
qed

lemma ucast_byte: "(ucast (c :: u8) :: u32) \<noteq> - 1" "(ucast c :: u32) = 10 \<longleftrightarrow> c = 10" "(ucast (ucast c :: u32) :: u8) = c"
proof -
  have "unat (ucast c :: u32) = unat c" by (transfer; simp add: take_bit_int_eq_self)
  also have "\<dots> < 2 ^ LENGTH(8)" by (rule unsigned_less)
  finally have "unat (ucast c :: u32) < 256" by simp
  moreover have "unat (- 1 :: u32) = 4294967295" by (simp add: unsigned_minus_1_eq_mask mask_eq_exp_minus_1)
  ultimately show "(ucast c :: u32) \<noteq> - 1" by force
  show "(ucast c :: u32) = 10 \<longleftrightarrow> c = 10" by (transfer; auto simp: take_bit_int_eq_self)
  show "(ucast (ucast c :: u32) :: u8) = c" by (rule bit_word_eqI) (simp add: bit_ucast_iff)
qed

lemma fetch_Suc: "fetch m a (Suc n) = m a # fetch m (a + 1) n"
proof (rule nth_equalityI)
  fix i
  assume "i < length (fetch m a (Suc n))"
  then show "fetch m a (Suc n) ! i = (m a # fetch m (a + 1) n) ! i" by (cases i) (simp_all add: add.assoc)
qed simp

lemma fetch_upd_other: "\<forall>i < n. a \<noteq> p + of_nat i \<Longrightarrow> fetch (m(a := c)) p n = fetch m p n"
  by (auto simp: fetch_def)

lemma fgets_loop_run:
  assumes "apart stream sp buf m" "m = Suc (i + n)" "reads (sint (peek s stream)) pos p bs (lc_kernel s)"
    and "line = line_of n (drop pos bs)"
  shows "\<exists>s'. fgets_loop l regs sp buf (int m) stream (int i) s =
      Some (if i = 0 \<and> 0 < n \<and> line = [] then None else Some (int (i + length line)), s') \<and>
    same_mem ({sp} \<union> span (FILE_eof stream) 4 \<union> span (buf + of_nat i) (length line)) s s' \<and>
    fetch (umem (lc_kernel s')) (buf + of_nat i) (length line) = line \<and>
    reads (sint (peek s stream)) (pos + length line) p bs (lc_kernel s') \<and> console (lc_kernel s') = console (lc_kernel s)"
  using assms
proof (induction n arbitrary: i pos s line)
  case 0
  then show ?case by (subst fgets_loop.simps) (simp add: same_mem_def fetch_def)
next
  case (Suc n)
  have lt: "int i < int m - 1" using Suc.prems(2) by simp
  have pos: "pos \<le> length bs" using Suc.prems(3) by (simp add: reads_def)
  have ap: "unat buf + m \<le> 4294967296" "unat stream + 16 \<le> 4294967296" "sp \<notin> span buf m" "span stream 16 \<inter> span buf m = {}"
    using Suc.prems(1) by (simp_all add: apart_def)
  let ?a = "buf + of_nat i"
  have a: "unat ?a = unat buf + i" using ap(1) Suc.prems(2) by (subst unat_add_u32) (simp_all add: unat_of_nat_u32)
  show ?case
  proof (cases rule: fgetc_step [OF Suc.prems(3), of l regs sp, case_names byte eof])
    case (eof t)
    then have "drop pos bs = []" by simp
    then show ?thesis using eof lt Suc.prems(4)
      by (subst fgets_loop.simps) (auto simp: fetch_def intro: same_mem_mono)
  next
    case (byte t)
    let ?c = "bs ! pos"
    let ?t = "poke_byte ?a ?c t"
    have rest: "drop pos bs = ?c # drop (Suc pos) bs" using byte(1) by (simp add: Cons_nth_drop_Suc)
    have st: "same_mem ({sp} \<union> {?a}) s ?t" by (rule same_mem_trans [OF byte(3) same_mem_poke_byte])
    have "?a \<in> span buf m" using a Suc.prems(2) by (simp add: span_def)
    then have fd: "peek ?t stream = peek s stream" by (intro fd_kept [OF Suc.prems(1) st]) auto
    have rd: "reads (sint (peek ?t stream)) (pos + 1) p bs (lc_kernel ?t)" using byte(4) fd by simp
    have con: "console (lc_kernel ?t) = console (lc_kernel s)" using byte(5) by (simp add: poke_byte_def on_umem_def)
    have at: "umem (lc_kernel ?t) ?a = ?c" by (simp add: poke_byte_def on_umem_def)
    have one: "span ?a (Suc 0) = {?a}" by (auto simp: span_def word_unat_eq_iff)
    show ?thesis
    proof (cases "?c = 10")
      case True
      then have line: "line = [?c]" using rest Suc.prems(4) by simp
      have "fgets_loop l regs sp buf (int m) stream (int i) s = Some (Some (int i + 1), ?t)"
        using byte(2) lt True by (subst fgets_loop.simps) (simp add: ucast_byte)
      then show ?thesis using st byte(4) con at unfolding line
        by (intro exI [of _ ?t]) (auto simp: one fetch_def intro: same_mem_mono)
    next
      case False
      let ?line = "line_of n (drop (Suc pos) bs)"
      have line: "line = ?c # ?line" using rest False Suc.prems(4) by simp
      have next_a: "buf + of_nat (Suc i) = ?a + 1" by simp
      obtain s' where s': "fgets_loop l regs sp buf (int m) stream (int (Suc i)) ?t =
          Some (Some (int (Suc i + length ?line)), s')"
        "same_mem ({sp} \<union> span (FILE_eof stream) 4 \<union> span (?a + 1) (length ?line)) ?t s'"
        "fetch (umem (lc_kernel s')) (?a + 1) (length ?line) = ?line"
        "reads (sint (peek s stream)) (pos + 1 + length ?line) p bs (lc_kernel s')"
        "console (lc_kernel s') = console (lc_kernel s)"
        using Suc.IH [OF Suc.prems(1) _ rd, of "Suc i" ?line] Suc.prems(2) fd con unfolding next_a by auto
      have len: "i + Suc (length ?line) < m" using line_of_bounds(1) [of n] Suc.prems(2) by (simp add: le_imp_less_Suc)
      have a1: "unat (?a + 1) = unat ?a + 1" using a ap(1) len by (subst unat_add_u32) simp_all
      have "fgets_loop l regs sp buf (int m) stream (int i) s = Some (Some (int (i + length line)), s')"
        using byte(2) lt False s'(1) unfolding line
        by (subst fgets_loop.simps) (simp add: ucast_byte add.commute [of 1 "int i"])
      moreover have "same_mem ({sp} \<union> span (FILE_eof stream) 4 \<union> span ?a (length line)) s s'"
        by (rule same_mem_mono [OF same_mem_trans [OF st s'(2)]]) (use a1 in \<open>auto simp: line span_def\<close>)
      moreover have "?a \<notin> {sp} \<union> span (FILE_eof stream) 4 \<union> span (?a + 1) (length ?line)"
      proof -
        have "?a \<notin> span stream 16" "?a \<noteq> sp" using \<open>?a \<in> span buf m\<close> ap(3,4) by auto
        then show ?thesis using stream_parts(1) [OF ap(2)] a1 by (auto simp: span_def)
      qed
      then have "umem (lc_kernel s') ?a = ?c" using same_memD [OF s'(2)] at by simp
      then have "fetch (umem (lc_kernel s')) ?a (length line) = line"
        using s'(3) unfolding line by (simp add: fetch_Suc)
      ultimately show ?thesis using s'(4,5) unfolding line by (intro exI [of _ s']) (simp add: add.assoc)
    qed
  qed
qed

text \<open>
  C30: reading lines. On a stream whose descriptor is at position \<open>pos\<close> of a file, \<open>fgets\<close> with an array of
  \<open>m\<close> characters returns \<open>NULL\<close> exactly at the end of the file (with room for a character); otherwise it
  returns the array, which holds the next line of the file, with its newline, cut to \<open>m - 1\<close> characters,
  and a NUL, and the descriptor is behind what was read. The memory of the program is otherwise as before,
  but for the local character and the end-of-file mark of the stream.
\<close>

theorem fgets_line:
  assumes "apart stream sp buf m" "0 < m" "buf \<noteq> 0" "stream \<noteq> 0" "reads (sint (peek s stream)) pos p bs (lc_kernel s)"
  defines "line \<equiv> line_of (m - 1) (drop pos bs)"
  shows "\<exists>s'. fgets l regs sp buf (int m) stream s = Some (if pos = length bs \<and> 1 < m then 0 else buf, s') \<and>
    (pos < length bs \<or> m = 1 \<longrightarrow> fetch (umem (lc_kernel s')) buf (Suc (length line)) = line @ [0]) \<and>
    same_mem ({sp} \<union> span (FILE_eof stream) 4 \<union> span buf (Suc (length line))) s s' \<and>
    reads (sint (peek s stream)) (pos + length line) p bs (lc_kernel s') \<and> console (lc_kernel s') = console (lc_kernel s)"
proof -
  let ?n = "length line"
  have ap: "unat buf + m \<le> 4294967296" using assms(1) by (simp add: apart_def)
  have len: "?n < m" using line_of_bounds(1) [of "m - 1" "drop pos bs"] assms(2) by (simp add: line_def)
  obtain s1 where s1: "fgets_loop l regs sp buf (int m) stream 0 s =
      Some (if 0 < m - 1 \<and> line = [] then None else Some (int ?n), s1)"
    "same_mem ({sp} \<union> span (FILE_eof stream) 4 \<union> span buf ?n) s s1" "fetch (umem (lc_kernel s1)) buf ?n = line"
    "reads (sint (peek s stream)) (pos + ?n) p bs (lc_kernel s1)" "console (lc_kernel s1) = console (lc_kernel s)"
    using fgets_loop_run [OF assms(1) _ assms(5), of 0 "m - 1" line l regs] assms(2) by (auto simp: line_def)
  have pos: "pos \<le> length bs" using assms(5) by (simp add: reads_def)
  have null: "0 < m - 1 \<and> line = [] \<longleftrightarrow> pos = length bs \<and> 1 < m"
    using pos by (cases "drop pos bs"; cases "m - 1") (auto simp: line_def)
  show ?thesis
  proof (cases "pos = length bs \<and> 1 < m")
    case True
    then have "fgets l regs sp buf (int m) stream s = Some (0, s1)"
      using s1(1) null assms(2-4) by (simp add: fgets_def)
    moreover have "same_mem ({sp} \<union> span (FILE_eof stream) 4 \<union> span buf (Suc ?n)) s s1"
      using s1(2) by (rule same_mem_mono) (auto simp: span_def)
    ultimately show ?thesis using s1(4,5) True by auto
  next
    case False
    let ?t = "poke_byte (buf + of_nat ?n) 0 s1"
    have at: "umem (lc_kernel ?t) = (umem (lc_kernel s1))(buf + of_nat ?n := 0)" by (simp add: poke_byte_def on_umem_def)
    have a: "unat (buf + of_nat ?n) = unat buf + ?n" using ap len by (subst unat_add_u32) (simp_all add: unat_of_nat_u32)
    have "fgets l regs sp buf (int m) stream s = Some (buf, ?t)"
      using s1(1) null False assms(2-4) by (simp add: fgets_def)
    moreover have ne: "(of_nat i :: u32) \<noteq> of_nat ?n" if "i < ?n" for i
    proof -
      have "unat (of_nat i :: u32) \<noteq> unat (of_nat ?n :: u32)"
        using that ap len by (subst (1 2) unat_of_nat_u32) simp_all
      then show ?thesis by metis
    qed
    have "fetch (umem (lc_kernel ?t)) buf ?n = line"
      using s1(3) ne unfolding at by (subst fetch_upd_other) force+
    then have "fetch (umem (lc_kernel ?t)) buf (Suc ?n) = line @ [0]" by (simp add: fetch_def at)
    moreover have "same_mem ({sp} \<union> span (FILE_eof stream) 4 \<union> span buf (Suc ?n)) s ?t"
      by (rule same_mem_mono [OF same_mem_trans [OF s1(2) same_mem_poke_byte]]) (use a in \<open>auto simp: span_def\<close>)
    moreover have "console (lc_kernel ?t) = console (lc_kernel s)" using s1(5) by (simp add: poke_byte_def on_umem_def)
    ultimately show ?thesis using s1(4) False by auto
  qed
qed

text \<open>
  No stream can be opened. The structure of a stream comes from \<open>malloc\<close>, for which the kernel has no memory:
  from the start of the program, whatever the path and the mode are, \<open>fopen\<close> returns \<open>NULL\<close> once the file is
  open, and the table of descriptors is as before, for it closes the file again.
\<close>

theorem fopen_never:
  assumes "heap_head s = 0" "current_brk s = 0" "fd_ok (lc_kernel s)"
    and "c_string mode (umem (lc_kernel s)) = Some md" "mode_flags md = Some flags" "c_open l regs path flags s = Some (fd, s1)"
  shows "\<exists>s'. fopen l regs path mode s = Some (0, s') \<and> fd_table (lc_kernel s') = fd_table (lc_kernel s)"
proof -
  let ?k = "lc_kernel s"
  obtain name r k1 where k1: "vfs_open name flags ?k = Some (r, k1)" "fd = of_int r" "s1 = s\<lparr>lc_kernel := k1\<rparr>"
    using assms(6) by (auto simp: c_open_def call2_def dispatch sys_open_def bind_eq_Some_conv)
  consider "r = - 1" "fd_table k1 = fd_table ?k"
    | n d where "n < 64" "r = int n" "\<not> f_in_use (fd_table ?k ! n)" "fd_table k1 = (fd_table ?k)[n := d]" "f_in_use d"
    using vfs_open_cases [OF k1(1)] assms(3) by (auto simp: fd_ok_def)
  then show ?thesis
  proof cases
    case 1
    then have "sint fd < 0" using k1(2) by simp
    then show ?thesis using assms(4-6) 1(2) k1(3) by (simp add: fopen_def)
  next
    case (2 n d)
    have "fd = of_nat n" "unat (of_nat n :: u32) = n" using k1(2) 2(1,2) by (simp_all add: unat_of_nat_u32)
    then have fd: "sint fd = int n" using sint_small [of fd] 2(1) by (simp add: uint_nat)
    obtain b where m: "malloc l regs 16 s1 = Some (0, s1\<lparr>current_brk := b\<rparr>)"
      using malloc_fails [of s1 l regs 16] k1(3) assms(1,2) by (auto simp: fresh_libc_def)
    have len: "length (fd_table ?k) = 64" and free: "fd_table ?k ! n = free_fd"
      using assms(3) 2(1,3) by (auto simp: fd_ok_def dest!: bspec [of _ _ "fd_table ?k ! n"] split: if_splits)
    let ?t = "s1\<lparr>current_brk := b, lc_kernel := upd_fd (int n) (\<lambda>_. free_fd) k1\<rparr>"
    have "vfs_close (int n) k1 = (0, upd_fd (int n) (\<lambda>_. free_fd) k1)"
      using 2(1,4,5) len by (simp add: vfs_close_def fd_open_def)
    then have "c_close l regs fd (s1\<lparr>current_brk := b\<rparr>) = Some (0, ?t)"
      using fd k1(3) by (simp add: c_close_def call1_def syscall1_def syscall_handler_def syscall_table_def sys_close_def)
    then have "fopen l regs path mode s = Some (0, ?t)" using assms(4-6) fd m by (simp add: fopen_def)
    moreover have "fd_table (lc_kernel ?t) = fd_table ?k"
      using 2(1,4) free len by (simp add: upd_fd_table list_update_same_conv)
    ultimately show ?thesis by blast
  qed
qed

text \<open>A program with the mode "r" at address 0x200 and an empty path at 0, and one file open.\<close>

definition open_libc :: libc where
  "open_libc = \<lparr>lc_kernel = one_open\<lparr>umem := (\<lambda>a. if a = 0x200 then 114 else 0)\<rparr>, current_brk = 0, heap_head = 0, rand_seed = 1\<rparr>"

theorem fopen_never_witness:
  "\<exists>s'. fopen example_link regs0 0 0x200 open_libc = Some (0, s') \<and> fd_table (lc_kernel s') = fd_table one_open"
proof -
  let ?k = "lc_kernel open_libc"
  have root: "tree_root (nodes ?k 0x20000C)" "vfs_root ?k = 0x20000C"
    by (simp_all add: open_libc_def one_open_def tree_vfs_def vfs.defs fsys.defs tree_root_def zero_node_def)
  have tab: "fd_table ?k = \<lparr>f_node = 0x20000C, f_offset = 0, f_flags = 0, f_in_use = True\<rparr> # replicate 63 free_fd"
    "fd_table one_open = fd_table ?k" by (simp_all add: open_libc_def one_open_def vfs.defs)
  have ok: "fd_ok ?k" by (auto simp: fd_ok_def tab free_fd_def)
  have mem: "umem ?k = (\<lambda>a. if a = 0x200 then 114 else 0)" by (simp add: open_libc_def)
  have "vfs_resolve_path [] ?k = Some (0x20000C, ?k)"
    using root by (simp add: resolve_walk vfs_check_mount_def tree_root_def)
  moreover have "fd_alloc ?k = 1" by (simp add: fd_alloc_def tab free_fd_def numeral_eq_Suc)
  ultimately obtain k1 where o: "vfs_open [] 0 ?k = Some (1, k1)"
    using root by (simp add: vfs_open_def tree_root_def dorifs_vfs_open_def Let_def)
  have "cstr (umem ?k) 0 []" "cstr (umem ?k) 0x200 [114]" by (simp_all add: mem cstr_def bytes_in_def less_Suc_eq)
  then have str: "c_string 0 (umem ?k) = Some []" "c_string 0x200 (umem ?k) = Some [114]"
    using strlen_cstr [of "umem ?k" 0 "[]"] strlen_cstr [of "umem ?k" "0x200" "[114]"]
    by (simp_all add: c_string_def fetch_def) (simp add: mem)
  then have "c_open example_link regs0 0 0 open_libc = Some (1, open_libc\<lparr>lc_kernel := k1\<rparr>)"
    using o by (simp add: c_open_def call2_def dispatch sys_open_def)
  moreover have "heap_head open_libc = 0" "current_brk open_libc = 0" by (simp_all add: open_libc_def)
  ultimately show ?thesis
    using fopen_never [of open_libc "0x200" "[114]" 0 example_link regs0 0] ok str tab(2) by (simp add: mode_flags_def)
qed

text \<open>A program with a stream at address 0x100 for descriptor 3, of which it has just written the file.\<close>

definition stream_kernel :: kernel where
  "stream_kernel = file_vfs_with (kernel.fields (boot_sched 1) (vga_init vga_static) (\<lambda>a. if a = 0x100 then 3 else 0))"

definition stream_libc :: "kernel \<Rightarrow> libc" where
  "stream_libc k = \<lparr>lc_kernel = snd (vfs_seek 3 0 0 k), current_brk = 0, heap_head = 0, rand_seed = 1\<rparr>"

theorem fgets_line_witness:
  "\<exists>k s1 s2. vfs_write 3 [104, 105, 10, 33] 4 stream_kernel = Some (4, k) \<and>
     fgets example_link regs0 0x90 0x1000 (int 8) 0x100 (stream_libc k) = Some (0x1000, s1) \<and>
     fetch (umem (lc_kernel s1)) 0x1000 4 = [104, 105, 10, 0] \<and>
     fgets example_link regs0 0x90 0x1000 (int 8) 0x100 s1 = Some (0x1000, s2) \<and>
     fetch (umem (lc_kernel s2)) 0x1000 2 = [33, 0]"
proof -
  let ?bs = "[104, 105, 10, 33] :: u8 list"
  have inv: "fd_inv 3 0x20000C stream_kernel" "fd_pos 3 stream_kernel = 0"
    unfolding stream_kernel_def by (rule file_vfs_inv)+
  have free: "0 < total_data_blocks stream_kernel" "\<not> taken stream_kernel 0"
    by (simp_all add: total_data_blocks_def taken_def stream_kernel_def file_vfs_with_def vfs.defs fsys.defs demo_fs_def
        demo_sb_fields)
  have "file_len 0x20000C stream_kernel = 0" unfolding stream_kernel_def by (rule file_vfs_len)
  then obtain k where k: "vfs_write 3 ?bs 4 stream_kernel = Some (4, k)" "fd_inv 3 0x20000C k" "file_holds 0x20000C ?bs k"
    using fill_file [OF inv, of ?bs] free by auto
  let ?s = "stream_libc k"
  have rd: "reads 3 0 0x20000C ?bs (lc_kernel ?s)" using fd_inv_reads [OF k(2,3)] by (simp add: stream_libc_def)
  have mem: "umem (lc_kernel ?s) = (\<lambda>a. if a = 0x100 then 3 else 0)"
    using kernel_of_vmore [of "snd (vfs_seek 3 0 0 k)" stream_kernel] vfs_write_vmore [OF k(1)]
    by (simp add: stream_libc_def vfs_seek_def Let_def)
       (simp add: stream_kernel_def file_vfs_with_def vfs.defs fsys.defs kernel.defs upd_fd_def)
  have fd: "peek ?s 0x100 = 3" by (simp add: peek_def mem fetch_def upt_rec)
  have ap: "apart 0x100 0x90 0x1000 8" by (auto simp: apart_def span_def)
  have line0: "line_of (8 - 1) (drop 0 ?bs) = [104, 105, 10]" and line1: "line_of (8 - 1) (drop (0 + length [104, 105, 10 :: u8]) ?bs) = [33]" using line_of.simps(3) [of 6] line_of.simps(3) [of 5] line_of.simps(3) [of 4] line_of.simps(2) [of 5] by simp_all
  obtain s1 where s1: "fgets example_link regs0 0x90 0x1000 (int 8) 0x100 ?s = Some (0x1000, s1)"
    "fetch (umem (lc_kernel s1)) 0x1000 (Suc (length [104, 105, 10 :: u8])) = [104, 105, 10] @ [0]"
    "reads 3 (0 + length [104, 105, 10 :: u8]) 0x20000C ?bs (lc_kernel s1)"
    "same_mem ({0x90} \<union> span (FILE_eof 0x100) 4 \<union> span 0x1000 (Suc (length [104, 105, 10 :: u8]))) ?s s1"
    using fgets_line [OF ap, of ?s 0 "0x20000C" ?bs example_link regs0] rd fd unfolding line0 by auto
  have fd1: "peek s1 0x100 = 3" 
  proof -
    have "span 0x1000 (Suc (length [104, 105, 10 :: u8])) \<subseteq> span 0x1000 8" unfolding span_def by auto
    then have "peek s1 0x100 = peek ?s 0x100" by (intro fd_kept [OF ap s1(4)]) blast
    then show ?thesis using fd by simp
  qed
  obtain s2 where "fgets example_link regs0 0x90 0x1000 (int 8) 0x100 s1 = Some (0x1000, s2)"
    "fetch (umem (lc_kernel s2)) 0x1000 (Suc (length [33 :: u8])) = [33] @ [0]"
    using fgets_line [OF ap, of s1 "0 + length [104, 105, 10 :: u8]" "0x20000C" ?bs example_link regs0] s1(3) fd1 unfolding line1 by auto
  then show ?thesis using k(1) s1(1,2) by (auto simp: eval_nat_numeral)
qed

end
