(* ===== verification/Kernel_Main.thy ===== *)
theory Kernel_Main
  imports Kshell_Claims Oki_Claims Interrupts Process
begin

text \<open>
  The start of the kernel, \<open>kernel_main\<close> in \<open>kernel/kernel.c\<close>, as the composition of the components: from the
  magic number and the boot information to the first pass of the shell or of the desktop. What the hardware
  and the linker choose is a record of arguments. Console output is the list of calls of the console driver;
  serial output, the delay loop and interrupts that arrive before the first pass are left out.
\<close>

section \<open>Messages\<close>

text \<open>\<open>kernel_panic\<close> prints, and halts.\<close>

definition kernel_panic :: "u8 list \<Rightarrow> console_call list" where
  "kernel_panic msg = [Color VGA_WHITE VGA_RED, Puts (10 # chars ''*** DORI KERNEL PANIC ***'' @ [10]), Puts msg,
     Puts (10 # chars ''System halted.'' @ [10])]"

text \<open>The handler of page faults, with the error code and the address in \<open>cr2\<close>; it halts, too.\<close>

definition page_fault_handler :: "u32 \<Rightarrow> u32 \<Rightarrow> vga \<Rightarrow> vga option" where
  "page_fault_handler err_code faulting_address v =
     do { v \<leftarrow> emit ([Color VGA_WHITE VGA_RED, Puts (10 # chars ''*** PAGE FAULT ***'' @ [10])] @
            (if err_code AND 0x1 = 0 then [Line ''  Page not present''] else []) @
            (if err_code AND 0x2 \<noteq> 0 then [Line ''  Write operation''] else []) @
            (if err_code AND 0x4 \<noteq> 0 then [Line ''  User mode''] else []) @ [Say ''  Address: 0x'']) v;
          v \<leftarrow> vga_put_hex faulting_address v;
          emit [NL] v }"

text \<open>The banner; a tilde stands for a backslash of the text, a back quote for an apostrophe.\<close>

definition banner_line :: "string \<Rightarrow> console_call" where
  "banner_line str = Puts (map (\<lambda>c. if c = 126 then 92 else if c = 96 then 39 else c) (chars str) @ [10])"

definition print_banner :: "console_call list" where
  "print_banner = [Color VGA_LIGHT_CYAN VGA_BLACK, NL,
     banner_line ''  __  __                            ___    ____  '',
     banner_line '' |  ~/  |   ___    _ __     ___    / _ ~  / ___| '',
     banner_line '' | |~/| |  / _ ~  | `_ ~   / _ ~  | | | | ~___ ~ '',
     banner_line '' | |  | | | (_) | | | | | | (_) | | |_| |  ___) |'',
     banner_line '' |_|  |_|  ~___/  |_| |_|  ~___/   ~___/  |____/ '',
     NL, Color VGA_YELLOW VGA_BLACK, Say ''  MonoOS v0.1 - '', Say ''Dori'', Line '' Kernel'',
     Color VGA_DARK_GREY VGA_BLACK, Line ''  -------------------------------------'', Color VGA_LIGHT_GREY VGA_BLACK]"

section \<open>The disk\<close>

text \<open>What follows \<open>vfs_init\<close>: mount, format if there is nothing to mount, and the directories of the store.\<close>

definition make_store :: "vfs \<Rightarrow> vfs option" where
  "make_store s =
     do { (r, s) \<leftarrow> vfs_mkdir (chars ''/nix'') s;
          (r, s) \<leftarrow> vfs_mkdir (chars ''/nix/store'') s;
          (r, s) \<leftarrow> vfs_mkdir (chars ''/nix/var'') s;
          (r, s) \<leftarrow> vfs_mkdir (chars ''/nix/var/nix'') s;
          (r, s) \<leftarrow> vfs_mkdir (chars ''/nix/var/nix/profiles'') s;
          Some s }"

definition mount_or_format :: "ata_drive \<Rightarrow> vfs \<Rightarrow> (console_call list \<times> u32 \<times> vfs) option" where
  "mount_or_format d s =
     do { (root, s) \<leftarrow> dorifs_mount 0 s;
          if root \<noteq> 0 then Some ([], root, s)
          else do { (r, dsk) \<leftarrow> dorifs_format 0 (size_sectors d) (fs_disk s);
                    (root, s) \<leftarrow> dorifs_mount 0 (s\<lparr>fs_disk := dsk\<rparr>);
                    Some ([Line ''  [..] Formatting disk as DoriFS...''], root, s) } }"

definition boot_files :: "ata_drive \<Rightarrow> vfs \<Rightarrow> (console_call list \<times> vfs) option" where
  "boot_files d s =
     (let s = vfs_init s; out = [Line ''  [OK] Virtual filesystem'']
      in if present d
         then do { (msgs, root, s) \<leftarrow> mount_or_format d s;
                   if root = 0 then Some (out @ msgs, s)
                   else do { (r, s) \<leftarrow> vfs_mount (chars ''/'') root s;
                             s \<leftarrow> make_store s;
                             Some (out @ msgs @ [Line ''  [OK] DoriFS mounted at /'', Line ''  [OK] /nix/store ready''], s) } }
         else Some (out, s))"

section \<open>The whole start\<close>

text \<open>
  What the kernel finds: the boot information, addresses of the linker, contents of memory nobody has written
  yet, answers of the devices.
\<close>

record hardware =
  hw_mem :: mem
  hw_kernel_end :: u32
  hw_tss :: u32
  hw_stub :: "nat \<Rightarrow> u32"
  hw_bitmap :: "nat \<Rightarrow> u32"
  hw_words :: "u32 \<Rightarrow> u32"
  hw_blocks :: "u32 \<Rightarrow> heap_block"
  hw_nodes :: "u32 \<Rightarrow> vfs_node"
  hw_windows :: "u32 \<Rightarrow> oki_window"
  hw_surfaces :: "u32 \<Rightarrow> u32 list"
  hw_pic_masks :: "u8 \<times> u8"
  hw_mouse_status :: u8
  hw_kbc_status :: "u8 list"
  hw_ata :: ata_answer
  hw_sectors :: "nat \<Rightarrow> u8 list"
  hw_bad :: "nat \<Rightarrow> bool"
  hw_cpu :: machine

text \<open>What is set up once and for all; \<open>k_ports\<close> are the port writes, in order.\<close>

record kernel_tables =
  k_gdt :: "gdt_entry list"
  k_tss :: tss_entry
  k_idt :: "idt_entry list"
  k_handlers :: isr_table
  k_pit :: pit
  k_ports :: "(u16 \<times> u8) list"
  k_vmm :: vmm
  k_drive :: ata_drive
  k_procs :: sched

datatype started = Halted vga | Text_shell kernel_tables shell | Desktop kernel_tables vga oki

definition static_files :: "hardware \<Rightarrow> ata_drive \<Rightarrow> heap \<Rightarrow> vfs" where
  "static_files hw d h =
     \<lparr>fs_disk = \<lparr>drive = d, sectors = hw_sectors hw, bad = hw_bad hw\<rparr>, fs_lba = 0,
      sb = decode_superblock (replicate 4096 0), data_bitmap = [], bitmap_addr = 0, fs_heap = h, nodes = hw_nodes hw,
      vfs_root = 0, fd_table = replicate 64 free_fd,
      mount_table = replicate 8 \<lparr>m_path = [], m_root = 0, m_in_use = False\<rparr>\<rparr>"

definition ata_message :: "ata_drive \<Rightarrow> console_call list" where
  "ata_message d =
     (if present d
      then [Say ''  [OK] ATA disk: '', Puts (until_nul (model d)), Say '' ('', Dec (size_mb d), Line '' MB)'']
      else [Line ''  [--] No ATA disk detected''])"

definition memory_message :: "pmm \<Rightarrow> console_call list" where
  "memory_message p =
     [Say ''  Memory: '', Dec (pmm_get_free_block_count p * 4), Say '' KiB free / '', Dec (pmm_get_block_count p * 4),
      Line '' KiB total'']"

text \<open>From the magic number to processes and interrupts.\<close>

definition kernel_setup :: "hardware \<Rightarrow> u32 \<Rightarrow> vga \<Rightarrow> (kernel_tables \<times> vfs \<times> mouse \<times> vga) option" where
  "kernel_setup hw mboot_info_addr v =
     do { mb2_mem_upper \<leftarrow> parse_multiboot2 (hw_mem hw) mboot_info_addr;
          let (gdt, tss) = gdt_init (hw_tss hw);
          v \<leftarrow> emit [Line ''  [OK] GDT initialized''] v;
          let pic = pic_init (fst (hw_pic_masks hw)) (snd (hw_pic_masks hw));
          v \<leftarrow> emit [Line ''  [OK] IDT + PIC initialized''] v;
          (timer, pit) \<leftarrow> pit_init 1000 \<lparr>pit_ticks = 0, pit_hz = 0\<rparr>;
          v \<leftarrow> emit [Line ''  [OK] PIT timer (1000 Hz)''] v;
          let (vm, h) = boot_memory (hw_kernel_end hw) (hw_bitmap hw) mb2_mem_upper (hw_words hw) (hw_blocks hw);
          v \<leftarrow> emit (memory_message (init_memory (hw_kernel_end hw) (hw_bitmap hw) mb2_mem_upper) @
                [Line ''  [OK] Physical memory manager'', Line ''  [OK] Kernel heap'', Line ''  [OK] PS/2 keyboard'']) v;
          let (commands, m) = mouse_init (hw_mouse_status hw) mouse_static;
          v \<leftarrow> emit [Line ''  [OK] PS/2 mouse''] v;
          d \<leftarrow> ata_init (hw_ata hw);
          v \<leftarrow> emit (ata_message d) v;
          (out, s) \<leftarrow> boot_files d (static_files hw d h);
          v \<leftarrow> emit out v;
          handlers \<leftarrow> boot_handlers;
          let procs = process_init \<lparr>process_table = replicate 64 blank_process, current_pid = 0, next_pid = 1,
                scheduler_enabled = False, kheap = fs_heap s, machine = hw_cpu hw\<rparr>;
          v \<leftarrow> emit [Line ''  [OK] System calls (int 0x80)'', Line ''  [OK] Process manager'', Line ''  [OK] Interrupts enabled''] v;
          Some (\<lparr>k_gdt = gdt, k_tss = tss, k_idt = idt_init (hw_stub hw), k_handlers = handlers, k_pit = pit,
                 k_ports = pic @ timer @ commands, k_vmm = vm, k_drive = d, k_procs = procs\<rparr>, s, m, v) }"

text \<open>The shell, when there is no framebuffer.\<close>

definition start_shell :: "hardware \<Rightarrow> kernel_tables \<Rightarrow> vfs \<Rightarrow> vga \<Rightarrow> shell option" where
  "start_shell hw k s v =
     do { v \<leftarrow> emit [Color VGA_DARK_GREY VGA_BLACK, Line ''  -------------------------------------'',
            Color VGA_LIGHT_GREEN VGA_BLACK, Puts (chars ''  System ready. Type '' @ [39] @ chars ''help'' @ [39] @ chars '' for commands.'' @ [10, 10]),
            Color VGA_LIGHT_GREY VGA_BLACK] v;
          kshell_start (vfs.extend s (shell.fields v (keyboard_init keyboard_static) (vmm_pmm (k_vmm k)) (pit_ticks (k_pit k))
            (hw_kbc_status hw) (replicate 256 0) 0)) }"

definition start_desktop :: "hardware \<Rightarrow> kernel_tables \<Rightarrow> vfs \<Rightarrow> mouse \<Rightarrow> framebuffer \<Rightarrow> vga \<Rightarrow> (vga \<times> oki) option" where
  "start_desktop hw k s m f v =
     do { v \<leftarrow> emit [Line ''  [OK] Framebuffer ready'', Color VGA_LIGHT_GREEN VGA_BLACK, NL,
            Line ''  Starting Oki Desktop Environment...''] v;
          s \<leftarrow> oki_init (vfs.extend s (oki.fields no_desktop (hw_windows hw) (hw_surfaces hw) no_term f
            (mouse_set_callback True m) (keyboard_init keyboard_static) (vmm_pmm (k_vmm k)) (pit_ticks (k_pit k))));
          Some (v, s) }"

definition kernel_main :: "hardware \<Rightarrow> u32 \<Rightarrow> u32 \<Rightarrow> started option" where
  "kernel_main hw magic' mboot_info_addr =
     do { v \<leftarrow> emit print_banner (vga_init vga_static);
          if magic' \<noteq> 0x36D76289
          then do { v \<leftarrow> emit (kernel_panic (chars ''Not booted by a Multiboot2-compliant bootloader!'')) v; Some (Halted v) }
          else do {
            (k, s, m, v) \<leftarrow> kernel_setup hw mboot_info_addr v;
            (f, vm, h) \<leftarrow> fb_init_from_multiboot (hw_mem hw) mboot_info_addr (k_vmm k) (fs_heap s);
            let k = k\<lparr>k_vmm := vm\<rparr>;
            let s = s\<lparr>fs_heap := h\<rparr>;
            if fb_is_available f
            then do { (v, s) \<leftarrow> start_desktop hw k s m f v; Some (Desktop k v s) }
            else map_option (Text_shell k) (start_shell hw k s v) } }"

section \<open>The framebuffer of the boot information\<close>

text \<open>The address of the first framebuffer tag.\<close>

fun fb_tag_at :: "u32 \<Rightarrow> (u32 \<times> u32 \<times> u32) list \<Rightarrow> u32 option" where
  "fb_tag_at p [] = None"
| "fb_tag_at p ((ty, sz, w) # ts) = (if ty = MB2_TAG_FRAMEBUFFER then Some p else fb_tag_at (p + ((sz + 7) AND NOT 7)) ts)"

lemma fb_tags_eq:
  "tags_at m p ts \<Longrightarrow> fb_tags m p v h =
     (case fb_tag_at p ts of None \<Rightarrow> Some (no_framebuffer, v, h) | Some t \<Rightarrow> setup_framebuffer m (tag_framebuffer m t) v h)"
proof (induction m p ts rule: tags_at.induct)
  case (1 m p)
  then show ?case by (subst fb_tags.simps) simp
next
  case (2 m p ty sz w ts)
  then show ?case by (subst fb_tags.simps) auto
qed

text \<open>A screen without padding between its rows, that does not reach the end of the address space.\<close>

definition fb_fits :: "framebuffer \<Rightarrow> bool" where
  "fb_fits f \<longleftrightarrow> 0 < fb_width f \<and> 2 \<le> unat (fb_height f) \<and> fb_pitch f mod 4 = 0 \<and> fb_width f = pitch4 f \<and>
     unat (fb_width f) * unat (fb_height f) < 1073741824 \<and>
     unat (fb_address f) + unat (fb_pitch f * fb_height f) + 4096 \<le> 4294967296"

lemma map_framebuffer_returns: "unat stop + 4096 \<le> 4294967296 \<Longrightarrow> \<exists>w. map_framebuffer a stop v = Some w"
proof (induction "unat stop - unat a" arbitrary: a v rule: less_induct)
  case less
  show ?case
  proof (cases "a < stop")
    case True
    then have "unat a < unat stop" by (simp add: unat_less_u32)
    then have "unat (a + 4096) = unat a + 4096" using less.prems by (subst unat_add_u32) simp_all
    then have "unat stop - unat (a + 4096) < unat stop - unat a" using \<open>unat a < unat stop\<close> by simp
    then show ?thesis using less.hyps less.prems True by (subst map_framebuffer.simps) simp
  qed (subst map_framebuffer.simps, simp)
qed

lemma setup_canvas:
  assumes "heap_inv h" "fb_fits (tag_framebuffer m t)"
  shows "\<exists>f v' h'. setup_framebuffer m (tag_framebuffer m t) v h = Some (f, v', h') \<and> heap_inv h' \<and> fb_available f \<and>
    (\<exists>W H. canvas W H W f)"
proof -
  let ?f = "tag_framebuffer m t"
  let ?W = "unat (fb_width ?f)" and ?H = "unat (fb_height ?f)"
  note f = assms(2) [unfolded fb_fits_def]
  have end_: "unat (fb_address ?f + fb_pitch ?f * fb_height ?f) = unat (fb_address ?f) + unat (fb_pitch ?f * fb_height ?f)"
    using f by (intro unat_add_u32) linarith
  have "unat (fb_address ?f + fb_pitch ?f * fb_height ?f) + 4096 \<le> 4294967296"
    unfolding end_ using f by linarith
  from map_framebuffer_returns [OF this]
  obtain v' where v': "map_framebuffer (fb_address ?f) (fb_address ?f + fb_pitch ?f * fb_height ?f) v = Some v'" by blast
  obtain p h' where p: "kmalloc (fb_width ?f * fb_height ?f * 4) h = Some (p, h')" "heap_inv h'"
    using kheap.malloc_total [OF assms(1)] by blast
  let ?g = "if p = 0 then ?f else ?f\<lparr>backbuffer := Some (words_at m p (unat (fb_width ?f * fb_height ?f * 4) div 4))\<rparr>"
  have set_up: "setup_framebuffer m ?f v h = Some (?g, v', h')" using v' p(1) by (simp add: setup_framebuffer_def Let_def)
  have pitch: "unat (fb_pitch ?f) = ?W * 4"
  proof -
    have "unat (fb_pitch ?f) mod 4 = 0" using f unat_mod [of "fb_pitch ?f" 4] by simp
    moreover have "unat (fb_pitch ?f) div 4 = ?W" using f unat_div [of "fb_pitch ?f" 4] by (simp add: pitch4_def)
    ultimately show ?thesis by (metis add.right_neutral div_mult_mod_eq)
  qed
  have area: "unat (fb_width ?f * fb_height ?f * 4) = ?W * ?H * 4" "unat (fb_pitch ?f * fb_height ?f) = ?W * ?H * 4"
  proof -
    have lt: "?W * ?H < 1073741824" using f by blast
    then have w: "unat (fb_width ?f * fb_height ?f) = ?W * ?H" by (intro unat_mult_u32) linarith
    have "?W * ?H * unat (4 :: u32) < 4294967296" using lt by (simp add: mult.commute)
    then show "unat (fb_width ?f * fb_height ?f * 4) = ?W * ?H * 4"
      using unat_mult_u32 [of "fb_width ?f * fb_height ?f" 4] unfolding w by simp
    have "unat (fb_pitch ?f) * ?H < 4294967296" unfolding pitch using lt by (simp add: mult.commute)
    then show "unat (fb_pitch ?f * fb_height ?f) = ?W * ?H * 4"
      using unat_mult_u32 [of "fb_pitch ?f" "fb_height ?f"] by (simp add: pitch)
  qed
  have small: "?W < 2147483648" "?H < 2147483648"
  proof -
    have "0 < fb_width ?f" using f by blast
    then have "0 < ?W" by (simp add: unat_less_u32)
    then have "1 * ?H \<le> ?W * ?H" "?W * 1 \<le> ?W * ?H" using f by (intro mult_le_mono; linarith)+
    then show "?W < 2147483648" "?H < 2147483648" using f by linarith+
  qed
  have screen: "length (fb_screen ?f) = ?W * ?H" "backbuffer ?f = None" "fb_available ?f"
    using area(2) by (simp_all add: tag_framebuffer_def Let_def)
  have "canvas ?W ?H ?W ?g"
    using screen small f area(1) by (auto simp: canvas_def fb_target_def pitch4_def)
  then have "\<exists>W H. canvas W H W ?g" by blast
  moreover have "fb_available ?g" using screen(3) by simp
  ultimately show ?thesis using set_up p(2) by blast
qed

section \<open>Every step of the start returns\<close>

text \<open>
  The disk gave a filesystem: mounting, formatting and making directories returned, the heap is sound, and the
  listing of the root ends. Without a disk it always holds.
\<close>

definition files_ready :: "hardware \<Rightarrow> ata_drive \<Rightarrow> console_call list \<Rightarrow> vfs \<Rightarrow> bool" where
  "files_ready hw d out s \<longleftrightarrow>
     boot_files d (static_files hw d (heap_init (hw_blocks hw))) = Some (out, s) \<and> heap_inv (fs_heap s) \<and> fd_ok s \<and>
     (\<forall>x :: unit oki_ext. listing_ends (vfs.extend s x))"

lemma no_disk_ready:
  assumes "\<not> present d"
  shows "files_ready hw d [Line ''  [OK] Virtual filesystem''] (vfs_init (static_files hw d (heap_init (hw_blocks hw))))"
proof -
  let ?s = "vfs_init (static_files hw d (heap_init (hw_blocks hw)))"
  have "vfs_root ?s = 0" by (simp add: vfs_init_def)
  then have "vfs_root (vfs.extend ?s x) = 0" for x :: "unit oki_ext" by (simp add: vfs.defs)
  then have "listing_ends (vfs.extend ?s x)" for x :: "unit oki_ext"
    by (auto simp: listing_ends_def root_entry_def intro!: exI [of _ 0])
  moreover have "fd_ok ?s" by (auto simp: fd_ok_def vfs_init_def free_fd_def)
  moreover have "heap_inv (fs_heap ?s)" by (simp add: vfs_init_def static_files_def)
  ultimately show ?thesis using assms by (simp add: files_ready_def boot_files_def)
qed

text \<open>A machine the kernel supports: at least 10 MiB of memory, and a kernel that ends below its heap.\<close>

definition memory_fits :: "u32 \<Rightarrow> u32 \<Rightarrow> bool" where
  "memory_fits kernel_end upper \<longleftrightarrow> unat upper + 1024 < 4194304 \<and> 32 dvd unat upper \<and> 10240 \<le> unat upper + 1024 \<and>
     4096 \<le> unat kernel_end \<and> unat kernel_end + (unat upper + 1024) div 32 \<le> heap_lo"

lemma booted_memory:
  assumes "memory_fits kernel_end upper"
  shows "pmm_ok (init_memory kernel_end bm upper)" "6 \<le> card (avail (init_memory kernel_end bm upper))"
proof -
  let ?s = "init_memory kernel_end bm upper"
  have f: "unat upper + 1024 < 4194304" "32 dvd unat upper" "10240 \<le> unat upper + 1024"
    "4096 \<le> unat kernel_end" "unat kernel_end + (unat upper + 1024) div 32 \<le> heap_lo"
    using assms unfolding memory_fits_def by blast+
  note p = init_memory_props [of upper kernel_end 512 bm]
  have props: "pmm_ok ?s" "\<exists>b. b \<le> 512 \<and> free_frames ?s = {b ..< (unat upper + 1024) div 4}"
    "unat (pmm_max_blocks ?s) = (unat upper + 1024) div 4"
    using p f by (simp_all add: heap_bounds)
  show "pmm_ok ?s" by (rule props)
  obtain b where b: "b \<le> 512" "free_frames ?s = {b ..< (unat upper + 1024) div 4}" using props(2) by blast
  note max = props(3)
  have "80 \<le> (unat upper + 1024) div 4 div 32" using f(3) by simp
  then have scan: "2560 \<le> scanned_frames ?s" by (simp add: scanned_frames_def max)
  have "{512 ..< 518} \<subseteq> avail ?s"
  proof
    fix x :: nat
    assume x: "x \<in> {512 ..< 518}"
    have "2560 \<le> (unat upper + 1024) div 4" using f(3) by simp
    then have "x \<in> {b ..< (unat upper + 1024) div 4}" using x b(1) by simp
    then have "x \<in> free_frames ?s" unfolding b(2) .
    then show "x \<in> avail ?s" using x scan by (simp add: avail_def free_frames_def)
  qed
  moreover have "finite (avail ?s)" by (simp add: avail_def)
  ultimately show "6 \<le> card (avail ?s)" using card_mono [of "avail ?s" "{512 ..< 518}"] by simp
qed

definition tables_ready :: "kernel_tables \<Rightarrow> bool" where
  "tables_ready k \<longleftrightarrow> sched_ok (k_procs k) \<and> boot_handlers = Some (k_handlers k) \<and> pit_hz (k_pit k) = 1000"

lemma boot_handlers_some: "\<exists>t. boot_handlers = Some t"
  by (simp add: boot_handlers_def irq_register_handler_def isr_register_handler_def)

lemma setup_returns:
  assumes "tags_at (hw_mem hw) (info + 8) ts" "ata_init (hw_ata hw) = Some d" "files_ready hw d out s" "vga_ok v"
  shows "\<exists>k m w. kernel_setup hw info v = Some (k, s, m, w) \<and> tables_ready k \<and> k_drive k = d \<and>
    k_vmm k = fst (boot_memory (hw_kernel_end hw) (hw_bitmap hw) (mem_upper_of 0 ts) (hw_words hw) (hw_blocks hw)) \<and>
    length (packet m) = 3 \<and> packet_idx m = 0 \<and> vga_ok w"
proof -
  have up: "parse_multiboot2 (hw_mem hw) info = Some (mem_upper_of 0 ts)"
    using parse_tags_eq [OF assms(1)] by (simp add: parse_multiboot2_def)
  obtain v1 where v1: "emit [Line ''  [OK] GDT initialized''] v = Some v1" "vga_ok v1" using emit_total [OF assms(4)] by blast
  obtain v2 where v2: "emit [Line ''  [OK] IDT + PIC initialized''] v1 = Some v2" "vga_ok v2" using emit_total [OF v1(2)] by blast
  obtain v3 where v3: "emit [Line ''  [OK] PIT timer (1000 Hz)''] v2 = Some v3" "vga_ok v3" using emit_total [OF v2(2)] by blast
  obtain v4 where v4: "emit (memory_message (init_memory (hw_kernel_end hw) (hw_bitmap hw) (mem_upper_of 0 ts)) @
      [Line ''  [OK] Physical memory manager'', Line ''  [OK] Kernel heap'', Line ''  [OK] PS/2 keyboard'']) v3 = Some v4" "vga_ok v4"
    using emit_total [OF v3(2)] by blast
  obtain v5 where v5: "emit [Line ''  [OK] PS/2 mouse''] v4 = Some v5" "vga_ok v5" using emit_total [OF v4(2)] by blast
  obtain v6 where v6: "emit (ata_message d) v5 = Some v6" "vga_ok v6" using emit_total [OF v5(2)] by blast
  obtain v7 where v7: "emit out v6 = Some v7" "vga_ok v7" using emit_total [OF v6(2)] by blast
  obtain v8 where v8: "emit [Line ''  [OK] System calls (int 0x80)'', Line ''  [OK] Process manager'', Line ''  [OK] Interrupts enabled''] v7 = Some v8"
    "vga_ok v8" using emit_total [OF v7(2)] by blast
  obtain hs where hs: "boot_handlers = Some hs" using boot_handlers_some by blast
  have files: "boot_files d (static_files hw d (heap_init (hw_blocks hw))) = Some (out, s)" "heap_inv (fs_heap s)"
    using assms(3) by (simp_all add: files_ready_def)
  obtain timer pit where pit: "pit_init 1000 \<lparr>pit_ticks = 0, pit_hz = 0\<rparr> = Some (timer, pit)" "pit_hz pit = 1000"
    by (simp add: pit_init_def Let_def)
  obtain gdt tss where gdt: "gdt_init (hw_tss hw) = (gdt, tss)" by (cases "gdt_init (hw_tss hw)")
  obtain cmds m where m: "mouse_init (hw_mouse_status hw) mouse_static = (cmds, m)" by (cases "mouse_init (hw_mouse_status hw) mouse_static")
  then have packet: "length (packet m) = 3" "packet_idx m = 0" by (auto simp: mouse_init_def mouse_static_def Let_def)
  define k where "k = \<lparr>k_gdt = gdt, k_tss = tss, k_idt = idt_init (hw_stub hw), k_handlers = hs, k_pit = pit,
    k_ports = pic_init (fst (hw_pic_masks hw)) (snd (hw_pic_masks hw)) @ timer @ cmds,
    k_vmm = fst (boot_memory (hw_kernel_end hw) (hw_bitmap hw) (mem_upper_of 0 ts) (hw_words hw) (hw_blocks hw)), k_drive = d,
    k_procs = process_init \<lparr>process_table = replicate 64 blank_process, current_pid = 0, next_pid = 1,
      scheduler_enabled = False, kheap = fs_heap s, machine = hw_cpu hw\<rparr>\<rparr>"
  have "kernel_setup hw info v = Some (k, s, m, v8)"
    using up v1(1) v2(1) v3(1) v4(1) v5(1) v6(1) v7(1) v8(1) hs files(1) pit(1) gdt m assms(2)
    unfolding kernel_setup_def k_def by (simp add: boot_memory_def hs del: emit.simps)
  moreover have "sched_ok (k_procs k)" unfolding k_def by (simp add: process_init_ok files(2))
  ultimately show ?thesis using packet v8(2) hs pit(2) by (auto simp: tables_ready_def k_def)
qed

lemma booted_paging:
  assumes "memory_fits kernel_end upper"
  shows "vmm_ok (fst (boot_memory kernel_end bm upper words blks))"
    "unat w < 0x1000000 \<Longrightarrow> vmm_get_physical w (fst (boot_memory kernel_end bm upper words blks)) = w AND PAGE_MASK"
proof -
  let ?v = "\<lparr>vmm_pmm = init_memory kernel_end bm upper, phys_mem = words, current_directory = 0, cr3 = 0, cr0 = 1\<rparr>"
  have "pmm_ok (vmm_pmm ?v)" "6 \<le> card (avail (vmm_pmm ?v))" using booted_memory [OF assms] by simp_all
  from vmm_init_props [OF this] show "vmm_ok (fst (boot_memory kernel_end bm upper words blks))"
    "unat w < 0x1000000 \<Longrightarrow> vmm_get_physical w (fst (boot_memory kernel_end bm upper words blks)) = w AND PAGE_MASK"
    by (simp_all add: boot_memory_def)
qed

lemma kb_inv_start: "kb_inv (keyboard_init keyboard_static)"
  by (simp add: kb_inv_def keyboard_init_def keyboard_static_def)

lemma shell_starts:
  assumes "vga_ok v" "fd_ok s"
  shows "\<exists>sh. start_shell hw k s v = Some sh \<and> shell_inv sh \<and> cmd_pos sh = 0"
proof -
  obtain w where w: "emit [Color VGA_DARK_GREY VGA_BLACK, Line ''  -------------------------------------'',
      Color VGA_LIGHT_GREEN VGA_BLACK, Puts (chars ''  System ready. Type '' @ [39] @ chars ''help'' @ [39] @ chars '' for commands.'' @ [10, 10]),
      Color VGA_LIGHT_GREY VGA_BLACK] v = Some w" "vga_ok w" using emit_total [OF assms(1)] by blast
  let ?s = "vfs.extend s (shell.fields w (keyboard_init keyboard_static) (vmm_pmm (k_vmm k)) (pit_ticks (k_pit k))
      (hw_kbc_status hw) (replicate 256 0) 0)"
  have scr: "vga_ok (screen ?s)" using w(2) by (simp add: vfs.defs shell.defs)
  obtain u where u: "print_prompt ?s = Some (?s\<lparr>screen := u\<rparr>)" "vga_ok u" using prompt_total [OF scr] by blast
  let ?t = "clear_line (?s\<lparr>screen := u\<rparr>)"
  have "start_shell hw k s v = Some ?t" using w(1) u(1) unfolding start_shell_def kshell_start_def by (simp del: emit.simps)
  moreover have "fd_ok ?t" using assms(2) by (simp add: fd_ok_def clear_line_def vfs.defs)
  moreover have "keys ?t = keyboard_init keyboard_static" by (simp add: clear_line_def vfs.defs shell.defs)
  moreover have "vga_ok (screen ?t)" using u(2) by (simp add: clear_line_def)
  moreover have "line_is [] ?t" "cmd_pos ?t = 0" by (simp_all add: line_is_def clear_line_def)
  ultimately show ?thesis using kb_inv_start by (auto simp: shell_inv_def shell_ok_def)
qed

lemma desktop_starts:
  assumes "vga_ok v" "heap_inv h" "canvas W H P f" "length (packet m) = 3" "packet_idx m = 0"
    and "\<forall>x :: unit oki_ext. listing_ends (vfs.extend s x)"
  shows "\<exists>w desk. start_desktop hw k (s\<lparr>fs_heap := h\<rparr>) m f v = Some (w, desk) \<and> vga_ok w \<and> oki_ok W H P desk \<and>
    (\<forall>es l. \<exists>l' u. oki_events es (l, desk) = Some (l', u) \<and> oki_ok W H P u)"
proof -
  obtain w where w: "emit [Line ''  [OK] Framebuffer ready'', Color VGA_LIGHT_GREEN VGA_BLACK, NL,
      Line ''  Starting Oki Desktop Environment...''] v = Some w" "vga_ok w" using emit_total [OF assms(1)] by blast
  let ?x = "oki.fields no_desktop (hw_windows hw) (hw_surfaces hw) no_term f (mouse_set_callback True m)
      (keyboard_init keyboard_static) (vmm_pmm (k_vmm k)) (pit_ticks (k_pit k))"
  let ?s = "vfs.extend (s\<lparr>fs_heap := h\<rparr>) ?x"
  have "same_files ?s (vfs.extend s ?x)" by (simp add: same_files_def vfs.defs fsys.defs)
  then have "listing_ends ?s" using same_files_listing assms(6) by blast
  then have "oki_ready W H P ?s"
    using assms(2-5) kb_inv_start
    by (simp add: oki_ready_def vfs.defs oki.defs mouse_set_callback_def term_ok_def no_term_def)
  then obtain desk where desk: "oki_init ?s = Some desk" "oki_ok W H P desk" using init_ok by blast
  have "start_desktop hw k (s\<lparr>fs_heap := h\<rparr>) m f v = Some (w, desk)"
    using w(1) desk(1) unfolding start_desktop_def by (simp del: emit.simps)
  then show ?thesis using w(2) desk(2) events_ok by blast
qed

section \<open>Properties\<close>


text \<open>A machine with 128 MiB, no framebuffer and no disk; the boot information is at 0x1000.\<close>

definition demo_hardware :: hardware where
  "demo_hardware =
     \<lparr>hw_mem = (\<lambda>a. if a = 0x1008 then 4 else if a = 0x100C then 16 else if a = 0x1015 then 0xFC else if a = 0x1016 then 1 else 0),
      hw_kernel_end = 0x150000, hw_tss = 0x106000, hw_stub = (\<lambda>n. 0x101000 + of_nat n), hw_bitmap = (\<lambda>_. 0),
      hw_words = (\<lambda>_. 0), hw_blocks = blank_mem, hw_nodes = (\<lambda>_. zero_node), hw_windows = (\<lambda>_. demo_window),
      hw_surfaces = (\<lambda>_. []), hw_pic_masks = (0, 0), hw_mouse_status = 0, hw_kbc_status = [],
      hw_ata = \<lparr>first_status = 0, lba_mid = 0, lba_hi = 0, statuses = [], ident = []\<rparr>, hw_sectors = (\<lambda>_. replicate 512 0),
      hw_bad = (\<lambda>_. False),
      hw_cpu = \<lparr>m_mem = (\<lambda>_. 0), m_esp = 0x1000, m_ebp = 0, m_ebx = 0, m_esi = 0, m_edi = 0, m_eip = 0\<rparr>\<rparr>"


end
