(* ===== verification/Nix.thy ===== *)
theory Nix
  imports Syscall Stdio Kshell_Files
begin

text \<open>
  The package tools among the user programs, \<open>userland/nix-env.c\<close> and \<open>userland/nix-query.c\<close>, with
  \<open>userland/init.c\<close>. Texts in arrays are the lists of their bytes up to the NUL; copying one that does not
  fit its array is \<open>None\<close>, as is a call that does not return. The programs reach the kernel by system calls,
  which are taken here on texts instead of addresses; \<open>program_calls\<close> says that this is the same.
\<close>

section \<open>System calls on texts\<close>

definition u_open :: "u8 list \<Rightarrow> u32 \<Rightarrow> kernel \<Rightarrow> (int \<times> kernel) option" where
  "u_open path flags k = vfs_open path flags k"

definition u_read :: "int \<Rightarrow> u32 \<Rightarrow> kernel \<Rightarrow> (u8 list option \<times> kernel) option" where
  "u_read fd n k = vfs_read fd n k"

definition u_write :: "int \<Rightarrow> u8 list \<Rightarrow> kernel \<Rightarrow> (int \<times> kernel) option" where
  "u_write fd buf k =
     (if fd = 1 \<or> fd = 2 then do { v \<leftarrow> vga_puts buf (console k); Some (int (length buf), k\<lparr>console := v\<rparr>) }
      else vfs_write fd buf (of_nat (length buf)) k)"

definition u_close :: "int \<Rightarrow> kernel \<Rightarrow> kernel" where
  "u_close fd k = snd (vfs_close fd k)"

text \<open>\<open>printf\<close>, with its array of 512 bytes.\<close>

definition u_printf :: "u8 list \<Rightarrow> arg list \<Rightarrow> kernel \<Rightarrow> kernel option" where
  "u_printf fmt args k =
     do { out \<leftarrow> printf (replicate 512 0) fmt args;
          (n, k) \<leftarrow> u_write 1 out k;
          Some k }"

abbreviation say :: "string \<Rightarrow> kernel \<Rightarrow> kernel option" where "say str \<equiv> u_printf (chars str) []"
abbreviation sayln :: "string \<Rightarrow> kernel \<Rightarrow> kernel option" where "sayln str \<equiv> u_printf (chars str @ [10]) []"

definition u_copy :: "nat \<Rightarrow> u8 list \<Rightarrow> u8 list option" where
  "u_copy size' str = (if length str < size' then Some str else None)"

text \<open>\<open>snprintf\<close> into an array of \<open>n\<close> bytes: its result, and the text in the array.\<close>

definition u_snprintf :: "nat \<Rightarrow> u8 list \<Rightarrow> arg list \<Rightarrow> (u32 \<times> u8 list) option" where
  "u_snprintf n fmt args = map_option (apsnd until_nul) (snprintf (replicate n 0) (of_nat n) fmt args)"

section \<open>The manifest of the profile\<close>

record profile_entry =
  pe_name :: "u8 list"
  pe_store_path :: "u8 list"
  pe_active :: bool

abbreviation (input) MAX_PROFILE_ENTRIES :: nat where "MAX_PROFILE_ENTRIES \<equiv> 128"
abbreviation (input) MAX_PATH_LEN :: nat where "MAX_PATH_LEN \<equiv> 512"

definition PROFILE_DIR :: "u8 list" where
  "PROFILE_DIR = chars ''/nix/var/nix/profiles/default''"

definition MANIFEST_PATH :: "u8 list" where
  "MANIFEST_PATH = PROFILE_DIR @ chars ''/manifest''"

text \<open>A loop that copies up to \<open>n\<close> characters before \<open>stop\<close>: what it copied, and the rest of the line.\<close>

fun copy_field :: "nat \<Rightarrow> u8 \<Rightarrow> u8 list \<Rightarrow> u8 list \<times> u8 list" where
  "copy_field n stop [] = ([], [])"
| "copy_field n stop (c # cs) =
     (if c \<noteq> stop \<and> 0 < n then (let (f, others) = copy_field (n - 1) stop cs in (c # f, others)) else ([], c # cs))"

definition parse_manifest_line :: "u8 list \<Rightarrow> profile_entry option" where
  "parse_manifest_line line =
     (let (name, others) = copy_field 255 9 line
      in case others of [] \<Rightarrow> None
         | c # others \<Rightarrow>
             if c \<noteq> 9 then None
             else Some \<lparr>pe_name = name, pe_store_path = fst (copy_field (MAX_PATH_LEN - 1) 10 others), pe_active = True\<rparr>)"

text \<open>The loop over the lines of the buffer; \<open>room\<close> is \<open>max_entries - count\<close>.\<close>

function manifest_lines :: "nat \<Rightarrow> u8 list \<Rightarrow> profile_entry list" where
  "manifest_lines room line =
     (if line = [] \<or> room = 0 then []
      else let cur = takeWhile (\<lambda>c. c \<noteq> 10) line; eol = dropWhile (\<lambda>c. c \<noteq> 10) line;
               found = (if cur = [] then [] else case parse_manifest_line cur of None \<Rightarrow> [] | Some e \<Rightarrow> [e])
           in found @ (if eol = [] then [] else manifest_lines (room - length found) (tl eol)))"
  by pat_completeness auto
termination
proof (relation "measure (length \<circ> snd)", goal_cases)
  case (2 room line cur eol found)
  then have "length eol \<le> length line" "0 < length line" by (simp_all only: length_dropWhile_le) auto
  then have "length (tl eol) < length line" unfolding length_tl by linarith
  then show ?case by simp
qed simp

declare manifest_lines.simps [simp del]

definition read_manifest :: "nat \<Rightarrow> kernel \<Rightarrow> (profile_entry list \<times> kernel) option" where
  "read_manifest max_entries k =
     do { (fd, k) \<leftarrow> u_open MANIFEST_PATH 0 k;
          if fd < 0 then Some ([], k)
          else do { (n, k) \<leftarrow> u_read fd 4095 k;
                    let k = u_close fd k;
                    Some (case n of None \<Rightarrow> [] | Some buf \<Rightarrow> manifest_lines max_entries (until_nul buf), k) } }"

definition manifest_line :: "profile_entry \<Rightarrow> (u32 \<times> u8 list) option" where
  "manifest_line e = u_snprintf (MAX_PATH_LEN + 256 + 2) [37, 115, 9, 37, 115, 10] [Str (Some (pe_name e)), Str (Some (pe_store_path e))]"

text \<open>\<open>write(fd, line, len)\<close> with \<open>len\<close> from \<open>snprintf\<close>, which may be more than there is in the array.\<close>

fun write_entries :: "int \<Rightarrow> profile_entry list \<Rightarrow> kernel \<Rightarrow> kernel option" where
  "write_entries fd [] k = Some k"
| "write_entries fd (e # es) k =
     (if \<not> pe_active e then write_entries fd es k
      else do { (len, line) \<leftarrow> manifest_line e;
                if unat len = length line
                then do { (r, k) \<leftarrow> u_write fd line k; write_entries fd es k } else None })"

definition write_manifest :: "profile_entry list \<Rightarrow> kernel \<Rightarrow> (int \<times> kernel) option" where
  "write_manifest entries k =
     do { (fd, k) \<leftarrow> u_open MANIFEST_PATH (0x1 OR 0x40 OR 0x200) k;
          if fd < 0 then Some (- 1, k)
          else do { k \<leftarrow> write_entries fd entries k;
                    Some (0, u_close fd k) } }"

section \<open>nix-env\<close>

definition quoted :: "string \<Rightarrow> string \<Rightarrow> u8 list" where
  "quoted before after = chars before @ [39, 37, 115, 39] @ chars after @ [10]"

text \<open>The name of a package: what follows the first dash of the last component, or all of it.\<close>

definition base_name :: "u8 list \<Rightarrow> u8 list" where
  "base_name path = rev (takeWhile (\<lambda>c. c \<noteq> 47) (rev path))"

definition package_name :: "u8 list \<Rightarrow> u8 list" where
  "package_name store_path =
     (let name = base_name store_path; dash = dropWhile (\<lambda>c. c \<noteq> 45) name in if dash = [] then name else tl dash)"

fun find_entry :: "u8 list \<Rightarrow> profile_entry list \<Rightarrow> nat \<Rightarrow> nat option" where
  "find_entry name [] i = None"
| "find_entry name (e # es) i = (if pe_active e \<and> pe_name e = name then Some i else find_entry name es (i + 1))"

definition link_path_of :: "u8 list \<Rightarrow> u8 list option" where
  "link_path_of pkg_name =
     map_option snd (u_snprintf MAX_PATH_LEN [37, 115, 47, 37, 115] [Str (Some PROFILE_DIR), Str (Some pkg_name)])"

definition cmd_install :: "u8 list \<Rightarrow> kernel \<Rightarrow> (int \<times> kernel) option" where
  "cmd_install store_path k =
     do { (entries, k) \<leftarrow> read_manifest MAX_PROFILE_ENTRIES k;
          pkg_name \<leftarrow> u_copy 256 (package_name store_path);
          case find_entry pkg_name entries 0 of
            Some i \<Rightarrow> do {
              k \<leftarrow> u_printf (quoted ''Package '' '' is already installed.'') [Str (Some pkg_name)] k;
              k \<leftarrow> u_printf (chars ''  Updating: %s -> %s'' @ [10]) [Str (Some (pe_store_path (entries ! i))), Str (Some store_path)] k;
              path \<leftarrow> u_copy MAX_PATH_LEN store_path;
              (r, k) \<leftarrow> write_manifest (entries[i := (entries ! i)\<lparr>pe_store_path := path\<rparr>]) k;
              k \<leftarrow> sayln ''Updated.'' k;
              Some (0, k) }
          | None \<Rightarrow>
              if MAX_PROFILE_ENTRIES \<le> length entries
              then do { k \<leftarrow> u_printf (chars ''Error: Profile is full (max %d packages).'' @ [10]) [Word 128] k; Some (1, k) }
              else do {
                path \<leftarrow> u_copy MAX_PATH_LEN store_path;
                (r, k) \<leftarrow> write_manifest (entries @ [\<lparr>pe_name = pkg_name, pe_store_path = path, pe_active = True\<rparr>]) k;
                k \<leftarrow> u_printf (chars ''Installed: %s'' @ [10]) [Str (Some pkg_name)] k;
                k \<leftarrow> u_printf (chars ''  Store path: %s'' @ [10]) [Str (Some store_path)] k;
                link_path \<leftarrow> link_path_of pkg_name;
                (r, k) \<leftarrow> vfs_symlink store_path link_path k;
                Some (0, k) } }"

definition cmd_remove :: "u8 list \<Rightarrow> kernel \<Rightarrow> (int \<times> kernel) option" where
  "cmd_remove pkg_name k =
     do { (entries, k) \<leftarrow> read_manifest MAX_PROFILE_ENTRIES k;
          case find_entry pkg_name entries 0 of
            None \<Rightarrow> do { k \<leftarrow> u_printf (quoted ''Package '' '' is not installed.'') [Str (Some pkg_name)] k; Some (1, k) }
          | Some i \<Rightarrow> do {
              k \<leftarrow> u_printf (chars ''Removed: %s'' @ [10]) [Str (Some pkg_name)] k;
              k \<leftarrow> u_printf (chars ''  (store path %s still exists)'' @ [10]) [Str (Some (pe_store_path (entries ! i)))] k;
              (r, k) \<leftarrow> write_manifest (entries[i := (entries ! i)\<lparr>pe_active := False\<rparr>]) k;
              link_path \<leftarrow> link_path_of pkg_name;
              (r, k) \<leftarrow> vfs_unlink link_path k;
              Some (0, k) } }"

definition env_row :: "u8 list" where
  "env_row = chars ''%-30s  %s'' @ [10]"

fun list_entries :: "profile_entry list \<Rightarrow> nat \<Rightarrow> kernel \<Rightarrow> (nat \<times> kernel) option" where
  "list_entries [] n k = Some (n, k)"
| "list_entries (e # es) n k =
     (if pe_active e
      then do { k \<leftarrow> u_printf env_row [Str (Some (pe_name e)), Str (Some (pe_store_path e))] k; list_entries es (n + 1) k }
      else list_entries es n k)"

definition cmd_query :: "kernel \<Rightarrow> (int \<times> kernel) option" where
  "cmd_query k =
     do { (entries, k) \<leftarrow> read_manifest MAX_PROFILE_ENTRIES k;
          k \<leftarrow> u_printf (27 # chars ''[1;36m'') [] k;
          k \<leftarrow> sayln ''Installed packages (profile: default):'' k;
          k \<leftarrow> u_printf (27 # chars ''[0m'') [] k;
          k \<leftarrow> u_printf env_row [Str (Some (chars ''PACKAGE'')), Str (Some (chars ''STORE PATH''))] k;
          k \<leftarrow> u_printf env_row [Str (Some (chars ''-------'')), Str (Some (chars ''----------''))] k;
          (active_count, k) \<leftarrow> list_entries entries 0 k;
          k \<leftarrow> (if active_count = 0 then sayln ''  (no packages installed)'' k
               else u_printf (10 # chars ''%d package(s) in profile.'' @ [10]) [Word (of_nat active_count)] k);
          Some (0, k) }"

definition cmd_rollback :: "kernel \<Rightarrow> (int \<times> kernel) option" where
  "cmd_rollback k =
     do { (fd, k) \<leftarrow> u_open (MANIFEST_PATH @ chars ''.bak'') 0 k;
          if fd < 0 then do { k \<leftarrow> sayln ''No previous generation to roll back to.'' k; Some (1, k) }
          else do {
            (n, k) \<leftarrow> u_read fd 4095 k;
            let k = u_close fd k;
            case n of None \<Rightarrow> do { k \<leftarrow> sayln ''Previous generation is empty.'' k; Some (1, k) }
            | Some buf \<Rightarrow>
                if buf = [] then do { k \<leftarrow> sayln ''Previous generation is empty.'' k; Some (1, k) }
                else do {
                  (fd_out, k) \<leftarrow> u_open MANIFEST_PATH (0x1 OR 0x40 OR 0x200) k;
                  if fd_out < 0 then do { k \<leftarrow> sayln ''Error: Cannot write manifest.'' k; Some (1, k) }
                  else do {
                    (r, k) \<leftarrow> u_write fd_out buf k;
                    k \<leftarrow> sayln ''Rolled back to previous generation.'' (u_close fd_out k);
                    Some (0, k) } } } }"

text \<open>The dash in the first line is three bytes of UTF-8.\<close>

definition env_usage :: "kernel \<Rightarrow> kernel option" where
  "env_usage k =
     do { k \<leftarrow> u_printf (chars ''nix-env '' @ [0xE2, 0x80, 0x94] @ chars '' MonoOS package profile manager'' @ [10, 10]) [] k;
          k \<leftarrow> sayln ''Usage:'' k;
          k \<leftarrow> sayln ''  nix-env -i PATH    Install package from store path'' k;
          k \<leftarrow> sayln ''  nix-env -e NAME    Remove package from profile'' k;
          k \<leftarrow> sayln ''  nix-env -q         List installed packages'' k;
          k \<leftarrow> sayln ''  nix-env --rollback Rollback to previous generation'' k;
          sayln ''  nix-env -h         Show this help'' k }"

text \<open>\<open>main\<close>; the arguments without the name of the program.\<close>

definition env_main :: "u8 list list \<Rightarrow> kernel \<Rightarrow> (int \<times> kernel) option" where
  "env_main args k =
     (case args of [] \<Rightarrow> map_option (Pair 1) (env_usage k)
      | a # others \<Rightarrow>
          if a = chars ''-h'' \<or> a = chars ''--help'' then map_option (Pair 0) (env_usage k)
          else if a = chars ''-q'' \<or> a = chars ''--query'' then cmd_query k
          else if a = chars ''--rollback'' then cmd_rollback k
          else if a = chars ''-i'' \<or> a = chars ''--install''
          then (case others of [] \<Rightarrow> map_option (Pair 1) (sayln ''Error: -i requires a store path argument.'' k) | b # _ \<Rightarrow> cmd_install b k)
          else if a = chars ''-e'' \<or> a = chars ''--remove''
          then (case others of [] \<Rightarrow> map_option (Pair 1) (sayln ''Error: -e requires a package name.'' k) | b # _ \<Rightarrow> cmd_remove b k)
          else do { k \<leftarrow> u_printf (chars ''Unknown option: %s'' @ [10]) [Str (Some a)] k; map_option (Pair 1) (env_usage k) })"

section \<open>nix-query\<close>

definition NIX_STORE_PATH :: "u8 list" where
  "NIX_STORE_PATH = chars ''/nix/store''"

text \<open>Whether the name has the form of the store, the hash (33 bytes) and the name (256 bytes).\<close>

definition parse_store_path :: "u8 list \<Rightarrow> (bool \<times> u8 list \<times> u8 list) option" where
  "parse_store_path dirname =
     (let (hash, others) = copy_field 32 45 dirname
      in case others of
           c # others \<Rightarrow> if c = 45 then do { name \<leftarrow> u_copy 256 others; Some (True, hash, name) }
                       else do { name \<leftarrow> u_copy 256 dirname; Some (False, [], name) }
         | [] \<Rightarrow> do { name \<leftarrow> u_copy 256 dirname; Some (False, [], name) })"

definition query_row :: "u8 list" where
  "query_row = chars ''%-34s  %s'' @ [10]"

text \<open>The system call, with the name in the entry up to its NUL; then the loops over the entries of the store.\<close>

definition read_dirent :: "u8 list \<Rightarrow> u32 \<Rightarrow> kernel \<Rightarrow> (vfs_dirent option \<times> kernel) option" where
  "read_dirent path index k =
     do { (entry, k) \<leftarrow> vfs_readdir path index k;
          Some (map_option (\<lambda>e. e\<lparr>e_name := until_nul (e_name e)\<rparr>) entry, k) }"

partial_function (option) list_store :: "u32 \<Rightarrow> nat \<Rightarrow> kernel \<Rightarrow> (nat \<times> kernel) option" where
  "list_store index count k =
     do { (entry, k) \<leftarrow> read_dirent NIX_STORE_PATH index k;
          case entry of None \<Rightarrow> Some (count, k)
          | Some e \<Rightarrow> do {
              (valid, hash, name) \<leftarrow> parse_store_path (e_name e);
              k \<leftarrow> u_printf query_row (if valid then [Str (Some hash), Str (Some name)]
                    else [Str (Some (chars ''(raw)'')), Str (Some (e_name e))]) k;
              list_store (index + 1) (count + 1) k } }"

definition cmd_list :: "kernel \<Rightarrow> (int \<times> kernel) option" where
  "cmd_list k =
     do { k \<leftarrow> u_printf (27 # chars ''[1;36m'') [] k;
          k \<leftarrow> u_printf (chars ''Packages in %s:'' @ [10]) [Str (Some NIX_STORE_PATH)] k;
          k \<leftarrow> u_printf (27 # chars ''[0m'') [] k;
          k \<leftarrow> u_printf query_row [Str (Some (chars ''HASH'')), Str (Some (chars ''NAME''))] k;
          k \<leftarrow> u_printf query_row [Str (Some (chars ''----'')), Str (Some (chars ''----''))] k;
          (count, k) \<leftarrow> list_store 0 0 k;
          k \<leftarrow> (if count = 0 then sayln ''  (store is empty)'' k
               else u_printf (10 # chars ''%d package(s) installed.'' @ [10]) [Word (of_nat count)] k);
          Some (0, k) }"

definition show_metadata :: "u8 list \<Rightarrow> kernel \<Rightarrow> kernel option" where
  "show_metadata entry_name k =
     do { (len, meta_path) \<leftarrow> u_snprintf 512 (chars ''%s/%s/.meta'') [Str (Some NIX_STORE_PATH), Str (Some entry_name)];
          (fd, k) \<leftarrow> u_open meta_path 0 k;
          if fd < 0 then Some k
          else do { (n, k) \<leftarrow> u_read fd 511 k;
                    k \<leftarrow> (case n of None \<Rightarrow> Some k
                         | Some buf \<Rightarrow> if buf = [] then Some k
                             else u_printf (chars ''  Metadata:'' @ [10, 37, 115, 10]) [Str (Some (until_nul buf))] k);
                    Some (u_close fd k) } }"

definition show_package :: "vfs_dirent \<Rightarrow> u8 list \<Rightarrow> u8 list \<Rightarrow> kernel \<Rightarrow> kernel option" where
  "show_package e hash name k =
     do { k \<leftarrow> u_printf (27 # chars ''[1;36mPackage: %s'' @ [27] @ chars ''[0m'' @ [10]) [Str (Some name)] k;
          k \<leftarrow> u_printf (chars ''  Store path:  %s/%s'' @ [10]) [Str (Some NIX_STORE_PATH), Str (Some (e_name e))] k;
          k \<leftarrow> u_printf (chars ''  Hash:        %s'' @ [10]) [Str (Some (if hash \<noteq> [] then hash else chars ''(none)''))] k;
          k \<leftarrow> u_printf (chars ''  Type:        %s'' @ [10]) [Str (Some (if e_type e = 2 then chars ''directory'' else chars ''file''))] k;
          show_metadata (e_name e) k }"

text \<open>The first entry whose name or package name it is; the result tells whether there is one.\<close>

partial_function (option) find_package :: "u8 list \<Rightarrow> u32 \<Rightarrow> kernel \<Rightarrow> (bool \<times> kernel) option" where
  "find_package pkg_name index k =
     do { (entry, k) \<leftarrow> read_dirent NIX_STORE_PATH index k;
          case entry of None \<Rightarrow> Some (False, k)
          | Some e \<Rightarrow> do {
              (valid, hash, name) \<leftarrow> parse_store_path (e_name e);
              if name = pkg_name \<or> e_name e = pkg_name then do { k \<leftarrow> show_package e hash name k; Some (True, k) }
              else find_package pkg_name (index + 1) k } }"

definition cmd_info :: "u8 list \<Rightarrow> kernel \<Rightarrow> (int \<times> kernel) option" where
  "cmd_info pkg_name k =
     do { (found, k) \<leftarrow> find_package pkg_name 0 k;
          if found then Some (0, k)
          else do { k \<leftarrow> u_printf (quoted ''Package '' '' not found in store.'') [Str (Some pkg_name)] k; Some (1, k) } }"

definition contains :: "u8 list \<Rightarrow> u8 list \<Rightarrow> bool" where
  "contains str needle \<longleftrightarrow> (\<exists>n \<le> length str. take (length needle) (drop n str) = needle)"

partial_function (option) search_store :: "u8 list \<Rightarrow> u32 \<Rightarrow> nat \<Rightarrow> kernel \<Rightarrow> (nat \<times> kernel) option" where
  "search_store str index count k =
     do { (entry, k) \<leftarrow> read_dirent NIX_STORE_PATH index k;
          case entry of None \<Rightarrow> Some (count, k)
          | Some e \<Rightarrow> do {
              (valid, hash, name) \<leftarrow> parse_store_path (e_name e);
              if contains name str \<or> contains (e_name e) str
              then do { k \<leftarrow> u_printf (chars ''  %s/%s'' @ [10]) [Str (Some NIX_STORE_PATH), Str (Some (e_name e))] k;
                        search_store str (index + 1) (count + 1) k }
              else search_store str (index + 1) count k } }"

definition cmd_search :: "u8 list \<Rightarrow> kernel \<Rightarrow> (int \<times> kernel) option" where
  "cmd_search str k =
     do { k \<leftarrow> u_printf (chars ''Searching for '' @ [39, 37, 115, 39] @ chars ''...'' @ [10, 10]) [Str (Some str)] k;
          (count, k) \<leftarrow> search_store str 0 0 k;
          k \<leftarrow> (if count = 0 then u_printf (quoted ''  No packages matching '' ''.'') [Str (Some str)] k
               else u_printf (10 # chars ''%d result(s).'' @ [10]) [Word (of_nat count)] k);
          Some (0, k) }"

definition query_usage :: "kernel \<Rightarrow> kernel option" where
  "query_usage k =
     do { k \<leftarrow> u_printf (chars ''nix-query '' @ [0xE2, 0x80, 0x94] @ chars '' MonoOS Nix store query tool'' @ [10, 10]) [] k;
          k \<leftarrow> sayln ''Usage:'' k;
          k \<leftarrow> sayln ''  nix-query          List all packages'' k;
          k \<leftarrow> sayln ''  nix-query -p NAME  Show package info'' k;
          k \<leftarrow> sayln ''  nix-query -s TERM  Search packages'' k;
          sayln ''  nix-query -h       Show this help'' k }"

definition query_main :: "u8 list list \<Rightarrow> kernel \<Rightarrow> (int \<times> kernel) option" where
  "query_main args k =
     (case args of [] \<Rightarrow> cmd_list k
      | a # others \<Rightarrow>
          if a = chars ''-h'' \<or> a = chars ''--help'' then map_option (Pair 0) (query_usage k)
          else if a = chars ''-p'' \<and> others \<noteq> [] then cmd_info (hd others) k
          else if a = chars ''-s'' \<and> others \<noteq> [] then cmd_search (hd others) k
          else cmd_info a k)"

section \<open>init\<close>

definition setup_filesystem :: "kernel \<Rightarrow> kernel option" where
  "setup_filesystem k =
     fold (\<lambda>dir r. do { k \<leftarrow> r; (n, k) \<leftarrow> vfs_mkdir (chars dir) k; Some k })
       [''/bin'', ''/etc'', ''/tmp'', ''/var'', ''/var/log'', ''/nix'', ''/nix/store'', ''/nix/var'', ''/nix/var/nix'',
        ''/nix/var/nix/profiles'', ''/nix/var/nix/profiles/default''] (Some k)"

definition write_file :: "string \<Rightarrow> u8 list \<Rightarrow> kernel \<Rightarrow> kernel option" where
  "write_file path data k =
     do { (fd, k) \<leftarrow> u_open (chars path) (0x1 OR 0x40 OR 0x200) k;
          if 0 \<le> fd then do { (n, k) \<leftarrow> u_write fd data k; Some (u_close fd k) } else Some k }"

abbreviation (input) Q :: "u8 list" where "Q \<equiv> [34]"

definition write_config :: "kernel \<Rightarrow> kernel option" where
  "write_config k =
     do { k \<leftarrow> write_file ''/etc/hostname'' (chars ''monoos'' @ [10]) k;
          write_file ''/etc/os-release''
            (chars ''NAME='' @ Q @ chars ''MonoOS'' @ Q @ [10] @ chars ''VERSION='' @ Q @ chars ''0.2.0'' @ Q @ [10] @
             chars ''ID=monoos'' @ [10] @ chars ''PRETTY_NAME='' @ Q @ chars ''MonoOS 0.2.0 (Dori)'' @ Q @ [10] @
             chars ''HOME_URL='' @ Q @ chars ''https://monoos.dev'' @ Q @ [10]) k }"

text \<open>\<open>main\<close> of \<open>init\<close> up to its last loop, in which it waits for children for ever.\<close>

definition init_main :: "kernel \<Rightarrow> kernel option" where
  "init_main k =
     do { k \<leftarrow> u_printf (chars ''[init] MonoOS init (PID %d) starting...'' @ [10]) [Word (process_get_pid (procs k))] k;
          k \<leftarrow> sayln ''[init] Creating directory structure...'' k;
          k \<leftarrow> setup_filesystem k;
          k \<leftarrow> sayln ''[init] Writing system configuration...'' k;
          k \<leftarrow> write_config k;
          k \<leftarrow> sayln ''[init] System initialization complete.'' k;
          sayln ''[init] MonoOS 0.2.0 (Dori kernel) ready.'' k }"

definition hello_main :: "kernel \<Rightarrow> (int \<times> kernel) option" where
  "hello_main k =
     do { k \<leftarrow> sayln ''Hello from userland!'' k;
          k \<leftarrow> u_printf (chars ''PID: %d'' @ [10]) [Word (process_get_pid (procs k))] k;
          k \<leftarrow> sayln ''MonoOS is alive.'' k;
          Some (0, k) }"

section \<open>Writing a file piece by piece\<close>

text \<open>A write within a block that the file has needs no other.\<close>

lemma dorifs_write_mapped:
  fixes s :: "'a fsys_scheme" and offset size' p :: u32
  assumes inv: "file_inv p s" and bound: "unat offset + unat size' \<le> 49152" and len: "unat size' \<le> length buffer"
    and block: "unat offset mod 4096 + unat size' \<le> 4096" and pos: "0 < size'"
    and mapped: "file_byte p s (4096 * (unat offset div 4096)) \<noteq> None"
  shows "\<exists>s'. dorifs_vfs_write p offset size' buffer s = Some (Some size', s')"
proof -
  let ?i = "ino_at s (n_inode (nodes s p))" and ?b = "i_direct (ino_at s (n_inode (nodes s p))) ! (unat offset div 4096)"
  have a: "fs_ok s" "ino_ok s (n_inode (nodes s p))" "file_ok ?i s" using inv by (simp_all add: file_inv_def)
  have disk: "disk_ok (fs_disk s)" using a(1) by (simp add: fs_ok_def)
  note p = file_pos [OF bound pos]
  have "unat (to_copy offset size' 0) = unat size'" using p(5) block by simp
  then have t: "to_copy offset size' 0 = size'" by (simp add: word_unat_eq_iff)
  have b: "?b \<noteq> 0" using mapped by (auto simp: file_byte_def fbyte_def)
  have get: "dorifs_get_block ?i (offset div 4096) s = Some ?b" using get_direct [OF p(3)] p(1) by simp
  have "data_block s ?b" using a(3) b p(2) by (auto simp: file_ok_def inode_wf_def)
  then have rd: "dorifs_read_block ?b s = Some (blk s ?b)" using read_block [OF disk data_block_ok [OF a(1)]] by simp
  have "\<exists>s1. write_loop ?i offset size' buffer 0 s = write_loop ?i offset size' buffer (0 + to_copy offset size' 0) s1"
    using pos b rd get by (subst write_loop.simps) (auto simp: Let_def)
  then obtain s1 where "write_loop ?i offset size' buffer 0 s = write_loop ?i offset size' buffer (0 + to_copy offset size' 0) s1" ..
  moreover have "write_loop ?i offset size' buffer size' s1 = Some (size', ?i, s1)" by (subst write_loop.simps) simp
  ultimately have "write_loop ?i offset size' buffer 0 s = Some (size', ?i, s1)" unfolding t by simp
  moreover have "dorifs_read_inode (n_inode (nodes s p)) s = Some ?i"
    using read_inode a by (auto simp: fs_ok_def)
  ultimately show ?thesis by (simp add: dorifs_vfs_write_def Let_def)
qed

text \<open>A free block of the filesystem, for its data.\<close>

definition has_room :: "'a fsys_scheme \<Rightarrow> bool" where
  "has_room s \<longleftrightarrow> (\<exists>j < total_data_blocks s. \<not> taken s j)"

lemma append_file:
  fixes s :: "'a vfs_scheme"
  assumes inv: "fd_inv fd p s" "unat (fd_pos fd s) = length bs" "file_holds p bs s" and len: "length bs + length c \<le> 49152"
  obtains m s' where "vfs_write fd c (of_nat (length c)) s = Some (int m, s')" "fd_inv fd p s'"
    "unat (fd_pos fd s') = length (bs @ take m c)" "file_holds p (bs @ take m c) s'" "(has_room s \<or> bs \<noteq> []) \<and> length bs + length c \<le> 4096 \<longrightarrow> m = length c"
    "\<And>q. like_node (nodes s' q) (nodes s q)"
proof -
  let ?n = "of_nat (length c) :: u32"
  have n: "unat ?n = length c" using len by (intro unat_of_nat_u32) simp
  have bnd: "unat (fd_pos fd s) + unat ?n \<le> 49152" "unat ?n \<le> length c" using inv(2) len n by simp_all
  obtain m :: u32 and s' where w: "vfs_write fd c ?n s = Some (uint m, s')" "unat m \<le> unat ?n" "fd_inv fd p s'"
    "fd_pos fd s' = fd_pos fd s + m"
    "overwritten (unat (fd_pos fd s)) (unat m) c 49152 (file_byte p s) (file_byte p s')"
    using fd_write_spec [OF inv(1) bnd] by blast
  have h: "length bs = file_len p s" "\<And>k. k < length bs \<Longrightarrow> file_byte p s k = Some (bs ! k)" "n_ops (nodes s p) = Some Dorifs_Ops"
    using inv(3) by (auto simp: file_holds_def)
  have l: "file_len p s' = length bs + unat m" "\<And>q. like_node (nodes s' q) (nodes s q)"
    using fd_write_len [OF inv(1) bnd w(1)] inv(2) h(1) by simp_all
  have mc: "unat m \<le> length c" using w(2) n by simp
  have bytes: "file_byte p s' k = Some ((bs @ take (unat m) c) ! k)" if k: "k < length bs + unat m" for k
  proof -
    have "k < 49152" using k mc len by linarith
    then have o: "if length bs \<le> k \<and> k < length bs + unat m then file_byte p s' k = Some (c ! (k - length bs))
        else file_byte p s' k = file_byte p s k \<or> file_byte p s k = None \<and> file_byte p s' k = Some 0"
      using w(5) inv(2) unfolding overwritten_def by metis
    show ?thesis
    proof (cases "k < length bs")
      case True
      then show ?thesis using o h(2) [OF True] by (auto simp: nth_append)
    next
      case False
      then show ?thesis using o k by (simp add: nth_append)
    qed
  qed
  have holds: "file_holds p (bs @ take (unat m) c) s'"
    using w(3) l(1) mc len bytes by (auto simp: file_holds_def fd_inv_def)
  have pos: "unat (fd_pos fd s') = length (bs @ take (unat m) c)"
    unfolding w(4) using inv(2) mc len by (subst unat_add_u32) simp_all
  have room: "unat m = length c" if r: "has_room s \<or> bs \<noteq> []" "length bs + length c \<le> 4096" "c \<noteq> []"
  proof -
    have d: "fd_open fd s" "f_node (fd_table s ! nat fd) = p" "f_flags (fd_table s ! nat fd) AND VFS_O_APPEND = 0" "file_inv p s" "p \<noteq> 0"
      using inv(1) by (simp_all add: fd_inv_def)
    have "0 < length c" using r(3) by simp
    then have lt: "length bs < 4096" "0 < ?n" using r(2) n by (linarith, simp add: unat_less_u32)
    then have at: "unat (fd_pos fd s) mod 4096 + unat ?n \<le> 4096" "4096 * (unat (fd_pos fd s) div 4096) = 0"
      using inv(2) n r(2) by simp_all
    have "bs \<noteq> [] \<Longrightarrow> file_byte p s 0 \<noteq> None" using h(2) [of 0] by auto
    then obtain t where t: "dorifs_vfs_write p (fd_pos fd s) ?n c s = Some (Some ?n, t)"
      using dorifs_write_full [OF d(4) bnd at(1) lt(2)] dorifs_write_mapped [OF d(4) bnd at(1) lt(2)] r(1) at(2)
      unfolding has_room_def by metis
    have "sint ?n = uint ?n" using n len by (intro sint_small) simp
    then have "fst (the (vfs_write fd c ?n s)) = uint ?n" using d t h(3) by (simp add: vfs_write_def fd_pos_def Let_def)
    then have "m = ?n" using w(1) by (intro word_uint_eqI) simp
    then show ?thesis using n by simp
  qed
  have "(has_room s \<or> bs \<noteq> []) \<and> length bs + length c \<le> 4096 \<longrightarrow> unat m = length c" using room mc by (cases "c = []") auto
  then show thesis using that [of "unat m" s'] w(1,3) pos holds l(2) by simp
qed

section \<open>The programs and the system calls\<close>

lemma program_calls:
  shows "c_string (r_ebx regs) (umem k) = Some path \<Longrightarrow>
      sys_open regs k = map_option (\<lambda>(r, k). (of_int r, k)) (u_open path (r_ecx regs) k)"
    and "length buf = unat (r_edx regs) \<Longrightarrow> fetch (umem k) (r_ecx regs) (length buf) = buf \<Longrightarrow>
      sys_write regs k = map_option (\<lambda>(r, k). (of_int r, k)) (u_write (sint (r_ebx regs)) buf k)"
    and "sys_read regs k = do { (r, k) \<leftarrow> u_read (sint (r_ebx regs)) (r_edx regs) k;
      case r of None \<Rightarrow> Some (- 1, k) | Some bs \<Rightarrow> map_option (Pair (of_nat (length bs))) (copy_out (r_ecx regs) bs k) }"
    and "map_option snd (sys_close regs k) = Some (u_close (sint (r_ebx regs)) k)"
proof -
  assume "c_string (r_ebx regs) (umem k) = Some path"
  then show "sys_open regs k = map_option (\<lambda>(r, k). (of_int r, k)) (u_open path (r_ecx regs) k)"
    by (cases "vfs_open path (r_ecx regs) k") (auto simp: sys_open_def u_open_def)
next
  assume l: "length buf = unat (r_edx regs)" and f: "fetch (umem k) (r_ecx regs) (length buf) = buf"
  have e: "fetch (umem k) (r_ecx regs) (unat (r_edx regs)) = buf" "(of_nat (length buf) :: u32) = r_edx regs"
    using l f by (simp_all add: l)
  then show "sys_write regs k = map_option (\<lambda>(r, k). (of_int r, k)) (u_write (sint (r_ebx regs)) buf k)"
    by (cases "vga_puts buf (console k)"; cases "vfs_write (sint (r_ebx regs)) buf (r_edx regs) k")
      (auto simp: sys_write_def u_write_def Let_def)
next
  show "sys_read regs k = do { (r, k) \<leftarrow> u_read (sint (r_ebx regs)) (r_edx regs) k;
      case r of None \<Rightarrow> Some (- 1, k) | Some bs \<Rightarrow> map_option (Pair (of_nat (length bs))) (copy_out (r_ecx regs) bs k) }"
    by (cases "vfs_read (sint (r_ebx regs)) (r_edx regs) k") (auto simp: sys_read_def u_read_def map_option_case split: option.splits)
next
  show "map_option snd (sys_close regs k) = Some (u_close (sint (r_ebx regs)) k)"
    by (simp add: sys_close_def u_close_def split: prod.splits)
qed

section \<open>The text of the manifest\<close>

definition ok_entry :: "profile_entry \<Rightarrow> bool" where
  "ok_entry e \<longleftrightarrow> length (pe_name e) \<le> 255 \<and> set (pe_name e) \<inter> {0, 9, 10} = {} \<and>
     length (pe_store_path e) \<le> 511 \<and> set (pe_store_path e) \<inter> {0, 10} = {}"

definition entry_text :: "profile_entry \<Rightarrow> u8 list" where
  "entry_text e = pe_name e @ [9] @ pe_store_path e @ [10]"

definition manifest_text :: "profile_entry list \<Rightarrow> u8 list" where
  "manifest_text es = concat (map entry_text (filter pe_active es))"

lemma copy_field_all: "stop \<notin> set xs \<Longrightarrow> length xs \<le> n \<Longrightarrow> copy_field n stop (xs @ stop # ys) = (xs, stop # ys)"
  by (induction xs arbitrary: n) auto

lemma copy_field_end: "stop \<notin> set xs \<Longrightarrow> length xs \<le> n \<Longrightarrow> copy_field n stop xs = (xs, [])"
  by (induction xs arbitrary: n) auto

lemma parse_entry:
  assumes "ok_entry e" "pe_active e"
  shows "parse_manifest_line (pe_name e @ 9 # pe_store_path e) = Some e"
proof -
  have n: "9 \<notin> set (pe_name e)" "length (pe_name e) \<le> 255" "10 \<notin> set (pe_store_path e)" "length (pe_store_path e) \<le> 511"
    using assms(1) by (auto simp: ok_entry_def)
  show ?thesis
    using assms(2) by (simp add: parse_manifest_line_def copy_field_all [OF n(1,2)] copy_field_end [OF n(3,4)])
qed

lemma manifest_lines_step:
  assumes "ok_entry e" "pe_active e" "0 < room"
  shows "manifest_lines room (entry_text e @ others) = e # manifest_lines (room - 1) others"
proof -
  let ?l = "pe_name e @ 9 # pe_store_path e"
  have all: "\<forall>c \<in> set ?l. c \<noteq> 10" using assms(1) by (auto simp: ok_entry_def)
  have "takeWhile (\<lambda>c. c \<noteq> 10) (?l @ 10 # others) = ?l @ takeWhile (\<lambda>c. c \<noteq> 10) (10 # others)"
    using all by (intro takeWhile_append2) blast
  moreover have "dropWhile (\<lambda>c. c \<noteq> 10) (?l @ 10 # others) = dropWhile (\<lambda>c. c \<noteq> 10) (10 # others)"
    using all by (intro dropWhile_append2) blast
  moreover have "entry_text e @ others = ?l @ 10 # others" by (simp add: entry_text_def)
  ultimately show ?thesis
    using assms(3) parse_entry [OF assms(1,2)]
    by (subst manifest_lines.simps) (simp add: Let_def del: dropWhile_eq_Nil_conv takeWhile_eq_Nil_iff)
qed

lemma manifest_lines_text:
  "\<forall>e \<in> set es. ok_entry e \<Longrightarrow> length (filter pe_active es) \<le> room \<Longrightarrow> manifest_lines room (manifest_text es) = filter pe_active es"
proof (induction es arbitrary: room)
  case Nil
  then show ?case by (simp add: manifest_text_def manifest_lines.simps [of _ "[]"])
next
  case (Cons e es)
  show ?case
  proof (cases "pe_active e")
    case True
    then have "manifest_text (e # es) = entry_text e @ manifest_text es" by (simp add: manifest_text_def)
    then show ?thesis using Cons True by (simp add: manifest_lines_step)
  next
    case False
    then show ?thesis using Cons by (simp add: manifest_text_def)
  qed
qed

lemma text_plain: "\<forall>e \<in> set es. ok_entry e \<Longrightarrow> 0 \<notin> set (manifest_text es)"
  by (auto simp: manifest_text_def entry_text_def ok_entry_def)

lemma manifest_line_text:
  assumes "ok_entry e"
  shows "manifest_line e = Some (of_nat (length (entry_text e)), entry_text e)" "length (entry_text e) \<le> 768"
proof -
  show len: "length (entry_text e) \<le> 768" using assms by (simp add: entry_text_def ok_entry_def)
  have s: "directive (115 # fmt) = Some (32, 0, 115, fmt)" for fmt by (simp add: directive_def fmt_pad_def)
  have c: "convert 115 32 0 (Str (Some str) # args) = Some (str, args)" for str args by (simp add: convert_def pad_right_def)
  have f: "format_text [37, 115, 9, 37, 115, 10] [Str (Some (pe_name e)), Str (Some (pe_store_path e))] = Some (entry_text e)"
    by (simp add: s c entry_text_def)
  have "snprintf (replicate 770 0) 770 [37, 115, 9, 37, 115, 10] [Str (Some (pe_name e)), Str (Some (pe_store_path e))] =
      Some (of_nat (length (entry_text e)), entry_text e @ [0] @ drop (length (entry_text e) + 1) (replicate 770 0))"
    using snprintf_result [OF f, of 770 "replicate 770 0"] len by (simp add: Let_def)
  moreover have "0 \<notin> set (entry_text e)" using assms by (auto simp: entry_text_def ok_entry_def)
  then have "until_nul (entry_text e @ 0 # xs) = entry_text e" for xs
    unfolding until_nul_def by (subst takeWhile_append2) auto
  ultimately show "manifest_line e = Some (of_nat (length (entry_text e)), entry_text e)"
    by (simp add: manifest_line_def u_snprintf_def)
qed

section \<open>Writing and reading the manifest\<close>

lemma write_entries_run:
  assumes "fd_inv fd p k" "unat (fd_pos fd k) = length bs" "file_holds p bs k" "fd \<noteq> 1" "fd \<noteq> 2"
    "\<forall>e \<in> set es. ok_entry e" "length bs + length (manifest_text es) \<le> 49152"
  shows "\<exists>t. write_entries fd es k = Some t \<and> fd_inv fd p t \<and> (\<forall>q. like_node (nodes t q) (nodes k q)) \<and>
    ((has_room k \<or> bs \<noteq> []) \<and> length (bs @ manifest_text es) \<le> 4096 \<longrightarrow> file_holds p (bs @ manifest_text es) t)"
  using assms
proof (induction es arbitrary: k bs)
  case Nil
  then show ?case by (simp add: manifest_text_def like_node_def)
next
  case (Cons e es)
  show ?case
  proof (cases "pe_active e")
    case False
    then show ?thesis using Cons by (simp add: manifest_text_def)
  next
    case True
    then have tx: "manifest_text (e # es) = entry_text e @ manifest_text es" by (simp add: manifest_text_def)
    have line: "manifest_line e = Some (of_nat (length (entry_text e)), entry_text e)" "length (entry_text e) \<le> 768"
      using manifest_line_text [of e] Cons.prems(6) by simp_all
    have u: "unat (of_nat (length (entry_text e)) :: u32) = length (entry_text e)" using line(2) by (intro unat_of_nat_u32) simp
    have "length bs + length (entry_text e) \<le> 49152" using Cons.prems(7) tx by simp
    then obtain m s where a: "vfs_write fd (entry_text e) (of_nat (length (entry_text e))) k = Some (int m, s)" "fd_inv fd p s"
      "unat (fd_pos fd s) = length (bs @ take m (entry_text e))" "file_holds p (bs @ take m (entry_text e)) s"
      "(has_room k \<or> bs \<noteq> []) \<and> length bs + length (entry_text e) \<le> 4096 \<longrightarrow> m = length (entry_text e)"
      "\<And>q. like_node (nodes s q) (nodes k q)"
      using append_file [OF Cons.prems(1-3)] by metis
    have "length (bs @ take m (entry_text e)) + length (manifest_text es) \<le> 49152" using Cons.prems(7) tx by simp
    then obtain t where t: "write_entries fd es s = Some t" "fd_inv fd p t" "\<forall>q. like_node (nodes t q) (nodes s q)"
      "(has_room s \<or> bs @ take m (entry_text e) \<noteq> []) \<and> length ((bs @ take m (entry_text e)) @ manifest_text es) \<le> 4096 \<longrightarrow>
        file_holds p ((bs @ take m (entry_text e)) @ manifest_text es) t"
      using Cons.IH [OF a(2-4) Cons.prems(4,5)] Cons.prems(6) by auto
    have "write_entries fd (e # es) k = Some t" using True line(1) u a(1) t(1) Cons.prems(4,5) by (simp add: u_write_def)
    moreover have "like_node (nodes t q) (nodes k q)" for q using like_node_trans [OF t(3) [rule_format] a(6)] .
    moreover have "entry_text e \<noteq> []" by (simp add: entry_text_def)
    then have "(has_room k \<or> bs \<noteq> []) \<and> length (bs @ manifest_text (e # es)) \<le> 4096 \<longrightarrow> file_holds p (bs @ manifest_text (e # es)) t"
      using t(4) a(5) tx by auto
    ultimately show ?thesis using t(2) by auto
  qed
qed

text \<open>
  C29: \<open>nix-env\<close> keeps its manifest. Into an empty file the loop of \<open>write_manifest\<close> always gets its entries,
  also when writes come short; if a data block is free and the text is at most 4095 bytes, the file then
  holds a line for each active entry, and \<open>read\<close> and the parser of \<open>read_manifest\<close> give back exactly the active
  entries, in order. Names are at most 255 bytes without tab, newline and NUL, paths at most 511 without the
  last two; and the descriptor is not one of the two that \<open>write\<close> takes for the console.
\<close>

theorem manifest_kept:
  assumes fd: "fd_inv fd p k" "fd_pos fd k = 0" "file_len p k = 0" "fd \<noteq> 1" "fd \<noteq> 2"
    and es: "\<forall>e \<in> set es. ok_entry e" "length (filter pe_active es) \<le> room" "length (manifest_text es) \<le> 4095"
  shows "\<exists>t. write_entries fd es k = Some t \<and> fd_inv fd p t \<and>
    (has_room k \<longrightarrow> file_holds p (manifest_text es) t \<and>
      (\<exists>buf u. u_read fd 4095 (snd (vfs_seek fd 0 0 t)) = Some (Some buf, u) \<and>
        manifest_lines room (until_nul buf) = filter pe_active es))"
proof -
  have "file_holds p [] k" using fd(1,3) by (simp add: file_holds_def fd_inv_def)
  then obtain t where t: "write_entries fd es k = Some t" "fd_inv fd p t" "has_room k \<longrightarrow> file_holds p (manifest_text es) t"
    using write_entries_run [OF fd(1) _ _ fd(4,5) es(1), of "[]"] fd(2) es(3) by auto
  have "\<exists>buf u. u_read fd 4095 (snd (vfs_seek fd 0 0 t)) = Some (Some buf, u) \<and> manifest_lines room (until_nul buf) = filter pe_active es"
    if h: "file_holds p (manifest_text es) t"
    using fd_read_file(1) [OF fd_inv_reads [OF t(2) h], of 4095] es(3) manifest_lines_text [OF es(1,2)] text_plain [OF es(1)]
    by (simp add: u_read_def until_nul_id)
  then show ?thesis using t by blast
qed

text \<open>The same with the path: what \<open>write_manifest\<close> wrote, \<open>read_manifest\<close> reads if the path leads to the same inode.\<close>

lemma write_read_manifest:
  assumes names: "vfs_resolve_path MANIFEST_PATH k = Some (p, k1)" "p \<noteq> 0" "n_ops (nodes k1 p) = Some Dorifs_Ops"
      "file_inv p k1" "file_len p k1 \<le> 49152"
    and fd: "length (fd_table k) = 64" "j < 64" "\<not> f_in_use (fd_table k ! j)" "fd_alloc k \<noteq> 1" "fd_alloc k \<noteq> 2"
    and es: "\<forall>e \<in> set es. ok_entry e" "length (filter pe_active es) \<le> 128" "length (manifest_text es) \<le> 4095"
  obtains t where "write_manifest es k = Some (0, t)"
    "\<And>q t1. has_room k1 \<Longrightarrow> vfs_resolve_path MANIFEST_PATH t = Some (q, t1) \<Longrightarrow> q \<noteq> 0 \<Longrightarrow> n_ops (nodes t1 q) = Some Dorifs_Ops \<Longrightarrow>
      n_inode (nodes t1 q) = n_inode (nodes k1 p) \<Longrightarrow> \<exists>u. read_manifest 128 t = Some (filter pe_active es, u)"
proof -
  have tab: "fd_table k1 = fd_table k" using more_fields(2) [OF resolve_more [OF names(1)]] .
  let ?fd = "fd_alloc k1" and ?flags = "0x1 OR 0x40 OR 0x200 :: u32"
  have n: "\<not> ?fd < 0" "?fd < 64" "?fd \<noteq> 1" "?fd \<noteq> 2" using fd_alloc_free [of k1 j] tab fd by (simp_all add: fd_alloc_def)
  obtain k2 where k2: "dorifs_vfs_truncate p 0 k1 = Some (0, k2)" "file_inv p k2" "file_len p k2 = 0"
    "\<forall>j. taken k2 j \<longrightarrow> taken k1 j" "\<And>q. like_node (nodes k2 q) (nodes k1 q)" "total_data_blocks k2 = total_data_blocks k1"
    using truncate_core [OF names(4,5), of 0] by auto
  let ?k = "upd_fd ?fd (\<lambda>_. \<lparr>f_node = p, f_offset = 0, f_flags = ?flags, f_in_use = True\<rparr>) k2"
  have tab2: "fd_table k2 = fd_table k" using truncate_more [OF k2(1)] more_fields(2) tab by metis
  have op: "vfs_open MANIFEST_PATH ?flags k = Some (?fd, ?k)" using open_resolved [OF names(1-3) n(1), of ?flags] k2(1) by simp
  have inv: "fd_inv ?fd p ?k" "fd_pos ?fd ?k = 0" "file_len p ?k = 0"
    using n tab2 fd(1) names(2,3) k2(2,3) like_nodeD [OF k2(5)] by (simp_all add: fd_inv_def fd_pos_def upd_fd_table fd_open_def)
  have room: "has_room k1 \<Longrightarrow> has_room ?k" using k2(4,6) by (auto simp: has_room_def total_data_blocks_def taken_def upd_fd_def)
  have "file_holds p [] ?k" using inv(1,3) by (simp add: file_holds_def fd_inv_def)
  then obtain t where t: "write_entries ?fd es ?k = Some t" "fd_inv ?fd p t" "\<forall>q. like_node (nodes t q) (nodes ?k q)"
    "has_room ?k \<longrightarrow> file_holds p (manifest_text es) t"
    using write_entries_run [OF inv(1) _ _ n(3,4) es(1), of "[]"] inv(2) es(3) by auto
  let ?t = "u_close ?fd t"
  have run: "write_manifest es k = Some (0, ?t)" using op n(1) t(1) by (simp add: write_manifest_def u_open_def)
  have close: "?t = upd_fd ?fd (\<lambda>_. free_fd) t" "length (fd_table t) = 64"
    using t(2) by (simp_all add: u_close_def vfs_close_def fd_inv_def)
  have "\<exists>u. read_manifest 128 ?t = Some (filter pe_active es, u)"
    if r: "has_room k1" and q: "vfs_resolve_path MANIFEST_PATH ?t = Some (q, t1)" "q \<noteq> 0" "n_ops (nodes t1 q) = Some Dorifs_Ops"
      "n_inode (nodes t1 q) = n_inode (nodes k1 p)" for q t1
  proof -
    have "disk_part t1 = disk_part t" using resolve_disk [OF q(1)] by (simp add: close(1) disk_part_def upd_fd_def)
    moreover have "n_inode (nodes t1 q) = n_inode (nodes t p)"
      using q(4) like_nodeD [OF t(3) [rule_format, of p]] like_nodeD [OF k2(5) [of p]] by simp
    ultimately have h: "file_holds q (manifest_text es) t1" using file_holds_inode q(3) t(4) room r by blast
    have tab1: "fd_table t1 = (fd_table t)[nat ?fd := free_fd]"
      using more_fields(2) [OF resolve_more [OF q(1)]] by (simp add: close(1) upd_fd_table)
    have f: "\<not> fd_alloc t1 < 0" "fd_alloc t1 < 64"
      using fd_alloc_free [of t1 "nat ?fd"] tab1 close(2) n(1,2) by (simp_all add: free_fd_def)
    let ?u = "upd_fd (fd_alloc t1) (\<lambda>_. \<lparr>f_node = q, f_offset = 0, f_flags = 0, f_in_use = True\<rparr>) t1"
    have o: "vfs_open MANIFEST_PATH 0 ?t = Some (fd_alloc t1, ?u)" using open_resolved [OF q(1-3) f(1), of 0] by simp
    have "file_holds q (manifest_text es) ?u" using h by (subst file_holds_same [of _ t1]) simp_all
    then have "reads (fd_alloc t1) 0 q (manifest_text es) ?u"
      using f tab1 close(2) q(2) by (simp add: reads_def upd_fd_table fd_open_def)
    then obtain u where "vfs_read (fd_alloc t1) 4095 ?u = Some (Some (manifest_text es), u)"
      using fd_read_file(1) [of _ 0 q "manifest_text es" ?u 4095] es(3) by fastforce
    then show ?thesis
      using o f(1) manifest_lines_text [OF es(1,2)] text_plain [OF es(1)] by (simp add: read_manifest_def u_open_def u_read_def until_nul_id)
  qed
  then show thesis using that [OF run] by blast
qed

text \<open>A kernel with the empty file open as descriptor 3; two packages, of which one is removed.\<close>

definition manifest_kernel :: kernel where
  "manifest_kernel = file_vfs_with (kernel.fields (boot_sched 1) (vga_init vga_static) (\<lambda>_. 0))"

theorem manifest_kept_witness:
  "\<exists>t buf u. write_entries 3 [\<lparr>pe_name = [97], pe_store_path = [47, 98], pe_active = True\<rparr>,
       \<lparr>pe_name = [99], pe_store_path = [], pe_active = False\<rparr>] manifest_kernel = Some t \<and>
     u_read 3 4095 (snd (vfs_seek 3 0 0 t)) = Some (Some buf, u) \<and>
     manifest_lines 128 (until_nul buf) = [\<lparr>pe_name = [97], pe_store_path = [47, 98], pe_active = True\<rparr>]"
proof -
  let ?es = "[\<lparr>pe_name = [97], pe_store_path = [47, 98], pe_active = True\<rparr>, \<lparr>pe_name = [99], pe_store_path = [], pe_active = False\<rparr>]"
  have inv: "fd_inv 3 0x20000C manifest_kernel" "fd_pos 3 manifest_kernel = 0"
    unfolding manifest_kernel_def by (rule file_vfs_inv)+
  have len: "file_len 0x20000C manifest_kernel = 0" unfolding manifest_kernel_def by (rule file_vfs_len)
  have "0 < total_data_blocks manifest_kernel" "\<not> taken manifest_kernel 0"
    by (simp_all add: total_data_blocks_def taken_def manifest_kernel_def file_vfs_with_def vfs.defs fsys.defs demo_fs_def
        demo_sb_fields)
  then have "has_room manifest_kernel" unfolding has_room_def by blast
  moreover have "\<forall>e \<in> set ?es. ok_entry e" by (simp add: ok_entry_def)
  moreover have "length (manifest_text ?es) \<le> 4095" by (simp add: manifest_text_def entry_text_def)
  ultimately show ?thesis using manifest_kept [OF inv len, of ?es 128] by auto
qed

section \<open>The rows of the listings\<close>

text \<open>
  \<open>printf\<close> has no \<open>-\<close> flag, so the rows of \<open>nix-env -q\<close> and of \<open>nix-query\<close> show the directive itself and the first column
  as the second.
\<close>

lemma rows_shifted:
  assumes "length a \<le> 400"
  shows "printf (replicate 512 0) env_row [Str (Some a), Str (Some b)] = Some (chars ''%-30s  '' @ a @ [10])"
    "printf (replicate 512 0) query_row [Str (Some a), Str (Some b)] = Some (chars ''%-34s  '' @ a @ [10])"
proof -
  have c: "print_convert True 115 32 0 (Str (Some str) # args) = Some (str, args)" for str args
    by (simp add: print_convert_def convert_def pad_right_def)
  have d: "directive (115 # fmt) = Some (32, 0, 115, fmt)" "directive (45 # fmt) = Some (32, 0, 45, fmt)" for fmt
    by (simp_all add: directive_def fmt_pad_def)
  have e: "print_convert True 45 32 0 args = Some ([37, 45], args)" for args by (simp add: print_convert_def convert_def)
  have t: "print_text True env_row [Str (Some a), Str (Some b)] = Some (chars ''%-30s  '' @ a @ [10])"
    "print_text True query_row [Str (Some a), Str (Some b)] = Some (chars ''%-34s  '' @ a @ [10])"
    by (simp_all add: env_row_def query_row_def chars_def c d e)
  show "printf (replicate 512 0) env_row [Str (Some a), Str (Some b)] = Some (chars ''%-30s  '' @ a @ [10])"
    using print_result [OF _ t(1), of "replicate 512 0"] assms by (simp add: chars_def)
  show "printf (replicate 512 0) query_row [Str (Some a), Str (Some b)] = Some (chars ''%-34s  '' @ a @ [10])"
    using print_result [OF _ t(2), of "replicate 512 0"] assms by (simp add: chars_def)
qed

end
