(* ===== verification/Ports.thy ===== *)
theory Ports
  imports Ata Mouse Vga "HOL-Library.Monad_Syntax"
begin

text \<open>
  The drivers at their ports: \<open>include/io.h\<close> as an interface to the machine, and over it \<open>drivers/serial.c\<close>, the
  register accesses of \<open>drivers/ata.c\<close> with the loops that wait for the disk, the handshake of
  \<open>drivers/mouse.c\<close> and the hardware cursor of \<open>drivers/vga.c\<close>. The devices are parameters, a state with the four
  instructions on it. What is relied on is the protocol of an ATA disk, \<open>ata_device\<close>, that of a serial line, \<open>uart\<close>, and
  the registers of the display, \<open>crtc\<close>; under them the accesses are shown to do what \<open>Ata\<close> says of a read or write as a
  whole. Loops that wait are \<open>None\<close> when they wait for ever.
\<close>

section \<open>Ports\<close>

record 'd bus =
  inb :: "u16 \<Rightarrow> 'd \<Rightarrow> u8 \<times> 'd"
  outb :: "u16 \<Rightarrow> u8 \<Rightarrow> 'd \<Rightarrow> 'd"
  inw :: "u16 \<Rightarrow> 'd \<Rightarrow> u16 \<times> 'd"
  outw :: "u16 \<Rightarrow> u16 \<Rightarrow> 'd \<Rightarrow> 'd"

definition io_wait :: "'d bus \<Rightarrow> 'd \<Rightarrow> 'd" where
  "io_wait b = outb b 0x80 0"

section \<open>The serial line\<close>

abbreviation (input) COM1 :: u16 where "COM1 \<equiv> 0x3F8"

definition serial_is_transmit_empty :: "'d bus \<Rightarrow> 'd \<Rightarrow> bool \<times> 'd" where
  "serial_is_transmit_empty b d = (let (status, d) = inb b (COM1 + 5) d in (status AND 0x20 \<noteq> 0, d))"

definition serial_init :: "'d bus \<Rightarrow> 'd \<Rightarrow> 'd" where
  "serial_init b d =
     (let d = outb b (COM1 + 1) 0x00 d;
          d = outb b (COM1 + 3) 0x80 d;
          d = outb b (COM1 + 0) 0x03 d;
          d = outb b (COM1 + 1) 0x00 d;
          d = outb b (COM1 + 3) 0x03 d;
          d = outb b (COM1 + 2) 0xC7 d
      in outb b (COM1 + 4) 0x0B d)"

partial_function (option) serial_putchar :: "'d bus \<Rightarrow> u8 \<Rightarrow> 'd \<Rightarrow> 'd option" where
  "serial_putchar b c d =
     (let (ready, d) = serial_is_transmit_empty b d in if ready then Some (outb b COM1 c d) else serial_putchar b c d)"

fun serial_puts :: "'d bus \<Rightarrow> u8 list \<Rightarrow> 'd \<Rightarrow> 'd option" where
  "serial_puts b [] d = Some d"
| "serial_puts b (c # str) d =
     do { d \<leftarrow> (if c = 10 then serial_putchar b 13 d else Some d);
          d \<leftarrow> serial_putchar b c d;
          serial_puts b str d }"

definition serial_put_hex :: "'d bus \<Rightarrow> u32 \<Rightarrow> 'd \<Rightarrow> 'd option" where
  "serial_put_hex b value d = serial_puts b (utoa_hex value) d"

section \<open>The disk\<close>

abbreviation (input) ATA_PRIMARY_DATA :: u16 where "ATA_PRIMARY_DATA \<equiv> 0x1F0"
abbreviation (input) ATA_PRIMARY_SECTOR_COUNT :: u16 where "ATA_PRIMARY_SECTOR_COUNT \<equiv> 0x1F2"
abbreviation (input) ATA_PRIMARY_LBA_LO :: u16 where "ATA_PRIMARY_LBA_LO \<equiv> 0x1F3"
abbreviation (input) ATA_PRIMARY_LBA_MID :: u16 where "ATA_PRIMARY_LBA_MID \<equiv> 0x1F4"
abbreviation (input) ATA_PRIMARY_LBA_HI :: u16 where "ATA_PRIMARY_LBA_HI \<equiv> 0x1F5"
abbreviation (input) ATA_PRIMARY_DRIVE_HEAD :: u16 where "ATA_PRIMARY_DRIVE_HEAD \<equiv> 0x1F6"
abbreviation (input) ATA_PRIMARY_STATUS :: u16 where "ATA_PRIMARY_STATUS \<equiv> 0x1F7"
abbreviation (input) ATA_PRIMARY_COMMAND :: u16 where "ATA_PRIMARY_COMMAND \<equiv> 0x1F7"
abbreviation (input) ATA_STATUS_DF :: u8 where "ATA_STATUS_DF \<equiv> 0x20"
abbreviation (input) ATA_STATUS_BSY :: u8 where "ATA_STATUS_BSY \<equiv> 0x80"
abbreviation (input) ATA_DRIVE_MASTER :: u8 where "ATA_DRIVE_MASTER \<equiv> 0xE0"

partial_function (option) ata_wait_bsy :: "'d bus \<Rightarrow> 'd \<Rightarrow> 'd option" where
  "ata_wait_bsy b d =
     (let (status, d) = inb b ATA_PRIMARY_STATUS d in if status AND ATA_STATUS_BSY \<noteq> 0 then ata_wait_bsy b d else Some d)"

partial_function (option) ata_wait_drq :: "'d bus \<Rightarrow> 'd \<Rightarrow> 'd option" where
  "ata_wait_drq b d =
     (let (status, d) = inb b ATA_PRIMARY_STATUS d in if status AND ATA_STATUS_DRQ = 0 then ata_wait_drq b d else Some d)"

definition ata_delay :: "'d bus \<Rightarrow> 'd \<Rightarrow> 'd" where
  "ata_delay b d =
     (let (s, d) = inb b ATA_PRIMARY_STATUS d;
          (s, d) = inb b ATA_PRIMARY_STATUS d;
          (s, d) = inb b ATA_PRIMARY_STATUS d;
          (s, d) = inb b ATA_PRIMARY_STATUS d
      in d)"

definition ata_check_error :: "'d bus \<Rightarrow> 'd \<Rightarrow> bool \<times> 'd" where
  "ata_check_error b d =
     (let (status, d) = inb b ATA_PRIMARY_STATUS d
      in (status AND ATA_STATUS_ERR \<noteq> 0 \<or> status AND ATA_STATUS_DF \<noteq> 0, d))"

text \<open>The address and the count, the same in both commands.\<close>

definition ata_select :: "'d bus \<Rightarrow> u32 \<Rightarrow> u8 \<Rightarrow> 'd \<Rightarrow> 'd" where
  "ata_select b lba count d =
     (let d = outb b ATA_PRIMARY_DRIVE_HEAD (ATA_DRIVE_MASTER OR ucast (drop_bit 24 lba AND 0x0F)) d;
          d = outb b ATA_PRIMARY_SECTOR_COUNT count d;
          d = outb b ATA_PRIMARY_LBA_LO (ucast (lba AND 0xFF)) d;
          d = outb b ATA_PRIMARY_LBA_MID (ucast (drop_bit 8 lba AND 0xFF)) d
      in outb b ATA_PRIMARY_LBA_HI (ucast (drop_bit 16 lba AND 0xFF)) d)"

fun read_words :: "'d bus \<Rightarrow> nat \<Rightarrow> 'd \<Rightarrow> u16 list \<times> 'd" where
  "read_words b 0 d = ([], d)"
| "read_words b (Suc n) d =
     (let (w, d) = inw b ATA_PRIMARY_DATA d; (ws, d) = read_words b n d in (w # ws, d))"

text \<open>The loop over \<open>n\<close> sectors; \<open>None\<close> beside the device is the result \<open>- 1\<close>.\<close>

fun read_sector_loop :: "'d bus \<Rightarrow> nat \<Rightarrow> 'd \<Rightarrow> (u8 list option \<times> 'd) option" where
  "read_sector_loop b 0 d = Some (Some [], d)"
| "read_sector_loop b (Suc n) d =
     do { d \<leftarrow> ata_wait_bsy b d;
          d \<leftarrow> ata_wait_drq b d;
          let (failed, d) = ata_check_error b d;
          if failed then Some (None, d)
          else do { let (ws, d) = read_words b 256 d;
                    (bytes, d) \<leftarrow> read_sector_loop b n d;
                    Some (map_option (append (concat (map le16 ws))) bytes, d) } }"

definition ata_read_ports :: "'d bus \<Rightarrow> ata_drive \<Rightarrow> u32 \<Rightarrow> u8 \<Rightarrow> 'd \<Rightarrow> (u8 list option \<times> 'd) option" where
  "ata_read_ports b primary_drive lba count d =
     (if \<not> present primary_drive then Some (None, d)
      else if count = 0 then Some (None, d)
      else do { d \<leftarrow> ata_wait_bsy b d;
                let d = ata_select b lba count d;
                read_sector_loop b (unat count) (outb b ATA_PRIMARY_COMMAND 0x20 d) })"

definition ata_flush :: "'d bus \<Rightarrow> 'd \<Rightarrow> 'd option" where
  "ata_flush b d =
     (let d = outb b ATA_PRIMARY_DRIVE_HEAD ATA_DRIVE_MASTER d
      in ata_wait_bsy b (outb b ATA_PRIMARY_COMMAND 0xE7 d))"

fun words_of :: "u8 list \<Rightarrow> u16 list" where
  "words_of (x # y # bs) = (ucast x OR push_bit 8 (ucast y)) # words_of bs"
| "words_of bs = []"

definition write_words :: "'d bus \<Rightarrow> u16 list \<Rightarrow> 'd \<Rightarrow> 'd" where
  "write_words b ws d = fold (outw b ATA_PRIMARY_DATA) ws d"

text \<open>The buffer has the bytes of all sectors.\<close>

fun write_sector_loop :: "'d bus \<Rightarrow> nat \<Rightarrow> u8 list \<Rightarrow> 'd \<Rightarrow> 'd option" where
  "write_sector_loop b 0 buf d = Some d"
| "write_sector_loop b (Suc n) buf d =
     do { d \<leftarrow> ata_wait_bsy b d;
          d \<leftarrow> ata_wait_drq b d;
          write_sector_loop b n (drop 512 buf) (write_words b (words_of (take 512 buf)) d) }"

text \<open>The result tells whether it is \<open>0\<close>.\<close>

definition ata_write_ports :: "'d bus \<Rightarrow> ata_drive \<Rightarrow> u32 \<Rightarrow> u8 \<Rightarrow> u8 list \<Rightarrow> 'd \<Rightarrow> (bool \<times> 'd) option" where
  "ata_write_ports b primary_drive lba count buf d =
     (if \<not> present primary_drive then Some (False, d)
      else if count = 0 then Some (False, d)
      else do { d \<leftarrow> ata_wait_bsy b d;
                let d = ata_select b lba count d;
                d \<leftarrow> write_sector_loop b (unat count) buf (outb b ATA_PRIMARY_COMMAND 0x30 d);
                d \<leftarrow> ata_flush b d;
                Some (True, d) })"

text \<open>\<open>ata_init\<close>: the wait for \<open>DRQ\<close> or \<open>ERR\<close> and the steps of the identification.\<close>

partial_function (option) ident_wait :: "'d bus \<Rightarrow> 'd \<Rightarrow> (bool \<times> 'd) option" where
  "ident_wait b d =
     (let (status, d) = inb b ATA_PRIMARY_STATUS d
      in if status AND ATA_STATUS_ERR \<noteq> 0 then Some (False, d)
         else if status AND ATA_STATUS_DRQ \<noteq> 0 then Some (True, d) else ident_wait b d)"

definition identified :: "u16 list \<Rightarrow> ata_drive" where
  "identified ws =
     (let size' = ucast (ws ! ATA_IDENT_MAX_LBA) OR push_bit 16 (ucast (ws ! (ATA_IDENT_MAX_LBA + 1)));
          name = concat (map le16 (bytes_at ATA_IDENT_MODEL 20 ws))
      in \<lparr>present = True, is_master = True, size_sectors = size', size_mb = size' div 2048, model = ata_fix_string name @ [0]\<rparr>)"

definition ata_init_ports :: "'d bus \<Rightarrow> 'd \<Rightarrow> (ata_drive \<times> 'd) option" where
  "ata_init_ports b d =
     (let d = ata_delay b (outb b ATA_PRIMARY_DRIVE_HEAD ATA_DRIVE_MASTER d);
          d = outb b ATA_PRIMARY_SECTOR_COUNT 0 d;
          d = outb b ATA_PRIMARY_LBA_LO 0 d;
          d = outb b ATA_PRIMARY_LBA_MID 0 d;
          d = outb b ATA_PRIMARY_LBA_HI 0 d;
          d = ata_delay b (outb b ATA_PRIMARY_COMMAND 0xEC d);
          (status, d) = inb b ATA_PRIMARY_STATUS d
      in if status = 0 then Some (no_drive, d)
         else do {
           d \<leftarrow> ata_wait_bsy b d;
           let (mid, d) = inb b ATA_PRIMARY_LBA_MID d;
           let (hi, d) = (if mid \<noteq> 0 then (0, d) else inb b ATA_PRIMARY_LBA_HI d);
           if mid \<noteq> 0 \<or> hi \<noteq> 0 then Some (no_drive, d)
           else do {
             (ready, d) \<leftarrow> ident_wait b d;
             if \<not> ready then Some (no_drive, d)
             else let (ws, d) = read_words b 256 d in Some (identified ws, d) } })"

section \<open>The mouse\<close>

text \<open>The waits give up after 100000 readings; \<open>n\<close> is \<open>timeout\<close>.\<close>

fun mouse_wait_write :: "nat \<Rightarrow> 'd bus \<Rightarrow> 'd \<Rightarrow> 'd" where
  "mouse_wait_write 0 b d = d"
| "mouse_wait_write (Suc n) b d = (let (s, d) = inb b 0x64 d in if s AND 0x02 = 0 then d else mouse_wait_write n b d)"

fun mouse_wait_read :: "nat \<Rightarrow> 'd bus \<Rightarrow> 'd \<Rightarrow> 'd" where
  "mouse_wait_read 0 b d = d"
| "mouse_wait_read (Suc n) b d = (let (s, d) = inb b 0x64 d in if s AND 0x01 \<noteq> 0 then d else mouse_wait_read n b d)"

definition mouse_send :: "'d bus \<Rightarrow> u16 \<Rightarrow> u8 \<Rightarrow> 'd \<Rightarrow> 'd" where
  "mouse_send b port v d = outb b port v (mouse_wait_write 100000 b d)"

definition mouse_write_ports :: "'d bus \<Rightarrow> u8 \<Rightarrow> 'd \<Rightarrow> 'd" where
  "mouse_write_ports b v d = mouse_send b 0x60 v (mouse_send b 0x64 0xD4 d)"

definition mouse_read :: "'d bus \<Rightarrow> 'd \<Rightarrow> u8 \<times> 'd" where
  "mouse_read b d = inb b 0x60 (mouse_wait_read 100000 b d)"

definition mouse_init_ports :: "'d bus \<Rightarrow> mouse \<Rightarrow> 'd \<Rightarrow> mouse \<times> 'd" where
  "mouse_init_ports b s d =
     (let s = s\<lparr>mouse_x := 0, mouse_y := 0, left_button := False, right_button := False, middle_button := False,
                mouse_dx := 0, mouse_dy := 0\<rparr>;
          s = s\<lparr>mouse_x := mouse_screen_w s div 2, mouse_y := mouse_screen_h s div 2\<rparr>;
          d = mouse_send b 0x64 0xA8 d;
          d = mouse_send b 0x64 0x20 d;
          (status, d) = mouse_read b d;
          status = (status OR 0x02) AND NOT 0x20;
          d = mouse_send b 0x64 0x60 d;
          d = mouse_send b 0x60 status d;
          (ack, d) = mouse_read b (mouse_write_ports b 0xF6 d);
          (ack, d) = mouse_read b (mouse_write_ports b 0xF4 d)
      in (s, d))"

section \<open>What the driver relies on: the protocol of the disk\<close>

text \<open>
  The state of a disk as its protocol describes it: the registers, for how many more readings of the status it
  is busy, what it does, its sectors, and which of them it cannot read (with a flag for each: whether it offers data
  along with the error) or write; sectors past its end are neither read nor written. It sends the words of a sector, then
  those of the next; it takes the bytes of sectors to be written; or it has stopped with an error, and offers data or not.
\<close>

datatype ata_phase = Resting | Sending "u16 list" "nat list" | Failed bool | Taking "u8 list" "nat list"

record ata_dev =
  dv_regs :: lba_regs
  dv_count :: u8
  dv_busy :: nat
  dv_phase :: ata_phase
  dv_sectors :: "nat \<Rightarrow> u8 list"
  dv_bad :: "nat \<Rightarrow> bool"
  dv_offers :: "nat \<Rightarrow> bool"
  dv_worn :: "nat \<Rightarrow> bool"

definition wanted :: "ata_dev \<Rightarrow> nat list" where
  "wanted v = (let n = device_sector (dv_regs v) in [n..<n + (if dv_count v = 0 then 256 else unat (dv_count v))])"

fun sends :: "ata_dev \<Rightarrow> nat list \<Rightarrow> ata_phase" where
  "sends v [] = Resting"
| "sends v (n # ns) = (if dv_bad v n then Failed (dv_offers v n) else Sending (words_of (dv_sectors v n)) ns)"

fun takes :: "nat list \<Rightarrow> ata_phase" where
  "takes [] = Resting"
| "takes ns = Taking [] ns"

text \<open>
  What the disk may do with the sectors that are left: go on, or stop at once for a sector it cannot read or write. An
  error of a write comes without data.
\<close>

definition reads_on :: "ata_dev \<Rightarrow> nat list \<Rightarrow> ata_phase \<Rightarrow> bool" where
  "reads_on v ns ph \<longleftrightarrow> ph = sends v ns \<or> (\<exists>k. find (dv_bad v) ns = Some k \<and> ph = Failed (dv_offers v k))"

definition writes_on :: "ata_dev \<Rightarrow> nat list \<Rightarrow> ata_phase \<Rightarrow> bool" where
  "writes_on v ns ph \<longleftrightarrow> ph = takes ns \<or> (\<exists>k \<in> set ns. dv_worn v k) \<and> ph = Failed False"

definition has_data :: "ata_phase \<Rightarrow> bool" where
  "has_data ph \<longleftrightarrow> ph \<noteq> Resting \<and> ph \<noteq> Failed False"

definition in_error :: "ata_phase \<Rightarrow> bool" where
  "in_error ph \<longleftrightarrow> (\<exists>e. ph = Failed e)"

definition status_law :: "'d bus \<Rightarrow> ('d \<Rightarrow> ata_dev) \<Rightarrow> bool" where
  "status_law b view \<longleftrightarrow> (\<forall>d s d'. inb b ATA_PRIMARY_STATUS d = (s, d') \<longrightarrow>
     (if 0 < dv_busy (view d) then s AND ATA_STATUS_BSY \<noteq> 0 \<and> view d' = (view d)\<lparr>dv_busy := dv_busy (view d) - 1\<rparr>
      else s AND ATA_STATUS_BSY = 0 \<and> (s AND ATA_STATUS_DRQ \<noteq> 0 \<longleftrightarrow> has_data (dv_phase (view d))) \<and>
        (s AND ATA_STATUS_ERR \<noteq> 0 \<or> s AND ATA_STATUS_DF \<noteq> 0 \<longleftrightarrow> in_error (dv_phase (view d))) \<and> view d' = view d))"

definition medium :: "ata_dev \<Rightarrow> (nat \<Rightarrow> u8 list) \<times> (nat \<Rightarrow> bool) \<times> (nat \<Rightarrow> bool) \<times> (nat \<Rightarrow> bool)" where
  "medium v = (dv_sectors v, dv_bad v, dv_offers v, dv_worn v)"

text \<open>A register written while the disk is busy may be lost; the sectors stay in any case.\<close>

definition register_law :: "'d bus \<Rightarrow> ('d \<Rightarrow> ata_dev) \<Rightarrow> bool" where
  "register_law b view \<longleftrightarrow>
     (\<forall>d x. dv_busy (view d) = 0 \<longrightarrow>
       view (outb b ATA_PRIMARY_SECTOR_COUNT x d) = (view d)\<lparr>dv_count := x\<rparr> \<and>
       view (outb b ATA_PRIMARY_LBA_LO x d) = (view d)\<lparr>dv_regs := (dv_regs (view d))\<lparr>reg_lo := x\<rparr>\<rparr> \<and>
       view (outb b ATA_PRIMARY_LBA_MID x d) = (view d)\<lparr>dv_regs := (dv_regs (view d))\<lparr>reg_mid := x\<rparr>\<rparr> \<and>
       view (outb b ATA_PRIMARY_LBA_HI x d) = (view d)\<lparr>dv_regs := (dv_regs (view d))\<lparr>reg_hi := x\<rparr>\<rparr> \<and>
       view (outb b ATA_PRIMARY_DRIVE_HEAD x d) = (view d)\<lparr>dv_regs := (dv_regs (view d))\<lparr>drive_head := x\<rparr>\<rparr>) \<and>
     (\<forall>d x. medium (view (outb b ATA_PRIMARY_DRIVE_HEAD x d)) = medium (view d))"

definition command_law :: "'d bus \<Rightarrow> ('d \<Rightarrow> ata_dev) \<Rightarrow> bool" where
  "command_law b view \<longleftrightarrow>
     (\<forall>d. dv_busy (view d) = 0 \<longrightarrow>
       (\<exists>n ph. view (outb b ATA_PRIMARY_COMMAND 0x20 d) = (view d)\<lparr>dv_phase := ph, dv_busy := n\<rparr> \<and>
          reads_on (view d) (wanted (view d)) ph) \<and>
       (\<exists>n ph. view (outb b ATA_PRIMARY_COMMAND 0x30 d) = (view d)\<lparr>dv_phase := ph, dv_busy := n\<rparr> \<and>
          writes_on (view d) (wanted (view d)) ph)) \<and>
     (\<forall>d. medium (view (outb b ATA_PRIMARY_COMMAND 0xE7 d)) = medium (view d))"

text \<open>A sector that cannot be written is found out when its bytes have come; what it then holds is left open.\<close>

definition data_law :: "'d bus \<Rightarrow> ('d \<Rightarrow> ata_dev) \<Rightarrow> bool" where
  "data_law b view \<longleftrightarrow>
     (\<forall>d w ws ns. dv_busy (view d) = 0 \<and> dv_phase (view d) = Sending (w # ws) ns \<longrightarrow>
        (\<exists>n ph d'. inw b ATA_PRIMARY_DATA d = (w, d') \<and> reads_on (view d) ns ph \<and>
          view d' = (if ws = [] then (view d)\<lparr>dv_phase := ph, dv_busy := n\<rparr> else (view d)\<lparr>dv_phase := Sending ws ns\<rparr>))) \<and>
     (\<forall>d w bs k ns. dv_busy (view d) = 0 \<and> dv_phase (view d) = Taking bs (k # ns) \<longrightarrow>
        (\<exists>n ph x. length x = 512 \<and> writes_on (view d) ns ph \<and> view (outw b ATA_PRIMARY_DATA w d) =
          (if length bs < 510 then (view d)\<lparr>dv_phase := Taking (bs @ le16 w) (k # ns)\<rparr>
           else if dv_worn (view d) k then (view d)\<lparr>dv_sectors := (dv_sectors (view d))(k := x), dv_phase := Failed False, dv_busy := n\<rparr>
           else (view d)\<lparr>dv_sectors := (dv_sectors (view d))(k := bs @ le16 w), dv_phase := ph, dv_busy := n\<rparr>)))"

definition ata_device :: "'d bus \<Rightarrow> ('d \<Rightarrow> ata_dev) \<Rightarrow> bool" where
  "ata_device b view \<longleftrightarrow> status_law b view \<and> register_law b view \<and> command_law b view \<and> data_law b view"

section \<open>Bytes and words\<close>

lemma le16_word: "le16 (ucast x OR push_bit 8 (ucast y)) = [x, y]" for x y :: u8
proof -
  have "ucast (ucast x OR push_bit 8 (ucast y) :: u16) = x" "ucast (drop_bit 8 (ucast x OR push_bit 8 (ucast y) :: u16)) = y"
    by (intro bit_word_eqI; auto simp: bit_or_iff bit_push_bit_iff bit_ucast_iff bit_drop_bit_eq dest: bit_imp_le_length)+
  then show ?thesis by (simp add: le16_def)
qed

lemma words_of_bytes: "even (length bs) \<Longrightarrow> concat (map le16 (words_of bs)) = bs"
  by (induction bs rule: words_of.induct) (simp_all add: le16_word)

lemma length_words_of: "length (words_of bs) = length bs div 2"
  by (induction bs rule: words_of.induct) auto

lemma length_le16 [simp]: "length (le16 w) = 2"
  by (simp add: le16_def)

section \<open>Waiting\<close>

lemma wait_bsy_returns:
  assumes "status_law b view"
  shows "\<exists>d'. ata_wait_bsy b d = Some d' \<and> view d' = (view d)\<lparr>dv_busy := 0\<rparr>"
proof (induction "dv_busy (view d)" arbitrary: d)
  case 0
  obtain s d' where i: "inb b ATA_PRIMARY_STATUS d = (s, d')" by (metis surj_pair)
  then have "s AND ATA_STATUS_BSY = 0" "view d' = view d" using assms 0 by (auto simp: status_law_def)
  then show ?case using i 0 by (subst ata_wait_bsy.simps) simp
next
  case (Suc n)
  obtain s d' where i: "inb b ATA_PRIMARY_STATUS d = (s, d')" by (metis surj_pair)
  then have s: "s AND ATA_STATUS_BSY \<noteq> 0" "view d' = (view d)\<lparr>dv_busy := n\<rparr>" using assms Suc(2) by (auto simp: status_law_def)
  then have "n = dv_busy (view d')" by simp
  from Suc(1) [OF this] obtain e where "ata_wait_bsy b d' = Some e" "view e = (view d')\<lparr>dv_busy := 0\<rparr>" by blast
  then show ?case using i s by (subst ata_wait_bsy.simps) simp
qed

lemma wait_drq_returns:
  assumes "status_law b view" "dv_busy (view d) = 0" "has_data (dv_phase (view d))"
  shows "\<exists>d'. ata_wait_drq b d = Some d' \<and> view d' = view d"
proof -
  obtain s d' where i: "inb b ATA_PRIMARY_STATUS d = (s, d')" by (metis surj_pair)
  then have "s AND ATA_STATUS_DRQ \<noteq> 0" "view d' = view d" using assms by (auto simp: status_law_def)
  then show ?thesis using i by (subst ata_wait_drq.simps) simp
qed

lemma check_error_view:
  assumes "status_law b view" "dv_busy (view d) = 0"
  shows "\<exists>d'. ata_check_error b d = (in_error (dv_phase (view d)), d') \<and> view d' = view d"
proof -
  obtain s d' where i: "inb b ATA_PRIMARY_STATUS d = (s, d')" by (metis surj_pair)
  then have "(s AND ATA_STATUS_ERR \<noteq> 0 \<or> s AND ATA_STATUS_DF \<noteq> 0 \<longleftrightarrow> in_error (dv_phase (view d))) \<and> view d' = view d"
    using assms(1) [unfolded status_law_def, rule_format, OF i] assms(2) by simp
  then show ?thesis using i by (simp add: ata_check_error_def)
qed

text \<open>A disk that reports an error and has no data keeps the driver waiting: the error is looked at after the wait.\<close>

lemma wait_drq_hangs:
  assumes "status_law b view" "dv_busy (view d) = 0" "\<not> has_data (dv_phase (view d))"
  shows "ata_wait_drq b d = None"
proof -
  have "\<not> (b' = b \<and> dv_busy (view d) = 0 \<and> \<not> has_data (dv_phase (view d)))" if "ata_wait_drq b' d = Some r" for b' d r
  proof (rule ata_wait_drq.raw_induct [where P = "\<lambda>b' d r. \<not> (b' = b \<and> dv_busy (view d) = 0 \<and> \<not> has_data (dv_phase (view d)))",
        OF _ that], goal_cases)
    case (1 wait b' d r)
    obtain s d' where i: "inb b' ATA_PRIMARY_STATUS d = (s, d')" by (metis surj_pair)
    show ?case
    proof
      assume q: "b' = b \<and> dv_busy (view d) = 0 \<and> \<not> has_data (dv_phase (view d))"
      then have "s AND ATA_STATUS_DRQ = 0" "view d' = view d"
        using assms(1) [unfolded status_law_def, rule_format, of d s d'] i by auto
      then show False using 1(1) [of b' d' r] 1(2) i q by simp
    qed
  qed
  from this [of b d] show ?thesis using assms(2,3) by (cases "ata_wait_drq b d") blast+
qed

section \<open>Selecting sectors\<close>

lemma select_view:
  assumes "register_law b view" "dv_busy (view d) = 0"
  shows "view (ata_select b lba count d) = (view d)\<lparr>dv_regs := lba_registers lba, dv_count := count\<rparr>"
proof -
  have r: "view (outb b ATA_PRIMARY_SECTOR_COUNT x d) = (view d)\<lparr>dv_count := x\<rparr>"
    "view (outb b ATA_PRIMARY_LBA_LO x d) = (view d)\<lparr>dv_regs := (dv_regs (view d))\<lparr>reg_lo := x\<rparr>\<rparr>"
    "view (outb b ATA_PRIMARY_LBA_MID x d) = (view d)\<lparr>dv_regs := (dv_regs (view d))\<lparr>reg_mid := x\<rparr>\<rparr>"
    "view (outb b ATA_PRIMARY_LBA_HI x d) = (view d)\<lparr>dv_regs := (dv_regs (view d))\<lparr>reg_hi := x\<rparr>\<rparr>"
    "view (outb b ATA_PRIMARY_DRIVE_HEAD x d) = (view d)\<lparr>dv_regs := (dv_regs (view d))\<lparr>drive_head := x\<rparr>\<rparr>"
    if "dv_busy (view d) = 0" for x d
    using assms(1) that unfolding register_law_def by blast+
  show ?thesis
    using assms(2) by (cases "view d") (simp add: ata_select_def Let_def r lba_registers_def)
qed

lemma wanted_sectors:
  "count \<noteq> 0 \<Longrightarrow> wanted (v\<lparr>dv_regs := lba_registers lba, dv_count := count\<rparr>) =
    [device_sector (lba_registers lba)..<device_sector (lba_registers lba) + unat count]"
  by (simp add: wanted_def Let_def)

text \<open>Whether the next sector can be read or written decides how the disk goes on.\<close>

lemma medium_eq:
  "medium v = medium w \<longleftrightarrow> dv_sectors v = dv_sectors w \<and> dv_bad v = dv_bad w \<and> dv_offers v = dv_offers w \<and> dv_worn v = dv_worn w"
  by (simp add: medium_def)

lemma reads_on_cong: "medium v = medium w \<Longrightarrow> reads_on v ns ph = reads_on w ns ph"
  by (cases ns) (simp_all add: medium_eq reads_on_def)

lemma reads_on_Cons:
  assumes "reads_on v (k # ns) ph"
  shows "ph = Sending (words_of (dv_sectors v k)) ns \<and> \<not> dv_bad v k \<or>
    (\<exists>j. find (dv_bad v) (k # ns) = Some j \<and> ph = Failed (dv_offers v j))"
  using assms by (auto simp: reads_on_def split: if_splits)

section \<open>Reading\<close>

lemma read_words_view:
  assumes "data_law b view" "dv_busy (view d) = 0" "dv_phase (view d) = Sending ws ns" "ws \<noteq> []"
  shows "\<exists>n ph d'. read_words b (length ws) d = (ws, d') \<and> reads_on (view d) ns ph \<and>
    view d' = (view d)\<lparr>dv_phase := ph, dv_busy := n\<rparr>"
  using assms(2-)
proof (induction ws arbitrary: d)
  case (Cons w ws)
  obtain n ph d' where i: "inw b ATA_PRIMARY_DATA d = (w, d')" "reads_on (view d) ns ph"
    "view d' = (if ws = [] then (view d)\<lparr>dv_phase := ph, dv_busy := n\<rparr> else (view d)\<lparr>dv_phase := Sending ws ns\<rparr>)"
    using assms(1) Cons.prems(1,2) unfolding data_law_def by blast
  show ?case
  proof (cases "ws = []")
    case True
    then show ?thesis using i by auto
  next
    case False
    then have "dv_busy (view d') = 0" "dv_phase (view d') = Sending ws ns" using i(3) Cons.prems(1) by simp_all
    then obtain m q e where e: "read_words b (length ws) d' = (ws, e)" "reads_on (view d') ns q"
      "view e = (view d')\<lparr>dv_phase := q, dv_busy := m\<rparr>"
      using Cons.IH False by blast
    have "reads_on (view d) ns q" using e(2) i(3) False reads_on_cong [of "view d'" "view d"] by (simp add: medium_eq)
    moreover have "view e = (view d)\<lparr>dv_phase := q, dv_busy := m\<rparr>" using e(3) i(3) False by (cases "view d") simp
    ultimately show ?thesis using i(1) e(1) by auto
  qed
qed simp

lemma read_loop_view:
  assumes "ata_device b view" "reads_on (view d) ns (dv_phase (view d))" "\<forall>k. length (dv_sectors (view d) k) = 512"
  shows "case find (dv_bad (view d)) ns of
      None \<Rightarrow> \<exists>d'. read_sector_loop b (length ns) d = Some (Some (concat (map (dv_sectors (view d)) ns)), d') \<and> medium (view d') = medium (view d)
    | Some k \<Rightarrow> if dv_offers (view d) k then \<exists>d'. read_sector_loop b (length ns) d = Some (None, d') \<and> medium (view d') = medium (view d)
        else read_sector_loop b (length ns) d = None"
  using assms(2-)
proof (induction ns arbitrary: d)
  case Nil
  then show ?case by simp
next
  case (Cons k ns)
  have law: "status_law b view" "data_law b view" using assms(1) by (simp_all add: ata_device_def)
  obtain d1 where d1: "ata_wait_bsy b d = Some d1" "view d1 = (view d)\<lparr>dv_busy := 0\<rparr>" using wait_bsy_returns [OF law(1)] by blast
  then have m1: "medium (view d1) = medium (view d)" "dv_busy (view d1) = 0" "dv_phase (view d1) = dv_phase (view d)"
    by (simp_all add: medium_eq)
  from reads_on_Cons [OF Cons.prems(1)] show ?case
  proof (elim disjE exE conjE)
    fix j assume j: "find (dv_bad (view d)) (k # ns) = Some j" "dv_phase (view d) = Failed (dv_offers (view d) j)"
    show ?case
    proof (cases "dv_offers (view d) j")
      case True
      then have "has_data (dv_phase (view d1))" using m1 j(2) by (simp add: has_data_def)
      then obtain d2 where d2: "ata_wait_drq b d1 = Some d2" "view d2 = view d1" using wait_drq_returns [OF law(1) m1(2)] by blast
      obtain d3 where "ata_check_error b d2 = (True, d3)" "view d3 = view d1"
        using check_error_view [OF law(1), of d2] d2(2) m1 j(2) by (auto simp: in_error_def)
      then show ?thesis using d1 d2(1) m1 True j(1) by (auto simp del: find.simps)
    next
      case False
      then have "ata_wait_drq b d1 = None" using wait_drq_hangs [OF law(1) m1(2)] m1 j(2) by (simp add: has_data_def)
      then show ?thesis using d1 False j(1) by (simp del: find.simps)
    qed
  next
    let ?ws = "words_of (dv_sectors (view d) k)"
    assume g: "dv_phase (view d) = Sending ?ws ns" "\<not> dv_bad (view d) k"
    then have "has_data (dv_phase (view d1))" using m1 by (simp add: has_data_def)
    then obtain d2 where d2: "ata_wait_drq b d1 = Some d2" "view d2 = view d1" using wait_drq_returns [OF law(1) m1(2)] by blast
    obtain d3 where d3: "ata_check_error b d2 = (False, d3)" "view d3 = view d1"
      using check_error_view [OF law(1), of d2] d2(2) m1 g by (auto simp: in_error_def)
    have l: "length ?ws = 256" using Cons.prems(2) by (simp add: length_words_of)
    have v: "dv_busy (view d3) = 0" "dv_phase (view d3) = Sending ?ws ns" "?ws \<noteq> []" using d3(2) m1 g l by auto
    then obtain n ph d4 where d4: "read_words b 256 d3 = (?ws, d4)" "reads_on (view d3) ns ph"
      "view d4 = (view d3)\<lparr>dv_phase := ph, dv_busy := n\<rparr>"
      using read_words_view [OF law(2) v] l by auto
    have same: "medium (view d4) = medium (view d)" using d4(3) d3(2) m1 by (simp add: medium_eq)
    then have f: "dv_sectors (view d4) = dv_sectors (view d)" "dv_bad (view d4) = dv_bad (view d)" "dv_offers (view d4) = dv_offers (view d)"
      by (simp_all add: medium_eq)
    have "reads_on (view d4) ns (dv_phase (view d4))" using d4(2,3) reads_on_cong [of "view d3" "view d4"] by (simp add: medium_eq)
    then have ih: "case find (dv_bad (view d)) ns of
        None \<Rightarrow> \<exists>d'. read_sector_loop b (length ns) d4 = Some (Some (concat (map (dv_sectors (view d)) ns)), d') \<and> medium (view d') = medium (view d)
      | Some k \<Rightarrow> if dv_offers (view d) k then \<exists>d'. read_sector_loop b (length ns) d4 = Some (None, d') \<and> medium (view d') = medium (view d)
          else read_sector_loop b (length ns) d4 = None"
      using Cons.IH [of d4] Cons.prems(2) unfolding f same by simp
    have bytes: "concat (map le16 ?ws) = dv_sectors (view d) k" using Cons.prems(2) by (intro words_of_bytes) simp
    show ?case
    proof (cases "find (dv_bad (view d)) ns")
      case None
      then show ?thesis using ih d1(1) d2(1) d3(1) d4(1) g(2) bytes by auto
    next
      case (Some j)
      then show ?thesis using ih d1(1) d2(1) d3(1) d4(1) g(2) by (cases "dv_offers (view d) j") auto
    qed
  qed
qed

section \<open>Writing\<close>

lemma write_words_view:
  assumes "data_law b view" "dv_busy (view d) = 0" "dv_phase (view d) = Taking bs (k # ns)" "ws \<noteq> []"
    "length bs + 2 * length ws = 512"
  shows "\<exists>n ph x. writes_on (view d) ns ph \<and> view (write_words b ws d) =
    (if dv_worn (view d) k then (view d)\<lparr>dv_sectors := (dv_sectors (view d))(k := x), dv_phase := Failed False, dv_busy := n\<rparr>
     else (view d)\<lparr>dv_sectors := (dv_sectors (view d))(k := bs @ concat (map le16 ws)), dv_phase := ph, dv_busy := n\<rparr>)"
  using assms(2-)
proof (induction ws arbitrary: d bs)
  case (Cons w ws)
  obtain n ph x where i: "writes_on (view d) ns ph"
    "view (outw b ATA_PRIMARY_DATA w d) = (if length bs < 510 then (view d)\<lparr>dv_phase := Taking (bs @ le16 w) (k # ns)\<rparr>
       else if dv_worn (view d) k then (view d)\<lparr>dv_sectors := (dv_sectors (view d))(k := x), dv_phase := Failed False, dv_busy := n\<rparr>
       else (view d)\<lparr>dv_sectors := (dv_sectors (view d))(k := bs @ le16 w), dv_phase := ph, dv_busy := n\<rparr>)"
    using assms(1) Cons.prems(1,2) unfolding data_law_def by blast
  show ?case
  proof (cases "ws = []")
    case True
    then have "\<not> length bs < 510" using Cons.prems(4) by simp
    then show ?thesis using i True by (intro exI [of _ n] exI [of _ ph] exI [of _ x]) (simp add: write_words_def fun_upd_def)
  next
    case False
    then have "length bs < 510" using Cons.prems(4) by (cases ws) simp_all
    then have v: "view (outw b ATA_PRIMARY_DATA w d) = (view d)\<lparr>dv_phase := Taking (bs @ le16 w) (k # ns)\<rparr>" using i by simp
    let ?d = "outw b ATA_PRIMARY_DATA w d"
    have p: "dv_busy (view ?d) = 0" "dv_phase (view ?d) = Taking (bs @ le16 w) (k # ns)" "length (bs @ le16 w) + 2 * length ws = 512"
      using v Cons.prems(1,4) by simp_all
    from Cons.IH [OF p(1,2) False p(3)] obtain m q y where e: "writes_on (view ?d) ns q" "view (write_words b ws ?d) =
       (if dv_worn (view ?d) k then (view ?d)\<lparr>dv_sectors := (dv_sectors (view ?d))(k := y), dv_phase := Failed False, dv_busy := m\<rparr>
        else (view ?d)\<lparr>dv_sectors := (dv_sectors (view ?d))(k := (bs @ le16 w) @ concat (map le16 ws)), dv_phase := q, dv_busy := m\<rparr>)" by blast
    have "writes_on (view d) ns q" using e(1) v by (simp add: writes_on_def)
    then show ?thesis using e(2) v by (intro exI [of _ m] exI [of _ q] exI [of _ y]) (simp add: write_words_def fun_upd_def)
  qed
qed simp

text \<open>
  The loop that writes: it stores the whole buffer if every sector can be written; it hangs if one before the last cannot; and
  with the last one it either hangs or goes on without a sign.
\<close>

definition written :: "ata_dev \<Rightarrow> nat \<Rightarrow> nat \<Rightarrow> u8 list \<Rightarrow> ata_dev option \<Rightarrow> bool" where
  "written v n f buf r \<longleftrightarrow>
     (let ns = [f..<f + n]; m = store_sectors n f buf (dv_sectors v)
      in if \<forall>k \<in> set ns. \<not> dv_worn v k then \<exists>w. r = Some w \<and> medium w = medium (v\<lparr>dv_sectors := m\<rparr>)
         else if \<exists>k \<in> set (butlast ns). dv_worn v k then r = None
         else r = None \<or> (\<exists>w x. r = Some w \<and> medium w = medium (v\<lparr>dv_sectors := m(last ns := x)\<rparr>)))"

lemma written_cong: "medium v = medium w \<Longrightarrow> written v n f buf r = written w n f buf r"
  by (simp add: written_def medium_def)

lemma written_Suc:
  assumes "written (v\<lparr>dv_sectors := (dv_sectors v)(f := take 512 buf)\<rparr>) n (Suc f) (drop 512 buf) r" "\<not> dv_worn v f"
  shows "written v (Suc n) f buf r"
proof (cases n)
  case 0
  then show ?thesis using assms by (simp add: written_def)
next
  case (Suc m)
  have ns: "[f..<f + Suc n] = f # [Suc f..<Suc f + n]" by (simp add: upt_conv_Cons)
  have ne: "[Suc f..<Suc f + n] \<noteq> []" using Suc by simp
  have b: "butlast (f # [Suc f..<Suc f + n]) = f # butlast [Suc f..<Suc f + n]" "last (f # [Suc f..<Suc f + n]) = last [Suc f..<Suc f + n]"
    using ne by simp_all
  show ?thesis using assms unfolding written_def Let_def ns b by (simp add: medium_eq del: upt_Suc cong: if_cong)
qed

lemma write_loop_view:
  assumes "ata_device b view" "writes_on (view d) [f..<f + n] (dv_phase (view d))" "length buf = 512 * n"
  shows "written (view d) n f buf (map_option view (write_sector_loop b n buf d))"
  using assms(2-)
proof (induction n arbitrary: d f buf)
  case 0
  then show ?case by (simp add: written_def medium_eq)
next
  case (Suc n)
  have law: "status_law b view" "data_law b view" using assms(1) by (simp_all add: ata_device_def)
  have ns: "[f..<f + Suc n] = f # [Suc f..<Suc f + n]" by (simp add: upt_conv_Cons)
  obtain d1 where d1: "ata_wait_bsy b d = Some d1" "view d1 = (view d)\<lparr>dv_busy := 0\<rparr>" using wait_bsy_returns [OF law(1)] by blast
  have busy: "dv_busy (view d1) = 0" "dv_phase (view d1) = dv_phase (view d)" using d1(2) by simp_all
  from Suc.prems(1) consider "dv_phase (view d) = Taking [] (f # [Suc f..<Suc f + n])"
    | "\<exists>k \<in> set [f..<f + Suc n]. dv_worn (view d) k" "dv_phase (view d) = Failed False"
    unfolding writes_on_def ns by auto
  then show ?case
  proof cases
    case 2
    then have "ata_wait_drq b d1 = None" using wait_drq_hangs [OF law(1) busy(1)] busy(2) by (simp add: has_data_def)
    then have "write_sector_loop b (Suc n) buf d = None" using d1(1) by simp
    then show ?thesis using 2(1) unfolding written_def Let_def by (auto simp del: write_sector_loop.simps)
  next
    case 1
    then have "has_data (dv_phase (view d1))" using busy by (simp add: has_data_def)
    then obtain d2 where d2: "ata_wait_drq b d1 = Some d2" "view d2 = view d1" using wait_drq_returns [OF law(1) busy(1)] by blast
    let ?c = "take 512 buf"
    have l: "length ?c = 512" using Suc.prems(2) by simp
    then have ws: "length (words_of ?c) = 256" "concat (map le16 (words_of ?c)) = ?c"
      by (simp only: length_words_of, simp) (rule words_of_bytes, simp only: l, simp)
    have "words_of ?c \<noteq> []" using ws(1) by auto
    have p: "dv_busy (view d2) = 0" "dv_phase (view d2) = Taking [] (f # [Suc f..<Suc f + n])" "length ([] :: u8 list) + 2 * length (words_of ?c) = 512"
      using 1 busy d2(2) ws(1) by (simp_all del: upt_Suc)
    obtain m ph x where w: "writes_on (view d2) [Suc f..<Suc f + n] ph" "view (write_words b (words_of ?c) d2) =
        (if dv_worn (view d2) f then (view d2)\<lparr>dv_sectors := (dv_sectors (view d2))(f := x), dv_phase := Failed False, dv_busy := m\<rparr>
         else (view d2)\<lparr>dv_sectors := (dv_sectors (view d2))(f := ?c), dv_phase := ph, dv_busy := m\<rparr>)"
      using write_words_view [OF law(2) p(1,2) \<open>words_of ?c \<noteq> []\<close> p(3)] unfolding ws(2) append_Nil by blast
    let ?d = "write_words b (words_of ?c) d2"
    have run: "write_sector_loop b (Suc n) buf d = write_sector_loop b n (drop 512 buf) ?d" using d1(1) d2(1) by simp
    have v2: "medium (view d2) = medium (view d)" "dv_worn (view d2) = dv_worn (view d)" "dv_sectors (view d2) = dv_sectors (view d)"
      using d2(2) d1(2) by (simp_all add: medium_eq)
    show ?thesis
    proof (cases "dv_worn (view d) f")
      case True
      have vd: "view ?d = (view d2)\<lparr>dv_sectors := (dv_sectors (view d2))(f := x), dv_phase := Failed False, dv_busy := m\<rparr>"
        using w(2) True v2 by simp
      show ?thesis
      proof (cases n)
        case 0
        have "medium (view ?d) = medium ((view d)\<lparr>dv_sectors := (dv_sectors (view d))(f := x)\<rparr>)" using vd v2 by (simp add: medium_eq)
        then show ?thesis using 0 True run by (auto simp: written_def medium_eq)
      next
        case (Suc k)
        obtain e where e: "ata_wait_bsy b ?d = Some e" "view e = (view ?d)\<lparr>dv_busy := 0\<rparr>" using wait_bsy_returns [OF law(1)] by blast
        then have "ata_wait_drq b e = None" using wait_drq_hangs [OF law(1), of e] vd by (simp add: has_data_def)
        then have "write_sector_loop b (Suc n) buf d = None" using run e(1) Suc by simp
        moreover have "\<exists>k \<in> set (butlast [f..<f + Suc n]). dv_worn (view d) k" using True Suc unfolding ns by simp
        moreover from this have "\<exists>k \<in> set [f..<f + Suc n]. dv_worn (view d) k" using in_set_butlastD by fast
        ultimately show ?thesis unfolding written_def Let_def by (auto simp del: write_sector_loop.simps)
      qed
    next
      case False
      then have vd: "view ?d = (view d2)\<lparr>dv_sectors := (dv_sectors (view d2))(f := ?c), dv_phase := ph, dv_busy := m\<rparr>"
        using w(2) v2 by simp
      have "writes_on (view ?d) [Suc f..<Suc f + n] (dv_phase (view ?d))" using w(1) vd by (simp add: writes_on_def del: upt_Suc)
      then have "written (view ?d) n (Suc f) (drop 512 buf) (map_option view (write_sector_loop b n (drop 512 buf) ?d))"
        using Suc.IH Suc.prems(2) by (simp del: upt_Suc)
      then have "written ((view d)\<lparr>dv_sectors := (dv_sectors (view d))(f := ?c)\<rparr>) n (Suc f) (drop 512 buf) (map_option view (write_sector_loop b n (drop 512 buf) ?d))"
        using vd v2 written_cong [of "view ?d" "(view d)\<lparr>dv_sectors := (dv_sectors (view d))(f := ?c)\<rparr>"] by (simp add: medium_eq)
      from written_Suc [OF this False] show ?thesis unfolding run .
    qed
  qed
qed

section \<open>Commands\<close>

definition disk_of :: "ata_drive \<Rightarrow> ata_dev \<Rightarrow> disk" where
  "disk_of drv v = \<lparr>drive = drv, sectors = dv_sectors v, bad = dv_bad v\<rparr>"

text \<open>The sectors a command with this address and count is about.\<close>

definition sectors_of :: "u32 \<Rightarrow> u8 \<Rightarrow> nat list" where
  "sectors_of lba count = [device_sector (lba_registers lba)..<device_sector (lba_registers lba) + unat count]"

lemma select_command:
  assumes dev: "ata_device b view" and "count \<noteq> 0"
  obtains d1 where "ata_wait_bsy b d = Some d1"
    "\<exists>n ph. view (outb b ATA_PRIMARY_COMMAND 0x20 (ata_select b lba count d1)) =
      (view d)\<lparr>dv_regs := lba_registers lba, dv_count := count, dv_phase := ph, dv_busy := n\<rparr> \<and> reads_on (view d) (sectors_of lba count) ph"
    "\<exists>n ph. view (outb b ATA_PRIMARY_COMMAND 0x30 (ata_select b lba count d1)) =
      (view d)\<lparr>dv_regs := lba_registers lba, dv_count := count, dv_phase := ph, dv_busy := n\<rparr> \<and> writes_on (view d) (sectors_of lba count) ph"
proof -
  have law: "status_law b view" "register_law b view" "command_law b view" using dev by (simp_all add: ata_device_def)
  obtain d1 where d1: "ata_wait_bsy b d = Some d1" "view d1 = (view d)\<lparr>dv_busy := 0\<rparr>" using wait_bsy_returns [OF law(1)] by blast
  let ?s = "ata_select b lba count d1"
  have s: "view ?s = (view d)\<lparr>dv_busy := 0, dv_regs := lba_registers lba, dv_count := count\<rparr>"
    using select_view [OF law(2), of d1] d1(2) by simp
  then have busy: "dv_busy (view ?s) = 0" by simp
  have w: "wanted (view ?s) = sectors_of lba count" unfolding s sectors_of_def by (rule wanted_sectors) (simp add: assms(2))
  have m: "medium (view ?s) = medium (view d)" unfolding s by (simp add: medium_eq)
  from law(3) busy obtain n ph where r: "view (outb b ATA_PRIMARY_COMMAND 0x20 ?s) = (view ?s)\<lparr>dv_phase := ph, dv_busy := n\<rparr>"
    "reads_on (view ?s) (wanted (view ?s)) ph" unfolding command_law_def by blast
  from law(3) busy obtain n' ph' where t: "view (outb b ATA_PRIMARY_COMMAND 0x30 ?s) = (view ?s)\<lparr>dv_phase := ph', dv_busy := n'\<rparr>"
    "writes_on (view ?s) (wanted (view ?s)) ph'" unfolding command_law_def by blast
  show ?thesis
  proof (rule that [OF d1(1)])
    show "\<exists>n ph. view (outb b ATA_PRIMARY_COMMAND 0x20 ?s) =
        (view d)\<lparr>dv_regs := lba_registers lba, dv_count := count, dv_phase := ph, dv_busy := n\<rparr> \<and> reads_on (view d) (sectors_of lba count) ph"
      using r reads_on_cong [OF m] unfolding w by (intro exI [of _ n] exI [of _ ph]) (simp add: s)
    show "\<exists>n ph. view (outb b ATA_PRIMARY_COMMAND 0x30 ?s) =
        (view d)\<lparr>dv_regs := lba_registers lba, dv_count := count, dv_phase := ph, dv_busy := n\<rparr> \<and> writes_on (view d) (sectors_of lba count) ph"
      using t m unfolding w by (intro exI [of _ n'] exI [of _ ph']) (simp add: s writes_on_def medium_eq)
  qed
qed

lemma read_sectors_find:
  assumes "present drv" "count \<noteq> 0"
  shows "ata_read_sectors lba count (disk_of drv v) = (case find (dv_bad v) (sectors_of lba count) of
    None \<Rightarrow> Some (concat (map (dv_sectors v) (sectors_of lba count))) | Some k \<Rightarrow> None)"
proof -
  let ?f = "device_sector (lba_registers lba)"
  have shift: "sectors_of lba count = map (\<lambda>k. k + ?f) [0..<unat count]" by (simp add: sectors_of_def map_add_upt add.commute)
  have "(\<exists>k \<in> set (sectors_of lba count). dv_bad v k) \<longleftrightarrow> (\<exists>k \<in> set [0..<unat count]. dv_bad v (?f + k))"
    "map (dv_sectors v) (sectors_of lba count) = map (\<lambda>k. dv_sectors v (?f + k)) [0..<unat count]"
    unfolding shift set_map bex_simps by (simp_all add: add.commute)
  moreover have "find (dv_bad v) (sectors_of lba count) = None \<longleftrightarrow> \<not> (\<exists>k \<in> set (sectors_of lba count). dv_bad v k)"
    by (auto simp: find_None_iff)
  ultimately show ?thesis using assms by (auto simp: ata_read_sectors_def disk_of_def Let_def split: option.splits)
qed

lemma read_ports_view:
  assumes dev: "ata_device b view" and len: "\<forall>k. length (dv_sectors (view d) k) = 512"
  shows "if present drv \<and> count \<noteq> 0 \<and> (\<exists>k. find (dv_bad (view d)) (sectors_of lba count) = Some k \<and> \<not> dv_offers (view d) k)
    then ata_read_ports b drv lba count d = None
    else \<exists>d'. ata_read_ports b drv lba count d = Some (ata_read_sectors lba count (disk_of drv (view d)), d') \<and>
      disk_of drv (view d') = disk_of drv (view d)"
proof (cases "present drv \<and> count \<noteq> 0")
  case False
  then show ?thesis by (auto simp: ata_read_ports_def ata_read_sectors_def disk_of_def)
next
  case True
  then have "count \<noteq> 0" ..
  from select_command [OF dev this, of d lba] obtain d1 n ph where d1: "ata_wait_bsy b d = Some d1"
    "view (outb b ATA_PRIMARY_COMMAND 0x20 (ata_select b lba count d1)) =
      (view d)\<lparr>dv_regs := lba_registers lba, dv_count := count, dv_phase := ph, dv_busy := n\<rparr>"
    "reads_on (view d) (sectors_of lba count) ph" by metis
  let ?c = "outb b ATA_PRIMARY_COMMAND 0x20 (ata_select b lba count d1)" and ?ns = "sectors_of lba count"
  have m: "medium (view ?c) = medium (view d)" using d1(2) by (simp add: medium_eq)
  then have f: "dv_sectors (view ?c) = dv_sectors (view d)" "dv_bad (view ?c) = dv_bad (view d)" "dv_offers (view ?c) = dv_offers (view d)"
    by (simp_all add: medium_eq)
  have "reads_on (view ?c) ?ns (dv_phase (view ?c))" using d1(2,3) reads_on_cong [OF m] by simp
  from read_loop_view [OF dev this] len have loop: "case find (dv_bad (view d)) ?ns of
      None \<Rightarrow> \<exists>d'. read_sector_loop b (length ?ns) ?c = Some (Some (concat (map (dv_sectors (view d)) ?ns)), d') \<and> medium (view d') = medium (view d)
    | Some k \<Rightarrow> if dv_offers (view d) k then \<exists>d'. read_sector_loop b (length ?ns) ?c = Some (None, d') \<and> medium (view d') = medium (view d)
        else read_sector_loop b (length ?ns) ?c = None"
    unfolding f m by simp
  have "length ?ns = unat count" by (simp add: sectors_of_def)
  then have run: "ata_read_ports b drv lba count d = read_sector_loop b (length ?ns) ?c"
    using True d1(1) by (simp add: ata_read_ports_def Let_def)
  have spec: "ata_read_sectors lba count (disk_of drv (view d)) = (case find (dv_bad (view d)) ?ns of
      None \<Rightarrow> Some (concat (map (dv_sectors (view d)) ?ns)) | Some k \<Rightarrow> None)" using read_sectors_find True by blast
  show ?thesis
  proof (cases "find (dv_bad (view d)) ?ns")
    case None
    then show ?thesis using loop spec unfolding run by (auto simp: disk_of_def medium_eq)
  next
    case (Some k)
    then show ?thesis using loop spec True unfolding run by (cases "dv_offers (view d) k") (auto simp: disk_of_def medium_eq)
  qed
qed

text \<open>What a write does to the disk: everything, nothing to be seen of it because it hangs, or all but its last sector.\<close>

lemma write_ports_view:
  assumes dev: "ata_device b view" and buf: "length buf = 512 * unat count"
  shows "case ata_write_sectors lba count buf (disk_of drv (view d)) of
      None \<Rightarrow> ata_write_ports b drv lba count buf d = Some (False, d)
    | Some k \<Rightarrow> if \<forall>n \<in> set (sectors_of lba count). \<not> dv_worn (view d) n
        then \<exists>d'. ata_write_ports b drv lba count buf d = Some (True, d') \<and> disk_of drv (view d') = k
        else if \<exists>n \<in> set (butlast (sectors_of lba count)). dv_worn (view d) n then ata_write_ports b drv lba count buf d = None
        else ata_write_ports b drv lba count buf d = None \<or>
          (\<exists>d' x. ata_write_ports b drv lba count buf d = Some (True, d') \<and>
             disk_of drv (view d') = k\<lparr>sectors := (sectors k)(last (sectors_of lba count) := x)\<rparr>)"
proof (cases "present drv \<and> count \<noteq> 0")
  case False
  then show ?thesis by (auto simp: ata_write_ports_def ata_write_sectors_def disk_of_def)
next
  case True
  then have "count \<noteq> 0" ..
  from select_command [OF dev this, of d lba] obtain d1 n ph where d1: "ata_wait_bsy b d = Some d1"
    "view (outb b ATA_PRIMARY_COMMAND 0x30 (ata_select b lba count d1)) =
      (view d)\<lparr>dv_regs := lba_registers lba, dv_count := count, dv_phase := ph, dv_busy := n\<rparr>"
    "writes_on (view d) (sectors_of lba count) ph" by metis
  let ?c = "outb b ATA_PRIMARY_COMMAND 0x30 (ata_select b lba count d1)" and ?f = "device_sector (lba_registers lba)"
  have law: "status_law b view" "register_law b view" "command_law b view" using dev by (simp_all add: ata_device_def)
  have "writes_on (view ?c) [?f..<?f + unat count] (dv_phase (view ?c))" using d1(2,3) by (simp add: writes_on_def sectors_of_def)
  from write_loop_view [OF dev this buf] have "written (view ?c) (unat count) ?f buf (map_option view (write_sector_loop b (unat count) buf ?c))" .
  then have w: "written (view d) (unat count) ?f buf (map_option view (write_sector_loop b (unat count) buf ?c))"
    using written_cong [of "view ?c" "view d"] d1(2) by (simp add: medium_eq)
  have flush: "\<exists>e. ata_flush b x = Some e \<and> medium (view e) = medium (view x)" for x
  proof -
    let ?e = "outb b ATA_PRIMARY_COMMAND 0xE7 (outb b ATA_PRIMARY_DRIVE_HEAD ATA_DRIVE_MASTER x)"
    have "medium (view ?e) = medium (view x)" using law(2,3) by (simp add: register_law_def command_law_def)
    moreover obtain e where "ata_wait_bsy b ?e = Some e" "view e = (view ?e)\<lparr>dv_busy := 0\<rparr>" using wait_bsy_returns [OF law(1)] by blast
    ultimately show ?thesis by (auto simp: ata_flush_def medium_eq)
  qed
  have run: "ata_write_ports b drv lba count buf d = (case write_sector_loop b (unat count) buf ?c of
      None \<Rightarrow> None | Some x \<Rightarrow> map_option (Pair True) (ata_flush b x))"
    using True d1(1) by (auto simp: ata_write_ports_def Let_def split: option.splits bind_splits)
  let ?ns = "sectors_of lba count" and ?m = "store_sectors (unat count) ?f buf (dv_sectors (view d))"
  have spec: "ata_write_sectors lba count buf (disk_of drv (view d)) = Some (disk_of drv ((view d)\<lparr>dv_sectors := ?m\<rparr>))"
    using True by (simp add: ata_write_sectors_def disk_of_def)
  have hang: "ata_write_ports b drv lba count buf d = None" if "write_sector_loop b (unat count) buf ?c = None"
    using that run by simp
  have ends: "\<exists>d'. ata_write_ports b drv lba count buf d = Some (True, d') \<and> disk_of drv (view d') = disk_of drv ((view d)\<lparr>dv_sectors := g\<rparr>)"
    if r: "map_option view (write_sector_loop b (unat count) buf ?c) = Some y" and y: "medium y = medium ((view d)\<lparr>dv_sectors := g\<rparr>)" for y g
  proof -
    obtain x where x: "write_sector_loop b (unat count) buf ?c = Some x" "view x = y" using r by auto
    obtain e where e: "ata_flush b x = Some e" "medium (view e) = medium (view x)" using flush by blast
    have "disk_of drv (view e) = disk_of drv ((view d)\<lparr>dv_sectors := g\<rparr>)" using e(2) y x(2) by (simp add: disk_of_def medium_eq)
    then show ?thesis using run x(1) e(1) by simp
  qed
  have w': "if \<forall>k \<in> set ?ns. \<not> dv_worn (view d) k then \<exists>y. map_option view (write_sector_loop b (unat count) buf ?c) = Some y \<and> medium y = medium ((view d)\<lparr>dv_sectors := ?m\<rparr>)
      else if \<exists>k \<in> set (butlast ?ns). dv_worn (view d) k then map_option view (write_sector_loop b (unat count) buf ?c) = None
      else map_option view (write_sector_loop b (unat count) buf ?c) = None \<or>
        (\<exists>y x. map_option view (write_sector_loop b (unat count) buf ?c) = Some y \<and> medium y = medium ((view d)\<lparr>dv_sectors := ?m(last ?ns := x)\<rparr>))"
    using w unfolding written_def Let_def sectors_of_def .
  have put: "disk_of drv ((view d)\<lparr>dv_sectors := ?m(j := x)\<rparr>) = (disk_of drv ((view d)\<lparr>dv_sectors := ?m\<rparr>))\<lparr>sectors := (sectors (disk_of drv ((view d)\<lparr>dv_sectors := ?m\<rparr>)))(j := x)\<rparr>"
    for j x by (simp add: disk_of_def)
  consider "\<forall>k \<in> set ?ns. \<not> dv_worn (view d) k"
    | "\<not> (\<forall>k \<in> set ?ns. \<not> dv_worn (view d) k)" "\<exists>k \<in> set (butlast ?ns). dv_worn (view d) k"
    | "\<not> (\<forall>k \<in> set ?ns. \<not> dv_worn (view d) k)" "\<not> (\<exists>k \<in> set (butlast ?ns). dv_worn (view d) k)" by blast
  then show ?thesis
  proof cases
    case 1
    from w' [unfolded if_P [OF 1]] obtain y where "map_option view (write_sector_loop b (unat count) buf ?c) = Some y"
      "medium y = medium ((view d)\<lparr>dv_sectors := ?m\<rparr>)" by blast
    from ends [OF this] show ?thesis unfolding spec option.case if_P [OF 1] .
  next
    case 2
    from w' [unfolded if_not_P [OF 2(1)] if_P [OF 2(2)]] have "ata_write_ports b drv lba count buf d = None" by (intro hang) simp
    then show ?thesis unfolding spec option.case if_not_P [OF 2(1)] if_P [OF 2(2)] .
  next
    case 3
    note n = if_not_P [OF 3(1)] if_not_P [OF 3(2)]
    from w' [unfolded n] show ?thesis unfolding spec option.case n
    proof (elim disjE exE conjE)
      assume "map_option view (write_sector_loop b (unat count) buf ?c) = None"
      then show "ata_write_ports b drv lba count buf d = None \<or> (\<exists>d' x. ata_write_ports b drv lba count buf d = Some (True, d') \<and>
          disk_of drv (view d') = (disk_of drv ((view d)\<lparr>dv_sectors := ?m\<rparr>))\<lparr>sectors := (sectors (disk_of drv ((view d)\<lparr>dv_sectors := ?m\<rparr>)))(last ?ns := x)\<rparr>)"
        using hang by simp
    next
      fix y x assume "map_option view (write_sector_loop b (unat count) buf ?c) = Some y" "medium y = medium ((view d)\<lparr>dv_sectors := ?m(last ?ns := x)\<rparr>)"
      from ends [OF this] show "ata_write_ports b drv lba count buf d = None \<or> (\<exists>d' x. ata_write_ports b drv lba count buf d = Some (True, d') \<and>
          disk_of drv (view d') = (disk_of drv ((view d)\<lparr>dv_sectors := ?m\<rparr>))\<lparr>sectors := (sectors (disk_of drv ((view d)\<lparr>dv_sectors := ?m\<rparr>)))(last ?ns := x)\<rparr>)"
        unfolding put by blast
    qed
  qed
qed


text \<open>A disk that is busy for two readings after each step.\<close>

definition slow_bus :: "ata_dev bus" where
  "slow_bus =
     \<lparr>inb = (\<lambda>p v. if p \<noteq> ATA_PRIMARY_STATUS then (0, v)
               else if 0 < dv_busy v then (0x80, v\<lparr>dv_busy := dv_busy v - 1\<rparr>)
               else (if dv_phase v = Failed True then 0x49 else if dv_phase v = Failed False then 0x41
                     else if dv_phase v = Resting then 0x40 else 0x48, v)),
      outb = (\<lambda>p x v. if p = ATA_PRIMARY_SECTOR_COUNT then v\<lparr>dv_count := x\<rparr>
               else if p = ATA_PRIMARY_LBA_LO then v\<lparr>dv_regs := (dv_regs v)\<lparr>reg_lo := x\<rparr>\<rparr>
               else if p = ATA_PRIMARY_LBA_MID then v\<lparr>dv_regs := (dv_regs v)\<lparr>reg_mid := x\<rparr>\<rparr>
               else if p = ATA_PRIMARY_LBA_HI then v\<lparr>dv_regs := (dv_regs v)\<lparr>reg_hi := x\<rparr>\<rparr>
               else if p = ATA_PRIMARY_DRIVE_HEAD then v\<lparr>dv_regs := (dv_regs v)\<lparr>drive_head := x\<rparr>\<rparr>
               else if p = ATA_PRIMARY_COMMAND \<and> x = 0x20 then v\<lparr>dv_phase := sends v (wanted v), dv_busy := 2\<rparr>
               else if p = ATA_PRIMARY_COMMAND \<and> x = 0x30 then v\<lparr>dv_phase := takes (wanted v), dv_busy := 2\<rparr> else v),
      inw = (\<lambda>p v. case dv_phase v of
               Sending (w # ws) ns \<Rightarrow> (w, if ws = [] then v\<lparr>dv_phase := sends v ns, dv_busy := 2\<rparr> else v\<lparr>dv_phase := Sending ws ns\<rparr>)
             | _ \<Rightarrow> (0, v)),
      outw = (\<lambda>p w v. case dv_phase v of
               Taking bs (k # ns) \<Rightarrow>
                 (if length bs < 510 then v\<lparr>dv_phase := Taking (bs @ le16 w) (k # ns)\<rparr>
                  else if dv_worn v k then v\<lparr>dv_sectors := (dv_sectors v)(k := replicate 512 0), dv_phase := Failed False, dv_busy := 2\<rparr>
                  else v\<lparr>dv_sectors := (dv_sectors v)(k := bs @ le16 w), dv_phase := takes ns, dv_busy := 2\<rparr>)
             | _ \<Rightarrow> v)\<rparr>"

lemma slow_bus_device: "ata_device slow_bus (\<lambda>v. v)"
  unfolding ata_device_def
proof (intro conjI)
  have err: "ph = Failed True \<or> ph = Failed False \<longleftrightarrow> in_error ph" for ph by (auto simp: in_error_def)
  show "status_law slow_bus (\<lambda>v. v)"
    by (simp add: status_law_def slow_bus_def has_data_def err [symmetric])
  show "register_law slow_bus (\<lambda>v. v)" by (simp add: register_law_def slow_bus_def medium_def)
  show "command_law slow_bus (\<lambda>v. v)" unfolding command_law_def slow_bus_def by (auto simp: reads_on_def writes_on_def)
  have r: "reads_on v ns (sends v ns)" and w: "writes_on v ns (takes ns)" for v ns by (simp_all add: reads_on_def writes_on_def)
  show "data_law slow_bus (\<lambda>v. v)" unfolding data_law_def
  proof (intro conjI allI impI)
    fix d :: ata_dev and w ws ns assume "dv_busy d = 0 \<and> dv_phase d = Sending (w # ws) ns"
    then show "\<exists>n ph d'. inw slow_bus ATA_PRIMARY_DATA d = (w, d') \<and> reads_on d ns ph \<and>
        d' = (if ws = [] then d\<lparr>dv_phase := ph, dv_busy := n\<rparr> else d\<lparr>dv_phase := Sending ws ns\<rparr>)"
      using r by (intro exI [of _ 2] exI [of _ "sends d ns"]) (simp add: slow_bus_def)
  next
    fix d :: ata_dev and w bs k ns assume "dv_busy d = 0 \<and> dv_phase d = Taking bs (k # ns)"
    then show "\<exists>n ph x. length x = 512 \<and> writes_on d ns ph \<and> outw slow_bus ATA_PRIMARY_DATA w d =
        (if length bs < 510 then d\<lparr>dv_phase := Taking (bs @ le16 w) (k # ns)\<rparr>
         else if dv_worn d k then d\<lparr>dv_sectors := (dv_sectors d)(k := x), dv_phase := Failed False, dv_busy := n\<rparr>
         else d\<lparr>dv_sectors := (dv_sectors d)(k := bs @ le16 w), dv_phase := ph, dv_busy := n\<rparr>)"
      using w by (intro exI [of _ 2] exI [of _ "takes ns"] exI [of _ "replicate 512 0"]) (simp add: slow_bus_def)
  qed
qed


section \<open>Identification\<close>

text \<open>What \<open>ata_init\<close> finds is what \<open>Ata.ata_init\<close> makes of some answers of the disk, whatever is at the ports.\<close>

lemma ident_wait_answer:
  assumes "ident_wait b d = Some r"
  shows "\<exists>ss. ident_ready ss = Some (fst r)"
proof (rule ident_wait.raw_induct [where P = "\<lambda>b d r. \<exists>ss. ident_ready ss = Some (fst r)", OF _ assms], goal_cases)
  case (1 wait b d r)
  obtain s d' where i: "inb b ATA_PRIMARY_STATUS d = (s, d')" by (metis surj_pair)
  show ?case
  proof (cases "s AND ATA_STATUS_ERR \<noteq> 0 \<or> s AND ATA_STATUS_DRQ \<noteq> 0")
    case True
    then have "ident_ready [s] = Some (fst r)" using 1(2) i by (auto split: if_splits)
    then show ?thesis by blast
  next
    case False
    then obtain ss where "ident_ready ss = Some (fst r)" using 1(1) [of b d' r] 1(2) i by auto
    then have "ident_ready (s # ss) = Some (fst r)" using False by simp
    then show ?thesis by blast
  qed
qed

lemma ata_init_answer:
  assumes "ata_init_ports b d = Some (drv, d')"
  shows "\<exists>a. ata_init a = Some drv"
proof -
  have none: "\<exists>a. ata_init a = Some no_drive"
    by (rule exI [of _ "\<lparr>first_status = 0, lba_mid = 0, lba_hi = 0, statuses = [], ident = []\<rparr>"]) (simp add: ata_init_def)
  have some: "\<exists>a. ata_init a = Some (identified ws)" if "ident_ready ss = Some True" for ss ws
    by (rule exI [of _ "\<lparr>first_status = 1, lba_mid = 0, lba_hi = 0, statuses = ss, ident = ws\<rparr>"])
      (simp add: ata_init_def that identified_def Let_def)
  have "drv = no_drive \<or> (\<exists>e e' ws. ident_wait b e = Some (True, e') \<and> drv = identified ws)"
    using assms by (auto simp: ata_init_ports_def Let_def case_prod_beta bind_eq_Some_conv split: if_splits)
  then show ?thesis
  proof (elim disjE exE conjE)
    fix e e' ws
    assume i: "ident_wait b e = Some (True, e')" and d: "drv = identified ws"
    obtain ss where "ident_ready ss = Some True" using ident_wait_answer [OF i] by auto
    then show ?thesis unfolding d by (rule some)
  qed (use none in simp)
qed

section \<open>The serial line sends what it is given\<close>

text \<open>A line: for how many readings it is not ready, and what it has sent.\<close>

definition uart :: "'d bus \<Rightarrow> ('d \<Rightarrow> nat \<times> u8 list) \<Rightarrow> bool" where
  "uart b line \<longleftrightarrow>
     (\<forall>d s d'. inb b (COM1 + 5) d = (s, d') \<longrightarrow>
        (if 0 < fst (line d) then s AND 0x20 = 0 \<and> line d' = (fst (line d) - 1, snd (line d)) else s AND 0x20 \<noteq> 0 \<and> line d' = line d)) \<and>
     (\<forall>d c. fst (line d) = 0 \<longrightarrow> (\<exists>n. line (outb b COM1 c d) = (n, snd (line d) @ [c])))"

lemma serial_putchar_sends:
  assumes "uart b line"
  shows "\<exists>d'. serial_putchar b c d = Some d' \<and> snd (line d') = snd (line d) @ [c]"
proof (induction "fst (line d)" arbitrary: d)
  case 0
  obtain s d' where i: "inb b (COM1 + 5) d = (s, d')" by (metis surj_pair)
  have law: "s AND 0x20 \<noteq> 0 \<and> line d' = line d" using assms 0 i by (simp add: uart_def)
  then obtain n where "line (outb b COM1 c d') = (n, snd (line d) @ [c])" using assms 0 unfolding uart_def by metis
  then show ?case using i law by (subst serial_putchar.simps) (simp add: serial_is_transmit_empty_def)
next
  case (Suc n)
  obtain s d' where i: "inb b (COM1 + 5) d = (s, d')" by (metis surj_pair)
  have law: "s AND 0x20 = 0 \<and> line d' = (n, snd (line d))"
    using assms [unfolded uart_def, THEN conjunct1, rule_format, OF i] Suc(2) by simp
  then obtain e where "serial_putchar b c d' = Some e" "snd (line e) = snd (line d) @ [c]" using Suc(1) [of d'] by auto
  then show ?case using i law by (subst serial_putchar.simps) (simp add: serial_is_transmit_empty_def)
qed

lemma serial_puts_sends:
  assumes "uart b line"
  shows "\<exists>d'. serial_puts b str d = Some d' \<and> snd (line d') = snd (line d) @ concat (map (\<lambda>c. if c = 10 then [13, 10] else [c]) str)"
proof (induction str arbitrary: d)
  case (Cons c str)
  obtain d1 where d1: "(if c = 10 then serial_putchar b 13 d else Some d) = Some d1"
    "snd (line d1) = snd (line d) @ (if c = 10 then [13] else [])"
    using serial_putchar_sends [OF assms, of 13 d] by (cases "c = 10") auto
  obtain d2 where d2: "serial_putchar b c d1 = Some d2" "snd (line d2) = snd (line d1) @ [c]"
    using serial_putchar_sends [OF assms] by blast
  obtain d3 where "serial_puts b str d2 = Some d3"
    "snd (line d3) = snd (line d2) @ concat (map (\<lambda>c. if c = 10 then [13, 10] else [c]) str)"
    using Cons by blast
  then show ?case using d1 d2 by auto
qed simp

section \<open>The mouse is sent what it is to be sent\<close>

text \<open>Whatever the controller answers and however long the waits take, the bytes written are those of \<open>Mouse.mouse_init\<close>.\<close>

lemma mouse_waits_keep:
  assumes "\<And>p d. log (snd (inb b p d)) = log d"
  shows "log (mouse_wait_write n b d) = log d" "log (mouse_wait_read n b d) = log d"
proof -
  have "log d' = log d" if "inb b p d = (s, d')" for p d s d' using assms [of p d] that by simp
  then show "log (mouse_wait_write n b d) = log d" "log (mouse_wait_read n b d) = log d"
    by (induction n arbitrary: d) (auto split: prod.splits)
qed

lemma mouse_init_writes:
  assumes "\<And>p d. log (snd (inb b p d)) = log d" "\<And>p v d. log (outb b p v d) = log d @ [(p, v)]"
  shows "\<exists>status. log (snd (mouse_init_ports b s d)) = log d @ fst (mouse_init status s) \<and>
    fst (mouse_init_ports b s d) = snd (mouse_init status s)"
proof -
  have send: "log (mouse_send b p v d) = log d @ [(p, v)]" for p v d
    by (simp add: mouse_send_def assms(2) mouse_waits_keep(1) [OF assms(1)])
  have read: "log (snd (mouse_read b d)) = log d" for d
    by (simp add: mouse_read_def assms(1) mouse_waits_keep(2) [OF assms(1)])
  show ?thesis
    by (rule exI [of _ "fst (mouse_read b (mouse_send b 0x64 0x20 (mouse_send b 0x64 0xA8 d)))"])
      (simp add: mouse_init_ports_def mouse_init_def mouse_write_def mouse_write_ports_def Let_def case_prod_beta send read)
qed

section \<open>The hardware cursor\<close>

definition vga_update_cursor :: "'d bus \<Rightarrow> vga \<Rightarrow> 'd \<Rightarrow> 'd" where
  "vga_update_cursor b v d =
     (let pos = of_int (vga_row v * VGA_WIDTH + vga_col v) :: u16;
          d = outb b 0x3D4 0x0F d;
          d = outb b 0x3D5 (ucast (pos AND 0xFF)) d;
          d = outb b 0x3D4 0x0E d
      in outb b 0x3D5 (ucast (drop_bit 8 pos AND 0xFF)) d)"

text \<open>The controller has numbered registers behind an index; 14 and 15 are the position of the cursor.\<close>

definition crtc :: "'d bus \<Rightarrow> ('d \<Rightarrow> u8 \<times> (u8 \<Rightarrow> u8)) \<Rightarrow> bool" where
  "crtc b regs \<longleftrightarrow> (\<forall>d x. regs (outb b 0x3D4 x d) = (x, snd (regs d)) \<and>
     regs (outb b 0x3D5 x d) = (fst (regs d), (snd (regs d))(fst (regs d) := x)))"

lemma unat_of_int_u16: "0 \<le> i \<Longrightarrow> i < 65536 \<Longrightarrow> unat (of_int i :: u16) = nat i"
  by (simp add: unsigned_of_int take_bit_int_eq_self)

lemma unat_low_byte:
  fixes p :: u16
  shows "unat (ucast (p AND 0xFF) :: u8) = unat p mod 256" "unat (ucast (drop_bit 8 p AND 0xFF) :: u8) = unat p div 256 mod 256"
proof -
  have e: "(ucast (w AND 0xFF) :: u8) = ucast w" for w :: u16
  proof -
    have "(0xFF :: u16) = mask 8" by (simp add: mask_eq_exp_minus_1)
    then have "(ucast (w AND 0xFF) :: u8) = ucast (w AND mask 8)" by simp
    also have "\<dots> = ucast w" by (rule bit_word_eqI) (auto simp: bit_and_iff bit_ucast_iff bit_mask_iff)
    finally show ?thesis .
  qed
  show "unat (ucast (p AND 0xFF) :: u8) = unat p mod 256" "unat (ucast (drop_bit 8 p AND 0xFF) :: u8) = unat p div 256 mod 256"
    unfolding e by (simp_all add: unsigned_ucast_eq take_bit_eq_mod drop_bit_eq_div unat_div)
qed

lemma cursor_shown:
  assumes "crtc b regs" "vga_ok v"
  shows "int (256 * unat (snd (regs (vga_update_cursor b v d)) 14) + unat (snd (regs (vga_update_cursor b v d)) 15)) =
    vga_row v * 80 + vga_col v"
proof -
  let ?n = "nat (vga_row v * 80 + vga_col v)" and ?pos = "of_int (vga_row v * 80 + vga_col v) :: u16"
  have n: "0 \<le> vga_row v * 80 + vga_col v" "vga_row v * 80 + vga_col v < 65536" using assms(2) by (simp_all add: vga_ok_def)
  have pos: "unat ?pos = ?n" by (rule unat_of_int_u16 [OF n])
  have lo: "unat (ucast (?pos AND 0xFF) :: u8) = ?n mod 256" and hi: "unat (ucast (drop_bit 8 ?pos AND 0xFF) :: u8) = ?n div 256 mod 256"
    unfolding pos [symmetric] by (rule unat_low_byte)+
  have "snd (regs (vga_update_cursor b v d)) 14 = ucast (drop_bit 8 ?pos AND 0xFF)"
    "snd (regs (vga_update_cursor b v d)) 15 = ucast (?pos AND 0xFF)"
    using assms(1) by (simp_all add: vga_update_cursor_def crtc_def Let_def)
  moreover have "?n div 256 mod 256 = ?n div 256" using n by (intro mod_less) (simp add: less_mult_imp_div_less nat_less_iff)
  ultimately show ?thesis using lo hi n by simp
qed

end
